(* ===== verification/Go_Prelude.thy ===== *)
theory Go_Prelude
  imports Main "HOL-Library.List_Lexorder" "HOL-Library.Char_ord" "HOL-Library.AList"
begin

text \<open>
  Prelude of the owera-fleet development: the parts of the Go language and of its standard
  library that every component uses.  A Go string is a sequence of bytes, so it is a HOL
  \<open>string\<close> (a list of 8-bit characters) and \<open>length\<close> is Go's \<open>len\<close>; string
  comparison is the lexicographic order of the bytes, which is what
  \<open>HOL-Library.List_Lexorder\<close> and \<open>Char_ord\<close> define.  The theory models the
  functions of package \<open>strings\<close>, \<open>strconv\<close> and \<open>sort\<close> that the
  sources call, the scanner of package \<open>bufio\<close>, and the wrap-around of \<open>int64\<close>,
  and collects the lemmas on them that the components share.
\<close>

named_theorems go_eval \<open>equations that evaluate the library functions on concrete input\<close>
named_theorems io_defs \<open>definitions of the file system primitives\<close>

type_synonym bytes = string
type_synonym path = string
type_synonym ('e, 'a) result = "'e + 'a"

abbreviation err :: "'e \<Rightarrow> ('e, 'a) result" where "err \<equiv> Inl"
abbreviation ok :: "'a \<Rightarrow> ('e, 'a) result" where "ok \<equiv> Inr"

section \<open>Bytes and distinguished characters\<close>

definition byte :: "char \<Rightarrow> nat" where
  "byte c = of_char c"

abbreviation NL :: char where "NL \<equiv> CHR 0x0A"
abbreviation CR :: char where "CR \<equiv> CHR 0x0D"
abbreviation TAB :: char where "TAB \<equiv> CHR 0x09"
abbreviation SP :: char where "SP \<equiv> CHR 0x20"
abbreviation DQ :: char where "DQ \<equiv> CHR 0x22"
abbreviation BSL :: char where "BSL \<equiv> CHR 0x5C"

lemma byte_less_256 [simp]: "byte c < 256"
  by (simp add: byte_def)

lemma byte_inject [simp]: "byte c = byte d \<longleftrightarrow> c = d"
  by (simp add: byte_def)

lemma byte_char_of: "n < 256 \<Longrightarrow> byte (char_of n) = n"
  by (simp add: byte_def)

lemma char_of_byte [simp]: "char_of (byte c) = c"
  by (simp add: byte_def)

section \<open>Lists\<close>

lemma find_Some_unique:
  "x \<in> set xs \<Longrightarrow> P x \<Longrightarrow> (\<And>y. y \<in> set xs \<Longrightarrow> P y \<Longrightarrow> y = x) \<Longrightarrow> find P xs = Some x"
proof (induction xs)
  case (Cons a xs)
  show ?case
  proof (cases "P a")
    case True
    then have "a = x" using Cons.prems(3) [of a] by simp
    with True show ?thesis by simp
  next
    case False
    then have "x \<in> set xs" using Cons.prems(1,2) by auto
    then have "find P xs = Some x"
      using Cons.IH Cons.prems(2,3) by (metis list.set_intros(2))
    with False show ?thesis by simp
  qed
qed simp

section \<open>Package strings\<close>

subsection \<open>Prefixes, suffixes and search\<close>

definition has_prefix :: "string \<Rightarrow> string \<Rightarrow> bool" where
  "has_prefix s p \<longleftrightarrow> take (length p) s = p"

definition has_suffix :: "string \<Rightarrow> string \<Rightarrow> bool" where
  "has_suffix s p \<longleftrightarrow> length p \<le> length s \<and> drop (length s - length p) s = p"

definition trim_prefix :: "string \<Rightarrow> string \<Rightarrow> string" where
  "trim_prefix s p = (if has_prefix s p then drop (length p) s else s)"

definition trim_suffix :: "string \<Rightarrow> string \<Rightarrow> string" where
  "trim_suffix s p = (if has_suffix s p then take (length s - length p) s else s)"

fun index_byte :: "string \<Rightarrow> char \<Rightarrow> nat option" where
  "index_byte [] c = None"
| "index_byte (x # xs) c = (if x = c then Some 0 else map_option Suc (index_byte xs c))"

fun index_str :: "string \<Rightarrow> string \<Rightarrow> nat option" where
  "index_str [] p = (if p = [] then Some 0 else None)"
| "index_str (x # xs) p =
     (if has_prefix (x # xs) p then Some 0 else map_option Suc (index_str xs p))"

definition contains :: "string \<Rightarrow> string \<Rightarrow> bool" where
  "contains s p \<longleftrightarrow> index_str s p \<noteq> None"

definition contains_any :: "string \<Rightarrow> string \<Rightarrow> bool" where
  "contains_any s cs \<longleftrightarrow> list_ex (\<lambda>c. c \<in> set cs) s"

fun last_index_byte :: "string \<Rightarrow> char \<Rightarrow> nat option" where
  "last_index_byte [] c = None"
| "last_index_byte (x # xs) c =
     (case last_index_byte xs c of Some n \<Rightarrow> Some (Suc n) | None \<Rightarrow> if x = c then Some 0 else None)"

lemma has_prefix_append [simp]: "has_prefix (p @ s) p"
  by (simp add: has_prefix_def)

lemma has_suffix_append [simp]: "has_suffix (s @ p) p"
  by (simp add: has_suffix_def)

lemma trim_prefix_append [simp]: "trim_prefix (p @ s) p = s"
  by (simp add: trim_prefix_def)

lemma trim_suffix_append [simp]: "trim_suffix (s @ p) p = s"
  by (simp add: trim_suffix_def)

lemma has_suffixE:
  assumes "has_suffix s p"
  obtains q where "s = q @ p"
  using assms unfolding has_suffix_def by (metis append_take_drop_id)

lemma trim_suffix_inj: "has_suffix a s \<Longrightarrow> has_suffix b s \<Longrightarrow> trim_suffix a s = trim_suffix b s \<Longrightarrow> a = b"
  by (auto elim!: has_suffixE)

lemma trim_suffix_subset: "set (trim_suffix a s) \<subseteq> set a"
  by (auto simp: trim_suffix_def dest: in_set_takeD)

lemma has_prefixE:
  assumes "has_prefix s p"
  obtains q where "s = p @ q"
  using assms unfolding has_prefix_def by (metis append_take_drop_id)

lemma index_byte_None [simp]: "index_byte s c = None \<longleftrightarrow> c \<notin> set s"
  by (induction s) auto

lemma index_byte_append:
  "c \<notin> set s \<Longrightarrow> index_byte (s @ c # t) c = Some (length s)"
  by (induction s) auto

lemma index_byte_Some:
  "index_byte s c = Some n \<Longrightarrow> n < length s \<and> s = take n s @ c # drop (Suc n) s \<and> c \<notin> set (take n s)"
proof (induction s arbitrary: n)
  case (Cons x xs)
  then show ?case by (cases n) (auto split: if_splits)
qed simp

lemma last_index_byte_None [simp]: "last_index_byte s c = None \<longleftrightarrow> c \<notin> set s"
  by (induction s) (auto split: option.splits)

subsection \<open>White space\<close>

text \<open>
  \<open>sp_len s\<close> is the length in bytes of the white-space rune (\<open>unicode.IsSpace\<close>) that
  starts \<open>s\<close>, 0 if there is none; \<open>rsp_len\<close> is the same for the last rune of a
  string, given the string reversed.  Besides the six ASCII characters these are U+0085, U+00A0,
  U+1680, U+2000 to U+200A, U+2028, U+2029, U+202F, U+205F and U+3000 in UTF-8.
\<close>

definition ascii_space :: "char \<Rightarrow> bool" where
  "ascii_space c \<longleftrightarrow> (9 \<le> byte c \<and> byte c \<le> 13) \<or> byte c = 32"

definition space2 :: "nat \<Rightarrow> nat \<Rightarrow> bool" where
  "space2 a b \<longleftrightarrow> a = 0xC2 \<and> (b = 0x85 \<or> b = 0xA0)"

definition space3 :: "nat \<Rightarrow> nat \<Rightarrow> nat \<Rightarrow> bool" where
  "space3 a b c \<longleftrightarrow>
     (a = 0xE1 \<and> b = 0x9A \<and> c = 0x80)
   \<or> (a = 0xE2 \<and> b = 0x80 \<and> (0x80 \<le> c \<and> c \<le> 0x8A \<or> c = 0xA8 \<or> c = 0xA9 \<or> c = 0xAF))
   \<or> (a = 0xE2 \<and> b = 0x81 \<and> c = 0x9F)
   \<or> (a = 0xE3 \<and> b = 0x80 \<and> c = 0x80)"

definition sp_len :: "string \<Rightarrow> nat" where
  "sp_len s = (case s of [] \<Rightarrow> 0
     | a # r \<Rightarrow> if ascii_space a then 1
       else (case r of [] \<Rightarrow> 0
         | b # q \<Rightarrow> if space2 (byte a) (byte b) then 2
           else (case q of [] \<Rightarrow> 0
             | c # _ \<Rightarrow> if space3 (byte a) (byte b) (byte c) then 3 else 0)))"

definition rsp_len :: "string \<Rightarrow> nat" where
  "rsp_len s = (case s of [] \<Rightarrow> 0
     | a # r \<Rightarrow> if ascii_space a then 1
       else (case r of [] \<Rightarrow> 0
         | b # q \<Rightarrow> if space2 (byte b) (byte a) then 2
           else (case q of [] \<Rightarrow> 0
             | c # _ \<Rightarrow> if space3 (byte c) (byte b) (byte a) then 3 else 0)))"

lemma sp_len_le: "sp_len s \<le> length s"
  by (auto simp: sp_len_def split: list.splits)

lemma rsp_len_le: "rsp_len s \<le> length s"
  by (auto simp: rsp_len_def split: list.splits)

function trim_left_space :: "string \<Rightarrow> string" where
  "trim_left_space s = (if sp_len s = 0 then s else trim_left_space (drop (sp_len s) s))"
  by pat_completeness auto
termination
  by (relation "measure length") (use sp_len_le in \<open>auto simp: sp_len_def split: list.splits\<close>)

function trim_rev_space :: "string \<Rightarrow> string" where
  "trim_rev_space s = (if rsp_len s = 0 then s else trim_rev_space (drop (rsp_len s) s))"
  by pat_completeness auto
termination
  by (relation "measure length") (use rsp_len_le in \<open>auto simp: rsp_len_def split: list.splits\<close>)

declare trim_left_space.simps [simp del] trim_rev_space.simps [simp del]

definition trim_space :: "string \<Rightarrow> string" where
  "trim_space s = rev (trim_rev_space (rev (trim_left_space s)))"

text \<open>A string whose ends are not white space is left alone.\<close>

lemma trim_space_id:
  "sp_len s = 0 \<Longrightarrow> rsp_len (rev s) = 0 \<Longrightarrow> trim_space s = s"
  by (simp add: trim_space_def trim_left_space.simps [of s] trim_rev_space.simps [of "rev s"])

lemma trim_space_Nil [simp]: "trim_space [] = []"
  by (simp add: trim_space_id sp_len_def rsp_len_def)

lemma sp_len_ascii: "byte c < 128 \<Longrightarrow> \<not> ascii_space c \<Longrightarrow> sp_len (c # s) = 0"
  by (auto simp: sp_len_def space2_def space3_def split: list.splits)

lemma rsp_len_ascii: "byte c < 128 \<Longrightarrow> \<not> ascii_space c \<Longrightarrow> rsp_len (c # s) = 0"
  by (auto simp: rsp_len_def space2_def space3_def split: list.splits)

text \<open>White space of several bytes does not reach over an ASCII byte.\<close>

lemma space_ascii:
  "byte c < 128 \<Longrightarrow> \<not> space2 x (byte c)" "byte c < 128 \<Longrightarrow> \<not> space2 (byte c) x"
  "byte c < 128 \<Longrightarrow> \<not> space3 x (byte c) y" "byte c < 128 \<Longrightarrow> \<not> space3 (byte c) x y" "byte c < 128 \<Longrightarrow> \<not> space3 x y (byte c)"
  by (auto simp: space2_def space3_def)

lemma sp_len_sep: "byte c < 128 \<Longrightarrow> sp_len s = 0 \<Longrightarrow> s \<noteq> [] \<Longrightarrow> sp_len (s @ c # t) = 0"
  by (cases s rule: remdups_adj.cases; cases "tl (tl s)"; cases t) (simp_all add: sp_len_def space_ascii split: if_splits)

lemma rsp_len_sep: "byte c < 128 \<Longrightarrow> rsp_len s = 0 \<Longrightarrow> s \<noteq> [] \<Longrightarrow> rsp_len (s @ c # t) = 0"
  by (cases s rule: remdups_adj.cases; cases "tl (tl s)"; cases t) (simp_all add: rsp_len_def space_ascii split: if_splits)

lemma trim_space_ascii_ends:
  assumes "byte c < 128" "\<not> ascii_space c" "byte d < 128" "\<not> ascii_space d"
  shows "trim_space (c # s @ [d]) = c # s @ [d]"
  using assms by (intro trim_space_id) (simp_all add: sp_len_ascii rsp_len_ascii)

text \<open>Trimming only removes: the result is a contiguous part of the input.\<close>

lemma trim_left_space_suffix: "\<exists>p. s = p @ trim_left_space s"
proof (induction s rule: trim_left_space.induct)
  case (1 s)
  show ?case
  proof (cases "sp_len s = 0")
    case True
    then show ?thesis by (simp add: trim_left_space.simps [of s])
  next
    case False
    with 1 obtain p where "drop (sp_len s) s = p @ trim_left_space (drop (sp_len s) s)" by blast
    then have "s = (take (sp_len s) s @ p) @ trim_left_space (drop (sp_len s) s)"
      by (metis append.assoc append_take_drop_id)
    moreover have "trim_left_space s = trim_left_space (drop (sp_len s) s)"
      using False by (simp add: trim_left_space.simps [of s])
    ultimately show ?thesis by metis
  qed
qed

lemma trim_rev_space_suffix: "\<exists>p. s = p @ trim_rev_space s"
proof (induction s rule: trim_rev_space.induct)
  case (1 s)
  show ?case
  proof (cases "rsp_len s = 0")
    case True
    then show ?thesis by (simp add: trim_rev_space.simps [of s])
  next
    case False
    with 1 obtain p where "drop (rsp_len s) s = p @ trim_rev_space (drop (rsp_len s) s)" by blast
    then have "s = (take (rsp_len s) s @ p) @ trim_rev_space (drop (rsp_len s) s)"
      by (metis append.assoc append_take_drop_id)
    moreover have "trim_rev_space s = trim_rev_space (drop (rsp_len s) s)"
      using False by (simp add: trim_rev_space.simps [of s])
    ultimately show ?thesis by metis
  qed
qed

lemma trim_space_infix: "\<exists>p q. s = p @ trim_space s @ q"
proof -
  obtain p where p: "s = p @ trim_left_space s" using trim_left_space_suffix by blast
  obtain q where "rev (trim_left_space s) = q @ trim_rev_space (rev (trim_left_space s))"
    using trim_rev_space_suffix by blast
  then have "trim_left_space s = trim_space s @ rev q"
    unfolding trim_space_def by (metis rev_append rev_rev_ident)
  with p show ?thesis by metis
qed

lemma set_trim_space: "set (trim_space s) \<subseteq> set s"
  using trim_space_infix [of s] by (metis set_append Un_iff subsetI)

lemma trim_left_space_length: "length (trim_left_space s) \<le> length s"
  using trim_left_space_suffix [of s] by (metis length_append le_add2)

lemma trim_rev_space_length: "length (trim_rev_space s) \<le> length s"
  using trim_rev_space_suffix [of s] by (metis length_append le_add2)

lemma trim_space_length: "length (trim_space s) \<le> length s"
  by (metis le_trans length_rev trim_left_space_length trim_rev_space_length trim_space_def)

text \<open>Conversely a trimmed string has no white space at either end.\<close>

lemma trim_left_space_sp_len: "sp_len (trim_left_space s) = 0"
proof (induction s rule: trim_left_space.induct)
  case (1 s)
  then show ?case by (cases "sp_len s = 0") (simp_all add: trim_left_space.simps [of s])
qed

lemma trim_rev_space_rsp_len: "rsp_len (trim_rev_space s) = 0"
proof (induction s rule: trim_rev_space.induct)
  case (1 s)
  then show ?case by (cases "rsp_len s = 0") (simp_all add: trim_rev_space.simps [of s])
qed

lemma sp_len_prefix: "sp_len (s @ t) = 0 \<Longrightarrow> sp_len s = 0"
  by (auto simp: sp_len_def split: list.splits if_splits)

lemma trim_space_ends: "sp_len (trim_space s) = 0" "rsp_len (rev (trim_space s)) = 0"
proof -
  obtain q where "rev (trim_left_space s) = q @ trim_rev_space (rev (trim_left_space s))"
    using trim_rev_space_suffix by blast
  then have "trim_left_space s = trim_space s @ rev q"
    unfolding trim_space_def by (metis rev_append rev_rev_ident)
  then show "sp_len (trim_space s) = 0" using trim_left_space_sp_len sp_len_prefix by metis
  show "rsp_len (rev (trim_space s)) = 0" by (simp add: trim_space_def trim_rev_space_rsp_len)
qed

lemma trim_space_sp_len: "trim_space s = s \<Longrightarrow> sp_len s = 0"
  using trim_space_ends(1) [of s] by simp

lemma trim_space_rsp_len: "trim_space s = s \<Longrightarrow> rsp_len (rev s) = 0"
  using trim_space_ends(2) [of s] by simp

lemma trim_space_idem [simp]: "trim_space (trim_space s) = trim_space s"
  by (intro trim_space_id trim_space_ends)

lemma space2_hi: "space2 a b \<Longrightarrow> 128 \<le> a \<and> 128 \<le> b"
  by (auto simp: space2_def)

lemma space3_hi: "space3 a b c \<Longrightarrow> 128 \<le> a \<and> 128 \<le> b \<and> 128 \<le> c"
  by (auto simp: space3_def)

lemma list_cases3:
  obtains "s = []" | a where "s = [a]" | a b where "s = [a, b]" | a b c r where "s = a # b # c # r"
  by (cases s rule: remdups_adj.cases, simp_all) (metis list.exhaust)

lemma sp_len_append_ascii:
  assumes "sp_len s = 0" "s \<noteq> []" "byte c < 128"
  shows "sp_len (s @ c # t) = 0"
  using assms space2_hi space3_hi
  by (cases s rule: list_cases3) (fastforce simp: sp_len_def split: list.splits if_splits)+

lemma rsp_len_append_ascii:
  assumes "rsp_len s = 0" "s \<noteq> []" "byte c < 128"
  shows "rsp_len (s @ c # t) = 0"
  using assms space2_hi space3_hi
  by (cases s rule: list_cases3) (fastforce simp: rsp_len_def split: list.splits if_splits)+

lemma trim_space_last_CR:
  assumes "trim_space s = s" "s \<noteq> []"
  shows "last s \<noteq> CR"
proof
  assume "last s = CR"
  then obtain r where "rev s = CR # r" using assms(2) by (metis hd_rev list.collapse rev_is_Nil_conv)
  then have "rsp_len (rev s) = 1" by (simp add: rsp_len_def ascii_space_def byte_def)
  with trim_space_rsp_len [OF assms(1)] show False by simp
qed

subsection \<open>Substrings\<close>

lemma contains_iff: "contains s p \<longleftrightarrow> (\<exists>a b. s = a @ p @ b)"
proof
  assume "contains s p"
  then obtain n where "index_str s p = Some n" by (auto simp: contains_def)
  then show "\<exists>a b. s = a @ p @ b"
  proof (induction s arbitrary: n)
    case Nil
    then show ?case by (auto split: if_splits)
  next
    case (Cons x xs)
    show ?case
    proof (cases "has_prefix (x # xs) p")
      case True
      then show ?thesis by (metis append_Nil has_prefixE)
    next
      case False
      with Cons obtain a b where "xs = a @ p @ b" by auto
      then have "x # xs = (x # a) @ p @ b" by simp
      then show ?thesis by metis
    qed
  qed
next
  assume "\<exists>a b. s = a @ p @ b"
  then obtain a b where s: "s = a @ p @ b" by blast
  have "index_str (a @ p @ b) p \<noteq> None"
  proof (induction a)
    case Nil
    have "has_prefix (p @ b) p" by simp
    then show ?case by (cases "p @ b") auto
  qed auto
  with s show "contains s p" by (simp add: contains_def)
qed

lemma contains_infix: "contains t p \<Longrightarrow> s = u @ t @ v \<Longrightarrow> contains s p"
proof -
  assume "contains t p" "s = u @ t @ v"
  then obtain a b where "s = (u @ a) @ p @ (b @ v)" by (auto simp: contains_iff)
  then show ?thesis unfolding contains_iff by blast
qed

lemma contains_trim: "contains (trim_space s) p \<Longrightarrow> contains s p"
  using trim_space_infix [of s] contains_infix by blast

lemma index_str_first:
  assumes "index_str s p = Some i" "p \<noteq> []"
  shows "\<not> contains (take i s) p"
  using assms
proof (induction s arbitrary: i)
  case (Cons x xs)
  show ?case
  proof (cases "has_prefix (x # xs) p")
    case True
    with Cons show ?thesis by (simp add: contains_def)
  next
    case False
    with Cons.prems obtain j where j: "index_str xs p = Some j" "i = Suc j" by auto
    have "\<not> has_prefix (x # take j xs) p"
    proof
      assume "has_prefix (x # take j xs) p"
      then obtain q where "x # take j xs = p @ q" by (rule has_prefixE)
      then have "x # xs = p @ q @ drop j xs" by (metis append_Cons append_assoc append_take_drop_id)
      with False show False by simp
    qed
    moreover have "\<not> contains (take j xs) p" using Cons.IH j Cons.prems by blast
    ultimately show ?thesis using j by (simp add: contains_def)
  qed
qed (simp split: if_splits)

text \<open>A pattern without the separator that occurs in a joined string occurs in a part.\<close>

lemma contains_no_cross:
  assumes "\<not> contains s p" "\<not> contains t p" "c \<notin> set p"
  shows "\<not> contains (s @ [c] @ t) p"
proof
  assume "contains (s @ [c] @ t) p"
  then obtain a b where ab: "s @ [c] @ t = a @ p @ b" by (auto simp: contains_iff)
  then consider u where "s = a @ u" "u @ [c] @ t = p @ b" | u where "s @ u = a" "[c] @ t = u @ p @ b"
    by (auto simp: append_eq_append_conv2)
  then show False
  proof cases
    case 1
    then consider v where "u = p @ v" | v where "u @ v = p" "[c] @ t = v @ b" "v \<noteq> []"
      by (auto simp: append_eq_append_conv2) (metis append_Nil2)
    then show False
    proof cases
      case 1
      with \<open>s = a @ u\<close> assms(1) show False unfolding contains_iff by auto
    next
      case 2
      then obtain w where "v = c # w" by (cases v) auto
      with 2 assms(3) show False by auto
    qed
  next
    case 2
    then show False
    proof (cases u)
      case Nil
      then have "p = [] \<or> hd p = c" using 2 by (cases p) auto
      then have "p = []" using assms(3) by (cases p) auto
      then have "s = [] @ p @ s" by simp
      then show False using assms(1) unfolding contains_iff by blast
    next
      case (Cons y ys)
      with 2 have "t = ys @ p @ b" by auto
      with assms(2) show False unfolding contains_iff by blast
    qed
  qed
qed

subsection \<open>Splitting and joining\<close>

fun split_on :: "char \<Rightarrow> string \<Rightarrow> string list" where
  "split_on c [] = [[]]"
| "split_on c (x # xs) =
     (if x = c then [] # split_on c xs
      else (case split_on c xs of [] \<Rightarrow> [[x]] | y # ys \<Rightarrow> (x # y) # ys))"

fun join_with :: "string \<Rightarrow> string list \<Rightarrow> string" where
  "join_with sep [] = []"
| "join_with sep [x] = x"
| "join_with sep (x # y # ys) = x @ sep @ join_with sep (y # ys)"

lemma split_on_not_Nil [simp]: "split_on c s \<noteq> []"
  by (induction s) (auto split: list.splits)

lemma split_on_no_sep: "c \<notin> set s \<Longrightarrow> split_on c s = [s]"
  by (induction s) auto

lemma split_on_append: "c \<notin> set s \<Longrightarrow> split_on c (s @ c # t) = s # split_on c t"
  by (induction s) auto

lemma join_split: "join_with [c] (split_on c s) = s"
proof (induction s)
  case (Cons x xs)
  obtain y ys where "split_on c xs = y # ys" by (cases "split_on c xs") auto
  with Cons show ?case by (cases ys) auto
qed simp

lemma split_join:
  "xs \<noteq> [] \<Longrightarrow> (\<And>x. x \<in> set xs \<Longrightarrow> c \<notin> set x) \<Longrightarrow> split_on c (join_with [c] xs) = xs"
  by (induction "[c]" xs rule: join_with.induct) (simp_all add: split_on_no_sep split_on_append)

lemma split_on_sep_free: "x \<in> set (split_on c s) \<Longrightarrow> c \<notin> set x"
proof (induction s arbitrary: x)
  case (Cons y ys)
  obtain z zs where zs: "split_on c ys = z # zs" by (cases "split_on c ys") auto
  have "c \<notin> set z" "\<And>w. w \<in> set zs \<Longrightarrow> c \<notin> set w" using Cons.IH zs by auto
  with Cons.prems zs Cons.IH show ?case by (auto split: if_splits)
qed simp

text \<open>\<open>strings.ReplaceAll\<close> with a one-byte pattern.\<close>

definition replace_byte :: "char \<Rightarrow> string \<Rightarrow> string \<Rightarrow> string" where
  "replace_byte c r s = concat (map (\<lambda>x. if x = c then r else [x]) s)"

lemma replace_byte_free: "c \<notin> set r \<Longrightarrow> c \<notin> set (replace_byte c r s)"
  by (auto simp: replace_byte_def)

definition to_lower_ascii :: "char \<Rightarrow> char" where
  "to_lower_ascii c = (if 65 \<le> byte c \<and> byte c \<le> 90 then char_of (byte c + 32) else c)"

section \<open>Package strconv\<close>

definition digit_char :: "nat \<Rightarrow> char" where
  "digit_char n = char_of (48 + n)"

definition is_digit :: "char \<Rightarrow> bool" where
  "is_digit c \<longleftrightarrow> 48 \<le> byte c \<and> byte c \<le> 57"

fun nat_str :: "nat \<Rightarrow> string" where
  "nat_str n = (if n < 10 then [digit_char n] else nat_str (n div 10) @ [digit_char (n mod 10)])"

declare nat_str.simps [simp del]

definition itoa :: "int \<Rightarrow> string" where
  "itoa i = (if i < 0 then CHR ''-'' # nat_str (nat (- i)) else nat_str (nat i))"

text \<open>The verb \<open>%t\<close>.\<close>

definition bool_str :: "bool \<Rightarrow> string" where
  "bool_str b = (if b then ''true'' else ''false'')"

definition digits_val :: "string \<Rightarrow> nat" where
  "digits_val s = foldl (\<lambda>a c. 10 * a + (byte c - 48)) 0 s"

definition all_digits :: "string \<Rightarrow> bool" where
  "all_digits s \<longleftrightarrow> s \<noteq> [] \<and> list_all is_digit s"

lemma digit_char_byte: "n < 10 \<Longrightarrow> byte (digit_char n) = 48 + n"
  by (simp add: digit_char_def byte_char_of)

lemma is_digit_digit_char: "n < 10 \<Longrightarrow> is_digit (digit_char n)"
  by (simp add: is_digit_def digit_char_byte)

lemma nat_str_digits: "all_digits (nat_str n)"
proof (induction n rule: nat_str.induct)
  case (1 n)
  show ?case
  proof (cases "n < 10")
    case True
    then show ?thesis by (simp add: nat_str.simps [of n] all_digits_def is_digit_digit_char)
  next
    case False
    with 1 show ?thesis
      by (simp add: nat_str.simps [of n] all_digits_def is_digit_digit_char)
  qed
qed

lemma digits_val_snoc: "digits_val (s @ [c]) = 10 * digits_val s + (byte c - 48)"
  by (simp add: digits_val_def)

lemma digits_val_nat_str: "digits_val (nat_str n) = n"
proof (induction n rule: nat_str.induct)
  case (1 n)
  show ?case
  proof (cases "n < 10")
    case True
    then show ?thesis by (simp add: nat_str.simps [of n] digits_val_def digit_char_byte)
  next
    case False
    with 1 show ?thesis
      by (simp add: nat_str.simps [of n] digits_val_snoc digit_char_byte)
  qed
qed

subsection \<open>64-bit integers\<close>

definition min_int64 :: int where "min_int64 = - (2 ^ 63)"
definition max_int64 :: int where "max_int64 = 2 ^ 63 - 1"

definition in_int64 :: "int \<Rightarrow> bool" where
  "in_int64 x \<longleftrightarrow> min_int64 \<le> x \<and> x \<le> max_int64"

text \<open>Two's complement wrap-around: what Go's \<open>+\<close> on \<open>int64\<close> leaves of a sum.\<close>

definition wrap64 :: "int \<Rightarrow> int" where
  "wrap64 x = (x + 2 ^ 63) mod 2 ^ 64 - 2 ^ 63"

lemma wrap64_in [simp]: "in_int64 (wrap64 x)"
proof -
  have "0 \<le> (x + 2 ^ 63) mod 2 ^ 64" "(x + 2 ^ 63) mod 2 ^ 64 < (2 ^ 64 :: int)" by simp_all
  then show ?thesis by (simp add: in_int64_def wrap64_def min_int64_def max_int64_def)
qed

lemma wrap64_id: "in_int64 x \<Longrightarrow> wrap64 x = x"
  by (simp add: in_int64_def wrap64_def min_int64_def max_int64_def)

text \<open>\<open>strconv.ParseInt(s, 10, 64)\<close> and \<open>strconv.Atoi\<close> on a 64-bit platform.\<close>

definition parse_int :: "string \<Rightarrow> int option" where
  "parse_int s =
     (let neg = (s \<noteq> [] \<and> hd s = CHR ''-'');
          body = (if s \<noteq> [] \<and> (hd s = CHR ''-'' \<or> hd s = CHR ''+'') then tl s else s)
      in if \<not> all_digits body then None
         else (let v = (if neg then - int (digits_val body) else int (digits_val body))
               in if in_int64 v then Some v else None))"

lemma not_sign_digit: "is_digit c \<Longrightarrow> c \<noteq> CHR ''-'' \<and> c \<noteq> CHR ''+''"
  by (auto simp: is_digit_def byte_def)

lemma nat_str_hd: "nat_str n \<noteq> [] \<and> is_digit (hd (nat_str n))"
  using nat_str_digits [of n] by (cases "nat_str n") (auto simp: all_digits_def)

lemma parse_int_itoa: "in_int64 i \<Longrightarrow> parse_int (itoa i) = Some i"
  using nat_str_hd [of "nat i"] not_sign_digit [of "hd (nat_str (nat i))"]
  by (auto simp: parse_int_def itoa_def nat_str_digits digits_val_nat_str Let_def)

section \<open>Package sort\<close>

abbreviation sort_strings :: "string list \<Rightarrow> string list" where
  "sort_strings \<equiv> sort"

section \<open>Package bufio: the line scanner\<close>

text \<open>
  \<open>bufio.Scanner\<close> with \<open>ScanLines\<close>: lines end at a newline, one trailing carriage
  return is dropped, a last line with no newline counts, and a line that does not fit the
  scanner's buffer stops the scan with \<open>ErrTooLong\<close>.  The result is the list of lines
  before the stop and whether the scan ended in that error.  The default buffer is 64 KiB.
\<close>

definition default_max_token :: nat where "default_max_token = 65536"

definition drop_cr :: "string \<Rightarrow> string" where
  "drop_cr l = (if l \<noteq> [] \<and> last l = CR then butlast l else l)"

fun raw_lines :: "string \<Rightarrow> string list" where
  "raw_lines s = (case split_on NL s of ls \<Rightarrow> if last ls = [] then butlast ls else ls)"

fun cut_lines :: "nat \<Rightarrow> string list \<Rightarrow> string list \<times> bool" where
  "cut_lines m [] = ([], False)"
| "cut_lines m (l # ls) =
     (if length l < m then (let (r, tooLong) = cut_lines m ls in (drop_cr l # r, tooLong))
      else ([], True))"

definition scan_lines :: "nat \<Rightarrow> string \<Rightarrow> string list \<times> bool" where
  "scan_lines m s = cut_lines m (raw_lines s)"

lemma raw_lines_unfold:
  "raw_lines [] = []"
  "NL \<notin> set l \<Longrightarrow> raw_lines (l @ NL # s) = l # raw_lines s"
  by (auto simp: split_on_append split_on_no_sep)

text \<open>A scanned line has no newline and fits the buffer.\<close>

lemma cut_lines_sound: "l \<in> set (fst (cut_lines m ls)) \<Longrightarrow> \<exists>r \<in> set ls. l = drop_cr r \<and> length r < m"
  by (induction ls) (auto split: if_splits prod.splits)

lemma scan_lines_sound: "l \<in> set (fst (scan_lines m s)) \<Longrightarrow> NL \<notin> set l \<and> length l < m"
proof -
  assume "l \<in> set (fst (scan_lines m s))"
  then obtain r where r: "r \<in> set (raw_lines s)" "l = drop_cr r" "length r < m"
    using cut_lines_sound unfolding scan_lines_def by blast
  then have "r \<in> set (split_on NL s)" by (auto split: if_splits dest: in_set_butlastD)
  then have "NL \<notin> set r" by (rule split_on_sep_free)
  with r show ?thesis by (auto simp: drop_cr_def dest: in_set_butlastD)
qed

text \<open>Lines written one by one, each followed by a newline, are scanned back as written.\<close>

lemma scan_lines_lines:
  assumes "\<And>l. l \<in> set ls \<Longrightarrow> NL \<notin> set l \<and> length l < m \<and> (l = [] \<or> last l \<noteq> CR)"
  shows "scan_lines m (concat (map (\<lambda>l. l @ [NL]) ls)) = (ls, False)"
  using assms
proof (induction ls)
  case Nil
  then show ?case by (simp add: scan_lines_def)
next
  case (Cons l ls)
  then have l: "NL \<notin> set l" "length l < m" "drop_cr l = l" by (auto simp: drop_cr_def)
  have "scan_lines m (concat (map (\<lambda>l. l @ [NL]) ls)) = (ls, False)"
    using Cons by auto
  with l show ?case
    by (simp add: scan_lines_def raw_lines_unfold del: raw_lines.simps)
qed

lemmas prelude_eval = byte_def has_prefix_def has_suffix_def trim_prefix_def trim_suffix_def
  contains_def contains_any_def ascii_space_def space2_def space3_def sp_len_def rsp_len_def
  trim_left_space.simps trim_rev_space.simps trim_space_def replace_byte_def to_lower_ascii_def
  digit_char_def is_digit_def nat_str.simps itoa_def digits_val_def all_digits_def parse_int_def
  min_int64_def max_int64_def in_int64_def wrap64_def drop_cr_def scan_lines_def
  default_max_token_def Let_def

declare prelude_eval [go_eval]

end
