(* ===== verification/Go_FS.thy ===== *)
theory Go_FS
  imports Go_Prelude
begin

text \<open>
  Paths and files: the functions of package \<open>path/filepath\<close> the sources call
  (\<open>Clean\<close>, \<open>Join\<close>, \<open>Dir\<close>, \<open>Base\<close>) on strings, and the part of
  package \<open>os\<close> they use on a store of files and directories keyed by clean path.  Every
  operation consults a table of faults first: an entry makes that system call fail with an error
  other than \<open>os.ErrNotExist\<close>, and for a write the entry says how many bytes reached the
  file before the failure.  A theorem that quantifies over the table therefore covers every way
  the calls of one operation can fail.
\<close>

section \<open>Package filepath\<close>

abbreviation SLASH :: char where "SLASH \<equiv> CHR ''/''"

definition seg_step :: "bool \<Rightarrow> string list \<Rightarrow> string \<Rightarrow> string list" where
  "seg_step rooted acc s =
     (if s = [] \<or> s = ''.'' then acc
      else if s = ''..'' then
        (if acc \<noteq> [] \<and> hd acc \<noteq> ''..'' then tl acc
         else if rooted then acc else ''..'' # acc)
      else s # acc)"

definition is_rooted :: "path \<Rightarrow> bool" where
  "is_rooted p \<longleftrightarrow> p \<noteq> [] \<and> hd p = SLASH"

definition clean_stack :: "path \<Rightarrow> string list" where
  "clean_stack p = foldl (seg_step (is_rooted p)) [] (split_on SLASH p)"

definition render_path :: "bool \<Rightarrow> string list \<Rightarrow> path" where
  "render_path rooted acc =
     (if rooted then SLASH # join_with [SLASH] (rev acc)
      else if acc = [] then ''.'' else join_with [SLASH] (rev acc))"

definition clean_path :: "path \<Rightarrow> path" where
  "clean_path p = render_path (is_rooted p) (clean_stack p)"

fun join_path :: "string list \<Rightarrow> path" where
  "join_path [] = []"
| "join_path (e # es) = (if e = [] then join_path es else clean_path (join_with [SLASH] (e # es)))"

abbreviation join2 :: "path \<Rightarrow> string \<Rightarrow> path" where
  "join2 d n \<equiv> join_path [d, n]"

definition dir_path :: "path \<Rightarrow> path" where
  "dir_path p = (case last_index_byte p SLASH of None \<Rightarrow> ''.'' | Some i \<Rightarrow> clean_path (take (Suc i) p))"

definition base_path :: "path \<Rightarrow> string" where
  "base_path p =
     (if p = [] then ''.''
      else (let q = rev (dropWhile (\<lambda>c. c = SLASH) (rev p))
            in if q = [] then [SLASH]
               else (case last_index_byte q SLASH of None \<Rightarrow> q | Some i \<Rightarrow> drop (Suc i) q)))"

text \<open>A plain name is one directory entry; a proper directory is a clean path other than
  \<open>/\<close> and \<open>.\<close>, which every configured directory of the program is.\<close>

definition plain_name :: "string \<Rightarrow> bool" where
  "plain_name n \<longleftrightarrow> n \<noteq> [] \<and> n \<noteq> ''.'' \<and> n \<noteq> ''..'' \<and> SLASH \<notin> set n"

definition proper_dir :: "path \<Rightarrow> bool" where
  "proper_dir d \<longleftrightarrow> d \<noteq> [] \<and> d \<noteq> [SLASH] \<and> d \<noteq> ''.'' \<and> clean_path d = d"

lemma split_on_append_gen: "split_on c (s @ c # t) = split_on c s @ split_on c t"
proof (induction s)
  case (Cons x xs)
  obtain y ys where y: "split_on c xs = y # ys" by (cases "split_on c xs") auto
  with Cons show ?case by auto
qed simp

lemma join_with_snoc: "xs \<noteq> [] \<Longrightarrow> join_with sep (xs @ [y]) = join_with sep xs @ sep @ y"
proof (induction xs)
  case (Cons a xs)
  then show ?case by (cases xs) auto
qed simp

lemma is_rooted_append: "d \<noteq> [] \<Longrightarrow> is_rooted (d @ s) = is_rooted d"
  by (simp add: is_rooted_def)

lemma proper_dir_stack: "proper_dir d \<Longrightarrow> clean_stack d \<noteq> []"
  by (auto simp: proper_dir_def clean_path_def render_path_def split: if_splits)

lemma clean_stack_child:
  assumes "proper_dir d" "plain_name n"
  shows "clean_stack (d @ SLASH # n) = n # clean_stack d"
  using assms
  by (simp add: clean_stack_def split_on_append_gen proper_dir_def is_rooted_append plain_name_def
      split_on_no_sep seg_step_def)

lemma render_path_Cons:
  "acc \<noteq> [] \<Longrightarrow> render_path r (n # acc) = render_path r acc @ SLASH # n"
  by (simp add: render_path_def join_with_snoc)

lemma clean_path_child:
  assumes "proper_dir d" "plain_name n"
  shows "clean_path (d @ SLASH # n) = d @ SLASH # n"
proof -
  have "d \<noteq> []" "clean_path d = d" using assms(1) by (auto simp: proper_dir_def)
  then show ?thesis
    using clean_stack_child [OF assms] render_path_Cons [OF proper_dir_stack [OF assms(1)]]
    by (simp add: clean_path_def is_rooted_append)
qed

lemma join2_child: "proper_dir d \<Longrightarrow> plain_name n \<Longrightarrow> join2 d n = d @ SLASH # n"
  by (simp add: clean_path_child) (simp add: proper_dir_def)

lemma last_index_byte_append:
  "c \<notin> set t \<Longrightarrow> last_index_byte (s @ c # t) c = Some (length s)"
proof (induction s)
  case Nil
  then show ?case by (simp split: option.split flip: last_index_byte_None)
qed simp

lemma clean_path_trailing:
  assumes "proper_dir d"
  shows "clean_path (d @ [SLASH]) = d"
proof -
  have "d \<noteq> []" "clean_path d = d" using assms by (auto simp: proper_dir_def)
  then show ?thesis
    using split_on_append_gen [of SLASH d "[]"]
    by (simp add: clean_path_def is_rooted_append clean_stack_def seg_step_def)
qed

lemma dir_path_child: "proper_dir d \<Longrightarrow> plain_name n \<Longrightarrow> dir_path (d @ SLASH # n) = d"
  by (simp add: dir_path_def plain_name_def last_index_byte_append clean_path_trailing)

lemma dropWhile_hd: "xs \<noteq> [] \<Longrightarrow> \<not> P (hd xs) \<Longrightarrow> dropWhile P xs = xs"
  by (cases xs) auto

lemma base_path_child:
  assumes "plain_name n"
  shows "base_path (d @ SLASH # n) = n"
proof -
  have n: "n \<noteq> []" "SLASH \<notin> set n" using assms by (auto simp: plain_name_def)
  then have "last n \<noteq> SLASH" using last_in_set by metis
  with n have "dropWhile (\<lambda>c. c = SLASH) (rev (d @ SLASH # n)) = rev (d @ SLASH # n)"
    by (intro dropWhile_hd) (auto simp: hd_append hd_rev)
  with \<open>SLASH \<notin> set n\<close> show ?thesis
    by (simp add: base_path_def last_index_byte_append Let_def)
qed

lemma proper_dir_child: "proper_dir d \<Longrightarrow> plain_name n \<Longrightarrow> proper_dir (d @ SLASH # n)"
  using clean_path_child [of d n] by (auto simp: proper_dir_def plain_name_def append_eq_Cons_conv)

section \<open>Package os\<close>

datatype fnode = File bytes nat | Dir nat

type_synonym fs = "(path \<times> fnode) list"

abbreviation mode_0600 :: nat where "mode_0600 \<equiv> 384"
abbreviation mode_0644 :: nat where "mode_0644 \<equiv> 420"
abbreviation mode_0700 :: nat where "mode_0700 \<equiv> 448"
abbreviation mode_0755 :: nat where "mode_0755 \<equiv> 493"

datatype ioerr = NotExist | OsErr string

datatype fop =
    FMkdir path | FStat path | FRead path | FReadDir path | FOpen path | FWrite path
  | FSync path | FClose path | FRename path path | FRemove path | FTemp path | FChmod path | FChtimes path
  | FLock path | FTrunc path

type_synonym faults = "fop \<Rightarrow> (nat \<times> string) option"

abbreviation no_faults :: faults where "no_faults \<equiv> (\<lambda>_. None)"

definition is_file :: "fs \<Rightarrow> path \<Rightarrow> bool" where
  "is_file fs p = (case map_of fs p of Some (File _ _) \<Rightarrow> True | _ \<Rightarrow> False)"

definition is_dir :: "fs \<Rightarrow> path \<Rightarrow> bool" where
  "is_dir fs p = (case map_of fs p of Some (Dir _) \<Rightarrow> True | _ \<Rightarrow> False)"

definition file_data :: "fs \<Rightarrow> path \<Rightarrow> bytes option" where
  "file_data fs p = (case map_of fs p of Some (File b _) \<Rightarrow> Some b | _ \<Rightarrow> None)"

definition file_mode :: "fs \<Rightarrow> path \<Rightarrow> nat option" where
  "file_mode fs p = (case map_of fs p of Some (File _ m) \<Rightarrow> Some m | _ \<Rightarrow> None)"

definition os_read_file :: "faults \<Rightarrow> fs \<Rightarrow> path \<Rightarrow> (ioerr, bytes) result" where
  "os_read_file flt fs p =
     (case flt (FRead p) of
        Some (_, m) \<Rightarrow> err (OsErr m)
      | None \<Rightarrow> (case map_of fs p of
            None \<Rightarrow> err NotExist
          | Some (Dir _) \<Rightarrow> err (OsErr ''is a directory'')
          | Some (File b _) \<Rightarrow> ok b))"

definition os_stat :: "faults \<Rightarrow> fs \<Rightarrow> path \<Rightarrow> (ioerr, fnode) result" where
  "os_stat flt fs p =
     (case flt (FStat p) of
        Some (_, m) \<Rightarrow> err (OsErr m)
      | None \<Rightarrow> (case map_of fs p of None \<Rightarrow> err NotExist | Some n \<Rightarrow> ok n))"

text \<open>\<open>expandHomePath\<close> of the commands (\<open>delegate.go\<close>), with the answer of
  \<open>os.UserHomeDir\<close>.\<close>

definition expand_home_path :: "(string, path) result \<Rightarrow> path \<Rightarrow> (string, path) result" where
  "expand_home_path home p =
     (if \<not> has_prefix p ''~/'' then ok p else (case home of Inl e \<Rightarrow> err e | Inr h \<Rightarrow> ok (h @ tl p)))"

text \<open>\<open>filepath.Abs\<close>, with the answer of \<open>os.Getwd\<close>.\<close>

definition abs_path :: "(string, path) result \<Rightarrow> path \<Rightarrow> (string, path) result" where
  "abs_path wd p =
     (if is_rooted p then ok (clean_path p)
      else (case wd of Inl m \<Rightarrow> err m | Inr w \<Rightarrow> ok (join2 w p)))"

text \<open>\<open>os.MkdirAll\<close> creates \<open>p\<close> and every missing ancestor; a file in the way is an
  error.\<close>

definition ancestors :: "path \<Rightarrow> path list" where
  "ancestors p =
     (let segs = rev (clean_stack p)
      in map (\<lambda>i. render_path (is_rooted p) (rev (take (Suc i) segs))) [0..<length segs])"

definition os_mkdir_all :: "faults \<Rightarrow> fs \<Rightarrow> path \<Rightarrow> nat \<Rightarrow> (ioerr \<times> fs, fs) result" where
  "os_mkdir_all flt fs p mode =
     (case flt (FMkdir p) of
        Some (_, m) \<Rightarrow> err (OsErr m, fs)
      | None \<Rightarrow>
          (if list_ex (is_file fs) (ancestors p) then err (OsErr ''not a directory'', fs)
           else ok (foldl (\<lambda>f a. if map_of f a = None then AList.update a (Dir mode) f else f)
                          fs (ancestors p))))"

text \<open>Opening for writing: \<open>O_CREATE\<close> makes an empty file in an existing directory and
  keeps the content and the mode of a file that is there; \<open>O_TRUNC\<close> empties it.\<close>

definition os_open_create :: "faults \<Rightarrow> bool \<Rightarrow> fs \<Rightarrow> path \<Rightarrow> nat \<Rightarrow> (ioerr, fs) result" where
  "os_open_create flt trunc fs p mode =
     (case flt (FOpen p) of
        Some (_, m) \<Rightarrow> err (OsErr m)
      | None \<Rightarrow> (case map_of fs p of
            Some (Dir _) \<Rightarrow> err (OsErr ''is a directory'')
          | Some (File b m) \<Rightarrow> ok (if trunc then AList.update p (File [] m) fs else fs)
          | None \<Rightarrow> if is_dir fs (dir_path p) then ok (AList.update p (File [] mode) fs)
                    else err NotExist))"

text \<open>A write appends to the open file (the sources write from offset 0 of an empty file, or in
  append mode).\<close>

definition os_write :: "faults \<Rightarrow> fs \<Rightarrow> path \<Rightarrow> bytes \<Rightarrow> (ioerr \<times> fs, fs) result" where
  "os_write flt fs p b =
     (let put = (\<lambda>b'. case map_of fs p of
                   Some (File old m) \<Rightarrow> AList.update p (File (old @ b') m) fs | _ \<Rightarrow> fs)
      in case flt (FWrite p) of
           Some (k, m) \<Rightarrow> err (OsErr m, put (take k b))
         | None \<Rightarrow> ok (put b))"

definition os_sync :: "faults \<Rightarrow> path \<Rightarrow> (ioerr, unit) result" where
  "os_sync flt p = (case flt (FSync p) of Some (_, m) \<Rightarrow> err (OsErr m) | None \<Rightarrow> ok ())"

definition os_close :: "faults \<Rightarrow> path \<Rightarrow> (ioerr, unit) result" where
  "os_close flt p = (case flt (FClose p) of Some (_, m) \<Rightarrow> err (OsErr m) | None \<Rightarrow> ok ())"

text \<open>\<open>syscall.Flock\<close> with \<open>LOCK_EX\<close>, as seen by one process: it returns when the lock is
  held.\<close>

definition os_flock :: "faults \<Rightarrow> path \<Rightarrow> (ioerr, unit) result" where
  "os_flock flt p = (case flt (FLock p) of Some (_, m) \<Rightarrow> err (OsErr m) | None \<Rightarrow> ok ())"

text \<open>\<open>os.WriteFile\<close>.\<close>

definition os_write_file :: "faults \<Rightarrow> fs \<Rightarrow> path \<Rightarrow> bytes \<Rightarrow> nat \<Rightarrow> (ioerr \<times> fs, fs) result" where
  "os_write_file flt fs p b mode =
     (case os_open_create flt True fs p mode of
        Inl e \<Rightarrow> err (e, fs)
      | Inr fs1 \<Rightarrow> (case os_write flt fs1 p b of
            Inl (e, fs2) \<Rightarrow> err (e, fs2)
          | Inr fs2 \<Rightarrow> (case os_close flt p of Inl e \<Rightarrow> err (e, fs2) | Inr _ \<Rightarrow> ok fs2)))"

definition os_rename :: "faults \<Rightarrow> fs \<Rightarrow> path \<Rightarrow> path \<Rightarrow> (ioerr, fs) result" where
  "os_rename flt fs p q =
     (case flt (FRename p q) of
        Some (_, m) \<Rightarrow> err (OsErr m)
      | None \<Rightarrow> (case map_of fs p of
            None \<Rightarrow> err NotExist
          | Some n \<Rightarrow> if is_dir fs q then err (OsErr ''file exists'')
                      else if \<not> is_dir fs (dir_path q) then err NotExist
                      else ok (AList.update q n (AList.delete p fs))))"

definition os_remove :: "faults \<Rightarrow> fs \<Rightarrow> path \<Rightarrow> (ioerr, fs) result" where
  "os_remove flt fs p =
     (case flt (FRemove p) of
        Some (_, m) \<Rightarrow> err (OsErr m)
      | None \<Rightarrow> (case map_of fs p of
            None \<Rightarrow> err NotExist
          | Some _ \<Rightarrow>
              if list_ex (\<lambda>(q, _). dir_path q = p \<and> q \<noteq> p) fs then err (OsErr ''directory not empty'')
              else ok (AList.delete p fs)))"

text \<open>\<open>os.Truncate\<close> to the length 0.\<close>

definition os_truncate :: "faults \<Rightarrow> fs \<Rightarrow> path \<Rightarrow> (ioerr, fs) result" where
  "os_truncate flt fs p =
     (case flt (FTrunc p) of
        Some (_, m) \<Rightarrow> err (OsErr m)
      | None \<Rightarrow> (case map_of fs p of
            None \<Rightarrow> err NotExist
          | Some (Dir _) \<Rightarrow> err (OsErr ''is a directory'')
          | Some (File _ m) \<Rightarrow> ok (AList.update p (File [] m) fs)))"

text \<open>\<open>os.ReadDir\<close>: the entries of a directory sorted by name, with whether each is a
  directory itself.\<close>

definition dir_entries :: "fs \<Rightarrow> path \<Rightarrow> (string \<times> bool) list" where
  "dir_entries fs d =
     map (\<lambda>n. (n, is_dir fs (join2 d n)))
         (sort (remdups (map (\<lambda>(p, _). base_path p)
            (filter (\<lambda>(p, _). p \<noteq> d \<and> dir_path p = d) fs))))"

definition os_read_dir :: "faults \<Rightarrow> fs \<Rightarrow> path \<Rightarrow> (ioerr, (string \<times> bool) list) result" where
  "os_read_dir flt fs d =
     (case flt (FReadDir d) of
        Some (_, m) \<Rightarrow> err (OsErr m)
      | None \<Rightarrow> (case map_of fs d of
            None \<Rightarrow> err NotExist
          | Some (File _ _) \<Rightarrow> err (OsErr ''not a directory'')
          | Some (Dir _) \<Rightarrow> ok (dir_entries fs d)))"

lemma dir_entries_distinct: "distinct (map fst (dir_entries fs p))"
  by (simp add: dir_entries_def comp_def)

lemma last_index_drop: "last_index_byte q c = Some i \<Longrightarrow> c \<notin> set (drop (Suc i) q)"
  by (induction q arbitrary: i) (auto split: option.splits if_splits)

lemma base_path_slash: "base_path p = [SLASH] \<or> SLASH \<notin> set (base_path p)"
proof -
  define q where "q = rev (dropWhile (\<lambda>c. c = SLASH) (rev p))"
  have b: "base_path p = (if p = [] then ''.'' else if q = [] then [SLASH]
      else (case last_index_byte q SLASH of None \<Rightarrow> q | Some i \<Rightarrow> drop (Suc i) q))"
    unfolding base_path_def Let_def q_def [symmetric] ..
  show ?thesis
    unfolding b by (auto dest: last_index_drop split: option.splits)
qed

lemma dir_entries_names: "(n, d) \<in> set (dir_entries fs p) \<Longrightarrow> n = [SLASH] \<or> SLASH \<notin> set n"
  using base_path_slash by (auto simp: dir_entries_def)

lemmas os_defs = os_read_file_def os_stat_def os_mkdir_all_def os_open_create_def os_write_def
  os_sync_def os_close_def os_flock_def os_write_file_def os_rename_def os_remove_def os_read_dir_def

lemmas fs_obs_defs = is_file_def is_dir_def file_data_def file_mode_def

declare os_defs [io_defs] fs_obs_defs [io_defs]

section \<open>Reading after writing\<close>

lemma ancestors_last:
  assumes "proper_dir d"
  shows "d \<in> set (ancestors d)"
proof -
  define segs where "segs = rev (clean_stack d)"
  have "segs \<noteq> []" using proper_dir_stack [OF assms] by (simp add: segs_def)
  then have n: "length segs - 1 \<in> set [0..<length segs]" "take (Suc (length segs - 1)) segs = segs" by simp_all
  have "d = render_path (is_rooted d) (rev (take (Suc (length segs - 1)) segs))"
    using assms unfolding n(2) by (simp add: segs_def proper_dir_def clean_path_def)
  with n(1) show ?thesis
    unfolding ancestors_def Let_def segs_def [symmetric] set_map by (intro image_eqI)
qed

definition add_dir :: "nat \<Rightarrow> fs \<Rightarrow> path \<Rightarrow> fs" where
  "add_dir mode f a = (if map_of f a = None then AList.update a (Dir mode) f else f)"

lemma mkdir_fold:
  "map_of (foldl (add_dir m) fs as) p =
     (if map_of fs p = None \<and> p \<in> set as then Some (Dir m) else map_of fs p)"
  by (induction "as" arbitrary: fs) (auto simp: add_dir_def update_conv)

lemma os_mkdir_all_fold:
  "os_mkdir_all flt fs p mode =
     (case flt (FMkdir p) of
        Some (_, m) \<Rightarrow> err (OsErr m, fs)
      | None \<Rightarrow>
          (if list_ex (is_file fs) (ancestors p) then err (OsErr ''not a directory'', fs)
           else ok (foldl (add_dir mode) fs (ancestors p))))"
  unfolding os_mkdir_all_def add_dir_def [abs_def] ..

lemma mkdir_all_ok:
  assumes "os_mkdir_all flt fs d mode = ok fs'" "proper_dir d"
  shows "is_dir fs' d" "map_of fs p \<noteq> None \<Longrightarrow> map_of fs' p = map_of fs p" "file_data fs' p = file_data fs p"
    "map_of fs' p = None \<Longrightarrow> map_of fs p = None"
proof -
  have f: "fs' = foldl (add_dir mode) fs (ancestors d)"
    and nf: "\<not> list_ex (is_file fs) (ancestors d)"
    using assms(1) by (auto simp: os_mkdir_all_fold split: option.splits if_splits)
  then have "\<not> is_file fs d" using ancestors_last [OF assms(2)] by (auto simp: list_ex_iff)
  then show "is_dir fs' d"
    using ancestors_last [OF assms(2)] unfolding f
    by (auto simp: is_dir_def is_file_def mkdir_fold split: option.splits fnode.splits)
  show "map_of fs p \<noteq> None \<Longrightarrow> map_of fs' p = map_of fs p" "map_of fs' p = None \<Longrightarrow> map_of fs p = None"
    unfolding f by (auto simp: mkdir_fold split: if_splits)
  show "file_data fs' p = file_data fs p" unfolding f by (auto simp: file_data_def mkdir_fold)
qed

lemma mkdir_all_err: "os_mkdir_all flt fs d mode = err (e, fs') \<Longrightarrow> fs' = fs"
  by (auto simp: os_mkdir_all_def split: option.splits if_splits)

lemma mkdir_keeps_files: "os_mkdir_all flt fs d mode = ok fs' \<Longrightarrow> file_data fs' p = file_data fs p"
  by (auto simp: os_mkdir_all_fold file_data_def mkdir_fold split: option.splits if_splits)

lemma os_remove_effect:
  assumes "os_remove flt fs p = ok fs'"
  shows "map_of fs' p = None" "q \<noteq> p \<Longrightarrow> map_of fs' q = map_of fs q"
  using assms by (auto simp: os_remove_def delete_conv' split: option.splits if_splits)

lemma os_remove_absent: "os_remove flt fs p = err NotExist \<Longrightarrow> map_of fs p = None"
  by (auto simp: os_remove_def split: option.splits if_splits)

lemma open_create_ok:
  assumes "os_open_create flt trunc fs p mode = ok fs'"
  shows "file_data fs' p = Some (if trunc then [] else (case file_data fs p of Some b \<Rightarrow> b | None \<Rightarrow> []))"
    "q \<noteq> p \<Longrightarrow> map_of fs' q = map_of fs q"
  using assms
  by (auto simp: os_open_create_def file_data_def update_conv split: option.splits fnode.splits if_splits)

lemma write_ok:
  assumes "os_write flt fs p b = ok fs'" "file_data fs p = Some old"
  shows "file_data fs' p = Some (old @ b)" "q \<noteq> p \<Longrightarrow> map_of fs' q = map_of fs q"
  using assms
  by (auto simp: os_write_def file_data_def update_conv Let_def split: option.splits fnode.splits)

lemma file_data_read: "file_data fs p = Some b \<Longrightarrow> os_read_file no_faults fs p = ok b"
  by (auto simp: os_read_file_def file_data_def split: option.splits fnode.splits)

lemma file_data_cong: "map_of fs p = map_of fs' p \<Longrightarrow> file_data fs p = file_data fs' p"
  by (simp add: file_data_def)

lemma join_with_take_length: "length (join_with sep (take k xs)) \<le> length (join_with sep xs)"
proof (induction sep xs arbitrary: k rule: join_with.induct)
  case (2 sep x)
  then show ?case by (cases k) auto
next
  case (3 sep x y ys)
  show ?case
  proof (cases k)
    case (Suc j)
    then show ?thesis using 3 [of j] by (cases j) auto
  qed simp
qed simp

lemma ancestors_length:
  assumes "proper_dir d" "a \<in> set (ancestors d)"
  shows "length a \<le> length d"
proof -
  define segs where "segs = rev (clean_stack d)"
  obtain i where i: "i < length segs" "a = render_path (is_rooted d) (rev (take (Suc i) segs))"
    using assms(2) unfolding ancestors_def Let_def segs_def [symmetric] by auto
  have d: "d = render_path (is_rooted d) (rev segs)"
    using assms(1) by (simp add: segs_def proper_dir_def clean_path_def)
  have "rev (take (Suc i) segs) \<noteq> []" "rev segs \<noteq> []" using i(1) by auto
  then show ?thesis
    using join_with_take_length [of "[SLASH]" "Suc i" segs] i(2)
    by (subst d) (simp add: render_path_def)
qed

end
