(* ===== verification/Nodes.thy ===== *)
theory Nodes
  imports Go_FS
begin

text \<open>
  The worker registry, \<open>internal/nodes/nodes.go\<close>: the parser of \<open>nodes.txt\<close>, the
  lookup by name and the random choice.  The random source is a value threaded through
  \<open>Random\<close>; the generator behind it is a function argument.
\<close>

section \<open>Data\<close>

record node =
  n_user :: string
  n_host :: string

definition node_string :: "node \<Rightarrow> string" where
  "node_string n = n_user n @ ''@'' @ n_host n"

record registry =
  reg_nodes :: "node list"
  reg_rnd :: nat

datatype nodes_error =
    Malformed nat string | EmptyPart nat string | ScanTooLong | OpenFailed path ioerr
  | HomeFailed string | NodeNotFound string | RegistryEmpty

definition new_registry :: "nat \<Rightarrow> node list \<Rightarrow> registry" where
  "new_registry seed ns = \<lparr> reg_nodes = ns, reg_rnd = seed \<rparr>"

section \<open>The parser\<close>

definition nodes_max_line :: nat where "nodes_max_line = 2 ^ 20"

definition strip_comment :: "string \<Rightarrow> string" where
  "strip_comment raw = (case index_str raw '' #'' of Some i \<Rightarrow> trim_space (take i raw) | None \<Rightarrow> raw)"

text \<open>One line: \<open>None\<close> for a blank or comment line.\<close>

definition parse_line :: "nat \<Rightarrow> string \<Rightarrow> (nodes_error, node option) result" where
  "parse_line lineNo text =
     (let raw0 = trim_space text in
      if raw0 = [] \<or> has_prefix raw0 ''#'' then ok None
      else (let raw = strip_comment raw0 in
        case index_byte raw CHR ''@'' of
          None \<Rightarrow> err (Malformed lineNo raw)
        | Some at \<Rightarrow>
            if at = 0 \<or> Suc at = length raw then err (Malformed lineNo raw)
            else (let user = trim_space (take at raw); host = trim_space (drop (Suc at) raw) in
              if user = [] \<or> host = [] then err (EmptyPart lineNo raw)
              else ok (Some \<lparr> n_user = user, n_host = host \<rparr>))))"

fun parse_lines :: "nat \<Rightarrow> string list \<Rightarrow> (nodes_error, node list) result" where
  "parse_lines lineNo [] = ok []"
| "parse_lines lineNo (l # ls) =
     (case parse_line (Suc lineNo) l of
        Inl e \<Rightarrow> err e
      | Inr on \<Rightarrow> (case parse_lines (Suc lineNo) ls of
            Inl e \<Rightarrow> err e
          | Inr ns \<Rightarrow> ok (case on of None \<Rightarrow> ns | Some n \<Rightarrow> n # ns)))"

definition parse_nodes :: "nat \<Rightarrow> bytes \<Rightarrow> (nodes_error, registry) result" where
  "parse_nodes seed s =
     (case scan_lines nodes_max_line s of (ls, tooLong) \<Rightarrow>
        (case parse_lines 0 ls of
           Inl e \<Rightarrow> err e
         | Inr ns \<Rightarrow> if tooLong then err ScanTooLong else ok (new_registry seed ns)))"

definition default_nodes_path :: path where
  "default_nodes_path = ''~/.hermes/nodes.txt''"

definition expand_home :: "(string, path) result \<Rightarrow> path \<Rightarrow> (nodes_error, path) result" where
  "expand_home home p =
     (if \<not> has_prefix p ''~/'' then ok p
      else (case home of Inl m \<Rightarrow> err (HomeFailed m) | Inr h \<Rightarrow> ok (join2 h (drop 2 p))))"

definition load_nodes ::
  "(string, path) result \<Rightarrow> faults \<Rightarrow> fs \<Rightarrow> nat \<Rightarrow> path \<Rightarrow> (nodes_error, registry) result" where
  "load_nodes home flt fs seed p =
     (case expand_home home (if p = [] then default_nodes_path else p) of
        Inl e \<Rightarrow> err e
      | Inr q \<Rightarrow> (case os_read_file flt fs q of
            Inl e \<Rightarrow> err (OpenFailed q e)
          | Inr b \<Rightarrow> parse_nodes seed b))"

section \<open>Iteration and lookup\<close>

definition nodes_len :: "registry \<Rightarrow> nat" where
  "nodes_len r = length (reg_nodes r)"

definition all_nodes :: "registry \<Rightarrow> node list" where
  "all_nodes r = reg_nodes r"

definition one_node :: "registry \<Rightarrow> string \<Rightarrow> (nodes_error, node) result" where
  "one_node r name0 =
     (let name = trim_space name0 in
      if name = [] then err (NodeNotFound [])
      else (case find (\<lambda>n. node_string n = name) (reg_nodes r) of
          Some n \<Rightarrow> ok n
        | None \<Rightarrow> (case find (\<lambda>n. n_host n = name) (reg_nodes r) of
              Some n \<Rightarrow> ok n
            | None \<Rightarrow> err (NodeNotFound name))))"

definition random_node ::
  "(nat \<Rightarrow> nat \<Rightarrow> nat \<times> nat) \<Rightarrow> registry \<Rightarrow> (nodes_error, node) result \<times> registry" where
  "random_node draw r =
     (if reg_nodes r = [] then (err RegistryEmpty, r)
      else (case draw (length (reg_nodes r)) (reg_rnd r) of
              (i, s) \<Rightarrow> (ok (reg_nodes r ! i), r\<lparr>reg_rnd := s\<rparr>)))"

definition set_source :: "nat \<Rightarrow> registry \<Rightarrow> registry" where
  "set_source s r = r\<lparr>reg_rnd := s\<rparr>"

text \<open>The inverse of the parser, as operators write the file.\<close>

definition render_nodes :: "node list \<Rightarrow> bytes" where
  "render_nodes ns = concat (map (\<lambda>n. node_string n @ [NL]) ns)"

section \<open>Canonical entries\<close>

definition canonical_node :: "node \<Rightarrow> bool" where
  "canonical_node n \<longleftrightarrow>
     n_user n \<noteq> [] \<and> n_host n \<noteq> [] \<and> trim_space (n_user n) = n_user n \<and> trim_space (n_host n) = n_host n
     \<and> CHR ''@'' \<notin> set (n_user n) \<and> \<not> has_prefix (n_user n) ''#''
     \<and> \<not> contains (n_user n) '' #'' \<and> \<not> contains (n_host n) '' #''
     \<and> NL \<notin> set (node_string n) \<and> length (node_string n) < nodes_max_line"

lemma node_string_trim:
  assumes "canonical_node n"
  shows "trim_space (node_string n) = node_string n"
proof (rule trim_space_id)
  have u: "sp_len (n_user n) = 0" "n_user n \<noteq> []"
    using assms trim_space_sp_len by (auto simp: canonical_node_def)
  have h: "rsp_len (rev (n_host n)) = 0" "n_host n \<noteq> []"
    using assms trim_space_rsp_len by (auto simp: canonical_node_def)
  show "sp_len (node_string n) = 0"
    using u sp_len_append_ascii [of "n_user n" "CHR ''@''"] by (simp add: node_string_def byte_def)
  show "rsp_len (rev (node_string n)) = 0"
    using h rsp_len_append_ascii [of "rev (n_host n)" "CHR ''@''"] by (simp add: node_string_def byte_def)
qed

lemma node_string_no_comment:
  assumes "canonical_node n"
  shows "index_str (node_string n) '' #'' = None"
proof -
  have "\<not> contains (node_string n) '' #''"
    using assms unfolding node_string_def canonical_node_def
    by (intro contains_no_cross) auto
  then show ?thesis by (simp add: contains_def)
qed

lemma parse_line_node_string:
  assumes "canonical_node n"
  shows "parse_line k (node_string n) = ok (Some n)"
proof -
  have u: "n_user n \<noteq> []" "n_host n \<noteq> []" "CHR ''@'' \<notin> set (n_user n)"
    "trim_space (n_user n) = n_user n" "trim_space (n_host n) = n_host n"
    "\<not> has_prefix (n_user n) ''#''"
    using assms by (auto simp: canonical_node_def)
  have ne: "node_string n \<noteq> []" by (simp add: node_string_def)
  have pre: "\<not> has_prefix (node_string n) ''#''"
    using u by (cases "n_user n") (auto simp: node_string_def has_prefix_def)
  have at: "index_byte (node_string n) CHR ''@'' = Some (length (n_user n))"
    using u by (simp add: node_string_def index_byte_append)
  have sc: "strip_comment (node_string n) = node_string n"
    by (simp add: strip_comment_def node_string_no_comment [OF assms])
  show ?thesis
    unfolding parse_line_def Let_def node_string_trim [OF assms] sc at
    using ne pre u by (simp add: node_string_def)
qed

lemma parse_lines_canonical:
  "list_all canonical_node ns \<Longrightarrow> parse_lines k (map node_string ns) = ok ns"
  by (induction ns arbitrary: k) (simp_all add: parse_line_node_string)

lemma canonical_last_CR: "canonical_node n \<Longrightarrow> last (node_string n) \<noteq> CR"
  using trim_space_last_CR [OF node_string_trim] by (simp add: node_string_def)

lemma parse_render_canonical:
  assumes "list_all canonical_node ns"
  shows "parse_nodes seed (render_nodes ns) = ok (new_registry seed ns)"
proof -
  have "scan_lines nodes_max_line (concat (map (\<lambda>l. l @ [NL]) (map node_string ns))) = (map node_string ns, False)"
    by (rule scan_lines_lines) (use assms canonical_last_CR in \<open>auto simp: list_all_iff canonical_node_def\<close>)
  then show ?thesis
    by (simp add: parse_nodes_def render_nodes_def comp_def parse_lines_canonical [OF assms])
qed

text \<open>Whatever the parser accepts is canonical.\<close>

lemma strip_comment_clean:
  "\<not> contains (strip_comment raw) '' #'' \<and> (\<exists>p q. raw = p @ strip_comment raw @ q)"
proof (cases "index_str raw '' #''")
  case None
  then show ?thesis by (simp add: strip_comment_def contains_def) (metis append_Nil append_Nil2)
next
  case (Some i)
  obtain p q where "take i raw = p @ trim_space (take i raw) @ q" using trim_space_infix by blast
  then have "raw = p @ trim_space (take i raw) @ q @ drop i raw"
    by (metis append_assoc append_take_drop_id)
  moreover have "\<not> contains (trim_space (take i raw)) '' #''"
    using Some index_str_first contains_trim by blast
  ultimately show ?thesis using Some by (simp add: strip_comment_def) metis
qed

lemma strip_comment_head:
  assumes "strip_comment raw \<noteq> []" "trim_space raw = raw"
  shows "hd (strip_comment raw) = hd raw \<and> trim_space (strip_comment raw) = strip_comment raw"
proof (cases "index_str raw '' #''")
  case None
  with assms show ?thesis by (simp add: strip_comment_def)
next
  case (Some i)
  have "sp_len (take i raw) = 0"
    using trim_space_sp_len [OF assms(2)] sp_len_prefix [of "take i raw" "drop i raw"] by simp
  then have l: "trim_left_space (take i raw) = take i raw" by (simp add: trim_left_space.simps)
  obtain q where "rev (take i raw) = q @ trim_rev_space (rev (take i raw))"
    using trim_rev_space_suffix by blast
  then have "take i raw = trim_space (take i raw) @ rev q"
    unfolding trim_space_def l by (metis rev_append rev_rev_ident)
  then have "raw = trim_space (take i raw) @ rev q @ drop i raw"
    by (metis append_assoc append_take_drop_id)
  with assms Some show ?thesis
    by (simp add: strip_comment_def) (metis hd_append2)
qed

lemma parse_line_canonical:
  assumes "parse_line k l = ok (Some n)" "NL \<notin> set l" "length l < nodes_max_line"
  shows "canonical_node n"
proof -
  define raw0 where "raw0 = trim_space l"
  define raw where "raw = strip_comment raw0"
  from assms(1) obtain at where at: "index_byte raw CHR ''@'' = Some at" "at \<noteq> 0"
    and n: "n = \<lparr> n_user = trim_space (take at raw), n_host = trim_space (drop (Suc at) raw) \<rparr>"
    and ne: "trim_space (take at raw) \<noteq> []" "trim_space (drop (Suc at) raw) \<noteq> []"
    and hash: "\<not> has_prefix raw0 ''#''"
    unfolding parse_line_def Let_def raw_def raw0_def
    by (auto split: if_splits option.splits)
  obtain p q where pq: "raw0 = p @ raw @ q" and nc: "\<not> contains raw '' #''"
    using strip_comment_clean raw_def by blast
  obtain p' q' where l: "l = p' @ raw0 @ q'" using trim_space_infix raw0_def by blast
  have len: "length raw \<le> length l" and setr: "set raw \<subseteq> set l" using pq l by auto
  have raw: "raw = take at raw @ CHR ''@'' # drop (Suc at) raw" "at < length raw"
    "CHR ''@'' \<notin> set (take at raw)"
    using index_byte_Some [OF at(1)] by auto
  then have "raw \<noteq> []" by auto
  then have hd: "hd raw = hd raw0" "trim_space raw = raw"
    using strip_comment_head [of raw0] raw_def raw0_def by auto
  have u0: "trim_left_space (take at raw) = take at raw"
    using trim_space_sp_len [OF hd(2)] sp_len_prefix [of "take at raw" "drop at raw"]
    by (simp add: trim_left_space.simps)
  have hu: "\<not> has_prefix (trim_space (take at raw)) ''#''"
  proof
    assume "has_prefix (trim_space (take at raw)) ''#''"
    then obtain r where r: "trim_space (take at raw) = ''#'' @ r" by (rule has_prefixE)
    obtain q where "rev (take at raw) = q @ trim_rev_space (rev (take at raw))"
      using trim_rev_space_suffix by blast
    then have "take at raw = trim_space (take at raw) @ rev q"
      unfolding trim_space_def u0 by (metis rev_append rev_rev_ident)
    then have "hd raw = CHR ''#''" using r raw(1) by (metis append_Cons list.sel(1))
    moreover have "raw0 \<noteq> []" using pq \<open>raw \<noteq> []\<close> by auto
    ultimately have "has_prefix raw0 ''#''" using hd(1) by (cases raw0) (simp_all add: has_prefix_def)
    with hash show False by simp
  qed
  have "length (take at raw) + length (drop (Suc at) raw) < length raw" using raw(2) by simp
  then have "length (node_string n) \<le> length raw"
    using trim_space_length [of "take at raw"] trim_space_length [of "drop (Suc at) raw"]
    by (simp add: n node_string_def)
  moreover have "set (node_string n) \<subseteq> insert CHR ''@'' (set raw)"
    using set_trim_space [of "take at raw"] set_trim_space [of "drop (Suc at) raw"]
      set_take_subset [of at raw] set_drop_subset [of "Suc at" raw]
    by (auto simp: n node_string_def)
  moreover have "\<not> contains (take at raw) '' #''"
    using nc contains_infix [of "take at raw" "'' #''" raw "[]"] raw(1) by (metis append_Nil)
  moreover have "\<not> contains (drop (Suc at) raw) '' #''"
    using nc contains_infix [of "drop (Suc at) raw" "'' #''" raw "take (Suc at) raw" "[]"] by auto
  ultimately show ?thesis
    using ne hu raw(3) set_trim_space [of "take at raw"] len setr assms(2,3)
    unfolding canonical_node_def by (auto simp: n dest!: contains_trim)
qed

lemma parse_lines_all_canonical:
  assumes "parse_lines k ls = ok ns" "\<And>l. l \<in> set ls \<Longrightarrow> NL \<notin> set l \<and> length l < nodes_max_line"
  shows "list_all canonical_node ns"
  using assms
proof (induction ls arbitrary: k ns)
  case (Cons l ls)
  then obtain on ns' where "parse_line (Suc k) l = ok on" "parse_lines (Suc k) ls = ok ns'"
    "ns = (case on of None \<Rightarrow> ns' | Some n \<Rightarrow> n # ns')"
    by (auto split: sum.splits)
  moreover from this Cons have "list_all canonical_node ns'" by auto
  ultimately show ?case using parse_line_canonical Cons.prems(2) by (auto split: option.splits)
qed simp

lemma parse_nodes_canonical:
  assumes "parse_nodes seed s = ok r"
  shows "list_all canonical_node (reg_nodes r)"
proof -
  obtain ls where ls: "scan_lines nodes_max_line s = (ls, False)" "parse_lines 0 ls = ok (reg_nodes r)"
    using assms by (auto simp: parse_nodes_def new_registry_def split: prod.splits sum.splits if_splits)
  then show ?thesis
    using parse_lines_all_canonical scan_lines_sound by (metis fst_conv)
qed

section \<open>Properties\<close>

text \<open>C40.  Normal form of the registry file: whatever text \<open>Parse\<close> accepts, writing the
  parsed nodes one per line as \<open>user@host\<close> and parsing again gives the same nodes in the
  same order, so the parser loses and invents nothing.\<close>

theorem parse_render_parse:
  "parse_nodes seed s = ok r \<Longrightarrow> parse_nodes seed (render_nodes (all_nodes r)) = ok r"
  using parse_render_canonical [OF parse_nodes_canonical]
  by (auto simp: all_nodes_def parse_nodes_def new_registry_def split: prod.splits sum.splits if_splits)

theorem parse_render_parse_witness:
  "parse_nodes 7 (render_nodes [\<lparr> n_user = ''ops'', n_host = ''a1'' \<rparr>, \<lparr> n_user = ''b'', n_host = ''c d'' \<rparr>])
     = ok \<lparr> reg_nodes = [\<lparr> n_user = ''ops'', n_host = ''a1'' \<rparr>, \<lparr> n_user = ''b'', n_host = ''c d'' \<rparr>], reg_rnd = 7 \<rparr>"
proof -
  have "parse_nodes 7 (''# fleet'' @ [NL] @ ''  ops@a1  # first'' @ [CR, NL, NL] @ ''b @ c d'')
     = ok \<lparr> reg_nodes = [\<lparr> n_user = ''ops'', n_host = ''a1'' \<rparr>, \<lparr> n_user = ''b'', n_host = ''c d'' \<rparr>], reg_rnd = 7 \<rparr>"
    by (simp add: go_eval parse_nodes_def parse_line_def strip_comment_def nodes_max_line_def new_registry_def)
  from parse_render_parse [OF this] show ?thesis by (simp add: all_nodes_def)
qed

text \<open>Two canonical nodes with the same printed form are equal: the first \<open>@\<close> ends the
  user.\<close>

lemma node_string_inj:
  assumes "canonical_node m" "canonical_node n" "node_string m = node_string n"
  shows "m = n"
proof -
  have "split_on CHR ''@'' (node_string k) = n_user k # split_on CHR ''@'' (n_host k)"
    if "canonical_node k" for k :: node
    using that by (simp add: node_string_def canonical_node_def split_on_append)
  with assms have "n_user m = n_user n" "split_on CHR ''@'' (n_host m) = split_on CHR ''@'' (n_host n)"
    by (metis list.inject)+
  then show ?thesis by (metis join_split node.equality old.unit.exhaust)
qed

text \<open>Every node that \<open>Parse\<close> registered is found by \<open>One\<close> under its own
  \<open>user@host\<close> form, also when surrounded by white space, and the node returned is exactly
  that node, whatever the other entries and their hosts are.\<close>

theorem one_node_own_string:
  assumes "parse_nodes seed s = ok r" "n \<in> set (all_nodes r)" "trim_space name = node_string n"
  shows "one_node r name = ok n"
proof -
  have can: "\<And>m. m \<in> set (reg_nodes r) \<Longrightarrow> canonical_node m"
    using parse_nodes_canonical [OF assms(1)] by (simp add: list_all_iff)
  have n: "n \<in> set (reg_nodes r)" using assms(2) by (simp add: all_nodes_def)
  have "find (\<lambda>m. node_string m = node_string n) (reg_nodes r) = Some n"
    using n node_string_inj can by (intro find_Some_unique) auto
  then show ?thesis
    using assms(3) by (simp add: one_node_def node_string_def)
qed

theorem one_node_own_string_witness:
  "one_node \<lparr> reg_nodes = [\<lparr> n_user = ''x'', n_host = ''b@c'' \<rparr>, \<lparr> n_user = ''b'', n_host = ''c'' \<rparr>], reg_rnd = 7 \<rparr>
     '' b@c'' = ok \<lparr> n_user = ''b'', n_host = ''c'' \<rparr>"
proof -
  have "parse_nodes 7 (''x@b@c'' @ [NL] @ ''b@c'')
     = ok \<lparr> reg_nodes = [\<lparr> n_user = ''x'', n_host = ''b@c'' \<rparr>, \<lparr> n_user = ''b'', n_host = ''c'' \<rparr>], reg_rnd = 7 \<rparr>"
    by (simp add: go_eval parse_nodes_def parse_line_def strip_comment_def nodes_max_line_def new_registry_def)
  from one_node_own_string [OF this, of "\<lparr> n_user = ''b'', n_host = ''c'' \<rparr>" "'' b@c''"]
  show ?thesis by (simp add: all_nodes_def node_string_def go_eval)
qed

end
