(* ===== verification/Go_Utf8.thy ===== *)
theory Go_Utf8
  imports Go_Prelude
begin

text \<open>
  UTF-8 as packages \<open>unicode/utf8\<close> and \<open>encoding/json\<close> treat it: the width of the
  rune at the head of a byte string (0 when the bytes are not UTF-8), the replacement of invalid
  bytes by U+FFFD, the quoting of a Go string as a JSON string literal and its inverse.  The
  central fact is that unquoting a quoted string gives the string with every invalid byte
  replaced, so that exactly the valid UTF-8 strings survive a round trip.
\<close>

section \<open>Runes\<close>

definition cont :: "nat \<Rightarrow> bool" where
  "cont b \<longleftrightarrow> 0x80 \<le> b \<and> b \<le> 0xBF"

definition lead2 :: "nat \<Rightarrow> bool" where
  "lead2 a \<longleftrightarrow> 0xC2 \<le> a \<and> a \<le> 0xDF"

definition ok3 :: "nat \<Rightarrow> nat \<Rightarrow> bool" where
  "ok3 a b \<longleftrightarrow>
     (a = 0xE0 \<and> 0xA0 \<le> b \<and> b \<le> 0xBF) \<or> (0xE1 \<le> a \<and> a \<le> 0xEC \<and> cont b)
   \<or> (a = 0xED \<and> 0x80 \<le> b \<and> b \<le> 0x9F) \<or> (0xEE \<le> a \<and> a \<le> 0xEF \<and> cont b)"

definition ok4 :: "nat \<Rightarrow> nat \<Rightarrow> bool" where
  "ok4 a b \<longleftrightarrow>
     (a = 0xF0 \<and> 0x90 \<le> b \<and> b \<le> 0xBF) \<or> (0xF1 \<le> a \<and> a \<le> 0xF3 \<and> cont b)
   \<or> (a = 0xF4 \<and> 0x80 \<le> b \<and> b \<le> 0x8F)"

definition rune_width :: "bytes \<Rightarrow> nat" where
  "rune_width s =
     (case s of [] \<Rightarrow> 0
      | a # r \<Rightarrow> if byte a < 0x80 then 1
        else (case r of [] \<Rightarrow> 0
          | b # q \<Rightarrow> if lead2 (byte a) \<and> cont (byte b) then 2
            else (case q of [] \<Rightarrow> 0
              | c # t \<Rightarrow> if ok3 (byte a) (byte b) \<and> cont (byte c) then 3
                else (case t of [] \<Rightarrow> 0
                  | d # _ \<Rightarrow> if ok4 (byte a) (byte b) \<and> cont (byte c) \<and> cont (byte d) then 4 else 0))))"

abbreviation repl_char :: bytes where
  "repl_char \<equiv> [CHR 0xEF, CHR 0xBF, CHR 0xBD]"

lemma rune_width_le: "rune_width s \<le> length s"
  by (auto simp: rune_width_def split: list.splits)

lemma rune_width_ascii: "byte c < 128 \<Longrightarrow> rune_width (c # s) = 1"
  by (simp add: rune_width_def)

lemma lead2_not_3_4: "lead2 a \<Longrightarrow> \<not> ok3 a b \<and> \<not> ok4 a b"
  by (auto simp: lead2_def ok3_def ok4_def)

lemma ok3_not_4: "ok3 a b \<Longrightarrow> \<not> ok4 a b \<and> \<not> lead2 a \<and> \<not> a < 128"
  by (auto simp: lead2_def ok3_def ok4_def)

lemma ok4_not: "ok4 a b \<Longrightarrow> \<not> ok3 a b \<and> \<not> lead2 a \<and> \<not> a < 128"
  by (auto simp: lead2_def ok3_def ok4_def)

text \<open>The five shapes of the head of a string.\<close>

lemma rune_width_cases:
  obtains "s = []" "rune_width s = 0"
  | c r where "s = c # r" "128 \<le> byte c" "rune_width s = 0"
  | c r where "s = c # r" "byte c < 128" "rune_width s = 1"
  | a b r where "s = a # b # r" "lead2 (byte a)" "cont (byte b)" "rune_width s = 2"
  | a b c r where "s = a # b # c # r" "ok3 (byte a) (byte b)" "cont (byte c)" "rune_width s = 3"
  | a b c d r where "s = a # b # c # d # r" "ok4 (byte a) (byte b)" "cont (byte c)" "cont (byte d)"
      "rune_width s = 4"
proof (cases "rune_width s = 0")
  case True
  then show ?thesis using that(1,2)
    by (cases s) (auto simp: rune_width_def not_less split: if_splits)
next
  case False
  then show ?thesis using that(3-6)
    by (auto simp: rune_width_def split: list.splits if_splits)
qed

text \<open>The width depends on the rune itself only.\<close>

lemma rune_width_take: "0 < rune_width s \<Longrightarrow> rune_width (take (rune_width s) s @ t) = rune_width s"
  by (cases s rule: rune_width_cases)
     (auto simp: rune_width_def dest: lead2_not_3_4 ok3_not_4 ok4_not simp: lead2_def)

lemma rune_width_ascii_tail:
  "rune_width (s @ c # t) = rune_width s" if "s \<noteq> []" "byte c < 128"
proof -
  have nc: "\<not> cont (byte c)" using that by (simp add: cont_def)
  moreover have "\<not> ok3 a (byte c)" "\<not> ok4 a (byte c)" for a
    using that by (auto simp: ok3_def ok4_def cont_def)
  ultimately show ?thesis using that
    by (cases s rule: list_cases3) (auto simp: rune_width_def split: list.splits)
qed

function coerce :: "bytes \<Rightarrow> bytes" where
  "coerce [] = []"
| "coerce (c # s) =
     (if rune_width (c # s) = 0 then repl_char @ coerce s
      else take (rune_width (c # s)) (c # s) @ coerce (drop (rune_width (c # s)) (c # s)))"
  by pat_completeness auto
termination by (relation "measure length") auto

definition valid_utf8 :: "bytes \<Rightarrow> bool" where
  "valid_utf8 s \<longleftrightarrow> coerce s = s"

text \<open>Pure ASCII text is valid.\<close>

lemma valid_utf8_Nil [simp]: "valid_utf8 []"
  by (simp add: valid_utf8_def)

lemma coerce_ascii_Cons: "byte c < 128 \<Longrightarrow> coerce (c # s) = c # coerce s"
  by (simp add: rune_width_ascii)

lemma valid_utf8_ascii: "(\<And>c. c \<in> set s \<Longrightarrow> byte c < 128) \<Longrightarrow> valid_utf8 s"
  unfolding valid_utf8_def by (induction s) (simp_all add: coerce_ascii_Cons del: coerce.simps(2))

lemma coerce_rune:
  assumes "0 < rune_width s"
  shows "coerce (take (rune_width s) s @ t) = take (rune_width s) s @ coerce t"
proof -
  let ?w = "rune_width s"
  have "s \<noteq> []" using assms by (auto simp: rune_width_def)
  then obtain c r where cr: "take ?w s @ t = c # r" using assms by (cases s; cases ?w) auto
  have w: "rune_width (c # r) = ?w" using rune_width_take [OF assms, of t] cr by simp
  have "length (take ?w s) = ?w" using rune_width_le by simp
  then have "take ?w (c # r) = take ?w s" "drop ?w (c # r) = t" using cr by (metis append_eq_conv_conj)+
  with w assms show ?thesis unfolding cr by simp
qed

lemma coerce_repl: "coerce (repl_char @ t) = repl_char @ coerce t"
  using coerce_rune [of repl_char t] by (simp add: rune_width_def lead2_def ok3_def cont_def byte_def)

theorem coerce_idem [simp]: "coerce (coerce s) = coerce s"
proof (induction s rule: coerce.induct)
  case (2 c s)
  then show ?case
    using coerce_repl [of "coerce s"] coerce_rune [of "c # s"]
    by (cases "rune_width (c # s) = 0") (simp_all del: append.simps)
qed simp

lemma valid_utf8_coerce [simp]: "valid_utf8 (coerce s)"
  by (simp add: valid_utf8_def)

section \<open>Encoding a code point\<close>

definition encode_rune :: "nat \<Rightarrow> bytes" where
  "encode_rune r =
     (if r < 0x80 then [char_of r]
      else if r < 0x800 then [char_of (0xC0 + r div 64), char_of (0x80 + r mod 64)]
      else if 0xD800 \<le> r \<and> r \<le> 0xDFFF \<or> 0x10FFFF < r then repl_char
      else if r < 0x10000 then
        [char_of (0xE0 + r div 4096), char_of (0x80 + r div 64 mod 64), char_of (0x80 + r mod 64)]
      else [char_of (0xF0 + r div 262144), char_of (0x80 + r div 4096 mod 64),
            char_of (0x80 + r div 64 mod 64), char_of (0x80 + r mod 64)])"

section \<open>JSON string literals\<close>

definition hex_digit :: "nat \<Rightarrow> char" where
  "hex_digit n = (if n < 10 then char_of (48 + n) else char_of (87 + n))"

definition hex_val :: "char \<Rightarrow> nat option" where
  "hex_val c =
     (if 48 \<le> byte c \<and> byte c \<le> 57 then Some (byte c - 48)
      else if 97 \<le> byte c \<and> byte c \<le> 102 then Some (byte c - 87)
      else if 65 \<le> byte c \<and> byte c \<le> 70 then Some (byte c - 55)
      else None)"

lemma hex_val_digit: "n < 16 \<Longrightarrow> hex_val (hex_digit n) = Some n"
  by (auto simp: hex_val_def hex_digit_def byte_char_of)

text \<open>The escape of one ASCII byte with \<open>escapeHTML\<close> on, the default of
  \<open>json.Marshal\<close>.\<close>

definition html_special :: "char \<Rightarrow> bool" where
  "html_special c \<longleftrightarrow> c = CHR ''<'' \<or> c = CHR ''>'' \<or> c = CHR ''&''"

definition u00 :: "char \<Rightarrow> bytes" where
  "u00 c = [BSL, CHR ''u'', CHR ''0'', CHR ''0'', hex_digit (byte c div 16), hex_digit (byte c mod 16)]"

definition esc_ascii :: "char \<Rightarrow> bytes" where
  "esc_ascii c =
     (if c = DQ \<or> c = BSL then [BSL, c]
      else if byte c = 8 then [BSL, CHR ''b'']
      else if byte c = 12 then [BSL, CHR ''f'']
      else if byte c = 10 then [BSL, CHR ''n'']
      else if byte c = 13 then [BSL, CHR ''r'']
      else if byte c = 9 then [BSL, CHR ''t'']
      else if byte c < 32 \<or> html_special c then u00 c
      else [c])"

definition line_sep :: "bytes \<Rightarrow> bool" where
  "line_sep s = (case s of a # b # c # _ \<Rightarrow> byte a = 0xE2 \<and> byte b = 0x80 \<and> (byte c = 0xA8 \<or> byte c = 0xA9)
                         | _ \<Rightarrow> False)"

definition u202 :: "bytes \<Rightarrow> bytes" where
  "u202 s = [BSL, CHR ''u'', CHR ''2'', CHR ''0'', CHR ''2'', hex_digit (byte (s ! 2) mod 16)]"

function quote_body :: "bytes \<Rightarrow> bytes" where
  "quote_body [] = []"
| "quote_body (c # s) =
     (if byte c < 128 then esc_ascii c @ quote_body s
      else if rune_width (c # s) = 0 then BSL # ''ufffd'' @ quote_body s
      else if line_sep (c # s) then u202 (c # s) @ quote_body (drop 3 (c # s))
      else take (rune_width (c # s)) (c # s) @ quote_body (drop (rune_width (c # s)) (c # s)))"
  by pat_completeness auto
termination by (relation "measure length") (auto simp: line_sep_def split: list.splits)

definition json_quote :: "bytes \<Rightarrow> bytes" where
  "json_quote s = DQ # quote_body s @ [DQ]"

definition hex4 :: "bytes \<Rightarrow> nat option" where
  "hex4 s = (case s of
     a # b # c # d # _ \<Rightarrow>
       (case (hex_val a, hex_val b, hex_val c, hex_val d) of
          (Some w, Some x, Some y, Some z) \<Rightarrow> Some (4096 * w + 256 * x + 16 * y + z)
        | _ \<Rightarrow> None)
   | _ \<Rightarrow> None)"

definition simple_esc :: "char \<Rightarrow> char option" where
  "simple_esc c =
     (if c = DQ \<or> c = BSL \<or> c = CHR ''/'' \<or> c = CHR 0x27 then Some c
      else if c = CHR ''b'' then Some (CHR 8)
      else if c = CHR ''f'' then Some (CHR 12)
      else if c = CHR ''n'' then Some NL
      else if c = CHR ''r'' then Some CR
      else if c = CHR ''t'' then Some TAB
      else None)"

text \<open>The low half of a surrogate pair that follows a high half, if it does.\<close>

definition pair_rune :: "nat \<Rightarrow> bytes \<Rightarrow> nat option" where
  "pair_rune hi s =
     (case s of e # u # r \<Rightarrow>
        (if e = BSL \<and> u = CHR ''u'' \<and> 0xD800 \<le> hi \<and> hi \<le> 0xDBFF then
           (case hex4 r of Some lo \<Rightarrow>
              if 0xDC00 \<le> lo \<and> lo \<le> 0xDFFF then Some (0x10000 + (hi - 0xD800) * 1024 + (lo - 0xDC00)) else None
            | None \<Rightarrow> None)
         else None)
      | _ \<Rightarrow> None)"

function unquote_body :: "bytes \<Rightarrow> bytes option" where
  "unquote_body [] = Some []"
| "unquote_body (c # s) =
     (if c = BSL then
        (case s of
           [] \<Rightarrow> None
         | e # r \<Rightarrow>
             if e = CHR ''u'' then
               (case hex4 r of
                  None \<Rightarrow> None
                | Some rr \<Rightarrow>
                    if 0xD800 \<le> rr \<and> rr \<le> 0xDFFF then
                      (case pair_rune rr (drop 4 r) of
                         Some p \<Rightarrow> map_option ((@) (encode_rune p)) (unquote_body (drop 10 r))
                       | None \<Rightarrow> map_option ((@) repl_char) (unquote_body (drop 4 r)))
                    else map_option ((@) (encode_rune rr)) (unquote_body (drop 4 r)))
             else (case simple_esc e of
                     None \<Rightarrow> None
                   | Some x \<Rightarrow> map_option ((#) x) (unquote_body r)))
      else if c = DQ \<or> byte c < 32 then None
      else if byte c < 128 then map_option ((#) c) (unquote_body s)
      else if rune_width (c # s) = 0 then map_option ((@) repl_char) (unquote_body s)
      else map_option ((@) (take (rune_width (c # s)) (c # s)))
             (unquote_body (drop (rune_width (c # s)) (c # s))))"
  by pat_completeness auto
termination by (relation "measure length") (auto simp: hex4_def split: list.splits)

definition json_unquote :: "bytes \<Rightarrow> bytes option" where
  "json_unquote s =
     (if 2 \<le> length s \<and> hd s = DQ \<and> last s = DQ then unquote_body (butlast (tl s)) else None)"

declare coerce.simps(2) [simp del] quote_body.simps(2) [simp del] unquote_body.simps(2) [simp del]

section \<open>Quoting and unquoting\<close>

lemma char_eqI: "byte c = byte d \<Longrightarrow> c = d"
  by simp

lemma hex4_u00:
  "hex4 (CHR ''0'' # CHR ''0'' # hex_digit (byte c div 16) # hex_digit (byte c mod 16) # t) = Some (byte c)"
proof -
  have "byte c div 16 < 16" using byte_less_256 [of c] by linarith
  moreover have "hex_val CHR ''0'' = Some 0" by (simp add: hex_val_def byte_def)
  ultimately show ?thesis by (simp add: hex4_def hex_val_digit)
qed

lemma unquote_u00:
  assumes "byte c < 128"
  shows "unquote_body (u00 c @ t) = map_option ((#) c) (unquote_body t)"
proof -
  have "encode_rune (byte c) = [c]" using assms by (simp add: encode_rune_def)
  moreover have "(@) [c] = (#) c" by auto
  ultimately show ?thesis
    using assms by (simp add: u00_def unquote_body.simps hex4_u00)
qed

lemma unquote_simple:
  "simple_esc e = Some x \<Longrightarrow> e \<noteq> CHR ''u'' \<Longrightarrow> unquote_body (BSL # e # t) = map_option ((#) x) (unquote_body t)"
  by (simp add: unquote_body.simps)

lemma unquote_plain:
  "c \<noteq> BSL \<Longrightarrow> c \<noteq> DQ \<Longrightarrow> 32 \<le> byte c \<Longrightarrow> byte c < 128 \<Longrightarrow>
   unquote_body (c # t) = map_option ((#) c) (unquote_body t)"
  by (simp add: unquote_body.simps)

lemma unquote_esc_ascii:
  assumes "byte c < 128"
  shows "unquote_body (esc_ascii c @ t) = map_option ((#) c) (unquote_body t)"
proof -
  have b: "c = CHR 8" if "byte c = 8" using that by (intro char_eqI) (simp add: byte_def)
  have f: "c = CHR 12" if "byte c = 12" using that by (intro char_eqI) (simp add: byte_def)
  have n: "c = NL" if "byte c = 10" using that by (intro char_eqI) (simp add: byte_def)
  have r: "c = CR" if "byte c = 13" using that by (intro char_eqI) (simp add: byte_def)
  have t: "c = TAB" if "byte c = 9" using that by (intro char_eqI) (simp add: byte_def)
  show ?thesis
    unfolding esc_ascii_def
    using assms b f n r t
    by (auto simp: unquote_u00 unquote_simple simple_esc_def unquote_plain not_less)
qed

lemma unquote_rune:
  assumes "0 < rune_width s" "128 \<le> byte (hd s)"
  shows "unquote_body (take (rune_width s) s @ t) = map_option ((@) (take (rune_width s) s)) (unquote_body t)"
proof -
  let ?w = "rune_width s"
  have ne: "s \<noteq> []" using assms by (auto simp: rune_width_def)
  then obtain c r where cr: "take ?w s @ t = c # r" using assms by (cases s; cases ?w) auto
  have c: "128 \<le> byte c" using assms cr ne by (cases s; cases ?w) auto
  then have c': "c \<noteq> BSL" "c \<noteq> DQ" "\<not> byte c < 128" "\<not> byte c < 32" by (auto simp: byte_def)
  have w: "rune_width (c # r) = ?w" using rune_width_take [OF assms(1), of t] cr by simp
  have "length (take ?w s) = ?w" using rune_width_le by simp
  then have "take ?w (c # r) = take ?w s" "drop ?w (c # r) = t" using cr by (metis append_eq_conv_conj)+
  with w assms c' show ?thesis unfolding cr by (simp add: unquote_body.simps(2))
qed

lemma hex_val_eval:
  "hex_val CHR ''f'' = Some 15" "hex_val CHR ''d'' = Some 13" "hex_val CHR ''2'' = Some 2" "hex_val CHR ''0'' = Some 0"
  by (simp_all add: hex_val_def byte_def)

lemma char_of_lit: "byte c = n \<Longrightarrow> char_of n = c"
  by auto

lemma char_of_eval:
  "char_of (239::nat) = CHR 0xEF" "char_of (191::nat) = CHR 0xBF" "char_of (189::nat) = CHR 0xBD"
  "char_of (226::nat) = CHR 0xE2" "char_of (128::nat) = CHR 0x80" "char_of (168::nat) = CHR 0xA8"
  "char_of (169::nat) = CHR 0xA9"
  by (rule char_of_lit, simp add: byte_def)+

lemma unquote_ufffd: "unquote_body (BSL # ''ufffd'' @ t) = map_option ((@) repl_char) (unquote_body t)"
  by (simp add: unquote_body.simps hex4_def hex_val_eval encode_rune_def char_of_eval)

lemma line_sep_shape:
  assumes "line_sep s"
  obtains z where "s = CHR 0xE2 # CHR 0x80 # z # drop 3 s" "z = CHR 0xA8 \<or> z = CHR 0xA9"
proof -
  obtain a b c r where s: "s = a # b # c # r" "byte a = 0xE2" "byte b = 0x80" "byte c = 0xA8 \<or> byte c = 0xA9"
    using assms by (auto simp: line_sep_def split: list.splits)
  have "a = CHR 0xE2" "b = CHR 0x80" using s by (auto intro!: char_eqI simp: byte_def)
  moreover have "c = CHR 0xA8 \<or> c = CHR 0xA9" using s(4) by (auto intro!: char_eqI simp: byte_def)
  ultimately show ?thesis using that s(1) by simp
qed

lemma unquote_u202:
  assumes "line_sep s"
  shows "unquote_body (u202 s @ t) = map_option ((@) (take 3 s)) (unquote_body t)"
proof -
  obtain z where s: "s = CHR 0xE2 # CHR 0x80 # z # drop 3 s" and z: "z = CHR 0xA8 \<or> z = CHR 0xA9"
    using line_sep_shape [OF assms] .
  have s2: "s ! 2 = z" "take 3 s = [CHR 0xE2, CHR 0x80, z]" by (subst s, simp)+
  show ?thesis
    using z unfolding u202_def s2
    by (auto simp: unquote_body.simps hex4_def hex_val_digit hex_val_eval encode_rune_def byte_def char_of_eval)
qed

lemma line_sep_width: "line_sep s \<Longrightarrow> rune_width s = 3"
  by (erule line_sep_shape) (erule ssubst, auto simp: rune_width_def lead2_def ok3_def cont_def byte_def)

theorem unquote_quote_body: "unquote_body (quote_body s) = Some (coerce s)"
proof (induction s rule: quote_body.induct)
  case (2 c s)
  show ?case
  proof (cases "byte c < 128")
    case True
    with 2(1) show ?thesis
      by (simp add: quote_body.simps unquote_esc_ascii coerce_ascii_Cons)
  next
    case False
    consider "rune_width (c # s) = 0" | "rune_width (c # s) \<noteq> 0" "line_sep (c # s)"
      | "rune_width (c # s) \<noteq> 0" "\<not> line_sep (c # s)" by blast
    then show ?thesis
    proof cases
      case 1
      with 2(2) False show ?thesis
        using unquote_ufffd [of "quote_body s"] by (simp add: quote_body.simps coerce.simps)
    next
      case 2
      then show ?thesis
        using False "2.IH"(3) unquote_u202 line_sep_width [of "c # s"]
        by (simp add: quote_body.simps coerce.simps)
    next
      case 3
      then show ?thesis
        using False "2.IH"(4) unquote_rune [of "c # s"]
        by (simp add: quote_body.simps coerce.simps del: take_Cons_numeral)
    qed
  qed
qed simp

theorem json_unquote_quote: "json_unquote (json_quote s) = Some (coerce s)"
  by (simp add: json_unquote_def json_quote_def unquote_quote_body)

text \<open>A quoted body holds neither control characters nor a bare quotation mark or newline, which
  is why one record fits one line.\<close>

lemma hex_digit_plain: "n < 16 \<Longrightarrow> 48 \<le> byte (hex_digit n) \<and> byte (hex_digit n) < 128"
  by (simp add: hex_digit_def byte_char_of)

lemma u00_bytes: "x \<in> set (u00 c) \<Longrightarrow> 32 \<le> byte x \<and> byte x < 128"
proof -
  assume "x \<in> set (u00 c)"
  moreover have "byte c div 16 < 16" using byte_less_256 [of c] by linarith
  ultimately show ?thesis
    using hex_digit_plain [of "byte c div 16"] hex_digit_plain [of "byte c mod 16"]
    by (auto simp: u00_def byte_def)
qed

lemma esc_ascii_bytes: "x \<in> set (esc_ascii c) \<Longrightarrow> 32 \<le> byte x"
  using u00_bytes [of x c] by (auto simp: esc_ascii_def byte_def not_less split: if_splits)

lemma quote_body_bytes: "x \<in> set (quote_body s) \<Longrightarrow> 32 \<le> byte x"
proof (induction s rule: quote_body.induct)
  case (2 c s)
  have hx: "32 \<le> byte (hex_digit (byte ((c # s) ! 2) mod 16))"
    using hex_digit_plain [of "byte ((c # s) ! 2) mod 16"] by simp
  have w: "32 \<le> byte y" if "y \<in> set (take (rune_width (c # s)) (c # s))" "128 \<le> byte c" for y
    using that by (cases "c # s" rule: rune_width_cases) (auto simp: cont_def ok3_def ok4_def)
  from 2 show ?case
    using esc_ascii_bytes [of x c] hx w
    by (auto simp: quote_body.simps(2) u202_def byte_def not_less split: if_splits)
qed simp

section \<open>Unquoted strings are valid UTF-8\<close>

lemma coerce_piece:
  assumes "rune_width v = length v" "v \<noteq> []"
  shows "coerce (v @ t) = v @ coerce t"
  using coerce_rune [of v t] assms by simp

lemma encode_rune_width: "rune_width (encode_rune r) = length (encode_rune r) \<and> encode_rune r \<noteq> []"
proof -
  have b: "byte (char_of n) = n" if "n < 256" for n using that by (rule byte_char_of)
  have repl: "rune_width repl_char = 3" by (simp add: rune_width_def lead2_def ok3_def cont_def byte_def)
  consider "r < 0x80" | "0x80 \<le> r" "r < 0x800" | "0xD800 \<le> r \<and> r \<le> 0xDFFF \<or> 0x10FFFF < r"
    | "0x800 \<le> r" "\<not> (0xD800 \<le> r \<and> r \<le> 0xDFFF)" "r < 0x10000"
    | "0x10000 \<le> r" "r \<le> 0x10FFFF"
    by linarith
  then show ?thesis
  proof cases
    case 1
    then show ?thesis by (simp add: encode_rune_def rune_width_def b)
  next
    case 2
    then have "2 \<le> r div 64" "r div 64 < 32" by linarith+
    moreover have "r mod 64 < 64" by simp
    ultimately show ?thesis using 2
      by (simp add: encode_rune_def rune_width_def b lead2_def cont_def)
  next
    case 3
    then show ?thesis using repl by (auto simp: encode_rune_def)
  next
    case 4
    define x y z where "x = r div 4096" and "y = r div 64 mod 64" and "z = r mod 64"
    have "r div 64 = 64 * x + y" unfolding x_def y_def using mult_div_mod_eq [of 64 "r div 64"] by (simp add: div_mult2_eq [symmetric])
    then have r: "r = 4096 * x + 64 * y + z" unfolding z_def using mult_div_mod_eq [of 64 r] by linarith
    have yz: "y < 64" "z < 64" unfolding y_def z_def by simp_all
    have x: "x < 16" using 4 unfolding x_def by linarith
    have ok: "ok3 (224 + x) (128 + y)"
      using 4 r yz x unfolding ok3_def cont_def by linarith
    have "\<not> lead2 (224 + x)" by (simp add: lead2_def)
    then show ?thesis using 4 x yz ok
      by (simp add: encode_rune_def x_def [symmetric] y_def [symmetric] z_def [symmetric] rune_width_def b cont_def)
  next
    case 5
    define w x y z where "w = r div 262144" and "x = r div 4096 mod 64" and "y = r div 64 mod 64" and "z = r mod 64"
    have "r div 4096 = 64 * w + x" unfolding w_def x_def using mult_div_mod_eq [of 64 "r div 4096"] by (simp add: div_mult2_eq [symmetric])
    moreover have "r div 64 = 64 * (r div 4096) + y" unfolding y_def using mult_div_mod_eq [of 64 "r div 64"] by (simp add: div_mult2_eq [symmetric])
    ultimately have r: "r = 262144 * w + 4096 * x + 64 * y + z" unfolding z_def using mult_div_mod_eq [of 64 r] by linarith
    have xyz: "x < 64" "y < 64" "z < 64" unfolding x_def y_def z_def by simp_all
    have w: "w < 5" using 5 unfolding w_def by linarith
    have ok: "ok4 (240 + w) (128 + x)"
      using 5 r xyz w unfolding ok4_def cont_def by linarith
    have "\<not> lead2 (240 + w)" "\<not> ok3 (240 + w) (128 + x)" by (auto simp: lead2_def ok3_def)
    then show ?thesis using 5 w xyz ok
      by (simp add: encode_rune_def w_def [symmetric] x_def [symmetric] y_def [symmetric] z_def [symmetric] rune_width_def b cont_def)
  qed
qed

lemma valid_append_piece:
  "rune_width v = length v \<Longrightarrow> v \<noteq> [] \<Longrightarrow> valid_utf8 t \<Longrightarrow> valid_utf8 (v @ t)"
  by (simp add: valid_utf8_def coerce_piece)

lemma repl_width: "rune_width repl_char = length repl_char"
  by (simp add: rune_width_def lead2_def ok3_def cont_def byte_def)

lemma take_width: "rune_width s \<noteq> 0 \<Longrightarrow> rune_width (take (rune_width s) s) = length (take (rune_width s) s)"
  using rune_width_take [of s "[]"] rune_width_le [of s] by simp

lemma simple_esc_ascii: "simple_esc e = Some x \<Longrightarrow> byte x < 128"
  by (auto simp: simple_esc_def byte_def split: if_splits)

lemma valid_Cons_ascii: "byte x < 128 \<Longrightarrow> valid_utf8 t \<Longrightarrow> valid_utf8 (x # t)"
  by (simp add: valid_utf8_def coerce_ascii_Cons)

theorem unquote_valid: "unquote_body s = Some t \<Longrightarrow> valid_utf8 t"
proof (induction s arbitrary: t rule: unquote_body.induct)
  case (2 c s)
  note enc = valid_append_piece [OF conjunct1 [OF encode_rune_width] conjunct2 [OF encode_rune_width]]
  note repl = valid_append_piece [OF repl_width]
  consider e r where "c = BSL" "s = e # r" "e = CHR ''u''" | e r where "c = BSL" "s = e # r" "e \<noteq> CHR ''u''"
    | "c \<noteq> BSL"
    using "2.prems" by (cases "c = BSL"; cases s) (auto simp: unquote_body.simps)
  then show ?case
  proof cases
    case 1
    then obtain rr where rr: "hex4 r = Some rr" using "2.prems" by (auto simp: unquote_body.simps split: option.splits)
    show ?thesis
    proof (cases "0xD800 \<le> rr \<and> rr \<le> 0xDFFF")
      case True
      show ?thesis
      proof (cases "pair_rune rr (drop 4 r)")
        case None
        then obtain t' where "unquote_body (drop 4 r) = Some t'" "t = repl_char @ t'"
          using "2.prems" 1 rr True by (auto simp: unquote_body.simps)
        then show ?thesis using "2.IH"(1) [OF 1(1,2,3) rr True None] repl by simp
      next
        case (Some p)
        then obtain t' where "unquote_body (drop 10 r) = Some t'" "t = encode_rune p @ t'"
          using "2.prems" 1 rr True by (auto simp: unquote_body.simps)
        then show ?thesis using "2.IH"(2) [OF 1(1,2,3) rr True Some] enc by simp
      qed
    next
      case False
      then obtain t' where "unquote_body (drop 4 r) = Some t'" "t = encode_rune rr @ t'"
        using "2.prems" 1 rr by (auto simp: unquote_body.simps)
      then show ?thesis using "2.IH"(3) [OF 1(1,2,3) rr False] enc by simp
    qed
  next
    case l: 2
    then obtain x t' where x: "simple_esc e = Some x" "unquote_body r = Some t'" "t = x # t'"
      using "2.prems" by (auto simp: unquote_body.simps split: option.splits)
    then show ?thesis using "2.IH"(4) [OF l(1,2,3) x(1)] simple_esc_ascii valid_Cons_ascii by simp
  next
    case n: 3
    then have nq: "\<not> (c = DQ \<or> byte c < 32)" using "2.prems" by (auto simp: unquote_body.simps)
    consider "byte c < 128" | "\<not> byte c < 128" "rune_width (c # s) = 0" | "\<not> byte c < 128" "rune_width (c # s) \<noteq> 0"
      by blast
    then show ?thesis
    proof cases
      case 1
      then obtain t' where "unquote_body s = Some t'" "t = c # t'" using "2.prems" n nq by (auto simp: unquote_body.simps)
      then show ?thesis using "2.IH"(5) [OF n nq 1] valid_Cons_ascii 1 by simp
    next
      case r: 2
      then obtain t' where "unquote_body s = Some t'" "t = repl_char @ t'" using "2.prems" n nq by (auto simp: unquote_body.simps)
      then show ?thesis using "2.IH"(6) [OF n nq r] repl by simp
    next
      case r: 3
      then obtain t' where t': "unquote_body (drop (rune_width (c # s)) (c # s)) = Some t'"
        "t = take (rune_width (c # s)) (c # s) @ t'"
        using "2.prems" n nq by (auto simp: unquote_body.simps)
      have "take (rune_width (c # s)) (c # s) \<noteq> []" using r(2) by simp
      then show ?thesis
        unfolding t'(2) by (intro valid_append_piece take_width r(2) "2.IH"(7) [OF n nq r t'(1)])
    qed
  qed
qed simp

section \<open>Quoting tells invalid text from its replacement\<close>

text \<open>An invalid byte is quoted as the six characters \<open>\ufffd\<close>, the replacement rune that
  decoding puts there as its three bytes.  \<open>nbad\<close> counts the invalid bytes.\<close>

fun nbad :: "bytes \<Rightarrow> nat" where
  "nbad [] = 0"
| "nbad (c # s) =
     (if rune_width (c # s) = 0 then Suc (nbad s)
      else nbad (drop (rune_width (c # s) - 1) s))"

lemma quote_body_repl: "quote_body (repl_char @ t) = repl_char @ quote_body t"
  by (simp add: quote_body.simps(2) rune_width_def lead2_def ok3_def cont_def byte_def line_sep_def)

lemma quote_body_rune:
  assumes "rune_width (c # s) \<noteq> 0"
  shows "quote_body (take (rune_width (c # s)) (c # s) @ t) =
    (if byte c < 128 then esc_ascii c
     else if line_sep (c # s) then u202 (c # s) else take (rune_width (c # s)) (c # s)) @ quote_body t"
proof -
  let ?w = "rune_width (c # s)"
  obtain k where w: "?w = Suc k" using assms by (cases ?w) auto
  let ?r = "take k s @ t"
  have hd: "take ?w (c # s) @ t = c # ?r" by (simp add: w)
  have len: "length (take k s) = k" using rune_width_le [of "c # s"] w by simp
  have rw: "rune_width (c # ?r) = ?w" using rune_width_take [of "c # s" t] assms hd by simp
  have dr: "drop ?w (c # ?r) = t" "take ?w (c # ?r) = take ?w (c # s)" using w len by simp_all
  have ls: "line_sep (c # ?r) = line_sep (c # s)" "line_sep (c # s) \<Longrightarrow> u202 (c # ?r) = u202 (c # s)"
    "line_sep (c # s) \<Longrightarrow> k = 2"
  proof -
    show k2: "line_sep (c # s) \<Longrightarrow> k = 2" using line_sep_width w by fastforce
    have k2': "k = 2" if "line_sep (c # ?r)" using line_sep_width [OF that] rw w by simp
    show "line_sep (c # ?r) = line_sep (c # s)"
    proof (cases "k = 2")
      case True
      then obtain a b r where "s = a # b # r" using len by (cases s; cases "tl s") auto
      with True show ?thesis by (simp add: line_sep_def numeral_2_eq_2)
    next
      case False
      then show ?thesis using k2 k2' by blast
    qed
    assume "line_sep (c # s)"
    then have "k = 2" by (rule k2)
    then obtain a b r where "s = a # b # r" using len by (cases s; cases "tl s") auto
    with \<open>k = 2\<close> show "u202 (c # ?r) = u202 (c # s)" by (simp add: u202_def numeral_2_eq_2)
  qed
  have w1: "?w = 1" if "byte c < 128" using that by (rule rune_width_ascii)
  show ?thesis
  proof (cases "byte c < 128")
    case True
    then show ?thesis using w1 w unfolding hd by (simp add: quote_body.simps(2))
  next
    case False
    show ?thesis
    proof (cases "line_sep (c # s)")
      case True
      then have "drop 3 (c # ?r) = t" using dr(1) w ls(3) by (simp add: numeral_3_eq_3 numeral_2_eq_2)
      with True False show ?thesis unfolding hd using rw assms ls by (simp add: quote_body.simps(2))
    next
      case nl: False
      with False show ?thesis unfolding hd using rw assms ls dr by (simp add: quote_body.simps(2))
    qed
  qed
qed

lemma nbad_zero: "nbad s = 0 \<Longrightarrow> valid_utf8 s"
proof (induction s rule: coerce.induct)
  case (2 c s)
  show ?case
  proof (cases "rune_width (c # s) = 0")
    case False
    then obtain k where w: "rune_width (c # s) = Suc k" by (cases "rune_width (c # s)") auto
    then have "nbad (drop (rune_width (c # s)) (c # s)) = 0" using "2.prems" by simp
    from "2.IH"(2) [OF False this] have "coerce (drop (rune_width (c # s)) (c # s)) = drop (rune_width (c # s)) (c # s)"
      by (simp add: valid_utf8_def)
    then show ?thesis using False by (simp add: valid_utf8_def coerce.simps(2) del: drop_Suc_Cons)
  qed (use "2.prems" in simp)
qed simp

lemma quote_body_length: "length (quote_body s) = length (quote_body (coerce s)) + 3 * nbad s"
proof (induction s rule: coerce.induct)
  case (2 c s)
  show ?case
  proof (cases "rune_width (c # s) = 0")
    case True
    have "\<not> byte c < 128" using True rune_width_ascii by fastforce
    with True "2.IH"(1) quote_body_repl [of "coerce s"] show ?thesis
      by (simp add: coerce.simps(2) quote_body.simps(2) [of c s])
  next
    case False
    let ?w = "rune_width (c # s)"
    obtain k where w: "?w = Suc k" using False by (cases ?w) auto
    have nb: "nbad (c # s) = nbad (drop ?w (c # s))" using w by simp
    have "quote_body (c # s) = (if byte c < 128 then esc_ascii c
        else if line_sep (c # s) then u202 (c # s) else take ?w (c # s)) @ quote_body (drop ?w (c # s))"
      using quote_body_rune [OF False, of "drop ?w (c # s)"] by (simp only: append_take_drop_id)
    moreover have "coerce (c # s) = take ?w (c # s) @ coerce (drop ?w (c # s))"
      using False by (simp add: coerce.simps(2))
    ultimately show ?thesis
      using "2.IH"(2) [OF False] quote_body_rune [OF False, of "coerce (drop ?w (c # s))"] nb by simp
  qed
qed simp

theorem quote_coerce_eq: "json_quote s = json_quote (coerce s) \<longleftrightarrow> valid_utf8 s"
proof
  assume "json_quote s = json_quote (coerce s)"
  then have "length (quote_body s) = length (quote_body (coerce s))" by (simp add: json_quote_def)
  then show "valid_utf8 s" using quote_body_length [of s] nbad_zero by simp
qed (simp add: valid_utf8_def)

lemma coerce_Nil_iff [simp]: "coerce s = [] \<longleftrightarrow> s = []"
  by (cases s) (auto simp: coerce.simps(2))

end
