(* ===== verification/Go_Json.thy ===== *)
theory Go_Json
  imports Go_Utf8
begin

text \<open>
  Package \<open>encoding/json\<close> as the program uses it.  The scanner is the byte-driven state
  machine of \<open>scanner.go\<close> with its stack of open brackets and its limit on nesting; from it
  come validation, \<open>Compact\<close> (what marshalling does to a \<open>json.RawMessage\<close>) and the
  splitting of an object or array into the texts of its members, on which the decoding of a
  struct works.  Encoders build a tree that is printed compactly (\<open>Marshal\<close>) or indented
  (\<open>MarshalIndent\<close> with two blanks).  The main facts: what is printed is accepted by the
  scanner and splits into exactly the printed members.
\<close>

section \<open>The scanner\<close>

datatype pstate = PKey | PVal | PArr

datatype jst =
    SBeginValue | SBeginValueOrEmpty | SBeginStringOrEmpty | SBeginString | SEndValue | SEndTop
  | SInString | SEsc | SEscU nat
  | SNeg | SNum1 | SNum0 | SDot | SDot0 | SE | SESign | SE0
  | SLit string

datatype sop =
    OpContinue | OpBeginLiteral | OpBeginObject | OpObjectKey | OpObjectValue | OpEndObject
  | OpBeginArray | OpArrayValue | OpEndArray | OpSkipSpace

type_synonym scanner = "jst \<times> pstate list"

definition json_ws :: "char \<Rightarrow> bool" where
  "json_ws c \<longleftrightarrow> c = SP \<or> c = TAB \<or> c = NL \<or> c = CR"

definition max_nesting :: nat where "max_nesting = 10000"

definition pop_state :: "pstate list \<Rightarrow> scanner" where
  "pop_state ps = (if ps = [] then SEndTop else SEndValue, ps)"

definition step_end_value :: "pstate list \<Rightarrow> char \<Rightarrow> (sop \<times> scanner) option" where
  "step_end_value ps c =
     (case ps of
        [] \<Rightarrow> if json_ws c then Some (OpSkipSpace, SEndTop, []) else None
      | p # qs \<Rightarrow>
          if json_ws c then Some (OpSkipSpace, SEndValue, ps)
          else (case p of
              PKey \<Rightarrow> if c = CHR '':'' then Some (OpObjectKey, SBeginValue, PVal # qs) else None
            | PVal \<Rightarrow> if c = CHR '','' then Some (OpObjectValue, SBeginString, PKey # qs)
                      else if c = CHR ''}'' then Some (OpEndObject, pop_state qs) else None
            | PArr \<Rightarrow> if c = CHR '','' then Some (OpArrayValue, SBeginValue, ps)
                      else if c = CHR '']'' then Some (OpEndArray, pop_state qs) else None))"

definition push_state ::
  "nat \<Rightarrow> pstate \<Rightarrow> sop \<Rightarrow> jst \<Rightarrow> pstate list \<Rightarrow> (sop \<times> scanner) option" where
  "push_state lim p op st ps = (if length ps < lim then Some (op, st, p # ps) else None)"

definition step_begin_value :: "nat \<Rightarrow> pstate list \<Rightarrow> char \<Rightarrow> (sop \<times> scanner) option" where
  "step_begin_value lim ps c =
     (if json_ws c then Some (OpSkipSpace, SBeginValue, ps)
      else if c = CHR ''{'' then push_state lim PKey OpBeginObject SBeginStringOrEmpty ps
      else if c = CHR ''['' then push_state lim PArr OpBeginArray SBeginValueOrEmpty ps
      else if c = DQ then Some (OpBeginLiteral, SInString, ps)
      else if c = CHR ''-'' then Some (OpBeginLiteral, SNeg, ps)
      else if c = CHR ''0'' then Some (OpBeginLiteral, SNum0, ps)
      else if c = CHR ''t'' then Some (OpBeginLiteral, SLit ''rue'', ps)
      else if c = CHR ''f'' then Some (OpBeginLiteral, SLit ''alse'', ps)
      else if c = CHR ''n'' then Some (OpBeginLiteral, SLit ''ull'', ps)
      else if is_digit c then Some (OpBeginLiteral, SNum1, ps)
      else None)"

definition step_begin_string :: "pstate list \<Rightarrow> char \<Rightarrow> (sop \<times> scanner) option" where
  "step_begin_string ps c =
     (if json_ws c then Some (OpSkipSpace, SBeginString, ps)
      else if c = DQ then Some (OpBeginLiteral, SInString, ps) else None)"

definition is_e :: "char \<Rightarrow> bool" where "is_e c \<longleftrightarrow> c = CHR ''e'' \<or> c = CHR ''E''"

definition step_num0 :: "pstate list \<Rightarrow> char \<Rightarrow> (sop \<times> scanner) option" where
  "step_num0 ps c =
     (if c = CHR ''.'' then Some (OpContinue, SDot, ps)
      else if is_e c then Some (OpContinue, SE, ps)
      else step_end_value ps c)"

fun step_char :: "nat \<Rightarrow> scanner \<Rightarrow> char \<Rightarrow> (sop \<times> scanner) option" where
  "step_char lim (SBeginValue, ps) c = step_begin_value lim ps c"
| "step_char lim (SBeginValueOrEmpty, ps) c =
     (if json_ws c then Some (OpSkipSpace, SBeginValueOrEmpty, ps)
      else if c = CHR '']'' then step_end_value ps c
      else step_begin_value lim ps c)"
| "step_char lim (SBeginStringOrEmpty, ps) c =
     (if json_ws c then Some (OpSkipSpace, SBeginStringOrEmpty, ps)
      else if c = CHR ''}'' then step_end_value (PVal # tl ps) c
      else step_begin_string ps c)"
| "step_char lim (SBeginString, ps) c = step_begin_string ps c"
| "step_char lim (SEndValue, ps) c = step_end_value ps c"
| "step_char lim (SEndTop, ps) c = (if json_ws c then Some (OpSkipSpace, SEndTop, ps) else None)"
| "step_char lim (SInString, ps) c =
     (if c = DQ then Some (OpContinue, SEndValue, ps)
      else if c = BSL then Some (OpContinue, SEsc, ps)
      else if byte c < 32 then None
      else Some (OpContinue, SInString, ps))"
| "step_char lim (SEsc, ps) c =
     (if c \<in> set [CHR ''b'', CHR ''f'', CHR ''n'', CHR ''r'', CHR ''t'', BSL, CHR ''/'', DQ]
      then Some (OpContinue, SInString, ps)
      else if c = CHR ''u'' then Some (OpContinue, SEscU 4, ps)
      else None)"
| "step_char lim (SEscU n, ps) c =
     (if hex_val c = None then None
      else Some (OpContinue, (if n \<le> 1 then SInString else SEscU (n - 1)), ps))"
| "step_char lim (SNeg, ps) c =
     (if c = CHR ''0'' then Some (OpContinue, SNum0, ps)
      else if is_digit c then Some (OpContinue, SNum1, ps) else None)"
| "step_char lim (SNum1, ps) c =
     (if is_digit c then Some (OpContinue, SNum1, ps) else step_num0 ps c)"
| "step_char lim (SNum0, ps) c = step_num0 ps c"
| "step_char lim (SDot, ps) c = (if is_digit c then Some (OpContinue, SDot0, ps) else None)"
| "step_char lim (SDot0, ps) c =
     (if is_digit c then Some (OpContinue, SDot0, ps)
      else if is_e c then Some (OpContinue, SE, ps)
      else step_end_value ps c)"
| "step_char lim (SE, ps) c =
     (if c = CHR ''+'' \<or> c = CHR ''-'' then Some (OpContinue, SESign, ps)
      else if is_digit c then Some (OpContinue, SE0, ps) else None)"
| "step_char lim (SESign, ps) c = (if is_digit c then Some (OpContinue, SE0, ps) else None)"
| "step_char lim (SE0, ps) c =
     (if is_digit c then Some (OpContinue, SE0, ps) else step_end_value ps c)"
| "step_char lim (SLit w, ps) c =
     (case w of [] \<Rightarrow> None
      | x # xs \<Rightarrow> if c = x then Some (OpContinue, (if xs = [] then SEndValue else SLit xs), ps) else None)"

definition scan_eof :: "nat \<Rightarrow> scanner \<Rightarrow> bool" where
  "scan_eof lim st \<longleftrightarrow>
     fst st = SEndTop \<or>
     (case step_char lim st SP of Some (_, s, _) \<Rightarrow> s = SEndTop | None \<Rightarrow> False)"

fun run :: "nat \<Rightarrow> scanner \<Rightarrow> bytes \<Rightarrow> scanner option" where
  "run lim st [] = Some st"
| "run lim st (c # cs) =
     (case step_char lim st c of None \<Rightarrow> None | Some (_, st') \<Rightarrow> run lim st' cs)"

definition json_valid :: "bytes \<Rightarrow> bool" where
  "json_valid s =
     (case run max_nesting (SBeginValue, []) s of None \<Rightarrow> False | Some st \<Rightarrow> scan_eof max_nesting st)"

section \<open>Compact\<close>

fun compact_run :: "nat \<Rightarrow> scanner \<Rightarrow> bytes \<Rightarrow> bytes option" where
  "compact_run lim st [] = (if scan_eof lim st then Some [] else None)"
| "compact_run lim st (c # cs) =
     (case step_char lim st c of
        None \<Rightarrow> None
      | Some (op, st') \<Rightarrow>
          if op = OpSkipSpace then compact_run lim st' cs
          else if html_special c then map_option ((@) (u00 c)) (compact_run lim st' cs)
          else if line_sep (c # cs) then
            (case run lim st' (take 2 cs) of
               None \<Rightarrow> None
             | Some st'' \<Rightarrow> map_option ((@) (u202 (c # cs))) (compact_run lim st'' (drop 2 cs)))
          else map_option ((#) c) (compact_run lim st' cs))"

definition json_compact :: "bytes \<Rightarrow> bytes option" where
  "json_compact s = compact_run max_nesting (SBeginValue, []) s"

section \<open>The parts of an object or an array\<close>

definition trim_ws :: "bytes \<Rightarrow> bytes" where
  "trim_ws s = rev (dropWhile json_ws (rev (dropWhile json_ws s)))"

definition chunk :: "bytes \<Rightarrow> bytes list" where
  "chunk cur = (let t = trim_ws (rev cur) in if t = [] then [] else [t])"

definition opens_top :: "sop \<Rightarrow> pstate list \<Rightarrow> bool" where
  "opens_top op ps \<longleftrightarrow> (op = OpBeginObject \<or> op = OpBeginArray) \<and> length ps = 1"

definition splits_top :: "sop \<Rightarrow> pstate list \<Rightarrow> bool" where
  "splits_top op ps \<longleftrightarrow>
     (op = OpObjectKey \<or> op = OpObjectValue \<or> op = OpArrayValue) \<and> length ps = 1
   \<or> (op = OpEndObject \<or> op = OpEndArray) \<and> ps = []"

fun parts_run :: "nat \<Rightarrow> scanner \<Rightarrow> bytes \<Rightarrow> bytes \<Rightarrow> bytes list option" where
  "parts_run lim st cur [] = (if scan_eof lim st then Some [] else None)"
| "parts_run lim st cur (c # cs) =
     (case step_char lim st c of
        None \<Rightarrow> None
      | Some (op, st') \<Rightarrow>
          if opens_top op (snd st') then parts_run lim st' [] cs
          else if splits_top op (snd st') then map_option ((@) (chunk cur)) (parts_run lim st' [] cs)
          else parts_run lim st' (c # cur) cs)"

definition json_parts :: "bytes \<Rightarrow> bytes list option" where
  "json_parts s = parts_run max_nesting (SBeginValue, []) [] s"

fun pair_up :: "'a list \<Rightarrow> ('a \<times> 'a) list" where
  "pair_up (k # v # r) = (k, v) # pair_up r"
| "pair_up _ = []"

section \<open>Trees and printers\<close>

datatype jtree = JLit bytes | JArr "jtree list" | JObj "(bytes \<times> jtree) list"

abbreviation JStr :: "bytes \<Rightarrow> jtree" where "JStr s \<equiv> JLit (json_quote s)"
abbreviation JInt :: "int \<Rightarrow> jtree" where "JInt i \<equiv> JLit (itoa i)"
abbreviation JNull :: jtree where "JNull \<equiv> JLit ''null''"

definition JBool :: "bool \<Rightarrow> jtree" where
  "JBool b = JLit (if b then ''true'' else ''false'')"

fun json_print :: "jtree \<Rightarrow> bytes" where
  "json_print (JLit b) = b"
| "json_print (JArr ts) = ''['' @ join_with '','' (map json_print ts) @ '']''"
| "json_print (JObj kvs) =
     ''{'' @ join_with '','' (map (\<lambda>(k, t). json_quote k @ '':'' @ json_print t) kvs) @ ''}''"

definition indent_nl :: "nat \<Rightarrow> bytes" where
  "indent_nl n = NL # replicate (2 * n) SP"

fun json_indent :: "nat \<Rightarrow> jtree \<Rightarrow> bytes" where
  "json_indent n (JLit b) = b"
| "json_indent n (JArr ts) =
     (if ts = [] then ''[]''
      else ''['' @ indent_nl (Suc n)
         @ join_with ('','' @ indent_nl (Suc n)) (map (json_indent (Suc n)) ts)
         @ indent_nl n @ '']'')"
| "json_indent n (JObj kvs) =
     (if kvs = [] then ''{}''
      else ''{'' @ indent_nl (Suc n)
         @ join_with ('','' @ indent_nl (Suc n))
             (map (\<lambda>(k, t). json_quote k @ '': '' @ json_indent (Suc n) t) kvs)
         @ indent_nl n @ ''}'')"

lemmas json_eval = step_begin_value_def step_begin_string_def step_end_value_def step_num0_def
  push_state_def pop_state_def json_ws_def is_e_def is_digit_def scan_eof_def html_special_def
  line_sep_def byte_def

section \<open>Runs that stay inside one value\<close>

text \<open>A step is quiet at level \<open>n\<close> when it neither separates members of the bracket at
  level \<open>n\<close> nor closes it.\<close>

definition quiet :: "nat \<Rightarrow> sop \<Rightarrow> pstate list \<Rightarrow> bool" where
  "quiet n op ps \<longleftrightarrow>
     ((op = OpObjectKey \<or> op = OpObjectValue \<or> op = OpArrayValue \<or> op = OpBeginObject \<or> op = OpBeginArray)
        \<longrightarrow> n < length ps)
   \<and> ((op = OpEndObject \<or> op = OpEndArray) \<longrightarrow> n \<le> length ps)"

fun qrun :: "nat \<Rightarrow> nat \<Rightarrow> scanner \<Rightarrow> bytes \<Rightarrow> scanner option" where
  "qrun lim n st [] = Some st"
| "qrun lim n st (c # cs) =
     (case step_char lim st c of
        None \<Rightarrow> None
      | Some (op, st') \<Rightarrow> if quiet n op (snd st') then qrun lim n st' cs else None)"

lemma qrun_append:
  "qrun lim n st (a @ b) = (case qrun lim n st a of None \<Rightarrow> None | Some st' \<Rightarrow> qrun lim n st' b)"
  by (induction a arbitrary: st) (auto split: option.splits)

lemma qrun_comp: "qrun lim n st a = Some st' \<Longrightarrow> qrun lim n st (a @ b) = qrun lim n st' b"
  by (simp add: qrun_append)

lemma run_append:
  "run lim st (a @ b) = (case run lim st a of None \<Rightarrow> None | Some st' \<Rightarrow> run lim st' b)"
  by (induction a arbitrary: st) (auto split: option.splits)

lemma qrun_run: "qrun lim n st v = Some st' \<Longrightarrow> run lim st v = Some st'"
  by (induction v arbitrary: st) (auto split: option.splits if_splits)

lemma quiet_mono: "quiet n op ps \<Longrightarrow> m \<le> n \<Longrightarrow> quiet m op ps"
  by (auto simp: quiet_def)

lemma qrun_mono: "qrun lim n st v = Some st' \<Longrightarrow> m \<le> n \<Longrightarrow> qrun lim m st v = Some st'"
  by (induction v arbitrary: st) (auto split: option.splits if_splits intro: quiet_mono)

lemma quiet_continue [simp]: "quiet n OpContinue ps" "quiet n OpBeginLiteral ps" "quiet n OpSkipSpace ps"
  by (auto simp: quiet_def)

lemma quiet_not_top: "quiet 1 op ps \<Longrightarrow> \<not> opens_top op ps \<and> \<not> splits_top op ps"
  by (auto simp: quiet_def opens_top_def splits_top_def)

lemma parts_run_quiet:
  "qrun lim 1 st v = Some st' \<Longrightarrow> parts_run lim st cur (v @ w) = parts_run lim st' (rev v @ cur) w"
proof (induction v arbitrary: st cur)
  case (Cons c v)
  then obtain op st1 where "step_char lim st c = Some (op, st1)" "quiet 1 op (snd st1)"
    "qrun lim 1 st1 v = Some st'"
    by (auto split: option.splits if_splits)
  with Cons.IH show ?case using quiet_not_top [of op "snd st1"] by simp
qed simp

definition ended :: "jst \<Rightarrow> bool" where
  "ended s \<longleftrightarrow> s \<in> set [SEndValue, SNum0, SNum1, SDot0, SE0]"

definition delim :: "char \<Rightarrow> bool" where
  "delim c \<longleftrightarrow> json_ws c \<or> c \<in> set [CHR '','', CHR '':'', CHR ''}'', CHR '']'']"

lemma delim_plain: "delim c \<Longrightarrow> \<not> is_digit c \<and> c \<noteq> CHR ''.'' \<and> \<not> is_e c"
  by (auto simp: delim_def json_ws_def is_digit_def is_e_def byte_def)

lemma step_ended: "ended s \<Longrightarrow> delim c \<Longrightarrow> step_char lim (s, ps) c = step_end_value ps c"
  using delim_plain [of c] by (auto simp: ended_def step_num0_def)

definition all_ws :: "bytes \<Rightarrow> bool" where "all_ws w \<longleftrightarrow> list_all json_ws w"

lemma all_ws_simps [simp]: "all_ws []" "all_ws (c # w) \<longleftrightarrow> json_ws c \<and> all_ws w" "all_ws (v @ w) \<longleftrightarrow> all_ws v \<and> all_ws w"
  by (auto simp: all_ws_def)

lemma json_ws_lit [simp]:
  "json_ws SP" "json_ws NL" "\<not> json_ws DQ" "\<not> json_ws CHR '':''" "\<not> json_ws CHR '',''"
  "\<not> json_ws CHR ''}''" "\<not> json_ws CHR '']''" "\<not> json_ws CHR ''{''" "\<not> json_ws CHR ''[''"
  by (auto simp: json_ws_def)

lemma all_ws_replicate [simp]: "all_ws (replicate n SP)"
  by (simp add: all_ws_def list_all_iff)

lemma all_ws_indent [simp]: "all_ws (indent_nl n)"
  by (simp add: indent_nl_def)

lemma qrun_ws_begin:
  "all_ws w \<Longrightarrow> st \<in> set [SBeginValue, SBeginValueOrEmpty, SBeginString, SBeginStringOrEmpty] \<Longrightarrow>
   qrun lim n (st, ps) w = Some (st, ps)"
  by (induction w) (auto simp: step_begin_value_def step_begin_string_def)

lemma qrun_ws_ended:
  assumes "all_ws w" "ended s" "ps \<noteq> []"
  shows "\<exists>s'. qrun lim n (s, ps) w = Some (s', ps) \<and> ended s'"
  using assms
proof (induction w arbitrary: s)
  case (Cons c w)
  then have "step_char lim (s, ps) c = Some (OpSkipSpace, SEndValue, ps)"
    by (auto simp: step_ended delim_def step_end_value_def split: list.splits)
  moreover have "ended SEndValue" by (simp add: ended_def)
  ultimately show ?case using Cons by simp
qed simp

section \<open>Complete values\<close>

text \<open>\<open>completes d v\<close>: \<open>v\<close> is the text of one value with no white space around it
  that opens at most \<open>d\<close> levels of brackets.\<close>

definition completes :: "nat \<Rightarrow> bytes \<Rightarrow> bool" where
  "completes d v \<longleftrightarrow> v \<noteq> [] \<and> \<not> json_ws (hd v) \<and> \<not> json_ws (last v) \<and>
     (\<forall>lim ps. ps \<noteq> [] \<and> d + length ps \<le> lim \<longrightarrow>
        (\<exists>s. qrun lim (length ps) (SBeginValue, ps) v = Some (s, ps) \<and> ended s))"

lemma completesD:
  "completes d v \<Longrightarrow> ps \<noteq> [] \<Longrightarrow> d + length ps \<le> lim \<Longrightarrow>
   \<exists>s. qrun lim (length ps) (SBeginValue, ps) v = Some (s, ps) \<and> ended s"
  by (simp add: completes_def)

lemma completes_mono: "completes d v \<Longrightarrow> d \<le> e \<Longrightarrow> completes e v"
  unfolding completes_def by (meson le_trans add_right_mono)

lemma completesI_any:
  assumes "v \<noteq> []" "\<not> json_ws (hd v)" "\<not> json_ws (last v)"
    "\<And>lim n ps. \<exists>s. qrun lim n (SBeginValue, ps) v = Some (s, ps) \<and> ended s"
  shows "completes d v"
  using assms by (simp add: completes_def)

subsection \<open>Strings\<close>

lemma qrun_in_string:
  "(\<And>x. x \<in> set v \<Longrightarrow> x \<noteq> DQ \<and> x \<noteq> BSL \<and> 32 \<le> byte x) \<Longrightarrow>
   qrun lim n (SInString, ps) (v @ t) = qrun lim n (SInString, ps) t"
proof (induction v)
  case (Cons a v)
  have "a \<noteq> DQ \<and> a \<noteq> BSL \<and> \<not> byte a < 32" using Cons.prems [of a] by simp
  moreover have "qrun lim n (SInString, ps) (v @ t) = qrun lim n (SInString, ps) t"
    using Cons by simp
  ultimately show ?case by simp
qed simp

lemma hex_val_hex_digit [simp]: "n < 16 \<Longrightarrow> hex_val (hex_digit n) \<noteq> None"
  by (simp add: hex_val_digit)

lemma qrun_u4:
  "hex_val a \<noteq> None \<Longrightarrow> hex_val b \<noteq> None \<Longrightarrow> hex_val c \<noteq> None \<Longrightarrow> hex_val d \<noteq> None \<Longrightarrow>
   qrun lim n (SInString, ps) (BSL # CHR ''u'' # a # b # c # d # t) = qrun lim n (SInString, ps) t"
  by (simp del: not_None_eq)

lemma qrun_u00: "qrun lim n (SInString, ps) (u00 c @ t) = qrun lim n (SInString, ps) t"
proof -
  have "byte c div 16 < 16" using byte_less_256 [of c] by linarith
  then show ?thesis
    unfolding u00_def append.simps by (intro qrun_u4) (simp_all add: hex_val_eval)
qed

lemma qrun_u202: "qrun lim n (SInString, ps) (u202 s @ t) = qrun lim n (SInString, ps) t"
  unfolding u202_def append.simps by (intro qrun_u4) (simp_all add: hex_val_eval)

lemma qrun_esc_ascii:
  "byte c < 128 \<Longrightarrow> qrun lim n (SInString, ps) (esc_ascii c @ t) = qrun lim n (SInString, ps) t"
  unfolding esc_ascii_def by (auto simp: qrun_u00)

lemma qrun_quote_body: "qrun lim n (SInString, ps) (quote_body s @ t) = qrun lim n (SInString, ps) t"
proof (induction s rule: quote_body.induct)
  case (2 c s)
  have w: "x \<noteq> DQ \<and> x \<noteq> BSL \<and> 32 \<le> byte x"
    if "x \<in> set (take (rune_width (c # s)) (c # s))" "128 \<le> byte c" for x
  proof -
    have "128 \<le> byte x" using that
      by (cases "c # s" rule: rune_width_cases) (auto simp: cont_def ok3_def ok4_def)
    then show ?thesis by (auto simp: byte_def)
  qed
  have f: "qrun lim n (SInString, ps) (BSL # ''ufffd'' @ t') = qrun lim n (SInString, ps) t'" for t'
    by (simp add: hex_val_eval)
  show ?case
  proof (cases "byte c < 128")
    case True
    with 2 show ?thesis by (simp add: quote_body.simps(2) qrun_esc_ascii)
  next
    case False
    with 2 show ?thesis
      using w f qrun_in_string [of "take (rune_width (c # s)) (c # s)" lim n ps]
      by (auto simp: quote_body.simps(2) qrun_u202 not_less)
  qed
qed simp

lemma qrun_quote:
  assumes "st \<in> set [SBeginValue, SBeginString, SBeginStringOrEmpty]"
  shows "qrun lim n (st, ps) (json_quote s) = Some (SEndValue, ps)"
  using assms by (auto simp: json_quote_def qrun_quote_body step_begin_value_def step_begin_string_def)

lemma json_quote_ends [simp]:
  "json_quote s \<noteq> []" "hd (json_quote s) = DQ" "last (json_quote s) = DQ"
  by (simp_all add: json_quote_def)

lemma completes_quote [simp]: "completes d (json_quote s)"
  by (rule completesI_any) (simp_all add: qrun_quote ended_def)

subsection \<open>Numbers and literals\<close>

lemma nat_str_shape: "nat_str n = ''0'' \<or> (\<exists>c r. nat_str n = c # r \<and> is_digit c \<and> c \<noteq> CHR ''0'' \<and> list_all is_digit r)"
proof (induction n rule: nat_str.induct)
  case (1 n)
  show ?case
  proof (cases "n < 10")
    case True
    have z: "digit_char 0 = CHR ''0''" unfolding digit_char_def by (rule char_of_lit) (simp add: byte_def)
    have "digit_char n \<noteq> CHR ''0''" if "n \<noteq> 0"
      using that True digit_char_byte [of n] by (auto simp: byte_def)
    with True z show ?thesis
      by (cases "n = 0") (auto simp: nat_str.simps is_digit_digit_char)
  next
    case False
    have "nat_str (n div 10) \<noteq> ''0''"
    proof
      assume "nat_str (n div 10) = ''0''"
      then have "digits_val (nat_str (n div 10)) = 0" by (simp add: digits_val_def byte_def)
      with False show False by (simp add: digits_val_nat_str)
    qed
    with 1 False show ?thesis
      by (auto simp: nat_str.simps [of n] is_digit_digit_char)
  qed
qed

lemma qrun_digits: "list_all is_digit r \<Longrightarrow> qrun lim n (SNum1, ps) r = Some (SNum1, ps)"
  by (induction r) auto

lemma digit_not_special:
  "is_digit c \<Longrightarrow> \<not> json_ws c \<and> c \<notin> set [CHR ''{'', CHR ''['', DQ, CHR ''-'', CHR ''t'', CHR ''f'', CHR ''n'']"
  by (auto simp: is_digit_def json_ws_def byte_def)

lemma qrun_nat_str:
  "\<exists>s. qrun lim n (SBeginValue, ps) (nat_str k) = Some (s, ps) \<and> ended s"
  "\<exists>s. qrun lim n (SNeg, ps) (nat_str k) = Some (s, ps) \<and> ended s"
  using nat_str_shape [of k] digit_not_special
  by (auto simp: step_begin_value_def json_ws_def qrun_digits ended_def)

lemma itoa_digits: "x \<in> set (itoa i) \<Longrightarrow> is_digit x \<or> x = CHR ''-''"
  using nat_str_digits [of "nat i"] nat_str_digits [of "nat (- i)"]
  by (auto simp: itoa_def all_digits_def list_all_iff split: if_splits)

lemma completes_itoa [simp]: "completes d (itoa i)"
proof (rule completesI_any)
  show ne: "itoa i \<noteq> []" using nat_str_hd [of "nat i"] by (simp add: itoa_def)
  have "\<not> json_ws x" if "x \<in> set (itoa i)" for x
    using itoa_digits [OF that] digit_not_special by (auto simp: json_ws_def)
  with ne show "\<not> json_ws (hd (itoa i))" "\<not> json_ws (last (itoa i))" by auto
  show "\<exists>s. qrun lim n (SBeginValue, ps) (itoa i) = Some (s, ps) \<and> ended s" for lim n ps
    using qrun_nat_str by (auto simp: itoa_def step_begin_value_def json_ws_def)
qed

lemma completes_lit [simp]: "completes d ''null''" "completes d ''true''" "completes d ''false''"
  by (rule completesI_any, simp_all add: json_ws_def step_begin_value_def ended_def)+

section \<open>Objects and arrays\<close>

text \<open>The common form of both printers: white space \<open>w1\<close> before a member, \<open>w2\<close>
  after a colon, \<open>w3\<close> before the closing bracket.\<close>

definition member_text :: "bytes \<Rightarrow> bytes \<times> bytes \<Rightarrow> bytes" where
  "member_text w2 kv = json_quote (fst kv) @ '':'' @ w2 @ snd kv"

definition obj_text :: "bytes \<Rightarrow> bytes \<Rightarrow> bytes \<Rightarrow> (bytes \<times> bytes) list \<Rightarrow> bytes" where
  "obj_text w1 w2 w3 kvs = ''{'' @ w1 @ join_with ('','' @ w1) (map (member_text w2) kvs) @ w3 @ ''}''"

definition arr_text :: "bytes \<Rightarrow> bytes \<Rightarrow> bytes list \<Rightarrow> bytes" where
  "arr_text w1 w3 vs = ''['' @ w1 @ join_with ('','' @ w1) vs @ w3 @ '']''"

lemma json_print_obj: "json_print (JObj kvs) = obj_text [] [] [] (map (\<lambda>(k, t). (k, json_print t)) kvs)"
  by (simp add: obj_text_def member_text_def comp_def case_prod_unfold)

lemma json_print_arr: "json_print (JArr ts) = arr_text [] [] (map json_print ts)"
  by (simp add: arr_text_def)

lemma json_indent_obj:
  "kvs \<noteq> [] \<Longrightarrow> json_indent n (JObj kvs) =
     obj_text (indent_nl (Suc n)) '' '' (indent_nl n) (map (\<lambda>(k, t). (k, json_indent (Suc n) t)) kvs)"
  by (simp add: obj_text_def member_text_def comp_def case_prod_unfold)

lemma json_indent_arr:
  "ts \<noteq> [] \<Longrightarrow> json_indent n (JArr ts) =
     arr_text (indent_nl (Suc n)) (indent_nl n) (map (json_indent (Suc n)) ts)"
  by (simp add: arr_text_def)

lemma quiet_inside: "n < length ps \<Longrightarrow> quiet n op ps"
  by (simp add: quiet_def)

lemma qrun_key_colon:
  assumes "all_ws w1" "all_ws w2" "st \<in> set [SBeginString, SBeginStringOrEmpty]" "n \<le> length ps"
  shows "qrun lim n (st, PKey # ps) (w1 @ json_quote k @ '':'' @ w2) = Some (SBeginValue, PVal # ps)"
proof -
  have "qrun lim n (st, PKey # ps) w1 = Some (st, PKey # ps)" using qrun_ws_begin assms by auto
  moreover have "qrun lim n (st, PKey # ps) (json_quote k) = Some (SEndValue, PKey # ps)"
    using assms(3) qrun_quote [of st] by auto
  moreover have "qrun lim n (SBeginValue, PVal # ps) w2 = Some (SBeginValue, PVal # ps)"
    using qrun_ws_begin assms(2) by auto
  ultimately show ?thesis
    using assms(4) by (simp add: qrun_append step_end_value_def quiet_inside)
qed

lemma qrun_member:
  assumes "all_ws w1" "all_ws w2" "st \<in> set [SBeginString, SBeginStringOrEmpty]"
    and v: "completes d v" "d + length (PVal # ps) \<le> lim"
  shows "\<exists>s. qrun lim (length ps) (st, PKey # ps) (w1 @ member_text w2 (k, v)) = Some (s, PVal # ps) \<and> ended s"
proof -
  obtain s where s: "qrun lim (length (PVal # ps)) (SBeginValue, PVal # ps) v = Some (s, PVal # ps)" "ended s"
    using completesD [OF v(1) _ v(2)] by auto
  have "qrun lim (length ps) (SBeginValue, PVal # ps) v = Some (s, PVal # ps)"
    using qrun_mono [OF s(1)] by simp
  moreover have "w1 @ member_text w2 (k, v) = (w1 @ json_quote k @ '':'' @ w2) @ v"
    by (simp add: member_text_def)
  ultimately show ?thesis
    using qrun_comp [OF qrun_key_colon [OF assms(1-3), of "length ps" ps lim k], of v] s(2) by simp
qed

lemma qrun_members:
  assumes "kvs \<noteq> []" "\<And>k v. (k, v) \<in> set kvs \<Longrightarrow> completes d v" "d + length (PVal # ps) \<le> lim"
    "all_ws w1" "all_ws w2" "st \<in> set [SBeginString, SBeginStringOrEmpty]"
  shows "\<exists>s. qrun lim (length ps) (st, PKey # ps) (w1 @ join_with ('','' @ w1) (map (member_text w2) kvs))
     = Some (s, PVal # ps) \<and> ended s"
  using assms(1,2,6)
proof (induction kvs arbitrary: st)
  case (Cons kv kvs)
  obtain k v where kv: "kv = (k, v)" by fastforce
  then obtain s where s: "qrun lim (length ps) (st, PKey # ps) (w1 @ member_text w2 kv) = Some (s, PVal # ps)" "ended s"
    using qrun_member [OF assms(4,5) Cons.prems(3) Cons.prems(2) assms(3), of k v] by auto
  show ?case
  proof (cases kvs)
    case Nil
    with s show ?thesis by simp
  next
    case (Cons kv' kvs')
    then obtain s' where s': "qrun lim (length ps) (SBeginString, PKey # ps)
        (w1 @ join_with ('','' @ w1) (map (member_text w2) kvs)) = Some (s', PVal # ps)" "ended s'"
      using Cons.IH [of SBeginString] Cons.prems(2) by auto
    have "step_char lim (s, PVal # ps) CHR '','' = Some (OpObjectValue, SBeginString, PKey # ps)"
      using s(2) by (simp add: step_ended delim_def step_end_value_def)
    moreover have "w1 @ join_with ('','' @ w1) (map (member_text w2) (kv # kvs)) =
      (w1 @ member_text w2 kv) @ CHR '','' # (w1 @ join_with ('','' @ w1) (map (member_text w2) kvs))"
      using Cons by simp
    ultimately show ?thesis
      using s s' qrun_comp [OF s(1)] by (simp add: quiet_inside del: append_assoc)
  qed
qed simp

lemma completes_obj:
  assumes "\<And>k v. (k, v) \<in> set kvs \<Longrightarrow> completes d v" "all_ws w1" "all_ws w2" "all_ws w3"
  shows "completes (Suc d) (obj_text w1 w2 w3 kvs)"
  unfolding completes_def
proof (intro conjI allI impI)
  show "obj_text w1 w2 w3 kvs \<noteq> []" "\<not> json_ws (hd (obj_text w1 w2 w3 kvs))" "\<not> json_ws (last (obj_text w1 w2 w3 kvs))"
    by (simp_all add: obj_text_def)
  fix lim and ps :: "pstate list"
  assume a: "ps \<noteq> [] \<and> Suc d + length ps \<le> lim"
  let ?n = "length ps"
  have op: "step_char lim (SBeginValue, ps) CHR ''{'' = Some (OpBeginObject, SBeginStringOrEmpty, PKey # ps)"
    using a by (simp add: step_begin_value_def push_state_def)
  have "qrun lim ?n (SBeginStringOrEmpty, PKey # ps)
      ((w1 @ join_with ('','' @ w1) (map (member_text w2) kvs)) @ w3 @ ''}'') = Some (SEndValue, ps)"
  proof (cases "kvs = []")
    case True
    then show ?thesis
      using a qrun_ws_begin [OF assms(2)] qrun_ws_begin [OF assms(4)]
      by (simp add: qrun_append step_end_value_def pop_state_def quiet_def)
  next
    case False
    have "d + length (PVal # ps) \<le> lim" using a by simp
    then obtain s where s: "qrun lim ?n (SBeginStringOrEmpty, PKey # ps)
      (w1 @ join_with ('','' @ w1) (map (member_text w2) kvs)) = Some (s, PVal # ps)" "ended s"
      using qrun_members [OF False, of d ps lim w1 w2 SBeginStringOrEmpty] assms by auto
    obtain s' where "qrun lim ?n (s, PVal # ps) w3 = Some (s', PVal # ps)" "ended s'"
      using qrun_ws_ended [OF assms(4) s(2), of "PVal # ps"] by auto
    then show ?thesis
      unfolding qrun_comp [OF s(1)]
      using a by (simp add: qrun_comp step_ended delim_def step_end_value_def pop_state_def quiet_def)
  qed
  then show "\<exists>s. qrun lim ?n (SBeginValue, ps) (obj_text w1 w2 w3 kvs) = Some (s, ps) \<and> ended s"
    using op by (simp add: obj_text_def quiet_inside ended_def)
qed

lemma completes_first: "completes d v \<Longrightarrow> \<exists>c r. v = c # r \<and> \<not> json_ws c \<and> c \<noteq> CHR '']''"
proof -
  assume a: "completes d v"
  then obtain c r where v: "v = c # r" "\<not> json_ws c" by (cases v) (auto simp: completes_def)
  obtain s where s: "qrun (d + 1) (length [PArr]) (SBeginValue, [PArr]) v = Some (s, [PArr])"
    using completesD [OF a, of "[PArr]" "d + 1"] by auto
  have "c \<noteq> CHR '']''"
  proof
    assume "c = CHR '']''"
    then have "step_char (d + 1) (SBeginValue, [PArr]) c = None"
      by (simp add: step_begin_value_def is_digit_def byte_def)
    with s v show False by simp
  qed
  with v show ?thesis by simp
qed

lemma qrun_value_or_empty:
  assumes "completes d v" "d + length ps \<le> lim" "ps \<noteq> []" "st \<in> set [SBeginValue, SBeginValueOrEmpty]"
    "all_ws w1" "n \<le> length ps"
  shows "\<exists>s. qrun lim n (st, ps) (w1 @ v) = Some (s, ps) \<and> ended s"
proof -
  obtain s where s: "qrun lim (length ps) (SBeginValue, ps) v = Some (s, ps)" "ended s"
    using completesD [OF assms(1,3,2)] by blast
  obtain c r where "v = c # r" "\<not> json_ws c" "c \<noteq> CHR '']''"
    using completes_first [OF assms(1)] by blast
  then have "qrun lim n (st, ps) v = qrun lim n (SBeginValue, ps) v" using assms(4) by auto
  moreover have "qrun lim n (st, ps) w1 = Some (st, ps)" using qrun_ws_begin assms(4,5) by auto
  ultimately show ?thesis using qrun_mono [OF s(1) assms(6)] s(2) by (simp add: qrun_comp)
qed

lemma qrun_elems:
  assumes "vs \<noteq> []" "\<And>v. v \<in> set vs \<Longrightarrow> completes d v" "d + length (PArr # ps) \<le> lim"
    "all_ws w1" "st \<in> set [SBeginValue, SBeginValueOrEmpty]"
  shows "\<exists>s. qrun lim (length ps) (st, PArr # ps) (w1 @ join_with ('','' @ w1) vs) = Some (s, PArr # ps) \<and> ended s"
  using assms(1,2,5)
proof (induction vs arbitrary: st)
  case (Cons v vs)
  obtain s where s: "qrun lim (length ps) (st, PArr # ps) (w1 @ v) = Some (s, PArr # ps)" "ended s"
    using qrun_value_or_empty [OF Cons.prems(2) assms(3) _ Cons.prems(3) assms(4), of v "length ps"] by auto
  show ?case
  proof (cases vs)
    case Nil
    with s show ?thesis by simp
  next
    case (Cons v' vs')
    then obtain s' where s': "qrun lim (length ps) (SBeginValue, PArr # ps)
        (w1 @ join_with ('','' @ w1) vs) = Some (s', PArr # ps)" "ended s'"
      using Cons.IH [of SBeginValue] Cons.prems(2) by auto
    have "step_char lim (s, PArr # ps) CHR '','' = Some (OpArrayValue, SBeginValue, PArr # ps)"
      using s(2) by (simp add: step_ended delim_def step_end_value_def)
    moreover have "w1 @ join_with ('','' @ w1) (v # vs) = (w1 @ v) @ CHR '','' # (w1 @ join_with ('','' @ w1) vs)"
      using Cons by simp
    ultimately show ?thesis
      using s s' qrun_comp [OF s(1)] by (simp add: quiet_inside del: append_assoc)
  qed
qed simp

lemma completes_arr:
  assumes "\<And>v. v \<in> set vs \<Longrightarrow> completes d v" "all_ws w1" "all_ws w3"
  shows "completes (Suc d) (arr_text w1 w3 vs)"
  unfolding completes_def
proof (intro conjI allI impI)
  show "arr_text w1 w3 vs \<noteq> []" "\<not> json_ws (hd (arr_text w1 w3 vs))" "\<not> json_ws (last (arr_text w1 w3 vs))"
    by (simp_all add: arr_text_def)
  fix lim and ps :: "pstate list"
  assume a: "ps \<noteq> [] \<and> Suc d + length ps \<le> lim"
  let ?n = "length ps"
  have op: "step_char lim (SBeginValue, ps) CHR ''['' = Some (OpBeginArray, SBeginValueOrEmpty, PArr # ps)"
    using a by (simp add: step_begin_value_def push_state_def)
  have "qrun lim ?n (SBeginValueOrEmpty, PArr # ps)
      ((w1 @ join_with ('','' @ w1) vs) @ w3 @ '']'') = Some (SEndValue, ps)"
  proof (cases "vs = []")
    case True
    then show ?thesis
      using a qrun_ws_begin [OF assms(2)] qrun_ws_begin [OF assms(3)]
      by (simp add: qrun_append step_end_value_def pop_state_def quiet_def)
  next
    case False
    have "d + length (PArr # ps) \<le> lim" using a by simp
    then obtain s where s: "qrun lim ?n (SBeginValueOrEmpty, PArr # ps)
      (w1 @ join_with ('','' @ w1) vs) = Some (s, PArr # ps)" "ended s"
      using qrun_elems [OF False, of d ps lim w1 SBeginValueOrEmpty] assms by auto
    obtain s' where "qrun lim ?n (s, PArr # ps) w3 = Some (s', PArr # ps)" "ended s'"
      using qrun_ws_ended [OF assms(3) s(2), of "PArr # ps"] by auto
    then show ?thesis
      unfolding qrun_comp [OF s(1)]
      using a by (simp add: qrun_comp step_ended delim_def step_end_value_def pop_state_def quiet_def)
  qed
  then show "\<exists>s. qrun lim ?n (SBeginValue, ps) (arr_text w1 w3 vs) = Some (s, ps) \<and> ended s"
    using op by (simp add: arr_text_def quiet_inside ended_def)
qed

section \<open>Splitting what was printed\<close>

lemma dropWhile_all_ws: "all_ws w \<Longrightarrow> dropWhile json_ws (w @ v) = dropWhile json_ws v"
  by (induction w) auto

lemma all_ws_rev [simp]: "all_ws (rev w) \<longleftrightarrow> all_ws w"
  by (simp add: all_ws_def)

lemma trim_ws_around:
  assumes "all_ws w" "all_ws w'" "v \<noteq> []" "\<not> json_ws (hd v)" "\<not> json_ws (last v)"
  shows "trim_ws (w @ v @ w') = v"
proof -
  have "dropWhile json_ws (v @ w') = v @ w'" using assms(3,4) by (cases v) auto
  moreover have "dropWhile json_ws (rev v) = rev v" using assms(3,5) by (cases v rule: rev_cases) auto
  ultimately show ?thesis using assms(1,2) by (simp add: trim_ws_def dropWhile_all_ws)
qed

lemma chunk_around:
  assumes "all_ws w" "all_ws w'" "v \<noteq> []" "\<not> json_ws (hd v)" "\<not> json_ws (last v)"
  shows "chunk (rev (w @ v @ w')) = [v]"
  using trim_ws_around [OF assms] assms(3) by (simp add: chunk_def Let_def del: rev_append)

lemma chunk_ws [simp]: "all_ws w \<Longrightarrow> chunk (rev w) = []"
proof -
  assume "all_ws w"
  then have "dropWhile json_ws w = []" by (simp add: all_ws_def list_all_iff)
  then have "trim_ws (rev (rev w)) = []" by (simp only: trim_ws_def rev_rev_ident rev.simps dropWhile.simps)
  then show ?thesis by (simp only: chunk_def Let_def simp_thms if_True)
qed

lemma parts_key:
  assumes "all_ws w1" "st \<in> set [SBeginString, SBeginStringOrEmpty]"
  shows "parts_run lim (st, [PKey]) [] (w1 @ json_quote k @ '':'' @ rest)
       = map_option ((#) (json_quote k)) (parts_run lim (SBeginValue, [PVal]) [] rest)"
proof -
  have "qrun lim 1 (st, [PKey]) w1 = Some (st, [PKey])" using qrun_ws_begin assms by auto
  moreover have "qrun lim 1 (st, [PKey]) (json_quote k) = Some (SEndValue, [PKey])"
    using assms(2) qrun_quote [of st] by auto
  ultimately have "qrun lim 1 (st, [PKey]) (w1 @ json_quote k) = Some (SEndValue, [PKey])"
    by (simp add: qrun_comp)
  from parts_run_quiet [OF this, of "[]" "'':'' @ rest"]
  have "parts_run lim (st, [PKey]) [] (w1 @ json_quote k @ '':'' @ rest)
     = map_option ((@) (chunk (rev (w1 @ json_quote k @ [])))) (parts_run lim (SBeginValue, [PVal]) [] rest)"
    by (simp add: step_end_value_def opens_top_def splits_top_def)
  moreover have "(@) [json_quote k] = (#) (json_quote k)" by auto
  ultimately show ?thesis
    using chunk_around [OF assms(1), of "[]" "json_quote k"] by (simp del: rev_append)
qed

text \<open>A value between two separators of the top bracket is cut out exactly.\<close>

lemma parts_value:
  assumes "completes d v" "Suc d \<le> lim" "all_ws w" "all_ws w'" "delim c" "\<not> json_ws c"
    "st = SBeginValue \<or> st = SBeginValueOrEmpty"
    "step_end_value [p] c = Some (op, st')" "splits_top op (snd st')"
  shows "parts_run lim (st, [p]) [] (w @ v @ w' @ c # rest) = map_option ((#) v) (parts_run lim st' [] rest)"
proof -
  obtain s where s: "qrun lim 1 (st, [p]) (w @ v) = Some (s, [p])" "ended s"
    using qrun_value_or_empty [OF assms(1), of "[p]" lim st w 1] assms(2,3,7) by auto
  obtain s' where s': "qrun lim 1 (s, [p]) w' = Some (s', [p])" "ended s'"
    using qrun_ws_ended [OF assms(4) s(2), of "[p]"] by auto
  have "qrun lim 1 (st, [p]) (w @ v @ w') = Some (s', [p])"
    using qrun_comp [OF s(1), of w'] s'(1) by simp
  from parts_run_quiet [OF this, of "[]" "c # rest"]
  have "parts_run lim (st, [p]) [] (w @ v @ w' @ c # rest)
      = map_option ((@) (chunk (rev (w @ v @ w')))) (parts_run lim st' [] rest)"
    using assms(5,8,9) s'(2) by (auto simp: step_ended splits_top_def opens_top_def)
  moreover have "chunk (rev (w @ v @ w')) = [v]"
    using assms(1,3,4) by (intro chunk_around) (auto simp: completes_def)
  moreover have "(@) [v] = (#) v" by auto
  ultimately show ?thesis by simp
qed

fun flat_kvs :: "(bytes \<times> bytes) list \<Rightarrow> bytes list" where
  "flat_kvs [] = []"
| "flat_kvs ((k, v) # r) = json_quote k # v # flat_kvs r"

lemma pair_up_flat: "pair_up (flat_kvs kvs) = map (\<lambda>(k, v). (json_quote k, v)) kvs"
  by (induction kvs rule: flat_kvs.induct) auto

lemma eof_end_top [simp]: "scan_eof lim (SEndTop, ps)"
  by (simp add: scan_eof_def)

lemma parts_members:
  assumes "kvs \<noteq> []" "\<And>k v. (k, v) \<in> set kvs \<Longrightarrow> completes d v" "Suc d \<le> lim"
    "all_ws w1" "all_ws w2" "all_ws w3" "st \<in> set [SBeginString, SBeginStringOrEmpty]"
  shows "parts_run lim (st, [PKey]) [] (w1 @ join_with ('','' @ w1) (map (member_text w2) kvs) @ w3 @ ''}'')
     = Some (flat_kvs kvs)"
  using assms(1,2,7)
proof (induction kvs arbitrary: st)
  case (Cons kv kvs)
  obtain k v where kv: "kv = (k, v)" by fastforce
  then have cv: "completes d v" using Cons.prems(2) by auto
  show ?case
  proof (cases kvs)
    case Nil
    have "parts_run lim (SBeginValue, [PVal]) [] (w2 @ v @ w3 @ CHR ''}'' # []) = Some [v]"
      using parts_value [OF cv assms(3,5,6), of "CHR ''}''" SBeginValue PVal OpEndObject "(SEndTop, [])" "[]"]
      by (simp add: delim_def step_end_value_def pop_state_def splits_top_def)
    then show ?thesis
      using Nil kv parts_key [OF assms(4) Cons.prems(3), of lim k "w2 @ v @ w3 @ ''}''"]
      by (simp add: member_text_def)
  next
    case (Cons kv' kvs')
    let ?rest = "w1 @ join_with ('','' @ w1) (map (member_text w2) kvs) @ w3 @ ''}''"
    have "parts_run lim (SBeginString, [PKey]) [] ?rest = Some (flat_kvs kvs)"
      using Cons.IH [of SBeginString] Cons.prems(2) Cons by auto
    then have "parts_run lim (SBeginValue, [PVal]) [] (w2 @ v @ [] @ CHR '','' # ?rest) = Some (v # flat_kvs kvs)"
      using parts_value [OF cv assms(3,5), of "[]" "CHR '',''" SBeginValue PVal OpObjectValue "(SBeginString, [PKey])" ?rest]
      by (simp add: delim_def step_end_value_def splits_top_def)
    then show ?thesis
      using Cons kv parts_key [OF assms(4) Cons.prems(3), of lim k "w2 @ v @ '','' @ ?rest"]
      by (simp add: member_text_def [of w2 "(k, v)"])
  qed
qed simp

lemma parts_obj:
  assumes "\<And>k v. (k, v) \<in> set kvs \<Longrightarrow> completes d v" "Suc d \<le> lim"
    "all_ws w1" "all_ws w2" "all_ws w3"
  shows "parts_run lim (SBeginValue, []) [] (obj_text w1 w2 w3 kvs) = Some (flat_kvs kvs)"
proof -
  have op: "step_char lim (SBeginValue, []) CHR ''{'' = Some (OpBeginObject, SBeginStringOrEmpty, [PKey])"
    using assms(2) by (simp add: step_begin_value_def push_state_def)
  have "parts_run lim (SBeginStringOrEmpty, [PKey]) []
      (w1 @ join_with ('','' @ w1) (map (member_text w2) kvs) @ w3 @ ''}'') = Some (flat_kvs kvs)"
  proof (cases "kvs = []")
    case True
    have "qrun lim 1 (SBeginStringOrEmpty, [PKey]) (w1 @ w3) = Some (SBeginStringOrEmpty, [PKey])"
      using qrun_ws_begin [of "w1 @ w3"] assms(3,5) by auto
    from parts_run_quiet [OF this, of "[]" "''}''"] True show ?thesis
      using chunk_ws [of "w1 @ w3"] assms(3,5)
      by (simp add: step_end_value_def opens_top_def splits_top_def pop_state_def)
  next
    case False
    then show ?thesis using parts_members [OF False assms(1,2,3,4,5)] by auto
  qed
  with op show ?thesis by (simp add: obj_text_def opens_top_def)
qed

theorem json_parts_obj:
  assumes "\<And>k v. (k, v) \<in> set kvs \<Longrightarrow> completes d v" "Suc d \<le> max_nesting"
    "all_ws w1" "all_ws w2" "all_ws w3"
  shows "json_parts (obj_text w1 w2 w3 kvs) = Some (flat_kvs kvs)"
  unfolding json_parts_def by (rule parts_obj [OF assms])

text \<open>An object text determines its members.\<close>

lemma obj_text_inj:
  assumes "\<And>k v. (k, v) \<in> set kvs \<Longrightarrow> completes d v" "\<And>k v. (k, v) \<in> set kvs' \<Longrightarrow> completes d v"
    "obj_text [] [] [] kvs = obj_text [] [] [] kvs'"
  shows "flat_kvs kvs = flat_kvs kvs'"
  using parts_obj [where kvs = kvs and d = d and lim = "Suc d" and ?w1.0 = "[]" and ?w2.0 = "[]" and ?w3.0 = "[]"]
    parts_obj [where kvs = kvs' and d = d and lim = "Suc d" and ?w1.0 = "[]" and ?w2.0 = "[]" and ?w3.0 = "[]"] assms by simp

lemma parts_elems:
  assumes "vs \<noteq> []" "\<And>v. v \<in> set vs \<Longrightarrow> completes d v" "Suc d \<le> lim" "all_ws w1" "all_ws w3"
    "st \<in> set [SBeginValue, SBeginValueOrEmpty]"
  shows "parts_run lim (st, [PArr]) [] (w1 @ join_with ('','' @ w1) vs @ w3 @ '']'') = Some vs"
  using assms(1,2,6)
proof (induction vs arbitrary: st)
  case (Cons v vs)
  then have cv: "completes d v" and st: "st = SBeginValue \<or> st = SBeginValueOrEmpty" by auto
  show ?case
  proof (cases vs)
    case Nil
    then show ?thesis
      using parts_value [OF cv assms(3,4,5), of "CHR '']''" st PArr OpEndArray "(SEndTop, [])" "[]"] st
      by (simp add: delim_def step_end_value_def pop_state_def splits_top_def)
  next
    case (Cons v' vs')
    let ?rest = "w1 @ join_with ('','' @ w1) vs @ w3 @ '']''"
    have "parts_run lim (SBeginValue, [PArr]) [] ?rest = Some vs"
      using Cons.IH [of SBeginValue] Cons.prems(2) Cons by auto
    then show ?thesis
      using Cons st parts_value [OF cv assms(3,4), of "[]" "CHR '',''" st PArr OpArrayValue "(SBeginValue, [PArr])" ?rest]
      by (simp add: delim_def step_end_value_def splits_top_def)
  qed
qed simp

theorem json_parts_arr:
  assumes "\<And>v. v \<in> set vs \<Longrightarrow> completes d v" "Suc d \<le> max_nesting" "all_ws w1" "all_ws w3"
  shows "json_parts (arr_text w1 w3 vs) = Some vs"
proof -
  have op: "step_char max_nesting (SBeginValue, []) CHR ''['' = Some (OpBeginArray, SBeginValueOrEmpty, [PArr])"
    using assms(2) by (simp add: step_begin_value_def push_state_def)
  have "parts_run max_nesting (SBeginValueOrEmpty, [PArr]) []
      (w1 @ join_with ('','' @ w1) vs @ w3 @ '']'') = Some vs"
  proof (cases "vs = []")
    case True
    have "qrun max_nesting 1 (SBeginValueOrEmpty, [PArr]) (w1 @ w3) = Some (SBeginValueOrEmpty, [PArr])"
      using qrun_ws_begin [of "w1 @ w3"] assms(3,4) by auto
    from parts_run_quiet [OF this, of "[]" "'']''"] True show ?thesis
      using chunk_ws [of "w1 @ w3"] assms(3,4)
      by (simp add: step_end_value_def opens_top_def splits_top_def pop_state_def)
  next
    case False
    then show ?thesis using parts_elems [OF False assms(1,2,3,4)] by auto
  qed
  with op show ?thesis by (simp add: json_parts_def arr_text_def opens_top_def)
qed

end
