(* ===== verification/Go_Compact.thy ===== *)
theory Go_Compact
  imports Go_Json
begin

text \<open>
  Compacting a raw message: the output of \<open>Compact\<close> is a complete value, compacting it again
  changes nothing, and it can be embedded below other brackets.  These facts are what makes the
  re-marshalled form of a signed record reproducible.
\<close>

section \<open>Reachable scanner states\<close>

definition sinv :: "scanner \<Rightarrow> bool" where
  "sinv st \<longleftrightarrow> (fst st = SEndTop \<longrightarrow> snd st = [])
     \<and> (fst st \<in> {SBeginStringOrEmpty, SBeginValueOrEmpty, SBeginString} \<longrightarrow> snd st \<noteq> [])
     \<and> (case fst st of SLit w \<Rightarrow> list_all (\<lambda>x. 97 \<le> byte x \<and> byte x \<le> 122) w | _ \<Rightarrow> True)"

lemma step_end_value_inv: "step_end_value ps c = Some (op, st) \<Longrightarrow> sinv st"
  by (auto simp: step_end_value_def sinv_def pop_state_def split: list.splits if_splits pstate.splits)

lemma step_begin_value_inv: "step_begin_value lim ps c = Some (op, st) \<Longrightarrow> sinv st"
  by (auto simp: step_begin_value_def sinv_def push_state_def byte_def split: if_splits)

lemma step_inv: "sinv st \<Longrightarrow> step_char lim st c = Some (op, st') \<Longrightarrow> sinv st'"
proof (induction lim st c rule: step_char.induct)
  case (2 lim ps c)
  then show ?case using step_end_value_inv step_begin_value_inv by (auto simp: sinv_def split: if_splits)
next
  case (3 lim ps c)
  then show ?case
    using step_end_value_inv by (auto simp: step_begin_string_def sinv_def split: if_splits)
qed (auto simp: step_begin_string_def step_num0_def sinv_def
      split: if_splits list.splits dest: step_end_value_inv step_begin_value_inv)

definition lift_st :: "jst \<Rightarrow> jst" where
  "lift_st s = (if s = SEndTop then SEndValue else s)"

lemma lift_pop: "pop_state (qs @ ps) = (lift_st (fst (pop_state qs)), qs @ ps)" if "ps \<noteq> []"
  using that by (auto simp: pop_state_def lift_st_def)

lemma end_value_lift:
  assumes "step_end_value qs c = Some (op, s1, qs1)" "op \<noteq> OpSkipSpace" "ps \<noteq> []"
  shows "step_end_value (qs @ ps) c = Some (op, lift_st s1, qs1 @ ps) \<and> quiet (length ps) op (qs1 @ ps)"
  using assms
  by (auto simp: step_end_value_def pop_state_def lift_st_def quiet_def
      split: list.splits if_splits pstate.splits)

lemma begin_value_lift:
  assumes "step_begin_value lim qs c = Some (op, s1, qs1)" "op \<noteq> OpSkipSpace" "lim + length ps \<le> lim'"
  shows "step_begin_value lim' (qs @ ps) c = Some (op, lift_st s1, qs1 @ ps) \<and> quiet (length ps) op (qs1 @ ps)"
  using assms
  by (auto simp: step_begin_value_def push_state_def lift_st_def quiet_def split: if_splits)

lemma step_lift:
  assumes "sinv (s, qs)" "step_char lim (s, qs) c = Some (op, s1, qs1)" "op \<noteq> OpSkipSpace"
    "ps \<noteq> []" "lim + length ps \<le> lim'"
  shows "step_char lim' (lift_st s, qs @ ps) c = Some (op, lift_st s1, qs1 @ ps) \<and> quiet (length ps) op (qs1 @ ps)"
proof (cases "(lim, (s, qs), c)" rule: step_char.cases)
  case (3 lima psa ca)
  then have "qs \<noteq> []" using assms(1) by (simp add: sinv_def)
  then obtain q qs' where qs: "qs = q # qs'" by (cases qs) auto
  with 3 assms(2-4) show ?thesis
    using end_value_lift [of "PVal # qs'" c op s1 qs1 ps]
    by (auto simp: step_begin_string_def lift_st_def split: if_splits)
qed (use assms end_value_lift [of qs c op s1 qs1 ps] begin_value_lift [of lim qs c op s1 qs1 ps lim'] in
     \<open>auto simp: step_begin_string_def step_num0_def lift_st_def [of SBeginValue] lift_st_def [of SBeginValueOrEmpty]
        lift_st_def split: if_splits list.splits\<close>)

section \<open>Emission\<close>

lemma in_string_step:
  "step_char lim (SInString, qs) c = Some (op, st) \<Longrightarrow> op = OpContinue \<and> snd st = qs"
  by (auto split: if_splits)

lemma compact_in_string_not_Nil: "compact_run lim (SInString, qs) cs \<noteq> Some []"
proof (cases cs)
  case Nil
  then show ?thesis by (simp add: scan_eof_def)
next
  case (Cons c r)
  then show ?thesis by (auto simp: u00_def u202_def split: option.splits if_splits)
qed

definition string_only :: "char \<Rightarrow> bool" where
  "string_only c \<longleftrightarrow> 128 \<le> byte c \<or> html_special c \<or> json_ws c"

lemma string_only_step:
  assumes "sinv (s, qs)" "step_char lim (s, qs) c = Some (op, st)" "op \<noteq> OpSkipSpace" "string_only c"
  shows "s = SInString \<and> st = (SInString, qs)"
proof -
  have facts: "c \<noteq> DQ" "c \<noteq> BSL" "\<not> is_digit c" "\<not> is_e c"
    "c \<notin> set [CHR '','', CHR '':'', CHR ''}'', CHR '']'', CHR ''{'', CHR ''['', CHR ''-'', CHR ''+'', CHR ''0'',
       CHR ''t'', CHR ''f'', CHR ''n'', CHR ''.'', CHR ''b'', CHR ''r'', CHR ''/'', CHR ''u'']"
    "hex_val c = None" "\<not> (97 \<le> byte c \<and> byte c \<le> 122)"
    using assms(4)
    by (auto simp: string_only_def html_special_def json_ws_def is_digit_def is_e_def byte_def hex_val_def)
  show ?thesis
    using assms(1-3) facts
    by (cases "(lim, (s, qs), c)" rule: step_char.cases)
       (auto simp: sinv_def step_begin_value_def step_begin_string_def step_num0_def step_end_value_def
          split: if_splits list.splits pstate.splits)
qed

lemma step_ge32:
  assumes "sinv (s, qs)" "step_char lim (s, qs) c = Some (op, st)" "op \<noteq> OpSkipSpace"
  shows "32 \<le> byte c"
proof (rule ccontr)
  assume "\<not> 32 \<le> byte c"
  then have lo: "byte c < 32" by simp
  have facts: "c \<noteq> DQ" "c \<noteq> BSL" "\<not> is_digit c" "\<not> is_e c"
    "c \<notin> set [CHR '','', CHR '':'', CHR ''}'', CHR '']'', CHR ''{'', CHR ''['', CHR ''-'', CHR ''+'', CHR ''0'',
       CHR ''t'', CHR ''f'', CHR ''n'', CHR ''.'', CHR ''b'', CHR ''r'', CHR ''/'', CHR ''u'']"
    "hex_val c = None" "\<not> (97 \<le> byte c \<and> byte c \<le> 122)"
    using lo by (auto simp: is_digit_def is_e_def byte_def hex_val_def)
  show False
    using assms facts lo
    by (cases "(lim, (s, qs), c)" rule: step_char.cases)
       (auto simp: sinv_def step_begin_value_def step_begin_string_def step_num0_def step_end_value_def
          split: if_splits list.splits pstate.splits)
qed

lemma line_sep_high: "line_sep (c # cs) \<Longrightarrow> 128 \<le> byte c"
  by (auto simp: line_sep_def split: list.splits)

lemma line_sep_low: "byte c < 128 \<Longrightarrow> \<not> line_sep (c # cs)"
  using line_sep_high [of c cs] by auto

lemma compact_plain:
  "step_char lim (s, qs) c = Some (op, st) \<Longrightarrow> op \<noteq> OpSkipSpace \<Longrightarrow> \<not> html_special c \<Longrightarrow> \<not> line_sep (c # cs)
   \<Longrightarrow> compact_run lim (s, qs) (c # cs) = map_option ((#) c) (compact_run lim st cs)"
  by simp

lemma compact_u4:
  assumes "\<And>x. x \<in> set [a, b, c, d] \<Longrightarrow> hex_val x \<noteq> None"
  shows "compact_run lim (SInString, qs) (BSL # CHR ''u'' # a # b # c # d # t)
       = map_option (\<lambda>r. BSL # CHR ''u'' # a # b # c # d # r) (compact_run lim (SInString, qs) t)"
proof -
  have h: "byte x < 128 \<and> \<not> html_special x" if "hex_val x \<noteq> None" for x
    using that by (auto simp: hex_val_def html_special_def byte_def split: if_splits)
  then have "\<not> html_special x" "\<not> line_sep (x # r)" if "hex_val x \<noteq> None" for x r
    using that line_sep_low by auto
  moreover have "\<not> html_special BSL" "\<not> html_special CHR ''u''"
    "\<And>r. \<not> line_sep (BSL # r)" "\<And>r. \<not> line_sep (CHR ''u'' # r)"
    using line_sep_low by (auto simp: html_special_def byte_def)
  moreover have "hex_val a \<noteq> None" "hex_val b \<noteq> None" "hex_val c \<noteq> None" "hex_val d \<noteq> None"
    using assms by auto
  ultimately show ?thesis
    by (simp del: not_None_eq add: option.map_comp comp_def)
qed

lemma compact_u00: "compact_run lim (SInString, qs) (u00 c @ t) = map_option ((@) (u00 c)) (compact_run lim (SInString, qs) t)"
proof -
  have "byte c div 16 < 16" using byte_less_256 [of c] by linarith
  then show ?thesis
    unfolding u00_def append.simps
    by (subst compact_u4) (auto simp: hex_val_eval hex_val_digit simp del: compact_run.simps)
qed

lemma compact_u202: "compact_run lim (SInString, qs) (u202 s @ t) = map_option ((@) (u202 s)) (compact_run lim (SInString, qs) t)"
  unfolding u202_def append.simps
  by (subst compact_u4) (auto simp: hex_val_eval hex_val_digit simp del: compact_run.simps)

text \<open>Inside a string the head of the output is the head of the input or a backslash.\<close>

lemma compact_in_string_head:
  assumes "compact_run lim (SInString, qs) cs = Some (x # out)" "128 \<le> byte x"
  shows "\<exists>r. cs = x # r \<and> compact_run lim (SInString, qs) r = Some out \<and> \<not> line_sep cs"
proof (cases cs)
  case Nil
  with assms show ?thesis by (simp split: if_splits)
next
  case (Cons c r)
  have bsl: "x \<noteq> BSL" using assms(2) by (auto simp: byte_def)
  from Cons assms(1) bsl have "c = x" "\<not> line_sep (c # r)"
    by (auto simp: u00_def u202_def split: option.splits if_splits)
  moreover have "c \<noteq> DQ" "\<not> byte c < 32" "\<not> html_special c"
    using assms(2) \<open>c = x\<close> by (auto simp: html_special_def byte_def)
  ultimately show ?thesis using Cons assms(1) bsl by auto
qed

lemma line_sep_compact:
  assumes "compact_run lim (SInString, qs) cs = Some out" "line_sep (c # out)"
  shows "line_sep (c # cs)"
proof -
  obtain a b r where out: "out = a # b # r" "128 \<le> byte a" "128 \<le> byte b"
    using assms(2) by (auto simp: line_sep_def split: list.splits)
  obtain cs' where c1: "cs = a # cs'" "compact_run lim (SInString, qs) cs' = Some (b # r)"
    using compact_in_string_head assms(1) out by blast
  obtain cs'' where "cs' = b # cs''"
    using compact_in_string_head [OF c1(2) out(3)] by blast
  with c1 out assms(2) show ?thesis by (simp add: line_sep_def)
qed

section \<open>The output is a complete value and a fixed point\<close>

definition srel :: "jst \<Rightarrow> jst \<Rightarrow> pstate list \<Rightarrow> bool" where
  "srel s' s qs \<longleftrightarrow> s' = s \<or> ended s' \<and> (s = SEndValue \<and> qs \<noteq> [] \<or> s = SEndTop \<and> qs = [])"

lemma srel_step:
  assumes "srel s' s qs" "step_char lim (s, qs) c = Some (op, st)" "op \<noteq> OpSkipSpace"
  shows "step_char lim (s', qs) c = Some (op, st)"
proof (cases "s' = s")
  case False
  with assms have e: "ended s'" "s = SEndValue"
    by (auto simp: srel_def split: if_splits)
  moreover have "delim c" using assms(2,3) e
    by (auto simp: step_end_value_def delim_def split: list.splits if_splits pstate.splits)
  ultimately show ?thesis using assms(2) by (simp add: step_ended)
qed (use assms in simp)

lemma skip_srel:
  assumes "srel s' s qs" "step_char lim (s, qs) c = Some (OpSkipSpace, s1, qs1)" "sinv (s, qs)"
  shows "qs1 = qs \<and> srel s' s1 qs"
  using assms
  by (cases "(lim, (s, qs), c)" rule: step_char.cases)
     (auto simp: srel_def ended_def step_begin_value_def step_begin_string_def step_num0_def step_end_value_def
        push_state_def sinv_def split: if_splits list.splits pstate.splits)

lemma eof_srel: "srel s' s qs \<Longrightarrow> scan_eof lim (s, qs) \<Longrightarrow> sinv (s, qs) \<Longrightarrow> scan_eof lim (s', qs) \<and> qs = [] \<and> (ended s' \<or> s' = SEndTop)"
proof -
  assume a: "srel s' s qs" "scan_eof lim (s, qs)" "sinv (s, qs)"
  have "qs = [] \<and> (ended s \<or> s = SEndTop)"
    using a(2,3)
    by (cases "(lim, (s, qs), SP)" rule: step_char.cases)
       (auto simp: scan_eof_def sinv_def ended_def step_begin_value_def step_begin_string_def step_num0_def
          step_end_value_def is_digit_def is_e_def byte_def hex_val_def split: if_splits list.splits pstate.splits)
  moreover have "scan_eof lim (s', [])" if "ended s'"
    using that by (auto simp: scan_eof_def step_ended delim_def step_end_value_def)
  ultimately show ?thesis using a by (auto simp: srel_def)
qed

definition embeds :: "nat \<Rightarrow> scanner \<Rightarrow> bytes \<Rightarrow> bool" where
  "embeds lim st out \<longleftrightarrow>
     (\<forall>ps lim'. ps \<noteq> [] \<and> lim + length ps \<le> lim' \<longrightarrow>
        (\<exists>s. qrun lim' (length ps) (lift_st (fst st), snd st @ ps) out = Some (s, ps) \<and> ended s))"

definition settled :: "nat \<Rightarrow> scanner \<Rightarrow> bytes \<Rightarrow> bool" where
  "settled lim st out \<longleftrightarrow>
     compact_run lim st out = Some out \<and> (out \<noteq> [] \<longrightarrow> \<not> json_ws (last out)) \<and> embeds lim st out"

lemma embeds_Cons:
  assumes "sinv (s, qs)" "step_char lim (s, qs) c = Some (op, st)" "op \<noteq> OpSkipSpace" "embeds lim st out"
  shows "embeds lim (s, qs) (c # out)"
  using assms(4) step_lift [OF assms(1), of lim c op "fst st" "snd st"] assms(2,3)
  unfolding embeds_def by (fastforce simp: split_beta)

lemma embeds_in_string:
  assumes "embeds lim (SInString, qs) out" "\<And>lim n ps t. qrun lim n (SInString, ps) (v @ t) = qrun lim n (SInString, ps) t"
  shows "embeds lim (SInString, qs) (v @ out)"
  using assms by (simp add: embeds_def lift_st_def)

lemma settled_Nil:
  assumes "srel s' s qs" "scan_eof lim (s, qs)" "sinv (s, qs)"
  shows "settled lim (s', qs) []"
  using eof_srel [OF assms] by (auto simp: settled_def embeds_def lift_st_def ended_def)

lemma settled_escaped:
  assumes "settled lim (SInString, qs) out" "out \<noteq> []"
    and "\<And>lim n ps t. qrun lim n (SInString, ps) (v @ t) = qrun lim n (SInString, ps) t"
    and "\<And>t. compact_run lim (SInString, qs) (v @ t) = map_option ((@) v) (compact_run lim (SInString, qs) t)"
  shows "settled lim (SInString, qs) (v @ out)"
  using assms embeds_in_string [OF _ assms(3), of lim qs out] by (simp add: settled_def)

lemma settled_plain:
  assumes "sinv (s, qs)" "step_char lim (s, qs) c = Some (op, st)" "op \<noteq> OpSkipSpace"
    "\<not> html_special c" "\<not> line_sep (c # cs)" "settled lim st out" "compact_run lim st cs = Some out"
  shows "settled lim (s, qs) (c # out)"
proof -
  have "\<not> line_sep (c # out)"
  proof
    assume ls: "line_sep (c # out)"
    then have "st = (SInString, qs)"
      using string_only_step [OF assms(1-3)] line_sep_high by (auto simp: string_only_def)
    with line_sep_compact ls assms(5,7) show False by blast
  qed
  then have "compact_run lim (s, qs) (c # out) = Some (c # out)"
    using compact_plain [OF assms(2-4)] assms(6) by (simp add: settled_def)
  moreover have "\<not> json_ws (last (c # out))"
  proof (cases "out = []")
    case True
    have "\<not> json_ws c"
    proof
      assume "json_ws c"
      then have "st = (SInString, qs)"
        using string_only_step [OF assms(1-3)] by (simp add: string_only_def)
      with compact_in_string_not_Nil True assms(7) show False by blast
    qed
    with True show ?thesis by simp
  qed (use assms(6) in \<open>simp add: settled_def\<close>)
  moreover have "embeds lim (s, qs) (c # out)"
    using embeds_Cons [OF assms(1-3)] assms(6) by (simp add: settled_def)
  ultimately show ?thesis by (simp add: settled_def)
qed

lemma in_string_high2:
  "line_sep (c # cs) \<Longrightarrow> run lim (SInString, qs) (take 2 cs) = Some (SInString, qs)"
proof -
  assume "line_sep (c # cs)"
  then obtain z r where "cs = CHR 0x80 # z # r" "z = CHR 0xA8 \<or> z = CHR 0xA9"
    by (rule line_sep_shape) auto
  then show ?thesis by (auto simp: byte_def)
qed

lemma compact_settled:
  "compact_run lim (s, qs) b = Some out \<Longrightarrow> sinv (s, qs) \<Longrightarrow> srel s' s qs \<Longrightarrow> settled lim (s', qs) out"
proof (induction "length b" arbitrary: s qs b out s' rule: less_induct)
  case less
  show ?case
  proof (cases b)
    case Nil
    with less.prems show ?thesis using settled_Nil by (auto split: if_splits)
  next
    case (Cons c cs)
    then obtain op s1 qs1 where st: "step_char lim (s, qs) c = Some (op, s1, qs1)"
      using less.prems(1) by (auto split: option.splits)
    have inv1: "sinv (s1, qs1)" using step_inv [OF less.prems(2) st] .
    show ?thesis
    proof (cases "op = OpSkipSpace")
      case True
      then show ?thesis
        using less.hyps [of cs s1 qs1 out s'] less.prems st Cons inv1 skip_srel [OF less.prems(3) _ less.prems(2)]
        by auto
    next
      case False
      note st' = srel_step [OF less.prems(3) st False]
      have IH: "settled lim (s1, qs1) r" if "compact_run lim (s1, qs1) cs = Some r" for r
        using less.hyps [of cs s1 qs1 r s1] that inv1 Cons by (simp add: srel_def)
      consider "html_special c" | "\<not> html_special c" "line_sep (c # cs)" | "\<not> html_special c" "\<not> line_sep (c # cs)"
        by blast
      then show ?thesis
      proof cases
        case 1
        then have eq: "s = SInString" "(s1, qs1) = (SInString, qs)"
          using string_only_step [OF less.prems(2) st False] by (auto simp: string_only_def)
        then have "s' = SInString" using less.prems(3) by (simp add: srel_def)
        moreover obtain r where r: "compact_run lim (SInString, qs) cs = Some r" "out = u00 c @ r"
          using less.prems(1) Cons st False 1 eq by auto
        ultimately show ?thesis
          using IH [of r] eq compact_in_string_not_Nil [of lim qs cs] compact_u00 qrun_u00
          by (auto intro!: settled_escaped)
      next
        case 2
        then have eq: "s = SInString" "(s1, qs1) = (SInString, qs)"
          using string_only_step [OF less.prems(2) st False] line_sep_high by (auto simp: string_only_def)
        then have s': "s' = SInString" using less.prems(3) by (simp add: srel_def)
        obtain r where r: "compact_run lim (SInString, qs) (drop 2 cs) = Some r" "out = u202 (c # cs) @ r"
          using less.prems(1) Cons st False 2 eq in_string_high2 [OF 2(2), of lim qs] by auto
        have "settled lim (SInString, qs) r"
          using less.hyps [of "drop 2 cs" SInString qs r SInString] r(1) less.prems(2) eq Cons by (simp add: srel_def)
        then show ?thesis
          using s' r compact_in_string_not_Nil [of lim qs "drop 2 cs"] compact_u202 qrun_u202
          by (auto intro!: settled_escaped)
      next
        case 3
        then obtain r where r: "compact_run lim (s1, qs1) cs = Some r" "out = c # r"
          using less.prems(1) Cons st False by auto
        have "sinv (s', qs)" using less.prems(2,3) by (auto simp: srel_def sinv_def ended_def)
        then show ?thesis
          using settled_plain [OF _ st' False 3 IH [OF r(1)] r(1)] r(2) by simp
      qed
    qed
  qed
qed

lemma compact_head:
  assumes "compact_run lim (SBeginValue, []) b = Some out"
  shows "out \<noteq> [] \<and> \<not> json_ws (hd out)"
  using assms
proof (induction b)
  case Nil
  then show ?case by (simp add: scan_eof_def step_begin_value_def split: if_splits)
next
  case (Cons c cs)
  show ?case
  proof (cases "json_ws c")
    case True
    with Cons show ?thesis by (simp add: step_begin_value_def)
  next
    case False
    obtain op st where st: "step_char lim (SBeginValue, []) c = Some (op, st)"
      using Cons.prems by (auto split: option.splits)
    then have "op \<noteq> OpSkipSpace"
      using False by (auto simp: step_begin_value_def push_state_def split: if_splits)
    then have "\<exists>r. out = c # r \<or> out = BSL # r"
      using Cons.prems st by (auto simp: u00_def u202_def split: option.splits if_splits)
    with False show ?thesis by (auto simp: json_ws_def)
  qed
qed

text \<open>\<open>raw_ok d b\<close>: \<open>b\<close> is valid JSON nested at most \<open>d\<close> deep.\<close>

definition raw_ok :: "nat \<Rightarrow> bytes \<Rightarrow> bool" where
  "raw_ok d b \<longleftrightarrow> compact_run d (SBeginValue, []) b \<noteq> None"

lemma begin_inv: "sinv (SBeginValue, [])" "srel SBeginValue SBeginValue []"
  by (simp_all add: sinv_def srel_def)

theorem compact_idem:
  "compact_run d (SBeginValue, []) b = Some out \<Longrightarrow> compact_run d (SBeginValue, []) out = Some out"
  using compact_settled [OF _ begin_inv] by (simp add: settled_def)

theorem compact_completes:
  assumes "compact_run d (SBeginValue, []) b = Some out"
  shows "completes d out"
  using compact_settled [OF assms begin_inv] compact_head [OF assms]
  by (simp add: completes_def settled_def embeds_def lift_st_def)

lemma push_mono: "push_state d p op s ps = Some r \<Longrightarrow> d \<le> e \<Longrightarrow> push_state e p op s ps = Some r"
  by (simp add: push_state_def split: if_split_asm)

lemma begin_value_mono:
  assumes "step_begin_value d ps c = Some r" "d \<le> e"
  shows "step_begin_value e ps c = Some r"
proof (cases "json_ws c \<or> (c \<noteq> CHR ''{'' \<and> c \<noteq> CHR ''['')")
  case True
  then have "step_begin_value e ps c = step_begin_value d ps c"
    unfolding step_begin_value_def by (elim disjE conjE) simp_all
  with assms show ?thesis by simp
next
  case False
  then show ?thesis
    using assms(1) push_mono [OF _ assms(2)] unfolding step_begin_value_def by (cases "c = CHR ''{''") simp_all
qed

lemma step_mono:
  assumes "step_char d st c = Some r" "d \<le> e"
  shows "step_char e st c = Some r"
proof -
  obtain s ps where st: "st = (s, ps)" by (cases st)
  show ?thesis
  proof (cases "s = SBeginValue \<or> s = SBeginValueOrEmpty")
    case True
    then show ?thesis
      using assms(1) st begin_value_mono [OF _ assms(2), of ps c r] by (auto split: if_split_asm)
  next
    case False
    then have "step_char e (s, ps) c = step_char d (s, ps) c" by (cases s) simp_all
    with assms st show ?thesis by simp
  qed
qed

lemma run_mono: "run d st b = Some r \<Longrightarrow> d \<le> e \<Longrightarrow> run e st b = Some r"
proof (induction b arbitrary: st)
  case (Cons c b)
  then obtain op st' where st: "step_char d st c = Some (op, st')" "run d st' b = Some r"
    by (auto split: option.splits)
  with Cons show ?case using step_mono [OF st(1)] by simp
qed simp

lemma eof_mono:
  assumes "scan_eof d st" "d \<le> e"
  shows "scan_eof e st"
proof (cases "fst st = SEndTop")
  case False
  then obtain op ps where "step_char d st SP = Some (op, SEndTop, ps)"
    using assms(1) by (auto simp: scan_eof_def split: option.splits)
  from step_mono [OF this assms(2)] show ?thesis by (simp add: scan_eof_def)
qed (simp add: scan_eof_def)

lemma compact_mono: "compact_run d st b = Some r \<Longrightarrow> d \<le> e \<Longrightarrow> compact_run e st b = Some r"
proof (induction d st b arbitrary: r rule: compact_run.induct)
  case (1 lim st)
  then show ?case by (auto split: if_splits dest: eof_mono)
next
  case (2 lim st c cs)
  then obtain op st' where st: "step_char lim st c = Some (op, st')" by (auto split: option.splits)
  then have st2: "step_char e st c = Some (op, st')" using step_mono [OF st] 2 by simp
  show ?case
  proof (cases "line_sep (c # cs) \<and> op \<noteq> OpSkipSpace \<and> \<not> html_special c")
    case True
    with 2 st obtain st'' r' where r': "run lim st' (take 2 cs) = Some st''" 
      "compact_run lim st'' (drop 2 cs) = Some r'" "r = u202 (c # cs) @ r'" by (auto split: option.splits)
    have "compact_run e st'' (drop 2 cs) = Some r'"
      using "2.IH"(3) [OF st refl _ _ _ r'(1,2)] True "2.prems"(2) by simp
    with True r' st2 run_mono [OF r'(1) "2.prems"(2)] show ?thesis by simp
  next
    case False
    obtain a b where "st' = (a, b)" by (cases st')
    with False 2 st st2 show ?thesis by (auto split: if_splits)
  qed
qed

lemma raw_ok_compact:
  assumes "raw_ok d b" "d \<le> max_nesting"
  obtains out where "json_compact b = Some out" "json_compact out = Some out" "completes d out" "raw_ok d out"
proof -
  obtain out where o: "compact_run d (SBeginValue, []) b = Some out" using assms(1) by (auto simp: raw_ok_def)
  show ?thesis
    using that [of out] o compact_idem [OF o] compact_completes [OF o] compact_mono [OF _ assms(2)]
    by (auto simp: json_compact_def raw_ok_def)
qed

end
