(* ===== verification/Go_Time.thy ===== *)
theory Go_Time
  imports Go_Prelude
begin

text \<open>
  Package \<open>time\<close>: an instant is a number of nanoseconds since the Unix epoch together with
  the offset in seconds of the zone it is shown in.  The theory models the civil calendar, the
  layouts \<open>time.RFC3339Nano\<close>, \<open>time.RFC3339\<close> and \<open>2006-01-02\<close> as the sources use
  them, \<open>time.Parse\<close> for RFC 3339 with the leniency it has (one-digit hours, a comma before the
  fraction, offsets up to 24:60), and shows that parsing what was formatted gives the instant and
  the offset back.
\<close>

record gtime =
  t_ns :: int
  t_off :: int

definition nano :: int where "nano = 1000000000"

definition time_utc :: "int \<Rightarrow> gtime" where
  "time_utc ns = \<lparr> t_ns = ns, t_off = 0 \<rparr>"

text \<open>The zero \<open>Time\<close> is the first of January of year 1, UTC.\<close>

definition zero_time :: gtime where
  "zero_time = \<lparr> t_ns = - 62135596800 * nano, t_off = 0 \<rparr>"

definition is_zero_time :: "gtime \<Rightarrow> bool" where
  "is_zero_time t \<longleftrightarrow> t_ns t = t_ns zero_time"

definition time_after :: "gtime \<Rightarrow> gtime \<Rightarrow> bool" where
  "time_after a b \<longleftrightarrow> t_ns b < t_ns a"

definition time_before :: "gtime \<Rightarrow> gtime \<Rightarrow> bool" where
  "time_before a b \<longleftrightarrow> t_ns a < t_ns b"

definition to_utc :: "gtime \<Rightarrow> gtime" where
  "to_utc t = t\<lparr>t_off := 0\<rparr>"

definition time_add :: "gtime \<Rightarrow> int \<Rightarrow> gtime" where
  "time_add t d = t\<lparr>t_ns := t_ns t + d\<rparr>"

section \<open>The civil calendar\<close>

text \<open>Years are counted from March, in eras of 400 years: \<open>cent\<close>, \<open>quad\<close> and
  \<open>single\<close> are the full centuries, four-year cycles and years within the era, cut back on the
  extra day that the last of them has.\<close>

definition cent :: "int \<Rightarrow> int" where
  "cent doe = doe div 36524 - doe div 36524 div 4"

definition quad :: "int \<Rightarrow> int" where
  "quad r = r div 1461"

definition single :: "int \<Rightarrow> int" where
  "single r = r div 365 - r div 365 div 4"

definition civil_from_days :: "int \<Rightarrow> int \<times> int \<times> int" where
  "civil_from_days n =
     (let z = n + 719468;
          era = z div 146097;
          doe = z mod 146097;
          c = cent doe;
          r1 = doe - 36524 * c;
          q = quad r1;
          r2 = r1 - 1461 * q;
          a = single r2;
          doy = r2 - 365 * a;
          mp = (5 * doy + 2) div 153;
          d = doy - (153 * mp + 2) div 5 + 1;
          m = (if mp < 10 then mp + 3 else mp - 9);
          y = era * 400 + 100 * c + 4 * q + a
      in (if m \<le> 2 then y + 1 else y, m, d))"

definition days_from_civil :: "int \<Rightarrow> int \<Rightarrow> int \<Rightarrow> int" where
  "days_from_civil y0 m d =
     (let y = (if m \<le> 2 then y0 - 1 else y0);
          era = y div 400;
          yoe = y mod 400;
          mp = (if m > 2 then m - 3 else m + 9);
          doy = (153 * mp + 2) div 5 + d - 1;
          doe = yoe * 365 + yoe div 4 - yoe div 100 + doy
      in era * 146097 + doe - 719468)"

lemma cent_bounds:
  assumes "0 \<le> doe" "doe < 146097"
  shows "0 \<le> cent doe \<and> cent doe \<le> 3 \<and> 0 \<le> doe - 36524 * cent doe \<and> doe - 36524 * cent doe \<le> 36524
     \<and> (doe - 36524 * cent doe = 36524 \<longrightarrow> cent doe = 3)"
proof -
  define n where "n = doe div 36524"
  have n: "0 \<le> n" "n \<le> 4" "36524 * n \<le> doe" "doe < 36524 * n + 36524"
    using assms unfolding n_def by linarith+
  have "cent doe = (if n = 4 then 3 else n)"
    using n(1,2) unfolding cent_def n_def [symmetric] by (auto simp: zdiv_eq_0_iff)
  with n assms show ?thesis by (auto split: if_splits)
qed

lemma quad_bounds:
  assumes "0 \<le> r" "r \<le> 36524"
  shows "0 \<le> quad r \<and> quad r \<le> 24 \<and> 0 \<le> r - 1461 * quad r \<and> r - 1461 * quad r \<le> 1460"
proof -
  define n where "n = r div 1461"
  have "0 \<le> n" "1461 * n \<le> r" "r < 1461 * n + 1461" using assms unfolding n_def by linarith+
  with assms show ?thesis unfolding quad_def n_def [symmetric] by linarith
qed

lemma single_bounds:
  assumes "0 \<le> r" "r \<le> 1460"
  shows "0 \<le> single r \<and> single r \<le> 3 \<and> 0 \<le> r - 365 * single r \<and> r - 365 * single r \<le> 365
     \<and> (r - 365 * single r = 365 \<longrightarrow> single r = 3)"
proof -
  define n where "n = r div 365"
  have n: "0 \<le> n" "n \<le> 4" "365 * n \<le> r" "r < 365 * n + 365"
    using assms unfolding n_def by linarith+
  have "single r = (if n = 4 then 3 else n)"
    using n(1,2) unfolding single_def n_def [symmetric] by (auto simp: zdiv_eq_0_iff)
  with n assms show ?thesis by (auto split: if_splits)
qed

lemma yoe_split:
  fixes c q a era y :: int
  assumes "0 \<le> c" "c \<le> 3" "0 \<le> q" "q \<le> 24" "0 \<le> a" "a \<le> 3"
    and y: "y = era * 400 + 100 * c + 4 * q + a"
  shows "y div 400 = era" "y mod 400 = 100 * c + 4 * q + a"
    "(100 * c + 4 * q + a) div 4 = 25 * c + q" "(100 * c + 4 * q + a) div 100 = c"
proof -
  have r: "0 \<le> 100 * c + 4 * q + a" "100 * c + 4 * q + a < 400" using assms by linarith+
  have y': "y = (100 * c + 4 * q + a) + era * 400" by (simp add: y)
  have "(100 * c + 4 * q + a) div 400 = 0" "(100 * c + 4 * q + a) mod 400 = 100 * c + 4 * q + a"
    using r by simp_all
  then show "y div 400 = era" "y mod 400 = 100 * c + 4 * q + a" unfolding y' by simp_all
  show "(100 * c + 4 * q + a) div 4 = 25 * c + q" using assms by linarith
  show "(100 * c + 4 * q + a) div 100 = c" using assms by linarith
qed

text \<open>The month and day of a civil date are those of the calendar.\<close>

lemma month_bounds:
  fixes doy :: int
  assumes "0 \<le> doy" "doy \<le> 365"
  defines "mp \<equiv> (5 * doy + 2) div 153"
  shows "0 \<le> mp \<and> mp \<le> 11 \<and> 1 \<le> doy - (153 * mp + 2) div 5 + 1 \<and> doy - (153 * mp + 2) div 5 + 1 \<le> 31"
proof -
  define u where "u = (153 * mp + 2) div 5"
  have "153 * mp \<le> 5 * doy + 2" "5 * doy + 2 < 153 * mp + 153" unfolding mp_def by linarith+
  moreover have "5 * u \<le> 153 * mp + 2" "153 * mp + 2 < 5 * u + 5" unfolding u_def by linarith+
  ultimately show ?thesis using assms(1,2) unfolding u_def [symmetric] by linarith
qed

definition is_leap :: "int \<Rightarrow> bool" where
  "is_leap y \<longleftrightarrow> y mod 4 = 0 \<and> (y mod 100 \<noteq> 0 \<or> y mod 400 = 0)"

definition days_in :: "int \<Rightarrow> int \<Rightarrow> int" where
  "days_in m y =
     (if m = 2 then (if is_leap y then 29 else 28)
      else if m = 4 \<or> m = 6 \<or> m = 9 \<or> m = 11 then 30 else 31)"

lemma month_length:
  fixes doy :: int
  assumes "0 \<le> doy" "doy \<le> 365"
  defines "mp \<equiv> (5 * doy + 2) div 153"
  defines "d \<equiv> doy - (153 * mp + 2) div 5 + 1"
  defines "m \<equiv> (if mp < 10 then mp + 3 else mp - 9)"
  shows "m = 2 \<or> d \<le> days_in m y" "m = 2 \<longleftrightarrow> mp = 11" "mp = 11 \<Longrightarrow> d = doy - 336"
proof -
  have mp: "0 \<le> mp" "mp \<le> 11" using month_bounds [OF assms(1,2)] unfolding mp_def by auto
  have up: "5 * doy + 2 < 153 * mp + 153" unfolding mp_def by linarith
  have "mp = 0 \<or> mp = 1 \<or> mp = 2 \<or> mp = 3 \<or> mp = 4 \<or> mp = 5 \<or> mp = 6 \<or> mp = 7 \<or> mp = 8 \<or> mp = 9 \<or> mp = 10 \<or> mp = 11"
    using mp by presburger
  then show "m = 2 \<or> d \<le> days_in m y" "m = 2 \<longleftrightarrow> mp = 11" "mp = 11 \<Longrightarrow> d = doy - 336"
    using up unfolding m_def d_def by (elim disjE; simp add: days_in_def)+
qed

theorem days_civil_roundtrip:
  assumes "civil_from_days n = (y, m, d)"
  shows "days_from_civil y m d = n" "1 \<le> m \<and> m \<le> 12" "1 \<le> d \<and> d \<le> 31" "d \<le> days_in m y"
proof -
  define z where "z = n + 719468"
  define era where "era = z div 146097"
  define doe where "doe = z mod 146097"
  define c where "c = cent doe"
  define r1 where "r1 = doe - 36524 * c"
  define q where "q = quad r1"
  define r2 where "r2 = r1 - 1461 * q"
  define a where "a = single r2"
  define doy where "doy = r2 - 365 * a"
  define mp where "mp = (5 * doy + 2) div 153"
  define y0 where "y0 = era * 400 + 100 * c + 4 * q + a"
  have doe: "0 \<le> doe" "doe < 146097" unfolding doe_def by simp_all
  have c: "0 \<le> c" "c \<le> 3" "0 \<le> r1" "r1 \<le> 36524" using cent_bounds [OF doe] unfolding c_def r1_def by auto
  have q: "0 \<le> q" "q \<le> 24" "0 \<le> r2" "r2 \<le> 1460" using quad_bounds [OF c(3,4)] unfolding q_def r2_def by auto
  have a: "0 \<le> a" "a \<le> 3" "0 \<le> doy" "doy \<le> 365" using single_bounds [OF q(3,4)] unfolding a_def doy_def by auto
  have mp: "0 \<le> mp" "mp \<le> 11" "1 \<le> doy - (153 * mp + 2) div 5 + 1" "doy - (153 * mp + 2) div 5 + 1 \<le> 31"
    using month_bounds [OF a(3,4)] unfolding mp_def by auto
  have eq: "d = doy - (153 * mp + 2) div 5 + 1" "m = (if mp < 10 then mp + 3 else mp - 9)"
    "y = (if m \<le> 2 then y0 + 1 else y0)"
    using assms
    unfolding civil_from_days_def Let_def z_def [symmetric] era_def [symmetric] doe_def [symmetric]
      c_def [symmetric] r1_def [symmetric] q_def [symmetric] r2_def [symmetric] a_def [symmetric]
      doy_def [symmetric] mp_def [symmetric] y0_def [symmetric] by auto
  show "1 \<le> m \<and> m \<le> 12" "1 \<le> d \<and> d \<le> 31" using eq mp by auto
  show "d \<le> days_in m y"
  proof (cases "m = 2")
    case False
    then show ?thesis
      using month_length(1) [OF a(3,4), of y] eq(1,2) unfolding mp_def by auto
  next
    case True
    then have "mp = 11" using eq(2) mp by (auto split: if_splits)
    then have d: "d = doy - 336" using month_length(3) [OF a(3,4)] eq(1) unfolding mp_def by simp
    have "is_leap y" if "doy = 365"
    proof -
      have a3: "a = 3" using that single_bounds [OF q(3,4)] unfolding doy_def a_def by simp
      then have r2: "r2 = 1460" using that unfolding doy_def by simp
      have y: "y = era * 400 + 100 * c + 4 * (q + 1)" using eq(3) True a3 unfolding y0_def by simp
      show ?thesis
      proof (cases "q = 24")
        case True
        then have "r1 = 36524" using r2 unfolding r2_def by simp
        then have "c = 3" using cent_bounds [OF doe] unfolding r1_def c_def by simp
        with True have "y = (era + 1) * 400" using y by simp
        then show ?thesis by (simp add: is_leap_def)
      next
        case False
        then have "0 < 4 * (q + 1)" "4 * (q + 1) < 100" using q(1,2) by auto
        then have "(4 * (q + 1)) mod 100 \<noteq> 0" by simp
        moreover have "y = 4 * (q + 1) + 100 * (4 * era + c)" using y by simp
        then have "y mod 100 = (4 * (q + 1)) mod 100" by (metis mod_mult_self2)
        moreover have "y mod 4 = 0" using y by simp
        ultimately show ?thesis by (simp add: is_leap_def)
      qed
    qed
    then show ?thesis using d a(4) True by (cases "doy = 365") (auto simp: days_in_def)
  qed
  have y: "(if m \<le> 2 then y - 1 else y) = y0" and mm: "(if m > 2 then m - 3 else m + 9) = mp"
    using eq mp by auto
  note split = yoe_split [OF c(1,2) q(1,2) a(1,2) y0_def]
  have "era * 146097 + doe = z" unfolding era_def doe_def by simp
  moreover have "doe = 36524 * c + 1461 * q + 365 * a + doy" unfolding doy_def r2_def r1_def by simp
  moreover have "(153 * mp + 2) div 5 + d - 1 = doy" using eq(1) by simp
  ultimately show "days_from_civil y m d = n"
    unfolding days_from_civil_def Let_def y mm split by (simp add: z_def algebra_simps)
qed

section \<open>Formatting\<close>

fun pad :: "nat \<Rightarrow> nat \<Rightarrow> string" where
  "pad 0 n = []"
| "pad (Suc k) n = pad k (n div 10) @ [digit_char (n mod 10)]"

definition year_str :: "int \<Rightarrow> string" where
  "year_str y =
     (let p = (\<lambda>n. if n < 10000 then pad 4 n else nat_str n)
      in if y < 0 then CHR ''-'' # p (nat (- y)) else p (nat y))"

definition date_str :: "int \<times> int \<times> int \<Rightarrow> string" where
  "date_str ymd = (case ymd of (y, m, d) \<Rightarrow> year_str y @ ''-'' @ pad 2 (nat m) @ ''-'' @ pad 2 (nat d))"

definition clock_str :: "int \<Rightarrow> string" where
  "clock_str sod = pad 2 (nat (sod div 3600)) @ '':'' @ pad 2 (nat (sod div 60 mod 60)) @ '':'' @ pad 2 (nat (sod mod 60))"

definition strip_zeros :: "string \<Rightarrow> string" where
  "strip_zeros s = rev (dropWhile (\<lambda>c. c = CHR ''0'') (rev s))"

definition frac_str :: "int \<Rightarrow> string" where
  "frac_str n = (if n = 0 then [] else CHR ''.'' # strip_zeros (pad 9 (nat n)))"

definition zone_str :: "int \<Rightarrow> string" where
  "zone_str off =
     (if off = 0 then ''Z''
      else (let mins = \<bar>off\<bar> div 60
            in (if off < 0 then CHR ''-'' else CHR ''+'') # pad 2 (nat (mins div 60)) @ '':'' @ pad 2 (nat (mins mod 60))))"

definition local_secs :: "gtime \<Rightarrow> int" where
  "local_secs t = t_ns t div nano + t_off t"

definition format_with :: "bool \<Rightarrow> gtime \<Rightarrow> string" where
  "format_with fraction t =
     date_str (civil_from_days (local_secs t div 86400)) @ ''T'' @ clock_str (local_secs t mod 86400)
     @ (if fraction then frac_str (t_ns t mod nano) else []) @ zone_str (t_off t)"

abbreviation format_rfc3339nano :: "gtime \<Rightarrow> string" where
  "format_rfc3339nano \<equiv> format_with True"

abbreviation format_rfc3339 :: "gtime \<Rightarrow> string" where
  "format_rfc3339 \<equiv> format_with False"

text \<open>\<open>t.Format("2006-01-02")\<close>.\<close>

definition format_date :: "gtime \<Rightarrow> string" where
  "format_date t = date_str (civil_from_days (local_secs t div 86400))"

definition time_year :: "gtime \<Rightarrow> int" where
  "time_year t = fst (civil_from_days (local_secs t div 86400))"

section \<open>Parsing\<close>

definition digits_n :: "nat \<Rightarrow> string \<Rightarrow> (int \<times> string) option" where
  "digits_n k s = (if k \<le> length s \<and> list_all is_digit (take k s)
                   then Some (int (digits_val (take k s)), drop k s) else None)"

definition lit1 :: "char \<Rightarrow> string \<Rightarrow> string option" where
  "lit1 c s = (case s of x # r \<Rightarrow> if x = c then Some r else None | [] \<Rightarrow> None)"

text \<open>The hour may have one digit.\<close>

definition hour_n :: "string \<Rightarrow> (int \<times> string) option" where
  "hour_n s = (case digits_n 2 s of Some r \<Rightarrow> Some r | None \<Rightarrow> digits_n 1 s)"

definition frac_n :: "string \<Rightarrow> int \<times> string" where
  "frac_n s =
     (case s of
        c # d # r \<Rightarrow>
          if (c = CHR ''.'' \<or> c = CHR '','') \<and> is_digit d then
            (let ds = takeWhile is_digit (d # r); ks = take 9 ds
             in (int (digits_val ks) * 10 ^ (9 - length ks), drop (length ds) (d # r)))
          else (0, s)
      | _ \<Rightarrow> (0, s))"

definition zone_n :: "string \<Rightarrow> int option" where
  "zone_n s =
     (if s = ''Z'' then Some 0
      else (case s of
          sign # r \<Rightarrow>
            if sign = CHR ''+'' \<or> sign = CHR ''-'' then
              (case digits_n 2 r of Some (hr, r1) \<Rightarrow>
                 (case lit1 CHR '':'' r1 of Some r2 \<Rightarrow>
                    (case digits_n 2 r2 of Some (mm, r3) \<Rightarrow>
                       if r3 = [] \<and> hr \<le> 24 \<and> mm \<le> 60
                       then Some ((if sign = CHR ''-'' then - 1 else 1) * (hr * 60 + mm) * 60) else None
                     | None \<Rightarrow> None)
                  | None \<Rightarrow> None)
               | None \<Rightarrow> None)
            else None
        | [] \<Rightarrow> None))"

definition parse_date :: "string \<Rightarrow> ((int \<times> int \<times> int) \<times> string) option" where
  "parse_date s =
     (case digits_n 4 s of Some (y, s1) \<Rightarrow>
        (case lit1 CHR ''-'' s1 of Some s2 \<Rightarrow>
           (case digits_n 2 s2 of Some (m, s3) \<Rightarrow>
              (case lit1 CHR ''-'' s3 of Some s4 \<Rightarrow>
                 (case digits_n 2 s4 of Some (d, s5) \<Rightarrow>
                    if 1 \<le> m \<and> m \<le> 12 \<and> 1 \<le> d \<and> d \<le> days_in m y then Some ((y, m, d), s5) else None
                  | None \<Rightarrow> None)
               | None \<Rightarrow> None)
            | None \<Rightarrow> None)
         | None \<Rightarrow> None)
      | None \<Rightarrow> None)"

definition parse_clock :: "string \<Rightarrow> (int \<times> string) option" where
  "parse_clock s =
     (case hour_n s of Some (h, s1) \<Rightarrow>
        (case lit1 CHR '':'' s1 of Some s2 \<Rightarrow>
           (case digits_n 2 s2 of Some (mi, s3) \<Rightarrow>
              (case lit1 CHR '':'' s3 of Some s4 \<Rightarrow>
                 (case digits_n 2 s4 of Some (se, s5) \<Rightarrow>
                    if h < 24 \<and> mi < 60 \<and> se < 60 then Some (h * 3600 + mi * 60 + se, s5) else None
                  | None \<Rightarrow> None)
               | None \<Rightarrow> None)
            | None \<Rightarrow> None)
         | None \<Rightarrow> None)
      | None \<Rightarrow> None)"

definition parse_rfc3339 :: "string \<Rightarrow> gtime option" where
  "parse_rfc3339 s =
     (case parse_date s of
        None \<Rightarrow> None
      | Some ((y, m, d), s1) \<Rightarrow>
          (case lit1 CHR ''T'' s1 of
             None \<Rightarrow> None
           | Some s2 \<Rightarrow>
               (case parse_clock s2 of
                  None \<Rightarrow> None
                | Some (sod, s3) \<Rightarrow>
                    (case frac_n s3 of (ns, s4) \<Rightarrow>
                       (case zone_n s4 of
                          None \<Rightarrow> None
                        | Some off \<Rightarrow>
                            Some \<lparr> t_ns = (days_from_civil y m d * 86400 + sod - off) * nano + ns, t_off = off \<rparr>)))))"

section \<open>Round trip\<close>

lemma digits_val_pad: "digits_val (pad k n) = n mod 10 ^ k"
proof (induction k arbitrary: n)
  case (Suc k)
  have "n mod 10 ^ Suc k = 10 * (n div 10 mod 10 ^ k) + n mod 10"
    by (metis mod_mult2_eq power_Suc add.commute)
  with Suc show ?case by (simp add: digits_val_snoc digit_char_byte)
qed (simp add: digits_val_def)

lemma pad_length [simp]: "length (pad k n) = k"
  by (induction k arbitrary: n) auto

lemma pad_digits: "list_all is_digit (pad k n)"
  by (induction k arbitrary: n) (auto simp: is_digit_digit_char)

lemma digits_n_pad: "n < 10 ^ k \<Longrightarrow> digits_n k (pad k n @ r) = Some (int n, r)"
  by (simp add: digits_n_def pad_digits digits_val_pad)

lemma digits_n_pad_int: "0 \<le> i \<Longrightarrow> i < 10 ^ k \<Longrightarrow> digits_n k (pad k (nat i) @ r) = Some (i, r)"
  using digits_n_pad [of "nat i" k r] by (simp add: nat_less_iff)

lemma lit1_Cons [simp]: "lit1 c (c # r) = Some r"
  by (simp add: lit1_def)

lemma parse_date_str:
  assumes "civil_from_days n = (y, m, d)" "0 \<le> y" "y \<le> 9999"
  shows "parse_date (date_str (civil_from_days n) @ r) = Some ((y, m, d), r)"
proof -
  note c = days_civil_roundtrip [OF assms(1)]
  have "nat y < 10000" using assms(2,3) by linarith
  then have y: "year_str y = pad 4 (nat y)" using assms(2) by (simp add: year_str_def Let_def)
  have "digits_n 4 (pad 4 (nat y) @ t) = Some (y, t)" for t using assms by (intro digits_n_pad_int) auto
  moreover have "digits_n 2 (pad 2 (nat m) @ t) = Some (m, t)" for t using c by (intro digits_n_pad_int) auto
  moreover have "digits_n 2 (pad 2 (nat d) @ t) = Some (d, t)" for t using c by (intro digits_n_pad_int) auto
  ultimately show ?thesis
    using c unfolding assms(1) by (simp add: date_str_def y parse_date_def)
qed

lemma parse_clock_str:
  assumes "0 \<le> sod" "sod < 86400"
  shows "parse_clock (clock_str sod @ r) = Some (sod, r)"
proof -
  have h: "digits_n 2 (pad 2 (nat (sod div 3600)) @ t) = Some (sod div 3600, t)" for t
    using assms by (intro digits_n_pad_int) auto
  have mi: "digits_n 2 (pad 2 (nat (sod div 60 mod 60)) @ t) = Some (sod div 60 mod 60, t)" for t
  proof (rule digits_n_pad_int)
    have "sod div 60 mod 60 < 60" by simp
    then show "sod div 60 mod 60 < 10 ^ 2" unfolding power2_eq_square by linarith
  qed simp
  have se: "digits_n 2 (pad 2 (nat (sod mod 60)) @ t) = Some (sod mod 60, t)" for t
  proof (rule digits_n_pad_int)
    have "sod mod 60 < 60" by simp
    then show "sod mod 60 < 10 ^ 2" unfolding power2_eq_square by linarith
  qed simp
  have "sod div 3600 = sod div 60 div 60" by (simp add: zdiv_zmult2_eq)
  moreover have "sod div 60 = 60 * (sod div 60 div 60) + sod div 60 mod 60" "sod = 60 * (sod div 60) + sod mod 60"
    by simp_all
  ultimately have "sod div 3600 * 3600 + (sod div 60 mod 60) * 60 + sod mod 60 = sod" by linarith
  moreover have "sod div 3600 < 24" using assms by linarith
  ultimately show ?thesis
    by (simp add: clock_str_def parse_clock_def hour_n_def h mi se)
qed

lemma strip_zeros_val:
  "\<exists>k. s = strip_zeros s @ replicate k CHR ''0'' \<and> length s = length (strip_zeros s) + k"
proof (induction s rule: rev_induct)
  case (snoc c s)
  then obtain k where k: "s = strip_zeros s @ replicate k CHR ''0''" "length s = length (strip_zeros s) + k" by blast
  show ?case
  proof (cases "c = CHR ''0''")
    case True
    then have "strip_zeros (s @ [c]) = strip_zeros s" by (simp add: strip_zeros_def)
    moreover have "s @ [c] = strip_zeros s @ replicate (Suc k) CHR ''0''"
      using k(1) True by (metis append.assoc replicate_append_same replicate_Suc)
    ultimately show ?thesis using k(2) by (metis add_Suc_right length_append_singleton)
  next
    case False
    then show ?thesis by (simp add: strip_zeros_def)
  qed
qed (simp add: strip_zeros_def)

lemma digits_val_zeros: "digits_val (s @ replicate k CHR ''0'') = digits_val s * 10 ^ k"
proof (induction k)
  case (Suc k)
  have "s @ replicate (Suc k) CHR ''0'' = (s @ replicate k CHR ''0'') @ [CHR ''0'']"
    by (simp add: replicate_append_same)
  then show ?case using Suc by (simp add: digits_val_snoc byte_def del: append_assoc)
qed simp

lemma frac_n_str:
  assumes "0 \<le> n" "n < nano" "r \<noteq> [] \<and> \<not> is_digit (hd r) \<and> hd r \<noteq> CHR ''.'' \<and> hd r \<noteq> CHR '',''"
  shows "frac_n (frac_str n @ r) = (n, r)"
proof (cases "n = 0")
  case True
  with assms(3) show ?thesis by (auto simp: frac_str_def frac_n_def split: list.splits)
next
  case False
  let ?p = "pad 9 (nat n)"
  obtain k where k: "?p = strip_zeros ?p @ replicate k CHR ''0''" "9 = length (strip_zeros ?p) + k"
    using strip_zeros_val [of ?p] by auto
  have n9: "nat n < 10 ^ 9" using assms by (simp add: nano_def)
  have val: "digits_val (strip_zeros ?p) * 10 ^ k = nat n"
    using digits_val_zeros [of "strip_zeros ?p" k] k(1) digits_val_pad [of 9 "nat n"] n9 by simp
  have dig: "list_all is_digit (strip_zeros ?p)"
    using pad_digits [of 9 "nat n"] k(1) by (metis list_all_append)
  have "strip_zeros ?p \<noteq> []"
  proof
    assume "strip_zeros ?p = []"
    with val have "nat n = 0" by (simp add: digits_val_def)
    with False assms(1) show False by simp
  qed
  then obtain d ds where sz: "strip_zeros ?p = d # ds" by (cases "strip_zeros ?p") auto
  have tw: "takeWhile is_digit (strip_zeros ?p @ r) = strip_zeros ?p"
    using dig assms(3) by (subst takeWhile_append2) (auto simp: list_all_iff, cases r, auto)
  have le: "length (strip_zeros ?p) \<le> 9" and kk: "9 - length (strip_zeros ?p) = k" using k(2) by linarith+
  have "int (digits_val (strip_zeros ?p)) * 10 ^ k = n"
    using val assms(1) by (metis int_nat_eq of_nat_mult of_nat_numeral of_nat_power)
  with tw le kk dig show ?thesis
    by (simp add: frac_str_def False frac_n_def sz Let_def)
qed

lemma zone_n_str:
  assumes "\<bar>off\<bar> < 86400" "off mod 60 = 0"
  shows "zone_n (zone_str off) = Some off"
proof (cases "off = 0")
  case True
  then show ?thesis by (simp add: zone_str_def zone_n_def)
next
  case False
  define mins where "mins = \<bar>off\<bar> div 60"
  have "\<bar>off\<bar> mod 60 = 0" using assms(2) by (auto simp: abs_if zmod_zminus1_eq_if)
  then have off: "\<bar>off\<bar> = 60 * mins" unfolding mins_def by (metis add.right_neutral mult_div_mod_eq)
  have m: "0 \<le> mins" "mins < 1440" using assms(1) off by linarith+
  have h: "digits_n 2 (pad 2 (nat (mins div 60)) @ t) = Some (mins div 60, t)" for t
    using m by (intro digits_n_pad_int) auto
  have mi: "digits_n 2 (pad 2 (nat (mins mod 60))) = Some (mins mod 60, [])"
  proof -
    have "mins mod 60 < 60" by simp
    then show ?thesis using digits_n_pad_int [of "mins mod 60" 2 "[]"] by simp
  qed
  have b: "mins div 60 \<le> 24" "mins mod 60 \<le> 60" using m by linarith+
  have "(mins div 60 * 60 + mins mod 60) * 60 = \<bar>off\<bar>" using off by simp
  then have val: "(if off < 0 then - 1 else 1) * (mins div 60 * 60 + mins mod 60) * 60 = off"
    by (auto simp: abs_if)
  have "zone_str off = (if off < 0 then CHR ''-'' else CHR ''+'') # pad 2 (nat (mins div 60)) @ '':'' @ pad 2 (nat (mins mod 60))"
    using False by (simp add: zone_str_def Let_def mins_def)
  then show ?thesis
    using b val by (simp add: zone_n_def h mi split: if_splits)
qed

definition time_ok :: "gtime \<Rightarrow> bool" where
  "time_ok t \<longleftrightarrow> 0 \<le> time_year t \<and> time_year t \<le> 9999 \<and> \<bar>t_off t\<bar> < 86400 \<and> t_off t mod 60 = 0"

lemma zone_str_head: "zone_str off \<noteq> [] \<and> \<not> is_digit (hd (zone_str off)) \<and> hd (zone_str off) \<noteq> CHR ''.'' \<and> hd (zone_str off) \<noteq> CHR '',''"
  by (auto simp: zone_str_def Let_def is_digit_def byte_def)

theorem parse_format:
  assumes "time_ok t"
  shows "parse_rfc3339 (format_rfc3339nano t) = Some t"
proof -
  obtain y m d where c: "civil_from_days (local_secs t div 86400) = (y, m, d)" by (metis prod_cases3)
  have y: "0 \<le> y" "y \<le> 9999" using assms c by (auto simp: time_ok_def time_year_def)
  have sod: "0 \<le> local_secs t mod 86400" "local_secs t mod 86400 < 86400" by simp_all
  have ns: "0 \<le> t_ns t mod nano" "t_ns t mod nano < nano" by (simp_all add: nano_def)
  have z: "zone_n (zone_str (t_off t)) = Some (t_off t)" using assms by (intro zone_n_str) (auto simp: time_ok_def)
  have "days_from_civil y m d * 86400 + local_secs t mod 86400 = local_secs t"
    using days_civil_roundtrip(1) [OF c] by simp
  then have "(days_from_civil y m d * 86400 + local_secs t mod 86400 - t_off t) * nano + t_ns t mod nano = t_ns t"
    by (simp add: local_secs_def)
  then show ?thesis
    using parse_date_str [OF c y] parse_clock_str [OF sod] frac_n_str [OF ns zone_str_head [of "t_off t"]] z c
    by (simp add: format_with_def parse_rfc3339_def)
qed

text \<open>The rendering has no byte that JSON would escape.\<close>

lemma pad_bytes: "x \<in> set (pad k n) \<Longrightarrow> is_digit x"
  using pad_digits [of k n] by (simp add: list_all_iff)

lemma strip_zeros_subset: "set (strip_zeros s) \<subseteq> set s"
  by (auto simp: strip_zeros_def dest: set_dropWhileD)

lemma year_str_bytes: "x \<in> set (year_str y) \<Longrightarrow> is_digit x \<or> x = CHR ''-''"
  using nat_str_digits [of "nat y"] nat_str_digits [of "nat (- y)"]
  by (auto simp: year_str_def Let_def all_digits_def list_all_iff dest: pad_bytes split: if_splits)

lemma format_bytes:
  "x \<in> set (format_with b t) \<Longrightarrow> is_digit x \<or> x \<in> set [CHR ''-'', CHR ''+'', CHR '':'', CHR ''.'', CHR ''T'', CHR ''Z'']"
  using strip_zeros_subset [of "pad 9 (nat (t_ns t mod nano))"]
  by (auto simp: format_with_def date_str_def clock_str_def frac_str_def zone_str_def Let_def
      dest!: pad_bytes year_str_bytes split: if_splits prod.splits)

end
