(* ===== verification/Go_Decode.thy ===== *)
theory Go_Decode
  imports Go_Compact Go_Time
begin

text \<open>
  Decoding of a JSON text into a Go value as \<open>json.Unmarshal\<close> does it: the members of an
  object with their keys unquoted, matched to struct fields by name without regard to case,
  unknown members ignored, the last member of a name winning, \<open>null\<close> leaving a field alone
  and a value of the wrong type an error.  The lemmas give the members of what the printers of
  \<open>Go_Json\<close> wrote, so that a record type only has to say which fields it has.
\<close>

section \<open>Decoding\<close>

datatype json_err = JSyntax | JType

text \<open>The case folding of \<open>encoding/json\<close>: ASCII letters, and the two runes outside ASCII
  that fold to one, the Kelvin sign and the long s.\<close>

definition fold_byte :: "char \<Rightarrow> nat" where
  "fold_byte c = (if 97 \<le> byte c \<and> byte c \<le> 122 then byte c - 32 else byte c)"

fun fold_key :: "bytes \<Rightarrow> nat list" where
  "fold_key (a # b # c # r) =
     (if byte a = 0xE2 \<and> byte b = 0x84 \<and> byte c = 0xAA then 75 # fold_key r
      else if byte a = 0xC5 \<and> byte b = 0xBF then 83 # fold_key (c # r)
      else fold_byte a # fold_key (b # c # r))"
| "fold_key [a, b] = (if byte a = 0xC5 \<and> byte b = 0xBF then [83] else fold_byte a # fold_key [b])"
| "fold_key [a] = [fold_byte a]"
| "fold_key [] = []"

definition json_key :: "bytes \<Rightarrow> bytes" where
  "json_key k = (case json_unquote k of Some s \<Rightarrow> s | None \<Rightarrow> k)"

type_synonym members = "(bytes \<times> bytes) list"

definition json_members :: "bytes \<Rightarrow> (json_err, members) result" where
  "json_members s =
     (case json_parts s of
        None \<Rightarrow> err JSyntax
      | Some ps \<Rightarrow>
          (case trim_ws s of
             c # _ \<Rightarrow> if c = CHR ''{'' then ok (map (\<lambda>(k, v). (json_key k, v)) (pair_up ps))
                      else if c = CHR ''n'' then ok [] else err JType
           | [] \<Rightarrow> err JSyntax))"

definition json_elems :: "bytes \<Rightarrow> (json_err, bytes list) result" where
  "json_elems s =
     (case json_parts s of
        None \<Rightarrow> err JSyntax
      | Some ps \<Rightarrow>
          (case trim_ws s of
             c # _ \<Rightarrow> if c = CHR ''['' then ok ps else if c = CHR ''n'' then ok [] else err JType
           | [] \<Rightarrow> err JSyntax))"

definition field_raws :: "members \<Rightarrow> bytes \<Rightarrow> bytes list" where
  "field_raws ms name = map snd (filter (\<lambda>(k, _). fold_key k = fold_key name) ms)"

type_synonym 'a decoder = "bytes \<Rightarrow> 'a \<Rightarrow> (json_err, 'a) result"

fun dec_all :: "'a decoder \<Rightarrow> 'a \<Rightarrow> bytes list \<Rightarrow> (json_err, 'a) result" where
  "dec_all dec z [] = ok z"
| "dec_all dec z (v # vs) = (case dec v z of Inl e \<Rightarrow> err e | Inr y \<Rightarrow> dec_all dec y vs)"

definition get_field :: "'a decoder \<Rightarrow> 'a \<Rightarrow> members \<Rightarrow> bytes \<Rightarrow> (json_err, 'a) result" where
  "get_field dec z ms name = dec_all dec z (field_raws ms name)"

definition dec_string :: "string decoder" where
  "dec_string v z =
     (if v = ''null'' then ok z
      else (case json_unquote v of Some s \<Rightarrow> ok s | None \<Rightarrow> err JType))"

definition dec_int64 :: "int decoder" where
  "dec_int64 v z =
     (if v = ''null'' then ok z
      else (case v of
          c # _ \<Rightarrow> if c = CHR ''-'' \<or> is_digit c then (case parse_int v of Some i \<Rightarrow> ok i | None \<Rightarrow> err JType)
                   else err JType
        | [] \<Rightarrow> err JType))"

definition dec_bool :: "bool decoder" where
  "dec_bool v z =
     (if v = ''null'' then ok z
      else if v = ''true'' then ok True else if v = ''false'' then ok False else err JType)"

definition dec_raw :: "bytes decoder" where
  "dec_raw v z = ok v"

fun map_result :: "('a \<Rightarrow> ('e, 'b) result) \<Rightarrow> 'a list \<Rightarrow> ('e, 'b list) result" where
  "map_result f [] = ok []"
| "map_result f (x # xs) =
     (case f x of Inl e \<Rightarrow> err e
      | Inr y \<Rightarrow> (case map_result f xs of Inl e \<Rightarrow> err e | Inr ys \<Rightarrow> ok (y # ys)))"

definition dec_string_list :: "string list decoder" where
  "dec_string_list v z =
     (if v = ''null'' then ok []
      else (case json_elems v of Inl e \<Rightarrow> err e | Inr vs \<Rightarrow> map_result (\<lambda>x. dec_string x []) vs))"

text \<open>\<open>time.Time\<close> decodes its raw text itself: no unescaping, \<open>null\<close> ignored.\<close>

definition dec_time :: "gtime decoder" where
  "dec_time v z =
     (if v = ''null'' then ok z
      else if 2 \<le> length v \<and> hd v = DQ \<and> last v = DQ then
        (case parse_rfc3339 (butlast (tl v)) of Some t \<Rightarrow> ok t | None \<Rightarrow> err JType)
      else err JType)"

section \<open>Encoding helpers\<close>

text \<open>\<open>Time.MarshalJSON\<close> refuses years outside 0 to 9999 and offsets of a day or more.\<close>

definition time_json_ok :: "gtime \<Rightarrow> bool" where
  "time_json_ok t \<longleftrightarrow> 0 \<le> time_year t \<and> time_year t \<le> 9999 \<and> \<bar>t_off t\<bar> div 3600 < 24"

abbreviation JTime :: "gtime \<Rightarrow> jtree" where
  "JTime t \<equiv> JLit (DQ # format_rfc3339nano t @ [DQ])"

definition omit_str :: "bytes \<Rightarrow> bytes \<Rightarrow> (bytes \<times> jtree) list" where
  "omit_str name s = (if s = [] then [] else [(name, JStr s)])"

definition omit_int :: "bytes \<Rightarrow> int \<Rightarrow> (bytes \<times> jtree) list" where
  "omit_int name i = (if i = 0 then [] else [(name, JInt i)])"

section \<open>What was printed is what is decoded\<close>

fun jcomplete :: "nat \<Rightarrow> jtree \<Rightarrow> bool" where
  "jcomplete d (JLit b) = completes d b"
| "jcomplete d (JArr ts) = (0 < d \<and> list_all (jcomplete (d - 1)) ts)"
| "jcomplete d (JObj kvs) = (0 < d \<and> list_all (\<lambda>kv. jcomplete (d - 1) (snd kv)) kvs)"

lemma jcomplete_mono: "jcomplete d t \<Longrightarrow> d \<le> e \<Longrightarrow> jcomplete e t"
proof (induction d t arbitrary: e rule: jcomplete.induct)
  case (1 d b)
  then show ?case by (simp add: completes_mono)
next
  case (2 d ts)
  then have "d - 1 \<le> e - 1" by simp
  with 2 show ?case by (auto simp: list_all_iff)
next
  case (3 d kvs)
  then have "d - 1 \<le> e - 1" by simp
  with 3 show ?case by (auto simp: list_all_iff)
qed

lemma jcomplete_print: "jcomplete d t \<Longrightarrow> completes d (json_print t)"
proof (induction d t rule: jcomplete.induct)
  case (2 d ts)
  then have "completes (Suc (d - 1)) (arr_text [] [] (map json_print ts))"
    by (intro completes_arr) (auto simp: list_all_iff)
  with 2 show ?case unfolding json_print_arr by simp
next
  case (3 d kvs)
  then have "completes (Suc (d - 1)) (obj_text [] [] [] (map (\<lambda>(k, t). (k, json_print t)) kvs))"
    by (intro completes_obj) (auto simp: list_all_iff)
  with 3 show ?case unfolding json_print_obj by simp
qed simp

lemma json_indent_empty: "json_indent n (JArr []) = arr_text [] [] []" "json_indent n (JObj []) = obj_text [] [] [] []"
  by (simp_all add: arr_text_def obj_text_def)

lemma jcomplete_indent: "jcomplete d t \<Longrightarrow> completes d (json_indent n t)"
proof (induction d t arbitrary: n rule: jcomplete.induct)
  case (2 d ts)
  show ?case
  proof (cases "ts = []")
    case True
    have "completes (Suc (d - 1)) (arr_text [] [] [])" by (rule completes_arr) auto
    with True 2 show ?thesis by (simp add: arr_text_def)
  next
    case False
    have "completes (Suc (d - 1)) (arr_text (indent_nl (Suc n)) (indent_nl n) (map (json_indent (Suc n)) ts))"
      using 2 by (intro completes_arr) (auto simp: list_all_iff)
    with 2 False show ?thesis unfolding json_indent_arr [OF False] by simp
  qed
next
  case (3 d kvs)
  show ?case
  proof (cases "kvs = []")
    case True
    have "completes (Suc (d - 1)) (obj_text [] [] [] [])" by (rule completes_obj) auto
    with True 3 show ?thesis by (simp add: obj_text_def)
  next
    case False
    have "completes (Suc (d - 1)) (obj_text (indent_nl (Suc n)) '' '' (indent_nl n)
        (map (\<lambda>(k, t). (k, json_indent (Suc n) t)) kvs))"
      using 3 by (intro completes_obj) (auto simp: list_all_iff)
    with 3 False show ?thesis unfolding json_indent_obj [OF False] by simp
  qed
qed simp

lemma jcomplete_str [simp]: "jcomplete d (JStr s)" "jcomplete d (JInt i)" "jcomplete d (JBool b)"
  by (simp_all add: JBool_def)

lemma trim_ws_obj: "\<exists>r. trim_ws (obj_text w1 w2 w3 kvs) = CHR ''{'' # r"
  using trim_ws_around [of "[]" "[]" "obj_text w1 w2 w3 kvs"] by (simp add: obj_text_def)

lemma trim_ws_arr: "\<exists>r. trim_ws (arr_text w1 w3 vs) = CHR ''['' # r"
  using trim_ws_around [of "[]" "[]" "arr_text w1 w3 vs"] by (simp add: arr_text_def)

lemma json_key_quote [simp]: "json_key (json_quote k) = coerce k"
  by (simp add: json_key_def json_unquote_quote)

lemma members_obj_text:
  assumes "\<And>k v. (k, v) \<in> set kvs \<Longrightarrow> completes d v" "Suc d \<le> max_nesting"
    "all_ws w1" "all_ws w2" "all_ws w3"
  shows "json_members (obj_text w1 w2 w3 kvs) = ok (map (\<lambda>(k, v). (coerce k, v)) kvs)"
  using json_parts_obj [OF assms] trim_ws_obj [of w1 w2 w3 kvs]
  by (auto simp: json_members_def pair_up_flat)

lemma elems_arr_text:
  assumes "\<And>v. v \<in> set vs \<Longrightarrow> completes d v" "Suc d \<le> max_nesting" "all_ws w1" "all_ws w3"
  shows "json_elems (arr_text w1 w3 vs) = ok vs"
  using json_parts_arr [OF assms] trim_ws_arr [of w1 w3 vs] by (auto simp: json_elems_def)

theorem json_members_print:
  assumes "list_all (\<lambda>kv. jcomplete d (snd kv)) kvs" "Suc d \<le> max_nesting"
  shows "json_members (json_print (JObj kvs)) = ok (map (\<lambda>(k, t). (coerce k, json_print t)) kvs)"
proof -
  let ?k = "map (\<lambda>(k, t). (k, json_print t)) kvs"
  have "json_members (obj_text [] [] [] ?k) = ok (map (\<lambda>(k, v). (coerce k, v)) ?k)"
    using assms(1) jcomplete_print
    by (intro members_obj_text [OF _ assms(2)]) (fastforce simp: list_all_iff)+
  then show ?thesis
    unfolding json_print_obj by (simp add: comp_def case_prod_unfold)
qed

theorem json_members_indent:
  assumes "list_all (\<lambda>kv. jcomplete d (snd kv)) kvs" "Suc d \<le> max_nesting" "kvs \<noteq> []"
  shows "json_members (json_indent n (JObj kvs)) = ok (map (\<lambda>(k, t). (coerce k, json_indent (Suc n) t)) kvs)"
proof -
  let ?k = "map (\<lambda>(k, t). (k, json_indent (Suc n) t)) kvs"
  have "json_members (obj_text (indent_nl (Suc n)) '' '' (indent_nl n) ?k) = ok (map (\<lambda>(k, v). (coerce k, v)) ?k)"
    using assms(1) jcomplete_indent
    by (intro members_obj_text [OF _ assms(2)]) (fastforce simp: list_all_iff)+
  then show ?thesis
    unfolding json_indent_obj [OF assms(3)] by (simp add: comp_def case_prod_unfold)
qed

subsection \<open>Fields\<close>

lemma field_raws_append [simp]: "field_raws (a @ b) name = field_raws a name @ field_raws b name"
  by (simp add: field_raws_def)

lemma field_raws_Nil [simp]: "field_raws [] name = []"
  by (simp add: field_raws_def)

lemma field_raws_Cons:
  "field_raws ((k, v) # ms) name = (if fold_key k = fold_key name then [v] else []) @ field_raws ms name"
  by (simp add: field_raws_def)

lemma quote_not_null [simp]: "json_quote s \<noteq> ''null''"
  by (simp add: json_quote_def)

lemma dec_string_quote [simp]: "dec_string (json_quote s) z = ok (coerce s)"
  by (simp add: dec_string_def json_unquote_quote)

lemma itoa_not_null [simp]: "itoa i \<noteq> ''null''"
proof
  assume "itoa i = ''null''"
  then have "CHR ''n'' \<in> set (itoa i)" by simp
  from itoa_digits [OF this] show False by (simp add: is_digit_def byte_def)
qed

lemma dec_int64_itoa [simp]: "in_int64 i \<Longrightarrow> dec_int64 (itoa i) z = ok i"
proof -
  assume i: "in_int64 i"
  obtain c r where c: "itoa i = c # r" using nat_str_hd [of "nat i"] by (cases "itoa i") (auto simp: itoa_def split: if_splits)
  then have "is_digit c \<or> c = CHR ''-''" using itoa_digits [of c i] by simp
  with i c show ?thesis
    using parse_int_itoa [OF i] itoa_not_null [of i] by (auto simp: dec_int64_def)
qed

lemma dec_bool_JBool [simp]: "dec_bool (json_print (JBool b)) z = ok b"
  by (simp add: dec_bool_def JBool_def)

lemma map_result_ok: "(\<And>x. x \<in> set xs \<Longrightarrow> f (g x) = ok (h x)) \<Longrightarrow> map_result f (map g xs) = ok (map h xs)"
  by (induction xs) auto

text \<open>Evaluation of the members that a printer wrote, for literal keys.\<close>

lemma coerce_ascii: "list_all (\<lambda>c. byte c < 128) s \<Longrightarrow> coerce s = s"
  using valid_utf8_ascii [of s] by (simp add: list_all_iff valid_utf8_def)

definition printed :: "(bytes \<times> jtree) list \<Rightarrow> members" where
  "printed kvs = map (\<lambda>(k, t). (k, json_print t)) kvs"

definition indented :: "nat \<Rightarrow> (bytes \<times> jtree) list \<Rightarrow> members" where
  "indented n kvs = map (\<lambda>(k, t). (k, json_indent n t)) kvs"

lemma coerced_keys:
  assumes "list_all (\<lambda>(k, t). list_all (\<lambda>c. byte c < 128) k) kvs"
  shows "map (\<lambda>(k, t). (coerce k, f t)) kvs = map (\<lambda>(k, t). (k, f t)) kvs"
  using assms by (auto simp: list_all_iff coerce_ascii)

lemma printed_simps:
  "printed [] = []" "printed (a @ b) = printed a @ printed b"
  "printed ((k, t) # kvs) = (k, json_print t) # printed kvs"
  "printed (if c then x else y) = (if c then printed x else printed y)"
  by (simp_all add: printed_def)

lemma indented_simps:
  "indented n [] = []" "indented n (a @ b) = indented n a @ indented n b"
  "indented n ((k, t) # kvs) = (k, json_indent n t) # indented n kvs"
  "indented n (if c then x else y) = (if c then indented n x else indented n y)"
  by (simp_all add: indented_def)

lemma field_raws_if: "field_raws (if b then x else y) name = (if b then field_raws x name else field_raws y name)"
  by simp

lemmas key_eval = field_raws_Cons field_raws_if fold_byte_def byte_def omit_str_def omit_int_def

lemma get_string:
  "field_raws ms name = [json_quote s] \<Longrightarrow> valid_utf8 s \<Longrightarrow> get_field dec_string z ms name = ok s"
  "field_raws ms name = (if s = [] then [] else [json_quote s]) \<Longrightarrow> valid_utf8 s \<Longrightarrow> get_field dec_string [] ms name = ok s"
  by (auto simp: get_field_def valid_utf8_def)

lemma get_int:
  "field_raws ms name = [itoa i] \<Longrightarrow> in_int64 i \<Longrightarrow> get_field dec_int64 z ms name = ok i"
  "field_raws ms name = (if i = 0 then [] else [itoa i]) \<Longrightarrow> in_int64 i \<Longrightarrow> get_field dec_int64 0 ms name = ok i"
  by (auto simp: get_field_def)

lemma get_raw:
  "field_raws ms name = (if b then [] else [d]) \<Longrightarrow> get_field dec_raw [] ms name = ok (if b then [] else d)"
  by (auto simp: get_field_def dec_raw_def)

lemma quote_body_plain:
  "(\<And>x. x \<in> set s \<Longrightarrow> 32 \<le> byte x \<and> byte x < 128 \<and> x \<noteq> DQ \<and> x \<noteq> BSL \<and> \<not> html_special x) \<Longrightarrow> quote_body s = s"
proof (induction s)
  case (Cons c s)
  have c: "32 \<le> byte c" "byte c < 128" "c \<noteq> DQ" "c \<noteq> BSL" "\<not> html_special c" using Cons.prems [of c] by auto
  have "esc_ascii c = [c]" using c by (simp add: esc_ascii_def)
  moreover have "quote_body s = s" using Cons by simp
  ultimately show ?case using c(2) by (simp add: quote_body.simps(2))
qed simp

lemma time_quote: "json_quote (format_with b t) = DQ # format_with b t @ [DQ]"
proof -
  have "quote_body (format_with b t) = format_with b t"
  proof (rule quote_body_plain)
    fix x assume "x \<in> set (format_with b t)"
    from format_bytes [OF this] show "32 \<le> byte x \<and> byte x < 128 \<and> x \<noteq> DQ \<and> x \<noteq> BSL \<and> \<not> html_special x"
      by (auto simp: is_digit_def byte_def html_special_def)
  qed
  then show ?thesis by (simp add: json_quote_def)
qed

lemma completes_time [simp]: "completes d (DQ # format_with b t @ [DQ])"
  using completes_quote [of d "format_with b t"] by (simp add: time_quote)

lemma time_text_not_null [simp]: "DQ # s \<noteq> ''null''"
  by simp

lemma dec_time_text [simp]: "time_ok t \<Longrightarrow> dec_time (DQ # format_rfc3339nano t @ [DQ]) z = ok t"
  by (simp add: dec_time_def parse_format)

lemma get_time:
  "field_raws ms name = [DQ # format_rfc3339nano t @ [DQ]] \<Longrightarrow> time_ok t \<Longrightarrow> get_field dec_time z ms name = ok t"
  by (simp add: get_field_def)

lemma time_ok_json: "time_ok t \<Longrightarrow> time_json_ok t"
  by (auto simp: time_ok_def time_json_ok_def)

subsection \<open>What a decoded field satisfies\<close>

lemma get_field_post:
  assumes "get_field dec z ms name = ok x" "P z" "\<And>v z y. dec v z = ok y \<Longrightarrow> P z \<Longrightarrow> P y"
  shows "P x"
proof -
  have "dec_all dec z vs = ok x \<Longrightarrow> P z \<Longrightarrow> P x" for vs
    using assms(3) by (induction vs arbitrary: z) (auto split: sum.splits)
  with assms(1,2) show ?thesis by (simp add: get_field_def)
qed

lemma dec_string_valid: "dec_string v z = ok y \<Longrightarrow> valid_utf8 z \<Longrightarrow> valid_utf8 y"
  by (auto simp: dec_string_def json_unquote_def dest: unquote_valid split: if_splits option.splits)

lemma dec_int64_range: "dec_int64 v z = ok y \<Longrightarrow> in_int64 z \<Longrightarrow> in_int64 y"
  by (auto simp: dec_int64_def parse_int_def Let_def split: if_splits option.splits list.splits)

lemma zone_n_minutes: "zone_n s = Some off \<Longrightarrow> off mod 60 = 0"
  by (auto simp: zone_n_def split: if_splits list.splits option.splits prod.splits)

lemma parse_rfc3339_minutes: "parse_rfc3339 s = Some t \<Longrightarrow> t_off t mod 60 = 0"
  by (auto simp: parse_rfc3339_def split: option.splits prod.splits dest: zone_n_minutes)

lemma dec_time_minutes: "dec_time v z = ok y \<Longrightarrow> t_off z mod 60 = 0 \<Longrightarrow> t_off y mod 60 = 0"
  by (auto simp: dec_time_def dest: parse_rfc3339_minutes split: if_splits option.splits)

text \<open>The fields of any decoded text, by type.\<close>

lemma got_string: "get_field dec_string z ms name = ok s \<Longrightarrow> valid_utf8 z \<Longrightarrow> valid_utf8 s"
  by (rule get_field_post [where P = valid_utf8]) (auto dest: dec_string_valid)

lemma got_int64: "get_field dec_int64 z ms name = ok i \<Longrightarrow> in_int64 z \<Longrightarrow> in_int64 i"
  by (rule get_field_post [where P = in_int64]) (auto dest: dec_int64_range)

lemma got_time: "get_field dec_time z ms name = ok t \<Longrightarrow> t_off z mod 60 = 0 \<Longrightarrow> t_off t mod 60 = 0"
  by (rule get_field_post [where P = "\<lambda>t. t_off t mod 60 = 0"]) (auto dest: dec_time_minutes)

lemma time_ok_iff: "time_ok t \<longleftrightarrow> time_json_ok t \<and> t_off t mod 60 = 0"
proof -
  have "\<bar>t_off t\<bar> < 86400 \<longleftrightarrow> \<bar>t_off t\<bar> div 3600 < 24" by linarith
  then show ?thesis by (auto simp: time_ok_def time_json_ok_def)
qed

lemma zero_time_ok [simp]: "time_ok zero_time"
proof -
  have "civil_from_days (- 719162) = (1, 1, 1)" by code_simp
  then show ?thesis by (simp add: time_ok_def time_year_def zero_time_def local_secs_def nano_def)
qed

end
