(* ===== verification/Go_Jsonl.thy ===== *)
theory Go_Jsonl
  imports Go_Decode
begin

text \<open>
  Files of JSON lines, as the ledger and the action log keep them: a marshalled object has no
  control byte, so it is one line, and lines below the buffer of \<open>bufio.Scanner\<close> are scanned
  back one by one.  The last section bounds the length of what the encoder prints.
\<close>

section \<open>One line per object\<close>

definition clean_bytes :: "bytes \<Rightarrow> bool" where
  "clean_bytes b \<longleftrightarrow> list_all (\<lambda>x. 32 \<le> byte x) b"

lemma clean_bytes_simps [simp]:
  "clean_bytes []" "clean_bytes (x # b) \<longleftrightarrow> 32 \<le> byte x \<and> clean_bytes b" "clean_bytes (a @ b) \<longleftrightarrow> clean_bytes a \<and> clean_bytes b"
  by (simp_all add: clean_bytes_def)

lemma clean_no_NL: "clean_bytes b \<Longrightarrow> NL \<notin> set b"
  by (auto simp: clean_bytes_def list_all_iff byte_def)

lemma clean_quote: "clean_bytes (json_quote s)"
  using quote_body_bytes by (auto simp: json_quote_def clean_bytes_def list_all_iff byte_def)

lemma clean_itoa: "clean_bytes (itoa i)"
  using itoa_digits by (fastforce simp: clean_bytes_def list_all_iff is_digit_def byte_def)

lemma clean_time: "clean_bytes (DQ # format_with b t @ [DQ])"
  using clean_quote [of "format_with b t"] by (simp add: time_quote)

lemma clean_join: "clean_bytes sep \<Longrightarrow> (\<And>x. x \<in> set xs \<Longrightarrow> clean_bytes x) \<Longrightarrow> clean_bytes (join_with sep xs)"
  by (induction sep xs rule: join_with.induct) auto

lemma clean_object:
  assumes "list_all (\<lambda>(k, t). clean_bytes (json_print t)) kvs"
  shows "clean_bytes (json_print (JObj kvs))" "trim_space (json_print (JObj kvs)) = json_print (JObj kvs)"
    "json_print (JObj kvs) \<noteq> []" "last (json_print (JObj kvs)) \<noteq> CR"
proof -
  let ?body = "join_with '','' (map (\<lambda>(k, t). json_quote k @ '':'' @ json_print t) kvs)"
  have "clean_bytes ?body"
    using assms by (intro clean_join) (auto simp: clean_quote byte_def list_all_iff)
  moreover have ends: "json_print (JObj kvs) = CHR ''{'' # ?body @ [CHR ''}'']" by simp
  ultimately show "clean_bytes (json_print (JObj kvs))" by (simp add: byte_def)
  show "trim_space (json_print (JObj kvs)) = json_print (JObj kvs)"
    unfolding ends by (rule trim_space_ascii_ends) (simp_all add: byte_def ascii_space_def)
  show "json_print (JObj kvs) \<noteq> []" "last (json_print (JObj kvs)) \<noteq> CR" unfolding ends by simp_all
qed

section \<open>Files of lines\<close>

definition log_line :: "string \<Rightarrow> bool" where
  "log_line x \<longleftrightarrow> NL \<notin> set x \<and> length x < default_max_token \<and> (x = [] \<or> last x \<noteq> CR)"

definition log_text :: "string list \<Rightarrow> bytes" where
  "log_text ls = concat (map (\<lambda>x. x @ [NL]) ls)"

lemma log_text_append: "log_text (xs @ ys) = log_text xs @ log_text ys"
  by (simp add: log_text_def)

lemma scan_log: "list_all log_line ls \<Longrightarrow> scan_lines default_max_token (log_text ls) = (ls, False)"
  unfolding log_text_def by (rule scan_lines_lines) (auto simp: list_all_iff log_line_def)

section \<open>Lengths\<close>

text \<open>Quoting makes a byte at most six.\<close>

lemma quote_body_bound: "length (quote_body s) \<le> 6 * length s"
proof (induction s rule: quote_body.induct)
  case (2 c s)
  have a: "length (esc_ascii c) \<le> 6" by (simp add: esc_ascii_def u00_def)
  have w: "rune_width (c # s) \<le> Suc (length s)" using rune_width_le [of "c # s"] by simp
  consider "byte c < 128" | "\<not> byte c < 128" "rune_width (c # s) = 0"
    | "\<not> byte c < 128" "rune_width (c # s) \<noteq> 0" "line_sep (c # s)"
    | "\<not> byte c < 128" "rune_width (c # s) \<noteq> 0" "\<not> line_sep (c # s)" by blast
  then show ?case
  proof cases
    case 1
    with 2 a show ?thesis by (simp add: quote_body.simps)
  next
    case b: 2
    with 2 show ?thesis by (simp add: quote_body.simps)
  next
    case 3
    then have "3 \<le> length (c # s)" by (auto simp: line_sep_def split: list.splits)
    with 2 3 show ?thesis by (auto simp: quote_body.simps u202_def)
  next
    case 4
    with 2 w show ?thesis by (auto simp: quote_body.simps)
  qed
qed simp

lemma quote_length: "length (json_quote s) \<le> 6 * length s + 2"
  using quote_body_bound [of s] by (simp add: json_quote_def)

lemma frac_length: "length (frac_str n) \<le> 10"
proof -
  have "length (dropWhile P xs) \<le> length xs" for P and xs :: string by (rule length_dropWhile_le)
  from this [of "\<lambda>c. c = CHR ''0''" "rev (pad 9 (nat n))"]
  show ?thesis by (simp add: frac_str_def strip_zeros_def pad_length)
qed

lemma zone_length: "length (zone_str off) \<le> 6"
  by (simp add: zone_str_def Let_def pad_length)

lemma time_length:
  assumes "time_ok t"
  shows "length (format_with b t) \<le> 35"
proof -
  obtain y m d where c: "civil_from_days (local_secs t div 86400) = (y, m, d)" by (metis prod_cases3)
  then have "0 \<le> y" "y \<le> 9999" using assms by (auto simp: time_ok_def time_year_def)
  then have "length (year_str y) = 4" by (auto simp: year_str_def pad_length)
  with c frac_length [of "t_ns t mod nano"] zone_length [of "t_off t"] show ?thesis
    by (simp add: format_with_def date_str_def clock_str_def pad_length)
qed

definition members_length :: "(bytes \<times> jtree) list \<Rightarrow> nat" where
  "members_length kvs = sum_list (map (\<lambda>(k, t). 6 * length k + length (json_print t) + 4) kvs)"

lemma members_length_simps [simp]:
  "members_length [] = 0" "members_length ((k, t) # kvs) = 6 * length k + length (json_print t) + 4 + members_length kvs"
  "members_length (a @ b) = members_length a + members_length b"
  by (simp_all add: members_length_def)

lemma obj_length: "length (json_print (JObj kvs)) \<le> members_length kvs + 2"
proof -
  have "length (join_with '','' (map (\<lambda>(k, t). json_quote k @ '':'' @ json_print t) kvs)) \<le> members_length kvs"
  proof (induction kvs rule: induct_list012)
    case (2 kv)
    then show ?case using quote_length [of "fst kv"] by (cases kv) simp
  next
    case (3 kv kv' kvs)
    then show ?case using quote_length [of "fst kv"] by (cases kv; cases kv') simp
  qed simp
  then show ?thesis by simp
qed

lemma omit_length:
  "members_length (omit_str k s) \<le> 6 * length k + 6 * length s + 6"
  "members_length (omit_int k i) \<le> 6 * length k + length (itoa i) + 4"
  using quote_length [of s] by (simp_all add: omit_str_def omit_int_def)

lemma nat_str_length: "n < 10 ^ Suc k \<Longrightarrow> length (nat_str n) \<le> Suc k"
proof (induction n arbitrary: k rule: nat_str.induct)
  case (1 n)
  show ?case
  proof (cases "n < 10")
    case False
    then obtain j where k: "k = Suc j" using "1.prems" by (cases k) auto
    have "n div 10 < 10 ^ Suc j" using "1.prems" k by (simp add: less_mult_imp_div_less mult.commute)
    then show ?thesis using False "1.IH" [of j] k by (subst nat_str.simps) simp
  qed (simp add: nat_str.simps)
qed

lemma itoa_int64_length: "in_int64 i \<Longrightarrow> length (itoa i) \<le> 20"
proof -
  assume "in_int64 i"
  then have "nat i < 10 ^ Suc 18" "nat (- i) < 10 ^ Suc 18" by (auto simp: in_int64_def min_int64_def max_int64_def)
  from this [THEN nat_str_length] show ?thesis by (simp add: itoa_def)
qed

end
