(* ===== verification/Go_Base64.thy ===== *)
theory Go_Base64
  imports Go_Prelude
begin

text \<open>
  \<open>base64.StdEncoding\<close>: the standard alphabet with padding.  As in package
  \<open>encoding/base64\<close>, decoding skips carriage returns and newlines wherever they stand and does
  not look at the unused bits of the last group.
\<close>

definition b64_char :: "nat \<Rightarrow> char" where
  "b64_char n =
     (if n < 26 then char_of (65 + n) else if n < 52 then char_of (71 + n)
      else if n < 62 then char_of (n - 4) else if n = 62 then CHR ''+'' else CHR ''/'')"

definition b64_val :: "char \<Rightarrow> nat option" where
  "b64_val c =
     (let b = byte c in
      if 65 \<le> b \<and> b \<le> 90 then Some (b - 65) else if 97 \<le> b \<and> b \<le> 122 then Some (b - 71)
      else if 48 \<le> b \<and> b \<le> 57 then Some (b + 4) else if c = CHR ''+'' then Some 62
      else if c = CHR ''/'' then Some 63 else None)"

fun b64_enc :: "bytes \<Rightarrow> string" where
  "b64_enc (a # b # c # r) =
     (let n = byte a * 65536 + byte b * 256 + byte c
      in b64_char (n div 262144) # b64_char (n div 4096 mod 64) # b64_char (n div 64 mod 64) # b64_char (n mod 64) # b64_enc r)"
| "b64_enc [a, b] =
     (let n = byte a * 65536 + byte b * 256
      in [b64_char (n div 262144), b64_char (n div 4096 mod 64), b64_char (n div 64 mod 64), CHR ''=''])"
| "b64_enc [a] =
     (let n = byte a * 65536
      in [b64_char (n div 262144), b64_char (n div 4096 mod 64), CHR ''='', CHR ''=''])"
| "b64_enc [] = []"

fun b64_groups :: "string \<Rightarrow> bytes option" where
  "b64_groups [] = Some []"
| "b64_groups (w # x # y # z # r) =
     (case (b64_val w, b64_val x) of
        (Some p, Some q) \<Rightarrow>
          (let n2 = p * 262144 + q * 4096 in
           if z = CHR ''='' then
             (if r \<noteq> [] then None
              else if y = CHR ''='' then Some [char_of (n2 div 65536)]
              else (case b64_val y of None \<Rightarrow> None
                    | Some u \<Rightarrow> Some [char_of ((n2 + u * 64) div 65536), char_of ((n2 + u * 64) div 256 mod 256)]))
           else
             (case (b64_val y, b64_val z) of
                (Some u, Some v) \<Rightarrow>
                  (let n = n2 + u * 64 + v
                   in map_option ((@) [char_of (n div 65536), char_of (n div 256 mod 256), char_of (n mod 256)]) (b64_groups r))
              | _ \<Rightarrow> None))
      | _ \<Rightarrow> None)"
| "b64_groups _ = None"

definition b64_dec :: "string \<Rightarrow> bytes option" where
  "b64_dec s = b64_groups (filter (\<lambda>c. c \<noteq> CR \<and> c \<noteq> NL) s)"

lemma b64_val_char: "n < 64 \<Longrightarrow> b64_val (b64_char n) = Some n"
proof -
  assume n: "n < 64"
  then consider "n < 26" | "26 \<le> n" "n < 52" | "52 \<le> n" "n < 62" | "n = 62" | "n = 63" by linarith
  then show ?thesis
    by cases (auto simp: b64_val_def b64_char_def Let_def byte_char_of byte_def [of "CHR ''+''"] byte_def [of "CHR ''/''"])
qed

lemma b64_val_none:
  "b64_val CHR ''='' = None" "b64_val CR = None" "b64_val NL = None" "b64_val DQ = None" "b64_val BSL = None"
  "b64_val CHR ''<'' = None" "b64_val CHR ''>'' = None" "b64_val CHR ''&'' = None"
  by (simp_all add: b64_val_def byte_def)

lemma b64_char_neq: "n < 64 \<Longrightarrow> b64_val c = None \<Longrightarrow> b64_char n \<noteq> c"
  using b64_val_char by fastforce

lemma b64_char_range: "n < 64 \<Longrightarrow> 32 \<le> byte (b64_char n) \<and> byte (b64_char n) < 128"
  by (auto simp: b64_char_def byte_char_of byte_def [of "CHR ''+''"] byte_def [of "CHR ''/''"])

lemma triple_bounds:
  fixes a b c :: nat
  assumes "a < 256" "b < 256" "c < 256"
  defines "n \<equiv> a * 65536 + b * 256 + c"
  shows "n div 262144 < 64" "n div 262144 * 262144 + n div 4096 mod 64 * 4096 + n div 64 mod 64 * 64 + n mod 64 = n"
    "n div 65536 = a" "n div 256 mod 256 = b" "n mod 256 = c"
proof -
  have n: "n < 16777216" using assms by linarith
  then show "n div 262144 < 64" by linarith
  have d: "n div 262144 = n div 64 div 64 div 64" "n div 4096 = n div 64 div 64" by (simp_all add: div_mult2_eq)
  define x where "x = n div 64"
  define y where "y = x div 64"
  define z p q r where "z = y div 64" and "p = y mod 64" and "q = x mod 64" and "r = n mod 64"
  have "n = x * 64 + r" "x = y * 64 + q" "y = z * 64 + p"
    unfolding x_def y_def z_def p_def q_def r_def by simp_all
  then have "z * 262144 + p * 4096 + q * 64 + r = n" by linarith
  then show "n div 262144 * 262144 + n div 4096 mod 64 * 4096 + n div 64 mod 64 * 64 + n mod 64 = n"
    unfolding d x_def [symmetric] y_def [symmetric] unfolding z_def p_def q_def r_def .
  show "n div 65536 = a" using assms unfolding n_def by linarith
  have "n div 256 = b + a * 256" using assms unfolding n_def by linarith
  then show "n div 256 mod 256 = b" using assms(2) by simp
  have "n = c + (a * 256 + b) * 256" unfolding n_def by (simp add: algebra_simps)
  then show "n mod 256 = c" using assms(3) by (metis mod_less mod_mult_self1)
qed

lemma triple_chars:
  defines "n a b c \<equiv> byte a * 65536 + byte b * 256 + byte c"
  shows "char_of (n a b c div 65536) = a" "char_of (n a b c div 256) = b" "char_of (n a b c) = c"
  unfolding n_def using triple_bounds(3-5) [OF byte_less_256 byte_less_256 byte_less_256]
  by (metis char_of_byte char_of_mod_256)+

lemma char_zero: "byte (CHR 0x00) = 0"
  by (simp add: byte_def)

lemma b64_groups_enc: "b64_groups (b64_enc s) = Some s"
proof (induction s rule: b64_enc.induct)
  case (1 a b c r)
  note t = triple_bounds [OF byte_less_256 [of a] byte_less_256 [of b] byte_less_256 [of c]]
  have m: "b64_char (k mod 64) \<noteq> CHR ''=''" for k by (rule b64_char_neq) (simp_all add: b64_val_none)
  from 1 show ?case
    using t(1,2) b64_val_char [OF t(1)] m triple_chars [where a = a and b = b and c = c]
    by (simp add: Let_def b64_val_char)
next
  case (2 a b)
  note t = triple_bounds [OF byte_less_256 [of a] byte_less_256 [of b] byte_less_256 [of "CHR 0x00"], unfolded char_zero]
  have m: "b64_char (k mod 64) \<noteq> CHR ''=''" for k by (rule b64_char_neq) (simp_all add: b64_val_none)
  have "(byte a * 65536 + byte b * 256) mod 64 = 0" by simp
  with t(1,2) show ?case
    using b64_val_char [OF t(1)] m triple_chars [where a = a and b = b and c = "CHR 0x00"]
    by (simp add: Let_def b64_val_char char_zero)
next
  case (3 a)
  note t = triple_bounds [OF byte_less_256 [of a] byte_less_256 [of "CHR 0x00"] byte_less_256 [of "CHR 0x00"], unfolded char_zero]
  have "(byte a * 65536) mod 64 = 0" "(byte a * 65536) div 64 mod 64 = 0" by simp_all
  with t(1,2) show ?case
    using b64_val_char [OF t(1)] triple_chars [where a = a and b = "CHR 0x00" and c = "CHR 0x00"]
    by (simp add: Let_def b64_val_char char_zero)
qed simp

lemma b64_enc_chars: "set (b64_enc s) \<subseteq> insert CHR ''='' (b64_char ` {..<64})"
proof -
  have m: "b64_char (k mod 64) \<in> b64_char ` {..<64}" for k :: nat by simp
  have h: "b64_char ((x + y) div 262144) \<in> b64_char ` {..<64}" if "x + y < 16777216" for x y :: nat
    using that by (intro imageI) auto
  show ?thesis
  proof (induction s rule: b64_enc.induct)
    case (1 a b d r)
    have "byte a * 65536 + byte b * 256 + byte d < 16777216"
      using byte_less_256 [of a] byte_less_256 [of b] byte_less_256 [of d] by linarith
    from 1 h [OF this] m show ?case unfolding b64_enc.simps Let_def list.set by blast
  next
    case (2 a b)
    have "byte a * 65536 + byte b * 256 < 16777216"
      using byte_less_256 [of a] byte_less_256 [of b] by linarith
    from h [OF this] m show ?case unfolding b64_enc.simps Let_def list.set by blast
  next
    case (3 a)
    have "byte a * 65536 + 0 < 16777216" using byte_less_256 [of a] by linarith
    from h [OF this] m show ?case unfolding b64_enc.simps Let_def list.set add_0_right by blast
  qed simp
qed

lemma b64_enc_plain:
  assumes "c \<in> set (b64_enc s)"
  shows "32 \<le> byte c \<and> byte c < 128 \<and> c \<noteq> DQ \<and> c \<noteq> BSL \<and> c \<noteq> CHR ''<'' \<and> c \<noteq> CHR ''>'' \<and> c \<noteq> CHR ''&'' \<and> c \<noteq> CR \<and> c \<noteq> NL"
proof -
  consider "c = CHR ''=''" | n where "n < 64" "c = b64_char n" using assms b64_enc_chars by blast
  then show ?thesis
    by cases (simp add: byte_def, metis b64_char_neq b64_char_range b64_val_none)
qed

theorem b64_dec_enc: "b64_dec (b64_enc s) = Some s"
proof -
  have "filter (\<lambda>c. c \<noteq> CR \<and> c \<noteq> NL) (b64_enc s) = b64_enc s"
    using b64_enc_plain by (simp add: filter_id_conv)
  then show ?thesis by (simp add: b64_dec_def b64_groups_enc)
qed

lemma b64_enc_eq_Nil [simp]: "b64_enc s = [] \<longleftrightarrow> s = []"
  by (cases s rule: b64_enc.cases) (simp_all add: Let_def)

end
