(* ===== verification/Task_Log.thy ===== *)
theory Task_Log
  imports Go_Prelude
begin

text \<open>
  The interface between the ledger and its clients (the orchestrator, the RPC handlers, the
  auditors): a store of append-only logs keyed by task.  A provider gives an invariant, an append
  that may fail, the log of a task, and the stored form of what was appended; the laws say that a
  successful append keeps the invariant, extends the log of its own task by exactly the stored
  form and leaves the other logs alone.  What a client can rely on after any interleaving of
  appends to several tasks follows once and for all.
\<close>

fun fold_opt :: "('x \<Rightarrow> 's \<Rightarrow> 's option) \<Rightarrow> 'x list \<Rightarrow> 's \<Rightarrow> 's option" where
  "fold_opt f [] s = Some s"
| "fold_opt f (x # xs) s = (case f x s of None \<Rightarrow> None | Some s' \<Rightarrow> fold_opt f xs s')"

lemma fold_opt_append:
  "fold_opt f (xs @ ys) s = (case fold_opt f xs s of None \<Rightarrow> None | Some s' \<Rightarrow> fold_opt f ys s')"
  by (induction xs arbitrary: s) (auto split: option.splits)

locale task_log =
  fixes inv :: "'s \<Rightarrow> bool"
    and name_ok :: "'k \<Rightarrow> bool"
    and legal :: "'k \<Rightarrow> 'x \<Rightarrow> bool"
    and app :: "'k \<times> 'x \<Rightarrow> 's \<Rightarrow> 's option"
    and get :: "'s \<Rightarrow> 'k \<Rightarrow> 'e list"
    and stored :: "'k \<Rightarrow> 'x \<Rightarrow> 'e"
  assumes app_inv: "inv s \<Longrightarrow> name_ok k \<Longrightarrow> legal k x \<Longrightarrow> app (k, x) s = Some s' \<Longrightarrow> inv s'"
    and app_same: "inv s \<Longrightarrow> name_ok k \<Longrightarrow> legal k x \<Longrightarrow> app (k, x) s = Some s' \<Longrightarrow> get s' k = get s k @ [stored k x]"
    and app_other: "inv s \<Longrightarrow> name_ok k \<Longrightarrow> legal k x \<Longrightarrow> app (k, x) s = Some s' \<Longrightarrow> name_ok j \<Longrightarrow> j \<noteq> k \<Longrightarrow> get s' j = get s j"
begin

lemma trail:
  assumes "inv s" "fold_opt app ops s = Some s'" "\<And>k x. (k, x) \<in> set ops \<Longrightarrow> name_ok k \<and> legal k x" "name_ok j"
  shows "inv s' \<and> get s' j = get s j @ map (\<lambda>(k, x). stored k x) (filter (\<lambda>(k, x). k = j) ops)"
  using assms(1-3)
proof (induction ops arbitrary: s)
  case (Cons op ops)
  obtain k x where op: "op = (k, x)" by fastforce
  then obtain s1 where s1: "app (k, x) s = Some s1" "fold_opt app ops s1 = Some s'"
    using Cons.prems(2) by (auto split: option.splits)
  have kx: "name_ok k" "legal k x" using Cons.prems(3) op by auto
  have inv1: "inv s1" using app_inv Cons.prems(1) kx s1(1) by blast
  then have IH: "inv s' \<and> get s' j = get s1 j @ map (\<lambda>(k, x). stored k x) (filter (\<lambda>(k, x). k = j) ops)"
    using Cons.IH s1(2) Cons.prems(3) by auto
  show ?case
  proof (cases "k = j")
    case True
    with IH op show ?thesis using app_same [OF Cons.prems(1) kx s1(1)] by simp
  next
    case False
    with IH op show ?thesis using app_other [OF Cons.prems(1) kx s1(1) assms(4)] by simp
  qed
qed simp

lemma order_independent:
  assumes "inv s" "fold_opt app ops s = Some s1" "fold_opt app ops' s = Some s2"
    "\<And>k x. (k, x) \<in> set ops \<union> set ops' \<Longrightarrow> name_ok k \<and> legal k x" "name_ok j"
    "filter (\<lambda>(k, x). k = j) ops = filter (\<lambda>(k, x). k = j) ops'"
  shows "get s1 j = get s2 j"
proof -
  have "get s1 j = get s j @ map (\<lambda>(k, x). stored k x) (filter (\<lambda>(k, x). k = j) ops)"
    using trail [OF assms(1,2) _ assms(5)] assms(4) by blast
  moreover have "get s2 j = get s j @ map (\<lambda>(k, x). stored k x) (filter (\<lambda>(k, x). k = j) ops')"
    using trail [OF assms(1,3) _ assms(5)] assms(4) by blast
  ultimately show ?thesis using assms(6) by simp
qed

end

end
