(* ===== verification/Ledger.thy ===== *)
theory Ledger
  imports Go_Jsonl Go_Base64 Go_FS Task_Log
begin

text \<open>
  The signed audit trail, \<open>internal/ledger/ledger.go\<close>: one JSONL file per task, every line
  a signed entry.  The signature scheme is a pair of function arguments, \<open>sign priv msg\<close> and
  \<open>verify pub msg sig\<close>, in place of package \<open>crypto/ed25519\<close>; what a theorem needs of it
  (that a signature verifies, that it has 64 bytes, that nothing else verifies) is a hypothesis of
  that theorem.  Files, faults and directories are those of \<open>Go_FS\<close>; the bytes of a line are
  those \<open>encoding/json\<close> writes.
\<close>

section \<open>Data\<close>

record entry =
  en_ts :: gtime
  en_task_id :: string
  en_tenant_id :: string
  en_phase :: string
  en_action :: string
  en_result :: string
  en_data :: bytes
  en_duration_ms :: int
  en_stderr_tail :: string
  en_stdout_tail :: string
  en_sig :: string

definition zero_entry :: entry where
  "zero_entry = \<lparr> en_ts = zero_time, en_task_id = [], en_tenant_id = [], en_phase = [], en_action = [],
     en_result = [], en_data = [], en_duration_ms = 0, en_stderr_tail = [], en_stdout_tail = [], en_sig = [] \<rparr>"

definition result_ok :: string where "result_ok = ''ok''"
definition result_error :: string where "result_error = ''error''"
definition result_bill :: string where "result_bill = ''bill''"
definition result_marker :: string where "result_marker = ''marker''"
definition result_skipped :: string where "result_skipped = ''skipped''"

record ledger =
  l_dir :: path
  l_priv :: "bytes option"
  l_pub :: bytes

type_synonym signer = "bytes \<Rightarrow> bytes \<Rightarrow> bytes"
type_synonym verifier = "bytes \<Rightarrow> bytes \<Rightarrow> bytes \<Rightarrow> bool"

datatype ledger_err =
    LMkdir ioerr | LGenKey string | LWriteKey ioerr | LReadKey ioerr | LDecodeKey
  | LReadOnly | LMarshal | LOpen ioerr | LWrite ioerr | LSync ioerr | LClose ioerr
  | LParse nat json_err | LBadSig nat | LScan | LReadDir ioerr | LPanic

definition priv_key_file :: string where "priv_key_file = ''.signing-key''"
definition pub_key_file :: string where "pub_key_file = ''.public-key''"

definition signature_size :: nat where "signature_size = 64"
definition private_key_size :: nat where "private_key_size = 64"
definition public_key_size :: nat where "public_key_size = 32"

text \<open>\<open>PrivateKey.Public\<close>: the second half of the private key; slicing a shorter key panics.\<close>

definition public_of :: "bytes \<Rightarrow> bytes option" where
  "public_of priv = (if length priv < 32 then None else Some (take 32 (drop 32 priv @ replicate 32 (CHR 0x00))))"

section \<open>JSON form of an entry\<close>

definition entry_members :: "entry \<Rightarrow> bytes \<Rightarrow> (bytes \<times> jtree) list" where
  "entry_members e d =
     [(''ts'', JTime (en_ts e)), (''task_id'', JStr (en_task_id e))]
     @ omit_str ''tenant_id'' (en_tenant_id e)
     @ [(''phase'', JStr (en_phase e)), (''action'', JStr (en_action e)), (''result'', JStr (en_result e))]
     @ (if en_data e = [] then [] else [(''data'', JLit d)])
     @ omit_int ''duration_ms'' (en_duration_ms e)
     @ omit_str ''stderr_tail'' (en_stderr_tail e)
     @ omit_str ''stdout_tail'' (en_stdout_tail e)
     @ omit_str ''sig'' (en_sig e)"

definition marshal_entry :: "entry \<Rightarrow> bytes option" where
  "marshal_entry e =
     (if \<not> time_json_ok (en_ts e) then None
      else if en_data e = [] then Some (json_print (JObj (entry_members e [])))
      else (case json_compact (en_data e) of
              None \<Rightarrow> None
            | Some d \<Rightarrow> Some (json_print (JObj (entry_members e d)))))"

definition entry_of_members :: "members \<Rightarrow> (json_err, entry) result" where
  "entry_of_members ms =
     (case get_field dec_time zero_time ms ''ts'' of Inl x \<Rightarrow> err x | Inr ts \<Rightarrow>
     (case get_field dec_string [] ms ''task_id'' of Inl x \<Rightarrow> err x | Inr task \<Rightarrow>
     (case get_field dec_string [] ms ''tenant_id'' of Inl x \<Rightarrow> err x | Inr tenant \<Rightarrow>
     (case get_field dec_string [] ms ''phase'' of Inl x \<Rightarrow> err x | Inr phase \<Rightarrow>
     (case get_field dec_string [] ms ''action'' of Inl x \<Rightarrow> err x | Inr action \<Rightarrow>
     (case get_field dec_string [] ms ''result'' of Inl x \<Rightarrow> err x | Inr res \<Rightarrow>
     (case get_field dec_raw [] ms ''data'' of Inl x \<Rightarrow> err x | Inr dat \<Rightarrow>
     (case get_field dec_int64 0 ms ''duration_ms'' of Inl x \<Rightarrow> err x | Inr dur \<Rightarrow>
     (case get_field dec_string [] ms ''stderr_tail'' of Inl x \<Rightarrow> err x | Inr serr \<Rightarrow>
     (case get_field dec_string [] ms ''stdout_tail'' of Inl x \<Rightarrow> err x | Inr sout \<Rightarrow>
     (case get_field dec_string [] ms ''sig'' of Inl x \<Rightarrow> err x | Inr sg \<Rightarrow>
        ok \<lparr> en_ts = ts, en_task_id = task, en_tenant_id = tenant, en_phase = phase, en_action = action,
             en_result = res, en_data = dat, en_duration_ms = dur, en_stderr_tail = serr,
             en_stdout_tail = sout, en_sig = sg \<rparr>)))))))))))"

definition unmarshal_entry :: "bytes \<Rightarrow> (json_err, entry) result" where
  "unmarshal_entry s = (case json_members s of Inl x \<Rightarrow> err x | Inr ms \<Rightarrow> entry_of_members ms)"

section \<open>Opening\<close>

definition open_ledger ::
  "(string, bytes \<times> bytes) result \<Rightarrow> faults \<Rightarrow> fs \<Rightarrow> path \<Rightarrow> (ledger_err \<times> fs, ledger \<times> fs) result" where
  "open_ledger gen flt fs dir =
     (case os_mkdir_all flt fs dir mode_0700 of
        Inl (e, fs1) \<Rightarrow> err (LMkdir e, fs1)
      | Inr fs1 \<Rightarrow>
          (case os_read_file flt fs1 (join2 dir priv_key_file) of
             Inl NotExist \<Rightarrow>
               (case gen of
                  Inl m \<Rightarrow> err (LGenKey m, fs1)
                | Inr (pub, priv) \<Rightarrow>
                    (case os_write_file flt fs1 (join2 dir priv_key_file) (b64_enc priv) mode_0600 of
                       Inl (e, fs2) \<Rightarrow> err (LWriteKey e, fs2)
                     | Inr fs2 \<Rightarrow>
                         (case os_write_file flt fs2 (join2 dir pub_key_file) (b64_enc pub) mode_0644 of
                            Inl (e, fs3) \<Rightarrow> err (LWriteKey e, fs3)
                          | Inr fs3 \<Rightarrow> ok (\<lparr> l_dir = dir, l_priv = Some priv, l_pub = pub \<rparr>, fs3))))
           | Inl e \<Rightarrow> err (LReadKey e, fs1)
           | Inr b \<Rightarrow>
               (case b64_dec (trim_space b) of
                  None \<Rightarrow> err (LDecodeKey, fs1)
                | Some priv \<Rightarrow>
                    (case public_of priv of
                       None \<Rightarrow> err (LPanic, fs1)
                     | Some pub \<Rightarrow> ok (\<lparr> l_dir = dir, l_priv = Some priv, l_pub = pub \<rparr>, fs1)))))"

definition open_read_only :: "faults \<Rightarrow> fs \<Rightarrow> path \<Rightarrow> (ledger_err, ledger) result" where
  "open_read_only flt fs dir =
     (case os_read_file flt fs (join2 dir pub_key_file) of
        Inl e \<Rightarrow> err (LReadKey e)
      | Inr b \<Rightarrow>
          (case b64_dec (trim_space b) of
             None \<Rightarrow> err LDecodeKey
           | Some pub \<Rightarrow> ok \<lparr> l_dir = dir, l_priv = None, l_pub = pub \<rparr>))"

definition task_path :: "ledger \<Rightarrow> string \<Rightarrow> path" where
  "task_path l task = join2 (l_dir l) (task @ ''.jsonl'')"

section \<open>Append\<close>

text \<open>The entry as it is written: time and task filled in, the old signature dropped.\<close>

definition stamp_entry :: "gtime \<Rightarrow> string \<Rightarrow> entry \<Rightarrow> entry" where
  "stamp_entry now task e =
     e\<lparr> en_ts := (if is_zero_time (en_ts e) then to_utc now else en_ts e),
        en_task_id := (if en_task_id e = [] then task else en_task_id e),
        en_sig := [] \<rparr>"

definition sign_entry :: "signer \<Rightarrow> bytes \<Rightarrow> entry \<Rightarrow> (ledger_err, entry \<times> bytes) result" where
  "sign_entry sign priv e =
     (case marshal_entry e of
        None \<Rightarrow> err LMarshal
      | Some payload \<Rightarrow>
          if length priv \<noteq> private_key_size then err LPanic
          else (let e2 = e\<lparr>en_sig := b64_enc (sign priv payload)\<rparr> in
                case marshal_entry e2 of None \<Rightarrow> err LMarshal | Some line \<Rightarrow> ok (e2, line)))"

text \<open>\<open>Append\<close>.  The \<open>os.Stat\<close> before the write only decides whether the directory is
  synced at the end; that sync is best effort, its errors are dropped and it changes no file, so
  neither appears here.\<close>

definition append_entry ::
  "signer \<Rightarrow> faults \<Rightarrow> gtime \<Rightarrow> ledger \<Rightarrow> fs \<Rightarrow> string \<Rightarrow> entry \<Rightarrow> (ledger_err \<times> fs, fs) result" where
  "append_entry sign flt now l fs task e =
     (case l_priv l of
        None \<Rightarrow> err (LReadOnly, fs)
      | Some priv \<Rightarrow>
          (case sign_entry sign priv (stamp_entry now task e) of
             Inl x \<Rightarrow> err (x, fs)
           | Inr (e2, line) \<Rightarrow>
               (let p = task_path l task in
                case os_mkdir_all flt fs (l_dir l) mode_0700 of
                  Inl (x, fs1) \<Rightarrow> err (LMkdir x, fs1)
                | Inr fs1 \<Rightarrow>
                    (case os_open_create flt False fs1 p mode_0600 of
                       Inl x \<Rightarrow> err (LOpen x, fs1)
                     | Inr fs2 \<Rightarrow>
                         (case os_write flt fs2 p (line @ [NL]) of
                            Inl (x, fs3) \<Rightarrow> err (LWrite x, fs3)
                          | Inr fs3 \<Rightarrow>
                              (case os_sync flt p of
                                 Inl x \<Rightarrow> err (LSync x, fs3)
                               | Inr _ \<Rightarrow>
                                   (case os_close flt p of
                                      Inl x \<Rightarrow> err (LClose x, fs3)
                                    | Inr _ \<Rightarrow> ok fs3)))))))"

section \<open>Read\<close>

text \<open>\<open>None\<close>: the verification panics (a public key of the wrong length).\<close>

definition verify_entry :: "verifier \<Rightarrow> ledger \<Rightarrow> entry \<Rightarrow> bool option" where
  "verify_entry verify l e =
     (case b64_dec (en_sig e) of
        None \<Rightarrow> Some False
      | Some sg \<Rightarrow>
          if length sg \<noteq> signature_size then Some False
          else (case marshal_entry (e\<lparr>en_sig := []\<rparr>) of
                  None \<Rightarrow> Some False
                | Some payload \<Rightarrow>
                    if length (l_pub l) \<noteq> public_key_size then None
                    else Some (verify (l_pub l) payload sg)))"

fun read_lines :: "verifier \<Rightarrow> ledger \<Rightarrow> nat \<Rightarrow> string list \<Rightarrow> (ledger_err, entry list) result" where
  "read_lines verify l n [] = ok []"
| "read_lines verify l n (t # ts) =
     (let raw = trim_space t in
      if raw = [] then read_lines verify l (Suc n) ts
      else (case unmarshal_entry raw of
              Inl x \<Rightarrow> err (LParse (Suc n) x)
            | Inr e \<Rightarrow>
                (case verify_entry verify l e of
                   None \<Rightarrow> err LPanic
                 | Some False \<Rightarrow> err (LBadSig (Suc n))
                 | Some True \<Rightarrow>
                     (case read_lines verify l (Suc n) ts of Inl x \<Rightarrow> err x | Inr es \<Rightarrow> ok (e # es)))))"

text \<open>The entries together with the error; when only the scanner fails the entries before the
  overlong line are returned with it.\<close>

definition read_task ::
  "verifier \<Rightarrow> faults \<Rightarrow> ledger \<Rightarrow> fs \<Rightarrow> string \<Rightarrow> entry list \<times> ledger_err option" where
  "read_task verify flt l fs task =
     (case os_read_file flt fs (task_path l task) of
        Inl x \<Rightarrow> ([], Some (LOpen x))
      | Inr b \<Rightarrow>
          (case scan_lines default_max_token b of (ls, tooLong) \<Rightarrow>
             (case read_lines verify l 0 ls of
                Inl x \<Rightarrow> ([], Some x)
              | Inr es \<Rightarrow> (es, if tooLong then Some LScan else None))))"

definition tasks :: "faults \<Rightarrow> ledger \<Rightarrow> fs \<Rightarrow> (ledger_err, string list) result" where
  "tasks flt l fs =
     (case os_read_dir flt fs (l_dir l) of
        Inl NotExist \<Rightarrow> ok []
      | Inl x \<Rightarrow> err (LReadDir x)
      | Inr es \<Rightarrow>
          ok (sort_strings (map (\<lambda>(n, _). trim_suffix n ''.jsonl'')
                (filter (\<lambda>(n, isDir). \<not> isDir \<and> has_suffix n ''.jsonl'') es))))"

fun read_tenant_loop ::
  "verifier \<Rightarrow> faults \<Rightarrow> ledger \<Rightarrow> fs \<Rightarrow> string \<Rightarrow> string list \<Rightarrow> (ledger_err, entry list) result" where
  "read_tenant_loop verify flt l fs tenant [] = ok []"
| "read_tenant_loop verify flt l fs tenant (t # ts) =
     (case read_task verify flt l fs t of
        (_, Some x) \<Rightarrow> err x
      | (es, None) \<Rightarrow>
          (case read_tenant_loop verify flt l fs tenant ts of
             Inl x \<Rightarrow> err x
           | Inr rest \<Rightarrow> ok (filter (\<lambda>e. en_tenant_id e = tenant) es @ rest)))"

definition read_by_tenant ::
  "verifier \<Rightarrow> faults \<Rightarrow> ledger \<Rightarrow> fs \<Rightarrow> string \<Rightarrow> (ledger_err, entry list) result" where
  "read_by_tenant verify flt l fs tenant =
     (case tasks flt l fs of Inl x \<Rightarrow> err x | Inr ids \<Rightarrow> read_tenant_loop verify flt l fs tenant ids)"

definition read_since ::
  "verifier \<Rightarrow> faults \<Rightarrow> ledger \<Rightarrow> fs \<Rightarrow> string \<Rightarrow> gtime \<Rightarrow> (ledger_err, entry list) result" where
  "read_since verify flt l fs task after =
     (case read_task verify flt l fs task of
        (_, Some x) \<Rightarrow> err x
      | (es, None) \<Rightarrow> ok (if is_zero_time after then es else filter (\<lambda>e. time_after (en_ts e) after) es))"

record verify_result =
  vr_task_id :: string
  vr_count :: nat
  vr_err :: "ledger_err option"

definition verify_all ::
  "verifier \<Rightarrow> faults \<Rightarrow> ledger \<Rightarrow> fs \<Rightarrow> (ledger_err, verify_result list) result" where
  "verify_all verify flt l fs =
     (case tasks flt l fs of
        Inl x \<Rightarrow> err x
      | Inr ids \<Rightarrow>
          ok (map (\<lambda>t. case read_task verify flt l fs t of
                         (es, x) \<Rightarrow> \<lparr> vr_task_id = t, vr_count = length es, vr_err = x \<rparr>) ids))"

section \<open>Round trip of one entry\<close>

definition entry_ok :: "entry \<Rightarrow> bool" where
  "entry_ok e \<longleftrightarrow> time_ok (en_ts e) \<and> in_int64 (en_duration_ms e)
     \<and> list_all valid_utf8 [en_task_id e, en_tenant_id e, en_phase e, en_action e, en_result e,
          en_stderr_tail e, en_stdout_tail e, en_sig e]
     \<and> (en_data e = [] \<or> raw_ok (max_nesting - 1) (en_data e))"

text \<open>The entry with its raw data compacted, as \<open>json.Marshal\<close> writes it.\<close>

definition canon_entry :: "entry \<Rightarrow> entry" where
  "canon_entry e = e\<lparr>en_data := (if en_data e = [] then [] else (case json_compact (en_data e) of Some d \<Rightarrow> d | None \<Rightarrow> en_data e))\<rparr>"

lemma entry_members_complete:
  "en_data e = [] \<or> completes n d \<Longrightarrow> list_all (\<lambda>kv. jcomplete n (snd kv)) (entry_members e d)"
  by (auto simp: entry_members_def omit_str_def omit_int_def)

lemma entry_members_keys: "list_all (\<lambda>(k, t). list_all (\<lambda>c. byte c < 128) k) (entry_members e d)"
  by (simp add: entry_members_def omit_str_def omit_int_def byte_def)

lemma entry_raws:
  defines "ms e d \<equiv> printed (entry_members e d)"
  shows "field_raws (ms e d) ''ts'' = [DQ # format_rfc3339nano (en_ts e) @ [DQ]]"
    "field_raws (ms e d) ''task_id'' = [json_quote (en_task_id e)]"
    "field_raws (ms e d) ''tenant_id'' = (if en_tenant_id e = [] then [] else [json_quote (en_tenant_id e)])"
    "field_raws (ms e d) ''phase'' = [json_quote (en_phase e)]"
    "field_raws (ms e d) ''action'' = [json_quote (en_action e)]"
    "field_raws (ms e d) ''result'' = [json_quote (en_result e)]"
    "field_raws (ms e d) ''data'' = (if en_data e = [] then [] else [d])"
    "field_raws (ms e d) ''duration_ms'' = (if en_duration_ms e = 0 then [] else [itoa (en_duration_ms e)])"
    "field_raws (ms e d) ''stderr_tail'' = (if en_stderr_tail e = [] then [] else [json_quote (en_stderr_tail e)])"
    "field_raws (ms e d) ''stdout_tail'' = (if en_stdout_tail e = [] then [] else [json_quote (en_stdout_tail e)])"
    "field_raws (ms e d) ''sig'' = (if en_sig e = [] then [] else [json_quote (en_sig e)])"
  unfolding ms_def entry_members_def printed_simps by (simp_all add: key_eval printed_simps)

lemma entry_of_printed:
  assumes "entry_ok e"
  shows "entry_of_members (printed (entry_members e d)) = ok (e\<lparr>en_data := (if en_data e = [] then [] else d)\<rparr>)"
proof -
  have v: "valid_utf8 (en_task_id e)" "valid_utf8 (en_tenant_id e)" "valid_utf8 (en_phase e)"
    "valid_utf8 (en_action e)" "valid_utf8 (en_result e)" "valid_utf8 (en_stderr_tail e)"
    "valid_utf8 (en_stdout_tail e)" "valid_utf8 (en_sig e)" "time_ok (en_ts e)" "in_int64 (en_duration_ms e)"
    using assms by (auto simp: entry_ok_def)
  note r = entry_raws [of e d]
  show ?thesis
    unfolding entry_of_members_def
    by (simp add: get_time [OF r(1) v(9)] get_string(1) [OF r(2) v(1)] get_string(2) [OF r(3) v(2)]
        get_string(1) [OF r(4) v(3)] get_string(1) [OF r(5) v(4)] get_string(1) [OF r(6) v(5)]
        get_raw [OF r(7)] get_int(2) [OF r(8) v(10)] get_string(2) [OF r(9) v(6)]
        get_string(2) [OF r(10) v(7)] get_string(2) [OF r(11) v(8)])
qed

lemma entry_ok_compact:
  assumes "entry_ok e" "en_data e \<noteq> []"
  obtains d where "json_compact (en_data e) = Some d" "json_compact d = Some d"
    "completes (max_nesting - 1) d" "raw_ok (max_nesting - 1) d"
  using raw_ok_compact [of "max_nesting - 1" "en_data e"] assms by (auto simp: entry_ok_def)

lemma unmarshal_printed:
  assumes "entry_ok e" "en_data e = [] \<or> completes (max_nesting - 1) d"
  shows "unmarshal_entry (json_print (JObj (entry_members e d))) = ok (e\<lparr>en_data := (if en_data e = [] then [] else d)\<rparr>)"
proof -
  have "Suc (max_nesting - 1) \<le> max_nesting" by (simp add: max_nesting_def)
  from json_members_print [OF entry_members_complete [OF assms(2)] this]
  have "json_members (json_print (JObj (entry_members e d))) = ok (printed (entry_members e d))"
    by (simp add: printed_def coerced_keys [OF entry_members_keys])
  then show ?thesis by (simp add: unmarshal_entry_def entry_of_printed [OF assms(1)])
qed

lemma marshal_ok_entry:
  assumes "entry_ok e"
  shows "\<exists>s. marshal_entry e = Some s \<and> unmarshal_entry s = ok (canon_entry e)"
proof (cases "en_data e = []")
  case True
  then have "e\<lparr>en_data := []\<rparr> = e" by (cases e) simp
  with True assms show ?thesis
    using unmarshal_printed [OF assms, of "[]"] time_ok_json
    by (simp add: marshal_entry_def canon_entry_def entry_ok_def)
next
  case False
  obtain d where "json_compact (en_data e) = Some d" "completes (max_nesting - 1) d"
    using entry_ok_compact [OF assms False] by blast
  with False assms show ?thesis
    using unmarshal_printed [OF assms, of d] time_ok_json
    by (simp add: marshal_entry_def canon_entry_def entry_ok_def)
qed

text \<open>Marshalling does not see the difference between an entry and its canonical form.\<close>

lemma entry_members_data:
  "(en_data e = [] \<longleftrightarrow> x = []) \<Longrightarrow> entry_members (e\<lparr>en_data := x\<rparr>) d = entry_members e d"
  by (simp add: entry_members_def)

lemma compact_not_Nil: "json_compact b = Some d \<Longrightarrow> d \<noteq> []"
  using compact_head [of max_nesting b d] by (simp add: json_compact_def)

lemma compact_Nil: "json_compact [] = None"
  by (simp add: json_compact_def scan_eof_def step_begin_value_def json_ws_def)

lemma marshal_canon:
  assumes "entry_ok e"
  shows "marshal_entry (canon_entry e) = marshal_entry e"
proof (cases "en_data e = []")
  case True
  then have "canon_entry e = e" by (cases e) (simp add: canon_entry_def)
  then show ?thesis by simp
next
  case False
  obtain d where "json_compact (en_data e) = Some d" "json_compact d = Some d"
    using entry_ok_compact [OF assms False] by blast
  with False show ?thesis
    using compact_not_Nil by (auto simp: marshal_entry_def canon_entry_def entry_members_data)
qed

lemma canon_sig: "canon_entry (e\<lparr>en_sig := s\<rparr>) = (canon_entry e)\<lparr>en_sig := s\<rparr>"
  by (cases e) (simp add: canon_entry_def split: option.split)

section \<open>One line per entry\<close>

lemma compact_clean: "compact_run lim st b = Some out \<Longrightarrow> sinv st \<Longrightarrow> clean_bytes out"
proof (induction lim st b arbitrary: out rule: compact_run.induct)
  case (1 lim st)
  then show ?case by (auto split: if_splits)
next
  case (2 lim st c cs)
  obtain s qs where st: "st = (s, qs)" by (cases st)
  obtain op s1 qs1 where step: "step_char lim st c = Some (op, s1, qs1)"
    using 2(5) by (auto split: option.splits)
  have inv: "sinv (s1, qs1)" using step_inv [OF 2(6) step] .
  show ?case
  proof (cases "op = OpSkipSpace")
    case True
    with 2 step inv show ?thesis by simp
  next
    case False
    have c: "32 \<le> byte c" using step_ge32 [of s qs lim c op] 2(6) step False st by simp
    have u: "clean_bytes (u00 c)" using u00_bytes by (auto simp: clean_bytes_def list_all_iff)
    have u2: "clean_bytes (u202 (c # cs))"
      using hex_digit_plain [of "byte ((c # cs) ! 2) mod 16"] by (simp add: u202_def byte_def)
    consider "html_special c" | "\<not> html_special c" "line_sep (c # cs)" | "\<not> html_special c" "\<not> line_sep (c # cs)"
      by blast
    then show ?thesis
    proof cases
      case 1
      with 2 step inv False u show ?thesis by auto
    next
      case l: 2
      then have sq: "(s1, qs1) = (SInString, qs)"
        using string_only_step [of s qs lim c op "(s1, qs1)"] 2(6) step False line_sep_high st
        by (auto simp: string_only_def)
      obtain out' where "compact_run lim (SInString, qs) (drop 2 cs) = Some out'" "out = u202 (c # cs) @ out'"
        using 2(5) step l False in_string_high2 [OF l(2), of lim qs] sq by auto
      moreover have "sinv (SInString, qs)" by (simp add: sinv_def)
      ultimately show ?thesis
        using 2(3) [OF step refl False l(1,2)] u2 in_string_high2 [OF l(2), of lim qs] sq by auto
    next
      case 3
      with 2 step inv False c show ?thesis by auto
    qed
  qed
qed

lemma clean_marshal:
  assumes "marshal_entry e = Some line"
  shows "clean_bytes line" "trim_space line = line" "line \<noteq> []" "last line \<noteq> CR"
proof -
  have "\<exists>d. line = json_print (JObj (entry_members e d)) \<and> (en_data e = [] \<or> json_compact (en_data e) = Some d)"
    using assms by (auto simp: marshal_entry_def simp del: json_print.simps split: if_splits option.splits)
  then obtain d where d: "line = json_print (JObj (entry_members e d))" "en_data e = [] \<or> clean_bytes d"
    using compact_clean [OF _ begin_inv(1)] unfolding json_compact_def by blast
  have t: "clean_bytes (DQ # format_rfc3339nano (en_ts e) @ [DQ])" by (rule clean_time)
  have "list_all (\<lambda>(k, t). clean_bytes (json_print t)) (entry_members e d)"
    using d(2) t by (auto simp: entry_members_def omit_str_def omit_int_def clean_quote clean_itoa)
  from clean_object [OF this] show "clean_bytes line" "trim_space line = line" "line \<noteq> []" "last line \<noteq> CR"
    unfolding d(1) .
qed

section \<open>A signed line verifies\<close>

text \<open>A writer is a ledger opened with a key pair whose signatures its public key accepts, in a
  proper directory.\<close>

definition writer_ok :: "signer \<Rightarrow> verifier \<Rightarrow> ledger \<Rightarrow> bool" where
  "writer_ok sign verify l \<longleftrightarrow>
     (\<exists>priv. l_priv l = Some priv \<and> length priv = private_key_size \<and> length (l_pub l) = public_key_size
        \<and> proper_dir (l_dir l)
        \<and> (\<forall>m. length (sign priv m) = signature_size \<and> verify (l_pub l) m (sign priv m)))"

text \<open>What is stored for an appended entry.\<close>

definition stored_entry :: "signer \<Rightarrow> ledger \<Rightarrow> gtime \<Rightarrow> string \<Rightarrow> entry \<Rightarrow> entry" where
  "stored_entry sign l now task e =
     (let e1 = stamp_entry now task e
      in (canon_entry e1)\<lparr>en_sig := b64_enc (sign (case l_priv l of Some p \<Rightarrow> p | None \<Rightarrow> [])
             (case marshal_entry e1 of Some m \<Rightarrow> m | None \<Rightarrow> []))\<rparr>)"

lemma valid_utf8_b64 [simp]: "valid_utf8 (b64_enc s)"
  by (rule valid_utf8_ascii) (use b64_enc_plain in blast)

lemma entry_ok_sig: "entry_ok e \<Longrightarrow> entry_ok (e\<lparr>en_sig := b64_enc s\<rparr>)"
  by (auto simp: entry_ok_def)

lemma sig_Nil_id: "en_sig e = [] \<Longrightarrow> e\<lparr>en_sig := []\<rparr> = e"
  by (cases e) simp

lemma canon_en_sig [simp]: "en_sig (canon_entry e) = en_sig e"
  by (simp add: canon_entry_def)

lemma entry_ok_canon:
  assumes "entry_ok e"
  shows "entry_ok (canon_entry e)"
proof (cases "en_data e = []")
  case True
  with assms show ?thesis by (simp add: entry_ok_def canon_entry_def)
next
  case False
  obtain d where "json_compact (en_data e) = Some d" "raw_ok (max_nesting - 1) d"
    using entry_ok_compact [OF assms False] by blast
  with assms False show ?thesis by (simp add: entry_ok_def canon_entry_def)
qed

lemma sign_entry_ok:
  assumes "entry_ok e" "en_sig e = []" "sign_entry sign priv e = ok (e2, line)"
  shows "\<exists>payload. marshal_entry e = Some payload \<and> e2 = e\<lparr>en_sig := b64_enc (sign priv payload)\<rparr>
     \<and> marshal_entry e2 = Some line \<and> unmarshal_entry line = ok (canon_entry e2)"
proof -
  obtain payload where p: "marshal_entry e = Some payload" "e2 = e\<lparr>en_sig := b64_enc (sign priv payload)\<rparr>"
    "marshal_entry e2 = Some line"
    using assms(3) by (auto simp: sign_entry_def Let_def split: option.splits if_splits)
  moreover have "unmarshal_entry line = ok (canon_entry e2)"
    using marshal_ok_entry [OF entry_ok_sig [OF assms(1)], of "sign priv payload"] p(2,3) by auto
  ultimately show ?thesis by blast
qed

lemma verify_stored:
  assumes "entry_ok e" "en_sig e = []" "marshal_entry e = Some payload"
    "length sg = signature_size" "length (l_pub l) = public_key_size" "verify (l_pub l) payload sg"
  shows "verify_entry verify l ((canon_entry e)\<lparr>en_sig := b64_enc sg\<rparr>) = Some True"
proof -
  have "(canon_entry e)\<lparr>en_sig := []\<rparr> = canon_entry e"
    using assms(2) by (intro sig_Nil_id) simp
  then have "marshal_entry ((canon_entry e)\<lparr>en_sig := []\<rparr>) = Some payload"
    using assms(3) marshal_canon [OF assms(1)] by (simp only:)
  then show ?thesis
    using assms by (simp add: verify_entry_def b64_dec_enc)
qed

section \<open>The state of a ledger directory\<close>

definition is_log :: "verifier \<Rightarrow> ledger \<Rightarrow> bytes \<Rightarrow> bool" where
  "is_log verify l b \<longleftrightarrow> (\<exists>ls es. b = log_text ls \<and> list_all log_line ls \<and> read_lines verify l 0 ls = ok es)"

definition ledger_inv :: "verifier \<Rightarrow> ledger \<Rightarrow> fs \<Rightarrow> bool" where
  "ledger_inv verify l fs \<longleftrightarrow>
     (\<forall>task. SLASH \<notin> set task \<longrightarrow>
        (case file_data fs (task_path l task) of None \<Rightarrow> True | Some b \<Rightarrow> is_log verify l b))"

lemma read_lines_step:
  "read_lines verify l n (t # ts) = ok es \<longleftrightarrow>
     (if trim_space t = [] then read_lines verify l (Suc n) ts = ok es
      else (\<exists>e es'. unmarshal_entry (trim_space t) = ok e \<and> verify_entry verify l e = Some True
              \<and> read_lines verify l (Suc n) ts = ok es' \<and> es = e # es'))"
  by (auto simp: Let_def split: sum.splits option.splits bool.splits)

declare read_lines.simps(2) [simp del]

lemma read_lines_shift: "read_lines verify l n ls = ok es \<Longrightarrow> read_lines verify l m ls = ok es"
proof (induction ls arbitrary: n m es)
  case (Cons t ls)
  have IH: "read_lines verify l (Suc m) ls = ok x" if "read_lines verify l (Suc n) ls = ok x" for x
    using Cons.IH that by blast
  show ?case
    using Cons.prems IH by (cases "trim_space t = []") (auto simp: read_lines_step)
qed simp

lemma read_lines_append:
  assumes "read_lines verify l m ys = ok es'"
  shows "read_lines verify l n xs = ok es \<Longrightarrow> read_lines verify l n (xs @ ys) = ok (es @ es')"
proof (induction xs arbitrary: n es)
  case Nil
  then show ?case using read_lines_shift [OF assms] by simp
next
  case (Cons t xs)
  have IH: "read_lines verify l (Suc n) (xs @ ys) = ok (x @ es')" if "read_lines verify l (Suc n) xs = ok x" for x
    using Cons.IH that by blast
  show ?case
    using Cons.prems IH by (cases "trim_space t = []") (auto simp: read_lines_step)
qed

lemma task_path_plain: "SLASH \<notin> set task \<Longrightarrow> plain_name (task @ ''.jsonl'')"
  by (simp add: plain_name_def)

lemma task_path_eq: "proper_dir (l_dir l) \<Longrightarrow> SLASH \<notin> set task \<Longrightarrow> task_path l task = l_dir l @ SLASH # task @ ''.jsonl''"
  unfolding task_path_def by (rule join2_child [OF _ task_path_plain])

lemma task_path_inj:
  "proper_dir (l_dir l) \<Longrightarrow> SLASH \<notin> set s \<Longrightarrow> SLASH \<notin> set t \<Longrightarrow> task_path l s = task_path l t \<Longrightarrow> s = t"
  by (simp add: task_path_eq)

lemma read_task_log:
  assumes "file_data fs (task_path l task) = Some (log_text ls)" "list_all log_line ls" "read_lines verify l 0 ls = ok es"
  shows "read_task verify no_faults l fs task = (es, None)"
  by (simp add: read_task_def file_data_read [OF assms(1)] scan_log [OF assms(2)] assms(3))

lemma read_task_none:
  "file_data fs (task_path l task) = None \<Longrightarrow> fst (read_task verify no_faults l fs task) = []"
  by (auto simp: read_task_def os_read_file_def file_data_def split: option.splits fnode.splits)

lemma read_task_cong:
  "file_data fs p = file_data fs' p \<Longrightarrow> p = task_path l task \<Longrightarrow>
   fst (read_task verify no_faults l fs task) = fst (read_task verify no_faults l fs' task)"
  by (auto simp: read_task_def os_read_file_def file_data_def split: option.splits fnode.splits)

definition ledger_append :: "signer \<Rightarrow> ledger \<Rightarrow> string \<times> faults \<times> gtime \<times> entry \<Rightarrow> fs \<Rightarrow> fs option" where
  "ledger_append sign l op fs =
     (case op of (task, flt, now, e) \<Rightarrow>
        (case append_entry sign flt now l fs task e of Inl _ \<Rightarrow> None | Inr fs' \<Rightarrow> Some fs'))"

text \<open>An append is legal when the entry survives JSON and its line fits the reader's buffer.\<close>

definition legal_append :: "signer \<Rightarrow> ledger \<Rightarrow> string \<Rightarrow> faults \<times> gtime \<times> entry \<Rightarrow> bool" where
  "legal_append sign l task x \<longleftrightarrow>
     (case x of (flt, now, e) \<Rightarrow>
        entry_ok (stamp_entry now task e)
        \<and> (case marshal_entry (stored_entry sign l now task e) of
             Some line \<Rightarrow> length line < default_max_token | None \<Rightarrow> False))"

lemma append_entry_ok:
  assumes "append_entry sign flt now l fs task e = ok fs'" "writer_ok sign verify l" "SLASH \<notin> set task"
  obtains priv e2 line old where "l_priv l = Some priv"
    "sign_entry sign priv (stamp_entry now task e) = ok (e2, line)"
    "file_data fs (task_path l task) = old"
    "file_data fs' (task_path l task) = Some ((case old of Some b \<Rightarrow> b | None \<Rightarrow> []) @ line @ [NL])"
    "\<And>q. q \<noteq> task_path l task \<Longrightarrow> file_data fs' q = file_data fs q"
proof -
  have pd: "proper_dir (l_dir l)" using assms(2) by (auto simp: writer_ok_def)
  obtain priv e2 line fs1 fs2 where p: "l_priv l = Some priv"
    "sign_entry sign priv (stamp_entry now task e) = ok (e2, line)"
    "os_mkdir_all flt fs (l_dir l) mode_0700 = ok fs1"
    "os_open_create flt False fs1 (task_path l task) mode_0600 = ok fs2"
    "os_write flt fs2 (task_path l task) (line @ [NL]) = ok fs'"
    using assms(1) by (auto simp: append_entry_def Let_def split: option.splits sum.splits prod.splits)
  have f1: "file_data fs1 q = file_data fs q" for q using mkdir_all_ok(3) [OF p(3) pd] .
  note o = open_create_ok [OF p(4)]
  have f2: "file_data fs2 (task_path l task) = Some (case file_data fs (task_path l task) of Some b \<Rightarrow> b | None \<Rightarrow> [])"
    using o(1) f1 by simp
  have "file_data fs' q = file_data fs q" if "q \<noteq> task_path l task" for q
    using write_ok(2) [OF p(5) f2 that] o(2) [OF that] f1 [of q] by (simp add: file_data_def)
  then show ?thesis using that p(1,2) write_ok(1) [OF p(5) f2] by simp
qed

lemma stored_entry_line:
  assumes "writer_ok sign verify l" "legal_append sign l task (flt, now, e)" "l_priv l = Some priv"
    "sign_entry sign priv (stamp_entry now task e) = ok (e2, line)"
  shows "log_line line" "read_lines verify l n [line] = ok [stored_entry sign l now task e]"
proof -
  let ?e1 = "stamp_entry now task e"
  have ok1: "entry_ok ?e1" and s1: "en_sig ?e1 = []"
    using assms(2) by (simp_all add: legal_append_def stamp_entry_def)
  obtain payload where p: "marshal_entry ?e1 = Some payload" "e2 = ?e1\<lparr>en_sig := b64_enc (sign priv payload)\<rparr>"
    "marshal_entry e2 = Some line" "unmarshal_entry line = ok (canon_entry e2)"
    using sign_entry_ok [OF ok1 s1 assms(4)] by blast
  have st: "stored_entry sign l now task e = (canon_entry ?e1)\<lparr>en_sig := b64_enc (sign priv payload)\<rparr>"
    by (simp add: stored_entry_def Let_def p(1) assms(3))
  then have c2: "canon_entry e2 = stored_entry sign l now task e" using p(2) canon_sig by simp
  have "marshal_entry (stored_entry sign l now task e) = Some line"
    using marshal_canon [OF entry_ok_sig [OF ok1], of "sign priv payload"] p(2,3) c2 by simp
  then have len: "length line < default_max_token" using assms(2) by (simp add: legal_append_def)
  note cl = clean_marshal [OF p(3)]
  show "log_line line" using len cl clean_no_NL by (simp add: log_line_def)
  have "verify_entry verify l (stored_entry sign l now task e) = Some True"
    unfolding st using assms(1,3) by (intro verify_stored [OF ok1 s1 p(1)]) (auto simp: writer_ok_def)
  then show "read_lines verify l n [line] = ok [stored_entry sign l now task e]"
    using cl p(4) c2 by (simp add: read_lines_step)
qed

definition ledger_get :: "verifier \<Rightarrow> ledger \<Rightarrow> fs \<Rightarrow> string \<Rightarrow> entry list" where
  "ledger_get verify l fs task = fst (read_task verify no_faults l fs task)"

lemma ledger_append_log:
  assumes "ledger_inv verify l fs" "writer_ok sign verify l" "SLASH \<notin> set task"
    "legal_append sign l task (flt, now, e)" "append_entry sign flt now l fs task e = ok fs'"
  shows "\<exists>ls. file_data fs' (task_path l task) = Some (log_text ls) \<and> list_all log_line ls
     \<and> read_lines verify l 0 ls = ok (ledger_get verify l fs task @ [stored_entry sign l now task e])"
proof -
  obtain priv e2 line old where p: "l_priv l = Some priv"
    "sign_entry sign priv (stamp_entry now task e) = ok (e2, line)"
    "file_data fs (task_path l task) = old"
    "file_data fs' (task_path l task) = Some ((case old of Some b \<Rightarrow> b | None \<Rightarrow> []) @ line @ [NL])"
    by (rule append_entry_ok [OF assms(5,2,3)])
  note sl = stored_entry_line [OF assms(2,4) p(1,2)]
  have "\<exists>ls. (case old of Some b \<Rightarrow> b | None \<Rightarrow> []) = log_text ls \<and> list_all log_line ls
      \<and> read_lines verify l 0 ls = ok (ledger_get verify l fs task)"
  proof (cases old)
    case None
    then show ?thesis
      using read_task_none [of fs l task verify] p(3) by (intro exI [of _ "[]"]) (simp add: log_text_def ledger_get_def)
  next
    case (Some b)
    then obtain ls es where "b = log_text ls" "list_all log_line ls" "read_lines verify l 0 ls = ok es"
      using assms(1,3) p(3) by (fastforce simp: ledger_inv_def is_log_def)
    then show ?thesis using Some p(3) read_task_log [of fs l task ls verify es] by (auto simp: ledger_get_def)
  qed
  then obtain ls where ls: "(case old of Some b \<Rightarrow> b | None \<Rightarrow> []) = log_text ls" "list_all log_line ls"
    "read_lines verify l 0 ls = ok (ledger_get verify l fs task)" by blast
  have "read_lines verify l 0 (ls @ [line]) = ok (ledger_get verify l fs task @ [stored_entry sign l now task e])"
    using read_lines_append [OF sl(2) ls(3)] .
  then show ?thesis
    using p(4) ls sl(1) by (intro exI [of _ "ls @ [line]"]) (simp add: log_text_def)
qed

lemma ledger_append_other:
  assumes "writer_ok sign verify l" "SLASH \<notin> set task" "append_entry sign flt now l fs task e = ok fs'"
    "SLASH \<notin> set other" "other \<noteq> task"
  shows "file_data fs' (task_path l other) = file_data fs (task_path l other)"
proof -
  have "task_path l other \<noteq> task_path l task"
    using task_path_inj [of l other task] assms by (auto simp: writer_ok_def)
  then show ?thesis using append_entry_ok [OF assms(3,1,2)] by metis
qed

lemma ledger_append_inv:
  assumes "ledger_inv verify l fs" "writer_ok sign verify l" "SLASH \<notin> set task"
    "legal_append sign l task (flt, now, e)" "append_entry sign flt now l fs task e = ok fs'"
  shows "ledger_inv verify l fs'"
  unfolding ledger_inv_def
proof (intro allI impI)
  fix other :: string
  assume o: "SLASH \<notin> set other"
  show "case file_data fs' (task_path l other) of None \<Rightarrow> True | Some b \<Rightarrow> is_log verify l b"
  proof (cases "other = task")
    case True
    with ledger_append_log [OF assms] show ?thesis unfolding is_log_def by auto blast
  next
    case False
    with ledger_append_other [OF assms(2,3,5) o] assms(1) o show ?thesis by (simp add: ledger_inv_def)
  qed
qed

interpretation ledger_log: task_log
  "\<lambda>fs. writer_ok sign verify l \<and> ledger_inv verify l fs"
  "\<lambda>task. SLASH \<notin> set task"
  "legal_append sign l"
  "ledger_append sign l"
  "ledger_get verify l"
  "\<lambda>task (flt, now, e). stored_entry sign l now task e"
  for sign verify l
proof (unfold_locales, goal_cases)
  case (1 s k x s')
  then show ?case
    using ledger_append_inv by (cases x) (auto simp: ledger_append_def split: sum.splits)
next
  case (2 s k x s')
  obtain flt now e where x: "x = (flt, now, e)" by (cases x)
  then have "append_entry sign flt now l s k e = ok s'"
    using 2 by (auto simp: ledger_append_def split: sum.splits)
  with 2 x obtain ls where "file_data s' (task_path l k) = Some (log_text ls)" "list_all log_line ls"
    "read_lines verify l 0 ls = ok (ledger_get verify l s k @ [stored_entry sign l now k e])"
    using ledger_append_log by blast
  then show ?case using read_task_log x by (simp add: ledger_get_def)
next
  case (3 s k x s' j)
  obtain flt now e where x: "x = (flt, now, e)" by (cases x)
  then have "append_entry sign flt now l s k e = ok s'"
    using 3 by (auto simp: ledger_append_def split: sum.splits)
  then have "file_data s' (task_path l j) = file_data s (task_path l j)"
    using ledger_append_other 3 by blast
  then show ?case unfolding ledger_get_def by (rule read_task_cong) (rule refl)
qed

end
