(* ===== verification/Ledger_Audit.thy ===== *)
theory Ledger_Audit
  imports Ledger "HOL-Library.Multiset"
begin

text \<open>
  What the signed trail guarantees to its readers: everything appended is read back, nothing that
  was not signed is, a corrupt line is reported with its number, a tenant sees exactly its own
  entries; and the two cases in which an entry that \<open>Append\<close> accepted cannot be read back, text
  that is not UTF-8 and lines longer than the reader's buffer.
\<close>

section \<open>Appended entries are read back\<close>

lemma read_task_inv:
  assumes "ledger_inv verify l fs" "SLASH \<notin> set task" "file_data fs (task_path l task) = Some b"
  shows "read_task verify no_faults l fs task = (ledger_get verify l fs task, None)"
proof -
  obtain ls es where "b = log_text ls" "list_all log_line ls" "read_lines verify l 0 ls = ok es"
    using assms by (fastforce simp: ledger_inv_def is_log_def)
  with assms(3) show ?thesis using read_task_log [of fs l task ls verify es] by (simp add: ledger_get_def)
qed

lemma trail_read:
  assumes "writer_ok sign verify l" "ledger_inv verify l fs"
    and "fold_opt (ledger_append sign l) ops fs = Some fs'"
    and "\<And>t x. (t, x) \<in> set ops \<Longrightarrow> SLASH \<notin> set t \<and> legal_append sign l t x"
    and "task \<in> fst ` set ops"
  shows "read_task verify no_faults l fs' task =
     (ledger_get verify l fs task
        @ map (\<lambda>(t, flt, now, e). stored_entry sign l now t e) (filter (\<lambda>(t, x). t = task) ops), None)"
proof -
  have n: "SLASH \<notin> set task" using assms(4,5) by auto
  have inv: "writer_ok sign verify l \<and> ledger_inv verify l fs" using assms(1,2) by simp
  note tr = ledger_log.trail [OF inv assms(3,4) n]
  then have g: "ledger_get verify l fs' task = ledger_get verify l fs task
      @ map (\<lambda>(t, flt, now, e). stored_entry sign l now t e) (filter (\<lambda>(t, x). t = task) ops)"
    by (simp add: case_prod_unfold)
  have "filter (\<lambda>(t, x). t = task) ops \<noteq> []" using assms(5) by (auto simp: filter_empty_conv)
  then have "ledger_get verify l fs' task \<noteq> []" using g by simp
  then obtain b where "file_data fs' (task_path l task) = Some b"
    using read_task_none [of fs' l task verify] by (auto simp: ledger_get_def)
  with tr n read_task_inv [of verify l fs' task b] g show ?thesis by simp
qed

text \<open>C1. Completeness of the trail.  Start from a ledger directory whose files hold verified
  lines (\<open>ledger_inv\<close>) and append any sequence of entries to any tasks, each append under its own table of I/O
  faults, where each entry is legal (\<open>legal_append\<close>: strings that are valid UTF-8, data that is JSON or empty, times and
  durations in range, and a marshalled line below the 64 KiB of the scanner).  If all appends report success, then reading a
  task that was appended to returns, with no error, the entries it had before followed by exactly the entries appended
  to that task, in the order of the appends, stamped and signed, whatever was interleaved for other tasks.\<close>

theorem ledger_trail:
  assumes "writer_ok sign verify l" "ledger_inv verify l fs"
    and "fold_opt (ledger_append sign l) ops fs = Some fs'"
    and "\<And>t x. (t, x) \<in> set ops \<Longrightarrow> SLASH \<notin> set t \<and> legal_append sign l t x"
    and "task \<in> fst ` set ops"
  shows "read_task verify no_faults l fs' task =
     (ledger_get verify l fs task
        @ map (\<lambda>(t, flt, now, e). stored_entry sign l now t e) (filter (\<lambda>(t, x). t = task) ops), None)"
  by (rule trail_read [OF assms])

section \<open>Nothing else is\<close>

definition fields_ok :: "entry \<Rightarrow> bool" where
  "fields_ok e \<longleftrightarrow> time_ok (en_ts e) \<and> in_int64 (en_duration_ms e)
     \<and> list_all valid_utf8 [en_task_id e, en_tenant_id e, en_phase e, en_action e, en_result e,
          en_stderr_tail e, en_stdout_tail e, en_sig e]"

text \<open>What decoding makes of an entry whose strings are arbitrary bytes.\<close>

definition coerce_entry :: "entry \<Rightarrow> entry" where
  "coerce_entry e = e\<lparr> en_task_id := coerce (en_task_id e), en_tenant_id := coerce (en_tenant_id e),
     en_phase := coerce (en_phase e), en_action := coerce (en_action e), en_result := coerce (en_result e),
     en_stderr_tail := coerce (en_stderr_tail e), en_stdout_tail := coerce (en_stdout_tail e),
     en_sig := coerce (en_sig e) \<rparr>"

lemma get_string_coerce:
  "field_raws ms name = [json_quote s] \<Longrightarrow> get_field dec_string z ms name = ok (coerce s)"
  "field_raws ms name = (if s = [] then [] else [json_quote s]) \<Longrightarrow> get_field dec_string [] ms name = ok (coerce s)"
  by (auto simp: get_field_def)

lemma coerce_of_printed:
  assumes "time_ok (en_ts e)" "in_int64 (en_duration_ms e)"
  shows "entry_of_members (printed (entry_members e d)) = ok ((coerce_entry e)\<lparr>en_data := (if en_data e = [] then [] else d)\<rparr>)"
proof -
  note r = entry_raws [of e d]
  show ?thesis
    unfolding entry_of_members_def using assms
    by (simp add: get_time [OF r(1)] get_string_coerce(1) [OF r(2)] get_string_coerce(2) [OF r(3)]
        get_string_coerce(1) [OF r(4)] get_string_coerce(1) [OF r(5)] get_string_coerce(1) [OF r(6)]
        get_raw [OF r(7)] get_int(2) [OF r(8)] get_string_coerce(2) [OF r(9)]
        get_string_coerce(2) [OF r(10)] get_string_coerce(2) [OF r(11)] coerce_entry_def)
qed

lemma coerce_entry_id: "fields_ok e \<Longrightarrow> coerce_entry e = e"
  by (cases e) (simp add: coerce_entry_def fields_ok_def valid_utf8_def)

lemma fields_of_printed:
  "fields_ok e \<Longrightarrow> entry_of_members (printed (entry_members e d)) = ok (e\<lparr>en_data := (if en_data e = [] then [] else d)\<rparr>)"
  using coerce_of_printed [of e d] coerce_entry_id [of e] by (simp add: fields_ok_def)

lemma unmarshal_fields:
  assumes "unmarshal_entry s = ok e" "time_json_ok (en_ts e)"
  shows "fields_ok e"
proof -
  obtain ms where "entry_of_members ms = ok e"
    using assms(1) by (auto simp: unmarshal_entry_def split: sum.splits)
  then have g: "get_field dec_time zero_time ms ''ts'' = ok (en_ts e)"
    "get_field dec_string [] ms ''task_id'' = ok (en_task_id e)"
    "get_field dec_string [] ms ''tenant_id'' = ok (en_tenant_id e)"
    "get_field dec_string [] ms ''phase'' = ok (en_phase e)"
    "get_field dec_string [] ms ''action'' = ok (en_action e)"
    "get_field dec_string [] ms ''result'' = ok (en_result e)"
    "get_field dec_int64 0 ms ''duration_ms'' = ok (en_duration_ms e)"
    "get_field dec_string [] ms ''stderr_tail'' = ok (en_stderr_tail e)"
    "get_field dec_string [] ms ''stdout_tail'' = ok (en_stdout_tail e)"
    "get_field dec_string [] ms ''sig'' = ok (en_sig e)"
    by (auto simp: entry_of_members_def split: sum.splits)
  have str: "valid_utf8 x" if "get_field dec_string [] ms name = ok x" for x name
    using get_field_post [OF that, of valid_utf8] dec_string_valid by auto
  have "t_off (en_ts e) mod 60 = 0"
    using get_field_post [OF g(1), of "\<lambda>t. t_off t mod 60 = 0"] dec_time_minutes by (auto simp: zero_time_def)
  moreover have "\<bar>t_off (en_ts e)\<bar> < 86400" using assms(2) unfolding time_json_ok_def by linarith
  ultimately have "time_ok (en_ts e)" using assms(2) by (simp add: time_ok_def time_json_ok_def)
  moreover have "in_int64 (en_duration_ms e)"
    using get_field_post [OF g(7), of in_int64] dec_int64_range by (auto simp: in_int64_def min_int64_def max_int64_def)
  ultimately show ?thesis using str g by (auto simp: fields_ok_def)
qed

lemma flat_kvs_printed: "flat_kvs (map (\<lambda>(k, t). (k, json_print t)) kvs) = flat_kvs (printed kvs)"
  by (simp add: printed_def)

lemma flat_kvs_keys:
  assumes "flat_kvs a = flat_kvs b" "list_all (\<lambda>(k, t). list_all (\<lambda>c. byte c < 128) k) a"
    "list_all (\<lambda>(k, t). list_all (\<lambda>c. byte c < 128) k) b"
  shows "a = b"
  using assms
proof (induction a arbitrary: b rule: flat_kvs.induct)
  case 1
  then show ?case by (cases b rule: flat_kvs.cases) auto
next
  case (2 k v r)
  then obtain k' v' r' where b: "b = (k', v') # r'" by (cases b rule: flat_kvs.cases) auto
  with 2 have "json_quote k = json_quote k'" by simp
  then have "coerce k = coerce k'" using json_unquote_quote by (metis option.inject)
  with 2 b show ?case by (simp add: coerce_ascii)
qed

text \<open>Two entries with the same marshalled text agree in every field, the raw data up to
  compaction.\<close>

lemma marshal_entry_shape:
  assumes "marshal_entry e = Some m"
  shows "\<exists>d. m = json_print (JObj (entry_members e d)) \<and> (en_data e = [] \<or> completes max_nesting d)
     \<and> canon_entry e = e\<lparr>en_data := (if en_data e = [] then [] else d)\<rparr>"
  using assms compact_completes [of max_nesting "en_data e"]
  by (auto simp: marshal_entry_def canon_entry_def json_compact_def simp del: json_print.simps
      split: if_splits option.splits)

lemma marshal_entry_inj:
  assumes "marshal_entry e = Some m" "marshal_entry x = Some m" "fields_ok e" "fields_ok x"
  shows "canon_entry e = canon_entry x"
proof -
  obtain d where d: "m = json_print (JObj (entry_members e d))" "en_data e = [] \<or> completes max_nesting d"
    "canon_entry e = e\<lparr>en_data := (if en_data e = [] then [] else d)\<rparr>"
    using marshal_entry_shape [OF assms(1)] by blast
  obtain d' where d': "m = json_print (JObj (entry_members x d'))" "en_data x = [] \<or> completes max_nesting d'"
    "canon_entry x = x\<lparr>en_data := (if en_data x = [] then [] else d')\<rparr>"
    using marshal_entry_shape [OF assms(2)] by blast
  have c: "completes max_nesting v" if "(k, v) \<in> set (printed (entry_members y z))" "en_data y = [] \<or> completes max_nesting z" for k v y z
    using entry_members_complete [OF that(2)] that(1) jcomplete_print
    by (fastforce simp: printed_def list_all_iff)
  have eq: "obj_text [] [] [] (printed (entry_members e d)) = obj_text [] [] [] (printed (entry_members x d'))"
    using d(1) d'(1) unfolding json_print_obj printed_def by simp
  have "flat_kvs (printed (entry_members e d)) = flat_kvs (printed (entry_members x d'))"
    by (rule obj_text_inj [OF c [OF _ d(2)] c [OF _ d'(2)] eq])
  then have "printed (entry_members e d) = printed (entry_members x d')"
    by (rule flat_kvs_keys) (use entry_members_keys in \<open>fastforce simp: printed_def list_all_iff\<close>)+
  then have "entry_of_members (printed (entry_members e d)) = entry_of_members (printed (entry_members x d'))" by simp
  then show ?thesis
    unfolding fields_of_printed [OF assms(3)] fields_of_printed [OF assms(4)] d(3) d'(3) by simp
qed

lemma read_lines_entry:
  assumes "read_lines verify l n ls = ok es" "e \<in> set es"
  shows "\<exists>raw. unmarshal_entry raw = ok e \<and> verify_entry verify l e = Some True"
  using assms
proof (induction ls arbitrary: n es)
  case (Cons t ls)
  then show ?case
    by (cases "trim_space t = []") (auto simp: read_lines_step)
qed simp

text \<open>C3.  No forgery.  Suppose the only messages that verify under the ledger's public key are
  the payloads of entries that were really signed (\<open>signed\<close>, stamped entries without
  signature).  Then every entry that \<open>Read\<close> returns, from whatever bytes an attacker left in
  the file and with whatever I/O faults, is one of those entries in every field, its raw data up to
  insignificant white space.\<close>

theorem ledger_no_forgery:
  assumes "\<And>m s. verify (l_pub l) m s \<Longrightarrow> \<exists>x \<in> set signed. marshal_entry x = Some m"
    and "\<And>x. x \<in> set signed \<Longrightarrow> entry_ok x \<and> en_sig x = []"
    and "e \<in> set (fst (read_task verify flt l fs task))"
  shows "\<exists>x \<in> set signed. canon_entry (e\<lparr>en_sig := []\<rparr>) = canon_entry x"
proof -
  obtain ls es n where "read_lines verify l n ls = ok es" "e \<in> set es"
    using assms(3) by (auto simp: read_task_def split: sum.splits prod.splits)
  then obtain raw where raw: "unmarshal_entry raw = ok e" "verify_entry verify l e = Some True"
    using read_lines_entry by blast
  then obtain sg payload where p: "marshal_entry (e\<lparr>en_sig := []\<rparr>) = Some payload" "verify (l_pub l) payload sg"
    by (auto simp: verify_entry_def split: option.splits if_splits)
  then obtain x where x: "x \<in> set signed" "marshal_entry x = Some payload" using assms(1) by blast
  have "time_json_ok (en_ts e)" using p(1) by (auto simp: marshal_entry_def split: if_splits)
  then have "fields_ok (e\<lparr>en_sig := []\<rparr>)" using unmarshal_fields [OF raw(1)] by (simp add: fields_ok_def)
  moreover have "fields_ok x" using assms(2) [OF x(1)] by (simp add: entry_ok_def fields_ok_def)
  ultimately show ?thesis using marshal_entry_inj [OF p(1) x(2)] x(1) by blast
qed

section \<open>Corrupt lines\<close>

lemma read_lines_bad:
  assumes "read_lines verify l n pre = ok es" "trim_space t \<noteq> []" "unmarshal_entry (trim_space t) = ok e"
    "verify_entry verify l e = Some False"
  shows "read_lines verify l n (pre @ t # post) = err (LBadSig (Suc (n + length pre)))"
  using assms(1)
proof (induction pre arbitrary: n es)
  case Nil
  with assms(2-4) show ?case by (simp add: read_lines.simps(2) Let_def)
next
  case (Cons u pre)
  show ?case
  proof (cases "trim_space u = []")
    case True
    with Cons.prems have "read_lines verify l (Suc n) pre = ok es" by (simp add: read_lines_step)
    from Cons.IH [OF this] True show ?thesis by (simp add: read_lines.simps(2) Let_def)
  next
    case False
    with Cons.prems obtain e' es' where "unmarshal_entry (trim_space u) = ok e'" "verify_entry verify l e' = Some True"
      "read_lines verify l (Suc n) pre = ok es'" by (auto simp: read_lines_step)
    with Cons.IH [OF this(3)] False show ?thesis by (simp add: read_lines.simps(2) Let_def)
  qed
qed

text \<open> A corrupt line stops the read and is named.  If the lines before it verify and line
  \<open>k\<close> parses but its signature does not, \<open>Read\<close> returns no entry at all and the error
  \<open>ErrBadSignature\<close> with the 1-based number of that line, blank lines counted.\<close>

theorem read_reports_bad_line:
  assumes "os_read_file flt fs (task_path l task) = ok b"
    and "scan_lines default_max_token b = (pre @ t # post, tooLong)"
    and "read_lines verify l 0 pre = ok es" "trim_space t \<noteq> []"
    and "unmarshal_entry (trim_space t) = ok e" "verify_entry verify l e = Some False"
  shows "read_task verify flt l fs task = ([], Some (LBadSig (Suc (length pre))))"
  using assms(1,2) read_lines_bad [OF assms(3-6)] by (simp add: read_task_def)

section \<open>Entries that cannot be read back\<close>

text \<open>Re-marshalling a decoded entry whose strings were not UTF-8 gives another text.\<close>

lemma entry_quotes_differ:
  assumes "printed (entry_members e d) = printed (entry_members (coerce_entry e) d')"
  shows "list_all valid_utf8 [en_task_id e, en_tenant_id e, en_phase e, en_action e, en_result e,
          en_stderr_tail e, en_stdout_tail e, en_sig e]"
proof -
  have f: "field_raws (printed (entry_members e d)) n = field_raws (printed (entry_members (coerce_entry e) d')) n" for n
    using assms by simp
  note r = entry_raws [of e d] entry_raws [of "coerce_entry e" d']
  show ?thesis
    using f [of "''task_id''"] f [of "''tenant_id''"] f [of "''phase''"] f [of "''action''"] f [of "''result''"]
      f [of "''stderr_tail''"] f [of "''stdout_tail''"] f [of "''sig''"]
    unfolding r by (simp add: coerce_entry_def quote_coerce_eq split: if_splits)
qed

definition rest_ok :: "entry \<Rightarrow> bool" where
  "rest_ok e \<longleftrightarrow> time_ok (en_ts e) \<and> in_int64 (en_duration_ms e)
     \<and> (en_data e = [] \<or> raw_ok (max_nesting - 1) (en_data e))"

definition strings_ok :: "entry \<Rightarrow> bool" where
  "strings_ok e \<longleftrightarrow> list_all valid_utf8 [en_task_id e, en_tenant_id e, en_phase e, en_action e, en_result e,
      en_stderr_tail e, en_stdout_tail e]"

lemma rest_ok_marshal:
  assumes "rest_ok e"
  obtains d where "marshal_entry e = Some (json_print (JObj (entry_members e d)))"
    "en_data e = [] \<or> json_compact d = Some d \<and> completes (max_nesting - 1) d \<and> d \<noteq> []"
    "en_data e = [] \<or> json_compact (en_data e) = Some d"
proof (cases "en_data e = []")
  case True
  with assms that [of "[]"] show ?thesis by (simp add: marshal_entry_def rest_ok_def time_ok_json)
next
  case False
  with assms obtain d where "json_compact (en_data e) = Some d" "json_compact d = Some d" "completes (max_nesting - 1) d"
    using raw_ok_compact [of "max_nesting - 1" "en_data e"] by (auto simp: rest_ok_def)
  with assms that [of d] False show ?thesis
    using compact_not_Nil by (simp add: marshal_entry_def rest_ok_def time_ok_json)
qed

lemma rest_ok_unmarshal:
  assumes "rest_ok e" "en_data e = [] \<or> completes (max_nesting - 1) d"
  shows "unmarshal_entry (json_print (JObj (entry_members e d)))
       = ok ((coerce_entry e)\<lparr>en_data := (if en_data e = [] then [] else d)\<rparr>)"
proof -
  have "Suc (max_nesting - 1) \<le> max_nesting" by (simp add: max_nesting_def)
  from json_members_print [OF entry_members_complete [OF assms(2)] this]
  have "json_members (json_print (JObj (entry_members e d))) = ok (printed (entry_members e d))"
    by (simp add: printed_def coerced_keys [OF entry_members_keys])
  then show ?thesis using assms(1) by (simp add: unmarshal_entry_def coerce_of_printed rest_ok_def)
qed

lemma print_members_inj:
  assumes "json_print (JObj (entry_members e d)) = json_print (JObj (entry_members x d'))"
    "en_data e = [] \<or> completes n d" "en_data x = [] \<or> completes n d'"
  shows "printed (entry_members e d) = printed (entry_members x d')"
proof -
  have c: "completes n v" if "(k, v) \<in> set (printed (entry_members y z))" "en_data y = [] \<or> completes n z" for k v y z
    using entry_members_complete [OF that(2)] that(1) jcomplete_print
    by (fastforce simp: printed_def list_all_iff)
  have eq: "obj_text [] [] [] (printed (entry_members e d)) = obj_text [] [] [] (printed (entry_members x d'))"
    using assms(1) unfolding json_print_obj printed_def by simp
  have "flat_kvs (printed (entry_members e d)) = flat_kvs (printed (entry_members x d'))"
    by (rule obj_text_inj [OF c [OF _ assms(2)] c [OF _ assms(3)] eq])
  then show ?thesis
    by (rule flat_kvs_keys) (use entry_members_keys in \<open>fastforce simp: printed_def list_all_iff\<close>)+
qed

lemma remarshal_differs:
  assumes "rest_ok e" "\<not> strings_ok e" "en_sig e = []" "marshal_entry e = Some m"
    "en_data e = [] \<or> json_compact (en_data e) = Some d"
  shows "marshal_entry ((coerce_entry e)\<lparr>en_data := (if en_data e = [] then [] else d)\<rparr>) \<noteq> Some m"
proof
  let ?x = "(coerce_entry e)\<lparr>en_data := (if en_data e = [] then [] else d)\<rparr>"
  assume x: "marshal_entry ?x = Some m"
  obtain d1 where d1: "m = json_print (JObj (entry_members e d1))" "en_data e = [] \<or> completes max_nesting d1"
    using marshal_entry_shape [OF assms(4)] by blast
  obtain d2 where d2: "m = json_print (JObj (entry_members ?x d2))" "en_data ?x = [] \<or> completes max_nesting d2"
    using marshal_entry_shape [OF x] by blast
  have "en_data e = [] \<longleftrightarrow> en_data ?x = []" using assms(5) compact_not_Nil by auto
  then have mem: "entry_members ?x d2 = entry_members (coerce_entry e) d2"
    by (intro entry_members_data) (simp add: coerce_entry_def)
  have "printed (entry_members e d1) = printed (entry_members (coerce_entry e) d2)"
    using print_members_inj [OF trans [OF d1(1) [symmetric] d2(1)] d1(2) d2(2)] unfolding mem .
  from entry_quotes_differ [OF this] assms(2) show False by (simp add: strings_ok_def)
qed

text \<open>C20. Text that is not UTF-8 makes a task unreadable.  \<open>Append\<close> signs the marshalled
  entry, in which an invalid byte is the escape of U+FFFD; \<open>Read\<close> decodes it to the rune itself
  and marshals again, which writes the rune unescaped.  So after a successful append of the first entry of a task (it had no file),
  when that entry has a string that is not valid UTF-8 (a log tail cut inside a rune is one) and fits the scanner's line, reading the
  task fails with \<open>ErrBadSignature\<close>, for every signature scheme in which the signature of the
  payload verifies no other message.\<close>

theorem append_not_utf8_unreadable:
  assumes "writer_ok sign verify l" "l_priv l = Some priv" "SLASH \<notin> set task"
    and "marshal_entry (stamp_entry now task e) = Some payload"
    and "\<And>m. verify (l_pub l) m (sign priv payload) \<Longrightarrow> m = payload"
    and "file_data fs (task_path l task) = None"
    and "rest_ok (stamp_entry now task e)" "\<not> strings_ok (stamp_entry now task e)"
    and "append_entry sign flt now l fs task e = ok fs'"
    and "file_data fs' (task_path l task) = Some b" "length b \<le> default_max_token"
  shows "read_task verify no_faults l fs' task = ([], Some (LBadSig 1))"
proof -
  let ?e1 = "stamp_entry now task e"
  have s1: "en_sig ?e1 = []" by (simp add: stamp_entry_def)
  obtain e2 line where p: "sign_entry sign priv ?e1 = ok (e2, line)" "b = line @ [NL]"
    by (rule append_entry_ok [OF assms(9,1,3)]) (use assms(2,6,10) in auto)
  then have pay: "marshal_entry ?e1 = Some payload"
    "e2 = ?e1\<lparr>en_sig := b64_enc (sign priv payload)\<rparr>" "marshal_entry e2 = Some line"
    using assms(4) by (auto simp: sign_entry_def Let_def split: option.splits if_splits)
  have r2: "rest_ok e2" "en_data e2 = en_data ?e1" using assms(7) pay(2) by (auto simp: rest_ok_def)
  obtain d where d: "marshal_entry e2 = Some (json_print (JObj (entry_members e2 d)))"
    "en_data e2 = [] \<or> json_compact d = Some d \<and> completes (max_nesting - 1) d \<and> d \<noteq> []"
    "en_data e2 = [] \<or> json_compact (en_data e2) = Some d"
    by (rule rest_ok_marshal [OF r2(1)])
  define e3 where "e3 = (coerce_entry e2)\<lparr>en_data := (if en_data e2 = [] then [] else d)\<rparr>"
  have un: "unmarshal_entry line = ok e3"
    using rest_ok_unmarshal [OF r2(1), of d] d pay(3) unfolding e3_def by auto
  have sig3: "en_sig e3 = b64_enc (sign priv payload)"
    unfolding e3_def pay(2) by (simp add: coerce_entry_def valid_utf8_b64 [unfolded valid_utf8_def])
  have e31: "e3\<lparr>en_sig := []\<rparr> = (coerce_entry ?e1)\<lparr>en_data := (if en_data ?e1 = [] then [] else d)\<rparr>"
    unfolding e3_def pay(2) using s1 by (cases ?e1) (simp add: coerce_entry_def)
  have w: "length (sign priv payload) = signature_size" "length (l_pub l) = public_key_size"
    using assms(1,2) by (auto simp: writer_ok_def)
  have "marshal_entry (e3\<lparr>en_sig := []\<rparr>) \<noteq> Some payload"
    unfolding e31 using remarshal_differs [OF assms(7,8) s1 pay(1), of d] d(3) r2(2) by simp
  then have "verify_entry verify l e3 = Some False"
    using assms(5) w by (auto simp: verify_entry_def sig3 b64_dec_enc split: option.split)
  note cl = clean_marshal [OF pay(3)]
  have ll: "list_all log_line [line]" "b = log_text [line]"
    using cl clean_no_NL p(2) assms(11) by (auto simp: log_line_def log_text_def)
  have "read_lines verify l 0 [line] = err (LBadSig 1)"
    using read_lines_bad [of verify l 0 "[]" "[]" line e3 "[]"] un cl \<open>verify_entry verify l e3 = Some False\<close> by simp
  then show ?thesis
    using scan_log [OF ll(1)] file_data_read [OF assms(10)] ll(2) by (simp add: read_task_def)
qed

text \<open> A long entry hides what follows.  \<open>Append\<close> has no bound on the length of a line,
  the scanner of \<open>Read\<close> stops at 64 KiB: once a line of that length is in a task's file,
  every later read returns only the entries before it together with the scanner's error, whatever
  is appended afterwards.\<close>

theorem long_line_hides_tail:
  assumes "file_data fs (task_path l task) = Some (log_text ls @ line @ NL # rest)"
    and "list_all log_line ls" "read_lines verify l 0 ls = ok es"
    and "NL \<notin> set line" "default_max_token \<le> length line"
  shows "read_task verify no_faults l fs task = (es, Some LScan)"
proof -
  have "raw_lines (log_text ls @ line @ NL # rest) = ls @ line # raw_lines rest"
    using assms(2)
  proof (induction ls)
    case Nil
    show ?case using raw_lines_unfold(2) [OF assms(4)] by (simp add: log_text_def del: raw_lines.simps)
  next
    case (Cons a ls)
    then have "NL \<notin> set a" by (simp add: log_line_def)
    from raw_lines_unfold(2) [OF this, of "log_text ls @ line @ NL # rest"] Cons show ?case
      by (simp add: log_text_def del: raw_lines.simps)
  qed
  moreover have "cut_lines default_max_token (ls @ line # more) = (ls, True)" for more
    using assms(2,5) by (induction ls) (auto simp: log_line_def drop_cr_def)
  ultimately have "scan_lines default_max_token (log_text ls @ line @ NL # rest) = (ls, True)"
    by (simp add: scan_lines_def del: raw_lines.simps)
  then show ?thesis using file_data_read [OF assms(1)] assms(3) by (simp add: read_task_def)
qed

section \<open>Tenants\<close>

lemma read_tenant_loop_ok:
  "read_tenant_loop verify flt l fs tenant ids =
     (case find (\<lambda>t. snd (read_task verify flt l fs t) \<noteq> None) ids of
        Some t \<Rightarrow> err (case snd (read_task verify flt l fs t) of Some x \<Rightarrow> x | None \<Rightarrow> LScan)
      | None \<Rightarrow> ok (filter (\<lambda>e. en_tenant_id e = tenant) (concat (map (\<lambda>t. fst (read_task verify flt l fs t)) ids))))"
  by (induction ids) (auto split: prod.splits option.splits)

text \<open> The entries of the tenants partition the ledger.  When every task file is readable,
  the result of \<open>ReadByTenant\<close> for a tenant is exactly the sub-collection of that tenant's
  entries, with multiplicity, of everything in the ledger: no billing entry is lost, none is
  attributed twice or to somebody else.\<close>

theorem tenants_partition_ledger:
  assumes "tasks flt l fs = ok ids" "\<And>t. t \<in> set ids \<Longrightarrow> snd (read_task verify flt l fs t) = None"
  shows "\<exists>es. read_by_tenant verify flt l fs tenant = ok es
     \<and> mset es = filter_mset (\<lambda>e. en_tenant_id e = tenant) (\<Sum>t\<in>#mset ids. mset (fst (read_task verify flt l fs t)))"
proof -
  have "find (\<lambda>t. snd (read_task verify flt l fs t) \<noteq> None) ids = None"
    using assms(2) by (auto simp: find_None_iff)
  moreover have "mset (concat (map f ids)) = (\<Sum>t\<in>#mset ids. mset (f t))" for f :: "string \<Rightarrow> entry list"
    by (induction ids) auto
  ultimately show ?thesis
    using assms(1) by (simp add: read_by_tenant_def read_tenant_loop_ok)
qed

section \<open>Appends succeed\<close>

text \<open>Nothing in the file system stands in the way of a ledger directory.\<close>

definition dir_free :: "ledger \<Rightarrow> fs \<Rightarrow> bool" where
  "dir_free l fs \<longleftrightarrow> \<not> list_ex (is_file fs) (ancestors (l_dir l))
     \<and> (\<forall>task. SLASH \<notin> set task \<longrightarrow> \<not> is_dir fs (task_path l task))"

lemma is_file_cong: "map_of fs p = map_of fs' p \<Longrightarrow> is_file fs p = is_file fs' p"
  by (simp add: is_file_def)

lemma is_dir_cong: "map_of fs p = map_of fs' p \<Longrightarrow> is_dir fs p = is_dir fs' p"
  by (simp add: is_dir_def)

lemma task_not_ancestor:
  "proper_dir (l_dir l) \<Longrightarrow> SLASH \<notin> set task \<Longrightarrow> task_path l task \<notin> set (ancestors (l_dir l))"
  using ancestors_length [of "l_dir l" "task_path l task"] by (auto simp: task_path_eq)

lemma open_create_map:
  assumes "os_open_create flt False fs p mode = ok fs'"
  shows "is_file fs' p" "q \<noteq> p \<Longrightarrow> map_of fs' q = map_of fs q"
  using assms
  by (auto simp: os_open_create_def is_file_def update_conv split: option.splits fnode.splits if_splits)

lemma append_succeeds:
  assumes "writer_ok sign verify l" "SLASH \<notin> set task" "dir_free l fs" "rest_ok (stamp_entry now task e)"
  shows "\<exists>fs'. append_entry sign no_faults now l fs task e = ok fs' \<and> dir_free l fs'"
proof -
  obtain priv where priv: "l_priv l = Some priv" "length priv = private_key_size" "proper_dir (l_dir l)"
    using assms(1) by (auto simp: writer_ok_def)
  let ?e1 = "stamp_entry now task e" and ?p = "task_path l task"
  obtain m where m: "marshal_entry ?e1 = Some m" using rest_ok_marshal [OF assms(4)] by blast
  have "rest_ok (?e1\<lparr>en_sig := b64_enc (sign priv m)\<rparr>)" using assms(4) by (simp add: rest_ok_def)
  then obtain line where line: "marshal_entry (?e1\<lparr>en_sig := b64_enc (sign priv m)\<rparr>) = Some line"
    using rest_ok_marshal by blast
  have sg: "sign_entry sign priv ?e1 = ok (?e1\<lparr>en_sig := b64_enc (sign priv m)\<rparr>, line)"
    using m line priv(2) by (simp add: sign_entry_def Let_def)
  define fs1 where "fs1 = foldl (add_dir mode_0700) fs (ancestors (l_dir l))"
  have mk: "os_mkdir_all no_faults fs (l_dir l) mode_0700 = ok fs1"
    using assms(3) by (simp add: os_mkdir_all_fold dir_free_def fs1_def)
  have na: "?p \<notin> set (ancestors (l_dir l))" using task_not_ancestor priv(3) assms(2) by blast
  have same1: "map_of fs1 q = map_of fs q" if "q \<notin> set (ancestors (l_dir l))" for q
    using that by (auto simp: fs1_def mkdir_fold)
  have nd: "\<not> is_dir fs1 ?p" using assms(2,3) is_dir_cong [OF same1 [OF na]] by (simp add: dir_free_def)
  have "is_dir fs1 (dir_path ?p)"
    using mkdir_all_ok(1) [OF mk priv(3)] dir_path_child [OF priv(3) task_path_plain [OF assms(2)]]
      task_path_eq [OF priv(3) assms(2)] by simp
  then obtain fs2 where op: "os_open_create no_faults False fs1 ?p mode_0600 = ok fs2"
    using nd by (auto simp: os_open_create_def is_dir_def split: option.splits fnode.splits)
  then obtain fs3 where wr: "os_write no_faults fs2 ?p (line @ [NL]) = ok fs3" by (simp add: os_write_def)
  have ok: "append_entry sign no_faults now l fs task e = ok fs3"
    using priv(1) sg mk op wr by (simp add: append_entry_def Let_def os_sync_def os_close_def)
  have f3: "is_file fs3 ?p" "\<And>q. q \<noteq> ?p \<Longrightarrow> map_of fs3 q = map_of fs1 q"
    using open_create_map [OF op] wr
    by (auto simp: os_write_def is_file_def Let_def update_conv split: option.splits fnode.splits)
  have "dir_free l fs3"
    unfolding dir_free_def
  proof (intro conjI allI impI)
    have "\<not> is_file fs3 a" if "a \<in> set (ancestors (l_dir l))" for a
    proof -
      have "a \<noteq> ?p" using that na by auto
      then have "map_of fs3 a = map_of fs1 a" by (rule f3(2))
      moreover have "\<not> is_file fs a" using assms(3) that by (auto simp: dir_free_def list_ex_iff)
      ultimately show ?thesis
        using that by (auto simp: is_file_def fs1_def mkdir_fold split: option.splits fnode.splits if_splits)
    qed
    then show "\<not> list_ex (is_file fs3) (ancestors (l_dir l))" by (auto simp: list_ex_iff)
    fix t :: string assume t: "SLASH \<notin> set t"
    have ta: "task_path l t \<notin> set (ancestors (l_dir l))" using task_not_ancestor priv(3) t by blast
    show "\<not> is_dir fs3 (task_path l t)"
    proof (cases "task_path l t = ?p")
      case True
      then show ?thesis using f3(1) by (auto simp: is_file_def is_dir_def split: option.splits fnode.splits)
    next
      case False
      then show ?thesis
        using is_dir_cong [OF trans [OF f3(2) [OF False] same1 [OF ta]]] assms(3) t by (simp add: dir_free_def)
    qed
  qed
  with ok show ?thesis by blast
qed

lemma appends_ok:
  assumes "writer_ok sign verify l" "dir_free l fs"
    and "\<And>t flt now e. (t, flt, now, e) \<in> set ops \<Longrightarrow>
           flt = no_faults \<and> SLASH \<notin> set t \<and> rest_ok (stamp_entry now t e)"
  shows "\<exists>fs'. fold_opt (ledger_append sign l) ops fs = Some fs' \<and> dir_free l fs'"
  using assms(2,3)
proof (induction ops arbitrary: fs)
  case (Cons op ops)
  obtain t flt now e where op: "op = (t, flt, now, e)" by (cases op)
  then have f: "flt = no_faults" "SLASH \<notin> set t" "rest_ok (stamp_entry now t e)" using Cons.prems(2) by auto
  obtain fs1 where "append_entry sign no_faults now l fs t e = ok fs1" "dir_free l fs1"
    using append_succeeds [OF assms(1) f(2) Cons.prems(1) f(3)] by blast
  moreover have "\<exists>fs'. fold_opt (ledger_append sign l) ops fs1 = Some fs' \<and> dir_free l fs'"
    by (rule Cons.IH [OF \<open>dir_free l fs1\<close>]) (rule Cons.prems(2), simp)
  moreover have "ledger_append sign l op fs = Some fs1"
    using \<open>append_entry sign no_faults now l fs t e = ok fs1\<close> op f(1) by (simp add: ledger_append_def)
  ultimately show ?case by simp
qed simp

text \<open>C33.  Progress of the trail.  Without I/O faults a sequence of appends to tasks with plain
  names always succeeds, as long as every entry has a date that JSON can hold, a 64-bit duration and
  raw data that is JSON (or none), and at the start no file occupies the ledger's directory or one of
  its ancestors and no directory occupies a task's file name.\<close>

theorem appends_succeed:
  assumes "writer_ok sign verify l" "dir_free l fs"
    and "\<And>t flt now e. (t, flt, now, e) \<in> set ops \<Longrightarrow>
           flt = no_faults \<and> SLASH \<notin> set t \<and> rest_ok (stamp_entry now t e)"
  shows "\<exists>fs'. fold_opt (ledger_append sign l) ops fs = Some fs' \<and> dir_free l fs'"
  using assms by (rule appends_ok)

end
