(* ===== verification/Ledger_Runs.thy ===== *)
theory Ledger_Runs
  imports Ledger_Audit
begin

text \<open>
  Concrete runs of the ledger: a small ledger, a signature scheme and entries on which the theorems
  of \<open>Ledger_Audit\<close> apply, with every hypothesis discharged by evaluation.
\<close>

section \<open>The size of a line\<close>

definition text_length :: "entry \<Rightarrow> nat" where
  "text_length e = length (en_task_id e) + length (en_tenant_id e) + length (en_phase e) + length (en_action e)
     + length (en_result e) + length (en_stderr_tail e) + length (en_stdout_tail e) + length (en_sig e)"

lemma entry_ok_rest: "entry_ok e \<Longrightarrow> rest_ok e"
  by (simp add: entry_ok_def rest_ok_def)

lemma marshal_length:
  assumes "marshal_entry e = Some line" "rest_ok e"
  shows "length line \<le> 6 * text_length e + length (en_data (canon_entry e)) + length (itoa (en_duration_ms e)) + 700"
proof -
  have t: "length (format_rfc3339nano (en_ts e)) \<le> 35" using assms(2) by (intro time_length) (simp add: rest_ok_def)
  have "\<exists>d. line = json_print (JObj (entry_members e d)) \<and> (en_data e = [] \<or> d = en_data (canon_entry e))"
    using assms by (auto simp: marshal_entry_def canon_entry_def simp del: json_print.simps split: if_splits option.splits)
  then obtain d where d: "line = json_print (JObj (entry_members e d))" "en_data e = [] \<or> d = en_data (canon_entry e)"
    by blast
  have "members_length (if en_data e = [] then [] else [(''data'', JLit d)]) \<le> length (en_data (canon_entry e)) + 30"
    using d(2) by auto
  then have "members_length (entry_members e d) + 2
      \<le> 6 * text_length e + length (en_data (canon_entry e)) + length (itoa (en_duration_ms e)) + 700"
    using t quote_length [of "en_task_id e"] quote_length [of "en_phase e"] quote_length [of "en_action e"]
      quote_length [of "en_result e"] omit_length(1) [of "''tenant_id''" "en_tenant_id e"]
      omit_length(1) [of "''stderr_tail''" "en_stderr_tail e"] omit_length(1) [of "''stdout_tail''" "en_stdout_tail e"]
      omit_length(1) [of "''sig''" "en_sig e"] omit_length(2) [of "''duration_ms''" "en_duration_ms e"]
    unfolding entry_members_def members_length_simps text_length_def by simp
  with obj_length [of "entry_members e d"] show ?thesis unfolding d(1) by (rule order_trans)
qed

lemma b64_length: "length (b64_enc s) = 4 * ((length s + 2) div 3)"
proof (induction s rule: b64_enc.induct)
  case (1 a b c r)
  have "(5 + length r) div 3 = Suc (Suc (Suc (length r)) div 3)" using div_add_self1 [of 3 "length r + 2"] by simp
  with 1 show ?case by (simp add: Let_def)
qed (simp_all add: Let_def)

lemma canon_idem:
  assumes "entry_ok e"
  shows "canon_entry (canon_entry e) = canon_entry e"
proof (cases "en_data e = []")
  case False
  obtain d where "json_compact (en_data e) = Some d" "json_compact d = Some d"
    using entry_ok_compact [OF assms False] by blast
  with False show ?thesis by (simp add: canon_entry_def)
qed (simp add: canon_entry_def)

text \<open>A legal append by the size of its fields.\<close>

lemma legal_append_small:
  assumes "l_priv l = Some priv" "\<And>m. length (sign priv m) = signature_size" "entry_ok (stamp_entry now task e)"
    and "6 * text_length (stamp_entry now task e) + length (en_data (canon_entry (stamp_entry now task e)))
           + length (itoa (en_duration_ms e)) < 60000"
  shows "legal_append sign l task (flt, now, e)"
proof -
  let ?e1 = "stamp_entry now task e"
  let ?s = "stored_entry sign l now task e"
  obtain m where m: "marshal_entry ?e1 = Some m" using marshal_ok_entry [OF assms(3)] by blast
  then have s: "?s = (canon_entry ?e1)\<lparr>en_sig := b64_enc (sign priv m)\<rparr>"
    by (simp add: stored_entry_def Let_def assms(1))
  have ok: "entry_ok ?s" unfolding s by (rule entry_ok_sig [OF entry_ok_canon [OF assms(3)]])
  then obtain line where line: "marshal_entry ?s = Some line" using marshal_ok_entry by blast
  have cs: "canon_entry ?s = ?s"
    unfolding s canon_sig by (simp add: canon_idem [OF assms(3)])
  have "text_length ?s = text_length ?e1 + 88"
    unfolding s by (simp add: text_length_def canon_entry_def b64_length assms(2) signature_size_def stamp_entry_def)
  moreover have "en_data (canon_entry ?s) = en_data (canon_entry ?e1)" "en_duration_ms ?s = en_duration_ms e"
    unfolding cs unfolding s by (simp_all add: canon_entry_def stamp_entry_def)
  ultimately have "length line < default_max_token"
    using marshal_length [OF line entry_ok_rest [OF ok]] assms(4) by (simp add: default_max_token_def)
  then show ?thesis using assms(3) line by (simp add: legal_append_def)
qed

section \<open>Concrete runs\<close>

text \<open>A ledger in \<open>/l\<close>, and a signature scheme in which one message \<open>p\<close> has a
  signature of its own.\<close>

definition demo_ledger :: ledger where
  "demo_ledger = \<lparr> l_dir = ''/l'', l_priv = Some (replicate 64 CHR ''k''), l_pub = replicate 32 CHR ''p'' \<rparr>"

definition demo_sign :: "bytes \<Rightarrow> signer" where
  "demo_sign p k m = replicate 64 (if m = p then CHR ''B'' else CHR ''A'')"

definition demo_verify :: "bytes \<Rightarrow> verifier" where
  "demo_verify p k m s \<longleftrightarrow> s = demo_sign p k m"

definition demo_entry :: entry where
  "demo_entry = zero_entry\<lparr> en_ts := time_utc 1704164645500000000, en_tenant_id := ''acme'', en_phase := ''bill'',
     en_action := ''spend'', en_result := ''bill'', en_data := [CHR ''{'', DQ, CHR ''c'', DQ, CHR '':'', SP, CHR ''7'', CHR ''}''],
     en_duration_ms := 12 \<rparr>"

lemma demo_proper: "proper_dir ''/l''"
  by (simp add: proper_dir_def clean_path_def clean_stack_def is_rooted_def seg_step_def render_path_def)

lemma demo_writer: "writer_ok (demo_sign p) (demo_verify p) demo_ledger"
  by (simp add: writer_ok_def demo_ledger_def demo_sign_def demo_verify_def private_key_size_def
      public_key_size_def signature_size_def demo_proper)

lemma civil_demo: "civil_from_days 19724 = (2024, 1, 2)"
  by code_simp

lemma demo_time_ok: "time_ok (time_utc 1704164645500000000)"
  by (simp add: time_ok_def time_year_def local_secs_def time_utc_def nano_def civil_demo)

lemma demo_not_zero: "\<not> is_zero_time (time_utc 1704164645500000000)"
  by (simp add: is_zero_time_def zero_time_def time_utc_def nano_def)

lemma demo_raw_ok: "raw_ok (max_nesting - 1) [CHR ''{'', DQ, CHR ''c'', DQ, CHR '':'', SP, CHR ''7'', CHR ''}'']"
  by (simp add: raw_ok_def max_nesting_def json_eval)

lemma demo_valid: "valid_utf8 ''acme''" "valid_utf8 ''bill''" "valid_utf8 ''spend''" "valid_utf8 ''t''" "valid_utf8 ''u''"
  by (rule valid_utf8_ascii, auto simp: byte_def)+

lemma demo_entry_ok: "task = ''t'' \<or> task = ''u'' \<Longrightarrow> entry_ok (stamp_entry now task demo_entry)"
  using demo_valid
  by (auto simp: entry_ok_def stamp_entry_def demo_entry_def zero_entry_def demo_not_zero demo_time_ok demo_raw_ok [simplified]
      in_int64_def min_int64_def max_int64_def)

lemma demo_dir_free: "dir_free demo_ledger []"
  by (simp add: dir_free_def is_file_def is_dir_def list_ex_iff)

lemma demo_inv: "ledger_inv verify demo_ledger []"
  by (simp add: ledger_inv_def file_data_def)

theorem appends_succeed_witness:
  "\<exists>fs'. fold_opt (ledger_append (demo_sign []) demo_ledger)
     [(''t'', no_faults, zero_time, demo_entry), (''u'', no_faults, zero_time, demo_entry)] [] = Some fs' \<and> dir_free demo_ledger fs'"
  by (rule appends_succeed [OF demo_writer demo_dir_free]) (auto simp: demo_entry_ok entry_ok_rest)

lemma demo_sign_length: "length (demo_sign p k m) = signature_size"
  by (simp add: demo_sign_def signature_size_def)

lemma demo_compact:
  "json_compact [CHR ''{'', DQ, CHR ''c'', DQ, CHR '':'', SP, CHR ''7'', CHR ''}'']
     = Some [CHR ''{'', DQ, CHR ''c'', DQ, CHR '':'', CHR ''7'', CHR ''}'']"
  by (simp add: json_compact_def max_nesting_def json_eval)

lemma demo_legal:
  assumes "task = ''t'' \<or> task = ''u''"
  shows "legal_append (demo_sign p) demo_ledger task (flt, now, demo_entry)"
proof (rule legal_append_small)
  show "l_priv demo_ledger = Some (replicate 64 CHR ''k'')" by (simp add: demo_ledger_def)
  show "entry_ok (stamp_entry now task demo_entry)" by (rule demo_entry_ok [OF assms])
  show "6 * text_length (stamp_entry now task demo_entry) + length (en_data (canon_entry (stamp_entry now task demo_entry)))
     + length (itoa (en_duration_ms demo_entry)) < 60000"
    using assms demo_compact
    by (auto simp: text_length_def stamp_entry_def demo_entry_def zero_entry_def canon_entry_def go_eval)
qed (rule demo_sign_length)

definition demo_ops :: "(string \<times> faults \<times> gtime \<times> entry) list" where
  "demo_ops = [(''t'', no_faults, zero_time, demo_entry), (''u'', no_faults, zero_time, demo_entry),
     (''t'', no_faults, zero_time, demo_entry)]"

theorem ledger_trail_witness:
  "\<exists>fs'. fold_opt (ledger_append (demo_sign []) demo_ledger) demo_ops [] = Some fs'
     \<and> read_task (demo_verify []) no_faults demo_ledger fs' ''t''
         = ([stored_entry (demo_sign []) demo_ledger zero_time ''t'' demo_entry,
             stored_entry (demo_sign []) demo_ledger zero_time ''t'' demo_entry], None)"
proof -
  have "rest_ok (stamp_entry now task demo_entry)" if "task = ''t'' \<or> task = ''u''" for now task
    using demo_entry_ok [OF that] by (rule entry_ok_rest)
  then have legal: "flt = no_faults \<and> SLASH \<notin> set t \<and> rest_ok (stamp_entry now t e)"
    if "(t, flt, now, e) \<in> set demo_ops" for t flt now e
    using that by (auto simp: demo_ops_def)
  have "\<exists>fs'. fold_opt (ledger_append (demo_sign []) demo_ledger) ops [] = Some fs' \<and> dir_free demo_ledger fs'"
    if "\<And>t flt now e. (t, flt, now, e) \<in> set ops \<Longrightarrow> flt = no_faults \<and> SLASH \<notin> set t \<and> rest_ok (stamp_entry now t e)" for ops
    by (rule appends_ok [OF demo_writer demo_dir_free that])
  then obtain fs' where fs': "fold_opt (ledger_append (demo_sign []) demo_ledger) demo_ops [] = Some fs'"
    using legal by blast
  have "read_task (demo_verify []) no_faults demo_ledger fs' ''t'' =
     (ledger_get (demo_verify []) demo_ledger [] ''t''
        @ map (\<lambda>(t, flt, now, e). stored_entry (demo_sign []) demo_ledger now t e) (filter (\<lambda>(t, x). t = ''t'') demo_ops), None)"
    by (rule ledger_trail [OF demo_writer demo_inv fs']) (auto simp: demo_ops_def demo_legal)
  moreover have "ledger_get (demo_verify []) demo_ledger [] ''t'' = []"
    by (simp add: ledger_get_def read_task_def os_read_file_def)
  ultimately show ?thesis using fs' by (simp add: demo_ops_def)
qed

section \<open>A ledger with one signed line\<close>

definition demo_stamped :: entry where
  "demo_stamped = stamp_entry zero_time ''t'' demo_entry"

definition demo_payload :: bytes where
  "demo_payload = the (marshal_entry demo_stamped)"

definition demo_signed :: entry where
  "demo_signed = demo_stamped\<lparr>en_sig := b64_enc (demo_sign demo_payload (replicate 64 CHR ''k'') demo_payload)\<rparr>"

definition demo_line :: bytes where
  "demo_line = the (marshal_entry demo_signed)"

definition demo_file :: path where
  "demo_file = ''/l/t.jsonl''"

definition demo_fs :: "bytes \<Rightarrow> fs" where
  "demo_fs b = [(''/l'', Dir mode_0700), (demo_file, File b mode_0600)]"

lemma demo_path: "task_path demo_ledger ''t'' = demo_file"
  using task_path_eq [of demo_ledger "''t''"] demo_proper by (simp add: demo_ledger_def demo_file_def)

lemma demo_stamped_ok: "entry_ok demo_stamped" "en_sig demo_stamped = []"
  using demo_entry_ok [of "''t''" zero_time] by (simp_all add: demo_stamped_def stamp_entry_def)

lemma demo_payload: "marshal_entry demo_stamped = Some demo_payload"
  using marshal_ok_entry [OF demo_stamped_ok(1)] by (auto simp: demo_payload_def)

lemma demo_sign_entry:
  "sign_entry (demo_sign demo_payload) (replicate 64 CHR ''k'') demo_stamped = ok (demo_signed, demo_line)"
proof -
  have "entry_ok demo_signed" unfolding demo_signed_def by (rule entry_ok_sig [OF demo_stamped_ok(1)])
  then have "marshal_entry demo_signed = Some demo_line"
    using marshal_ok_entry [of demo_signed] by (auto simp: demo_line_def)
  then show ?thesis
    using demo_payload by (simp add: sign_entry_def demo_signed_def Let_def private_key_size_def)
qed

lemma demo_log_line: "log_line demo_line"
  by (rule stored_entry_line(1) [OF demo_writer demo_legal _ demo_sign_entry [unfolded demo_stamped_def]])
     (simp_all add: demo_ledger_def)

lemma demo_line_unmarshal: "unmarshal_entry demo_line = ok (canon_entry demo_signed)"
  using sign_entry_ok [OF demo_stamped_ok demo_sign_entry] by auto

lemma demo_line_trim: "trim_space demo_line = demo_line" "demo_line \<noteq> []"
  using clean_marshal [of demo_signed demo_line] sign_entry_ok [OF demo_stamped_ok demo_sign_entry] by auto

text \<open>What a verifier says of the line depends on its verdict on the payload.\<close>

lemma demo_verdict:
  "verify_entry verify demo_ledger (canon_entry demo_signed)
     = Some (verify (l_pub demo_ledger) demo_payload (demo_sign demo_payload (replicate 64 CHR ''k'') demo_payload))"
proof -
  have "marshal_entry ((canon_entry demo_signed)\<lparr>en_sig := []\<rparr>) = Some demo_payload"
  proof -
    have "(canon_entry demo_signed)\<lparr>en_sig := []\<rparr> = canon_entry (demo_signed\<lparr>en_sig := []\<rparr>)"
      by (simp only: canon_sig)
    also have "demo_signed\<lparr>en_sig := []\<rparr> = demo_stamped"
      using sig_Nil_id [OF demo_stamped_ok(2)] by (simp add: demo_signed_def)
    finally show ?thesis using marshal_canon [OF demo_stamped_ok(1)] demo_payload by simp
  qed
  moreover have "en_sig (canon_entry demo_signed) = b64_enc (demo_sign demo_payload (replicate 64 CHR ''k'') demo_payload)"
    by (simp add: demo_signed_def)
  ultimately show ?thesis
    by (simp add: verify_entry_def b64_dec_enc demo_sign_length) (simp add: demo_ledger_def public_key_size_def)
qed

lemma demo_read_lines:
  assumes "verify (l_pub demo_ledger) demo_payload (demo_sign demo_payload (replicate 64 CHR ''k'') demo_payload)"
  shows "read_lines verify demo_ledger 0 [demo_line] = ok [canon_entry demo_signed]"
  using assms by (simp add: read_lines_step demo_line_trim demo_line_unmarshal demo_verdict)

lemma demo_file_data: "file_data (demo_fs b) (task_path demo_ledger ''t'') = Some b"
  by (simp add: demo_path) (simp add: demo_fs_def file_data_def demo_file_def)

lemma demo_read:
  assumes "verify (l_pub demo_ledger) demo_payload (demo_sign demo_payload (replicate 64 CHR ''k'') demo_payload)"
  shows "read_task verify no_faults demo_ledger (demo_fs (log_text [demo_line])) ''t'' = ([canon_entry demo_signed], None)"
  using read_task_log [OF demo_file_data _ demo_read_lines [of verify]] assms demo_log_line by simp

text \<open>A verifier that accepts the one payload only.\<close>

definition demo_only :: verifier where
  "demo_only k m s \<longleftrightarrow> m = demo_payload"

theorem ledger_no_forgery_witness:
  "fst (read_task demo_only no_faults demo_ledger (demo_fs (log_text [demo_line])) ''t'') = [canon_entry demo_signed]
   \<and> (\<exists>x \<in> set [demo_stamped]. canon_entry ((canon_entry demo_signed)\<lparr>en_sig := []\<rparr>) = canon_entry x)"
proof
  show r: "fst (read_task demo_only no_faults demo_ledger (demo_fs (log_text [demo_line])) ''t'') = [canon_entry demo_signed]"
    by (subst demo_read) (simp_all add: demo_only_def)
  show "\<exists>x \<in> set [demo_stamped]. canon_entry ((canon_entry demo_signed)\<lparr>en_sig := []\<rparr>) = canon_entry x"
    by (rule ledger_no_forgery [of demo_only demo_ledger _ _ no_faults "demo_fs (log_text [demo_line])" "''t''"])
       (simp_all add: r demo_payload demo_stamped_ok, simp add: demo_only_def)
qed

definition demo_none :: verifier where
  "demo_none k m s \<longleftrightarrow> False"

lemma demo_scan: "scan_lines default_max_token (log_text [demo_line]) = ([demo_line], False)"
  by (rule scan_log) (simp add: demo_log_line)

theorem read_reports_bad_line_witness:
  "read_task demo_none no_faults demo_ledger (demo_fs (log_text [demo_line])) ''t'' = ([], Some (LBadSig 1))"
proof -
  have "read_task demo_none no_faults demo_ledger (demo_fs (log_text [demo_line])) ''t'' = ([], Some (LBadSig (Suc (length ([] :: string list)))))"
  proof (rule read_reports_bad_line)
    show "os_read_file no_faults (demo_fs (log_text [demo_line])) (task_path demo_ledger ''t'') = ok (log_text [demo_line])"
      by (rule file_data_read [OF demo_file_data])
    show "scan_lines default_max_token (log_text [demo_line]) = ([] @ demo_line # [], False)"
      by (simp add: demo_scan)
    show "trim_space demo_line \<noteq> []" "unmarshal_entry (trim_space demo_line) = ok (canon_entry demo_signed)"
      by (simp_all add: demo_line_trim demo_line_unmarshal)
    show "verify_entry demo_none demo_ledger (canon_entry demo_signed) = Some False"
      by (simp add: demo_verdict demo_none_def)
  qed simp
  then show ?thesis by simp
qed

theorem long_line_hides_tail_witness:
  "read_task demo_only no_faults demo_ledger
     (demo_fs (log_text [demo_line] @ replicate 70000 CHR ''x'' @ NL # log_text [demo_line])) ''t''
   = ([canon_entry demo_signed], Some LScan)"
proof (rule long_line_hides_tail [OF demo_file_data])
  show "read_lines demo_only demo_ledger 0 [demo_line] = ok [canon_entry demo_signed]"
    by (rule demo_read_lines) (simp add: demo_only_def)
qed (simp_all add: demo_log_line default_max_token_def)

lemma demo_tasks: "tasks no_faults demo_ledger (demo_fs b) = ok [''t'']"
  by (simp add: tasks_def os_read_dir_def demo_fs_def demo_ledger_def demo_file_def dir_entries_def is_dir_def
      dir_path_def base_path_def clean_path_def clean_stack_def is_rooted_def seg_step_def render_path_def go_eval)

theorem tenants_partition_ledger_witness:
  "\<exists>es. read_by_tenant demo_only no_faults demo_ledger (demo_fs (log_text [demo_line])) ''acme'' = ok es
     \<and> mset es = filter_mset (\<lambda>e. en_tenant_id e = ''acme'')
         (\<Sum>t\<in>#mset [''t'']. mset (fst (read_task demo_only no_faults demo_ledger (demo_fs (log_text [demo_line])) t)))"
  by (rule tenants_partition_ledger [OF demo_tasks]) (simp add: demo_read demo_only_def)

section \<open>An entry with a broken rune\<close>

definition demo_torn :: entry where
  "demo_torn = zero_entry\<lparr> en_ts := time_utc 1704164645500000000, en_stderr_tail := [CHR 0xC3] \<rparr>"

definition torn_payload :: bytes where
  "torn_payload = the (marshal_entry (stamp_entry zero_time ''t'' demo_torn))"

lemma torn_rest: "rest_ok (stamp_entry zero_time ''t'' demo_torn)"
  by (simp add: rest_ok_def stamp_entry_def demo_torn_def zero_entry_def demo_not_zero demo_time_ok
      in_int64_def min_int64_def max_int64_def)

lemma torn_payload: "marshal_entry (stamp_entry zero_time ''t'' demo_torn) = Some torn_payload"
proof -
  obtain m where "marshal_entry (stamp_entry zero_time ''t'' demo_torn) = Some m"
    using rest_ok_marshal [OF torn_rest] by blast
  then show ?thesis by (simp add: torn_payload_def)
qed

lemma torn_strings: "\<not> strings_ok (stamp_entry zero_time ''t'' demo_torn)"
proof -
  have "\<not> valid_utf8 [CHR 0xC3]" by (simp add: valid_utf8_def coerce.simps rune_width_def byte_def)
  then show ?thesis by (simp add: strings_ok_def stamp_entry_def demo_torn_def zero_entry_def)
qed

theorem append_not_utf8_unreadable_witness:
  "\<exists>fs'. append_entry (demo_sign torn_payload) no_faults zero_time demo_ledger [] ''t'' demo_torn = ok fs'
     \<and> read_task (demo_verify torn_payload) no_faults demo_ledger fs' ''t'' = ([], Some (LBadSig 1))"
proof -
  let ?p = "torn_payload" and ?k = "replicate 64 CHR ''k''"
  have slash: "SLASH \<notin> set ''t''" by simp
  have k: "l_priv demo_ledger = Some ?k" by (simp add: demo_ledger_def)
  obtain fs' where fs': "append_entry (demo_sign ?p) no_faults zero_time demo_ledger [] ''t'' demo_torn = ok fs'"
    using append_succeeds [OF demo_writer slash demo_dir_free torn_rest] by blast
  obtain priv e2 line old where l: "l_priv demo_ledger = Some priv"
    "sign_entry (demo_sign ?p) priv (stamp_entry zero_time ''t'' demo_torn) = ok (e2, line)"
    "file_data [] (task_path demo_ledger ''t'') = old"
    "file_data fs' (task_path demo_ledger ''t'') = Some ((case old of Some b \<Rightarrow> b | None \<Rightarrow> []) @ line @ [NL])"
    by (rule append_entry_ok [OF fs' demo_writer slash])
  then have f: "file_data fs' (task_path demo_ledger ''t'') = Some (line @ [NL])" by (auto simp: file_data_def)
  have e2: "e2 = (stamp_entry zero_time ''t'' demo_torn)\<lparr>en_sig := b64_enc (demo_sign ?p ?k ?p)\<rparr>" "marshal_entry e2 = Some line"
    using l(2) k l(1) torn_payload by (auto simp: sign_entry_def Let_def split: option.splits if_splits)
  have "length line \<le> 6 * text_length e2 + length (en_data (canon_entry e2)) + length (itoa (en_duration_ms e2)) + 700"
    using torn_rest by (intro marshal_length [OF e2(2)]) (simp add: e2(1) rest_ok_def)
  moreover have "text_length e2 = 90" "en_data (canon_entry e2) = []" "en_duration_ms e2 = 0"
    by (simp_all add: e2(1) text_length_def b64_length demo_sign_length signature_size_def stamp_entry_def demo_torn_def
        zero_entry_def canon_entry_def)
  ultimately have len: "length (line @ [NL]) \<le> default_max_token" by (simp add: default_max_token_def go_eval)
  have uniq: "m = ?p" if "demo_verify ?p (l_pub demo_ledger) m (demo_sign ?p ?k ?p)" for m
    using that by (simp add: demo_verify_def demo_sign_def split: if_splits)
  have "read_task (demo_verify ?p) no_faults demo_ledger fs' ''t'' = ([], Some (LBadSig 1))"
    by (rule append_not_utf8_unreadable [OF demo_writer k slash torn_payload uniq _ torn_rest torn_strings fs' f len])
       (simp_all add: file_data_def)
  with fs' show ?thesis by blast
qed

section \<open>Two entries, a second apart\<close>

definition demo_later :: entry where
  "demo_later = demo_entry\<lparr> en_ts := time_utc 1704164646500000000 \<rparr>"

lemma later_time: "time_ok (time_utc 1704164646500000000)" "\<not> is_zero_time (time_utc 1704164646500000000)"
  by (simp_all add: time_ok_def time_year_def local_secs_def time_utc_def nano_def civil_demo is_zero_time_def zero_time_def)

lemma later_ok: "entry_ok (stamp_entry now ''t'' demo_later)"
  using demo_valid
  by (auto simp: entry_ok_def stamp_entry_def demo_later_def demo_entry_def zero_entry_def later_time demo_raw_ok [simplified]
      in_int64_def min_int64_def max_int64_def)

lemma later_legal: "legal_append (demo_sign p) demo_ledger ''t'' (flt, now, demo_later)"
proof (rule legal_append_small)
  show "l_priv demo_ledger = Some (replicate 64 CHR ''k'')" by (simp add: demo_ledger_def)
  show "entry_ok (stamp_entry now ''t'' demo_later)" by (rule later_ok)
  show "6 * text_length (stamp_entry now ''t'' demo_later) + length (en_data (canon_entry (stamp_entry now ''t'' demo_later)))
     + length (itoa (en_duration_ms demo_later)) < 60000"
    using demo_compact
    by (auto simp: text_length_def stamp_entry_def demo_later_def demo_entry_def zero_entry_def canon_entry_def go_eval)
qed (rule demo_sign_length)

text \<open>A ledger that holds any sequence of the two entries.\<close>

abbreviation demo_stored :: "entry \<Rightarrow> entry" where
  "demo_stored \<equiv> stored_entry (demo_sign []) demo_ledger zero_time ''t''"

lemma demo_log_exists:
  assumes "es \<noteq> []" "set es \<subseteq> {demo_entry, demo_later}"
  shows "\<exists>fs. read_task (demo_verify []) no_faults demo_ledger fs ''t'' = (map demo_stored es, None)"
proof -
  define ops where "ops = map (\<lambda>e. (''t'', no_faults, zero_time, e)) es"
  have "rest_ok (stamp_entry zero_time ''t'' e)" if "e \<in> set es" for e
    using that assms(2) entry_ok_rest demo_entry_ok later_ok by blast
  then have "flt = no_faults \<and> SLASH \<notin> set t \<and> rest_ok (stamp_entry now t e)" if "(t, flt, now, e) \<in> set ops" for t flt now e
    using that by (auto simp: ops_def)
  then obtain fs' where fs': "fold_opt (ledger_append (demo_sign []) demo_ledger) ops [] = Some fs'"
    using appends_ok [OF demo_writer demo_dir_free, of ops] by blast
  have legal: "SLASH \<notin> set t \<and> legal_append (demo_sign []) demo_ledger t x" if "(t, x) \<in> set ops" for t x
    using that assms(2) demo_legal later_legal by (auto simp: ops_def)
  have "''t'' \<in> fst ` set ops" using assms(1) by (cases es) (simp_all add: ops_def)
  from trail_read [OF demo_writer demo_inv fs' legal this]
  have "read_task (demo_verify []) no_faults demo_ledger fs' ''t'' = (ledger_get (demo_verify []) demo_ledger [] ''t''
      @ map (\<lambda>(t, flt, now, e). stored_entry (demo_sign []) demo_ledger now t e) (filter (\<lambda>(t, x). t = ''t'') ops), None)" .
  moreover have "ledger_get (demo_verify []) demo_ledger [] ''t'' = []"
    by (simp add: ledger_get_def read_task_def os_read_file_def)
  moreover have "filter (\<lambda>(t, x). t = ''t'') ops = ops" by (simp add: ops_def filter_id_conv)
  ultimately show ?thesis by (auto simp: ops_def comp_def)
qed

lemma stored_ts:
  "en_ts (demo_stored demo_entry) = time_utc 1704164645500000000" "en_ts (demo_stored demo_later) = time_utc 1704164646500000000"
  by (simp_all add: stored_entry_def Let_def canon_entry_def stamp_entry_def demo_later_def demo_entry_def demo_not_zero later_time)

end
