(* ===== verification/Go_Store.thy ===== *)
theory Go_Store
  imports Go_Decode Go_FS "HOL-Library.Multiset"
begin

text \<open>
  What the JSON stores of the program (budgets, pairings, markers, hashes) share.  The locale
  \<open>flat_record\<close> is the interface of a struct whose fields are JSON scalars: its members and
  its decoder, with the law that decoding inverts encoding on well-formed values; it gives the
  round trip through \<open>json.MarshalIndent\<close> and \<open>json.Marshal\<close>.  \<open>write_atomic\<close> is
  the sequence temp file, write, fsync, close, rename that \<open>budget.save\<close> and
  \<open>markers.Write\<close> both perform; the file it replaces has the new content if it succeeds and the
  old one if it does not, whichever calls fail.
\<close>

section \<open>Structs of scalars\<close>

abbreviation marshal_indent :: "(bytes \<times> jtree) list \<Rightarrow> bytes" where
  "marshal_indent kvs \<equiv> json_indent 0 (JObj kvs)"

abbreviation marshal_compact :: "(bytes \<times> jtree) list \<Rightarrow> bytes" where
  "marshal_compact kvs \<equiv> json_print (JObj kvs)"

definition unmarshal_with :: "(members \<Rightarrow> (json_err, 'a) result) \<Rightarrow> bytes \<Rightarrow> (json_err, 'a) result" where
  "unmarshal_with f b = (case json_members b of Inl e \<Rightarrow> err e | Inr ms \<Rightarrow> f ms)"

fun is_scalar :: "jtree \<Rightarrow> bool" where
  "is_scalar (JLit b) = completes 1 b"
| "is_scalar _ = False"

definition flat_members :: "(bytes \<times> jtree) list \<Rightarrow> bool" where
  "flat_members kvs \<longleftrightarrow> kvs \<noteq> [] \<and> list_all (\<lambda>(k, t). list_all (\<lambda>c. byte c < 128) k \<and> is_scalar t) kvs"

lemma is_scalar_lits [simp]: "is_scalar (JStr s)" "is_scalar (JInt i)" "is_scalar (JBool b)" "is_scalar (JTime t)"
  by (simp_all add: JBool_def)

lemma scalar_complete: "is_scalar t \<Longrightarrow> jcomplete 1 t"
  by (cases t) auto

lemma scalar_indent: "is_scalar t \<Longrightarrow> json_indent n t = json_print t"
  by (cases t) auto

lemma flat_members_decode:
  assumes "flat_members kvs"
  shows "json_members (marshal_indent kvs) = ok (printed kvs)" "json_members (marshal_compact kvs) = ok (printed kvs)"
proof -
  have f: "kvs \<noteq> []" "list_all (\<lambda>(k, t). list_all (\<lambda>c. byte c < 128) k) kvs" "list_all (\<lambda>kv. jcomplete 1 (snd kv)) kvs"
    "\<And>k t. (k, t) \<in> set kvs \<Longrightarrow> is_scalar t"
    using assms scalar_complete by (auto simp: flat_members_def list_all_iff)
  have two: "Suc 1 \<le> max_nesting" by (simp add: max_nesting_def)
  have "map (\<lambda>(k, t). (k, json_indent (Suc 0) t)) kvs = printed kvs"
    using f(4) scalar_indent by (auto simp: printed_def)
  then show "json_members (marshal_indent kvs) = ok (printed kvs)"
    using json_members_indent [OF f(3) two f(1), of 0] by (simp only: coerced_keys [OF f(2)])
  show "json_members (marshal_compact kvs) = ok (printed kvs)"
    using json_members_print [OF f(3) two] by (simp only: coerced_keys [OF f(2)] printed_def)
qed

locale flat_record =
  fixes mems :: "'a \<Rightarrow> (bytes \<times> jtree) list"
    and of_mems :: "members \<Rightarrow> (json_err, 'a) result"
    and good :: "'a \<Rightarrow> bool"
  assumes flat: "flat_members (mems x)"
    and decodes: "good x \<Longrightarrow> of_mems (printed (mems x)) = ok x"
begin

lemma unmarshal_indent: "good x \<Longrightarrow> unmarshal_with of_mems (marshal_indent (mems x)) = ok x"
  using flat_members_decode(1) [OF flat] decodes by (simp add: unmarshal_with_def)

lemma unmarshal_compact: "good x \<Longrightarrow> unmarshal_with of_mems (marshal_compact (mems x)) = ok x"
  using flat_members_decode(2) [OF flat] decodes by (simp add: unmarshal_with_def)

lemma marshal_inj: "good x \<Longrightarrow> good y \<Longrightarrow> marshal_indent (mems x) = marshal_indent (mems y) \<Longrightarrow> x = y"
  using unmarshal_indent by (metis sum.inject(2))

end

declare json_indent.simps(3) [simp del] json_print.simps(3) [simp del]

section \<open>Writing a file\<close>

lemma os_write_other: "q \<noteq> p \<Longrightarrow> os_write flt fs p b = ok fs' \<or> os_write flt fs p b = err (e, fs') \<Longrightarrow> map_of fs' q = map_of fs q"
  by (auto simp: os_write_def Let_def update_conv split: option.splits fnode.splits)

lemma write_file_other:
  assumes "os_write_file flt fs p b m = ok fs' \<or> os_write_file flt fs p b m = err (e, fs')" "q \<noteq> p"
  shows "map_of fs' q = map_of fs q"
  using assms(1) open_create_ok(2) [OF _ assms(2)] os_write_other [OF assms(2)]
  by (auto simp: os_write_file_def split: sum.splits prod.splits) (metis+)

lemma write_file_ok:
  assumes "os_write_file flt fs p b m = ok fs'"
  shows "file_data fs' p = Some b"
proof -
  obtain fs1 where s: "os_open_create flt True fs p m = ok fs1" "os_write flt fs1 p b = ok fs'"
    using assms by (auto simp: os_write_file_def split: sum.splits prod.splits)
  then show ?thesis using open_create_ok(1) [OF s(1)] write_ok(1) [OF s(2)] by simp
qed

lemma write_file_succeeds:
  assumes "is_dir fs (dir_path p)" "\<not> is_dir fs p"
  shows "\<exists>fs'. os_write_file no_faults fs p b m = ok fs'"
proof -
  obtain fs1 where "os_open_create no_faults True fs p m = ok fs1"
    using assms by (auto simp: os_open_create_def is_dir_def split: option.splits fnode.splits)
  then show ?thesis by (simp add: os_write_file_def os_write_def os_close_def)
qed

lemma os_read_file_cong: "map_of fs p = map_of fs' p \<Longrightarrow> os_read_file flt fs p = os_read_file flt fs' p"
  by (simp only: os_read_file_def)

lemma os_read_file_data: "os_read_file flt fs p = ok b \<Longrightarrow> file_data fs p = Some b"
  by (auto simp: os_read_file_def file_data_def split: option.splits fnode.splits)

section \<open>Replacing a file atomically\<close>

datatype atomic_err = AOpen ioerr | AWrite ioerr | ASync ioerr | AClose ioerr | ARename ioerr

text \<open>\<open>_ = os.Remove(p)\<close>.\<close>

definition remove_quiet :: "faults \<Rightarrow> fs \<Rightarrow> path \<Rightarrow> fs" where
  "remove_quiet flt fs p = (case os_remove flt fs p of Inl _ \<Rightarrow> fs | Inr fs' \<Rightarrow> fs')"

definition tmp_of :: "path \<Rightarrow> path" where
  "tmp_of p = p @ ''.tmp''"

definition write_atomic :: "faults \<Rightarrow> fs \<Rightarrow> path \<Rightarrow> bytes \<Rightarrow> nat \<Rightarrow> (atomic_err \<times> fs, fs) result" where
  "write_atomic flt fs p b mode =
     (case os_open_create flt True fs (tmp_of p) mode of
        Inl e \<Rightarrow> err (AOpen e, fs)
      | Inr fs1 \<Rightarrow>
          (case os_write flt fs1 (tmp_of p) b of
             Inl (e, fs2) \<Rightarrow> err (AWrite e, remove_quiet flt fs2 (tmp_of p))
           | Inr fs2 \<Rightarrow>
               (case os_sync flt (tmp_of p) of
                  Inl e \<Rightarrow> err (ASync e, remove_quiet flt fs2 (tmp_of p))
                | Inr _ \<Rightarrow>
                    (case os_close flt (tmp_of p) of
                       Inl e \<Rightarrow> err (AClose e, remove_quiet flt fs2 (tmp_of p))
                     | Inr _ \<Rightarrow>
                         (case os_rename flt fs2 (tmp_of p) p of
                            Inl e \<Rightarrow> err (ARename e, fs2)
                          | Inr fs3 \<Rightarrow> ok fs3)))))"

lemma tmp_neq [simp]: "tmp_of p \<noteq> p" "p \<noteq> tmp_of p"
  by (simp_all add: tmp_of_def)

lemma remove_quiet_other: "q \<noteq> p \<Longrightarrow> map_of (remove_quiet flt fs p) q = map_of fs q"
  by (auto simp: remove_quiet_def os_remove_def delete_conv split: option.splits if_splits)

lemma os_rename_ok:
  assumes "os_rename flt fs p q = ok fs'" "p \<noteq> q"
  shows "map_of fs' q = map_of fs p" "map_of fs' p = None" "r \<noteq> p \<Longrightarrow> r \<noteq> q \<Longrightarrow> map_of fs' r = map_of fs r"
  using assms by (auto simp: os_rename_def update_conv delete_conv split: option.splits if_splits)

lemma write_atomic_ok:
  assumes "write_atomic flt fs p b mode = ok fs'"
  shows "file_data fs' p = Some b" "q \<noteq> p \<Longrightarrow> q \<noteq> tmp_of p \<Longrightarrow> map_of fs' q = map_of fs q" "map_of fs' (tmp_of p) = None"
proof -
  obtain fs1 fs2 where s: "os_open_create flt True fs (tmp_of p) mode = ok fs1" "os_write flt fs1 (tmp_of p) b = ok fs2"
    "os_rename flt fs2 (tmp_of p) p = ok fs'"
    using assms by (auto simp: write_atomic_def split: sum.splits prod.splits)
  have f1: "file_data fs1 (tmp_of p) = Some []" using open_create_ok(1) [OF s(1)] by simp
  have f2: "file_data fs2 (tmp_of p) = Some b" using write_ok(1) [OF s(2) f1] by simp
  note r = os_rename_ok [OF s(3) tmp_neq(1)]
  show "file_data fs' p = Some b" using f2 r(1) by (simp add: file_data_def)
  show "map_of fs' (tmp_of p) = None" by (rule r(2))
  assume q: "q \<noteq> p" "q \<noteq> tmp_of p"
  show "map_of fs' q = map_of fs q"
    using r(3) [OF q(2,1)] write_ok(2) [OF s(2) f1 q(2)] open_create_ok(2) [OF s(1) q(2)] by simp
qed

lemma write_atomic_err:
  assumes "write_atomic flt fs p b mode = err (e, fs')" "q \<noteq> tmp_of p"
  shows "map_of fs' q = map_of fs q"
proof -
  consider "fs' = fs" | fs1 where "os_open_create flt True fs (tmp_of p) mode = ok fs1"
      "\<exists>fs2. (os_write flt fs1 (tmp_of p) b = ok fs2 \<or> (\<exists>x. os_write flt fs1 (tmp_of p) b = err (x, fs2)))
          \<and> (fs' = fs2 \<or> fs' = remove_quiet flt fs2 (tmp_of p))"
    using assms(1) by (auto simp: write_atomic_def split: sum.splits prod.splits)
  then show ?thesis
  proof cases
    case 2
    then show ?thesis
      using open_create_ok(2) [OF 2(1) assms(2)] os_write_other [OF assms(2)] remove_quiet_other [OF assms(2)] by metis
  qed simp
qed

lemma write_atomic_succeeds:
  assumes "is_dir fs (dir_path p)" "dir_path (tmp_of p) = dir_path p" "\<not> is_dir fs p" "\<not> is_dir fs (tmp_of p)"
    "dir_path p \<noteq> tmp_of p"
  shows "\<exists>fs'. write_atomic no_faults fs p b mode = ok fs'"
proof -
  obtain fs1 where o: "os_open_create no_faults True fs (tmp_of p) mode = ok fs1"
    using assms by (auto simp: os_open_create_def is_dir_def split: option.splits fnode.splits)
  then obtain fs2 where w: "os_write no_faults fs1 (tmp_of p) b = ok fs2" by (simp add: os_write_def)
  have f1: "file_data fs1 (tmp_of p) = Some []" using open_create_ok(1) [OF o] by simp
  have same: "map_of fs2 q = map_of fs q" if "q \<noteq> tmp_of p" for q
    using write_ok(2) [OF w f1 that] open_create_ok(2) [OF o that] by simp
  have "map_of fs2 (tmp_of p) \<noteq> None"
    using write_ok(1) [OF w f1] by (auto simp: file_data_def split: option.splits)
  then obtain fs3 where "os_rename no_faults fs2 (tmp_of p) p = ok fs3"
    using assms(1,3,5) same [of p] same [of "dir_path p"] by (auto simp: os_rename_def is_dir_def)
  with o w show ?thesis by (simp add: write_atomic_def os_sync_def os_close_def)
qed

section \<open>Sorting a slice\<close>

text \<open>\<open>sort.Slice\<close> as an insertion sort by the given comparison; \<open>sort.Slice\<close> leaves the
  order of elements that compare equal open, and no theorem depends on it.\<close>

fun slice_insert :: "('a \<Rightarrow> 'a \<Rightarrow> bool) \<Rightarrow> 'a \<Rightarrow> 'a list \<Rightarrow> 'a list" where
  "slice_insert lt x [] = [x]"
| "slice_insert lt x (y # ys) = (if lt y x then y # slice_insert lt x ys else x # y # ys)"

definition sort_slice :: "('a \<Rightarrow> 'a \<Rightarrow> bool) \<Rightarrow> 'a list \<Rightarrow> 'a list" where
  "sort_slice lt xs = foldr (slice_insert lt) xs []"

lemma mset_slice_insert: "mset (slice_insert lt x ys) = add_mset x (mset ys)"
  by (induction ys) auto

lemma mset_sort_slice [simp]: "mset (sort_slice lt xs) = mset xs"
  unfolding sort_slice_def by (induction xs) (simp_all add: mset_slice_insert)

lemma set_sort_slice [simp]: "set (sort_slice lt xs) = set xs"
  using mset_sort_slice by (metis set_mset_mset)

lemma length_sort_slice [simp]: "length (sort_slice lt xs) = length xs"
  using mset_sort_slice by (metis size_mset)

lemma slice_insert_sorted:
  assumes "\<And>a b. lt a b \<Longrightarrow> \<not> lt b a" "\<And>a b c. \<not> lt b a \<Longrightarrow> \<not> lt c b \<Longrightarrow> \<not> lt c a"
  shows "sorted_wrt (\<lambda>a b. \<not> lt b a) ys \<Longrightarrow> sorted_wrt (\<lambda>a b. \<not> lt b a) (slice_insert lt x ys)"
proof (induction ys)
  case (Cons y ys)
  have s: "set (slice_insert lt x ys) = insert x (set ys)" using mset_slice_insert [of lt x ys] by (metis set_mset_add_mset_insert set_mset_mset)
  show ?case
  proof (cases "lt y x")
    case True
    with Cons assms(1) [OF True] show ?thesis by (simp add: s)
  next
    case False
    then have "\<not> lt z x" if "z \<in> set ys" for z using assms(2) [of y x z] Cons.prems that by simp
    with False Cons.prems show ?thesis by simp
  qed
qed simp

lemma sort_slice_sorted:
  assumes "\<And>a b. lt a b \<Longrightarrow> \<not> lt b a" "\<And>a b c. \<not> lt b a \<Longrightarrow> \<not> lt c b \<Longrightarrow> \<not> lt c a"
  shows "sorted_wrt (\<lambda>a b. \<not> lt b a) (sort_slice lt xs)"
  unfolding sort_slice_def by (induction xs) (simp_all add: slice_insert_sorted [OF assms])

section \<open>Listing a directory\<close>

text \<open>A loop that skips the elements on which a call fails.\<close>

definition oks :: "('a \<Rightarrow> ('e, 'b) result) \<Rightarrow> 'a list \<Rightarrow> 'b list" where
  "oks f xs = List.map_filter (\<lambda>x. case f x of Inl _ \<Rightarrow> None | Inr y \<Rightarrow> Some y) xs"

lemma oks_simps [simp]:
  "oks f [] = []" "oks f (x # xs) = (case f x of Inl _ \<Rightarrow> oks f xs | Inr y \<Rightarrow> y # oks f xs)"
  by (auto simp: oks_def map_filter_def split: sum.splits)

lemma set_oks: "set (oks f xs) = {y. \<exists>x \<in> set xs. f x = ok y}"
  by (induction xs) (auto split: sum.splits)

lemma dir_entries_file:
  assumes "file_data fs (d @ SLASH # n) = Some b" "proper_dir d" "plain_name n"
  shows "(n, False) \<in> set (dir_entries fs d)"
proof -
  have "map_of fs (d @ SLASH # n) \<noteq> None" using assms(1) by (auto simp: file_data_def split: option.splits)
  then obtain x where "(d @ SLASH # n, x) \<in> set fs" using map_of_SomeD by fastforce
  then have "n \<in> (\<lambda>(p, _). base_path p) ` {(p, x) \<in> set fs. p \<noteq> d \<and> dir_path p = d}"
    using dir_path_child [OF assms(2,3)] base_path_child [OF assms(3), of d] by (force simp: image_iff)
  moreover have "\<not> is_dir fs (join2 d n)"
    using assms(1) join2_child [OF assms(2,3)] by (auto simp: file_data_def is_dir_def split: option.splits fnode.splits)
  ultimately show ?thesis by (auto simp: dir_entries_def image_iff)
qed

end
