(* ===== verification/Budget.thy ===== *)
theory Budget
  imports Go_Store
begin

text \<open>
  The budgets, \<open>internal/budget/budget.go\<close>: per pairing a daily count of requests and a
  daily cost with their caps, in one JSON file guarded by a lock file.  Every operation takes the
  clock as the function \<open>clk\<close>: \<open>clk i\<close> is its \<open>i\<close>-th reading of \<open>time.Now\<close>.
  Sums of cents wrap at 64 bits as Go's do.
\<close>

section \<open>Data\<close>

definition default_daily_requests :: int where "default_daily_requests = 1000"
definition default_daily_cost_cents :: int where "default_daily_cost_cents = 10000"

record budget_state =
  bs_pairing_id :: string
  bs_date :: string
  bs_requests :: int
  bs_cost_cents :: int
  bs_last_updated :: gtime
  bs_max_requests :: int
  bs_max_cost_cents :: int

definition budget_members :: "budget_state \<Rightarrow> (bytes \<times> jtree) list" where
  "budget_members st =
     [(''pairing_id'', JStr (bs_pairing_id st)), (''date'', JStr (bs_date st)), (''requests'', JInt (bs_requests st)),
      (''cost_cents'', JInt (bs_cost_cents st)), (''last_updated'', JTime (bs_last_updated st)),
      (''max_requests'', JInt (bs_max_requests st)), (''max_cost_cents'', JInt (bs_max_cost_cents st))]"

definition budget_of_members :: "members \<Rightarrow> (json_err, budget_state) result" where
  "budget_of_members ms =
     (case get_field dec_string [] ms ''pairing_id'' of Inl x \<Rightarrow> err x | Inr p \<Rightarrow>
     (case get_field dec_string [] ms ''date'' of Inl x \<Rightarrow> err x | Inr d \<Rightarrow>
     (case get_field dec_int64 0 ms ''requests'' of Inl x \<Rightarrow> err x | Inr r \<Rightarrow>
     (case get_field dec_int64 0 ms ''cost_cents'' of Inl x \<Rightarrow> err x | Inr c \<Rightarrow>
     (case get_field dec_time zero_time ms ''last_updated'' of Inl x \<Rightarrow> err x | Inr t \<Rightarrow>
     (case get_field dec_int64 0 ms ''max_requests'' of Inl x \<Rightarrow> err x | Inr mr \<Rightarrow>
     (case get_field dec_int64 0 ms ''max_cost_cents'' of Inl x \<Rightarrow> err x | Inr mc \<Rightarrow>
        ok \<lparr> bs_pairing_id = p, bs_date = d, bs_requests = r, bs_cost_cents = c, bs_last_updated = t,
             bs_max_requests = mr, bs_max_cost_cents = mc \<rparr>)))))))"

datatype budget_err =
    BMkdir ioerr | BOpenLock ioerr | BFlock ioerr | BRead ioerr | BParse json_err | BMarshal
  | BSave atomic_err | BRateLimit | BCostCap

section \<open>Operations\<close>

definition budget_new_store :: "faults \<Rightarrow> fs \<Rightarrow> path \<Rightarrow> (budget_err \<times> fs, path \<times> fs) result" where
  "budget_new_store flt fs dir =
     (case os_mkdir_all flt fs dir mode_0700 of Inl (e, fs') \<Rightarrow> err (BMkdir e, fs') | Inr fs' \<Rightarrow> ok (dir, fs'))"

definition today_str :: "gtime \<Rightarrow> string" where
  "today_str now = format_date (to_utc now)"

definition roll_to :: "string \<Rightarrow> budget_state \<Rightarrow> budget_state" where
  "roll_to today st =
     (if bs_date st = today then st
      else st\<lparr> bs_date := today, bs_requests := 0, bs_cost_cents := 0 \<rparr>)"

definition roll_day :: "gtime \<Rightarrow> budget_state \<Rightarrow> budget_state" where
  "roll_day now st = roll_to (today_str now) st"

definition budget_path :: "path \<Rightarrow> string \<Rightarrow> path" where
  "budget_path dir pid = join2 dir (pid @ ''.json'')"

definition budget_lock_path :: "path \<Rightarrow> string \<Rightarrow> path" where
  "budget_lock_path dir pid = join2 dir (pid @ ''.lock'')"

definition budget_default :: "string \<Rightarrow> string \<Rightarrow> budget_state" where
  "budget_default today pid =
     \<lparr> bs_pairing_id = pid, bs_date = today, bs_requests = 0, bs_cost_cents = 0, bs_last_updated = zero_time,
       bs_max_requests = default_daily_requests, bs_max_cost_cents = default_daily_cost_cents \<rparr>"

definition budget_load :: "faults \<Rightarrow> gtime \<Rightarrow> path \<Rightarrow> fs \<Rightarrow> string \<Rightarrow> (budget_err, budget_state) result" where
  "budget_load flt now dir fs pid =
     (case os_read_file flt fs (budget_path dir pid) of
        Inl NotExist \<Rightarrow> ok (budget_default (today_str now) pid)
      | Inl e \<Rightarrow> err (BRead e)
      | Inr b \<Rightarrow> (case unmarshal_with budget_of_members b of Inl e \<Rightarrow> err (BParse e) | Inr st \<Rightarrow> ok st))"

definition budget_save :: "faults \<Rightarrow> path \<Rightarrow> fs \<Rightarrow> budget_state \<Rightarrow> (budget_err \<times> fs, fs) result" where
  "budget_save flt dir fs st =
     (if \<not> time_json_ok (bs_last_updated st) then err (BMarshal, fs)
      else (case write_atomic flt fs (budget_path dir (bs_pairing_id st)) (marshal_indent (budget_members st)) mode_0600 of
              Inl (e, fs') \<Rightarrow> err (BSave e, fs')
            | Inr fs' \<Rightarrow> ok fs'))"

definition with_lock ::
  "faults \<Rightarrow> path \<Rightarrow> fs \<Rightarrow> string \<Rightarrow> (fs \<Rightarrow> (budget_err \<times> fs, 'a \<times> fs) result) \<Rightarrow> (budget_err \<times> fs, 'a \<times> fs) result" where
  "with_lock flt dir fs pid f =
     (case os_open_create flt False fs (budget_lock_path dir pid) mode_0600 of
        Inl e \<Rightarrow> err (BOpenLock e, fs)
      | Inr fs1 \<Rightarrow> (case os_flock flt (budget_lock_path dir pid) of Inl e \<Rightarrow> err (BFlock e, fs1) | Inr _ \<Rightarrow> f fs1))"

text \<open>The two tests that \<open>Check\<close> and \<open>Consume\<close> make, in their order.\<close>

definition budget_guard :: "budget_state \<Rightarrow> int \<Rightarrow> budget_err option" where
  "budget_guard st cost =
     (if bs_max_requests st \<le> bs_requests st then Some BRateLimit
      else if bs_max_cost_cents st < wrap64 (bs_cost_cents st + cost) then Some BCostCap
      else None)"

definition budget_check ::
  "faults \<Rightarrow> (nat \<Rightarrow> gtime) \<Rightarrow> path \<Rightarrow> fs \<Rightarrow> string \<Rightarrow> int \<Rightarrow> (budget_err \<times> fs, unit \<times> fs) result" where
  "budget_check flt clk dir fs pid cost =
     with_lock flt dir fs pid (\<lambda>fs1.
       (case budget_load flt (clk 0) dir fs1 pid of
          Inl e \<Rightarrow> err (e, fs1)
        | Inr st \<Rightarrow>
            (case budget_guard (roll_day (clk 1) st) cost of
               Some e \<Rightarrow> err (e, fs1)
             | None \<Rightarrow> ok ((), fs1))))"

definition budget_charge :: "gtime \<Rightarrow> budget_state \<Rightarrow> int \<Rightarrow> budget_state" where
  "budget_charge now st cost =
     st\<lparr> bs_requests := wrap64 (bs_requests st + 1), bs_cost_cents := wrap64 (bs_cost_cents st + cost),
         bs_last_updated := to_utc now \<rparr>"

definition budget_consume ::
  "faults \<Rightarrow> (nat \<Rightarrow> gtime) \<Rightarrow> path \<Rightarrow> fs \<Rightarrow> string \<Rightarrow> int \<Rightarrow> (budget_err \<times> fs, unit \<times> fs) result" where
  "budget_consume flt clk dir fs pid cost =
     with_lock flt dir fs pid (\<lambda>fs1.
       (case budget_load flt (clk 0) dir fs1 pid of
          Inl e \<Rightarrow> err (e, fs1)
        | Inr st \<Rightarrow>
            (let st1 = roll_day (clk 1) st in
             case budget_guard st1 cost of
               Some e \<Rightarrow> err (e, fs1)
             | None \<Rightarrow>
                 (case budget_save flt dir fs1 (budget_charge (clk 2) st1 cost) of
                    Inl (e, fs2) \<Rightarrow> err (e, fs2)
                  | Inr fs2 \<Rightarrow> ok ((), fs2)))))"

definition budget_get ::
  "faults \<Rightarrow> (nat \<Rightarrow> gtime) \<Rightarrow> path \<Rightarrow> fs \<Rightarrow> string \<Rightarrow> (budget_err \<times> fs, budget_state \<times> fs) result" where
  "budget_get flt clk dir fs pid =
     with_lock flt dir fs pid (\<lambda>fs1.
       (case budget_load flt (clk 0) dir fs1 pid of
          Inl e \<Rightarrow> err (e, fs1)
        | Inr st \<Rightarrow> ok (roll_day (clk 1) st, fs1)))"

definition budget_set_limits ::
  "faults \<Rightarrow> (nat \<Rightarrow> gtime) \<Rightarrow> path \<Rightarrow> fs \<Rightarrow> string \<Rightarrow> int \<Rightarrow> int \<Rightarrow> (budget_err \<times> fs, unit \<times> fs) result" where
  "budget_set_limits flt clk dir fs pid max_req max_cost =
     with_lock flt dir fs pid (\<lambda>fs1.
       (case budget_load flt (clk 0) dir fs1 pid of
          Inl e \<Rightarrow> err (e, fs1)
        | Inr st \<Rightarrow>
            (let st1 = (if 0 < max_req then st\<lparr>bs_max_requests := max_req\<rparr> else st);
                 st2 = (if 0 < max_cost then st1\<lparr>bs_max_cost_cents := max_cost\<rparr> else st1)
             in case budget_save flt dir fs1 st2 of
                  Inl (e, fs2) \<Rightarrow> err (e, fs2)
                | Inr fs2 \<Rightarrow> ok ((), fs2))))"

section \<open>The stored form\<close>

definition budget_ok :: "budget_state \<Rightarrow> bool" where
  "budget_ok st \<longleftrightarrow> valid_utf8 (bs_pairing_id st) \<and> valid_utf8 (bs_date st) \<and> in_int64 (bs_requests st)
     \<and> in_int64 (bs_cost_cents st) \<and> time_ok (bs_last_updated st) \<and> in_int64 (bs_max_requests st)
     \<and> in_int64 (bs_max_cost_cents st)"

lemma budget_raws:
  defines "ms st \<equiv> printed (budget_members st)"
  shows "field_raws (ms st) ''pairing_id'' = [json_quote (bs_pairing_id st)]"
    "field_raws (ms st) ''date'' = [json_quote (bs_date st)]"
    "field_raws (ms st) ''requests'' = [itoa (bs_requests st)]"
    "field_raws (ms st) ''cost_cents'' = [itoa (bs_cost_cents st)]"
    "field_raws (ms st) ''last_updated'' = [DQ # format_rfc3339nano (bs_last_updated st) @ [DQ]]"
    "field_raws (ms st) ''max_requests'' = [itoa (bs_max_requests st)]"
    "field_raws (ms st) ''max_cost_cents'' = [itoa (bs_max_cost_cents st)]"
  unfolding ms_def budget_members_def printed_simps by (simp_all add: key_eval)

interpretation budget_codec: flat_record budget_members budget_of_members budget_ok
proof (unfold_locales, goal_cases)
  case (1 st)
  show ?case by (simp add: flat_members_def budget_members_def byte_def)
next
  case (2 st)
  then have v: "valid_utf8 (bs_pairing_id st)" "valid_utf8 (bs_date st)" "in_int64 (bs_requests st)"
    "in_int64 (bs_cost_cents st)" "time_ok (bs_last_updated st)" "in_int64 (bs_max_requests st)" "in_int64 (bs_max_cost_cents st)"
    by (auto simp: budget_ok_def)
  note r = budget_raws [of st]
  show ?case
    unfolding budget_of_members_def
    by (simp add: get_string(1) [OF r(1) v(1)] get_string(1) [OF r(2) v(2)] get_int(1) [OF r(3) v(3)]
        get_int(1) [OF r(4) v(4)] get_time [OF r(5) v(5)] get_int(1) [OF r(6) v(6)] get_int(1) [OF r(7) v(7)])
qed

section \<open>What is on disk\<close>

text \<open>The state a pairing has on a given day, read without faults.\<close>

definition budget_view :: "string \<Rightarrow> path \<Rightarrow> fs \<Rightarrow> string \<Rightarrow> budget_state option" where
  "budget_view today dir fs pid =
     (case file_data fs (budget_path dir pid) of
        None \<Rightarrow> Some (budget_default today pid)
      | Some b \<Rightarrow> (case unmarshal_with budget_of_members b of Inl _ \<Rightarrow> None | Inr st \<Rightarrow> Some (roll_to today st)))"

definition budget_place :: "path \<Rightarrow> string \<Rightarrow> bool" where
  "budget_place dir pid \<longleftrightarrow> proper_dir dir \<and> SLASH \<notin> set pid"

lemma budget_paths:
  assumes "budget_place dir pid"
  shows "budget_path dir pid = dir @ SLASH # pid @ ''.json''" "budget_lock_path dir pid = dir @ SLASH # pid @ ''.lock''"
  using assms join2_child [of dir "pid @ ''.json''"] join2_child [of dir "pid @ ''.lock''"]
  by (auto simp: budget_place_def budget_path_def budget_lock_path_def plain_name_def)

lemma budget_lock_neq: "budget_place dir pid \<Longrightarrow> budget_path dir pid \<noteq> budget_lock_path dir pid"
  by (simp add: budget_paths)

lemma budget_view_cong:
  "file_data fs (budget_path dir pid) = file_data fs' (budget_path dir pid) \<Longrightarrow> budget_view today dir fs pid = budget_view today dir fs' pid"
  by (simp add: budget_view_def)

lemma roll_to_idem: "roll_to today (roll_to today st) = roll_to today st" "bs_date (roll_to today st) = today"
  by (simp_all add: roll_to_def)

lemma budget_load_view:
  assumes "budget_load flt now dir fs pid = ok st" "today_str now = today" "today_str now' = today"
  shows "budget_view today dir fs pid = Some (roll_day now' st)"
  using assms
  by (auto simp: budget_load_def budget_view_def roll_day_def os_read_file_def file_data_def roll_to_def budget_default_def
      split: sum.splits ioerr.splits option.splits fnode.splits)

lemma budget_save_ok:
  assumes "budget_save flt dir fs st = ok fs'" "budget_ok st" "bs_date st = today" "bs_pairing_id st = pid"
  shows "budget_view today dir fs' pid = Some st"
proof -
  have "file_data fs' (budget_path dir pid) = Some (marshal_indent (budget_members st))"
    using assms(1,4) write_atomic_ok(1) by (auto simp: budget_save_def split: if_splits sum.splits prod.splits)
  then show ?thesis
    using budget_codec.unmarshal_indent [OF assms(2)] assms(3) by (simp add: budget_view_def roll_to_def)
qed

lemma budget_save_err:
  assumes "budget_save flt dir fs st = err (e, fs')" "bs_pairing_id st = pid"
  shows "budget_view today dir fs' pid = budget_view today dir fs pid"
proof (rule budget_view_cong)
  show "file_data fs' (budget_path dir pid) = file_data fs (budget_path dir pid)"
    using assms write_atomic_err [of flt fs "budget_path dir pid" _ _ _ fs' "budget_path dir pid"]
    by (auto simp: budget_save_def file_data_def split: if_splits sum.splits prod.splits)
qed

lemma lock_open_view:
  assumes "os_open_create flt False fs (budget_lock_path dir pid) mode = ok fs'" "budget_place dir pid"
  shows "budget_view today dir fs' pid = budget_view today dir fs pid"
  by (rule budget_view_cong, rule file_data_cong, rule open_create_ok(2) [OF assms(1) budget_lock_neq [OF assms(2)]])

section \<open>Interleaved consumers\<close>

text \<open>
  Several processes run \<open>Consume\<close> for one pairing on one day.  Each opens the lock file, waits for the
  lock, loads, decides and saves in separate steps, so that steps of different processes interleave in every way
  the lock allows; every step has its own table of faults and its own readings of the clock.
\<close>

datatype bpc = Ready int | Opened int | Holding int | Loaded int budget_state | Finished "budget_err option"

record bsys =
  by_fs :: fs
  by_lock :: "nat option"
  by_pc :: "nat \<Rightarrow> bpc"

definition finish :: "bsys \<Rightarrow> nat \<Rightarrow> fs \<Rightarrow> budget_err option \<Rightarrow> bsys" where
  "finish s p fs r = \<lparr> by_fs = fs, by_lock = None, by_pc = (by_pc s)(p := Finished r) \<rparr>"

inductive bstep :: "path \<Rightarrow> string \<Rightarrow> string \<Rightarrow> bsys \<Rightarrow> bsys \<Rightarrow> bool" for dir pid today where
  open_lock: "by_pc s p = Ready c \<Longrightarrow>
    os_open_create flt False (by_fs s) (budget_lock_path dir pid) mode_0600 = ok fs1 \<Longrightarrow>
    bstep dir pid today s (s\<lparr> by_fs := fs1, by_pc := (by_pc s)(p := Opened c) \<rparr>)"
| open_fails: "by_pc s p = Ready c \<Longrightarrow>
    os_open_create flt False (by_fs s) (budget_lock_path dir pid) mode_0600 = err e \<Longrightarrow>
    bstep dir pid today s (s\<lparr> by_pc := (by_pc s)(p := Finished (Some (BOpenLock e))) \<rparr>)"
| acquire: "by_pc s p = Opened c \<Longrightarrow> by_lock s = None \<Longrightarrow> os_flock flt (budget_lock_path dir pid) = ok () \<Longrightarrow>
    bstep dir pid today s (s\<lparr> by_lock := Some p, by_pc := (by_pc s)(p := Holding c) \<rparr>)"
| flock_fails: "by_pc s p = Opened c \<Longrightarrow> os_flock flt (budget_lock_path dir pid) = err e \<Longrightarrow>
    bstep dir pid today s (s\<lparr> by_pc := (by_pc s)(p := Finished (Some (BFlock e))) \<rparr>)"
| load: "by_pc s p = Holding c \<Longrightarrow> today_str na = today \<Longrightarrow> today_str nb = today \<Longrightarrow>
    budget_load flt na dir (by_fs s) pid = ok st \<Longrightarrow>
    bstep dir pid today s (s\<lparr> by_pc := (by_pc s)(p := Loaded c (roll_day nb st)) \<rparr>)"
| load_fails: "by_pc s p = Holding c \<Longrightarrow> budget_load flt now dir (by_fs s) pid = err e \<Longrightarrow>
    bstep dir pid today s (finish s p (by_fs s) (Some e))"
| reject: "by_pc s p = Loaded c st \<Longrightarrow> budget_guard st c = Some e \<Longrightarrow> bstep dir pid today s (finish s p (by_fs s) (Some e))"
| save: "by_pc s p = Loaded c st \<Longrightarrow> budget_guard st c = None \<Longrightarrow> time_ok (to_utc now) \<Longrightarrow>
    budget_save flt dir (by_fs s) (budget_charge now st c) = ok fs' \<Longrightarrow> bstep dir pid today s (finish s p fs' None)"
| save_fails: "by_pc s p = Loaded c st \<Longrightarrow> budget_guard st c = None \<Longrightarrow>
    budget_save flt dir (by_fs s) (budget_charge now st c) = err (e, fs') \<Longrightarrow> bstep dir pid today s (finish s p fs' (Some e))"

inductive_cases bstepE: "bstep dir pid today s s'"

definition bstart :: "fs \<Rightarrow> (nat \<Rightarrow> int) \<Rightarrow> bsys" where
  "bstart fs costs = \<lparr> by_fs = fs, by_lock = None, by_pc = (\<lambda>p. Ready (costs p)) \<rparr>"

text \<open>The processes whose \<open>Consume\<close> has returned nil.\<close>

definition accepted :: "bsys \<Rightarrow> nat set" where
  "accepted s = {p. by_pc s p = Finished None}"

text \<open>The processes that hold the lock, by the point they have reached.\<close>

definition past_lock :: "bsys \<Rightarrow> nat \<Rightarrow> bool" where
  "past_lock s p \<longleftrightarrow> (case by_pc s p of Holding _ \<Rightarrow> True | Loaded _ _ \<Rightarrow> True | _ \<Rightarrow> False)"

text \<open>What a whole call of \<open>Consume\<close> leaves when nobody else moves.\<close>

definition consumed ::
  "(nat \<Rightarrow> gtime) \<Rightarrow> path \<Rightarrow> string \<Rightarrow> bsys \<Rightarrow> nat \<Rightarrow> faults \<Rightarrow> int \<Rightarrow> bsys" where
  "consumed clk dir pid s p flt c =
     (case budget_consume flt clk dir (by_fs s) pid c of
        Inl (e, fs') \<Rightarrow> finish s p fs' (Some e)
      | Inr (_, fs') \<Rightarrow> finish s p fs' None)"

lemma finish_again [simp]:
  "finish (s\<lparr> by_fs := a, by_lock := b, by_pc := (by_pc s)(p := c) \<rparr>) p fs' r = finish s p fs' r"
  by (simp add: finish_def)

text \<open>A process that meets a free lock and is left alone runs through these steps exactly as the code does, whatever fails.\<close>

lemma consume_steps:
  assumes "by_pc s p = Ready c" "by_lock s = None" "today_str (clk 0) = today" "today_str (clk 1) = today" "time_ok (to_utc (clk 2))"
  shows "(bstep dir pid today)\<^sup>*\<^sup>* s (consumed clk dir pid s p flt c)"
proof -
  let ?lock = "budget_lock_path dir pid"
  have fin: "s\<lparr> by_pc := (by_pc s)(p := Finished r) \<rparr> = finish s p (by_fs s) r" for r using assms(2) by (simp add: finish_def)
  show ?thesis
  proof (cases "os_open_create flt False (by_fs s) ?lock mode_0600")
    case (Inl e)
    then show ?thesis
      using open_fails [OF assms(1) Inl, of today] by (simp add: consumed_def budget_consume_def with_lock_def fin r_into_rtranclp)
  next
    case (Inr fs1)
    let ?s1 = "s\<lparr> by_fs := fs1, by_pc := (by_pc s)(p := Opened c) \<rparr>"
    have 1: "bstep dir pid today s ?s1" by (rule open_lock [OF assms(1) Inr])
    show ?thesis
    proof (cases "os_flock flt ?lock")
      case (Inl e)
      have "bstep dir pid today ?s1 (?s1\<lparr> by_pc := (by_pc ?s1)(p := Finished (Some (BFlock e))) \<rparr>)"
        by (rule flock_fails [OF _ Inl]) simp
      moreover have "?s1\<lparr> by_pc := (by_pc ?s1)(p := Finished r) \<rparr> = finish s p fs1 r" for r using assms(2) by (simp add: finish_def)
      ultimately have "bstep dir pid today ?s1 (finish s p fs1 (Some (BFlock e)))" by simp
      moreover have "consumed clk dir pid s p flt c = finish s p fs1 (Some (BFlock e))"
        using Inr Inl by (simp add: consumed_def budget_consume_def with_lock_def)
      ultimately show ?thesis using 1 by (simp add: rtranclp.rtrancl_into_rtrancl)
    next
      case fl: (Inr u)
      let ?s2 = "?s1\<lparr> by_lock := Some p, by_pc := (by_pc ?s1)(p := Holding c) \<rparr>"
      have "bstep dir pid today ?s1 ?s2" by (rule acquire [where flt = flt]) (use fl assms(2) in auto)
      with 1 have 2: "(bstep dir pid today)\<^sup>*\<^sup>* s ?s2" by (simp add: rtranclp.rtrancl_into_rtrancl)
      show ?thesis
      proof (cases "budget_load flt (clk 0) dir fs1 pid")
        case (Inl e)
        have "bstep dir pid today ?s2 (finish ?s2 p (by_fs ?s2) (Some e))"
          by (rule load_fails [where flt = flt and now = "clk 0"]) (use Inl in auto)
        then show ?thesis
          using 2 Inr fl Inl by (simp add: consumed_def budget_consume_def with_lock_def rtranclp.rtrancl_into_rtrancl)
      next
        case st: (Inr st)
        let ?st = "roll_day (clk 1) st"
        let ?s3 = "?s2\<lparr> by_pc := (by_pc ?s2)(p := Loaded c ?st) \<rparr>"
        have "bstep dir pid today ?s2 ?s3"
          by (rule load [where na = "clk 0" and nb = "clk 1" and flt = flt]) (use st assms(3,4) in auto)
        with 2 have 3: "(bstep dir pid today)\<^sup>*\<^sup>* s ?s3" by (simp add: rtranclp.rtrancl_into_rtrancl)
        have "bstep dir pid today ?s3 (consumed clk dir pid s p flt c)"
        proof (cases "budget_guard ?st c")
          case (Some e)
          have "bstep dir pid today ?s3 (finish ?s3 p (by_fs ?s3) (Some e))" by (rule reject) (use Some in auto)
          then show ?thesis using Inr fl st Some by (simp add: consumed_def budget_consume_def with_lock_def)
        next
          case g: None
          have pc: "by_pc ?s3 p = Loaded c ?st" by simp
          show ?thesis
          proof (cases "budget_save flt dir fs1 (budget_charge (clk 2) ?st c)")
            case (Inl x)
            obtain e fs' where x: "x = (e, fs')" by (cases x)
            have "bstep dir pid today ?s3 (finish ?s3 p fs' (Some e))"
              by (rule save_fails [OF pc g, where flt = flt and now = "clk 2"]) (use Inl x in simp)
            then show ?thesis using Inr fl st g Inl x by (simp add: consumed_def budget_consume_def with_lock_def)
          next
            case sv: (Inr fs')
            have "bstep dir pid today ?s3 (finish ?s3 p fs' None)"
              by (rule save [OF pc g assms(5), where flt = flt]) (use sv in simp)
            then show ?thesis using Inr fl st g sv by (simp add: consumed_def budget_consume_def with_lock_def)
          qed
        qed
        with 3 show ?thesis by (simp add: rtranclp.rtrancl_into_rtrancl)
      qed
    qed
  qed
qed


definition tally :: "string \<Rightarrow> string \<Rightarrow> budget_state \<Rightarrow> (nat \<Rightarrow> int) \<Rightarrow> nat set \<Rightarrow> budget_state \<Rightarrow> bool" where
  "tally pid today st0 costs A v \<longleftrightarrow> budget_ok v \<and> bs_pairing_id v = pid \<and> bs_date v = today
     \<and> bs_requests v = bs_requests st0 + int (card A) \<and> bs_cost_cents v = bs_cost_cents st0 + sum costs A
     \<and> bs_max_requests v = bs_max_requests st0 \<and> bs_max_cost_cents v = bs_max_cost_cents st0
     \<and> bs_requests v \<le> bs_max_requests v \<and> bs_cost_cents v \<le> bs_max_cost_cents v"

definition pc_inv :: "string \<Rightarrow> path \<Rightarrow> string \<Rightarrow> (nat \<Rightarrow> int) \<Rightarrow> bsys \<Rightarrow> nat \<Rightarrow> bool" where
  "pc_inv today dir pid costs s p \<longleftrightarrow>
     (case by_pc s p of
        Ready c \<Rightarrow> c = costs p \<and> by_lock s \<noteq> Some p
      | Opened c \<Rightarrow> c = costs p \<and> by_lock s \<noteq> Some p
      | Holding c \<Rightarrow> c = costs p \<and> by_lock s = Some p
      | Loaded c st \<Rightarrow> c = costs p \<and> by_lock s = Some p \<and> budget_view today dir (by_fs s) pid = Some st
      | Finished r \<Rightarrow> by_lock s \<noteq> Some p)"

definition binv :: "string \<Rightarrow> path \<Rightarrow> string \<Rightarrow> budget_state \<Rightarrow> (nat \<Rightarrow> int) \<Rightarrow> bsys \<Rightarrow> bool" where
  "binv today dir pid st0 costs s \<longleftrightarrow> (\<forall>p. pc_inv today dir pid costs s p) \<and> finite (accepted s)
     \<and> (\<exists>v. budget_view today dir (by_fs s) pid = Some v \<and> tally pid today st0 costs (accepted s) v)"

lemma charge_tally:
  assumes "tally pid today st0 costs A v" "finite A" "p \<notin> A" "budget_guard v (costs p) = None" "time_ok (to_utc now)"
    "0 \<le> costs p" "costs p \<le> max_int64 - bs_max_cost_cents st0" "0 \<le> bs_cost_cents st0" "\<And>q. 0 \<le> costs q" "0 \<le> bs_requests st0"
  shows "tally pid today st0 costs (insert p A) (budget_charge now v (costs p))"
proof -
  have g: "bs_requests v < bs_max_requests v" "wrap64 (bs_cost_cents v + costs p) \<le> bs_max_cost_cents v"
    using assms(4) by (auto simp: budget_guard_def split: if_splits)
  have t: "bs_requests v = bs_requests st0 + int (card A)" "bs_cost_cents v = bs_cost_cents st0 + sum costs A"
    "bs_max_cost_cents v = bs_max_cost_cents st0" "bs_cost_cents v \<le> bs_max_cost_cents v" "in_int64 (bs_max_requests v)"
    using assms(1) by (auto simp: tally_def budget_ok_def)
  have "0 \<le> sum costs A" using assms(9) by (simp add: sum_nonneg)
  then have "in_int64 (bs_cost_cents v + costs p)"
    using t assms(6-8) by (simp add: in_int64_def min_int64_def max_int64_def)
  moreover have "in_int64 (bs_requests v + 1)"
    using g(1) t(1,5) assms(10) by (simp add: in_int64_def min_int64_def max_int64_def)
  ultimately show ?thesis
    using assms(1-3,5) g t
    by (auto simp: tally_def budget_charge_def budget_ok_def wrap64_id)
qed

lemma pc_inv_other:
  assumes "pc_inv today dir pid costs s q" "pc_inv today dir pid costs s p" "q \<noteq> p" "by_lock s = Some p"
    "by_pc s' q = by_pc s q" "by_lock s' = None \<or> by_lock s' = Some p"
  shows "pc_inv today dir pid costs s' q"
  using assms by (auto simp: pc_inv_def split: bpc.splits)

lemma holder: "pc_inv today dir pid costs s p \<Longrightarrow> (\<exists>c. by_pc s p = Holding c) \<or> (\<exists>c st. by_pc s p = Loaded c st) \<Longrightarrow> by_lock s = Some p"
  by (auto simp: pc_inv_def)

lemma finish_inv:
  assumes "binv today dir pid st0 costs s" "by_lock s = Some p"
    "finite (accepted (finish s p fs' r))"
    "\<exists>v. budget_view today dir fs' pid = Some v \<and> tally pid today st0 costs (accepted (finish s p fs' r)) v"
  shows "binv today dir pid st0 costs (finish s p fs' r)"
proof -
  have i: "pc_inv today dir pid costs s q" for q using assms(1) by (simp add: binv_def)
  have "pc_inv today dir pid costs (finish s p fs' r) q" for q
  proof (cases "q = p")
    case False
    show ?thesis by (rule pc_inv_other [OF i i False assms(2)]) (simp_all add: finish_def False)
  qed (simp add: pc_inv_def finish_def)
  with assms(3,4) show ?thesis by (auto simp: binv_def finish_def)
qed

lemma accepted_fail: "by_pc s p \<noteq> Finished None \<Longrightarrow> accepted (finish s p fs' (Some e)) = accepted s"
  by (auto simp: accepted_def finish_def)

lemma accepted_none: "accepted (finish s p fs' None) = insert p (accepted s)"
  by (auto simp: accepted_def finish_def)


lemma give_up_inv:
  assumes "binv today dir pid st0 costs s" "by_pc s p = Ready c \<or> by_pc s p = Opened c"
  shows "binv today dir pid st0 costs (s\<lparr> by_pc := (by_pc s)(p := Finished (Some e)) \<rparr>)"
proof -
  let ?s = "s\<lparr> by_pc := (by_pc s)(p := Finished (Some e)) \<rparr>"
  have a: "accepted ?s = accepted s" using assms(2) by (auto simp: accepted_def)
  have "pc_inv today dir pid costs ?s q" for q
  proof -
    have "pc_inv today dir pid costs s q" "pc_inv today dir pid costs s p" using assms(1) by (simp_all add: binv_def)
    then show ?thesis using assms(2) by (cases "q = p") (auto simp: pc_inv_def split: bpc.splits)
  qed
  then show ?thesis using assms(1) a by (simp add: binv_def)
qed

lemma bstep_inv:
  assumes "bstep dir pid today s s'" "binv today dir pid st0 costs s" "budget_place dir pid"
    "\<And>p. 0 \<le> costs p \<and> costs p \<le> max_int64 - bs_max_cost_cents st0" "0 \<le> bs_cost_cents st0" "0 \<le> bs_requests st0"
  shows "binv today dir pid st0 costs s'"
  using assms(1)
proof cases
  case (open_lock p c flt fs1)
  have v: "budget_view today dir fs1 pid = budget_view today dir (by_fs s) pid"
    by (rule lock_open_view [OF open_lock(3) assms(3)])
  have a: "accepted s' = accepted s" using open_lock(1,2) by (auto simp: accepted_def)
  have "pc_inv today dir pid costs s' q" for q
  proof -
    have "pc_inv today dir pid costs s q" using assms(2) by (simp add: binv_def)
    then show ?thesis using open_lock(1,2) v by (cases "q = p") (auto simp: pc_inv_def split: bpc.splits)
  qed
  then show ?thesis using assms(2) v a open_lock(1) by (simp add: binv_def)
next
  case (open_fails p c flt e)
  show ?thesis unfolding open_fails(1) by (rule give_up_inv [OF assms(2)]) (simp add: open_fails(2))
next
  case (acquire p c flt)
  have a: "accepted s' = accepted s" using acquire(1,2) by (auto simp: accepted_def)
  have "pc_inv today dir pid costs s' q" for q
  proof -
    have "pc_inv today dir pid costs s q" using assms(2) by (simp add: binv_def)
    then show ?thesis using acquire(1-3) by (cases "q = p") (auto simp: pc_inv_def split: bpc.splits)
  qed
  then show ?thesis using assms(2) a acquire(1) by (simp add: binv_def)
next
  case (flock_fails p c flt e)
  show ?thesis unfolding flock_fails(1) by (rule give_up_inv [OF assms(2)]) (simp add: flock_fails(2))
next
  case (load p c na nb flt st)
  have v: "budget_view today dir (by_fs s) pid = Some (roll_day nb st)" by (rule budget_load_view [OF load(5,3,4)])
  have a: "accepted s' = accepted s" using load(1,2) by (auto simp: accepted_def)
  have "pc_inv today dir pid costs s' q" for q
  proof -
    have "pc_inv today dir pid costs s q" using assms(2) by (simp add: binv_def)
    then show ?thesis using load(1,2) v by (cases "q = p") (auto simp: pc_inv_def split: bpc.splits)
  qed
  then show ?thesis using assms(2) a load(1) by (simp add: binv_def)
next
  case (load_fails p c flt now e)
  have h: "by_lock s = Some p" using assms(2) load_fails(2) by (auto simp: binv_def intro: holder)
  have a: "accepted s' = accepted s" using load_fails(1,2) by (simp add: accepted_fail)
  show ?thesis unfolding load_fails(1) by (rule finish_inv [OF assms(2) h]) (use assms(2) a load_fails(1) in \<open>auto simp: binv_def\<close>)
next
  case (reject p c st e)
  have h: "by_lock s = Some p" using assms(2) reject(2) by (auto simp: binv_def intro: holder)
  have a: "accepted s' = accepted s" using reject(1,2) by (simp add: accepted_fail)
  show ?thesis unfolding reject(1) by (rule finish_inv [OF assms(2) h]) (use assms(2) a reject(1) in \<open>auto simp: binv_def\<close>)
next
  case (save p c st now flt fs')
  have h: "by_lock s = Some p" using assms(2) save(2) by (auto simp: binv_def intro: holder)
  have i: "pc_inv today dir pid costs s p" using assms(2) by (simp add: binv_def)
  then have v: "c = costs p" "budget_view today dir (by_fs s) pid = Some st" using save(2) by (auto simp: pc_inv_def)
  then have t: "tally pid today st0 costs (accepted s) st" "finite (accepted s)" using assms(2) by (auto simp: binv_def)
  have p: "p \<notin> accepted s" using save(2) by (simp add: accepted_def)
  have t': "tally pid today st0 costs (insert p (accepted s)) (budget_charge now st (costs p))"
    using charge_tally [OF t p] save(3,4) v(1) assms(4-6) by blast
  then have "budget_view today dir fs' pid = Some (budget_charge now st (costs p))"
    using save(5) v(1) by (intro budget_save_ok) (auto simp: tally_def)
  with t' t(2) show ?thesis
    unfolding save(1) by (intro finish_inv [OF assms(2) h]) (auto simp: accepted_none)
next
  case (save_fails p c st flt now e fs')
  have h: "by_lock s = Some p" using assms(2) save_fails(2) by (auto simp: binv_def intro: holder)
  have i: "pc_inv today dir pid costs s p" using assms(2) by (simp add: binv_def)
  then have "budget_view today dir (by_fs s) pid = Some st" using save_fails(2) by (auto simp: pc_inv_def)
  then have "bs_pairing_id (budget_charge now st c) = pid" using assms(2) by (auto simp: binv_def tally_def budget_charge_def)
  then have v: "budget_view today dir fs' pid = budget_view today dir (by_fs s) pid" by (rule budget_save_err [OF save_fails(4)])
  have a: "accepted s' = accepted s" using save_fails(1,2) by (simp add: accepted_fail)
  show ?thesis unfolding save_fails(1) by (rule finish_inv [OF assms(2) h]) (use assms(2) a v save_fails(1) in \<open>auto simp: binv_def\<close>)
qed

text \<open>C2.  The caps hold under every interleaving.  Any number of processes consume from one pairing's budget on one day, their
  steps interleaved in any way the lock file allows and with any I/O faults; the costs are not negative and so small that no
  sum overflows.  In every reachable state the file holds the initial counters plus exactly the requests and the costs of the
  processes whose \<open>Consume\<close> returned nil (none lost, none counted twice), neither cap is exceeded, and at most one process is past
  the lock; and a process that meets a free lock and is left alone does just what \<open>Consume\<close> does, error or not.\<close>

theorem consume_race_safe:
  assumes "(bstep dir pid today)\<^sup>*\<^sup>* (bstart fs costs) s"
    and "budget_place dir pid" "budget_view today dir fs pid = Some st0" "budget_ok st0"
    and "bs_pairing_id st0 = pid" "0 \<le> bs_requests st0" "bs_requests st0 \<le> bs_max_requests st0"
    and "0 \<le> bs_cost_cents st0" "bs_cost_cents st0 \<le> bs_max_cost_cents st0"
    and "\<And>p. 0 \<le> costs p \<and> costs p \<le> max_int64 - bs_max_cost_cents st0"
  shows "(\<exists>v. budget_view today dir (by_fs s) pid = Some v
      \<and> bs_requests v = bs_requests st0 + int (card (accepted s)) \<and> bs_requests v \<le> bs_max_requests st0
      \<and> bs_cost_cents v = bs_cost_cents st0 + sum costs (accepted s) \<and> bs_cost_cents v \<le> bs_max_cost_cents st0)
    \<and> (\<forall>p q. past_lock s p \<and> past_lock s q \<longrightarrow> p = q)
    \<and> (\<forall>p c flt clk. by_pc s p = Ready c \<and> by_lock s = None \<and> today_str (clk 0) = today \<and> today_str (clk 1) = today \<and> time_ok (to_utc (clk 2))
        \<longrightarrow> (bstep dir pid today)\<^sup>*\<^sup>* s (consumed clk dir pid s p flt c))"
proof -
  have d: "bs_date st0 = today"
    using assms(3) by (auto simp: budget_view_def roll_to_def budget_default_def split: option.splits sum.splits if_splits)
  have "binv today dir pid st0 costs (bstart fs costs)"
    using assms(3-9) d by (simp add: binv_def pc_inv_def bstart_def accepted_def tally_def)
  from assms(1) this have i: "binv today dir pid st0 costs s"
  proof (induction rule: rtranclp_induct)
    case (step y z)
    show ?case by (rule bstep_inv [OF step(2) step(3) [OF step(4)] assms(2,10,8,6)])
  qed
  then have v: "\<exists>v. budget_view today dir (by_fs s) pid = Some v
      \<and> bs_requests v = bs_requests st0 + int (card (accepted s)) \<and> bs_requests v \<le> bs_max_requests st0
      \<and> bs_cost_cents v = bs_cost_cents st0 + sum costs (accepted s) \<and> bs_cost_cents v \<le> bs_max_cost_cents st0"
    by (auto simp: binv_def tally_def)
  have lock: "by_lock s = Some p" if "past_lock s p" for p
    using i that by (auto simp: past_lock_def binv_def pc_inv_def split: bpc.splits dest: spec [of _ p])
  have "p = q" if "past_lock s p" "past_lock s q" for p q using lock [OF that(1)] lock [OF that(2)] by simp
  with v show ?thesis using consume_steps by blast
qed

section \<open>One consumer\<close>

lemma wrap64_over:
  assumes "max_int64 < x" "x \<le> 2 * max_int64 + 2"
  shows "wrap64 x = x - 2 ^ 64"
proof -
  have "(x + 2 ^ 63) mod 2 ^ 64 = (x - 2 ^ 63 + 2 ^ 64) mod 2 ^ 64" by (simp add: add.commute)
  also have "\<dots> = (x - 2 ^ 63) mod 2 ^ 64" by (rule mod_add_self2)
  also have "\<dots> = x - 2 ^ 63" using assms by (intro mod_pos_pos_trivial) (simp_all add: max_int64_def)
  finally show ?thesis by (simp add: wrap64_def)
qed

text \<open>Nothing stands in the way of a pairing's files.\<close>

definition budget_free :: "path \<Rightarrow> fs \<Rightarrow> string \<Rightarrow> bool" where
  "budget_free dir fs pid \<longleftrightarrow> is_dir fs dir \<and> \<not> is_dir fs (budget_path dir pid)
     \<and> \<not> is_dir fs (tmp_of (budget_path dir pid)) \<and> \<not> is_dir fs (budget_lock_path dir pid)"

lemma budget_dirs:
  assumes "budget_place dir pid"
  shows "dir_path (budget_path dir pid) = dir" "dir_path (tmp_of (budget_path dir pid)) = dir" "dir_path (budget_lock_path dir pid) = dir"
    "dir \<noteq> tmp_of (budget_path dir pid)" "dir \<noteq> budget_lock_path dir pid"
    "tmp_of (budget_path dir pid) \<noteq> budget_lock_path dir pid"
proof -
  have "dir_path (dir @ SLASH # n) = dir" if "plain_name n" for n
    using assms that dir_path_child by (simp add: budget_place_def)
  then show "dir_path (budget_path dir pid) = dir" "dir_path (tmp_of (budget_path dir pid)) = dir" "dir_path (budget_lock_path dir pid) = dir"
    using assms by (auto simp: budget_paths tmp_of_def budget_place_def plain_name_def)
  show "dir \<noteq> tmp_of (budget_path dir pid)" "dir \<noteq> budget_lock_path dir pid" "tmp_of (budget_path dir pid) \<noteq> budget_lock_path dir pid"
    using assms by (auto simp: budget_paths tmp_of_def)
qed

lemma lock_open_free:
  assumes "budget_place dir pid" "budget_free dir fs pid"
  shows "\<exists>fs1. os_open_create no_faults False fs (budget_lock_path dir pid) mode_0600 = ok fs1 \<and> budget_free dir fs1 pid"
proof -
  obtain fs1 where o: "os_open_create no_faults False fs (budget_lock_path dir pid) mode_0600 = ok fs1"
    using assms budget_dirs [OF assms(1)]
    by (auto simp: budget_free_def os_open_create_def is_dir_def split: option.splits fnode.splits)
  have same: "map_of fs1 q = map_of fs q" if "q \<noteq> budget_lock_path dir pid" for q using open_create_ok(2) [OF o that] .
  have "\<not> is_dir fs1 (budget_lock_path dir pid)"
    using open_create_ok(1) [OF o] by (auto simp: file_data_def is_dir_def split: option.splits fnode.splits)
  with assms(2) same budget_dirs [OF assms(1)] budget_lock_neq [OF assms(1)] o
  show ?thesis by (auto simp: budget_free_def is_dir_def)
qed

lemma budget_view_load:
  assumes "budget_view today dir fs pid = Some v" "\<not> is_dir fs (budget_path dir pid)" "today_str now = today" "today_str now' = today"
  shows "\<exists>st. budget_load no_faults now dir fs pid = ok st \<and> roll_day now' st = v"
proof (cases "map_of fs (budget_path dir pid)")
  case None
  with assms show ?thesis
    by (auto simp: budget_view_def budget_load_def os_read_file_def file_data_def roll_day_def roll_to_def budget_default_def)
next
  case (Some n)
  with assms(2) obtain b m where "n = File b m" by (cases n) (auto simp: is_dir_def)
  with Some assms show ?thesis
    by (auto simp: budget_view_def budget_load_def os_read_file_def file_data_def roll_day_def split: sum.splits)
qed

lemma budget_save_free:
  assumes "budget_place dir pid" "budget_free dir fs pid" "bs_pairing_id st = pid" "budget_ok st"
  shows "\<exists>fs'. budget_save no_faults dir fs st = ok fs'"
proof -
  have "\<exists>fs'. write_atomic no_faults fs (budget_path dir pid) b mode_0600 = ok fs'" for b
    using assms(2) budget_dirs [OF assms(1)] by (intro write_atomic_succeeds) (auto simp: budget_free_def)
  then obtain fs' where "write_atomic no_faults fs (budget_path dir pid) (marshal_indent (budget_members st)) mode_0600 = ok fs'" by blast
  with assms(3,4) show ?thesis by (auto simp: budget_save_def budget_ok_def time_ok_json simp del: json_indent.simps)
qed

lemma consume_accepts:
  assumes "budget_place dir pid" "budget_free dir fs pid" "budget_view today dir fs pid = Some v"
    "today_str (clk 0) = today" "today_str (clk 1) = today" "budget_guard v cost = None"
    "budget_ok (budget_charge (clk 2) v cost)" "bs_pairing_id v = pid" "bs_date v = today"
  shows "\<exists>fs'. budget_consume no_faults clk dir fs pid cost = ok ((), fs')
     \<and> budget_view today dir fs' pid = Some (budget_charge (clk 2) v cost)"
proof -
  obtain fs1 where o: "os_open_create no_faults False fs (budget_lock_path dir pid) mode_0600 = ok fs1" "budget_free dir fs1 pid"
    using lock_open_free [OF assms(1,2)] by blast
  have v1: "budget_view today dir fs1 pid = Some v" using lock_open_view [OF o(1) assms(1)] assms(3) by simp
  obtain st where l: "budget_load no_faults (clk 0) dir fs1 pid = ok st" "roll_day (clk 1) st = v"
    using budget_view_load [OF v1 _ assms(4,5)] o(2) by (auto simp: budget_free_def)
  have c: "bs_pairing_id (budget_charge (clk 2) v cost) = pid" "bs_date (budget_charge (clk 2) v cost) = today"
    using assms(8,9) by (simp_all add: budget_charge_def)
  obtain fs' where s: "budget_save no_faults dir fs1 (budget_charge (clk 2) v cost) = ok fs'"
    using budget_save_free [OF assms(1) o(2) c(1) assms(7)] by blast
  have "budget_consume no_faults clk dir fs pid cost = ok ((), fs')"
    using o(1) l s assms(6) by (simp add: budget_consume_def with_lock_def os_flock_def)
  with budget_save_ok [OF s assms(7) c(2,1)] show ?thesis by blast
qed


text \<open>C39.  The cost cap does not survive 64-bit overflow.  Once anything has been spent today and while the rate limit is not
  reached, a request for the largest 64-bit cost is accepted: the sum wraps to a negative number, which passes
  the test, and the stored cost becomes negative.\<close>

theorem consume_overflow:
  assumes "budget_place dir pid" "budget_free dir fs pid" "budget_view today dir fs pid = Some v" "budget_ok v"
    and "bs_pairing_id v = pid" "today_str (clk 0) = today" "today_str (clk 1) = today" "time_ok (to_utc (clk 2))"
    and "bs_requests v < bs_max_requests v" "0 < bs_cost_cents v" "0 \<le> bs_max_cost_cents v"
  shows "\<exists>fs' v'. budget_consume no_faults clk dir fs pid max_int64 = ok ((), fs')
     \<and> budget_view today dir fs' pid = Some v' \<and> bs_cost_cents v' < 0"
proof -
  have "bs_cost_cents v \<le> max_int64" using assms(4) by (auto simp: budget_ok_def in_int64_def)
  then have w: "wrap64 (bs_cost_cents v + max_int64) < 0"
    using assms(10) by (subst wrap64_over) (simp_all add: max_int64_def)
  then have g: "budget_guard v max_int64 = None" using assms(9,11) by (simp add: budget_guard_def)
  have d: "bs_date v = today"
    using assms(3) by (auto simp: budget_view_def roll_to_def budget_default_def split: option.splits sum.splits if_splits)
  have "budget_ok (budget_charge (clk 2) v max_int64)" using assms(4,8) by (simp add: budget_ok_def budget_charge_def)
  from consume_accepts [OF assms(1-3,6,7) g this assms(5) d] w show ?thesis by (auto simp: budget_charge_def)
qed

text \<open>C35.  A save never tears a budget.  Whatever calls of \<open>save\<close> fail, a write in the middle and the clean-up included (so also
  when the machine stops, which is the failure of every call from some point on), the pairing's state read afterwards is the new one
  if \<open>save\<close> succeeded and the old one if it did not; no file but the pairing's and its temp file changes; and \<open>save\<close> only succeeds
  if the new bytes were synced before the rename.\<close>

theorem save_crash_atomic:
  assumes "budget_ok st" "bs_pairing_id st = pid" "bs_date st = today"
  shows "(case budget_save flt dir fs st of
      Inr fs' \<Rightarrow> budget_view today dir fs' pid = Some st \<and> flt (FSync (tmp_of (budget_path dir pid))) = None
          \<and> (\<forall>q. q \<noteq> budget_path dir pid \<and> q \<noteq> tmp_of (budget_path dir pid) \<longrightarrow> map_of fs' q = map_of fs q)
    | Inl (e, fs') \<Rightarrow> budget_view today dir fs' pid = budget_view today dir fs pid
          \<and> (\<forall>q. q \<noteq> tmp_of (budget_path dir pid) \<longrightarrow> map_of fs' q = map_of fs q))"
proof (cases "budget_save flt dir fs st")
  case (Inl x)
  obtain e fs' where x: "x = (e, fs')" by (cases x)
  have "map_of fs' q = map_of fs q" if "q \<noteq> tmp_of (budget_path dir pid)" for q
    using Inl x assms(2) write_atomic_err [of flt fs "budget_path dir pid" _ _ _ fs' q] that
    by (auto simp: budget_save_def split: if_splits sum.splits prod.splits)
  then show ?thesis using budget_save_err [OF Inl [unfolded x] assms(2)] Inl x by simp
next
  case (Inr fs')
  then have w: "write_atomic flt fs (budget_path dir pid) (marshal_indent (budget_members st)) mode_0600 = ok fs'"
    using assms(2) by (auto simp: budget_save_def split: if_splits sum.splits prod.splits)
  have "flt (FSync (tmp_of (budget_path dir pid))) = None"
    using w by (auto simp: write_atomic_def os_sync_def split: sum.splits option.splits prod.splits)
  then show ?thesis
    using budget_save_ok [OF Inr assms(1,3,2)] write_atomic_ok(2) [OF w] Inr by simp
qed

section \<open>A concrete budget\<close>

definition demo_bstate :: budget_state where
  "demo_bstate = \<lparr> bs_pairing_id = ''p'', bs_date = ''1970-01-01'', bs_requests = 3, bs_cost_cents = 40,
     bs_last_updated = time_utc 0, bs_max_requests = 1000, bs_max_cost_cents = 10000 \<rparr>"

definition demo_bfs :: fs where
  "demo_bfs = [(''/b'', Dir mode_0700), (''/b/p.json'', File (marshal_indent (budget_members demo_bstate)) mode_0600)]"

lemma pad_numeral: "pad (numeral k) n = pad (pred_numeral k) (n div 10) @ [digit_char (n mod 10)]"
  by (simp only: numeral_eq_Suc pad.simps)

lemma epoch_civil: "civil_from_days 0 = (1970, 1, 1)"
  by code_simp

lemma demo_today: "today_str (time_utc 0) = ''1970-01-01''"
proof -
  have "today_str (time_utc 0) = date_str (1970, 1, 1)"
    by (simp add: today_str_def format_date_def to_utc_def time_utc_def local_secs_def epoch_civil)
  also have "\<dots> = ''1970-01-01''"
    by (simp add: date_str_def year_str_def pad_numeral digit_char_def char_of_def bit_0)
  finally show ?thesis .
qed

lemma epoch_ok: "time_ok (time_utc 0)" "to_utc (time_utc 0) = time_utc 0"
  by (simp_all add: time_ok_def time_year_def local_secs_def time_utc_def epoch_civil to_utc_def)

lemma demo_bok: "budget_ok demo_bstate"
proof -
  have "valid_utf8 ''p''" "valid_utf8 ''1970-01-01''" by (rule valid_utf8_ascii, auto simp: byte_def)+
  then show ?thesis by (simp add: budget_ok_def demo_bstate_def epoch_ok in_int64_def min_int64_def max_int64_def)
qed

lemma demo_bplace: "budget_place ''/b'' ''p''"
  by (simp add: budget_place_def proper_dir_def clean_path_def clean_stack_def is_rooted_def seg_step_def render_path_def)

lemma demo_bview: "budget_view ''1970-01-01'' ''/b'' demo_bfs ''p'' = Some demo_bstate"
proof -
  have "file_data demo_bfs (budget_path ''/b'' ''p'') = Some (marshal_indent (budget_members demo_bstate))"
    by (simp add: budget_paths [OF demo_bplace] demo_bfs_def file_data_def del: json_indent.simps)
  then show ?thesis
    using budget_codec.unmarshal_indent [OF demo_bok]
    by (simp add: budget_view_def roll_to_def demo_bstate_def del: json_indent.simps)
qed

lemma demo_bfree: "budget_free ''/b'' demo_bfs ''p''"
  by (simp add: budget_free_def budget_paths [OF demo_bplace] demo_bfs_def is_dir_def tmp_of_def del: json_indent.simps)

lemma demo_bnums: "bs_pairing_id demo_bstate = ''p''" "bs_requests demo_bstate = 3" "bs_max_requests demo_bstate = 1000"
  "bs_cost_cents demo_bstate = 40" "bs_max_cost_cents demo_bstate = 10000" "bs_date demo_bstate = ''1970-01-01''"
  by (simp_all add: demo_bstate_def)


theorem consume_overflow_witness:
  "\<exists>fs' v'. budget_consume no_faults (\<lambda>_. time_utc 0) ''/b'' demo_bfs ''p'' max_int64 = ok ((), fs')
     \<and> budget_view ''1970-01-01'' ''/b'' fs' ''p'' = Some v' \<and> bs_cost_cents v' < 0"
  by (rule consume_overflow [OF demo_bplace demo_bfree demo_bview demo_bok]) (simp_all add: demo_bnums demo_today epoch_ok)

theorem consume_race_safe_witness:
  "\<exists>s v. (bstep ''/b'' ''p'' ''1970-01-01'')\<^sup>*\<^sup>* (bstart demo_bfs (\<lambda>_. 25)) s \<and> accepted s = {7} \<and> \<not> past_lock s 8
     \<and> budget_view ''1970-01-01'' ''/b'' (by_fs s) ''p'' = Some v \<and> bs_cost_cents v = 65 \<and> bs_requests v = 4"
proof -
  let ?clk = "\<lambda>_. time_utc 0" and ?d = "''1970-01-01''"
  let ?a = "bstart demo_bfs (\<lambda>_. 25)"
  let ?z = "consumed ?clk ''/b'' ''p'' ?a 7 no_faults 25"
  have "budget_guard demo_bstate 25 = None" "budget_ok (budget_charge (time_utc 0) demo_bstate 25)"
    using demo_bok by (simp_all add: budget_guard_def demo_bnums wrap64_id in_int64_def min_int64_def max_int64_def
        budget_ok_def budget_charge_def epoch_ok)
  then obtain fs' where c: "budget_consume no_faults ?clk ''/b'' demo_bfs ''p'' 25 = ok ((), fs')"
    using consume_accepts [OF demo_bplace demo_bfree demo_bview, of ?clk 25] by (auto simp: demo_today demo_bnums)
  have "(bstep ''/b'' ''p'' ?d)\<^sup>*\<^sup>* ?a ?z" by (rule consume_steps) (simp_all add: bstart_def demo_today epoch_ok)
  moreover have "?z = finish ?a 7 fs' None" using c by (simp add: consumed_def bstart_def)
  ultimately have s: "(bstep ''/b'' ''p'' ?d)\<^sup>*\<^sup>* ?a (finish ?a 7 fs' None)" by simp
  have a: "accepted (finish ?a 7 fs' None) = {7}" "\<not> past_lock (finish ?a 7 fs' None) 8"
    by (auto simp: accepted_def finish_def bstart_def past_lock_def split: if_splits)
  have "\<exists>v. budget_view ?d ''/b'' (by_fs (finish ?a 7 fs' None)) ''p'' = Some v \<and> bs_cost_cents v = 65 \<and> bs_requests v = 4"
    using consume_race_safe [OF s demo_bplace demo_bview demo_bok] a(1) by (auto simp: demo_bnums max_int64_def)
  with s a show ?thesis by blast
qed

text \<open>The write of the temp file stops after nine bytes and the temp file cannot be removed.\<close>

theorem save_crash_atomic_witness:
  "\<exists>e fs'. budget_save (no_faults(FWrite ''/b/p.json.tmp'' := Some (9, ''full''), FRemove ''/b/p.json.tmp'' := Some (0, ''io''))) ''/b'' demo_bfs demo_bstate
       = err (e, fs') \<and> file_data fs' ''/b/p.json.tmp'' = Some (take 9 (marshal_indent (budget_members demo_bstate)))
     \<and> budget_view ''1970-01-01'' ''/b'' fs' ''p'' = Some demo_bstate"
proof -
  let ?flt = "no_faults(FWrite ''/b/p.json.tmp'' := Some (9, ''full''), FRemove ''/b/p.json.tmp'' := Some (0, ''io''))"
  let ?b = "marshal_indent (budget_members demo_bstate)"
  have p: "budget_path ''/b'' ''p'' = ''/b/p.json''" "tmp_of ''/b/p.json'' = ''/b/p.json.tmp''"
    by (simp_all add: budget_paths [OF demo_bplace] tmp_of_def)
  have "dir_path ''/b/p.json.tmp'' = ''/b''" using budget_dirs(2) [OF demo_bplace] by (simp add: p)
  then obtain fs1 where o: "os_open_create ?flt True demo_bfs ''/b/p.json.tmp'' mode_0600 = ok fs1" "map_of fs1 ''/b/p.json.tmp'' = Some (File [] mode_0600)"
    by (simp add: os_open_create_def demo_bfs_def is_dir_def update_conv del: json_indent.simps)
  then have w: "os_write ?flt fs1 ''/b/p.json.tmp'' ?b = err (OsErr ''full'', AList.update ''/b/p.json.tmp'' (File (take 9 ?b) mode_0600) fs1)"
    by (simp add: os_write_def del: json_indent.simps)
  have "time_json_ok (bs_last_updated demo_bstate)" using demo_bok by (simp add: budget_ok_def time_ok_json)
  then have sv: "budget_save ?flt ''/b'' demo_bfs demo_bstate = err (BSave (AWrite (OsErr ''full'')), AList.update ''/b/p.json.tmp'' (File (take 9 ?b) mode_0600) fs1)"
    using o w by (simp add: budget_save_def demo_bnums p write_atomic_def remove_quiet_def os_remove_def del: json_indent.simps)
  then show ?thesis
    using save_crash_atomic [where flt = ?flt and dir = "''/b''" and fs = demo_bfs, OF demo_bok demo_bnums(1,6)] demo_bview
    by (simp add: file_data_def update_conv del: json_indent.simps)
qed

end
