(* ===== verification/Pairing.thy ===== *)
theory Pairing
  imports Go_Store Go_Base64
begin

text \<open>
  The pairings, \<open>internal/pairing/pairing.go\<close>: bearer tokens of external callers, one JSON
  file per pairing.  The random bytes of \<open>crypto/rand\<close> are arguments.  The theorems say that an
  identifier accepted by the validation names a file of the store's own directory and nothing else,
  that a token authenticates exactly while its pairing is active, and that a revocation lasts.
\<close>

section \<open>Data\<close>

record pairing =
  pa_id :: string
  pa_token :: string
  pa_label :: string
  pa_created_at :: gtime
  pa_revoked_at :: gtime
  pa_active :: bool

text \<open>\<open>omitempty\<close> does not drop a zero \<open>time.Time\<close>: it is a struct.\<close>

definition pairing_members :: "pairing \<Rightarrow> (bytes \<times> jtree) list" where
  "pairing_members p =
     [(''id'', JStr (pa_id p)), (''token'', JStr (pa_token p)), (''label'', JStr (pa_label p)),
      (''created_at'', JTime (pa_created_at p)), (''revoked_at'', JTime (pa_revoked_at p)), (''active'', JBool (pa_active p))]"

definition pairing_of_members :: "members \<Rightarrow> (json_err, pairing) result" where
  "pairing_of_members ms =
     (case get_field dec_string [] ms ''id'' of Inl x \<Rightarrow> err x | Inr i \<Rightarrow>
     (case get_field dec_string [] ms ''token'' of Inl x \<Rightarrow> err x | Inr t \<Rightarrow>
     (case get_field dec_string [] ms ''label'' of Inl x \<Rightarrow> err x | Inr l \<Rightarrow>
     (case get_field dec_time zero_time ms ''created_at'' of Inl x \<Rightarrow> err x | Inr c \<Rightarrow>
     (case get_field dec_time zero_time ms ''revoked_at'' of Inl x \<Rightarrow> err x | Inr r \<Rightarrow>
     (case get_field dec_bool False ms ''active'' of Inl x \<Rightarrow> err x | Inr a \<Rightarrow>
        ok \<lparr> pa_id = i, pa_token = t, pa_label = l, pa_created_at = c, pa_revoked_at = r, pa_active = a \<rparr>))))))"

datatype pairing_err =
    PMkdir ioerr | PRand string | PInvalidID | PIO ioerr | PParse json_err | PMarshal | PReadDir ioerr | PNotFound

section \<open>Identifiers and tokens\<close>

text \<open>\<open>base64.RawURLEncoding\<close>: the URL alphabet and no padding.\<close>

definition url_char :: "char \<Rightarrow> char" where
  "url_char c = (if c = CHR ''+'' then CHR ''-'' else if c = SLASH then CHR ''_'' else c)"

definition raw_url_enc :: "bytes \<Rightarrow> string" where
  "raw_url_enc b = map url_char (filter (\<lambda>c. c \<noteq> CHR ''='') (b64_enc b))"

text \<open>The random source: an error, or as many bytes as were asked for.\<close>

type_synonym rand_source = "nat \<Rightarrow> (string, bytes) result"

definition random_id :: "rand_source \<Rightarrow> (pairing_err, string) result" where
  "random_id rnd = (case rnd 8 of Inl m \<Rightarrow> err (PRand m) | Inr b \<Rightarrow> ok (raw_url_enc b))"

definition random_token :: "rand_source \<Rightarrow> (pairing_err, string) result" where
  "random_token rnd = (case rnd 48 of Inl m \<Rightarrow> err (PRand m) | Inr b \<Rightarrow> ok (raw_url_enc b))"

definition validate_pairing_id :: "string \<Rightarrow> bool" where
  "validate_pairing_id i \<longleftrightarrow> i \<noteq> [] \<and> \<not> contains_any i [SLASH, BSL, CHR '':''] \<and> \<not> contains i ''..''"

section \<open>Operations\<close>

definition pairing_new_store :: "faults \<Rightarrow> fs \<Rightarrow> path \<Rightarrow> (pairing_err \<times> fs, path \<times> fs) result" where
  "pairing_new_store flt fs dir =
     (case os_mkdir_all flt fs dir mode_0700 of Inl (e, fs') \<Rightarrow> err (PMkdir e, fs') | Inr fs' \<Rightarrow> ok (dir, fs'))"

definition pairing_file :: "path \<Rightarrow> string \<Rightarrow> path" where
  "pairing_file dir i = join2 dir (i @ ''.json'')"

definition pairing_read :: "faults \<Rightarrow> path \<Rightarrow> fs \<Rightarrow> string \<Rightarrow> (pairing_err, pairing) result" where
  "pairing_read flt dir fs i =
     (if \<not> validate_pairing_id i then err PInvalidID
      else (case os_read_file flt fs (pairing_file dir i) of
              Inl e \<Rightarrow> err (PIO e)
            | Inr b \<Rightarrow> (case unmarshal_with pairing_of_members b of Inl e \<Rightarrow> err (PParse e) | Inr p \<Rightarrow> ok p)))"

definition pairing_write :: "faults \<Rightarrow> path \<Rightarrow> fs \<Rightarrow> pairing \<Rightarrow> (pairing_err \<times> fs, fs) result" where
  "pairing_write flt dir fs p =
     (if \<not> validate_pairing_id (pa_id p) then err (PInvalidID, fs)
      else if \<not> time_json_ok (pa_created_at p) \<or> \<not> time_json_ok (pa_revoked_at p) then err (PMarshal, fs)
      else (case os_write_file flt fs (pairing_file dir (pa_id p)) (marshal_indent (pairing_members p)) mode_0600 of
              Inl (e, fs') \<Rightarrow> err (PIO e, fs')
            | Inr fs' \<Rightarrow> ok fs'))"

text \<open>\<open>rid\<close> and \<open>rtok\<close> are the two calls of the random source.\<close>

definition pairing_create ::
  "rand_source \<Rightarrow> rand_source \<Rightarrow> faults \<Rightarrow> gtime \<Rightarrow> path \<Rightarrow> fs \<Rightarrow> string \<Rightarrow> (pairing_err \<times> fs, pairing \<times> fs) result" where
  "pairing_create rid rtok flt now dir fs label =
     (case random_id rid of
        Inl e \<Rightarrow> err (e, fs)
      | Inr i \<Rightarrow>
          (case random_token rtok of
             Inl e \<Rightarrow> err (e, fs)
           | Inr tok \<Rightarrow>
               (let p = \<lparr> pa_id = i, pa_token = tok, pa_label = label, pa_created_at = to_utc now,
                          pa_revoked_at = zero_time, pa_active = True \<rparr>
                in case pairing_write flt dir fs p of Inl (e, fs') \<Rightarrow> err (e, fs') | Inr fs' \<Rightarrow> ok (p, fs'))))"

definition pairing_get :: "faults \<Rightarrow> path \<Rightarrow> fs \<Rightarrow> string \<Rightarrow> (pairing_err, pairing) result" where
  "pairing_get flt dir fs i = pairing_read flt dir fs i"

definition pairing_revoke :: "faults \<Rightarrow> gtime \<Rightarrow> path \<Rightarrow> fs \<Rightarrow> string \<Rightarrow> (pairing_err \<times> fs, fs) result" where
  "pairing_revoke flt now dir fs i =
     (case pairing_read flt dir fs i of
        Inl (PIO NotExist) \<Rightarrow> ok fs
      | Inl e \<Rightarrow> err (e, fs)
      | Inr p \<Rightarrow>
          if \<not> pa_active p then ok fs
          else pairing_write flt dir fs (p\<lparr>pa_active := False, pa_revoked_at := to_utc now\<rparr>))"

definition pairing_ids :: "(string \<times> bool) list \<Rightarrow> string list" where
  "pairing_ids es = map (\<lambda>(n, _). trim_suffix n ''.json'') (filter (\<lambda>(n, d). \<not> d \<and> has_suffix n ''.json'') es)"

definition pairing_list :: "faults \<Rightarrow> path \<Rightarrow> fs \<Rightarrow> (pairing_err, pairing list) result" where
  "pairing_list flt dir fs =
     (case os_read_dir flt fs dir of
        Inl NotExist \<Rightarrow> ok []
      | Inl e \<Rightarrow> err (PReadDir e)
      | Inr es \<Rightarrow>
          ok (sort_slice (\<lambda>a b. time_after (pa_created_at a) (pa_created_at b))
               (oks (pairing_read flt dir fs) (pairing_ids es))))"

definition pairing_authenticate :: "faults \<Rightarrow> path \<Rightarrow> fs \<Rightarrow> string \<Rightarrow> (pairing_err, pairing) result" where
  "pairing_authenticate flt dir fs token =
     (case pairing_list flt dir fs of
        Inl e \<Rightarrow> err e
      | Inr all \<Rightarrow>
          (case find (\<lambda>p. pa_active p \<and> length (pa_token p) = length token \<and> pa_token p = token) all of
             None \<Rightarrow> err PNotFound
           | Some p \<Rightarrow> ok p))"

section \<open>Stored form and confinement\<close>

definition pairing_ok :: "pairing \<Rightarrow> bool" where
  "pairing_ok p \<longleftrightarrow> valid_utf8 (pa_id p) \<and> valid_utf8 (pa_token p) \<and> valid_utf8 (pa_label p)
     \<and> time_ok (pa_created_at p) \<and> time_ok (pa_revoked_at p)"

lemma get_bool: "field_raws ms name = [json_print (JBool b)] \<Longrightarrow> get_field dec_bool z ms name = ok b"
  by (simp add: get_field_def)

lemma pairing_raws:
  defines "ms p \<equiv> printed (pairing_members p)"
  shows "field_raws (ms p) ''id'' = [json_quote (pa_id p)]"
    "field_raws (ms p) ''token'' = [json_quote (pa_token p)]"
    "field_raws (ms p) ''label'' = [json_quote (pa_label p)]"
    "field_raws (ms p) ''created_at'' = [DQ # format_rfc3339nano (pa_created_at p) @ [DQ]]"
    "field_raws (ms p) ''revoked_at'' = [DQ # format_rfc3339nano (pa_revoked_at p) @ [DQ]]"
    "field_raws (ms p) ''active'' = [json_print (JBool (pa_active p))]"
  unfolding ms_def pairing_members_def printed_simps by (simp_all add: key_eval)

interpretation pairing_codec: flat_record pairing_members pairing_of_members pairing_ok
proof (unfold_locales, goal_cases)
  case (1 p)
  show ?case by (simp add: flat_members_def pairing_members_def byte_def)
next
  case (2 p)
  then have v: "valid_utf8 (pa_id p)" "valid_utf8 (pa_token p)" "valid_utf8 (pa_label p)"
    "time_ok (pa_created_at p)" "time_ok (pa_revoked_at p)"
    by (auto simp: pairing_ok_def)
  note r = pairing_raws [of p]
  show ?case
    unfolding pairing_of_members_def
    by (simp add: get_string(1) [OF r(1) v(1)] get_string(1) [OF r(2) v(2)] get_string(1) [OF r(3) v(3)]
        get_time [OF r(4) v(4)] get_time [OF r(5) v(5)] get_bool [OF r(6)])
qed

lemma validate_plain: "validate_pairing_id i \<Longrightarrow> plain_name (i @ ''.json'')"
  by (auto simp: validate_pairing_id_def plain_name_def contains_any_def list_ex_iff)

lemma pairing_file_eq: "proper_dir dir \<Longrightarrow> validate_pairing_id i \<Longrightarrow> pairing_file dir i = dir @ SLASH # i @ ''.json''"
  unfolding pairing_file_def by (rule join2_child [OF _ validate_plain])

lemma pairing_file_inj:
  "proper_dir dir \<Longrightarrow> validate_pairing_id i \<Longrightarrow> validate_pairing_id j \<Longrightarrow> pairing_file dir i = pairing_file dir j \<Longrightarrow> i = j"
  by (simp add: pairing_file_eq)

lemma b64_char_ne: "n < 64 \<Longrightarrow> b64_char n \<noteq> CHR ''='' \<and> b64_char n \<noteq> CHR ''.'' \<and> b64_char n \<noteq> BSL \<and> b64_char n \<noteq> CHR '':''"
  by (intro conjI b64_char_neq) (simp_all add: b64_val_def byte_def)

lemma b64_url_safe:
  "c \<in> set (b64_enc s) \<Longrightarrow> c = CHR ''='' \<or> c \<noteq> CHR ''.'' \<and> c \<noteq> BSL \<and> c \<noteq> CHR '':''"
proof (induction s rule: b64_enc.induct)
  case (1 a b d r)
  have "byte a * 65536 + byte b * 256 + byte d < 64 * 262144" using byte_less_256 [of a] byte_less_256 [of b] byte_less_256 [of d] by linarith
  then have "(byte a * 65536 + byte b * 256 + byte d) div 262144 < 64" by (simp add: less_mult_imp_div_less)
  with 1 b64_char_ne show ?case by (auto simp: Let_def)
next
  case (2 a b)
  have "byte a * 65536 + byte b * 256 < 64 * 262144" using byte_less_256 [of a] byte_less_256 [of b] by linarith
  then have "(byte a * 65536 + byte b * 256) div 262144 < 64" by (simp add: less_mult_imp_div_less)
  with 2 b64_char_ne show ?case by (auto simp: Let_def)
next
  case (3 a)
  have "byte a * 65536 < 64 * 262144" using byte_less_256 [of a] by linarith
  then have "(byte a * 65536) div 262144 < 64" by (simp add: less_mult_imp_div_less)
  with 3 b64_char_ne show ?case by (auto simp: Let_def)
qed simp

lemma url_chars:
  "c \<in> set (raw_url_enc s) \<Longrightarrow> c \<noteq> CHR ''.'' \<and> c \<noteq> BSL \<and> c \<noteq> CHR '':'' \<and> c \<noteq> SLASH"
  using b64_url_safe [of _ s] by (auto simp: raw_url_enc_def url_char_def)

lemma contains_two_dots: "contains s ''..'' \<Longrightarrow> CHR ''.'' \<in> set s"
  by (auto simp: contains_iff)

lemma random_id_valid:
  assumes "random_id rnd = ok i" "\<And>n b. rnd n = ok b \<Longrightarrow> length b = n"
  shows "validate_pairing_id i"
proof -
  obtain b where b: "rnd 8 = ok b" "i = raw_url_enc b" "length b = 8"
    using assms by (auto simp: random_id_def split: sum.splits)
  obtain x y z r where "b = x # y # z # r" using b(3) by (cases b; cases "tl b"; cases "tl (tl b)") auto
  then have "i \<noteq> []" using b(2) b64_char_ne by (auto simp: raw_url_enc_def Let_def)
  then show ?thesis
    using url_chars [of _ b] contains_two_dots [of i] b(2)
    by (auto simp: validate_pairing_id_def contains_any_def list_ex_iff)
qed

lemma pairing_write_other:
  assumes "pairing_write flt dir fs p = ok fs' \<or> pairing_write flt dir fs p = err (e, fs')" "q \<noteq> pairing_file dir (pa_id p)"
  shows "map_of fs' q = map_of fs q"
  using assms(1) write_file_other [OF disjI1 assms(2)] write_file_other [OF disjI2 assms(2)]
  by (auto simp: pairing_write_def split: if_splits sum.splits prod.splits)

lemma pairing_write_read:
  assumes "pairing_write flt dir fs p = ok fs'" "pairing_ok p"
  shows "pairing_read no_faults dir fs' (pa_id p) = ok p"
proof -
  have "validate_pairing_id (pa_id p)" "file_data fs' (pairing_file dir (pa_id p)) = Some (marshal_indent (pairing_members p))"
    using assms(1) write_file_ok by (auto simp: pairing_write_def split: if_splits sum.splits prod.splits)
  then show ?thesis
    using pairing_codec.unmarshal_indent [OF assms(2)] by (simp add: pairing_read_def file_data_read)
qed

lemma pairing_write_succeeds:
  assumes "proper_dir dir" "is_dir fs dir" "validate_pairing_id (pa_id p)" "\<not> is_dir fs (pairing_file dir (pa_id p))"
    "time_json_ok (pa_created_at p)" "time_json_ok (pa_revoked_at p)"
  shows "\<exists>fs'. pairing_write no_faults dir fs p = ok fs'"
proof -
  have "dir_path (pairing_file dir (pa_id p)) = dir"
    using dir_path_child [OF assms(1) validate_plain [OF assms(3)]] pairing_file_eq [OF assms(1,3)] by simp
  then obtain fs' where "os_write_file no_faults fs (pairing_file dir (pa_id p)) (marshal_indent (pairing_members p)) mode_0600 = ok fs'"
    using write_file_succeeds [of fs "pairing_file dir (pa_id p)"] assms(2,4) by metis
  with assms show ?thesis by (simp add: pairing_write_def)
qed

lemma pairing_read_cong:
  "map_of fs (pairing_file dir i) = map_of fs' (pairing_file dir i) \<Longrightarrow> pairing_read flt dir fs i = pairing_read flt dir fs' i"
  unfolding pairing_read_def by (simp only: os_read_file_cong [of fs _ fs'])

text \<open>Whatever a pairing file holds, what is decoded from it can be stored again if its times can
  be written.\<close>

lemma pairing_decoded:
  assumes "pairing_read flt dir fs i = ok p"
  shows "valid_utf8 (pa_id p)" "valid_utf8 (pa_token p)" "valid_utf8 (pa_label p)"
    "t_off (pa_created_at p) mod 60 = 0" "t_off (pa_revoked_at p) mod 60 = 0" "validate_pairing_id i"
proof -
  have z: "t_off zero_time mod 60 = 0" by (simp add: zero_time_def)
  obtain ms where "pairing_of_members ms = ok p" "validate_pairing_id i"
    using assms by (auto simp: pairing_read_def unmarshal_with_def split: if_splits sum.splits)
  then show "valid_utf8 (pa_id p)" "valid_utf8 (pa_token p)" "valid_utf8 (pa_label p)"
    "t_off (pa_created_at p) mod 60 = 0" "t_off (pa_revoked_at p) mod 60 = 0" "validate_pairing_id i"
    using got_string [OF _ valid_utf8_Nil] got_time [OF _ z]
    by (auto simp: pairing_of_members_def split: sum.splits)
qed

lemma pairing_list_member:
  assumes "proper_dir dir" "is_dir fs dir"
  shows "\<exists>ps. pairing_list no_faults dir fs = ok ps \<and> (\<forall>p. p \<in> set ps \<longleftrightarrow> (\<exists>i. pairing_read no_faults dir fs i = ok p))"
proof -
  have d: "os_read_dir no_faults fs dir = ok (dir_entries fs dir)"
    using assms(2) by (auto simp: os_read_dir_def is_dir_def split: option.splits fnode.splits)
  have "i \<in> set (pairing_ids (dir_entries fs dir))" if h: "pairing_read no_faults dir fs i = ok p" for i p
  proof -
    obtain b where "file_data fs (pairing_file dir i) = Some b" and v: "validate_pairing_id i"
      using h os_read_file_data by (auto simp: pairing_read_def split: if_splits sum.splits)
    then have "(i @ ''.json'', False) \<in> set (dir_entries fs dir)"
      using dir_entries_file [OF _ assms(1) validate_plain [OF v]] pairing_file_eq [OF assms(1) v] by simp
    then show ?thesis by (force simp: pairing_ids_def image_iff)
  qed
  then show ?thesis
    using d by (auto simp: pairing_list_def set_oks)
qed

section \<open>What the store promises\<close>

lemma authenticate_cases:
  assumes "proper_dir dir" "is_dir fs dir"
  shows "case pairing_authenticate no_faults dir fs tok of
     Inr p \<Rightarrow> pa_active p \<and> pa_token p = tok \<and> (\<exists>i. pairing_read no_faults dir fs i = ok p)
   | Inl e \<Rightarrow> e = PNotFound \<and> \<not> (\<exists>i p. pairing_read no_faults dir fs i = ok p \<and> pa_active p \<and> pa_token p = tok)"
proof -
  obtain ps where ps: "pairing_list no_faults dir fs = ok ps"
    "\<And>p. p \<in> set ps \<longleftrightarrow> (\<exists>i. pairing_read no_faults dir fs i = ok p)"
    using pairing_list_member [OF assms] by blast
  show ?thesis
  proof (cases "find (\<lambda>p. pa_active p \<and> length (pa_token p) = length tok \<and> pa_token p = tok) ps")
    case None
    then have "\<not> (\<exists>p \<in> set ps. pa_active p \<and> pa_token p = tok)" by (auto simp: find_None_iff)
    with None ps show ?thesis by (auto simp: pairing_authenticate_def)
  next
    case (Some p)
    then have "p \<in> set ps" "pa_active p" "pa_token p = tok" by (auto simp: find_Some_iff)
    with Some ps show ?thesis by (auto simp: pairing_authenticate_def)
  qed
qed

lemma authenticated:
  assumes "pairing_authenticate no_faults dir fs tok = ok p" "proper_dir dir" "is_dir fs dir"
  shows "pa_active p" "pa_token p = tok" "\<exists>i. pairing_read no_faults dir fs i = ok p"
  using authenticate_cases [OF assms(2,3), of tok] assms(1) by simp_all

lemma authenticates:
  assumes "proper_dir dir" "is_dir fs dir" "pairing_read no_faults dir fs i = ok p" "pa_active p"
  shows "\<exists>q. pairing_authenticate no_faults dir fs (pa_token p) = ok q \<and> pa_token q = pa_token p"
  using authenticate_cases [OF assms(1,2), of "pa_token p"] assms(3,4) by (auto split: sum.splits)

lemma valid_utf8_url: "valid_utf8 (raw_url_enc b)"
proof (rule valid_utf8_ascii)
  fix c assume "c \<in> set (raw_url_enc b)"
  then obtain d where "d \<in> set (b64_enc b)" "c = url_char d" by (auto simp: raw_url_enc_def)
  then show "byte c < 128" using b64_enc_plain [of d b] by (auto simp: url_char_def byte_def)
qed

text \<open>C17.  Authentication is exact.  Without I/O faults, on a store whose directory is there \<open>Authenticate\<close> returns a pairing of the
  store that is active and has the token, and it answers \<open>ErrNotFound\<close> only if no active pairing
  of the store has it.\<close>

theorem authenticate_exact:
  assumes "proper_dir dir" "is_dir fs dir"
  shows "case pairing_authenticate no_faults dir fs tok of
     Inr p \<Rightarrow> pa_active p \<and> pa_token p = tok \<and> (\<exists>i. pairing_read no_faults dir fs i = ok p)
   | Inl e \<Rightarrow> e = PNotFound \<and> \<not> (\<exists>i p. pairing_read no_faults dir fs i = ok p \<and> pa_active p \<and> pa_token p = tok)"
  by (rule authenticate_cases [OF assms])

text \<open>A store is keyed when every file holds the pairing it is named after; \<open>Create\<close> and
  \<open>Revoke\<close> only write such files.\<close>

definition keyed_store :: "path \<Rightarrow> fs \<Rightarrow> bool" where
  "keyed_store dir fs \<longleftrightarrow> proper_dir dir \<and> is_dir fs dir \<and> (\<forall>i p. pairing_read no_faults dir fs i = ok p \<longrightarrow> pa_id p = i)"

lemma pairing_write_keyed:
  assumes "pairing_write flt dir fs p = ok fs'" "pairing_ok p" "keyed_store dir fs"
  shows "keyed_store dir fs'" "i \<noteq> pa_id p \<Longrightarrow> pairing_read no_faults dir fs' i = pairing_read no_faults dir fs i"
proof -
  have d: "proper_dir dir" "validate_pairing_id (pa_id p)" using assms by (auto simp: keyed_store_def pairing_write_def split: if_splits)
  have same: "map_of fs' q = map_of fs q" if "q \<noteq> pairing_file dir (pa_id p)" for q
    using pairing_write_other [OF disjI1 [OF assms(1)] that] .
  have other: "pairing_read no_faults dir fs' i = pairing_read no_faults dir fs i" if n: "i \<noteq> pa_id p" for i
  proof (cases "validate_pairing_id i")
    case True
    then have "pairing_file dir i \<noteq> pairing_file dir (pa_id p)" using pairing_file_inj d n by blast
    then show ?thesis by (intro pairing_read_cong same)
  qed (simp add: pairing_read_def)
  then show "i \<noteq> pa_id p \<Longrightarrow> pairing_read no_faults dir fs' i = pairing_read no_faults dir fs i" .
  have "dir \<noteq> pairing_file dir (pa_id p)" using d by (simp add: pairing_file_eq)
  then have "is_dir fs' dir" using same assms(3) by (simp add: keyed_store_def is_dir_def)
  moreover have "pa_id q = j" if "pairing_read no_faults dir fs' j = ok q" for j q
    using that other [of j] assms(3) pairing_write_read [OF assms(1,2)] by (cases "j = pa_id p") (auto simp: keyed_store_def)
  ultimately show "keyed_store dir fs'" using d by (simp add: keyed_store_def)
qed

text \<open>C18.  A revocation lasts.  After a successful \<open>Revoke\<close> of an identifier, under any I/O
  faults during it, no token authenticates as that pairing any more, while every other pairing reads
  as before; revoking an unknown or an already revoked identifier changes nothing.\<close>

theorem revoke_final:
  assumes "keyed_store dir fs" "pairing_revoke flt now dir fs i = ok fs'" "time_ok (to_utc now)"
  shows "keyed_store dir fs' \<and> (\<forall>tok p. pairing_authenticate no_faults dir fs' tok = ok p \<longrightarrow> pa_id p \<noteq> i)
     \<and> (\<forall>j. j \<noteq> i \<longrightarrow> pairing_read no_faults dir fs' j = pairing_read no_faults dir fs j)"
proof -
  have "keyed_store dir fs' \<and> \<not> (\<exists>p. pairing_read no_faults dir fs' i = ok p \<and> pa_active p)
      \<and> (\<forall>j. j \<noteq> i \<longrightarrow> pairing_read no_faults dir fs' j = pairing_read no_faults dir fs j)"
  proof (cases "pairing_read flt dir fs i")
    case (Inl e)
    then have e: "e = PIO NotExist" "fs' = fs"
      using assms(2) by (auto simp: pairing_revoke_def split: pairing_err.splits ioerr.splits)
    then have "pairing_read no_faults dir fs i = err (PIO NotExist)"
      using Inl by (auto simp: pairing_read_def os_read_file_def split: if_splits option.splits sum.splits fnode.splits)
    with e assms(1) show ?thesis by simp
  next
    case (Inr p)
    then have r: "pairing_read no_faults dir fs i = ok p"
      using os_read_file_data by (auto simp: pairing_read_def file_data_read split: if_splits sum.splits)
    then have i: "pa_id p = i" using assms(1) by (auto simp: keyed_store_def)
    show ?thesis
    proof (cases "pa_active p")
      case False
      with Inr assms(1,2) r show ?thesis by (auto simp: pairing_revoke_def)
    next
      case True
      let ?p = "p\<lparr>pa_active := False, pa_revoked_at := to_utc now\<rparr>"
      have w: "pairing_write flt dir fs ?p = ok fs'" using Inr True assms(2) by (simp add: pairing_revoke_def)
      then have "time_json_ok (pa_created_at p)" by (auto simp: pairing_write_def split: if_splits)
      then have ok: "pairing_ok ?p" using pairing_decoded [OF r] assms(3) by (simp add: pairing_ok_def time_ok_iff)
      have "pairing_read no_faults dir fs' i = ok ?p" using pairing_write_read [OF w ok] i by simp
      with pairing_write_keyed [OF w ok assms(1)] i show ?thesis by simp
    qed
  qed
  moreover have "pa_id p \<noteq> i" if "pairing_authenticate no_faults dir fs' tok = ok p" "keyed_store dir fs'"
      "\<not> (\<exists>p. pairing_read no_faults dir fs' i = ok p \<and> pa_active p)" for tok p
    using that authenticated [of dir fs' tok p] by (auto simp: keyed_store_def)
  ultimately show ?thesis by blast
qed

text \<open> A new token works at once.  After a successful \<open>Create\<close> the returned token
  authenticates, and the identifier drawn always passes the validation, so that the pairing can be
  read and revoked by it.\<close>

theorem create_authenticates:
  assumes "keyed_store dir fs" "pairing_create rid rtok flt now dir fs label = ok (p, fs')"
    and "time_ok (to_utc now)" "valid_utf8 label" "\<And>n b. rid n = ok b \<Longrightarrow> length b = n"
  shows "validate_pairing_id (pa_id p) \<and> pairing_get no_faults dir fs' (pa_id p) = ok p
     \<and> (\<exists>q. pairing_authenticate no_faults dir fs' (pa_token p) = ok q \<and> pa_token q = pa_token p)"
proof -
  obtain i tok where c: "random_id rid = ok i" "random_token rtok = ok tok"
    "p = \<lparr> pa_id = i, pa_token = tok, pa_label = label, pa_created_at = to_utc now, pa_revoked_at = zero_time, pa_active = True \<rparr>"
    "pairing_write flt dir fs p = ok fs'"
    using assms(2) by (auto simp: pairing_create_def Let_def split: sum.splits prod.splits)
  have v: "valid_utf8 i" "valid_utf8 tok"
    using c(1,2) by (auto simp: random_id_def random_token_def valid_utf8_url split: sum.splits)
  then have ok: "pairing_ok p" using c(3) assms(3,4) by (simp add: pairing_ok_def)
  have r: "pairing_read no_faults dir fs' (pa_id p) = ok p" by (rule pairing_write_read [OF c(4) ok])
  have "keyed_store dir fs'" by (rule pairing_write_keyed(1) [OF c(4) ok assms(1)])
  then obtain q where "pairing_authenticate no_faults dir fs' (pa_token p) = ok q" "pa_token q = pa_token p"
    using authenticates [OF _ _ r] c(3) by (auto simp: keyed_store_def)
  moreover have "validate_pairing_id (pa_id p)" using random_id_valid [OF c(1) assms(5)] c(3) by simp
  ultimately show ?thesis using r by (auto simp: pairing_get_def)
qed

section \<open>A concrete store\<close>

definition demo_pairing :: pairing where
  "demo_pairing = \<lparr> pa_id = ''a1'', pa_token = ''secret'', pa_label = ''ops'', pa_created_at = zero_time,
     pa_revoked_at = zero_time, pa_active = True \<rparr>"

definition demo_pfs :: fs where
  "demo_pfs = [(''/p'', Dir mode_0700), (''/p/a1.json'', File (marshal_indent (pairing_members demo_pairing)) mode_0600)]"

lemma demo_pdir: "proper_dir ''/p''" "is_dir demo_pfs ''/p''"
  by (simp_all add: proper_dir_def clean_path_def clean_stack_def is_rooted_def seg_step_def render_path_def demo_pfs_def is_dir_def)

lemma demo_pok: "pairing_ok demo_pairing"
proof -
  have "valid_utf8 ''a1''" "valid_utf8 ''secret''" "valid_utf8 ''ops''" by (rule valid_utf8_ascii, auto simp: byte_def)+
  then show ?thesis by (simp add: pairing_ok_def demo_pairing_def)
qed

lemma demo_pvalid: "validate_pairing_id ''a1''"
  by (simp add: validate_pairing_id_def contains_any_def contains_def has_prefix_def)

lemma demo_pread: "pairing_read no_faults ''/p'' demo_pfs ''a1'' = ok demo_pairing"
proof -
  have "file_data demo_pfs (pairing_file ''/p'' ''a1'') = Some (marshal_indent (pairing_members demo_pairing))"
    by (simp add: pairing_file_eq [OF demo_pdir(1) demo_pvalid] demo_pfs_def file_data_def)
  then show ?thesis
    using pairing_codec.unmarshal_indent [OF demo_pok] demo_pvalid by (simp add: pairing_read_def file_data_read)
qed

lemma demo_pkeyed: "keyed_store ''/p'' demo_pfs"
proof -
  have "pa_id p = i" if h: "pairing_read no_faults ''/p'' demo_pfs i = ok p" for i p
  proof -
    obtain b where "file_data demo_pfs (pairing_file ''/p'' i) = Some b" and v: "validate_pairing_id i"
      using h os_read_file_data by (auto simp: pairing_read_def split: if_splits sum.splits)
    then have "i = ''a1''"
      by (simp add: pairing_file_eq [OF demo_pdir(1) v] demo_pfs_def file_data_def split: if_splits)
    then show ?thesis using h demo_pread by (auto simp: demo_pairing_def)
  qed
  with demo_pdir show ?thesis by (simp add: keyed_store_def)
qed

lemma demo_now_ok: "time_ok (to_utc zero_time)"
  using zero_time_ok by (simp add: to_utc_def zero_time_def)

theorem authenticate_exact_witness:
  "(\<exists>p. pairing_authenticate no_faults ''/p'' demo_pfs ''secret'' = ok p)
   \<and> (case pairing_authenticate no_faults ''/p'' demo_pfs ''secret'' of
     Inr p \<Rightarrow> pa_active p \<and> pa_token p = ''secret'' \<and> (\<exists>i. pairing_read no_faults ''/p'' demo_pfs i = ok p)
   | Inl e \<Rightarrow> e = PNotFound \<and> \<not> (\<exists>i p. pairing_read no_faults ''/p'' demo_pfs i = ok p \<and> pa_active p \<and> pa_token p = ''secret''))"
  using authenticate_exact [OF demo_pdir, of "''secret''"] authenticates [OF demo_pdir demo_pread] by (auto simp: demo_pairing_def)

lemma demo_pfile: "pairing_file ''/p'' ''a1'' = ''/p/a1.json''"
  by (simp add: pairing_file_eq [OF demo_pdir(1) demo_pvalid])

theorem revoke_final_witness:
  "\<exists>fs'. pairing_revoke no_faults zero_time ''/p'' demo_pfs ''a1'' = ok fs'
     \<and> (\<forall>tok p. pairing_authenticate no_faults ''/p'' fs' tok = ok p \<longrightarrow> pa_id p \<noteq> ''a1'')"
proof -
  let ?p = "demo_pairing\<lparr>pa_active := False, pa_revoked_at := to_utc zero_time\<rparr>"
  have "\<exists>fs'. pairing_write no_faults ''/p'' demo_pfs ?p = ok fs'"
    by (rule pairing_write_succeeds [OF demo_pdir])
       (simp_all add: demo_pairing_def demo_pvalid demo_pfile demo_pfs_def is_dir_def time_ok_json demo_now_ok)
  then obtain fs' where "pairing_revoke no_faults zero_time ''/p'' demo_pfs ''a1'' = ok fs'"
    by (auto simp: pairing_revoke_def demo_pread demo_pairing_def)
  with revoke_final [OF demo_pkeyed this demo_now_ok] show ?thesis by blast
qed

theorem create_authenticates_witness:
  "\<exists>p fs'. pairing_create (\<lambda>n. ok (replicate n CHR ''r'')) (\<lambda>n. ok (replicate n CHR ''s'')) no_faults zero_time ''/p'' demo_pfs ''new'' = ok (p, fs')
     \<and> validate_pairing_id (pa_id p) \<and> pairing_get no_faults ''/p'' fs' (pa_id p) = ok p
     \<and> (\<exists>q. pairing_authenticate no_faults ''/p'' fs' (pa_token p) = ok q \<and> pa_token q = pa_token p)"
proof -
  let ?r = "\<lambda>n. (ok (replicate n CHR ''r'') :: (string, bytes) result)" and ?i = "raw_url_enc (replicate 8 CHR ''r'')"
  have v: "validate_pairing_id ?i"
    by (rule random_id_valid [of ?r]) (auto simp: random_id_def)
  let ?p = "\<lparr> pa_id = ?i, pa_token = raw_url_enc (replicate 48 CHR ''s''), pa_label = ''new'', pa_created_at = to_utc zero_time,
     pa_revoked_at = zero_time, pa_active = True \<rparr>"
  have "\<exists>fs'. pairing_write no_faults ''/p'' demo_pfs ?p = ok fs'"
    by (rule pairing_write_succeeds [OF demo_pdir])
       (simp_all add: v pairing_file_eq [OF demo_pdir(1) v] demo_pfs_def is_dir_def time_ok_json demo_now_ok)
  then obtain fs' where c: "pairing_create ?r (\<lambda>n. ok (replicate n CHR ''s'')) no_faults zero_time ''/p'' demo_pfs ''new'' = ok (?p, fs')"
    by (auto simp: pairing_create_def random_id_def random_token_def)
  have "valid_utf8 ''new''" by (rule valid_utf8_ascii) (auto simp: byte_def)
  from create_authenticates [OF demo_pkeyed c demo_now_ok this] c show ?thesis by (intro exI [of _ ?p] exI [of _ fs']) simp
qed

end
