(* ===== verification/KV_Store.thy ===== *)
theory KV_Store
  imports Task_Log
begin

text \<open>
  The interface of a store that keeps one value per key, such as the marker files: a write that
  replaces, a removal (which may carry data too, its faults), a lookup.  A provider says what a successful write or removal does to its own
  key and that it leaves the other keys alone; the client gets that any sequence of writes and
  removals has the effect of the same sequence on a finite map.
\<close>

datatype ('k, 'v) kv_op = Put 'k 'v | Del 'k 'v

primrec op_key :: "('k, 'v) kv_op \<Rightarrow> 'k" where
  "op_key (Put k v) = k"
| "op_key (Del k v) = k"

text \<open>The reference: a map updated operation by operation.\<close>

fun kv_spec :: "('k \<Rightarrow> 'v \<Rightarrow> 'r) \<Rightarrow> ('k, 'v) kv_op list \<Rightarrow> ('k \<Rightarrow> 'r option) \<Rightarrow> 'k \<Rightarrow> 'r option" where
  "kv_spec stored [] m = m"
| "kv_spec stored (Put k v # ops) m = kv_spec stored ops (m(k := Some (stored k v)))"
| "kv_spec stored (Del k v # ops) m = kv_spec stored ops (m(k := None))"

locale kv_store =
  fixes inv :: "'s \<Rightarrow> bool"
    and key_ok :: "'k \<Rightarrow> bool"
    and legal :: "'k \<Rightarrow> 'v \<Rightarrow> bool"
    and put :: "'k \<Rightarrow> 'v \<Rightarrow> 's \<Rightarrow> 's option"
    and del :: "'k \<Rightarrow> 'v \<Rightarrow> 's \<Rightarrow> 's option"
    and get :: "'s \<Rightarrow> 'k \<Rightarrow> 'r option"
    and stored :: "'k \<Rightarrow> 'v \<Rightarrow> 'r"
  assumes put_law: "inv s \<Longrightarrow> key_ok k \<Longrightarrow> legal k v \<Longrightarrow> put k v s = Some s' \<Longrightarrow>
      inv s' \<and> get s' k = Some (stored k v) \<and> (\<forall>j. key_ok j \<longrightarrow> j \<noteq> k \<longrightarrow> get s' j = get s j)"
    and del_law: "inv s \<Longrightarrow> key_ok k \<Longrightarrow> del k v s = Some s' \<Longrightarrow>
      inv s' \<and> get s' k = None \<and> (\<forall>j. key_ok j \<longrightarrow> j \<noteq> k \<longrightarrow> get s' j = get s j)"
begin

definition run_op :: "('k, 'v) kv_op \<Rightarrow> 's \<Rightarrow> 's option" where
  "run_op op s = (case op of Put k v \<Rightarrow> put k v s | Del k v \<Rightarrow> del k v s)"

definition op_ok :: "('k, 'v) kv_op \<Rightarrow> bool" where
  "op_ok op \<longleftrightarrow> (case op of Put k v \<Rightarrow> key_ok k \<and> legal k v | Del k v \<Rightarrow> key_ok k)"

lemma spec_cong:
  "(\<And>j. key_ok j \<Longrightarrow> m j = m' j) \<Longrightarrow> key_ok k \<Longrightarrow> kv_spec stored ops m k = kv_spec stored ops m' k"
proof (induction ops arbitrary: m m')
  case (Cons op ops)
  show ?case
  proof (cases op)
    case (Put j v)
    show ?thesis unfolding Put kv_spec.simps by (rule Cons.IH) (use Cons.prems in auto)
  next
    case (Del j v)
    show ?thesis unfolding Del kv_spec.simps by (rule Cons.IH) (use Cons.prems in auto)
  qed
qed simp

lemma refines_map:
  assumes "inv s" "fold_opt run_op ops s = Some s'" "\<And>op. op \<in> set ops \<Longrightarrow> op_ok op" "key_ok k"
  shows "inv s' \<and> get s' k = kv_spec stored ops (get s) k"
  using assms(1-3)
proof (induction ops arbitrary: s)
  case (Cons op ops)
  obtain s1 where s1: "run_op op s = Some s1" "fold_opt run_op ops s1 = Some s'"
    using Cons.prems(2) by (auto split: option.splits)
  have o: "op_ok op" using Cons.prems(3) by simp
  show ?case
  proof (cases op)
    case (Put j v)
    then have "inv s1 \<and> get s1 j = Some (stored j v) \<and> (\<forall>i. key_ok i \<longrightarrow> i \<noteq> j \<longrightarrow> get s1 i = get s i)"
      using put_law [OF Cons.prems(1)] s1(1) o by (auto simp: run_op_def op_ok_def)
    then show ?thesis
      using Cons.IH [OF _ s1(2)] Cons.prems(3) Put assms(4) spec_cong [of "get s1" "(get s)(j := Some (stored j v))" k ops] by auto
  next
    case (Del j v)
    then have "inv s1 \<and> get s1 j = None \<and> (\<forall>i. key_ok i \<longrightarrow> i \<noteq> j \<longrightarrow> get s1 i = get s i)"
      using del_law [OF Cons.prems(1)] s1(1) o by (auto simp: run_op_def op_ok_def)
    then show ?thesis
      using Cons.IH [OF _ s1(2)] Cons.prems(3) Del assms(4) spec_cong [of "get s1" "(get s)(j := None)" k ops] by auto
  qed
qed simp

end

end
