(* ===== verification/Markers.thy ===== *)
theory Markers
  imports Go_Store KV_Store
begin

text \<open>
  Completion markers of pipeline steps, \<open>internal/markers/markers.go\<close>: one JSON file per
  pipeline and step with the hash of the step's input, written atomically.  SHA-256 is the argument
  \<open>sha\<close>.  The main theorem is a refinement: under any sequence of writes and invalidations the
  freshness check answers as a map from (pipeline, step) to the last recorded hash would.
\<close>

section \<open>Data\<close>

record marker =
  mk_pipeline :: string
  mk_step :: string
  mk_input_hash :: string
  mk_completed_at :: gtime
  mk_output_path :: string
  mk_duration_ms :: int

definition marker_members :: "marker \<Rightarrow> (bytes \<times> jtree) list" where
  "marker_members m =
     [(''pipeline'', JStr (mk_pipeline m)), (''step'', JStr (mk_step m)), (''input_hash'', JStr (mk_input_hash m)),
      (''completed_at'', JTime (mk_completed_at m))]
     @ omit_str ''output_path'' (mk_output_path m) @ omit_int ''duration_ms'' (mk_duration_ms m)"

definition marker_of_members :: "members \<Rightarrow> (json_err, marker) result" where
  "marker_of_members ms =
     (case get_field dec_string [] ms ''pipeline'' of Inl x \<Rightarrow> err x | Inr p \<Rightarrow>
     (case get_field dec_string [] ms ''step'' of Inl x \<Rightarrow> err x | Inr s \<Rightarrow>
     (case get_field dec_string [] ms ''input_hash'' of Inl x \<Rightarrow> err x | Inr h \<Rightarrow>
     (case get_field dec_time zero_time ms ''completed_at'' of Inl x \<Rightarrow> err x | Inr t \<Rightarrow>
     (case get_field dec_string [] ms ''output_path'' of Inl x \<Rightarrow> err x | Inr out \<Rightarrow>
     (case get_field dec_int64 0 ms ''duration_ms'' of Inl x \<Rightarrow> err x | Inr d \<Rightarrow>
        ok \<lparr> mk_pipeline = p, mk_step = s, mk_input_hash = h, mk_completed_at = t, mk_output_path = out,
             mk_duration_ms = d \<rparr>))))))"

datatype marker_err =
    MkMkdir ioerr | MkRequired | MkMarshal | MkWrite atomic_err | MkNotFound | MkRead ioerr | MkParse json_err
  | MkRemove ioerr | MkList ioerr | MkHash string | MkOpen ioerr | MkUnsupported

section \<open>Operations\<close>

definition marker_new_store :: "faults \<Rightarrow> fs \<Rightarrow> path \<Rightarrow> (marker_err \<times> fs, path \<times> fs) result" where
  "marker_new_store flt fs dir =
     (case os_mkdir_all flt fs dir mode_0755 of Inl (e, fs') \<Rightarrow> err (MkMkdir e, fs') | Inr fs' \<Rightarrow> ok (dir, fs'))"

definition marker_path :: "path \<Rightarrow> string \<Rightarrow> string \<Rightarrow> path" where
  "marker_path dir pipeline step = join_path [dir, pipeline, step @ ''.json'']"

definition marker_stamp :: "gtime \<Rightarrow> marker \<Rightarrow> marker" where
  "marker_stamp now m = (if is_zero_time (mk_completed_at m) then m\<lparr>mk_completed_at := to_utc now\<rparr> else m)"

definition marker_write :: "faults \<Rightarrow> gtime \<Rightarrow> path \<Rightarrow> fs \<Rightarrow> marker \<Rightarrow> (marker_err \<times> fs, fs) result" where
  "marker_write flt now dir fs m0 =
     (if mk_pipeline m0 = [] \<or> mk_step m0 = [] then err (MkRequired, fs)
      else (let m = marker_stamp now m0; p = marker_path dir (mk_pipeline m) (mk_step m) in
            case os_mkdir_all flt fs (dir_path p) mode_0755 of
              Inl (e, fs1) \<Rightarrow> err (MkMkdir e, fs1)
            | Inr fs1 \<Rightarrow>
                if \<not> time_json_ok (mk_completed_at m) then err (MkMarshal, fs1)
                else (case write_atomic flt fs1 p (marshal_indent (marker_members m)) mode_0644 of
                        Inl (e, fs2) \<Rightarrow> err (MkWrite e, fs2)
                      | Inr fs2 \<Rightarrow> ok fs2)))"

definition marker_read :: "faults \<Rightarrow> path \<Rightarrow> fs \<Rightarrow> string \<Rightarrow> string \<Rightarrow> (marker_err, marker) result" where
  "marker_read flt dir fs pipeline step =
     (case os_read_file flt fs (marker_path dir pipeline step) of
        Inl NotExist \<Rightarrow> err MkNotFound
      | Inl e \<Rightarrow> err (MkRead e)
      | Inr b \<Rightarrow> (case unmarshal_with marker_of_members b of Inl e \<Rightarrow> err (MkParse e) | Inr m \<Rightarrow> ok m))"

definition is_fresh :: "faults \<Rightarrow> path \<Rightarrow> fs \<Rightarrow> string \<Rightarrow> string \<Rightarrow> string \<Rightarrow> (marker_err, bool) result" where
  "is_fresh flt dir fs pipeline step hash =
     (case marker_read flt dir fs pipeline step of
        Inl MkNotFound \<Rightarrow> ok False
      | Inl e \<Rightarrow> err e
      | Inr m \<Rightarrow> ok (mk_input_hash m = hash))"

definition marker_invalidate :: "faults \<Rightarrow> path \<Rightarrow> fs \<Rightarrow> string \<Rightarrow> string \<Rightarrow> (marker_err \<times> fs, fs) result" where
  "marker_invalidate flt dir fs pipeline step =
     (case os_remove flt fs (marker_path dir pipeline step) of
        Inl NotExist \<Rightarrow> ok fs
      | Inl e \<Rightarrow> err (MkRemove e, fs)
      | Inr fs' \<Rightarrow> ok fs')"

record list_entry =
  le_step :: string
  le_err :: marker_err

definition marker_steps :: "(string \<times> bool) list \<Rightarrow> string list" where
  "marker_steps es = map (\<lambda>(n, _). trim_suffix n ''.json'') (filter (\<lambda>(n, d). \<not> d \<and> has_suffix n ''.json'') es)"

definition list_all_markers :: "faults \<Rightarrow> path \<Rightarrow> fs \<Rightarrow> string \<Rightarrow> (marker_err, marker list \<times> list_entry list) result" where
  "list_all_markers flt dir fs pipeline =
     (case os_read_dir flt fs (join2 dir pipeline) of
        Inl NotExist \<Rightarrow> ok ([], [])
      | Inl e \<Rightarrow> err (MkList e)
      | Inr es \<Rightarrow>
          (let steps = marker_steps es;
               fails = List.map_filter (\<lambda>s. case marker_read flt dir fs pipeline s of
                          Inl e \<Rightarrow> Some \<lparr> le_step = s, le_err = e \<rparr> | Inr _ \<Rightarrow> None) steps
           in ok (sort_slice (\<lambda>a b. mk_step a < mk_step b) (oks (marker_read flt dir fs pipeline) steps),
                  sort_slice (\<lambda>a b. le_step a < le_step b) fails)))"

definition list_markers :: "faults \<Rightarrow> path \<Rightarrow> fs \<Rightarrow> string \<Rightarrow> (marker_err, marker list) result" where
  "list_markers flt dir fs pipeline =
     (case list_all_markers flt dir fs pipeline of Inl e \<Rightarrow> err e | Inr (ms, _) \<Rightarrow> ok ms)"

definition marker_pipelines :: "faults \<Rightarrow> path \<Rightarrow> fs \<Rightarrow> (marker_err, string list) result" where
  "marker_pipelines flt dir fs =
     (case os_read_dir flt fs dir of
        Inl NotExist \<Rightarrow> ok []
      | Inl e \<Rightarrow> err (MkList e)
      | Inr es \<Rightarrow> ok (sort_strings (map fst (filter snd es))))"

text \<open>The dynamic types that \<open>HashInput\<close> distinguishes; a reader yields its bytes or an error.\<close>

datatype hash_src = HString string | HBytes bytes | HReader "(string, bytes) result" | HOther

definition hex_byte :: "char \<Rightarrow> string" where
  "hex_byte c = [hex_digit (byte c div 16), hex_digit (byte c mod 16)]"

definition hex_encode :: "bytes \<Rightarrow> string" where
  "hex_encode b = concat (map hex_byte b)"

fun hash_input :: "(bytes \<Rightarrow> bytes) \<Rightarrow> hash_src \<Rightarrow> (marker_err, string) result" where
  "hash_input sha (HString s) = ok (''sha256:'' @ hex_encode (sha s))"
| "hash_input sha (HBytes b) = ok (''sha256:'' @ hex_encode (sha b))"
| "hash_input sha (HReader (Inr b)) = ok (''sha256:'' @ hex_encode (sha b))"
| "hash_input sha (HReader (Inl m)) = err (MkHash m)"
| "hash_input sha HOther = err MkUnsupported"

definition hash_file :: "(bytes \<Rightarrow> bytes) \<Rightarrow> faults \<Rightarrow> fs \<Rightarrow> path \<Rightarrow> (marker_err, string) result" where
  "hash_file sha flt fs p =
     (case flt (FOpen p) of
        Some (_, m) \<Rightarrow> err (MkOpen (OsErr m))
      | None \<Rightarrow>
          (case map_of fs p of
             None \<Rightarrow> err (MkOpen NotExist)
           | Some _ \<Rightarrow>
               (case os_read_file flt fs p of
                  Inl (OsErr m) \<Rightarrow> hash_input sha (HReader (Inl m))
                | Inl NotExist \<Rightarrow> err (MkOpen NotExist)
                | Inr b \<Rightarrow> hash_input sha (HReader (Inr b)))))"

section \<open>The stored form\<close>

definition marker_ok :: "marker \<Rightarrow> bool" where
  "marker_ok m \<longleftrightarrow> valid_utf8 (mk_pipeline m) \<and> valid_utf8 (mk_step m) \<and> valid_utf8 (mk_input_hash m)
     \<and> time_ok (mk_completed_at m) \<and> valid_utf8 (mk_output_path m) \<and> in_int64 (mk_duration_ms m)"

lemma marker_raws:
  defines "ms m \<equiv> printed (marker_members m)"
  shows "field_raws (ms m) ''pipeline'' = [json_quote (mk_pipeline m)]"
    "field_raws (ms m) ''step'' = [json_quote (mk_step m)]"
    "field_raws (ms m) ''input_hash'' = [json_quote (mk_input_hash m)]"
    "field_raws (ms m) ''completed_at'' = [DQ # format_rfc3339nano (mk_completed_at m) @ [DQ]]"
    "field_raws (ms m) ''output_path'' = (if mk_output_path m = [] then [] else [json_quote (mk_output_path m)])"
    "field_raws (ms m) ''duration_ms'' = (if mk_duration_ms m = 0 then [] else [itoa (mk_duration_ms m)])"
  unfolding ms_def marker_members_def printed_simps by (simp_all add: key_eval printed_simps)

interpretation marker_codec: flat_record marker_members marker_of_members marker_ok
proof (unfold_locales, goal_cases)
  case (1 m)
  show ?case by (simp add: flat_members_def marker_members_def omit_str_def omit_int_def byte_def)
next
  case (2 m)
  then have v: "valid_utf8 (mk_pipeline m)" "valid_utf8 (mk_step m)" "valid_utf8 (mk_input_hash m)"
    "time_ok (mk_completed_at m)" "valid_utf8 (mk_output_path m)" "in_int64 (mk_duration_ms m)"
    by (auto simp: marker_ok_def)
  note r = marker_raws [of m]
  show ?case
    unfolding marker_of_members_def
    by (simp add: get_string(1) [OF r(1) v(1)] get_string(1) [OF r(2) v(2)] get_string(1) [OF r(3) v(3)]
        get_time [OF r(4) v(4)] get_string(2) [OF r(5) v(5)] get_int(2) [OF r(6) v(6)])
qed

section \<open>Refinement of a map\<close>

definition step_ok :: "string \<times> string \<Rightarrow> bool" where
  "step_ok k \<longleftrightarrow> plain_name (fst k) \<and> SLASH \<notin> set (snd k) \<and> snd k \<noteq> []"

lemma marker_path_eq:
  assumes "proper_dir dir" "step_ok (p, s)"
  shows "marker_path dir p s = dir @ SLASH # p @ SLASH # s @ ''.json''" "dir_path (marker_path dir p s) = dir @ SLASH # p"
    "proper_dir (dir @ SLASH # p)"
proof -
  have pl: "plain_name p" "plain_name (s @ ''.json'')" using assms(2) by (auto simp: step_ok_def plain_name_def)
  show d: "proper_dir (dir @ SLASH # p)" by (rule proper_dir_child [OF assms(1) pl(1)])
  have ne: "dir \<noteq> []" "p \<noteq> []" using assms pl by (auto simp: proper_dir_def plain_name_def)
  have "marker_path dir p s = clean_path ((dir @ SLASH # p) @ SLASH # s @ ''.json'')"
    using ne by (simp add: marker_path_def)
  also have "\<dots> = (dir @ SLASH # p) @ SLASH # s @ ''.json''" by (rule clean_path_child [OF d pl(2)])
  finally show e: "marker_path dir p s = dir @ SLASH # p @ SLASH # s @ ''.json''" by simp
  then show "dir_path (marker_path dir p s) = dir @ SLASH # p" using dir_path_child [OF d pl(2)] by simp
qed

lemma cut_unique:
  fixes p q :: string
  assumes "c \<notin> set p" "c \<notin> set q" "p @ c # s = q @ c # t"
  shows "p = q \<and> s = t"
proof -
  have "length p = length q"
    using index_byte_append [OF assms(1), of s] index_byte_append [OF assms(2), of t] assms(3) by simp
  with assms(3) show ?thesis by simp
qed

lemma marker_path_inj:
  assumes "proper_dir dir" "step_ok (p, s)" "step_ok (q, t)" "marker_path dir p s = marker_path dir q t"
  shows "p = q \<and> s = t"
proof -
  have "SLASH \<notin> set p" "SLASH \<notin> set q" using assms(2,3) by (auto simp: step_ok_def plain_name_def)
  moreover have "p @ SLASH # s @ ''.json'' = q @ SLASH # t @ ''.json''"
    using assms(4) by (simp add: marker_path_eq(1) [OF assms(1,2)] marker_path_eq(1) [OF assms(1,3)])
  ultimately show ?thesis using cut_unique [of SLASH p q "s @ ''.json''" "t @ ''.json''"] by simp
qed

lemma marker_path_not_tmp:
  assumes "proper_dir dir" "step_ok (p, s)" "step_ok (q, t)"
  shows "marker_path dir p s \<noteq> tmp_of (marker_path dir q t)"
proof
  assume "marker_path dir p s = tmp_of (marker_path dir q t)"
  then have "rev (dir @ SLASH # p @ SLASH # s @ ''.json'') = rev ((dir @ SLASH # q @ SLASH # t @ ''.json'') @ ''.tmp'')"
    using marker_path_eq(1) [OF assms(1,2)] marker_path_eq(1) [OF assms(1,3)] by (simp add: tmp_of_def)
  then show False by simp
qed

lemma marker_read_cong:
  "map_of fs (marker_path dir p s) = map_of fs' (marker_path dir p s) \<Longrightarrow> marker_read flt dir fs p s = marker_read flt dir fs' p s"
  unfolding marker_read_def by (simp only: os_read_file_cong [of fs _ fs'])

lemma marker_write_ok:
  assumes "marker_write flt now dir fs m = ok fs'" "proper_dir dir" "marker_ok (marker_stamp now m)"
    "k = (mk_pipeline m, mk_step m)" "step_ok k"
  shows "marker_read no_faults dir fs' (fst k) (snd k) = ok (marker_stamp now m)"
    "step_ok (p, s) \<Longrightarrow> (p, s) \<noteq> k \<Longrightarrow>
       file_data fs' (marker_path dir p s) = file_data fs (marker_path dir p s)"
proof -
  let ?m = "marker_stamp now m" and ?p = "marker_path dir (fst k) (snd k)"
  have st: "mk_pipeline ?m = fst k" "mk_step ?m = snd k" using assms(4) by (simp_all add: marker_stamp_def)
  obtain fs1 where w: "os_mkdir_all flt fs (dir_path ?p) mode_0755 = ok fs1"
    "write_atomic flt fs1 ?p (marshal_indent (marker_members ?m)) mode_0644 = ok fs'"
    using assms(1) st by (auto simp: marker_write_def Let_def split: if_splits sum.splits prod.splits)
  have sk: "step_ok (fst k, snd k)" using assms(5) by simp
  have pd: "proper_dir (dir_path ?p)" using marker_path_eq(2,3) [OF assms(2) sk] by simp
  show "marker_read no_faults dir fs' (fst k) (snd k) = ok ?m"
    using file_data_read [OF write_atomic_ok(1) [OF w(2)]] marker_codec.unmarshal_indent [OF assms(3)]
    by (simp add: marker_read_def)
  assume ps: "step_ok (p, s)" "(p, s) \<noteq> k"
  have "marker_path dir p s \<noteq> ?p" using marker_path_inj [OF assms(2) ps(1) sk] ps(2) by auto
  moreover have "marker_path dir p s \<noteq> tmp_of ?p" by (rule marker_path_not_tmp [OF assms(2) ps(1) sk])
  ultimately have "map_of fs' (marker_path dir p s) = map_of fs1 (marker_path dir p s)" by (rule write_atomic_ok(2) [OF w(2)])
  then show "file_data fs' (marker_path dir p s) = file_data fs (marker_path dir p s)"
    using mkdir_all_ok(3) [OF w(1) pd, of "marker_path dir p s"] by (simp add: file_data_def)
qed

definition marker_get :: "path \<Rightarrow> fs \<Rightarrow> string \<times> string \<Rightarrow> marker option" where
  "marker_get dir fs k = (case marker_read no_faults dir fs (fst k) (snd k) of Inl _ \<Rightarrow> None | Inr m \<Rightarrow> Some m)"

definition marker_put :: "path \<Rightarrow> string \<times> string \<Rightarrow> faults \<times> gtime \<times> marker \<Rightarrow> fs \<Rightarrow> fs option" where
  "marker_put dir k v fs = (case v of (flt, now, m) \<Rightarrow>
     (case marker_write flt now dir fs m of Inl _ \<Rightarrow> None | Inr fs' \<Rightarrow> Some fs'))"

definition marker_del :: "path \<Rightarrow> string \<times> string \<Rightarrow> faults \<times> gtime \<times> marker \<Rightarrow> fs \<Rightarrow> fs option" where
  "marker_del dir k v fs = (case v of (flt, _) \<Rightarrow>
     (case marker_invalidate flt dir fs (fst k) (snd k) of Inl _ \<Rightarrow> None | Inr fs' \<Rightarrow> Some fs'))"

definition marker_legal :: "string \<times> string \<Rightarrow> faults \<times> gtime \<times> marker \<Rightarrow> bool" where
  "marker_legal k v = (case v of (flt, now, m) \<Rightarrow> k = (mk_pipeline m, mk_step m) \<and> marker_ok (marker_stamp now m))"

lemma marker_get_data:
  "file_data fs (marker_path dir p s) = file_data fs' (marker_path dir p s) \<Longrightarrow> marker_get dir fs (p, s) = marker_get dir fs' (p, s)"
  by (auto simp: marker_get_def marker_read_def os_read_file_def file_data_def split: option.splits fnode.splits)

lemma marker_invalidate_ok:
  assumes "marker_invalidate flt dir fs p s = ok fs'"
  shows "map_of fs' (marker_path dir p s) = None" "q \<noteq> marker_path dir p s \<Longrightarrow> map_of fs' q = map_of fs q"
  using assms
  by (auto simp: marker_invalidate_def os_remove_def delete_conv split: sum.splits ioerr.splits option.splits if_splits)

interpretation marker_map: kv_store "\<lambda>fs. proper_dir dir" step_ok marker_legal "marker_put dir" "marker_del dir" "marker_get dir"
  "\<lambda>k (flt, now, m). marker_stamp now m" for dir
proof (unfold_locales, goal_cases)
  case (1 s k v s')
  obtain flt now m where v: "v = (flt, now, m)" by (cases v)
  then have w: "marker_write flt now dir s m = ok s'" "k = (mk_pipeline m, mk_step m)" "marker_ok (marker_stamp now m)"
    using 1 by (auto simp: marker_put_def marker_legal_def split: sum.splits)
  have "marker_get dir s' j = marker_get dir s j" if "step_ok j" "j \<noteq> k" for j
    using marker_write_ok(2) [OF w(1) 1(1) w(3,2) 1(2), of "fst j" "snd j"] that marker_get_data [of s' dir "fst j" "snd j" s] by simp
  moreover have "marker_get dir s' k = Some (marker_stamp now m)"
    using marker_write_ok(1) [OF w(1) 1(1) w(3,2) 1(2)] by (simp add: marker_get_def)
  ultimately show ?case using 1(1) v by simp
next
  case (2 s k v s')
  obtain flt x where v: "v = (flt, x)" by (cases v)
  then have d: "marker_invalidate flt dir s (fst k) (snd k) = ok s'"
    using 2 by (auto simp: marker_del_def split: sum.splits)
  have "marker_get dir s' j = marker_get dir s j" if "step_ok j" "j \<noteq> k" for j
  proof -
    have "marker_path dir (fst j) (snd j) \<noteq> marker_path dir (fst k) (snd k)"
      using marker_path_inj [OF 2(1), of "fst j" "snd j" "fst k" "snd k"] that 2(2) by (auto simp: prod_eq_iff)
    from marker_read_cong [OF marker_invalidate_ok(2) [OF d this]] show ?thesis by (simp only: marker_get_def)
  qed
  moreover have "marker_get dir s' k = None"
    using marker_invalidate_ok(1) [OF d] by (simp add: marker_get_def marker_read_def os_read_file_def)
  ultimately show ?case using 2(1) by simp
qed

definition marker_run :: "path \<Rightarrow> (string \<times> string, faults \<times> gtime \<times> marker) kv_op \<Rightarrow> fs \<Rightarrow> fs option" where
  "marker_run dir op fs = (case op of Put k v \<Rightarrow> marker_put dir k v fs | Del k v \<Rightarrow> marker_del dir k v fs)"

definition marker_op_ok :: "(string \<times> string, faults \<times> gtime \<times> marker) kv_op \<Rightarrow> bool" where
  "marker_op_ok op \<longleftrightarrow> step_ok (op_key op) \<and> (case op of Put k v \<Rightarrow> marker_legal k v | Del k v \<Rightarrow> True)"

lemma marker_run_op: "marker_run dir = marker_map.run_op dir" "marker_op_ok = marker_map.op_ok"
  by (auto simp: fun_eq_iff marker_run_def marker_map.run_op_def marker_op_ok_def marker_map.op_ok_def split: kv_op.splits)

text \<open>What the last operation on a step left: the marker written, or nothing.\<close>

abbreviation marker_spec ::
  "(string \<times> string, faults \<times> gtime \<times> marker) kv_op list \<Rightarrow> (string \<times> string \<Rightarrow> marker option) \<Rightarrow> string \<times> string \<Rightarrow> marker option" where
  "marker_spec \<equiv> kv_spec (\<lambda>k (flt, now, m). marker_stamp now m)"

text \<open>C8.  Freshness refines a map.  Run any sequence of marker writes and invalidations for any
  steps, each under its own I/O faults, all of them successful; then for every step the fault-free
  freshness check says true exactly if the hash asked for is the one recorded by the last write of
  that step, with no invalidation of it since.\<close>

theorem freshness_refines_map:
  assumes "proper_dir dir" "step_ok (p, s)"
    and "fold_opt (marker_run dir) ops fs = Some fs'" "\<And>op. op \<in> set ops \<Longrightarrow> marker_op_ok op"
  shows "(is_fresh no_faults dir fs' p s h = ok True) =
      (\<exists>m. marker_spec ops (marker_get dir fs) (p, s) = Some m \<and> mk_input_hash m = h)"
proof -
  have g: "marker_spec ops (marker_get dir fs) (p, s) = marker_get dir fs' (p, s)"
    using marker_map.refines_map [OF assms(1) assms(3,4) [unfolded marker_run_op] assms(2)] by simp
  show ?thesis
    unfolding g by (auto simp: marker_get_def is_fresh_def split: sum.splits marker_err.splits)
qed

section \<open>A concrete run\<close>

definition demo_marker :: "string \<Rightarrow> marker" where
  "demo_marker h = \<lparr> mk_pipeline = ''etl'', mk_step = ''load'', mk_input_hash = h, mk_completed_at = zero_time,
     mk_output_path = [], mk_duration_ms = 7 \<rparr>"

definition demo_mfs :: fs where
  "demo_mfs = [(''/m'', Dir mode_0755), (''/m/etl'', Dir mode_0755)]"

lemma demo_mdir: "proper_dir ''/m''"
  by (simp add: proper_dir_def clean_path_def clean_stack_def is_rooted_def seg_step_def render_path_def)

lemma demo_mstep: "step_ok (''etl'', ''load'')"
  by (simp add: step_ok_def plain_name_def)

lemma demo_mok: "marker_ok (marker_stamp zero_time (demo_marker ''h1''))"
proof -
  have "valid_utf8 ''etl''" "valid_utf8 ''load''" "valid_utf8 ''h1''" by (rule valid_utf8_ascii, auto simp: byte_def)+
  moreover have "to_utc zero_time = zero_time" by (simp add: to_utc_def zero_time_def)
  ultimately show ?thesis by (simp add: marker_ok_def demo_marker_def marker_stamp_def in_int64_def min_int64_def max_int64_def)
qed

lemma demo_mwrite: "\<exists>fs'. marker_write no_faults zero_time ''/m'' demo_mfs (demo_marker ''h1'') = ok fs'"
proof -
  let ?p = "marker_path ''/m'' ''etl'' ''load''"
  have p: "?p = ''/m/etl/load.json''" "dir_path ?p = ''/m/etl''" "proper_dir ''/m/etl''"
    using marker_path_eq [OF demo_mdir demo_mstep] by simp_all
  have a: "ancestors ''/m/etl'' = [''/m'', ''/m/etl'']"
    by (simp add: ancestors_def clean_stack_def is_rooted_def seg_step_def render_path_def Let_def upt_rec)
  have mk: "os_mkdir_all no_faults demo_mfs (dir_path ?p) mode_0755 = ok demo_mfs"
    unfolding p(2) by (simp add: os_mkdir_all_def a) (simp add: demo_mfs_def is_file_def)
  have "dir_path (tmp_of ?p) = ''/m/etl''"
    using dir_path_child [OF p(3), of "''load.json.tmp''"] by (simp add: p(1) tmp_of_def plain_name_def)
  then have "\<exists>fs'. write_atomic no_faults demo_mfs ?p b mode_0644 = ok fs'" for b
    by (intro write_atomic_succeeds) (simp_all add: p(2), simp_all add: p(1) tmp_of_def demo_mfs_def is_dir_def)
  then obtain fs' where "write_atomic no_faults demo_mfs ?p (marshal_indent (marker_members (marker_stamp zero_time (demo_marker ''h1'')))) mode_0644 = ok fs'"
    by blast
  then show ?thesis
    using mk demo_mok by (auto simp: marker_write_def Let_def marker_stamp_def demo_marker_def marker_ok_def time_ok_json)
qed

theorem freshness_refines_map_witness:
  "\<exists>fs'. fold_opt (marker_run ''/m'') [Put (''etl'', ''load'') (no_faults, zero_time, demo_marker ''h1'')] demo_mfs = Some fs'
     \<and> (is_fresh no_faults ''/m'' fs' ''etl'' ''load'' ''h1'' = ok True)"
proof -
  let ?ops = "[Put (''etl'', ''load'') (no_faults, zero_time, demo_marker ''h1'')] :: (string \<times> string, faults \<times> gtime \<times> marker) kv_op list"
  obtain fs' where w: "fold_opt (marker_run ''/m'') ?ops demo_mfs = Some fs'"
    using demo_mwrite by (auto simp: marker_run_def marker_put_def)
  have l: "marker_op_ok op" if "op \<in> set ?ops" for op
    using that demo_mstep demo_mok by (simp add: marker_op_ok_def marker_legal_def demo_marker_def)
  show ?thesis
    using w freshness_refines_map [OF demo_mdir demo_mstep w l, of "''h1''"]
    by (auto simp: marker_stamp_def demo_marker_def)
qed

end
