(* ===== verification/Run_Registry.thy ===== *)
theory Run_Registry
  imports Go_Prelude "HOL-Library.AList" "HOL-Library.Multiset"
begin

text \<open>
  The registry of running tasks, \<open>internal/runregistry/runregistry.go\<close>: a mutex-protected map
  from task to cancel function.  A cancel function is named by a value of type \<open>'c\<close>; an operation
  returns the cancel functions it calls, which \<open>Cancel\<close> does after it released the mutex.  Every
  operation holds the mutex for its whole access to the map, so concurrent callers are a sequence of
  operations in the order of their critical sections.
\<close>

type_synonym 'c rr_map = "(string \<times> 'c) list"

definition rr_register :: "'c rr_map \<Rightarrow> string \<Rightarrow> 'c option \<Rightarrow> 'c rr_map" where
  "rr_register r task cancel =
     (if task = [] then r else (case cancel of None \<Rightarrow> r | Some c \<Rightarrow> AList.update task c r))"

definition rr_unregister :: "'c rr_map \<Rightarrow> string \<Rightarrow> 'c rr_map" where
  "rr_unregister r task = (if task = [] then r else AList.delete task r)"

definition rr_cancel :: "'c rr_map \<Rightarrow> string \<Rightarrow> bool \<times> 'c list \<times> 'c rr_map" where
  "rr_cancel r task =
     (if task = [] then (False, [], r)
      else (case map_of r task of
              None \<Rightarrow> (False, [], r)
            | Some c \<Rightarrow> (True, [c], AList.delete task r)))"

definition rr_has :: "'c rr_map \<Rightarrow> string \<Rightarrow> bool" where
  "rr_has r task \<longleftrightarrow> task \<noteq> [] \<and> map_of r task \<noteq> None"

definition rr_len :: "'c rr_map \<Rightarrow> nat" where
  "rr_len r = length r"

section \<open>Histories\<close>

datatype 'c rr_op = Register string "'c option" | Unregister string | Cancel string

text \<open>A history of operations from the empty registry: the registry it leaves and the calls made.\<close>

fun rr_step :: "'c rr_op \<Rightarrow> 'c rr_map \<times> 'c list \<Rightarrow> 'c rr_map \<times> 'c list" where
  "rr_step (Register t c) (r, calls) = (rr_register r t c, calls)"
| "rr_step (Unregister t) (r, calls) = (rr_unregister r t, calls)"
| "rr_step (Cancel t) (r, calls) = (case rr_cancel r t of (_, cs, r') \<Rightarrow> (r', calls @ cs))"

definition rr_run :: "'c rr_op list \<Rightarrow> 'c rr_map \<times> 'c list" where
  "rr_run ops = fold rr_step ops ([], [])"

text \<open>The last effective operation on a task, read off the history alone.\<close>

fun rr_live :: "string \<Rightarrow> 'c rr_op list \<Rightarrow> 'c option" where
  "rr_live t [] = None"
| "rr_live t (op # ops) =
     (case op of
        Register u c \<Rightarrow> if u = t \<and> c \<noteq> None then c else rr_live t ops
      | Unregister u \<Rightarrow> if u = t then None else rr_live t ops
      | Cancel u \<Rightarrow> if u = t then None else rr_live t ops)"

definition registered :: "'c rr_op list \<Rightarrow> 'c list" where
  "registered ops = List.map_filter (\<lambda>op. case op of Register t c \<Rightarrow> if t = [] then None else c | _ \<Rightarrow> None) ops"

lemma rr_run_snoc: "rr_run (ops @ [op]) = rr_step op (rr_run ops)"
  by (simp add: rr_run_def)

lemma registered_snoc: "registered (ops @ [op]) = registered ops @ registered [op]"
  by (simp add: registered_def map_filter_def)

lemma rr_run_distinct: "distinct (map fst (fst (rr_run ops)))"
proof (induction ops rule: rev_induct)
  case (snoc op ops)
  obtain r calls where r: "rr_run ops = (r, calls)" by (cases "rr_run ops")
  show ?case
    using snoc r
    by (cases op) (auto simp: rr_run_snoc rr_register_def rr_unregister_def rr_cancel_def distinct_update distinct_delete
        split: option.splits)
qed (simp add: rr_run_def)

lemma rr_run_live: "t \<noteq> [] \<Longrightarrow> map_of (fst (rr_run ops)) t = rr_live t (rev ops)"
proof (induction ops rule: rev_induct)
  case (snoc op ops)
  obtain r calls where r: "rr_run ops = (r, calls)" by (cases "rr_run ops")
  show ?case
    using snoc r
    by (cases op) (auto simp: rr_run_snoc rr_register_def rr_unregister_def rr_cancel_def update_conv delete_conv
        split: option.splits)
qed (simp add: rr_run_def)

text \<open>A registered cancel function is either still registered or has been used up.\<close>

lemma count_update: "mset (map snd (AList.update k c r)) \<subseteq># add_mset c (mset (map snd r))"
proof (induction r)
  case (Cons kv r)
  show ?case
  proof (cases "fst kv = k")
    case True
    then show ?thesis by (cases kv) (simp add: subset_eq_diff_conv)
  next
    case False
    with Cons show ?thesis by (cases kv) (simp add: add_mset_commute [of c])
  qed
qed simp

lemma delete_subset: "mset (map snd (AList.delete k r)) \<subseteq># mset (map snd r)"
  unfolding AList.delete_eq by (induction r) (auto simp: subset_mset.le_add_same_cancel2 intro: subset_mset.order_trans)

lemma delete_taken: "map_of r k = Some c \<Longrightarrow> add_mset c (mset (map snd (AList.delete k r))) \<subseteq># mset (map snd r)"
proof (induction r)
  case (Cons kv r)
  obtain j d where kv: "kv = (j, d)" by (cases kv)
  show ?case
  proof (cases "j = k")
    case True
    then show ?thesis using Cons.prems kv delete_subset [of k r] by (simp add: AList.delete_eq)
  next
    case False
    then show ?thesis using Cons kv by (simp add: AList.delete_eq add_mset_commute [of c])
  qed
qed simp

lemma calls_bounded:
  "mset (snd (rr_run ops)) + mset (map snd (fst (rr_run ops))) \<subseteq># mset (registered ops)"
proof (induction ops rule: rev_induct)
  case (snoc op ops)
  obtain r calls where r: "rr_run ops = (r, calls)" by (cases "rr_run ops")
  have IH: "mset calls + mset (map snd r) \<subseteq># mset (registered ops)" using snoc r by simp
  show ?case
  proof (cases op)
    case (Register t co)
    show ?thesis
    proof (cases "t = [] \<or> co = None")
      case True
      then have "rr_run (ops @ [op]) = (r, calls)" using r Register by (auto simp: rr_run_snoc rr_register_def)
      then show ?thesis using IH by (simp add: registered_snoc subset_mset.add_increasing2)
    next
      case False
      then obtain c where c: "co = Some c" by auto
      have e: "rr_run (ops @ [op]) = (AList.update t c r, calls)" using r Register c False by (simp add: rr_run_snoc rr_register_def)
      have g: "mset (registered (ops @ [op])) = add_mset c (mset (registered ops))"
        using Register c False by (simp add: registered_snoc) (simp add: registered_def map_filter_def)
      have "mset calls + mset (map snd (AList.update t c r)) \<subseteq># mset calls + add_mset c (mset (map snd r))"
        using count_update by (simp add: subset_mset.add_left_mono)
      moreover have "mset calls + add_mset c (mset (map snd r)) \<subseteq># add_mset c (mset (registered ops))" using IH by simp
      ultimately show ?thesis unfolding e g fst_conv snd_conv by (rule subset_mset.order_trans)
    qed
  next
    case (Unregister t)
    have g: "registered (ops @ [op]) = registered ops" unfolding registered_snoc Unregister by (simp add: registered_def map_filter_def)
    have e: "rr_run (ops @ [op]) = (rr_unregister r t, calls)" using r Unregister by (simp add: rr_run_snoc)
    have "mset calls + mset (map snd (rr_unregister r t)) \<subseteq># mset calls + mset (map snd r)"
      using delete_subset [of t r] by (simp add: rr_unregister_def)
    then show ?thesis using IH unfolding e g fst_conv snd_conv by (rule subset_mset.order_trans)
  next
    case (Cancel t)
    obtain b cs r' where c: "rr_cancel r t = (b, cs, r')" by (cases "rr_cancel r t")
    have g: "registered (ops @ [op]) = registered ops" unfolding registered_snoc Cancel by (simp add: registered_def map_filter_def)
    have e: "rr_run (ops @ [op]) = (r', calls @ cs)" using r Cancel c by (simp add: rr_run_snoc)
    have "mset cs + mset (map snd r') \<subseteq># mset (map snd r)"
      using c delete_taken [of r t] by (auto simp: rr_cancel_def split: if_splits option.splits)
    then have "mset (calls @ cs) + mset (map snd r') \<subseteq># mset calls + mset (map snd r)"
      unfolding mset_append add.assoc by (rule subset_mset.add_left_mono)
    then show ?thesis using IH unfolding e g fst_conv snd_conv by (rule subset_mset.order_trans)
  qed
qed (simp add: rr_run_def registered_def)

text \<open>C37.  Cancellation is exact and happens at most once.  After any sequence of registrations,
  removals and cancellations (which is every concurrent history, since the operations are atomic)
  \<open>Cancel\<close> answers true exactly for a task whose last operation was a registration, then calls
  the function registered last and forgets the task; and over the whole history a cancel function is
  called at most as often as it was registered.\<close>

theorem cancel_exact_once:
  "(t \<noteq> [] \<longrightarrow> rr_cancel (fst (rr_run ops)) t =
      (case rr_live t (rev ops) of
         None \<Rightarrow> (False, [], fst (rr_run ops))
       | Some c \<Rightarrow> (True, [c], AList.delete t (fst (rr_run ops)))))
   \<and> rr_cancel r [] = (False, [], r)
   \<and> (\<forall>c. count_list (snd (rr_run ops)) c \<le> count_list (registered ops) c)"
proof (intro conjI impI allI)
  assume "t \<noteq> []"
  then show "rr_cancel (fst (rr_run ops)) t =
      (case rr_live t (rev ops) of
         None \<Rightarrow> (False, [], fst (rr_run ops))
       | Some c \<Rightarrow> (True, [c], AList.delete t (fst (rr_run ops))))"
    using rr_run_live [of t ops] by (simp add: rr_cancel_def)
next
  show "rr_cancel r [] = (False, [], r)" by (simp add: rr_cancel_def)
  fix c
  have "mset (snd (rr_run ops)) \<subseteq># mset (registered ops)"
    using calls_bounded [of ops] by (metis mset_subset_eq_add_left subset_mset.order_trans)
  then have "count (mset (snd (rr_run ops))) c \<le> count (mset (registered ops)) c" by (rule mset_subset_eq_count)
  then show "count_list (snd (rr_run ops)) c \<le> count_list (registered ops) c" by (simp add: count_mset count_list_eq_length_filter)
qed

theorem cancel_exact_once_witness:
  "rr_cancel (fst (rr_run [Register ''a'' (Some (1::nat)), Register ''a'' (Some 2), Cancel ''b''])) ''a'' = (True, [2], [])"
  using cancel_exact_once [of "''a''" "[Register ''a'' (Some (1::nat)), Register ''a'' (Some 2), Cancel ''b'']" "[]"]
  by (simp add: rr_run_def rr_register_def rr_cancel_def)

end
