(* ===== verification/Rpc_Server.thy ===== *)
theory Rpc_Server
  imports Go_Store
begin

text \<open>
  The JSON-RPC 2.0 server, \<open>internal/rpc/server.go\<close>: handler registration, the HTTP entry point
  and the reply envelope.  A handler is a function of the raw parameters and of the state it works
  on; it returns the JSON of its result (\<open>None\<close> for nil) or an error.  The texts that
  \<open>encoding/json\<close> gives its errors are the argument \<open>jmsg\<close>.
\<close>

section \<open>Data\<close>

definition code_parse_error :: int where "code_parse_error = - 32700"
definition code_invalid_request :: int where "code_invalid_request = - 32600"
definition code_method_not_found :: int where "code_method_not_found = - 32601"
definition code_invalid_params :: int where "code_invalid_params = - 32602"
definition code_internal_error :: int where "code_internal_error = - 32603"

record rpc_error =
  re_code :: int
  re_message :: string
  re_data :: "jtree option"

definition new_error :: "int \<Rightarrow> string \<Rightarrow> rpc_error" where
  "new_error c m = \<lparr> re_code = c, re_message = m, re_data = None \<rparr>"

text \<open>\<open>Error.Error\<close>.\<close>

definition rpc_error_text :: "rpc_error \<Rightarrow> string" where
  "rpc_error_text e = ''rpc error '' @ itoa (re_code e) @ '': '' @ re_message e"

text \<open>What a handler returns as its error: a typed one, or any other with its text.\<close>

datatype herr = HRpc rpc_error | HPlain string

primrec herr_text :: "herr \<Rightarrow> string" where
  "herr_text (HRpc e) = rpc_error_text e"
| "herr_text (HPlain m) = m"

type_synonym 's handler = "bytes \<Rightarrow> 's \<Rightarrow> (herr, jtree option) result \<times> 's"

record rpc_request =
  rq_jsonrpc :: string
  rq_method :: string
  rq_params :: bytes
  rq_id :: bytes

definition request_of_members :: "members \<Rightarrow> (json_err, rpc_request) result" where
  "request_of_members ms =
     (case get_field dec_string [] ms ''jsonrpc'' of Inl x \<Rightarrow> err x | Inr v \<Rightarrow>
     (case get_field dec_string [] ms ''method'' of Inl x \<Rightarrow> err x | Inr m \<Rightarrow>
     (case get_field dec_raw [] ms ''params'' of Inl x \<Rightarrow> err x | Inr p \<Rightarrow>
     (case get_field dec_raw [] ms ''id'' of Inl x \<Rightarrow> err x | Inr i \<Rightarrow>
        ok \<lparr> rq_jsonrpc = v, rq_method = m, rq_params = p, rq_id = i \<rparr>))))"

section \<open>Registration\<close>

datatype register_err = EmptyMethod | NilHandler | DuplicateMethod

definition server_default_addr :: "string \<Rightarrow> string" where
  "server_default_addr addr = (if addr = [] then ''127.0.0.1:9091'' else addr)"

text \<open>A duplicate or malformed registration panics.\<close>

definition server_register ::
  "(string \<times> 's handler) list \<Rightarrow> string \<Rightarrow> 's handler option \<Rightarrow> (register_err, (string \<times> 's handler) list) result" where
  "server_register hs method h =
     (if method = [] then err EmptyMethod
      else (case h of
              None \<Rightarrow> err NilHandler
            | Some f \<Rightarrow> if map_of hs method \<noteq> None then err DuplicateMethod else ok ((method, f) # hs)))"

definition server_handler :: "(string \<times> 's handler) list \<Rightarrow> string \<Rightarrow> 's handler option" where
  "server_handler hs method = map_of hs method"

section \<open>Requests\<close>

definition request_cap :: nat where "request_cap = 1048576"

record http_request =
  hq_method :: string
  hq_body :: "(string, bytes) result"

datatype http_reply = HttpError int string | HttpJson bytes

definition error_members :: "rpc_error \<Rightarrow> (bytes \<times> jtree) list" where
  "error_members e =
     [(''code'', JInt (re_code e)), (''message'', JStr (re_message e))]
     @ (case re_data e of None \<Rightarrow> [] | Some d \<Rightarrow> [(''data'', d)])"

definition response_members :: "bytes \<Rightarrow> jtree option \<Rightarrow> rpc_error option \<Rightarrow> (bytes \<times> jtree) list" where
  "response_members i result e =
     [(''jsonrpc'', JStr ''2.0'')]
     @ (case result of None \<Rightarrow> [] | Some r \<Rightarrow> [(''result'', r)])
     @ (case e of None \<Rightarrow> [] | Some x \<Rightarrow> [(''error'', JObj (error_members x))])
     @ [(''id'', JLit i)]"

text \<open>\<open>Encoder.Encode\<close> writes the envelope and a newline; the identifier is compacted, and an
  identifier that is not JSON would leave the body empty.\<close>

definition write_response :: "bytes \<Rightarrow> jtree option \<Rightarrow> rpc_error option \<Rightarrow> http_reply" where
  "write_response i result e =
     (case json_compact (if i = [] then ''null'' else i) of
        None \<Rightarrow> HttpJson []
      | Some c \<Rightarrow> HttpJson (json_print (JObj (response_members c result e)) @ [NL]))"

definition handle_http ::
  "(json_err \<Rightarrow> string) \<Rightarrow> (string \<times> 's handler) list \<Rightarrow> http_request \<Rightarrow> 's \<Rightarrow> http_reply \<times> 's" where
  "handle_http jmsg hs r s =
     (if hq_method r \<noteq> ''POST'' then (HttpError 405 ''rpc: POST required'', s)
      else (case hq_body r of
              Inl m \<Rightarrow> (write_response [] None (Some (new_error code_parse_error (''read body: '' @ m))), s)
            | Inr b \<Rightarrow>
                (case unmarshal_with request_of_members (take request_cap b) of
                   Inl x \<Rightarrow> (write_response [] None (Some (new_error code_parse_error (''parse: '' @ jmsg x))), s)
                 | Inr q \<Rightarrow>
                     if rq_jsonrpc q \<noteq> ''2.0'' then
                       (write_response (rq_id q) None (Some (new_error code_invalid_request
                          (''jsonrpc must be '' @ [DQ] @ ''2.0'' @ [DQ]))), s)
                     else if rq_method q = [] then
                       (write_response (rq_id q) None (Some (new_error code_invalid_request ''method is required'')), s)
                     else if rq_id q = [] then
                       (write_response [] None (Some (new_error code_invalid_request ''notifications (no id) not supported'')), s)
                     else (case server_handler hs (rq_method q) of
                             None \<Rightarrow> (write_response (rq_id q) None
                                        (Some (new_error code_method_not_found (''method not found: '' @ rq_method q))), s)
                           | Some h \<Rightarrow>
                               (case h (rq_params q) s of
                                  (Inl (HRpc e), s') \<Rightarrow> (write_response (rq_id q) None (Some e), s')
                                | (Inl (HPlain m), s') \<Rightarrow>
                                    (write_response (rq_id q) None (Some (new_error code_internal_error m)), s')
                                | (Inr res, s') \<Rightarrow> (write_response (rq_id q) res None, s'))))))"

section \<open>A call and its reply\<close>

text \<open>The request a client sends.\<close>

definition call_members :: "string \<Rightarrow> jtree \<Rightarrow> bytes \<Rightarrow> (bytes \<times> jtree) list" where
  "call_members m p i = [(''jsonrpc'', JStr ''2.0''), (''method'', JStr m), (''params'', p), (''id'', JLit i)]"

lemma obj_members:
  assumes "list_all (\<lambda>kv. jcomplete (max_nesting - 1) (snd kv)) kvs" "list_all (\<lambda>(k, t). list_all (\<lambda>c. byte c < 128) k) kvs"
  shows "json_members (json_print (JObj kvs)) = ok (printed kvs)"
proof -
  have "Suc (max_nesting - 1) \<le> max_nesting" by (simp add: max_nesting_def)
  from json_members_print [OF assms(1) this] show ?thesis by (simp only: coerced_keys [OF assms(2)] printed_def)
qed

lemma valid_version: "valid_utf8 ''2.0''"
  by (rule valid_utf8_ascii) (auto simp: byte_def)

lemma call_decodes:
  assumes "valid_utf8 m" "jcomplete (max_nesting - 1) p" "completes (max_nesting - 1) i"
  shows "unmarshal_with request_of_members (marshal_compact (call_members m p i))
     = ok \<lparr> rq_jsonrpc = ''2.0'', rq_method = m, rq_params = json_print p, rq_id = i \<rparr>"
proof -
  let ?ms = "printed (call_members m p i)"
  have "json_members (marshal_compact (call_members m p i)) = ok ?ms"
    by (rule obj_members) (use assms in \<open>simp_all add: call_members_def byte_def\<close>)
  moreover have "field_raws ?ms ''jsonrpc'' = [json_quote ''2.0'']" "field_raws ?ms ''method'' = [json_quote m]"
    "field_raws ?ms ''params'' = [json_print p]" "field_raws ?ms ''id'' = [i]"
    by (simp_all add: call_members_def printed_simps key_eval)
  ultimately show ?thesis
    using get_string(1) [OF _ valid_version] get_string(1) [OF _ assms(1)]
    by (simp add: unmarshal_with_def request_of_members_def get_field_def dec_raw_def)
qed

lemma response_decodes:
  assumes "completes (max_nesting - 2) i"
    "\<And>r. result = Some r \<Longrightarrow> jcomplete (max_nesting - 2) r"
    "\<And>x d. e = Some x \<Longrightarrow> re_data x = Some d \<Longrightarrow> jcomplete (max_nesting - 2) d"
  shows "json_members (json_print (JObj (response_members i result e))) = ok (printed (response_members i result e))"
proof (rule obj_members)
  have "jcomplete (max_nesting - 1) t" if "jcomplete (max_nesting - 2) t" for t
    by (rule jcomplete_mono [OF that]) (simp add: max_nesting_def)
  moreover have "max_nesting - Suc (Suc 0) = max_nesting - 2" "0 < max_nesting - Suc 0" by (simp_all add: max_nesting_def)
  moreover have "completes (max_nesting - 1) i" by (rule completes_mono [OF assms(1)]) (simp add: max_nesting_def)
  ultimately show "list_all (\<lambda>kv. jcomplete (max_nesting - 1) (snd kv)) (response_members i result e)"
    using assms(2,3) by (auto simp: response_members_def error_members_def split: option.splits)
  show "list_all (\<lambda>(k, t). list_all (\<lambda>c. byte c < 128) k) (response_members i result e)"
    by (auto simp: response_members_def byte_def split: option.splits)
qed

lemma response_raws:
  defines "ms i r e \<equiv> printed (response_members i r e)"
  shows "field_raws (ms i r e) ''id'' = [i]"
    "field_raws (ms i r e) ''result'' = (case r of None \<Rightarrow> [] | Some t \<Rightarrow> [json_print t])"
    "field_raws (ms i r e) ''error'' = (case e of None \<Rightarrow> [] | Some x \<Rightarrow> [json_print (JObj (error_members x))])"
  unfolding ms_def response_members_def by (auto simp: printed_simps key_eval split: option.splits)

text \<open>The outcome of a call as the server reports it: a result, or an error with its code.\<close>

definition call_outcome ::
  "(string \<times> 's handler) list \<Rightarrow> string \<Rightarrow> bytes \<Rightarrow> 's \<Rightarrow> jtree option \<times> rpc_error option \<times> 's" where
  "call_outcome hs m p s =
     (case map_of hs m of
        None \<Rightarrow> (None, Some (new_error code_method_not_found (''method not found: '' @ m)), s)
      | Some h \<Rightarrow>
          (case h p s of
             (Inl (HRpc e), s') \<Rightarrow> (None, Some e, s')
           | (Inl (HPlain t), s') \<Rightarrow> (None, Some (new_error code_internal_error t), s')
           | (Inr res, s') \<Rightarrow> (res, None, s')))"

lemma handle_call:
  assumes "hq_method r = ''POST''" "hq_body r = ok (marshal_compact (call_members m p i))"
    "length (marshal_compact (call_members m p i)) \<le> request_cap"
    "valid_utf8 m" "m \<noteq> []" "i \<noteq> []" "jcomplete (max_nesting - 1) p" "completes (max_nesting - 1) i"
    "call_outcome hs m (json_print p) s = (res, e, s')"
  shows "handle_http jmsg hs r s = (write_response i res e, s')"
  using assms call_decodes [OF assms(4,7,8)]
  by (auto simp: handle_http_def server_handler_def call_outcome_def split: option.splits prod.splits sum.splits herr.splits)

text \<open>C19.  A call comes back.  For every well-formed call that fits the 1 MiB cap the server runs
  the registered handler once on the parameters sent, and its reply decodes to an envelope with the
  caller's identifier and exactly what the handler returned: its result and no error, or no result
  and its error (code \<open>-32603\<close> for an untyped one).  An unknown method changes nothing and is
  answered with code \<open>-32601\<close>.\<close>

theorem rpc_call_roundtrip:
  assumes "hq_method r = ''POST''" "hq_body r = ok (marshal_compact (call_members m p i))"
    and "length (marshal_compact (call_members m p i)) \<le> request_cap"
    and "valid_utf8 m" "m \<noteq> []" "i \<noteq> []" "jcomplete (max_nesting - 1) p"
    and "json_compact i = Some i" "completes (max_nesting - 2) i"
    and "call_outcome hs m (json_print p) s = (res, e, s')"
    and "\<And>t. res = Some t \<Longrightarrow> jcomplete (max_nesting - 2) t"
    and "\<And>x d. e = Some x \<Longrightarrow> re_data x = Some d \<Longrightarrow> jcomplete (max_nesting - 2) d"
  shows "\<exists>b ms. handle_http jmsg hs r s = (HttpJson (b @ [NL]), s') \<and> json_members b = ok ms
     \<and> field_raws ms ''id'' = [i]
     \<and> field_raws ms ''result'' = (case res of None \<Rightarrow> [] | Some t \<Rightarrow> [json_print t])
     \<and> field_raws ms ''error'' = (case e of None \<Rightarrow> [] | Some x \<Rightarrow> [json_print (JObj (error_members x))])"
proof -
  have i: "completes (max_nesting - 1) i" by (rule completes_mono [OF assms(9)]) (simp add: max_nesting_def)
  have "handle_http jmsg hs r s = (write_response i res e, s')" by (rule handle_call [OF assms(1-7) i assms(10)])
  moreover have "write_response i res e = HttpJson (json_print (JObj (response_members i res e)) @ [NL])"
    using assms(6,8) by (simp add: write_response_def)
  ultimately show ?thesis
    using response_decodes [OF assms(9,11,12)] response_raws [of i res e] by auto
qed

definition demo_ping :: "nat handler" where
  "demo_ping p s = (ok (Some (JInt (int s))), Suc s)"

theorem rpc_call_roundtrip_witness:
  "\<exists>b ms. handle_http (\<lambda>_. []) [(''ping'', demo_ping)]
       \<lparr> hq_method = ''POST'', hq_body = ok (marshal_compact (call_members ''ping'' (JInt 3) ''7'')) \<rparr> 41
      = (HttpJson (b @ [NL]), 42) \<and> json_members b = ok ms \<and> field_raws ms ''id'' = [''7'']
      \<and> field_raws ms ''result'' = [itoa 41] \<and> field_raws ms ''error'' = []"
proof -
  have "char_of (55 :: nat) = CHR ''7''" by (rule char_of_lit) (simp add: byte_def)
  then have c: "completes n ''7''" for n using completes_itoa [of n 7] by (simp add: go_eval)
  have "json_compact ''7'' = Some ''7''" by (simp add: json_compact_def max_nesting_def json_eval)
  moreover have "valid_utf8 ''ping''" by (rule valid_utf8_ascii) (auto simp: byte_def)
  moreover have "length (marshal_compact (call_members ''ping'' (JInt 3) ''7'')) \<le> request_cap"
    by (simp add: call_members_def json_print.simps(3) json_quote_def quote_body.simps esc_ascii_def byte_def html_special_def request_cap_def go_eval)
  ultimately show ?thesis
    using rpc_call_roundtrip [of _ "''ping''" "JInt 3" "''7''" "[(''ping'', demo_ping)]" 41 "Some (JInt 41)" None 42 "\<lambda>_. []"] c
    by (fastforce simp: call_outcome_def demo_ping_def)
qed

end
