(* ===== verification/Cancel_Task.thy ===== *)
theory Cancel_Task
  imports Rpc_Server Run_Registry
begin

text \<open>
  The handler \<open>fleet.CancelTask\<close>, \<open>internal/rpc/canceltask.go\<close>, over the registry of running
  tasks.  The state of the handler is the registry together with the cancel functions called so far.
\<close>

record cancel_task_params =
  ct_task_id :: string

definition cancel_params_of_members :: "members \<Rightarrow> (json_err, cancel_task_params) result" where
  "cancel_params_of_members ms =
     (case get_field dec_string [] ms ''task_id'' of Inl x \<Rightarrow> err x | Inr t \<Rightarrow> ok \<lparr> ct_task_id = t \<rparr>)"

record cancel_task_result =
  ct_cancelled :: bool

definition err_missing_task_id :: string where
  "err_missing_task_id = ''rpc: cancel_task: task_id is required''"

type_synonym 'c cancel_state = "'c rr_map \<times> 'c list"

definition cancel_task ::
  "(json_err \<Rightarrow> string) \<Rightarrow> bytes \<Rightarrow> 'c cancel_state \<Rightarrow> (herr, cancel_task_result) result \<times> 'c cancel_state" where
  "cancel_task jmsg params s =
     (case (if params = [] then ok \<lparr> ct_task_id = [] \<rparr> else unmarshal_with cancel_params_of_members params) of
        Inl x \<Rightarrow> (err (HPlain (jmsg x)), s)
      | Inr p \<Rightarrow>
          if ct_task_id p = [] then (err (HPlain err_missing_task_id), s)
          else (case s of (r, calls) \<Rightarrow>
                  (case rr_cancel r (ct_task_id p) of
                     (b, cs, r') \<Rightarrow> (ok \<lparr> ct_cancelled = b \<rparr>, (r', calls @ cs)))))"

definition cancel_result_json :: "cancel_task_result \<Rightarrow> jtree" where
  "cancel_result_json r = JObj [(''cancelled'', JBool (ct_cancelled r))]"

text \<open>As the server sees it, and \<open>Handle\<close>, which only unwraps the result.\<close>

definition cancel_task_handler :: "(json_err \<Rightarrow> string) \<Rightarrow> 'c cancel_state handler" where
  "cancel_task_handler jmsg params s =
     (case cancel_task jmsg params s of
        (Inl e, s') \<Rightarrow> (err e, s')
      | (Inr r, s') \<Rightarrow> (ok (Some (cancel_result_json r)), s'))"

definition cancel_handle ::
  "(json_err \<Rightarrow> string) \<Rightarrow> bytes \<Rightarrow> 'c cancel_state \<Rightarrow> (herr, cancel_task_result) result \<times> 'c cancel_state" where
  "cancel_handle jmsg params s = cancel_task jmsg params s"

section \<open>Delivery\<close>

lemma cancel_params_decode:
  assumes "valid_utf8 t"
  shows "unmarshal_with cancel_params_of_members (marshal_compact [(''task_id'', JStr t)]) = ok \<lparr> ct_task_id = t \<rparr>"
proof -
  have "json_members (marshal_compact [(''task_id'', JStr t)]) = ok (printed [(''task_id'', JStr t)])"
    by (rule obj_members) (simp_all add: byte_def)
  moreover have "field_raws (printed [(''task_id'', JStr t)]) ''task_id'' = [json_quote t]"
    by (simp add: printed_simps key_eval)
  ultimately show ?thesis using get_string(1) [OF _ assms] by (simp add: unmarshal_with_def cancel_params_of_members_def)
qed

lemma marshal_not_Nil [simp]: "json_print (JObj kvs) \<noteq> []"
  by (simp add: json_print.simps)

lemma cancel_task_run:
  assumes "valid_utf8 t" "t \<noteq> []"
  shows "cancel_task jmsg (marshal_compact [(''task_id'', JStr t)]) (rr_run ops) =
     (ok \<lparr> ct_cancelled = (rr_live t (rev ops) \<noteq> None) \<rparr>, rr_run (ops @ [Cancel t]))"
proof -
  obtain r calls where r: "rr_run ops = (r, calls)" by (cases "rr_run ops")
  obtain b cs r' where c: "rr_cancel r t = (b, cs, r')" by (cases "rr_cancel r t")
  have "map_of r t = rr_live t (rev ops)" using rr_run_live [OF assms(2), of ops] r by simp
  then have "b = (rr_live t (rev ops) \<noteq> None)"
    using c assms(2) by (auto simp: rr_cancel_def split: option.splits if_splits)
  then show ?thesis
    using c r assms cancel_params_decode [OF assms(1)] by (simp add: cancel_task_def rr_run_snoc)
qed

text \<open> CancelTask reaches the running task once.  After any history of the registry a
  \<open>fleet.CancelTask\<close> request for a task answers \<open>cancelled: true\<close> exactly if the task is
  running, in which case the function registered last for it is called; the same request again
  answers false and calls nothing.\<close>

theorem cancel_task_once:
  assumes "valid_utf8 t" "t \<noteq> []" "cancel_task jmsg (marshal_compact [(''task_id'', JStr t)]) (rr_run ops) = (res, s')"
  shows "res = ok \<lparr> ct_cancelled = (rr_live t (rev ops) \<noteq> None) \<rparr>
     \<and> snd s' = snd (rr_run ops) @ (case rr_live t (rev ops) of None \<Rightarrow> [] | Some c \<Rightarrow> [c])
     \<and> cancel_task jmsg (marshal_compact [(''task_id'', JStr t)]) s' = (ok \<lparr> ct_cancelled = False \<rparr>, s')"
proof -
  have s': "res = ok \<lparr> ct_cancelled = (rr_live t (rev ops) \<noteq> None) \<rparr>" "s' = rr_run (ops @ [Cancel t])"
    using assms(3) cancel_task_run [OF assms(1,2), of jmsg ops] by auto
  obtain r calls where r: "rr_run ops = (r, calls)" by (cases "rr_run ops")
  have m: "map_of r t = rr_live t (rev ops)" using rr_run_live [OF assms(2), of ops] r by simp
  have "snd s' = snd (rr_run ops) @ (case rr_live t (rev ops) of None \<Rightarrow> [] | Some c \<Rightarrow> [c])"
    using m r assms(2) by (simp add: s'(2) rr_run_snoc rr_cancel_def split: option.splits)
  moreover have "rr_run ((ops @ [Cancel t]) @ [Cancel t]) = rr_run (ops @ [Cancel t])"
  proof -
    have "map_of (fst (rr_run (ops @ [Cancel t]))) t = None" using rr_run_live [OF assms(2), of "ops @ [Cancel t]"] by simp
    then show ?thesis
      unfolding rr_run_snoc [of "ops @ [Cancel t]"]
      by (cases "rr_run (ops @ [Cancel t])") (simp add: rr_cancel_def)
  qed
  ultimately show ?thesis
    using s' cancel_task_run [OF assms(1,2), of jmsg "ops @ [Cancel t]"] by simp
qed

theorem cancel_task_once_witness:
  "\<exists>res s'. cancel_task (\<lambda>_. []) (marshal_compact [(''task_id'', JStr ''t1'')]) (rr_run [Register ''t1'' (Some (5::nat))]) = (res, s')
     \<and> res = ok \<lparr> ct_cancelled = True \<rparr> \<and> snd s' = [5]"
proof -
  obtain res s' where c: "cancel_task (\<lambda>_. []) (marshal_compact [(''task_id'', JStr ''t1'')]) (rr_run [Register ''t1'' (Some (5::nat))]) = (res, s')"
    by (rule prod.exhaust)
  have "valid_utf8 ''t1''" by (rule valid_utf8_ascii) (auto simp: byte_def)
  from cancel_task_once [OF this _ c] have "res = ok \<lparr> ct_cancelled = True \<rparr>" "snd s' = [5]"
    by (simp_all add: rr_run_def)
  with c show ?thesis by blast
qed

end
