(* ===== verification/Ledger_Tail.thy ===== *)
theory Ledger_Tail
  imports Rpc_Server Ledger_Runs
begin

text \<open>
  The handler \<open>fleet.LedgerTail\<close>, \<open>internal/rpc/ledgertail.go\<close>: polling of a task's ledger
  with a time cursor.  The texts of ledger errors, which the handler searches for \<open>no such file or
  directory\<close>, are the argument \<open>emsg\<close>.
\<close>

record ledger_tail_params =
  lt_task_id :: string
  lt_after_ts :: string

definition tail_params_of_members :: "members \<Rightarrow> (json_err, ledger_tail_params) result" where
  "tail_params_of_members ms =
     (case get_field dec_string [] ms ''task_id'' of Inl x \<Rightarrow> err x | Inr t \<Rightarrow>
     (case get_field dec_string [] ms ''after_ts'' of Inl x \<Rightarrow> err x | Inr a \<Rightarrow>
        ok \<lparr> lt_task_id = t, lt_after_ts = a \<rparr>))"

record ledger_tail_result =
  lt_entries :: "entry list"
  lt_cursor :: string

declare json_print.simps(3) [simp del]

text \<open>The reader behind the handler is \<open>ReadSince\<close> of some ledger.\<close>

type_synonym ledger_reader = "string \<Rightarrow> gtime \<Rightarrow> (ledger_err, entry list) result"

text \<open>\<open>time.Parse\<close> with the layout RFC3339Nano, and on failure with RFC3339; both accept the
  same texts.\<close>

definition parse_cursor :: "string \<Rightarrow> gtime option" where
  "parse_cursor s = (case parse_rfc3339 s of Some t \<Rightarrow> Some t | None \<Rightarrow> parse_rfc3339 s)"

definition ledger_tail ::
  "(json_err \<Rightarrow> string) \<Rightarrow> (ledger_err \<Rightarrow> string) \<Rightarrow> (string \<Rightarrow> string) \<Rightarrow> ledger_reader \<Rightarrow> bytes \<Rightarrow> (rpc_error, ledger_tail_result) result" where
  "ledger_tail jmsg emsg tmsg read raw =
     (case (if raw = [] \<or> raw = ''null'' then ok \<lparr> lt_task_id = [], lt_after_ts = [] \<rparr>
            else unmarshal_with tail_params_of_members raw) of
        Inl x \<Rightarrow> err (new_error code_invalid_params (''ledgertail: bad params: '' @ jmsg x))
      | Inr p \<Rightarrow>
          if lt_task_id p = [] then err (new_error code_invalid_params ''ledgertail: task_id required'')
          else (case (if lt_after_ts p = [] then Some zero_time else parse_cursor (lt_after_ts p)) of
                  None \<Rightarrow> err (new_error code_invalid_params (''ledgertail: bad after_ts: '' @ tmsg (lt_after_ts p)))
                | Some after \<Rightarrow>
                    (case read (lt_task_id p) after of
                       Inl x \<Rightarrow>
                         if contains (emsg x) ''no such file or directory'' \<or> contains (emsg x) ''file does not exist''
                         then ok \<lparr> lt_entries = [], lt_cursor = lt_after_ts p \<rparr>
                         else err (new_error code_internal_error (''ledgertail: read: '' @ emsg x))
                     | Inr es \<Rightarrow>
                         ok \<lparr> lt_entries = es,
                              lt_cursor = (if es = [] then lt_after_ts p
                                           else format_rfc3339nano (to_utc (en_ts (last es)))) \<rparr>)))"

section \<open>Polling\<close>

definition tail_params :: "string \<Rightarrow> string \<Rightarrow> (bytes \<times> jtree) list" where
  "tail_params t a = [(''task_id'', JStr t)] @ omit_str ''after_ts'' a"

lemma tail_params_decode:
  assumes "valid_utf8 t" "valid_utf8 a"
  shows "unmarshal_with tail_params_of_members (marshal_compact (tail_params t a)) = ok \<lparr> lt_task_id = t, lt_after_ts = a \<rparr>"
proof -
  have "json_members (marshal_compact (tail_params t a)) = ok (printed (tail_params t a))"
    by (rule obj_members) (simp_all add: tail_params_def omit_str_def byte_def)
  moreover have "field_raws (printed (tail_params t a)) ''task_id'' = [json_quote t]"
    "field_raws (printed (tail_params t a)) ''after_ts'' = (if a = [] then [] else [json_quote a])"
    by (simp_all add: tail_params_def printed_simps key_eval)
  ultimately show ?thesis
    using get_string(1) [OF _ assms(1)] get_string(2) [OF _ assms(2)] by (simp add: unmarshal_with_def tail_params_of_members_def)
qed

lemma format_valid: "valid_utf8 (format_with b t)"
  by (rule valid_utf8_ascii) (use format_bytes in \<open>fastforce simp: is_digit_def byte_def\<close>)

lemma format_not_Nil: "format_with b t \<noteq> []"
  by (cases "civil_from_days (local_secs t div 86400)") (auto simp: format_with_def date_str_def)

lemma obj_not_null: "json_print (JObj kvs) \<noteq> []" "json_print (JObj kvs) \<noteq> ''null''"
  by (simp_all add: json_print.simps)

lemma to_utc_ok: "time_ok t \<Longrightarrow> t_off t = 0 \<Longrightarrow> to_utc t = t"
  by (simp add: to_utc_def)

text \<open>A poll with the cursor of an entry returns the entries that are strictly later.\<close>

lemma poll_after:
  assumes "valid_utf8 t" "t \<noteq> []" "read_task verify flt l fs t = (es, None)" "time_ok (to_utc ts)" "\<not> is_zero_time ts"
  shows "ledger_tail jmsg emsg tmsg (read_since verify flt l fs) (marshal_compact (tail_params t (format_rfc3339nano (to_utc ts))))
     = ok \<lparr> lt_entries = filter (\<lambda>e. t_ns ts < t_ns (en_ts e)) es,
            lt_cursor = (case filter (\<lambda>e. t_ns ts < t_ns (en_ts e)) es of
               [] \<Rightarrow> format_rfc3339nano (to_utc ts) | xs \<Rightarrow> format_rfc3339nano (to_utc (en_ts (last xs)))) \<rparr>"
proof -
  have p: "parse_cursor (format_rfc3339nano (to_utc ts)) = Some (to_utc ts)"
    using parse_format [OF assms(4)] by (simp add: parse_cursor_def)
  have z: "\<not> is_zero_time (to_utc ts)" using assms(5) by (simp add: is_zero_time_def to_utc_def)
  have "read_since verify flt l fs t (to_utc ts) = ok (filter (\<lambda>e. t_ns ts < t_ns (en_ts e)) es)"
    using assms(3) z by (simp add: read_since_def time_after_def to_utc_def)
  then show ?thesis
    using tail_params_decode [OF assms(1) format_valid] p assms(2)
    by (simp add: ledger_tail_def obj_not_null format_not_Nil split: list.splits)
qed

text \<open>The first poll, with no cursor.\<close>

lemma poll_first:
  assumes "valid_utf8 t" "t \<noteq> []" "read_task verify flt l fs t = (es, None)"
  shows "ledger_tail jmsg emsg tmsg (read_since verify flt l fs) (marshal_compact (tail_params t []))
     = ok \<lparr> lt_entries = es, lt_cursor = (if es = [] then [] else format_rfc3339nano (to_utc (en_ts (last es)))) \<rparr>"
  using tail_params_decode [OF assms(1) valid_utf8_Nil] assms(2,3)
  by (simp add: ledger_tail_def obj_not_null read_since_def is_zero_time_def)

text \<open> Polling loses and repeats nothing on an increasing clock.  If the timestamps of a task's
  entries are strictly increasing, then whatever the ledger held at one poll (\<open>old\<close>) and what it
  holds at the next (\<open>old @ new\<close>), the second poll, made with the cursor of the first, returns
  exactly \<open>new\<close>.\<close>

theorem tail_resumes:
  assumes "valid_utf8 t" "t \<noteq> []" "read_task verify flt l fs t = (old, None)" "old \<noteq> []"
    and "read_task verify flt' l fs' t = (old @ new, None)"
    and "sorted_wrt (\<lambda>a b. t_ns (en_ts a) < t_ns (en_ts b)) (old @ new)"
    and "time_ok (to_utc (en_ts (last old)))" "\<not> is_zero_time (en_ts (last old))"
    and "ledger_tail jmsg emsg tmsg (read_since verify flt l fs) (marshal_compact (tail_params t [])) = ok r"
  shows "\<exists>c. ledger_tail jmsg emsg tmsg (read_since verify flt' l fs') (marshal_compact (tail_params t (lt_cursor r)))
     = ok \<lparr> lt_entries = new, lt_cursor = c \<rparr>"
proof -
  let ?ts = "en_ts (last old)"
  have r: "lt_cursor r = format_rfc3339nano (to_utc ?ts)"
    using poll_first [OF assms(1-3), of jmsg emsg tmsg] assms(4,9) by auto
  have "filter (\<lambda>e. t_ns ?ts < t_ns (en_ts e)) old = []"
  proof -
    obtain ys y where old: "old = ys @ [y]" using assms(4) by (metis rev_exhaust)
    have "t_ns (en_ts e) \<le> t_ns ?ts" if "e \<in> set old" for e
      using that assms(6) by (auto simp: old sorted_wrt_append)
    then show ?thesis by (auto simp: filter_empty_conv not_less)
  qed
  moreover have "filter (\<lambda>e. t_ns ?ts < t_ns (en_ts e)) new = new"
    using assms(4,6) by (auto simp: sorted_wrt_append filter_id_conv)
  ultimately show ?thesis
    using poll_after [OF assms(1,2,5,7,8), of jmsg emsg tmsg] r by simp
qed

text \<open> Entries of one instant can be lost.  The cursor is a time: an entry appended after a
  poll with a timestamp not later than that of the last entry seen is returned by no later poll that
  echoes the cursor, although \<open>Read\<close> has it.\<close>

theorem tail_loses_ties:
  assumes "valid_utf8 t" "t \<noteq> []" "read_task verify flt l fs t = (es, None)"
    and "time_ok (to_utc ts)" "\<not> is_zero_time ts" "e \<in> set es" "t_ns (en_ts e) \<le> t_ns ts"
    and "ledger_tail jmsg emsg tmsg (read_since verify flt l fs)
           (marshal_compact (tail_params t (format_rfc3339nano (to_utc ts)))) = ok r"
  shows "e \<notin> set (lt_entries r)"
  using poll_after [OF assms(1-5), of jmsg emsg tmsg] assms(7,8) by auto

section \<open>Concrete polls\<close>

lemma demo_task_valid: "valid_utf8 ''t''" "''t'' \<noteq> []"
  using demo_valid by simp_all

lemma utc_id: "to_utc (time_utc n) = time_utc n"
  by (simp add: to_utc_def time_utc_def)

theorem tail_resumes_witness:
  "\<exists>fs fs' r c. ledger_tail (\<lambda>_. []) (\<lambda>_. []) id (read_since (demo_verify []) no_faults demo_ledger fs) (marshal_compact (tail_params ''t'' [])) = ok r
     \<and> ledger_tail (\<lambda>_. []) (\<lambda>_. []) id (read_since (demo_verify []) no_faults demo_ledger fs') (marshal_compact (tail_params ''t'' (lt_cursor r)))
         = ok \<lparr> lt_entries = [demo_stored demo_later], lt_cursor = c \<rparr>"
proof -
  obtain fs where fs: "read_task (demo_verify []) no_faults demo_ledger fs ''t'' = ([demo_stored demo_entry], None)"
    using demo_log_exists [of "[demo_entry]"] by auto
  obtain fs' where fs': "read_task (demo_verify []) no_faults demo_ledger fs' ''t'' = ([demo_stored demo_entry] @ [demo_stored demo_later], None)"
    using demo_log_exists [of "[demo_entry, demo_later]"] by auto
  obtain r where r: "ledger_tail (\<lambda>_. []) (\<lambda>_. []) id (read_since (demo_verify []) no_faults demo_ledger fs) (marshal_compact (tail_params ''t'' [])) = ok r"
    using poll_first [OF demo_task_valid fs] by auto
  have "\<exists>c. ledger_tail (\<lambda>_. []) (\<lambda>_. []) id (read_since (demo_verify []) no_faults demo_ledger fs') (marshal_compact (tail_params ''t'' (lt_cursor r)))
      = ok \<lparr> lt_entries = [demo_stored demo_later], lt_cursor = c \<rparr>"
    by (rule tail_resumes [OF demo_task_valid fs _ fs' _ _ _ r]) (simp_all add: stored_ts utc_id demo_time_ok demo_not_zero, simp add: time_utc_def)
  with r show ?thesis by blast
qed

theorem tail_loses_ties_witness:
  "\<exists>fs r. read_task (demo_verify []) no_faults demo_ledger fs ''t'' = ([demo_stored demo_entry, demo_stored demo_entry], None)
     \<and> ledger_tail (\<lambda>_. []) (\<lambda>_. []) id (read_since (demo_verify []) no_faults demo_ledger fs)
         (marshal_compact (tail_params ''t'' (format_rfc3339nano (to_utc (time_utc 1704164645500000000))))) = ok r
     \<and> demo_stored demo_entry \<notin> set (lt_entries r)"
proof -
  obtain fs where fs: "read_task (demo_verify []) no_faults demo_ledger fs ''t'' = ([demo_stored demo_entry, demo_stored demo_entry], None)"
    using demo_log_exists [of "[demo_entry, demo_entry]"] by auto
  have ok: "time_ok (to_utc (time_utc 1704164645500000000))" by (simp add: utc_id demo_time_ok)
  obtain r where r: "ledger_tail (\<lambda>_. []) (\<lambda>_. []) id (read_since (demo_verify []) no_faults demo_ledger fs)
         (marshal_compact (tail_params ''t'' (format_rfc3339nano (to_utc (time_utc 1704164645500000000))))) = ok r"
    using poll_after [OF demo_task_valid fs ok demo_not_zero] by auto
  have "demo_stored demo_entry \<notin> set (lt_entries r)"
    by (rule tail_loses_ties [OF demo_task_valid fs ok demo_not_zero _ _ r]) (simp_all add: stored_ts)
  with fs r show ?thesis by blast
qed

end
