(* ===== verification/Ledger_Client.thy ===== *)
theory Ledger_Client
  imports Ledger_Runs Go_Store
begin

declare json_print.simps(3) [simp del]

text \<open>
  What the clients of the ledger share: an append whose error is dropped, as the RPC handlers, the SKU
  routers and the billing emitter write it, what it does to the file system, and what it adds to the
  task's log.
\<close>

text \<open>\<open>_ = led.Append(taskID, e)\<close>, and nothing when there is no ledger.\<close>

definition append_quiet :: "signer \<Rightarrow> faults \<Rightarrow> ledger option \<Rightarrow> gtime \<Rightarrow> string \<Rightarrow> entry \<Rightarrow> fs \<Rightarrow> fs" where
  "append_quiet sign flt led now task e fs =
     (case led of
        None \<Rightarrow> fs
      | Some l \<Rightarrow> (case append_entry sign flt now l fs task e of Inl (_, fs') \<Rightarrow> fs' | Inr fs' \<Rightarrow> fs'))"

section \<open>Effects on files\<close>

text \<open>An append leaves every path alone but the task's file and missing parents of the directory.\<close>

lemma append_quiet_map:
  assumes "q \<noteq> join2 dir (task @ ''.jsonl'')" "case led of None \<Rightarrow> True | Some l \<Rightarrow> l_dir l = dir"
  shows "map_of (append_quiet sign flt led now task e fs) q = map_of fs q
     \<or> q \<in> set (ancestors dir) \<and> map_of fs q = None \<and> is_dir (append_quiet sign flt led now task e fs) q"
proof (cases led)
  case (Some l)
  have mk: "map_of f q = map_of fs q \<or> q \<in> set (ancestors dir) \<and> map_of fs q = None \<and> is_dir f q"
    if "os_mkdir_all flt fs dir mode_0700 = ok f" for f
    using that by (auto simp: os_mkdir_all_fold mkdir_fold is_dir_def split: if_splits option.splits)
  have op: "map_of g q = map_of f q" if "os_open_create flt False f (join2 dir (task @ ''.jsonl'')) mode_0600 = ok g" for f g
    using that assms(1) by (auto simp: os_open_create_def update_conv split: option.splits fnode.splits if_splits)
  have wr: "map_of h q = map_of g q"
    if "os_write flt g (join2 dir (task @ ''.jsonl'')) b = ok h \<or> os_write flt g (join2 dir (task @ ''.jsonl'')) b = err (x, h)" for g h b x
    using os_write_other [OF assms(1)] that by blast
  have td: "l_dir l = dir" "task_path l task = join2 dir (task @ ''.jsonl'')" using assms(2) Some by (simp_all add: task_path_def)
  show ?thesis
  proof (cases "os_mkdir_all flt fs dir mode_0700")
    case (Inl xe)
    obtain x g where xe: "xe = (x, g)" by (cases xe)
    then have "g = fs" using Inl mkdir_all_err [of flt fs dir mode_0700 x g] by simp
    then show ?thesis
      using Some td Inl xe
      by (auto simp: append_quiet_def append_entry_def Let_def simp del: join_path.simps split: option.splits sum.splits prod.splits)
  next
    case (Inr f)
    let ?r = "append_quiet sign flt led now task e fs"
    have "map_of ?r q = map_of f q \<or> ?r = fs"
      using Inr Some td op wr
      by (auto simp: append_quiet_def append_entry_def Let_def simp del: join_path.simps split: option.splits sum.splits prod.splits) metis+
    then show ?thesis using mk [OF Inr] by (auto simp: is_dir_def)
  qed
qed (simp add: append_quiet_def)

section \<open>Effects on the log\<close>

text \<open>A JSON text that the scanner accepts is accepted by the compactor.\<close>

lemma run_compact: "run d st b = Some st' \<Longrightarrow> scan_eof d st' \<Longrightarrow> compact_run d st b \<noteq> None"
proof (induction d st b rule: compact_run.induct)
  case (2 lim st c cs)
  then obtain op st1 where st1: "step_char lim st c = Some (op, st1)" "run lim st1 cs = Some st'"
    by (auto split: option.splits)
  have split: "run lim st1 (take 2 cs @ drop 2 cs) = Some st'" using st1(2) by simp
  have app: "run lim s (a @ b) = (case run lim s a of None \<Rightarrow> None | Some s' \<Rightarrow> run lim s' b)" for s a b
    by (induction a arbitrary: s) (auto split: option.splits)
  show ?case
    using 2 st1 split unfolding app by (cases st1) (auto split: option.splits)
qed simp

lemma parts_accepts: "parts_run d st cur b \<noteq> None \<Longrightarrow> \<exists>st'. run d st b = Some st' \<and> scan_eof d st'"
  by (induction d st cur b rule: parts_run.induct) (auto split: option.splits if_splits)

lemma raw_ok_obj:
  assumes "list_all (\<lambda>kv. jcomplete d (snd kv)) kvs" "Suc d \<le> lim"
  shows "raw_ok lim (json_print (JObj kvs))"
proof -
  have "parts_run lim (SBeginValue, []) [] (json_print (JObj kvs)) \<noteq> None"
    unfolding json_print_obj
    by (subst parts_obj [where d = d]) (use assms jcomplete_print in \<open>fastforce simp: list_all_iff\<close>)+
  then show ?thesis using parts_accepts run_compact unfolding raw_ok_def by blast
qed

lemma compact_length: "compact_run d st b = Some out \<Longrightarrow> length out \<le> 6 * length b"
proof (induction d st b arbitrary: out rule: compact_run.induct)
  case (2 lim st c cs)
  then show ?case
    by (fastforce simp: u00_def u202_def split: option.splits if_splits)
qed (simp split: if_splits)

lemma canon_data_length:
  assumes "en_data e = [] \<or> raw_ok (max_nesting - 1) (en_data e)"
  shows "length (en_data (canon_entry e)) \<le> 6 * length (en_data e)"
proof (cases "en_data e = []")
  case False
  then obtain out where "json_compact (en_data e) = Some out" using assms raw_ok_compact [of "max_nesting - 1" "en_data e"] by auto
  then show ?thesis using False compact_length by (simp add: canon_entry_def json_compact_def)
qed (simp add: canon_entry_def)

text \<open>A ledger that is ready for appends.\<close>

definition ledger_ready :: "signer \<Rightarrow> verifier \<Rightarrow> ledger \<Rightarrow> fs \<Rightarrow> bool" where
  "ledger_ready sign verify l fs \<longleftrightarrow> writer_ok sign verify l \<and> ledger_inv verify l fs \<and> dir_free l fs"

text \<open>Entries that fit a line: well-formed and at most 9000 bytes of text and data.\<close>

definition small_entry :: "string \<Rightarrow> entry \<Rightarrow> bool" where
  "small_entry task e \<longleftrightarrow> time_ok (en_ts e) \<and> in_int64 (en_duration_ms e)
     \<and> list_all valid_utf8 [task, en_task_id e, en_tenant_id e, en_phase e, en_action e, en_result e, en_stderr_tail e, en_stdout_tail e]
     \<and> (en_data e = [] \<or> raw_ok (max_nesting - 1) (en_data e))
     \<and> length task + length (en_task_id e) + length (en_tenant_id e) + length (en_phase e) + length (en_action e) + length (en_result e)
         + length (en_stderr_tail e) + length (en_stdout_tail e) + length (en_data e) \<le> 9000"

text \<open>Names that fit a ledger line.\<close>

definition short_name :: "string \<Rightarrow> bool" where
  "short_name s \<longleftrightarrow> valid_utf8 s \<and> length s \<le> 1000"

lemma small_entry_legal:
  assumes "writer_ok sign verify l" "small_entry task e" "time_ok (to_utc now)"
  shows "legal_append sign l task (flt, now, e)"
proof -
  obtain priv where priv: "l_priv l = Some priv" "\<And>m. length (sign priv m) = signature_size"
    using assms(1) by (auto simp: writer_ok_def)
  let ?e = "stamp_entry now task e"
  have ts: "time_ok (en_ts ?e)" using assms(2,3) by (auto simp: small_entry_def stamp_entry_def)
  have ok: "entry_ok ?e" using assms(2) ts by (auto simp: small_entry_def entry_ok_def stamp_entry_def)
  have "length (itoa (en_duration_ms e)) \<le> 20" using assms(2) itoa_int64_length by (simp add: small_entry_def)
  moreover have "length (en_data (canon_entry ?e)) \<le> 6 * length (en_data e)"
    using canon_data_length [of ?e] ok by (auto simp: entry_ok_def stamp_entry_def)
  ultimately show ?thesis
    using assms(2) by (intro legal_append_small [where priv = priv, OF priv(1) _ ok] priv(2)) (auto simp: small_entry_def text_length_def stamp_entry_def)
qed

lemma append_ready:
  assumes "ledger_ready sign verify l fs" "SLASH \<notin> set task" "legal_append sign l task (no_faults, now, e)"
  obtains fs' where "append_entry sign no_faults now l fs task e = ok fs'" "ledger_ready sign verify l fs'"
    "ledger_get verify l fs' task = ledger_get verify l fs task @ [stored_entry sign l now task e]"
    "\<And>other. SLASH \<notin> set other \<Longrightarrow> other \<noteq> task \<Longrightarrow> ledger_get verify l fs' other = ledger_get verify l fs other"
proof -
  have w: "writer_ok sign verify l" "ledger_inv verify l fs" "dir_free l fs" using assms(1) by (auto simp: ledger_ready_def)
  have "rest_ok (stamp_entry now task e)" using assms(3) by (auto simp: legal_append_def entry_ok_rest)
  then obtain fs' where a: "append_entry sign no_faults now l fs task e = ok fs'" "dir_free l fs'"
    using append_succeeds [OF w(1) assms(2) w(3)] by blast
  have ap: "ledger_append sign l (task, no_faults, now, e) fs = Some fs'" using a(1) by (simp add: ledger_append_def)
  show ?thesis
  proof (rule that [OF a(1)])
    show "ledger_ready sign verify l fs'"
      unfolding ledger_ready_def using w a(2) ledger_append_inv [OF w(2,1) assms(2,3) a(1)] by simp
    show "ledger_get verify l fs' task = ledger_get verify l fs task @ [stored_entry sign l now task e]"
      using ledger_log.app_same [of sign verify l fs task "(no_faults, now, e)" fs'] w ap assms(2,3) by simp
    show "ledger_get verify l fs' other = ledger_get verify l fs other" if "SLASH \<notin> set other" "other \<noteq> task" for other
      using ledger_log.app_other [of sign verify l fs task "(no_faults, now, e)" fs' other] w ap assms(2,3) that by simp
  qed
qed

lemma append_quiet_log:
  assumes "ledger_ready sign verify l fs" "SLASH \<notin> set task" "legal_append sign l task (no_faults, now, e)"
  shows "ledger_ready sign verify l (append_quiet sign no_faults (Some l) now task e fs)"
    "ledger_get verify l (append_quiet sign no_faults (Some l) now task e fs) task = ledger_get verify l fs task @ [stored_entry sign l now task e]"
  by (rule append_ready [OF assms], simp add: append_quiet_def)+

end
