(* ===== verification/Submit_Job.thy ===== *)
theory Submit_Job
  imports Rpc_Server Ledger_Client Cancel_Task
begin

text \<open>
  The handler \<open>fleet.SubmitJob\<close>, \<open>internal/rpc/submitjob.go\<close>: validation, the persisted map
  from cloud job to task, the ledger trail and the registry of cancel functions around the dispatch of
  a SKU router.  A router is a record with its \<open>Dispatch\<close>, a function of the task, the tenant, the
  inputs and the file system, and whether it is long-running.  A task's cancel function is named by
  the task.  The texts of errors and the conversion of JSON numbers are arguments.
\<close>

section \<open>Inputs\<close>

text \<open>The dynamic values of an inputs map.  A \<open>float64\<close> is only ever converted to an integer and
  is represented by that integer.\<close>

datatype goval = GString string | GSlice nat | GStrings nat | GFloat int | GInt int | GInt64 int | GOther

definition goval_of :: "(bytes \<Rightarrow> int) \<Rightarrow> bytes \<Rightarrow> goval" where
  "goval_of f64 v =
     (case v of
        [] \<Rightarrow> GOther
      | c # _ \<Rightarrow>
          if c = DQ then (case json_unquote v of Some s \<Rightarrow> GString s | None \<Rightarrow> GOther)
          else if c = CHR ''['' then (case json_elems v of Inr es \<Rightarrow> GSlice (length es) | Inl _ \<Rightarrow> GOther)
          else if is_digit c \<or> c = CHR ''-'' then GFloat (f64 v) else GOther)"

type_synonym inputs = "(string \<times> goval) list"

text \<open>A JSON object into a map: the last member of a key wins.\<close>

definition dec_inputs :: "(bytes \<Rightarrow> int) \<Rightarrow> inputs decoder" where
  "dec_inputs f64 v z =
     (case json_members v of Inl e \<Rightarrow> err e | Inr ms \<Rightarrow> ok (rev (map (\<lambda>(k, x). (k, goval_of f64 x)) ms)))"

record submit_params =
  sp_tenant_id :: string
  sp_sku :: string
  sp_cloud_job_id :: string
  sp_inputs :: inputs

definition submit_params_of_members :: "(bytes \<Rightarrow> int) \<Rightarrow> members \<Rightarrow> (json_err, submit_params) result" where
  "submit_params_of_members f64 ms =
     (case get_field dec_string [] ms ''tenant_id'' of Inl x \<Rightarrow> err x | Inr t \<Rightarrow>
     (case get_field dec_string [] ms ''sku'' of Inl x \<Rightarrow> err x | Inr s \<Rightarrow>
     (case get_field dec_string [] ms ''cloud_job_id'' of Inl x \<Rightarrow> err x | Inr c \<Rightarrow>
     (case get_field (dec_inputs f64) [] ms ''inputs'' of Inl x \<Rightarrow> err x | Inr i \<Rightarrow>
        ok \<lparr> sp_tenant_id = t, sp_sku = s, sp_cloud_job_id = c, sp_inputs = i \<rparr>))))"

record submit_result =
  sr_task_id :: string

section \<open>Routers\<close>

record router =
  rt_dispatch :: "string \<Rightarrow> string \<Rightarrow> inputs \<Rightarrow> fs \<Rightarrow> herr option \<times> fs"
  rt_long_running :: bool

definition is_long_running :: "router \<Rightarrow> bool" where
  "is_long_running r = rt_long_running r"

record submit_handler =
  sj_ledger :: "ledger option"
  sj_dir :: path
  sj_routers :: "(string \<times> router) list"

definition idempotency_path :: "path \<Rightarrow> path" where
  "idempotency_path dir = join2 dir ''.cloud-jobs.json''"

definition new_submit_handler :: "ledger option \<Rightarrow> path \<Rightarrow> submit_handler" where
  "new_submit_handler led dir = \<lparr> sj_ledger = led, sj_dir = dir, sj_routers = [] \<rparr>"

definition register_sku :: "submit_handler \<Rightarrow> string \<Rightarrow> router option \<Rightarrow> (register_err, submit_handler) result" where
  "register_sku h sku r =
     (if sku = [] then err EmptyMethod
      else (case r of
              None \<Rightarrow> err NilHandler
            | Some x \<Rightarrow> if map_of (sj_routers h) sku \<noteq> None then err DuplicateMethod
                        else ok (h\<lparr>sj_routers := (sku, x) # sj_routers h\<rparr>)))"

section \<open>The map from cloud job to task\<close>

datatype cj_err = CjIO ioerr | CjParse json_err | CjPanic

text \<open>\<open>None\<close> is the nil map that the JSON text \<open>null\<close> gives; assigning to it panics.\<close>

definition dec_job_map :: "bytes \<Rightarrow> (json_err, (string \<times> string) list option) result" where
  "dec_job_map b =
     (case json_members b of
        Inl e \<Rightarrow> err e
      | Inr ms \<Rightarrow>
          if hd (trim_ws b) = CHR ''n'' then ok None
          else (case map_result (\<lambda>(k, v). case dec_string v [] of Inl e \<Rightarrow> err e | Inr s \<Rightarrow> ok (k, s)) ms of
                  Inl e \<Rightarrow> err e
                | Inr kvs \<Rightarrow> ok (Some (foldl (\<lambda>m (k, v). AList.update k v m) [] kvs))))"

definition read_cloud_job_map :: "faults \<Rightarrow> fs \<Rightarrow> path \<Rightarrow> (cj_err, (string \<times> string) list option) result" where
  "read_cloud_job_map flt fs p =
     (case os_read_file flt fs p of
        Inl NotExist \<Rightarrow> ok (Some [])
      | Inl e \<Rightarrow> err (CjIO e)
      | Inr b \<Rightarrow> if b = [] then ok (Some [])
                 else (case dec_job_map b of Inl e \<Rightarrow> err (CjParse e) | Inr m \<Rightarrow> ok m))"

definition job_map_tree :: "(string \<times> string) list \<Rightarrow> (bytes \<times> jtree) list" where
  "job_map_tree m = map (\<lambda>(k, v). (k, JStr v)) (sort_key fst m)"

definition write_cloud_job_map :: "faults \<Rightarrow> fs \<Rightarrow> path \<Rightarrow> (string \<times> string) list \<Rightarrow> (cj_err \<times> fs, fs) result" where
  "write_cloud_job_map flt fs p m =
     (case os_mkdir_all flt fs (dir_path p) mode_0700 of
        Inl (e, fs1) \<Rightarrow> err (CjIO e, fs1)
      | Inr fs1 \<Rightarrow>
          (case os_write_file flt fs1 (tmp_of p) (marshal_indent (job_map_tree m)) mode_0600 of
             Inl (e, fs2) \<Rightarrow> err (CjIO e, fs2)
           | Inr fs2 \<Rightarrow> (case os_rename flt fs2 (tmp_of p) p of Inl e \<Rightarrow> err (CjIO e, fs2) | Inr fs3 \<Rightarrow> ok fs3)))"

definition lookup_cloud_job :: "faults \<Rightarrow> path \<Rightarrow> fs \<Rightarrow> string \<Rightarrow> string option" where
  "lookup_cloud_job flt dir fs cj =
     (case read_cloud_job_map flt fs (idempotency_path dir) of
        Inl _ \<Rightarrow> None
      | Inr None \<Rightarrow> None
      | Inr (Some m) \<Rightarrow> map_of m cj)"

definition record_cloud_job :: "faults \<Rightarrow> path \<Rightarrow> fs \<Rightarrow> string \<Rightarrow> string \<Rightarrow> (cj_err \<times> fs, fs) result" where
  "record_cloud_job flt dir fs cj task =
     (case read_cloud_job_map flt fs (idempotency_path dir) of
        Inr None \<Rightarrow> err (CjPanic, fs)
      | Inl _ \<Rightarrow> write_cloud_job_map flt fs (idempotency_path dir) [(cj, task)]
      | Inr (Some m) \<Rightarrow> write_cloud_job_map flt fs (idempotency_path dir) (AList.update cj task m))"

text \<open>\<open>task-\<close> and the hex of eight random bytes, or the clock when the random source fails.\<close>

definition hex_lower :: "bytes \<Rightarrow> string" where
  "hex_lower b = concat (map (\<lambda>c. [hex_digit (byte c div 16), hex_digit (byte c mod 16)]) b)"

definition default_new_task_id :: "(nat \<Rightarrow> (string, bytes) result) \<Rightarrow> gtime \<Rightarrow> string" where
  "default_new_task_id rnd now =
     (case rnd 8 of Inl _ \<Rightarrow> ''task-'' @ itoa (t_ns now) | Inr b \<Rightarrow> ''task-'' @ hex_lower b)"

section \<open>The handler\<close>

record submit_state =
  ss_fs :: fs
  ss_reg :: "string rr_map"
  ss_calls :: "string list"

definition submit_entry :: "gtime \<Rightarrow> string \<Rightarrow> string \<Rightarrow> string \<Rightarrow> string \<Rightarrow> bytes \<Rightarrow> string \<Rightarrow> entry" where
  "submit_entry ts task tenant action res dat stderr =
     zero_entry\<lparr> en_ts := ts, en_task_id := task, en_tenant_id := tenant, en_phase := ''submit'', en_action := action,
       en_result := res, en_data := dat, en_stderr_tail := stderr \<rparr>"

definition submit_data :: "submit_params \<Rightarrow> bytes" where
  "submit_data p = marshal_compact [(''cloud_job_id'', JStr (sp_cloud_job_id p)), (''sku'', JStr (sp_sku p))]"

datatype submit_err = SErr herr | SPanic

text \<open>What the outside world supplies to one call: faults, clock, error texts, number conversion,
  signatures and the new task identifier.\<close>

record submit_env =
  se_sign :: signer
  se_flt :: faults
  se_clk :: "nat \<Rightarrow> gtime"
  se_jmsg :: "json_err \<Rightarrow> string"
  se_cmsg :: "cj_err \<Rightarrow> string"
  se_f64 :: "bytes \<Rightarrow> int"
  se_task :: string

abbreviation invalid_params :: "string \<Rightarrow> submit_err" where
  "invalid_params m \<equiv> SErr (HRpc (new_error code_invalid_params m))"

definition submit_job ::
  "submit_env \<Rightarrow> submit_handler \<Rightarrow> bytes \<Rightarrow> submit_state \<Rightarrow> (submit_err, submit_result) result \<times> submit_state" where
  "submit_job env h raw s =
     (case unmarshal_with (submit_params_of_members (se_f64 env)) raw of
        Inl x \<Rightarrow> (err (invalid_params (''parse params: '' @ se_jmsg env x)), s)
      | Inr p \<Rightarrow>
          if sp_tenant_id p = [] then (err (invalid_params ''tenant_id is required''), s)
          else if sp_sku p = [] then (err (invalid_params ''sku is required''), s)
          else if sp_cloud_job_id p = [] then (err (invalid_params ''cloud_job_id is required''), s)
          else (case lookup_cloud_job (se_flt env) (sj_dir h) (ss_fs s) (sp_cloud_job_id p) of
                  Some t \<Rightarrow> (ok \<lparr> sr_task_id = t \<rparr>, s)
                | None \<Rightarrow>
                    (case map_of (sj_routers h) (sp_sku p) of
                       None \<Rightarrow> (err (invalid_params (''unknown sku: '' @ sp_sku p)), s)
                     | Some r \<Rightarrow>
                         (let task = se_task env;
                              log = append_quiet (se_sign env) (se_flt env) (sj_ledger h);
                              fs1 = log (se_clk env 1) task
                                      (submit_entry (se_clk env 0) task (sp_tenant_id p) ''fleet.SubmitJob'' result_ok (submit_data p) []) (ss_fs s)
                          in case record_cloud_job (se_flt env) (sj_dir h) fs1 (sp_cloud_job_id p) task of
                               Inl (CjPanic, fs2) \<Rightarrow> (err SPanic, s\<lparr>ss_fs := fs2\<rparr>)
                             | rec \<Rightarrow>
                                 (let fs2 = (case rec of
                                        Inl (e, f) \<Rightarrow> log (se_clk env 3) task (submit_entry (se_clk env 2) task (sp_tenant_id p)
                                                          ''idempotency-persist-failed'' result_error [] (se_cmsg env e)) f
                                      | Inr f \<Rightarrow> f);
                                      reg1 = rr_register (ss_reg s) task (Some task)
                                  in case rt_dispatch r task (sp_tenant_id p) (sp_inputs p) fs2 of
                                       (Some e, fs3) \<Rightarrow>
                                         (err (SErr (case e of HRpc x \<Rightarrow> HRpc x
                                                     | HPlain m \<Rightarrow> HRpc (new_error code_internal_error (''dispatch: '' @ m)))),
                                          s\<lparr> ss_fs := log (se_clk env 5) task (submit_entry (se_clk env 4) task (sp_tenant_id p)
                                                 ''dispatch-failed'' result_error [] (herr_text e)) fs3,
                                             ss_reg := rr_unregister reg1 task, ss_calls := ss_calls s @ [task] \<rparr>)
                                     | (None, fs3) \<Rightarrow>
                                         (ok \<lparr> sr_task_id = task \<rparr>,
                                          if is_long_running r then s\<lparr> ss_fs := fs3, ss_reg := reg1 \<rparr>
                                          else s\<lparr> ss_fs := fs3, ss_reg := rr_unregister reg1 task, ss_calls := ss_calls s @ [task] \<rparr>))))))"

section \<open>The shell delegate\<close>

definition input_string :: "inputs \<Rightarrow> string \<Rightarrow> string" where
  "input_string i k = (case map_of i k of Some (GString x) \<Rightarrow> x | _ \<Rightarrow> [])"

definition delegate_entry :: "gtime \<Rightarrow> string \<Rightarrow> string \<Rightarrow> string \<Rightarrow> string \<Rightarrow> string \<Rightarrow> entry" where
  "delegate_entry ts task tenant action res stderr =
     zero_entry\<lparr> en_ts := ts, en_task_id := task, en_tenant_id := tenant, en_phase := ''delegate'', en_action := action,
       en_result := res, en_stderr_tail := stderr \<rparr>"

text \<open>The entries of the delegate are stamped with the task and the tenant; \<open>clk n\<close> and
  \<open>clk (n + 1)\<close> are the readings for the \<open>n\<close>-th entry.\<close>

fun append_all :: "signer \<Rightarrow> faults \<Rightarrow> ledger option \<Rightarrow> (nat \<Rightarrow> gtime) \<Rightarrow> nat \<Rightarrow> string \<Rightarrow> string \<Rightarrow> entry list \<Rightarrow> fs \<Rightarrow> fs" where
  "append_all sign flt led clk n task tenant [] fs = fs"
| "append_all sign flt led clk n task tenant (e # es) fs =
     append_all sign flt led clk (n + 2) task tenant es
       (append_quiet sign flt led (clk (n + 1)) task
          (e\<lparr> en_task_id := task, en_tenant_id := tenant, en_ts := (if is_zero_time (en_ts e) then clk n else en_ts e) \<rparr>) fs)"

text \<open>\<open>delegate node cmd\<close> returns the entries of the run and its transport error; \<open>None\<close> is
  the nil function.\<close>

definition shell_delegate_dispatch ::
  "signer \<Rightarrow> faults \<Rightarrow> (nat \<Rightarrow> gtime) \<Rightarrow> ledger option \<Rightarrow> (string \<Rightarrow> string \<Rightarrow> entry list \<times> herr option) option
     \<Rightarrow> string \<Rightarrow> string \<Rightarrow> inputs \<Rightarrow> fs \<Rightarrow> herr option \<times> fs" where
  "shell_delegate_dispatch sign flt clk led delegate task tenant i fs =
     (let node = input_string i ''node''; cmd = input_string i ''cmd'' in
      if node = [] then (Some (HRpc (new_error code_invalid_params ''delegate.shell.v1: inputs.node is required'')), fs)
      else if cmd = [] then (Some (HRpc (new_error code_invalid_params ''delegate.shell.v1: inputs.cmd is required'')), fs)
      else (case delegate of
              None \<Rightarrow> (Some (HRpc (new_error code_internal_error ''delegate.shell.v1: no Delegate func registered'')), fs)
            | Some runf \<Rightarrow>
                (let fs1 = append_quiet sign flt led (clk 1) task (delegate_entry (clk 0) task tenant (''dispatch:'' @ node) result_ok []) fs
                 in case runf node cmd of
                      (es, e) \<Rightarrow>
                        (let fs2 = append_all sign flt led clk 4 task tenant es fs1
                         in case e of
                              None \<Rightarrow> (None, fs2)
                            | Some x \<Rightarrow> (Some x, append_quiet sign flt led (clk 3) task
                                (delegate_entry (clk 2) task tenant (''transport-error:'' @ node) result_error (herr_text x)) fs2)))))"

section \<open>The persisted map\<close>

lemma idempotency_eq: "proper_dir dir \<Longrightarrow> idempotency_path dir = dir @ SLASH # ''.cloud-jobs.json''"
  unfolding idempotency_path_def by (rule join2_child) (simp_all add: plain_name_def)

lemma update_valid:
  "list_all (\<lambda>(k, v). P k \<and> Q v) m \<Longrightarrow> P k \<Longrightarrow> Q v \<Longrightarrow> list_all (\<lambda>(k, v). P k \<and> Q v) (AList.update k v m)"
  by (induction m) auto

definition map_valid :: "(string \<times> string) list \<Rightarrow> bool" where
  "map_valid m \<longleftrightarrow> distinct (map fst m) \<and> list_all (\<lambda>(k, v). valid_utf8 k \<and> valid_utf8 v) m"

lemma foldl_update_rebuild:
  "distinct (map fst (a @ b)) \<Longrightarrow> foldl (\<lambda>m (k, v). AList.update k v m) a b = a @ b"
proof (induction b arbitrary: a)
  case (Cons kv b)
  obtain k v where kv: "kv = (k, v)" by (cases kv)
  have "AList.update k v a = a @ [(k, v)]"
    using Cons.prems by (induction a) (auto simp: kv)
  then show ?case using Cons kv by simp
qed simp

lemma job_map_roundtrip:
  assumes "map_valid m" "m \<noteq> []"
  shows "dec_job_map (marshal_indent (job_map_tree m)) = ok (Some (sort_key fst m))"
proof -
  let ?s = "sort_key fst m"
  have v: "\<And>k v. (k, v) \<in> set ?s \<Longrightarrow> valid_utf8 k \<and> valid_utf8 v" using assms(1) by (auto simp: map_valid_def list_all_iff)
  have d: "distinct (map fst ?s)"
    using assms(1) by (simp add: map_valid_def distinct_map)
  have ne: "job_map_tree m \<noteq> []" using assms(2) by (metis job_map_tree_def length_0_conv length_map length_sort)
  have c: "list_all (\<lambda>kv. jcomplete 1 (snd kv)) (job_map_tree m)" by (auto simp: job_map_tree_def list_all_iff)
  have two: "Suc 1 \<le> max_nesting" by (simp add: max_nesting_def)
  have "json_members (marshal_indent (job_map_tree m)) = ok (map (\<lambda>(k, t). (coerce k, json_indent (Suc 0) t)) (job_map_tree m))"
    by (rule json_members_indent [OF c two ne])
  also have "map (\<lambda>(k, t). (coerce k, json_indent (Suc 0) t)) (job_map_tree m) = map (\<lambda>(k, v). (k, json_quote v)) ?s"
    using v by (auto simp: job_map_tree_def valid_utf8_def)
  finally have ms: "json_members (marshal_indent (job_map_tree m)) = ok (map (\<lambda>(k, v). (k, json_quote v)) ?s)" .
  have r: "map_result (\<lambda>(k, v). case dec_string v [] of Inl e \<Rightarrow> err e | Inr x \<Rightarrow> ok (k, x)) (map (\<lambda>(k, v). (k, json_quote v)) ?s) = ok ?s"
    using map_result_ok [of ?s "\<lambda>(k, v). case dec_string v [] of Inl e \<Rightarrow> err e | Inr x \<Rightarrow> ok (k, x)" "\<lambda>(k, v). (k, json_quote v)" id] v
    by (fastforce simp: valid_utf8_def)
  have "hd (trim_ws (marshal_indent (job_map_tree m))) = CHR ''{''"
    unfolding json_indent_obj [OF ne] using trim_ws_obj by (metis list.sel(1))
  then show ?thesis
    using ms r foldl_update_rebuild [of "[]" ?s] d by (simp add: dec_job_map_def)
qed

text \<open>Nothing stands in the way of the map's file, and what it holds is a map of proper strings.\<close>

definition jobs_ok :: "path \<Rightarrow> fs \<Rightarrow> bool" where
  "jobs_ok dir fs \<longleftrightarrow> is_dir fs dir \<and> \<not> list_ex (is_file fs) (ancestors dir)
     \<and> \<not> is_dir fs (idempotency_path dir) \<and> \<not> is_dir fs (tmp_of (idempotency_path dir))
     \<and> (\<exists>m. read_cloud_job_map no_faults fs (idempotency_path dir) = ok (Some m) \<and> map_valid m)"

lemma jobs_dirs:
  assumes "proper_dir dir"
  shows "dir_path (idempotency_path dir) = dir" "dir_path (tmp_of (idempotency_path dir)) = dir" "dir \<noteq> tmp_of (idempotency_path dir)"
    "dir \<noteq> idempotency_path dir"
  using dir_path_child [OF assms, of "''.cloud-jobs.json''"] dir_path_child [OF assms, of "''.cloud-jobs.json.tmp''"]
  by (auto simp: idempotency_eq [OF assms] tmp_of_def plain_name_def)

lemma write_map_ok:
  assumes "proper_dir dir" "jobs_ok dir fs" "map_valid m" "m \<noteq> []"
  shows "\<exists>fs'. write_cloud_job_map no_faults fs (idempotency_path dir) m = ok fs'
     \<and> read_cloud_job_map no_faults fs' (idempotency_path dir) = ok (Some (sort_key fst m))"
proof -
  let ?p = "idempotency_path dir"
  note d = jobs_dirs [OF assms(1)]
  obtain fs1 where mk: "os_mkdir_all no_faults fs dir mode_0700 = ok fs1"
    using assms(2) by (auto simp: os_mkdir_all_def jobs_ok_def)
  have f1: "is_dir fs1 dir" by (rule mkdir_all_ok(1) [OF mk assms(1)])
  have nd: "\<not> is_dir fs1 q" if "length dir < length q" "\<not> is_dir fs q" for q
  proof -
    have "q \<notin> set (ancestors dir)" using ancestors_length [OF assms(1)] that(1) by fastforce
    then have "map_of fs1 q = map_of fs q" using mk by (auto simp: os_mkdir_all_fold mkdir_fold split: if_splits)
    then show ?thesis using that(2) by (simp add: is_dir_def)
  qed
  have l: "length dir < length ?p" "length dir < length (tmp_of ?p)" by (simp_all add: idempotency_eq [OF assms(1)] tmp_of_def)
  have p: "\<not> is_dir fs1 ?p" "\<not> is_dir fs1 (tmp_of ?p)"
    using nd [OF l(1)] nd [OF l(2)] assms(2) by (simp_all add: jobs_ok_def)
  obtain fs2 where w: "os_write_file no_faults fs1 (tmp_of ?p) (marshal_indent (job_map_tree m)) mode_0600 = ok fs2"
    using write_file_succeeds [of fs1 "tmp_of ?p"] d f1 p by metis
  have same: "map_of fs2 q = map_of fs1 q" if "q \<noteq> tmp_of ?p" for q by (rule write_file_other [OF disjI1 [OF w] that])
  have t: "file_data fs2 (tmp_of ?p) = Some (marshal_indent (job_map_tree m))" by (rule write_file_ok [OF w])
  then have "map_of fs2 (tmp_of ?p) \<noteq> None" by (auto simp: file_data_def split: option.splits)
  then obtain fs3 where r: "os_rename no_faults fs2 (tmp_of ?p) ?p = ok fs3"
    using f1 p(1) d same [of ?p] same [of dir] by (auto simp: os_rename_def is_dir_def)
  have "file_data fs3 ?p = Some (marshal_indent (job_map_tree m))"
    using t os_rename_ok(1) [OF r tmp_neq(1)] by (simp add: file_data_def)
  then have "read_cloud_job_map no_faults fs3 ?p = ok (Some (sort_key fst m))"
    using job_map_roundtrip [OF assms(3,4)] by (simp add: read_cloud_job_map_def file_data_read del: json_indent.simps) (simp split: if_splits)
  then show ?thesis using mk w r d(1) by (auto simp: write_cloud_job_map_def)
qed

lemma sort_map_of: "distinct (map fst m) \<Longrightarrow> map_of (sort_key fst m) = map_of m"
  by (rule map_of_inject_set [THEN iffD2]) (simp_all add: distinct_map)

lemma record_lookup:
  assumes "proper_dir dir" "jobs_ok dir fs" "valid_utf8 cj" "valid_utf8 task"
  shows "\<exists>fs'. record_cloud_job no_faults dir fs cj task = ok fs' \<and> lookup_cloud_job no_faults dir fs' cj = Some task
     \<and> (\<forall>c. c \<noteq> cj \<longrightarrow> lookup_cloud_job no_faults dir fs' c = lookup_cloud_job no_faults dir fs c)"
proof -
  obtain m where m: "read_cloud_job_map no_faults fs (idempotency_path dir) = ok (Some m)" "map_valid m"
    using assms(2) by (auto simp: jobs_ok_def)
  let ?m = "AList.update cj task m"
  have v: "map_valid ?m" "?m \<noteq> []"
    using m(2) assms(3,4) by (auto simp: map_valid_def distinct_update update_valid update_nonempty)
  then obtain fs' where w: "write_cloud_job_map no_faults fs (idempotency_path dir) ?m = ok fs'"
    "read_cloud_job_map no_faults fs' (idempotency_path dir) = ok (Some (sort_key fst ?m))"
    using write_map_ok [OF assms(1,2)] by blast
  moreover have "map_of (sort_key fst ?m) = map_of ?m" using v(1) by (intro sort_map_of) (simp add: map_valid_def)
  ultimately show ?thesis using m(1) by (auto simp: record_cloud_job_def lookup_cloud_job_def update_conv)
qed

section \<open>The ledger beside the map\<close>

text \<open>Such a change keeps the map readable and what it says.\<close>

definition beside :: "path \<Rightarrow> fs \<Rightarrow> fs \<Rightarrow> bool" where
  "beside dir fs fs' \<longleftrightarrow> (\<forall>q \<in> insert dir (set (ancestors dir)) \<union> {idempotency_path dir, tmp_of (idempotency_path dir)}.
     map_of fs' q = map_of fs q \<or> q \<in> set (ancestors dir) \<and> map_of fs q = None \<and> is_dir fs' q)"

lemma jobs_path_not_ancestor:
  assumes "proper_dir dir"
  shows "idempotency_path dir \<notin> set (ancestors dir)" "tmp_of (idempotency_path dir) \<notin> set (ancestors dir)"
  using ancestors_length [OF assms] by (fastforce simp: idempotency_eq [OF assms] tmp_of_def)+

lemma beside_lookup:
  assumes "proper_dir dir" "map_of fs' (idempotency_path dir) = map_of fs (idempotency_path dir)"
  shows "read_cloud_job_map flt fs' (idempotency_path dir) = read_cloud_job_map flt fs (idempotency_path dir)"
    "lookup_cloud_job flt dir fs' cj = lookup_cloud_job flt dir fs cj"
  using os_read_file_cong [OF assms(2)] by (simp_all add: read_cloud_job_map_def lookup_cloud_job_def)

lemma beside_jobs_ok:
  assumes "proper_dir dir" "beside dir fs fs'" "jobs_ok dir fs"
  shows "jobs_ok dir fs'"
proof -
  note na = jobs_path_not_ancestor [OF assms(1)]
  have p: "map_of fs' (idempotency_path dir) = map_of fs (idempotency_path dir)"
    "map_of fs' (tmp_of (idempotency_path dir)) = map_of fs (tmp_of (idempotency_path dir))"
    using assms(2) na by (auto simp: beside_def)
  have "is_dir fs' dir" using assms(2,3) by (auto simp: beside_def jobs_ok_def is_dir_def)
  moreover have "\<not> is_file fs' q" if "q \<in> set (ancestors dir)" for q
  proof -
    have "map_of fs' q = map_of fs q \<or> is_dir fs' q" "\<not> is_file fs q"
      using that assms(2,3) by (auto simp: beside_def jobs_ok_def list_ex_iff)
    then show ?thesis by (cases "map_of fs' q = map_of fs q") (auto simp: is_file_def is_dir_def split: option.splits fnode.splits)
  qed
  ultimately show ?thesis
    using assms(3) p beside_lookup(1) [OF assms(1) p(1)] by (auto simp: jobs_ok_def list_ex_iff is_dir_def)
qed

lemma append_beside:
  assumes "proper_dir dir" "SLASH \<notin> set task" "case led of None \<Rightarrow> True | Some l \<Rightarrow> l_dir l = dir"
  shows "beside dir fs (append_quiet sign flt led now task e fs)"
    "map_of (append_quiet sign flt led now task e fs) (idempotency_path dir) = map_of fs (idempotency_path dir)"
proof -
  have pn: "plain_name (task @ ''.jsonl'')" using assms(2) by (auto simp: plain_name_def append_eq_Cons_conv)
  define tp where "tp = join2 dir (task @ ''.jsonl'')"
  have t: "tp = dir @ SLASH # task @ ''.jsonl''" unfolding tp_def by (rule join2_child [OF assms(1) pn])
  have "last tp = CHR ''l''" "last (idempotency_path dir) = CHR ''n''" "last (tmp_of (idempotency_path dir)) = CHR ''p''"
    unfolding t idempotency_eq [OF assms(1)] tmp_of_def by simp_all
  then have n: "idempotency_path dir \<noteq> tp" "tmp_of (idempotency_path dir) \<noteq> tp" by auto
  have "q \<noteq> tp" if "q \<in> insert dir (set (ancestors dir)) \<union> {idempotency_path dir, tmp_of (idempotency_path dir)}" for q
  proof (cases "q \<in> insert dir (set (ancestors dir))")
    case True
    then have "length q \<le> length dir" using ancestors_length [OF assms(1)] by blast
    then show ?thesis unfolding t by auto
  next
    case False
    then show ?thesis using that n by blast
  qed
  then show "beside dir fs (append_quiet sign flt led now task e fs)"
    unfolding beside_def tp_def by (intro ballI append_quiet_map [OF _ assms(3)]) 
  then show "map_of (append_quiet sign flt led now task e fs) (idempotency_path dir) = map_of fs (idempotency_path dir)"
    using jobs_path_not_ancestor [OF assms(1)] by (auto simp: beside_def)
qed

section \<open>Submission\<close>

text \<open>A request that passes the checks: its parameters are complete and its SKU is registered.\<close>

definition accepted :: "submit_env \<Rightarrow> submit_handler \<Rightarrow> bytes \<Rightarrow> submit_params \<Rightarrow> router \<Rightarrow> bool" where
  "accepted env h raw p r \<longleftrightarrow> unmarshal_with (submit_params_of_members (se_f64 env)) raw = ok p \<and> sp_tenant_id p \<noteq> []
     \<and> sp_sku p \<noteq> [] \<and> sp_cloud_job_id p \<noteq> [] \<and> map_of (sj_routers h) (sp_sku p) = Some r"

text \<open>The handler's directory is in order and is the ledger's, and the calls of the router leave the
  map's file alone.\<close>

definition handler_ok :: "submit_env \<Rightarrow> submit_handler \<Rightarrow> fs \<Rightarrow> router \<Rightarrow> bool" where
  "handler_ok env h fs r \<longleftrightarrow> proper_dir (sj_dir h) \<and> (case sj_ledger h of None \<Rightarrow> True | Some l \<Rightarrow> l_dir l = sj_dir h)
     \<and> se_flt env = no_faults \<and> jobs_ok (sj_dir h) fs \<and> SLASH \<notin> set (se_task env) \<and> se_task env \<noteq> [] \<and> valid_utf8 (se_task env)
     \<and> (\<forall>t te i f. map_of (snd (rt_dispatch r t te i f)) (idempotency_path (sj_dir h)) = map_of f (idempotency_path (sj_dir h)))"

text \<open>A first submission, with the dispatch in the middle.\<close>

lemma submit_first:
  assumes "accepted env h raw p r" "handler_ok env h (ss_fs s) r" "valid_utf8 (sp_cloud_job_id p)"
    "lookup_cloud_job no_faults (sj_dir h) (ss_fs s) (sp_cloud_job_id p) = None"
    and R: "submit_job env h raw s = (res, s')"
  obtains fs2 e fs3 where "rt_dispatch r (se_task env) (sp_tenant_id p) (sp_inputs p) fs2 = (e, fs3)"
    "lookup_cloud_job no_faults (sj_dir h) (ss_fs s') (sp_cloud_job_id p) = Some (se_task env)"
    "case e of None \<Rightarrow> res = ok \<lparr> sr_task_id = se_task env \<rparr> | Some _ \<Rightarrow> \<exists>x. res = err (SErr (HRpc x))"
    "ss_reg s' = (let reg = rr_register (ss_reg s) (se_task env) (Some (se_task env)) in
                  if e = None \<and> is_long_running r then reg else rr_unregister reg (se_task env))"
proof -
  let ?dir = "sj_dir h" and ?t = "se_task env" and ?cj = "sp_cloud_job_id p" and ?te = "sp_tenant_id p"
  note a = assms(1) [unfolded accepted_def]
  note k = assms(2) [unfolded handler_ok_def]
  have pd: "proper_dir ?dir" and sl: "SLASH \<notin> set ?t" and le: "case sj_ledger h of None \<Rightarrow> True | Some l \<Rightarrow> l_dir l = ?dir"
    and nf: "se_flt env = no_faults" using k by auto
  define log where "log = append_quiet (se_sign env) no_faults (sj_ledger h)"
  define fs1 where "fs1 = log (se_clk env 1) ?t (submit_entry (se_clk env 0) ?t ?te ''fleet.SubmitJob'' result_ok (submit_data p) []) (ss_fs s)"
  have "jobs_ok ?dir fs1"
    unfolding fs1_def log_def using append_beside(1) [OF pd sl le] beside_jobs_ok [OF pd] k by blast
  then obtain fs2 where r: "record_cloud_job no_faults ?dir fs1 ?cj ?t = ok fs2" "lookup_cloud_job no_faults ?dir fs2 ?cj = Some ?t"
    using record_lookup [OF pd _ assms(3)] k by blast
  obtain e fs3 where d: "rt_dispatch r ?t ?te (sp_inputs p) fs2 = (e, fs3)" by (cases "rt_dispatch r ?t ?te (sp_inputs p) fs2")
  have m3: "map_of fs3 (idempotency_path ?dir) = map_of fs2 (idempotency_path ?dir)" using k d by (metis snd_conv)
  then have l3: "lookup_cloud_job no_faults ?dir fs3 ?cj = Some ?t" using beside_lookup(2) [OF pd m3] r(2) by simp
  have l4: "lookup_cloud_job no_faults ?dir (append_quiet sign flt (sj_ledger h) now ?t x fs3) ?cj = Some ?t" for sign flt now x
    using beside_lookup(2) [OF pd append_beside(2) [OF pd sl le]] l3 by simp
  have run: "submit_job env h raw s =
     (case e of
        Some e \<Rightarrow> (err (SErr (case e of HRpc x \<Rightarrow> HRpc x | HPlain m \<Rightarrow> HRpc (new_error code_internal_error (''dispatch: '' @ m)))),
          s\<lparr> ss_fs := log (se_clk env 5) ?t (submit_entry (se_clk env 4) ?t ?te ''dispatch-failed'' result_error [] (herr_text e)) fs3,
             ss_reg := rr_unregister (rr_register (ss_reg s) ?t (Some ?t)) ?t, ss_calls := ss_calls s @ [?t] \<rparr>)
      | None \<Rightarrow> (ok \<lparr> sr_task_id = ?t \<rparr>,
          if is_long_running r then s\<lparr> ss_fs := fs3, ss_reg := rr_register (ss_reg s) ?t (Some ?t) \<rparr>
          else s\<lparr> ss_fs := fs3, ss_reg := rr_unregister (rr_register (ss_reg s) ?t (Some ?t)) ?t, ss_calls := ss_calls s @ [?t] \<rparr>))"
    using a assms(4) d r(1) unfolding fs1_def log_def
    by (simp add: submit_job_def nf Let_def split: option.split)
  note rs = run [unfolded R]
  show thesis
  proof (rule that [OF d])
    show "lookup_cloud_job no_faults ?dir (ss_fs s') ?cj = Some ?t"
      using rs l3 l4 by (auto simp: log_def split: option.splits if_splits)
    show "case e of None \<Rightarrow> res = ok \<lparr> sr_task_id = ?t \<rparr> | Some _ \<Rightarrow> \<exists>x. res = err (SErr (HRpc x))"
      using rs by (auto split: option.splits herr.splits)
    show "ss_reg s' = (let reg = rr_register (ss_reg s) ?t (Some ?t) in
                  if e = None \<and> is_long_running r then reg else rr_unregister reg ?t)"
      using rs by (auto simp: Let_def split: option.splits if_splits)
  qed
qed

lemma submit_again:
  assumes "accepted env h raw p r" "se_flt env = no_faults"
    "lookup_cloud_job no_faults (sj_dir h) (ss_fs s) (sp_cloud_job_id p) = Some t"
  shows "submit_job env h raw s = (ok \<lparr> sr_task_id = t \<rparr>, s)"
  using assms by (simp add: submit_job_def accepted_def)

text \<open>C24. SubmitJob is idempotent.  Once a request for a cloud job has been processed without I/O faults, whether its
  dispatch succeeded, found the job known or failed, the next acceptable request with the same cloud job id, on the state
  the first left and without I/O faults, returns that task and changes nothing: no ledger entry, no dispatch, no registration (so
  neither does any further repetition).\<close>

theorem submit_idempotent:
  assumes "accepted env h raw p r" "handler_ok env h (ss_fs s) r" "valid_utf8 (sp_cloud_job_id p)" "submit_job env h raw s = (res, s')"
    "accepted env' h raw' p' r'" "sp_cloud_job_id p' = sp_cloud_job_id p" "se_flt env' = no_faults"
  shows "\<exists>t. (case res of Inr x \<Rightarrow> x = \<lparr> sr_task_id = t \<rparr> | Inl _ \<Rightarrow> t = se_task env)
     \<and> submit_job env' h raw' s' = (ok \<lparr> sr_task_id = t \<rparr>, s')"
proof (cases "lookup_cloud_job no_faults (sj_dir h) (ss_fs s) (sp_cloud_job_id p)")
  case None
  obtain e :: "herr option" where
    "lookup_cloud_job no_faults (sj_dir h) (ss_fs s') (sp_cloud_job_id p) = Some (se_task env)"
    "case e of None \<Rightarrow> res = ok \<lparr> sr_task_id = se_task env \<rparr> | Some _ \<Rightarrow> \<exists>x. res = err (SErr (HRpc x))"
    by (rule submit_first [OF assms(1-3) None assms(4)]) blast
  then show ?thesis using submit_again [OF assms(5,7)] assms(6) by (auto split: option.splits)
next
  case (Some t)
  then have "submit_job env h raw s = (ok \<lparr> sr_task_id = t \<rparr>, s)"
    using submit_again [OF assms(1)] assms(2) by (simp add: handler_ok_def)
  then show ?thesis using submit_again [OF assms(5,7)] assms(4,6) Some by simp
qed

text \<open>C38.  A submitted task is cancellable exactly while it runs.  After the first submission of a
  cloud job \<open>fleet.CancelTask\<close> for its task answers true if the dispatch succeeded and the router
  is long-running, and false if the dispatch failed or the work is already done; no other task's
  registration changes.\<close>

theorem submit_then_cancel:
  assumes "accepted env h raw p r" "handler_ok env h (ss_fs s) r" "valid_utf8 (sp_cloud_job_id p)"
    "lookup_cloud_job no_faults (sj_dir h) (ss_fs s) (sp_cloud_job_id p) = None" "submit_job env h raw s = (res, s')"
  shows "fst (cancel_task jmsg (marshal_compact [(''task_id'', JStr (se_task env))]) (ss_reg s', ss_calls s')) =
      ok \<lparr> ct_cancelled = (res = ok \<lparr> sr_task_id = se_task env \<rparr> \<and> rt_long_running r) \<rparr>
    \<and> (\<forall>u. u \<noteq> se_task env \<longrightarrow> map_of (ss_reg s') u = map_of (ss_reg s) u)"
proof -
  let ?t = "se_task env"
  have t: "?t \<noteq> []" "valid_utf8 ?t" using assms(2) by (auto simp: handler_ok_def)
  obtain e :: "herr option" where e: "case e of None \<Rightarrow> res = ok \<lparr> sr_task_id = ?t \<rparr> | Some _ \<Rightarrow> \<exists>x. res = err (SErr (HRpc x))"
    "ss_reg s' = (let reg = rr_register (ss_reg s) ?t (Some ?t) in if e = None \<and> is_long_running r then reg else rr_unregister reg ?t)"
    by (rule submit_first [OF assms]) blast
  then have "map_of (ss_reg s') ?t = (if res = ok \<lparr> sr_task_id = ?t \<rparr> \<and> rt_long_running r then Some ?t else None)"
    "\<forall>u. u \<noteq> ?t \<longrightarrow> map_of (ss_reg s') u = map_of (ss_reg s) u"
    using t(1) by (auto simp: Let_def rr_register_def rr_unregister_def is_long_running_def update_conv delete_conv split: option.splits)
  then show ?thesis
    using t cancel_params_decode [OF t(2)] by (simp add: cancel_task_def rr_cancel_def)
qed

definition demo_env :: submit_env where
  "demo_env = \<lparr> se_sign = (\<lambda>_ _. []), se_flt = no_faults, se_clk = (\<lambda>_. zero_time), se_jmsg = (\<lambda>_. []), se_cmsg = (\<lambda>_. []),
     se_f64 = (\<lambda>_. 0), se_task = ''task-1'' \<rparr>"

definition demo_handler :: submit_handler where
  "demo_handler = \<lparr> sj_ledger = Some \<lparr> l_dir = ''/l'', l_priv = None, l_pub = [] \<rparr>, sj_dir = ''/l'',
     sj_routers = [(''k'', \<lparr> rt_dispatch = (\<lambda>_ _ _ f. (None, f)), rt_long_running = True \<rparr>)] \<rparr>"

definition demo_raw :: bytes where
  "demo_raw = marshal_compact [(''tenant_id'', JStr ''a''), (''sku'', JStr ''k''), (''cloud_job_id'', JStr ''c1'')]"

definition demo_submit :: submit_params where
  "demo_submit = \<lparr> sp_tenant_id = ''a'', sp_sku = ''k'', sp_cloud_job_id = ''c1'', sp_inputs = [] \<rparr>"

definition demo_submit_state :: submit_state where
  "demo_submit_state = \<lparr> ss_fs = [(''/l'', Dir 448)], ss_reg = [], ss_calls = [] \<rparr>"

lemma submit_params_decode:
  assumes "valid_utf8 te" "valid_utf8 sku" "valid_utf8 cj"
  shows "unmarshal_with (submit_params_of_members f64)
     (marshal_compact [(''tenant_id'', JStr te), (''sku'', JStr sku), (''cloud_job_id'', JStr cj)]) =
     ok \<lparr> sp_tenant_id = te, sp_sku = sku, sp_cloud_job_id = cj, sp_inputs = [] \<rparr>"
proof -
  let ?kvs = "[(''tenant_id'', JStr te), (''sku'', JStr sku), (''cloud_job_id'', JStr cj)]"
  have "json_members (marshal_compact ?kvs) = ok (printed ?kvs)" by (rule obj_members) (simp_all add: byte_def)
  moreover have "field_raws (printed ?kvs) ''tenant_id'' = [json_quote te]" "field_raws (printed ?kvs) ''sku'' = [json_quote sku]"
    "field_raws (printed ?kvs) ''cloud_job_id'' = [json_quote cj]" "field_raws (printed ?kvs) ''inputs'' = []"
    by (simp_all add: printed_simps key_eval)
  ultimately show ?thesis
    using get_string(1) [OF _ assms(1)] get_string(1) [OF _ assms(2)] get_string(1) [OF _ assms(3)]
    by (simp add: unmarshal_with_def submit_params_of_members_def get_field_def [of "dec_inputs f64"])
qed

lemma demo_accepted:
  "accepted demo_env demo_handler demo_raw demo_submit \<lparr> rt_dispatch = (\<lambda>_ _ _ f. (None, f)), rt_long_running = True \<rparr>"
proof -
  have "unmarshal_with (submit_params_of_members (se_f64 demo_env)) demo_raw = ok demo_submit"
    unfolding demo_raw_def demo_submit_def by (rule submit_params_decode; rule valid_utf8_ascii) (auto simp: byte_def)
  then show ?thesis by (simp add: accepted_def demo_submit_def demo_handler_def)
qed

lemma demo_handler_ok:
  "handler_ok demo_env demo_handler (ss_fs demo_submit_state) \<lparr> rt_dispatch = (\<lambda>_ _ _ f. (None, f)), rt_long_running = True \<rparr>"
proof -
  have "proper_dir ''/l''" by code_simp
  moreover have "valid_utf8 ''task-1''" by (rule valid_utf8_ascii) (auto simp: byte_def)
  moreover have "read_cloud_job_map no_faults [(''/l'', Dir 448)] (idempotency_path ''/l'') = ok (Some [])" by code_simp
  moreover have "\<not> is_dir [(''/l'', Dir 448)] (idempotency_path ''/l'')" "\<not> is_dir [(''/l'', Dir 448)] (tmp_of (idempotency_path ''/l''))"
    "\<not> list_ex (is_file [(''/l'', Dir 448)]) (ancestors ''/l'')" "is_dir [(''/l'', Dir 448)] ''/l''"
    by code_simp+
  ultimately show ?thesis
    by (simp add: handler_ok_def jobs_ok_def map_valid_def demo_handler_def demo_env_def demo_submit_state_def)
qed

lemma demo_cloud_job: "valid_utf8 (sp_cloud_job_id demo_submit)"
  unfolding demo_submit_def by (simp, rule valid_utf8_ascii) (auto simp: byte_def)

theorem submit_idempotent_witness:
  "\<exists>res s' t. submit_job demo_env demo_handler demo_raw demo_submit_state = (res, s')
     \<and> submit_job demo_env demo_handler demo_raw s' = (ok \<lparr> sr_task_id = t \<rparr>, s')"
proof -
  obtain res s' where R: "submit_job demo_env demo_handler demo_raw demo_submit_state = (res, s')" by (rule prod.exhaust)
  from submit_idempotent [OF demo_accepted demo_handler_ok demo_cloud_job R demo_accepted refl] R
  show ?thesis by (auto simp: demo_env_def)
qed

theorem submit_then_cancel_witness:
  "\<exists>res s'. submit_job demo_env demo_handler demo_raw demo_submit_state = (res, s')
     \<and> fst (cancel_task (\<lambda>_. []) (marshal_compact [(''task_id'', JStr ''task-1'')]) (ss_reg s', ss_calls s')) =
         ok \<lparr> ct_cancelled = (res = ok \<lparr> sr_task_id = ''task-1'' \<rparr>) \<rparr>"
proof -
  obtain res s' where R: "submit_job demo_env demo_handler demo_raw demo_submit_state = (res, s')" by (rule prod.exhaust)
  have l: "lookup_cloud_job no_faults (sj_dir demo_handler) (ss_fs demo_submit_state) (sp_cloud_job_id demo_submit) = None" by code_simp
  have t: "se_task demo_env = ''task-1''" by (simp add: demo_env_def)
  show ?thesis
    using submit_then_cancel [OF demo_accepted demo_handler_ok demo_cloud_job l R, of "\<lambda>_. []"] R
    unfolding t by (intro exI [of _ res] exI [of _ s']) simp
qed

end
