(* ===== verification/Skus.thy ===== *)
theory Skus
  imports Submit_Job
begin

declare json_print.simps(3) [simp del]

text \<open>
  The SKU routers, \<open>internal/skus\<close>: the billing event and its emission into the ledger, the tier
  policy of campaign-swarm and the four dispatchers, and their registration in
  \<open>cmd/fleetctl/commands/serve.go\<close>.  A \<open>BillingEmitter\<close> is the ledger emitter of the code; the
  readings of the clock are numbered in the order of the calls.
\<close>

section \<open>Billing\<close>

record bill_event =
  be_sku :: string
  be_meter :: string
  be_units :: int
  be_one_shot_cents :: int
  be_occurred_at :: gtime

definition bill_members :: "bill_event \<Rightarrow> (bytes \<times> jtree) list" where
  "bill_members ev =
     [(''sku'', JStr (be_sku ev)), (''meter'', JStr (be_meter ev)), (''units'', JInt (be_units ev))]
     @ omit_int ''one_shot_cents'' (be_one_shot_cents ev) @ [(''occurred_at'', JTime (be_occurred_at ev))]"

datatype emit_err = EMarshal | EAppend ledger_err

definition bill_entry :: "gtime \<Rightarrow> string \<Rightarrow> string \<Rightarrow> bill_event \<Rightarrow> entry" where
  "bill_entry ts task tenant ev =
     zero_entry\<lparr> en_ts := ts, en_task_id := task, en_tenant_id := tenant, en_phase := ''bill'', en_action := be_sku ev,
       en_result := ''emitted'', en_data := marshal_compact (bill_members ev) \<rparr>"

definition emit ::
  "signer \<Rightarrow> faults \<Rightarrow> gtime \<Rightarrow> gtime \<Rightarrow> ledger option \<Rightarrow> string \<Rightarrow> string \<Rightarrow> bill_event \<Rightarrow> fs \<Rightarrow> (emit_err \<times> fs, fs) result" where
  "emit sign flt ts now led task tenant ev fs =
     (case led of
        None \<Rightarrow> ok fs
      | Some l \<Rightarrow>
          if \<not> time_json_ok (be_occurred_at ev) then err (EMarshal, fs)
          else (case append_entry sign flt now l fs task (bill_entry ts task tenant ev) of
                  Inl (e, fs') \<Rightarrow> err (EAppend e, fs')
                | Inr fs' \<Rightarrow> ok fs'))"

section \<open>Tiers\<close>

definition tier_rank :: "string \<Rightarrow> int" where
  "tier_rank t = (if t = ''L'' then 2 else if t = ''M'' then 1 else 0)"

definition max_tier :: "string \<Rightarrow> string \<Rightarrow> string" where
  "max_tier a b = (if tier_rank a \<ge> tier_rank b then a else b)"

definition tier_from_max_outreach :: "int \<Rightarrow> string" where
  "tier_from_max_outreach n = (if n > 1000 then ''L'' else if n > 100 then ''M'' else ''S'')"

definition tier_from_channel_count :: "int \<Rightarrow> string" where
  "tier_from_channel_count n = (if n \<ge> 3 then ''L'' else if n = 2 then ''M'' else ''S'')"

definition read_max_outreach :: "inputs \<Rightarrow> int" where
  "read_max_outreach i =
     (case map_of i ''max_outreach'' of Some (GFloat n) \<Rightarrow> n | Some (GInt n) \<Rightarrow> n | Some (GInt64 n) \<Rightarrow> n | _ \<Rightarrow> 0)"

definition read_channel_count :: "inputs \<Rightarrow> int" where
  "read_channel_count i =
     (case map_of i ''channels'' of Some (GSlice n) \<Rightarrow> int n | Some (GStrings n) \<Rightarrow> int n | _ \<Rightarrow> 0)"

definition select_tier :: "inputs \<Rightarrow> string" where
  "select_tier i = max_tier (tier_from_channel_count (read_channel_count i)) (tier_from_max_outreach (read_max_outreach i))"

section \<open>Routers\<close>

record sku_deps =
  sk_ledger :: "ledger option"
  sk_billing :: "ledger option option"

text \<open>\<open>_ = r.deps.Billing.Emit(...)\<close> and the terminal entry of the finite routers.\<close>

definition emit_quiet :: "signer \<Rightarrow> faults \<Rightarrow> gtime \<Rightarrow> gtime \<Rightarrow> sku_deps \<Rightarrow> string \<Rightarrow> string \<Rightarrow> bill_event \<Rightarrow> fs \<Rightarrow> fs" where
  "emit_quiet sign flt ts now d task tenant ev fs =
     (case sk_billing d of
        None \<Rightarrow> fs
      | Some led \<Rightarrow> (case emit sign flt ts now led task tenant ev fs of Inl (_, fs') \<Rightarrow> fs' | Inr fs' \<Rightarrow> fs'))"

definition complete_entry :: "gtime \<Rightarrow> string \<Rightarrow> string \<Rightarrow> (bytes \<times> jtree) list \<Rightarrow> entry" where
  "complete_entry ts task tenant outputs =
     zero_entry\<lparr> en_ts := ts, en_task_id := task, en_tenant_id := tenant, en_phase := ''complete'', en_action := ''stub'',
       en_result := result_ok, en_data := marshal_compact [(''outputs'', JObj outputs)] \<rparr>"

type_synonym dispatcher = "string \<Rightarrow> string \<Rightarrow> inputs \<Rightarrow> fs \<Rightarrow> herr option \<times> fs"

definition campaign_swarm_dispatch :: "signer \<Rightarrow> faults \<Rightarrow> (nat \<Rightarrow> gtime) \<Rightarrow> sku_deps \<Rightarrow> dispatcher" where
  "campaign_swarm_dispatch sign flt clk d task tenant i fs =
     (let tier = select_tier i;
          fs1 = emit_quiet sign flt (clk 1) (clk 2) d task tenant
                  \<lparr> be_sku = ''campaign-swarm@v1'', be_meter = tier, be_units = 1, be_one_shot_cents = 0, be_occurred_at = clk 0 \<rparr> fs
      in (None, append_quiet sign flt (sk_ledger d) (clk 4) task
            (complete_entry (clk 3) task tenant
               [(''channels_succeeded'', JArr []), (''note'', JStr ''WS-A stub; WS-C implements multi-channel fan-out''),
                (''posts_sent'', JInt 0), (''stub'', JBool True)]) fs1))"

definition code_audit_dispatch :: "signer \<Rightarrow> faults \<Rightarrow> (nat \<Rightarrow> gtime) \<Rightarrow> sku_deps \<Rightarrow> dispatcher" where
  "code_audit_dispatch sign flt clk d task tenant _ fs =
     (let fs1 = emit_quiet sign flt (clk 1) (clk 2) d task tenant
                  \<lparr> be_sku = ''code-audit@v1'', be_meter = ''findings_reported'', be_units = 0, be_one_shot_cents = 0, be_occurred_at = clk 0 \<rparr> fs
      in (None, append_quiet sign flt (sk_ledger d) (clk 4) task
            (complete_entry (clk 3) task tenant
               [(''audit_url'', JStr []), (''findings'', JInt 0),
                (''note'', JStr ''WS-A stub; real audit is a daily cronjob with cached AST + diff-only analysis''),
                (''severity_breakdown'', JObj [(''high'', JInt 0), (''low'', JInt 0), (''medium'', JInt 0)]),
                (''stub'', JBool True)]) fs1))"

definition research_brief_dispatch :: "signer \<Rightarrow> faults \<Rightarrow> (nat \<Rightarrow> gtime) \<Rightarrow> sku_deps \<Rightarrow> dispatcher" where
  "research_brief_dispatch sign flt clk d task tenant _ fs =
     (let fs1 = emit_quiet sign flt (clk 1) (clk 2) d task tenant
                  \<lparr> be_sku = ''research-brief@v1'', be_meter = ''M'', be_units = 1, be_one_shot_cents = 0, be_occurred_at = clk 0 \<rparr> fs
      in (None, append_quiet sign flt (sk_ledger d) (clk 4) task
            (complete_entry (clk 3) task tenant
               [(''brief_url'', JStr []), (''citations'', JArr []), (''depth'', JStr ''M''),
                (''note'', JStr ''WS-A stub; real research uses Hermes web/browser + structured-report renderer''),
                (''sections'', JInt 0), (''stub'', JBool True), (''summary_text'', JStr [])]) fs1))"

definition triage_watch_dispatch :: "signer \<Rightarrow> faults \<Rightarrow> (nat \<Rightarrow> gtime) \<Rightarrow> sku_deps \<Rightarrow> dispatcher" where
  "triage_watch_dispatch sign flt clk d task tenant _ fs =
     (None, emit_quiet sign flt (clk 1) (clk 2) d task tenant
        \<lparr> be_sku = ''triage-watch@v1'', be_meter = ''tickets_handled'', be_units = 0, be_one_shot_cents = 0, be_occurred_at = clk 0 \<rparr> fs)"

section \<open>The server's catalogue\<close>

text \<open>The SKUs that \<open>runServe\<close> registers, in order, with one ledger behind all of them.\<close>

definition serve_skus ::
  "signer \<Rightarrow> faults \<Rightarrow> (nat \<Rightarrow> gtime) \<Rightarrow> (string \<Rightarrow> string \<Rightarrow> entry list \<times> herr option) \<Rightarrow> ledger \<Rightarrow> (string \<times> router) list" where
  "serve_skus sign flt clk delegate led =
     (let d = \<lparr> sk_ledger = Some led, sk_billing = Some (Some led) \<rparr> in
      [(''delegate.shell.v1'', \<lparr> rt_dispatch = shell_delegate_dispatch sign flt clk (Some led) (Some delegate), rt_long_running = False \<rparr>),
       (''triage-watch@v1'', \<lparr> rt_dispatch = triage_watch_dispatch sign flt clk d, rt_long_running = True \<rparr>),
       (''campaign-swarm@v1'', \<lparr> rt_dispatch = campaign_swarm_dispatch sign flt clk d, rt_long_running = False \<rparr>),
       (''research-brief@v1'', \<lparr> rt_dispatch = research_brief_dispatch sign flt clk d, rt_long_running = False \<rparr>),
       (''code-audit@v1'', \<lparr> rt_dispatch = code_audit_dispatch sign flt clk d, rt_long_running = False \<rparr>)])"

fun register_all :: "submit_handler \<Rightarrow> (string \<times> router) list \<Rightarrow> (register_err, submit_handler) result" where
  "register_all h [] = ok h"
| "register_all h ((s, r) # rs) = (case register_sku h s (Some r) of Inl e \<Rightarrow> err e | Inr h' \<Rightarrow> register_all h' rs)"

definition serve_submit ::
  "signer \<Rightarrow> faults \<Rightarrow> (nat \<Rightarrow> gtime) \<Rightarrow> (string \<Rightarrow> string \<Rightarrow> entry list \<times> herr option) \<Rightarrow> ledger \<Rightarrow> (register_err, submit_handler) result" where
  "serve_submit sign flt clk delegate led =
     register_all (new_submit_handler (Some led) (l_dir led)) (serve_skus sign flt clk delegate led)"

section \<open>The tier policy\<close>

datatype tier = S | M | L

instantiation tier :: linorder
begin

fun tier_num :: "tier \<Rightarrow> nat" where
  "tier_num S = 0"
| "tier_num M = 1"
| "tier_num L = 2"

definition less_eq_tier :: "tier \<Rightarrow> tier \<Rightarrow> bool" where
  "less_eq_tier a b \<longleftrightarrow> tier_num a \<le> tier_num b"

definition less_tier :: "tier \<Rightarrow> tier \<Rightarrow> bool" where
  "less_tier a b \<longleftrightarrow> tier_num a < tier_num b"

instance
proof
  fix x y :: tier
  show "x \<le> y \<Longrightarrow> y \<le> x \<Longrightarrow> x = y" by (cases x; cases y) (simp_all add: less_eq_tier_def)
qed (auto simp: less_eq_tier_def less_tier_def)

end

fun tier_letter :: "tier \<Rightarrow> string" where
  "tier_letter S = ''S''"
| "tier_letter M = ''M''"
| "tier_letter L = ''L''"

definition tier_policy :: "int \<Rightarrow> int \<Rightarrow> tier" where
  "tier_policy channels outreach =
     (if channels \<ge> 3 \<or> outreach > 1000 then L else if channels = 2 \<or> outreach > 100 then M else S)"

text \<open> The tier of a campaign is the documented one: L for three or more channels or more than
  1000 contacts, else M for two channels or more than 100 contacts, else S; so a campaign with more
  channels or more contacts is never in a smaller tier.\<close>

theorem select_tier_policy:
  "select_tier i = tier_letter (tier_policy (read_channel_count i) (read_max_outreach i))
     \<and> tier_policy n m \<le> tier_policy (max n n') (max m m')"
  by (auto simp: select_tier_def tier_policy_def max_tier_def tier_rank_def tier_from_channel_count_def
      tier_from_max_outreach_def less_eq_tier_def max_def)

section \<open>The trail of a dispatch\<close>

lemma print_lits: "json_print (JObj []) = ''{}''" "json_print (JArr []) = ''[]''"
  by (simp_all add: json_print.simps)

lemma bill_small:
  assumes "short_name task" "task \<noteq> []" "short_name tenant" "time_ok ts" "time_ok (be_occurred_at ev)"
    "valid_utf8 (be_sku ev)" "length (be_sku ev) \<le> 50" "length (be_meter ev) \<le> 50" "in_int64 (be_units ev)" "in_int64 (be_one_shot_cents ev)"
  shows "small_entry task (bill_entry ts task tenant ev)"
proof -
  let ?d = "marshal_compact (bill_members ev)"
  have "raw_ok (max_nesting - 1) ?d"
    by (rule raw_ok_obj [where d = 1]) (simp_all add: bill_members_def omit_int_def max_nesting_def)
  moreover have "length ?d \<le> 2000"
    using obj_length [of "bill_members ev"] quote_length [of "be_sku ev"] quote_length [of "be_meter ev"]
      omit_length(2) [of "''one_shot_cents''" "be_one_shot_cents ev"] itoa_int64_length [OF assms(9)] itoa_int64_length [OF assms(10)]
      time_length [OF assms(5), of True] assms(7,8) by (simp add: bill_members_def)
  moreover have "valid_utf8 ''bill''" "valid_utf8 ''emitted''" "valid_utf8 []" by (rule valid_utf8_ascii; auto simp: byte_def)+
  moreover have "in_int64 0" by (simp add: in_int64_def min_int64_def max_int64_def)
  ultimately show ?thesis
    using assms by (simp add: small_entry_def bill_entry_def zero_entry_def short_name_def)
qed

lemma complete_small:
  assumes "short_name task" "task \<noteq> []" "short_name tenant" "time_ok ts"
    "list_all (\<lambda>kv. jcomplete 2 (snd kv)) outputs" "members_length outputs \<le> 3000"
  shows "small_entry task (complete_entry ts task tenant outputs)"
proof -
  let ?kvs = "[(''outputs'', JObj outputs)]"
  have "raw_ok (max_nesting - 1) (marshal_compact ?kvs)"
    by (rule raw_ok_obj [where d = 3]) (use assms(5) in \<open>simp_all add: max_nesting_def\<close>)
  moreover have "length (marshal_compact ?kvs) \<le> 4000"
    using obj_length [of ?kvs] obj_length [of outputs] assms(6) by simp
  moreover have "valid_utf8 ''complete''" "valid_utf8 ''stub''" "valid_utf8 result_ok" "valid_utf8 []"
    by (rule valid_utf8_ascii; auto simp: byte_def result_ok_def)+
  moreover have "in_int64 0" by (simp add: in_int64_def min_int64_def max_int64_def)
  ultimately show ?thesis
    using assms by (simp add: small_entry_def complete_entry_def zero_entry_def short_name_def result_ok_def)
qed

text \<open>What an auditor reads of an entry besides its time, data and signature.\<close>

definition entry_head :: "entry \<Rightarrow> string \<times> string \<times> string \<times> string \<times> string" where
  "entry_head e = (en_task_id e, en_tenant_id e, en_phase e, en_action e, en_result e)"

lemma stored_head: "en_task_id e \<noteq> [] \<Longrightarrow> entry_head (stored_entry sign l now task e) = entry_head e"
  by (simp add: entry_head_def stored_entry_def Let_def canon_entry_def stamp_entry_def)

lemma emit_quiet_append:
  assumes "sk_billing d = Some (Some l)" "time_ok (be_occurred_at ev)"
  shows "emit_quiet sign flt ts now d task tenant ev fs = append_quiet sign flt (Some l) now task (bill_entry ts task tenant ev) fs"
  using assms by (auto simp: emit_quiet_def emit_def append_quiet_def time_ok_json split: sum.splits)

lemma append_head:
  assumes "ledger_ready sign verify l fs" "SLASH \<notin> set task" "small_entry task e" "en_task_id e \<noteq> []" "time_ok (to_utc now)"
  shows "ledger_ready sign verify l (append_quiet sign no_faults (Some l) now task e fs)"
    "map entry_head (ledger_get verify l (append_quiet sign no_faults (Some l) now task e fs) task)
       = map entry_head (ledger_get verify l fs task) @ [entry_head e]"
  using append_quiet_log [OF assms(1,2) small_entry_legal [OF _ assms(3,5)]] assms(1,4)
  by (auto simp: ledger_ready_def stored_head)

lemma finite_trail:
  assumes "ledger_ready sign verify l fs" "SLASH \<notin> set task" "task \<noteq> []" "short_name task" "short_name tenant"
    "\<And>n. time_ok (clk n) \<and> time_ok (to_utc (clk n))" "sk_billing d = Some (Some l)" "sk_ledger d = Some l"
    "be_occurred_at ev = clk 0" "valid_utf8 (be_sku ev)" "length (be_sku ev) \<le> 50" "length (be_meter ev) \<le> 50"
    "in_int64 (be_units ev)" "in_int64 (be_one_shot_cents ev)"
  shows "map entry_head (ledger_get verify l (emit_quiet sign no_faults (clk 1) (clk 2) d task tenant ev fs) task)
       = map entry_head (ledger_get verify l fs task) @ [(task, tenant, ''bill'', be_sku ev, ''emitted'')]"
    "list_all (\<lambda>kv. jcomplete 2 (snd kv)) outs \<Longrightarrow> members_length outs \<le> 3000 \<Longrightarrow>
     map entry_head (ledger_get verify l (append_quiet sign no_faults (sk_ledger d) (clk 4) task
         (complete_entry (clk 3) task tenant outs) (emit_quiet sign no_faults (clk 1) (clk 2) d task tenant ev fs)) task)
       = map entry_head (ledger_get verify l fs task) @ [(task, tenant, ''bill'', be_sku ev, ''emitted''), (task, tenant, ''complete'', ''stub'', ''ok'')]"
proof -
  have ev: "time_ok (be_occurred_at ev)" using assms(6,9) by simp
  have b: "small_entry task (bill_entry (clk 1) task tenant ev)"
    using assms ev by (intro bill_small) auto
  have t: "time_ok (to_utc (clk n))" for n using assms(6) by blast
  note q = emit_quiet_append [OF assms(7) ev]
  have n: "en_task_id (bill_entry (clk 1) task tenant ev) \<noteq> []" "en_task_id (complete_entry (clk 3) task tenant outs) \<noteq> []" for outs
    using assms(3) by (simp_all add: bill_entry_def complete_entry_def)
  note s1 = append_head [OF assms(1,2) b n(1) t]
  show "map entry_head (ledger_get verify l (emit_quiet sign no_faults (clk 1) (clk 2) d task tenant ev fs) task)
       = map entry_head (ledger_get verify l fs task) @ [(task, tenant, ''bill'', be_sku ev, ''emitted'')]"
    unfolding q s1(2) by (simp add: entry_head_def bill_entry_def)
  assume o: "list_all (\<lambda>kv. jcomplete 2 (snd kv)) outs" "members_length outs \<le> 3000"
  have c: "small_entry task (complete_entry (clk 3) task tenant outs)"
    using complete_small [OF assms(4,3,5) _ o] assms(6) by blast
  show "map entry_head (ledger_get verify l (append_quiet sign no_faults (sk_ledger d) (clk 4) task
         (complete_entry (clk 3) task tenant outs) (emit_quiet sign no_faults (clk 1) (clk 2) d task tenant ev fs)) task)
       = map entry_head (ledger_get verify l fs task) @ [(task, tenant, ''bill'', be_sku ev, ''emitted''), (task, tenant, ''complete'', ''stub'', ''ok'')]"
    unfolding q assms(8) append_head(2) [OF s1(1) assms(2) c n(2) t] s1(2)
    by (simp add: entry_head_def bill_entry_def complete_entry_def zero_entry_def result_ok_def)
qed

text \<open> Every dispatch of a catalogue SKU bills its tenant exactly once and closes exactly the finite
  jobs.  With the server's wiring and a ledger that can be written, the dispatch succeeds and adds to
  the task's log one bill entry under the SKU, stamped with task and tenant, followed by one terminal
  entry unless the SKU is long-running.\<close>

theorem sku_trail:
  assumes "ledger_ready sign verify l fs" "SLASH \<notin> set task" "task \<noteq> []" "short_name task" "short_name tenant"
    "\<And>n. time_ok (clk n) \<and> time_ok (to_utc (clk n))"
    "(sku, r) \<in> set (serve_skus sign no_faults clk delegate l)" "sku \<noteq> ''delegate.shell.v1''"
  shows "\<exists>fs'. rt_dispatch r task tenant i fs = (None, fs')
     \<and> map entry_head (ledger_get verify l fs' task) = map entry_head (ledger_get verify l fs task)
         @ (task, tenant, ''bill'', sku, ''emitted'') # (if rt_long_running r then [] else [(task, tenant, ''complete'', ''stub'', ''ok'')])"
proof -
  have u: "in_int64 0" "in_int64 1" by (simp_all add: in_int64_def min_int64_def max_int64_def)
  have v: "valid_utf8 ''triage-watch@v1''" "valid_utf8 ''campaign-swarm@v1''" "valid_utf8 ''research-brief@v1''" "valid_utf8 ''code-audit@v1''"
    by (rule valid_utf8_ascii; auto simp: byte_def)+
  have z: "length (itoa 0) \<le> 20" by (rule itoa_int64_length [OF u(1)])
  have tl: "length (select_tier i) \<le> 50"
    by (simp add: select_tier_def max_tier_def tier_from_channel_count_def tier_from_max_outreach_def)
  define d where "d = \<lparr> sk_ledger = Some l, sk_billing = Some (Some l) \<rparr>"
  have d: "sk_ledger d = Some l" "sk_billing d = Some (Some l)" by (simp_all add: d_def)
  note fin = finite_trail [OF assms(1-6) d(2,1)]
  consider
    (triage) "sku = ''triage-watch@v1''" "r = \<lparr> rt_dispatch = triage_watch_dispatch sign no_faults clk d, rt_long_running = True \<rparr>"
  | (campaign) "sku = ''campaign-swarm@v1''" "r = \<lparr> rt_dispatch = campaign_swarm_dispatch sign no_faults clk d, rt_long_running = False \<rparr>"
  | (research) "sku = ''research-brief@v1''" "r = \<lparr> rt_dispatch = research_brief_dispatch sign no_faults clk d, rt_long_running = False \<rparr>"
  | (audit) "sku = ''code-audit@v1''" "r = \<lparr> rt_dispatch = code_audit_dispatch sign no_faults clk d, rt_long_running = False \<rparr>"
    using assms(7,8) unfolding serve_skus_def Let_def d_def [symmetric] list.set insert_iff empty_iff prod.inject
    by satx
  then show ?thesis
  proof cases
    case triage
    have "map entry_head (ledger_get verify l (emit_quiet sign no_faults (clk 1) (clk 2) d task tenant
        \<lparr> be_sku = ''triage-watch@v1'', be_meter = ''tickets_handled'', be_units = 0, be_one_shot_cents = 0, be_occurred_at = clk 0 \<rparr> fs) task)
      = map entry_head (ledger_get verify l fs task) @ [(task, tenant, ''bill'', ''triage-watch@v1'', ''emitted'')]"
      by (subst fin(1)) (use u v in simp_all)
    then show ?thesis using triage by (simp add: triage_watch_dispatch_def)
  next
    case campaign
    let ?o = "[(''channels_succeeded'', JArr []), (''note'', JStr ''WS-A stub; WS-C implements multi-channel fan-out''),
                (''posts_sent'', JInt 0), (''stub'', JBool True)]"
    have o: "members_length ?o \<le> 3000" "list_all (\<lambda>kv. jcomplete 2 (snd kv)) ?o"
      using quote_length [of "''WS-A stub; WS-C implements multi-channel fan-out''"] z by (simp_all add: JBool_def print_lits)
    show ?thesis
      unfolding campaign campaign_swarm_dispatch_def Let_def router.simps
      by (rule exI, rule conjI, rule refl, rule trans [OF fin(2) [OF _ _ _ _ _ _ o(2,1)]]) (use u v tl in simp_all)
  next
    case research
    let ?o = "[(''brief_url'', JStr []), (''citations'', JArr []), (''depth'', JStr ''M''),
                (''note'', JStr ''WS-A stub; real research uses Hermes web/browser + structured-report renderer''),
                (''sections'', JInt 0), (''stub'', JBool True), (''summary_text'', JStr [])]"
    have o: "members_length ?o \<le> 3000" "list_all (\<lambda>kv. jcomplete 2 (snd kv)) ?o"
      using quote_length [of "''WS-A stub; real research uses Hermes web/browser + structured-report renderer''"] z
        quote_length [of "''M''"] quote_length [of "[]"] by (simp_all add: JBool_def print_lits)
    show ?thesis
      unfolding research research_brief_dispatch_def Let_def router.simps
      by (rule exI, rule conjI, rule refl, rule trans [OF fin(2) [OF _ _ _ _ _ _ o(2,1)]]) (use u v in simp_all)
  next
    case audit
    let ?o = "[(''audit_url'', JStr []), (''findings'', JInt 0),
                (''note'', JStr ''WS-A stub; real audit is a daily cronjob with cached AST + diff-only analysis''),
                (''severity_breakdown'', JObj [(''high'', JInt 0), (''low'', JInt 0), (''medium'', JInt 0)]),
                (''stub'', JBool True)]"
    have o: "members_length ?o \<le> 3000" "list_all (\<lambda>kv. jcomplete 2 (snd kv)) ?o"
      using quote_length [of "''WS-A stub; real audit is a daily cronjob with cached AST + diff-only analysis''"] z quote_length [of "[]"]
        obj_length [of "[(''high'', JInt 0), (''low'', JInt 0), (''medium'', JInt 0)]"] by (simp_all add: JBool_def print_lits)
    show ?thesis
      unfolding audit code_audit_dispatch_def Let_def router.simps
      by (rule exI, rule conjI, rule refl, rule trans [OF fin(2) [OF _ _ _ _ _ _ o(2,1)]]) (use u v in simp_all)
  qed
qed

theorem sku_trail_witness:
  "\<exists>fs'. campaign_swarm_dispatch (demo_sign []) no_faults (\<lambda>_. time_utc 1704164645500000000)
      \<lparr> sk_ledger = Some demo_ledger, sk_billing = Some (Some demo_ledger) \<rparr> ''t'' ''acme'' [] [] = (None, fs')
     \<and> map entry_head (ledger_get (demo_verify []) demo_ledger fs' ''t'') = map entry_head (ledger_get (demo_verify []) demo_ledger [] ''t'')
         @ [(''t'', ''acme'', ''bill'', ''campaign-swarm@v1'', ''emitted''), (''t'', ''acme'', ''complete'', ''stub'', ''ok'')]"
proof -
  let ?d = "\<lparr> sk_ledger = Some demo_ledger, sk_billing = Some (Some demo_ledger) \<rparr>" and ?clk = "\<lambda>_. time_utc 1704164645500000000"
  let ?r = "\<lparr> rt_dispatch = campaign_swarm_dispatch (demo_sign []) no_faults ?clk ?d, rt_long_running = False \<rparr>"
  have ready: "ledger_ready (demo_sign []) (demo_verify []) demo_ledger []"
    using demo_writer demo_inv demo_dir_free by (simp add: ledger_ready_def)
  have names: "short_name ''t''" "short_name ''acme''" "SLASH \<notin> set ''t''" "''t'' \<noteq> []" using demo_valid by (simp_all add: short_name_def)
  have t: "time_ok (time_utc 1704164645500000000) \<and> time_ok (to_utc (time_utc 1704164645500000000))"
    using demo_time_ok by (simp add: to_utc_def time_utc_def)
  have mem: "(''campaign-swarm@v1'', ?r) \<in> set (serve_skus (demo_sign []) no_faults ?clk (\<lambda>_ _. ([], None)) demo_ledger)"
    by (simp add: serve_skus_def Let_def)
  have neq: "''campaign-swarm@v1'' \<noteq> ''delegate.shell.v1''" by simp
  from sku_trail [OF ready names(3,4,1,2) t mem neq, of "[]"] show ?thesis by simp
qed

end
