(* ===== verification/Orchestrator.thy ===== *)
theory Orchestrator
  imports Ledger_Client Submit_Job
begin

declare json_print.simps(3) [simp del]

text \<open>
  The swarm orchestrator, \<open>internal/orchestrator/orchestrator.go\<close>.  Leaves run concurrently but
  each writes only its own slot of the result, so a run is determined by what the outside world
  answers: what each attempt of each leaf returns and when the context was seen to be cancelled.
  These answers are a record; everything the code computes from them is modelled: how many leaves are
  spawned, the retries, the order of the report, the merge into the signed ledger of the parent
  task, and the collected ledger errors.
\<close>

section \<open>Data\<close>

record leaf_input =
  li_node :: string
  li_task_id :: string
  li_leaf_id :: string
  li_payload :: inputs

text \<open>A duration is a number of nanoseconds.\<close>

record leaf_result =
  lr_leaf_id :: string
  lr_node :: string
  lr_entries :: "entry list"
  lr_err :: "string option"
  lr_duration :: int

definition zero_leaf_result :: leaf_result where
  "zero_leaf_result = \<lparr> lr_leaf_id = [], lr_node = [], lr_entries = [], lr_err = None, lr_duration = 0 \<rparr>"

record plan =
  pl_task_id :: string
  pl_tenant_id :: string
  pl_parent_run :: string
  pl_leaves :: "leaf_input list"
  pl_max_parallel :: int
  pl_retry_each :: int

type_synonym append_failure = "string \<times> string \<times> ledger_err"

record swarm_result =
  sw_task_id :: string
  sw_leaves :: "leaf_result list"
  sw_ok :: bool
  sw_cancelled :: bool
  sw_started_at :: gtime
  sw_ended_at :: gtime
  sw_ledger_errs :: "append_failure list"

type_synonym leaf_outcome = "entry list \<times> string option"

text \<open>\<open>wd_run i k\<close> is what attempt \<open>k\<close> of the leaf in slot \<open>i\<close> returns; the \<open>wd_ctx\<close>
  fields are what \<open>ctx.Err() != nil\<close> is before leaf \<open>i\<close> is spawned, after attempt \<open>k\<close> of
  leaf \<open>i\<close>, and when the leaves are done.\<close>

record swarm_world =
  wd_run :: "nat \<Rightarrow> nat \<Rightarrow> leaf_outcome"
  wd_ctx_spawn :: "nat \<Rightarrow> bool"
  wd_ctx_retry :: "nat \<Rightarrow> nat \<Rightarrow> bool"
  wd_ctx_end :: bool
  wd_duration :: "nat \<Rightarrow> int"
  wd_started :: gtime
  wd_ended :: gtime

section \<open>Running the leaves\<close>

text \<open>The attempts of one leaf: \<open>n\<close> are left, \<open>k\<close> is the next.\<close>

fun run_attempts :: "(nat \<Rightarrow> leaf_outcome) \<Rightarrow> (nat \<Rightarrow> bool) \<Rightarrow> nat \<Rightarrow> nat \<Rightarrow> leaf_outcome \<Rightarrow> leaf_outcome" where
  "run_attempts attempt ctx k 0 prev = prev"
| "run_attempts attempt ctx k (Suc n) prev =
     (case attempt k of
        (es, None) \<Rightarrow> (es, None)
      | (es, Some e) \<Rightarrow> if ctx k then (es, Some e) else run_attempts attempt ctx (Suc k) n (es, Some e))"

definition run_leaf :: "swarm_world \<Rightarrow> plan \<Rightarrow> nat \<Rightarrow> leaf_input \<Rightarrow> leaf_result" where
  "run_leaf w plan i leaf =
     (case run_attempts (wd_run w i) (wd_ctx_retry w i) 0 (nat (pl_retry_each plan + 1)) ([], None) of
        (es, e) \<Rightarrow> \<lparr> lr_leaf_id = li_leaf_id leaf, lr_node = li_node leaf, lr_entries = es, lr_err = e, lr_duration = wd_duration w i \<rparr>)"

text \<open>The spawning loop stops at the first leaf before which the context is cancelled; the slots
  after it keep the zero value.\<close>

fun run_leaves :: "swarm_world \<Rightarrow> plan \<Rightarrow> nat \<Rightarrow> leaf_input list \<Rightarrow> leaf_result list" where
  "run_leaves w plan i [] = []"
| "run_leaves w plan i (leaf # leaves) =
     (if wd_ctx_spawn w i then replicate (Suc (length leaves)) zero_leaf_result
      else run_leaf w plan i leaf # run_leaves w plan (Suc i) leaves)"

text \<open>The number of slots of the semaphore.\<close>

definition max_par :: "plan \<Rightarrow> int" where
  "max_par plan =
     (if pl_max_parallel plan \<le> 0 \<or> pl_max_parallel plan > int (length (pl_leaves plan)) then int (length (pl_leaves plan))
      else pl_max_parallel plan)"

section \<open>Merging into the ledger\<close>

definition result_cancelled :: string where "result_cancelled = ''cancelled''"

definition swarm_entry :: "plan \<Rightarrow> string \<Rightarrow> string \<Rightarrow> int \<Rightarrow> entry" where
  "swarm_entry plan action res dur =
     zero_entry\<lparr> en_tenant_id := pl_tenant_id plan, en_phase := ''swarm'', en_action := action, en_result := res, en_duration_ms := dur \<rparr>"

text \<open>\<open>Duration.Milliseconds\<close> truncates towards zero.\<close>

definition milliseconds :: "int \<Rightarrow> int" where
  "milliseconds d = (if d < 0 then - (- d div 1000000) else d div 1000000)"

definition merge_entry :: "plan \<Rightarrow> entry \<Rightarrow> entry" where
  "merge_entry plan e =
     e\<lparr> en_task_id := pl_task_id plan, en_tenant_id := (if en_tenant_id e = [] then pl_tenant_id plan else en_tenant_id e) \<rparr>"

definition leaf_entries :: "plan \<Rightarrow> bool \<Rightarrow> leaf_result \<Rightarrow> entry list" where
  "leaf_entries plan cancelled lr =
     map (merge_entry plan) (lr_entries lr)
     @ (if cancelled then []
        else [case lr_err lr of
                Some _ \<Rightarrow> swarm_entry plan (''leaf-error:'' @ lr_leaf_id lr) result_error (milliseconds (lr_duration lr))
              | None \<Rightarrow> swarm_entry plan (''leaf-ok:'' @ lr_leaf_id lr) result_ok (milliseconds (lr_duration lr))])"

definition final_entry :: "plan \<Rightarrow> bool \<Rightarrow> bool \<Rightarrow> entry" where
  "final_entry plan cancelled all_ok =
     (if cancelled then swarm_entry plan ''cancel'' result_cancelled 0
      else swarm_entry plan (''done:'' @ pl_parent_run plan) (if all_ok then result_ok else result_error) 0)"

definition swarm_entries :: "plan \<Rightarrow> leaf_result list \<Rightarrow> bool \<Rightarrow> bool \<Rightarrow> entry list" where
  "swarm_entries plan results cancelled all_ok =
     swarm_entry plan (''start:'' @ pl_parent_run plan) result_ok 0
     # concat (map (leaf_entries plan cancelled) results) @ [final_entry plan cancelled all_ok]"

text \<open>\<open>writeEntry\<close> for each entry in turn; \<open>clk n\<close> is the time of the \<open>n\<close>-th append.\<close>

fun write_entries ::
  "signer \<Rightarrow> faults \<Rightarrow> (nat \<Rightarrow> gtime) \<Rightarrow> ledger \<Rightarrow> string \<Rightarrow> nat \<Rightarrow> entry list \<Rightarrow> fs \<Rightarrow> append_failure list \<times> fs" where
  "write_entries sign flt clk l task n [] fs = ([], fs)"
| "write_entries sign flt clk l task n (e # es) fs =
     (case append_entry sign flt (clk n) l fs task e of
        Inl (x, fs') \<Rightarrow> (case write_entries sign flt clk l task (Suc n) es fs' of
                          (xs, fs'') \<Rightarrow> ((en_phase e, en_action e, x) # xs, fs''))
      | Inr fs' \<Rightarrow> write_entries sign flt clk l task (Suc n) es fs')"

datatype swarm_err = NilRunner | NoTaskID

record orchestrator =
  or_ledger :: "ledger option"
  or_has_run :: bool

definition execute ::
  "signer \<Rightarrow> faults \<Rightarrow> (nat \<Rightarrow> gtime) \<Rightarrow> orchestrator \<Rightarrow> swarm_world \<Rightarrow> plan \<Rightarrow> fs \<Rightarrow> (swarm_err, swarm_result) result \<times> fs" where
  "execute sign flt clk orch w plan fs =
     (if \<not> or_has_run orch then (err NilRunner, fs)
      else if pl_task_id plan = [] then (err NoTaskID, fs)
      else
        (let results = sort_key lr_leaf_id (run_leaves w plan 0 (pl_leaves plan));
             all_ok = list_all (\<lambda>lr. lr_err lr = None) results;
             cancelled = wd_ctx_end w
         in case (case or_ledger orch of
                    None \<Rightarrow> ([], fs)
                  | Some l \<Rightarrow> write_entries sign flt clk l (pl_task_id plan) 0 (swarm_entries plan results cancelled all_ok) fs) of
              (errs, fs') \<Rightarrow>
                (ok \<lparr> sw_task_id = pl_task_id plan, sw_leaves = results, sw_ok = all_ok \<and> \<not> cancelled, sw_cancelled = cancelled,
                      sw_started_at = wd_started w, sw_ended_at = wd_ended w, sw_ledger_errs = errs \<rparr>, fs')))"

section \<open>Summary\<close>

text \<open>\<open>Duration.Round\<close> to the millisecond, half away from zero, and \<open>Duration.String\<close> of a
  multiple of a millisecond.\<close>

definition round_ms :: "int \<Rightarrow> int" where
  "round_ms d =
     (let r = \<bar>d\<bar> mod 1000000; q = \<bar>d\<bar> - r; v = (if 2 * r < 1000000 then q else q + 1000000) in if d < 0 then - v else v)"

definition duration_string :: "int \<Rightarrow> string" where
  "duration_string d =
     (let u = \<bar>d\<bar>; s = u div nano; sgn = (if d < 0 then ''-'' else '''');
          sec = itoa (s mod 60) @ frac_str (u mod nano) @ ''s''
      in if u = 0 then ''0s''
         else if u < nano then sgn @ itoa (u div 1000000) @ ''ms''
         else if s < 60 then sgn @ sec
         else if s < 3600 then sgn @ itoa (s div 60) @ ''m'' @ sec
         else sgn @ itoa (s div 3600) @ ''h'' @ itoa (s div 60 mod 60) @ ''m'' @ sec)"

definition summary :: "swarm_result \<Rightarrow> string" where
  "summary r =
     (let n = length (sw_leaves r); k = length (filter (\<lambda>l. lr_err l = None) (sw_leaves r)) in
      ''task='' @ sw_task_id r @ '' leaves='' @ itoa (int n) @ '' ok='' @ itoa (int k) @ '' failed='' @ itoa (int n - int k)
      @ '' duration='' @ duration_string (round_ms (t_ns (sw_ended_at r) - t_ns (sw_started_at r))))"

section \<open>Retries\<close>

lemma run_attempts_first:
  "\<exists>j \<le> n. run_attempts attempt ctx k (Suc n) prev = attempt (k + j)
     \<and> (\<forall>i < j. snd (attempt (k + i)) \<noteq> None \<and> \<not> ctx (k + i))
     \<and> (snd (attempt (k + j)) = None \<or> ctx (k + j) \<or> j = n)"
proof (induction n arbitrary: k prev)
  case 0
  obtain es e where a: "attempt k = (es, e)" by (cases "attempt k")
  then show ?case by (cases e) auto
next
  case (Suc n)
  obtain es e where a: "attempt k = (es, e)" by (cases "attempt k")
  show ?case
  proof (cases "e = None \<or> ctx k")
    case True
    then show ?thesis using a by (intro exI [of _ 0]) (auto split: option.splits)
  next
    case False
    then obtain x where e: "e = Some x" by auto
    obtain j where j: "j \<le> n" "run_attempts attempt ctx (Suc k) (Suc n) (es, e) = attempt (Suc k + j)"
      "\<forall>i < j. snd (attempt (Suc k + i)) \<noteq> None \<and> \<not> ctx (Suc k + i)"
      "snd (attempt (Suc k + j)) = None \<or> ctx (Suc k + j) \<or> j = n"
      using Suc.IH [of "Suc k" "(es, e)"] by blast
    have "run_attempts attempt ctx k (Suc (Suc n)) prev = attempt (k + Suc j)"
      using a e False j(2) by (subst run_attempts.simps) simp
    moreover have "\<forall>i < Suc j. snd (attempt (k + i)) \<noteq> None \<and> \<not> ctx (k + i)"
    proof (intro allI impI)
      fix i assume "i < Suc j"
      then show "snd (attempt (k + i)) \<noteq> None \<and> \<not> ctx (k + i)"
        using a e False j(3) by (cases i) auto
    qed
    ultimately show ?thesis using j(1,4) by (intro exI [of _ "Suc j"]) auto
  qed
qed

text \<open> Retries.  A leaf that is spawned reports what one of its first \<open>RetryEach + 1\<close> attempts
  returned: the first that succeeded or after which the context was cancelled, and the last one if
  there is none.\<close>

theorem leaf_retries:
  assumes "0 \<le> pl_retry_each plan"
  shows "\<exists>k \<le> nat (pl_retry_each plan). (lr_entries (run_leaf w plan i leaf), lr_err (run_leaf w plan i leaf)) = wd_run w i k
     \<and> (\<forall>j < k. snd (wd_run w i j) \<noteq> None \<and> \<not> wd_ctx_retry w i j)
     \<and> (snd (wd_run w i k) = None \<or> wd_ctx_retry w i k \<or> k = nat (pl_retry_each plan))"
proof -
  have "nat (pl_retry_each plan + 1) = Suc (nat (pl_retry_each plan))" using assms by simp
  then show ?thesis
    using run_attempts_first [of "nat (pl_retry_each plan)" "wd_run w i" "wd_ctx_retry w i" 0 "([], None)"]
    by (auto simp: run_leaf_def split: prod.splits)
qed

section \<open>The trail of a swarm\<close>

lemma write_entries_log:
  assumes "ledger_ready sign verify l fs" "SLASH \<notin> set task" "\<And>e n. e \<in> set es \<Longrightarrow> legal_append sign l task (no_faults, clk n, e)"
  shows "\<exists>fs'. write_entries sign no_faults clk l task n es fs = ([], fs') \<and> ledger_ready sign verify l fs'
     \<and> ledger_get verify l fs' task = ledger_get verify l fs task @ map (\<lambda>(k, e). stored_entry sign l (clk k) task e) (List.enumerate n es)
     \<and> (\<forall>other. SLASH \<notin> set other \<longrightarrow> other \<noteq> task \<longrightarrow> ledger_get verify l fs' other = ledger_get verify l fs other)"
  using assms(1,3)
proof (induction es arbitrary: n fs)
  case (Cons e es)
  obtain fs1 where a: "append_entry sign no_faults (clk n) l fs task e = ok fs1" "ledger_ready sign verify l fs1"
    "ledger_get verify l fs1 task = ledger_get verify l fs task @ [stored_entry sign l (clk n) task e]"
    "\<And>other. SLASH \<notin> set other \<Longrightarrow> other \<noteq> task \<Longrightarrow> ledger_get verify l fs1 other = ledger_get verify l fs other"
    by (rule append_ready [OF Cons.prems(1) assms(2) Cons.prems(2) [of e n]]) (simp, blast)
  show ?case using Cons.IH [OF a(2) Cons.prems(2), of "Suc n"] a by auto
qed simp

definition swarm_leaves :: "swarm_world \<Rightarrow> plan \<Rightarrow> leaf_result list" where
  "swarm_leaves w plan = sort_key lr_leaf_id (run_leaves w plan 0 (pl_leaves plan))"

definition leaves_ok :: "leaf_result list \<Rightarrow> bool" where
  "leaves_ok lrs = list_all (\<lambda>lr. lr_err lr = None) lrs"

text \<open>The names of the plan are short and every entry that a leaf may return fits a ledger line.\<close>

definition swarm_small :: "swarm_world \<Rightarrow> plan \<Rightarrow> bool" where
  "swarm_small w plan \<longleftrightarrow> short_name (pl_task_id plan) \<and> short_name (pl_tenant_id plan) \<and> short_name (pl_parent_run plan)
     \<and> list_all (\<lambda>leaf. short_name (li_leaf_id leaf)) (pl_leaves plan) \<and> (\<forall>i. in_int64 (wd_duration w i))
     \<and> (\<forall>i k. list_all (small_entry (pl_task_id plan)) (map (merge_entry plan) (fst (wd_run w i k))))"

lemma run_attempts_mem: "run_attempts attempt ctx k n prev = prev \<or> (\<exists>j. run_attempts attempt ctx k n prev = attempt j)"
proof (cases n)
  case (Suc m)
  then show ?thesis using run_attempts_first [of m attempt ctx k prev] by auto
qed simp

lemma run_leaves_mem:
  assumes "lr \<in> set (run_leaves w plan i leaves)"
  shows "lr = zero_leaf_result \<or> (\<exists>j leaf. leaf \<in> set leaves \<and> lr = run_leaf w plan j leaf)"
  using assms by (induction w plan i leaves rule: run_leaves.induct) (auto split: if_splits)

lemma run_leaf_fields:
  "lr_leaf_id (run_leaf w plan i leaf) = li_leaf_id leaf" "lr_duration (run_leaf w plan i leaf) = wd_duration w i"
  "lr_entries (run_leaf w plan i leaf) = [] \<or> (\<exists>k. lr_entries (run_leaf w plan i leaf) = fst (wd_run w i k))"
  using run_attempts_mem [of "wd_run w i" "wd_ctx_retry w i" 0 "nat (pl_retry_each plan + 1)" "([], None)"]
  by (auto simp: run_leaf_def split: prod.splits) (metis fst_conv)

lemma milliseconds_int64: "in_int64 d \<Longrightarrow> in_int64 (milliseconds d)"
  by (auto simp: in_int64_def min_int64_def max_int64_def milliseconds_def)

lemma swarm_entry_small:
  assumes "swarm_small w plan" "valid_utf8 action" "length action \<le> 2000" "valid_utf8 res" "length res \<le> 20" "in_int64 dur"
  shows "small_entry (pl_task_id plan) (swarm_entry plan action res dur)"
proof -
  have "valid_utf8 ''swarm''" "valid_utf8 []" by (rule valid_utf8_ascii; auto simp: byte_def)+
  then show ?thesis
    using assms zero_time_ok by (simp add: swarm_small_def short_name_def small_entry_def swarm_entry_def zero_entry_def)
qed

lemma valid_utf8_prefix: "valid_utf8 s \<Longrightarrow> list_all (\<lambda>c. byte c < 128) p \<Longrightarrow> valid_utf8 (p @ s)"
  by (induction p) (simp_all add: valid_Cons_ascii)

lemma swarm_results_valid:
  "valid_utf8 result_ok" "valid_utf8 result_error" "valid_utf8 result_cancelled"
  "length result_ok \<le> 20" "length result_error \<le> 20" "length result_cancelled \<le> 20"
  unfolding result_ok_def result_error_def result_cancelled_def by (rule valid_utf8_ascii; auto simp: byte_def)+ simp_all

lemma leaf_entries_small:
  assumes "swarm_small w plan" "lr \<in> set (run_leaves w plan 0 (pl_leaves plan))" "e \<in> set (leaf_entries plan c lr)"
  shows "small_entry (pl_task_id plan) e"
proof -
  have lr: "valid_utf8 (lr_leaf_id lr) \<and> length (lr_leaf_id lr) \<le> 1000" "in_int64 (lr_duration lr)"
    "list_all (small_entry (pl_task_id plan)) (map (merge_entry plan) (lr_entries lr))"
    using run_leaves_mem [OF assms(2)] assms(1) run_leaf_fields
    by (auto simp: zero_leaf_result_def swarm_small_def short_name_def list_all_iff in_int64_def min_int64_def max_int64_def) (metis emptyE list.set(1))+
  have p: "list_all (\<lambda>c. byte c < 128) ''leaf-error:''" "list_all (\<lambda>c. byte c < 128) ''leaf-ok:''" by (simp_all add: byte_def)
  consider "e \<in> set (map (merge_entry plan) (lr_entries lr))"
    | "e = swarm_entry plan (''leaf-error:'' @ lr_leaf_id lr) result_error (milliseconds (lr_duration lr))"
    | "e = swarm_entry plan (''leaf-ok:'' @ lr_leaf_id lr) result_ok (milliseconds (lr_duration lr))"
    using assms(3) by (auto simp: leaf_entries_def split: if_splits option.splits)
  then show ?thesis
  proof cases
    case 1
    then show ?thesis using lr(3) by (auto simp: list_all_iff)
  next
    case 2
    then show ?thesis
      using swarm_entry_small [OF assms(1) valid_utf8_prefix [OF _ p(1)], of "lr_leaf_id lr" result_error] lr swarm_results_valid milliseconds_int64 by simp
  next
    case 3
    then show ?thesis
      using swarm_entry_small [OF assms(1) valid_utf8_prefix [OF _ p(2)], of "lr_leaf_id lr" result_ok] lr swarm_results_valid milliseconds_int64 by simp
  qed
qed

lemma swarm_entries_small:
  assumes "swarm_small w plan" "e \<in> set (swarm_entries plan (swarm_leaves w plan) c b)"
  shows "small_entry (pl_task_id plan) e"
proof -
  have p: "list_all (\<lambda>c. byte c < 128) ''start:''" "list_all (\<lambda>c. byte c < 128) ''done:''" by (simp_all add: byte_def)
  have pr: "valid_utf8 (pl_parent_run plan)" "length (pl_parent_run plan) \<le> 1000" using assms(1) by (auto simp: swarm_small_def short_name_def)
  have z: "in_int64 0" by (simp add: in_int64_def min_int64_def max_int64_def)
  have c: "valid_utf8 ''cancel''" by (rule valid_utf8_ascii) (auto simp: byte_def)
  note se = swarm_entry_small [OF assms(1)] swarm_results_valid
  consider "e = swarm_entry plan (''start:'' @ pl_parent_run plan) result_ok 0"
    | lr where "lr \<in> set (run_leaves w plan 0 (pl_leaves plan))" "e \<in> set (leaf_entries plan c lr)"
    | "e = final_entry plan c b"
    using assms(2) by (auto simp: swarm_entries_def swarm_leaves_def)
  then show ?thesis
  proof cases
    case 1
    then show ?thesis using se(1) [OF valid_utf8_prefix [OF pr(1) p(1)]] pr se(2-) z by simp
  next
    case 2
    then show ?thesis using leaf_entries_small [OF assms(1)] by blast
  next
    case 3
    then show ?thesis
      using se(1) [OF valid_utf8_prefix [OF pr(1) p(2)]] se(1) [OF c] pr se(2-) z by (simp add: final_entry_def)
  qed
qed

lemma execute_run:
  assumes "ledger_ready sign verify l fs" "SLASH \<notin> set (pl_task_id plan)" "pl_task_id plan \<noteq> []" "swarm_small w plan"
    "\<And>n. time_ok (to_utc (clk n))" "or_has_run orch" "or_ledger orch = Some l"
  shows "\<exists>fs'. execute sign no_faults clk orch w plan fs =
       (ok \<lparr> sw_task_id = pl_task_id plan, sw_leaves = swarm_leaves w plan, sw_ok = leaves_ok (swarm_leaves w plan) \<and> \<not> wd_ctx_end w,
              sw_cancelled = wd_ctx_end w, sw_started_at = wd_started w, sw_ended_at = wd_ended w, sw_ledger_errs = [] \<rparr>, fs')
     \<and> ledger_get verify l fs' (pl_task_id plan) = ledger_get verify l fs (pl_task_id plan)
         @ map (\<lambda>(k, e). stored_entry sign l (clk k) (pl_task_id plan) e)
             (List.enumerate 0 (swarm_entries plan (swarm_leaves w plan) (wd_ctx_end w) (leaves_ok (swarm_leaves w plan))))
     \<and> (\<forall>other. SLASH \<notin> set other \<longrightarrow> other \<noteq> pl_task_id plan \<longrightarrow> ledger_get verify l fs' other = ledger_get verify l fs other)"
proof -
  have w: "writer_ok sign verify l" using assms(1) by (simp add: ledger_ready_def)
  let ?es = "swarm_entries plan (swarm_leaves w plan) (wd_ctx_end w) (leaves_ok (swarm_leaves w plan))"
  have legal: "legal_append sign l (pl_task_id plan) (no_faults, clk n, e)" if "e \<in> set ?es" for e n
    by (rule small_entry_legal [OF w swarm_entries_small [OF assms(4) that] assms(5)])
  obtain fs' where "write_entries sign no_faults clk l (pl_task_id plan) 0 ?es fs = ([], fs')"
    "ledger_get verify l fs' (pl_task_id plan) = ledger_get verify l fs (pl_task_id plan)
         @ map (\<lambda>(k, e). stored_entry sign l (clk k) (pl_task_id plan) e) (List.enumerate 0 ?es)"
    "\<forall>other. SLASH \<notin> set other \<longrightarrow> other \<noteq> pl_task_id plan \<longrightarrow> ledger_get verify l fs' other = ledger_get verify l fs other"
    using write_entries_log [OF assms(1,2), where clk = clk and n = 0 and es = ?es] legal by blast
  then show ?thesis
    using assms(3,6,7) by (auto simp: execute_def Let_def swarm_leaves_def leaves_ok_def)
qed

lemma stored_fields:
  "en_tenant_id (stored_entry sign l now task e) = en_tenant_id e" "en_result (stored_entry sign l now task e) = en_result e"
  "en_phase (stored_entry sign l now task e) = en_phase e" "en_action (stored_entry sign l now task e) = en_action e"
  "en_task_id (stored_entry sign l now task e) = (if en_task_id e = [] then task else en_task_id e)"
  "en_duration_ms (stored_entry sign l now task e) = en_duration_ms e" "en_stderr_tail (stored_entry sign l now task e) = en_stderr_tail e"
  "en_stdout_tail (stored_entry sign l now task e) = en_stdout_tail e"
  by (simp_all add: stored_entry_def Let_def canon_entry_def stamp_entry_def)

lemma swarm_entries_attributed:
  "e \<in> set (swarm_entries plan lrs c b) \<Longrightarrow>
     (en_task_id e = [] \<or> en_task_id e = pl_task_id plan) \<and> (pl_tenant_id plan \<noteq> [] \<longrightarrow> en_tenant_id e \<noteq> [])"
  by (auto simp: swarm_entries_def leaf_entries_def final_entry_def swarm_entry_def merge_entry_def zero_entry_def
      split: if_splits option.splits)

text \<open>What the trail of a swarm has to say, written down without the entries of the code: one line for each entry, with
  phase, action, result, tenant, milliseconds and the two tails.\<close>

type_synonym trail_line = "string \<times> string \<times> string \<times> string \<times> int \<times> string \<times> string"

definition line_of :: "entry \<Rightarrow> trail_line" where
  "line_of e = (en_phase e, en_action e, en_result e, en_tenant_id e, en_duration_ms e, en_stderr_tail e, en_stdout_tail e)"

definition leaf_script :: "plan \<Rightarrow> bool \<Rightarrow> leaf_result \<Rightarrow> trail_line list" where
  "leaf_script plan cancelled lr =
     [(en_phase e, en_action e, en_result e, (if en_tenant_id e = [] then pl_tenant_id plan else en_tenant_id e), en_duration_ms e,
       en_stderr_tail e, en_stdout_tail e). e \<leftarrow> lr_entries lr]
     @ (let ms = sgn (lr_duration lr) * (\<bar>lr_duration lr\<bar> div 1000000) in
        if cancelled then []
        else if lr_err lr = None then [(''swarm'', ''leaf-ok:'' @ lr_leaf_id lr, ''ok'', pl_tenant_id plan, ms, [], [])]
        else [(''swarm'', ''leaf-error:'' @ lr_leaf_id lr, ''error'', pl_tenant_id plan, ms, [], [])])"

definition swarm_script :: "plan \<Rightarrow> bool \<Rightarrow> leaf_result list \<Rightarrow> trail_line list" where
  "swarm_script plan cancelled lrs =
     (''swarm'', ''start:'' @ pl_parent_run plan, ''ok'', pl_tenant_id plan, 0, [], [])
     # concat (map (leaf_script plan cancelled) lrs)
     @ [if cancelled then (''swarm'', ''cancel'', ''cancelled'', pl_tenant_id plan, 0, [], [])
        else (''swarm'', ''done:'' @ pl_parent_run plan, (if \<exists>lr \<in> set lrs. lr_err lr \<noteq> None then ''error'' else ''ok''), pl_tenant_id plan, 0, [], [])]"

lemma line_of_swarm_entry: "line_of (swarm_entry plan a r d) = (''swarm'', a, r, pl_tenant_id plan, d, [], [])"
  by (simp add: line_of_def swarm_entry_def zero_entry_def)

lemma leaf_lines: "map line_of (leaf_entries plan c lr) = leaf_script plan c lr"
proof -
  have "milliseconds d = sgn d * (\<bar>d\<bar> div 1000000)" for d by (simp add: milliseconds_def sgn_if)
  moreover have "map (line_of \<circ> merge_entry plan) es =
      [(en_phase e, en_action e, en_result e, (if en_tenant_id e = [] then pl_tenant_id plan else en_tenant_id e), en_duration_ms e,
       en_stderr_tail e, en_stdout_tail e). e \<leftarrow> es]" for es
    by (induction es) (simp_all add: line_of_def merge_entry_def)
  ultimately show ?thesis
    by (simp add: leaf_entries_def leaf_script_def line_of_swarm_entry result_ok_def result_error_def split: option.splits)
qed

lemma swarm_lines: "map line_of (swarm_entries plan lrs c (leaves_ok lrs)) = swarm_script plan c lrs"
proof -
  have "map line_of (concat (map (leaf_entries plan c) lrs)) = concat (map (leaf_script plan c) lrs)"
    by (induction lrs) (simp_all add: leaf_lines)
  then show ?thesis
    by (auto simp: swarm_entries_def swarm_script_def final_entry_def line_of_swarm_entry leaves_ok_def list_all_iff result_ok_def
        result_error_def result_cancelled_def)
qed

lemma stored_lines: "map line_of (map (\<lambda>(k, e). stored_entry sign l (clk k) task e) (List.enumerate n es)) = map line_of es"
  by (induction es arbitrary: n) (simp_all add: line_of_def stored_fields)

text \<open>C28.  The swarm's signed trail is complete and ordered.  On a writable ledger, for a plan whose
  names are short and whose leaves return entries that fit a line, a swarm reports no ledger error, and reports exactly
  the leaves that ran, ordered by identifier.  To the log of its task it adds readable entries that say: the start marker; leaf by
  leaf in that order the entries the leaf returned, with the tenant of the plan where they had none, and, unless
  cancelled, \<open>leaf-ok\<close> or \<open>leaf-error\<close> by its outcome with its duration; and the final marker, \<open>cancel\<close>, or \<open>done\<close> with ok
  exactly when no leaf failed.  The logs of other tasks are untouched.\<close>

theorem swarm_trail:
  assumes "ledger_ready sign verify l fs" "SLASH \<notin> set (pl_task_id plan)" "pl_task_id plan \<noteq> []" "swarm_small w plan"
    "\<And>n. time_ok (to_utc (clk n))" "or_has_run orch" "or_ledger orch = Some l"
    "execute sign no_faults clk orch w plan fs = (ok r, fs')"
  shows "sw_ledger_errs r = [] \<and> sorted (map lr_leaf_id (sw_leaves r)) \<and> mset (sw_leaves r) = mset (run_leaves w plan 0 (pl_leaves plan))
     \<and> (\<exists>new. ledger_get verify l fs' (pl_task_id plan) = ledger_get verify l fs (pl_task_id plan) @ new
          \<and> map line_of new = swarm_script plan (wd_ctx_end w) (sw_leaves r))
     \<and> (\<forall>other. SLASH \<notin> set other \<longrightarrow> other \<noteq> pl_task_id plan \<longrightarrow> ledger_get verify l fs' other = ledger_get verify l fs other)"
  using execute_run [where clk = clk, OF assms(1-7)] assms(8) stored_lines swarm_lines
  by (auto simp: swarm_leaves_def simp del: map_map)

text \<open>C32.  Attribution.  Every entry that a swarm adds to the ledger carries the plan's task, and, if
  the plan has a tenant, a tenant.\<close>

theorem swarm_attribution:
  assumes "ledger_ready sign verify l fs" "SLASH \<notin> set (pl_task_id plan)" "pl_task_id plan \<noteq> []" "swarm_small w plan"
    "\<And>n. time_ok (to_utc (clk n))" "or_has_run orch" "or_ledger orch = Some l"
    "execute sign no_faults clk orch w plan fs = (ok r, fs')"
  shows "\<exists>new. ledger_get verify l fs' (pl_task_id plan) = ledger_get verify l fs (pl_task_id plan) @ new
     \<and> (\<forall>e \<in> set new. en_task_id e = pl_task_id plan \<and> (pl_tenant_id plan \<noteq> [] \<longrightarrow> en_tenant_id e \<noteq> []))"
proof -
  let ?es = "swarm_entries plan (swarm_leaves w plan) (wd_ctx_end w) (leaves_ok (swarm_leaves w plan))"
  let ?new = "map (\<lambda>(k, e). stored_entry sign l (clk k) (pl_task_id plan) e) (List.enumerate 0 ?es)"
  have "en_task_id e = pl_task_id plan \<and> (pl_tenant_id plan \<noteq> [] \<longrightarrow> en_tenant_id e \<noteq> [])" if e: "e \<in> set ?new" for e
  proof -
    obtain k x where "(k, x) \<in> set (List.enumerate 0 ?es)" "e = stored_entry sign l (clk k) (pl_task_id plan) x" using e by auto
    then have "x \<in> set ?es" "e = stored_entry sign l (clk k) (pl_task_id plan) x"
      by (auto simp: in_set_enumerate_eq)
    then show ?thesis using swarm_entries_attributed [of x] by (auto simp: stored_fields)
  qed
  then show ?thesis using execute_run [where clk = clk, OF assms(1-7)] assms(8) by auto
qed

text \<open> Cancellation.  A cancelled swarm is reported as cancelled and not OK, and its last entry is
  the one cancel marker; it writes no leaf outcome and no done marker of its own.  But what a leaf
  returned before the cancellation is merged all the same: a bill entry of a leaf is in the log of the
  cancelled task.\<close>

theorem cancelled_swarm_bills:
  assumes "ledger_ready sign verify l fs" "SLASH \<notin> set (pl_task_id plan)" "pl_task_id plan \<noteq> []" "swarm_small w plan"
    "\<And>n. time_ok (to_utc (clk n))" "or_has_run orch" "or_ledger orch = Some l"
    "execute sign no_faults clk orch w plan fs = (ok r, fs')" "wd_ctx_end w"
    "lr \<in> set (sw_leaves r)" "e \<in> set (lr_entries lr)" "en_result e = result_bill"
  shows "\<not> sw_ok r \<and> sw_cancelled r
     \<and> (\<exists>new. ledger_get verify l fs' (pl_task_id plan) = ledger_get verify l fs (pl_task_id plan) @ new
          \<and> en_action (last new) = ''cancel'' \<and> en_result (last new) = result_cancelled
          \<and> (\<exists>b \<in> set new. en_result b = result_bill)
          \<and> length new = 2 + length (concat (map lr_entries (sw_leaves r))))"
proof -
  have r: "sw_leaves r = swarm_leaves w plan" "\<not> sw_ok r" "sw_cancelled r"
    using execute_run [where clk = clk, OF assms(1-7)] assms(8,9) by auto
  let ?es = "swarm_entries plan (sw_leaves r) True (leaves_ok (sw_leaves r))"
  let ?new = "map (\<lambda>(k, e). stored_entry sign l (clk k) (pl_task_id plan) e) (List.enumerate 0 ?es)"
  have g: "ledger_get verify l fs' (pl_task_id plan) = ledger_get verify l fs (pl_task_id plan) @ ?new"
    using execute_run [where clk = clk, OF assms(1-7)] assms(8,9) by auto
  have "last ?new = stored_entry sign l (clk (length ?es - 1)) (pl_task_id plan) (final_entry plan True (leaves_ok (sw_leaves r)))"
    by (simp add: swarm_entries_def enumerate_append_eq)
  then have l: "en_action (last ?new) = ''cancel''" "en_result (last ?new) = result_cancelled"
    by (simp_all add: stored_fields final_entry_def swarm_entry_def)
  have "merge_entry plan e \<in> set ?es" using assms(10,11) by (auto simp: swarm_entries_def leaf_entries_def)
  then obtain k where "k < length ?es" "?es ! k = merge_entry plan e" by (auto simp: in_set_conv_nth)
  then have "(k, merge_entry plan e) \<in> set (List.enumerate 0 ?es)" by (simp add: in_set_enumerate_eq)
  then have "stored_entry sign l (clk k) (pl_task_id plan) (merge_entry plan e) \<in> set ?new" by force
  moreover have "en_result (stored_entry sign l (clk k) (pl_task_id plan) (merge_entry plan e)) = result_bill"
    using assms(12) by (simp add: stored_fields merge_entry_def)
  ultimately have b: "\<exists>b \<in> set ?new. en_result b = result_bill" by blast
  have n: "length ?new = 2 + length (concat (map lr_entries (sw_leaves r)))"
    by (simp add: swarm_entries_def leaf_entries_def length_concat comp_def)
  show ?thesis using r(2,3) g l b n by blast
qed

section \<open>A concrete swarm\<close>

definition demo_bill :: entry where
  "demo_bill = zero_entry\<lparr> en_ts := time_utc 1704164645500000000, en_phase := ''bill'', en_result := result_bill \<rparr>"

definition demo_plan :: plan where
  "demo_plan = \<lparr> pl_task_id = ''t'', pl_tenant_id = ''acme'', pl_parent_run = ''u'',
     pl_leaves = [\<lparr> li_node = ''n'', li_task_id = ''t'', li_leaf_id = ''a'', li_payload = [] \<rparr>], pl_max_parallel = 0, pl_retry_each = 1 \<rparr>"

definition demo_world :: swarm_world where
  "demo_world = \<lparr> wd_run = (\<lambda>_ _. ([demo_bill], None)), wd_ctx_spawn = (\<lambda>_. False), wd_ctx_retry = (\<lambda>_ _. False), wd_ctx_end = True,
     wd_duration = (\<lambda>_. 5), wd_started = zero_time, wd_ended = zero_time \<rparr>"

abbreviation demo_clk :: "nat \<Rightarrow> gtime" where "demo_clk \<equiv> \<lambda>_. time_utc 1704164645500000000"

abbreviation demo_orch :: orchestrator where "demo_orch \<equiv> \<lparr> or_ledger = Some demo_ledger, or_has_run = True \<rparr>"

lemma demo_ready: "ledger_ready (demo_sign []) (demo_verify []) demo_ledger []"
  using demo_writer demo_inv demo_dir_free by (simp add: ledger_ready_def)

lemma demo_clk_ok: "time_ok (to_utc (demo_clk n))"
  using demo_time_ok by (simp add: to_utc_def time_utc_def)

lemma demo_swarm_small: "swarm_small demo_world demo_plan"
proof -
  have v: "valid_utf8 ''a''" "valid_utf8 result_bill" by (rule valid_utf8_ascii; auto simp: byte_def result_bill_def)+
  have "small_entry ''t'' (merge_entry demo_plan demo_bill)"
    using demo_valid v demo_time_ok
    by (simp add: small_entry_def merge_entry_def demo_plan_def demo_bill_def zero_entry_def in_int64_def min_int64_def max_int64_def result_bill_def)
  then show ?thesis
    using demo_valid v by (simp add: swarm_small_def demo_plan_def demo_world_def short_name_def in_int64_def min_int64_def max_int64_def)
qed

lemma demo_plan_task: "pl_task_id demo_plan = ''t''" "SLASH \<notin> set (pl_task_id demo_plan)" "pl_task_id demo_plan \<noteq> []"
  by (simp_all add: demo_plan_def)

lemmas demo_swarm = demo_ready demo_plan_task(2,3) demo_swarm_small demo_clk_ok

lemma demo_executes:
  obtains r fs' where "execute (demo_sign []) no_faults demo_clk demo_orch demo_world demo_plan [] = (ok r, fs')"
    "sw_leaves r = swarm_leaves demo_world demo_plan"
  using execute_run [where clk = demo_clk and orch = demo_orch, OF demo_swarm] by auto

lemma demo_leaves:
  "swarm_leaves demo_world demo_plan = [\<lparr> lr_leaf_id = ''a'', lr_node = ''n'', lr_entries = [demo_bill], lr_err = None, lr_duration = 5 \<rparr>]"
  by (simp add: swarm_leaves_def demo_plan_def demo_world_def run_leaf_def numeral_2_eq_2)

theorem leaf_retries_witness:
  "\<exists>k \<le> nat (pl_retry_each demo_plan). lr_err (run_leaf demo_world demo_plan 0 (hd (pl_leaves demo_plan))) = snd (wd_run demo_world 0 k)"
proof -
  have "0 \<le> pl_retry_each demo_plan" by (simp add: demo_plan_def)
  from leaf_retries [OF this, of demo_world 0 "hd (pl_leaves demo_plan)"] show ?thesis by (metis snd_conv)
qed

theorem swarm_trail_witness:
  "\<exists>r fs' new. execute (demo_sign []) no_faults demo_clk demo_orch demo_world demo_plan [] = (ok r, fs')
     \<and> sw_ledger_errs r = [] \<and> ledger_get (demo_verify []) demo_ledger fs' ''t'' = ledger_get (demo_verify []) demo_ledger [] ''t'' @ new
     \<and> map line_of new = [(''swarm'', ''start:u'', ''ok'', ''acme'', 0, [], []), (''bill'', [], ''bill'', ''acme'', 0, [], []),
          (''swarm'', ''cancel'', ''cancelled'', ''acme'', 0, [], [])]"
proof -
  obtain r fs' where x: "execute (demo_sign []) no_faults demo_clk demo_orch demo_world demo_plan [] = (ok r, fs')"
    "sw_leaves r = swarm_leaves demo_world demo_plan" by (rule demo_executes)
  have "swarm_script demo_plan (wd_ctx_end demo_world) (sw_leaves r) = [(''swarm'', ''start:u'', ''ok'', ''acme'', 0, [], []),
      (''bill'', [], ''bill'', ''acme'', 0, [], []), (''swarm'', ''cancel'', ''cancelled'', ''acme'', 0, [], [])]"
    unfolding x(2) demo_leaves
    by (simp add: swarm_script_def leaf_script_def demo_plan_def demo_world_def demo_bill_def zero_entry_def result_bill_def)
  with swarm_trail [where clk = demo_clk, OF demo_swarm _ _ x(1)] x(1) show ?thesis
    unfolding demo_plan_task(1) by auto
qed

theorem swarm_attribution_witness:
  "\<exists>r fs' new. execute (demo_sign []) no_faults demo_clk demo_orch demo_world demo_plan [] = (ok r, fs')
     \<and> ledger_get (demo_verify []) demo_ledger fs' ''t'' = ledger_get (demo_verify []) demo_ledger [] ''t'' @ new
     \<and> list_all (\<lambda>e. en_tenant_id e \<noteq> []) new"
proof -
  obtain r fs' where x: "execute (demo_sign []) no_faults demo_clk demo_orch demo_world demo_plan [] = (ok r, fs')" by (rule demo_executes)
  have "pl_tenant_id demo_plan \<noteq> []" by (simp add: demo_plan_def)
  with swarm_attribution [where clk = demo_clk, OF demo_swarm _ _ x] x show ?thesis
    unfolding demo_plan_task(1) list_all_iff by auto
qed

theorem cancelled_swarm_bills_witness:
  "\<exists>r fs'. execute (demo_sign []) no_faults demo_clk demo_orch demo_world demo_plan [] = (ok r, fs') \<and> sw_cancelled r
     \<and> (\<exists>b \<in> set (ledger_get (demo_verify []) demo_ledger fs' ''t''). en_result b = result_bill)"
proof -
  obtain r fs' where x: "execute (demo_sign []) no_faults demo_clk demo_orch demo_world demo_plan [] = (ok r, fs')"
    "sw_leaves r = swarm_leaves demo_world demo_plan" by (rule demo_executes)
  have c: "wd_ctx_end demo_world" by (simp add: demo_world_def)
  have m: "hd (sw_leaves r) \<in> set (sw_leaves r)" "demo_bill \<in> set (lr_entries (hd (sw_leaves r)))" "en_result demo_bill = result_bill"
    by (simp_all add: x(2) demo_leaves demo_bill_def)
  from cancelled_swarm_bills [where clk = demo_clk, OF demo_swarm _ _ x(1) c m] x(1) show ?thesis
    unfolding demo_plan_task(1) by auto
qed

end
