(* ===== verification/Health_Snapshot.thy ===== *)
theory Health_Snapshot
  imports Nodes Go_Time Go_Store
begin

text \<open>
  The handler \<open>fleet.HealthSnapshot\<close>, \<open>internal/rpc/healthsnapshot.go\<close>: the snapshot that
  is computed from the registry and the heartbeats, the helper that sorts names, and the cache with its
  two locks as a transition system of concurrent callers.  A duration is a number of nanoseconds; a
  \<open>float64\<close> number of seconds is represented by its nanoseconds.
\<close>

section \<open>The snapshot\<close>

record gateway_health =
  gh_ok :: bool
  gh_hermes_version :: string
  gh_uptime_seconds :: int

record worker_health =
  wh_node :: string
  wh_ok :: bool
  wh_age :: int
  wh_hermes_version :: string

record sku_conformance =
  sc_sku :: string
  sc_p50_latency :: int
  sc_p95_latency :: int
  sc_error_rate :: int
  sc_sla_target_ms :: int

record health_snapshot =
  hs_ts :: string
  hs_gateway :: gateway_health
  hs_workers :: "worker_health list"
  hs_sku_conformance :: "sku_conformance list"

definition healthy_heartbeat_threshold :: int where "healthy_heartbeat_threshold = 300 * nano"
definition cache_ttl :: int where "cache_ttl = 30 * nano"

text \<open>What the dependencies answer during one computation.  Errors of \<open>HeartbeatAges\<close> and
  \<open>LoadNodes\<close> are dropped by the code; the value beside them is what is used.\<close>

record health_deps =
  hd_now :: gtime
  hd_ages :: "(string \<times> int) list"
  hd_nodes :: "node list"
  hd_version :: string
  hd_version_failed :: bool
  hd_gateway_start :: gtime

text \<open>\<open>int64(d.Seconds())\<close> truncates towards zero.\<close>

definition whole_seconds :: "int \<Rightarrow> int" where
  "whole_seconds d = (if d < 0 then - (- d div nano) else d div nano)"

definition registry_worker :: "(string \<times> int) list \<Rightarrow> node \<Rightarrow> worker_health" where
  "registry_worker ages n =
     (case map_of ages (n_host n) of
        None \<Rightarrow> \<lparr> wh_node = n_host n, wh_ok = False, wh_age = - nano, wh_hermes_version = [] \<rparr>
      | Some age \<Rightarrow> \<lparr> wh_node = n_host n, wh_ok = age < healthy_heartbeat_threshold, wh_age = age, wh_hermes_version = [] \<rparr>)"

definition extra_worker :: "(string \<times> int) list \<Rightarrow> string \<Rightarrow> worker_health" where
  "extra_worker ages host =
     (let age = (case map_of ages host of None \<Rightarrow> 0 | Some a \<Rightarrow> a) in
      \<lparr> wh_node = host, wh_ok = age < healthy_heartbeat_threshold, wh_age = age, wh_hermes_version = [] \<rparr>)"

text \<open>\<open>sortStrings\<close>: the inner loop moves element \<open>j\<close> down, the outer one starts it at each
  index in turn.\<close>

fun sink :: "string list \<Rightarrow> nat \<Rightarrow> string list" where
  "sink s 0 = s"
| "sink s (Suc j) = (if s ! j > s ! Suc j then sink (s[j := s ! Suc j, Suc j := s ! j]) j else s)"

fun sort_from :: "string list \<Rightarrow> nat \<Rightarrow> nat \<Rightarrow> string list" where
  "sort_from s i 0 = s"
| "sort_from s i (Suc n) = sort_from (sink s i) (Suc i) n"

definition sort_strings_local :: "string list \<Rightarrow> string list" where
  "sort_strings_local s = sort_from s 1 (length s - 1)"

definition compute_sku_conformance :: "sku_conformance list" where
  "compute_sku_conformance = []"

definition compute :: "health_deps \<Rightarrow> health_snapshot" where
  "compute d =
     (let gateway = \<lparr> gh_ok = \<not> hd_version_failed d \<and> hd_version d \<noteq> [], gh_hermes_version = hd_version d,
                      gh_uptime_seconds = whole_seconds (t_ns (hd_now d) - t_ns (hd_gateway_start d)) \<rparr>;
          known = map n_host (hd_nodes d);
          extras = sort_strings_local (filter (\<lambda>h. h \<notin> set known) (map fst (hd_ages d)))
      in \<lparr> hs_ts = format_rfc3339 (to_utc (hd_now d)), hs_gateway = gateway,
           hs_workers = map (registry_worker (hd_ages d)) (hd_nodes d) @ map (extra_worker (hd_ages d)) extras,
           hs_sku_conformance = compute_sku_conformance \<rparr>)"

section \<open>The cache\<close>

text \<open>Where a caller of \<open>Snapshot\<close> or \<open>Refresh\<close> is: before the first read, with the cached
  pair it read, waiting for the refresh lock, in the critical section before the second check, in it
  after the check, or returned.\<close>

type_synonym 'v cached = "('v \<times> int) option"

datatype 'v caller =
    Ready
  | HasRead "'v cached"
  | Waiting
  | Locked
  | Computing
  | ForceWaiting
  | Forcing
  | Returned 'v int

text \<open>\<open>hc_filled\<close> records for each computation its end time and whether \<open>Refresh\<close> forced it.\<close>

record 'v health_cache =
  hc_now :: int
  hc_cached :: "'v cached"
  hc_holder :: "nat option"
  hc_caller :: "nat \<Rightarrow> 'v caller"
  hc_filled :: "(int \<times> bool) list"

definition fresh :: "int \<Rightarrow> 'v cached \<Rightarrow> bool" where
  "fresh now c = (case c of None \<Rightarrow> False | Some (_, at) \<Rightarrow> now - at < cache_ttl)"

definition move :: "nat \<Rightarrow> 'v caller \<Rightarrow> 'v health_cache \<Rightarrow> 'v health_cache" where
  "move p c s = s\<lparr> hc_caller := (hc_caller s)(p := c) \<rparr>"

inductive cache_step :: "'v health_cache \<Rightarrow> 'v health_cache \<Rightarrow> bool" where
  tick: "0 \<le> d \<Longrightarrow> cache_step s (s\<lparr> hc_now := hc_now s + d \<rparr>)"
| read: "hc_caller s p = Ready \<Longrightarrow> cache_step s (move p (HasRead (hc_cached s)) s)"
| hit: "hc_caller s p = HasRead (Some (v, at)) \<Longrightarrow> fresh (hc_now s) (Some (v, at)) \<Longrightarrow> cache_step s (move p (Returned v at) s)"
| miss: "hc_caller s p = HasRead c \<Longrightarrow> \<not> fresh (hc_now s) c \<Longrightarrow> cache_step s (move p Waiting s)"
| acquire: "hc_caller s p = Waiting \<Longrightarrow> hc_holder s = None \<Longrightarrow> cache_step s ((move p Locked s)\<lparr> hc_holder := Some p \<rparr>)"
| recheck_hit: "hc_caller s p = Locked \<Longrightarrow> hc_cached s = Some (v, at) \<Longrightarrow> fresh (hc_now s) (Some (v, at)) \<Longrightarrow>
    cache_step s ((move p (Returned v at) s)\<lparr> hc_holder := None \<rparr>)"
| recheck_miss: "hc_caller s p = Locked \<Longrightarrow> \<not> fresh (hc_now s) (hc_cached s) \<Longrightarrow> cache_step s (move p Computing s)"
| store: "hc_caller s p = Computing \<Longrightarrow>
    cache_step s ((move p (Returned v (hc_now s)) s)\<lparr> hc_cached := Some (v, hc_now s), hc_holder := None,
      hc_filled := hc_filled s @ [(hc_now s, False)] \<rparr>)"
| force: "hc_caller s p = Ready \<Longrightarrow> cache_step s (move p ForceWaiting s)"
| force_acquire: "hc_caller s p = ForceWaiting \<Longrightarrow> hc_holder s = None \<Longrightarrow> cache_step s ((move p Forcing s)\<lparr> hc_holder := Some p \<rparr>)"
| force_store: "hc_caller s p = Forcing \<Longrightarrow>
    cache_step s ((move p (Returned v (hc_now s)) s)\<lparr> hc_cached := Some (v, hc_now s), hc_holder := None,
      hc_filled := hc_filled s @ [(hc_now s, True)] \<rparr>)"

definition new_cache :: "int \<Rightarrow> 'v health_cache" where
  "new_cache now = \<lparr> hc_now = now, hc_cached = None, hc_holder = None, hc_caller = (\<lambda>_. Ready), hc_filled = [] \<rparr>"

inductive_cases cache_stepE: "cache_step s s'"

section \<open>Sorting\<close>

lemma insort_snoc: "x < y \<Longrightarrow> insort x (xs @ [y]) = insort x xs @ [y]" for x :: "'a :: linorder"
  by (induction xs) auto

lemma insort_above: "sorted xs \<Longrightarrow> (\<And>y. y \<in> set xs \<Longrightarrow> y \<le> x) \<Longrightarrow> insort x xs = xs @ [x]" for x :: "'a :: linorder"
proof (induction xs)
  case (Cons y xs)
  have IH: "insort x xs = xs @ [x]" using Cons by simp
  show ?case
  proof (cases "x \<le> y")
    case True
    then have y: "y = x" using Cons.prems(2) by (simp add: antisym)
    then have "insort x xs = x # xs" using Cons.prems(1) by (cases xs) auto
    then have "xs @ [x] = x # xs" using IH by simp
    then show ?thesis using y by simp
  qed (use IH in simp)
qed simp

lemma sink_insort:
  "i < length s \<Longrightarrow> sorted (take i s) \<Longrightarrow> sink s i = insort (s ! i) (take i s) @ drop (Suc i) s"
proof (induction i arbitrary: s)
  case 0
  then show ?case by (simp add: Cons_nth_drop_Suc)
next
  case (Suc j)
  have t: "take (Suc j) s = take j s @ [s ! j]" using Suc.prems(1) by (simp add: take_Suc_conv_app_nth)
  show ?case
  proof (cases "s ! j > s ! Suc j")
    case True
    let ?s = "s[j := s ! Suc j, Suc j := s ! j]"
    have "sink ?s j = insort (?s ! j) (take j ?s) @ drop (Suc j) ?s"
      using Suc.IH [of ?s] Suc.prems t by (simp add: sorted_append)
    moreover have "?s ! j = s ! Suc j" "take j ?s = take j s" "drop (Suc j) ?s = s ! j # drop (Suc (Suc j)) s"
      using Suc.prems(1) Cons_nth_drop_Suc [of "Suc j" "s[j := s ! Suc j, Suc j := s ! j]"] by simp_all
    ultimately show ?thesis using True t by (simp add: insort_snoc)
  next
    case False
    have "y \<le> s ! Suc j" if "y \<in> set (take (Suc j) s)" for y
      using that False Suc.prems(2) unfolding t by (auto simp: sorted_append intro: order_trans)
    then have "insort (s ! Suc j) (take (Suc j) s) = take (Suc j) s @ [s ! Suc j]"
      using Suc.prems(2) by (intro insort_above)
    then show ?thesis using False Suc.prems(1) by (simp add: Cons_nth_drop_Suc)
  qed
qed

lemma sort_from_sorted:
  "i + n = length s \<Longrightarrow> sorted (take i s) \<Longrightarrow> sorted (sort_from s i n) \<and> mset (sort_from s i n) = mset s"
proof (induction n arbitrary: s i)
  case (Suc n)
  note k = sink_insort [of i s]
  have "mset (sink s i) = mset (take i s @ s ! i # drop (Suc i) s)" using k Suc.prems by simp
  also have "take i s @ s ! i # drop (Suc i) s = s" using Suc.prems(1) by (simp add: id_take_nth_drop [symmetric])
  finally have m: "mset (sink s i) = mset s" .
  then have "length (sink s i) = length s" by (metis size_mset)
  moreover have "take (Suc i) (sink s i) = insort (s ! i) (take i s)" using k Suc.prems by simp
  ultimately have "sorted (sort_from (sink s i) (Suc i) n) \<and> mset (sort_from (sink s i) (Suc i) n) = mset (sink s i)"
    using Suc.IH [of "Suc i" "sink s i"] Suc.prems by (simp add: sorted_insort)
  then show ?case using m by simp
qed simp

lemma sort_strings_local_sort: "sort_strings_local s = sort s"
proof (cases s)
  case (Cons x xs)
  then have "sorted (sort_strings_local s) \<and> mset (sort_strings_local s) = mset s"
    unfolding sort_strings_local_def by (intro sort_from_sorted) simp_all
  then show ?thesis by (metis properties_for_sort)
qed (simp add: sort_strings_local_def)

text \<open> The snapshot lists every known worker.  The workers of a snapshot are the registered nodes in
  registry order followed, sorted by the hand-written insertion sort, by the nodes that only report
  heartbeats; a worker is healthy exactly if it has a heartbeat younger than five minutes.\<close>

theorem snapshot_workers:
  "map wh_node (hs_workers (compute d)) = map n_host (hd_nodes d) @ sort (filter (\<lambda>h. h \<notin> n_host ` set (hd_nodes d)) (map fst (hd_ages d)))
   \<and> set (map wh_node (hs_workers (compute d))) = n_host ` set (hd_nodes d) \<union> dom (map_of (hd_ages d))
   \<and> list_all (\<lambda>w. wh_ok w = (case map_of (hd_ages d) (wh_node w) of None \<Rightarrow> False | Some age \<Rightarrow> age < 300000000000)) (hs_workers (compute d))"
  (is "_ \<and> _ \<and> list_all ?ok _")
proof -
  have rw: "wh_node (registry_worker a n) = n_host n" for a n by (simp add: registry_worker_def split: option.split)
  have ew: "wh_node (extra_worker a h) = h" for a h by (simp add: extra_worker_def Let_def)
  have names: "map wh_node (hs_workers (compute d)) = map n_host (hd_nodes d) @ sort (filter (\<lambda>h. h \<notin> n_host ` set (hd_nodes d)) (map fst (hd_ages d)))"
    by (simp add: compute_def Let_def sort_strings_local_sort comp_def rw ew)
  have "set (map wh_node (hs_workers (compute d))) = n_host ` set (hd_nodes d) \<union> dom (map_of (hd_ages d))"
    unfolding names by (auto simp: dom_map_of_conv_image_fst)
  moreover have "list_all ?ok (hs_workers (compute d))"
  proof -
    have "?ok (registry_worker (hd_ages d) n)" for n
      by (simp add: registry_worker_def healthy_heartbeat_threshold_def nano_def split: option.split)
    moreover have "?ok (extra_worker (hd_ages d) h)" if h: "h \<in> fst ` set (hd_ages d)" for h
    proof -
      obtain age where "map_of (hd_ages d) h = Some age" using h by (metis map_of_eq_None_iff not_None_eq)
      then show ?thesis by (simp add: extra_worker_def healthy_heartbeat_threshold_def nano_def)
    qed
    ultimately show ?thesis
      by (auto simp: compute_def Let_def list_all_iff sort_strings_local_sort simp del: Fun.comp_apply intro: rev_image_eqI)
  qed
  ultimately show ?thesis using names by blast
qed

section \<open>Single flight\<close>

definition in_critical :: "'v caller \<Rightarrow> bool" where
  "in_critical c = (case c of Locked \<Rightarrow> True | Computing \<Rightarrow> True | Forcing \<Rightarrow> True | _ \<Rightarrow> False)"

text \<open>Consecutive computations are a lifetime apart unless the later one was forced.\<close>

fun spaced :: "(int \<times> bool) list \<Rightarrow> bool" where
  "spaced ((t, _) # (t', f) # r) = ((f \<or> cache_ttl \<le> t' - t) \<and> spaced ((t', f) # r))"
| "spaced _ = True"

lemma spaced_snoc: "spaced (xs @ [(t, f)]) \<longleftrightarrow> spaced xs \<and> (xs = [] \<or> f \<or> cache_ttl \<le> t - fst (last xs))"
  by (induction xs rule: spaced.induct) auto

definition cache_inv :: "'v health_cache \<Rightarrow> bool" where
  "cache_inv s \<longleftrightarrow>
     (\<forall>p. in_critical (hc_caller s p) \<longleftrightarrow> hc_holder s = Some p)
     \<and> (case hc_cached s of None \<Rightarrow> hc_filled s = [] | Some (_, at) \<Rightarrow> hc_filled s \<noteq> [] \<and> fst (last (hc_filled s)) = at)
     \<and> (\<forall>p. hc_caller s p = Computing \<longrightarrow> \<not> fresh (hc_now s) (hc_cached s))
     \<and> spaced (hc_filled s)"

lemma fresh_mono: "fresh (now + d) c \<Longrightarrow> 0 \<le> d \<Longrightarrow> fresh now c"
  by (auto simp: fresh_def split: option.splits)

lemma cache_fill_inv:
  assumes "cache_inv s" "hc_holder s = Some p" "f \<or> \<not> fresh (hc_now s) (hc_cached s)"
  shows "cache_inv ((move p (Returned v (hc_now s)) s)\<lparr> hc_cached := Some (v, hc_now s), hc_holder := None,
      hc_filled := hc_filled s @ [(hc_now s, f)] \<rparr>)"
proof -
  have c: "in_critical (hc_caller s q) \<longleftrightarrow> q = p" for q using assms(1,2) by (auto simp: cache_inv_def)
  have "hc_filled s = [] \<or> f \<or> cache_ttl \<le> hc_now s - fst (last (hc_filled s))"
    using assms(1,3) by (cases "hc_cached s") (auto simp: cache_inv_def fresh_def)
  then have "spaced (hc_filled s @ [(hc_now s, f)])" using assms(1) by (simp add: cache_inv_def spaced_snoc)
  moreover have "\<not> in_critical (Returned v (hc_now s))" by (simp add: in_critical_def)
  moreover have "hc_caller s q \<noteq> Computing" if "q \<noteq> p" for q using c [of q] that by (auto simp: in_critical_def)
  ultimately show ?thesis using c by (simp add: cache_inv_def move_def)
qed

text \<open>A caller moves and with it the lock: every other caller stays outside the critical section or keeps
  the lock it has.\<close>

lemma cache_move_inv:
  assumes "cache_inv s" "hc_caller s' = (hc_caller s)(p := c)" "hc_now s' = hc_now s" "hc_cached s' = hc_cached s" "hc_filled s' = hc_filled s"
    "\<And>q. q \<noteq> p \<Longrightarrow> (hc_holder s' = Some q) = (hc_holder s = Some q)" "in_critical c = (hc_holder s' = Some p)"
    "c = Computing \<Longrightarrow> \<not> fresh (hc_now s) (hc_cached s)"
  shows "cache_inv s'"
  unfolding cache_inv_def assms(2-5)
proof (intro conjI allI impI)
  fix q
  show "in_critical (((hc_caller s)(p := c)) q) = (hc_holder s' = Some q)"
    using assms(1,6,7) by (cases "q = p") (simp_all add: cache_inv_def)
  show "\<not> fresh (hc_now s) (hc_cached s)" if "((hc_caller s)(p := c)) q = Computing"
    using that assms(1,8) by (cases "q = p") (auto simp: cache_inv_def)
qed (use assms(1) in \<open>simp_all add: cache_inv_def\<close>)

lemma cache_step_inv:
  assumes "cache_step s s'" "cache_inv s"
  shows "cache_inv s'"
proof -
  have crit: "in_critical (hc_caller s q) \<longleftrightarrow> hc_holder s = Some q" for q using assms(2) by (simp add: cache_inv_def)
  note mv = cache_move_inv [OF assms(2)]
  show ?thesis
    using assms(1)
  proof (cases rule: cache_step.cases)
    case (tick d)
    then show ?thesis using assms(2) fresh_mono [of "hc_now s" d]
      by (cases "hc_cached s") (auto simp: cache_inv_def)
  next
    case (read p)
    show ?thesis unfolding read(1) by (rule mv) (use read(2) crit [of p] in \<open>auto simp: move_def in_critical_def\<close>)
  next
    case (hit p v at)
    show ?thesis unfolding hit(1) by (rule mv) (use hit(2) crit [of p] in \<open>auto simp: move_def in_critical_def\<close>)
  next
    case (miss p c)
    show ?thesis unfolding miss(1) by (rule mv) (use miss(2) crit [of p] in \<open>auto simp: move_def in_critical_def\<close>)
  next
    case (acquire p)
    show ?thesis unfolding acquire(1) by (rule mv) (use acquire(2,3) in \<open>auto simp: move_def in_critical_def\<close>)
  next
    case (recheck_hit p v at)
    show ?thesis unfolding recheck_hit(1) by (rule mv) (use recheck_hit(2) crit [of p] in \<open>auto simp: move_def in_critical_def\<close>)
  next
    case (recheck_miss p)
    show ?thesis unfolding recheck_miss(1) by (rule mv) (use recheck_miss(2,3) crit [of p] in \<open>auto simp: move_def in_critical_def\<close>)
  next
    case (store p v)
    have "hc_holder s = Some p" using crit [of p] store(2) by (simp add: in_critical_def)
    moreover have "\<not> fresh (hc_now s) (hc_cached s)" using assms(2) store(2) by (auto simp: cache_inv_def)
    ultimately show ?thesis unfolding store(1) using cache_fill_inv [OF assms(2)] by blast
  next
    case (force p)
    show ?thesis unfolding force(1) by (rule mv) (use force(2) crit [of p] in \<open>auto simp: move_def in_critical_def\<close>)
  next
    case (force_acquire p)
    show ?thesis unfolding force_acquire(1) by (rule mv) (use force_acquire(2,3) in \<open>auto simp: move_def in_critical_def\<close>)
  next
    case (force_store p v)
    have "hc_holder s = Some p" using crit [of p] force_store(2) by (simp add: in_critical_def)
    then show ?thesis unfolding force_store(1) using cache_fill_inv [OF assms(2)] by blast
  qed
qed

text \<open>C34.  The rebuild is single-flight.  However many callers race on the cache, at most one of them
  is ever in the critical section, and two successive computations are at least the cache lifetime of
  30 seconds apart unless the later one was forced by \<open>Refresh\<close>: an expired cache under load is
  rebuilt once.\<close>

theorem cache_single_flight:
  assumes "cache_step\<^sup>*\<^sup>* (new_cache now) s"
  shows "spaced (hc_filled s) \<and> (\<forall>p q. in_critical (hc_caller s p) \<longrightarrow> in_critical (hc_caller s q) \<longrightarrow> p = q)"
proof -
  have "cache_inv s" using assms
  proof (induction rule: rtranclp_induct)
    case base
    show ?case by (simp add: cache_inv_def new_cache_def in_critical_def)
  qed (use cache_step_inv in blast)
  then show ?thesis by (auto simp: cache_inv_def)
qed

text \<open>Two callers race on an empty cache: one computes, the other waits for it.\<close>

theorem cache_single_flight_witness:
  "\<exists>s :: nat health_cache. cache_step\<^sup>*\<^sup>* (new_cache 0) s \<and> hc_filled s = [(0, False)] \<and> hc_caller s 1 = Waiting
     \<and> spaced (hc_filled s) \<and> (\<forall>p q. in_critical (hc_caller s p) \<longrightarrow> in_critical (hc_caller s q) \<longrightarrow> p = q)"
proof -
  define a b c d e f g :: "nat health_cache" where
    "a = move 0 (HasRead None) (new_cache 0)" and "b = move 1 (HasRead None) a" and "c = move 0 Waiting b" and "d = move 1 Waiting c"
    and "e = (move 0 Locked d)\<lparr> hc_holder := Some 0 \<rparr>" and "f = move 0 Computing e"
    and "g = (move 0 (Returned 7 (hc_now f)) f)\<lparr> hc_cached := Some (7, hc_now f), hc_holder := None, hc_filled := hc_filled f @ [(hc_now f, False)] \<rparr>"
  note defs = a_def b_def c_def d_def e_def f_def g_def new_cache_def move_def
  have s1: "cache_step (new_cache 0) a" unfolding a_def using cache_step.read [of "new_cache 0 :: nat health_cache" 0] by (simp add: new_cache_def)
  have s2: "cache_step a b" unfolding b_def using cache_step.read [of a 1] by (simp add: defs)
  have s3: "cache_step b c" unfolding c_def by (rule cache_step.miss [where c = None]) (simp_all add: defs fresh_def)
  have s4: "cache_step c d" unfolding d_def by (rule cache_step.miss [where c = None]) (simp_all add: defs fresh_def)
  have s5: "cache_step d e" unfolding e_def by (rule cache_step.acquire) (simp_all add: defs)
  have s6: "cache_step e f" unfolding f_def by (rule cache_step.recheck_miss) (simp_all add: defs fresh_def)
  have s7: "cache_step f g" unfolding g_def by (rule cache_step.store) (simp add: defs)
  note into = converse_rtranclp_into_rtranclp [where r = "cache_step :: nat health_cache \<Rightarrow> _"]
  from into [OF s7 rtranclp.rtrancl_refl] have "cache_step\<^sup>*\<^sup>* f g" .
  from into [OF s5 into [OF s6 this]] have "cache_step\<^sup>*\<^sup>* d g" .
  from into [OF s3 into [OF s4 this]] have "cache_step\<^sup>*\<^sup>* b g" .
  from into [OF s1 into [OF s2 this]] have "cache_step\<^sup>*\<^sup>* (new_cache 0) g" .
  moreover have "hc_filled g = [(0, False)]" "hc_caller g 1 = Waiting" by (simp_all add: defs)
  ultimately show ?thesis using cache_single_flight [of 0 g] by blast
qed

end
