(* ===== verification/Health_Diff.thy ===== *)
theory Health_Diff
  imports Go_Store
begin

text \<open>
  The diff of two fleet health reports, \<open>internal/healthdiff\<close>: the markdown parser of
  \<open>Parse\<close> with its field rules, \<open>Diff\<close>, the severities, and the two renderers.  A Go map of
  strings is an association list with distinct keys; the regular expressions of the code are functions.
\<close>

section \<open>Data\<close>

definition severity_info :: string where "severity_info = ''info''"
definition severity_warn :: string where "severity_warn = ''warn''"
definition severity_crit :: string where "severity_crit = ''crit''"

definition kind_changed :: string where "kind_changed = ''changed''"
definition kind_added :: string where "kind_added = ''added''"
definition kind_removed :: string where "kind_removed = ''removed''"
definition kind_host_added :: string where "kind_host_added = ''host_added''"
definition kind_host_removed :: string where "kind_host_removed = ''host_removed''"

definition unset_sentinel :: string where "unset_sentinel = ''(unset)''"

type_synonym fields = "(string \<times> string) list"

record host =
  ho_name :: string
  ho_fields :: fields

record snapshot =
  sn_hosts :: "host list"

record change =
  ch_host :: string
  ch_kind :: string
  ch_field :: string
  ch_old :: string
  ch_new :: string
  ch_severity :: string

record report =
  rp_generated_at :: string
  rp_from :: string
  rp_to :: string
  rp_total :: int
  rp_changes :: "change list"

definition severity_rank :: "string \<Rightarrow> int" where
  "severity_rank s = (if s = severity_crit then 2 else if s = severity_warn then 1 else 0)"

definition max_severity :: "report \<Rightarrow> string" where
  "max_severity r =
     (if rp_changes r = [] then []
      else foldl (\<lambda>m c. if severity_rank (ch_severity c) > severity_rank m then ch_severity c else m) severity_info (rp_changes r))"

section \<open>Regular expressions and fields\<close>

text \<open>\<open>strings.Fields\<close>.\<close>

fun split_word :: "string \<Rightarrow> string \<times> string" where
  "split_word [] = ([], [])"
| "split_word (c # s) = (if sp_len (c # s) \<noteq> 0 then ([], c # s) else (case split_word s of (w, r) \<Rightarrow> (c # w, r)))"

lemma split_word_length: "length (snd (split_word s)) \<le> length s"
  by (induction s) (auto split: prod.splits)

lemma trim_left_length: "length (trim_left_space s) \<le> length s"
proof -
  obtain p where "s = p @ trim_left_space s" using trim_left_space_suffix by blast
  then have "length s = length p + length (trim_left_space s)" by (metis length_append)
  then show ?thesis by simp
qed

lemma trim_left_no_space: "sp_len (trim_left_space s) = 0"
  by (induction s rule: trim_left_space.induct) (simp add: trim_left_space.simps)

lemma split_word_less:
  assumes "(w, r) = split_word (trim_left_space s)" "trim_left_space s \<noteq> []"
  shows "length r < length s"
proof -
  obtain c u where t: "trim_left_space s = c # u" using assms(2) by (meson neq_Nil_conv)
  have "sp_len (c # u) = 0" using trim_left_no_space [of s] t by simp
  then have "length r \<le> length u" using assms(1) split_word_length [of u] by (simp add: t split: prod.splits)
  moreover have "Suc (length u) \<le> length s" using trim_left_length [of s] t by simp
  ultimately show ?thesis by simp
qed

function words :: "string \<Rightarrow> string list" where
  "words s = (let t = trim_left_space s in if t = [] then [] else (case split_word t of (w, r) \<Rightarrow> w # words r))"
  by pat_completeness auto
termination
  by (relation "measure length") (auto dest: split_word_less)

declare words.simps [simp del]

definition trim_blank :: "string \<Rightarrow> string" where
  "trim_blank s = dropWhile (\<lambda>c. c = SP \<or> c = TAB) s"

definition trim_right_nl :: "string \<Rightarrow> string" where
  "trim_right_nl s = rev (dropWhile (\<lambda>c. c = NL) (rev s))"

text \<open>\<open>([0-9]+)suffix\<close> at the start of the text, and the leftmost match of \<open>prefix([0-9]+)suffix\<close>.\<close>

definition digits_then :: "string \<Rightarrow> string \<Rightarrow> string option" where
  "digits_then suffix s =
     (let d = takeWhile is_digit s in if d \<noteq> [] \<and> has_prefix (dropWhile is_digit s) suffix then Some d else None)"

fun find_digits :: "string \<Rightarrow> string \<Rightarrow> string \<Rightarrow> string option" where
  "find_digits prefix suffix s =
     (case (if has_prefix s prefix then digits_then suffix (drop (length prefix) s) else None) of
        Some d \<Rightarrow> Some d
      | None \<Rightarrow> (case s of [] \<Rightarrow> None | _ # r \<Rightarrow> find_digits prefix suffix r))"

declare find_digits.simps [simp del]

definition key_char :: "char \<Rightarrow> bool" where
  "key_char c \<longleftrightarrow> (65 \<le> byte c \<and> byte c \<le> 90) \<or> is_digit c \<or> c = CHR ''_''"

text \<open>\<open>^([A-Z0-9_]+):(.*)$\<close>\<close>

definition match_key :: "string \<Rightarrow> (string \<times> string) option" where
  "match_key line =
     (let k = takeWhile key_char line in
      case dropWhile key_char line of
        [] \<Rightarrow> None
      | c # rest \<Rightarrow> if k \<noteq> [] \<and> c = CHR '':'' then Some (k, rest) else None)"

definition parse_uptime_days :: "string \<Rightarrow> string" where
  "parse_uptime_days s = (if s = [] then [] else (case find_digits ''up '' '' day'' s of Some d \<Rightarrow> d | None \<Rightarrow> ''0''))"

fun disk_root_tokens :: "string list \<Rightarrow> string list \<Rightarrow> string \<times> string" where
  "disk_root_tokens prev [] = ([], [])"
| "disk_root_tokens prev (tok # toks) =
     (if has_suffix tok ''%'' then (trim_suffix tok ''%'', if length prev \<ge> 2 then prev ! 1 else [])
      else disk_root_tokens (tok # prev) toks)"

definition parse_disk_root :: "string \<Rightarrow> string \<times> string" where
  "parse_disk_root s = (if s = [] then ([], []) else disk_root_tokens [] (words s))"

definition parse_mem_pct :: "string \<Rightarrow> string" where
  "parse_mem_pct s = (case find_digits [] ''% available'' s of Some d \<Rightarrow> d | None \<Rightarrow> [])"

definition parse_heartbeat :: "string \<Rightarrow> string" where
  "parse_heartbeat s =
     (if s = [] then []
      else if contains s ''expected'' then ''gateway-expected''
      else if contains s ''no heartbeat file'' then ''missing''
      else (case digits_then ''s ago'' s of
              None \<Rightarrow> ''unknown''
            | Some d \<Rightarrow>
                (case parse_int d of
                   None \<Rightarrow> ''unknown''
                 | Some n \<Rightarrow> if n < 60 then ''fresh'' else if n < 300 then ''stale-60s'' else ''stale-300s'')))"

definition trimmed_items :: "string list \<Rightarrow> string list" where
  "trimmed_items ls = filter (\<lambda>x. x \<noteq> []) (map trim_space ls)"

definition parse_brew_outdated :: "string \<Rightarrow> string \<times> string" where
  "parse_brew_outdated s =
     (if s = [] then ([], [])
      else if has_prefix s ''up to date'' then (''0'', ''(none)'')
      else if has_prefix s ''brew not installed'' then (''n/a'', ''n/a'')
      else (let ls = split_on NL s in
            case digits_then '' outdated'' (hd ls) of
              None \<Rightarrow> (''?'', s)
            | Some d \<Rightarrow> (let joined = join_with '','' (trimmed_items (tl ls)) in (d, if joined = [] then ''(unparsed)'' else joined))))"

definition parse_disk_at_risk :: "string \<Rightarrow> string \<times> string" where
  "parse_disk_at_risk s =
     (if s = [] then ([], [])
      else if contains s ''(none'' then (''0'', ''(none)'')
      else (let items = trimmed_items (split_on NL s) in
            if items = [] then (''0'', ''(empty)'') else (itoa (int (length items)), join_with '';'' items)))"

section \<open>Parse\<close>

text \<open>A missing key of a Go map reads as the empty string.\<close>

definition raw_field :: "fields \<Rightarrow> string \<Rightarrow> string" where
  "raw_field raw k = (case map_of raw k of None \<Rightarrow> [] | Some v \<Rightarrow> v)"

definition host_fields :: "fields \<Rightarrow> fields" where
  "host_fields raw =
     (let disk = parse_disk_root (raw_field raw ''DISK_ROOT''); brew = parse_brew_outdated (raw_field raw ''BREW_OUTDATED'');
          risk = parse_disk_at_risk (raw_field raw ''DISK_AT_RISK'')
      in [(''os'', raw_field raw ''OS''), (''arch'', raw_field raw ''ARCH''), (''kernel'', raw_field raw ''KERNEL''),
          (''hostname_full'', raw_field raw ''HOSTNAME''), (''uptime_days'', parse_uptime_days (raw_field raw ''UPTIME'')),
          (''disk_root_pct'', fst disk), (''disk_root_used'', snd disk),
          (''mem_avail_pct'', parse_mem_pct (raw_field raw ''MEM_AVAIL_PCT'')),
          (''hermes_version'', raw_field raw ''HERMES_VERSION''), (''tirith'', raw_field raw ''TIRITH''),
          (''heartbeat_status'', parse_heartbeat (raw_field raw ''HEARTBEAT'')),
          (''pinned_version'', raw_field raw ''PINNED_VERSION_FILE''),
          (''brew_outdated_count'', fst brew), (''brew_outdated_list'', snd brew),
          (''disk_at_risk_count'', fst risk), (''disk_at_risk_list'', snd risk)])"

definition normalise_host :: "string \<Rightarrow> fields \<Rightarrow> host" where
  "normalise_host name raw =
     (case map_of raw ''OS'' of
        None \<Rightarrow> \<lparr> ho_name = name, ho_fields = [(''probe_status'', ''failed'')] \<rparr>
      | Some _ \<Rightarrow> \<lparr> ho_name = name, ho_fields = (''probe_status'', ''ok'') # filter (\<lambda>(_, v). v \<noteq> []) (host_fields raw) \<rparr>)"

record parse_state =
  ps_hosts :: "host list"
  ps_host :: string
  ps_in_block :: bool
  ps_in_code :: bool
  ps_key :: string
  ps_val :: string
  ps_fields :: fields

definition parse_init :: parse_state where
  "parse_init = \<lparr> ps_hosts = [], ps_host = [], ps_in_block = False, ps_in_code = False, ps_key = [], ps_val = [], ps_fields = [] \<rparr>"

definition flush_cur_key :: "parse_state \<Rightarrow> parse_state" where
  "flush_cur_key s =
     (if ps_key s = [] then s
      else s\<lparr> ps_fields := AList.update (ps_key s) (trim_right_nl (ps_val s)) (ps_fields s), ps_key := [], ps_val := [] \<rparr>)"

definition flush_host :: "parse_state \<Rightarrow> parse_state" where
  "flush_host s =
     (if ps_host s = [] then s
      else (let s1 = flush_cur_key s in s1\<lparr> ps_hosts := ps_hosts s1 @ [normalise_host (ps_host s1) (ps_fields s1)] \<rparr>))"

definition reset_host :: "parse_state \<Rightarrow> parse_state" where
  "reset_host s = s\<lparr> ps_fields := [], ps_key := [], ps_val := [], ps_in_code := False \<rparr>"

definition parse_report_line :: "parse_state \<Rightarrow> string \<Rightarrow> parse_state" where
  "parse_report_line s line =
     (if has_prefix line ''## '' then
        (reset_host ((flush_host s)\<lparr> ps_host := trim_space (trim_prefix line ''## '') \<rparr>))\<lparr> ps_in_block := True \<rparr>
      else if \<not> ps_in_block s then s
      else if has_prefix line ''```'' then
        (let s1 = s\<lparr> ps_in_code := \<not> ps_in_code s \<rparr> in if \<not> ps_in_code s1 then flush_cur_key s1 else s1)
      else if \<not> ps_in_code s then s
      else (case match_key line of
              Some (key, rest0) \<Rightarrow>
                (let s1 = flush_cur_key s; rest = trim_blank rest0 in
                 if rest \<noteq> [] then s1\<lparr> ps_fields := AList.update key rest (ps_fields s1) \<rparr>
                 else s1\<lparr> ps_key := key, ps_val := [] \<rparr>)
            | None \<Rightarrow>
                if ps_key s \<noteq> [] then
                  s\<lparr> ps_val := (if ps_val s \<noteq> [] then ps_val s @ [NL] else ps_val s) @ trim_blank line \<rparr>
                else s))"

definition parse_report :: "string \<Rightarrow> (string, snapshot) result" where
  "parse_report body =
     (case scan_lines (2 ^ 20) body of
        (ls, too_long) \<Rightarrow>
          (let s = flush_host (foldl parse_report_line parse_init ls) in
           if too_long then err ''healthdiff: scan'' else ok \<lparr> sn_hosts = ps_hosts s \<rparr>))"

section \<open>Diff\<close>

definition index_hosts :: "snapshot \<Rightarrow> (string \<times> host) list" where
  "index_hosts s = foldl (\<lambda>m h. AList.update (ho_name h) h m) [] (sn_hosts s)"

definition union_names :: "(string \<times> 'a) list \<Rightarrow> (string \<times> 'b) list \<Rightarrow> string list" where
  "union_names a b = sort (remdups (map fst a @ map fst b))"

definition severity_for :: "string \<Rightarrow> string \<Rightarrow> string" where
  "severity_for kind field =
     (if kind = kind_host_removed then severity_crit
      else if kind = kind_host_added then severity_info
      else if field = ''probe_status'' then severity_crit
      else if field \<in> set [''heartbeat_status'', ''disk_root_pct'', ''disk_at_risk_count'', ''disk_at_risk_list'', ''mem_avail_pct'',
                          ''brew_outdated_count'', ''brew_outdated_list''] then severity_warn
      else severity_info)"

definition mk_change :: "string \<Rightarrow> string \<Rightarrow> string \<Rightarrow> string \<Rightarrow> string \<Rightarrow> change" where
  "mk_change h k f old new = \<lparr> ch_host = h, ch_kind = k, ch_field = f, ch_old = old, ch_new = new, ch_severity = severity_for k f \<rparr>"

definition diff_field :: "string \<Rightarrow> fields \<Rightarrow> fields \<Rightarrow> string \<Rightarrow> change list" where
  "diff_field h a b f =
     (case (map_of a f, map_of b f) of
        (Some x, Some y) \<Rightarrow> if x \<noteq> y then [mk_change h kind_changed f x y] else []
      | (Some x, None) \<Rightarrow> [mk_change h kind_removed f x unset_sentinel]
      | (None, Some y) \<Rightarrow> [mk_change h kind_added f unset_sentinel y]
      | (None, None) \<Rightarrow> [])"

definition diff_host :: "(string \<times> host) list \<Rightarrow> (string \<times> host) list \<Rightarrow> string \<Rightarrow> change list" where
  "diff_host a b h =
     (case (map_of a h, map_of b h) of
        (None, Some _) \<Rightarrow> [(mk_change h kind_host_added ''-'' ''-'' ''-'')\<lparr> ch_severity := severity_for kind_host_added [] \<rparr>]
      | (Some _, None) \<Rightarrow> [(mk_change h kind_host_removed ''-'' ''-'' ''-'')\<lparr> ch_severity := severity_for kind_host_removed [] \<rparr>]
      | (Some x, Some y) \<Rightarrow> concat (map (diff_field h (ho_fields x) (ho_fields y)) (union_names (ho_fields x) (ho_fields y)))
      | (None, None) \<Rightarrow> [])"

definition change_less :: "change \<Rightarrow> change \<Rightarrow> bool" where
  "change_less x y =
     (if ch_host x \<noteq> ch_host y then ch_host x < ch_host y
      else if ch_field x \<noteq> ch_field y then ch_field x < ch_field y
      else ch_kind x < ch_kind y)"

definition diff :: "snapshot \<Rightarrow> snapshot \<Rightarrow> report" where
  "diff from to =
     (let a = index_hosts from; b = index_hosts to;
          changes = sort_slice change_less (concat (map (diff_host a b) (union_names a b)))
      in \<lparr> rp_generated_at = [], rp_from = [], rp_to = [], rp_total = int (length changes), rp_changes = changes \<rparr>)"

section \<open>Renderers\<close>

definition field_group :: "string \<Rightarrow> string" where
  "field_group field =
     (if field \<in> set [''os'', ''arch'', ''kernel'', ''hostname_full'', ''hermes_version'', ''tirith'', ''pinned_version''] then ''STABLE''
      else if field \<in> set [''disk_root_pct'', ''disk_at_risk_count'', ''disk_at_risk_list''] then ''DISK''
      else if field = ''mem_avail_pct'' then ''MEM''
      else if field = ''heartbeat_status'' then ''HEARTBEAT''
      else if field \<in> set [''brew_outdated_count'', ''brew_outdated_list''] then ''BREW''
      else if field = ''uptime_days'' then ''UPTIME'' else ''INFO'')"

text \<open>\<open>^fleet-snapshot-([0-9]{8}T[0-9]{6}Z)\.md$\<close>\<close>

definition match_snapshot_name :: "string \<Rightarrow> string option" where
  "match_snapshot_name base =
     (let ts = trim_suffix (trim_prefix base ''fleet-snapshot-'') ''.md'' in
      if has_prefix base ''fleet-snapshot-'' \<and> has_suffix base ''.md'' \<and> length base = 34
         \<and> list_all is_digit (take 8 ts) \<and> ts ! 8 = CHR ''T'' \<and> list_all is_digit (take 6 (drop 9 ts)) \<and> ts ! 15 = CHR ''Z''
      then Some ts else None)"

definition brief_for_filename :: "string \<Rightarrow> string" where
  "brief_for_filename name =
     (let base = (case last_index_byte name SLASH of Some i \<Rightarrow> drop (Suc i) name | None \<Rightarrow> name) in
      case match_snapshot_name base of
        None \<Rightarrow> base
      | Some ts \<Rightarrow> take 4 ts @ ''-'' @ take 2 (drop 4 ts) @ ''-'' @ take 2 (drop 6 ts) @ '' '' @ take 2 (drop 9 ts) @ '':''
                    @ take 2 (drop 11 ts) @ '':'' @ take 2 (drop 13 ts) @ ''Z'')"

definition unique_hosts_in_order :: "change list \<Rightarrow> string list" where
  "unique_hosts_in_order cs = foldl (\<lambda>out c. if ch_host c \<in> set out then out else out @ [ch_host c]) [] cs"

text \<open>The arrow and the dash of the report are U+2192 and U+2014 in UTF-8.\<close>

definition arrow :: string where "arrow = [CHR 0xE2, CHR 0x86, CHR 0x92]"
definition em_dash :: string where "em_dash = [CHR 0xE2, CHR 0x80, CHR 0x94]"

definition render_change :: "change \<Rightarrow> string" where
  "render_change c =
     (let pre = ''- ['' @ field_group (ch_field c) @ ''] '' @ ch_field c @ '': '' in
      if ch_kind c = kind_changed then pre @ ''`'' @ ch_old c @ ''` '' @ arrow @ '' `'' @ ch_new c @ ''`'' @ [NL]
      else if ch_kind c = kind_added then pre @ ''(was unset) '' @ arrow @ '' `'' @ ch_new c @ ''`'' @ [NL]
      else if ch_kind c = kind_removed then pre @ ''`'' @ ch_old c @ ''` '' @ arrow @ '' (no longer reported)'' @ [NL]
      else [])"

definition render_host :: "change list \<Rightarrow> string \<Rightarrow> string" where
  "render_host cs h =
     (let mine = filter (\<lambda>c. ch_host c = h) cs in
      ''## '' @ h @ [NL, NL]
      @ (if list_ex (\<lambda>c. ch_kind c = kind_host_added) mine
         then ''- **NEW HOST** '' @ em_dash @ '' not present in the previous snapshot.'' @ [NL] else [])
      @ (if list_ex (\<lambda>c. ch_kind c = kind_host_removed) mine
         then ''- **REMOVED HOST** '' @ em_dash @ '' not present in the latest snapshot.'' @ [NL] else [])
      @ concat (map render_change mine) @ [NL])"

definition render_markdown :: "report \<Rightarrow> string" where
  "render_markdown r =
     ''# Fleet health snapshot diff'' @ [NL, NL]
     @ ''- From: '' @ rp_from r @ ''  _('' @ brief_for_filename (rp_from r) @ '')_'' @ [NL]
     @ ''- To:   '' @ rp_to r @ ''  _('' @ brief_for_filename (rp_to r) @ '')_'' @ [NL]
     @ ''- Total change records: '' @ itoa (rp_total r) @ [NL, NL]
     @ (if rp_total r = 0 then ''_No changes between the two snapshots._'' @ [NL]
        else concat (map (render_host (rp_changes r)) (unique_hosts_in_order (rp_changes r))))"

definition change_json :: "change \<Rightarrow> jtree" where
  "change_json c = JObj [(''host'', JStr (ch_host c)), (''kind'', JStr (ch_kind c)), (''field'', JStr (ch_field c)),
     (''old'', JStr (ch_old c)), (''new'', JStr (ch_new c)), (''severity'', JStr (ch_severity c))]"

text \<open>A nil slice of changes is printed as \<open>null\<close>.\<close>

definition render_json :: "gtime \<Rightarrow> report \<Rightarrow> bytes" where
  "render_json now r =
     (let g = (if rp_generated_at r = [] then format_rfc3339 (to_utc now) else rp_generated_at r) in
      marshal_compact [(''generated_at'', JStr g), (''from'', JStr (rp_from r)), (''to'', JStr (rp_to r)),
        (''total_changes'', JInt (rp_total r)),
        (''changes'', if rp_changes r = [] then JNull else JArr (map change_json (rp_changes r)))] @ [NL])"

section \<open>What a parsed report is\<close>

definition canonical_fields :: "string list" where
  "canonical_fields = [''os'', ''arch'', ''kernel'', ''hostname_full'', ''uptime_days'', ''disk_root_pct'', ''disk_root_used'', ''mem_avail_pct'',
     ''hermes_version'', ''tirith'', ''heartbeat_status'', ''pinned_version'', ''brew_outdated_count'', ''brew_outdated_list'',
     ''disk_at_risk_count'', ''disk_at_risk_list'']"

definition host_wf :: "host \<Rightarrow> bool" where
  "host_wf h \<longleftrightarrow> ho_name h \<noteq> [] \<and> distinct (map fst (ho_fields h)) \<and> list_all (\<lambda>(_, v). v \<noteq> []) (ho_fields h)
     \<and> (ho_fields h = [(''probe_status'', ''failed'')]
         \<or> (\<exists>r. ho_fields h = (''probe_status'', ''ok'') # r \<and> set (map fst r) \<subseteq> set canonical_fields))"

lemma host_fields_keys: "map fst (host_fields raw) = canonical_fields"
  by (simp add: host_fields_def canonical_fields_def Let_def)

lemma canonical_distinct: "distinct canonical_fields" "''probe_status'' \<notin> set canonical_fields"
  by (simp_all add: canonical_fields_def)

lemma distinct_map_filter: "distinct (map f xs) \<Longrightarrow> distinct (map f (filter P xs))"
  by (induction xs) auto

lemma normalise_wf: "name \<noteq> [] \<Longrightarrow> host_wf (normalise_host name raw)"
proof (cases "map_of raw ''OS''")
  case (Some x)
  assume n: "name \<noteq> []"
  let ?r = "filter (\<lambda>(_, v). v \<noteq> []) (host_fields raw)"
  have s: "set (map fst ?r) \<subseteq> set canonical_fields" using host_fields_keys [of raw] by (auto simp flip: host_fields_keys [of raw])
  have d: "distinct (map fst ?r)" using canonical_distinct(1) host_fields_keys [of raw] by (intro distinct_map_filter) simp
  have p: "''probe_status'' \<notin> set (map fst ?r)" using s canonical_distinct(2) by blast
  show ?thesis
    using n d p s Some unfolding host_wf_def normalise_host_def by (auto simp: list_all_iff)
qed (simp add: normalise_host_def host_wf_def)

lemma flush_cur_key_hosts [simp]: "ps_hosts (flush_cur_key s) = ps_hosts s" "ps_host (flush_cur_key s) = ps_host s"
  by (simp_all add: flush_cur_key_def)

lemma flush_host_wf: "list_all host_wf (ps_hosts s) \<Longrightarrow> list_all host_wf (ps_hosts (flush_host s))"
  by (simp add: flush_host_def Let_def normalise_wf)

lemma parse_line_wf: "list_all host_wf (ps_hosts s) \<Longrightarrow> list_all host_wf (ps_hosts (parse_report_line s line))"
  using flush_host_wf [of s] by (simp add: parse_report_line_def reset_host_def Let_def split: option.split prod.split)

text \<open> Every report that parses is well-formed: its hosts have a name, no field occurs twice or is
  empty, and a host either failed its probe and has no other field, or is ok with fields from the
  canonical list only.\<close>

theorem parse_report_typed:
  assumes "parse_report body = ok s"
  shows "list_all host_wf (sn_hosts s)"
proof -
  have "list_all host_wf (ps_hosts (foldl parse_report_line st ls))" if "list_all host_wf (ps_hosts st)" for st ls
    using that by (induction ls arbitrary: st) (simp_all add: parse_line_wf)
  moreover have "list_all host_wf (ps_hosts parse_init)" by (simp add: parse_init_def)
  ultimately show ?thesis
    using assms flush_host_wf by (auto simp: parse_report_def Let_def split: prod.splits if_splits)
qed

section \<open>What a diff says\<close>

definition report_field :: "(string \<times> host) list \<Rightarrow> string \<Rightarrow> string \<Rightarrow> string option" where
  "report_field idx h f = (case map_of idx h of None \<Rightarrow> None | Some x \<Rightarrow> map_of (ho_fields x) f)"

lemma union_names_mem: "k \<in> set (union_names a b) \<longleftrightarrow> map_of a k \<noteq> None \<or> map_of b k \<noteq> None"
  by (auto simp: union_names_def map_of_eq_None_iff)

lemma host_marks:
  "(mk_change h kind_host_added f x y)\<lparr> ch_severity := severity_for kind_host_added [] \<rparr> = mk_change h kind_host_added f x y"
  "(mk_change h kind_host_removed f x y)\<lparr> ch_severity := severity_for kind_host_removed [] \<rparr> = mk_change h kind_host_removed f x y"
  by (simp_all add: mk_change_def severity_for_def kind_host_added_def kind_host_removed_def)

lemma diff_changes:
  "c \<in> set (rp_changes (diff from to)) \<longleftrightarrow>
     (\<exists>h. c \<in> set (diff_host (index_hosts from) (index_hosts to) h))"
proof -
  let ?a = "index_hosts from" and ?b = "index_hosts to"
  have "c \<in> set (diff_host ?a ?b h) \<Longrightarrow> h \<in> set (union_names ?a ?b)" for h
    unfolding union_names_mem by (cases "map_of ?a h"; cases "map_of ?b h") (auto simp: diff_host_def)
  then show ?thesis by (auto simp: diff_def Let_def)
qed

lemma diff_fields_mem:
  "c \<in> set (concat (map (diff_field h x y) (union_names x y))) \<longleftrightarrow> (\<exists>f. c \<in> set (diff_field h x y f))"
proof -
  have "c \<in> set (diff_field h x y f) \<Longrightarrow> f \<in> set (union_names x y)" for f
    unfolding union_names_mem by (cases "map_of x f"; cases "map_of y f") (auto simp: diff_field_def)
  then show ?thesis by auto
qed

lemma diff_host_mem:
  "c \<in> set (diff_host a b h) \<longleftrightarrow>
     (map_of a h = None \<and> map_of b h \<noteq> None \<and> c = mk_change h kind_host_added ''-'' ''-'' ''-'')
   \<or> (map_of a h \<noteq> None \<and> map_of b h = None \<and> c = mk_change h kind_host_removed ''-'' ''-'' ''-'')
   \<or> (map_of a h \<noteq> None \<and> map_of b h \<noteq> None \<and> (\<exists>f.
        (\<exists>x y. report_field a h f = Some x \<and> report_field b h f = Some y \<and> x \<noteq> y \<and> c = mk_change h kind_changed f x y)
      \<or> (\<exists>x. report_field a h f = Some x \<and> report_field b h f = None \<and> c = mk_change h kind_removed f x unset_sentinel)
      \<or> (\<exists>y. report_field a h f = None \<and> report_field b h f = Some y \<and> c = mk_change h kind_added f unset_sentinel y)))"
proof (cases "map_of a h")
  case None
  then show ?thesis by (cases "map_of b h") (simp_all add: diff_host_def host_marks)
next
  case (Some x)
  show ?thesis
  proof (cases "map_of b h")
    case None
    then show ?thesis using Some by (simp add: diff_host_def host_marks)
  next
    case (Some y)
    have "c \<in> set (diff_host a b h) \<longleftrightarrow> (\<exists>f. c \<in> set (diff_field h (ho_fields x) (ho_fields y) f))"
      using Some \<open>map_of a h = Some x\<close> diff_fields_mem by (simp add: diff_host_def del: set_concat)
    also have "\<dots> \<longleftrightarrow> (\<exists>f.
        (\<exists>u v. report_field a h f = Some u \<and> report_field b h f = Some v \<and> u \<noteq> v \<and> c = mk_change h kind_changed f u v)
      \<or> (\<exists>u. report_field a h f = Some u \<and> report_field b h f = None \<and> c = mk_change h kind_removed f u unset_sentinel)
      \<or> (\<exists>v. report_field a h f = None \<and> report_field b h f = Some v \<and> c = mk_change h kind_added f unset_sentinel v))"
    proof (intro ex_cong1)
      fix f
      show "c \<in> set (diff_field h (ho_fields x) (ho_fields y) f) \<longleftrightarrow>
        (\<exists>u v. report_field a h f = Some u \<and> report_field b h f = Some v \<and> u \<noteq> v \<and> c = mk_change h kind_changed f u v)
      \<or> (\<exists>u. report_field a h f = Some u \<and> report_field b h f = None \<and> c = mk_change h kind_removed f u unset_sentinel)
      \<or> (\<exists>v. report_field a h f = None \<and> report_field b h f = Some v \<and> c = mk_change h kind_added f unset_sentinel v)"
        using Some \<open>map_of a h = Some x\<close>
        by (cases "map_of (ho_fields x) f"; cases "map_of (ho_fields y) f") (auto simp: diff_field_def report_field_def)
    qed
    finally show ?thesis using Some \<open>map_of a h = Some x\<close> by simp
  qed
qed

text \<open> A diff reports every difference and nothing else.  A change is in the report exactly if it is
  the arrival or the departure of a host, or a changed, lost or new field of a host that both
  snapshots have; the report is ordered by host and field and its total is its length.\<close>

theorem diff_exact:
  "(c \<in> set (rp_changes (diff old new)) \<longleftrightarrow> (\<exists>h. let a = index_hosts old; b = index_hosts new in
       (map_of a h = None \<and> map_of b h \<noteq> None \<and> c = mk_change h kind_host_added ''-'' ''-'' ''-'')
     \<or> (map_of a h \<noteq> None \<and> map_of b h = None \<and> c = mk_change h kind_host_removed ''-'' ''-'' ''-'')
     \<or> (map_of a h \<noteq> None \<and> map_of b h \<noteq> None \<and> (\<exists>f.
          (\<exists>x y. report_field a h f = Some x \<and> report_field b h f = Some y \<and> x \<noteq> y \<and> c = mk_change h kind_changed f x y)
        \<or> (\<exists>x. report_field a h f = Some x \<and> report_field b h f = None \<and> c = mk_change h kind_removed f x unset_sentinel)
        \<or> (\<exists>y. report_field a h f = None \<and> report_field b h f = Some y \<and> c = mk_change h kind_added f unset_sentinel y)))))
   \<and> sorted_wrt (\<lambda>x y. change_less y x = False) (rp_changes (diff old new))
   \<and> rp_total (diff old new) = int (length (rp_changes (diff old new)))"
proof (intro conjI)
  show "rp_total (diff old new) = int (length (rp_changes (diff old new)))" by (simp add: diff_def Let_def)
  have "sorted_wrt (\<lambda>x y. \<not> change_less y x) (sort_slice change_less cs)" for cs
    by (rule sort_slice_sorted) (auto simp: change_less_def split: if_splits)
  then show "sorted_wrt (\<lambda>x y. change_less y x = False) (rp_changes (diff old new))" by (simp add: diff_def Let_def)
qed (simp only: diff_changes diff_host_mem Let_def)

text \<open> A diff is empty exactly if the snapshots agree: they have the same hosts and every host has
  the same fields.\<close>

theorem diff_empty_iff:
  "rp_changes (diff old new) = [] \<longleftrightarrow>
     dom (map_of (index_hosts old)) = dom (map_of (index_hosts new)) \<and> report_field (index_hosts old) = report_field (index_hosts new)"
proof -
  let ?a = "index_hosts old" and ?b = "index_hosts new"
  have "rp_changes (diff old new) = [] \<longleftrightarrow> (\<forall>h c. c \<notin> set (diff_host ?a ?b h))"
    using diff_changes [of _ old new] by (metis in_set_conv_nth length_greater_0_conv list.set_sel(1) neq_Nil_conv list.set_intros(1) empty_iff list.set(1))
  also have "\<dots> \<longleftrightarrow> (\<forall>h. (map_of ?a h = None) = (map_of ?b h = None) \<and> (\<forall>f. report_field ?a h f = report_field ?b h f))"
    (is "(\<forall>h. ?P h) = (\<forall>h. ?Q h)")
  proof (intro iff_allI)
    fix h
    show "?P h = ?Q h"
    proof (cases "map_of ?a h = None \<or> map_of ?b h = None")
      case True
      then show ?thesis unfolding diff_host_mem by (auto simp: report_field_def)
    next
      case False
      have "?P h \<longleftrightarrow> (\<forall>f. \<not> (\<exists>x y. report_field ?a h f = Some x \<and> report_field ?b h f = Some y \<and> x \<noteq> y)
         \<and> \<not> (\<exists>x. report_field ?a h f = Some x \<and> report_field ?b h f = None) \<and> \<not> (\<exists>y. report_field ?a h f = None \<and> report_field ?b h f = Some y))"
        unfolding diff_host_mem using False by blast
      also have "\<dots> \<longleftrightarrow> (\<forall>f. report_field ?a h f = report_field ?b h f)"
        by (intro iff_allI) (metis not_Some_eq option.sel)
      finally show ?thesis using False by blast
    qed
  qed
  also have "\<dots> \<longleftrightarrow> dom (map_of ?a) = dom (map_of ?b) \<and> report_field ?a = report_field ?b"
    by (auto simp: set_eq_iff fun_eq_iff domIff simp del: not_None_eq)
  finally show ?thesis .
qed

section \<open>Severity\<close>

lemma severity_strings: "severity_info = ''info''" "severity_warn = ''warn''" "severity_crit = ''crit''"
  by (simp_all add: severity_info_def severity_warn_def severity_crit_def)

lemma fold_severity:
  "foldl (\<lambda>m c. if severity_rank (ch_severity c) > severity_rank m then ch_severity c else m) m cs = severity_crit
     \<longleftrightarrow> m = severity_crit \<or> (\<exists>c \<in> set cs. ch_severity c = severity_crit)"
proof (induction cs arbitrary: m)
  case (Cons c cs)
  have "(if severity_rank (ch_severity c) > severity_rank m then ch_severity c else m) = severity_crit
     \<longleftrightarrow> m = severity_crit \<or> ch_severity c = severity_crit"
    by (auto simp: severity_rank_def severity_strings)
  then show ?case using Cons.IH by auto
qed simp

text \<open> A diff is critical exactly if a host disappeared or the probe status of a host that both
  snapshots have moved.\<close>

theorem diff_critical:
  "max_severity (diff old new) = severity_crit \<longleftrightarrow> (\<exists>h. let a = index_hosts old; b = index_hosts new in
     map_of a h \<noteq> None \<and> \<not> (map_of b h \<noteq> None \<and> report_field a h ''probe_status'' = report_field b h ''probe_status''))"
proof -
  let ?a = "index_hosts old" and ?b = "index_hosts new"
  have "max_severity (diff old new) = severity_crit \<longleftrightarrow> (\<exists>c \<in> set (rp_changes (diff old new)). ch_severity c = severity_crit)"
    by (cases "rp_changes (diff old new) = []") (auto simp: max_severity_def fold_severity, simp_all add: severity_strings)
  also have "\<dots> \<longleftrightarrow> (\<exists>h. \<exists>c. c \<in> set (diff_host ?a ?b h) \<and> ch_severity c = severity_crit)"
    using diff_changes [of _ old new] by blast
  also have "\<dots> \<longleftrightarrow> (\<exists>h. map_of ?a h \<noteq> None \<and> (map_of ?b h = None \<or> report_field ?a h ''probe_status'' \<noteq> report_field ?b h ''probe_status''))"
  proof (intro ex_cong1)
    fix h
    have sev: "ch_severity (mk_change h k f x y) = severity_crit \<longleftrightarrow> k = kind_host_removed \<or> (k \<noteq> kind_host_added \<and> f = ''probe_status'')" for k f x y
      by (auto simp: mk_change_def severity_for_def severity_strings)
    have kinds: "kind_host_added \<noteq> kind_host_removed" "kind_changed \<noteq> kind_host_removed" "kind_removed \<noteq> kind_host_removed" "kind_added \<noteq> kind_host_removed"
      "kind_changed \<noteq> kind_host_added" "kind_removed \<noteq> kind_host_added" "kind_added \<noteq> kind_host_added"
      by (simp_all add: kind_host_added_def kind_host_removed_def kind_changed_def kind_removed_def kind_added_def)
    show "(\<exists>c. c \<in> set (diff_host ?a ?b h) \<and> ch_severity c = severity_crit)
      = (map_of ?a h \<noteq> None \<and> (map_of ?b h = None \<or> report_field ?a h ''probe_status'' \<noteq> report_field ?b h ''probe_status''))"
    proof (cases "map_of ?a h = None \<or> map_of ?b h = None")
      case True
      then show ?thesis unfolding diff_host_mem using sev kinds by auto
    next
      case False
      have "(\<exists>c. c \<in> set (diff_host ?a ?b h) \<and> ch_severity c = severity_crit) \<longleftrightarrow>
          (\<exists>x y. report_field ?a h ''probe_status'' = Some x \<and> report_field ?b h ''probe_status'' = Some y \<and> x \<noteq> y)
        \<or> (\<exists>x. report_field ?a h ''probe_status'' = Some x \<and> report_field ?b h ''probe_status'' = None)
        \<or> (\<exists>y. report_field ?a h ''probe_status'' = None \<and> report_field ?b h ''probe_status'' = Some y)"
        unfolding diff_host_mem using False sev kinds by (auto simp del: not_None_eq) blast+
      also have "\<dots> \<longleftrightarrow> report_field ?a h ''probe_status'' \<noteq> report_field ?b h ''probe_status''"
        by (metis not_Some_eq option.sel)
      finally show ?thesis using False by satx
    qed
  qed
  finally show ?thesis by (simp only: Let_def de_Morgan_conj not_not)
qed

section \<open>A concrete report\<close>

definition demo_report :: string where
  "demo_report = ''## w'' @ [NL] @ ''```'' @ [NL] @ ''OS: x'' @ [NL] @ ''```'' @ [NL]"

lemma demo_report_parses:
  "parse_report demo_report = ok \<lparr> sn_hosts = [\<lparr> ho_name = ''w'', ho_fields = [(''probe_status'', ''ok''), (''os'', ''x'')] \<rparr>] \<rparr>"
proof -
  have l: "scan_lines (2 ^ 20) demo_report = ([''## w'', ''```'', ''OS: x'', ''```''], False)"
    by (simp add: demo_report_def scan_lines_def drop_cr_def)
  have p: "flush_host (foldl parse_report_line parse_init [''## w'', ''```'', ''OS: x'', ''```''])
     = \<lparr> ps_hosts = [\<lparr> ho_name = ''w'', ho_fields = [(''probe_status'', ''ok''), (''os'', ''x'')] \<rparr>], ps_host = ''w'', ps_in_block = True,
         ps_in_code = False, ps_key = [], ps_val = [], ps_fields = [(''OS'', ''x'')] \<rparr>"
    by code_simp
  show ?thesis unfolding parse_report_def l prod.case Let_def p by simp
qed

theorem parse_report_typed_witness:
  "list_all host_wf (sn_hosts \<lparr> sn_hosts = [\<lparr> ho_name = ''w'', ho_fields = [(''probe_status'', ''ok''), (''os'', ''x'')] \<rparr>] \<rparr>)"
  by (rule parse_report_typed [OF demo_report_parses])

end
