(* ===== verification/Go_Paths.thy ===== *)
theory Go_Paths
  imports Go_Store
begin

text \<open>
  Paths of several segments: \<open>filepath.Rel\<close>, and the lemmas that carry a relative path through
  \<open>Clean\<close>, \<open>Join\<close>, \<open>Dir\<close> and \<open>Rel\<close>.  A path below a directory is the directory
  followed by a non-empty list of plain names; joining a canonical relative path to a directory stays
  below it, and \<open>Rel\<close> recovers what was joined.
\<close>

section \<open>Rel\<close>

definition path_segs :: "path \<Rightarrow> string list" where
  "path_segs p =
     (let q = (if p = ''.'' then [] else if is_rooted p then tl p else p)
      in if q = [] then [] else split_on SLASH q)"

fun drop_common :: "'a list \<Rightarrow> 'a list \<Rightarrow> 'a list \<times> 'a list" where
  "drop_common (x # xs) (y # ys) = (if x = y then drop_common xs ys else (x # xs, y # ys))"
| "drop_common xs ys = (xs, ys)"

text \<open>\<open>None\<close> is the error of \<open>Rel\<close>: one path rooted and the other not, or the base leaves
  the common part upwards.\<close>

definition rel_path :: "path \<Rightarrow> path \<Rightarrow> path option" where
  "rel_path base targ =
     (let b = clean_path base; t = clean_path targ in
      if t = b then Some ''.''
      else if is_rooted b \<noteq> is_rooted t then None
      else (case drop_common (path_segs b) (path_segs t) of
              (bs, ts) \<Rightarrow>
                if bs \<noteq> [] \<and> hd bs = ''..'' then None
                else Some (join_with [SLASH] (replicate (length bs) ''..'' @ ts))))"

lemma drop_common_append [simp]: "drop_common xs (xs @ ys) = ([], ys)"
  by (induction xs) simp_all

section \<open>Canonical relative paths\<close>

definition plain_segs :: "string list \<Rightarrow> bool" where
  "plain_segs ss \<longleftrightarrow> ss \<noteq> [] \<and> list_all plain_name ss"

text \<open>The segments below a directory, each behind its slash.\<close>

definition below :: "string list \<Rightarrow> path" where
  "below ss = concat (map (\<lambda>s. SLASH # s) ss)"

lemma below_simps [simp]: "below [] = []" "below (s # ss) = SLASH # s @ below ss" "below (a @ b) = below a @ below b"
  by (simp_all add: below_def)

lemma below_join: "ss \<noteq> [] \<Longrightarrow> below ss = SLASH # join_with [SLASH] ss"
  by (induction "[SLASH]" ss rule: join_with.induct) auto

lemma plain_segs_split:
  "(\<And>s. s \<in> set (split_on SLASH p) \<Longrightarrow> s \<noteq> [] \<and> s \<noteq> ''.'' \<and> s \<noteq> ''..'') \<Longrightarrow> plain_segs (split_on SLASH p)"
  using split_on_sep_free [of _ SLASH p] by (auto simp: plain_segs_def plain_name_def list_all_iff)

lemma plain_segs_join: "plain_segs ss \<Longrightarrow> split_on SLASH (join_with [SLASH] ss) = ss"
  by (rule split_join) (auto simp: plain_segs_def plain_name_def list_all_iff)

lemma seg_step_plain: "plain_name s \<Longrightarrow> seg_step r acc s = s # acc"
  by (simp add: seg_step_def plain_name_def)

lemma foldl_plain: "list_all plain_name ss \<Longrightarrow> foldl (seg_step r) acc ss = rev ss @ acc"
  by (induction ss arbitrary: acc) (auto simp: seg_step_plain)

text \<open>One child at a time, a directory stays a directory.\<close>

lemma proper_dir_below: "proper_dir d \<Longrightarrow> list_all plain_name ss \<Longrightarrow> proper_dir (d @ below ss)"
proof (induction ss arbitrary: d)
  case (Cons s ss)
  then have "proper_dir ((d @ SLASH # s) @ below ss)"
    by (intro Cons.IH proper_dir_child) auto
  then show ?case by simp
qed simp

lemma clean_below: "proper_dir d \<Longrightarrow> list_all plain_name ss \<Longrightarrow> clean_path (d @ below ss) = d @ below ss"
  using proper_dir_below [of d ss] by (simp add: proper_dir_def)

lemma join_below: "proper_dir d \<Longrightarrow> plain_segs ss \<Longrightarrow> join2 d (join_with [SLASH] ss) = d @ below ss"
  using clean_below [of d ss] below_join [of ss] by (simp add: plain_segs_def) (simp add: proper_dir_def)

lemma dir_path_below: "proper_dir d \<Longrightarrow> list_all plain_name ss \<Longrightarrow> plain_name s \<Longrightarrow> dir_path (d @ below (ss @ [s])) = d @ below ss"
  using dir_path_child [OF proper_dir_below, of d ss s] by simp

lemma base_path_below: "plain_name s \<Longrightarrow> base_path (d @ below (ss @ [s])) = s"
  using base_path_child [of s "d @ below ss"] by simp

lemma split_on_below: "list_all plain_name ss \<Longrightarrow> split_on SLASH (q @ below ss) = split_on SLASH q @ ss"
proof (induction ss arbitrary: q)
  case (Cons s ss)
  have s: "SLASH \<notin> set s" using Cons.prems by (simp add: plain_name_def)
  have "split_on SLASH ((q @ SLASH # s) @ below ss) = split_on SLASH (q @ SLASH # s) @ ss"
    using Cons by (intro Cons.IH) simp
  then show ?case using s by (simp add: split_on_append_gen split_on_no_sep)
qed simp

lemma path_segs_below:
  assumes "proper_dir d" "list_all plain_name ss"
  shows "path_segs (d @ below ss) = path_segs d @ ss"
proof -
  have d: "d \<noteq> []" "d \<noteq> ''.''" "d \<noteq> [SLASH]" using assms(1) by (auto simp: proper_dir_def)
  have nd: "d @ below ss \<noteq> ''.''" "is_rooted (d @ below ss) = is_rooted d"
    using proper_dir_below [OF assms] is_rooted_append [OF d(1)] by (simp_all add: proper_dir_def)
  show ?thesis
  proof (cases "is_rooted d")
    case True
    then obtain r where r: "d = SLASH # r" "r \<noteq> []" using d by (cases d) (auto simp: is_rooted_def)
    then show ?thesis using nd True d split_on_below [OF assms(2), of r] by (simp add: path_segs_def)
  next
    case False
    then show ?thesis using nd d split_on_below [OF assms(2), of d] by (simp add: path_segs_def)
  qed
qed

lemma rel_below:
  assumes "proper_dir d" "plain_segs ss"
  shows "rel_path d (d @ below ss) = Some (join_with [SLASH] ss)"
proof -
  have ss: "list_all plain_name ss" "ss \<noteq> []" using assms(2) by (auto simp: plain_segs_def)
  have d: "d \<noteq> []" "clean_path d = d" using assms(1) by (auto simp: proper_dir_def)
  have "d @ below ss \<noteq> d" using below_join [OF ss(2)] by simp
  then show ?thesis
    using path_segs_below [OF assms(1) ss(1)] clean_below [OF assms(1) ss(1)] d
    by (simp add: rel_path_def is_rooted_append)
qed

lemma join_plain_not_up:
  assumes "plain_segs ss"
  shows "join_with [SLASH] ss \<noteq> ''..''" "\<not> has_prefix (join_with [SLASH] ss) ''../''"
proof -
  have s: "split_on SLASH (join_with [SLASH] ss) = ss" "''..'' \<notin> set ss"
    using plain_segs_join [OF assms] assms by (auto simp: plain_segs_def plain_name_def list_all_iff)
  show "join_with [SLASH] ss \<noteq> ''..''"
    using s split_on_no_sep [of SLASH "''..''"] by auto
  show "\<not> has_prefix (join_with [SLASH] ss) ''../''"
  proof
    assume "has_prefix (join_with [SLASH] ss) ''../''"
    then obtain q where "join_with [SLASH] ss = ''..'' @ SLASH # q" by (auto elim: has_prefixE)
    then show False using s split_on_append [of SLASH "''..''" q] by auto
  qed
qed

lemma below_inj:
  assumes "list_all plain_name ss" "list_all plain_name ts" "below ss = below ts"
  shows "ss = ts"
  using split_on_below [OF assms(1), of "[]"] split_on_below [OF assms(2), of "[]"] assms(3) by simp

end
