(* ===== verification/Config_Sync.thy ===== *)
theory Config_Sync
  imports Go_Paths Go_Base64 Markers
begin

text \<open>
  Signed config bundles, \<open>internal/configsync/configsync.go\<close>: \<open>PackDir\<close> on the gateway,
  \<open>Verify\<close> and \<open>Apply\<close> on a worker.  Arguments stand for \<open>crypto/ed25519\<close>
  (\<open>sign priv msg\<close>, \<open>vrfy pub msg sig\<close>), \<open>crypto/sha256\<close> (\<open>sha\<close>) and the two ends
  of \<open>archive/tar\<close>: \<open>hdr name size mode mtime\<close> is the header block of an entry or the
  error of \<open>WriteHeader\<close>, and \<open>untar b e\<close> is what reading \<open>b\<close>, then the read error
  \<open>e\<close> if there is one, gives: the entries read in full and the error that ended the archive.
  The theorems: \<open>Apply\<close> changes no file before the whole bundle is verified, and then only files
  below the destination, with content whose hash the signed manifest lists; what \<open>PackDir\<close> wrote,
  \<open>Verify\<close> accepts with the files of the tree.
\<close>

section \<open>Data\<close>

record manifest_file =
  mf_path :: string
  mf_hash :: string
  mf_mode :: nat
  mf_size :: int

record cs_manifest =
  cm_bundle_id :: string
  cm_created_at :: gtime
  cm_files :: "manifest_file list"

record tar_entry =
  te_name :: string
  te_data :: bytes

datatype path_fault = PEmpty | PBadChar | PAbsolute | PNotCanonical | PBadSegment

datatype cs_err =
    CsKeyRead ioerr | CsKeyDecode | CsKeySize nat
  | CsWalk ioerr | CsReserved string | CsWalkDepth | CsNilInfo | CsMarshal | CsCreate ioerr
  | CsTarHeader string | CsTarWrite ioerr | CsRead ioerr
  | CsOpen ioerr | CsTar string | CsDuplicate string | CsIncomplete | CsSigDecode | CsBadSignature
  | CsParse json_err | CsPath path_fault string | CsMissing string | CsHashMismatch string
  | CsMkdirDest ioerr | CsAbs string | CsOutside string | CsMkdir ioerr | CsWrite ioerr

definition manifest_name :: string where "manifest_name = ''.manifest.json''"
definition signature_name :: string where "signature_name = ''.signature''"

text \<open>The JSON form.  A nil slice is \<open>null\<close>.\<close>

definition manifest_file_members :: "manifest_file \<Rightarrow> (bytes \<times> jtree) list" where
  "manifest_file_members f =
     [(''path'', JStr (mf_path f)), (''hash'', JStr (mf_hash f)), (''mode'', JInt (int (mf_mode f))), (''size'', JInt (mf_size f))]"

definition manifest_members :: "cs_manifest \<Rightarrow> (bytes \<times> jtree) list" where
  "manifest_members m =
     [(''bundle_id'', JStr (cm_bundle_id m)), (''created_at'', JTime (cm_created_at m)),
      (''files'', if cm_files m = [] then JNull else JArr (map (\<lambda>f. JObj (manifest_file_members f)) (cm_files m)))]"

definition dec_uint32 :: "nat decoder" where
  "dec_uint32 v z =
     (if v = ''null'' then ok z
      else if all_digits v \<and> digits_val v < 2 ^ 32 then ok (digits_val v) else err JType)"

definition zero_manifest_file :: manifest_file where
  "zero_manifest_file = \<lparr> mf_path = [], mf_hash = [], mf_mode = 0, mf_size = 0 \<rparr>"

definition dec_manifest_file :: "manifest_file decoder" where
  "dec_manifest_file v z =
     (case json_members v of Inl x \<Rightarrow> err x | Inr ms \<Rightarrow>
     (case get_field dec_string (mf_path z) ms ''path'' of Inl x \<Rightarrow> err x | Inr p \<Rightarrow>
     (case get_field dec_string (mf_hash z) ms ''hash'' of Inl x \<Rightarrow> err x | Inr h \<Rightarrow>
     (case get_field dec_uint32 (mf_mode z) ms ''mode'' of Inl x \<Rightarrow> err x | Inr m \<Rightarrow>
     (case get_field dec_int64 (mf_size z) ms ''size'' of Inl x \<Rightarrow> err x | Inr s \<Rightarrow>
        ok \<lparr> mf_path = p, mf_hash = h, mf_mode = m, mf_size = s \<rparr>)))))"

text \<open>Decoding into a slice that has elements decodes over them.\<close>

fun dec_over :: "manifest_file list \<Rightarrow> bytes list \<Rightarrow> (json_err, manifest_file list) result" where
  "dec_over olds [] = ok []"
| "dec_over olds (v # vs) =
     (case dec_manifest_file v (case olds of [] \<Rightarrow> zero_manifest_file | f # _ \<Rightarrow> f) of
        Inl x \<Rightarrow> err x
      | Inr f \<Rightarrow> (case dec_over (tl olds) vs of Inl x \<Rightarrow> err x | Inr fs \<Rightarrow> ok (f # fs)))"

definition dec_manifest_files :: "manifest_file list decoder" where
  "dec_manifest_files v z =
     (if v = ''null'' then ok []
      else (case json_elems v of Inl x \<Rightarrow> err x | Inr vs \<Rightarrow> dec_over z vs))"

definition manifest_of_members :: "members \<Rightarrow> (json_err, cs_manifest) result" where
  "manifest_of_members ms =
     (case get_field dec_string [] ms ''bundle_id'' of Inl x \<Rightarrow> err x | Inr b \<Rightarrow>
     (case get_field dec_time zero_time ms ''created_at'' of Inl x \<Rightarrow> err x | Inr c \<Rightarrow>
     (case get_field dec_manifest_files [] ms ''files'' of Inl x \<Rightarrow> err x | Inr fs \<Rightarrow>
        ok \<lparr> cm_bundle_id = b, cm_created_at = c, cm_files = fs \<rparr>)))"

section \<open>Keys\<close>

definition load_key :: "nat \<Rightarrow> faults \<Rightarrow> fs \<Rightarrow> path \<Rightarrow> (cs_err, bytes) result" where
  "load_key sz flt fs p =
     (case os_read_file flt fs p of
        Inl e \<Rightarrow> err (CsKeyRead e)
      | Inr data \<Rightarrow> (case b64_dec (trim_space data) of
            None \<Rightarrow> err CsKeyDecode
          | Some k \<Rightarrow> if length k = sz then ok k else err (CsKeySize (length k))))"

text \<open>An ed25519 private key is the seed followed by the public key.\<close>

definition load_signer :: "faults \<Rightarrow> fs \<Rightarrow> path \<Rightarrow> (cs_err, bytes) result" where
  "load_signer = load_key 64"

definition load_verifier :: "faults \<Rightarrow> fs \<Rightarrow> path \<Rightarrow> (cs_err, bytes) result" where
  "load_verifier = load_key 32"

definition signer_public :: "bytes \<Rightarrow> bytes" where
  "signer_public priv = drop 32 priv"

section \<open>Packing\<close>

definition sha256_text :: "(bytes \<Rightarrow> bytes) \<Rightarrow> bytes \<Rightarrow> string" where
  "sha256_text sha b = ''sha256:'' @ hex_encode (sha b)"

definition cs_hash_file :: "(bytes \<Rightarrow> bytes) \<Rightarrow> faults \<Rightarrow> fs \<Rightarrow> path \<Rightarrow> (ioerr, string \<times> int) result" where
  "cs_hash_file sha flt fs p =
     (case os_read_file flt fs p of Inl e \<Rightarrow> err e | Inr b \<Rightarrow> ok (sha256_text sha b, int (length b)))"

text \<open>The function \<open>PackDir\<close> gives to \<open>WalkDir\<close>, on a file.  The error of
  \<open>d.Info()\<close> is dropped, so that its nil result is dereferenced.\<close>

definition pack_visit :: "(bytes \<Rightarrow> bytes) \<Rightarrow> faults \<Rightarrow> fs \<Rightarrow> path \<Rightarrow> path \<Rightarrow> (cs_err, manifest_file) result" where
  "pack_visit sha flt fs src p =
     (let rel = (case rel_path src p of None \<Rightarrow> [] | Some r \<Rightarrow> r) in
      if rel = manifest_name \<or> rel = signature_name then err (CsReserved rel)
      else (case cs_hash_file sha flt fs p of
              Inl e \<Rightarrow> err (CsWalk e)
            | Inr (h, n) \<Rightarrow>
                (case os_stat flt fs p of
                   Inr (File _ m) \<Rightarrow> ok \<lparr> mf_path = rel, mf_hash = h, mf_mode = m mod 512, mf_size = n \<rparr>
                 | _ \<Rightarrow> err CsNilInfo)))"

text \<open>\<open>filepath.WalkDir\<close>: \<open>fuel\<close> bounds the depth.\<close>

primrec walk_dir :: "(path \<Rightarrow> (cs_err, 'a) result) \<Rightarrow> faults \<Rightarrow> fs \<Rightarrow> nat \<Rightarrow> path \<Rightarrow> (cs_err, 'a list) result" where
  "walk_dir visit flt fs 0 p = err CsWalkDepth"
| "walk_dir visit flt fs (Suc n) p =
     (if is_dir fs p then
        (case os_read_dir flt fs p of
           Inl e \<Rightarrow> err (CsWalk e)
         | Inr es \<Rightarrow>
             (case map_result (walk_dir visit flt fs n) (map (\<lambda>(nm, _). join2 p nm) es) of
                Inl e \<Rightarrow> err e
              | Inr xss \<Rightarrow> ok (concat xss)))
      else (case visit p of Inl e \<Rightarrow> err e | Inr x \<Rightarrow> ok [x]))"

definition walk_fuel :: "fs \<Rightarrow> nat" where
  "walk_fuel fs = Suc (foldr (\<lambda>(p, _) n. max (length p) n) fs 0)"

definition walk_root :: "(path \<Rightarrow> (cs_err, 'a) result) \<Rightarrow> faults \<Rightarrow> fs \<Rightarrow> path \<Rightarrow> (cs_err, 'a list) result" where
  "walk_root visit flt fs p =
     (case os_stat flt fs p of Inl e \<Rightarrow> err (CsWalk e) | Inr _ \<Rightarrow> walk_dir visit flt fs (walk_fuel fs) p)"

text \<open>\<open>tar.Writer\<close>: an entry is a header block and the data, which the next call pads to a
  multiple of 512 bytes; two zero blocks end the archive.  Its state is the padding that is due.  An
  error of a write is sticky (\<open>None\<close>: the deferred \<open>Close\<close> writes nothing more), one of the
  header is not.\<close>

type_synonym tar_hdr = "string \<Rightarrow> nat \<Rightarrow> nat \<Rightarrow> gtime \<Rightarrow> (string, bytes) result"

abbreviation zeros :: "nat \<Rightarrow> bytes" where "zeros n \<equiv> replicate n (CHR 0x00)"

definition block_padding :: "nat \<Rightarrow> nat" where
  "block_padding n = (512 - n mod 512) mod 512"

definition write_tar_entry ::
  "tar_hdr \<Rightarrow> (string \<Rightarrow> gtime) \<Rightarrow> faults \<Rightarrow> path \<Rightarrow> nat \<times> fs \<Rightarrow> string \<Rightarrow> bytes \<Rightarrow> nat \<Rightarrow> (cs_err \<times> nat option \<times> fs, nat \<times> fs) result" where
  "write_tar_entry hdr clk flt out st name data mode =
     (case os_write flt (snd st) out (zeros (fst st)) of
        Inl (e, fs1) \<Rightarrow> err (CsTarHeader ''write'', None, fs1)
      | Inr fs1 \<Rightarrow>
          (case hdr name (length data) (mode mod 512) (clk name) of
             Inl m \<Rightarrow> err (CsTarHeader m, Some 0, fs1)
           | Inr h \<Rightarrow>
               (case os_write flt fs1 out h of
                  Inl (e, fs2) \<Rightarrow> err (CsTarHeader ''write'', None, fs2)
                | Inr fs2 \<Rightarrow>
                    (case os_write flt fs2 out data of
                       Inl (e, fs3) \<Rightarrow> err (CsTarWrite e, None, fs3)
                     | Inr fs3 \<Rightarrow> ok (block_padding (length data), fs3)))))"

definition tar_close :: "faults \<Rightarrow> path \<Rightarrow> nat option \<Rightarrow> fs \<Rightarrow> fs" where
  "tar_close flt out due fs =
     (case due of None \<Rightarrow> fs
      | Some n \<Rightarrow> (case os_write flt fs out (zeros n @ zeros 1024) of Inl (_, fs') \<Rightarrow> fs' | Inr fs' \<Rightarrow> fs'))"

fun pack_files ::
  "tar_hdr \<Rightarrow> (string \<Rightarrow> gtime) \<Rightarrow> faults \<Rightarrow> path \<Rightarrow> path \<Rightarrow> manifest_file list \<Rightarrow> nat \<times> fs \<Rightarrow> (cs_err \<times> nat option \<times> fs, nat \<times> fs) result" where
  "pack_files hdr clk flt src out [] st = ok st"
| "pack_files hdr clk flt src out (f # mfs) st =
     (case os_read_file flt (snd st) (join2 src (mf_path f)) of
        Inl e \<Rightarrow> err (CsRead e, Some (fst st), snd st)
      | Inr data \<Rightarrow>
          (case write_tar_entry hdr clk flt out st (mf_path f) data (mf_mode f) of
             Inl x \<Rightarrow> err x
           | Inr st' \<Rightarrow> pack_files hdr clk flt src out mfs st'))"

definition pack_entries ::
  "tar_hdr \<Rightarrow> (string \<Rightarrow> gtime) \<Rightarrow> faults \<Rightarrow> path \<Rightarrow> path \<Rightarrow> bytes \<Rightarrow> bytes \<Rightarrow> manifest_file list \<Rightarrow> fs
     \<Rightarrow> (cs_err \<times> nat option \<times> fs, nat \<times> fs) result" where
  "pack_entries hdr clk flt src out mb sig files fs =
     (case write_tar_entry hdr clk flt out (0, fs) manifest_name mb mode_0644 of
        Inl x \<Rightarrow> err x
      | Inr st1 \<Rightarrow>
          (case write_tar_entry hdr clk flt out st1 signature_name (b64_enc sig) mode_0644 of
             Inl x \<Rightarrow> err x
           | Inr st2 \<Rightarrow> pack_files hdr clk flt src out files st2))"

definition pack_dir ::
  "(bytes \<Rightarrow> bytes \<Rightarrow> bytes) \<Rightarrow> (bytes \<Rightarrow> bytes) \<Rightarrow> tar_hdr \<Rightarrow> (string \<Rightarrow> gtime) \<Rightarrow> gtime \<Rightarrow> faults \<Rightarrow> bytes \<Rightarrow> fs
     \<Rightarrow> path \<Rightarrow> path \<Rightarrow> string \<Rightarrow> (cs_err \<times> fs, fs) result" where
  "pack_dir sign sha hdr clk now flt priv fs src out bid =
     (case walk_root (pack_visit sha flt fs src) flt fs src of
        Inl e \<Rightarrow> err (e, fs)
      | Inr found \<Rightarrow>
          (let files = sort_slice (\<lambda>a b. mf_path a < mf_path b) found;
               m = \<lparr> cm_bundle_id = bid, cm_created_at = to_utc now, cm_files = files \<rparr> in
           if \<not> time_json_ok (cm_created_at m) then err (CsMarshal, fs)
           else (let mb = marshal_indent (manifest_members m) in
                 case os_open_create flt True fs out 438 of
                   Inl e \<Rightarrow> err (CsCreate e, fs)
                 | Inr fs1 \<Rightarrow>
                     (case pack_entries hdr clk flt src out mb (sign priv mb) files fs1 of
                        Inl (e, due, fs2) \<Rightarrow> err (e, tar_close flt out due fs2)
                      | Inr (due, fs2) \<Rightarrow> ok (tar_close flt out (Some due) fs2)))))"

section \<open>Verifying\<close>

type_synonym untar = "bytes \<Rightarrow> string option \<Rightarrow> tar_entry list \<times> string option"

definition open_stream :: "faults \<Rightarrow> fs \<Rightarrow> path \<Rightarrow> (ioerr, bytes \<times> string option) result" where
  "open_stream flt fs p =
     (case flt (FOpen p) of
        Some (_, m) \<Rightarrow> err (OsErr m)
      | None \<Rightarrow> (case map_of fs p of
            None \<Rightarrow> err NotExist
          | Some (Dir _) \<Rightarrow> ok ([], Some ''is a directory'')
          | Some (File b _) \<Rightarrow> (case flt (FRead p) of None \<Rightarrow> ok (b, None) | Some (k, m) \<Rightarrow> ok (take k b, Some m))))"

record bundle_parts =
  bp_manifest :: "bytes option"
  bp_sig :: "bytes option"
  bp_files :: "(string \<times> bytes) list"

definition no_parts :: bundle_parts where
  "no_parts = \<lparr> bp_manifest = None, bp_sig = None, bp_files = [] \<rparr>"

fun read_entries :: "string option \<Rightarrow> bundle_parts \<Rightarrow> tar_entry list \<Rightarrow> (cs_err, bundle_parts) result" where
  "read_entries e bp [] = (case e of None \<Rightarrow> ok bp | Some m \<Rightarrow> err (CsTar m))"
| "read_entries e bp (t # ts) =
     (if te_name t = manifest_name then read_entries e (bp\<lparr>bp_manifest := Some (te_data t)\<rparr>) ts
      else if te_name t = signature_name then read_entries e (bp\<lparr>bp_sig := Some (te_data t)\<rparr>) ts
      else if map_of (bp_files bp) (te_name t) \<noteq> None then err (CsDuplicate (te_name t))
      else read_entries e (bp\<lparr>bp_files := bp_files bp @ [(te_name t, te_data t)]\<rparr>) ts)"

definition validate_manifest_path :: "string \<Rightarrow> path_fault option" where
  "validate_manifest_path p =
     (if p = [] then Some PEmpty
      else if contains_any p [BSL, CHR '':''] then Some PBadChar
      else if is_rooted p then Some PAbsolute
      else if clean_path p \<noteq> p then Some PNotCanonical
      else if list_ex (\<lambda>s. s = ''..'' \<or> s = ''.'' \<or> s = []) (split_on SLASH p) then Some PBadSegment
      else None)"

fun check_files ::
  "(bytes \<Rightarrow> bytes) \<Rightarrow> (string \<times> bytes) list \<Rightarrow> manifest_file list \<Rightarrow> (string \<times> bytes) list \<Rightarrow> (cs_err, (string \<times> bytes) list) result" where
  "check_files sha fd [] acc = ok acc"
| "check_files sha fd (f # mfs) acc =
     (case validate_manifest_path (mf_path f) of
        Some w \<Rightarrow> err (CsPath w (mf_path f))
      | None \<Rightarrow>
          (case map_of fd (mf_path f) of
             None \<Rightarrow> err (CsMissing (mf_path f))
           | Some data \<Rightarrow>
               if sha256_text sha data \<noteq> mf_hash f then err (CsHashMismatch (mf_path f))
               else check_files sha fd mfs (AList.update (mf_path f) data acc)))"

definition verify_content ::
  "(bytes \<Rightarrow> bytes \<Rightarrow> bytes \<Rightarrow> bool) \<Rightarrow> (bytes \<Rightarrow> bytes) \<Rightarrow> untar \<Rightarrow> faults \<Rightarrow> bytes \<Rightarrow> fs \<Rightarrow> path
     \<Rightarrow> (cs_err, cs_manifest \<times> (string \<times> bytes) list) result" where
  "verify_content vrfy sha untar flt pub fs bundle =
     (case open_stream flt fs bundle of
        Inl e \<Rightarrow> err (CsOpen e)
      | Inr (b, rerr) \<Rightarrow>
     (case untar b rerr of (es, terr) \<Rightarrow>
     (case read_entries terr no_parts es of
        Inl e \<Rightarrow> err e
      | Inr bp \<Rightarrow>
     (case (bp_manifest bp, bp_sig bp) of
        (Some mb, Some sb) \<Rightarrow>
          (case b64_dec (trim_space sb) of
             None \<Rightarrow> err CsSigDecode
           | Some sig \<Rightarrow>
               if \<not> vrfy pub mb sig then err CsBadSignature
               else (case unmarshal_with manifest_of_members mb of
                       Inl e \<Rightarrow> err (CsParse e)
                     | Inr m \<Rightarrow> (case check_files sha (bp_files bp) (cm_files m) [] of
                           Inl e \<Rightarrow> err e
                         | Inr content \<Rightarrow> ok (m, content))))
      | _ \<Rightarrow> err CsIncomplete))))"

definition cs_verify ::
  "(bytes \<Rightarrow> bytes \<Rightarrow> bytes \<Rightarrow> bool) \<Rightarrow> (bytes \<Rightarrow> bytes) \<Rightarrow> untar \<Rightarrow> faults \<Rightarrow> bytes \<Rightarrow> fs \<Rightarrow> path \<Rightarrow> (cs_err, cs_manifest) result" where
  "cs_verify vrfy sha untar flt pub fs bundle =
     (case verify_content vrfy sha untar flt pub fs bundle of Inl e \<Rightarrow> err e | Inr (m, _) \<Rightarrow> ok m)"

section \<open>Applying\<close>

fun apply_files :: "faults \<Rightarrow> path \<Rightarrow> (string \<times> bytes) list \<Rightarrow> manifest_file list \<Rightarrow> fs \<Rightarrow> (cs_err \<times> fs, fs) result" where
  "apply_files flt dest content [] fs = ok fs"
| "apply_files flt dest content (f # mfs) fs =
     (let out = join2 dest (mf_path f) in
      case rel_path dest out of
        None \<Rightarrow> err (CsOutside (mf_path f), fs)
      | Some rel \<Rightarrow>
          if rel = ''..'' \<or> has_prefix rel ''../'' then err (CsOutside (mf_path f), fs)
          else (case os_mkdir_all flt fs (dir_path out) mode_0755 of
                  Inl (e, fs1) \<Rightarrow> err (CsMkdir e, fs1)
                | Inr fs1 \<Rightarrow>
                    (case os_write_file flt fs1 out (case map_of content (mf_path f) of Some b \<Rightarrow> b | None \<Rightarrow> [])
                            (mf_mode f mod 512) of
                       Inl (e, fs2) \<Rightarrow> err (CsWrite e, fs2)
                     | Inr fs2 \<Rightarrow> apply_files flt dest content mfs fs2)))"

definition cs_apply ::
  "(bytes \<Rightarrow> bytes \<Rightarrow> bytes \<Rightarrow> bool) \<Rightarrow> (bytes \<Rightarrow> bytes) \<Rightarrow> untar \<Rightarrow> (string, path) result \<Rightarrow> faults \<Rightarrow> bytes \<Rightarrow> fs
     \<Rightarrow> path \<Rightarrow> path \<Rightarrow> (cs_err \<times> fs, cs_manifest \<times> fs) result" where
  "cs_apply vrfy sha untar wd flt pub fs bundle dest =
     (case verify_content vrfy sha untar flt pub fs bundle of
        Inl e \<Rightarrow> err (e, fs)
      | Inr (m, content) \<Rightarrow>
          (case os_mkdir_all flt fs dest mode_0755 of
             Inl (e, fs1) \<Rightarrow> err (CsMkdirDest e, fs1)
           | Inr fs1 \<Rightarrow>
               (case abs_path wd dest of
                  Inl w \<Rightarrow> err (CsAbs w, fs1)
                | Inr d \<Rightarrow>
                    (case apply_files flt d content (cm_files m) fs1 of
                       Inl (e, fs2) \<Rightarrow> err (e, fs2)
                     | Inr fs2 \<Rightarrow> ok (m, fs2)))))"

section \<open>The manifest read back\<close>

definition mfile_ok :: "manifest_file \<Rightarrow> bool" where
  "mfile_ok f \<longleftrightarrow> valid_utf8 (mf_path f) \<and> valid_utf8 (mf_hash f) \<and> mf_mode f < 2 ^ 32 \<and> in_int64 (mf_size f)"

definition manifest_ok :: "cs_manifest \<Rightarrow> bool" where
  "manifest_ok m \<longleftrightarrow> valid_utf8 (cm_bundle_id m) \<and> time_ok (cm_created_at m) \<and> list_all mfile_ok (cm_files m)"

lemma dec_uint32_itoa [simp]: "n < 2 ^ 32 \<Longrightarrow> dec_uint32 (itoa (int n)) z = ok n"
  using itoa_not_null [of "int n"] nat_str_digits [of n] digits_val_nat_str [of n]
  by (simp add: dec_uint32_def) (simp add: itoa_def)

lemma manifest_file_indent:
  "json_members (json_indent k (JObj (manifest_file_members f))) = ok (printed (manifest_file_members f))"
proof -
  have two: "Suc 1 \<le> max_nesting" by (simp add: max_nesting_def)
  have "json_members (json_indent k (JObj (manifest_file_members f)))
          = ok (map (\<lambda>(k', t). (coerce k', json_indent (Suc k) t)) (manifest_file_members f))"
    by (rule json_members_indent [OF _ two]) (simp_all add: manifest_file_members_def)
  then show ?thesis by (simp add: manifest_file_members_def printed_def coerce_ascii byte_def)
qed

lemma dec_manifest_file_ok:
  assumes "mfile_ok f"
  shows "dec_manifest_file (json_indent k (JObj (manifest_file_members f))) z = ok f"
proof -
  let ?ms = "printed (manifest_file_members f)"
  have "get_field dec_string (mf_path z) ?ms ''path'' = ok (mf_path f)"
    "get_field dec_string (mf_hash z) ?ms ''hash'' = ok (mf_hash f)"
    "get_field dec_uint32 (mf_mode z) ?ms ''mode'' = ok (mf_mode f)"
    "get_field dec_int64 (mf_size z) ?ms ''size'' = ok (mf_size f)"
    using assms
    by (simp_all add: manifest_file_members_def printed_simps key_eval get_field_def mfile_ok_def valid_utf8_def)
  then show ?thesis by (simp add: dec_manifest_file_def manifest_file_indent)
qed

lemma dec_over_ok:
  "list_all mfile_ok fs \<Longrightarrow> dec_over olds (map (\<lambda>f. json_indent k (JObj (manifest_file_members f))) fs) = ok fs"
  by (induction fs arbitrary: olds) (simp_all add: dec_manifest_file_ok)

lemma dec_manifest_files_ok:
  assumes "list_all mfile_ok fs"
  shows "dec_manifest_files (json_indent k (if fs = [] then JNull else JArr (map (\<lambda>f. JObj (manifest_file_members f)) fs))) z = ok fs"
proof (cases "fs = []")
  case False
  let ?vs = "map (\<lambda>f. json_indent (Suc k) (JObj (manifest_file_members f))) fs"
  have ai: "json_indent k (JArr (map (\<lambda>f. JObj (manifest_file_members f)) fs)) = arr_text (indent_nl (Suc k)) (indent_nl k) ?vs"
    using json_indent_arr [of "map (\<lambda>f. JObj (manifest_file_members f)) fs" k] False by (simp add: comp_def)
  have "json_elems (arr_text (indent_nl (Suc k)) (indent_nl k) ?vs) = ok ?vs"
  proof (rule elems_arr_text)
    fix v assume "v \<in> set ?vs"
    then obtain f where "v = json_indent (Suc k) (JObj (manifest_file_members f))" by auto
    then show "completes 2 v"
      using jcomplete_indent [of 2 "JObj (manifest_file_members f)" "Suc k"] by (simp add: manifest_file_members_def)
  qed (simp_all add: max_nesting_def)
  then show ?thesis
    using False ai dec_over_ok [OF assms, of z "Suc k"] by (simp add: dec_manifest_files_def arr_text_def)
qed (simp add: dec_manifest_files_def)

lemma manifest_decode:
  assumes "manifest_ok m"
  shows "unmarshal_with manifest_of_members (marshal_indent (manifest_members m)) = ok m"
proof -
  let ?fj = "if cm_files m = [] then JNull else JArr (map (\<lambda>f. JObj (manifest_file_members f)) (cm_files m))"
  let ?ms = "map (\<lambda>(k', t). (coerce k', json_indent (Suc 0) t)) (manifest_members m)"
  have "jcomplete 3 ?fj" by (auto simp: manifest_file_members_def list_all_iff)
  then have "json_members (marshal_indent (manifest_members m)) = ok ?ms"
    by (intro json_members_indent [where d = 3]) (simp_all add: manifest_members_def max_nesting_def)
  moreover have ms: "?ms = [(''bundle_id'', json_quote (cm_bundle_id m)), (''created_at'', json_print (JTime (cm_created_at m))),
      (''files'', json_indent (Suc 0) ?fj)]"
    by (simp add: manifest_members_def coerce_ascii byte_def)
  moreover have "get_field dec_string [] ?ms ''bundle_id'' = ok (cm_bundle_id m)"
    "get_field dec_time zero_time ?ms ''created_at'' = ok (cm_created_at m)"
    "get_field dec_manifest_files [] ?ms ''files'' = ok (cm_files m)"
    using assms dec_manifest_files_ok [of "cm_files m" "Suc 0" "[]"]
    unfolding ms by (simp_all add: key_eval get_field_def manifest_ok_def valid_utf8_def del: json_indent.simps)
  ultimately show ?thesis by (simp add: unmarshal_with_def manifest_of_members_def)
qed

section \<open>What a verified bundle holds\<close>

lemma validated_path:
  assumes "validate_manifest_path p = None"
  shows "plain_segs (split_on SLASH p)" "join_with [SLASH] (split_on SLASH p) = p"
  using assms plain_segs_split [of p]
  by (auto simp: validate_manifest_path_def list_ex_iff join_split split: if_splits)

lemma check_files_ok:
  "check_files sha fd mfs acc = ok c \<Longrightarrow>
     (\<forall>p. map_of c p = (if p \<in> mf_path ` set mfs then map_of fd p else map_of acc p))
   \<and> (\<forall>f \<in> set mfs. validate_manifest_path (mf_path f) = None \<and> (\<exists>b. map_of fd (mf_path f) = Some b \<and> sha256_text sha b = mf_hash f))"
proof (induction mfs arbitrary: acc)
  case (Cons g mfs)
  from Cons.prems obtain b where g: "validate_manifest_path (mf_path g) = None" "map_of fd (mf_path g) = Some b"
    "sha256_text sha b = mf_hash g" "check_files sha fd mfs (AList.update (mf_path g) b acc) = ok c"
    by (auto split: option.splits if_splits)
  from Cons.IH [OF g(4)] g(1-3) show ?case by (auto simp: update_conv)
qed simp

definition verified_file :: "(bytes \<Rightarrow> bytes) \<Rightarrow> (string \<times> bytes) list \<Rightarrow> manifest_file \<Rightarrow> bool" where
  "verified_file sha c f \<longleftrightarrow> validate_manifest_path (mf_path f) = None
     \<and> (case map_of c (mf_path f) of None \<Rightarrow> False | Some b \<Rightarrow> sha256_text sha b = mf_hash f)"

lemma check_files_verified: "check_files sha fd mfs acc = ok c \<Longrightarrow> f \<in> set mfs \<Longrightarrow> verified_file sha c f"
  using check_files_ok [of sha fd mfs acc c] by (fastforce simp: verified_file_def)

lemma verify_content_ok:
  assumes "verify_content vrfy sha untar flt pub fs bundle = ok (m, c)"
  shows "\<exists>mb sig. vrfy pub mb sig \<and> unmarshal_with manifest_of_members mb = ok m"
    "f \<in> set (cm_files m) \<Longrightarrow> verified_file sha c f"
  using assms
  by (auto simp: verify_content_def split: sum.splits prod.splits option.splits if_splits intro: check_files_verified)

section \<open>Applying stays below the destination\<close>

abbreviation content_of :: "(string \<times> bytes) list \<Rightarrow> manifest_file \<Rightarrow> bytes" where
  "content_of c f \<equiv> (case map_of c (mf_path f) of Some b \<Rightarrow> b | None \<Rightarrow> [])"

lemma apply_files_Cons:
  assumes "proper_dir d" "validate_manifest_path (mf_path f) = None"
  shows "apply_files flt d c (f # mfs) fs =
     (case os_mkdir_all flt fs (dir_path (d @ SLASH # mf_path f)) mode_0755 of
        Inl (e, fs1) \<Rightarrow> err (CsMkdir e, fs1)
      | Inr fs1 \<Rightarrow>
          (case os_write_file flt fs1 (d @ SLASH # mf_path f) (content_of c f) (mf_mode f mod 512) of
             Inl (e, fs2) \<Rightarrow> err (CsWrite e, fs2)
           | Inr fs2 \<Rightarrow> apply_files flt d c mfs fs2))"
proof -
  note v = validated_path [OF assms(2)]
  have b: "below (split_on SLASH (mf_path f)) = SLASH # mf_path f" using below_join [of "split_on SLASH (mf_path f)"] v(2) by simp
  have "join2 d (mf_path f) = d @ SLASH # mf_path f" using join_below [OF assms(1) v(1)] v(2) b by simp
  moreover have "rel_path d (d @ SLASH # mf_path f) = Some (mf_path f)" using rel_below [OF assms(1) v(1)] v(2) b by simp
  ultimately show ?thesis
    using join_plain_not_up [OF v(1)] v(2)
    by (simp only: apply_files.simps Let_def option.case if_False simp_thms)
qed

lemma dir_path_proper:
  assumes "proper_dir d" "plain_segs ss"
  shows "proper_dir (dir_path (d @ below ss))"
proof -
  obtain rs s where ss: "ss = rs @ [s]" using assms(2) by (metis plain_segs_def rev_exhaust)
  then have "list_all plain_name rs" "plain_name s" using assms(2) by (auto simp: plain_segs_def)
  then show ?thesis using dir_path_below [OF assms(1)] proper_dir_below [OF assms(1)] ss by simp
qed

lemma write_file_partial:
  assumes "os_write_file flt fs p b m = err (e, fs')"
  shows "fs' = fs \<or> (\<exists>k. file_data fs' p = Some (take k b))"
proof (cases "os_open_create flt True fs p m")
  case (Inr fs1)
  have d: "file_data fs1 p = Some []" using open_create_ok(1) [OF Inr] by simp
  show ?thesis
  proof (cases "os_write flt fs1 p b")
    case (Inl x)
    then obtain k where "file_data fs' p = Some (take k b)"
      using assms Inr d
      by (auto simp: os_write_file_def os_write_def file_data_def Let_def update_conv split: option.splits fnode.splits)
    then show ?thesis by blast
  next
    case (Inr fs2)
    then have "fs' = fs2" using assms \<open>os_open_create flt True fs p m = ok fs1\<close>
      by (auto simp: os_write_file_def split: sum.splits)
    then show ?thesis using write_ok(1) [OF Inr d] by (metis append_Nil take_all order_refl)
  qed
qed (use assms in \<open>auto simp: os_write_file_def\<close>)

text \<open>One round of the loop: it fails having changed at most the file it was at, or it wrote that
  file and goes on.\<close>

lemma apply_round:
  assumes "proper_dir d" "validate_manifest_path (mf_path f) = None"
  defines "tgt \<equiv> d @ SLASH # mf_path f"
  obtains (fail) e fs' where "apply_files flt d c (f # mfs) fs = err (e, fs')"
      "\<And>q. file_data fs' q \<noteq> file_data fs q \<Longrightarrow> q = tgt \<and> (\<exists>k. file_data fs' q = Some (take k (content_of c f)))"
  | (next_file) fs2 where "apply_files flt d c (f # mfs) fs = apply_files flt d c mfs fs2"
      "file_data fs2 tgt = Some (content_of c f)" "\<And>q. q \<noteq> tgt \<Longrightarrow> file_data fs2 q = file_data fs q"
proof -
  note unf = apply_files_Cons [OF assms(1,2), of flt c mfs fs, folded tgt_def]
  note sp = validated_path [OF assms(2)]
  have pd: "proper_dir (dir_path tgt)"
    using dir_path_proper [OF assms(1) sp(1)] below_join [of "split_on SLASH (mf_path f)"] sp(2) by (simp add: tgt_def)
  have wr: "file_data fs2 q = file_data fs1 q"
    if "os_write_file flt fs1 tgt b m = ok fs2 \<or> os_write_file flt fs1 tgt b m = err (x, fs2)" "q \<noteq> tgt" for fs1 fs2 b m x q
    using write_file_other [OF that] by (rule file_data_cong)
  consider (mkdir) e where "os_mkdir_all flt fs (dir_path tgt) mode_0755 = err (e, fs)"
    | (wfail) fs1 e fs2 where "os_mkdir_all flt fs (dir_path tgt) mode_0755 = ok fs1"
        "os_write_file flt fs1 tgt (content_of c f) (mf_mode f mod 512) = err (e, fs2)"
    | (whole) fs1 fs2 where "os_mkdir_all flt fs (dir_path tgt) mode_0755 = ok fs1"
        "os_write_file flt fs1 tgt (content_of c f) (mf_mode f mod 512) = ok fs2"
    by (metis mkdir_all_err obj_sumE surj_pair)
  then show thesis
  proof cases
    case mkdir
    show thesis by (rule fail [of "CsMkdir e" fs]) (use unf mkdir in auto)
  next
    case wfail
    have same: "file_data fs1 q = file_data fs q" for q by (rule mkdir_all_ok(3) [OF wfail(1) pd])
    show thesis
    proof (rule fail [of "CsWrite e" fs2])
      show "apply_files flt d c (f # mfs) fs = err (CsWrite e, fs2)" using unf wfail by simp
      fix q assume q: "file_data fs2 q \<noteq> file_data fs q"
      then have "q = tgt" using wr [of fs1 _ _ fs2 e q] wfail(2) same [of q] by metis
      then show "q = tgt \<and> (\<exists>k. file_data fs2 q = Some (take k (content_of c f)))"
        using write_file_partial [OF wfail(2)] q same by auto
    qed
  next
    case whole
    have same: "file_data fs1 q = file_data fs q" for q by (rule mkdir_all_ok(3) [OF whole(1) pd])
    show thesis
    proof (rule next_file [of fs2])
      show "apply_files flt d c (f # mfs) fs = apply_files flt d c mfs fs2" using unf whole by simp
      show "file_data fs2 tgt = Some (content_of c f)" by (rule write_file_ok [OF whole(2)])
      show "file_data fs2 q = file_data fs q" if "q \<noteq> tgt" for q using wr [OF _ that] whole(2) same [of q] by metis
    qed
  qed
qed

text \<open>A file that the loop changed is one of the manifest, with its content or, after an error, the
  start of it.\<close>

lemma apply_files_frame:
  assumes "proper_dir d" "list_all (\<lambda>f. validate_manifest_path (mf_path f) = None) mfs"
    "apply_files flt d c mfs fs = (if full then ok fs' else err (e, fs'))" "file_data fs' p \<noteq> file_data fs p"
  shows "\<exists>f \<in> set mfs. p = d @ SLASH # mf_path f
           \<and> (\<exists>k. file_data fs' p = Some (take k (content_of c f)) \<and> (full \<longrightarrow> k = length (content_of c f)))"
  using assms(2-4)
proof (induction mfs arbitrary: fs)
  case (Cons f mfs)
  have v: "validate_manifest_path (mf_path f) = None" using Cons.prems(1) by simp
  show ?case
  proof (cases rule: apply_round [OF assms(1) v, of flt c mfs fs, case_names fail next_file])
    case (fail e2 fs2)
    then have "\<not> full \<and> fs' = fs2" using Cons.prems(2) by (auto split: if_splits)
    then show ?thesis using fail(2) [of p] Cons.prems(3) by auto
  next
    case (next_file fs2)
    show ?thesis
    proof (cases "file_data fs' p = file_data fs2 p")
      case True
      then have "p = d @ SLASH # mf_path f" using next_file(3) [of p] Cons.prems(3) by metis
      then show ?thesis using True next_file(2) by (auto intro!: exI [of _ "length (content_of c f)"])
    next
      case False
      then show ?thesis using Cons.IH [of fs2] Cons.prems next_file(1) by auto
    qed
  qed
qed (auto split: if_splits)

lemma apply_files_installs:
  assumes "proper_dir d" "list_all (\<lambda>f. validate_manifest_path (mf_path f) = None) mfs"
    "apply_files flt d c mfs fs = ok fs'" "f \<in> set mfs"
  shows "file_data fs' (d @ SLASH # mf_path f) = Some (content_of c f)"
  using assms(2-4)
proof (induction mfs arbitrary: fs)
  case (Cons g mfs)
  have v: "validate_manifest_path (mf_path g) = None" using Cons.prems(1) by simp
  show ?case
  proof (cases rule: apply_round [OF assms(1) v, of flt c mfs fs, case_names fail next_file])
    case (next_file fs2)
    have tl: "apply_files flt d c mfs fs2 = ok fs'" using next_file(1) Cons.prems(2) by simp
    show ?thesis
    proof (cases "f \<in> set mfs")
      case True
      then show ?thesis using Cons.IH [OF _ tl] Cons.prems(1) by simp
    next
      case False
      then have "f = g" using Cons.prems(3) by simp
      moreover have "file_data fs' (d @ SLASH # mf_path g) = Some (content_of c g)"
        using apply_files_frame [OF assms(1) _, of mfs flt c fs2 True fs' _ "d @ SLASH # mf_path g"] tl Cons.prems(1) next_file(2)
        by fastforce
      ultimately show ?thesis by simp
    qed
  qed (use Cons.prems in auto)
qed simp

lemma verified_all: "(\<And>f. f \<in> set mfs \<Longrightarrow> verified_file sha c f) \<Longrightarrow> list_all (\<lambda>f. validate_manifest_path (mf_path f) = None) mfs"
  by (auto simp: list_all_iff verified_file_def)

lemma verified_hash: "verified_file sha c f \<Longrightarrow> sha256_text sha (content_of c f) = mf_hash f"
  by (auto simp: verified_file_def split: option.splits)

text \<open>The runs of \<open>Apply\<close> on an absolute destination: refused with nothing written, stopped while
  it makes the destination, or the loop over the verified files.\<close>

lemma cs_apply_cases:
  assumes "proper_dir dest" "is_rooted dest"
  obtains (refused) e where "verify_content vrfy sha untar flt pub fs bundle = err e"
      "cs_apply vrfy sha untar wd flt pub fs bundle dest = err (e, fs)"
  | (mkdir) m c e where "verify_content vrfy sha untar flt pub fs bundle = ok (m, c)"
      "cs_apply vrfy sha untar wd flt pub fs bundle dest = err (CsMkdirDest e, fs)"
  | (loop) m c fs1 where "verify_content vrfy sha untar flt pub fs bundle = ok (m, c)"
      "cs_apply vrfy sha untar wd flt pub fs bundle dest
         = (case apply_files flt dest c (cm_files m) fs1 of Inl (e, fs2) \<Rightarrow> err (e, fs2) | Inr fs2 \<Rightarrow> ok (m, fs2))"
      "\<And>p. file_data fs1 p = file_data fs p"
proof (cases "verify_content vrfy sha untar flt pub fs bundle")
  case (Inl e)
  show thesis by (rule refused [OF Inl]) (simp add: cs_apply_def Inl)
next
  case (Inr mc)
  obtain m c where mc: "mc = (m, c)" by (cases mc)
  note v = Inr [unfolded mc]
  have ab: "abs_path wd dest = ok dest" using assms by (simp add: abs_path_def proper_dir_def)
  show thesis
  proof (cases "os_mkdir_all flt fs dest mode_0755")
    case (Inl x)
    then obtain e where x: "x = (e, fs)" using mkdir_all_err [of flt fs dest mode_0755] by (cases x) auto
    show thesis by (rule mkdir [OF v]) (simp add: cs_apply_def v Inl x)
  next
    case (Inr fs1)
    show thesis by (rule loop [OF v, of fs1]) (simp_all add: cs_apply_def v Inr ab mkdir_all_ok(3) [OF Inr assms(1)])
  qed
qed

text \<open>The manifest is one that the key signed, and \<open>p\<close> is the place of its file \<open>f\<close> below the destination.\<close>

definition signed_manifest :: "(bytes \<Rightarrow> bytes \<Rightarrow> bytes \<Rightarrow> bool) \<Rightarrow> bytes \<Rightarrow> cs_manifest \<Rightarrow> bool" where
  "signed_manifest vrfy pub m \<longleftrightarrow> (\<exists>mb sig. vrfy pub mb sig \<and> unmarshal_with manifest_of_members mb = ok m)"

definition placed :: "path \<Rightarrow> manifest_file \<Rightarrow> path \<Rightarrow> bool" where
  "placed dest f p \<longleftrightarrow> plain_segs (split_on SLASH (mf_path f)) \<and> p = dest @ SLASH # mf_path f"

text \<open>C29. \<open>Apply\<close> to an absolute destination, whatever system calls fail on the way.  If it succeeds, the manifest's signature
  verified under the pinned key, every file of it is at its canonical relative path below the destination with content of
  the listed hash, in full, and no other file changed.  If it fails, each file that changed is such a file, and holds a beginning of
  content with the listed hash.  So a bundle that does not verify changes no file.\<close>

theorem apply_confined:
  assumes "proper_dir dest" "is_rooted dest"
  shows "case cs_apply vrfy sha untar wd flt pub fs bundle dest of
      Inr (m, fs') \<Rightarrow> signed_manifest vrfy pub m
        \<and> (\<forall>f \<in> set (cm_files m). \<exists>p b. placed dest f p \<and> file_data fs' p = Some b \<and> sha256_text sha b = mf_hash f)
        \<and> (\<forall>p. file_data fs' p \<noteq> file_data fs p \<longrightarrow> (\<exists>f \<in> set (cm_files m). placed dest f p))
    | Inl (e, fs') \<Rightarrow> (\<forall>p. file_data fs' p \<noteq> file_data fs p \<longrightarrow>
        (\<exists>m c. \<exists>f \<in> set (cm_files m). \<exists>b k. verify_content vrfy sha untar flt pub fs bundle = ok (m, c) \<and> signed_manifest vrfy pub m
           \<and> placed dest f p \<and> sha256_text sha b = mf_hash f \<and> file_data fs' p = Some (take k b)))"
proof (cases rule: cs_apply_cases [OF assms, of vrfy sha untar flt pub fs "bundle" wd, case_names refused mkdir loop])
  case (loop m c fs1)
  note ver = verify_content_ok [OF loop(1)]
  have v: "list_all (\<lambda>f. validate_manifest_path (mf_path f) = None) (cm_files m)" by (rule verified_all [OF ver(2)])
  have sg: "signed_manifest vrfy pub m" using ver(1) by (simp add: signed_manifest_def)
  have pl: "placed dest f (dest @ SLASH # mf_path f)" if "f \<in> set (cm_files m)" for f
    using ver(2) [OF that] by (simp add: placed_def verified_file_def validated_path)
  have h: "sha256_text sha (content_of c f) = mf_hash f" if "f \<in> set (cm_files m)" for f by (rule verified_hash [OF ver(2) [OF that]])
  show ?thesis
  proof (cases "apply_files flt dest c (cm_files m) fs1")
    case (Inl x)
    obtain e fs' where x: "x = (e, fs')" by (cases x)
    have "\<exists>f \<in> set (cm_files m). placed dest f p \<and> (\<exists>k. file_data fs' p = Some (take k (content_of c f)))" if "file_data fs' p \<noteq> file_data fs p" for p
      using apply_files_frame [OF assms(1) v, of flt c fs1 False fs' e p] Inl x that loop(3) pl by auto
    then show ?thesis using loop(1,2) Inl x sg h by (simp add: Bex_def) metis
  next
    case (Inr fs')
    have "\<exists>f \<in> set (cm_files m). placed dest f p" if "file_data fs' p \<noteq> file_data fs p" for p
      using apply_files_frame [OF assms(1) v, of flt c fs1 True fs' undefined p] Inr that loop(3) pl by auto
    moreover have "file_data fs' (dest @ SLASH # mf_path f) = Some (content_of c f)" if "f \<in> set (cm_files m)" for f
      by (rule apply_files_installs [OF assms(1) v Inr that])
    ultimately show ?thesis using loop(2) Inr sg h pl by simp blast
  qed
qed simp_all

text \<open>A bundle of one file.\<close>

definition one_manifest :: cs_manifest where
  "one_manifest = \<lparr> cm_bundle_id = ''v1'', cm_created_at = zero_time,
     cm_files = [\<lparr> mf_path = ''a'', mf_hash = ''sha256:'', mf_mode = 420, mf_size = 1 \<rparr>] \<rparr>"

definition one_fs :: fs where "one_fs = [(''/'', Dir 493), (''/b'', File [] 420)]"

abbreviation one_vrfy :: "bytes \<Rightarrow> bytes \<Rightarrow> bytes \<Rightarrow> bool" where "one_vrfy k msg sig \<equiv> True"
abbreviation one_sha :: "bytes \<Rightarrow> bytes" where "one_sha b \<equiv> []"
abbreviation one_untar :: untar where
  "one_untar b e \<equiv> ([\<lparr> te_name = ''.manifest.json'', te_data = marshal_indent (manifest_members one_manifest) \<rparr>,
     \<lparr> te_name = ''.signature'', te_data = [] \<rparr>, \<lparr> te_name = ''a'', te_data = ''x'' \<rparr>, \<lparr> te_name = ''unlisted'', te_data = ''y'' \<rparr>], e)"

lemma one_verified: "verify_content one_vrfy one_sha one_untar no_faults [] one_fs ''/b'' = ok (one_manifest, [(''a'', ''x'')])"
proof -
  have utf: "valid_utf8 ''v1''" "valid_utf8 ''a''" "valid_utf8 ''sha256:''" by (rule valid_utf8_ascii, auto simp: byte_def)+
  then have "manifest_ok one_manifest" by (simp add: manifest_ok_def one_manifest_def mfile_ok_def in_int64_def min_int64_def max_int64_def)
  from manifest_decode [OF this] have dec: "unmarshal_with manifest_of_members (marshal_indent (manifest_members one_manifest)) = ok one_manifest" .
  have fs: "open_stream no_faults one_fs ''/b'' = ok ([], None)" by (simp add: open_stream_def one_fs_def)
  have chk: "check_files one_sha [(''a'', ''x''), (''unlisted'', ''y'')] (cm_files one_manifest) [] = ok [(''a'', ''x'')]" by code_simp
  have b: "b64_dec [] = Some []" by (simp add: b64_dec_def)
  show ?thesis by (simp add: verify_content_def fs dec chk b no_parts_def manifest_name_def signature_name_def)
qed

theorem apply_confined_witness:
  "\<exists>fs' b. cs_apply one_vrfy one_sha one_untar (err []) no_faults [] one_fs ''/b'' ''/d'' = ok (one_manifest, fs')
    \<and> file_data fs' ''/d/a'' = Some b \<and> sha256_text one_sha b = ''sha256:'' \<and> file_data fs' ''/d/unlisted'' = None"
proof -
  have d: "proper_dir ''/d''" "is_rooted ''/d''" by code_simp+
  define fs1 :: fs where "fs1 = [(''/'', Dir 493), (''/b'', File [] 420), (''/d'', Dir 493)]"
  define fs' where "fs' = fs1 @ [(''/d/a'', File ''x'' 420)]"
  have mk: "os_mkdir_all no_faults one_fs ''/d'' mode_0755 = ok fs1" unfolding fs1_def by code_simp
  have run: "apply_files no_faults ''/d'' [(''a'', ''x'')] (cm_files one_manifest) fs1 = ok fs'" unfolding fs'_def fs1_def by code_simp
  have ab: "abs_path (err []) ''/d'' = ok ''/d''" by code_simp
  have a: "cs_apply one_vrfy one_sha one_untar (err []) no_faults [] one_fs ''/b'' ''/d'' = ok (one_manifest, fs')"
    unfolding cs_apply_def one_verified by (simp add: mk ab run)
  have n: "file_data one_fs ''/d/unlisted'' = None" by code_simp
  have c: "\<And>f. f \<in> set (cm_files one_manifest) \<Longrightarrow> \<exists>p b. placed ''/d'' f p \<and> file_data fs' p = Some b \<and> sha256_text one_sha b = mf_hash f"
      "\<And>p. file_data fs' p \<noteq> file_data one_fs p \<Longrightarrow> \<exists>f \<in> set (cm_files one_manifest). placed ''/d'' f p"
    using apply_confined [OF d, of one_fs one_vrfy one_sha one_untar no_faults "[]" "''/b''" "err []"] unfolding a by simp_all
  define f :: manifest_file where "f = \<lparr> mf_path = ''a'', mf_hash = ''sha256:'', mf_mode = 420, mf_size = 1 \<rparr>"
  have fs: "set (cm_files one_manifest) = {f}" by (simp add: one_manifest_def f_def)
  have pl: "placed ''/d'' f p \<Longrightarrow> p = ''/d/a''" for p by (simp add: f_def placed_def)
  obtain b where b: "file_data fs' ''/d/a'' = Some b" "sha256_text one_sha b = ''sha256:''" using c(1) [of f] pl fs by (auto simp: f_def)
  have "\<not> placed ''/d'' f ''/d/unlisted''" using pl by fastforce
  then have "file_data fs' ''/d/unlisted'' = file_data one_fs ''/d/unlisted''" using c(2) [of "''/d/unlisted''"] by (auto simp: fs)
  with a b n show ?thesis by metis
qed

end
