(* ===== verification/Config_Pack.thy ===== *)
theory Config_Pack
  imports Config_Sync
begin

text \<open>
  \<open>PackDir\<close> of \<open>internal/configsync/configsync.go\<close> against \<open>Verify\<close> and
  \<open>Apply\<close>: the walk over the source tree ends and visits every file once, the bundle is the
  archive of the manifest, its signature and those files, and a verifier with the signer's public key
  accepts it with exactly the files of the tree.
\<close>

section \<open>The walk\<close>

text \<open>A store that is a tree: every entry is spelled as its directory, a slash and its name, and the
  directory is there.\<close>

definition fs_tree :: "fs \<Rightarrow> bool" where
  "fs_tree fs \<longleftrightarrow> list_all (\<lambda>(q, _). proper_dir (dir_path q) \<longrightarrow>
     plain_name (base_path q) \<and> q = dir_path q @ SLASH # base_path q \<and> is_dir fs (dir_path q)) fs"

lemma fs_tree_key:
  assumes "fs_tree fs" "map_of fs q \<noteq> None" "proper_dir (dir_path q)"
  shows "plain_name (base_path q)" "q = dir_path q @ SLASH # base_path q" "is_dir fs (dir_path q)"
proof -
  obtain x where "(q, x) \<in> set fs" using assms(2) map_of_SomeD by fastforce
  then show "plain_name (base_path q)" "q = dir_path q @ SLASH # base_path q" "is_dir fs (dir_path q)"
    using assms(1,3) by (auto simp: fs_tree_def list_all_iff)
qed

lemma dir_entries_tree:
  assumes "fs_tree fs" "proper_dir p"
  shows "n \<in> fst ` set (dir_entries fs p) \<longleftrightarrow> plain_name n \<and> map_of fs (p @ SLASH # n) \<noteq> None"
proof -
  have "n \<in> fst ` set (dir_entries fs p) \<longleftrightarrow> (\<exists>q. map_of fs q \<noteq> None \<and> q \<noteq> p \<and> dir_path q = p \<and> base_path q = n)"
    by (force simp: dir_entries_def image_iff map_of_eq_None_iff)
  also have "\<dots> \<longleftrightarrow> plain_name n \<and> map_of fs (p @ SLASH # n) \<noteq> None"
  proof (intro iffI conjI; (elim exE conjE)?)
    fix q assume q: "map_of fs q \<noteq> None" "dir_path q = p" "base_path q = n"
    then show "plain_name n" "map_of fs (p @ SLASH # n) \<noteq> None" using fs_tree_key [OF assms(1) q(1)] assms(2) by auto
  next
    assume n: "plain_name n" "map_of fs (p @ SLASH # n) \<noteq> None"
    then show "\<exists>q. map_of fs q \<noteq> None \<and> q \<noteq> p \<and> dir_path q = p \<and> base_path q = n"
      using dir_path_child [OF assms(2) n(1)] base_path_child [OF n(1)] by (intro exI [of _ "p @ SLASH # n"]) simp
  qed
  finally show ?thesis .
qed

lemma tree_parent:
  assumes "fs_tree fs" "proper_dir p"
  shows "list_all plain_name ts \<Longrightarrow> ts \<noteq> [] \<Longrightarrow> map_of fs (p @ below ts) \<noteq> None
    \<Longrightarrow> is_dir fs p \<and> map_of fs (p @ SLASH # hd ts) \<noteq> None"
proof (induction ts rule: rev_induct)
  case (snoc t ts)
  have t: "list_all plain_name ts" "plain_name t" using snoc.prems(1) by auto
  have "is_dir fs (p @ below ts)"
    using fs_tree_key(3) [OF assms(1) snoc.prems(3)] dir_path_below [OF assms(2) t] proper_dir_below [OF assms(2) t(1)] by simp
  then have m: "map_of fs (p @ below ts) \<noteq> None" "ts = [] \<Longrightarrow> is_dir fs p" by (auto simp: is_dir_def split: option.splits)
  show ?case
  proof (cases "ts = []")
    case True
    then show ?thesis using m(2) snoc.prems(3) by simp
  next
    case False
    then show ?thesis using m(1) t(1) snoc.IH by simp
  qed
qed simp

lemma map_result_all2: "map_result f xs = ok ys \<Longrightarrow> list_all2 (\<lambda>x y. f x = ok y) xs ys"
  by (induction xs arbitrary: ys) (auto split: sum.splits)

lemma map_result_each: "map_result f xs = ok ys \<Longrightarrow> x \<in> set xs \<Longrightarrow> \<exists>y. f x = ok y"
  by (induction xs arbitrary: ys) (auto split: sum.splits)

lemma distinct_concat_map:
  "distinct xs \<Longrightarrow> (\<And>x. x \<in> set xs \<Longrightarrow> distinct (g x))
     \<Longrightarrow> (\<And>x y. x \<in> set xs \<Longrightarrow> y \<in> set xs \<Longrightarrow> x \<noteq> y \<Longrightarrow> set (g x) \<inter> set (g y) = {}) \<Longrightarrow> distinct (concat (map g xs))"
  by (induction xs) fastforce+

lemma list_all2_concat: "list_all2 (list_all2 P) xss yss \<Longrightarrow> list_all2 P (concat xss) (concat yss)"
  by (induction rule: list_all2_induct) (auto intro: list_all2_appendI)

text \<open>The files below a directory.\<close>

definition files_below :: "fs \<Rightarrow> path \<Rightarrow> path set" where
  "files_below fs p = {q. \<exists>ts. list_all plain_name ts \<and> q = p @ below ts \<and> is_file fs q}"

lemma is_file_not_dir: "map_of fs p \<noteq> None \<Longrightarrow> is_file fs p \<longleftrightarrow> \<not> is_dir fs p"
  by (auto simp: is_file_def is_dir_def split: option.splits fnode.splits)

lemma files_below_dir:
  assumes "fs_tree fs" "proper_dir p" "is_dir fs p"
  shows "files_below fs p = (\<Union>n \<in> fst ` set (dir_entries fs p). files_below fs (p @ SLASH # n))"
proof (intro set_eqI iffI)
  fix q assume "q \<in> files_below fs p"
  then obtain ts where ts: "list_all plain_name ts" "q = p @ below ts" "is_file fs q" by (auto simp: files_below_def)
  have "ts \<noteq> []" using ts(2,3) assms(3) by (auto simp: is_file_def is_dir_def split: option.splits fnode.splits)
  then obtain t r where t: "ts = t # r" by (cases ts) auto
  have "map_of fs (p @ below ts) \<noteq> None" using ts(2,3) by (auto simp: is_file_def split: option.splits)
  then have "map_of fs (p @ SLASH # t) \<noteq> None" using tree_parent [OF assms(1,2) ts(1) \<open>ts \<noteq> []\<close>] t by simp
  then have "t \<in> fst ` set (dir_entries fs p)" using dir_entries_tree [OF assms(1,2)] ts(1) t by auto
  moreover have "q \<in> files_below fs (p @ SLASH # t)" using ts t by (auto simp: files_below_def)
  ultimately show "q \<in> (\<Union>n \<in> fst ` set (dir_entries fs p). files_below fs (p @ SLASH # n))" by blast
next
  fix q assume "q \<in> (\<Union>n \<in> fst ` set (dir_entries fs p). files_below fs (p @ SLASH # n))"
  then obtain n ts where n: "n \<in> fst ` set (dir_entries fs p)" "list_all plain_name ts" "q = (p @ SLASH # n) @ below ts" "is_file fs q"
    by (auto simp: files_below_def)
  then have "plain_name n" using dir_entries_tree [OF assms(1,2)] by blast
  with n have "list_all plain_name (n # ts) \<and> q = p @ below (n # ts)" by simp
  with n(4) show "q \<in> files_below fs p" unfolding files_below_def by blast
qed

lemma files_below_file: "proper_dir p \<Longrightarrow> fs_tree fs \<Longrightarrow> is_file fs p \<Longrightarrow> files_below fs p = {p}"
proof (intro set_eqI iffI)
  fix q assume a: "proper_dir p" "fs_tree fs" "is_file fs p" and "q \<in> files_below fs p"
  then obtain ts where ts: "list_all plain_name ts" "q = p @ below ts" "is_file fs q" by (auto simp: files_below_def)
  have "map_of fs (p @ below ts) \<noteq> None" using ts(2,3) by (auto simp: is_file_def split: option.splits)
  then have "ts = []" using tree_parent [OF a(2,1) ts(1)] a(3) by (auto simp: is_file_def is_dir_def split: option.splits fnode.splits)
  then show "q \<in> {p}" using ts by simp
qed (auto simp: files_below_def intro!: exI [of _ "[]"])

text \<open>A walk that succeeds visits each file below its root once, and nothing else.\<close>

lemma walk_visits:
  assumes "fs_tree fs"
  shows "proper_dir p \<Longrightarrow> map_of fs p \<noteq> None \<Longrightarrow> walk_dir visit flt fs n p = ok xs
    \<Longrightarrow> \<exists>ps. list_all2 (\<lambda>q x. visit q = ok x) ps xs \<and> distinct ps \<and> set ps = files_below fs p"
proof (induction n arbitrary: p xs)
  case (Suc n)
  show ?case
  proof (cases "is_dir fs p")
    case False
    then have "visit p = ok (hd xs) \<and> xs = [hd xs]" using Suc.prems(3) by (auto split: sum.splits)
    then have "list_all2 (\<lambda>q x. visit q = ok x) [p] xs" by (metis list_all2_Cons list_all2_Nil)
    moreover have "files_below fs p = {p}" by (rule files_below_file [OF Suc.prems(1) assms]) (use is_file_not_dir False Suc.prems(2) in blast)
    ultimately show ?thesis by (intro exI [of _ "[p]"]) simp
  next
    case True
    let ?ns = "map fst (dir_entries fs p)"
    have kid: "plain_name m \<and> map_of fs (p @ SLASH # m) \<noteq> None" if "m \<in> set ?ns" for m
      using dir_entries_tree [OF assms Suc.prems(1), of m] that by auto
    have kid_path: "join2 p m = p @ SLASH # m" if "(m, b) \<in> set (dir_entries fs p)" for m b
      using kid [of m] that join2_child [OF Suc.prems(1), of m] by force
    have kids: "map (\<lambda>(nm, _). join2 p nm) (dir_entries fs p) = map (\<lambda>m. p @ SLASH # m) ?ns"
      using kid_path by (auto simp del: join_path.simps)
    obtain xss where xss0: "map_result (walk_dir visit flt fs n) (map (\<lambda>(nm, _). join2 p nm) (dir_entries fs p)) = ok xss" "xs = concat xss"
      using Suc.prems(3) True by (auto simp: os_read_dir_def simp del: join_path.simps split: option.splits sum.splits fnode.splits)
    note xss = xss0 [unfolded kids]
    have each: "\<exists>ps. (\<forall>ys. walk_dir visit flt fs n (p @ SLASH # m) = ok ys \<longrightarrow> list_all2 (\<lambda>q x. visit q = ok x) ps ys)
        \<and> distinct ps \<and> set ps = files_below fs (p @ SLASH # m)" if m: "m \<in> set ?ns" for m
    proof -
      have "\<exists>ys. walk_dir visit flt fs n (p @ SLASH # m) = ok ys"
        by (rule map_result_each [OF xss(1)]) (use m in \<open>auto simp: image_iff\<close>)
      then show ?thesis using Suc.IH [of "p @ SLASH # m"] kid [OF m] proper_dir_child [OF Suc.prems(1)] by fastforce
    qed
    then obtain g where g: "\<And>m ys. m \<in> set ?ns \<Longrightarrow> walk_dir visit flt fs n (p @ SLASH # m) = ok ys \<Longrightarrow> list_all2 (\<lambda>q x. visit q = ok x) (g m) ys"
      "\<And>m. m \<in> set ?ns \<Longrightarrow> distinct (g m) \<and> set (g m) = files_below fs (p @ SLASH # m)" by metis
    have "list_all2 (list_all2 (\<lambda>q x. visit q = ok x)) (map g ?ns) xss"
      using map_result_all2 [OF xss(1)] g(1) unfolding list_all2_map1 by (auto simp: list_all2_conv_all_nth)
    moreover have "distinct (concat (map g ?ns))"
    proof (rule distinct_concat_map [OF dir_entries_distinct])
      fix a b assume ab: "a \<in> set ?ns" "b \<in> set ?ns" "a \<noteq> b"
      { fix q assume "q \<in> set (g a)" "q \<in> set (g b)"
        then obtain s t where "list_all plain_name s" "list_all plain_name t" "below (a # s) = below (b # t)"
          using g(2) ab(1,2) by (auto simp: files_below_def)
        then have "a = b" using below_inj [of "a # s" "b # t"] kid [OF ab(1)] kid [OF ab(2)] by auto
        with ab(3) have False by simp }
      then show "set (g a) \<inter> set (g b) = {}" by blast
    qed (use g(2) in blast)
    moreover have "set (concat (map g ?ns)) = files_below fs p"
      using g(2) files_below_dir [OF assms Suc.prems(1) True] by (auto simp: image_iff)
    ultimately show ?thesis using list_all2_concat [of "\<lambda>q x. visit q = ok x" "map g ?ns" xss] xss(2) by blast
  qed
qed simp

section \<open>The walk ends\<close>

lemma walk_fuel_key: "map_of fs p \<noteq> None \<Longrightarrow> length p < walk_fuel fs"
proof -
  assume "map_of fs p \<noteq> None"
  then obtain x where "(p, x) \<in> set fs" using map_of_SomeD by fastforce
  then show ?thesis unfolding walk_fuel_def by (induction fs) (auto simp: less_Suc_eq_le)
qed

lemma map_result_err: "map_result f xs = err e \<Longrightarrow> \<exists>x \<in> set xs. f x = err e"
  by (induction xs) (auto split: sum.splits)

lemma walk_enough:
  assumes "fs_tree fs" "\<And>q. visit q \<noteq> err CsWalkDepth"
  shows "proper_dir p \<Longrightarrow> map_of fs p \<noteq> None \<Longrightarrow> walk_fuel fs \<le> n + length p \<Longrightarrow> walk_dir visit flt fs n p \<noteq> err CsWalkDepth"
proof (induction n arbitrary: p)
  case 0
  then show ?case using walk_fuel_key [OF 0(2)] by simp
next
  case (Suc n)
  show ?case
  proof
    assume e: "walk_dir visit flt fs (Suc n) p = err CsWalkDepth"
    then have "map_result (walk_dir visit flt fs n) (map (\<lambda>(nm, _). join2 p nm) (dir_entries fs p)) = err CsWalkDepth"
      using assms(2) [of p] by (auto simp: os_read_dir_def simp del: join_path.simps split: if_splits option.splits fnode.splits sum.splits)
    from map_result_err [OF this] obtain x where
      x: "x \<in> set (map (\<lambda>(nm, _). join2 p nm) (dir_entries fs p))" "walk_dir visit flt fs n x = err CsWalkDepth" by blast
    from x(1) obtain m d where md: "(m, d) \<in> set (dir_entries fs p)" and m: "x = join2 p m" by (auto simp del: join_path.simps)
    have "m \<in> fst ` set (dir_entries fs p)" using image_eqI [OF _ md, of m fst] by simp
    then have k: "plain_name m" "map_of fs (p @ SLASH # m) \<noteq> None" using dir_entries_tree [OF assms(1) Suc.prems(1)] by auto
    then have "x = p @ SLASH # m" using m join2_child [OF Suc.prems(1)] by simp
    then show False using Suc.IH [of x] x(2) k proper_dir_child [OF Suc.prems(1) k(1)] Suc.prems(3) by simp
  qed
qed

lemma pack_visit_not_depth: "pack_visit sha flt fs src q \<noteq> err CsWalkDepth"
  by (auto simp: pack_visit_def Let_def split: sum.splits fnode.splits)

text \<open>The walk of \<open>PackDir\<close> ends: on a store that is a tree the depth bound, one more than the
  longest path, is never met, whatever reads fail.\<close>

theorem pack_walk_ends:
  assumes "fs_tree fs" "proper_dir src"
  shows "walk_root (pack_visit sha flt fs src) flt fs src \<noteq> err CsWalkDepth"
proof (cases "os_stat flt fs src")
  case (Inr n)
  then have "map_of fs src \<noteq> None" by (auto simp: os_stat_def split: option.splits)
  then show ?thesis
    using walk_enough [OF assms(1) pack_visit_not_depth assms(2), of "walk_fuel fs"] Inr by (simp add: walk_root_def)
qed (simp add: walk_root_def)

section \<open>The archive\<close>

type_synonym packed = "string \<times> bytes \<times> nat"

fun tar_image :: "tar_hdr \<Rightarrow> (string \<Rightarrow> gtime) \<Rightarrow> nat \<Rightarrow> packed list \<Rightarrow> bytes" where
  "tar_image hdr clk due [] = zeros due @ zeros 1024"
| "tar_image hdr clk due ((n, b, m) # es) =
     zeros due @ (case hdr n (length b) (m mod 512) (clk n) of Inr h \<Rightarrow> h | Inl _ \<Rightarrow> []) @ b
       @ tar_image hdr clk (block_padding (length b)) es"

lemma os_write_no_fault: "os_write flt fs p b = ok fs' \<Longrightarrow> flt (FWrite p) = None"
  by (auto simp: os_write_def Let_def split: option.splits)

lemma os_write_append:
  assumes "flt (FWrite p) = None" "file_data fs p = Some old"
  shows "\<exists>fs'. os_write flt fs p b = ok fs' \<and> file_data fs' p = Some (old @ b) \<and> (\<forall>q. q \<noteq> p \<longrightarrow> map_of fs' q = map_of fs q)"
proof -
  obtain fs' where "os_write flt fs p b = ok fs'" using assms(1) by (simp add: os_write_def)
  then show ?thesis using write_ok [OF _ assms(2)] by metis
qed

lemma write_tar_entry_ok:
  assumes "write_tar_entry hdr clk flt out (due, fs) n b m = ok st" "file_data fs out = Some old"
  shows "\<exists>fs' old'. st = (block_padding (length b), fs') \<and> file_data fs' out = Some old' \<and> flt (FWrite out) = None
    \<and> (\<forall>es. old' @ tar_image hdr clk (block_padding (length b)) es = old @ tar_image hdr clk due ((n, b, m) # es))
    \<and> (\<forall>q. q \<noteq> out \<longrightarrow> map_of fs' q = map_of fs q)"
proof -
  from assms(1) obtain fs1 h fs2 fs3 where s: "os_write flt fs out (zeros due) = ok fs1"
    "hdr n (length b) (m mod 512) (clk n) = ok h" "os_write flt fs1 out h = ok fs2" "os_write flt fs2 out b = ok fs3"
    "st = (block_padding (length b), fs3)"
    by (auto simp: write_tar_entry_def split: sum.splits prod.splits)
  have 1: "file_data fs1 out = Some (old @ zeros due)" by (rule write_ok(1) [OF s(1) assms(2)])
  have 2: "file_data fs2 out = Some ((old @ zeros due) @ h)" by (rule write_ok(1) [OF s(3) 1])
  have 3: "file_data fs3 out = Some (((old @ zeros due) @ h) @ b)" by (rule write_ok(1) [OF s(4) 2])
  show ?thesis
    using s(2,5) 3 os_write_no_fault [OF s(1)] write_ok(2) [OF s(1) assms(2)] write_ok(2) [OF s(3) 1] write_ok(2) [OF s(4) 2] by auto
qed

definition packed_file :: "fs \<Rightarrow> path \<Rightarrow> manifest_file \<Rightarrow> packed" where
  "packed_file fs src f = (mf_path f, case file_data fs (join2 src (mf_path f)) of Some b \<Rightarrow> b | None \<Rightarrow> [], mf_mode f)"

lemma packed_file_cong: "map_of fs (join2 src (mf_path f)) = map_of fs' (join2 src (mf_path f)) \<Longrightarrow> packed_file fs src f = packed_file fs' src f"
  by (simp only: packed_file_def file_data_def)

lemma pack_files_ok:
  assumes "pack_files hdr clk flt src out mfs (due, fs) = ok (due', fs')" "file_data fs out = Some old"
    "\<And>f. f \<in> set mfs \<Longrightarrow> join2 src (mf_path f) \<noteq> out"
  shows "\<exists>old'. file_data fs' out = Some old'
    \<and> (\<forall>es. old' @ tar_image hdr clk due' es = old @ tar_image hdr clk due (map (packed_file fs src) mfs @ es))"
  using assms
proof (induction mfs arbitrary: due fs old)
  case (Cons f mfs)
  let ?p = "join2 src (mf_path f)"
  obtain b st where s: "os_read_file flt fs ?p = ok b" "write_tar_entry hdr clk flt out (due, fs) (mf_path f) b (mf_mode f) = ok st"
    "pack_files hdr clk flt src out mfs st = ok (due', fs')"
    using Cons.prems(1) by (auto simp del: join_path.simps split: sum.splits)
  from write_tar_entry_ok [OF s(2) Cons.prems(2)] obtain fs1 old1 where w: "st = (block_padding (length b), fs1)"
    "file_data fs1 out = Some old1" "\<And>q. q \<noteq> out \<Longrightarrow> map_of fs1 q = map_of fs q"
    "\<And>es. old1 @ tar_image hdr clk (block_padding (length b)) es = old @ tar_image hdr clk due ((mf_path f, b, mf_mode f) # es)" by blast
  have pf: "packed_file fs src f = (mf_path f, b, mf_mode f)" using os_read_file_data [OF s(1)] by (simp add: packed_file_def del: join_path.simps)
  have same: "map (packed_file fs1 src) mfs = map (packed_file fs src) mfs"
  proof (rule map_cong [OF refl])
    fix g assume "g \<in> set mfs"
    then show "packed_file fs1 src g = packed_file fs src g" by (intro packed_file_cong w(3) Cons.prems(3)) simp
  qed
  have "join2 src (mf_path g) \<noteq> out" if "g \<in> set mfs" for g using that by (intro Cons.prems(3)) simp
  from Cons.IH [OF s(3) [unfolded w(1)] w(2) this, unfolded same] obtain old' where
    "file_data fs' out = Some old'" "\<And>es. old' @ tar_image hdr clk due' es = old @ tar_image hdr clk due (packed_file fs src f # map (packed_file fs src) mfs @ es)"
    unfolding pf w(4) by blast
  then show ?case by (simp only: list.map append_Cons) blast
qed simp

text \<open>What \<open>PackDir\<close> puts into the archive.\<close>

definition packed_files :: "(bytes \<Rightarrow> bytes) \<Rightarrow> faults \<Rightarrow> fs \<Rightarrow> path \<Rightarrow> manifest_file list" where
  "packed_files sha flt fs src =
     (case walk_root (pack_visit sha flt fs src) flt fs src of
        Inl _ \<Rightarrow> [] | Inr found \<Rightarrow> sort_slice (\<lambda>a b. mf_path a < mf_path b) found)"

definition packed_manifest :: "(bytes \<Rightarrow> bytes) \<Rightarrow> gtime \<Rightarrow> faults \<Rightarrow> fs \<Rightarrow> path \<Rightarrow> string \<Rightarrow> cs_manifest" where
  "packed_manifest sha now flt fs src bid =
     \<lparr> cm_bundle_id = bid, cm_created_at = to_utc now, cm_files = packed_files sha flt fs src \<rparr>"

definition packed_entries :: "(bytes \<Rightarrow> bytes \<Rightarrow> bytes) \<Rightarrow> bytes \<Rightarrow> cs_manifest \<Rightarrow> fs \<Rightarrow> path \<Rightarrow> packed list" where
  "packed_entries sign priv m fs src =
     (let mb = marshal_indent (manifest_members m)
      in (manifest_name, mb, mode_0644) # (signature_name, b64_enc (sign priv mb), mode_0644) # map (packed_file fs src) (cm_files m))"

definition tar_entry_of :: "packed \<Rightarrow> tar_entry" where
  "tar_entry_of e = (case e of (n, b, _) \<Rightarrow> \<lparr> te_name = n, te_data = b \<rparr>)"

lemma pack_entries_ok:
  assumes "pack_entries hdr clk flt src out mb sig mfs fs = ok (due, fs')" "file_data fs out = Some []"
    "\<And>f. f \<in> set mfs \<Longrightarrow> join2 src (mf_path f) \<noteq> out"
  shows "file_data (tar_close flt out (Some due) fs') out
    = Some (tar_image hdr clk 0 ((manifest_name, mb, mode_0644) # (signature_name, b64_enc sig, mode_0644) # map (packed_file fs src) mfs))"
proof -
  from assms(1) obtain st1 st2 where s: "write_tar_entry hdr clk flt out (0, fs) manifest_name mb mode_0644 = ok st1"
    "write_tar_entry hdr clk flt out st1 signature_name (b64_enc sig) mode_0644 = ok st2"
    "pack_files hdr clk flt src out mfs st2 = ok (due, fs')"
    by (auto simp: pack_entries_def split: sum.splits)
  from write_tar_entry_ok [OF s(1) assms(2)] obtain d1 fs1 o1 where w1: "st1 = (d1, fs1)" "file_data fs1 out = Some o1"
    "flt (FWrite out) = None" "\<And>q. q \<noteq> out \<Longrightarrow> map_of fs1 q = map_of fs q"
    "\<And>es. o1 @ tar_image hdr clk d1 es = [] @ tar_image hdr clk 0 ((manifest_name, mb, mode_0644) # es)" by metis
  from write_tar_entry_ok [OF s(2) [unfolded w1(1)] w1(2)] obtain d2 fs2 o2 where w2: "st2 = (d2, fs2)" "file_data fs2 out = Some o2"
    "\<And>q. q \<noteq> out \<Longrightarrow> map_of fs2 q = map_of fs1 q"
    "\<And>es. o2 @ tar_image hdr clk d2 es = o1 @ tar_image hdr clk d1 ((signature_name, b64_enc sig, mode_0644) # es)" by metis
  have same: "map (packed_file fs2 src) mfs = map (packed_file fs src) mfs"
  proof (rule map_cong [OF refl])
    fix g assume "g \<in> set mfs"
    from assms(3) [OF this] w1(4) w2(3) show "packed_file fs2 src g = packed_file fs src g" by (intro packed_file_cong) metis
  qed
  from pack_files_ok [OF s(3) [unfolded w2(1)] w2(2) assms(3)] obtain old where
    old: "file_data fs' out = Some old" "old @ tar_image hdr clk due [] = o2 @ tar_image hdr clk d2 (map (packed_file fs src) mfs @ [])"
    unfolding same by blast
  from os_write_append [of flt out fs' old "zeros due @ zeros 1024", OF w1(3) old(1)]
  have "file_data (tar_close flt out (Some due) fs') out = Some (old @ tar_image hdr clk due [])"
    by (auto simp: tar_close_def)
  then show ?thesis unfolding old(2) w2(4) w1(5) by simp
qed

lemma pack_dir_image:
  assumes "pack_dir sign sha hdr clk now flt priv fs src out bid = ok fs'"
    "\<And>f. f \<in> set (packed_files sha flt fs src) \<Longrightarrow> join2 src (mf_path f) \<noteq> out"
  defines "m \<equiv> packed_manifest sha now flt fs src bid"
  shows "file_data fs' out = Some (tar_image hdr clk 0 (packed_entries sign priv m fs src))"
proof -
  let ?mb = "marshal_indent (manifest_members m)"
  from assms(1) obtain found fs1 due fs2 where
    s: "walk_root (pack_visit sha flt fs src) flt fs src = ok found" "os_open_create flt True fs out 438 = ok fs1"
    "pack_entries hdr clk flt src out ?mb (sign priv ?mb) (packed_files sha flt fs src) fs1 = ok (due, fs2)"
    "fs' = tar_close flt out (Some due) fs2"
    by (auto simp: pack_dir_def Let_def m_def packed_manifest_def packed_files_def split: sum.splits prod.splits if_splits)
  have mf: "cm_files m = packed_files sha flt fs src" by (simp add: m_def packed_manifest_def)
  have same: "map (packed_file fs1 src) (packed_files sha flt fs src) = map (packed_file fs src) (packed_files sha flt fs src)"
  proof (rule map_cong [OF refl])
    fix g assume "g \<in> set (packed_files sha flt fs src)"
    then show "packed_file fs1 src g = packed_file fs src g" by (intro packed_file_cong open_create_ok(2) [OF s(2)] assms(2))
  qed
  have "file_data fs1 out = Some []" using open_create_ok(1) [OF s(2)] by simp
  from pack_entries_ok [OF s(3) this assms(2)] show ?thesis
    unfolding packed_entries_def Let_def mf same s(4) .
qed

section \<open>What was packed is accepted\<close>

text \<open>The trees that can travel: names that survive JSON and the path check of the verifier, sizes an
  \<open>int64\<close> holds.\<close>

definition portable_tree :: "path \<Rightarrow> fs \<Rightarrow> bool" where
  "portable_tree src fs \<longleftrightarrow> list_all (\<lambda>(q, n). has_prefix q (src @ [SLASH]) \<longrightarrow>
     valid_utf8 (drop (Suc (length src)) q) \<and> \<not> contains_any (drop (Suc (length src)) q) [BSL, CHR '':'']
       \<and> (case n of File b _ \<Rightarrow> length b < 2 ^ 63 | Dir _ \<Rightarrow> True)) fs"

lemma portable_file:
  assumes "portable_tree src fs" "map_of fs (src @ SLASH # p) = Some (File b m)"
  shows "valid_utf8 p" "\<not> contains_any p [BSL, CHR '':'']" "length b < 2 ^ 63"
proof -
  have "(src @ SLASH # p, File b m) \<in> set fs" using assms(2) by (rule map_of_SomeD)
  moreover have "has_prefix (src @ SLASH # p) (src @ [SLASH])" using has_prefix_append [of "src @ [SLASH]" p] by simp
  ultimately show "valid_utf8 p" "\<not> contains_any p [BSL, CHR '':'']" "length b < 2 ^ 63"
    using assms(1) by (auto simp: portable_tree_def list_all_iff)
qed

lemma hash_text_utf8: "valid_utf8 (sha256_text sha b)"
proof (rule valid_utf8_ascii)
  fix c assume "c \<in> set (sha256_text sha b)"
  then consider "c \<in> set ''sha256:''" | x where "c = hex_digit (byte x div 16)" | x where "c = hex_digit (byte x mod 16)"
    by (auto simp: sha256_text_def hex_encode_def hex_byte_def)
  then show "byte c < 128"
  proof cases
    case (2 x)
    have "byte x div 16 < 16" by (rule less_mult_imp_div_less) simp
    then show ?thesis using hex_digit_plain 2 by blast
  next
    case (3 x)
    have "byte x mod 16 < 16" by simp
    then show ?thesis using hex_digit_plain 3 by blast
  qed (auto simp: byte_def)
qed

lemma validate_plain_path:
  assumes "plain_segs (split_on SLASH p)" "\<not> contains_any p [BSL, CHR '':'']"
  shows "validate_manifest_path p = None"
proof -
  let ?ss = "split_on SLASH p"
  have ss: "list_all plain_name ?ss" "?ss \<noteq> []" using assms(1) by (auto simp: plain_segs_def)
  have j: "join_with [SLASH] ?ss = p" by (rule join_split)
  have bad: "\<not> list_ex (\<lambda>s. s = ''..'' \<or> s = ''.'' \<or> s = []) ?ss" using ss(1) by (auto simp: list_all_iff list_ex_iff plain_name_def)
  have "p \<noteq> []" using bad by auto
  moreover have "\<not> is_rooted p"
  proof
    assume "is_rooted p"
    then obtain q where "p = SLASH # q" by (cases p) (auto simp: is_rooted_def)
    then have "[] \<in> set ?ss" by simp
    with bad show False by (auto simp: list_ex_iff)
  qed
  moreover have "clean_path p = p"
    using foldl_plain [OF ss(1), of False "[]"] \<open>\<not> is_rooted p\<close> j ss(2) by (simp add: clean_path_def clean_stack_def render_path_def)
  ultimately show ?thesis using assms(2) bad by (simp add: validate_manifest_path_def)
qed

text \<open>A file below a directory has a canonical path relative to it.\<close>

lemma file_below:
  assumes "proper_dir src" "is_dir fs src" "q \<in> files_below fs src"
  obtains path b m where "q = src @ SLASH # path" "plain_segs (split_on SLASH path)" "rel_path src q = Some path" "map_of fs q = Some (File b m)"
proof -
  obtain ts where ts: "list_all plain_name ts" "q = src @ below ts" "is_file fs q" using assms(3) by (auto simp: files_below_def)
  have ne: "ts \<noteq> []" using ts(2,3) assms(2) by (auto simp: is_file_def is_dir_def split: option.splits fnode.splits)
  then have ps: "plain_segs ts" using ts(1) by (simp add: plain_segs_def)
  obtain b m where "map_of fs q = Some (File b m)" using ts(3) by (auto simp: is_file_def split: option.splits fnode.splits)
  then show thesis using that [of "join_with [SLASH] ts" b m] rel_below [OF assms(1) ps] plain_segs_join [OF ps] ps ts(2) below_join [OF ne] by simp
qed

lemma visited_file:
  assumes "proper_dir src" "is_dir fs src" "q \<in> files_below fs src" "pack_visit sha flt fs src q = ok f"
  shows "\<exists>b m. q = src @ SLASH # mf_path f \<and> plain_segs (split_on SLASH (mf_path f)) \<and> map_of fs q = Some (File b m)
    \<and> f = \<lparr> mf_path = mf_path f, mf_hash = sha256_text sha b, mf_mode = m mod 512, mf_size = int (length b) \<rparr>
    \<and> mf_path f \<noteq> manifest_name \<and> mf_path f \<noteq> signature_name"
proof -
  obtain path b m where q: "q = src @ SLASH # path" "plain_segs (split_on SLASH path)" "rel_path src q = Some path" "map_of fs q = Some (File b m)"
    by (rule file_below [OF assms(1-3)])
  have "f = \<lparr> mf_path = path, mf_hash = sha256_text sha b, mf_mode = m mod 512, mf_size = int (length b) \<rparr>
      \<and> path \<noteq> manifest_name \<and> path \<noteq> signature_name"
    using assms(4) q(3,4) by (auto simp: pack_visit_def Let_def cs_hash_file_def os_read_file_def os_stat_def split: if_splits option.splits)
  then show ?thesis using q by auto
qed

lemma packed_files_spec:
  assumes "fs_tree fs" "proper_dir src" "is_dir fs src" "walk_root (pack_visit sha flt fs src) flt fs src = ok found"
  defines "mfs \<equiv> packed_files sha flt fs src"
  shows "distinct (map mf_path mfs)"
    "f \<in> set mfs \<Longrightarrow> \<exists>b m. map_of fs (src @ SLASH # mf_path f) = Some (File b m) \<and> plain_segs (split_on SLASH (mf_path f))
      \<and> f = \<lparr> mf_path = mf_path f, mf_hash = sha256_text sha b, mf_mode = m mod 512, mf_size = int (length b) \<rparr>
      \<and> mf_path f \<noteq> manifest_name \<and> mf_path f \<noteq> signature_name"
    "plain_segs (split_on SLASH p) \<Longrightarrow> is_file fs (src @ SLASH # p) \<Longrightarrow> p \<in> mf_path ` set mfs"
proof -
  have "map_of fs src \<noteq> None" using assms(3) by (auto simp: is_dir_def split: option.splits)
  moreover have "walk_dir (pack_visit sha flt fs src) flt fs (walk_fuel fs) src = ok found"
    using assms(4) by (auto simp: walk_root_def split: sum.splits)
  ultimately obtain ps where ps: "list_all2 (\<lambda>q x. pack_visit sha flt fs src q = ok x) ps found" "distinct ps" "set ps = files_below fs src"
    using walk_visits [OF assms(1,2)] by blast
  have mfs: "mfs = sort_slice (\<lambda>a b. mf_path a < mf_path b) found" by (simp add: mfs_def packed_files_def assms(4))
  note vis = visited_file [OF assms(2,3)]
  have eq: "ps = map (\<lambda>f. src @ SLASH # mf_path f) found"
  proof (rule nth_equalityI)
    show "length ps = length (map (\<lambda>f. src @ SLASH # mf_path f) found)" using list_all2_lengthD [OF ps(1)] by simp
    fix i assume i: "i < length ps"
    then have "ps ! i \<in> files_below fs src" using ps(3) nth_mem by blast
    from vis [OF this list_all2_nthD [OF ps(1) i]] show "ps ! i = map (\<lambda>f. src @ SLASH # mf_path f) found ! i"
      using i list_all2_lengthD [OF ps(1)] by auto
  qed
  then have "distinct (map mf_path found)" using ps(2) by (auto simp: distinct_map inj_on_def)
  moreover have "mset (map mf_path mfs) = mset (map mf_path found)" by (simp add: mfs)
  ultimately show "distinct (map mf_path mfs)" using mset_eq_imp_distinct_iff by blast
  show "\<exists>b m. map_of fs (src @ SLASH # mf_path f) = Some (File b m) \<and> plain_segs (split_on SLASH (mf_path f))
      \<and> f = \<lparr> mf_path = mf_path f, mf_hash = sha256_text sha b, mf_mode = m mod 512, mf_size = int (length b) \<rparr>
      \<and> mf_path f \<noteq> manifest_name \<and> mf_path f \<noteq> signature_name" if "f \<in> set mfs"
  proof -
    have "f \<in> set found" using that by (simp add: mfs)
    then obtain i where i: "i < length found" "f = found ! i" by (auto simp: in_set_conv_nth)
    then have l: "i < length ps" using list_all2_lengthD [OF ps(1)] by simp
    then have "ps ! i \<in> files_below fs src" using ps(3) nth_mem by blast
    from vis [OF this list_all2_nthD [OF ps(1) l]] show ?thesis by (auto simp: i(2))
  qed
  show "p \<in> mf_path ` set mfs" if "plain_segs (split_on SLASH p)" "is_file fs (src @ SLASH # p)"
  proof -
    have "below (split_on SLASH p) = SLASH # p" using below_join [of "split_on SLASH p"] by (simp add: join_split)
    then have "src @ SLASH # p \<in> files_below fs src" using that by (auto simp: files_below_def plain_segs_def intro!: exI [of _ "split_on SLASH p"])
    then have "src @ SLASH # p \<in> (\<lambda>f. src @ SLASH # mf_path f) ` set found" using ps(3) by (simp add: eq)
    then show ?thesis by (auto simp: mfs)
  qed
qed

section \<open>The round trip\<close>

lemma read_entries_files:
  "distinct (map fst (bp_files bp) @ map fst es) \<Longrightarrow> manifest_name \<notin> fst ` set es \<Longrightarrow> signature_name \<notin> fst ` set es
     \<Longrightarrow> read_entries None bp (map tar_entry_of es) = ok (bp\<lparr>bp_files := bp_files bp @ map (\<lambda>(n, b, _). (n, b)) es\<rparr>)"
proof (induction es arbitrary: bp)
  case (Cons e es)
  obtain n b m where e: "e = (n, b, m)" by (cases e)
  have "map_of (bp_files bp) n = None" using Cons.prems(1) e by (auto simp: map_of_eq_None_iff)
  moreover have "n \<noteq> manifest_name" "n \<noteq> signature_name" using Cons.prems(2,3) e by auto
  ultimately show ?case using Cons e by (simp add: tar_entry_of_def)
qed simp

lemma check_files_succeeds:
  assumes "\<And>f. f \<in> set mfs \<Longrightarrow> validate_manifest_path (mf_path f) = None \<and> (\<exists>b. map_of fd (mf_path f) = Some b \<and> sha256_text sha b = mf_hash f)"
  shows "\<exists>c. check_files sha fd mfs acc = ok c"
  using assms
proof (induction mfs arbitrary: acc)
  case (Cons f mfs)
  from Cons.prems [of f] obtain b where "validate_manifest_path (mf_path f) = None" "map_of fd (mf_path f) = Some b" "sha256_text sha b = mf_hash f"
    by auto
  then show ?case using Cons by simp
qed simp

lemma signature_text: "b64_dec (trim_space (b64_enc s)) = Some s"
proof -
  have ns: "byte c < 128 \<and> \<not> ascii_space c" if "c \<in> set (b64_enc s)" for c
  proof -
    have "byte c \<noteq> 32"
    proof
      assume "byte c = 32"
      moreover have "c = CHR ''='' \<or> (\<exists>n < 64. c = b64_char n)" using that b64_enc_chars by blast
      moreover have "b64_val SP = None" by (simp add: b64_val_def byte_def)
      ultimately show False using b64_val_char char_eqI [of c SP] by (auto simp: byte_def)
    qed
    then show ?thesis using b64_enc_plain [OF that] by (auto simp: ascii_space_def)
  qed
  have "trim_space (b64_enc s) = b64_enc s"
  proof (cases "b64_enc s")
    case (Cons c r)
    then obtain d r' where d: "rev (b64_enc s) = d # r'" by (cases "rev (b64_enc s)") auto
    then have "d \<in> set (b64_enc s)" by (metis list.set_intros(1) set_rev)
    then have "rsp_len (rev (b64_enc s)) = 0" unfolding d using ns by (intro rsp_len_ascii) auto
    moreover have "sp_len (b64_enc s) = 0" unfolding Cons using ns Cons by (intro sp_len_ascii) auto
    ultimately show ?thesis by (intro trim_space_id)
  qed simp
  then show ?thesis by (simp add: b64_dec_enc)
qed

text \<open>The content of a packed file, by its manifest path.\<close>

lemma packed_lookup:
  assumes "fs_tree fs" "proper_dir src" "is_dir fs src" "walk_root (pack_visit sha flt fs src) flt fs src = ok found"
  defines "fd \<equiv> map (\<lambda>(n, b, _). (n, b)) (map (packed_file fs src) (packed_files sha flt fs src))"
  shows "map_of fd p = (if plain_segs (split_on SLASH p) then file_data fs (src @ SLASH # p) else None)"
proof -
  note spec = packed_files_spec [OF assms(1-4)]
  have fd: "fd = map (\<lambda>f. (mf_path f, case file_data fs (join2 src (mf_path f)) of Some b \<Rightarrow> b | None \<Rightarrow> [])) (packed_files sha flt fs src)"
    by (simp add: fd_def packed_file_def del: join_path.simps)
  show ?thesis
  proof (cases "p \<in> mf_path ` set (packed_files sha flt fs src)")
    case True
    then obtain f where f: "f \<in> set (packed_files sha flt fs src)" "p = mf_path f" by blast
    from spec(2) [OF f(1)] obtain b m where b: "map_of fs (src @ SLASH # p) = Some (File b m)" "plain_segs (split_on SLASH p)" unfolding f(2) by blast
    have "join2 src p = src @ SLASH # p"
      using join_below [OF assms(2) b(2)] below_join [of "split_on SLASH p"] by (simp add: join_split del: join_path.simps)
    then have "(p, b) \<in> set fd" unfolding fd using f b(1) by (force simp: file_data_def image_iff simp del: join_path.simps)
    moreover have "distinct (map fst fd)" using spec(1) by (simp add: fd comp_def)
    ultimately show ?thesis using b by (simp add: file_data_def)
  next
    case False
    then have "map_of fd p = None" by (auto simp: fd map_of_eq_None_iff)
    moreover have "file_data fs (src @ SLASH # p) = None" if "plain_segs (split_on SLASH p)"
      using spec(3) [OF that] False by (auto simp: is_file_def file_data_def split: option.splits fnode.splits)
    ultimately show ?thesis by simp
  qed
qed

lemma packed_manifest_ok:
  assumes "fs_tree fs" "proper_dir src" "is_dir fs src" "portable_tree src fs" "valid_utf8 bid" "time_ok (to_utc now)"
    "walk_root (pack_visit sha flt fs src) flt fs src = ok found"
  shows "manifest_ok (packed_manifest sha now flt fs src bid)"
proof -
  have "mfile_ok f" if f: "f \<in> set (packed_files sha flt fs src)" for f
  proof -
    from packed_files_spec(2) [OF assms(1-3,7) f] obtain b m where b: "map_of fs (src @ SLASH # mf_path f) = Some (File b m)"
      "f = \<lparr> mf_path = mf_path f, mf_hash = sha256_text sha b, mf_mode = m mod 512, mf_size = int (length b) \<rparr>" by blast
    have "m mod 512 < 2 ^ 32" by (rule less_le_trans [of _ 512]) simp_all
    moreover have "in_int64 (int (length b))" using portable_file(3) [OF assms(4) b(1)] by (simp add: in_int64_def min_int64_def max_int64_def)
    moreover have "mf_hash f = sha256_text sha b" "mf_mode f = m mod 512" "mf_size f = int (length b)" by (subst b(2), simp)+
    ultimately show ?thesis using portable_file(1) [OF assms(4) b(1)] hash_text_utf8 by (simp add: mfile_ok_def)
  qed
  then show ?thesis using assms(5,6) by (simp add: manifest_ok_def packed_manifest_def list_all_iff)
qed

lemma packed_parts:
  assumes "distinct (map mf_path (cm_files m))" "\<And>f. f \<in> set (cm_files m) \<Longrightarrow> mf_path f \<noteq> manifest_name \<and> mf_path f \<noteq> signature_name"
  shows "read_entries None no_parts (map tar_entry_of (packed_entries sign priv m fs src))
    = ok \<lparr> bp_manifest = Some (marshal_indent (manifest_members m)), bp_sig = Some (b64_enc (sign priv (marshal_indent (manifest_members m)))),
           bp_files = map (\<lambda>(n, b, _). (n, b)) (map (packed_file fs src) (cm_files m)) \<rparr>"
proof -
  let ?fs = "map (packed_file fs src) (cm_files m)"
  have names: "map fst ?fs = map mf_path (cm_files m)" by (simp add: packed_file_def)
  have "manifest_name \<notin> fst ` set ?fs" "signature_name \<notin> fst ` set ?fs"
    using assms(2) by (force simp: packed_file_def)+
  moreover have "distinct (map fst (bp_files \<lparr> bp_manifest = mb, bp_sig = sb, bp_files = [] \<rparr>) @ map fst ?fs)" for mb sb
    unfolding names using assms(1) by simp
  ultimately have "read_entries None \<lparr> bp_manifest = mb, bp_sig = sb, bp_files = [] \<rparr> (map tar_entry_of ?fs)
      = ok \<lparr> bp_manifest = mb, bp_sig = sb, bp_files = map (\<lambda>(n, b, _). (n, b)) ?fs \<rparr>" for mb sb
    using read_entries_files by fastforce
  moreover have "manifest_name \<noteq> signature_name" by (simp add: manifest_name_def signature_name_def)
  ultimately show ?thesis
    by (simp add: packed_entries_def Let_def tar_entry_of_def [of "(_, _)"] no_parts_def del: map_map list.map_comp)
qed

text \<open>C30. What \<open>PackDir\<close> packed, \<open>Verify\<close> accepts.  For a tree whose file names are UTF-8 without colon or backslash, a bundle
  id that is UTF-8, and a bundle written outside the tree, the verifier with the signer's public key returns the manifest that was
  signed and the content of exactly the files of the tree, each under its relative path.  The signature scheme
  accepts its own signatures, and the archive reader returns the entries of the archive.\<close>

theorem pack_verify:
  assumes "fs_tree fs" "proper_dir src" "is_dir fs src" "portable_tree src fs" "\<not> has_prefix out (src @ [SLASH])"
    and "valid_utf8 bid" "time_ok (to_utc now)"
    and "pack_dir sign sha hdr clk now flt priv fs src out bid = ok fs'"
    and "\<And>msg. vrfy (signer_public priv) msg (sign priv msg)"
    and "untar (tar_image hdr clk 0 (packed_entries sign priv (packed_manifest sha now flt fs src bid) fs src)) None
           = (map tar_entry_of (packed_entries sign priv (packed_manifest sha now flt fs src bid) fs src), None)"
  shows "\<exists>c. verify_content vrfy sha untar no_faults (signer_public priv) fs' out = ok (packed_manifest sha now flt fs src bid, c)
    \<and> map_of c = (\<lambda>p. if plain_segs (split_on SLASH p) then file_data fs (src @ SLASH # p) else None)"
proof -
  let ?m = "packed_manifest sha now flt fs src bid"
  let ?mb = "marshal_indent (manifest_members ?m)"
  let ?fs = "map (packed_file fs src) (packed_files sha flt fs src)"
  let ?fd = "map (\<lambda>(n, b, _). (n, b)) ?fs"
  obtain found where w: "walk_root (pack_visit sha flt fs src) flt fs src = ok found"
    using assms(8) by (auto simp: pack_dir_def split: sum.splits)
  note spec = packed_files_spec [OF assms(1-3) w] and look = packed_lookup [OF assms(1-3) w]
  have files: "cm_files ?m = packed_files sha flt fs src" by (simp add: packed_manifest_def)
  have inside: "join2 src (mf_path f) \<noteq> out" if f: "f \<in> set (packed_files sha flt fs src)" for f
  proof -
    have "join2 src (mf_path f) = src @ SLASH # mf_path f"
      using spec(2) [OF f] join_below [OF assms(2), of "split_on SLASH (mf_path f)"] below_join [of "split_on SLASH (mf_path f)"]
      by (auto simp: join_split simp del: join_path.simps)
    then show ?thesis using assms(5) has_prefix_append [of "src @ [SLASH]" "mf_path f"] by auto
  qed
  have open_: "open_stream no_faults fs' out = ok (tar_image hdr clk 0 (packed_entries sign priv ?m fs src), None)"
    using pack_dir_image [OF assms(8) inside] by (auto simp: open_stream_def file_data_def split: option.splits fnode.splits)
  have parts: "read_entries None no_parts (map tar_entry_of (packed_entries sign priv ?m fs src))
      = ok \<lparr> bp_manifest = Some ?mb, bp_sig = Some (b64_enc (sign priv ?mb)), bp_files = ?fd \<rparr>"
    using packed_parts [of ?m] spec(1,2) unfolding files by blast
  have good: "validate_manifest_path (mf_path f) = None \<and> (\<exists>b. map_of ?fd (mf_path f) = Some b \<and> sha256_text sha b = mf_hash f)"
    if f: "f \<in> set (cm_files ?m)" for f
  proof -
    from spec(2) [of f] f obtain b m where b: "map_of fs (src @ SLASH # mf_path f) = Some (File b m)" "plain_segs (split_on SLASH (mf_path f))"
      "f = \<lparr> mf_path = mf_path f, mf_hash = sha256_text sha b, mf_mode = m mod 512, mf_size = int (length b) \<rparr>"
      unfolding files by blast
    have "mf_hash f = sha256_text sha b" by (subst b(3)) simp
    then show ?thesis using validate_plain_path [OF b(2) portable_file(2) [OF assms(4) b(1)]] b(1,2) look by (simp add: file_data_def)
  qed
  obtain c where c: "check_files sha ?fd (cm_files ?m) [] = ok c" using check_files_succeeds [OF good] by blast
  have "verify_content vrfy sha untar no_faults (signer_public priv) fs' out = ok (?m, c)"
    using open_ assms(9,10) parts c manifest_decode [OF packed_manifest_ok [OF assms(1-4,6,7) w]] signature_text
    by (simp add: verify_content_def no_parts_def)
  moreover have "map_of c p = (if plain_segs (split_on SLASH p) then file_data fs (src @ SLASH # p) else None)" for p
    using check_files_ok [OF c] look [of p] spec(3) [of p] files
    by (auto simp: is_file_def file_data_def split: option.splits fnode.splits)
  ultimately show ?thesis by auto
qed

section \<open>Packing succeeds\<close>

lemma write_tar_entry_succeeds:
  assumes "\<And>n k m t. \<exists>h. hdr n k m t = ok h" "file_data fs out = Some old"
  shows "\<exists>due' fs'. write_tar_entry hdr clk no_faults out (due, fs) n b m = ok (due', fs')"
proof -
  obtain h where "hdr n (length b) (m mod 512) (clk n) = ok h" using assms(1) by blast
  then show ?thesis by (simp add: write_tar_entry_def os_write_def Let_def)
qed

lemma pack_files_succeeds:
  assumes "\<And>n k m t. \<exists>h. hdr n k m t = ok h" "file_data fs out = Some old"
    "\<And>f. f \<in> set mfs \<Longrightarrow> join2 src (mf_path f) \<noteq> out \<and> file_data fs (join2 src (mf_path f)) \<noteq> None"
  shows "\<exists>due' fs'. pack_files hdr clk no_faults src out mfs (due, fs) = ok (due', fs')"
  using assms(2,3)
proof (induction mfs arbitrary: due fs old)
  case (Cons f mfs)
  obtain b where "file_data fs (join2 src (mf_path f)) = Some b" using Cons.prems(2) [of f] by auto
  then have r: "os_read_file no_faults fs (join2 src (mf_path f)) = ok b" by (rule file_data_read)
  obtain d1 fs1 where w: "write_tar_entry hdr clk no_faults out (due, fs) (mf_path f) b (mf_mode f) = ok (d1, fs1)"
    using write_tar_entry_succeeds [of hdr, OF assms(1) Cons.prems(1)] by blast
  from write_tar_entry_ok [OF w Cons.prems(1)] obtain old1 where
    o1: "file_data fs1 out = Some old1" "\<And>q. q \<noteq> out \<Longrightarrow> map_of fs1 q = map_of fs q" by blast
  have "\<exists>due' fs'. pack_files hdr clk no_faults src out mfs (d1, fs1) = ok (due', fs')"
  proof (rule Cons.IH [OF o1(1)])
    fix g assume "g \<in> set mfs"
    then have "join2 src (mf_path g) \<noteq> out" "file_data fs (join2 src (mf_path g)) \<noteq> None" using Cons.prems(2) [of g] by auto
    then show "join2 src (mf_path g) \<noteq> out \<and> file_data fs1 (join2 src (mf_path g)) \<noteq> None"
      using file_data_cong [OF o1(2)] by metis
  qed
  then show ?case using r w by (simp del: join_path.simps)
qed simp

lemma pack_entries_succeeds:
  assumes "\<And>n k m t. \<exists>h. hdr n k m t = ok h" "file_data fs out = Some old"
    "\<And>f. f \<in> set mfs \<Longrightarrow> join2 src (mf_path f) \<noteq> out \<and> file_data fs (join2 src (mf_path f)) \<noteq> None"
  shows "\<exists>due fs'. pack_entries hdr clk no_faults src out mb sig mfs fs = ok (due, fs')"
proof -
  obtain e1 f1 where 1: "write_tar_entry hdr clk no_faults out (0, fs) manifest_name mb mode_0644 = ok (e1, f1)"
    using write_tar_entry_succeeds [of hdr, OF assms(1,2)] by blast
  from write_tar_entry_ok [OF 1 assms(2)] obtain o1 where o1: "file_data f1 out = Some o1" "\<And>q. q \<noteq> out \<Longrightarrow> map_of f1 q = map_of fs q" by blast
  obtain e2 f2 where 2: "write_tar_entry hdr clk no_faults out (e1, f1) signature_name (b64_enc sig) mode_0644 = ok (e2, f2)"
    using write_tar_entry_succeeds [of hdr, OF assms(1) o1(1)] by blast
  from write_tar_entry_ok [OF 2 o1(1)] obtain o2 where o2: "file_data f2 out = Some o2" "\<And>q. q \<noteq> out \<Longrightarrow> map_of f2 q = map_of f1 q" by blast
  have "join2 src (mf_path f) \<noteq> out \<and> file_data f2 (join2 src (mf_path f)) \<noteq> None" if "f \<in> set mfs" for f
    using assms(3) [OF that] o1(2) o2(2) file_data_cong by metis
  from pack_files_succeeds [of hdr f2 out o2 mfs src clk e2, OF assms(1) o2(1) this] show ?thesis using 1 2 by (auto simp: pack_entries_def)
qed

lemma pack_succeeds:
  assumes "fs_tree fs" "proper_dir src" "is_dir fs src" "\<not> has_prefix out (src @ [SLASH])" "time_ok (to_utc now)"
    "isl (walk_root (pack_visit sha no_faults fs src) no_faults fs src) = False"
    "is_dir fs (dir_path out)" "map_of fs out = None" "\<And>n k m t. \<exists>h. hdr n k m t = ok h"
  shows "\<exists>fs'. pack_dir sign sha hdr clk now no_faults priv fs src out bid = ok fs'"
proof -
  obtain found where w: "walk_root (pack_visit sha no_faults fs src) no_faults fs src = ok found" using assms(6) by (auto simp: isl_def split: sum.splits) (metis obj_sumE)
  let ?mfs = "sort_slice (\<lambda>a b. mf_path a < mf_path b) found"
  obtain fs1 where o: "os_open_create no_faults True fs out 438 = ok fs1" using assms(7,8) by (simp add: os_open_create_def)
  have d1: "file_data fs1 out = Some []" using open_create_ok(1) [OF o] by simp
  have reads: "join2 src (mf_path f) \<noteq> out \<and> file_data fs1 (join2 src (mf_path f)) \<noteq> None" if "f \<in> set ?mfs" for f
  proof -
    have "f \<in> set (packed_files sha no_faults fs src)" using that by (simp add: packed_files_def w)
    from packed_files_spec(2) [OF assms(1-3) w this] obtain b m where b: "map_of fs (src @ SLASH # mf_path f) = Some (File b m)"
      "plain_segs (split_on SLASH (mf_path f))" by blast
    have "join2 src (mf_path f) = src @ SLASH # mf_path f"
      using join_below [OF assms(2) b(2)] below_join [of "split_on SLASH (mf_path f)"] by (simp add: join_split del: join_path.simps)
    moreover have "src @ SLASH # mf_path f \<noteq> out" using assms(4) has_prefix_append [of "src @ [SLASH]" "mf_path f"] by auto
    ultimately show ?thesis using open_create_ok(2) [OF o] b(1) by (simp add: file_data_def del: join_path.simps)
  qed
  have "\<exists>due fs2. pack_entries hdr clk no_faults src out mb sig ?mfs fs1 = ok (due, fs2)" for mb sig
    by (rule pack_entries_succeeds [of hdr, OF assms(9) d1 reads])
  then obtain due fs2 where "pack_entries hdr clk no_faults src out (marshal_indent (manifest_members m)) (sign priv (marshal_indent (manifest_members m))) ?mfs fs1 = ok (due, fs2)"
    if "m = \<lparr> cm_bundle_id = bid, cm_created_at = to_utc now, cm_files = ?mfs \<rparr>" for m by metis
  then show ?thesis using w o time_ok_json [OF assms(5)] by (simp add: pack_dir_def Let_def)
qed

text \<open>A tree of two files and a bundle beside it.\<close>

definition demo_fs :: fs where
  "demo_fs = [(''/'', Dir 493), (''/s'', Dir 493), (''/s/a'', File ''one'' 420), (''/s/d'', Dir 493), (''/s/d/b'', File ''two'' 448)]"

abbreviation demo_sign :: "bytes \<Rightarrow> bytes \<Rightarrow> bytes" where "demo_sign k msg \<equiv> k"
abbreviation demo_vrfy :: "bytes \<Rightarrow> bytes \<Rightarrow> bytes \<Rightarrow> bool" where "demo_vrfy k msg sig \<equiv> True"
abbreviation demo_hdr :: tar_hdr where "demo_hdr n sz md t \<equiv> ok n"
abbreviation demo_manifest :: cs_manifest where
  "demo_manifest \<equiv> packed_manifest (take 1) (time_utc 0) no_faults demo_fs ''/s'' ''v1''"
abbreviation demo_untar :: untar where
  "demo_untar b e \<equiv> (map tar_entry_of (packed_entries demo_sign ''key'' demo_manifest demo_fs ''/s''), e)"

lemma demo_names: "valid_utf8 ''a''" "valid_utf8 ''d''" "valid_utf8 ''d/b''" "valid_utf8 ''v1''"
  by (rule valid_utf8_ascii, auto simp: byte_def)+

lemma demo_tree: "fs_tree demo_fs" "proper_dir ''/s''" "is_dir demo_fs ''/s''" "\<not> has_prefix ''/o'' (''/s'' @ [SLASH])"
  by code_simp+

lemma demo_portable: "portable_tree ''/s'' demo_fs"
  using demo_names by (simp add: portable_tree_def demo_fs_def has_prefix_def contains_any_def)

lemma demo_time: "time_ok (to_utc (time_utc 0))"
  by code_simp

lemma demo_walk: "isl (walk_root (pack_visit (take 1) no_faults demo_fs ''/s'') no_faults demo_fs ''/s'') = False"
  by code_simp

lemma demo_out: "is_dir demo_fs (dir_path ''/o'')" "map_of demo_fs ''/o'' = None"
  by code_simp+

lemma demo_packs: "\<exists>fs'. pack_dir demo_sign (take 1) demo_hdr (\<lambda>_. zero_time) (time_utc 0) no_faults ''key'' demo_fs ''/s'' ''/o'' ''v1'' = ok fs'"
  by (rule pack_succeeds [OF demo_tree demo_time demo_walk demo_out]) simp

theorem pack_verify_witness:
  "\<exists>fs' c. pack_dir demo_sign (take 1) demo_hdr (\<lambda>_. zero_time) (time_utc 0) no_faults ''key'' demo_fs ''/s'' ''/o'' ''v1'' = ok fs'
     \<and> verify_content demo_vrfy (take 1) demo_untar no_faults (signer_public ''key'') fs' ''/o'' = ok (demo_manifest, c)
     \<and> map_of c ''a'' = Some ''one'' \<and> map_of c ''d/b'' = Some ''two'' \<and> map_of c ''../s/a'' = None"
proof -
  obtain fs' where p: "pack_dir demo_sign (take 1) demo_hdr (\<lambda>_. zero_time) (time_utc 0) no_faults ''key'' demo_fs ''/s'' ''/o'' ''v1'' = ok fs'"
    using demo_packs by blast
  obtain c where "verify_content demo_vrfy (take 1) demo_untar no_faults (signer_public ''key'') fs' ''/o'' = ok (demo_manifest, c)"
    "map_of c = (\<lambda>p. if plain_segs (split_on SLASH p) then file_data demo_fs (''/s'' @ SLASH # p) else None)"
    using pack_verify [OF demo_tree(1-3) demo_portable demo_tree(4) demo_names(4) demo_time p, of demo_vrfy demo_untar, OF TrueI refl] by blast
  moreover have "plain_segs (split_on SLASH ''a'')" "plain_segs (split_on SLASH ''d/b'')" "\<not> plain_segs (split_on SLASH ''../s/a'')"
    "file_data demo_fs (''/s'' @ SLASH # ''a'') = Some ''one''" "file_data demo_fs (''/s'' @ SLASH # ''d/b'') = Some ''two''"
    by code_simp+
  ultimately show ?thesis using p by simp
qed

theorem pack_walk_ends_witness:
  "walk_root (pack_visit (take 1) no_faults demo_fs ''/s'') no_faults demo_fs ''/s'' \<noteq> err CsWalkDepth"
  by (rule pack_walk_ends [OF demo_tree(1,2)])

end
