(* ===== verification/Skill_Sync.thy ===== *)
theory Skill_Sync
  imports Config_Pack
begin

text \<open>
  Signed skill bundles in a Git checkout, \<open>internal/skillsync/skillsync.go\<close>.  The manifest has
  the shape of the config manifest, so its record and JSON form are shared.  Arguments stand for
  \<open>crypto/ed25519\<close>, \<open>crypto/sha256\<close>, the Git runner (\<open>git args fs\<close>: exit code, error
  and the store it leaves) and the random names \<open>os.CreateTemp\<close> draws.  The theorems: a file of the
  destination is replaced as a whole, by content whose hash the signed manifest lists; what
  \<open>SignDir\<close> signed verifies; and manifest paths are not confined to the destination.
\<close>

section \<open>Data\<close>

type_synonym skill_file = manifest_file
type_synonym skill_manifest = cs_manifest

record puller =
  pu_git_url :: string
  pu_branch :: string
  pu_pub_key :: bytes
  pu_skills_dir :: path
  pu_local_dir :: path

datatype skill_err =
    SkNoUrl | SkNoLocal | SkMkdirParent ioerr | SkFetch | SkCheckout | SkRemoveStale ioerr | SkClone
  | SkBadPubKey | SkMissingManifest | SkReadManifest ioerr | SkMissingSignature | SkReadSignature ioerr
  | SkSigDecode | SkBadSignature | SkParse json_err | SkReserved string | SkHash string ioerr | SkHashMismatch string
  | SkMkdirDest ioerr | SkMkdir ioerr | SkOpenSrc ioerr | SkTemp ioerr | SkCopy string | SkChmod ioerr | SkClose ioerr | SkRename ioerr
  | SkWalk cs_err | SkMarshal | SkWriteManifest ioerr | SkWriteSignature ioerr

definition skills_manifest_name :: string where "skills_manifest_name = ''.skills-manifest.json''"
definition skills_signature_name :: string where "skills_signature_name = ''.skills-signature''"

definition bundle_root :: "puller \<Rightarrow> path" where
  "bundle_root p = join2 (pu_local_dir p) (pu_skills_dir p)"

section \<open>Keys\<close>

definition skill_load_signer :: "faults \<Rightarrow> fs \<Rightarrow> path \<Rightarrow> (cs_err, bytes) result" where
  "skill_load_signer flt fs p = load_key 64 flt fs p"

definition encode_pub_key :: "bytes \<Rightarrow> bytes" where
  "encode_pub_key pub = b64_enc pub"

definition decode_pub_key :: "bytes \<Rightarrow> (skill_err, bytes) result" where
  "decode_pub_key b =
     (if b = [] then err SkBadPubKey
      else (case b64_dec (trim_space b) of
              None \<Rightarrow> err SkBadPubKey
            | Some k \<Rightarrow> if length k = 32 then ok k else err SkBadPubKey))"

section \<open>Verification of the checkout\<close>

fun check_skill_files :: "(bytes \<Rightarrow> bytes) \<Rightarrow> faults \<Rightarrow> fs \<Rightarrow> path \<Rightarrow> skill_file list \<Rightarrow> skill_err option" where
  "check_skill_files sha flt fs root [] = None"
| "check_skill_files sha flt fs root (f # mfs) =
     (if mf_path f = skills_manifest_name \<or> mf_path f = skills_signature_name then Some (SkReserved (mf_path f))
      else (case cs_hash_file sha flt fs (join2 root (mf_path f)) of
              Inl e \<Rightarrow> Some (SkHash (mf_path f) e)
            | Inr (got, _) \<Rightarrow> if got \<noteq> mf_hash f then Some (SkHashMismatch (mf_path f))
                             else check_skill_files sha flt fs root mfs))"

definition verify_on_disk ::
  "(bytes \<Rightarrow> bytes \<Rightarrow> bytes \<Rightarrow> bool) \<Rightarrow> (bytes \<Rightarrow> bytes) \<Rightarrow> faults \<Rightarrow> puller \<Rightarrow> fs \<Rightarrow> (skill_err, skill_manifest) result" where
  "verify_on_disk vrfy sha flt p fs =
     (case decode_pub_key (pu_pub_key p) of
        Inl e \<Rightarrow> err e
      | Inr pub \<Rightarrow>
     (case os_read_file flt fs (join2 (bundle_root p) skills_manifest_name) of
        Inl NotExist \<Rightarrow> err SkMissingManifest
      | Inl e \<Rightarrow> err (SkReadManifest e)
      | Inr mb \<Rightarrow>
     (case os_read_file flt fs (join2 (bundle_root p) skills_signature_name) of
        Inl NotExist \<Rightarrow> err SkMissingSignature
      | Inl e \<Rightarrow> err (SkReadSignature e)
      | Inr sb \<Rightarrow>
     (case b64_dec (trim_space sb) of
        None \<Rightarrow> err SkSigDecode
      | Some sig \<Rightarrow>
          if \<not> vrfy pub mb sig then err SkBadSignature
          else (case unmarshal_with manifest_of_members mb of
                  Inl e \<Rightarrow> err (SkParse e)
                | Inr m \<Rightarrow> (case check_skill_files sha flt fs (bundle_root p) (cm_files m) of
                      Some e \<Rightarrow> err e
                    | None \<Rightarrow> ok m))))))"

section \<open>Pulling\<close>

type_synonym git_runner = "string list \<Rightarrow> fs \<Rightarrow> (int \<times> string option) \<times> fs"

definition is_working_tree :: "faults \<Rightarrow> fs \<Rightarrow> path \<Rightarrow> bool" where
  "is_working_tree flt fs dir = (case os_stat flt fs (join2 dir ''.git'') of Inl _ \<Rightarrow> False | Inr _ \<Rightarrow> True)"

definition os_remove_all :: "faults \<Rightarrow> fs \<Rightarrow> path \<Rightarrow> (ioerr, fs) result" where
  "os_remove_all flt fs p =
     (case flt (FRemove p) of
        Some (_, m) \<Rightarrow> err (OsErr m)
      | None \<Rightarrow> ok (filter (\<lambda>(q, _). q \<noteq> p \<and> \<not> has_prefix q (p @ [SLASH])) fs))"

definition git_failed :: "int \<times> string option \<Rightarrow> bool" where
  "git_failed r \<longleftrightarrow> snd r \<noteq> None \<or> fst r \<noteq> 0"

definition git_update :: "git_runner \<Rightarrow> faults \<Rightarrow> puller \<Rightarrow> string \<Rightarrow> fs \<Rightarrow> (skill_err \<times> fs, fs) result" where
  "git_update git flt p branch fs =
     (if is_working_tree flt fs (pu_local_dir p) then
        (case git [''-C'', pu_local_dir p, ''fetch'', ''--depth=1'', ''origin'', branch] fs of
           (r1, fs1) \<Rightarrow>
             if git_failed r1 then err (SkFetch, fs1)
             else (case git [''-C'', pu_local_dir p, ''checkout'', ''-f'', ''FETCH_HEAD''] fs1 of
                     (r2, fs2) \<Rightarrow> if git_failed r2 then err (SkCheckout, fs2) else ok fs2))
      else
        (case os_remove_all flt fs (pu_local_dir p) of
           Inl e \<Rightarrow> err (SkRemoveStale e, fs)
         | Inr fs1 \<Rightarrow>
             (case git [''clone'', ''--depth=1'', ''--branch'', branch, pu_git_url p, pu_local_dir p] fs1 of
                (r, fs2) \<Rightarrow> if git_failed r then err (SkClone, fs2) else ok fs2)))"

definition skill_pull ::
  "(bytes \<Rightarrow> bytes \<Rightarrow> bytes \<Rightarrow> bool) \<Rightarrow> (bytes \<Rightarrow> bytes) \<Rightarrow> git_runner \<Rightarrow> faults \<Rightarrow> puller \<Rightarrow> fs
     \<Rightarrow> (skill_err \<times> fs, skill_manifest \<times> fs) result" where
  "skill_pull vrfy sha git flt p fs =
     (if pu_git_url p = [] then err (SkNoUrl, fs)
      else if pu_local_dir p = [] then err (SkNoLocal, fs)
      else (let branch = (if pu_branch p = [] then ''main'' else pu_branch p) in
        case os_mkdir_all flt fs (dir_path (pu_local_dir p)) mode_0755 of
          Inl (e, fs1) \<Rightarrow> err (SkMkdirParent e, fs1)
        | Inr fs1 \<Rightarrow>
            (case git_update git flt p branch fs1 of
               Inl x \<Rightarrow> err x
             | Inr fs2 \<Rightarrow> (case verify_on_disk vrfy sha flt p fs2 of Inl e \<Rightarrow> err (e, fs2) | Inr m \<Rightarrow> ok (m, fs2)))))"

section \<open>Applying\<close>

text \<open>\<open>os.CreateTemp\<close> opens, in an existing directory and with \<open>O_EXCL\<close>, the first drawn name
  that is free.\<close>

definition create_temp :: "faults \<Rightarrow> string list \<Rightarrow> fs \<Rightarrow> path \<Rightarrow> string \<Rightarrow> (ioerr, path \<times> fs) result" where
  "create_temp flt draws fs dir pre =
     (case flt (FTemp dir) of
        Some (_, m) \<Rightarrow> err (OsErr m)
      | None \<Rightarrow>
          if \<not> is_dir fs dir then err NotExist
          else (case find (\<lambda>r. map_of fs (join2 dir (pre @ r)) = None) draws of
                  None \<Rightarrow> err (OsErr ''file exists'')
                | Some r \<Rightarrow> ok (join2 dir (pre @ r), AList.update (join2 dir (pre @ r)) (File [] mode_0600) fs)))"

definition os_chmod :: "faults \<Rightarrow> fs \<Rightarrow> path \<Rightarrow> nat \<Rightarrow> (ioerr, fs) result" where
  "os_chmod flt fs p mode =
     (case flt (FChmod p) of
        Some (_, m) \<Rightarrow> err (OsErr m)
      | None \<Rightarrow> (case map_of fs p of
            Some (File b _) \<Rightarrow> ok (AList.update p (File b mode) fs)
          | _ \<Rightarrow> ok fs))"

text \<open>The deferred clean-up of a temp file that is still there.\<close>

definition drop_temp :: "faults \<Rightarrow> fs \<Rightarrow> path \<Rightarrow> fs" where
  "drop_temp flt fs tmp = (case os_stat flt fs tmp of Inl _ \<Rightarrow> fs | Inr _ \<Rightarrow> remove_quiet flt fs tmp)"

definition copy_file_atomic :: "faults \<Rightarrow> string list \<Rightarrow> fs \<Rightarrow> path \<Rightarrow> path \<Rightarrow> nat \<Rightarrow> (skill_err \<times> fs, fs) result" where
  "copy_file_atomic flt draws fs src dst mode =
     (case open_stream flt fs src of
        Inl e \<Rightarrow> err (SkOpenSrc e, fs)
      | Inr (b, rerr) \<Rightarrow>
     (case create_temp flt draws fs (dir_path dst) (base_path dst @ ''.tmp-'') of
        Inl e \<Rightarrow> err (SkTemp e, fs)
      | Inr (tmp, fs1) \<Rightarrow>
     (case os_write flt fs1 tmp b of
        Inl (e, fs2) \<Rightarrow> err (SkCopy ''write'', drop_temp flt fs2 tmp)
      | Inr fs2 \<Rightarrow>
     (case rerr of
        Some w \<Rightarrow> err (SkCopy w, drop_temp flt fs2 tmp)
      | None \<Rightarrow>
     (case os_chmod flt fs2 tmp mode of
        Inl e \<Rightarrow> err (SkChmod e, drop_temp flt fs2 tmp)
      | Inr fs3 \<Rightarrow>
     (case os_close flt tmp of
        Inl e \<Rightarrow> err (SkClose e, drop_temp flt fs3 tmp)
      | Inr _ \<Rightarrow>
     (case os_rename flt fs3 tmp dst of
        Inl e \<Rightarrow> err (SkRename e, drop_temp flt fs3 tmp)
      | Inr fs4 \<Rightarrow> ok fs4)))))))"

text \<open>\<open>draws dst\<close> are the names drawn for the temp file of \<open>dst\<close>; the counters are
  \<open>applied\<close> and \<open>unchanged\<close>, which an error returns too.\<close>

fun skill_apply_files ::
  "(bytes \<Rightarrow> bytes) \<Rightarrow> faults \<Rightarrow> (path \<Rightarrow> string list) \<Rightarrow> path \<Rightarrow> path \<Rightarrow> skill_file list \<Rightarrow> nat \<times> nat \<Rightarrow> fs
     \<Rightarrow> ((skill_err \<times> nat \<times> nat) \<times> fs, (nat \<times> nat) \<times> fs) result" where
  "skill_apply_files sha flt draws root dest [] n fs = ok (n, fs)"
| "skill_apply_files sha flt draws root dest (f # mfs) n fs =
     (let src = join2 root (mf_path f); dst = join2 dest (mf_path f) in
      if (case cs_hash_file sha flt fs dst of Inl _ \<Rightarrow> False | Inr (h, _) \<Rightarrow> h = mf_hash f)
      then skill_apply_files sha flt draws root dest mfs (fst n, Suc (snd n)) fs
      else (case os_mkdir_all flt fs (dir_path dst) mode_0755 of
              Inl (e, fs1) \<Rightarrow> err ((SkMkdir e, n), fs1)
            | Inr fs1 \<Rightarrow>
                (case copy_file_atomic flt (draws dst) fs1 src dst (mf_mode f mod 512) of
                   Inl (e, fs2) \<Rightarrow> err ((e, n), fs2)
                 | Inr fs2 \<Rightarrow> skill_apply_files sha flt draws root dest mfs (Suc (fst n), snd n) fs2)))"

definition skill_apply ::
  "(bytes \<Rightarrow> bytes \<Rightarrow> bytes \<Rightarrow> bool) \<Rightarrow> (bytes \<Rightarrow> bytes) \<Rightarrow> faults \<Rightarrow> (path \<Rightarrow> string list) \<Rightarrow> puller \<Rightarrow> path \<Rightarrow> fs
     \<Rightarrow> ((skill_err \<times> nat \<times> nat) \<times> fs, (nat \<times> nat) \<times> fs) result" where
  "skill_apply vrfy sha flt draws p dest fs =
     (case verify_on_disk vrfy sha flt p fs of
        Inl e \<Rightarrow> err ((e, 0, 0), fs)
      | Inr m \<Rightarrow>
          (case os_mkdir_all flt fs dest mode_0755 of
             Inl (e, fs1) \<Rightarrow> err ((SkMkdirDest e, 0, 0), fs1)
           | Inr fs1 \<Rightarrow> skill_apply_files sha flt draws (bundle_root p) dest (cm_files m) (0, 0) fs1))"

section \<open>Signing\<close>

text \<open>The function \<open>SignDir\<close> gives to \<open>WalkDir\<close>: a reserved name is skipped.\<close>

definition sign_visit :: "(bytes \<Rightarrow> bytes) \<Rightarrow> faults \<Rightarrow> fs \<Rightarrow> path \<Rightarrow> path \<Rightarrow> (cs_err, skill_file option) result" where
  "sign_visit sha flt fs src p =
     (case rel_path src p of
        None \<Rightarrow> err (CsWalk (OsErr ''Rel''))
      | Some rel \<Rightarrow>
          if rel = skills_manifest_name \<or> rel = skills_signature_name then ok None
          else (case cs_hash_file sha flt fs p of
                  Inl e \<Rightarrow> err (CsWalk e)
                | Inr (h, n) \<Rightarrow>
                    (case os_stat flt fs p of
                       Inr (File _ m) \<Rightarrow> ok (Some \<lparr> mf_path = rel, mf_hash = h, mf_mode = m mod 512, mf_size = n \<rparr>)
                     | _ \<Rightarrow> err CsNilInfo)))"

definition sign_dir ::
  "(bytes \<Rightarrow> bytes \<Rightarrow> bytes) \<Rightarrow> (bytes \<Rightarrow> bytes) \<Rightarrow> gtime \<Rightarrow> faults \<Rightarrow> bytes \<Rightarrow> fs \<Rightarrow> path \<Rightarrow> string
     \<Rightarrow> (skill_err \<times> fs, skill_manifest \<times> fs) result" where
  "sign_dir sign sha now flt priv fs src bid =
     (case walk_root (sign_visit sha flt fs src) flt fs src of
        Inl e \<Rightarrow> err (SkWalk e, fs)
      | Inr found \<Rightarrow>
          (let files = sort_slice (\<lambda>a b. mf_path a < mf_path b) (List.map_filter id found);
               m = \<lparr> cm_bundle_id = bid, cm_created_at = to_utc now, cm_files = files \<rparr>;
               mb = marshal_indent (manifest_members m) in
           if \<not> time_json_ok (cm_created_at m) then err (SkMarshal, fs)
           else (case os_write_file flt fs (join2 src skills_manifest_name) mb mode_0644 of
                   Inl (e, fs1) \<Rightarrow> err (SkWriteManifest e, fs1)
                 | Inr fs1 \<Rightarrow>
                     (case os_write_file flt fs1 (join2 src skills_signature_name) (b64_enc (sign priv mb)) mode_0644 of
                        Inl (e, fs2) \<Rightarrow> err (SkWriteSignature e, fs2)
                      | Inr fs2 \<Rightarrow> ok (m, fs2)))))"

section \<open>Replacement is atomic\<close>

lemma create_temp_ok:
  assumes "create_temp flt draws fs dir pre = ok (tmp, fs')"
  shows "\<exists>r. tmp = join2 dir (pre @ r)" "map_of fs tmp = None" "file_data fs' tmp = Some []" "q \<noteq> tmp \<Longrightarrow> map_of fs' q = map_of fs q"
  using assms
  by (auto simp: create_temp_def file_data_def update_conv find_Some_iff simp del: join_path.simps split: option.splits if_splits)

lemma chmod_ok: "os_chmod flt fs p mode = ok fs' \<Longrightarrow> file_data fs' p = file_data fs p \<and> (\<forall>q. q \<noteq> p \<longrightarrow> map_of fs' q = map_of fs q)"
  by (auto simp: os_chmod_def file_data_def update_conv split: option.splits fnode.splits)

lemma drop_temp_other: "q \<noteq> tmp \<Longrightarrow> map_of (drop_temp flt fs tmp) q = map_of fs q"
  by (auto simp: drop_temp_def remove_quiet_other split: sum.splits)

text \<open>A copy that succeeds puts the whole source at the destination and changes nothing else; one that
  fails leaves every entry there was, and can leave its temp file.\<close>

lemma copy_atomic_ok:
  assumes "copy_file_atomic flt draws fs src dst mode = ok fs'"
  shows "file_data fs src \<noteq> None" "file_data fs' dst = file_data fs src" "q \<noteq> dst \<Longrightarrow> map_of fs' q = map_of fs q"
proof -
  from assms obtain b tmp fs1 fs2 fs3 where s: "open_stream flt fs src = ok (b, None)"
    "create_temp flt draws fs (dir_path dst) (base_path dst @ ''.tmp-'') = ok (tmp, fs1)" "os_write flt fs1 tmp b = ok fs2"
    "os_chmod flt fs2 tmp mode = ok fs3" "os_rename flt fs3 tmp dst = ok fs'"
    by (auto simp: copy_file_atomic_def split: sum.splits prod.splits option.splits)
  note t = create_temp_ok [OF s(2)] and c = chmod_ok [OF s(4)]
  have b: "file_data fs src = Some b" using s(1) by (auto simp: open_stream_def file_data_def split: option.splits fnode.splits)
  have d: "file_data fs3 tmp = Some b" using write_ok(1) [OF s(3) t(3)] c by simp
  have o: "map_of fs3 q = map_of fs q" if "q \<noteq> tmp" for q using that t(4) write_ok(2) [OF s(3) t(3)] c by metis
  have r: "fs' = AList.update dst (the (map_of fs3 tmp)) (AList.delete tmp fs3)" "map_of fs3 tmp \<noteq> None"
    using s(5) by (auto simp: os_rename_def split: option.splits if_splits)
  show "file_data fs src \<noteq> None" using b by simp
  show "file_data fs' dst = file_data fs src" using b d r by (auto simp: file_data_def update_conv split: option.splits)
  show "map_of fs' q = map_of fs q" if "q \<noteq> dst"
    using that r(1) t(2) o [of q] by (cases "q = tmp") (auto simp: update_conv delete_conv)
qed

lemma copy_atomic_err:
  assumes "copy_file_atomic flt draws fs src dst mode = err (e, fs')" "file_data fs' q \<noteq> file_data fs q"
  shows "map_of fs q = None \<and> (\<exists>r. q = join2 (dir_path dst) (base_path dst @ ''.tmp-'' @ r))"
proof -
  have ne: "fs' \<noteq> fs" using assms(2) by auto
  from assms(1) ne obtain b rerr tmp fs1 where s: "open_stream flt fs src = ok (b, rerr)"
    "create_temp flt draws fs (dir_path dst) (base_path dst @ ''.tmp-'') = ok (tmp, fs1)"
    by (auto simp: copy_file_atomic_def split: sum.splits prod.splits)
  note t = create_temp_ok [OF s(2)]
  have w: "map_of fs2 p = map_of fs p" if "os_write flt fs1 tmp b = ok fs2 \<or> os_write flt fs1 tmp b = err (x, fs2)" "p \<noteq> tmp" for fs2 x p
    using os_write_other [OF that(2,1)] t(4) [OF that(2)] by simp
  have "map_of fs' p = map_of fs p" if p: "p \<noteq> tmp" for p
  proof (cases "os_write flt fs1 tmp b")
    case (Inl x)
    then show ?thesis using assms(1) s w [of "snd x" "fst x" p] drop_temp_other [OF p] p by (cases x) (auto simp: copy_file_atomic_def)
  next
    case (Inr fs2)
    have 2: "map_of fs2 p = map_of fs p" using w Inr p by blast
    moreover have "map_of fs3 p = map_of fs2 p" if "os_chmod flt fs2 tmp mode = ok fs3" for fs3 using chmod_ok [OF that] p by simp
    ultimately show ?thesis using assms(1) s Inr drop_temp_other [OF p]
      by (auto simp: copy_file_atomic_def split: option.splits sum.splits)
  qed
  then have "q = tmp" using assms(2) file_data_cong by metis
  then show ?thesis using t(1,2) by auto
qed

section \<open>What an apply leaves\<close>

definition holds_listed :: "(bytes \<Rightarrow> bytes) \<Rightarrow> path \<Rightarrow> skill_file list \<Rightarrow> fs \<Rightarrow> path \<Rightarrow> bool" where
  "holds_listed sha dest mfs fs q \<longleftrightarrow>
     list_ex (\<lambda>f. q = join2 dest (mf_path f) \<and> (case file_data fs q of None \<Rightarrow> False | Some b \<Rightarrow> sha256_text sha b = mf_hash f)) mfs"

definition left_temp :: "path \<Rightarrow> skill_file list \<Rightarrow> path \<Rightarrow> bool" where
  "left_temp dest mfs q \<longleftrightarrow>
     (\<exists>f \<in> set mfs. \<exists>r. q = join2 (dir_path (join2 dest (mf_path f))) (base_path (join2 dest (mf_path f)) @ ''.tmp-'' @ r))"

definition sources_listed :: "(bytes \<Rightarrow> bytes) \<Rightarrow> path \<Rightarrow> skill_file list \<Rightarrow> fs \<Rightarrow> bool" where
  "sources_listed sha root mfs fs \<longleftrightarrow>
     list_all (\<lambda>f. case file_data fs (join2 root (mf_path f)) of None \<Rightarrow> False | Some b \<Rightarrow> sha256_text sha b = mf_hash f) mfs"

text \<open>No file is written over a file of the checkout.\<close>

definition apart :: "path \<Rightarrow> path \<Rightarrow> skill_file list \<Rightarrow> bool" where
  "apart root dest mfs \<longleftrightarrow> list_all (\<lambda>f. list_all (\<lambda>g. join2 dest (mf_path f) \<noteq> join2 root (mf_path g)) mfs) mfs"

lemma skill_round:
  fixes f :: skill_file
  defines "src \<equiv> \<lambda>root. join2 root (mf_path f)" and "dst \<equiv> \<lambda>dest. join2 dest (mf_path f)"
  obtains (skip) "skill_apply_files sha flt draws root dest (f # mfs) n fs = skill_apply_files sha flt draws root dest mfs (fst n, Suc (snd n)) fs"
      "\<exists>b. file_data fs (dst dest) = Some b \<and> sha256_text sha b = mf_hash f"
  | (fail) e fs' where "skill_apply_files sha flt draws root dest (f # mfs) n fs = err (e, fs')"
      "\<And>q. file_data fs' q \<noteq> file_data fs q \<Longrightarrow>
         file_data fs q = None \<and> (\<exists>r. q = join2 (dir_path (dst dest)) (base_path (dst dest) @ ''.tmp-'' @ r))"
  | (copied) fs2 where "skill_apply_files sha flt draws root dest (f # mfs) n fs = skill_apply_files sha flt draws root dest mfs (Suc (fst n), snd n) fs2"
      "file_data fs2 (dst dest) = file_data fs (src root)" "file_data fs (src root) \<noteq> None" "\<And>q. q \<noteq> dst dest \<Longrightarrow> file_data fs2 q = file_data fs q"
proof -
  let ?same = "case cs_hash_file sha flt fs (dst dest) of Inl _ \<Rightarrow> False | Inr (h, _) \<Rightarrow> h = mf_hash f"
  have unf: "skill_apply_files sha flt draws root dest (f # mfs) n fs =
      (if ?same then skill_apply_files sha flt draws root dest mfs (fst n, Suc (snd n)) fs
       else (case os_mkdir_all flt fs (dir_path (dst dest)) mode_0755 of
              Inl (e, fs1) \<Rightarrow> err ((SkMkdir e, n), fs1)
            | Inr fs1 \<Rightarrow>
                (case copy_file_atomic flt (draws (dst dest)) fs1 (src root) (dst dest) (mf_mode f mod 512) of
                   Inl (e, fs2) \<Rightarrow> err ((e, n), fs2)
                 | Inr fs2 \<Rightarrow> skill_apply_files sha flt draws root dest mfs (Suc (fst n), snd n) fs2)))"
    by (simp only: skill_apply_files.simps Let_def src_def dst_def)
  consider (s) "?same" | (m) e where "\<not> ?same" "os_mkdir_all flt fs (dir_path (dst dest)) mode_0755 = err (e, fs)"
    | (c) fs1 e fs2 where "\<not> ?same" "os_mkdir_all flt fs (dir_path (dst dest)) mode_0755 = ok fs1"
        "copy_file_atomic flt (draws (dst dest)) fs1 (src root) (dst dest) (mf_mode f mod 512) = err (e, fs2)"
    | (d) fs1 fs2 where "\<not> ?same" "os_mkdir_all flt fs (dir_path (dst dest)) mode_0755 = ok fs1"
        "copy_file_atomic flt (draws (dst dest)) fs1 (src root) (dst dest) (mf_mode f mod 512) = ok fs2"
    by (metis mkdir_all_err obj_sumE surj_pair)
  then show thesis
  proof cases
    case s
    have "\<exists>b. file_data fs (dst dest) = Some b \<and> sha256_text sha b = mf_hash f"
      using s os_read_file_data by (fastforce simp: cs_hash_file_def split: sum.splits)
    then show thesis using skip unf s by simp
  next
    case m
    then show thesis using fail [of "(SkMkdir e, n)" fs] unf by simp
  next
    case c
    note same = mkdir_keeps_files [OF c(2)]
    show thesis
    proof (rule fail [of "(e, n)" fs2])
      fix q assume "file_data fs2 q \<noteq> file_data fs q"
      then show "file_data fs q = None \<and> (\<exists>r. q = join2 (dir_path (dst dest)) (base_path (dst dest) @ ''.tmp-'' @ r))"
        using copy_atomic_err [OF c(3), of q] same [of q] by (auto simp: file_data_def simp del: join_path.simps)
    qed (use c unf in simp)
  next
    case d
    note same = mkdir_keeps_files [OF d(2)] and k = copy_atomic_ok [OF d(3)]
    have "file_data fs2 q = file_data fs q" if "q \<noteq> dst dest" for q using k(3) [OF that] same [of q] by (simp add: file_data_def)
    then show thesis using copied [of fs2] unf d k(1,2) same by simp
  qed
qed

lemma holds_listed_Cons:
  "holds_listed sha dest (f # mfs) fs q \<longleftrightarrow>
     (q = join2 dest (mf_path f) \<and> (\<exists>b. file_data fs q = Some b \<and> sha256_text sha b = mf_hash f)) \<or> holds_listed sha dest mfs fs q"
  by (auto simp: holds_listed_def simp del: join_path.simps split: option.splits)

lemma holds_listed_cong: "file_data fs q = file_data fs' q \<Longrightarrow> holds_listed sha dest mfs fs q = holds_listed sha dest mfs fs' q"
  by (simp add: holds_listed_def)

lemma sources_listed_Cons:
  "sources_listed sha root (f # mfs) fs \<longleftrightarrow>
     (\<exists>b. file_data fs (join2 root (mf_path f)) = Some b \<and> sha256_text sha b = mf_hash f) \<and> sources_listed sha root mfs fs"
  by (auto simp: sources_listed_def simp del: join_path.simps split: option.splits)

lemma sources_kept:
  assumes "sources_listed sha root mfs fs" "\<And>g. g \<in> set mfs \<Longrightarrow> file_data fs' (join2 root (mf_path g)) = file_data fs (join2 root (mf_path g))"
  shows "sources_listed sha root mfs fs'"
  using assms by (simp add: sources_listed_def list_all_iff del: join_path.simps)

text \<open>The loop: whatever it changed holds listed content, except for a temp file that a failed copy left;
  when it ends, every listed file is there and the counters add up.\<close>

lemma skill_loop:
  assumes "sources_listed sha root mfs fs" "apart root dest mfs"
    "skill_apply_files sha flt draws root dest mfs n fs = (if full then ok (n', fs') else err (e, fs'))"
  shows "(\<forall>q. file_data fs' q \<noteq> file_data fs q \<longrightarrow>
       holds_listed sha dest mfs fs' q \<or> (\<not> full \<and> file_data fs q = None \<and> left_temp dest mfs q))
    \<and> (full \<longrightarrow> (\<forall>f \<in> set mfs. holds_listed sha dest mfs fs' (join2 dest (mf_path f))) \<and> fst n' + snd n' = fst n + snd n + length mfs)"
  using assms
proof (induction mfs arbitrary: n fs)
  case (Cons f mfs)
  let ?d = "join2 dest (mf_path f)"
  have ap: "apart root dest mfs" using Cons.prems(2) by (auto simp: apart_def list_all_iff simp del: join_path.simps)
  have mono: "holds_listed sha dest mfs fs' q \<Longrightarrow> holds_listed sha dest (f # mfs) fs' q" "left_temp dest mfs q \<Longrightarrow> left_temp dest (f # mfs) q" for q
    by (auto simp: holds_listed_Cons left_temp_def simp del: join_path.simps)
  obtain b where b: "file_data fs (join2 root (mf_path f)) = Some b" "sha256_text sha b = mf_hash f" "sources_listed sha root mfs fs"
    using Cons.prems(1) unfolding sources_listed_Cons by blast
  show ?case
  proof (cases rule: skill_round [of sha flt draws root dest f mfs n fs, case_names skip fail copied])
    case skip
    note ih = Cons.IH [OF b(3) ap trans [OF skip(1) [symmetric] Cons.prems(3)]]
    have "holds_listed sha dest (f # mfs) fs' ?d" if full
      using ih that skip(2) mono(1) by (cases "file_data fs' ?d = file_data fs ?d") (auto simp: holds_listed_Cons simp del: join_path.simps)
    then show ?thesis using ih mono by auto
  next
    case (fail e2 fs2)
    then have f: "\<not> full" "fs' = fs2" using Cons.prems(3) by (auto split: if_splits)
    then show ?thesis using fail(2) by (auto simp: left_temp_def simp del: join_path.simps)
  next
    case (copied fs2)
    have other: "file_data fs2 (join2 root (mf_path g)) = file_data fs (join2 root (mf_path g))" if "g \<in> set mfs" for g
      using copied(4) [of "join2 root (mf_path g)"] Cons.prems(2) that by (auto simp: apart_def list_all_iff simp del: join_path.simps)
    note ih = Cons.IH [OF sources_kept [OF b(3) other] ap trans [OF copied(1) [symmetric] Cons.prems(3)]]
    have new: "holds_listed sha dest (f # mfs) fs2 ?d" using copied(2) b(1,2) by (simp add: holds_listed_Cons del: join_path.simps)
    have d: "holds_listed sha dest (f # mfs) fs' ?d \<or> (\<not> full \<and> file_data fs2 ?d = None)"
      using ih new mono(1) holds_listed_cong [of fs' ?d fs2] by (cases "file_data fs' ?d = file_data fs2 ?d") auto
    moreover have "file_data fs2 ?d \<noteq> None" using copied(2,3) by simp
    ultimately have hd: "holds_listed sha dest (f # mfs) fs' ?d" by blast
    show ?thesis
    proof (intro conjI allI impI)
      fix q assume q: "file_data fs' q \<noteq> file_data fs q"
      show "holds_listed sha dest (f # mfs) fs' q \<or> (\<not> full \<and> file_data fs q = None \<and> left_temp dest (f # mfs) q)"
      proof (cases "q = ?d")
        case False
        have "file_data fs' q \<noteq> file_data fs2 q" using q copied(4) [OF False] by simp
        then have "holds_listed sha dest mfs fs' q \<or> (\<not> full \<and> file_data fs2 q = None \<and> left_temp dest mfs q)" using ih by blast
        then show ?thesis using mono [of q] copied(4) [OF False] by presburger
      qed (use hd in blast)
    next
      assume full
      then show "\<forall>g \<in> set (f # mfs). holds_listed sha dest (f # mfs) fs' (join2 dest (mf_path g))" using ih hd mono(1) by auto
    qed (use ih in auto)
  qed
qed (auto split: if_splits)

lemma check_skill_files_ok: "check_skill_files sha flt fs root mfs = None \<Longrightarrow> sources_listed sha root mfs fs"
proof (induction mfs)
  case (Cons f mfs)
  then obtain h k where "cs_hash_file sha flt fs (join2 root (mf_path f)) = ok (h, k)" "h = mf_hash f" "check_skill_files sha flt fs root mfs = None"
    by (auto simp del: join_path.simps split: if_splits sum.splits)
  then show ?case
    using Cons.IH os_read_file_data unfolding sources_listed_Cons by (fastforce simp: cs_hash_file_def simp del: join_path.simps split: sum.splits)
qed (simp add: sources_listed_def)

lemma verify_on_disk_ok:
  assumes "verify_on_disk vrfy sha flt p fs = ok m"
  shows "sources_listed sha (bundle_root p) (cm_files m) fs"
    "\<exists>pub mb sig. decode_pub_key (pu_pub_key p) = ok pub \<and> file_data fs (join2 (bundle_root p) skills_manifest_name) = Some mb
       \<and> vrfy pub mb sig \<and> unmarshal_with manifest_of_members mb = ok m"
proof -
  from assms obtain pub mb sig where v: "decode_pub_key (pu_pub_key p) = ok pub"
    "os_read_file flt fs (join2 (bundle_root p) skills_manifest_name) = ok mb" "vrfy pub mb sig"
    "unmarshal_with manifest_of_members mb = ok m" "check_skill_files sha flt fs (bundle_root p) (cm_files m) = None"
    by (auto simp: verify_on_disk_def simp del: join_path.simps split: sum.splits ioerr.splits option.splits if_splits)
  show "sources_listed sha (bundle_root p) (cm_files m) fs" by (rule check_skill_files_ok [OF v(5)])
  show "\<exists>pub mb sig. decode_pub_key (pu_pub_key p) = ok pub \<and> file_data fs (join2 (bundle_root p) skills_manifest_name) = Some mb
       \<and> vrfy pub mb sig \<and> unmarshal_with manifest_of_members mb = ok m"
    using v os_read_file_data [OF v(2)] by blast
qed

lemma sources_listed_cong: "(\<And>q. file_data fs' q = file_data fs q) \<Longrightarrow> sources_listed sha root mfs fs' = sources_listed sha root mfs fs"
  by (simp add: sources_listed_def)

text \<open>C31. \<open>Apply\<close> of a skill bundle to a destination that does not overlap the listed files of the checkout, whatever system calls
  fail: nothing changes unless the manifest in the checkout verified under the pinned key; a file that changed then holds the whole
  content of a listed file, with the listed hash, at that file's place, or it is a new temp file that a failed copy left; and
  when \<open>Apply\<close> succeeds every listed file is in place and the two counters add up to their number.\<close>

theorem skill_apply_atomic:
  assumes "skill_apply vrfy sha flt draws p dest fs = (if full then ok (n, fs') else err (e, fs'))"
    and "\<And>m. verify_on_disk vrfy sha flt p fs = ok m \<Longrightarrow> apart (bundle_root p) dest (cm_files m)"
  shows "(\<forall>q. file_data fs' q = file_data fs q) \<and> \<not> full
    \<or> (\<exists>m pub mb sig. verify_on_disk vrfy sha flt p fs = ok m \<and> decode_pub_key (pu_pub_key p) = ok pub \<and> vrfy pub mb sig
        \<and> unmarshal_with manifest_of_members mb = ok m
        \<and> (\<forall>q. file_data fs' q = file_data fs q \<or> holds_listed sha dest (cm_files m) fs' q
             \<or> full = False \<and> file_data fs q = None \<and> left_temp dest (cm_files m) q)
        \<and> (full = False \<or> list_all (\<lambda>f. holds_listed sha dest (cm_files m) fs' (join2 dest (mf_path f))) (cm_files m)
             \<and> fst n + snd n = length (cm_files m)))"
proof (cases "verify_on_disk vrfy sha flt p fs")
  case (Inl x)
  then show ?thesis using assms(1) by (auto simp: skill_apply_def split: if_splits)
next
  case (Inr m)
  note v = verify_on_disk_ok [OF Inr] and ap = assms(2) [OF Inr]
  show ?thesis
  proof (cases "os_mkdir_all flt fs dest mode_0755")
    case (Inl x)
    then have "fs' = fs \<and> \<not> full" using assms(1) Inr mkdir_all_err [of flt fs dest mode_0755] by (cases x) (auto simp: skill_apply_def split: if_splits)
    then show ?thesis by simp
  next
    case mk: (Inr fs1)
    note same = mkdir_keeps_files [OF mk]
    have run: "skill_apply_files sha flt draws (bundle_root p) dest (cm_files m) (0, 0) fs1 = (if full then ok (n, fs') else err (e, fs'))"
      using assms(1) Inr mk by (simp add: skill_apply_def)
    have "sources_listed sha (bundle_root p) (cm_files m) fs1" using v(1) sources_listed_cong [OF same] by simp
    from skill_loop [OF this ap run] v(2) show ?thesis
      unfolding list_all_iff using Inr same by (intro disjI2) (auto simp del: join_path.simps)
  qed
qed

section \<open>What was signed verifies\<close>

lemma signed_file:
  assumes "proper_dir src" "is_dir fs src" "q \<in> files_below fs src" "sign_visit sha flt fs src q = ok x"
  shows "\<exists>b m path. q = src @ SLASH # path \<and> plain_segs (split_on SLASH path) \<and> map_of fs q = Some (File b m)
    \<and> x = (if path = skills_manifest_name \<or> path = skills_signature_name then None
           else Some \<lparr> mf_path = path, mf_hash = sha256_text sha b, mf_mode = m mod 512, mf_size = int (length b) \<rparr>)"
proof -
  obtain path b m where q: "q = src @ SLASH # path" "plain_segs (split_on SLASH path)" "rel_path src q = Some path" "map_of fs q = Some (File b m)"
    by (rule file_below [OF assms(1-3)])
  have "x = (if path = skills_manifest_name \<or> path = skills_signature_name then None
      else Some \<lparr> mf_path = path, mf_hash = sha256_text sha b, mf_mode = m mod 512, mf_size = int (length b) \<rparr>)"
    using assms(4) q(3,4) by (auto simp: sign_visit_def cs_hash_file_def os_read_file_def os_stat_def split: if_splits option.splits)
  then show ?thesis using q by blast
qed

lemma set_map_filter_id: "set (List.map_filter id xs) = {y. Some y \<in> set xs}"
  by (induction xs) (auto simp: map_filter_def)

text \<open>The files of a signed manifest are the files of the tree but for the two reserved names.\<close>

lemma signed_files:
  assumes "fs_tree fs" "proper_dir src" "is_dir fs src" "walk_root (sign_visit sha flt fs src) flt fs src = ok found"
  shows "Some f \<in> set found \<longleftrightarrow> (\<exists>b m. map_of fs (src @ SLASH # mf_path f) = Some (File b m) \<and> plain_segs (split_on SLASH (mf_path f))
      \<and> mf_path f \<noteq> skills_manifest_name \<and> mf_path f \<noteq> skills_signature_name
      \<and> f = \<lparr> mf_path = mf_path f, mf_hash = sha256_text sha b, mf_mode = m mod 512, mf_size = int (length b) \<rparr>)" (is "_ \<longleftrightarrow> ?r")
proof -
  have "map_of fs src \<noteq> None" using assms(3) by (auto simp: is_dir_def split: option.splits)
  moreover have "walk_dir (sign_visit sha flt fs src) flt fs (walk_fuel fs) src = ok found"
    using assms(4) by (auto simp: walk_root_def split: sum.splits)
  ultimately obtain ps where ps: "list_all2 (\<lambda>q x. sign_visit sha flt fs src q = ok x) ps found" "set ps = files_below fs src"
    using walk_visits [OF assms(1,2)] by blast
  note vis = signed_file [OF assms(2,3)]
  show ?thesis
  proof
    assume "Some f \<in> set found"
    then obtain i where i: "i < length found" "found ! i = Some f" by (auto simp: in_set_conv_nth)
    then have l: "i < length ps" using list_all2_lengthD [OF ps(1)] by simp
    then have "ps ! i \<in> files_below fs src" using ps(2) nth_mem by blast
    from vis [OF this list_all2_nthD [OF ps(1) l]] i(2) show ?r by (auto split: if_splits)
  next
    assume ?r
    then obtain b m where f: "map_of fs (src @ SLASH # mf_path f) = Some (File b m)" "plain_segs (split_on SLASH (mf_path f))"
      "mf_path f \<noteq> skills_manifest_name" "mf_path f \<noteq> skills_signature_name"
      "f = \<lparr> mf_path = mf_path f, mf_hash = sha256_text sha b, mf_mode = m mod 512, mf_size = int (length b) \<rparr>" by blast
    have "below (split_on SLASH (mf_path f)) = SLASH # mf_path f" using below_join [of "split_on SLASH (mf_path f)"] by (simp add: join_split)
    then have "src @ SLASH # mf_path f \<in> set ps"
      using f(1,2) ps(2) by (auto simp: files_below_def plain_segs_def is_file_def intro!: exI [of _ "split_on SLASH (mf_path f)"])
    then obtain i where i: "i < length ps" "ps ! i = src @ SLASH # mf_path f" by (auto simp: in_set_conv_nth)
    have "ps ! i \<in> files_below fs src" using i(1) ps(2) nth_mem by blast
    from vis [OF this list_all2_nthD [OF ps(1) i(1)]] f i(2) have "found ! i = Some f" by auto
    then show "Some f \<in> set found" using i(1) list_all2_lengthD [OF ps(1)] by (metis nth_mem)
  qed
qed

lemma check_skill_files_none:
  assumes "\<And>f. f \<in> set mfs \<Longrightarrow> mf_path f \<noteq> skills_manifest_name \<and> mf_path f \<noteq> skills_signature_name
    \<and> (\<exists>b. file_data fs (join2 root (mf_path f)) = Some b \<and> sha256_text sha b = mf_hash f)"
  shows "check_skill_files sha no_faults fs root mfs = None"
  using assms
proof (induction mfs)
  case (Cons f mfs)
  from Cons.prems [of f] obtain b where b: "file_data fs (join2 root (mf_path f)) = Some b" "sha256_text sha b = mf_hash f"
    "mf_path f \<noteq> skills_manifest_name" "mf_path f \<noteq> skills_signature_name" by auto
  then have "cs_hash_file sha no_faults fs (join2 root (mf_path f)) = ok (mf_hash f, int (length b))"
    by (simp add: cs_hash_file_def file_data_read del: join_path.simps)
  then show ?case using Cons b by (simp del: join_path.simps)
qed simp

lemma reserved_paths:
  assumes "proper_dir src"
  shows "join2 src skills_manifest_name = src @ SLASH # skills_manifest_name" "join2 src skills_signature_name = src @ SLASH # skills_signature_name"
    "skills_manifest_name \<noteq> skills_signature_name"
proof -
  have "plain_name skills_manifest_name" "plain_name skills_signature_name" by code_simp+
  then show "join2 src skills_manifest_name = src @ SLASH # skills_manifest_name" "join2 src skills_signature_name = src @ SLASH # skills_signature_name"
    using join2_child [OF assms] by blast+
  show "skills_manifest_name \<noteq> skills_signature_name" by code_simp
qed

lemma mfile_ok_listed:
  assumes "portable_tree src fs" "map_of fs (src @ SLASH # path) = Some (File b m)"
  shows "mfile_ok \<lparr> mf_path = path, mf_hash = sha256_text sha b, mf_mode = m mod 512, mf_size = int (length b) \<rparr>"
proof -
  have "m mod 512 < 2 ^ 32" by (rule less_le_trans [of _ 512]) simp_all
  then show ?thesis
    using portable_file [OF assms] hash_text_utf8 by (simp add: mfile_ok_def in_int64_def min_int64_def max_int64_def)
qed

lemma signed_manifest:
  assumes "fs_tree fs" "proper_dir src" "is_dir fs src" "walk_root (sign_visit sha flt fs src) flt fs src = ok found"
  defines "mfs \<equiv> sort_slice (\<lambda>a b. mf_path a < mf_path b) (List.map_filter id found)"
  shows "f \<in> set mfs \<longleftrightarrow> (\<exists>b m. map_of fs (src @ SLASH # mf_path f) = Some (File b m) \<and> plain_segs (split_on SLASH (mf_path f))
      \<and> mf_path f \<noteq> skills_manifest_name \<and> mf_path f \<noteq> skills_signature_name
      \<and> f = \<lparr> mf_path = mf_path f, mf_hash = sha256_text sha b, mf_mode = m mod 512, mf_size = int (length b) \<rparr>)"
    "mf_path ` set mfs = {path. plain_segs (split_on SLASH path) \<and> is_file fs (src @ SLASH # path)
         \<and> path \<notin> {skills_manifest_name, skills_signature_name}}" (is "_ = ?P")
    "portable_tree src fs \<Longrightarrow> f \<in> set mfs \<Longrightarrow> mfile_ok f"
proof -
  have mem: "f \<in> set mfs \<longleftrightarrow> (\<exists>b m. map_of fs (src @ SLASH # mf_path f) = Some (File b m) \<and> plain_segs (split_on SLASH (mf_path f))
      \<and> mf_path f \<noteq> skills_manifest_name \<and> mf_path f \<noteq> skills_signature_name
      \<and> f = \<lparr> mf_path = mf_path f, mf_hash = sha256_text sha b, mf_mode = m mod 512, mf_size = int (length b) \<rparr>)" for f
    using signed_files [OF assms(1-4), of f] by (simp add: mfs_def set_map_filter_id)
  then show "f \<in> set mfs \<longleftrightarrow> (\<exists>b m. map_of fs (src @ SLASH # mf_path f) = Some (File b m) \<and> plain_segs (split_on SLASH (mf_path f))
      \<and> mf_path f \<noteq> skills_manifest_name \<and> mf_path f \<noteq> skills_signature_name
      \<and> f = \<lparr> mf_path = mf_path f, mf_hash = sha256_text sha b, mf_mode = m mod 512, mf_size = int (length b) \<rparr>)" .
  show "mf_path ` set mfs = ?P"
  proof (intro set_eqI iffI)
    fix path assume p: "path \<in> ?P"
    then obtain b md where "map_of fs (src @ SLASH # path) = Some (File b md)" by (auto simp: is_file_def split: option.splits fnode.splits)
    then have "\<lparr> mf_path = path, mf_hash = sha256_text sha b, mf_mode = md mod 512, mf_size = int (length b) \<rparr> \<in> set mfs"
      using p unfolding mem by auto
    from imageI [OF this, of mf_path] show "path \<in> mf_path ` set mfs" by simp
  qed (use mem in \<open>auto simp: is_file_def\<close>)
  show "mfile_ok f" if "portable_tree src fs" "f \<in> set mfs" using that(2) mfile_ok_listed [OF that(1)] unfolding mem by metis
qed

text \<open>C36. What \<open>SignDir\<close> signed, for a tree whose file names are UTF-8 without colon or backslash and a bundle id that is UTF-8, a
  puller that pins the signer's public key accepts, with the manifest that was signed; that manifest lists exactly the files of the
  tree other than the two it is stored in.\<close>

theorem sign_verify:
  assumes "fs_tree fs" "proper_dir src" "is_dir fs src" "portable_tree src fs" "valid_utf8 bid" "time_ok (to_utc now)"
    and "sign_dir sign sha now flt priv fs src bid = ok (m, fs')"
    and "length priv = 64" "\<And>msg. vrfy (signer_public priv) msg (sign priv msg)"
    and "bundle_root p = src" "pu_pub_key p = encode_pub_key (signer_public priv)"
  shows "verify_on_disk vrfy sha no_faults p fs' = ok m \<and> cm_bundle_id m = bid
    \<and> mf_path ` set (cm_files m) = {path. plain_segs (split_on SLASH path) \<and> is_file fs (src @ SLASH # path)
         \<and> path \<notin> {skills_manifest_name, skills_signature_name}}"
proof -
  let ?mb = "marshal_indent (manifest_members m)"
  note rp = reserved_paths [OF assms(2)]
  from assms(7) obtain found fs1 where s: "walk_root (sign_visit sha flt fs src) flt fs src = ok found"
    "m = \<lparr> cm_bundle_id = bid, cm_created_at = to_utc now, cm_files = sort_slice (\<lambda>a b. mf_path a < mf_path b) (List.map_filter id found) \<rparr>"
    "os_write_file flt fs (src @ SLASH # skills_manifest_name) ?mb mode_0644 = ok fs1"
    "os_write_file flt fs1 (src @ SLASH # skills_signature_name) (b64_enc (sign priv ?mb)) mode_0644 = ok fs'"
    by (auto simp: sign_dir_def Let_def rp simp del: join_path.simps split: sum.splits prod.splits if_splits)
  have cm: "cm_files m = sort_slice (\<lambda>a b. mf_path a < mf_path b) (List.map_filter id found)" by (simp add: s(2))
  note files = signed_manifest [OF assms(1-3) s(1), folded cm]
  have md: "file_data fs' (src @ SLASH # skills_manifest_name) = Some ?mb"
    using write_file_ok [OF s(3)] write_file_other [OF disjI1 [OF s(4)]] rp(3) by (simp add: file_data_def)
  have sd: "file_data fs' (src @ SLASH # skills_signature_name) = Some (b64_enc (sign priv ?mb))" by (rule write_file_ok [OF s(4)])
  have other: "file_data fs' (src @ SLASH # path) = file_data fs (src @ SLASH # path)"
    if "path \<noteq> skills_manifest_name" "path \<noteq> skills_signature_name" for path
    using that write_file_other [OF disjI1 [OF s(3)]] write_file_other [OF disjI1 [OF s(4)]] by (simp add: file_data_def)
  have "manifest_ok m"
    using files(3) [OF assms(4)] assms(5,6) s(2) by (simp add: manifest_ok_def list_all_iff)
  note dec = manifest_decode [OF this]
  have chk: "check_skill_files sha no_faults fs' src (cm_files m) = None"
  proof (rule check_skill_files_none)
    fix f assume "f \<in> set (cm_files m)"
    then obtain b md where f: "map_of fs (src @ SLASH # mf_path f) = Some (File b md)" "plain_segs (split_on SLASH (mf_path f))"
      "mf_path f \<noteq> skills_manifest_name" "mf_path f \<noteq> skills_signature_name"
      "f = \<lparr> mf_path = mf_path f, mf_hash = sha256_text sha b, mf_mode = md mod 512, mf_size = int (length b) \<rparr>" using files(1) by blast
    have "mf_hash f = sha256_text sha b" by (subst f(5)) simp
    moreover have "join2 src (mf_path f) = src @ SLASH # mf_path f"
      using join_below [OF assms(2) f(2)] below_join [of "split_on SLASH (mf_path f)"] by (simp add: join_split del: join_path.simps)
    ultimately show "mf_path f \<noteq> skills_manifest_name \<and> mf_path f \<noteq> skills_signature_name
        \<and> (\<exists>b. file_data fs' (join2 src (mf_path f)) = Some b \<and> sha256_text sha b = mf_hash f)"
      using f(1,3,4) other by (simp add: file_data_def del: join_path.simps)
  qed
  have key: "decode_pub_key (pu_pub_key p) = ok (signer_public priv)"
  proof -
    have l: "length (signer_public priv) = 32" using assms(8) by (simp add: signer_public_def)
    then have "b64_enc (signer_public priv) \<noteq> []" by auto
    then show ?thesis by (simp only: decode_pub_key_def assms(11) encode_pub_key_def signature_text l option.case if_False if_True simp_thms)
  qed
  have "verify_on_disk vrfy sha no_faults p fs' = ok m"
    unfolding verify_on_disk_def assms(10) rp key file_data_read [OF md] file_data_read [OF sd]
    by (simp add: signature_text assms(9) dec chk del: join_path.simps)
  then show ?thesis using files(2) s(2) by simp
qed

section \<open>A signed path is not confined\<close>

text \<open>The checkout \<open>/w/r\<close> with the bundle in \<open>/w/r/s\<close>; the manifest lists one file.\<close>

definition demo_puller :: puller where
  "demo_puller = \<lparr> pu_git_url = ''u'', pu_branch = [], pu_pub_key = b64_enc (replicate 32 CHR ''k''), pu_skills_dir = ''s'', pu_local_dir = ''/w/r'' \<rparr>"

definition demo_listed :: "string \<Rightarrow> skill_manifest" where
  "demo_listed path = \<lparr> cm_bundle_id = ''v1'', cm_created_at = zero_time,
     cm_files = [\<lparr> mf_path = path, mf_hash = ''sha256:'', mf_mode = 420, mf_size = 1 \<rparr>] \<rparr>"

definition demo_store :: "bytes \<Rightarrow> fs" where
  "demo_store mb = [(''/'', Dir 493), (''/w/r/s/.skills-manifest.json'', File mb 420), (''/w/r/s/.skills-signature'', File [] 420),
     (''/w/r/s/a'', File ''one'' 420), (''/w/r/x'', File ''new'' 420)]"

lemma demo_root: "bundle_root demo_puller = ''/w/r/s''"
proof -
  have "join2 ''/w/r'' ''s'' = ''/w/r/s''" by code_simp
  then show ?thesis by (simp only: bundle_root_def demo_puller_def puller.simps)
qed

lemma demo_paths: "join2 ''/w/r/s'' skills_manifest_name = ''/w/r/s/.skills-manifest.json''"
  "join2 ''/w/r/s'' skills_signature_name = ''/w/r/s/.skills-signature''" "join2 ''/w/r/s'' ''a'' = ''/w/r/s/a''"
  "join2 ''/w/r/s'' ''../x'' = ''/w/r/x''" "join2 ''/d'' ''a'' = ''/d/a''" "join2 ''/d'' ''../x'' = ''/x''"
  by code_simp+

lemma demo_listed_decodes:
  assumes "path = ''a'' \<or> path = ''../x''"
  shows "unmarshal_with manifest_of_members (marshal_indent (manifest_members (demo_listed path))) = ok (demo_listed path)"
proof (rule manifest_decode)
  have "valid_utf8 ''v1''" "valid_utf8 ''a''" "valid_utf8 ''../x''" "valid_utf8 ''sha256:''" by (rule valid_utf8_ascii, auto simp: byte_def)+
  then show "manifest_ok (demo_listed path)"
    using assms by (auto simp: manifest_ok_def demo_listed_def mfile_ok_def in_int64_def min_int64_def max_int64_def)
qed

lemma demo_verifies:
  assumes "path = ''a'' \<or> path = ''../x''"
  defines "mb \<equiv> marshal_indent (manifest_members (demo_listed path))"
  shows "verify_on_disk one_vrfy one_sha no_faults demo_puller (demo_store mb) = ok (demo_listed path)"
proof -
  have key: "decode_pub_key (pu_pub_key demo_puller) = ok (replicate 32 CHR ''k'')"
  proof -
    have "b64_enc (replicate 32 CHR ''k'') \<noteq> []" by simp
    then show ?thesis using signature_text [of "replicate 32 CHR ''k''"] by (simp only: decode_pub_key_def demo_puller_def puller.simps if_False option.case length_replicate if_True simp_thms)
  qed
  have sig: "b64_dec [] = Some []" by (simp add: b64_dec_def)
  have "check_skill_files one_sha no_faults (demo_store mb) ''/w/r/s'' (cm_files (demo_listed path)) = None"
    using assms(1) demo_paths(3,4)
    by (auto simp: demo_listed_def cs_hash_file_def os_read_file_def demo_store_def sha256_text_def hex_encode_def
        skills_manifest_name_def skills_signature_name_def simp del: join_path.simps)
  then show ?thesis
    using key sig demo_listed_decodes [OF assms(1)]
    by (simp add: verify_on_disk_def demo_root demo_paths os_read_file_def demo_store_def mb_def del: join_path.simps)
qed

lemma demo_apply:
  "\<exists>fs'. skill_apply one_vrfy one_sha no_faults (\<lambda>_. [''0'']) demo_puller ''/d'' (demo_store (marshal_indent (manifest_members (demo_listed ''a'')))) = ok ((1, 0), fs')
     \<and> file_data fs' ''/d/a'' = Some ''one''"
proof -
  define mb where "mb = marshal_indent (manifest_members (demo_listed ''a''))"
  have "ancestors ''/d'' = [''/d'']" "dir_path ''/d/a'' = ''/d''" "base_path ''/d/a'' = ''a''" "join2 ''/d'' (''a.tmp-'' @ ''0'') = ''/d/a.tmp-0''"
    by code_simp+
  then show ?thesis
    unfolding mb_def [symmetric] skill_apply_def demo_verifies [of "''a''", simplified, folded mb_def] demo_root
    by (simp add: demo_listed_def demo_paths demo_store_def cs_hash_file_def copy_file_atomic_def create_temp_def open_stream_def
        os_defs os_chmod_def fs_obs_defs sha256_text_def hex_encode_def delete_conv del: join_path.simps)
qed

theorem skill_apply_atomic_witness:
  "\<exists>fs' m. skill_apply one_vrfy one_sha no_faults (\<lambda>_. [''0'']) demo_puller ''/d'' (demo_store (marshal_indent (manifest_members (demo_listed ''a''))))
       = ok ((1, 0), fs') \<and> file_data fs' ''/d/a'' = Some ''one''
     \<and> verify_on_disk one_vrfy one_sha no_faults demo_puller (demo_store (marshal_indent (manifest_members (demo_listed ''a'')))) = ok m
     \<and> list_all (\<lambda>f. holds_listed one_sha ''/d'' (cm_files m) fs' (join2 ''/d'' (mf_path f))) (cm_files m)"
proof -
  define fs where "fs = demo_store (marshal_indent (manifest_members (demo_listed ''a'')))"
  obtain fs' where run: "skill_apply one_vrfy one_sha no_faults (\<lambda>_. [''0'']) demo_puller ''/d'' fs = ok ((1, 0), fs')" "file_data fs' ''/d/a'' = Some ''one''"
    using demo_apply unfolding fs_def by blast
  have v: "verify_on_disk one_vrfy one_sha no_faults demo_puller fs = ok (demo_listed ''a'')"
    unfolding fs_def by (rule demo_verifies) simp
  have ap: "apart (bundle_root demo_puller) ''/d'' (cm_files m)" if "verify_on_disk one_vrfy one_sha no_faults demo_puller fs = ok m" for m
  proof -
    have "m = demo_listed ''a''" using that v by simp
    then show ?thesis using demo_paths by (simp add: apart_def demo_listed_def demo_root del: join_path.simps)
  qed
  have "skill_apply one_vrfy one_sha no_faults (\<lambda>_. [''0'']) demo_puller ''/d'' fs = (if True then ok ((1, 0), fs') else err ((SkCopy [], 0, 0), fs'))"
    using run(1) by simp
  from skill_apply_atomic [OF this ap] obtain m where "verify_on_disk one_vrfy one_sha no_faults demo_puller fs = ok m"
    "list_all (\<lambda>f. holds_listed one_sha ''/d'' (cm_files m) fs' (join2 ''/d'' (mf_path f))) (cm_files m)" by (simp del: join_path.simps) blast
  then show ?thesis using run unfolding fs_def by blast
qed

text \<open>A manifest path is joined to the destination as it is: a signed entry \<open>../x\<close> is written
  outside of it, where the config bundles refuse such a path.\<close>

theorem skill_apply_escapes:
  "\<exists>fs'. skill_apply one_vrfy one_sha no_faults (\<lambda>_. [''0'']) demo_puller ''/d'' (demo_store (marshal_indent (manifest_members (demo_listed ''../x''))))
       = ok ((1, 0), fs') \<and> file_data fs' ''/x'' = Some ''new''
     \<and> file_data (demo_store (marshal_indent (manifest_members (demo_listed ''../x'')))) ''/x'' = None \<and> validate_manifest_path ''../x'' \<noteq> None"
proof -
  define mb where "mb = marshal_indent (manifest_members (demo_listed ''../x''))"
  have "ancestors ''/d'' = [''/d'']" "ancestors ''/'' = []" "dir_path ''/x'' = ''/''" "base_path ''/x'' = ''x''" "join2 ''/'' (''x.tmp-'' @ ''0'') = ''/x.tmp-0''"
    "validate_manifest_path ''../x'' \<noteq> None"
    by code_simp+
  then show ?thesis
    unfolding mb_def [symmetric] skill_apply_def demo_verifies [of "''../x''", simplified, folded mb_def] demo_root
    by (simp add: demo_listed_def demo_paths demo_store_def cs_hash_file_def copy_file_atomic_def create_temp_def open_stream_def
        os_defs os_chmod_def fs_obs_defs sha256_text_def hex_encode_def delete_conv Let_def del: join_path.simps)
qed

section \<open>A tree signed and verified\<close>

definition sign_puller :: puller where
  "sign_puller = \<lparr> pu_git_url = ''u'', pu_branch = [], pu_pub_key = encode_pub_key (signer_public (replicate 64 CHR ''k'')),
     pu_skills_dir = [], pu_local_dir = ''/s'' \<rparr>"

lemma sign_succeeds:
  assumes "proper_dir src" "is_dir fs src" "isl (walk_root (sign_visit sha no_faults fs src) no_faults fs src) = False" "time_ok (to_utc now)"
    "\<not> is_dir fs (src @ SLASH # skills_manifest_name)" "\<not> is_dir fs (src @ SLASH # skills_signature_name)"
  shows "\<exists>m fs'. sign_dir sign sha now no_faults priv fs src bid = ok (m, fs')"
proof -
  note rp = reserved_paths [OF assms(1)]
  have dp: "dir_path (src @ SLASH # skills_manifest_name) = src" "dir_path (src @ SLASH # skills_signature_name) = src"
    by (rule dir_path_child [OF assms(1)], code_simp)+
  obtain found where w: "walk_root (sign_visit sha no_faults fs src) no_faults fs src = ok found"
    using assms(3) by (cases "walk_root (sign_visit sha no_faults fs src) no_faults fs src") auto
  define m where "m = \<lparr> cm_bundle_id = bid, cm_created_at = to_utc now, cm_files = sort_slice (\<lambda>a b. mf_path a < mf_path b) (List.map_filter id found) \<rparr>"
  define mb where "mb = marshal_indent (manifest_members m)"
  obtain fs1 where w1: "os_write_file no_faults fs (src @ SLASH # skills_manifest_name) mb mode_0644 = ok fs1"
    using write_file_succeeds [of fs "src @ SLASH # skills_manifest_name" mb mode_0644] assms(2,5) dp by auto
  have "map_of fs1 src = map_of fs src" "map_of fs1 (src @ SLASH # skills_signature_name) = map_of fs (src @ SLASH # skills_signature_name)"
    by (rule write_file_other [OF disjI1 [OF w1]], use rp(3) in simp)+
  then have "is_dir fs1 (dir_path (src @ SLASH # skills_signature_name))" "\<not> is_dir fs1 (src @ SLASH # skills_signature_name)"
    using assms(2,6) by (simp_all add: dp is_dir_def)
  from write_file_succeeds [OF this] obtain fs2 where
    w2: "os_write_file no_faults fs1 (src @ SLASH # skills_signature_name) (b64_enc (sign priv mb)) mode_0644 = ok fs2" by blast
  have "sign_dir sign sha now no_faults priv fs src bid = ok (m, fs2)"
    unfolding sign_dir_def rp w Let_def m_def [symmetric] mb_def [symmetric] sum.case w1 w2 using time_ok_json [OF assms(4)] by (simp add: m_def)
  then show ?thesis by blast
qed

theorem sign_verify_witness:
  "\<exists>m fs'. sign_dir demo_sign (take 1) (time_utc 0) no_faults (replicate 64 CHR ''k'') demo_fs ''/s'' ''v1'' = ok (m, fs')
     \<and> verify_on_disk demo_vrfy (take 1) no_faults sign_puller fs' = ok m \<and> mf_path ` set (cm_files m) = {''a'', ''d/b''}"
proof -
  have w: "isl (walk_root (sign_visit (take 1) no_faults demo_fs ''/s'') no_faults demo_fs ''/s'') = False"
    "\<not> is_dir demo_fs (''/s'' @ SLASH # skills_manifest_name)" "\<not> is_dir demo_fs (''/s'' @ SLASH # skills_signature_name)" by code_simp+
  obtain m fs' where s: "sign_dir demo_sign (take 1) (time_utc 0) no_faults (replicate 64 CHR ''k'') demo_fs ''/s'' ''v1'' = ok (m, fs')"
    using sign_succeeds [OF demo_tree(2,3) w(1) demo_time w(2,3)] by blast
  have r: "bundle_root sign_puller = ''/s''"
  proof -
    have "join2 ''/s'' [] = ''/s''" by code_simp
    then show ?thesis by (simp only: bundle_root_def sign_puller_def puller.simps)
  qed
  have k: "pu_pub_key sign_puller = encode_pub_key (signer_public (replicate 64 CHR ''k''))" by (simp add: sign_puller_def)
  note v = sign_verify [OF demo_tree(1-3) demo_portable demo_names(4) demo_time s, of demo_vrfy sign_puller, OF length_replicate TrueI r k]
  have "{path. plain_segs (split_on SLASH path) \<and> is_file demo_fs (''/s'' @ SLASH # path) \<and> path \<notin> {skills_manifest_name, skills_signature_name}} = {''a'', ''d/b''}"
  proof (intro set_eqI iffI)
    fix path assume "path \<in> {path. plain_segs (split_on SLASH path) \<and> is_file demo_fs (''/s'' @ SLASH # path) \<and> path \<notin> {skills_manifest_name, skills_signature_name}}"
    then show "path \<in> {''a'', ''d/b''}" by (auto simp: is_file_def demo_fs_def split: if_splits)
  next
    fix path assume "path \<in> {''a'', ''d/b''}"
    moreover have "plain_segs (split_on SLASH ''a'')" "plain_segs (split_on SLASH ''d/b'')" by code_simp+
    ultimately show "path \<in> {path. plain_segs (split_on SLASH path) \<and> is_file demo_fs (''/s'' @ SLASH # path) \<and> path \<notin> {skills_manifest_name, skills_signature_name}}"
      by (auto simp: is_file_def demo_fs_def skills_manifest_name_def skills_signature_name_def)
  qed
  from trans [OF conjunct2 [OF conjunct2 [OF v]] this] s conjunct1 [OF v] show ?thesis by blast
qed

end
