(* ===== verification/Alerting.thy ===== *)
theory Alerting
  imports Go_Store
begin

text \<open>
  Alerts, \<open>internal/alerting/alerting.go\<close> and \<open>fleetctl alert\<close>
  (\<open>cmd/fleetctl/commands/alert.go\<close>): the router and the backends PagerDuty, OpsGenie and ntfy.
  A backend is a value of the Go interface \<open>Backend\<close>: its name, the severities it handles and
  its \<open>Send\<close>, which acts on a state of the outside world.  For the three backends of the
  program that state is the list of HTTP requests sent so far, and an environment answers: it says
  whether a URL makes a request at all and what the client's \<open>Do\<close> returns, which may depend on
  every request before.
\<close>

declare json_print.simps(3) [simp del]

section \<open>Router\<close>

definition sev_critical :: string where "sev_critical = ''critical''"
definition sev_warning :: string where "sev_warning = ''warning''"
definition sev_info :: string where "sev_info = ''info''"

record alert =
  al_severity :: string
  al_title :: string
  al_body :: string
  al_source :: string
  al_dedup :: string
  al_labels :: "(string \<times> string) list option"
  al_occurred_at :: gtime

record 'w backend =
  bk_name :: string
  bk_handles :: "string \<Rightarrow> bool"
  bk_send :: "alert \<Rightarrow> 'w \<Rightarrow> 'w \<times> string option"

type_synonym 'w router = "'w backend list"

definition new_router :: "'w router" where "new_router = []"

definition add_backend :: "'w router \<Rightarrow> 'w backend \<Rightarrow> 'w router" where
  "add_backend r b = r @ [b]"

definition router_backends :: "'w router \<Rightarrow> string list" where
  "router_backends r = map bk_name r"

fun fire_all :: "'w backend list \<Rightarrow> alert \<Rightarrow> string option \<Rightarrow> 'w \<Rightarrow> 'w \<times> string option" where
  "fire_all [] a first_err w = (w, first_err)"
| "fire_all (b # bs) a first_err w =
     (if \<not> bk_handles b (al_severity a) then fire_all bs a first_err w
      else (case bk_send b a w of
              (w', Some e) \<Rightarrow> fire_all bs a (if first_err = None then Some (bk_name b @ '': '' @ e) else first_err) w'
            | (w', None) \<Rightarrow> fire_all bs a first_err w'))"

definition router_fire :: "gtime \<Rightarrow> 'w router \<Rightarrow> alert \<Rightarrow> 'w \<Rightarrow> 'w \<times> string option" where
  "router_fire now r a w =
     fire_all r (if is_zero_time (al_occurred_at a) then a\<lparr> al_occurred_at := to_utc now \<rparr> else a) None w"

section \<open>HTTP\<close>

record http_req =
  rq_url :: string
  rq_headers :: "(string \<times> string) list"
  rq_body :: bytes

record http_env =
  he_new :: "string \<Rightarrow> string option"
  he_do :: "http_req list \<Rightarrow> http_req \<Rightarrow> (string, int \<times> bytes) result"

definition do_request :: "http_env \<Rightarrow> http_req \<Rightarrow> http_req list \<Rightarrow> http_req list \<times> string option" where
  "do_request env r sent =
     (sent @ [r],
      (case he_do env sent r of
         Inl e \<Rightarrow> Some e
       | Inr (status, body) \<Rightarrow> if 400 \<le> status then Some (''http '' @ itoa status @ '': '' @ body) else None))"

definition send_request :: "http_env \<Rightarrow> http_req \<Rightarrow> http_req list \<Rightarrow> http_req list \<times> string option" where
  "send_request env r sent =
     (case he_new env (rq_url r) of Some e \<Rightarrow> (sent, Some e) | None \<Rightarrow> do_request env r sent)"

definition json_header :: "string \<times> string" where
  "json_header = (''Content-Type'', ''application/json'')"

definition post_json :: "http_env \<Rightarrow> string \<Rightarrow> jtree \<Rightarrow> http_req list \<Rightarrow> http_req list \<times> string option" where
  "post_json env url body = send_request env \<lparr> rq_url = url, rq_headers = [json_header], rq_body = json_print body \<rparr>"

section \<open>Backends\<close>

definition pd_severity :: "string \<Rightarrow> string" where
  "pd_severity s = (if s = sev_critical then ''critical'' else if s = sev_warning then ''warning'' else ''info'')"

text \<open>Maps are printed with their keys sorted; a nil map is \<open>null\<close>.\<close>

definition labels_json :: "(string \<times> string) list option \<Rightarrow> jtree" where
  "labels_json ls = (case ls of None \<Rightarrow> JNull | Some kvs \<Rightarrow> JObj (map (\<lambda>(k, v). (k, JStr v)) (sort_key fst kvs)))"

definition pd_body :: "string \<Rightarrow> alert \<Rightarrow> jtree" where
  "pd_body key a =
     JObj [(''dedup_key'', JStr (al_dedup a)), (''event_action'', JStr ''trigger''),
       (''payload'', JObj [(''custom_details'', JObj [(''body'', JStr (al_body a)), (''labels'', labels_json (al_labels a))]),
          (''severity'', JStr (pd_severity (al_severity a))), (''source'', JStr (al_source a)), (''summary'', JStr (al_title a))]),
       (''routing_key'', JStr key)]"

definition pd_endpoint :: string where "pd_endpoint = ''https://events.pagerduty.com/v2/enqueue''"

definition pd_send :: "http_env \<Rightarrow> string \<Rightarrow> string \<Rightarrow> alert \<Rightarrow> http_req list \<Rightarrow> http_req list \<times> string option" where
  "pd_send env key endpoint a = post_json env endpoint (pd_body key a)"

definition new_pagerduty :: "http_env \<Rightarrow> string \<Rightarrow> http_req list backend" where
  "new_pagerduty env key =
     \<lparr> bk_name = ''pagerduty'', bk_handles = (\<lambda>s. s = sev_critical), bk_send = pd_send env key pd_endpoint \<rparr>"

definition og_body :: "alert \<Rightarrow> jtree" where
  "og_body a =
     JObj [(''alias'', JStr (al_dedup a)), (''description'', JStr (al_body a)), (''message'', JStr (al_title a)),
       (''priority'', JStr ''P1''), (''source'', JStr (al_source a))]"

definition og_endpoint :: string where "og_endpoint = ''https://api.opsgenie.com/v2/alerts''"

definition og_request :: "string \<Rightarrow> string \<Rightarrow> alert \<Rightarrow> http_req" where
  "og_request key endpoint a =
     \<lparr> rq_url = endpoint, rq_headers = [(''Authorization'', ''GenieKey '' @ key), json_header], rq_body = json_print (og_body a) \<rparr>"

definition og_send :: "http_env \<Rightarrow> string \<Rightarrow> string \<Rightarrow> alert \<Rightarrow> http_req list \<Rightarrow> http_req list \<times> string option" where
  "og_send env key endpoint a = send_request env (og_request key endpoint a)"

definition new_opsgenie :: "http_env \<Rightarrow> string \<Rightarrow> http_req list backend" where
  "new_opsgenie env key =
     \<lparr> bk_name = ''opsgenie'', bk_handles = (\<lambda>s. s = sev_critical), bk_send = og_send env key og_endpoint \<rparr>"

definition ntfy_priority :: "string \<Rightarrow> string" where
  "ntfy_priority s = (if s = sev_critical then ''urgent'' else if s = sev_warning then ''high'' else ''default'')"

definition alert_severity_rank :: "string \<Rightarrow> nat" where
  "alert_severity_rank s = (if s = sev_critical then 3 else if s = sev_warning then 2 else 1)"

definition ntfy_handles :: "string \<Rightarrow> string \<Rightarrow> bool" where
  "ntfy_handles min_severity s \<longleftrightarrow> alert_severity_rank min_severity \<le> alert_severity_rank s"

definition ntfy_request :: "string \<Rightarrow> alert \<Rightarrow> http_req" where
  "ntfy_request topic a =
     \<lparr> rq_url = topic, rq_headers = [(''Title'', al_title a), (''Priority'', ntfy_priority (al_severity a))], rq_body = al_body a \<rparr>"

definition ntfy_send :: "http_env \<Rightarrow> string \<Rightarrow> alert \<Rightarrow> http_req list \<Rightarrow> http_req list \<times> string option" where
  "ntfy_send env topic a sent =
     (if topic = [] then (sent, Some ''ntfy: topic URL not set'') else send_request env (ntfy_request topic a) sent)"

definition new_ntfy :: "http_env \<Rightarrow> string \<Rightarrow> http_req list backend" where
  "new_ntfy env topic =
     \<lparr> bk_name = ''ntfy'', bk_handles = ntfy_handles sev_info, bk_send = ntfy_send env topic \<rparr>"

section \<open>The alert command\<close>

text \<open>\<open>getenv\<close> returns the empty string for a variable that is not set.\<close>

definition build_alert_router :: "http_env \<Rightarrow> (string \<Rightarrow> string) \<Rightarrow> http_req list router" where
  "build_alert_router env getenv =
     (let k = getenv ''HERMES_PAGERDUTY_ROUTING_KEY'';
          g = getenv ''HERMES_OPSGENIE_API_KEY'';
          u = getenv ''HERMES_NTFY_URL'';
          r0 = new_router;
          r1 = (if k \<noteq> [] then add_backend r0 (new_pagerduty env k) else r0);
          r2 = (if g \<noteq> [] then add_backend r1 (new_opsgenie env g) else r1)
      in if u \<noteq> [] then add_backend r2 (new_ntfy env u) else r2)"

datatype alert_err = AlTitle | AlSeverity string | AlNoBackends | AlFire string

definition run_alert ::
  "gtime \<Rightarrow> http_req list router \<Rightarrow> string \<Rightarrow> string \<Rightarrow> string \<Rightarrow> string \<Rightarrow> string \<Rightarrow> http_req list
     \<Rightarrow> http_req list \<times> (alert_err, string list) result" where
  "run_alert now r title sev body src dedup sent =
     (if title = [] then (sent, err AlTitle)
      else if sev \<notin> set [sev_critical, sev_warning, sev_info] then (sent, err (AlSeverity sev))
      else if router_backends r = [] then (sent, err AlNoBackends)
      else (case router_fire now r \<lparr> al_severity = sev, al_title = title, al_body = body, al_source = src, al_dedup = dedup,
                    al_labels = None, al_occurred_at = zero_time \<rparr> sent of
              (sent', Some e) \<Rightarrow> (sent', err (AlFire e))
            | (sent', None) \<Rightarrow> (sent', ok (router_backends r))))"

section \<open>Every backend is attempted\<close>

text \<open>The reference: the backends that handle the severity, one after the other, each in the state
  the one before left, and the errors they return.\<close>

fun deliver :: "'w backend list \<Rightarrow> alert \<Rightarrow> 'w \<Rightarrow> 'w \<times> string list" where
  "deliver [] a w = (w, [])"
| "deliver (b # bs) a w =
     (case bk_send b a w of (w1, r) \<Rightarrow>
       (case deliver bs a w1 of (w2, es) \<Rightarrow>
          (w2, (case r of None \<Rightarrow> [] | Some e \<Rightarrow> [bk_name b @ '': '' @ e]) @ es)))"

definition handling :: "'w router \<Rightarrow> string \<Rightarrow> 'w backend list" where
  "handling r sev = filter (\<lambda>b. bk_handles b sev) r"

definition first_of :: "'a option \<Rightarrow> 'a list \<Rightarrow> 'a option" where
  "first_of x xs = (case x of Some _ \<Rightarrow> x | None \<Rightarrow> (case xs of [] \<Rightarrow> None | y # _ \<Rightarrow> Some y))"

lemma fire_all_deliver:
  "fire_all bs a x w = (fst (deliver (handling bs (al_severity a)) a w), first_of x (snd (deliver (handling bs (al_severity a)) a w)))"
  by (induction bs a x w rule: fire_all.induct)
     (auto simp: handling_def first_of_def split: prod.splits option.splits list.splits)

definition stamped_alert :: "gtime \<Rightarrow> alert \<Rightarrow> alert" where
  "stamped_alert now a = (if is_zero_time (al_occurred_at a) then a\<lparr> al_occurred_at := to_utc now \<rparr> else a)"

lemma stamped_alert_same [simp]:
  "al_severity (stamped_alert now a) = al_severity a" "al_title (stamped_alert now a) = al_title a"
  "al_body (stamped_alert now a) = al_body a" "al_source (stamped_alert now a) = al_source a"
  "al_dedup (stamped_alert now a) = al_dedup a" "al_labels (stamped_alert now a) = al_labels a"
  by (simp_all add: stamped_alert_def)

lemma router_fire_deliver:
  "router_fire now r a w =
     (case deliver (handling r (al_severity a)) (stamped_alert now a) w of (w', es) \<Rightarrow> (w', first_of None es))"
  by (simp add: router_fire_def fire_all_deliver stamped_alert_def split: prod.splits)

section \<open>The routing policy\<close>

text \<open>Requests do not show the time of the alert.\<close>

lemma pd_body_stamped [simp]: "pd_body k (stamped_alert now a) = pd_body k a"
  by (simp add: pd_body_def)

lemma og_request_stamped [simp]: "og_request k e (stamped_alert now a) = og_request k e a"
  by (simp add: og_request_def og_body_def)

lemma ntfy_request_stamped [simp]: "ntfy_request u (stamped_alert now a) = ntfy_request u a"
  by (simp add: ntfy_request_def)

lemma send_request_sent: "fst (send_request env r sent) = sent @ filter (\<lambda>r. he_new env (rq_url r) = None) [r]"
  by (simp add: send_request_def do_request_def split: option.splits)

definition pd_request :: "string \<Rightarrow> alert \<Rightarrow> http_req" where
  "pd_request key a = \<lparr> rq_url = pd_endpoint, rq_headers = [json_header], rq_body = json_print (pd_body key a) \<rparr>"

text \<open>What the comments of the package call the policy: pagers for critical alerts only, chat for
  all.\<close>

definition policy_requests :: "(string \<Rightarrow> string) \<Rightarrow> alert \<Rightarrow> http_req list" where
  "policy_requests getenv a =
     (if getenv ''HERMES_PAGERDUTY_ROUTING_KEY'' \<noteq> [] \<and> al_severity a = sev_critical
      then [pd_request (getenv ''HERMES_PAGERDUTY_ROUTING_KEY'') a] else [])
     @ (if getenv ''HERMES_OPSGENIE_API_KEY'' \<noteq> [] \<and> al_severity a = sev_critical
        then [og_request (getenv ''HERMES_OPSGENIE_API_KEY'') og_endpoint a] else [])
     @ (if getenv ''HERMES_NTFY_URL'' \<noteq> [] then [ntfy_request (getenv ''HERMES_NTFY_URL'') a] else [])"

lemma deliver_single: "deliver [b] a w = (fst (bk_send b a w), (case snd (bk_send b a w) of None \<Rightarrow> [] | Some e \<Rightarrow> [bk_name b @ '': '' @ e]))"
  by (simp split: prod.splits)

lemma deliver_append:
  "deliver (bs @ cs) a w = (case deliver bs a w of (w1, es) \<Rightarrow> (case deliver cs a w1 of (w2, es') \<Rightarrow> (w2, es @ es')))"
  by (induction bs arbitrary: w) (simp_all split: prod.splits)

lemma fst_deliver_append: "fst (deliver (bs @ cs) a w) = fst (deliver cs a (fst (deliver bs a w)))"
  by (simp add: deliver_append split: prod.splits)

lemma handling_append: "handling (r @ r') s = handling r s @ handling r' s"
  by (simp add: handling_def)

lemma ntfy_handles_all: "ntfy_handles sev_info s"
  by (simp add: ntfy_handles_def alert_severity_rank_def sev_info_def sev_critical_def sev_warning_def)

definition optional_backend :: "string \<Rightarrow> (string \<Rightarrow> 'w backend) \<Rightarrow> 'w router" where
  "optional_backend key mk = (if key \<noteq> [] then [mk key] else [])"

lemma router_parts:
  "build_alert_router env getenv =
     optional_backend (getenv ''HERMES_PAGERDUTY_ROUTING_KEY'') (new_pagerduty env)
     @ optional_backend (getenv ''HERMES_OPSGENIE_API_KEY'') (new_opsgenie env)
     @ optional_backend (getenv ''HERMES_NTFY_URL'') (new_ntfy env)"
  by (simp add: build_alert_router_def optional_backend_def new_router_def add_backend_def Let_def)

lemma part_sent:
  "fst (deliver (handling (optional_backend k (new_pagerduty env)) s) a w) =
     w @ filter (\<lambda>r. he_new env (rq_url r) = None) (if k \<noteq> [] \<and> s = sev_critical then [pd_request k a] else [])"
  "fst (deliver (handling (optional_backend k (new_opsgenie env)) s) a w) =
     w @ filter (\<lambda>r. he_new env (rq_url r) = None) (if k \<noteq> [] \<and> s = sev_critical then [og_request k og_endpoint a] else [])"
  "fst (deliver (handling (optional_backend k (new_ntfy env)) s) a w) =
     w @ filter (\<lambda>r. he_new env (rq_url r) = None) (if k \<noteq> [] then [ntfy_request k a] else [])"
  by (simp_all add: optional_backend_def handling_def deliver_single new_pagerduty_def new_opsgenie_def new_ntfy_def
      pd_send_def post_json_def og_send_def ntfy_send_def pd_request_def ntfy_handles_all send_request_sent del: deliver.simps(2))

text \<open>C21. An alert fired on the router that \<open>fleetctl alert\<close> and the watchdog build from the
  environment makes exactly the requests of the policy, in the order PagerDuty, OpsGenie, ntfy:
  pagers are called for critical alerts only and chat for all severities, whatever the earlier backends
  answer; a backend whose URL does not make a request is passed over.  The error returned is the first
  that a backend reported.\<close>

theorem fire_policy:
  "fst (router_fire now (build_alert_router env getenv) a sent) =
     sent @ filter (\<lambda>r. he_new env (rq_url r) = None) (policy_requests getenv a)
   \<and> snd (router_fire now (build_alert_router env getenv) a sent) =
     first_of None (snd (deliver (handling (build_alert_router env getenv) (al_severity a)) (stamped_alert now a) sent))"
proof
  have f: "fst (router_fire now (build_alert_router env getenv) a sent)
     = fst (deliver (handling (build_alert_router env getenv) (al_severity a)) (stamped_alert now a) sent)"
    by (simp add: router_fire_deliver split: prod.splits)
  show "fst (router_fire now (build_alert_router env getenv) a sent) = sent @ filter (\<lambda>r. he_new env (rq_url r) = None) (policy_requests getenv a)"
    unfolding f unfolding router_parts handling_append fst_deliver_append part_sent
    by (simp add: policy_requests_def pd_request_def)
  show "snd (router_fire now (build_alert_router env getenv) a sent) =
     first_of None (snd (deliver (handling (build_alert_router env getenv) (al_severity a)) (stamped_alert now a) sent))"
    by (simp add: router_fire_deliver split: prod.splits)
qed

end
