(* ===== verification/Fleet_Log.thy ===== *)
theory Fleet_Log
  imports Go_Store Go_Jsonl
begin

declare json_print.simps(3) [simp del]

text \<open>
  The action log, \<open>internal/log/log.go\<close>, and the reader of \<open>fleetctl audit\<close>
  (\<open>cmd/fleetctl/commands/audit.go\<close>): events as JSON lines, the logger over a file, and the scan
  that gives the events back.  \<open>now\<close> is the reading of \<open>time.Now\<close> an operation makes; the
  field \<open>lg_now\<close> is the logger's clock as a function of it, the identity unless
  \<open>SetClock\<close> replaced it.  The theorems say that every event an \<open>Action\<close> accepted is read
  back in its place, whatever its standard error was, because its tail is cut.
\<close>

section \<open>Events\<close>

definition log_results :: "string list" where
  "log_results = [''ok'', ''no-change'', ''error'', ''skipped'', ''warn'']"

definition result_valid :: "string \<Rightarrow> bool" where
  "result_valid r \<longleftrightarrow> r \<in> set log_results"

record log_event =
  le_ts :: gtime
  le_node :: string
  le_phase :: string
  le_action :: string
  le_result :: string
  le_duration_ms :: int
  le_stderr_tail :: string

definition event_members :: "log_event \<Rightarrow> (bytes \<times> jtree) list" where
  "event_members e =
     [(''ts'', JTime (le_ts e)), (''node'', JStr (le_node e)), (''phase'', JStr (le_phase e)),
      (''action'', JStr (le_action e)), (''result'', JStr (le_result e)), (''duration_ms'', JInt (le_duration_ms e))]
     @ omit_str ''stderr_tail'' (le_stderr_tail e)"

definition event_of_members :: "members \<Rightarrow> (json_err, log_event) result" where
  "event_of_members ms =
     (case get_field dec_time zero_time ms ''ts'' of Inl x \<Rightarrow> err x | Inr t \<Rightarrow>
     (case get_field dec_string [] ms ''node'' of Inl x \<Rightarrow> err x | Inr n \<Rightarrow>
     (case get_field dec_string [] ms ''phase'' of Inl x \<Rightarrow> err x | Inr p \<Rightarrow>
     (case get_field dec_string [] ms ''action'' of Inl x \<Rightarrow> err x | Inr a \<Rightarrow>
     (case get_field dec_string [] ms ''result'' of Inl x \<Rightarrow> err x | Inr r \<Rightarrow>
     (case get_field dec_int64 0 ms ''duration_ms'' of Inl x \<Rightarrow> err x | Inr d \<Rightarrow>
     (case get_field dec_string [] ms ''stderr_tail'' of Inl x \<Rightarrow> err x | Inr s \<Rightarrow>
        ok \<lparr> le_ts = t, le_node = n, le_phase = p, le_action = a, le_result = r, le_duration_ms = d,
             le_stderr_tail = s \<rparr>)))))))"

abbreviation event_line :: "log_event \<Rightarrow> bytes" where
  "event_line e \<equiv> marshal_compact (event_members e)"

definition max_stderr_tail :: nat where "max_stderr_tail = 4096"

section \<open>The logger\<close>

record logger =
  lg_w :: "path option"
  lg_closer :: bool
  lg_now :: "gtime \<Rightarrow> gtime"

datatype log_err = LgEmptyPath | LgMkdir path ioerr | LgOpen path ioerr | LgInvalid string | LgClosed | LgMarshal | LgWrite ioerr

text \<open>\<open>New\<close> keeps the writer as closer when it is an \<open>io.Closer\<close>.\<close>

definition log_new :: "path \<Rightarrow> bool \<Rightarrow> logger" where
  "log_new w is_closer = \<lparr> lg_w = Some w, lg_closer = is_closer, lg_now = (\<lambda>t. t) \<rparr>"

definition log_open :: "faults \<Rightarrow> fs \<Rightarrow> path \<Rightarrow> (log_err \<times> fs, logger \<times> fs) result" where
  "log_open flt fs p =
     (if p = [] then err (LgEmptyPath, fs)
      else (case os_mkdir_all flt fs (dir_path p) mode_0755 of
              Inl (e, fs') \<Rightarrow> err (LgMkdir (dir_path p) e, fs')
            | Inr fs1 \<Rightarrow> (case os_open_create flt False fs1 p mode_0644 of
                  Inl e \<Rightarrow> err (LgOpen p e, fs1)
                | Inr fs2 \<Rightarrow> ok (log_new p True, fs2))))"

definition log_close :: "faults \<Rightarrow> logger \<Rightarrow> ioerr option \<times> logger" where
  "log_close flt l =
     (if \<not> lg_closer l then (None, l)
      else ((case lg_w l of None \<Rightarrow> None
             | Some p \<Rightarrow> (case os_close flt p of Inl e \<Rightarrow> Some e | Inr _ \<Rightarrow> None)),
            l\<lparr> lg_closer := False, lg_w := None \<rparr>))"

definition set_clock :: "logger \<Rightarrow> (gtime \<Rightarrow> gtime) \<Rightarrow> logger" where
  "set_clock l now = l\<lparr> lg_now := now \<rparr>"

text \<open>The event that is written: a missing time filled in, the tail of the standard error cut to
  its last bytes.\<close>

definition log_fill :: "logger \<Rightarrow> gtime \<Rightarrow> log_event \<Rightarrow> log_event" where
  "log_fill l now e =
     (let e1 = (if is_zero_time (le_ts e) then e\<lparr> le_ts := to_utc (lg_now l now) \<rparr> else e);
          n = length (le_stderr_tail e1)
      in if max_stderr_tail < n then e1\<lparr> le_stderr_tail := drop (n - max_stderr_tail) (le_stderr_tail e1) \<rparr> else e1)"

definition log_action :: "faults \<Rightarrow> gtime \<Rightarrow> fs \<Rightarrow> logger \<Rightarrow> log_event \<Rightarrow> (log_err \<times> fs, fs) result" where
  "log_action flt now fs l e =
     (if \<not> result_valid (le_result e) then err (LgInvalid (le_result e), fs)
      else (case lg_w l of
              None \<Rightarrow> err (LgClosed, fs)
            | Some p \<Rightarrow>
                (let e' = log_fill l now e in
                 if \<not> time_json_ok (le_ts e') then err (LgMarshal, fs)
                 else (case os_write flt fs p (event_line e' @ [NL]) of
                         Inl (x, fs') \<Rightarrow> err (LgWrite x, fs')
                       | Inr fs' \<Rightarrow> ok fs'))))"

section \<open>Reading the log\<close>

text \<open>\<open>readJSONL\<close>: malformed lines are skipped; the error of the scanner comes with the events
  before the line it stopped at.\<close>

definition parse_event :: "bytes \<Rightarrow> log_event option" where
  "parse_event t =
     (let line = trim_space t
      in if line = [] then None
         else (case unmarshal_with event_of_members line of Inl _ \<Rightarrow> None | Inr ev \<Rightarrow> Some ev))"

definition read_jsonl :: "faults \<Rightarrow> fs \<Rightarrow> path \<Rightarrow> (ioerr, log_event list \<times> bool) result" where
  "read_jsonl flt fs p =
     (case os_read_file flt fs p of
        Inl e \<Rightarrow> err e
      | Inr b \<Rightarrow> (case scan_lines default_max_token b of (ls, tooLong) \<Rightarrow> ok (List.map_filter parse_event ls, tooLong)))"

section \<open>The stored form\<close>

lemma event_raws:
  defines "ms e \<equiv> printed (event_members e)"
  shows "field_raws (ms e) ''ts'' = [DQ # format_rfc3339nano (le_ts e) @ [DQ]]"
    "field_raws (ms e) ''node'' = [json_quote (le_node e)]"
    "field_raws (ms e) ''phase'' = [json_quote (le_phase e)]"
    "field_raws (ms e) ''action'' = [json_quote (le_action e)]"
    "field_raws (ms e) ''result'' = [json_quote (le_result e)]"
    "field_raws (ms e) ''duration_ms'' = [itoa (le_duration_ms e)]"
    "field_raws (ms e) ''stderr_tail'' = (if le_stderr_tail e = [] then [] else [json_quote (le_stderr_tail e)])"
  unfolding ms_def event_members_def printed_simps by (simp_all add: key_eval printed_simps)

text \<open>Decoding replaces invalid UTF-8 in the texts, and nothing else.\<close>

definition coerce_event :: "log_event \<Rightarrow> log_event" where
  "coerce_event e = e\<lparr> le_node := coerce (le_node e), le_phase := coerce (le_phase e), le_action := coerce (le_action e),
     le_result := coerce (le_result e), le_stderr_tail := coerce (le_stderr_tail e) \<rparr>"

definition event_ok :: "log_event \<Rightarrow> bool" where
  "event_ok e \<longleftrightarrow> time_ok (le_ts e) \<and> in_int64 (le_duration_ms e)"

lemma get_coerced:
  "field_raws ms name = [json_quote s] \<Longrightarrow> get_field dec_string z ms name = ok (coerce s)"
  "field_raws ms name = (if s = [] then [] else [json_quote s]) \<Longrightarrow> get_field dec_string [] ms name = ok (coerce s)"
  by (simp_all add: get_field_def)

lemma event_decode:
  assumes "event_ok e"
  shows "event_of_members (printed (event_members e)) = ok (coerce_event e)"
proof -
  have v: "time_ok (le_ts e)" "in_int64 (le_duration_ms e)" using assms by (auto simp: event_ok_def)
  note r = event_raws [of e]
  show ?thesis
    unfolding event_of_members_def
    by (simp add: get_time [OF r(1) v(1)] get_coerced(1) [OF r(2)] get_coerced(1) [OF r(3)] get_coerced(1) [OF r(4)]
        get_coerced(1) [OF r(5)] get_int(1) [OF r(6) v(2)] get_coerced(2) [OF r(7)] coerce_event_def)
qed

lemma event_flat: "flat_members (event_members e)"
  by (simp add: flat_members_def event_members_def omit_str_def byte_def)

interpretation event_codec: flat_record event_members event_of_members "\<lambda>e. event_ok e \<and> coerce_event e = e"
  by unfold_locales (auto simp: event_flat event_decode)

lemma event_clean:
  "list_all (\<lambda>(k, t). clean_bytes (json_print t)) (event_members e)"
  using clean_time [of True "le_ts e"] by (simp add: event_members_def omit_str_def clean_quote clean_itoa)

lemma parse_event_line:
  assumes "event_ok e"
  shows "parse_event (event_line e) = Some (coerce_event e)"
  using clean_object(2,3) [OF event_clean [of e]] flat_members_decode(2) [OF event_flat [of e]] event_decode [OF assms]
  by (simp add: parse_event_def unmarshal_with_def)

section \<open>Lines fit the scanner\<close>

lemma result_short: "result_valid r \<Longrightarrow> length r \<le> 9 \<and> coerce r = r"
  by (auto simp: result_valid_def log_results_def coerce_ascii byte_def)

text \<open>The names of an event together, in bytes, that keep its line below the 64 KiB of the scanner
  for every tail.\<close>

definition max_names :: nat where "max_names = 6000"

definition short_names :: "log_event \<Rightarrow> bool" where
  "short_names e \<longleftrightarrow> length (le_node e) + length (le_phase e) + length (le_action e) \<le> max_names"

lemma event_line_fits:
  assumes "event_ok e" "result_valid (le_result e)" "short_names e" "length (le_stderr_tail e) \<le> max_stderr_tail"
  shows "log_line (event_line e)"
proof -
  have l: "length (format_rfc3339nano (le_ts e)) \<le> 35" "length (itoa (le_duration_ms e)) \<le> 20" "length (le_result e) \<le> 9"
    using assms time_length itoa_int64_length result_short by (auto simp: event_ok_def)
  have "length (event_line e) < default_max_token"
    using l assms(3,4) obj_length [of "event_members e"] omit_length(1) [of "''stderr_tail''" "le_stderr_tail e"]
      quote_length [of "le_node e"] quote_length [of "le_phase e"] quote_length [of "le_action e"] quote_length [of "le_result e"]
    by (simp add: event_members_def short_names_def max_names_def max_stderr_tail_def default_max_token_def)
  then show ?thesis using clean_object(1,4) [OF event_clean [of e]] clean_no_NL by (simp add: log_line_def)
qed

lemma log_fill_tail: "length (le_stderr_tail (log_fill l now e)) \<le> max_stderr_tail"
  by (simp add: log_fill_def Let_def)

lemma log_fill_names [simp]:
  "le_node (log_fill l now e) = le_node e" "le_phase (log_fill l now e) = le_phase e" "le_action (log_fill l now e) = le_action e"
  "le_result (log_fill l now e) = le_result e" "le_duration_ms (log_fill l now e) = le_duration_ms e"
  by (simp_all add: log_fill_def Let_def)

section \<open>What the log holds\<close>

text \<open>An event as \<open>Action\<close> stores it, and a log file that holds exactly the events \<open>es\<close>.\<close>

definition logged :: "log_event \<Rightarrow> bool" where
  "logged e \<longleftrightarrow> event_ok e \<and> result_valid (le_result e) \<and> short_names e \<and> length (le_stderr_tail e) \<le> max_stderr_tail"

definition log_holds :: "fs \<Rightarrow> path \<Rightarrow> log_event list \<Rightarrow> bool" where
  "log_holds fs p es \<longleftrightarrow> file_data fs p = Some (log_text (map event_line es)) \<and> list_all logged es"

lemma parse_logged: "list_all logged es \<Longrightarrow> List.map_filter parse_event (map event_line es) = map coerce_event es"
  by (induction es) (simp_all add: List.map_filter_def logged_def parse_event_line)

lemma holds_read:
  assumes "log_holds fs p es" "flt (FRead p) = None"
  shows "read_jsonl flt fs p = ok (map coerce_event es, False)"
proof -
  have "list_all log_line (map event_line es)"
    using assms(1) event_line_fits by (auto simp: log_holds_def logged_def list_all_iff)
  moreover have "os_read_file flt fs p = ok (log_text (map event_line es))"
    using assms by (auto simp: log_holds_def os_read_file_def file_data_def split: option.splits fnode.splits)
  ultimately show ?thesis
    using assms(1) parse_logged by (simp add: read_jsonl_def scan_log log_holds_def)
qed

definition accepted :: "logger \<Rightarrow> gtime \<Rightarrow> log_event \<Rightarrow> bool" where
  "accepted l now e \<longleftrightarrow> result_valid (le_result e) \<and> time_json_ok (le_ts (log_fill l now e))"

text \<open>What the type of an event says, names that fit, and a zone offset of whole minutes.\<close>

definition loggable :: "logger \<Rightarrow> gtime \<Rightarrow> log_event \<Rightarrow> bool" where
  "loggable l now e \<longleftrightarrow> in_int64 (le_duration_ms e) \<and> short_names e \<and> t_off (le_ts (log_fill l now e)) mod 60 = 0"

lemma log_fill_logged: "accepted l now e \<Longrightarrow> loggable l now e \<Longrightarrow> logged (log_fill l now e)"
  by (simp add: accepted_def loggable_def logged_def event_ok_def time_ok_iff log_fill_tail short_names_def)

lemma os_write_holds:
  assumes "file_data fs p = Some b" "flt (FWrite p) = None"
  obtains fs' where "os_write flt fs p x = ok fs'" "file_data fs' p = Some (b @ x)"
  using assms by (auto simp: os_write_def Let_def file_data_def update_conv split: option.splits fnode.splits)

definition log_step :: "faults \<Rightarrow> logger \<Rightarrow> fs \<Rightarrow> gtime \<times> log_event \<Rightarrow> fs" where
  "log_step flt l fs r = (case log_action flt (fst r) fs l (snd r) of Inl (_, fs') \<Rightarrow> fs' | Inr fs' \<Rightarrow> fs')"

lemma log_step_other: "lg_w l \<noteq> Some q \<Longrightarrow> map_of (log_step flt l fs x) q = map_of fs q"
  using os_write_other [of q] by (auto simp: log_step_def log_action_def Let_def split: option.splits sum.splits prod.splits) metis+

lemma log_step_holds:
  assumes "log_holds fs p es" "lg_w l = Some p" "flt (FWrite p) = None" "loggable l now e"
  shows "log_holds (log_step flt l fs (now, e)) p (es @ (if accepted l now e then [log_fill l now e] else []))"
proof -
  obtain fs' where fs': "os_write flt fs p (event_line (log_fill l now e) @ [NL]) = ok fs'"
    "file_data fs' p = Some (log_text (map event_line es) @ event_line (log_fill l now e) @ [NL])"
    using os_write_holds assms(1,3) unfolding log_holds_def by metis
  show ?thesis
  proof (cases "accepted l now e")
    case True
    then have "log_step flt l fs (now, e) = fs'"
      using fs'(1) assms(2) by (simp add: log_step_def log_action_def accepted_def Let_def)
    then show ?thesis
      using True fs'(2) assms(1) log_fill_logged [OF True assms(4)] by (simp add: log_holds_def log_text_def)
  next
    case False
    then have "log_step flt l fs (now, e) = fs"
      using assms(2) by (auto simp: log_step_def log_action_def accepted_def Let_def)
    with False assms(1) show ?thesis by simp
  qed
qed

definition written :: "logger \<Rightarrow> (gtime \<times> log_event) list \<Rightarrow> log_event list" where
  "written l rs = map (\<lambda>(now, e). log_fill l now e) (filter (\<lambda>(now, e). accepted l now e) rs)"

lemma log_run_holds:
  assumes "log_holds fs p es" "lg_w l = Some p" "flt (FWrite p) = None" "list_all (\<lambda>(now, e). loggable l now e) rs"
  shows "log_holds (foldl (log_step flt l) fs rs) p (es @ written l rs)"
  using assms
proof (induction rs arbitrary: fs es)
  case (Cons r rs)
  obtain now e where r: "r = (now, e)" by (cases r)
  have "log_holds (log_step flt l fs r) p (es @ (if accepted l now e then [log_fill l now e] else []))"
    using log_step_holds [of fs p es l flt now e] Cons.prems r by simp
  from Cons.IH [OF this] Cons.prems r show ?case by (simp add: written_def split: if_splits)
qed (simp add: written_def)

lemma log_open_new: "log_open flt fs p = ok (l, fs') \<Longrightarrow> l = log_new p True"
  by (auto simp: log_open_def split: if_splits sum.splits)

lemma log_open_other:
  assumes "q \<noteq> p"
  shows "log_open flt fs p = ok (l, fs') \<Longrightarrow> file_data fs' q = file_data fs q" "log_open flt fs p = err (x, fs') \<Longrightarrow> file_data fs' q = file_data fs q"
proof -
  show "file_data fs' q = file_data fs q" if o: "log_open flt fs p = ok (l, fs')"
  proof -
    obtain fs1 where "os_mkdir_all flt fs (dir_path p) mode_0755 = ok fs1" "os_open_create flt False fs1 p mode_0644 = ok fs'"
      using o by (auto simp: log_open_def split: if_splits sum.splits)
    then show ?thesis using mkdir_keeps_files open_create_ok(2) assms by (metis file_data_cong)
  qed
  show "file_data fs' q = file_data fs q" if o: "log_open flt fs p = err (x, fs')"
  proof -
    consider "fs' = fs" | y where "os_mkdir_all flt fs (dir_path p) mode_0755 = err (y, fs')" | "os_mkdir_all flt fs (dir_path p) mode_0755 = ok fs'"
      using o by (auto simp: log_open_def split: if_splits sum.splits)
    then show ?thesis
    proof cases
      case 2
      then show ?thesis using mkdir_all_err by metis
    next
      case 3
      then show ?thesis by (rule mkdir_keeps_files)
    qed simp
  qed
qed

text \<open>C22. The audit reads back what was logged.  For any sequence of \<open>Action\<close> calls on a log
  file that holds a list of events, with writes that do not fail, names that fit a line and durations of 64 bits, \<open>readJSONL\<close> then returns
  the old events followed by exactly the accepted new ones, in order, with their times filled in and their standard error cut to
  its last 4096 bytes, and it never meets an overlong line.  Events with an unknown result or a time
  outside the years 0 to 9999 leave the file unchanged.  Only invalid UTF-8 is replaced.\<close>

theorem log_read_back:
  assumes "log_holds fs p old" "lg_w l = Some p" "flt (FWrite p) = None"
    and "list_all (\<lambda>(now, e). loggable l now e) rs"
  shows "read_jsonl no_faults (foldl (log_step flt l) fs rs) p = ok (map coerce_event (old @ written l rs), False)"
  using log_run_holds [where flt = flt, OF assms] by (rule holds_read) simp

definition demo_log_event :: log_event where
  "demo_log_event = \<lparr> le_ts = zero_time, le_node = ''w1'', le_phase = ''watchdog'', le_action = ''scan'', le_result = ''ok'',
     le_duration_ms = 7, le_stderr_tail = replicate 5000 (CHR ''x'') \<rparr>"

definition demo_bad_event :: log_event where
  "demo_bad_event = demo_log_event\<lparr> le_result := ''fine'' \<rparr>"

definition demo_log_path :: path where "demo_log_path = ''/l/a.jsonl''"

definition demo_log_fs :: fs where
  "demo_log_fs = [(''/l'', Dir mode_0755), (demo_log_path, File [] mode_0644)]"

theorem log_read_back_witness:
  "read_jsonl no_faults (foldl (log_step no_faults (log_new demo_log_path True)) demo_log_fs
       [(time_utc 0, demo_bad_event), (time_utc 5, demo_log_event)]) demo_log_path
     = ok ([demo_log_event\<lparr> le_ts := time_utc 5, le_stderr_tail := replicate 4096 (CHR ''x'') \<rparr>], False)"
proof -
  let ?l = "log_new demo_log_path True" and ?rs = "[(time_utc 0, demo_bad_event), (time_utc 5, demo_log_event)]"
  have cut: "drop (5000 - 4096) (replicate 5000 (CHR ''x'')) = replicate 4096 (CHR ''x'')"
    unfolding drop_replicate by (rule arg_cong [where f = "\<lambda>n. replicate n (CHR ''x'')"]) simp
  have fill: "log_fill ?l (time_utc 5) demo_log_event = demo_log_event\<lparr> le_ts := time_utc 5, le_stderr_tail := replicate 4096 (CHR ''x'') \<rparr>"
    by (simp add: log_fill_def demo_log_event_def is_zero_time_def log_new_def to_utc_def time_utc_def max_stderr_tail_def Let_def cut)
  have utc: "time_json_ok (time_utc 5)" by code_simp
  have "written ?l ?rs = [log_fill ?l (time_utc 5) demo_log_event]"
    using utc unfolding fill
    by (simp add: written_def accepted_def fill) (simp add: result_valid_def log_results_def demo_bad_event_def demo_log_event_def)
  moreover have "list_all (\<lambda>(now, e). loggable ?l now e) ?rs"
    by (simp add: loggable_def demo_bad_event_def demo_log_event_def short_names_def max_names_def in_int64_def min_int64_def max_int64_def
        log_fill_def is_zero_time_def log_new_def to_utc_def Let_def)
  moreover have "coerce_event (log_fill ?l (time_utc 5) demo_log_event) = log_fill ?l (time_utc 5) demo_log_event"
    unfolding fill by (simp add: coerce_event_def demo_log_event_def coerce_ascii byte_def list_all_iff)
  moreover have "log_holds demo_log_fs demo_log_path []" "lg_w ?l = Some demo_log_path"
    by (simp_all add: log_holds_def file_data_def demo_log_fs_def demo_log_path_def log_text_def log_new_def)
  ultimately show ?thesis
    using log_read_back [of demo_log_fs demo_log_path "[]" ?l no_faults ?rs] fill by simp
qed

end
