(* ===== verification/Go_Duration.thy ===== *)
theory Go_Duration
  imports Go_Time
begin

text \<open>
  Durations of package \<open>time\<close>: a 64-bit count of nanoseconds.  \<open>Time.Sub\<close> saturates,
  \<open>Duration.Round\<close> rounds halves away from zero and stops at the ends of the range,
  \<open>Duration.String\<close> prints hours, minutes and seconds with a fraction, and
  \<open>int64(d.Seconds())\<close> goes through IEEE double precision: the seconds and the fraction are
  added as doubles, rounded to nearest even, and truncated.
\<close>

definition clamp64 :: "int \<Rightarrow> int" where
  "clamp64 i = (if i < min_int64 then min_int64 else if max_int64 < i then max_int64 else i)"

definition time_sub :: "gtime \<Rightarrow> gtime \<Rightarrow> int" where
  "time_sub a b = clamp64 (t_ns a - t_ns b)"

lemma clamp64_range: "in_int64 (clamp64 i)"
  by (simp add: clamp64_def in_int64_def min_int64_def max_int64_def)

lemma clamp64_ge: "in_int64 w \<Longrightarrow> 0 \<le> w \<Longrightarrow> w \<le> clamp64 i \<longleftrightarrow> w \<le> i"
  by (auto simp: clamp64_def in_int64_def min_int64_def max_int64_def)

lemma time_sub_ge: "in_int64 w \<Longrightarrow> 0 \<le> w \<Longrightarrow> w \<le> time_sub a b \<longleftrightarrow> t_ns b + w \<le> t_ns a"
  using clamp64_ge [of w "t_ns a - t_ns b"] by (auto simp: time_sub_def)

lemma time_sub_gt: "in_int64 w \<Longrightarrow> w < max_int64 \<Longrightarrow> w < time_sub a b \<longleftrightarrow> t_ns b + w < t_ns a"
  by (auto simp: time_sub_def clamp64_def in_int64_def min_int64_def max_int64_def)

section \<open>Round\<close>

definition quot_trunc :: "int \<Rightarrow> int \<Rightarrow> int" where
  "quot_trunc a b = (if a < 0 then - ((- a) div b) else a div b)"

definition rem_trunc :: "int \<Rightarrow> int \<Rightarrow> int" where
  "rem_trunc a b = a - quot_trunc a b * b"

lemma quot_int64: "in_int64 a \<Longrightarrow> in_int64 (quot_trunc a 1000000)"
  by (auto simp: quot_trunc_def in_int64_def min_int64_def max_int64_def)

definition duration_round :: "int \<Rightarrow> int \<Rightarrow> int" where
  "duration_round d m =
     (if m \<le> 0 then d
      else (let r = \<bar>rem_trunc d m\<bar>
            in if d < 0 then (if 2 * r < m then d + r else clamp64 (d - m + r))
               else (if 2 * r < m then d - r else clamp64 (d + m - r))))"

section \<open>String\<close>

text \<open>\<open>fmtFrac\<close>: the fraction of \<open>v\<close> in units of \<open>10^k\<close>, without trailing zeros.\<close>

definition fmt_frac :: "nat \<Rightarrow> nat \<Rightarrow> string" where
  "fmt_frac v k = (let s = strip_zeros (pad k (v mod 10 ^ k)) in if s = [] then [] else CHR ''.'' # s)"

definition sub_second :: "nat \<Rightarrow> string" where
  "sub_second u =
     (if u < 1000 then nat_str u @ ''ns''
      else if u < 1000000 then nat_str (u div 1000) @ fmt_frac u 3 @ [CHR 0xC2, CHR 0xB5] @ ''s''
      else nat_str (u div 1000000) @ fmt_frac u 6 @ ''ms'')"

definition duration_string :: "int \<Rightarrow> string" where
  "duration_string d =
     (if d = 0 then ''0s''
      else (let u = nat \<bar>d\<bar>;
                secs = u div 1000000000;
                mins = secs div 60;
                hours = mins div 60;
                body = (if u < 1000000000 then sub_second u
                        else (if 0 < mins then (if 0 < hours then nat_str hours @ ''h'' else []) @ nat_str (mins mod 60) @ ''m'' else [])
                             @ nat_str (secs mod 60) @ fmt_frac u 9 @ ''s'')
            in (if d < 0 then CHR ''-'' # body else body)))"

section \<open>Seconds as a double\<close>

fun bit_len :: "nat \<Rightarrow> nat" where
  "bit_len n = (if n = 0 then 0 else Suc (bit_len (n div 2)))"

declare bit_len.simps [simp del]

definition round_even :: "nat \<Rightarrow> nat \<Rightarrow> nat" where
  "round_even p q =
     (let f = p div q; r = p mod q
      in if 2 * r < q then f else if q < 2 * r then Suc f else if even f then f else Suc f)"

text \<open>The double nearest to \<open>p / q\<close>, as a pair of \<open>m\<close> and \<open>k\<close> for \<open>m / 2^k\<close>;
  for a quotient below \<open>2^53\<close>.\<close>

definition to_double :: "nat \<Rightarrow> nat \<Rightarrow> nat \<times> nat" where
  "to_double p q =
     (if p = 0 then (0, 0)
      else (let k = (if q \<le> p then 53 - bit_len (p div q) else 52 + bit_len (q div p))
            in (round_even (p * 2 ^ k) q, k)))"

definition seconds_double :: "nat \<Rightarrow> nat \<times> nat" where
  "seconds_double u =
     (case to_double (u mod 1000000000) 1000000000 of (m, k) \<Rightarrow> to_double (u div 1000000000 * 2 ^ k + m) (2 ^ k))"

definition whole_seconds :: "int \<Rightarrow> int" where
  "whole_seconds d =
     (case seconds_double (nat \<bar>d\<bar>) of (m, k) \<Rightarrow> (let s = int (m div 2 ^ k) in if d < 0 then - s else s))"

lemma round_even_bounds: "0 < q \<Longrightarrow> p div q \<le> round_even p q \<and> round_even p q \<le> Suc (p div q)"
  by (simp add: round_even_def Let_def)

lemma round_even_le: "0 < q \<Longrightarrow> p \<le> n * q \<Longrightarrow> round_even p q \<le> n"
proof -
  assume q: "0 < q" "p \<le> n * q"
  show ?thesis
  proof (cases "p = n * q")
    case True
    then show ?thesis using q by (simp add: round_even_def)
  next
    case False
    then have "p div q < n" using q by (simp add: less_mult_imp_div_less)
    then show ?thesis using round_even_bounds [OF q(1), of p] by linarith
  qed
qed

lemma round_even_ge: "0 < q \<Longrightarrow> n * q \<le> p \<Longrightarrow> n \<le> round_even p q"
  using round_even_bounds [of q p] div_le_mono [of "n * q" p q] by fastforce

text \<open>A double is no further from a fraction than the next integers.\<close>

lemma to_double_between:
  assumes "to_double p q = (m, k)" "0 < q" "n * q \<le> p" "p \<le> Suc n * q"
  shows "n * 2 ^ k \<le> m" "m \<le> Suc n * 2 ^ k"
proof -
  consider "p = 0" | "p \<noteq> 0" "m = round_even (p * 2 ^ k) q"
    using assms(1) by (cases "p = 0") (auto simp: to_double_def Let_def)
  then have "n * 2 ^ k \<le> m \<and> m \<le> Suc n * 2 ^ k"
  proof cases
    case 1
    then show ?thesis using assms by (simp add: to_double_def)
  next
    case 2
    have "n * 2 ^ k * q \<le> p * 2 ^ k" "p * 2 ^ k \<le> Suc n * 2 ^ k * q"
      using mult_le_mono1 [OF assms(3), of "2 ^ k"] mult_le_mono1 [OF assms(4), of "2 ^ k"] by (simp_all add: algebra_simps)
    then show ?thesis unfolding 2(2) using round_even_ge round_even_le assms(2) by simp
  qed
  then show "n * 2 ^ k \<le> m" "m \<le> Suc n * 2 ^ k" by auto
qed

text \<open>The whole seconds of an age are those of the exact quotient, or one more when the double
  sum rounded up.\<close>

lemma whole_seconds_bounds:
  assumes "0 \<le> d"
  shows "d div nano \<le> whole_seconds d" "whole_seconds d \<le> d div nano + 1"
proof -
  define u where "u = nat d"
  define s where "s = u div 1000000000"
  obtain m k where mk: "to_double (u mod 1000000000) 1000000000 = (m, k)" by (metis surj_pair)
  obtain m' k' where mk': "to_double (s * 2 ^ k + m) (2 ^ k) = (m', k')" by (metis surj_pair)
  have "m \<le> Suc 0 * 2 ^ k" using to_double_between(2) [OF mk, of 0] by simp
  then have "s * 2 ^ k' \<le> m'" "m' \<le> Suc s * 2 ^ k'"
    using to_double_between [OF mk', of s] by simp_all
  then have "s \<le> m' div 2 ^ k'" "m' div 2 ^ k' \<le> Suc s"
    using div_le_mono [of "s * 2 ^ k'" m' "2 ^ k'"] div_le_mono [of m' "Suc s * 2 ^ k'" "2 ^ k'"] by simp_all
  moreover have "whole_seconds d = int (m' div 2 ^ k')"
    using assms mk mk' by (simp add: whole_seconds_def seconds_double_def u_def s_def Let_def)
  moreover have "d div nano = int s"
    using assms by (simp add: s_def u_def nano_def zdiv_int)
  ultimately show "d div nano \<le> whole_seconds d" "whole_seconds d \<le> d div nano + 1" by simp_all
qed

end
