(* ===== verification/Watchdog.thy ===== *)
theory Watchdog
  imports Alerting Fleet_Log Go_Duration
begin

text \<open>
  The watchdog, \<open>cmd/fleetctl/commands/watchdog.go\<close>: one scan over the heartbeat files, which
  alerts on stale workers, suppresses repeated alerts with marker files, and announces recovery.  The
  state is the file system with the modification times of its files, and the state \<open>'n\<close> that the
  backends of the router act on.  A tick is what the outside gives to one scan: the clock, the table of
  I/O faults, the time the kernel stamps on a file written during the scan, and the clock readings of
  the logger.  A scan returns the outcome per host beside what the Go function returns; the outcome
  names the branch that was taken.
\<close>

declare json_print.simps(3) [simp del]

section \<open>State\<close>

record wd_cfg =
  wc_heartbeats :: path
  wc_state :: path
  wc_stale_max :: int
  wc_dedup :: int

record 'n wd_world =
  ww_fs :: fs
  ww_mt :: "path \<Rightarrow> gtime"
  ww_net :: 'n

record tick =
  tk_now :: gtime
  tk_flt :: faults
  tk_wall :: gtime
  tk_clk :: "log_event \<Rightarrow> gtime"

datatype hb_outcome =
    HQuiet | HSuppressed | HAlertFailed | HMarkFailed | HAlerted | HRecoverFailed | HUnmarkFailed | HRecovered

text \<open>The text of an \<open>os.PathError\<close>.\<close>

definition path_error :: "string \<Rightarrow> path \<Rightarrow> ioerr \<Rightarrow> string" where
  "path_error op p e = op @ '' '' @ p @ '': '' @ (case e of NotExist \<Rightarrow> ''no such file or directory'' | OsErr m \<Rightarrow> m)"

section \<open>Files\<close>

text \<open>\<open>readHeartbeatDir\<close>; an entry whose \<open>Info\<close> fails is left out.\<close>

definition read_heartbeat_dir :: "faults \<Rightarrow> 'n wd_world \<Rightarrow> path \<Rightarrow> (ioerr, (string \<times> gtime) list) result" where
  "read_heartbeat_dir flt w dir =
     (case os_read_dir flt (ww_fs w) dir of
        Inl e \<Rightarrow> err e
      | Inr ents \<Rightarrow>
          ok (sort_key fst
                (map (\<lambda>(name, _). (trim_suffix name ''.json'', ww_mt w (join2 dir name)))
                  (filter (\<lambda>(name, _). \<not> has_prefix name ''.'' \<and> has_suffix name ''.json'' \<and> flt (FStat (join2 dir name)) = None)
                    ents))))"

definition read_marker_time :: "faults \<Rightarrow> 'n wd_world \<Rightarrow> path \<Rightarrow> gtime option" where
  "read_marker_time flt w p = (case os_stat flt (ww_fs w) p of Inl _ \<Rightarrow> None | Inr _ \<Rightarrow> Some (ww_mt w p))"

text \<open>\<open>os.WriteFile\<close> on files with modification times: opening for writing and writing stamp the
  file with the time of the kernel.\<close>

definition write_file_at ::
  "faults \<Rightarrow> gtime \<Rightarrow> 'n wd_world \<Rightarrow> path \<Rightarrow> bytes \<Rightarrow> nat \<Rightarrow> 'n wd_world \<times> string option" where
  "write_file_at flt wall w p body mode =
     (let (touched, op) = (case os_open_create flt True (ww_fs w) p mode of
                             Inl _ \<Rightarrow> (ww_mt w, ''open'')
                           | Inr _ \<Rightarrow> ((ww_mt w)(p := wall), if flt (FWrite p) \<noteq> None then ''write'' else ''close''))
      in case os_write_file flt (ww_fs w) p body mode of
           Inl (e, fs') \<Rightarrow> (w\<lparr> ww_fs := fs', ww_mt := touched \<rparr>, Some (path_error op p e))
         | Inr fs' \<Rightarrow> (w\<lparr> ww_fs := fs', ww_mt := touched \<rparr>, None))"

text \<open>\<open>writeMarker\<close>: \<open>os.Chtimes\<close> then stamps the file with the time of the scan.\<close>

definition write_marker :: "tick \<Rightarrow> 'n wd_world \<Rightarrow> path \<Rightarrow> gtime \<Rightarrow> 'n wd_world \<times> string option" where
  "write_marker tk w p now =
     (case write_file_at (tk_flt tk) (tk_wall tk) w p (format_rfc3339 (to_utc now) @ [NL]) mode_0644 of
        (w', Some e) \<Rightarrow> (w', Some e)
      | (w', None) \<Rightarrow>
          (case tk_flt tk (FChtimes p) of
             Some (_, m) \<Rightarrow> (w', Some (path_error ''chtimes'' p (OsErr m)))
           | None \<Rightarrow> (w'\<lparr> ww_mt := (ww_mt w')(p := now) \<rparr>, None)))"

definition wd_log :: "logger \<Rightarrow> tick \<Rightarrow> string \<Rightarrow> string \<Rightarrow> string \<Rightarrow> string \<Rightarrow> 'n wd_world \<Rightarrow> 'n wd_world" where
  "wd_log l tk node action res tail w =
     (let ev = \<lparr> le_ts = zero_time, le_node = node, le_phase = ''watchdog'', le_action = action, le_result = res,
                 le_duration_ms = 0, le_stderr_tail = tail \<rparr>
      in w\<lparr> ww_fs := log_step (tk_flt tk) l (ww_fs w) (tk_clk tk ev, ev) \<rparr>)"

section \<open>One host\<close>

definition wd_marker :: "wd_cfg \<Rightarrow> string \<Rightarrow> path" where
  "wd_marker cfg host = join2 (wc_state cfg) (''.alerted-'' @ host)"

definition second :: int where "second = 1000000000"

definition round_secs :: "int \<Rightarrow> string" where
  "round_secs d = duration_string (duration_round d second)"

definition stale_alert :: "wd_cfg \<Rightarrow> gtime \<Rightarrow> string \<Rightarrow> gtime \<Rightarrow> alert" where
  "stale_alert cfg now host mtime =
     (let age = time_sub now mtime in
      \<lparr> al_severity = sev_critical,
        al_title = ''Hermes worker '' @ host @ '' stale'',
        al_body = ''Heartbeat file mtime '' @ format_rfc3339 (to_utc mtime) @ '' is '' @ round_secs age @ '' old (stale-max ''
                    @ duration_string (wc_stale_max cfg) @ '')'',
        al_source = ''watchdog'', al_dedup = host,
        al_labels = Some [(''host'', host), (''age_seconds'', itoa (whole_seconds age))],
        al_occurred_at = now \<rparr>)"

definition recovered_alert :: "wd_cfg \<Rightarrow> gtime \<Rightarrow> string \<Rightarrow> gtime \<Rightarrow> alert" where
  "recovered_alert cfg now host mtime =
     \<lparr> al_severity = sev_warning,
       al_title = ''Hermes worker '' @ host @ '' recovered'',
       al_body = ''Heartbeat file mtime '' @ format_rfc3339 (to_utc mtime) @ '' is '' @ round_secs (time_sub now mtime)
                   @ '' old (within stale-max '' @ duration_string (wc_stale_max cfg) @ '')'',
       al_source = ''watchdog'', al_dedup = host, al_labels = Some [(''host'', host)], al_occurred_at = now \<rparr>"

definition wd_fire :: "'n router \<Rightarrow> tick \<Rightarrow> alert \<Rightarrow> 'n wd_world \<Rightarrow> 'n wd_world \<times> string option" where
  "wd_fire r tk a w = (case router_fire (tk_now tk) r a (ww_net w) of (n, e) \<Rightarrow> (w\<lparr> ww_net := n \<rparr>, e))"

definition handle_stale ::
  "wd_cfg \<Rightarrow> logger \<Rightarrow> 'n router \<Rightarrow> tick \<Rightarrow> string \<Rightarrow> gtime \<Rightarrow> 'n wd_world \<Rightarrow> 'n wd_world \<times> hb_outcome" where
  "handle_stale cfg l r tk host mtime w =
     (case wd_fire r tk (stale_alert cfg (tk_now tk) host mtime) w of
        (w1, Some e) \<Rightarrow> (wd_log l tk host ''alert-stale'' ''error'' e w1, HAlertFailed)
      | (w1, None) \<Rightarrow>
          (case write_marker tk w1 (wd_marker cfg host) (tk_now tk) of
             (w2, Some e) \<Rightarrow> (wd_log l tk host ''write-marker'' ''error'' e w2, HMarkFailed)
           | (w2, None) \<Rightarrow>
               (wd_log l tk host ''alert-stale'' ''ok'' (''age='' @ round_secs (time_sub (tk_now tk) mtime)) w2, HAlerted)))"

definition handle_recovered ::
  "wd_cfg \<Rightarrow> logger \<Rightarrow> 'n router \<Rightarrow> tick \<Rightarrow> string \<Rightarrow> gtime \<Rightarrow> 'n wd_world \<Rightarrow> 'n wd_world \<times> hb_outcome" where
  "handle_recovered cfg l r tk host mtime w =
     (case wd_fire r tk (recovered_alert cfg (tk_now tk) host mtime) w of
        (w1, Some e) \<Rightarrow> (wd_log l tk host ''alert-recovered'' ''error'' e w1, HRecoverFailed)
      | (w1, None) \<Rightarrow>
          (let done_ok = (\<lambda>w2. (wd_log l tk host ''alert-recovered'' ''ok'' (''age='' @ round_secs (time_sub (tk_now tk) mtime)) w2, HRecovered))
           in case os_remove (tk_flt tk) (ww_fs w1) (wd_marker cfg host) of
                Inl NotExist \<Rightarrow> done_ok w1
              | Inl e \<Rightarrow> (wd_log l tk host ''remove-marker'' ''error'' (path_error ''remove'' (wd_marker cfg host) e) w1, HUnmarkFailed)
              | Inr fs' \<Rightarrow> done_ok (w1\<lparr> ww_fs := fs' \<rparr>)))"

definition scan_host ::
  "wd_cfg \<Rightarrow> logger \<Rightarrow> 'n router \<Rightarrow> tick \<Rightarrow> string \<times> gtime \<Rightarrow> 'n wd_world \<Rightarrow> 'n wd_world \<times> hb_outcome" where
  "scan_host cfg l r tk e w =
     (case e of (host, mtime) \<Rightarrow>
       (let age = time_sub (tk_now tk) mtime;
            marker = read_marker_time (tk_flt tk) w (wd_marker cfg host)
        in if wc_stale_max cfg < age then
             (case marker of
                Some t \<Rightarrow>
                  (let gap = time_sub (tk_now tk) t
                   in if gap < wc_dedup cfg
                      then (wd_log l tk host ''stale-suppressed'' ''ok''
                              (''age='' @ round_secs age @ '' gap='' @ round_secs gap @ '' window='' @ duration_string (wc_dedup cfg)) w,
                            HSuppressed)
                      else handle_stale cfg l r tk host mtime w)
              | None \<Rightarrow> handle_stale cfg l r tk host mtime w)
           else (case marker of Some _ \<Rightarrow> handle_recovered cfg l r tk host mtime w | None \<Rightarrow> (w, HQuiet))))"

section \<open>One scan\<close>

fun scan_hosts ::
  "wd_cfg \<Rightarrow> logger \<Rightarrow> 'n router \<Rightarrow> tick \<Rightarrow> (string \<times> gtime) list \<Rightarrow> 'n wd_world \<Rightarrow> 'n wd_world \<times> (string \<times> hb_outcome) list" where
  "scan_hosts cfg l r tk [] w = (w, [])"
| "scan_hosts cfg l r tk (e # es) w =
     (case scan_host cfg l r tk e w of (w1, x) \<Rightarrow>
       (case scan_hosts cfg l r tk es w1 of (w2, xs) \<Rightarrow> (w2, (fst e, x) # xs)))"

fun counts_stale :: "hb_outcome \<Rightarrow> bool" where
  "counts_stale x \<longleftrightarrow> x \<in> {HSuppressed, HAlertFailed, HMarkFailed, HAlerted}"

fun counts_error :: "hb_outcome \<Rightarrow> bool" where
  "counts_error x \<longleftrightarrow> x \<in> {HAlertFailed, HMarkFailed, HRecoverFailed, HUnmarkFailed}"

definition scan_cycle ::
  "wd_cfg \<Rightarrow> logger \<Rightarrow> 'n router \<Rightarrow> tick \<Rightarrow> 'n wd_world \<Rightarrow> 'n wd_world \<times> (string \<times> hb_outcome) list \<times> nat \<times> bool" where
  "scan_cycle cfg l r tk w =
     (case read_heartbeat_dir (tk_flt tk) w (wc_heartbeats cfg) of
        Inl e \<Rightarrow> (wd_log l tk ''gateway'' ''read-dir'' ''error'' (path_error ''open'' (wc_heartbeats cfg) e) w, [], 0, True)
      | Inr [] \<Rightarrow> (wd_log l tk ''gateway'' ''scan'' ''warn'' (''no heartbeat files in '' @ wc_heartbeats cfg) w, [], 0, False)
      | Inr es \<Rightarrow>
          (case scan_hosts cfg l r tk es w of (w', xs) \<Rightarrow>
             (w', xs, length (filter (counts_stale \<circ> snd) xs), list_ex (counts_error \<circ> snd) xs)))"

text \<open>\<open>--once\<close>, and the loop as the list of ticks before the signal, with its count of
  consecutive failures.\<close>

definition scan_once :: "wd_cfg \<Rightarrow> logger \<Rightarrow> 'n router \<Rightarrow> tick \<Rightarrow> 'n wd_world \<Rightarrow> 'n wd_world \<times> string option" where
  "scan_once cfg l r tk w =
     (case scan_cycle cfg l r tk w of (w', _, stale, _) \<Rightarrow>
        (w', if 0 < stale then Some (''watchdog: '' @ nat_str stale @ '' host(s) stale'') else None))"

fun scan_loop :: "wd_cfg \<Rightarrow> logger \<Rightarrow> 'n router \<Rightarrow> tick list \<Rightarrow> int \<Rightarrow> 'n wd_world \<Rightarrow> 'n wd_world \<times> int" where
  "scan_loop cfg l r [] consecutive w = (w, consecutive)"
| "scan_loop cfg l r (tk # tks) consecutive w =
     (case scan_cycle cfg l r tk w of (w', _, _, any_err) \<Rightarrow>
        scan_loop cfg l r tks (if any_err then wrap64 (consecutive + 1) else 0) w')"

definition join_or_none :: "string list \<Rightarrow> string" where
  "join_or_none names =
     (if names = [] then ''(none '' @ [CHR 0xE2, CHR 0x80, CHR 0x94] @ '' log-only mode)'' else join_with ''+'' names)"

definition build_alerting_router_from_env :: "http_env \<Rightarrow> (string \<Rightarrow> string) \<Rightarrow> http_req list router \<times> string list" where
  "build_alerting_router_from_env env getenv =
     (let k = getenv ''HERMES_PAGERDUTY_ROUTING_KEY'';
          g = getenv ''HERMES_OPSGENIE_API_KEY'';
          u = getenv ''HERMES_NTFY_URL'';
          (r1, n1) = (if k \<noteq> [] then (add_backend new_router (new_pagerduty env k), [''pagerduty'']) else (new_router, []));
          (r2, n2) = (if g \<noteq> [] then (add_backend r1 (new_opsgenie env g), n1 @ [''opsgenie'']) else (r1, n1))
      in if u \<noteq> [] then (add_backend r2 (new_ntfy env u), n2 @ [''ntfy'']) else (r2, n2))"

lemma watchdog_router: "build_alerting_router_from_env env getenv = (build_alert_router env getenv, router_backends (build_alert_router env getenv))"
  by (simp add: build_alerting_router_from_env_def build_alert_router_def router_backends_def new_router_def add_backend_def
      new_pagerduty_def new_opsgenie_def new_ntfy_def Let_def)

text \<open>What \<open>runWatchdog\<close> does before it scans.\<close>

datatype wd_err = WdInterval int | WdHome string | WdMkdir path ioerr | WdLog log_err

definition watchdog_setup ::
  "faults \<Rightarrow> (string, path) result \<Rightarrow> int \<Rightarrow> path \<Rightarrow> path \<Rightarrow> path \<Rightarrow> fs \<Rightarrow> (wd_err \<times> fs, (path \<times> path \<times> logger) \<times> fs) result" where
  "watchdog_setup flt home interval heartbeats state log fs =
     (if interval < 10 * second then err (WdInterval interval, fs)
      else (case expand_home_path home heartbeats of Inl e \<Rightarrow> err (WdHome e, fs) | Inr hb \<Rightarrow>
           (case expand_home_path home state of Inl e \<Rightarrow> err (WdHome e, fs) | Inr st \<Rightarrow>
           (case os_mkdir_all flt fs st mode_0755 of Inl (e, fs') \<Rightarrow> err (WdMkdir st e, fs') | Inr fs1 \<Rightarrow>
           (case expand_home_path home log of Inl e \<Rightarrow> err (WdHome e, fs1) | Inr lp \<Rightarrow>
           (case log_open flt fs1 lp of
              Inl (e, fs') \<Rightarrow> err (WdLog e, fs')
            | Inr (l, fs2) \<Rightarrow> ok ((hb, st, l), fs2)))))))"

section \<open>The alert state of a host\<close>

text \<open>Abstractly a host has the time of its last alert, or none: its marker.  The abstract machine says
  what each outcome of a scan at time \<open>now\<close> does to it.\<close>

definition mark :: "wd_cfg \<Rightarrow> 'n wd_world \<Rightarrow> string \<Rightarrow> gtime option" where
  "mark cfg w h = (if map_of (ww_fs w) (wd_marker cfg h) = None then None else Some (ww_mt w (wd_marker cfg h)))"

fun mark_step :: "int \<Rightarrow> gtime \<Rightarrow> hb_outcome \<Rightarrow> gtime option \<Rightarrow> gtime option \<Rightarrow> bool" where
  "mark_step window now HAlerted m m' \<longleftrightarrow> m' = Some now \<and> (case m of None \<Rightarrow> True | Some t \<Rightarrow> window \<le> time_sub now t)"
| "mark_step window now HMarkFailed m m' \<longleftrightarrow> False"
| "mark_step window now HRecovered m m' \<longleftrightarrow> m \<noteq> None \<and> m' = None"
| "mark_step window now HQuiet m m' \<longleftrightarrow> m = None \<and> m' = None"
| "mark_step window now HSuppressed m m' \<longleftrightarrow> (\<exists>t. m = Some t \<and> time_sub now t < window) \<and> m' = m"
| "mark_step window now HAlertFailed m m' \<longleftrightarrow> m' = m"
| "mark_step window now HRecoverFailed m m' \<longleftrightarrow> m \<noteq> None \<and> m' = m"
| "mark_step window now HUnmarkFailed m m' \<longleftrightarrow> m \<noteq> None \<and> m' = m"

text \<open>The state directory is there and no marker is a directory; the log is not a marker; the system
  calls on markers other than \<open>os.Remove\<close> succeed.\<close>

definition markers_ok :: "wd_cfg \<Rightarrow> 'n wd_world \<Rightarrow> bool" where
  "markers_ok cfg w \<longleftrightarrow> is_dir (ww_fs w) (wc_state cfg) \<and> (\<forall>h. SLASH \<notin> set h \<longrightarrow> \<not> is_dir (ww_fs w) (wd_marker cfg h))"

definition wd_ok :: "wd_cfg \<Rightarrow> logger \<Rightarrow> bool" where
  "wd_ok cfg l \<longleftrightarrow> proper_dir (wc_state cfg) \<and> lg_w l \<noteq> Some (wc_state cfg) \<and> (\<forall>h. SLASH \<notin> set h \<longrightarrow> lg_w l \<noteq> Some (wd_marker cfg h))"

definition tick_ok :: "wd_cfg \<Rightarrow> tick \<Rightarrow> bool" where
  "tick_ok cfg tk \<longleftrightarrow>
     (\<forall>h. SLASH \<notin> set h \<longrightarrow>
        list_all (\<lambda>op. tk_flt tk (op (wd_marker cfg h)) = None) [FStat, FOpen, FWrite, FClose, FChtimes])"

lemma wd_marker_child: "proper_dir (wc_state cfg) \<Longrightarrow> SLASH \<notin> set h \<Longrightarrow> wd_marker cfg h = wc_state cfg @ SLASH # ''.alerted-'' @ h"
  unfolding wd_marker_def by (subst join2_child) (simp_all add: plain_name_def)

lemma wd_marker_inj:
  assumes "proper_dir (wc_state cfg)" "SLASH \<notin> set h" "SLASH \<notin> set h'"
  shows "wd_marker cfg h = wd_marker cfg h' \<longleftrightarrow> h = h'"
  using assms by (simp add: wd_marker_child)

lemma wd_marker_dir:
  assumes "proper_dir (wc_state cfg)" "SLASH \<notin> set h"
  shows "dir_path (wd_marker cfg h) = wc_state cfg" "wd_marker cfg h \<noteq> wc_state cfg"
  using assms dir_path_child [of "wc_state cfg" "''.alerted-'' @ h"] by (simp_all add: wd_marker_child plain_name_def)

text \<open>What an operation of the scan may touch: nothing of the markers but the one of \<open>h\<close>.\<close>

definition keeps :: "'n wd_world \<Rightarrow> 'n wd_world \<Rightarrow> path \<Rightarrow> bool" where
  "keeps w w' q \<longleftrightarrow> map_of (ww_fs w') q = map_of (ww_fs w) q \<and> ww_mt w' q = ww_mt w q"

lemma keeps_refl [simp]: "keeps w w q"
  by (simp add: keeps_def)

lemma keeps_trans: "keeps w w1 q \<Longrightarrow> keeps w1 w2 q \<Longrightarrow> keeps w w2 q"
  by (simp add: keeps_def)

lemma wd_log_keeps: "lg_w l \<noteq> Some q \<Longrightarrow> keeps w (wd_log l tk n a r s w) q"
  by (simp add: keeps_def wd_log_def Let_def log_step_other)

lemma wd_fire_keeps: "wd_fire r tk a w = (w', e) \<Longrightarrow> keeps w w' q"
  by (auto simp: keeps_def wd_fire_def split: prod.splits)

lemma keeps_mark: "keeps w w' (wd_marker cfg h) \<Longrightarrow> mark cfg w' h = mark cfg w h"
  by (simp add: keeps_def mark_def)

lemma write_file_at_ok:
  assumes "write_file_at flt wall w p b m = (w', None)"
  shows "file_data (ww_fs w') p = Some b" "ww_mt w' p = wall" "q \<noteq> p \<Longrightarrow> keeps w w' q"
proof -
  obtain fs' where f: "os_write_file flt (ww_fs w) p b m = ok fs'"
    using assms by (auto simp: write_file_at_def Let_def split: sum.splits prod.splits)
  then obtain fs1 where "os_open_create flt True (ww_fs w) p m = ok fs1"
    by (auto simp: os_write_file_def split: sum.splits)
  then have w': "w' = w\<lparr> ww_fs := fs', ww_mt := (ww_mt w)(p := wall) \<rparr>" using assms f by (simp add: write_file_at_def)
  show "file_data (ww_fs w') p = Some b" "ww_mt w' p = wall" using write_file_ok [OF f] by (simp_all add: w')
  show "q \<noteq> p \<Longrightarrow> keeps w w' q" using write_file_other [of flt "ww_fs w" p b m fs' _ q] f by (simp add: keeps_def w')
qed

lemma write_file_at_other:
  assumes "write_file_at flt wall w p b m = (w', e)" "q \<noteq> p"
  shows "keeps w w' q"
proof (cases e)
  case None
  then show ?thesis using write_file_at_ok(3) assms by blast
next
  case (Some x)
  then obtain ioe fs' where f: "os_write_file flt (ww_fs w) p b m = err (ioe, fs')" "ww_fs w' = fs'" "ww_mt w' q = ww_mt w q"
    using assms by (auto simp: write_file_at_def Let_def split: sum.splits prod.splits)
  then show ?thesis using write_file_other [of flt "ww_fs w" p b m fs' ioe q] assms(2) by (simp add: keeps_def)
qed

lemma write_marker_effect:
  assumes "wd_ok cfg l" "tick_ok cfg tk" "markers_ok cfg w" "SLASH \<notin> set h"
  obtains w' where "write_marker tk w (wd_marker cfg h) now = (w', None)" "mark cfg w' h = Some now"
    "\<not> is_dir (ww_fs w') (wd_marker cfg h)" "\<And>q. q \<noteq> wd_marker cfg h \<Longrightarrow> keeps w w' q"
proof -
  let ?p = "wd_marker cfg h" and ?flt = "tk_flt tk"
  have flt: "?flt (FOpen ?p) = None" "?flt (FWrite ?p) = None" "?flt (FClose ?p) = None" "?flt (FChtimes ?p) = None"
    using assms(2,4) by (auto simp: tick_ok_def)
  have d: "is_dir (ww_fs w) (dir_path ?p)" "\<not> is_dir (ww_fs w) ?p"
    using assms wd_marker_dir(1) by (auto simp: markers_ok_def wd_ok_def)
  obtain fs1 where o: "os_open_create ?flt True (ww_fs w) ?p mode_0644 = ok fs1"
    using d flt(1) by (auto simp: os_open_create_def is_dir_def split: option.splits fnode.splits)
  let ?b = "format_rfc3339 (to_utc now) @ [NL]"
  obtain fs' where "os_write_file ?flt (ww_fs w) ?p ?b mode_0644 = ok fs'"
    using o flt by (simp add: os_write_file_def os_write_def os_close_def)
  then obtain w1 where w1: "write_file_at ?flt (tk_wall tk) w ?p ?b mode_0644 = (w1, None)"
    using o by (simp add: write_file_at_def)
  let ?w = "w1\<lparr> ww_mt := (ww_mt w1)(?p := now) \<rparr>"
  note f = write_file_at_ok [OF w1]
  show ?thesis
  proof (rule that)
    show "write_marker tk w ?p now = (?w, None)" using w1 flt(4) by (simp add: write_marker_def)
    show "mark cfg ?w h = Some now" using f(1) by (auto simp: mark_def file_data_def split: option.splits)
    show "\<not> is_dir (ww_fs ?w) ?p" using f(1) by (auto simp: is_dir_def file_data_def split: option.splits fnode.splits)
    show "keeps w ?w q" if "q \<noteq> ?p" for q using that f(3) by (simp add: keeps_def)
  qed
qed

lemma read_marker_mark:
  assumes "tick_ok cfg tk" "SLASH \<notin> set h"
  shows "read_marker_time (tk_flt tk) w (wd_marker cfg h) = mark cfg w h"
proof -
  have "tk_flt tk (FStat (wd_marker cfg h)) = None" using assms by (auto simp: tick_ok_def)
  then show ?thesis by (simp add: read_marker_time_def os_stat_def mark_def split: option.splits)
qed

text \<open>A scan of one host is a step of the abstract machine on its marker and leaves the other markers
  and the state directory alone.\<close>

definition host_effect :: "wd_cfg \<Rightarrow> logger \<Rightarrow> tick \<Rightarrow> string \<Rightarrow> 'n wd_world \<Rightarrow> 'n wd_world \<Rightarrow> hb_outcome \<Rightarrow> bool" where
  "host_effect cfg l tk h w w' x \<longleftrightarrow>
     mark_step (wc_dedup cfg) (tk_now tk) x (mark cfg w h) (mark cfg w' h)
     \<and> (is_dir (ww_fs w') (wd_marker cfg h) \<longrightarrow> is_dir (ww_fs w) (wd_marker cfg h))
     \<and> (\<forall>q. q \<noteq> wd_marker cfg h \<longrightarrow> lg_w l \<noteq> Some q \<longrightarrow> keeps w w' q)"

lemma keeps_is_dir: "keeps w w' q \<Longrightarrow> is_dir (ww_fs w') q = is_dir (ww_fs w) q"
  by (simp add: keeps_def is_dir_def)

lemma effect_log:
  assumes "wd_ok cfg l" "SLASH \<notin> set h" "host_effect cfg l tk h w w1 x"
  shows "host_effect cfg l tk h w (wd_log l tk n a res s w1) x"
proof -
  have k: "keeps w1 (wd_log l tk n a res s w1) (wd_marker cfg h)"
    using assms(1,2) by (intro wd_log_keeps) (auto simp: wd_ok_def)
  show ?thesis
    using assms(3) keeps_mark [OF k] keeps_is_dir [OF k] keeps_trans [OF _ wd_log_keeps]
    unfolding host_effect_def by metis
qed

lemma effect_unchanged:
  assumes "\<And>q. keeps w w' q" "mark_step (wc_dedup cfg) (tk_now tk) x (mark cfg w h) (mark cfg w h)"
  shows "host_effect cfg l tk h w w' x"
  using assms keeps_mark [OF assms(1)] keeps_is_dir [OF assms(1)] by (simp add: host_effect_def)

lemma effect_from:
  assumes "\<And>q. keeps w w1 q" "host_effect cfg l tk h w1 w2 x"
  shows "host_effect cfg l tk h w w2 x"
  using assms(2) keeps_mark [OF assms(1)] keeps_is_dir [OF assms(1)] keeps_trans [OF assms(1)]
  by (simp add: host_effect_def)

lemma handle_stale_effect:
  assumes "wd_ok cfg l" "tick_ok cfg tk" "markers_ok cfg w" "SLASH \<notin> set h"
    and "case mark cfg w h of None \<Rightarrow> True | Some t \<Rightarrow> wc_dedup cfg \<le> time_sub (tk_now tk) t"
    and "handle_stale cfg l r tk h mtime w = (w', x)"
  shows "host_effect cfg l tk h w w' x"
proof -
  obtain w1 e where f: "wd_fire r tk (stale_alert cfg (tk_now tk) h mtime) w = (w1, e)" by (metis surj_pair)
  note k = wd_fire_keeps [OF f]
  show ?thesis
  proof (cases e)
    case (Some m)
    then have "x = HAlertFailed" "w' = wd_log l tk h ''alert-stale'' ''error'' m w1"
      using assms(6) f by (auto simp: handle_stale_def)
    then show ?thesis using effect_log [OF assms(1,4) effect_unchanged [OF k]] by simp
  next
    case None
    have "markers_ok cfg w1" using assms(3) keeps_is_dir [OF k] by (simp add: markers_ok_def)
    then obtain w2 where w2: "write_marker tk w1 (wd_marker cfg h) (tk_now tk) = (w2, None)" "mark cfg w2 h = Some (tk_now tk)"
      "\<not> is_dir (ww_fs w2) (wd_marker cfg h)" "\<And>q. q \<noteq> wd_marker cfg h \<Longrightarrow> keeps w1 w2 q"
      using write_marker_effect [OF assms(1,2) _ assms(4)] by metis
    then have "x = HAlerted" "w' = wd_log l tk h ''alert-stale'' ''ok'' (''age='' @ round_secs (time_sub (tk_now tk) mtime)) w2"
      using assms(6) f None by (auto simp: handle_stale_def)
    moreover have "host_effect cfg l tk h w1 w2 HAlerted"
      using w2 assms(5) keeps_mark [OF k] by (auto simp: host_effect_def)
    ultimately show ?thesis using effect_log [OF assms(1,4) effect_from [OF k]] by simp
  qed
qed

lemma handle_recovered_effect:
  assumes "wd_ok cfg l" "SLASH \<notin> set h" "mark cfg w h \<noteq> None"
    and "handle_recovered cfg l r tk h mtime w = (w', x)"
  shows "host_effect cfg l tk h w w' x"
proof -
  obtain w1 e where f: "wd_fire r tk (recovered_alert cfg (tk_now tk) h mtime) w = (w1, e)" by (metis surj_pair)
  note k = wd_fire_keeps [OF f]
  have m: "mark cfg w1 h \<noteq> None" using assms(3) keeps_mark [OF k] by simp
  consider (failed) msg where "e = Some msg" | (kept) ioe where "e = None" "os_remove (tk_flt tk) (ww_fs w1) (wd_marker cfg h) = err ioe" "ioe \<noteq> NotExist"
    | (gone) fs' where "e = None" "os_remove (tk_flt tk) (ww_fs w1) (wd_marker cfg h) = ok fs'"
    using os_remove_absent [of "tk_flt tk" "ww_fs w1" "wd_marker cfg h"] m by (cases e; cases "os_remove (tk_flt tk) (ww_fs w1) (wd_marker cfg h)") (auto simp: mark_def split: if_splits)
  then show ?thesis
  proof cases
    case failed
    then have "x = HRecoverFailed" "w' = wd_log l tk h ''alert-recovered'' ''error'' msg w1"
      using assms(4) f by (auto simp: handle_recovered_def)
    then show ?thesis using effect_log [OF assms(1,2) effect_unchanged [OF k]] assms(3) by simp
  next
    case kept
    then have "x = HUnmarkFailed" "w' = wd_log l tk h ''remove-marker'' ''error'' (path_error ''remove'' (wd_marker cfg h) ioe) w1"
      using assms(4) f by (auto simp: handle_recovered_def split: ioerr.splits)
    then show ?thesis using effect_log [OF assms(1,2) effect_unchanged [OF k]] assms(3) by simp
  next
    case gone
    let ?w2 = "w1\<lparr> ww_fs := fs' \<rparr>"
    have "x = HRecovered" "w' = wd_log l tk h ''alert-recovered'' ''ok'' (''age='' @ round_secs (time_sub (tk_now tk) mtime)) ?w2"
      using assms(4) f gone by (auto simp: handle_recovered_def Let_def)
    moreover have "host_effect cfg l tk h w1 ?w2 HRecovered"
      using m os_remove_effect [OF gone(2)] by (simp add: host_effect_def mark_def keeps_def is_dir_def)
    ultimately show ?thesis using effect_log [OF assms(1,2) effect_from [OF k]] by simp
  qed
qed

lemma scan_host_effect:
  assumes "wd_ok cfg l" "tick_ok cfg tk" "markers_ok cfg w" "SLASH \<notin> set h"
    and "scan_host cfg l r tk (h, mtime) w = (w', x)"
  shows "host_effect cfg l tk h w w' x"
proof -
  let ?now = "tk_now tk" and ?m = "mark cfg w h"
  have rm: "read_marker_time (tk_flt tk) w (wd_marker cfg h) = ?m" by (rule read_marker_mark [OF assms(2,4)])
  consider (quiet) "x = HQuiet" "w' = w" "?m = None"
    | (suppressed) t s where "x = HSuppressed" "?m = Some t" "time_sub ?now t < wc_dedup cfg" "w' = wd_log l tk h ''stale-suppressed'' ''ok'' s w"
    | (stale) "case ?m of None \<Rightarrow> True | Some t \<Rightarrow> wc_dedup cfg \<le> time_sub ?now t" "handle_stale cfg l r tk h mtime w = (w', x)"
    | (recovered) "?m \<noteq> None" "handle_recovered cfg l r tk h mtime w = (w', x)"
  proof (cases ?m)
    case None
    then show ?thesis
      using that(1,3) assms(5) rm by (cases "wc_stale_max cfg < time_sub ?now mtime") (simp_all add: scan_host_def Let_def)
  next
    case (Some t)
    show ?thesis
    proof (cases "wc_stale_max cfg < time_sub ?now mtime")
      case True
      then show ?thesis
        using that(2) [of t] that(3) assms(5) rm Some by (cases "time_sub ?now t < wc_dedup cfg") (auto simp: scan_host_def Let_def)
    next
      case False
      then show ?thesis using that(4) assms(5) rm Some by (simp add: scan_host_def Let_def)
    qed
  qed
  then show ?thesis
  proof cases
    case quiet
    then show ?thesis by (intro effect_unchanged) simp_all
  next
    case suppressed
    then have "host_effect cfg l tk h w w x" by (intro effect_unchanged) simp_all
    then show ?thesis unfolding suppressed(4) by (rule effect_log [OF assms(1,4)])
  next
    case stale
    then show ?thesis using handle_stale_effect [OF assms(1-4)] by simp
  next
    case recovered
    then show ?thesis using handle_recovered_effect [OF assms(1,4)] by simp
  qed
qed

section \<open>A scan is one step of every host's machine\<close>

lemma distinct_sort_fst: "distinct (map fst (sort_key fst xs)) = distinct (map fst xs)"
  by (rule mset_eq_imp_distinct_iff) (simp only: mset_map mset_sort)

lemma heartbeat_hosts:
  assumes "read_heartbeat_dir flt w dir = ok es"
  shows "distinct (map fst es)" "list_all (\<lambda>(h, _). SLASH \<notin> set h) es"
proof -
  obtain ents where e: "os_read_dir flt (ww_fs w) dir = ok ents"
    using assms by (auto simp: read_heartbeat_dir_def split: sum.splits)
  let ?P = "\<lambda>(name, _). \<not> has_prefix name ''.'' \<and> has_suffix name ''.json'' \<and> flt (FStat (join2 dir name)) = None"
  let ?f = "\<lambda>(name, _). (trim_suffix name ''.json'', ww_mt w (join2 dir name))"
  have es: "es = sort_key fst (map ?f (filter ?P ents))" using assms e by (simp add: read_heartbeat_dir_def)
  have ents: "ents = dir_entries (ww_fs w) dir" using e by (auto simp: os_read_dir_def split: option.splits fnode.splits)
  have m: "map fst (map ?f xs) = map (\<lambda>n. trim_suffix n ''.json'') (map fst xs)" for xs :: "(string \<times> bool) list"
    by (simp add: comp_def case_prod_beta)
  have "distinct (map fst (filter ?P ents))"
    unfolding ents by (rule distinct_map_filter [OF dir_entries_distinct])
  moreover have "inj_on (\<lambda>n. trim_suffix n ''.json'') (set (map fst (filter ?P ents)))"
    by (auto simp: inj_on_def intro: trim_suffix_inj)
  ultimately have "distinct (map (\<lambda>n. trim_suffix n ''.json'') (map fst (filter ?P ents)))"
    by (simp only: distinct_map)
  then show "distinct (map fst es)" unfolding es distinct_sort_fst m .
  have "SLASH \<notin> set (trim_suffix n ''.json'')" if "(n, d) \<in> set (filter ?P ents)" for n d
    using that dir_entries_names [of n d "ww_fs w" dir] trim_suffix_subset [of n "''.json''"]
    by (auto simp: ents has_suffix_def)
  then show "list_all (\<lambda>(h, _). SLASH \<notin> set h) es" unfolding es by (auto simp: list_all_iff)
qed

definition cycle_effect :: "wd_cfg \<Rightarrow> tick \<Rightarrow> 'n wd_world \<Rightarrow> 'n wd_world \<Rightarrow> (string \<times> hb_outcome) list \<Rightarrow> bool" where
  "cycle_effect cfg tk w w' xs \<longleftrightarrow>
     (\<forall>h. SLASH \<notin> set h \<longrightarrow>
        (case map_of xs h of
           None \<Rightarrow> mark cfg w' h = mark cfg w h
         | Some x \<Rightarrow> mark_step (wc_dedup cfg) (tk_now tk) x (mark cfg w h) (mark cfg w' h)))"

lemma effect_others:
  assumes "wd_ok cfg l" "host_effect cfg l tk h w w' x" "SLASH \<notin> set h"
  shows "markers_ok cfg w \<Longrightarrow> markers_ok cfg w'" "SLASH \<notin> set h' \<Longrightarrow> h' \<noteq> h \<Longrightarrow> mark cfg w' h' = mark cfg w h'"
proof -
  have p: "proper_dir (wc_state cfg)" using assms(1) by (simp add: wd_ok_def)
  have k: "keeps w w' q" if "q \<noteq> wd_marker cfg h" "lg_w l \<noteq> Some q" for q
    using assms(2) that by (simp add: host_effect_def)
  have o: "keeps w w' (wd_marker cfg h'')" if "SLASH \<notin> set h''" "h'' \<noteq> h" for h''
    using k assms(1,3) that wd_marker_inj [OF p that(1) assms(3)] by (simp add: wd_ok_def)
  show "mark cfg w' h' = mark cfg w h'" if "SLASH \<notin> set h'" "h' \<noteq> h" using keeps_mark [OF o [OF that]] .
  assume m: "markers_ok cfg w"
  have "keeps w w' (wc_state cfg)" using k wd_marker_dir(2) [OF p assms(3)] assms(1) by (auto simp: wd_ok_def)
  moreover have "\<not> is_dir (ww_fs w') (wd_marker cfg h'')" if "SLASH \<notin> set h''" for h''
    using m that o [OF that] assms(2) keeps_is_dir by (cases "h'' = h") (auto simp: markers_ok_def host_effect_def)
  ultimately show "markers_ok cfg w'" using m keeps_is_dir by (auto simp: markers_ok_def)
qed

lemma scan_hosts_effect:
  assumes "wd_ok cfg l" "tick_ok cfg tk" "markers_ok cfg w" "distinct (map fst es)" "list_all (\<lambda>(h, _). SLASH \<notin> set h) es"
    and "scan_hosts cfg l r tk es w = (w', xs)"
  shows "map fst xs = map fst es \<and> markers_ok cfg w' \<and> cycle_effect cfg tk w w' xs"
  using assms
proof (induction es arbitrary: w xs)
  case Nil
  then show ?case by (simp add: cycle_effect_def)
next
  case (Cons e es)
  obtain h m where e: "e = (h, m)" by (cases e)
  obtain w1 x where s1: "scan_host cfg l r tk (h, m) w = (w1, x)" by (metis surj_pair)
  obtain ys where s2: "scan_hosts cfg l r tk es w1 = (w', ys)" and xs: "xs = (h, x) # ys"
    using Cons.prems(6) s1 e by (auto split: prod.splits)
  have h: "SLASH \<notin> set h" using Cons.prems(5) e by simp
  have eff: "host_effect cfg l tk h w w1 x" using scan_host_effect [OF Cons.prems(1,2,3) h s1] .
  note others = effect_others [OF Cons.prems(1) eff h]
  have IH: "map fst ys = map fst es" "markers_ok cfg w'" "cycle_effect cfg tk w1 w' ys"
    using Cons.IH [OF Cons.prems(1,2) others(1) [OF Cons.prems(3)] _ _ s2] Cons.prems(4,5) by simp_all
  have "map_of ys h = None" using Cons.prems(4) e IH(1) by (simp add: map_of_eq_None_iff flip: set_map)
  moreover have "mark cfg w1 h' = mark cfg w h'" if "SLASH \<notin> set h'" "h' \<noteq> h" for h' using others(2) that .
  ultimately have "cycle_effect cfg tk w w' xs"
    using IH(3) eff h unfolding xs cycle_effect_def host_effect_def
    by (auto split: option.splits) (metis option.simps(4,5))+
  then show ?case using IH e xs by simp
qed

lemma scan_cycle_effect:
  assumes "wd_ok cfg l" "tick_ok cfg tk" "markers_ok cfg w" "scan_cycle cfg l r tk w = (w', xs, n, any_err)"
  shows "markers_ok cfg w' \<and> cycle_effect cfg tk w w' xs"
proof -
  have log: "markers_ok cfg (wd_log l tk a b c d w) \<and> cycle_effect cfg tk w (wd_log l tk a b c d w) []" for a b c d
  proof -
    have "keeps w (wd_log l tk a b c d w) (wd_marker cfg h)" "keeps w (wd_log l tk a b c d w) (wc_state cfg)" if "SLASH \<notin> set h" for h
      using assms(1) that by (auto simp: wd_ok_def intro: wd_log_keeps)
    then have "mark cfg (wd_log l tk a b c d w) h = mark cfg w h"
      "is_dir (ww_fs (wd_log l tk a b c d w)) (wd_marker cfg h) = is_dir (ww_fs w) (wd_marker cfg h)"
      "is_dir (ww_fs (wd_log l tk a b c d w)) (wc_state cfg) = is_dir (ww_fs w) (wc_state cfg)" if "SLASH \<notin> set h" for h
      using that keeps_mark keeps_is_dir by metis+
    then show ?thesis using assms(3) by (auto simp: markers_ok_def cycle_effect_def) (metis empty_iff list.set(1))+
  qed
  show ?thesis
  proof (cases "read_heartbeat_dir (tk_flt tk) w (wc_heartbeats cfg)")
    case (Inl e)
    then show ?thesis using assms(4) log by (auto simp: scan_cycle_def)
  next
    case (Inr es)
    show ?thesis
    proof (cases "es = []")
      case True
      then show ?thesis using Inr assms(4) log by (auto simp: scan_cycle_def)
    next
      case False
      then have "scan_hosts cfg l r tk es w = (w', xs)"
        using Inr assms(4) by (auto simp: scan_cycle_def split: list.splits prod.splits)
      then show ?thesis using scan_hosts_effect [OF assms(1-3) heartbeat_hosts [OF Inr]] by blast
    qed
  qed
qed

section \<open>Runs of the watchdog\<close>

text \<open>A run is a sequence of scans between which the rest of the system may do anything except touch
  the markers: heartbeats are written, backends come and go, the log is rotated.  Its trace has the time
  and the outcomes of every scan.\<close>

type_synonym wd_trace = "(gtime \<times> (string \<times> hb_outcome) list) list"

definition markers_kept :: "wd_cfg \<Rightarrow> 'n wd_world \<Rightarrow> 'n wd_world \<Rightarrow> bool" where
  "markers_kept cfg w w' \<longleftrightarrow> keeps w w' (wc_state cfg) \<and> (\<forall>h. SLASH \<notin> set h \<longrightarrow> keeps w w' (wd_marker cfg h))"

inductive wd_run :: "wd_cfg \<Rightarrow> logger \<Rightarrow> 'n router \<Rightarrow> 'n wd_world \<Rightarrow> wd_trace \<Rightarrow> 'n wd_world \<Rightarrow> bool"
  for cfg l r w0 where
  wd_start: "wd_run cfg l r w0 [] w0"
| wd_scan: "wd_run cfg l r w0 tr w \<Longrightarrow> tick_ok cfg tk \<Longrightarrow> scan_cycle cfg l r tk w = (w', xs, n, any_err)
    \<Longrightarrow> wd_run cfg l r w0 (tr @ [(tk_now tk, xs)]) w'"
| wd_env: "wd_run cfg l r w0 tr w \<Longrightarrow> markers_kept cfg w w' \<Longrightarrow> wd_run cfg l r w0 tr w'"

fun mark_after :: "gtime \<Rightarrow> hb_outcome option \<Rightarrow> gtime option \<Rightarrow> gtime option" where
  "mark_after t (Some HAlerted) m = Some t"
| "mark_after t (Some HRecovered) m = None"
| "mark_after t _ m = m"

definition track :: "string \<Rightarrow> gtime option \<Rightarrow> wd_trace \<Rightarrow> gtime option" where
  "track h m tr = foldl (\<lambda>m (t, xs). mark_after t (map_of xs h) m) m tr"

lemma track_simps [simp]: "track h m [] = m" "track h m (tr @ [(t, xs)]) = mark_after t (map_of xs h) (track h m tr)"
  by (simp_all add: track_def)

lemma mark_step_after: "mark_step window t x m m' \<Longrightarrow> m' = mark_after t (Some x) m"
  by (cases x) auto

definition legal_at :: "int \<Rightarrow> string \<Rightarrow> gtime option \<Rightarrow> gtime \<times> (string \<times> hb_outcome) list \<Rightarrow> bool" where
  "legal_at window h m e \<longleftrightarrow>
     (case map_of (snd e) h of None \<Rightarrow> True | Some x \<Rightarrow> mark_step window (fst e) x m (mark_after (fst e) (Some x) m))"

lemma run_track:
  assumes "wd_run cfg l r w0 tr w" "wd_ok cfg l" "markers_ok cfg w0" "SLASH \<notin> set h"
  shows "markers_ok cfg w \<and> mark cfg w h = track h (mark cfg w0 h) tr
    \<and> (\<forall>pre e post. tr = pre @ e # post \<longrightarrow> legal_at (wc_dedup cfg) h (track h (mark cfg w0 h) pre) e)"
  using assms
proof (induction rule: wd_run.induct)
  case wd_start
  then show ?case by simp
next
  case (wd_scan tr w tk w' xs n any_err)
  then have IH: "markers_ok cfg w" "mark cfg w h = track h (mark cfg w0 h) tr"
    "\<And>pre e post. tr = pre @ e # post \<Longrightarrow> legal_at (wc_dedup cfg) h (track h (mark cfg w0 h) pre) e" by blast+
  have eff: "markers_ok cfg w'" "cycle_effect cfg tk w w' xs"
    using scan_cycle_effect [OF wd_scan.prems(1) wd_scan.hyps(2) IH(1) wd_scan.hyps(3)] by auto
  have m: "mark cfg w' h = mark_after (tk_now tk) (map_of xs h) (mark cfg w h)
     \<and> legal_at (wc_dedup cfg) h (mark cfg w h) (tk_now tk, xs)"
  proof (cases "map_of xs h")
    case None
    then have "mark cfg w' h = mark cfg w h" using eff(2) wd_scan.prems(3) by (fastforce simp: cycle_effect_def)
    then show ?thesis using None by (simp add: legal_at_def)
  next
    case (Some x)
    then have st: "mark_step (wc_dedup cfg) (tk_now tk) x (mark cfg w h) (mark cfg w' h)"
      using eff(2) wd_scan.prems(3) by (fastforce simp: cycle_effect_def)
    show ?thesis using Some st unfolding legal_at_def mark_step_after [OF st] by simp
  qed
  have "legal_at (wc_dedup cfg) h (track h (mark cfg w0 h) pre) e" if "tr @ [(tk_now tk, xs)] = pre @ e # post" for pre e post
  proof (cases post rule: rev_cases)
    case Nil
    then show ?thesis using that m IH(2) by simp
  next
    case (snoc post' x)
    then show ?thesis using that IH(3) [of pre e post'] by simp
  qed
  then show ?case using eff(1) m IH(2) by simp
next
  case (wd_env tr w w')
  have k: "keeps w w' (wc_state cfg)" "\<And>h. SLASH \<notin> set h \<Longrightarrow> keeps w w' (wd_marker cfg h)"
    using wd_env.hyps(2) by (auto simp: markers_kept_def)
  have "markers_ok cfg w'"
    using wd_env keeps_is_dir [OF k(1)] keeps_is_dir [OF k(2)] by (auto simp: markers_ok_def)
  then show ?case using wd_env keeps_mark [OF k(2) [OF wd_env.prems(3)]] by simp
qed

text \<open>Along a legal trace the marker of a host that was alerted and did not recover since is not
  older than that alert.\<close>

definition legal_trace :: "int \<Rightarrow> string \<Rightarrow> gtime option \<Rightarrow> wd_trace \<Rightarrow> bool" where
  "legal_trace window h m tr \<longleftrightarrow> (\<forall>pre e post. tr = pre @ e # post \<longrightarrow> legal_at window h (track h m pre) e)"

lemma legal_trace_prefix: "legal_trace window h m (tr @ tr') \<Longrightarrow> legal_trace window h m tr"
  by (auto simp: legal_trace_def)

definition outcome_of :: "gtime \<times> (string \<times> hb_outcome) list \<Rightarrow> string \<Rightarrow> hb_outcome option" where
  "outcome_of e h = map_of (snd e) h"

lemma track_alerted:
  assumes "legal_trace window h m (xs @ e1 # ys)" "outcome_of e1 h = Some HAlerted"
    "\<And>e. e \<in> set ys \<Longrightarrow> outcome_of e h \<noteq> Some HRecovered" "in_int64 window" "0 \<le> window"
  shows "\<exists>tm. track h m (xs @ e1 # ys) = Some tm \<and> t_ns (fst e1) \<le> t_ns tm"
  using assms(1,3)
proof (induction ys rule: rev_induct)
  case Nil
  then show ?case using assms(2) track_simps(2) [of h m xs "fst e1" "snd e1"] by (simp add: outcome_of_def)
next
  case (snoc e ys)
  have "legal_trace window h m (xs @ e1 # ys)" using legal_trace_prefix [of window h m "xs @ e1 # ys" "[e]"] snoc.prems(1) by simp
  then obtain tm where tm: "track h m (xs @ e1 # ys) = Some tm" "t_ns (fst e1) \<le> t_ns tm"
    using snoc.IH snoc.prems(2) by auto
  have leg: "legal_at window h (Some tm) e"
    using snoc.prems(1) tm(1) unfolding legal_trace_def by (metis append.assoc append_Cons)
  have tr: "track h m (xs @ e1 # ys @ [e]) = mark_after (fst e) (outcome_of e h) (Some tm)"
    using track_simps(2) [of h m "xs @ e1 # ys" "fst e" "snd e"] tm(1) by (simp add: outcome_of_def)
  consider "outcome_of e h = Some HAlerted" | "mark_after (fst e) (outcome_of e h) (Some tm) = Some tm"
    using snoc.prems(2) [of e] by (cases "outcome_of e h"; cases "the (outcome_of e h)") auto
  then show ?case
  proof cases
    case 1
    then have "window \<le> time_sub (fst e) tm" using leg by (simp add: legal_at_def outcome_of_def)
    then have "t_ns tm + window \<le> t_ns (fst e)" using time_sub_ge [OF assms(4,5)] by simp
    then show ?thesis using 1 tr tm(2) assms(5) by simp
  next
    case 2
    then show ?thesis using tr tm(2) by simp
  qed
qed

lemma track_recovered:
  assumes "outcome_of e1 h = Some HRecovered" "\<And>e. e \<in> set ys \<Longrightarrow> outcome_of e h \<noteq> Some HAlerted"
  shows "track h m (xs @ e1 # ys) = None"
  using assms(2)
proof (induction ys rule: rev_induct)
  case Nil
  then show ?case using assms(1) track_simps(2) [of h m xs "fst e1" "snd e1"] by (simp add: outcome_of_def)
next
  case (snoc e ys)
  then have "track h m (xs @ e1 # ys) = None" "outcome_of e h \<noteq> Some HAlerted" by auto
  then show ?case
    using track_simps(2) [of h m "xs @ e1 # ys" "fst e" "snd e"]
    by (cases "outcome_of e h"; cases "the (outcome_of e h)") (auto simp: outcome_of_def)
qed

text \<open>C6. Alerts for one host keep their distance.  In any run of the watchdog in which the stat, open, write, close and
  chtimes calls on the alert markers succeed and nothing else touches the markers, whatever the backends answer and however
  the heartbeat files, the log, the removal of markers and the clock behave: if a critical alert for a host was delivered in one
  scan and another one is delivered in a later scan without a recovery (delivered, its marker removed) in between, then the later
  scan is at least the dedup window after the earlier one.\<close>

theorem alert_gap:
  assumes "wd_run cfg l r w0 tr w" "wd_ok cfg l" "markers_ok cfg w0" "in_int64 (wc_dedup cfg)" "0 \<le> wc_dedup cfg" "SLASH \<notin> set h"
    and "tr = xs @ e1 # ys @ e2 # zs" "outcome_of e1 h = Some HAlerted" "outcome_of e2 h \<in> {Some HAlerted, Some HMarkFailed}"
    and "list_all (\<lambda>e. outcome_of e h \<noteq> Some HRecovered) ys"
  shows "t_ns (fst e1) + wc_dedup cfg \<le> t_ns (fst e2)"
proof -
  let ?m = "mark cfg w0 h"
  have leg: "legal_trace (wc_dedup cfg) h ?m tr" using run_track [OF assms(1,2,3,6)] by (simp add: legal_trace_def)
  then have "legal_trace (wc_dedup cfg) h ?m (xs @ e1 # ys)"
    using legal_trace_prefix [of _ h ?m "xs @ e1 # ys" "e2 # zs"] assms(7) by simp
  then obtain tm where tm: "track h ?m (xs @ e1 # ys) = Some tm" "t_ns (fst e1) \<le> t_ns tm"
    using track_alerted [OF _ assms(8) _ assms(4,5)] assms(10) unfolding list_all_iff by blast
  have "tr = (xs @ e1 # ys) @ e2 # zs" using assms(7) by simp
  with leg have "legal_at (wc_dedup cfg) h (Some tm) e2" unfolding legal_trace_def tm(1) [symmetric] by blast
  then have "wc_dedup cfg \<le> time_sub (fst e2) tm" using assms(9) by (auto simp: legal_at_def outcome_of_def)
  then show ?thesis using time_sub_ge [OF assms(4,5)] tm(2) by fastforce
qed

text \<open>A gateway with one worker \<open>a\<close>, no backend and a closed log; \<open>demo_wd_world b m t\<close> has its
  heartbeat at time \<open>b\<close> and, if \<open>m\<close>, a marker of time \<open>t\<close>.\<close>

definition demo_wd_cfg :: wd_cfg where
  "demo_wd_cfg = \<lparr> wc_heartbeats = ''/h'', wc_state = ''/s'', wc_stale_max = 300000000000, wc_dedup = 3600000000000 \<rparr>"

definition demo_wd_logger :: logger where
  "demo_wd_logger = \<lparr> lg_w = None, lg_closer = False, lg_now = (\<lambda>t. t) \<rparr>"

definition demo_tick :: "int \<Rightarrow> tick" where
  "demo_tick t = \<lparr> tk_now = time_utc t, tk_flt = no_faults, tk_wall = time_utc t, tk_clk = (\<lambda>_. time_utc t) \<rparr>"

definition demo_wd_world :: "int \<Rightarrow> bool \<Rightarrow> int \<Rightarrow> unit wd_world" where
  "demo_wd_world b m t =
     \<lparr> ww_fs = [(''/h'', Dir mode_0755), (''/s'', Dir mode_0755), (''/h/a.json'', File [] mode_0644)]
          @ (if m then [(''/s/.alerted-a'', File (format_rfc3339 (to_utc (time_utc t)) @ [NL]) mode_0644)] else []),
       ww_mt = (\<lambda>p. if p = ''/s/.alerted-a'' then time_utc t else if p = ''/h/a.json'' then time_utc b else time_utc 0),
       ww_net = () \<rparr>"

lemma demo_wd_paths:
  "join2 ''/h'' ''a.json'' = ''/h/a.json''" "wd_marker demo_wd_cfg ''a'' = ''/s/.alerted-a''" "dir_path ''/s/.alerted-a'' = ''/s''"
  "dir_path ''/h/a.json'' = ''/h''" "base_path ''/h/a.json'' = ''a.json''" "dir_path ''/s'' = ''/''" "dir_path ''/h'' = ''/''" "proper_dir ''/s''"
  by code_simp+

lemma demo_heartbeats: "read_heartbeat_dir no_faults (demo_wd_world b m t) ''/h'' = ok [(''a'', time_utc b)]"
  by (cases m) (simp_all add: read_heartbeat_dir_def os_read_dir_def dir_entries_def demo_wd_world_def demo_wd_paths is_dir_def
      has_prefix_def has_suffix_def trim_suffix_def del: join_path.simps)

lemma closed_log: "wd_log demo_wd_logger tk n a res s w = w" for w :: "'n wd_world"
proof -
  have "log_step flt demo_wd_logger fs x = fs" for flt fs x
    by (simp add: log_step_def log_action_def demo_wd_logger_def)
  then show ?thesis by (simp add: wd_log_def Let_def)
qed

lemma demo_mark: "read_marker_time no_faults (demo_wd_world b m t) ''/s/.alerted-a'' = (if m then Some (time_utc t) else None)"
  by (simp add: read_marker_time_def os_stat_def demo_wd_world_def)

lemma demo_write: "write_marker (demo_tick t) (demo_wd_world b m t0) ''/s/.alerted-a'' (time_utc t) = (demo_wd_world b True t, None)"
  by (cases m) (auto simp: write_marker_def write_file_at_def demo_tick_def os_write_file_def os_open_create_def os_write_def os_close_def demo_wd_world_def
      demo_wd_paths is_dir_def intro!: ext)

lemma demo_remove: "os_remove no_faults (ww_fs (demo_wd_world b True t)) ''/s/.alerted-a'' = ok (ww_fs (demo_wd_world b False t))"
  by (simp add: os_remove_def demo_wd_world_def demo_wd_paths)

lemma demo_fire: "wd_fire [] tk a w = (w, None)"
  by (simp add: wd_fire_def router_fire_def)

lemma demo_scan_stale:
  assumes "300000000000 < t - b" "m \<longrightarrow> 3600000000000 \<le> t - t0" "t - b < 10 ^ 18" "t - t0 < 10 ^ 18"
  shows "scan_cycle demo_wd_cfg demo_wd_logger [] (demo_tick t) (demo_wd_world b m t0) = (demo_wd_world b True t, [(''a'', HAlerted)], 1, False)"
proof -
  have age: "time_sub (time_utc t) (time_utc b) = t - b" "m \<Longrightarrow> time_sub (time_utc t) (time_utc t0) = t - t0"
    using assms by (auto simp: time_sub_def clamp64_def time_utc_def min_int64_def max_int64_def)
  have st: "handle_stale demo_wd_cfg demo_wd_logger [] (demo_tick t) ''a'' (time_utc b) (demo_wd_world b m t0) = (demo_wd_world b True t, HAlerted)"
    using demo_write [of t b m t0] by (simp add: handle_stale_def demo_fire demo_wd_paths closed_log demo_tick_def)
  have "scan_host demo_wd_cfg demo_wd_logger [] (demo_tick t) (''a'', time_utc b) (demo_wd_world b m t0) = (demo_wd_world b True t, HAlerted)"
    using assms age st by (auto simp: scan_host_def demo_wd_paths demo_mark Let_def demo_tick_def demo_wd_cfg_def [symmetric])
      (auto simp: demo_wd_cfg_def)
  then show ?thesis
    using demo_heartbeats [of b m t0] by (simp add: scan_cycle_def demo_tick_def demo_wd_cfg_def)
qed

lemma demo_scan_fresh:
  assumes "t - b \<le> 300000000000" "0 \<le> t - b"
  shows "scan_cycle demo_wd_cfg demo_wd_logger [] (demo_tick t) (demo_wd_world b True t0) = (demo_wd_world b False t0, [(''a'', HRecovered)], 0, False)"
proof -
  have age: "time_sub (time_utc t) (time_utc b) = t - b"
    using assms by (auto simp: time_sub_def clamp64_def time_utc_def min_int64_def max_int64_def)
  have w: "demo_wd_world b True t0\<lparr> ww_fs := ww_fs (demo_wd_world b False t0) \<rparr> = demo_wd_world b False t0"
    by (simp add: demo_wd_world_def)
  have "handle_recovered demo_wd_cfg demo_wd_logger [] (demo_tick t) ''a'' (time_utc b) (demo_wd_world b True t0) = (demo_wd_world b False t0, HRecovered)"
    using demo_remove [of b t0] w by (simp add: handle_recovered_def demo_fire demo_wd_paths closed_log demo_tick_def Let_def)
  then have "scan_host demo_wd_cfg demo_wd_logger [] (demo_tick t) (''a'', time_utc b) (demo_wd_world b True t0) = (demo_wd_world b False t0, HRecovered)"
    using assms age by (auto simp: scan_host_def demo_wd_paths demo_mark Let_def demo_tick_def)
      (auto simp: demo_wd_cfg_def)
  then show ?thesis
    using demo_heartbeats [of b True t0] by (simp add: scan_cycle_def demo_tick_def demo_wd_cfg_def)
qed

lemma demo_wd_ok: "wd_ok demo_wd_cfg demo_wd_logger" "tick_ok demo_wd_cfg (demo_tick t)" "markers_ok demo_wd_cfg (demo_wd_world b False t)"
proof -
  have p: "proper_dir (wc_state demo_wd_cfg)" by (simp add: demo_wd_cfg_def demo_wd_paths)
  show "wd_ok demo_wd_cfg demo_wd_logger" using p by (simp add: wd_ok_def demo_wd_logger_def)
  show "tick_ok demo_wd_cfg (demo_tick t)" by (simp add: tick_ok_def demo_tick_def)
  show "markers_ok demo_wd_cfg (demo_wd_world b False t)"
    using wd_marker_child [OF p] by (auto simp: markers_ok_def demo_wd_world_def is_dir_def demo_wd_cfg_def split: if_splits)
qed

lemma demo_beat: "markers_kept demo_wd_cfg (demo_wd_world b m t) (demo_wd_world b' m t)"
proof -
  have p: "proper_dir (wc_state demo_wd_cfg)" by (simp add: demo_wd_cfg_def demo_wd_paths)
  show ?thesis using wd_marker_child [OF p] by (auto simp: markers_kept_def keeps_def demo_wd_world_def demo_wd_cfg_def)
qed

text \<open>Two alerts an hour apart for a worker that stays silent, then its recovery, silence again with a
  third alert, and a second recovery.\<close>

definition demo_trace :: wd_trace where
  "demo_trace = [(time_utc 600000000000, [(''a'', HAlerted)]), (time_utc 4200000000000, [(''a'', HAlerted)]),
     (time_utc 4300000000000, [(''a'', HRecovered)]), (time_utc 4900000000000, [(''a'', HAlerted)]), (time_utc 5000000000000, [(''a'', HRecovered)])]"

lemma demo_run: "\<exists>w. wd_run demo_wd_cfg demo_wd_logger [] (demo_wd_world 0 False 0) demo_trace w"
proof -
  let ?R = "wd_run demo_wd_cfg demo_wd_logger [] (demo_wd_world 0 False 0)"
  have step: "?R (tr @ [(time_utc t, xs)]) w'" if "?R tr w" "scan_cycle demo_wd_cfg demo_wd_logger [] (demo_tick t) w = (w', xs, n, e)" for tr t w w' xs n e
    using wd_scan [OF that(1) demo_wd_ok(2) that(2)] by (simp add: demo_tick_def)
  have "?R [] (demo_wd_world 0 False 0)" by (rule wd_start)
  from step [OF this demo_scan_stale [of 600000000000]]
  have "?R [(time_utc 600000000000, [(''a'', HAlerted)])] (demo_wd_world 0 True 600000000000)" by simp
  from step [OF this demo_scan_stale [of 4200000000000]]
  have "?R [(time_utc 600000000000, [(''a'', HAlerted)]), (time_utc 4200000000000, [(''a'', HAlerted)])] (demo_wd_world 0 True 4200000000000)" by simp
  from step [OF wd_env [OF this demo_beat [of _ _ _ 4290000000000]] demo_scan_fresh [of 4300000000000]]
  have "?R (take 3 demo_trace) (demo_wd_world 4290000000000 False 4200000000000)" by (simp add: demo_trace_def)
  from step [OF this demo_scan_stale [of 4900000000000]]
  have "?R (take 4 demo_trace) (demo_wd_world 4290000000000 True 4900000000000)" by (simp add: demo_trace_def)
  from step [OF wd_env [OF this demo_beat [of _ _ _ 4950000000000]] demo_scan_fresh [of 5000000000000]]
  have "?R demo_trace (demo_wd_world 4950000000000 False 4900000000000)" by (simp add: demo_trace_def)
  then show ?thesis ..
qed

theorem alert_gap_witness:
  "t_ns (time_utc 600000000000) + wc_dedup demo_wd_cfg \<le> t_ns (time_utc 4200000000000)"
proof -
  obtain w where run: "wd_run demo_wd_cfg demo_wd_logger [] (demo_wd_world 0 False 0) demo_trace w" using demo_run ..
  have d: "in_int64 (wc_dedup demo_wd_cfg)" "0 \<le> wc_dedup demo_wd_cfg"
    by (simp_all add: demo_wd_cfg_def in_int64_def min_int64_def max_int64_def)
  show ?thesis
    using alert_gap [OF run demo_wd_ok(1,3) d, of "''a''" "[]" "(time_utc 600000000000, [(''a'', HAlerted)])" "[]"
        "(time_utc 4200000000000, [(''a'', HAlerted)])" "drop 2 demo_trace"]
    by (simp add: demo_trace_def outcome_of_def)
qed

text \<open>C7. A recovery is announced once.  In any run of the watchdog in which the calls on the markers other than their removal
  succeed: after a recovery of a host that was delivered and whose marker was removed, no further recovery of it is
  delivered, whether its marker can then be removed or not, unless a critical alert for it was delivered and recorded in between.\<close>

theorem recovery_once:
  assumes "wd_run cfg l r w0 tr w" "wd_ok cfg l" "markers_ok cfg w0" "SLASH \<notin> set h"
    and "tr = xs @ e1 # ys @ e2 # zs" "outcome_of e1 h = Some HRecovered" "outcome_of e2 h \<in> {Some HRecovered, Some HUnmarkFailed}"
  shows "list_ex (\<lambda>e. outcome_of e h = Some HAlerted) ys"
proof (rule ccontr)
  let ?m = "mark cfg w0 h"
  assume "\<not> list_ex (\<lambda>e. outcome_of e h = Some HAlerted) ys"
  then have t: "track h ?m (xs @ e1 # ys) = None" using track_recovered [OF assms(6)] by (auto simp: list_ex_iff)
  have "legal_trace (wc_dedup cfg) h ?m tr" using run_track [OF assms(1-4)] by (simp add: legal_trace_def)
  moreover have "tr = (xs @ e1 # ys) @ e2 # zs" using assms(5) by simp
  ultimately have "legal_at (wc_dedup cfg) h None e2" unfolding legal_trace_def t [symmetric] by blast
  then show False using assms(7) by (auto simp: legal_at_def outcome_of_def)
qed

theorem recovery_once_witness:
  "list_ex (\<lambda>e. outcome_of e ''a'' = Some HAlerted) [(time_utc 4900000000000, [(''a'', HAlerted)])]"
proof -
  obtain w where run: "wd_run demo_wd_cfg demo_wd_logger [] (demo_wd_world 0 False 0) demo_trace w" using demo_run ..
  show ?thesis
    using recovery_once [OF run demo_wd_ok(1,3), of "''a''" "take 2 demo_trace" "(time_utc 4300000000000, [(''a'', HRecovered)])"
        "[(time_utc 4900000000000, [(''a'', HAlerted)])]" "(time_utc 5000000000000, [(''a'', HRecovered)])" "[]"]
    by (simp add: demo_trace_def outcome_of_def)
qed

text \<open>What happens when a call on a marker fails: a delivered alert that is not recorded, and a delivered recovery whose
  marker stays, leave the host as it was, so that the next scan delivers them again.\<close>

theorem unrecorded_alert_repeats:
  assumes "wd_fire r tk (stale_alert cfg (tk_now tk) h mtime) w = (w1, None)" "tk_flt tk (FOpen (wd_marker cfg h)) = Some (k, m)"
    and "lg_w l \<noteq> Some (wd_marker cfg h)"
  shows "\<exists>w'. handle_stale cfg l r tk h mtime w = (w', HMarkFailed) \<and> mark cfg w' h = mark cfg w h"
proof -
  let ?p = "wd_marker cfg h"
  have o: "os_write_file (tk_flt tk) (ww_fs w1) ?p b md = err (OsErr m, ww_fs w1)" for b md
    using assms(2) by (simp add: os_write_file_def os_open_create_def)
  obtain e where w: "write_marker tk w1 ?p (tk_now tk) = (w1, Some e)"
    using assms(2) by (simp add: write_marker_def write_file_at_def o os_open_create_def)
  have "keeps w1 (wd_log l tk h ''write-marker'' ''error'' e w1) ?p" by (rule wd_log_keeps [OF assms(3)])
  then have "keeps w (wd_log l tk h ''write-marker'' ''error'' e w1) ?p" using keeps_trans [OF wd_fire_keeps [OF assms(1)]] by blast
  then show ?thesis using assms(1) w keeps_mark by (auto simp: handle_stale_def)
qed

theorem unremoved_recovery_repeats:
  assumes "wd_ok cfg l" "SLASH \<notin> set h" "mark cfg w h \<noteq> None" "handle_recovered cfg l r tk h mtime w = (w', HUnmarkFailed)"
  shows "mark cfg w' h = mark cfg w h"
  using handle_recovered_effect [OF assms] by (simp add: host_effect_def)

section \<open>The exit status of a single scan\<close>

lemma scan_host_counts:
  "counts_stale (snd (scan_host cfg l r tk (h, m) w)) \<longleftrightarrow> wc_stale_max cfg < time_sub (tk_now tk) m"
proof -
  have "counts_stale (snd (handle_stale cfg l r tk h m w))"
    by (auto simp: handle_stale_def split: prod.splits option.splits)
  moreover have "\<not> counts_stale (snd (handle_recovered cfg l r tk h m w))"
    by (auto simp: handle_recovered_def Let_def split: prod.splits option.splits sum.splits ioerr.splits)
  ultimately show ?thesis by (simp add: scan_host_def Let_def split: option.splits)
qed

lemma scan_hosts_counts:
  "length (filter (counts_stale \<circ> snd) (snd (scan_hosts cfg l r tk es w)))
     = length (filter (\<lambda>(h, m). wc_stale_max cfg < time_sub (tk_now tk) m) es)"
proof (induction es arbitrary: w)
  case (Cons e es)
  obtain h m where e: "e = (h, m)" by (cases e)
  obtain w1 x where s: "scan_host cfg l r tk (h, m) w = (w1, x)" by (metis surj_pair)
  have x: "counts_stale x \<longleftrightarrow> wc_stale_max cfg < time_sub (tk_now tk) m" using scan_host_counts [of cfg l r tk h m w] s by simp
  obtain w2 ys where s2: "scan_hosts cfg l r tk es w1 = (w2, ys)" by (metis surj_pair)
  show ?case using Cons.IH [of w1] s s2 e x by (simp del: counts_stale.simps)
qed simp

text \<open>\<open>fleetctl watchdog --once\<close> fails exactly when a heartbeat file that it can read is older than
  the limit, and its message counts them, whatever the backends, the markers and the log do; a
  heartbeat directory that cannot be read is not a failure.\<close>

theorem once_reports_stale:
  "snd (scan_once cfg l r tk w) =
     (case read_heartbeat_dir (tk_flt tk) w (wc_heartbeats cfg) of
        Inl _ \<Rightarrow> None
      | Inr es \<Rightarrow>
          (let n = length (filter (\<lambda>(h, m). wc_stale_max cfg < time_sub (tk_now tk) m) es)
           in if n = 0 then None else Some (''watchdog: '' @ nat_str n @ '' host(s) stale'')))"
proof (cases "read_heartbeat_dir (tk_flt tk) w (wc_heartbeats cfg)")
  case (Inl e)
  then show ?thesis by (simp add: scan_once_def scan_cycle_def)
next
  case (Inr es)
  show ?thesis
  proof (cases es)
    case Nil
    then show ?thesis using Inr by (simp add: scan_once_def scan_cycle_def)
  next
    case (Cons e es')
    obtain w' xs where s: "scan_hosts cfg l r tk es w = (w', xs)" by (metis surj_pair)
    then have "length (filter (counts_stale \<circ> snd) xs) = length (filter (\<lambda>(h, m). wc_stale_max cfg < time_sub (tk_now tk) m) es)"
      using scan_hosts_counts [of cfg l r tk es w] by simp
    then show ?thesis using Inr Cons s by (simp add: scan_once_def scan_cycle_def Let_def del: scan_hosts.simps)
  qed
qed

end
