(* ===== verification/Ssh_Target.thy ===== *)
theory Ssh_Target
  imports Go_Prelude
begin

text \<open>
  Destinations of the SSH client, the types \<open>Target\<close> and \<open>Result\<close> and the function
  \<open>ParseTarget\<close> of \<open>internal/ssh/ssh.go\<close>, over \<open>net.SplitHostPort\<close> and
  \<open>net.JoinHostPort\<close>.  The connection itself is an argument of its clients.
\<close>

definition default_port :: int where "default_port = 22"

record target =
  tg_user :: string
  tg_host :: string
  tg_port :: int

record ssh_result =
  sr_stdout :: string
  sr_stderr :: string
  sr_exit_code :: int
  sr_duration_ms :: int

datatype addr_err = MissingPort | TooManyColons | MissingBracket | UnexpectedOpen | UnexpectedClose

text \<open>\<open>net.SplitHostPort\<close>: the last colon separates the port; a host in brackets may have
  colons.\<close>

definition split_host_port :: "string \<Rightarrow> (addr_err, string \<times> string) result" where
  "split_host_port hp =
     (case last_index_byte hp CHR '':'' of
        None \<Rightarrow> err MissingPort
      | Some i \<Rightarrow>
          (let bracket = (hp \<noteq> [] \<and> hd hp = CHR ''['');
               split = (if bracket then
                          (case index_byte hp CHR '']'' of
                             None \<Rightarrow> err MissingBracket
                           | Some e \<Rightarrow>
                               if Suc e = length hp then err MissingPort
                               else if Suc e = i then ok (drop 1 (take e hp), 1, Suc e)
                               else if hp ! (Suc e) = CHR '':'' then err TooManyColons
                               else err MissingPort)
                        else if CHR '':'' \<in> set (take i hp) then err TooManyColons
                        else ok (take i hp, 0, 0))
           in case split of
                Inl e \<Rightarrow> err e
              | Inr (host, j, k) \<Rightarrow>
                  if CHR ''['' \<in> set (drop j hp) then err UnexpectedOpen
                  else if CHR '']'' \<in> set (drop k hp) then err UnexpectedClose
                  else ok (host, drop (Suc i) hp)))"

definition join_host_port :: "string \<Rightarrow> string \<Rightarrow> string" where
  "join_host_port host port =
     (if CHR '':'' \<in> set host then ''['' @ host @ '']:'' @ port else host @ '':'' @ port)"

definition target_string :: "target \<Rightarrow> string" where
  "target_string t = tg_user t @ ''@'' @ tg_host t @ '':'' @ itoa (tg_port t)"

definition target_address :: "target \<Rightarrow> string" where
  "target_address t = join_host_port (tg_host t) (itoa (tg_port t))"

datatype target_err = TgForm string | TgUser string | TgAddr string addr_err | TgPort string string | TgHost string

definition parse_target :: "string \<Rightarrow> (target_err, target) result" where
  "parse_target raw0 =
     (let raw = trim_space raw0 in
      case index_byte raw CHR ''@'' of
        None \<Rightarrow> err (TgForm raw)
      | Some at \<Rightarrow>
          if at = 0 \<or> Suc at = length raw then err (TgForm raw)
          else (let user = trim_space (take at raw); hp = trim_space (drop (Suc at) raw) in
            if user = [] then err (TgUser raw)
            else (case (case last_index_byte hp CHR '':'' of
                          Some (Suc _) \<Rightarrow>
                            (case split_host_port hp of
                               Inl e \<Rightarrow> err (TgAddr raw e)
                             | Inr (h, p) \<Rightarrow>
                                 (case parse_int p of
                                    None \<Rightarrow> err (TgPort raw p)
                                  | Some n \<Rightarrow> if n \<le> 0 \<or> 65535 < n then err (TgPort raw p) else ok (h, n)))
                        | _ \<Rightarrow> ok (hp, default_port)) of
                    Inl e \<Rightarrow> err e
                  | Inr (host, port) \<Rightarrow>
                      if host = [] then err (TgHost raw) else ok \<lparr> tg_user = user, tg_host = host, tg_port = port \<rparr>)))"

section \<open>Parsing what was printed\<close>

text \<open>Names with no white space at the ends, no at sign in the user and no colon or bracket in the
  host.\<close>

definition plain_target :: "target \<Rightarrow> bool" where
  "plain_target t \<longleftrightarrow> tg_user t \<noteq> [] \<and> tg_host t \<noteq> []
     \<and> trim_space (tg_user t) = tg_user t \<and> trim_space (tg_host t) = tg_host t
     \<and> CHR ''@'' \<notin> set (tg_user t) \<and> set (tg_host t) \<inter> {CHR '':'', CHR ''['', CHR '']''} = {}
     \<and> 0 < tg_port t \<and> tg_port t \<le> 65535"

lemma split_host_port_plain:
  assumes "set h \<inter> {CHR '':'', CHR ''['', CHR '']''} = {}" "set p \<inter> {CHR '':'', CHR ''['', CHR '']''} = {}"
  shows "split_host_port (h @ '':'' @ p) = ok (h, p)" "last_index_byte (h @ '':'' @ p) CHR '':'' = Some (length h)"
proof -
  show l: "last_index_byte (h @ '':'' @ p) CHR '':'' = Some (length h)"
    using assms(2) by (induction h) (auto split: option.splits)
  have "hd (h @ '':'' @ p) \<noteq> CHR ''[''" using assms(1) by (cases h) auto
  then show "split_host_port (h @ '':'' @ p) = ok (h, p)"
    using l assms by (auto simp: split_host_port_def Let_def)
qed

theorem parse_target_string:
  assumes "plain_target t"
  shows "parse_target (target_string t) = ok t"
proof -
  let ?u = "tg_user t" and ?h = "tg_host t" and ?p = "itoa (tg_port t)"
  have t: "?u \<noteq> []" "?h \<noteq> []" "trim_space ?u = ?u" "trim_space ?h = ?h" "CHR ''@'' \<notin> set ?u"
    "set ?h \<inter> {CHR '':'', CHR ''['', CHR '']''} = {}" "0 < tg_port t" "tg_port t \<le> 65535"
    using assms by (simp_all add: plain_target_def)
  have i: "in_int64 (tg_port t)" using t(7,8) by (simp add: in_int64_def min_int64_def max_int64_def)
  have d: "?p = nat_str (nat (tg_port t))" using t(7) by (simp add: itoa_def)
  then have dig: "?p \<noteq> []" "list_all is_digit ?p" using nat_str_digits [of "nat (tg_port t)"] by (simp_all add: all_digits_def)
  then have last: "is_digit (last ?p)" by (simp add: list_all_iff)
  then have end0: "rsp_len (rev (s @ ?p)) = 0" for s
    using dig(1) by (cases "rev ?p") (auto simp: rsp_len_ascii is_digit_def ascii_space_def byte_def hd_rev [symmetric])
  have pc: "set ?p \<inter> {CHR '':'', CHR ''['', CHR '']''} = {}" using dig(2) by (auto simp: list_all_iff is_digit_def byte_def)
  have sp: "sp_len (?u @ CHR ''@'' # x) = 0" "sp_len (?h @ CHR '':'' # x) = 0" for x
    using sp_len_sep [of "CHR ''@''" ?u x] sp_len_sep [of "CHR '':''" ?h x] t(1-4) trim_space_sp_len by (auto simp: byte_def)
  have raw: "trim_space (target_string t) = ?u @ CHR ''@'' # ?h @ '':'' @ ?p"
    using sp(1) [of "?h @ '':'' @ ?p"] end0 [of "?u @ CHR ''@'' # ?h @ '':''"] by (simp add: target_string_def trim_space_id)
  have hp: "trim_space (?h @ '':'' @ ?p) = ?h @ '':'' @ ?p"
    using sp(2) [of ?p] end0 [of "?h @ '':''"] by (intro trim_space_id) simp_all
  obtain n where n: "length ?h = Suc n" using t(2) by (cases ?h) auto
  have ix: "index_byte (?u @ CHR ''@'' # ?h @ '':'' @ ?p) CHR ''@'' = Some (length ?u)" by (rule index_byte_append [OF t(5)])
  show ?thesis
    unfolding parse_target_def Let_def raw ix option.case
    using t hp split_host_port_plain [OF t(6) pc] n parse_int_itoa [OF i] by simp
qed

end
