(* ===== verification/Go_Quote.thy ===== *)
theory Go_Quote
  imports Go_Utf8
begin

text \<open>
  \<open>strconv.Quote\<close>, the verb \<open>%q\<close> of package \<open>fmt\<close> on strings.  Which runes beyond ASCII are
  printed as they are is a table of the Unicode standard; it is the argument \<open>prt\<close>, on the bytes of
  the rune.  The errors of \<open>strconv.ParseInt\<close> are here because their text quotes the input.
\<close>

definition rune_value :: "bytes \<Rightarrow> nat" where
  "rune_value r =
     (case r of
        [a, b] \<Rightarrow> (byte a mod 32) * 64 + byte b mod 64
      | [a, b, c] \<Rightarrow> (byte a mod 16) * 4096 + (byte b mod 64) * 64 + byte c mod 64
      | [a, b, c, d] \<Rightarrow> (byte a mod 8) * 262144 + (byte b mod 64) * 4096 + (byte c mod 64) * 64 + byte d mod 64
      | _ \<Rightarrow> 0)"

fun hex_pad :: "nat \<Rightarrow> nat \<Rightarrow> string" where
  "hex_pad 0 n = []"
| "hex_pad (Suc k) n = hex_pad k (n div 16) @ [hex_digit (n mod 16)]"

definition quote_ascii :: "char \<Rightarrow> string" where
  "quote_ascii c =
     (if c = DQ \<or> c = BSL then [BSL, c]
      else if 32 \<le> byte c \<and> byte c < 127 then [c]
      else if byte c = 7 then [BSL, CHR ''a''] else if byte c = 8 then [BSL, CHR ''b'']
      else if byte c = 12 then [BSL, CHR ''f''] else if byte c = 10 then [BSL, CHR ''n'']
      else if byte c = 13 then [BSL, CHR ''r''] else if byte c = 9 then [BSL, CHR ''t'']
      else if byte c = 11 then [BSL, CHR ''v'']
      else BSL # CHR ''x'' # hex_pad 2 (byte c))"

function quote_runes :: "(bytes \<Rightarrow> bool) \<Rightarrow> bytes \<Rightarrow> string" where
  "quote_runes prt [] = []"
| "quote_runes prt (c # s) =
     (if byte c < 128 then quote_ascii c @ quote_runes prt s
      else if rune_width (c # s) = 0 then BSL # CHR ''x'' # hex_pad 2 (byte c) @ quote_runes prt s
      else (let r = take (rune_width (c # s)) (c # s)
            in (if prt r then r
                else if rune_value r < 65536 then BSL # CHR ''u'' # hex_pad 4 (rune_value r)
                else BSL # CHR ''U'' # hex_pad 8 (rune_value r))
               @ quote_runes prt (drop (rune_width (c # s)) (c # s))))"
  by pat_completeness auto
termination by (relation "measure (\<lambda>(_, s). length s)") auto

definition go_quote :: "(bytes \<Rightarrow> bool) \<Rightarrow> string \<Rightarrow> string" where
  "go_quote prt s = DQ # quote_runes prt s @ [DQ]"

definition parse_int_error :: "(bytes \<Rightarrow> bool) \<Rightarrow> string \<Rightarrow> string" where
  "parse_int_error prt s =
     (let digits = (if s \<noteq> [] \<and> (hd s = CHR ''-'' \<or> hd s = CHR ''+'') then tl s else s)
      in ''strconv.ParseInt: parsing '' @ go_quote prt s @ '': ''
         @ (if digits \<noteq> [] \<and> list_all is_digit digits then ''value out of range'' else ''invalid syntax''))"

lemma quote_plain:
  assumes "list_all (\<lambda>c. 32 \<le> byte c \<and> byte c < 127 \<and> c \<noteq> DQ \<and> c \<noteq> BSL) s"
  shows "go_quote prt s = DQ # s @ [DQ]"
proof -
  have "quote_runes prt s = s" using assms by (induction s) (auto simp: quote_ascii_def)
  then show ?thesis by (simp add: go_quote_def)
qed

end
