(* ===== verification/Heartbeats_Bridge.thy ===== *)
theory Heartbeats_Bridge
  imports Watchdog Nodes Ssh_Target Go_Quote
begin

text \<open>
  The heartbeats bridge, \<open>cmd/fleetctl/commands/heartbeats_bridge.go\<close>: it asks every worker of
  \<open>nodes.txt\<close> over SSH when its heartbeat file was written and, if that is recent, writes the local
  file whose modification time the watchdog and the health snapshot read.  The SSH connection is an
  argument, as functions of the target and the command; every clock reading is a function of the host.
  The last section joins bridge and watchdog: how long a dead worker can stay unnoticed.
\<close>

declare json_print.simps(3) [simp del]

section \<open>One worker\<close>

record ssh_env =
  sh_dial :: "target \<Rightarrow> string option"
  sh_run :: "target \<Rightarrow> string \<Rightarrow> (string, ssh_result) result"

record sweep_tick =
  sw_now :: "string \<Rightarrow> gtime"
  sw_observed :: "string \<Rightarrow> gtime"
  sw_wall :: "string \<Rightarrow> gtime"
  sw_clk :: "log_event \<Rightarrow> gtime"
  sw_flt :: faults
  sw_ssh :: ssh_env

datatype bridge_err =
    BrTarget target_err | BrDial string string | BrProbe string string | BrParse string string | BrStale string int | BrWrite path string

text \<open>\<open>time.Unix(sec, 0)\<close>; the seconds are kept from the year 1 in 64 bits.\<close>

definition unix_epoch_secs :: int where "unix_epoch_secs = 62135596800"

definition time_unix :: "int \<Rightarrow> gtime" where
  "time_unix sec = time_utc ((wrap64 (sec + unix_epoch_secs) - unix_epoch_secs) * nano)"

definition bridge_log :: "logger \<Rightarrow> sweep_tick \<Rightarrow> string \<Rightarrow> string \<Rightarrow> string \<Rightarrow> string \<Rightarrow> 'n wd_world \<Rightarrow> 'n wd_world" where
  "bridge_log l tk node action res tail w =
     (let ev = \<lparr> le_ts = zero_time, le_node = node, le_phase = ''heartbeats-bridge'', le_action = action, le_result = res,
                 le_duration_ms = 0, le_stderr_tail = tail \<rparr>
      in w\<lparr> ww_fs := log_step (sw_flt tk) l (ww_fs w) (sw_clk tk ev, ev) \<rparr>)"

definition heartbeat_path :: "path \<Rightarrow> string \<Rightarrow> path" where
  "heartbeat_path dir host = join2 dir (host @ ''.json'')"

definition heartbeat_body :: "(bytes \<Rightarrow> bool) \<Rightarrow> string \<Rightarrow> int \<Rightarrow> gtime \<Rightarrow> bytes" where
  "heartbeat_body prt host epoch observed =
     ''{'' @ [DQ] @ ''host'' @ [DQ] @ '':'' @ go_quote prt host @ '','' @ [DQ] @ ''worker_epoch'' @ [DQ] @ '':'' @ itoa epoch
     @ '','' @ [DQ] @ ''observed_at'' @ [DQ] @ '':'' @ go_quote prt (format_rfc3339nano (to_utc observed)) @ ''}'' @ [NL]"

text \<open>The part after the probe: the age of the worker's heartbeat and the local file.\<close>

definition bridge_record ::
  "(bytes \<Rightarrow> bool) \<Rightarrow> path \<Rightarrow> int \<Rightarrow> logger \<Rightarrow> sweep_tick \<Rightarrow> string \<Rightarrow> int \<Rightarrow> 'n wd_world \<Rightarrow> 'n wd_world \<times> bridge_err option" where
  "bridge_record prt dir stale_max l tk host epoch w =
     (let age = time_sub (sw_now tk host) (time_unix epoch); p = heartbeat_path dir host in
      if stale_max < age then
        (bridge_log l tk host ''stale'' ''warn'' (''age '' @ duration_string age @ '' > stale-max '' @ duration_string stale_max) w,
         Some (BrStale host age))
      else (case write_file_at (sw_flt tk) (sw_wall tk host) w p (heartbeat_body prt host epoch (sw_observed tk host)) mode_0644 of
              (w', Some e) \<Rightarrow> (bridge_log l tk host (''write:'' @ p) ''error'' e w', Some (BrWrite p e))
            | (w', None) \<Rightarrow> (bridge_log l tk host ''fresh'' ''ok'' [] w', None)))"

definition stat_command :: "string \<Rightarrow> string" where
  "stat_command host = ''stat -f %m ~/.hermes/heartbeat/'' @ host"

definition bridge_one ::
  "(bytes \<Rightarrow> bool) \<Rightarrow> path \<Rightarrow> int \<Rightarrow> logger \<Rightarrow> sweep_tick \<Rightarrow> node \<Rightarrow> 'n wd_world \<Rightarrow> 'n wd_world \<times> bridge_err option" where
  "bridge_one prt dir stale_max l tk n w =
     (let host = n_host n in
      case parse_target (node_string n) of
        Inl e \<Rightarrow> (w, Some (BrTarget e))
      | Inr t \<Rightarrow>
          (case sh_dial (sw_ssh tk) t of
             Some e \<Rightarrow> (bridge_log l tk host ''ssh-dial'' ''error'' e w, Some (BrDial host e))
           | None \<Rightarrow>
               (case (case sh_run (sw_ssh tk) t (stat_command host) of
                        Inl e \<Rightarrow> err e
                      | Inr res \<Rightarrow> if sr_exit_code res \<noteq> 0 then err (''exit '' @ itoa (sr_exit_code res) @ '': '' @ sr_stderr res)
                                   else ok (sr_stdout res)) of
                  Inl e \<Rightarrow> (bridge_log l tk host ''ssh-stat'' ''error'' e w, Some (BrProbe host e))
                | Inr stdout \<Rightarrow>
                    (case parse_int (trim_space stdout) of
                       None \<Rightarrow>
                         (bridge_log l tk host ''parse-mtime'' ''error''
                            (''output '' @ go_quote prt (trim_space stdout) @ '': '' @ parse_int_error prt (trim_space stdout)) w,
                          Some (BrParse host (trim_space stdout)))
                     | Some epoch \<Rightarrow> bridge_record prt dir stale_max l tk host epoch w))))"

section \<open>Sweeps\<close>

fun bridge_all ::
  "(bytes \<Rightarrow> bool) \<Rightarrow> path \<Rightarrow> int \<Rightarrow> logger \<Rightarrow> sweep_tick \<Rightarrow> node list \<Rightarrow> bridge_err option \<Rightarrow> 'n wd_world
     \<Rightarrow> 'n wd_world \<times> bridge_err option" where
  "bridge_all prt dir stale_max l tk [] last_err w = (w, last_err)"
| "bridge_all prt dir stale_max l tk (n # ns) last_err w =
     (case bridge_one prt dir stale_max l tk n w of
        (w', Some e) \<Rightarrow> bridge_all prt dir stale_max l tk ns (Some e) w'
      | (w', None) \<Rightarrow> bridge_all prt dir stale_max l tk ns last_err w')"

datatype sweep_err = SwLoad nodes_error | SwNode bridge_err

definition sweep_once ::
  "(bytes \<Rightarrow> bool) \<Rightarrow> (string, path) result \<Rightarrow> path \<Rightarrow> path \<Rightarrow> int \<Rightarrow> logger \<Rightarrow> sweep_tick \<Rightarrow> 'n wd_world \<Rightarrow> 'n wd_world \<times> sweep_err option" where
  "sweep_once prt home nodes_path dir stale_max l tk w =
     (case load_nodes home (sw_flt tk) (ww_fs w) 0 nodes_path of
        Inl e \<Rightarrow> (w, Some (SwLoad e))
      | Inr reg \<Rightarrow> (case bridge_all prt dir stale_max l tk (all_nodes reg) None w of (w', e) \<Rightarrow> (w', map_option SwNode e)))"

text \<open>One turn of \<open>sweepLoop\<close>, with the text of the error of \<open>nodes.Load\<close> as \<open>msg\<close>, and its
  count of consecutive failures.\<close>

definition sweep_turn ::
  "(bytes \<Rightarrow> bool) \<Rightarrow> (string, path) result \<Rightarrow> (nodes_error \<Rightarrow> string) \<Rightarrow> path \<Rightarrow> path \<Rightarrow> int \<Rightarrow> logger \<Rightarrow> sweep_tick \<Rightarrow> int \<times> 'n wd_world
     \<Rightarrow> int \<times> 'n wd_world" where
  "sweep_turn prt home msg nodes_path dir stale_max l tk s =
     (case s of (failures, w) \<Rightarrow>
       (case load_nodes home (sw_flt tk) (ww_fs w) 0 nodes_path of
          Inl e \<Rightarrow> (wrap64 (failures + 1), bridge_log l tk ''gateway'' ''load-nodes'' ''error'' (msg e) w)
        | Inr reg \<Rightarrow>
            (case bridge_all prt dir stale_max l tk (all_nodes reg) None w of
               (w', e) \<Rightarrow> (if e \<noteq> None then wrap64 (failures + 1) else 0, w'))))"

section \<open>When the local file is touched\<close>

text \<open>What the probe of a worker reported: the time its heartbeat file was written.\<close>

definition probe_epoch :: "sweep_tick \<Rightarrow> node \<Rightarrow> int option" where
  "probe_epoch tk n =
     (case parse_target (node_string n) of
        Inl _ \<Rightarrow> None
      | Inr t \<Rightarrow>
          if sh_dial (sw_ssh tk) t \<noteq> None then None
          else (case sh_run (sw_ssh tk) t (stat_command (n_host n)) of
                  Inl _ \<Rightarrow> None
                | Inr res \<Rightarrow> if sr_exit_code res \<noteq> 0 then None else parse_int (trim_space (sr_stdout res))))"

definition reports_fresh :: "int \<Rightarrow> sweep_tick \<Rightarrow> node \<Rightarrow> bool" where
  "reports_fresh stale_max tk n \<longleftrightarrow>
     (case probe_epoch tk n of None \<Rightarrow> False | Some epoch \<Rightarrow> time_sub (sw_now tk (n_host n)) (time_unix epoch) \<le> stale_max)"

lemma bridge_log_mt [simp]: "ww_mt (bridge_log l tk n a r s w) = ww_mt w"
  by (simp add: bridge_log_def Let_def)

lemma write_file_at_mt: "ww_mt (fst (write_file_at flt wall w p b m)) q = ww_mt w q \<or> q = p \<and> ww_mt (fst (write_file_at flt wall w p b m)) q = wall"
  by (auto simp: write_file_at_def Let_def split: sum.splits prod.splits)

lemma bridge_record_mt:
  "ww_mt (fst (bridge_record prt dir stale_max l tk host epoch w)) q = ww_mt w q
   \<or> q = heartbeat_path dir host \<and> ww_mt (fst (bridge_record prt dir stale_max l tk host epoch w)) q = sw_wall tk host
     \<and> time_sub (sw_now tk host) (time_unix epoch) \<le> stale_max"
proof (cases "stale_max < time_sub (sw_now tk host) (time_unix epoch)")
  case True
  then show ?thesis by (simp add: bridge_record_def Let_def)
next
  case False
  let ?r = "write_file_at (sw_flt tk) (sw_wall tk host) w (heartbeat_path dir host) (heartbeat_body prt host epoch (sw_observed tk host)) mode_0644"
  have "ww_mt (fst (bridge_record prt dir stale_max l tk host epoch w)) = ww_mt (fst ?r)"
    using False by (simp add: bridge_record_def Let_def split: prod.splits option.splits)
  then show ?thesis using False write_file_at_mt [of "sw_flt tk" "sw_wall tk host" w "heartbeat_path dir host"] by auto
qed

lemma bridge_one_mt:
  "ww_mt (fst (bridge_one prt dir stale_max l tk n w)) q = ww_mt w q
   \<or> q = heartbeat_path dir (n_host n) \<and> ww_mt (fst (bridge_one prt dir stale_max l tk n w)) q = sw_wall tk (n_host n) \<and> reports_fresh stale_max tk n"
proof (cases "probe_epoch tk n")
  case None
  then have "ww_mt (fst (bridge_one prt dir stale_max l tk n w)) = ww_mt w"
    by (auto simp: bridge_one_def probe_epoch_def Let_def split: sum.splits option.splits if_splits)
  then show ?thesis by simp
next
  case (Some epoch)
  then have "bridge_one prt dir stale_max l tk n w = bridge_record prt dir stale_max l tk (n_host n) epoch w"
    by (auto simp: bridge_one_def probe_epoch_def Let_def split: sum.splits option.splits if_splits)
  then show ?thesis using bridge_record_mt [of prt dir stale_max l tk "n_host n" epoch w q] Some by (auto simp: reports_fresh_def)
qed

lemma bridge_all_mt:
  "ww_mt (fst (bridge_all prt dir stale_max l tk ns e w)) q = ww_mt w q
   \<or> list_ex (\<lambda>n. q = heartbeat_path dir (n_host n) \<and> ww_mt (fst (bridge_all prt dir stale_max l tk ns e w)) q = sw_wall tk (n_host n) \<and> reports_fresh stale_max tk n) ns"
proof (induction ns arbitrary: e w)
  case (Cons n ns)
  obtain w1 e1 where o: "bridge_one prt dir stale_max l tk n w = (w1, e1)" by (metis surj_pair)
  obtain e2 where "bridge_all prt dir stale_max l tk (n # ns) e w = bridge_all prt dir stale_max l tk ns e2 w1"
    using o by (cases e1) auto
  then show ?case using Cons.IH [of e2 w1] bridge_one_mt [of prt dir stale_max l tk n w q] o by auto
qed simp

section \<open>The watchdog leaves heartbeats alone\<close>

lemma wd_log_mt [simp]: "ww_mt (wd_log l tk n a r s w) = ww_mt w"
  by (simp add: wd_log_def Let_def)

lemma wd_fire_mt: "wd_fire r tk a w = (w', e) \<Longrightarrow> ww_mt w' = ww_mt w"
  by (auto simp: wd_fire_def split: prod.splits)

lemma write_marker_mt: "write_marker tk w p t = (w', e) \<Longrightarrow> q \<noteq> p \<Longrightarrow> ww_mt w' q = ww_mt w q"
  using write_file_at_mt [of "tk_flt tk" "tk_wall tk" w p "format_rfc3339 (to_utc t) @ [NL]" mode_0644 q]
  by (auto simp: write_marker_def split: prod.splits option.splits)

lemma scan_host_mt:
  assumes "q \<noteq> wd_marker cfg h"
  shows "ww_mt (fst (scan_host cfg l r tk (h, m) w)) q = ww_mt w q"
proof -
  have "ww_mt (fst (handle_stale cfg l r tk h m w)) q = ww_mt w q"
    using assms by (auto simp: handle_stale_def dest!: wd_fire_mt write_marker_mt [where q = q] split: prod.splits option.splits)
  moreover have "ww_mt (fst (handle_recovered cfg l r tk h m w)) q = ww_mt w q"
    by (auto simp: handle_recovered_def Let_def dest!: wd_fire_mt split: prod.splits option.splits sum.splits ioerr.splits)
  ultimately show ?thesis by (simp add: scan_host_def Let_def split: option.splits)
qed

lemma scan_hosts_mt:
  assumes "\<And>h. SLASH \<notin> set h \<Longrightarrow> q \<noteq> wd_marker cfg h" "list_all (\<lambda>(h, _). SLASH \<notin> set h) es"
  shows "ww_mt (fst (scan_hosts cfg l r tk es w)) q = ww_mt w q"
  using assms(2)
proof (induction es arbitrary: w)
  case (Cons e es)
  obtain h m where e: "e = (h, m)" "SLASH \<notin> set h" using Cons.prems by (cases e) auto
  obtain w1 x where "scan_host cfg l r tk e w = (w1, x)" by (metis surj_pair)
  moreover obtain w2 ys where "scan_hosts cfg l r tk es w1 = (w2, ys)" by (metis surj_pair)
  ultimately show ?case using Cons.IH [of w1] Cons.prems scan_host_mt [OF assms(1) [OF e(2)], of l r tk m w] e(1) by simp
qed simp

lemma scan_cycle_mt:
  assumes "\<And>h. SLASH \<notin> set h \<Longrightarrow> q \<noteq> wd_marker cfg h" "scan_cycle cfg l r tk w = (w', xs, n, e)"
  shows "ww_mt w' q = ww_mt w q"
proof (cases "read_heartbeat_dir (tk_flt tk) w (wc_heartbeats cfg)")
  case (Inl x)
  then show ?thesis using assms(2) by (auto simp: scan_cycle_def)
next
  case (Inr es)
  have hosts: "ww_mt w1 q = ww_mt w q" if "scan_hosts cfg l r tk es w = (w1, ys)" for w1 ys
    using scan_hosts_mt [OF assms(1) heartbeat_hosts(2) [OF Inr], of l r tk w] that by simp
  show ?thesis
    using assms(2) Inr hosts by (auto simp: scan_cycle_def simp del: scan_hosts.simps split: list.splits prod.splits)
qed

section \<open>Bridge and watchdog together\<close>

text \<open>The worker behind the local file \<open>q\<close> wrote its last heartbeat no later than \<open>dead\<close>: no probe
  reports a later time.  The kernel's stamp on a file is at most \<open>lag\<close> after the clock reading that the
  bridge compared with.\<close>

definition dead_since :: "int \<Rightarrow> path \<Rightarrow> path \<Rightarrow> sweep_tick \<Rightarrow> bool" where
  "dead_since dead dir q tk \<longleftrightarrow>
     (\<forall>n epoch. heartbeat_path dir (n_host n) = q \<and> probe_epoch tk n = Some epoch \<longrightarrow> t_ns (time_unix epoch) \<le> dead)"

definition stamps_within :: "int \<Rightarrow> sweep_tick \<Rightarrow> bool" where
  "stamps_within lag tk \<longleftrightarrow> (\<forall>h. t_ns (sw_wall tk h) \<le> t_ns (sw_now tk h) + lag)"

text \<open>Sweeps of the bridge, scans of the watchdog, and any other change that leaves the time of \<open>q\<close>
  alone.\<close>

inductive fleet_run ::
  "(bytes \<Rightarrow> bool) \<Rightarrow> path \<Rightarrow> int \<Rightarrow> logger \<Rightarrow> wd_cfg \<Rightarrow> logger \<Rightarrow> 'n router \<Rightarrow> int \<Rightarrow> int \<Rightarrow> path \<Rightarrow> 'n wd_world \<Rightarrow> 'n wd_world \<Rightarrow> bool"
  for prt dir stale_max bl cfg wl r dead lag q w0 where
  fleet_start: "fleet_run prt dir stale_max bl cfg wl r dead lag q w0 w0"
| fleet_sweep: "fleet_run prt dir stale_max bl cfg wl r dead lag q w0 w \<Longrightarrow> dead_since dead dir q tk \<Longrightarrow> stamps_within lag tk
    \<Longrightarrow> fleet_run prt dir stale_max bl cfg wl r dead lag q w0 (fst (bridge_all prt dir stale_max bl tk ns None w))"
| fleet_scan: "fleet_run prt dir stale_max bl cfg wl r dead lag q w0 w \<Longrightarrow> scan_cycle cfg wl r tk w = (w', xs, n, e)
    \<Longrightarrow> fleet_run prt dir stale_max bl cfg wl r dead lag q w0 w'"
| fleet_other: "fleet_run prt dir stale_max bl cfg wl r dead lag q w0 w \<Longrightarrow> ww_mt w' q = ww_mt w q
    \<Longrightarrow> fleet_run prt dir stale_max bl cfg wl r dead lag q w0 w'"

lemma fresh_bound:
  assumes "reports_fresh stale_max tk n" "dead_since dead dir q tk" "heartbeat_path dir (n_host n) = q" "stamps_within lag tk"
    "in_int64 stale_max" "stale_max < max_int64"
  shows "t_ns (sw_wall tk (n_host n)) \<le> dead + stale_max + lag"
proof -
  obtain epoch where e: "probe_epoch tk n = Some epoch" "time_sub (sw_now tk (n_host n)) (time_unix epoch) \<le> stale_max"
    using assms(1) by (auto simp: reports_fresh_def split: option.splits)
  have "\<not> t_ns (time_unix epoch) + stale_max < t_ns (sw_now tk (n_host n))"
    using e(2) time_sub_gt [OF assms(5,6), of "sw_now tk (n_host n)" "time_unix epoch"] by linarith
  moreover have "t_ns (time_unix epoch) \<le> dead" using e(1) assms(2,3) by (auto simp: dead_since_def)
  moreover have "t_ns (sw_wall tk (n_host n)) \<le> t_ns (sw_now tk (n_host n)) + lag" using assms(4) by (simp add: stamps_within_def)
  ultimately show ?thesis by linarith
qed

lemma fleet_bound:
  assumes "fleet_run prt dir stale_max bl cfg wl r dead lag q w0 w" "t_ns (ww_mt w0 q) \<le> dead + stale_max + lag"
    and "in_int64 stale_max" "stale_max < max_int64" "\<And>h. SLASH \<notin> set h \<Longrightarrow> q \<noteq> wd_marker cfg h"
  shows "t_ns (ww_mt w q) \<le> dead + stale_max + lag"
  using assms(1,2)
proof (induction rule: fleet_run.induct)
  case (fleet_sweep w tk ns)
  from bridge_all_mt [of prt dir stale_max bl tk ns None w q] show ?case
  proof
    assume "list_ex (\<lambda>n. q = heartbeat_path dir (n_host n)
        \<and> ww_mt (fst (bridge_all prt dir stale_max bl tk ns None w)) q = sw_wall tk (n_host n) \<and> reports_fresh stale_max tk n) ns"
    then obtain n where n: "heartbeat_path dir (n_host n) = q" "reports_fresh stale_max tk n"
      "ww_mt (fst (bridge_all prt dir stale_max bl tk ns None w)) q = sw_wall tk (n_host n)" by (auto simp: list_ex_iff)
    show ?thesis using fresh_bound [OF n(2) fleet_sweep.hyps(2) n(1) fleet_sweep.hyps(3) assms(3,4)] n(3) by simp
  qed (use fleet_sweep in simp)
next
  case (fleet_scan w tk w' xs n e)
  then show ?case using scan_cycle_mt [OF assms(5) fleet_scan.hyps(2)] by simp
qed simp_all

lemma scan_hosts_outcome:
  assumes "(h, m) \<in> set es" "wc_stale_max cfg < time_sub (tk_now tk) m"
  shows "\<exists>x. (h, x) \<in> set (snd (scan_hosts cfg l r tk es w)) \<and> counts_stale x"
  using assms(1)
proof (induction es arbitrary: w)
  case (Cons e es)
  obtain w1 x where s: "scan_host cfg l r tk e w = (w1, x)" by (metis surj_pair)
  show ?case
  proof (cases "e = (h, m)")
    case True
    then have "counts_stale x" using scan_host_counts [of cfg l r tk h m w] s assms(2) by simp
    then show ?thesis using s True by (auto simp del: counts_stale.simps split: prod.splits)
  next
    case False
    then obtain y where "(h, y) \<in> set (snd (scan_hosts cfg l r tk es w1))" "counts_stale y" using Cons by auto
    then show ?thesis using s by (auto simp del: counts_stale.simps split: prod.splits)
  qed
qed simp

text \<open>C9. A dead worker is reported in time: if the worker behind a heartbeat file has written nothing
  after \<open>dead\<close>, then, however sweeps of the bridge and scans of the watchdog interleave, the first scan
  that lists the file more than the limit of the bridge plus the limit of the watchdog (plus the lag
  of the file's stamp) after \<open>dead\<close> finds the host stale: it sends an alert, tries to, or suppresses it
  as a repeat.\<close>

theorem dead_worker_reported:
  assumes "fleet_run prt dir stale_max bl cfg wl r dead lag q w0 w" "t_ns (ww_mt w0 q) \<le> dead + stale_max + lag"
    and "in_int64 stale_max" "stale_max < max_int64" "in_int64 (wc_stale_max cfg)" "wc_stale_max cfg < max_int64"
    and "\<And>h. SLASH \<notin> set h \<Longrightarrow> q \<noteq> wd_marker cfg h"
    and "read_heartbeat_dir (tk_flt tk) w (wc_heartbeats cfg) = ok es" "(h, ww_mt w q) \<in> set es"
    and "dead + stale_max + lag + wc_stale_max cfg < t_ns (tk_now tk)"
    and "scan_cycle cfg wl r tk w = (w', xs, n, e)"
  shows "\<exists>x. (h, x) \<in> set xs \<and> counts_stale x"
proof -
  have "t_ns (ww_mt w q) \<le> dead + stale_max + lag" by (rule fleet_bound [OF assms(1-4,7)])
  then have "wc_stale_max cfg < time_sub (tk_now tk) (ww_mt w q)"
    using time_sub_gt [OF assms(5,6)] assms(10) by simp
  from scan_hosts_outcome [OF assms(9) this, of wl r w]
  obtain x where "(h, x) \<in> set (snd (scan_hosts cfg wl r tk es w))" "counts_stale x" by blast
  moreover have "es \<noteq> []" using assms(9) by auto
  then have "xs = snd (scan_hosts cfg wl r tk es w)"
    using assms(8,11) by (auto simp: scan_cycle_def simp del: scan_hosts.simps split: list.splits prod.splits)
  ultimately show ?thesis by auto
qed

text \<open>A worker that wrote its last heartbeat at second 100, swept at second 200 and looked at past second
  700.\<close>

definition demo_sweep :: sweep_tick where
  "demo_sweep = \<lparr> sw_now = (\<lambda>_. time_utc 200000000000), sw_observed = (\<lambda>_. time_utc 200000000000), sw_wall = (\<lambda>_. time_utc 200000000000),
     sw_clk = (\<lambda>_. time_utc 0), sw_flt = no_faults,
     sw_ssh = \<lparr> sh_dial = (\<lambda>_. None), sh_run = (\<lambda>_ _. ok \<lparr> sr_stdout = ''100'', sr_stderr = [], sr_exit_code = 0, sr_duration_ms = 0 \<rparr>) \<rparr> \<rparr>"

definition demo_node :: node where "demo_node = \<lparr> n_user = ''u'', n_host = ''a'' \<rparr>"

lemma demo_epoch: "probe_epoch demo_sweep n = None \<or> probe_epoch demo_sweep n = Some 100"
proof -
  have "parse_int (trim_space ''100'') = Some 100" by code_simp
  then show ?thesis by (simp add: probe_epoch_def demo_sweep_def split: sum.splits)
qed

lemma demo_unix: "time_unix 100 = time_utc 100000000000"
  by (simp add: time_unix_def unix_epoch_secs_def wrap64_def nano_def)

lemma demo_swept:
  "ww_mt (fst (bridge_all (\<lambda>_. True) ''/h'' 300000000000 demo_wd_logger demo_sweep [demo_node] None (demo_wd_world 0 False 0))) ''/h/a.json''
     = time_utc 200000000000"
proof -
  have t: "parse_target (node_string demo_node) = ok \<lparr> tg_user = ''u'', tg_host = ''a'', tg_port = 22 \<rparr>" by code_simp
  have e: "parse_int (trim_space ''100'') = Some 100" by code_simp
  have p: "heartbeat_path ''/h'' ''a'' = ''/h/a.json''" by code_simp
  have age: "time_sub (time_utc 200000000000) (time_unix 100) = 100000000000"
    by (simp add: demo_unix time_sub_def clamp64_def time_utc_def min_int64_def max_int64_def)
  have one: "bridge_one (\<lambda>_. True) ''/h'' 300000000000 demo_wd_logger demo_sweep demo_node w
      = bridge_record (\<lambda>_. True) ''/h'' 300000000000 demo_wd_logger demo_sweep ''a'' 100 w" for w :: "unit wd_world"
    unfolding bridge_one_def Let_def t by (simp add: demo_sweep_def demo_node_def e)
  have "ww_mt (fst (bridge_record (\<lambda>_. True) ''/h'' 300000000000 demo_wd_logger demo_sweep ''a'' 100 (demo_wd_world 0 False 0))) ''/h/a.json'' = time_utc 200000000000"
    by (simp add: bridge_record_def demo_sweep_def age p write_file_at_def os_write_file_def os_open_create_def os_write_def os_close_def demo_wd_world_def Let_def)
  moreover obtain w1 x where "bridge_record (\<lambda>_. True) ''/h'' 300000000000 demo_wd_logger demo_sweep ''a'' 100 (demo_wd_world 0 False 0) = (w1, x)"
    by (metis surj_pair)
  ultimately show ?thesis using one by (cases x) simp_all
qed

theorem dead_worker_reported_witness:
  "\<exists>x. (''a'', x) \<in> set [(''a'', HAlerted)] \<and> counts_stale x"
proof (rule dead_worker_reported)
  let ?run = "fleet_run (\<lambda>_. True) ''/h'' 300000000000 demo_wd_logger demo_wd_cfg demo_wd_logger [] 100000000000 0 ''/h/a.json'' (demo_wd_world 0 False 0)"
  have "?run (demo_wd_world 0 False 0)" by (rule fleet_start)
  then have "?run (fst (bridge_all (\<lambda>_. True) ''/h'' 300000000000 demo_wd_logger demo_sweep [demo_node] None (demo_wd_world 0 False 0)))"
  proof (rule fleet_sweep)
    show "dead_since 100000000000 ''/h'' ''/h/a.json'' demo_sweep"
      unfolding dead_since_def
    proof (intro allI impI, elim conjE)
      fix n epoch
      assume "probe_epoch demo_sweep n = Some epoch"
      then have "epoch = 100" using demo_epoch [of n] by simp
      then show "t_ns (time_unix epoch) \<le> 100000000000" by (simp add: demo_unix time_utc_def)
    qed
    show "stamps_within 0 demo_sweep" by (simp add: stamps_within_def demo_sweep_def)
  qed
  then show "?run (demo_wd_world 200000000000 False 0)"
    by (rule fleet_other) (simp only: demo_swept, simp add: demo_wd_world_def)
  show "t_ns (ww_mt (demo_wd_world 0 False 0) ''/h/a.json'') \<le> 100000000000 + 300000000000 + 0" by (simp add: demo_wd_world_def time_utc_def)
  show "in_int64 300000000000" "(300000000000::int) < max_int64" "in_int64 (wc_stale_max demo_wd_cfg)" "wc_stale_max demo_wd_cfg < max_int64"
    by (simp_all add: in_int64_def min_int64_def max_int64_def demo_wd_cfg_def)
  show "''/h/a.json'' \<noteq> wd_marker demo_wd_cfg h" if "SLASH \<notin> set h" for h
    using wd_marker_child [of demo_wd_cfg h] that demo_wd_paths(8) by (simp add: demo_wd_cfg_def)
  show "read_heartbeat_dir (tk_flt (demo_tick 700000000001)) (demo_wd_world 200000000000 False 0) (wc_heartbeats demo_wd_cfg) = ok [(''a'', time_utc 200000000000)]"
    using demo_heartbeats by (simp add: demo_tick_def demo_wd_cfg_def)
  show "(''a'', ww_mt (demo_wd_world 200000000000 False 0) ''/h/a.json'') \<in> set [(''a'', time_utc 200000000000)]" by (simp add: demo_wd_world_def)
  show "100000000000 + 300000000000 + 0 + wc_stale_max demo_wd_cfg < t_ns (tk_now (demo_tick 700000000001))"
    by (simp add: demo_wd_cfg_def demo_tick_def time_utc_def)
  show "scan_cycle demo_wd_cfg demo_wd_logger [] (demo_tick 700000000001) (demo_wd_world 200000000000 False 0)
    = (demo_wd_world 200000000000 True 700000000001, [(''a'', HAlerted)], 1, False)"
    by (rule demo_scan_stale) simp_all
qed

end
