(* ===== verification/Hermes_Release.thy ===== *)
theory Hermes_Release
  imports Go_Store
begin

text \<open>
  The release resolver, \<open>internal/hermesrelease/resolver.go\<close>: it translates a marketing version into
  the git tag of the release, with a cache file of two lines.  The function fields of the Go struct are
  options: a field that is nil is \<open>None\<close> or \<open>False\<close>, and \<open>rs_list\<close> is what a call of
  \<open>ListReleases\<close> returns.  The \<open>gh\<close> program is an argument: whether it is on the path and what
  it prints.
\<close>

section \<open>Versions and releases\<close>

record release =
  rel_tag :: string
  rel_name :: string

definition cut_prerelease :: "string \<Rightarrow> string" where
  "cut_prerelease s = takeWhile (\<lambda>c. c \<noteq> CHR ''-'' \<and> c \<noteq> CHR ''+'') s"

definition looks_like_marketing_semver :: "string \<Rightarrow> bool" where
  "looks_like_marketing_semver sv \<longleftrightarrow>
     has_prefix sv ''v'' \<and>
     (let parts = split_on CHR ''.'' (cut_prerelease (tl sv))
      in length parts = 3 \<and> list_all (\<lambda>p. p \<noteq> [] \<and> list_all is_digit p) parts \<and> length (hd parts) < 4)"

fun match_semver :: "release list \<Rightarrow> string \<Rightarrow> string option" where
  "match_semver [] sv = None"
| "match_semver (rel # rels) sv = (if contains (rel_name rel) sv then Some (rel_tag rel) else match_semver rels sv)"

definition release_of_members :: "release \<Rightarrow> members \<Rightarrow> (json_err, release) result" where
  "release_of_members z ms =
     (case get_field dec_string (rel_tag z) ms ''tagName'' of Inl e \<Rightarrow> err e | Inr t \<Rightarrow>
     (case get_field dec_string (rel_name z) ms ''name'' of Inl e \<Rightarrow> err e | Inr n \<Rightarrow>
        ok \<lparr> rel_tag = t, rel_name = n \<rparr>))"

definition no_release :: release where "no_release = \<lparr> rel_tag = [], rel_name = [] \<rparr>"

definition parse_release_list :: "bytes \<Rightarrow> (json_err, release list) result" where
  "parse_release_list raw =
     (case json_elems raw of
        Inl e \<Rightarrow> err e
      | Inr vs \<Rightarrow>
          map_result (\<lambda>v. if v = ''null'' then ok no_release
                          else (case json_members v of Inl e \<Rightarrow> err e | Inr ms \<Rightarrow> release_of_members no_release ms)) vs)"

section \<open>The gh program\<close>

datatype gh_out = GhOut bytes | GhExit bytes string | GhFailed string

datatype list_err = GhNotFound | GhStderr string | GhError string | GhParse json_err

definition run_gh_release_list :: "bool \<Rightarrow> (string list \<Rightarrow> gh_out) \<Rightarrow> string \<Rightarrow> nat \<Rightarrow> (list_err, release list) result" where
  "run_gh_release_list on_path gh repo limit =
     (if \<not> on_path then err GhNotFound
      else (case gh [''release'', ''list'', ''-R'', repo, ''--limit'', nat_str limit, ''--json'', ''tagName,name''] of
              GhExit stderr e \<Rightarrow> if stderr \<noteq> [] then err (GhStderr (trim_space stderr)) else err (GhError e)
            | GhFailed e \<Rightarrow> err (GhError e)
            | GhOut raw \<Rightarrow> (case parse_release_list raw of Inl e \<Rightarrow> err (GhParse e) | Inr rels \<Rightarrow> ok rels)))"

definition default_repo :: string where "default_repo = ''NousResearch/hermes-agent''"
definition default_list_limit :: nat where "default_list_limit = 50"
definition default_cache_file :: path where "default_cache_file = ''.hermes/PINNED_VERSION_TAG''"

definition production_list_releases :: "bool \<Rightarrow> (string list \<Rightarrow> gh_out) \<Rightarrow> (list_err, release list) result" where
  "production_list_releases on_path gh = run_gh_release_list on_path gh default_repo default_list_limit"

section \<open>The cache\<close>

definition format_cache_payload :: "string \<Rightarrow> string \<Rightarrow> bytes" where
  "format_cache_payload sv tag = sv @ [NL] @ tag @ [NL]"

definition parse_cache_payload :: "bytes \<Rightarrow> (string \<times> string) option" where
  "parse_cache_payload raw =
     (case split_on NL (trim_space raw) of
        a # b # _ \<Rightarrow>
          (let sv = trim_space a; tag = trim_space b
           in if sv = [] \<or> tag = [] then None
              else if contains_any sv [SP, TAB] \<or> contains_any tag [SP, TAB] then None
              else Some (sv, tag))
      | _ \<Rightarrow> None)"

record resolver =
  rs_cache_file :: path
  rs_repo :: string
  rs_list :: "(list_err, release list) result option"
  rs_can_read :: bool
  rs_can_write :: bool

definition resolver_default :: "(string, path) result \<Rightarrow> (list_err, release list) result \<Rightarrow> resolver option" where
  "resolver_default home listing =
     (case home of
        Inl _ \<Rightarrow> None
      | Inr h \<Rightarrow>
          if h = [] then None
          else Some \<lparr> rs_cache_file = join2 h default_cache_file, rs_repo = default_repo, rs_list = Some listing,
                      rs_can_read = True, rs_can_write = True \<rparr>)"

definition cache_lookup :: "faults \<Rightarrow> fs \<Rightarrow> resolver \<Rightarrow> string \<Rightarrow> string option" where
  "cache_lookup flt fs r sv =
     (case os_read_file flt fs (rs_cache_file r) of
        Inl _ \<Rightarrow> None
      | Inr raw \<Rightarrow>
          (case parse_cache_payload raw of
             None \<Rightarrow> None
           | Some (sv', tag) \<Rightarrow> if sv' \<noteq> sv then None else Some tag))"

text \<open>The \<open>WriteCache\<close> of \<open>Default\<close>; \<open>Resolve\<close> drops its error.\<close>

definition write_cache :: "faults \<Rightarrow> fs \<Rightarrow> path \<Rightarrow> bytes \<Rightarrow> fs" where
  "write_cache flt fs p payload =
     (case os_mkdir_all flt fs (dir_path p) mode_0755 of
        Inl (_, fs') \<Rightarrow> fs'
      | Inr fs1 \<Rightarrow> (case os_write_file flt fs1 p payload mode_0644 of Inl (_, fs') \<Rightarrow> fs' | Inr fs' \<Rightarrow> fs'))"

datatype resolve_err = RInvalid string | RNotWired | RList list_err | RNotFound string nat string

definition repo_or_default :: "resolver \<Rightarrow> string" where
  "repo_or_default r = (if rs_repo r \<noteq> [] then rs_repo r else default_repo)"

definition resolve :: "faults \<Rightarrow> fs \<Rightarrow> resolver \<Rightarrow> string \<Rightarrow> (resolve_err, string) result \<times> fs" where
  "resolve flt fs r semver =
     (let sv = trim_space semver in
      if \<not> looks_like_marketing_semver sv then (err (RInvalid semver), fs)
      else (case (if rs_cache_file r \<noteq> [] \<and> rs_can_read r then cache_lookup flt fs r sv else None) of
              Some tag \<Rightarrow> (ok tag, fs)
            | None \<Rightarrow>
                (case rs_list r of
                   None \<Rightarrow> (err RNotWired, fs)
                 | Some (Inl e) \<Rightarrow> (err (RList e), fs)
                 | Some (Inr rels) \<Rightarrow>
                     (case match_semver rels sv of
                        None \<Rightarrow> (err (RNotFound sv (length rels) (repo_or_default r)), fs)
                      | Some tag \<Rightarrow>
                          (ok tag, if rs_can_write r \<and> rs_cache_file r \<noteq> []
                                   then write_cache flt fs (rs_cache_file r) (format_cache_payload sv tag) else fs)))))"

section \<open>The cache keeps the answer\<close>

text \<open>A token is what a line of the cache file can hold.\<close>

definition token :: "string \<Rightarrow> bool" where
  "token s \<longleftrightarrow> s \<noteq> [] \<and> trim_space s = s \<and> \<not> contains_any s [SP, TAB] \<and> NL \<notin> set s"

lemma trim_space_NL:
  assumes "sp_len u = 0" "rsp_len (rev u) = 0" "u \<noteq> []"
  shows "trim_space (u @ [NL]) = u"
proof -
  have "sp_len (u @ [NL]) = 0" using sp_len_sep [of NL u "[]"] assms(1,3) by (simp add: byte_def)
  moreover have "rsp_len (NL # rev u) = 1" by (simp add: rsp_len_def ascii_space_def byte_def)
  ultimately show ?thesis
    using assms(2) by (simp add: trim_space_def trim_left_space.simps [of "u @ [NL]"] trim_rev_space.simps [of "NL # rev u"]
        trim_rev_space.simps [of "rev u"])
qed

lemma cache_payload_roundtrip:
  assumes "token sv" "token tag"
  shows "parse_cache_payload (format_cache_payload sv tag) = Some (sv, tag)"
proof -
  have e: "sp_len sv = 0" "rsp_len (rev tag) = 0" "sv \<noteq> []" "tag \<noteq> []"
    using assms trim_space_sp_len trim_space_rsp_len by (auto simp: token_def)
  have "trim_space ((sv @ NL # tag) @ [NL]) = sv @ NL # tag"
    using e sp_len_sep [of NL sv tag] rsp_len_sep [of NL "rev tag" "rev sv"] by (intro trim_space_NL) (auto simp: byte_def)
  moreover have "split_on NL (sv @ NL # tag) = [sv, tag]"
    using assms by (simp add: token_def split_on_append split_on_no_sep)
  ultimately show ?thesis using assms by (simp add: parse_cache_payload_def format_cache_payload_def token_def Let_def)
qed

lemma write_cache_stores:
  assumes "proper_dir (dir_path p)" "\<not> list_ex (is_file fs) (ancestors (dir_path p))" "\<not> is_dir fs p" "p \<notin> set (ancestors (dir_path p))"
  shows "file_data (write_cache no_faults fs p b) p = Some b"
proof -
  obtain fs1 where m: "os_mkdir_all no_faults fs (dir_path p) mode_0755 = ok fs1"
    and map: "\<And>q. map_of fs1 q = (if map_of fs q = None \<and> q \<in> set (ancestors (dir_path p)) then Some (Dir mode_0755) else map_of fs q)"
    using assms(2) mkdir_fold [of mode_0755 fs "ancestors (dir_path p)"] by (simp add: os_mkdir_all_fold)
  have "is_dir fs1 (dir_path p)"
    using map [of "dir_path p"] ancestors_last [OF assms(1)] assms(2)
    by (auto simp: is_dir_def is_file_def list_ex_iff split: option.splits fnode.splits)
  moreover have "\<not> is_dir fs1 p" using map [of p] assms(3,4) by (simp add: is_dir_def)
  ultimately obtain fs2 where "os_write_file no_faults fs1 p b mode_0644 = ok fs2" using write_file_succeeds by blast
  then show ?thesis using m write_file_ok by (auto simp: write_cache_def)
qed

text \<open>The cache keeps the answer: when a lookup resolved a version and both the version and the tag
  fit a line of the cache file, then the next call for this version returns the same tag whatever
  the listing would answer, even that it fails, and leaves the files alone.\<close>

theorem resolve_cached:
  assumes "resolve no_faults fs r semver = (ok tag, fs')" "rs_can_read r" "rs_can_write r" "rs_cache_file r \<noteq> []"
    and "proper_dir (dir_path (rs_cache_file r))" "\<not> list_ex (is_file fs) (ancestors (dir_path (rs_cache_file r)))"
    and "\<not> is_dir fs (rs_cache_file r)" "rs_cache_file r \<notin> set (ancestors (dir_path (rs_cache_file r)))"
    and "token (trim_space semver)" "token tag"
  shows "resolve no_faults fs' (r\<lparr> rs_list := listing \<rparr>) semver = (ok tag, fs')"
proof -
  let ?sv = "trim_space semver"
  have sv: "looks_like_marketing_semver ?sv" using assms(1) by (auto simp: resolve_def Let_def split: if_splits)
  have "cache_lookup no_faults fs' (r\<lparr> rs_list := listing \<rparr>) ?sv = Some tag"
  proof (cases "cache_lookup no_faults fs r ?sv")
    case (Some t)
    then have "t = tag" "fs' = fs" using assms(1-4) sv by (simp_all add: resolve_def Let_def)
    with Some show ?thesis by (simp add: cache_lookup_def)
  next
    case None
    then have "fs' = write_cache no_faults fs (rs_cache_file r) (format_cache_payload ?sv tag)"
      using assms(1-4) sv by (auto simp: resolve_def Let_def split: option.splits sum.splits)
    then have "file_data fs' (rs_cache_file r) = Some (format_cache_payload ?sv tag)"
      using write_cache_stores [OF assms(5-8)] by simp
    then show ?thesis
      using cache_payload_roundtrip [OF assms(9,10)]
      by (auto simp: cache_lookup_def os_read_file_def file_data_def split: option.splits fnode.splits)
  qed
  then show ?thesis using sv assms(2,4) by (simp add: resolve_def Let_def)
qed

text \<open>A later release whose version merely extends the requested one is taken for it: the listing is
  newest first, so \<open>v0.1.1\<close> resolves to the tag of \<open>v0.1.10\<close>.\<close>

theorem match_semver_collision:
  "match_semver [\<lparr> rel_tag = ''v2026.9.9'', rel_name = ''Hermes Agent v0.1.10'' \<rparr>,
     \<lparr> rel_tag = ''v2026.1.2'', rel_name = ''Hermes Agent v0.1.1'' \<rparr>] ''v0.1.1'' = Some ''v2026.9.9''"
  by code_simp

definition demo_resolver :: resolver where
  "demo_resolver = \<lparr> rs_cache_file = ''/u/.hermes/T'', rs_repo = [],
     rs_list = Some (ok [\<lparr> rel_tag = ''v2026.5.7'', rel_name = ''Hermes Agent v0.13.0 (2026.5.7)'' \<rparr>]), rs_can_read = True, rs_can_write = True \<rparr>"

definition demo_home :: fs where "demo_home = [(''/u'', Dir mode_0755)]"

theorem resolve_cached_witness:
  "resolve no_faults (snd (resolve no_faults demo_home demo_resolver '' v0.13.0'')) (demo_resolver\<lparr> rs_list := Some (err GhNotFound) \<rparr>) '' v0.13.0''
     = (ok ''v2026.5.7'', snd (resolve no_faults demo_home demo_resolver '' v0.13.0''))"
proof (rule resolve_cached)
  show "resolve no_faults demo_home demo_resolver '' v0.13.0'' = (ok ''v2026.5.7'', snd (resolve no_faults demo_home demo_resolver '' v0.13.0''))"
    by code_simp
  show "rs_can_read demo_resolver" "rs_can_write demo_resolver" "rs_cache_file demo_resolver \<noteq> []" by code_simp+
  show "proper_dir (dir_path (rs_cache_file demo_resolver))" by code_simp
  show "\<not> list_ex (is_file demo_home) (ancestors (dir_path (rs_cache_file demo_resolver)))" by code_simp
  show "\<not> is_dir demo_home (rs_cache_file demo_resolver)" by code_simp
  show "rs_cache_file demo_resolver \<notin> set (ancestors (dir_path (rs_cache_file demo_resolver)))" by code_simp
  show "token (trim_space '' v0.13.0'')" "token ''v2026.5.7''" by code_simp+
qed

end
