(* ===== verification/Ssh_Net.thy ===== *)
theory Ssh_Net
  imports Ssh_Target Go_Utf8 "HOL-Library.Word"
begin

text \<open>
  The addresses the SSH dialer connects to, \<open>dialFiltered\<close> and \<open>isFilteredIP\<close> of
  \<open>internal/ssh/ssh.go\<close>, over what they use of package \<open>net\<close>: the text form of addresses, the
  parser of literals and the predicates on their bytes.  The resolver and the connection are fields of
  the dialer in the source, so they are arguments here; the connection also gets the number of the
  attempt.  The theorems state the filter as address blocks and say what is dialled.
\<close>

unbundle bit_operations_syntax

section \<open>Package net\<close>

type_synonym ip = "8 word list"

record ip_addr =
  ia_ip :: ip
  ia_zone :: string

definition to4 :: "ip \<Rightarrow> ip option" where
  "to4 a =
     (if length a = 4 then Some a
      else if length a = 16 \<and> take 10 a = replicate 10 0 \<and> a ! 10 = 0xFF \<and> a ! 11 = 0xFF then Some (drop 12 a)
      else None)"

definition to16 :: "ip \<Rightarrow> ip option" where
  "to16 a =
     (if length a = 4 then Some (replicate 10 0 @ [0xFF, 0xFF] @ a) else if length a = 16 then Some a else None)"

definition is_link_local_unicast :: "ip \<Rightarrow> bool" where
  "is_link_local_unicast a =
     (case to4 a of
        Some q \<Rightarrow> q ! 0 = 169 \<and> q ! 1 = 254
      | None \<Rightarrow> length a = 16 \<and> a ! 0 = 0xFE \<and> a ! 1 AND 0xC0 = 0x80)"

definition is_link_local_multicast :: "ip \<Rightarrow> bool" where
  "is_link_local_multicast a =
     (case to4 a of
        Some q \<Rightarrow> q ! 0 = 224 \<and> q ! 1 = 0 \<and> q ! 2 = 0
      | None \<Rightarrow> length a = 16 \<and> a ! 0 = 0xFF \<and> a ! 1 AND 0x0F = 0x02)"

definition hex_byte :: "8 word \<Rightarrow> string" where
  "hex_byte b = [hex_digit (unat b div 16), hex_digit (unat b mod 16)]"

fun nat_hex :: "nat \<Rightarrow> string" where
  "nat_hex n = (if n < 16 then [hex_digit n] else nat_hex (n div 16) @ [hex_digit (n mod 16)])"

declare nat_hex.simps [simp del]

fun byte_pairs :: "ip \<Rightarrow> nat list" where
  "byte_pairs (a # b # r) = (unat a * 256 + unat b) # byte_pairs r"
| "byte_pairs _ = []"

text \<open>The first of the longest runs of at least two zero groups.\<close>

definition zero_run :: "nat list \<Rightarrow> nat \<times> nat" where
  "zero_run gs =
     foldl (\<lambda>best i. let l = length (takeWhile (\<lambda>g. g = 0) (drop i gs)) in if 2 \<le> l \<and> snd best < l then (i, l) else best)
           (length gs, 0) [0..<length gs]"

definition ip6_string :: "nat list \<Rightarrow> string" where
  "ip6_string gs =
     (case zero_run gs of (i, l) \<Rightarrow>
        if l = 0 then join_with '':'' (map nat_hex gs)
        else join_with '':'' (map nat_hex (take i gs)) @ ''::'' @ join_with '':'' (map nat_hex (drop (i + l) gs)))"

definition ip_string :: "ip \<Rightarrow> string" where
  "ip_string a =
     (if a = [] then []
      else (case to4 a of
              Some q \<Rightarrow> join_with ''.'' (map (\<lambda>b. nat_str (unat b)) q)
            | None \<Rightarrow> if length a = 16 then ip6_string (byte_pairs a) else ''?'' @ concat (map hex_byte a)))"

text \<open>Whether \<open>net.ParseIP\<close> accepts a literal.  \<open>k\<close> is the number of groups that still fit and
  \<open>ell\<close> whether an ellipsis was seen.\<close>

definition ip4_field :: "string \<Rightarrow> bool" where
  "ip4_field f \<longleftrightarrow> all_digits f \<and> (hd f = CHR ''0'' \<longrightarrow> length f = 1) \<and> digits_val f \<le> 255"

definition ip4_text :: "string \<Rightarrow> bool" where
  "ip4_text s = (case split_on CHR ''.'' s of [a, b, c, d] \<Rightarrow> list_all ip4_field [a, b, c, d] | _ \<Rightarrow> False)"

definition ip6_end :: "nat \<Rightarrow> bool \<Rightarrow> bool" where
  "ip6_end k ell = (if 0 < k then ell else \<not> ell)"

fun ip6_groups :: "nat \<Rightarrow> bool \<Rightarrow> string \<Rightarrow> bool" where
  "ip6_groups 0 ell s = False"
| "ip6_groups (Suc k) ell s =
     (let h = takeWhile (\<lambda>c. hex_val c \<noteq> None) s; rest = drop (length h) s in
      if h = [] \<or> 4 < length h then False
      else (case rest of
              [] \<Rightarrow> ip6_end k ell
            | c # r \<Rightarrow>
                if c = CHR ''.'' then (ell \<or> k = 1) \<and> 1 \<le> k \<and> ip4_text s \<and> ip6_end (k - 1) ell
                else if c \<noteq> CHR '':'' \<or> r = [] then False
                else if hd r = CHR '':'' then \<not> ell \<and> (if tl r = [] then ip6_end k True else ip6_groups k True (tl r))
                else ip6_groups k ell r))"

definition ip6_text :: "string \<Rightarrow> bool" where
  "ip6_text s =
     (if has_prefix s ''::'' then drop 2 s = [] \<or> ip6_groups 8 True (drop 2 s) else ip6_groups 8 False s)"

definition parse_ip_ok :: "string \<Rightarrow> bool" where
  "parse_ip_ok s =
     (case find (\<lambda>c. c \<in> {CHR ''.'', CHR '':'', CHR ''%''}) s of
        Some c \<Rightarrow> if c = CHR ''.'' then ip4_text s
                  else if c = CHR '':'' then CHR ''%'' \<notin> set s \<and> ip6_text s
                  else False
      | None \<Rightarrow> False)"

section \<open>The dialer\<close>

definition is_filtered_ip :: "ip \<Rightarrow> bool" where
  "is_filtered_ip a =
     (if is_link_local_unicast a \<or> is_link_local_multicast a then True
      else (case to16 a of
              Some v6 \<Rightarrow> to4 a = None \<and> v6 ! 0 = 0xFE \<and> v6 ! 1 AND 0xC0 = 0xC0
            | None \<Rightarrow> False))"

definition ip_with_zone :: "ip_addr \<Rightarrow> string" where
  "ip_with_zone a = ip_string (ia_ip a) @ (if ia_zone a \<noteq> [] then ''%'' @ ia_zone a else [])"

record 'c net_env =
  ne_dial :: "nat \<Rightarrow> string \<Rightarrow> (string, 'c) result"
  ne_resolve :: "string \<Rightarrow> (string, ip_addr list) result"

datatype net_err = NtDial string | NtResolve string string | NtLinkLocal string

definition candidate :: "string \<Rightarrow> ip_addr \<Rightarrow> string" where
  "candidate port a = join_host_port (ip_with_zone a) port"

text \<open>The candidates in order; the first connection wins, else the last error is returned.  The list
  is what was dialled.\<close>

fun dial_each :: "'c net_env \<Rightarrow> string \<Rightarrow> nat \<Rightarrow> string \<Rightarrow> ip_addr list \<Rightarrow> string list \<times> (string, 'c) result" where
  "dial_each env port n last_err [] = ([], err last_err)"
| "dial_each env port n last_err (a # as) =
     (let c = candidate port a in
      case ne_dial env n c of
        Inr conn \<Rightarrow> ([c], ok conn)
      | Inl e \<Rightarrow> (case dial_each env port (Suc n) e as of (cs, r) \<Rightarrow> (c # cs, r)))"

definition dial_direct :: "'c net_env \<Rightarrow> string \<Rightarrow> string list \<times> (net_err, 'c) result" where
  "dial_direct env addr = ([addr], map_sum NtDial id (ne_dial env 0 addr))"

definition dial_filtered :: "'c net_env \<Rightarrow> bool \<Rightarrow> string \<Rightarrow> string list \<times> (net_err, 'c) result" where
  "dial_filtered env allow_link_local addr =
     (if allow_link_local then dial_direct env addr
      else (case split_host_port addr of
              Inl _ \<Rightarrow> dial_direct env addr
            | Inr (host, port) \<Rightarrow>
                if parse_ip_ok host then dial_direct env addr
                else (case ne_resolve env host of
                        Inl e \<Rightarrow> ([], err (NtResolve host e))
                      | Inr ips \<Rightarrow>
                          (let usable = filter (\<lambda>a. \<not> is_filtered_ip (ia_ip a)) ips in
                           if usable = [] then ([], err (NtLinkLocal host))
                           else (case dial_each env port 0 [] usable of (cs, r) \<Rightarrow> (cs, map_sum NtDial id r))))))"

section \<open>The filter as address blocks\<close>

fun ip_value :: "ip \<Rightarrow> nat" where
  "ip_value [] = 0"
| "ip_value (b # r) = unat b * 256 ^ length r + ip_value r"

text \<open>\<open>a\<close> lies in the block \<open>p/n\<close>: the first \<open>n\<close> bits agree.\<close>

definition in_block :: "ip \<Rightarrow> nat \<Rightarrow> ip \<Rightarrow> bool" where
  "in_block p n a \<longleftrightarrow> length a = length p \<and> ip_value a div 2 ^ (8 * length a - n) = ip_value p div 2 ^ (8 * length p - n)"

definition v6_block :: "8 word \<Rightarrow> 8 word \<Rightarrow> ip" where
  "v6_block x y = x # y # replicate 14 0"

definition v4_mapped :: "ip \<Rightarrow> ip" where
  "v4_mapped a = replicate 10 0 @ [0xFF, 0xFF] @ a"

lemma byte_unat: "unat (v :: 8 word) < 256"
  using unsigned_less [where ?'a = nat, of v] by simp

lemma ip_value_append: "ip_value (a @ b) = ip_value a * 256 ^ length b + ip_value b"
  by (induction a) (simp_all add: algebra_simps power_add)

lemma ip_value_bound: "ip_value a < 256 ^ length a"
proof (induction a)
  case (Cons x a)
  have "unat x * 256 ^ length a + 256 ^ length a \<le> 256 * 256 ^ length a"
    using mult_le_mono1 [of "Suc (unat x)" 256 "256 ^ length a"] byte_unat [of x] by simp
  then show ?case using Cons unfolding ip_value.simps length_Cons power_Suc by linarith
qed simp

lemma digits_eq:
  fixes a b c d n :: nat
  assumes "b < n" "d < n"
  shows "a * n + b = c * n + d \<longleftrightarrow> a = c \<and> b = d"
proof
  assume e: "a * n + b = c * n + d"
  have "(a * n + b) div n = a" "(c * n + d) div n = c" "(a * n + b) mod n = b" "(c * n + d) mod n = d" using assms by auto
  then show "a = c \<and> b = d" using e by simp
qed simp

lemma ip_value_high: "ip_value (a @ b) div 256 ^ length b = ip_value a"
  using ip_value_bound [of b] by (simp add: ip_value_append)

lemma in_block_bytes:
  assumes "length b = length c"
  shows "in_block (p @ c) (8 * length p) (a @ b) \<longleftrightarrow> length a = length p \<and> ip_value a = ip_value p"
proof -
  have "(2::nat) ^ (8 * length c) = 256 ^ length c" by (simp add: power_mult)
  then show ?thesis using assms ip_value_high [of a b] ip_value_high [of p c] by (auto simp: in_block_def algebra_simps)
qed

lemma v6_block_10:
  assumes "length r = 14"
  shows "in_block (v6_block x y) 10 (u # v # r) \<longleftrightarrow> u = x \<and> unat v div 64 = unat y div 64"
proof -
  have high: "ip_value (p # q # s) div 2 ^ 118 = unat p * 4 + unat q div 64" if "length s = 14" for p q and s :: ip
  proof -
    have "(2::nat) ^ 118 = 256 ^ length s * 64" using that by simp
    then have "ip_value (p # q # s) div 2 ^ 118 = ip_value [p, q] div 64"
      using ip_value_high [of "[p, q]" s] by (simp only: div_mult2_eq append_Cons append_Nil)
    then show ?thesis by simp
  qed
  have "unat v div 64 < 4" "unat y div 64 < 4" using byte_unat [of v] byte_unat [of y] by auto
  note eq = digits_eq [OF this, of "unat u" "unat x"]
  show ?thesis using eq high [OF assms, of u v] high [of "replicate 14 0" x y] assms by (simp add: in_block_def v6_block_def word_unat_eq_iff del: ip_value.simps)
qed

lemma v6_block_16:
  assumes "length r = 14"
  shows "in_block (v6_block x y) 16 (u # v # r) \<longleftrightarrow> u = x \<and> v = y"
proof -
  note eq = digits_eq [OF byte_unat byte_unat, of "unat u" v "unat x" y]
  show ?thesis
    using eq in_block_bytes [of r "replicate 14 0" "[x, y]" "[u, v]"] assms by (simp add: v6_block_def word_unat_eq_iff)
qed

lemma byte_cases:
  assumes "list_all (\<lambda>n. P (word_of_nat n) n) [0..<256]"
  shows "P (v :: 8 word) (unat v)"
proof -
  have "P (word_of_nat (unat v)) (unat v)" using assms byte_unat [of v] unfolding list_all_iff by (metis atLeastLessThan_iff le0 set_upt)
  then show ?thesis by simp
qed

lemma byte_masks:
  fixes v :: "8 word"
  shows "v AND 0xC0 = 0x80 \<longleftrightarrow> unat v div 64 = 2" "v AND 0xC0 = 0xC0 \<longleftrightarrow> unat v div 64 = 3"
    "v AND 0x0F = 2 \<longleftrightarrow> unat v mod 16 = 2"
  by (rule byte_cases [where P = "\<lambda>v n. (v AND 0xC0 = 0x80) = (n div 64 = 2)"], code_simp,
      rule byte_cases [where P = "\<lambda>v n. (v AND 0xC0 = 0xC0) = (n div 64 = 3)"], code_simp,
      rule byte_cases [where P = "\<lambda>v n. (v AND 0x0F = 2) = (n mod 16 = 2)"], code_simp)

text \<open>The blocks, on the four bytes of an IPv4 address also when it is in its mapped form.\<close>

definition blocked :: "ip \<Rightarrow> bool" where
  "blocked a =
     (case to4 a of
        Some q \<Rightarrow> in_block [169, 254, 0, 0] 16 q \<or> in_block [224, 0, 0, 0] 24 q
      | None \<Rightarrow> in_block (v6_block 0xFE 0x80) 10 a \<or> in_block (v6_block 0xFE 0xC0) 10 a
          \<or> list_ex (\<lambda>f. in_block (v6_block 0xFF (word_of_nat (16 * f + 2))) 16 a) [0..<16])"

lemma v4_blocks:
  assumes "length q = 4"
  shows "in_block [169, 254, 0, 0] 16 q \<longleftrightarrow> q ! 0 = 169 \<and> q ! 1 = 254"
    "in_block [224, 0, 0, 0] 24 q \<longleftrightarrow> q ! 0 = 224 \<and> q ! 1 = 0 \<and> q ! 2 = 0"
proof -
  obtain w x y z where q: "q = [w, x, y, z]" using assms by (auto simp: eval_nat_numeral length_Suc_conv)
  have "unat w * 256 + unat x = 169 * 256 + 254 \<longleftrightarrow> unat w = 169 \<and> unat x = 254"
    by (rule digits_eq) (simp_all add: byte_unat)
  then show "in_block [169, 254, 0, 0] 16 q \<longleftrightarrow> q ! 0 = 169 \<and> q ! 1 = 254"
    using in_block_bytes [of "[y, z]" "[0, 0]" "[169, 254]" "[w, x]"] by (simp add: q word_unat_eq_iff)
  have "(unat w * 256 + unat x) * 256 + unat y = (224 * 256 + 0) * 256 + 0 \<longleftrightarrow> unat w * 256 + unat x = 224 * 256 + 0 \<and> unat y = 0"
    by (rule digits_eq) (simp_all add: byte_unat)
  moreover have "unat w * 256 + unat x = 224 * 256 + 0 \<longleftrightarrow> unat w = 224 \<and> unat x = 0"
    by (rule digits_eq) (simp_all add: byte_unat)
  ultimately show "in_block [224, 0, 0, 0] 24 q \<longleftrightarrow> q ! 0 = 224 \<and> q ! 1 = 0 \<and> q ! 2 = 0"
    using in_block_bytes [of "[z]" "[0]" "[224, 0, 0]" "[w, x, y]"] by (simp add: q word_unat_eq_iff) (simp add: ac_simps)
qed

lemma scope_blocks: "list_ex (\<lambda>f. v = (word_of_nat (16 * f + 2) :: 8 word)) [0..<16] \<longleftrightarrow> unat v mod 16 = 2"
proof
  assume "list_ex (\<lambda>f. v = (word_of_nat (16 * f + 2) :: 8 word)) [0..<16]"
  then obtain f where f: "f < 16" "v = word_of_nat (16 * f + 2)" unfolding list_ex_iff by auto
  then have "unat v = 16 * f + 2" by (simp only: unat_of_nat) simp
  then show "unat v mod 16 = 2" by presburger
next
  assume m: "unat v mod 16 = 2"
  have "v = word_of_nat (16 * (unat v div 16) + 2)" using m mult_div_mod_eq [of 16 "unat v"] by simp
  moreover have "unat v div 16 \<in> set [0..<16]" using byte_unat [of v] by auto
  ultimately show "list_ex (\<lambda>f. v = (word_of_nat (16 * f + 2) :: 8 word)) [0..<16]" unfolding list_ex_iff by blast
qed

lemma v6_blocks:
  assumes "to4 a = None"
  shows "is_filtered_ip a \<longleftrightarrow> blocked a"
proof (cases "length a = 16")
  case True
  then obtain u v r where a: "a = u # v # r" "length r = 14"
    by (cases a; cases "tl a") auto
  show ?thesis
    unfolding is_filtered_ip_def blocked_def is_link_local_unicast_def is_link_local_multicast_def
    using assms True a(2)
    by (simp only: to16_def a(1) v6_block_10 v6_block_16 byte_masks scope_blocks [symmetric] list_ex_iff) auto
next
  case False
  then have "\<not> in_block (v6_block x y) n a" for x y n by (simp add: in_block_def v6_block_def)
  then show ?thesis using False assms
    by (auto simp: is_filtered_ip_def blocked_def is_link_local_unicast_def is_link_local_multicast_def to16_def to4_def list_ex_iff)
qed

lemma is_filtered_blocked: "is_filtered_ip a = blocked a"
proof (cases "to4 a")
  case (Some q)
  then have "length q = 4" by (auto simp: to4_def split: if_splits)
  then show ?thesis
    using Some v4_blocks [of q] by (auto simp: is_filtered_ip_def blocked_def is_link_local_unicast_def is_link_local_multicast_def split: option.splits)
qed (rule v6_blocks)

text \<open>C23. The filter of the dialer is exactly the link-local and site-local blocks: an IPv4 address, also in its
  mapped form, is filtered when it is in 169.254.0.0/16 or 224.0.0.0/24, and any other IPv6
  address when it is in fe80::/10, in fec0::/10 or, for some flags \<open>f\<close>, in the multicast block
  \<open>ff<f>2::/16\<close>.\<close>

theorem filtered_blocks: "is_filtered_ip a = blocked a"
  by (rule is_filtered_blocked)

section \<open>What is dialled\<close>

lemma dial_each_prefix:
  assumes "dial_each env port n e as = (cs, r)"
  shows "\<exists>rest. map (candidate port) as = cs @ rest \<and> (isl r \<longrightarrow> rest = [])"
  using assms
proof (induction env port n e as arbitrary: cs r rule: dial_each.induct)
  case (2 env port n e a as)
  show ?case
  proof (cases "ne_dial env n (candidate port a)")
    case (Inl x)
    obtain cs' r' where "dial_each env port (Suc n) x as = (cs', r')" by (metis surj_pair)
    then show ?thesis using "2.prems" "2.IH" [OF refl Inl, of cs' r'] Inl by (auto simp: Let_def)
  next
    case (Inr c)
    then have "dial_each env port n e (a # as) = ([candidate port a], ok c)" by (simp add: Let_def)
    then have "cs = [candidate port a]" "r = ok c" using "2.prems" by (metis prod.inject)+
    then show ?thesis by simp
  qed
qed simp

text \<open>For a host name the dialer tries the addresses of the resolver that lie in none of the
  blocked ranges, in the order of the resolver, and no others; it gives up only when each of them
  has been tried.\<close>

theorem dial_skips_blocked:
  assumes "dial_filtered env False addr = (tried, r)"
    and "split_host_port addr = ok (host, port)" "\<not> parse_ip_ok host" "ne_resolve env host = ok ips"
  shows "\<exists>rest. map (candidate port) (filter (\<lambda>a. \<not> blocked (ia_ip a)) ips) = tried @ rest \<and> (isl r \<longrightarrow> rest = [])"
proof -
  let ?u = "filter (\<lambda>a. \<not> blocked (ia_ip a)) ips"
  show ?thesis
  proof (cases "?u = []")
    case False
    obtain cs r' where d: "dial_each env port 0 [] ?u = (cs, r')" by (metis surj_pair)
    then have "tried = cs" "isl r = isl r'"
      using assms False by (auto simp: dial_filtered_def Let_def is_filtered_blocked map_sum_def split: sum.splits)
    then show ?thesis using dial_each_prefix [OF d] by simp
  qed (use assms in \<open>auto simp: dial_filtered_def Let_def is_filtered_blocked\<close>)
qed

definition demo_net :: "nat net_env" where
  "demo_net = \<lparr> ne_dial = (\<lambda>n a. if a = ''10.0.0.2:22'' then ok n else err ''refused''),
     ne_resolve = (\<lambda>h. ok [\<lparr> ia_ip = 0xFE # 0x80 # replicate 13 0 @ [1], ia_zone = ''en0'' \<rparr>,
        \<lparr> ia_ip = replicate 15 0 @ [7], ia_zone = [] \<rparr>, \<lparr> ia_ip = [10, 0, 0, 2], ia_zone = [] \<rparr>]) \<rparr>"

lemma demo_net_dial:
  "dial_filtered demo_net False ''claw1.local:22'' = ([''[::7]:22'', ''10.0.0.2:22''], ok 1)"
  "split_host_port ''claw1.local:22'' = ok (''claw1.local'', ''22'')" "\<not> parse_ip_ok ''claw1.local''"
  "parse_ip_ok ''fe80::1'' \<and> parse_ip_ok ''::ffff:1.2.3.4'' \<and> \<not> parse_ip_ok ''1.2.3.04'' \<and> \<not> parse_ip_ok ''1::2::3''"
  by code_simp+

theorem dial_skips_blocked_witness:
  "\<exists>rest. map (candidate ''22'') (filter (\<lambda>a. \<not> blocked (ia_ip a)) (projr (ne_resolve demo_net ''claw1.local'')))
     = [''[::7]:22'', ''10.0.0.2:22''] @ rest"
  using dial_skips_blocked [OF demo_net_dial(1-3), of "projr (ne_resolve demo_net ''claw1.local'')"] by (auto simp: demo_net_def)

end
