(* ===== verification/Ssh_Client.thy ===== *)
theory Ssh_Client
  imports Ssh_Net Go_FS Go_Duration
begin

text \<open>
  The SSH client, \<open>internal/ssh/ssh.go\<close>: the configuration, the choice of credentials, the
  host key check against \<open>known_hosts\<close>, \<open>Dial\<close>, the run of one command and \<open>Close\<close>.  What belongs
  to \<open>golang.org/x/crypto/ssh\<close> and its packages \<open>knownhosts\<close> and \<open>agent\<close> is the argument
  \<open>lib\<close>; the keepalive timer is left out.  The main theorem is that a key seen at first
  use is pinned.
\<close>

section \<open>Configuration\<close>

definition default_connect_timeout :: int where "default_connect_timeout = 10 * 1000000000"
definition default_server_alive_interval :: int where "default_server_alive_interval = 30 * 1000000000"
definition default_known_hosts_path :: path where "default_known_hosts_path = ''~/.ssh/known_hosts''"
definition max_captured_stderr :: nat where "max_captured_stderr = 4096"

record ssh_config =
  sc_connect_timeout :: int
  sc_server_alive :: int
  sc_known_hosts :: path
  sc_accept_new :: bool
  sc_strict :: bool
  sc_agent_socket :: string
  sc_key_file :: path
  sc_key_passphrase :: bytes
  sc_allow_link_local :: bool

type_synonym ssh_option = "ssh_config \<Rightarrow> ssh_config"

definition with_connect_timeout :: "int \<Rightarrow> ssh_option" where
  "with_connect_timeout d c = c\<lparr> sc_connect_timeout := d \<rparr>"

definition with_server_alive_interval :: "int \<Rightarrow> ssh_option" where
  "with_server_alive_interval d c = c\<lparr> sc_server_alive := d \<rparr>"

definition with_known_hosts_path :: "path \<Rightarrow> ssh_option" where
  "with_known_hosts_path p c = c\<lparr> sc_known_hosts := p \<rparr>"

definition with_accept_new :: "bool \<Rightarrow> ssh_option" where
  "with_accept_new a c = c\<lparr> sc_accept_new := a \<rparr>"

definition with_strict_host_key :: ssh_option where
  "with_strict_host_key c = c\<lparr> sc_strict := True, sc_accept_new := False \<rparr>"

definition with_agent_socket :: "string \<Rightarrow> ssh_option" where
  "with_agent_socket p c = c\<lparr> sc_agent_socket := p \<rparr>"

definition with_key_file :: "path \<Rightarrow> bytes \<Rightarrow> ssh_option" where
  "with_key_file p pass c = c\<lparr> sc_key_file := p, sc_key_passphrase := pass \<rparr>"

definition with_allow_link_local :: ssh_option where
  "with_allow_link_local c = c\<lparr> sc_allow_link_local := True \<rparr>"

definition apply_options :: "ssh_option list \<Rightarrow> ssh_config \<Rightarrow> ssh_config" where
  "apply_options opts c = foldl (\<lambda>c f. f c) c opts"

definition new_dialer :: "(string \<Rightarrow> string) \<Rightarrow> ssh_option list \<Rightarrow> ssh_config" where
  "new_dialer getenv opts =
     apply_options opts
       \<lparr> sc_connect_timeout = default_connect_timeout, sc_server_alive = default_server_alive_interval,
         sc_known_hosts = default_known_hosts_path, sc_accept_new = True, sc_strict = False,
         sc_agent_socket = getenv ''SSH_AUTH_SOCK'', sc_key_file = [], sc_key_passphrase = [], sc_allow_link_local = False \<rparr>"

section \<open>Credentials\<close>

datatype 's auth_method = PublicKeys 's | PublicKeysCallback string

text \<open>The verdict of \<open>knownhosts\<close>: the key is listed, other keys are wanted (none when the host is
  not listed), or another error.\<close>

datatype kh_verdict = KhOk | KhKeyError "string list" | KhOther string

text \<open>\<open>sl_kh_load\<close> is the error of \<open>knownhosts.New\<close> on the content of the file,
  \<open>sl_kh_check\<close> the callback it returns for that content, on host name, remote address and key,
  and \<open>sl_kh_line\<close> the entry \<open>Line\<close> and \<open>Normalize\<close> make.  \<open>sl_server\<close> is what the other
  end of a connection presents in the handshake, its remote address and its key;
  \<open>sl_auth\<close> is the error of the authentication that follows.\<close>

record ('k, 's, 'c) ssh_lib =
  sl_kh_load :: "bytes \<Rightarrow> string option"
  sl_kh_check :: "bytes \<Rightarrow> string \<Rightarrow> string \<Rightarrow> 'k \<Rightarrow> kh_verdict"
  sl_kh_line :: "string \<Rightarrow> 'k \<Rightarrow> string"
  sl_parse_key :: "bytes \<Rightarrow> (string, 's) result"
  sl_parse_key_pass :: "bytes \<Rightarrow> bytes \<Rightarrow> (string, 's) result"
  sl_agent :: "string \<Rightarrow> bool"
  sl_server :: "'c \<Rightarrow> string \<times> 'k"
  sl_auth :: "'c \<Rightarrow> string \<Rightarrow> 's auth_method list \<Rightarrow> string option"

datatype hk_err = HkKey "string list" | HkOther string | HkNotListed string path | HkAppend ioerr | HkWrite ioerr

datatype ssh_err =
    SeReadKey path ioerr | SeParseKey string | SeNoAuth
  | SeHome string | SeMkdir ioerr | SeStrictMissing path | SeSeed path ioerr | SeRead path ioerr | SeLoad path string
  | SeDial string net_err | SeHostKey target hk_err | SeHandshake target string

definition load_ssh_signer :: "('k, 's, 'c) ssh_lib \<Rightarrow> faults \<Rightarrow> fs \<Rightarrow> path \<Rightarrow> bytes \<Rightarrow> (ssh_err, 's) result" where
  "load_ssh_signer lib flt fs p pass =
     (case os_read_file flt fs p of
        Inl e \<Rightarrow> err (SeReadKey p e)
      | Inr data \<Rightarrow> map_sum SeParseKey id (if pass = [] then sl_parse_key lib data else sl_parse_key_pass lib data pass))"

text \<open>The methods in order, and whether an agent connection must be closed later.\<close>

definition build_auth :: "('k, 's, 'c) ssh_lib \<Rightarrow> faults \<Rightarrow> fs \<Rightarrow> ssh_config \<Rightarrow> (ssh_err, 's auth_method list \<times> bool) result" where
  "build_auth lib flt fs cfg =
     (case (if sc_key_file cfg = [] then ok []
            else map_sum id (\<lambda>s. [PublicKeys s]) (load_ssh_signer lib flt fs (sc_key_file cfg) (sc_key_passphrase cfg))) of
        Inl e \<Rightarrow> err e
      | Inr methods \<Rightarrow>
          (let agent = sc_agent_socket cfg \<noteq> [] \<and> sl_agent lib (sc_agent_socket cfg);
               methods' = methods @ (if agent then [PublicKeysCallback (sc_agent_socket cfg)] else [])
           in if methods' = [] then err SeNoAuth else ok (methods', agent)))"

section \<open>Host keys\<close>

type_synonym 'k hk_callback = "string \<Rightarrow> string \<Rightarrow> 'k \<Rightarrow> fs \<Rightarrow> hk_err option \<times> fs"

definition ssh_expand_home :: "(string, path) result \<Rightarrow> path \<Rightarrow> (ssh_err, path) result" where
  "ssh_expand_home home p =
     (if \<not> has_prefix p ''~/'' then ok p else (case home of Inl e \<Rightarrow> err (SeHome e) | Inr h \<Rightarrow> ok (join2 h (drop 2 p))))"

text \<open>\<open>os.OpenFile\<close> for appending, without \<open>O_CREATE\<close>.\<close>

definition os_open_append :: "faults \<Rightarrow> fs \<Rightarrow> path \<Rightarrow> (ioerr, unit) result" where
  "os_open_append flt fs p =
     (case flt (FOpen p) of
        Some (_, m) \<Rightarrow> err (OsErr m)
      | None \<Rightarrow> (case map_of fs p of
            None \<Rightarrow> err NotExist
          | Some (Dir _) \<Rightarrow> err (OsErr ''is a directory'')
          | Some (File _ _) \<Rightarrow> ok ()))"

fun kh_error :: "kh_verdict \<Rightarrow> hk_err option" where
  "kh_error KhOk = None"
| "kh_error (KhKeyError want) = Some (HkKey want)"
| "kh_error (KhOther e) = Some (HkOther e)"

definition strict_callback :: "('k, 's, 'c) ssh_lib \<Rightarrow> bytes \<Rightarrow> 'k hk_callback" where
  "strict_callback lib content hostname remote key fs = (kh_error (sl_kh_check lib content hostname remote key), fs)"

definition accept_new_callback ::
  "('k, 's, 'c) ssh_lib \<Rightarrow> faults \<Rightarrow> ssh_config \<Rightarrow> target \<Rightarrow> path \<Rightarrow> bytes \<Rightarrow> 'k hk_callback" where
  "accept_new_callback lib flt cfg t p content hostname remote key fs =
     (let v = sl_kh_check lib content hostname remote key in
      if v = KhOk then (None, fs)
      else if v \<noteq> KhKeyError [] then (kh_error v, fs)
      else if \<not> sc_accept_new cfg then (Some (HkNotListed (tg_host t) p), fs)
      else (case os_open_append flt fs p of
              Inl e \<Rightarrow> (Some (HkAppend e), fs)
            | Inr _ \<Rightarrow>
                (case os_write flt fs p (sl_kh_line lib hostname key @ [NL]) of
                   Inl (e, fs') \<Rightarrow> (Some (HkWrite e), fs')
                 | Inr fs' \<Rightarrow> (None, fs'))))"

definition seed_known_hosts :: "faults \<Rightarrow> fs \<Rightarrow> ssh_config \<Rightarrow> path \<Rightarrow> (ssh_err \<times> fs, fs) result" where
  "seed_known_hosts flt fs cfg p =
     (if os_stat flt fs p = err NotExist then
        (if sc_strict cfg then err (SeStrictMissing p, fs)
         else (case os_write_file flt fs p [] mode_0600 of Inl (e, fs') \<Rightarrow> err (SeSeed p e, fs') | Inr fs' \<Rightarrow> ok fs'))
      else ok fs)"

definition build_host_key_callback ::
  "('k, 's, 'c) ssh_lib \<Rightarrow> faults \<Rightarrow> (string, path) result \<Rightarrow> ssh_config \<Rightarrow> target \<Rightarrow> fs \<Rightarrow> (ssh_err \<times> fs, 'k hk_callback \<times> fs) result" where
  "build_host_key_callback lib flt home cfg t fs =
     (case ssh_expand_home home (sc_known_hosts cfg) of
        Inl e \<Rightarrow> err (e, fs)
      | Inr p \<Rightarrow>
          (case os_mkdir_all flt fs (dir_path p) mode_0700 of
             Inl (e, fs') \<Rightarrow> err (SeMkdir e, fs')
           | Inr fs1 \<Rightarrow>
               (case seed_known_hosts flt fs1 cfg p of
                  Inl x \<Rightarrow> err x
                | Inr fs2 \<Rightarrow>
                    (case os_read_file flt fs2 p of
                       Inl e \<Rightarrow> err (SeRead p e, fs2)
                     | Inr content \<Rightarrow>
                         (case sl_kh_load lib content of
                            Some e \<Rightarrow> err (SeLoad p e, fs2)
                          | None \<Rightarrow>
                              ok (if sc_strict cfg then strict_callback lib content else accept_new_callback lib flt cfg t p content, fs2))))))"

section \<open>Dial\<close>

record 'c ssh_client =
  cl_target :: target
  cl_conn :: "'c option"
  cl_closers :: "string list"
  cl_closed :: bool

text \<open>The handshake of \<open>NewClientConn\<close> calls back with the address that was dialled before it
  authenticates.\<close>

definition dial ::
  "('k, 's, 'c) ssh_lib \<Rightarrow> faults \<Rightarrow> (string, path) result \<Rightarrow> 'c net_env \<Rightarrow> ssh_config \<Rightarrow> ssh_option list \<Rightarrow> target \<Rightarrow> fs
     \<Rightarrow> (ssh_err, 'c ssh_client) result \<times> fs" where
  "dial lib flt home env dialer opts t fs =
     (let cfg = apply_options opts dialer in
      case build_auth lib flt fs cfg of
        Inl e \<Rightarrow> (err e, fs)
      | Inr (methods, agent) \<Rightarrow>
          (case build_host_key_callback lib flt home cfg t fs of
             Inl (e, fs') \<Rightarrow> (err e, fs')
           | Inr (callback, fs1) \<Rightarrow>
               (case snd (dial_filtered env (sc_allow_link_local cfg) (target_address t)) of
                  Inl e \<Rightarrow> (err (SeDial (target_address t) e), fs1)
                | Inr conn \<Rightarrow>
                    (case sl_server lib conn of (remote, key) \<Rightarrow>
                      (case callback (target_address t) remote key fs1 of
                         (Some e, fs2) \<Rightarrow> (err (SeHostKey t e), fs2)
                       | (None, fs2) \<Rightarrow>
                           (case sl_auth lib conn (tg_user t) methods of
                              Some e \<Rightarrow> (err (SeHandshake t e), fs2)
                            | None \<Rightarrow>
                                (ok \<lparr> cl_target = t, cl_conn = Some conn,
                                      cl_closers = (if agent then [sc_agent_socket cfg] else []), cl_closed = False \<rparr>, fs2)))))))"

section \<open>Commands\<close>

text \<open>A session as the server plays it: what it writes, chunk by chunk, and how it ends.\<close>

datatype sess_end = SnDone | SnExit int | SnMissing string | SnError string | SnContext string

record session =
  sn_stdout :: "bytes list"
  sn_stderr :: "bytes list"
  sn_end :: sess_end
  sn_elapsed :: int

datatype run_err = RnClosed | RnSession target string | RnContext string | RnMissing string | RnRun target string

definition tail_write :: "nat \<Rightarrow> bytes \<Rightarrow> bytes \<Rightarrow> bytes" where
  "tail_write cap buf p = (let b = buf @ p in if cap < length b then drop (length b - cap) b else b)"

definition client_run_with :: "(string, session) result \<Rightarrow> 'c ssh_client \<Rightarrow> ssh_result \<times> run_err option" where
  "client_run_with new_session c =
     (let none = \<lparr> sr_stdout = [], sr_stderr = [], sr_exit_code = 0, sr_duration_ms = 0 \<rparr> in
      if cl_closed c then (none, Some RnClosed)
      else (case new_session of
              Inl e \<Rightarrow> (none, Some (RnSession (cl_target c) e))
            | Inr s \<Rightarrow>
                (let res = \<lparr> sr_stdout = concat (sn_stdout s), sr_stderr = foldl (tail_write max_captured_stderr) [] (sn_stderr s),
                             sr_exit_code = 0, sr_duration_ms = quot_trunc (sn_elapsed s) 1000000 \<rparr>
                 in case sn_end s of
                      SnContext e \<Rightarrow> (res\<lparr> sr_exit_code := -1 \<rparr>, Some (RnContext e))
                    | SnDone \<Rightarrow> (res, None)
                    | SnExit n \<Rightarrow> (res\<lparr> sr_exit_code := n \<rparr>, None)
                    | SnMissing e \<Rightarrow> (res\<lparr> sr_exit_code := -1 \<rparr>, Some (RnMissing e))
                    | SnError e \<Rightarrow> (res, Some (RnRun (cl_target c) e)))))"

datatype capture_err = CapRun run_err | CapExit target int string

definition client_run_capture :: "(string, session) result \<Rightarrow> 'c ssh_client \<Rightarrow> string \<times> capture_err option" where
  "client_run_capture new_session c =
     (case client_run_with new_session c of
        (res, Some e) \<Rightarrow> (sr_stdout res, Some (CapRun e))
      | (res, None) \<Rightarrow>
          (sr_stdout res,
           if sr_exit_code res \<noteq> 0 then Some (CapExit (cl_target c) (sr_exit_code res) (trim_space (sr_stderr res))) else None))"

datatype close_err = CloseEOF | CloseErr string

text \<open>\<open>Close\<close> with the errors that closing the connection and each closer give.\<close>

definition client_close :: "('c \<Rightarrow> close_err option) \<Rightarrow> (string \<Rightarrow> string option) \<Rightarrow> 'c ssh_client \<Rightarrow> string option \<times> 'c ssh_client" where
  "client_close conn_err closer_err c =
     (if cl_closed c then (None, c)
      else (let e0 = (case cl_conn c of
                        None \<Rightarrow> None
                      | Some conn \<Rightarrow> (case conn_err conn of Some (CloseErr e) \<Rightarrow> Some e | _ \<Rightarrow> None));
                first = foldl (\<lambda>e p. if e = None then closer_err p else e) e0 (cl_closers c)
            in (first, c\<lparr> cl_conn := None, cl_closers := [], cl_closed := True \<rparr>)))"

section \<open>The tail of the standard error\<close>

definition last_bytes :: "nat \<Rightarrow> bytes \<Rightarrow> bytes" where
  "last_bytes n b = drop (length b - n) b"

lemma last_bytes_append: "last_bytes n (last_bytes n a @ b) = last_bytes n (a @ b)"
  by (cases "n \<le> length a") (auto simp: last_bytes_def add.commute)

lemma tail_writes: "foldl (tail_write cap) [] ps = last_bytes cap (concat ps)"
proof (induction ps rule: rev_induct)
  case (snoc p ps)
  have "tail_write cap b p = last_bytes cap (b @ p)" for b by (auto simp: tail_write_def last_bytes_def Let_def)
  then show ?case using snoc by (simp add: last_bytes_append)
qed (simp add: last_bytes_def)

text \<open>A command succeeded exactly when the session ended well or with status 0, and what it wrote to
  its standard error is kept up to the last 4096 bytes, however the writes were cut.\<close>

theorem run_with_outcome:
  assumes "client_run_with (ok s) c = (res, e)" "\<not> cl_closed c"
  shows "e = None \<and> sr_exit_code res = 0 \<longleftrightarrow> sn_end s \<in> {SnDone, SnExit 0}"
    "sr_stdout res = concat (sn_stdout s)" "sr_stderr res = last_bytes max_captured_stderr (concat (sn_stderr s))"
  using assms by (auto simp: client_run_with_def Let_def tail_writes split: sess_end.splits)

theorem close_once:
  assumes "client_close f g c = (e, c')"
  shows "client_close f' g' c' = (None, c')" "snd (client_run_with ns c') = Some RnClosed"
  using assms by (auto simp: client_close_def client_run_with_def Let_def split: if_splits)

section \<open>Keys are pinned at first use\<close>

definition content_of :: "fs \<Rightarrow> path \<Rightarrow> bytes" where
  "content_of fs p = (case file_data fs p of None \<Rightarrow> [] | Some b \<Rightarrow> b)"

definition client_key :: "('k, 's, 'c) ssh_lib \<Rightarrow> 'c ssh_client \<Rightarrow> 'k" where
  "client_key lib c = snd (sl_server lib (the (cl_conn c)))"

lemma content_Some: "file_data fs p = Some b \<Longrightarrow> content_of fs p = b"
  by (simp add: content_of_def)

lemma seed_content:
  "seed_known_hosts flt fs cfg p = ok fs' \<Longrightarrow> content_of fs' p = content_of fs p"
  "seed_known_hosts flt fs cfg p = err (e, fs') \<Longrightarrow> content_of fs' p = content_of fs p"
  by (auto simp: seed_known_hosts_def os_stat_def os_write_file_def os_open_create_def os_write_def os_close_def content_of_def file_data_def
      update_conv Let_def split: option.splits if_splits sum.splits fnode.splits prod.splits)

lemma mkdir_content:
  "os_mkdir_all flt fs d m = ok fs' \<Longrightarrow> content_of fs' p = content_of fs p"
  by (simp add: content_of_def mkdir_keeps_files)

lemma build_callback_ok:
  assumes "build_host_key_callback lib flt home cfg t fs = ok (cb, fs')" "ssh_expand_home home (sc_known_hosts cfg) = ok p"
  shows "content_of fs' p = content_of fs p" "file_data fs' p = Some (content_of fs p)" "sl_kh_load lib (content_of fs p) = None"
    "cb = (if sc_strict cfg then strict_callback lib (content_of fs p) else accept_new_callback lib flt cfg t p (content_of fs p))"
proof -
  obtain fs1 fs2 b where s: "os_mkdir_all flt fs (dir_path p) mode_0700 = ok fs1" "seed_known_hosts flt fs1 cfg p = ok fs2"
    "os_read_file flt fs2 p = ok b" "sl_kh_load lib b = None" "fs' = fs2"
    "cb = (if sc_strict cfg then strict_callback lib b else accept_new_callback lib flt cfg t p b)"
    using assms by (auto simp: build_host_key_callback_def split: sum.splits option.splits prod.splits)
  have "file_data fs2 p = Some b"
    using s(3) by (auto simp: os_read_file_def file_data_def split: option.splits fnode.splits)
  moreover from this have "b = content_of fs p"
    using mkdir_content [OF s(1)] seed_content(1) [OF s(2)] by (metis content_of_def option.simps(5))
  ultimately show "content_of fs' p = content_of fs p" "file_data fs' p = Some (content_of fs p)" "sl_kh_load lib (content_of fs p) = None"
    "cb = (if sc_strict cfg then strict_callback lib (content_of fs p) else accept_new_callback lib flt cfg t p (content_of fs p))"
    using s(4-6) by (simp_all add: content_of_def)
qed

lemma build_callback_err:
  assumes "build_host_key_callback lib flt home cfg t fs = err (e, fs')" "ssh_expand_home home (sc_known_hosts cfg) = ok p"
  shows "content_of fs' p = content_of fs p"
  using assms seed_content mkdir_content mkdir_all_err
  by (fastforce simp: build_host_key_callback_def split: sum.splits option.splits prod.splits if_splits)

lemma accept_new_effect:
  assumes "accept_new_callback lib flt cfg t p b h remote key fs = (e, fs')" "file_data fs p = Some b" "flt (FWrite p) = None"
  shows "file_data fs' p = Some b \<and> (e = None \<longrightarrow> sl_kh_check lib b h remote key = KhOk)
    \<or> e = None \<and> sl_kh_check lib b h remote key = KhKeyError [] \<and> file_data fs' p = Some (b @ sl_kh_line lib h key @ [NL])"
proof (cases "sl_kh_check lib b h remote key = KhKeyError [] \<and> sc_accept_new cfg \<and> os_open_append flt fs p = ok ()")
  case True
  then obtain fs1 where "os_write flt fs p (sl_kh_line lib h key @ [NL]) = ok fs1" using assms(3) by (auto simp: os_write_def Let_def)
  then show ?thesis using assms(1) True write_ok(1) [OF _ assms(2)] by (auto simp: accept_new_callback_def Let_def)
next
  case False
  then have "fs' = fs \<and> (e = None \<longrightarrow> sl_kh_check lib b h remote key = KhOk)"
    using assms(1) by (cases "sl_kh_check lib b h remote key") (auto simp: accept_new_callback_def Let_def split: if_splits sum.splits)
  then show ?thesis using assms(2) by simp
qed

lemma dial_step:
  assumes "dial lib flt home env d opts t fs = (r, fs')" "ssh_expand_home home (sc_known_hosts (apply_options opts d)) = ok p"
    and "flt (FWrite p) = None"
  shows "content_of fs' p = content_of fs p
      \<and> (isl r \<or> (\<exists>remote. sl_kh_check lib (content_of fs p) (target_address t) remote (client_key lib (projr r)) = KhOk))
    \<or> (\<exists>remote key. sl_kh_load lib (content_of fs p) = None
        \<and> sl_kh_check lib (content_of fs p) (target_address t) remote key = KhKeyError []
        \<and> content_of fs' p = content_of fs p @ sl_kh_line lib (target_address t) key @ [NL]
        \<and> (isl r \<or> client_key lib (projr r) = key))"
proof -
  let ?cfg = "apply_options opts d" and ?b = "content_of fs p" and ?h = "target_address t"
  show ?thesis
  proof (cases "build_auth lib flt fs ?cfg")
    case (Inr ma)
    obtain ms ag where ma: "ma = (ms, ag)" by (cases ma)
    show ?thesis
    proof (cases "build_host_key_callback lib flt home ?cfg t fs")
      case e: (Inl x)
      then show ?thesis using assms(1) Inr ma build_callback_err [OF _ assms(2)]
        by (cases x) (auto simp: dial_def Let_def)
    next
      case k: (Inr x)
      obtain cb fs1 where x: "x = (cb, fs1)" by (cases x)
      note cb = build_callback_ok [OF k [unfolded x] assms(2)]
      show ?thesis
      proof (cases "snd (dial_filtered env (sc_allow_link_local ?cfg) ?h)")
        case (Inl e)
        then show ?thesis using assms(1) Inr ma k x cb(1) by (simp add: dial_def Let_def) auto
      next
        case c: (Inr conn)
        obtain remote key where sv: "sl_server lib conn = (remote, key)" by (cases "sl_server lib conn")
        obtain e fs2 where ce: "cb ?h remote key fs1 = (e, fs2)" by (cases "cb ?h remote key fs1")
        have fin: "fs' = fs2 \<and> (isl r \<or> e = None \<and> client_key lib (projr r) = key)"
          using assms(1) Inr ma k x c sv ce
          by (auto simp: dial_def Let_def client_key_def split: option.splits)
        have "file_data fs2 p = Some ?b \<and> (e = None \<longrightarrow> sl_kh_check lib ?b ?h remote key = KhOk)
            \<or> e = None \<and> sl_kh_check lib ?b ?h remote key = KhKeyError [] \<and> file_data fs2 p = Some (?b @ sl_kh_line lib ?h key @ [NL])"
        proof (cases "sc_strict ?cfg")
          case True
          then show ?thesis using ce cb(2,4)
            by (cases "sl_kh_check lib ?b ?h remote key") (auto simp: strict_callback_def)
        next
          case False
          then show ?thesis using accept_new_effect [of lib flt ?cfg t p ?b ?h remote key fs1 e fs2] ce cb(2,4) assms(3) by simp
        qed
        then have "content_of fs2 p = ?b \<and> (e = None \<longrightarrow> sl_kh_check lib ?b ?h remote key = KhOk)
            \<or> e = None \<and> sl_kh_check lib ?b ?h remote key = KhKeyError [] \<and> content_of fs2 p = ?b @ sl_kh_line lib ?h key @ [NL]"
          using content_Some by blast
        then show ?thesis using fin cb(3) by blast
      qed
    qed
  qed (use assms in \<open>auto simp: dial_def Let_def\<close>)
qed

text \<open>What the package documents of \<open>known_hosts\<close> files that are made of whole lines: the entry
  of a host that is not listed makes its key the only one accepted for that host, and changes nothing
  for hosts that are listed.\<close>

definition ends_line :: "bytes \<Rightarrow> bool" where
  "ends_line b \<longleftrightarrow> b = [] \<or> last b = NL"

definition host_listed :: "('k, 's, 'c) ssh_lib \<Rightarrow> bytes \<Rightarrow> string \<Rightarrow> bool" where
  "host_listed lib b h \<longleftrightarrow> (\<forall>r k. sl_kh_check lib b h r k \<noteq> KhKeyError [])"

definition key_only :: "('k, 's, 'c) ssh_lib \<Rightarrow> bytes \<Rightarrow> string \<Rightarrow> 'k \<Rightarrow> bool" where
  "key_only lib b h k \<longleftrightarrow> (\<forall>r k'. if k' = k then sl_kh_check lib b h r k' = KhOk
      else sl_kh_check lib b h r k' \<notin> {KhOk, KhKeyError []})"

definition known_hosts_laws :: "('k, 's, 'c) ssh_lib \<Rightarrow> bool" where
  "known_hosts_laws lib \<longleftrightarrow>
     (\<forall>b h r k. ends_line b \<and> sl_kh_load lib b = None \<and> sl_kh_check lib b h r k = KhKeyError [] \<longrightarrow>
        key_only lib (b @ sl_kh_line lib h k @ [NL]) h k
        \<and> (\<forall>h' r' k'. host_listed lib b h' \<longrightarrow>
             sl_kh_check lib (b @ sl_kh_line lib h k @ [NL]) h' r' k' = sl_kh_check lib b h' r' k'))"

lemma key_only_listed: "key_only lib b h k \<Longrightarrow> host_listed lib b h"
  by (auto simp: key_only_def host_listed_def split: if_splits) (metis kh_verdict.distinct(1))

text \<open>Any number of dials over one \<open>known_hosts\<close> file, with any options, targets, connections and
  faults other than a torn write to it, and changes elsewhere.\<close>

inductive dial_run :: "('k, 's, 'c) ssh_lib \<Rightarrow> path \<Rightarrow> fs \<Rightarrow> fs \<Rightarrow> bool" for lib p fs0 where
  dials_start: "dial_run lib p fs0 fs0"
| dials_dial: "dial_run lib p fs0 fs \<Longrightarrow> dial lib flt home env d opts t fs = (r, fs')
    \<Longrightarrow> ssh_expand_home home (sc_known_hosts (apply_options opts d)) = ok p \<Longrightarrow> flt (FWrite p) = None \<Longrightarrow> dial_run lib p fs0 fs'"
| dials_other: "dial_run lib p fs0 fs \<Longrightarrow> file_data fs' p = file_data fs p \<Longrightarrow> dial_run lib p fs0 fs'"

lemma pinned_dial:
  assumes "known_hosts_laws lib" "ends_line (content_of fs p)" "key_only lib (content_of fs p) h k"
    and "dial lib flt home env d opts t fs = (r, fs')" "ssh_expand_home home (sc_known_hosts (apply_options opts d)) = ok p"
      "flt (FWrite p) = None"
  shows "ends_line (content_of fs' p) \<and> key_only lib (content_of fs' p) h k"
    "target_address t = h \<Longrightarrow> isl r \<or> client_key lib (projr r) = k"
proof -
  note step = dial_step [OF assms(4-6)]
  have keep: "key_only lib (content_of fs p @ sl_kh_line lib (target_address t) key @ [NL]) h k"
    if "sl_kh_load lib (content_of fs p) = None" "sl_kh_check lib (content_of fs p) (target_address t) remote key = KhKeyError []" for remote key
    using assms(1,2) that key_only_listed [OF assms(3)] assms(3) unfolding known_hosts_laws_def key_only_def by presburger
  show "ends_line (content_of fs' p) \<and> key_only lib (content_of fs' p) h k"
    using step assms(2,3) keep by (auto simp: ends_line_def)
  show "target_address t = h \<Longrightarrow> isl r \<or> client_key lib (projr r) = k"
    using step assms(3) key_only_listed [OF assms(3)] by (fastforce simp: key_only_def host_listed_def split: if_splits)
qed

lemma pinned_run:
  assumes "dial_run lib p fs0 fs" "known_hosts_laws lib" "ends_line (content_of fs0 p)" "key_only lib (content_of fs0 p) h k"
  shows "ends_line (content_of fs p) \<and> key_only lib (content_of fs p) h k"
  using assms(1)
proof induction
  case (dials_dial fs flt home env d opts t r fs')
  then show ?case using pinned_dial(1) [OF assms(2)] by blast
qed (use assms(3,4) in \<open>simp_all add: content_of_def\<close>)

text \<open>C4. Trust on first use.  Once a connection to an address that \<open>known_hosts\<close> does not list was made, any later
  connection to that address is to a server that showed the same host key, provided that the file ended in a newline (or was
  empty or missing) at the first dial, that every dial in between and the later one resolve to the same \<open>known_hosts\<close> path, that their
  appends to it do not fail, and that nothing else changes it; the options, servers and addresses of these dials are otherwise
  arbitrary.\<close>

theorem host_key_pinned:
  assumes "known_hosts_laws lib" "ends_line (content_of fs0 p)" "\<And>r k. sl_kh_check lib (content_of fs0 p) (target_address t) r k = KhKeyError []"
    and "dial lib flt home env d opts t fs0 = (ok c, fs1)" "ssh_expand_home home (sc_known_hosts (apply_options opts d)) = ok p" "flt (FWrite p) = None"
    and "dial_run lib p fs1 fs2"
    and "dial lib flt' home' env' d' opts' t' fs2 = (ok c', fs3)" "ssh_expand_home home' (sc_known_hosts (apply_options opts' d')) = ok p" "flt' (FWrite p) = None"
    and "target_address t' = target_address t"
  shows "client_key lib c' = client_key lib c"
proof -
  let ?h = "target_address t"
  have first: "sl_kh_load lib (content_of fs0 p) = None" "content_of fs1 p = content_of fs0 p @ sl_kh_line lib ?h (client_key lib c) @ [NL]"
    using dial_step [OF assms(4-6)] assms(3) by auto
  have "key_only lib (content_of fs1 p) ?h (client_key lib c)" "ends_line (content_of fs1 p)"
    using assms(1-3) first unfolding known_hosts_laws_def by (auto simp: ends_line_def)
  then have "ends_line (content_of fs2 p)" "key_only lib (content_of fs2 p) ?h (client_key lib c)"
    using pinned_run [OF assms(7) assms(1)] by auto
  then show ?thesis using pinned_dial(2) [OF assms(1) _ _ assms(8-10)] assms(11) by fastforce
qed

section \<open>A known hosts file\<close>

text \<open>A concrete format that satisfies the laws: a line has the host in hexadecimal and the key.\<close>

definition hex_text :: "string \<Rightarrow> string" where
  "hex_text h = concat (map (\<lambda>c. [hex_digit (byte c div 16), hex_digit (byte c mod 16)]) h)"

definition demo_line :: "string \<Rightarrow> nat \<Rightarrow> string" where
  "demo_line h k = hex_text h @ SP # nat_str k"

definition demo_check :: "bytes \<Rightarrow> string \<Rightarrow> string \<Rightarrow> nat \<Rightarrow> kh_verdict" where
  "demo_check b h r k =
     (let ls = filter (\<lambda>l. has_prefix l (hex_text h @ [SP])) (split_on NL b)
      in if demo_line h k \<in> set ls then KhOk else KhKeyError ls)"

definition demo_lib :: "(nat, unit, nat) ssh_lib" where
  "demo_lib = \<lparr> sl_kh_load = (\<lambda>b. None), sl_kh_check = demo_check, sl_kh_line = demo_line, sl_parse_key = (\<lambda>b. ok ()),
     sl_parse_key_pass = (\<lambda>b p. ok ()), sl_agent = (\<lambda>s. True), sl_server = (\<lambda>n. ([], n)), sl_auth = (\<lambda>c u ms. None) \<rparr>"

lemma split_on_sep: "split_on c (xs @ c # ys) = split_on c xs @ split_on c ys"
  by (induction xs) (auto split: list.splits)

lemma hex_digit_no_break: "n < 16 \<Longrightarrow> hex_digit n \<noteq> SP \<and> hex_digit n \<noteq> NL"
  using hex_val_digit [of n] by (auto simp: hex_val_def byte_def split: if_splits)

lemma nibbles: "byte c div 16 < 16" "byte c mod 16 < 16"
  using byte_less_256 [of c] by presburger+

lemma hex_text_plain: "SP \<notin> set (hex_text h)" "NL \<notin> set (hex_text h)"
proof -
  have "hex_digit (byte c div 16) \<notin> {SP, NL} \<and> hex_digit (byte c mod 16) \<notin> {SP, NL}" for c
    using hex_digit_no_break [OF nibbles(1) [of c]] hex_digit_no_break [OF nibbles(2) [of c]] by simp
  then show "SP \<notin> set (hex_text h)" "NL \<notin> set (hex_text h)" by (auto simp: hex_text_def dest: sym)
qed

lemma hex_text_inj: "hex_text g = hex_text h \<longleftrightarrow> g = h"
proof (induction g arbitrary: h)
  case Nil
  show ?case by (cases h) (auto simp: hex_text_def)
next
  case (Cons a g)
  have inj: "x < 16 \<Longrightarrow> y < 16 \<Longrightarrow> hex_digit x = hex_digit y \<longleftrightarrow> x = y" for x y by (metis hex_val_digit option.inject)
  have eq: "a = c" if "byte a div 16 = byte c div 16" "byte a mod 16 = byte c mod 16" for c
    using that by (metis byte_def div_mult_mod_eq of_char_eq_iff)
  show ?case using Cons by (cases h) (auto simp: hex_text_def inj nibbles intro: eq)
qed

lemma demo_prefix: "has_prefix (demo_line g k) (hex_text h @ [SP]) \<longleftrightarrow> g = h"
proof
  assume "has_prefix (demo_line g k) (hex_text h @ [SP])"
  then have "take (length (hex_text h @ [SP])) (demo_line g k) = hex_text h @ [SP]" by (simp add: has_prefix_def)
  then obtain r where "demo_line g k = (hex_text h @ [SP]) @ r" by (metis append_take_drop_id)
  then have "hex_text g @ SP # nat_str k = hex_text h @ SP # r" unfolding demo_line_def append_assoc append_Cons append_Nil .
  moreover have "takeWhile (\<lambda>c. c \<noteq> SP) (hex_text h @ SP # r) = hex_text h" for h r
    using hex_text_plain(1) [of h] by (subst takeWhile_append2) auto
  ultimately have "hex_text g = hex_text h" by metis
  then show "g = h" by (simp add: hex_text_inj)
qed (auto simp: has_prefix_def demo_line_def)

lemma demo_lines:
  assumes "ends_line b" "NL \<notin> set l" "\<not> P []"
  shows "filter P (split_on NL (b @ l @ [NL])) = filter P (split_on NL b) @ filter P [l]"
proof (cases "b = []")
  case True
  then show ?thesis using assms split_on_sep [of NL l "[]"] by (simp add: split_on_no_sep)
next
  case False
  then obtain b' where b: "b = b' @ NL # []" using assms(1) by (metis append_butlast_last_id ends_line_def)
  show ?thesis
    unfolding b using assms(2,3) split_on_sep [of NL b' "l @ [NL]"] split_on_sep [of NL l "[]"] split_on_sep [of NL b' "[]"]
    by (simp add: split_on_no_sep)
qed

lemma demo_laws: "known_hosts_laws demo_lib"
proof -
  have new: "filter (\<lambda>l. has_prefix l (hex_text h' @ [SP])) (split_on NL (b @ demo_line h k @ [NL]))
      = filter (\<lambda>l. has_prefix l (hex_text h' @ [SP])) (split_on NL b) @ (if h = h' then [demo_line h k] else [])" if "ends_line b" for b h h' k
  proof -
    have "NL \<notin> set (nat_str k)" using nat_str_digits [of k] by (auto simp: all_digits_def list_all_iff is_digit_def byte_def)
    then have "NL \<notin> set (demo_line h k)" using hex_text_plain(2) by (simp add: demo_line_def)
    moreover have "\<not> has_prefix [] (hex_text h' @ [SP])" by (simp add: has_prefix_def)
    ultimately show ?thesis using demo_lines [OF that] by (simp add: demo_prefix)
  qed
  have inj: "demo_line h k' = demo_line h k \<longleftrightarrow> k' = k" for h k k'
    using digits_val_nat_str by (metis demo_line_def list.inject same_append_eq)
  have add: "demo_check (b @ demo_line h k @ [NL]) h' r k' =
      (if h = h' then (if demo_check b h' r k' = KhOk \<or> k' = k then KhOk
          else KhKeyError (filter (\<lambda>l. has_prefix l (hex_text h @ [SP])) (split_on NL b) @ [demo_line h k]))
       else demo_check b h' r k')" if "ends_line b" for b h k h' r k'
    using new [OF that, of h' h k] inj [of h k' k] unfolding demo_check_def Let_def by auto
  show ?thesis
    unfolding known_hosts_laws_def key_only_def demo_lib_def ssh_lib.simps
  proof (intro allI impI conjI)
    fix b h r k r' k'
    assume a: "ends_line b \<and> (None :: string option) = None \<and> demo_check b h r k = KhKeyError []"
    then have "demo_check b h r' k' \<noteq> KhOk" for r' k'
      by (auto simp: demo_check_def Let_def filter_empty_conv split: if_splits)
    then show "if k' = k then demo_check (b @ demo_line h k @ [NL]) h r' k' = KhOk
        else demo_check (b @ demo_line h k @ [NL]) h r' k' \<notin> {KhOk, KhKeyError []}" using a add by simp
  next
    fix b h r k h' r' k'
    assume a: "ends_line b \<and> (None :: string option) = None \<and> demo_check b h r k = KhKeyError []"
      and l: "host_listed \<lparr> sl_kh_load = (\<lambda>b. None), sl_kh_check = demo_check, sl_kh_line = demo_line, sl_parse_key = (\<lambda>b. ok ()),
        sl_parse_key_pass = (\<lambda>b p. ok ()), sl_agent = (\<lambda>s. True), sl_server = (\<lambda>n. ([], n)), sl_auth = (\<lambda>c u ms. None) \<rparr> b h'"
    then have "h \<noteq> h'" by (auto simp: host_listed_def)
    then show "demo_check (b @ demo_line h k @ [NL]) h' r' k' = demo_check b h' r' k'" using a add by simp
  qed
qed

definition demo_env :: "nat \<Rightarrow> nat net_env" where
  "demo_env key = \<lparr> ne_dial = (\<lambda>n a. ok key), ne_resolve = (\<lambda>h. err ''none'') \<rparr>"

definition demo_target :: target where "demo_target = \<lparr> tg_user = ''u'', tg_host = ''w'', tg_port = 22 \<rparr>"

definition demo_cfg :: ssh_config where
  "demo_cfg = new_dialer (\<lambda>_. ''/agent'') [with_known_hosts_path ''/h/k'', with_allow_link_local]"

definition demo_dial :: "nat \<Rightarrow> fs \<Rightarrow> (ssh_err, nat ssh_client) result \<times> fs" where
  "demo_dial key fs = dial demo_lib no_faults (err ''no home'') (demo_env key) demo_cfg [] demo_target fs"

definition demo_client :: "nat ssh_client" where
  "demo_client = \<lparr> cl_target = demo_target, cl_conn = Some 7, cl_closers = [''/agent''], cl_closed = False \<rparr>"

definition demo_hosts :: fs where
  "demo_hosts = [(''/h'', Dir mode_0700), (''/h/k'', File (''773a3232 7'' @ [NL]) mode_0600)]"

lemma demo_dials:
  "demo_dial 7 [] = (ok demo_client, demo_hosts)" "demo_dial 7 demo_hosts = (ok demo_client, demo_hosts)"
  "isl (fst (demo_dial 8 demo_hosts))"
  by code_simp+

theorem host_key_pinned_witness:
  "client_key demo_lib (projr (fst (demo_dial 7 demo_hosts))) = client_key demo_lib (projr (fst (demo_dial 7 [])))
   \<and> isl (fst (demo_dial 8 demo_hosts))"
proof -
  have p: "ssh_expand_home (err ''no home'') (sc_known_hosts (apply_options [] demo_cfg)) = ok ''/h/k''" by code_simp
  have u: "sl_kh_check demo_lib (content_of [] ''/h/k'') (target_address demo_target) r k = KhKeyError []" for r k
    by (simp add: demo_lib_def demo_check_def content_of_def file_data_def has_prefix_def)
  show ?thesis
    using host_key_pinned [OF demo_laws _ u demo_dials(1) [unfolded demo_dial_def] p _ dials_start demo_dials(2) [unfolded demo_dial_def] p]
      demo_dials by (simp add: ends_line_def content_of_def file_data_def)
qed

end
