(* ===== verification/Delegate.thy ===== *)
theory Delegate
  imports Fleet_Log Nodes Ssh_Target Go_Quote Go_Duration
begin

text \<open>
  \<open>fleetctl delegate\<close>, \<open>cmd/fleetctl/commands/delegate.go\<close>: an ad-hoc command on one worker, on
  all or on a random one, with one event in the action log for each.  The dialer and its client are
  the interfaces \<open>Dialer\<close> and \<open>RemoteClient\<close> of the source, so they are arguments, one answer per
  dispatch; the timeout only reaches them.  The theorems say that every dispatch is on record and
  that, unless \<open>--any-node\<close> is given, commands only go to registered workers.
\<close>

declare json_print.simps(3) [simp del]

section \<open>Flags\<close>

record delegate_flags =
  dg_node :: string
  dg_all :: bool
  dg_random :: bool
  dg_cmd :: string
  dg_json :: bool
  dg_quiet :: bool
  dg_any_node :: bool
  dg_tenant_id :: string

datatype delegate_err =
    DgNoMode | DgModes | DgNoCmd | DgLoad nodes_error | DgNoRegistry string | DgUnknown string
  | DgTarget target_err | DgAllEmpty | DgParse node target_err | DgRandomEmpty | DgRandom nodes_error
  | DgUnreachable | DgHome string | DgLog log_err | DgFailed

definition validate_delegate_flags :: "delegate_flags \<Rightarrow> delegate_err option" where
  "validate_delegate_flags fl =
     (let modes = length (filter id [dg_node fl \<noteq> [], dg_all fl, dg_random fl]) in
      if modes = 0 then Some DgNoMode
      else if 1 < modes then Some DgModes
      else if trim_space (dg_cmd fl) = [] then Some DgNoCmd
      else None)"

fun parse_all :: "node list \<Rightarrow> (delegate_err, target list) result" where
  "parse_all [] = ok []"
| "parse_all (n # ns) =
     (case parse_target (node_string n) of
        Inl e \<Rightarrow> err (DgParse n e)
      | Inr t \<Rightarrow> (case parse_all ns of Inl e \<Rightarrow> err e | Inr ts \<Rightarrow> ok (t # ts)))"

text \<open>\<open>None\<close> is the nil registry of a failed load.  The random source behind the registry is not used
  again.\<close>

definition resolve_delegate_targets ::
  "(nat \<Rightarrow> nat \<Rightarrow> nat \<times> nat) \<Rightarrow> delegate_flags \<Rightarrow> registry option \<Rightarrow> (delegate_err, target list) result" where
  "resolve_delegate_targets draw fl reg =
     (if dg_node fl \<noteq> [] then
        (case (if dg_any_node fl then None
               else (case reg of
                       None \<Rightarrow> Some (DgNoRegistry (dg_node fl))
                     | Some r \<Rightarrow> (case one_node r (dg_node fl) of Inl _ \<Rightarrow> Some (DgUnknown (dg_node fl)) | Inr _ \<Rightarrow> None))) of
           Some e \<Rightarrow> err e
         | None \<Rightarrow> (case parse_target (dg_node fl) of Inl e \<Rightarrow> err (DgTarget e) | Inr t \<Rightarrow> ok [t]))
      else if dg_all fl then
        (case reg of
           None \<Rightarrow> err DgAllEmpty
         | Some r \<Rightarrow> if nodes_len r = 0 then err DgAllEmpty else parse_all (all_nodes r))
      else if dg_random fl then
        (case reg of
           None \<Rightarrow> err DgRandomEmpty
         | Some r \<Rightarrow>
             if nodes_len r = 0 then err DgRandomEmpty
             else (case fst (random_node draw r) of
                     Inl e \<Rightarrow> err (DgRandom e)
                   | Inr n \<Rightarrow> (case parse_target (node_string n) of Inl e \<Rightarrow> err (DgTarget e) | Inr t \<Rightarrow> ok [t])))
      else err DgUnreachable)"

section \<open>One target\<close>

definition delegate_action_max :: nat where "delegate_action_max = 80"

definition truncate_action :: "string \<Rightarrow> string" where
  "truncate_action cmd =
     (let flat = trim_space (replace_byte TAB [SP] (replace_byte NL [SP] cmd))
      in if delegate_action_max < length flat then take delegate_action_max flat else flat)"

definition tail_bytes :: "string \<Rightarrow> nat \<Rightarrow> string" where
  "tail_bytes s n = (if length s \<le> n then s else drop (length s - n) s)"

definition delegate_action :: "delegate_flags \<Rightarrow> string" where
  "delegate_action fl =
     (let action = truncate_action (dg_cmd fl) in
      if dg_tenant_id fl \<noteq> [] then
        (let a = ''tenant='' @ dg_tenant_id fl @ '' '' @ action in if delegate_action_max < length a then take delegate_action_max a else a)
      else action)"

text \<open>One dispatch: the answer of the dialer, of the command, the time that passed and the reading of
  the logger's clock.\<close>

record dispatch_env =
  de_dial :: "target \<Rightarrow> string option"
  de_run :: "target \<Rightarrow> string \<Rightarrow> ssh_result \<times> string option"
  de_elapsed :: int
  de_clk :: gtime

definition delegate_event :: "delegate_flags \<Rightarrow> target \<Rightarrow> string \<Rightarrow> int \<Rightarrow> string \<Rightarrow> log_event" where
  "delegate_event fl t res dur tail =
     \<lparr> le_ts = zero_time, le_node = tg_user t @ ''@'' @ tg_host t, le_phase = ''delegate'', le_action = delegate_action fl,
       le_result = res, le_duration_ms = dur, le_stderr_tail = tail \<rparr>"

definition run_tail :: "string \<Rightarrow> string option \<Rightarrow> string" where
  "run_tail stderr run_err =
     (let tail = tail_bytes stderr 4096 in
      case run_err of
        None \<Rightarrow> tail
      | Some e \<Rightarrow> if tail = [] then e else tail_bytes (tail @ [NL] @ e) 4096)"

text \<open>The event, and the standard output, standard error and exit code to show.\<close>

definition dispatch_outcome :: "delegate_flags \<Rightarrow> dispatch_env \<Rightarrow> target \<Rightarrow> log_event \<times> string \<times> string \<times> int" where
  "dispatch_outcome fl e t =
     (let dur = quot_trunc (de_elapsed e) 1000000 in
      case de_dial e t of
        Some m \<Rightarrow> (delegate_event fl t ''error'' dur m, [], m, -1)
      | None \<Rightarrow>
          (case de_run e t (dg_cmd fl) of (res, run_err) \<Rightarrow>
             (delegate_event fl t (if run_err \<noteq> None \<or> sr_exit_code res \<noteq> 0 then ''error'' else ''ok'') dur (run_tail (sr_stderr res) run_err),
              sr_stdout res, sr_stderr res, sr_exit_code res)))"

record delegate_world =
  dw_fs :: fs
  dw_out :: string
  dw_err :: string

definition with_newline :: "string \<Rightarrow> string" where
  "with_newline s = (if s = [] then [] else if has_suffix s [NL] then s else s @ [NL])"

definition write_delegate_output ::
  "(bytes \<Rightarrow> bool) \<Rightarrow> delegate_flags \<Rightarrow> target \<Rightarrow> string \<Rightarrow> string \<Rightarrow> int \<Rightarrow> int \<Rightarrow> delegate_world \<Rightarrow> delegate_world" where
  "write_delegate_output prt fl t out er exit dur w =
     (if dg_quiet fl then w
      else if dg_json fl then
        w\<lparr> dw_out := dw_out w @ ''{'' @ [DQ] @ ''node'' @ [DQ] @ '':'' @ go_quote prt (target_string t) @ '','' @ [DQ] @ ''exit'' @ [DQ] @ '':'' @ itoa exit
             @ '','' @ [DQ] @ ''duration_ms'' @ [DQ] @ '':'' @ itoa dur @ '','' @ [DQ] @ ''stdout'' @ [DQ] @ '':'' @ go_quote prt out
             @ '','' @ [DQ] @ ''stderr'' @ [DQ] @ '':'' @ go_quote prt er @ ''}'' @ [NL] \<rparr>
      else w\<lparr> dw_out := dw_out w @ with_newline out,
              dw_err := dw_err w @ [NL] @ ''=== '' @ target_string t @ '' (exit='' @ itoa exit @ '', '' @ itoa dur @ ''ms) ==='' @ [NL] @ with_newline er \<rparr>)"

definition dispatch_one ::
  "(bytes \<Rightarrow> bool) \<Rightarrow> faults \<Rightarrow> logger \<Rightarrow> delegate_flags \<Rightarrow> dispatch_env \<Rightarrow> target \<Rightarrow> delegate_world \<Rightarrow> int \<times> delegate_world" where
  "dispatch_one prt flt l fl e t w =
     (case dispatch_outcome fl e t of (ev, out, er, exit) \<Rightarrow>
       (if le_result ev \<noteq> ''ok'' then 1 else 0,
        write_delegate_output prt fl t out er exit (le_duration_ms ev) (w\<lparr> dw_fs := log_step flt l (dw_fs w) (de_clk e, ev) \<rparr>)))"

section \<open>The command\<close>

text \<open>\<open>env i\<close> answers the dispatch number \<open>i\<close>; the first failure is the overall exit.\<close>

fun dispatch_all ::
  "(bytes \<Rightarrow> bool) \<Rightarrow> faults \<Rightarrow> logger \<Rightarrow> delegate_flags \<Rightarrow> (nat \<Rightarrow> dispatch_env) \<Rightarrow> nat \<Rightarrow> target list \<Rightarrow> int \<Rightarrow> delegate_world \<Rightarrow> int \<times> delegate_world" where
  "dispatch_all prt flt l fl env i [] overall w = (overall, w)"
| "dispatch_all prt flt l fl env i (t # ts) overall w =
     (case dispatch_one prt flt l fl (env i) t w of
        (exit, w') \<Rightarrow> dispatch_all prt flt l fl env (Suc i) ts (if exit \<noteq> 0 \<and> overall = 0 then exit else overall) w')"

definition delegate_log_path :: path where "delegate_log_path = ''~/.hermes/logs/delegate.jsonl''"
definition delegate_nodes_path :: path where "delegate_nodes_path = []"

definition delegate_registry ::
  "(string, path) result \<Rightarrow> faults \<Rightarrow> fs \<Rightarrow> nat \<Rightarrow> delegate_flags \<Rightarrow> (delegate_err, registry option) result" where
  "delegate_registry home flt fs seed fl =
     (case load_nodes home flt fs seed delegate_nodes_path of
        Inr r \<Rightarrow> ok (Some r)
      | Inl e \<Rightarrow> if \<not> (dg_any_node fl \<and> dg_node fl \<noteq> []) then err (DgLoad e) else ok None)"

definition run_delegate ::
  "(bytes \<Rightarrow> bool) \<Rightarrow> (nat \<Rightarrow> nat \<Rightarrow> nat \<times> nat) \<Rightarrow> (string, path) result \<Rightarrow> faults \<Rightarrow> nat \<Rightarrow> (nat \<Rightarrow> dispatch_env) \<Rightarrow> delegate_flags \<Rightarrow> fs
     \<Rightarrow> delegate_err option \<times> delegate_world" where
  "run_delegate prt draw home flt seed env fl fs =
     (let w0 = \<lparr> dw_fs = fs, dw_out = [], dw_err = [] \<rparr> in
      case validate_delegate_flags fl of
        Some e \<Rightarrow> (Some e, w0)
      | None \<Rightarrow>
          (case delegate_registry home flt fs seed fl of Inl e \<Rightarrow> (Some e, w0) | Inr reg \<Rightarrow>
          (case resolve_delegate_targets draw fl reg of Inl e \<Rightarrow> (Some e, w0) | Inr ts \<Rightarrow>
          (case expand_home_path home delegate_log_path of Inl e \<Rightarrow> (Some (DgHome e), w0) | Inr p \<Rightarrow>
          (case log_open flt fs p of
             Inl (e, fs') \<Rightarrow> (Some (DgLog e), w0\<lparr> dw_fs := fs' \<rparr>)
           | Inr (l, fs1) \<Rightarrow>
               (case dispatch_all prt flt l fl env 0 ts 0 (w0\<lparr> dw_fs := fs1 \<rparr>) of
                  (overall, w) \<Rightarrow> (if overall \<noteq> 0 then Some DgFailed else None, w)))))))"

section \<open>Every dispatch is on record\<close>

definition delegate_records :: "delegate_flags \<Rightarrow> (nat \<Rightarrow> dispatch_env) \<Rightarrow> nat \<Rightarrow> target list \<Rightarrow> (gtime \<times> log_event) list" where
  "delegate_records fl env i ts = map (\<lambda>(j, t). (de_clk (env j), fst (dispatch_outcome fl (env j) t))) (enumerate i ts)"

definition dispatch_ok :: "delegate_flags \<Rightarrow> dispatch_env \<Rightarrow> target \<Rightarrow> bool" where
  "dispatch_ok fl e t \<longleftrightarrow> de_dial e t = None \<and> snd (de_run e t (dg_cmd fl)) = None \<and> sr_exit_code (fst (de_run e t (dg_cmd fl))) = 0"

lemma dispatch_outcome_ok: "le_result (fst (dispatch_outcome fl e t)) = (if dispatch_ok fl e t then ''ok'' else ''error'')"
  by (auto simp: dispatch_outcome_def dispatch_ok_def delegate_event_def Let_def split: option.splits prod.splits)

lemma write_output_fs [simp]: "dw_fs (write_delegate_output prt fl t out er exit dur w) = dw_fs w"
  by (simp add: write_delegate_output_def)

lemma dispatch_all_effect:
  "dispatch_all prt flt l fl env i ts overall w = (ov, w') \<Longrightarrow>
     dw_fs w' = foldl (log_step flt l) (dw_fs w) (delegate_records fl env i ts)
     \<and> (ov = 0 \<longleftrightarrow> overall = 0 \<and> list_all (\<lambda>(j, t). dispatch_ok fl (env j) t) (enumerate i ts))"
proof (induction prt flt l fl env i ts overall w arbitrary: ov w' rule: dispatch_all.induct)
  case (2 prt flt l fl env i t ts overall w)
  obtain ev out er exit where d: "dispatch_outcome fl (env i) t = (ev, out, er, exit)" by (metis prod_cases4)
  then have r: "le_result ev = (if dispatch_ok fl (env i) t then ''ok'' else ''error'')" using dispatch_outcome_ok [of fl "env i" t] by simp
  obtain x w1 where o: "dispatch_one prt flt l fl (env i) t w = (x, w1)" by (metis surj_pair)
  then have o': "x = (if dispatch_ok fl (env i) t then 0 else 1)" "dw_fs w1 = log_step flt l (dw_fs w) (de_clk (env i), ev)"
    using d r by (auto simp: dispatch_one_def)
  have rec: "dispatch_all prt flt l fl env (Suc i) ts (if x \<noteq> 0 \<and> overall = 0 then x else overall) w1 = (ov, w')"
    using "2.prems" o by simp
  show ?case using "2.IH" [OF o [symmetric] rec] o' d by (simp add: delegate_records_def)
qed (simp add: delegate_records_def)

lemma truncate_length: "length (truncate_action c) \<le> 80" "length (delegate_action fl) \<le> 80"
proof -
  have cut: "length (if n < length a then take n a else a) \<le> n" for n and a :: string by simp
  show c: "length (truncate_action c) \<le> 80" for c
    using cut [where n = 80] unfolding truncate_action_def delegate_action_max_def Let_def by blast
  show "length (delegate_action fl) \<le> 80"
    using cut [where n = 80] c unfolding delegate_action_def delegate_action_max_def Let_def by auto
qed

text \<open>What the log can hold: names that fit a line, a duration of 64 bits and a clock in the years
  of RFC 3339.\<close>

definition dispatch_fits :: "dispatch_env \<Rightarrow> target \<Rightarrow> bool" where
  "dispatch_fits e t \<longleftrightarrow> length (tg_user t) + length (tg_host t) \<le> 5900 \<and> in_int64 (de_elapsed e) \<and> time_json_ok (to_utc (de_clk e))"

lemma outcome_event:
  "\<exists>r d s. fst (dispatch_outcome fl e t) = delegate_event fl t r d s \<and> r \<in> {''ok'', ''error''} \<and> d = quot_trunc (de_elapsed e) 1000000"
  by (auto simp: dispatch_outcome_def Let_def split: option.splits prod.splits)

lemma dispatch_fits_log:
  assumes "dispatch_fits e t" "lg_now l = (\<lambda>x. x)"
  shows "loggable l (de_clk e) (fst (dispatch_outcome fl e t)) \<and> accepted l (de_clk e) (fst (dispatch_outcome fl e t))"
proof -
  obtain r d s where ev: "fst (dispatch_outcome fl e t) = delegate_event fl t r d s" "r \<in> {''ok'', ''error''}" "d = quot_trunc (de_elapsed e) 1000000"
    using outcome_event by blast
  have "le_ts (log_fill l (de_clk e) (delegate_event fl t r d s)) = to_utc (de_clk e)"
    using assms(2) by (simp add: log_fill_def delegate_event_def is_zero_time_def Let_def)
  moreover have "short_names (delegate_event fl t r d s)"
    using assms(1) truncate_length(2) [of fl] by (simp add: short_names_def delegate_event_def max_names_def dispatch_fits_def)
  moreover have "result_valid (le_result (delegate_event fl t r d s))"
    using ev(2) by (auto simp: result_valid_def log_results_def delegate_event_def)
  moreover have "in_int64 (le_duration_ms (delegate_event fl t r d s))"
    using assms(1) ev(3) quot_int64 by (simp add: delegate_event_def dispatch_fits_def)
  ultimately show ?thesis using assms(1) by (simp add: ev(1) loggable_def accepted_def dispatch_fits_def to_utc_def)
qed

lemma delegate_written:
  assumes "list_all (\<lambda>(j, t). dispatch_fits (env j) t) (enumerate i ts)" "lg_now l = (\<lambda>x. x)"
  shows "list_all (\<lambda>(now, e). loggable l now e) (delegate_records fl env i ts)"
    "written l (delegate_records fl env i ts) = map (\<lambda>(now, e). log_fill l now e) (delegate_records fl env i ts)"
  using assms(1) dispatch_fits_log [OF _ assms(2)] by (induction ts arbitrary: i) (auto simp: delegate_records_def written_def)

text \<open>C10. Everything that was delegated is on record.  When the flags are valid, the targets resolve and the log opens, and if
  writes to the log do not fail and names, durations and clocks fit a line, each target gets exactly one new event in the log, in order, with its
  outcome, whatever the workers answered; and the command succeeds exactly when every dispatch did.\<close>

theorem delegate_audited:
  assumes "validate_delegate_flags fl = None" "delegate_registry home flt fs seed fl = ok reg" "resolve_delegate_targets draw fl reg = ok ts"
    and "expand_home_path home delegate_log_path = ok p" "log_open flt fs p = ok (l, fs1)" "log_holds fs1 p old" "flt (FWrite p) = None"
    and "list_all (\<lambda>(j, t). dispatch_fits (env j) t) (enumerate 0 ts)"
    and "run_delegate prt draw home flt seed env fl fs = (e, w)"
  shows "read_jsonl no_faults (dw_fs w) p = ok (map coerce_event (old @ map (\<lambda>(now, ev). log_fill l now ev) (delegate_records fl env 0 ts)), False)
    \<and> (e = None \<longleftrightarrow> list_all (\<lambda>(j, t). dispatch_ok fl (env j) t) (enumerate 0 ts))"
proof -
  have l: "lg_now l = (\<lambda>x. x)" "lg_w l = Some p" using log_open_new [OF assms(5)] by (simp_all add: log_new_def)
  obtain ov w' where d: "dispatch_all prt flt l fl env 0 ts 0 \<lparr> dw_fs = fs1, dw_out = [], dw_err = [] \<rparr> = (ov, w')" by (metis surj_pair)
  then have "w' = w" "e = (if ov \<noteq> 0 then Some DgFailed else None)"
    using assms by (auto simp: run_delegate_def Let_def)
  moreover have "read_jsonl no_faults (dw_fs w') p
      = ok (map coerce_event (old @ map (\<lambda>(now, ev). log_fill l now ev) (delegate_records fl env 0 ts)), False)"
    using dispatch_all_effect [OF d] delegate_written [OF assms(8) l(1), of fl] log_run_holds [where flt = flt, OF assms(6) l(2) assms(7)] holds_read
    by fastforce
  ultimately show ?thesis using dispatch_all_effect [OF d] by auto
qed

section \<open>Only registered workers\<close>

definition registered :: "registry \<Rightarrow> target \<Rightarrow> bool" where
  "registered r t \<longleftrightarrow> list_ex (\<lambda>n. parse_target (node_string n) = ok t) (reg_nodes r)"

lemma parse_all_registered:
  "parse_all ns = ok ts \<Longrightarrow> list_all (\<lambda>t. list_ex (\<lambda>n. parse_target (node_string n) = ok t) ns) ts"
proof (induction ns arbitrary: ts)
  case (Cons n ns)
  then obtain t ts' where "ts = t # ts'" "parse_target (node_string n) = ok t" "parse_all ns = ok ts'" by (auto split: sum.splits)
  then show ?case using Cons.IH by (auto simp: list_all_iff)
qed simp

lemma parse_target_at: "parse_target s = ok t \<Longrightarrow> CHR ''@'' \<in> set (trim_space s)"
proof (rule ccontr)
  assume a: "parse_target s = ok t" "CHR ''@'' \<notin> set (trim_space s)"
  then have "index_byte (trim_space s) CHR ''@'' = None" by simp
  with a(1) show False by (simp add: parse_target_def)
qed

lemma one_node_registered:
  assumes "one_node r name = ok n" "parse_target name = ok t" "list_all (\<lambda>n. CHR ''@'' \<notin> set (n_host n)) (reg_nodes r)"
  shows "registered r t"
proof -
  have "n \<in> set (reg_nodes r) \<and> (node_string n = trim_space name \<or> n_host n = trim_space name)"
    using assms(1) by (auto simp: one_node_def Let_def find_Some_iff split: if_splits option.splits)
  then have "n \<in> set (reg_nodes r)" "node_string n = trim_space name"
    using assms(3) parse_target_at [OF assms(2)] by (auto simp: list_all_iff)
  moreover have "parse_target (trim_space name) = parse_target name" by (simp add: parse_target_def)
  ultimately show ?thesis using assms(2) unfolding registered_def list_ex_iff by metis
qed

text \<open>Without \<open>--any-node\<close> a command only goes to registered workers: each resolved target
  is the parse of an entry of \<open>nodes.txt\<close>, for a single node, for all and for the random choice.\<close>

theorem delegate_registered:
  assumes "resolve_delegate_targets draw fl (Some r) = ok ts" "\<not> dg_any_node fl"
    and "list_all (\<lambda>n. CHR ''@'' \<notin> set (n_host n)) (reg_nodes r)" "\<And>s. reg_nodes r \<noteq> [] \<Longrightarrow> fst (draw (length (reg_nodes r)) s) < length (reg_nodes r)"
  shows "list_all (registered r) ts"
proof (cases "dg_node fl = []")
  case False
  then obtain n t where "one_node r (dg_node fl) = ok n" "parse_target (dg_node fl) = ok t" "ts = [t]"
    using assms(1,2) by (auto simp: resolve_delegate_targets_def split: sum.splits)
  then show ?thesis using one_node_registered [OF _ _ assms(3)] by simp
next
  case True
  show ?thesis
  proof (cases "dg_all fl")
    case all: True
    then have "parse_all (reg_nodes r) = ok ts" using assms(1) True by (auto simp: resolve_delegate_targets_def all_nodes_def split: if_splits)
    then show ?thesis using parse_all_registered by (fastforce simp: registered_def list_all_iff)
  next
    case False
    obtain n t where n: "fst (random_node draw r) = ok n" "parse_target (node_string n) = ok t" "ts = [t]" "reg_nodes r \<noteq> []"
      using assms(1) True False by (auto simp: resolve_delegate_targets_def nodes_len_def split: if_splits sum.splits)
    then have "n \<in> set (reg_nodes r)"
      using assms(4) [of "reg_rnd r"] by (auto simp: random_node_def split: prod.splits if_splits)
    then show ?thesis using n(2,3) by (auto simp: registered_def list_ex_iff)
  qed
qed

text \<open>The lookup of \<open>--node\<close> takes a bare host name, but the target parser refuses it.\<close>

theorem delegate_bare_host_refused:
  assumes "CHR ''@'' \<notin> set (dg_node fl)" "dg_node fl \<noteq> []"
  shows "isl (resolve_delegate_targets draw fl reg)"
proof (cases "parse_target (dg_node fl)")
  case (Inr t)
  then have "CHR ''@'' \<in> set (dg_node fl)" using parse_target_at trim_space_infix [of "dg_node fl"] by (metis Un_iff set_append)
  then show ?thesis using assms(1) by simp
qed (use assms in \<open>auto simp: resolve_delegate_targets_def split: option.splits sum.splits\<close>)

section \<open>A run\<close>

definition demo_delegate_fs :: fs where
  "demo_delegate_fs = [(''/g'', Dir mode_0755), (''/g/.hermes'', Dir mode_0755), (''/g/.hermes/logs'', Dir mode_0755), (''/g/.hermes/nodes.txt'', File (''u@a'' @ [NL] @ ''u@b'' @ [NL]) mode_0644),
     (''/g/.hermes/logs/delegate.jsonl'', File [] mode_0644)]"

definition demo_flags :: delegate_flags where
  "demo_flags = \<lparr> dg_node = [], dg_all = True, dg_random = False, dg_cmd = ''uptime'', dg_json = False, dg_quiet = False, dg_any_node = False, dg_tenant_id = [] \<rparr>"

definition demo_dispatch :: "nat \<Rightarrow> dispatch_env" where
  "demo_dispatch i = \<lparr> de_dial = (\<lambda>t. if tg_host t = ''b'' then Some ''refused'' else None),
     de_run = (\<lambda>t c. (\<lparr> sr_stdout = ''up'', sr_stderr = [], sr_exit_code = 0, sr_duration_ms = 2 \<rparr>, None)), de_elapsed = 3000000, de_clk = time_utc 5 \<rparr>"

definition demo_registry :: registry where
  "demo_registry = \<lparr> reg_nodes = [\<lparr> n_user = ''u'', n_host = ''a'' \<rparr>, \<lparr> n_user = ''u'', n_host = ''b'' \<rparr>], reg_rnd = 0 \<rparr>"

definition demo_targets :: "target list" where
  "demo_targets = [\<lparr> tg_user = ''u'', tg_host = ''a'', tg_port = 22 \<rparr>, \<lparr> tg_user = ''u'', tg_host = ''b'', tg_port = 22 \<rparr>]"

abbreviation demo_delegate_log :: path where "demo_delegate_log \<equiv> ''/g/.hermes/logs/delegate.jsonl''"

lemma demo_delegate_load: "delegate_registry (ok ''/g'') no_faults demo_delegate_fs 0 demo_flags = ok (Some demo_registry)"
proof -
  have "os_read_file no_faults demo_delegate_fs ''/g/.hermes/nodes.txt'' = ok (render_nodes (reg_nodes demo_registry))"
    "expand_home (ok ''/g'') default_nodes_path = ok ''/g/.hermes/nodes.txt''" by code_simp+
  moreover have "canonical_node \<lparr> n_user = ''u'', n_host = h \<rparr>" if "h = ''a'' \<or> h = ''b''" for h
  proof -
    have "trim_space ''u'' = ''u''" "trim_space ''a'' = ''a''" "trim_space ''b'' = ''b''" by code_simp+
    then show ?thesis using that
      by (auto simp: canonical_node_def node_string_def nodes_max_line_def has_prefix_def contains_def)
  qed
  then have "parse_nodes 0 (render_nodes (reg_nodes demo_registry)) = ok (new_registry 0 (reg_nodes demo_registry))"
    by (intro parse_render_canonical) (simp add: demo_registry_def)
  ultimately show ?thesis
    by (simp add: delegate_registry_def load_nodes_def delegate_nodes_path_def) (simp add: new_registry_def demo_registry_def)
qed

lemma demo_delegate_setup:
  "validate_delegate_flags demo_flags = None"
  "resolve_delegate_targets (\<lambda>n s. (0, s)) demo_flags (Some demo_registry) = ok demo_targets" "expand_home_path (ok ''/g'') delegate_log_path = ok demo_delegate_log"
  by code_simp+

lemma demo_delegate_open: "log_open no_faults demo_delegate_fs demo_delegate_log = ok (log_new demo_delegate_log True, demo_delegate_fs)"
proof -
  have "os_mkdir_all no_faults demo_delegate_fs (dir_path demo_delegate_log) mode_0755 = ok demo_delegate_fs"
    "os_open_create no_faults False demo_delegate_fs demo_delegate_log mode_0644 = ok demo_delegate_fs" by code_simp+
  then show ?thesis by (simp add: log_open_def)
qed

lemma demo_delegate_fits: "list_all (\<lambda>(j, t). dispatch_fits (demo_dispatch j) t) (enumerate 0 demo_targets)"
proof -
  have "time_json_ok (to_utc (time_utc 5))" by code_simp
  then show ?thesis by (simp add: demo_targets_def dispatch_fits_def demo_dispatch_def in_int64_def min_int64_def max_int64_def)
qed

theorem delegate_audited_witness:
  "fst (run_delegate (\<lambda>_. True) (\<lambda>n s. (0, s)) (ok ''/g'') no_faults 0 demo_dispatch demo_flags demo_delegate_fs) \<noteq> None
   \<and> length (fst (projr (read_jsonl no_faults
       (dw_fs (snd (run_delegate (\<lambda>_. True) (\<lambda>n s. (0, s)) (ok ''/g'') no_faults 0 demo_dispatch demo_flags demo_delegate_fs))) demo_delegate_log))) = 2"
proof -
  obtain e w where r: "run_delegate (\<lambda>_. True) (\<lambda>n s. (0, s)) (ok ''/g'') no_faults 0 demo_dispatch demo_flags demo_delegate_fs = (e, w)" by (metis surj_pair)
  have h: "log_holds demo_delegate_fs demo_delegate_log []" by (simp add: log_holds_def file_data_def demo_delegate_fs_def log_text_def)
  show ?thesis
    using delegate_audited [OF demo_delegate_setup(1) demo_delegate_load demo_delegate_setup(2,3) demo_delegate_open h _ demo_delegate_fits r]
    by (simp add: r delegate_records_def demo_targets_def dispatch_ok_def demo_dispatch_def)
qed

theorem delegate_registered_witness: "list_all (registered demo_registry) demo_targets"
  using delegate_registered [OF demo_delegate_setup(2)] by (simp add: demo_flags_def demo_registry_def)

text \<open>With \<open>--json\<close> the output of the command is quoted as a Go string, which is not JSON when it has,
  say, an escape character.\<close>

theorem delegate_json_invalid:
  "\<exists>a b. dw_out (write_delegate_output prt (demo_flags\<lparr> dg_json := True \<rparr>) t [CHR 0x1B] er exit dur w) = a @ go_quote prt [CHR 0x1B] @ b"
  "\<not> json_valid (go_quote (\<lambda>_. True) [CHR 0x1B])"
proof -
  show "\<exists>a b. dw_out (write_delegate_output prt (demo_flags\<lparr> dg_json := True \<rparr>) t [CHR 0x1B] er exit dur w) = a @ go_quote prt [CHR 0x1B] @ b"
    unfolding write_delegate_output_def demo_flags_def
    by (rule exI [of _ "dw_out w @ ''{'' @ [DQ] @ ''node'' @ [DQ] @ '':'' @ go_quote prt (target_string t) @ '','' @ [DQ] @ ''exit'' @ [DQ] @ '':'' @ itoa exit
             @ '','' @ [DQ] @ ''duration_ms'' @ [DQ] @ '':'' @ itoa dur @ '','' @ [DQ] @ ''stdout'' @ [DQ] @ '':''"]) simp
  show "\<not> json_valid (go_quote (\<lambda>_. True) [CHR 0x1B])" by code_simp
qed

end
