(* ===== verification/Go_Tree.thy ===== *)
theory Go_Tree
  imports Go_Paths
begin

text \<open>
  File systems whose paths are absolute and made of plain names: the entries of a directory are its
  children, and nothing lies below a plain file.
\<close>

text \<open>Absolute paths of plain names.\<close>

definition tidy_path :: "path \<Rightarrow> bool" where
  "tidy_path q \<longleftrightarrow> (\<exists>ss. plain_segs ss \<and> q = below ss)"

definition tidy_fs :: "fs \<Rightarrow> bool" where
  "tidy_fs fs \<longleftrightarrow> list_all (\<lambda>(q, _). q = [SLASH] \<or> tidy_path q) fs"

definition child_of :: "path \<Rightarrow> path \<Rightarrow> bool" where
  "child_of d q \<longleftrightarrow> (\<exists>n. plain_name n \<and> q = d @ SLASH # n)"

lemma tidy_paths: "plain_segs ss \<Longrightarrow> q = below ss \<Longrightarrow> tidy_path q" by (auto simp: tidy_path_def)

lemma tidy_fs_map: "tidy_fs fs \<longleftrightarrow> (\<forall>q. map_of fs q \<noteq> None \<longrightarrow> q = [SLASH] \<or> tidy_path q)"
  by (force simp: tidy_fs_def list_all_iff map_of_eq_None_iff)

lemma clean_stack_below: "plain_segs ss \<Longrightarrow> clean_stack (below ss) = rev ss"
  using split_on_below [of ss "[]"] foldl_plain [of ss True "[]"]
  by (cases ss) (auto simp: clean_stack_def is_rooted_def plain_segs_def seg_step_def)

lemma tidy_proper: "tidy_path d \<Longrightarrow> proper_dir d"
proof -
  assume "tidy_path d"
  then obtain ss where ss: "plain_segs ss" "d = below ss" by (auto simp: tidy_path_def)
  then have "ss \<noteq> []" "is_rooted d" "d \<noteq> [SLASH]" by (auto simp: plain_segs_def plain_name_def is_rooted_def neq_Nil_conv)
  then show "proper_dir d"
    using ss clean_stack_below [OF ss(1)] below_join [of ss] by (simp add: proper_dir_def clean_path_def render_path_def)
qed

lemma ancestors_tidy:
  assumes "tidy_path d" "a \<in> set (ancestors d)"
  shows "tidy_path a"
proof -
  obtain ss where ss: "plain_segs ss" "d = below ss" using assms(1) by (auto simp: tidy_path_def)
  have r: "is_rooted d" using ss by (auto simp: plain_segs_def is_rooted_def neq_Nil_conv)
  obtain i where i: "i < length ss" "a = render_path True (rev (take (Suc i) ss))"
    using assms(2) r unfolding ancestors_def ss(2) clean_stack_below [OF ss(1)] by auto
  have "plain_segs (take (Suc i) ss)" using ss(1) i(1) by (auto simp: plain_segs_def list_all_iff dest: in_set_takeD)
  moreover have "a = below (take (Suc i) ss)" using i below_join [of "take (Suc i) ss"] by (cases ss) (auto simp: render_path_def)
  ultimately show ?thesis by (auto simp: tidy_path_def)
qed

lemma tidy_child: "tidy_path d \<Longrightarrow> plain_name n \<Longrightarrow> tidy_path (d @ SLASH # n)"
  unfolding tidy_path_def
proof (elim exE conjE)
  fix ss assume "plain_segs ss" "d = below ss" "plain_name n"
  then show "\<exists>ts. plain_segs ts \<and> d @ SLASH # n = below ts" by (intro exI [of _ "ss @ [n]"]) (auto simp: plain_segs_def)
qed

lemma entry_iff:
  "(n, b) \<in> set (dir_entries fs d) \<longleftrightarrow> b = is_dir fs (join2 d n) \<and> (\<exists>p. map_of fs p \<noteq> None \<and> p \<noteq> d \<and> dir_path p = d \<and> base_path p = n)"
proof -
  have "n \<in> set (map (\<lambda>(p, _). base_path p) (filter (\<lambda>(p, _). p \<noteq> d \<and> dir_path p = d) fs))
      \<longleftrightarrow> (\<exists>p. map_of fs p \<noteq> None \<and> p \<noteq> d \<and> dir_path p = d \<and> base_path p = n)"
    unfolding map_of_eq_None_iff by (auto simp: image_iff)
  then show ?thesis by (auto simp: dir_entries_def simp del: join_path.simps)
qed

text \<open>In a tidy file system the entries of a directory are its children.\<close>

lemma tidy_entry:
  assumes "tidy_fs fs" "tidy_path d" "(n, b) \<in> set (dir_entries fs d)"
  shows "plain_name n" "map_of fs (d @ SLASH # n) \<noteq> None" "b = is_dir fs (d @ SLASH # n)"
proof -
  obtain p where p: "map_of fs p \<noteq> None" "p \<noteq> d" "dir_path p = d" "n = base_path p" and b: "b = is_dir fs (join2 d n)"
    using assms(3) unfolding entry_iff by blast
  have pd: "proper_dir d" using assms(2) by (rule tidy_proper)
  have root: "dir_path [SLASH] = [SLASH]" by code_simp
  then have "p \<noteq> [SLASH]" using p(3) pd by (auto simp: proper_dir_def)
  then obtain ss where ss: "plain_segs ss" "p = below ss" using assms(1) p(1) unfolding tidy_fs_map tidy_path_def by blast
  then obtain ts t where t: "ss = ts @ [t]" by (metis plain_segs_def rev_exhaust)
  then have t': "plain_name t" "list_all plain_name ts" using ss(1) by (simp_all add: plain_segs_def)
  have "p = d @ SLASH # t"
  proof (cases "ts = []")
    case True
    have "dir_path (SLASH # t) = [SLASH]"
      using t'(1) last_index_byte_append [of SLASH t "[]"] root by (simp add: dir_path_def plain_name_def)
    then show ?thesis using p(3) ss(2) t True pd by (simp add: proper_dir_def)
  next
    case False
    then have "proper_dir (below ts)" using t'(2) by (intro tidy_proper) (auto simp: tidy_path_def plain_segs_def)
    then show ?thesis using dir_path_child [OF _ t'(1)] p(3) ss(2) t by simp
  qed
  moreover have "n = t" using base_path_below [OF t'(1), of "[]" ts] p(4) ss t by simp
  ultimately show "plain_name n" "map_of fs (d @ SLASH # n) \<noteq> None" "b = is_dir fs (d @ SLASH # n)"
    using t'(1) p(1) b join2_child [OF pd t'(1)] by simp_all
qed

text \<open>No entry of the file system lies below a plain file.\<close>

definition no_file_parent :: "fs \<Rightarrow> bool" where
  "no_file_parent fs \<longleftrightarrow> list_all (\<lambda>(q, _). \<not> is_file fs (dir_path q)) fs"

lemma remove_file:
  assumes "no_file_parent fs" "is_file fs p"
  shows "os_remove no_faults fs p = ok (AList.delete p fs) \<and> no_file_parent (AList.delete p fs)"
proof -
  have "\<not> list_ex (\<lambda>(q, _). dir_path q = p \<and> q \<noteq> p) fs"
    using assms by (auto simp: no_file_parent_def list_all_iff list_ex_iff)
  moreover have "no_file_parent (AList.delete p fs)"
  proof -
    have "is_file (AList.delete p fs) x \<Longrightarrow> is_file fs x" for x
      by (auto simp: is_file_def delete_conv' split: if_splits)
    then show ?thesis using assms(1) unfolding no_file_parent_def list_all_iff AList.delete_eq by fastforce
  qed
  ultimately show ?thesis using assms(2) by (auto simp: os_remove_def is_file_def split: option.splits)
qed

lemma file_or_dir: "map_of fs p \<noteq> None \<Longrightarrow> is_file fs p \<longleftrightarrow> \<not> is_dir fs p"
  by (cases "the (map_of fs p)") (auto simp: is_file_def is_dir_def)

lemma dir_entries_complete:
  assumes "is_file fs (d @ SLASH # n)" "proper_dir d" "plain_name n"
  shows "(n, False) \<in> set (dir_entries fs d)"
proof -
  have x: "map_of fs (d @ SLASH # n) \<noteq> None" using assms(1) by (auto simp: is_file_def split: option.splits)
  then have "\<not> is_dir fs (d @ SLASH # n)" using assms(1) file_or_dir [OF x] by blast
  then have "\<not> is_dir fs (join2 d n)" unfolding join2_child [OF assms(2,3)] .
  moreover have "dir_path (d @ SLASH # n) = d" "base_path (d @ SLASH # n) = n" "d @ SLASH # n \<noteq> d"
    using assms dir_path_child base_path_child by simp_all
  ultimately show ?thesis unfolding entry_iff using x by blast
qed

text \<open>The names in a directory, sorted; removing a file takes its name out of the list.\<close>

definition dir_names :: "fs \<Rightarrow> path \<Rightarrow> string list" where
  "dir_names fs d = map fst (dir_entries fs d)"

lemma dir_names_sorted: "sorted (dir_names fs d)" "distinct (dir_names fs d)"
  by (simp_all add: dir_names_def dir_entries_def comp_def)

lemma dir_names_iff:
  assumes "tidy_fs fs" "tidy_path d"
  shows "n \<in> set (dir_names fs d) \<longleftrightarrow> plain_name n \<and> map_of fs (d @ SLASH # n) \<noteq> None"
proof
  assume "n \<in> set (dir_names fs d)"
  then obtain b where "(n, b) \<in> set (dir_entries fs d)" by (auto simp: dir_names_def)
  then show "plain_name n \<and> map_of fs (d @ SLASH # n) \<noteq> None" using tidy_entry [OF assms] by blast
next
  assume a: "plain_name n \<and> map_of fs (d @ SLASH # n) \<noteq> None"
  have pd: "proper_dir d" using assms(2) by (rule tidy_proper)
  have "dir_path (d @ SLASH # n) = d" "base_path (d @ SLASH # n) = n" "d @ SLASH # n \<noteq> d"
    using a pd dir_path_child base_path_child by simp_all
  then have "(n, is_dir fs (join2 d n)) \<in> set (dir_entries fs d)" unfolding entry_iff using a by blast
  then show "n \<in> set (dir_names fs d)" by (force simp: dir_names_def simp del: join_path.simps)
qed

lemma tidy_delete: "tidy_fs fs \<Longrightarrow> tidy_fs (AList.delete p fs)"
  by (auto simp: tidy_fs_map delete_conv')

lemma dir_names_delete:
  assumes "tidy_fs fs" "tidy_path d" "plain_name n"
  shows "dir_names (AList.delete (d @ SLASH # n) fs) d = filter (\<lambda>m. m \<noteq> n) (dir_names fs d)"
proof (rule sorted_distinct_set_unique)
  show "set (dir_names (AList.delete (d @ SLASH # n) fs) d) = set (filter (\<lambda>m. m \<noteq> n) (dir_names fs d))"
    using assms by (auto simp: dir_names_iff tidy_delete delete_conv' split: if_splits)
qed (simp_all add: dir_names_sorted sorted_wrt_filter)

end
