(* ===== verification/Log_Aggregate.thy ===== *)
theory Log_Aggregate
  imports Fleet_Log Nodes Ssh_Target Go_Duration Go_Tree Go_Quote
begin

text \<open>
  Nightly log aggregation, \<open>internal/logaggregate/logaggregate.go\<close>, and the command around it,
  \<open>cmd/fleetctl/commands/log_aggregate.go\<close>.  The workers are behind \<open>SSHRunner\<close>, the argument
  \<open>runner\<close>; \<open>untar\<close> is what reading a stream through \<open>compress/gzip\<close> and \<open>archive/tar\<close> gives,
  the error of the gzip header or the entries and how the stream ended.  Files carry the modification
  time that the retention looks at.  The pulls of a run are taken one after the other, in any order.
\<close>

declare json_print.simps(3) [simp del]

section \<open>Data\<close>

record tar_file =
  tf_name :: string
  tf_type :: char
  tf_mtime :: gtime
  tf_data :: bytes
  tf_err :: "string option"

type_synonym untar = "bytes \<Rightarrow> (string, tar_file list \<times> string option) result"
type_synonym ssh_runner = "string \<Rightarrow> string \<Rightarrow> bytes \<times> string \<times> int \<times> string option"

record la_world =
  lw_fs :: fs
  lw_mt :: "path \<Rightarrow> gtime"

record aggregator =
  ag_gateway_dir :: path
  ag_nodes_file :: path
  ag_single_node :: string
  ag_keep_days :: int
  ag_rotate :: bool
  ag_dry_run :: bool

datatype extract_err = XtGzip string | XtNext string | XtOpen path ioerr | XtCopy path string | XtWrite path ioerr | XtClose path ioerr

datatype pull_err =
    PlProbeSsh string | PlProbeExit int string | PlMkdir path ioerr | PlSsh string | PlExit int string
  | PlExtract extract_err | PlRotate string | PlRotateExit int string | PlPrune ioerr

record pull_result =
  pr_node :: string
  pr_files :: int
  pr_bytes :: int
  pr_pruned :: int
  pr_err :: "pull_err option"
  pr_duration :: int

text \<open>The clock readings of one pull: at its start, at its end and for the cutoff, and the time the
  kernel stamps on files that are written.\<close>

record pull_clock =
  pc_start :: gtime
  pc_end :: gtime
  pc_prune :: gtime
  pc_wall :: gtime

definition default_keep_days :: int where "default_keep_days = 30"

definition host_of :: "string \<Rightarrow> string" where
  "host_of target =
     (case last_index_byte target CHR ''@'' of
        Some i \<Rightarrow> if i < length target - 1 then drop (Suc i) target else target
      | None \<Rightarrow> target)"

section \<open>Extraction\<close>

definition tar_regular :: "tar_file \<Rightarrow> bool" where
  "tar_regular f \<longleftrightarrow> tf_type f = CHR ''0'' \<or> tf_type f = CHR 0x00"

definition base_refused :: "string \<Rightarrow> bool" where
  "base_refused b \<longleftrightarrow> b = [] \<or> b = ''.'' \<or> b = ''..'' \<or> SLASH \<in> set b"

fun extract_files ::
  "faults \<Rightarrow> gtime \<Rightarrow> path \<Rightarrow> tar_file list \<Rightarrow> string option \<Rightarrow> int \<Rightarrow> int \<Rightarrow> la_world \<Rightarrow> la_world \<times> int \<times> int \<times> extract_err option" where
  "extract_files flt wall dest [] fin cnt tot w = (w, cnt, tot, map_option XtNext fin)"
| "extract_files flt wall dest (f # fs) fin cnt tot w =
     (let base = base_path (tf_name f); out = join2 dest base in
      if \<not> tar_regular f \<or> base_refused base then extract_files flt wall dest fs fin cnt tot w
      else (case os_open_create flt True (lw_fs w) out mode_0644 of
              Inl e \<Rightarrow> (w, cnt, tot, Some (XtOpen out e))
            | Inr fs1 \<Rightarrow>
                (let mt1 = (lw_mt w)(out := wall) in
                 case (if tf_data f = [] then ok fs1 else os_write flt fs1 out (tf_data f)) of
                   Inl (e, fs2) \<Rightarrow> (\<lparr> lw_fs = fs2, lw_mt = mt1 \<rparr>, cnt, tot, Some (XtWrite out e))
                 | Inr fs2 \<Rightarrow>
                     (case tf_err f of
                        Some m \<Rightarrow> (\<lparr> lw_fs = fs2, lw_mt = mt1 \<rparr>, cnt, tot, Some (XtCopy out m))
                      | None \<Rightarrow>
                          (case os_close flt out of
                             Inl e \<Rightarrow> (\<lparr> lw_fs = fs2, lw_mt = mt1 \<rparr>, cnt, tot, Some (XtClose out e))
                           | Inr _ \<Rightarrow>
                               extract_files flt wall dest fs fin (cnt + 1) (wrap64 (tot + int (length (tf_data f))))
                                 \<lparr> lw_fs = fs2,
                                   lw_mt = (if \<not> is_zero_time (tf_mtime f) \<and> flt (FChtimes out) = None then mt1(out := tf_mtime f) else mt1) \<rparr>)))))"

definition extract_tar_gz ::
  "untar \<Rightarrow> faults \<Rightarrow> gtime \<Rightarrow> bytes \<Rightarrow> path \<Rightarrow> la_world \<Rightarrow> la_world \<times> int \<times> int \<times> extract_err option" where
  "extract_tar_gz untar flt wall blob dest w =
     (if blob = [] then (w, 0, 0, None)
      else (case untar blob of
              Inl e \<Rightarrow> (w, 0, 0, Some (XtGzip e))
            | Inr (fs, fin) \<Rightarrow> extract_files flt wall dest fs fin 0 0 w))"

section \<open>Retention\<close>

fun prune_each :: "faults \<Rightarrow> path \<Rightarrow> gtime \<Rightarrow> (string \<times> bool) list \<Rightarrow> int \<Rightarrow> la_world \<Rightarrow> la_world \<times> int" where
  "prune_each flt dir cutoff [] removed w = (w, removed)"
| "prune_each flt dir cutoff ((name, is_d) # es) removed w =
     (let p = join2 dir name in
      if is_d \<or> flt (FStat p) \<noteq> None \<or> \<not> time_before (lw_mt w p) cutoff then prune_each flt dir cutoff es removed w
      else (case os_remove flt (lw_fs w) p of
              Inl _ \<Rightarrow> prune_each flt dir cutoff es removed w
            | Inr fs' \<Rightarrow> prune_each flt dir cutoff es (removed + 1) (w\<lparr> lw_fs := fs' \<rparr>)))"

text \<open>\<open>-time.Duration(keep) * 24 * time.Hour\<close> in 64 bits.\<close>

definition day_ns :: int where "day_ns = 24 * 3600 * 1000000000"

definition retention_cutoff :: "int \<Rightarrow> gtime \<Rightarrow> gtime" where
  "retention_cutoff keep now = time_add now (wrap64 (- keep * day_ns))"

definition prune :: "faults \<Rightarrow> gtime \<Rightarrow> int \<Rightarrow> path \<Rightarrow> la_world \<Rightarrow> la_world \<times> (ioerr, int) result" where
  "prune flt now keep_days dir w =
     (let keep = (if keep_days = 0 then default_keep_days else keep_days) in
      if keep < 0 then (w, ok 0)
      else (case os_read_dir flt (lw_fs w) dir of
              Inl e \<Rightarrow> (w, if e = NotExist then ok 0 else err e)
            | Inr es \<Rightarrow> (case prune_each flt dir (retention_cutoff keep now) es 0 w of (w', n) \<Rightarrow> (w', ok n))))"

section \<open>One worker\<close>

abbreviation SQ :: char where "SQ \<equiv> CHR 0x27"

definition remote_logs_glob :: string where "remote_logs_glob = ''$HOME/.hermes/logs/*.jsonl''"

definition probe_cmd :: string where
  "probe_cmd = ''ls -1 '' @ remote_logs_glob @ '' 2>/dev/null | wc -l''"

definition pull_cmd :: string where
  "pull_cmd = ''sh -c '' @ [SQ] @ ''d='' @ [DQ] @ ''$HOME/.hermes/logs'' @ [DQ] @ ''; [ -d '' @ [DQ] @ ''$d'' @ [DQ] @ '' ] || exit 0; cd ''
     @ [DQ] @ ''$d'' @ [DQ] @ '' || exit 0; if ls *.jsonl >/dev/null 2>&1; then tar -c -f - *.jsonl 2>/dev/null | gzip -c; fi'' @ [SQ]"

definition rotate_cmd :: string where
  "rotate_cmd = ''sh -c '' @ [SQ] @ ''cd $HOME/.hermes/logs && for f in *.jsonl; do [ -e '' @ [DQ] @ ''$f'' @ [DQ] @ '' ] && gzip -f ''
     @ [DQ] @ ''$f'' @ [DQ] @ ''; done; true'' @ [SQ]"

text \<open>\<open>fmt.Sscanf\<close> with \<open>%d\<close> into an integer that starts at 0: an optional sign and the digits; the rest
  of the text is not looked at.\<close>

definition sscanf_int :: "string \<Rightarrow> int" where
  "sscanf_int s =
     (let sgn = (if s \<noteq> [] \<and> (hd s = CHR ''-'' \<or> hd s = CHR ''+'') then [hd s] else []);
          digits = takeWhile is_digit (drop (length sgn) s)
      in case parse_int (sgn @ digits) of None \<Rightarrow> 0 | Some n \<Rightarrow> n)"

definition pull_probe :: "ssh_runner \<Rightarrow> pull_clock \<Rightarrow> string \<Rightarrow> pull_result" where
  "pull_probe runner ck target =
     (let res = \<lparr> pr_node = target, pr_files = 0, pr_bytes = 0, pr_pruned = 0, pr_err = None, pr_duration = time_sub (pc_end ck) (pc_start ck) \<rparr> in
      case runner target probe_cmd of
        (_, _, _, Some e) \<Rightarrow> res\<lparr> pr_err := Some (PlProbeSsh e) \<rparr>
      | (out, er, exit, None) \<Rightarrow>
          if exit \<noteq> 0 then res\<lparr> pr_err := Some (PlProbeExit exit (trim_space er)) \<rparr>
          else res\<lparr> pr_files := sscanf_int (trim_space out) \<rparr>)"

definition pull_rotate :: "ssh_runner \<Rightarrow> aggregator \<Rightarrow> string \<Rightarrow> int \<Rightarrow> pull_err option" where
  "pull_rotate runner a target files =
     (if ag_rotate a \<and> 0 < files then
        (case runner target rotate_cmd of
           (_, _, _, Some e) \<Rightarrow> Some (PlRotate e)
         | (_, er, exit, None) \<Rightarrow> if exit \<noteq> 0 then Some (PlRotateExit exit (trim_space er)) else None)
      else None)"

definition dest_dir :: "aggregator \<Rightarrow> string \<Rightarrow> path" where
  "dest_dir a target = join2 (ag_gateway_dir a) (host_of target)"

definition pull_one ::
  "untar \<Rightarrow> ssh_runner \<Rightarrow> faults \<Rightarrow> pull_clock \<Rightarrow> aggregator \<Rightarrow> string \<Rightarrow> la_world \<Rightarrow> la_world \<times> pull_result" where
  "pull_one untar runner flt ck a target w =
     (let dest = dest_dir a target;
          res = \<lparr> pr_node = target, pr_files = 0, pr_bytes = 0, pr_pruned = 0, pr_err = None, pr_duration = time_sub (pc_end ck) (pc_start ck) \<rparr> in
      if ag_dry_run a then (w, pull_probe runner ck target)
      else (case os_mkdir_all flt (lw_fs w) dest mode_0755 of
              Inl (e, fs') \<Rightarrow> (w\<lparr> lw_fs := fs' \<rparr>, res\<lparr> pr_err := Some (PlMkdir dest e) \<rparr>)
            | Inr fs1 \<Rightarrow>
                (let w1 = w\<lparr> lw_fs := fs1 \<rparr> in
                 case runner target pull_cmd of
                   (_, _, _, Some e) \<Rightarrow> (w1, res\<lparr> pr_err := Some (PlSsh e) \<rparr>)
                 | (out, er, exit, None) \<Rightarrow>
                     if exit \<noteq> 0 then (w1, res\<lparr> pr_err := Some (PlExit exit (trim_space er)) \<rparr>)
                     else (case extract_tar_gz untar flt (pc_wall ck) out dest w1 of
                             (w2, files, bytes, xe) \<Rightarrow>
                               (let res2 = res\<lparr> pr_files := files, pr_bytes := bytes \<rparr> in
                                case xe of
                                  Some e \<Rightarrow> (w2, res2\<lparr> pr_err := Some (PlExtract e) \<rparr>)
                                | None \<Rightarrow>
                                    (case pull_rotate runner a target files of
                                       Some e \<Rightarrow> (w2, res2\<lparr> pr_err := Some e \<rparr>)
                                     | None \<Rightarrow>
                                         (case prune flt (pc_prune ck) (ag_keep_days a) dest w2 of
                                            (w3, Inl e) \<Rightarrow> (w3, res2\<lparr> pr_err := Some (PlPrune e) \<rparr>)
                                          | (w3, Inr n) \<Rightarrow> (w3, res2\<lparr> pr_pruned := n \<rparr>))))))))"

section \<open>The run\<close>

datatype agg_err = AgNoDir | AgNodes nodes_error | AgNoTargets | AgMkdir path ioerr

definition resolve_targets ::
  "(string, path) result \<Rightarrow> faults \<Rightarrow> nat \<Rightarrow> aggregator \<Rightarrow> fs \<Rightarrow> (agg_err, string list) result" where
  "resolve_targets home flt seed a fs =
     (if ag_single_node a \<noteq> [] then ok [ag_single_node a]
      else (case load_nodes home flt fs seed (ag_nodes_file a) of
              Inl e \<Rightarrow> err (AgNodes e)
            | Inr reg \<Rightarrow> ok (map node_string (all_nodes reg))))"

text \<open>\<open>order\<close> says in which order the goroutines got to run; a result goes to the slot of its target.\<close>

fun pull_all ::
  "untar \<Rightarrow> ssh_runner \<Rightarrow> faults \<Rightarrow> (nat \<Rightarrow> pull_clock) \<Rightarrow> aggregator \<Rightarrow> string list \<Rightarrow> nat list \<Rightarrow> pull_result list \<Rightarrow> la_world
     \<Rightarrow> la_world \<times> pull_result list" where
  "pull_all untar runner flt cks a ts [] rs w = (w, rs)"
| "pull_all untar runner flt cks a ts (i # js) rs w =
     (case pull_one untar runner flt (cks i) a (ts ! i) w of (w', r) \<Rightarrow> pull_all untar runner flt cks a ts js (rs[i := r]) w')"

definition zero_pull :: pull_result where
  "zero_pull = \<lparr> pr_node = [], pr_files = 0, pr_bytes = 0, pr_pruned = 0, pr_err = None, pr_duration = 0 \<rparr>"

definition aggregate_run ::
  "untar \<Rightarrow> ssh_runner \<Rightarrow> faults \<Rightarrow> (string, path) result \<Rightarrow> nat \<Rightarrow> (nat \<Rightarrow> pull_clock) \<Rightarrow> nat list \<Rightarrow> aggregator \<Rightarrow> la_world
     \<Rightarrow> la_world \<times> (agg_err, pull_result list \<times> bool) result" where
  "aggregate_run untar runner flt home seed cks order a w =
     (if ag_gateway_dir a = [] then (w, err AgNoDir)
      else (case resolve_targets home flt seed a (lw_fs w) of
              Inl e \<Rightarrow> (w, err e)
            | Inr ts \<Rightarrow>
                if ts = [] then (w, err AgNoTargets)
                else (case (if ag_dry_run a then ok (lw_fs w) else os_mkdir_all flt (lw_fs w) (ag_gateway_dir a) mode_0755) of
                        Inl (e, fs') \<Rightarrow> (w\<lparr> lw_fs := fs' \<rparr>, err (AgMkdir (ag_gateway_dir a) e))
                      | Inr fs1 \<Rightarrow>
                          (case pull_all untar runner flt cks a ts order (replicate (length ts) zero_pull) (w\<lparr> lw_fs := fs1 \<rparr>) of
                             (w', rs) \<Rightarrow> (w', ok (rs, list_all (\<lambda>r. pr_err r = None) rs))))))"

section \<open>The command\<close>

text \<open>The runner of the command over the dialer; the answers of the workers and the texts of errors are
  arguments.\<close>

definition log_aggregate_runner ::
  "(bytes \<Rightarrow> bool) \<Rightarrow> (target_err \<Rightarrow> string) \<Rightarrow> (target \<Rightarrow> string option) \<Rightarrow> (target \<Rightarrow> string \<Rightarrow> ssh_result \<times> string option) \<Rightarrow> ssh_runner" where
  "log_aggregate_runner prt msg dial run_cmd target cmd =
     (case parse_target target of
        Inl e \<Rightarrow> ([], msg e, -1, Some (''parse target '' @ go_quote prt target @ '': '' @ msg e))
      | Inr t \<Rightarrow>
          (case dial t of
             Some e \<Rightarrow> ([], e, -1, Some e)
           | None \<Rightarrow> (case run_cmd t cmd of (res, e) \<Rightarrow> (sr_stdout res, sr_stderr res, sr_exit_code res, e))))"

definition log_aggregate_log_path :: path where "log_aggregate_log_path = ''~/.hermes/logs/log-aggregate.jsonl''"
definition log_aggregate_gateway_dir :: path where "log_aggregate_gateway_dir = ''~/.hermes/logs/aggregated''"

datatype log_aggregate_err = LaHome string | LaLog log_err | LaRun agg_err | LaFailed

definition pull_event :: "(pull_err \<Rightarrow> string) \<Rightarrow> bool \<Rightarrow> pull_result \<Rightarrow> log_event" where
  "pull_event msg dry p =
     \<lparr> le_ts = zero_time, le_node = pr_node p, le_phase = ''log-aggregate'',
       le_action = (if dry then ''dry-run files='' @ itoa (pr_files p)
                    else ''pull files='' @ itoa (pr_files p) @ '' bytes='' @ itoa (pr_bytes p) @ '' pruned='' @ itoa (pr_pruned p)),
       le_result = (if pr_err p \<noteq> None then ''error'' else ''ok''), le_duration_ms = quot_trunc (pr_duration p) 1000000,
       le_stderr_tail = (case pr_err p of None \<Rightarrow> [] | Some e \<Rightarrow> msg e) \<rparr>"

definition run_log_aggregate ::
  "untar \<Rightarrow> ssh_runner \<Rightarrow> faults \<Rightarrow> (string, path) result \<Rightarrow> nat \<Rightarrow> (nat \<Rightarrow> pull_clock) \<Rightarrow> nat list \<Rightarrow> (pull_err \<Rightarrow> string) \<Rightarrow> (agg_err \<Rightarrow> string)
     \<Rightarrow> (nat \<Rightarrow> gtime) \<Rightarrow> aggregator \<Rightarrow> la_world \<Rightarrow> la_world \<times> log_aggregate_err option" where
  "run_log_aggregate untar runner flt home seed cks order msg amsg clk a w =
     (case expand_home_path home log_aggregate_log_path of
        Inl e \<Rightarrow> (w, Some (LaHome e))
      | Inr p \<Rightarrow>
          (case log_open flt (lw_fs w) p of
             Inl (e, fs') \<Rightarrow> (w\<lparr> lw_fs := fs' \<rparr>, Some (LaLog e))
           | Inr (l, fs1) \<Rightarrow>
               (case expand_home_path home log_aggregate_gateway_dir of
                  Inl e \<Rightarrow> (w\<lparr> lw_fs := fs1 \<rparr>, Some (LaHome e))
                | Inr g \<Rightarrow>
                    (case aggregate_run untar runner flt home seed cks order (a\<lparr> ag_gateway_dir := g \<rparr>) (w\<lparr> lw_fs := fs1 \<rparr>) of
                       (w', Inl e) \<Rightarrow>
                         (w'\<lparr> lw_fs := log_step flt l (lw_fs w')
                               (clk 0, \<lparr> le_ts = zero_time, le_node = [], le_phase = ''log-aggregate'', le_action = ''preflight'',
                                         le_result = ''error'', le_duration_ms = 0, le_stderr_tail = amsg e \<rparr>) \<rparr>, Some (LaRun e))
                     | (w', Inr (rs, all_ok)) \<Rightarrow>
                         (w'\<lparr> lw_fs := foldl (log_step flt l) (lw_fs w') (map (\<lambda>(i, r). (clk i, pull_event msg (ag_dry_run a) r)) (enumerate 0 rs)) \<rparr>,
                          if all_ok then None else Some LaFailed)))))"

section \<open>What a pull may touch\<close>

lemma base_plain: "\<not> base_refused b \<longleftrightarrow> plain_name b"
  by (auto simp: base_refused_def plain_name_def)

text \<open>One file of the stream: what it does to a path that is not its own.\<close>

lemma extract_frame:
  assumes "tidy_path dest" "\<not> child_of dest q"
  shows "extract_files flt wall dest fs fin cnt tot w = (w', r) \<Longrightarrow> map_of (lw_fs w') q = map_of (lw_fs w) q \<and> lw_mt w' q = lw_mt w q"
proof (induction fs arbitrary: cnt tot w)
  case (Cons f fs)
  define base where "base = base_path (tf_name f)"
  show ?case
  proof (cases "\<not> tar_regular f \<or> base_refused base")
    case True
    then show ?thesis using Cons by (simp add: base_def)
  next
    case False
    then have ne: "q \<noteq> join2 dest base" "\<not> base_refused base"
      using assms tidy_proper base_plain join2_child by (auto simp: child_of_def simp del: join_path.simps)
    show ?thesis
      using Cons.prems False ne
      by (auto simp: base_def [symmetric] Let_def os_write_def update_conv simp del: join_path.simps
          dest!: open_create_ok(2) [where q = q] Cons.IH split: sum.splits option.splits if_splits fnode.splits prod.splits)
  qed
qed simp

lemma prune_each_frame:
  assumes "tidy_path d" "\<not> child_of d q" "list_all (\<lambda>(n, _). plain_name n) es"
  shows "prune_each flt d cutoff es k w = (w', r) \<Longrightarrow> map_of (lw_fs w') q = map_of (lw_fs w) q"
  using assms(3)
proof (induction es arbitrary: k w)
  case (Cons e es)
  obtain n b where e: "e = (n, b)" by (cases e)
  then have "q \<noteq> join2 d n" using assms Cons.prems(2) tidy_proper join2_child by (auto simp: child_of_def simp del: join_path.simps)
  then have rm: "os_remove flt fs (join2 d n) = ok fs' \<Longrightarrow> map_of fs' q = map_of fs q" for fs fs'
    by (auto simp: os_remove_def delete_conv simp del: join_path.simps split: option.splits if_splits)
  show ?case
    using Cons.prems by (auto simp: e Let_def simp del: join_path.simps dest!: rm Cons.IH split: sum.splits if_splits)
qed simp

definition confined :: "path \<Rightarrow> fs \<Rightarrow> fs \<Rightarrow> bool" where
  "confined d fs fs' \<longleftrightarrow> (\<forall>q. child_of d q \<or> map_of fs' q = map_of fs q
      \<or> q \<in> set (ancestors d) \<and> map_of fs q = None \<and> map_of fs' q = Some (Dir mode_0755))"

lemma mkdir_confined:
  assumes "os_mkdir_all flt fs d mode_0755 = ok fs'"
  shows "confined d fs fs'"
  using assms by (auto simp: os_mkdir_all_fold confined_def mkdir_fold split: option.splits if_splits)

lemma confined_tidy: "confined d fs fs' \<Longrightarrow> tidy_path d \<Longrightarrow> tidy_fs fs \<Longrightarrow> tidy_fs fs'"
  unfolding tidy_fs_map confined_def by (metis ancestors_tidy child_of_def tidy_child)

lemma confined_step: "confined d fs fs1 \<Longrightarrow> (\<And>q. \<not> child_of d q \<Longrightarrow> map_of fs2 q = map_of fs1 q) \<Longrightarrow> confined d fs fs2"
  unfolding confined_def by metis

lemma extract_confined:
  assumes "tidy_path d" "confined d fs (lw_fs w)" "extract_tar_gz untar flt wall blob d w = (w', r)"
  shows "confined d fs (lw_fs w')"
proof (rule confined_step [OF assms(2)])
  fix q assume "\<not> child_of d q"
  then show "map_of (lw_fs w') q = map_of (lw_fs w) q"
    using assms(3) extract_frame [OF assms(1)] by (auto simp: extract_tar_gz_def split: if_splits sum.splits prod.splits)
qed

lemma prune_confined:
  assumes "tidy_path d" "tidy_fs fs" "confined d fs (lw_fs w)" "prune flt now keep d w = (w', r)"
  shows "confined d fs (lw_fs w')"
proof (rule confined_step [OF assms(3)])
  fix q assume q: "\<not> child_of d q"
  have "tidy_fs (lw_fs w)" using confined_tidy assms(1-3) by blast
  then have "list_all (\<lambda>(n, _). plain_name n) (dir_entries (lw_fs w) d)"
    using tidy_entry(1) [OF _ assms(1)] by (auto simp: list_all_iff)
  then show "map_of (lw_fs w') q = map_of (lw_fs w) q"
    using assms(4) prune_each_frame [OF assms(1) q]
    by (auto simp: prune_def os_read_dir_def Let_def split: if_splits sum.splits prod.splits option.splits fnode.splits)
qed

lemma pull_confined:
  assumes "tidy_path (dest_dir a t)" "tidy_fs (lw_fs w)" "pull_one untar runner flt ck a t w = (w', r)"
  shows "confined (dest_dir a t) (lw_fs w) (lw_fs w')"
proof (cases "ag_dry_run a")
  case True
  then show ?thesis using assms(3) by (simp add: pull_one_def confined_def)
next
  case False
  show ?thesis
  proof (cases "os_mkdir_all flt (lw_fs w) (dest_dir a t) mode_0755")
    case (Inl x)
    then show ?thesis using assms(3) False by (cases x) (auto simp: pull_one_def Let_def confined_def dest!: mkdir_all_err)
  next
    case (Inr fs1)
    let ?w1 = "w\<lparr> lw_fs := fs1 \<rparr>"
    have c1: "confined (dest_dir a t) (lw_fs w) (lw_fs ?w1)" using mkdir_confined [OF Inr] by simp
    show ?thesis
      using assms(3) False Inr c1 extract_confined [OF assms(1) c1] prune_confined [OF assms(1,2)]
      by (fastforce simp: pull_one_def Let_def split: prod.splits option.splits if_splits sum.splits)
  qed
qed

text \<open>Several landing directories; a new directory may appear anywhere above them.\<close>

definition lands_in :: "path list \<Rightarrow> fs \<Rightarrow> fs \<Rightarrow> bool" where
  "lands_in ds fs fs' \<longleftrightarrow> (\<forall>q. list_ex (\<lambda>d. child_of d q) ds \<or> map_of fs' q = map_of fs q
      \<or> map_of fs q = None \<and> map_of fs' q = Some (Dir mode_0755))"

lemma lands_trans: "lands_in ds fs fs1 \<Longrightarrow> lands_in ds fs1 fs2 \<Longrightarrow> lands_in ds fs fs2"
  unfolding lands_in_def by (metis option.distinct(1))

lemma confined_lands: "confined d fs fs' \<Longrightarrow> d \<in> set ds \<Longrightarrow> lands_in ds fs fs'"
  unfolding confined_def lands_in_def list_ex_iff by blast

lemma dest_dir_tidy: "tidy_path (ag_gateway_dir a) \<Longrightarrow> plain_name (host_of t) \<Longrightarrow> tidy_path (dest_dir a t)"
  unfolding dest_dir_def using join2_child tidy_child tidy_proper by presburger

lemma pull_all_lands:
  assumes "tidy_path (ag_gateway_dir a)" "list_all (\<lambda>t. plain_name (host_of t)) ts"
  shows "pull_all untar runner flt cks a ts js rs w = (w', rs') \<Longrightarrow> tidy_fs (lw_fs w) \<Longrightarrow> list_all (\<lambda>i. i < length ts) js
    \<Longrightarrow> lands_in (map (dest_dir a) ts) (lw_fs w) (lw_fs w')"
proof (induction js arbitrary: rs w)
  case Nil
  then show ?case by (simp add: lands_in_def)
next
  case (Cons i js)
  obtain w1 r where p: "pull_one untar runner flt (cks i) a (ts ! i) w = (w1, r)" by (metis surj_pair)
  have t: "ts ! i \<in> set ts" "plain_name (host_of (ts ! i))" using Cons.prems(3) assms(2) by (auto simp: list_all_iff)
  have d: "tidy_path (dest_dir a (ts ! i))" using dest_dir_tidy [OF assms(1) t(2)] .
  note c = pull_confined [OF d Cons.prems(2) p]
  have "lands_in (map (dest_dir a) ts) (lw_fs w1) (lw_fs w')"
    using Cons.IH Cons.prems p confined_tidy [OF c d Cons.prems(2)] by simp
  then show ?case using lands_trans confined_lands [OF c] t(1) by (metis image_eqI set_map)
qed

text \<open>C13. Aggregation stays in its directories: whatever the workers send, under whatever names, a
  path that differs after a run lies directly in the landing directory of one of the targets, or is
  a directory that was made.\<close>

theorem aggregate_confined:
  assumes "tidy_fs (lw_fs w)" "tidy_path (ag_gateway_dir a)" "resolve_targets home flt seed a (lw_fs w) = ok ts"
    and "list_all (\<lambda>t. plain_name (host_of t)) ts" "list_all (\<lambda>i. i < length ts) order"
    and "aggregate_run untar runner flt home seed cks order a w = (w', r)"
    and "map_of (lw_fs w') q \<noteq> map_of (lw_fs w) q"
  shows "list_ex (\<lambda>t. child_of (dest_dir a t) q) ts \<or> map_of (lw_fs w) q = None \<and> map_of (lw_fs w') q = Some (Dir mode_0755)"
proof -
  have "lands_in (map (dest_dir a) ts) (lw_fs w) (lw_fs w')"
  proof (cases "ag_dry_run a")
    case True
    obtain w1 rs where "pull_all untar runner flt cks a ts order (replicate (length ts) zero_pull) (w\<lparr> lw_fs := lw_fs w \<rparr>) = (w1, rs)" by (metis surj_pair)
    moreover from this have "lands_in (map (dest_dir a) ts) (lw_fs w) (lw_fs w1)"
      using pull_all_lands [OF assms(2,4)] assms(1,5) by fastforce
    ultimately show ?thesis
      using assms(3,6) True by (auto simp: aggregate_run_def lands_in_def simp del: pull_all.simps split: if_splits)
  next
    case False
    show ?thesis
    proof (cases "os_mkdir_all flt (lw_fs w) (ag_gateway_dir a) mode_0755")
      case (Inl x)
      then show ?thesis using assms(3,6) False
        by (cases x) (auto simp: aggregate_run_def lands_in_def dest!: mkdir_all_err split: if_splits)
    next
      case (Inr fs1)
      have l: "lands_in (map (dest_dir a) ts) (lw_fs w) fs1" if "tidy_fs fs1"
        using Inr by (auto simp: os_mkdir_all_fold lands_in_def mkdir_fold split: option.splits if_splits)
      have t: "tidy_fs fs1" using confined_tidy [OF mkdir_confined [OF Inr] assms(2,1)] .
      obtain w1 rs where p: "pull_all untar runner flt cks a ts order (replicate (length ts) zero_pull) (w\<lparr> lw_fs := fs1 \<rparr>) = (w1, rs)" by (metis surj_pair)
      then have "lands_in (map (dest_dir a) ts) (lw_fs w) (lw_fs w1)"
        using lands_trans [OF l [OF t]] pull_all_lands [OF assms(2,4) p] t assms(5) by simp
      then show ?thesis
        using assms(3,6) False Inr p by (auto simp: aggregate_run_def lands_in_def simp del: pull_all.simps split: if_splits)
    qed
  qed
  then show ?thesis using assms(7) by (auto simp: lands_in_def list_ex_iff)
qed

section \<open>What the retention removes\<close>

lemma prune_each_exact:
  assumes "distinct (map fst es)" "proper_dir d" "list_all (\<lambda>(n, b). plain_name n \<and> b = is_dir (lw_fs w) (join2 d n) \<and> map_of (lw_fs w) (join2 d n) \<noteq> None) es"
    and "no_file_parent (lw_fs w)" "prune_each no_faults d cutoff es k w = (w', k')"
  shows "map_of (lw_fs w') q = (if list_ex (\<lambda>(n, b). \<not> b \<and> q = join2 d n \<and> time_before (lw_mt w q) cutoff) es then None else map_of (lw_fs w) q)
    \<and> k' = k + int (length (filter (\<lambda>(n, b). \<not> b \<and> time_before (lw_mt w (join2 d n)) cutoff) es))"
  using assms
proof (induction es arbitrary: k w)
  case (Cons e es)
  obtain n b where e: "e = (n, b)" by (cases e)
  let ?p = "join2 d n"
  have n: "plain_name n" "b = is_dir (lw_fs w) ?p" "map_of (lw_fs w) ?p \<noteq> None" using Cons.prems(3) e by (simp_all del: join_path.simps)
  have other: "join2 d m \<noteq> ?p" if "(m, c) \<in> set es" for m c
  proof -
    have "plain_name m" "m \<noteq> n" using that Cons.prems(1,3) e by (auto simp: list_all_iff image_iff)
    then show ?thesis using n(1) Cons.prems(2) join2_child by simp
  qed
  show ?case
  proof (cases "b \<or> \<not> time_before (lw_mt w ?p) cutoff")
    case True
    then have "prune_each no_faults d cutoff es k w = (w', k')" using Cons.prems(5) e by (auto simp: Let_def simp del: join_path.simps)
    from Cons.IH [OF _ Cons.prems(2) _ Cons.prems(4) this] Cons.prems(1,3) show ?thesis
      using True by (auto simp: e simp del: join_path.simps)
  next
    case False
    have f: "is_file (lw_fs w) ?p" using n(2) False file_or_dir [OF n(3)] by blast
    define w1 where "w1 = w\<lparr> lw_fs := AList.delete ?p (lw_fs w) \<rparr>"
    have d: "prune_each no_faults d cutoff es (k + 1) w1 = (w', k')"
      using Cons.prems(5) False remove_file [OF Cons.prems(4) f] e by (simp add: Let_def w1_def del: join_path.simps)
    have "list_all (\<lambda>(m, c). plain_name m \<and> c = is_dir (lw_fs w1) (join2 d m) \<and> map_of (lw_fs w1) (join2 d m) \<noteq> None) es"
      using Cons.prems(3) other by (fastforce simp: e w1_def list_all_iff is_dir_def delete_conv' simp del: join_path.simps)
    then have "map_of (lw_fs w') q = (if list_ex (\<lambda>(n, b). \<not> b \<and> q = join2 d n \<and> time_before (lw_mt w1 q) cutoff) es then None else map_of (lw_fs w1) q)
        \<and> k' = k + 1 + int (length (filter (\<lambda>(n, b). \<not> b \<and> time_before (lw_mt w1 (join2 d n)) cutoff) es))"
      using Cons.IH [OF _ Cons.prems(2) _ _ d] Cons.prems(1) remove_file [OF Cons.prems(4) f] e by (simp add: w1_def del: join_path.simps)
    then show ?thesis
      using False by (auto simp: e w1_def delete_conv' simp del: join_path.simps)
  qed
qed simp

text \<open>What retention means: every plain file of the directory that was last modified before the cutoff
  is removed and counted, everything else is kept.\<close>

lemma prune_exact:
  assumes "tidy_fs (lw_fs w)" "tidy_path d" "is_dir (lw_fs w) d" "no_file_parent (lw_fs w)"
    and "prune no_faults now keep d w = (w', r)" "0 \<le> keep"
  defines "cutoff \<equiv> retention_cutoff (if keep = 0 then default_keep_days else keep) now"
  shows "map_of (lw_fs w') q = (if child_of d q \<and> is_file (lw_fs w) q \<and> time_before (lw_mt w q) cutoff then None else map_of (lw_fs w) q)"
proof -
  let ?es = "dir_entries (lw_fs w) d"
  have pd: "proper_dir d" using assms(2) by (rule tidy_proper)
  note te = tidy_entry [OF assms(1,2)]
  have rd: "os_read_dir no_faults (lw_fs w) d = ok ?es"
    using assms(3) by (auto simp: os_read_dir_def is_dir_def split: option.splits fnode.splits)
  obtain k' where pe: "prune_each no_faults d cutoff ?es 0 w = (w', k')"
    using assms(5,6) rd by (auto simp: prune_def cutoff_def Let_def default_keep_days_def split: prod.splits if_splits)
  have "list_all (\<lambda>(n, b). plain_name n \<and> b = is_dir (lw_fs w) (join2 d n) \<and> map_of (lw_fs w) (join2 d n) \<noteq> None) ?es"
    unfolding list_all_iff
  proof
    fix e assume "e \<in> set ?es"
    then obtain n b where e: "e = (n, b)" "(n, b) \<in> set ?es" by (metis surj_pair)
    show "case e of (n, b) \<Rightarrow> plain_name n \<and> b = is_dir (lw_fs w) (join2 d n) \<and> map_of (lw_fs w) (join2 d n) \<noteq> None"
      using te [OF e(2)] unfolding e(1) prod.case join2_child [OF pd te(1) [OF e(2)]] by blast
  qed
  note m = prune_each_exact [OF dir_entries_distinct pd this assms(4) pe, of q]
  have "list_ex (\<lambda>(n, b). \<not> b \<and> q = join2 d n \<and> time_before (lw_mt w q) cutoff) ?es
      \<longleftrightarrow> child_of d q \<and> is_file (lw_fs w) q \<and> time_before (lw_mt w q) cutoff"
  proof
    assume "list_ex (\<lambda>(n, b). \<not> b \<and> q = join2 d n \<and> time_before (lw_mt w q) cutoff) ?es"
    then obtain n where n: "(n, False) \<in> set ?es" "q = join2 d n" "time_before (lw_mt w q) cutoff" by (auto simp: list_ex_iff simp del: join_path.simps)
    then show "child_of d q \<and> is_file (lw_fs w) q \<and> time_before (lw_mt w q) cutoff"
      using te [OF n(1)] file_or_dir [OF te(2) [OF n(1)]] join2_child [OF pd te(1) [OF n(1)]] unfolding child_of_def by metis
  next
    assume a: "child_of d q \<and> is_file (lw_fs w) q \<and> time_before (lw_mt w q) cutoff"
    then obtain n where "plain_name n" "q = d @ SLASH # n" by (auto simp: child_of_def)
    then have "(n, False) \<in> set ?es" "q = join2 d n" using a dir_entries_complete [OF _ pd] join2_child [OF pd] by metis+
    then show "list_ex (\<lambda>(n, b). \<not> b \<and> q = join2 d n \<and> time_before (lw_mt w q) cutoff) ?es"
      using a unfolding list_ex_iff by blast
  qed
  then show ?thesis using m by simp
qed

text \<open>C27.  The retention is exact: without faults, for a window of 1 to 106751 days, a plain file of the landing
  directory is removed when it was last modified before the window, and everything else in the file
  system is kept.\<close>

theorem retention_exact:
  assumes "tidy_fs (lw_fs w)" "tidy_path d" "is_dir (lw_fs w) d" "no_file_parent (lw_fs w)"
    and "prune no_faults now keep d w = (w', r)" "0 < keep" "keep \<le> 106751"
  shows "map_of (lw_fs w') q =
    (if child_of d q \<and> is_file (lw_fs w) q \<and> t_ns (lw_mt w q) < t_ns now - keep * day_ns then None else map_of (lw_fs w) q)"
proof -
  have "wrap64 (- keep * day_ns) = - keep * day_ns" by (rule wrap64_id) (use assms(6,7) in \<open>simp add: in_int64_def min_int64_def max_int64_def day_ns_def\<close>)
  then have "time_before (lw_mt w q) (retention_cutoff keep now) \<longleftrightarrow> t_ns (lw_mt w q) < t_ns now - keep * day_ns"
    by (simp add: retention_cutoff_def time_add_def time_before_def)
  then show ?thesis using prune_exact [OF assms(1-5), of q] assms(6) by simp
qed

text \<open>One day more and the 64-bit product wraps: every file that is not from the future is removed.\<close>

theorem retention_overflow:
  assumes "tidy_fs (lw_fs w)" "tidy_path d" "is_dir (lw_fs w) d" "no_file_parent (lw_fs w)"
    and "prune no_faults now 106752 d w = (w', r)" "child_of d q" "is_file (lw_fs w) q" "t_ns (lw_mt w q) \<le> t_ns now"
  shows "map_of (lw_fs w') q = None"
proof -
  have "wrap64 (- 106752 * day_ns) = 9223371273709551616" by (simp add: wrap64_def day_ns_def)
  then have "time_before (lw_mt w q) (retention_cutoff 106752 now)"
    using assms(8) by (simp add: retention_cutoff_def time_add_def time_before_def)
  then show ?thesis using prune_exact [OF assms(1-5), of q] assms(6,7) by simp
qed

section \<open>A run\<close>

definition demo_aggregator :: aggregator where
  "demo_aggregator = \<lparr> ag_gateway_dir = ''/g'', ag_nodes_file = [], ag_single_node = ''u@h'', ag_keep_days = 2, ag_rotate = False, ag_dry_run = False \<rparr>"

definition demo_world :: la_world where
  "demo_world = \<lparr> lw_fs = [(''/g'', Dir mode_0755), (''/g/h'', Dir mode_0755), (''/g/h/old'', File ''x'' mode_0644), (''/g/h/new'', File ''y'' mode_0644)],
     lw_mt = (\<lambda>q. time_utc (if q = ''/g/h/old'' then 0 else 3 * day_ns)) \<rparr>"

definition demo_untar :: untar where
  "demo_untar b = ok ([\<lparr> tf_name = ''../../evil'', tf_type = CHR ''0'', tf_mtime = time_utc (3 * day_ns), tf_data = b, tf_err = None \<rparr>,
     \<lparr> tf_name = ''..'', tf_type = CHR ''0'', tf_mtime = time_utc 0, tf_data = b, tf_err = None \<rparr>], None)"

definition demo_clocks :: "nat \<Rightarrow> pull_clock" where
  "demo_clocks i = \<lparr> pc_start = time_utc (3 * day_ns), pc_end = time_utc (3 * day_ns), pc_prune = time_utc (3 * day_ns), pc_wall = time_utc (3 * day_ns) \<rparr>"

definition demo_aggregated :: la_world where
  "demo_aggregated = fst (aggregate_run demo_untar (\<lambda>t c. (''z'', [], 0, None)) no_faults (err ''none'') 0 demo_clocks [0] demo_aggregator demo_world)"

lemma demo_world_tidy: "tidy_fs (lw_fs demo_world)" "tidy_path ''/g''" "tidy_path ''/g/h''"
  using tidy_paths [of "[''g'']" "''/g''"] tidy_paths [of "[''g'', ''h'']" "''/g/h''"] tidy_paths [of "[''g'', ''h'', ''old'']" "''/g/h/old''"]
    tidy_paths [of "[''g'', ''h'', ''new'']" "''/g/h/new''"]
  by (simp_all add: tidy_fs_def demo_world_def plain_segs_def plain_name_def)

theorem aggregate_confined_witness:
  "map_of (lw_fs demo_aggregated) ''/g/h/evil'' \<noteq> None \<and> child_of (dest_dir demo_aggregator ''u@h'') ''/g/h/evil''"
proof -
  have d: "map_of (lw_fs demo_aggregated) ''/g/h/evil'' = Some (File ''z'' mode_0644)" unfolding demo_aggregated_def by code_simp
  have h: "plain_name (host_of ''u@h'')" "resolve_targets (err ''none'') no_faults 0 demo_aggregator (lw_fs demo_world) = ok [''u@h'']" by code_simp+
  have g: "ag_gateway_dir demo_aggregator = ''/g''" by (simp add: demo_aggregator_def)
  obtain r where r: "aggregate_run demo_untar (\<lambda>t c. (''z'', [], 0, None)) no_faults (err ''none'') 0 demo_clocks [0] demo_aggregator demo_world = (demo_aggregated, r)"
    unfolding demo_aggregated_def by (metis prod.collapse)
  show ?thesis
    using aggregate_confined [OF demo_world_tidy(1) _ h(2) _ _ r, of "''/g/h/evil''"] demo_world_tidy(2) h(1) g d
    by (simp add: demo_world_def)
qed

theorem retention_exact_witness:
  "map_of (lw_fs (fst (prune no_faults (time_utc (3 * day_ns)) 2 ''/g/h'' demo_world))) ''/g/h/old'' = None
   \<and> map_of (lw_fs (fst (prune no_faults (time_utc (3 * day_ns)) 2 ''/g/h'' demo_world))) ''/g/h/new'' \<noteq> None"
proof -
  have n: "no_file_parent (lw_fs demo_world)" "is_dir (lw_fs demo_world) ''/g/h''" by code_simp+
  have c: "child_of ''/g/h'' ''/g/h/old''" "child_of ''/g/h'' ''/g/h/new''"
    by (auto simp: child_of_def plain_name_def intro: exI [of _ "''old''"] exI [of _ "''new''"])
  note e = retention_exact [where now = "time_utc (3 * day_ns)" and keep = 2, OF demo_world_tidy(1,3) n(2,1) prod.collapse [symmetric]]
  show ?thesis using e [of "''/g/h/old''"] e [of "''/g/h/new''"] c
    by (simp add: demo_world_def is_file_def time_utc_def day_ns_def)
qed

end
