(* ===== verification/Secrets.thy ===== *)
theory Secrets
  imports Go_FS
begin

text \<open>
  Secrets for subprocesses, \<open>internal/secrets/secrets.go\<close>, and the command \<open>run-with-secrets\<close>
  (\<open>cmd/fleetctl/commands/run_with_secrets.go\<close>).  The operating system's part, running a program
  with arguments, environment and standard input, is an argument.  A Go map of secrets is the
  list of its entries in the order the runtime iterates over it; the theorems hold for every order.  A
  reader is the list of what its calls of \<open>Read\<close> return.
\<close>

abbreviation NUL :: char where "NUL \<equiv> CHR 0x00"
abbreviation EQ_SIGN :: char where "EQ_SIGN \<equiv> CHR ''=''"

type_synonym env_map = "(string \<times> string) list"

section \<open>Running a program\<close>

record run_config =
  rc_cmd :: "string list"
  rc_secrets :: env_map
  rc_env :: "string list"
  rc_stdin :: "bytes option"
  rc_stdout :: bool
  rc_stderr :: bool
  rc_dir :: path

record sec_result =
  sx_exit_code :: int
  sx_stdout :: bytes
  sx_stderr :: bytes

datatype exec_end = ExecOk | ExecExit int | ExecFail string

text \<open>\<open>ex_run cmd env stdin dir\<close> is what the program writes and how it ends.\<close>

record exec_env =
  ex_environ :: "string list"
  ex_run :: "string list \<Rightarrow> string list \<Rightarrow> bytes \<Rightarrow> path \<Rightarrow> bytes \<times> bytes \<times> exec_end"

datatype sec_err = SecEmpty | SecRun string string

definition secrets_preamble :: "env_map \<Rightarrow> bytes" where
  "secrets_preamble kvs = concat (map (\<lambda>(k, v). k @ EQ_SIGN # v @ [NL]) kvs) @ [NUL]"

definition exec_result :: "string \<Rightarrow> exec_end \<Rightarrow> bytes \<Rightarrow> bytes \<Rightarrow> (sec_err, sec_result) result" where
  "exec_result name fin out er =
     (case fin of
        ExecOk \<Rightarrow> ok \<lparr> sx_exit_code = 0, sx_stdout = out, sx_stderr = er \<rparr>
      | ExecExit n \<Rightarrow> ok \<lparr> sx_exit_code = n, sx_stdout = out, sx_stderr = er \<rparr>
      | ExecFail e \<Rightarrow> err (SecRun name e))"

text \<open>\<open>Run\<close>; the second component is what went to the writers of the caller.\<close>

definition secrets_run :: "exec_env \<Rightarrow> run_config \<Rightarrow> (sec_err, sec_result) result \<times> (bytes \<times> bytes)" where
  "secrets_run x cfg =
     (case rc_cmd cfg of
        [] \<Rightarrow> (err SecEmpty, [], [])
      | name # _ \<Rightarrow>
          (let stdin = secrets_preamble (rc_secrets cfg) @ (case rc_stdin cfg of None \<Rightarrow> [] | Some s \<Rightarrow> s) in
           case ex_run x (rc_cmd cfg) (ex_environ x @ rc_env cfg) stdin (rc_dir cfg) of
             (out, er, fin) \<Rightarrow>
               (exec_result name fin (if rc_stdout cfg then [] else out) (if rc_stderr cfg then [] else er),
                (if rc_stdout cfg then out else []), (if rc_stderr cfg then er else []))))"

definition secrets_run_with_env ::
  "exec_env \<Rightarrow> string list \<Rightarrow> env_map \<Rightarrow> string list \<Rightarrow> (sec_err, sec_result) result" where
  "secrets_run_with_env x cmd secrets extra =
     (case cmd of
        [] \<Rightarrow> err SecEmpty
      | name # _ \<Rightarrow>
          (case ex_run x cmd (ex_environ x @ map (\<lambda>(k, v). k @ EQ_SIGN # v) secrets @ extra) [] [] of
             (out, er, fin) \<Rightarrow> exec_result name fin out er))"

section \<open>Reading the secrets back\<close>

datatype rd_err = RdEOF | RdErr string

type_synonym reader = "(bytes \<times> rd_err option) list"

definition env_line :: "env_map \<Rightarrow> string \<Rightarrow> env_map" where
  "env_line m raw =
     (let line = trim_space raw in
      if line = [] then m
      else (case index_byte line EQ_SIGN of
              Some (Suc i) \<Rightarrow> AList.update (take (Suc i) line) (drop (Suc (Suc i)) line) m
            | _ \<Rightarrow> m))"

definition parse_env_lines :: "string \<Rightarrow> env_map" where
  "parse_env_lines s = foldl env_line [] (split_on NL s)"

text \<open>The map, or an error of the reader, and what is left of the reader.\<close>

fun parse_env_stream :: "bytes \<Rightarrow> reader \<Rightarrow> (string, env_map) result \<times> reader" where
  "parse_env_stream buf [] = (ok (parse_env_lines buf), [])"
| "parse_env_stream buf ((b, e) # r) =
     (case index_byte b NUL of
        Some i \<Rightarrow> (ok (parse_env_lines (buf @ take i b)), r)
      | None \<Rightarrow>
          (case e of
             Some RdEOF \<Rightarrow> (ok (parse_env_lines (buf @ b)), r)
           | Some (RdErr m) \<Rightarrow> (err m, r)
           | None \<Rightarrow> parse_env_stream (buf @ b) r))"

section \<open>The command\<close>

datatype rws_err = RwsNoCommand | RwsBadSecret string | RwsEnvFile ioerr | RwsRun sec_err | RwsExit int

fun secret_flags :: "string list \<Rightarrow> env_map \<Rightarrow> (rws_err, env_map) result" where
  "secret_flags [] m = ok m"
| "secret_flags (kv # kvs) m =
     (case index_byte kv EQ_SIGN of
        Some (Suc i) \<Rightarrow> secret_flags kvs (AList.update (take (Suc i) kv) (drop (Suc (Suc i)) kv) m)
      | _ \<Rightarrow> err (RwsBadSecret kv))"

definition env_file_line :: "env_map \<Rightarrow> string \<Rightarrow> env_map" where
  "env_file_line m raw =
     (let line = trim_space raw in
      if line = [] \<or> has_prefix line ''#'' then m
      else (case index_byte line EQ_SIGN of
              Some (Suc i) \<Rightarrow>
                if map_of m (take (Suc i) line) = None then AList.update (take (Suc i) line) (drop (Suc (Suc i)) line) m else m
            | _ \<Rightarrow> m))"

definition load_secrets :: "faults \<Rightarrow> fs \<Rightarrow> string list \<Rightarrow> path \<Rightarrow> (rws_err, env_map) result" where
  "load_secrets flt fs flags env_file =
     (case secret_flags flags [] of
        Inl e \<Rightarrow> err e
      | Inr m \<Rightarrow>
          if env_file = [] then ok m
          else (case os_read_file flt fs env_file of
                  Inl e \<Rightarrow> err (RwsEnvFile e)
                | Inr data \<Rightarrow> ok (foldl env_file_line m (split_on NL data))))"

text \<open>\<open>iter\<close> is the order of iteration over the map.\<close>

definition run_with_secrets ::
  "exec_env \<Rightarrow> (env_map \<Rightarrow> env_map) \<Rightarrow> faults \<Rightarrow> fs \<Rightarrow> string list \<Rightarrow> path \<Rightarrow> bool \<Rightarrow> string list \<Rightarrow> rws_err option \<times> (bytes \<times> bytes)" where
  "run_with_secrets x iter flt fs flags env_file use_env args =
     (if args = [] then (Some RwsNoCommand, [], [])
      else (case load_secrets flt fs flags env_file of
              Inl e \<Rightarrow> (Some e, [], [])
            | Inr sec \<Rightarrow>
                (case (if use_env then
                         (case secrets_run_with_env x args (iter sec) [] of
                            Inl e \<Rightarrow> (err e, [], [])
                          | Inr r \<Rightarrow> (ok r, sx_stdout r, sx_stderr r))
                       else secrets_run x \<lparr> rc_cmd = args, rc_secrets = iter sec, rc_env = [], rc_stdin = None, rc_stdout = True, rc_stderr = True, rc_dir = [] \<rparr>) of
                   (Inl e, out) \<Rightarrow> (Some (RwsRun e), out)
                 | (Inr r, out) \<Rightarrow> (if sx_exit_code r \<noteq> 0 then Some (RwsExit (sx_exit_code r)) else None, out))))"

section \<open>Secrets survive the stream\<close>

text \<open>A name and a value that a line can carry.\<close>

definition secret_ok :: "string \<times> string \<Rightarrow> bool" where
  "secret_ok kv \<longleftrightarrow> (case kv of (k, v) \<Rightarrow>
     k \<noteq> [] \<and> EQ_SIGN \<notin> set k \<and> set (k @ v) \<inter> {NL, NUL} = {} \<and> trim_space (k @ EQ_SIGN # v) = k @ EQ_SIGN # v)"

lemma env_line_secret: "secret_ok (k, v) \<Longrightarrow> env_line m (k @ EQ_SIGN # v) = AList.update k v m"
proof -
  assume a: "secret_ok (k, v)"
  then obtain n where n: "length k = Suc n" by (cases k) (auto simp: secret_ok_def)
  have "index_byte (k @ EQ_SIGN # v) EQ_SIGN = Some (Suc n)" using a index_byte_append [of EQ_SIGN k v] n by (simp add: secret_ok_def)
  then show ?thesis using a n by (simp add: env_line_def secret_ok_def Let_def)
qed

lemma preamble_lines:
  "list_all secret_ok kvs \<Longrightarrow> split_on NL (concat (map (\<lambda>(k, v). k @ EQ_SIGN # v @ [NL]) kvs)) = map (\<lambda>(k, v). k @ EQ_SIGN # v) kvs @ [[]]"
proof (induction kvs)
  case (Cons kv kvs)
  obtain k v where kv: "kv = (k, v)" by (cases kv)
  then have "NL \<notin> set (k @ EQ_SIGN # v)" using Cons.prems by (auto simp: secret_ok_def)
  then show ?case using Cons kv split_on_append [of NL "k @ EQ_SIGN # v"] by simp
qed simp

lemma fold_secrets: "list_all secret_ok kvs \<Longrightarrow> foldl env_line m (map (\<lambda>(k, v). k @ EQ_SIGN # v) kvs) = foldl (\<lambda>m (k, v). AList.update k v m) m kvs"
  by (induction kvs arbitrary: m) (auto simp: env_line_secret)

lemma map_of_updates: "distinct (map fst kvs) \<Longrightarrow> map_of (foldl (\<lambda>m (k, v). AList.update k v m) m kvs) = map_of m ++ map_of kvs"
proof (induction kvs arbitrary: m)
  case (Cons kv kvs)
  obtain k v where kv: "kv = (k, v)" by (cases kv)
  have "map_of kvs k = None" using Cons.prems kv by (simp add: map_of_eq_None_iff)
  then show ?case using Cons kv by (auto simp: update_conv' map_add_def fun_eq_iff split: option.splits)
qed simp

lemma parse_preamble:
  assumes "list_all secret_ok kvs" "distinct (map fst kvs)"
  shows "map_of (parse_env_lines (concat (map (\<lambda>(k, v). k @ EQ_SIGN # v @ [NL]) kvs))) = map_of kvs"
proof -
  have "env_line m [] = m" for m by (simp add: env_line_def)
  then show ?thesis
    using preamble_lines [OF assms(1)] fold_secrets [OF assms(1), of "[]"] map_of_updates [OF assms(2), of "[]"] by (simp add: parse_env_lines_def)
qed

lemma first_byte_eq: "u @ x # p = v @ x # q \<Longrightarrow> x \<notin> set u \<Longrightarrow> x \<notin> set v \<Longrightarrow> u = v \<and> p = q"
  by (auto simp: append_eq_append_conv2 Cons_eq_append_conv append_eq_Cons_conv)

lemma stream_at_nul:
  assumes "NUL \<notin> set a" "buf @ concat (map fst r) = a @ NUL # rest" "NUL \<notin> set buf" "list_all (\<lambda>(_, e). e = None) r"
  shows "\<exists>lost r'. parse_env_stream buf r = (ok (parse_env_lines a), r') \<and> rest = lost @ concat (map fst r')"
  using assms(2-)
proof (induction r arbitrary: buf)
  case Nil
  then have "NUL \<in> set buf" by simp
  then show ?case using Nil by simp
next
  case (Cons be r)
  obtain b where be: "be = (b, None)" using Cons.prems(3) by (cases be) auto
  show ?case
  proof (cases "index_byte b NUL")
    case None
    then have eq: "parse_env_stream buf (be # r) = parse_env_stream (buf @ b) r" by (simp only: be parse_env_stream.simps option.case)
    have "NUL \<notin> set b" using None index_byte_None by simp
    then show ?thesis unfolding eq using Cons.IH [of "buf @ b"] Cons.prems be by simp
  next
    case (Some i)
    from index_byte_Some [OF this] obtain c d where b: "b = c @ NUL # d" "NUL \<notin> set c" "i = length c"
      by (metis id_take_nth_drop length_take min.absorb4)
    then have "(buf @ c) @ NUL # d @ concat (map fst r) = a @ NUL # rest" using Cons.prems(1) be by simp
    moreover have "NUL \<notin> set (buf @ c)" using Cons.prems(2) b(2) by simp
    ultimately have "buf @ c = a \<and> d @ concat (map fst r) = rest" using assms(1) by (metis first_byte_eq)
    then show ?thesis using Some be b by auto
  qed
qed

text \<open>C14. Secrets survive the stream.  For names and values that fit a line (no newline or NUL, no \<open>=\<close> in a name, and no white
  space at the ends of \<open>name=value\<close>, which \<open>TrimSpace\<close> would cut), in whatever order the map was iterated and however the bytes of the
  pipe arrive, \<open>ParseEnvStream\<close> gives back exactly the secrets that \<open>Run\<close> wrote, and what it leaves unread is an end of the
  input of the child.\<close>

theorem secrets_round_trip:
  assumes "list_all secret_ok kvs" "distinct (map fst kvs)"
    and "concat (map fst r) = secrets_preamble kvs @ stdin" "list_all (\<lambda>(_, e). e = None) r"
  shows "\<exists>m r' lost. parse_env_stream [] r = (ok m, r') \<and> map_of m = map_of kvs \<and> stdin = lost @ concat (map fst r')"
proof -
  let ?a = "concat (map (\<lambda>(k, v). k @ EQ_SIGN # v @ [NL]) kvs)"
  have n: "NUL \<notin> set ?a" using assms(1) by (auto simp: list_all_iff secret_ok_def)
  have "[] @ concat (map fst r) = ?a @ NUL # stdin" using assms(3) by (simp add: secrets_preamble_def)
  from stream_at_nul [OF n this _ assms(4)] show ?thesis using parse_preamble [OF assms(1,2)] by fastforce
qed

text \<open>What is lost is not nothing: when secrets and input arrive in one read, all of the input is gone.\<close>

theorem child_input_lost:
  assumes "list_all secret_ok kvs"
  shows "snd (parse_env_stream [] [(secrets_preamble kvs @ stdin, None)]) = []"
proof -
  have "NUL \<in> set (secrets_preamble kvs @ stdin)" by (simp add: secrets_preamble_def)
  then show ?thesis by (auto split: option.splits simp del: index_byte.simps)
qed

text \<open>A value of several lines, such as a key in PEM form, does not survive.\<close>

theorem multi_line_secret_cut:
  "parse_env_stream [] [(secrets_preamble [(''K'', ''a'' @ [NL] @ ''b=c'')], None)] = (ok [(''K'', ''a''), (''b'', ''c'')], [])"
  by code_simp

theorem secrets_round_trip_witness:
  "\<exists>m r' lost. parse_env_stream [] [(''TOK'', None), (''EN=a=b'' @ [NL, NUL] @ ''in'', None), (''put'', None)] = (ok m, r')
     \<and> map_of m = map_of [(''TOKEN'', ''a=b'')] \<and> ''input'' = lost @ concat (map fst r')"
proof -
  have "trim_space ''TOKEN=a=b'' = ''TOKEN=a=b''" by code_simp
  then show ?thesis
    by (intro secrets_round_trip) (simp_all add: secret_ok_def secrets_preamble_def)
qed

section \<open>Precedence\<close>

lemma env_file_keeps: "map_of m k = Some v \<Longrightarrow> map_of (foldl env_file_line m ls) k = Some v"
proof (induction ls arbitrary: m)
  case (Cons l ls)
  have "map_of (env_file_line m l) k = Some v"
    using Cons.prems by (auto simp: env_file_line_def Let_def update_conv' split: option.splits nat.splits)
  then show ?case using Cons.IH by simp
qed simp

text \<open>A secret given as a flag wins over the same name in the file.\<close>

theorem flags_override_file:
  assumes "secret_flags flags [] = ok m" "map_of m k = Some v" "load_secrets flt fs flags env_file = ok m'"
  shows "map_of m' k = Some v"
  using assms env_file_keeps [of m k v] by (auto simp: load_secrets_def split: if_splits sum.splits)

end
