(* ===== verification/Launchd.thy ===== *)
theory Launchd
  imports Fleet_Log Go_Duration Go_Quote
begin

text \<open>
  The launchd manager, \<open>internal/launchd/launchd.go\<close>, and \<open>fleetctl setup-agent\<close>
  (\<open>cmd/fleetctl/commands/setup_agent.go\<close>).  What \<open>launchctl\<close> does is the argument \<open>rn\<close>, a
  function of the arguments and of the state of the service manager, of any type; template files are
  looked up in \<open>src\<close>.  Templates made of text and field references are rendered here; for a
  template with any other action the argument \<open>other\<close> is the answer of \<open>text/template\<close>.
\<close>

section \<open>Data\<close>

record ld_vars =
  lv_label :: string
  lv_uid :: int
  lv_home_dir :: path
  lv_repo_dir :: path
  lv_script_path :: path
  lv_user_name :: string
  lv_node_label :: string
  lv_restic_repository :: string
  lv_restic_password_command :: string
  lv_alert_url :: string

record ld_status =
  st_label :: string
  st_loaded :: bool
  st_pid :: string
  st_last_exit :: string
  st_state :: string

record ld_manager =
  lm_logger :: "logger option"
  lm_node :: string
  lm_uid :: int

text \<open>The error of a command: its exit code when it is an \<open>exec.ExitError\<close>, and its text.\<close>

record cmd_err =
  ce_exit :: "int option"
  ce_text :: string

type_synonym 'l cmd_runner = "string list \<Rightarrow> 'l \<Rightarrow> 'l \<times> bytes \<times> cmd_err option"

datatype ld_err =
    LdEmptyPath | LdEmptyBody | LdMkdir path ioerr | LdWrite path ioerr | LdBootstrap string path cmd_err string
  | LdEmptyLabel | LdRemove path ioerr | LdUnloaded | LdPrint string cmd_err string

datatype tmpl_err = TpEmptyName | TpNotFound string | TpRead path ioerr | TpEngine string string

definition all_templates :: "string list" where
  "all_templates =
     [''heartbeat'', ''backup'', ''backup-worker'', ''watchdog'', ''logrotate'', ''logaggregate'', ''snapshot-publish'',
      ''heartbeats-bridge'', ''owera-watchdog'', ''owera-logrotate'', ''owera-backup'', ''owera-backup-worker'']"

definition new_manager :: "int \<Rightarrow> logger option \<Rightarrow> ld_manager" where
  "new_manager uid l = \<lparr> lm_logger = l, lm_node = ''gateway'', lm_uid = uid \<rparr>"

section \<open>Templates\<close>

definition field_value :: "ld_vars \<Rightarrow> string \<Rightarrow> string option" where
  "field_value v name =
     map_of [(''Label'', lv_label v), (''UID'', itoa (lv_uid v)), (''HomeDir'', lv_home_dir v), (''RepoDir'', lv_repo_dir v),
             (''ScriptPath'', lv_script_path v), (''UserName'', lv_user_name v), (''NodeLabel'', lv_node_label v),
             (''ResticRepository'', lv_restic_repository v), (''ResticPasswordCommand'', lv_restic_password_command v),
             (''AlertURL'', lv_alert_url v)] name"

text \<open>Pieces of a template: text, and the inside of each action.\<close>

datatype tmpl_piece = PText string | PAction string

function tmpl_pieces :: "string \<Rightarrow> tmpl_piece list option" where
  "tmpl_pieces s =
     (case index_str s ''{{'' of
        None \<Rightarrow> Some [PText s]
      | Some i \<Rightarrow>
          (let r = drop (i + 2) s in
           case index_str r ''}}'' of
             None \<Rightarrow> None
           | Some j \<Rightarrow> map_option (\<lambda>ps. PText (take i s) # PAction (take j r) # ps) (tmpl_pieces (drop (j + 2) r))))"
  by pat_completeness auto
termination
proof (relation "measure length")
  fix s i r j
  assume "index_str s ''{{'' = Some i" "r = drop (i + 2) s"
  then have "s \<noteq> []" by auto
  with \<open>r = _\<close> show "(drop (j + 2) r, s) \<in> measure length" by simp
qed simp

declare tmpl_pieces.simps [simp del]

definition piece_text :: "ld_vars \<Rightarrow> tmpl_piece \<Rightarrow> string option" where
  "piece_text v p =
     (case p of
        PText t \<Rightarrow> Some t
      | PAction a \<Rightarrow> (case a of [] \<Rightarrow> None | c # name \<Rightarrow> if c = CHR ''.'' then field_value v name else None))"

fun render_pieces :: "ld_vars \<Rightarrow> tmpl_piece list \<Rightarrow> string option" where
  "render_pieces v [] = Some []"
| "render_pieces v (p # ps) =
     (case piece_text v p of None \<Rightarrow> None | Some t \<Rightarrow> map_option ((@) t) (render_pieces v ps))"

definition execute_template :: "(string \<Rightarrow> ld_vars \<Rightarrow> (string, bytes) result) \<Rightarrow> string \<Rightarrow> ld_vars \<Rightarrow> (string, bytes) result" where
  "execute_template other data v =
     (case Option.bind (tmpl_pieces data) (render_pieces v) of Some t \<Rightarrow> ok t | None \<Rightarrow> other data v)"

definition render_template ::
  "(path \<Rightarrow> (ioerr, bytes) result) \<Rightarrow> (string \<Rightarrow> ld_vars \<Rightarrow> (string, bytes) result) \<Rightarrow> string \<Rightarrow> ld_vars \<Rightarrow> (tmpl_err, bytes) result" where
  "render_template src other name v =
     (if name = [] then err TpEmptyName
      else (let p = join2 ''templates'' (name @ ''.plist.tmpl'') in
            case src p of
              Inl NotExist \<Rightarrow> err (TpNotFound name)
            | Inl e \<Rightarrow> err (TpRead p e)
            | Inr data \<Rightarrow> (case execute_template other data v of Inl m \<Rightarrow> err (TpEngine name m) | Inr b \<Rightarrow> ok b)))"

section \<open>Install, uninstall\<close>

definition format_uid :: "int \<Rightarrow> string" where
  "format_uid uid = ''gui/'' @ itoa uid"

definition ld_target :: "ld_manager \<Rightarrow> string \<Rightarrow> string" where
  "ld_target m label = format_uid (lm_uid m) @ SLASH # label"

text \<open>\<open>logAction\<close> at the reading \<open>fin\<close> of the clock, for an operation that began at \<open>start\<close>.\<close>

definition ld_event :: "ld_manager \<Rightarrow> string \<Rightarrow> string \<Rightarrow> gtime \<Rightarrow> gtime \<Rightarrow> string \<Rightarrow> string \<Rightarrow> log_event" where
  "ld_event m action res start fin stdout stderr_tail =
     (let dur = quot_trunc (time_sub fin start) 1000000 in
      \<lparr> le_ts = fin, le_node = lm_node m, le_phase = ''launchd'', le_action = action, le_result = res,
        le_duration_ms = (if dur < 0 then 0 else dur),
        le_stderr_tail = (if stderr_tail = [] then trim_space stdout else stderr_tail) \<rparr>)"

definition ld_log :: "faults \<Rightarrow> ld_manager \<Rightarrow> string \<Rightarrow> string \<Rightarrow> gtime \<Rightarrow> gtime \<Rightarrow> string \<Rightarrow> string \<Rightarrow> fs \<Rightarrow> fs" where
  "ld_log flt m action res start fin stdout stderr_tail fs =
     (case lm_logger m of
        None \<Rightarrow> fs
      | Some l \<Rightarrow> log_step flt l fs (fin, ld_event m action res start fin stdout stderr_tail))"

text \<open>\<open>clk\<close> gives the readings of \<open>Manager.now\<close> in order; \<open>msg\<close> is the text of an error of the file
  system.\<close>

definition install_plist ::
  "(ioerr \<Rightarrow> string) \<Rightarrow> faults \<Rightarrow> 'l cmd_runner \<Rightarrow> (nat \<Rightarrow> gtime) \<Rightarrow> ld_manager \<Rightarrow> bytes \<Rightarrow> path \<Rightarrow> fs \<times> 'l \<Rightarrow> (fs \<times> 'l) \<times> ld_err option" where
  "install_plist msg flt rn clk m plist p w =
     (case w of (fs, ls) \<Rightarrow>
       if p = [] then (w, Some LdEmptyPath)
       else if plist = [] then (w, Some LdEmptyBody)
       else (let dir = dir_path p;
                 act = ''install:'' @ base_path p;
                 logged = (\<lambda>res out tail f. ld_log flt m act res (clk 0) (clk 1) out tail f) in
             case os_mkdir_all flt fs dir mode_0755 of
               Inl (e, fs1) \<Rightarrow> ((logged ''error'' [] (''mkdir '' @ dir @ '': '' @ msg e) fs1, ls), Some (LdMkdir dir e))
             | Inr fs1 \<Rightarrow>
                 (case os_write_file flt fs1 p plist mode_0644 of
                    Inl (e, fs2) \<Rightarrow> ((logged ''error'' [] (''write '' @ p @ '': '' @ msg e) fs2, ls), Some (LdWrite p e))
                  | Inr fs2 \<Rightarrow>
                      (case rn [''launchctl'', ''bootstrap'', format_uid (lm_uid m), p] ls of
                         (ls', out, Some e) \<Rightarrow>
                           ((logged ''error'' [] (trim_space out @ '': '' @ ce_text e) fs2, ls'),
                            Some (LdBootstrap (format_uid (lm_uid m)) p e (trim_space out)))
                       | (ls', out, None) \<Rightarrow> ((logged ''ok'' out [] fs2, ls'), None)))))"

text \<open>A bootout that fails is a warning; it moves the clock on by one reading.\<close>

definition uninstall_plist ::
  "(ioerr \<Rightarrow> string) \<Rightarrow> faults \<Rightarrow> 'l cmd_runner \<Rightarrow> (nat \<Rightarrow> gtime) \<Rightarrow> ld_manager \<Rightarrow> string \<Rightarrow> path \<Rightarrow> fs \<times> 'l \<Rightarrow> (fs \<times> 'l) \<times> ld_err option" where
  "uninstall_plist msg flt rn clk m label p w =
     (case w of (fs, ls) \<Rightarrow>
       if label = [] then (w, Some LdEmptyLabel)
       else (let act = ''uninstall:'' @ label in
             case rn [''launchctl'', ''bootout'', ld_target m label] ls of
               (ls', out, e) \<Rightarrow>
                 (let (fs1, i) = (case e of
                                    Some x \<Rightarrow> (ld_log flt m act ''warn'' (clk 0) (clk 1) out (trim_space out @ '': '' @ ce_text x) fs, 2)
                                  | None \<Rightarrow> (fs, 1));
                      fin = (\<lambda>f. if e = None then ld_log flt m act ''ok'' (clk 0) (clk i) out [] f else f) in
                  if p = [] then ((fin fs1, ls'), None)
                  else (case os_remove flt fs1 p of
                          Inr fs2 \<Rightarrow> ((fin fs2, ls'), None)
                        | Inl NotExist \<Rightarrow> ((fin fs1, ls'), None)
                        | Inl x \<Rightarrow>
                            ((ld_log flt m act ''error'' (clk 0) (clk i) [] (''remove '' @ p @ '': '' @ msg x) fs1, ls'), Some (LdRemove p x))))))"

section \<open>Status\<close>

text \<open>\<open>strings.ToLower\<close> as far as the search for an ASCII text sees it: besides the letters A to Z two
  runes have an ASCII letter as their lower case, the dotted capital I and the Kelvin sign.\<close>

fun lower_probe :: "bytes \<Rightarrow> bytes" where
  "lower_probe (a # b # c # s) =
     (if a = CHR 0xC4 \<and> b = CHR 0xB0 then CHR ''i'' # lower_probe (c # s)
      else if a = CHR 0xE2 \<and> b = CHR 0x84 \<and> c = CHR 0xAA then CHR ''k'' # lower_probe s
      else to_lower_ascii a # lower_probe (b # c # s))"
| "lower_probe [a, b] = (if a = CHR 0xC4 \<and> b = CHR 0xB0 then ''i'' else [to_lower_ascii a, to_lower_ascii b])"
| "lower_probe [a] = [to_lower_ascii a]"
| "lower_probe [] = []"

definition is_not_loaded :: "bytes \<Rightarrow> cmd_err \<Rightarrow> bool" where
  "is_not_loaded out e \<longleftrightarrow>
     (let body = lower_probe out in
      contains body ''could not find service'' \<or> contains body ''not loaded'' \<or> contains body ''no such process''
      \<or> ce_exit e = Some 113)"

definition status_line :: "ld_status \<Rightarrow> string \<Rightarrow> ld_status" where
  "status_line s raw =
     (let line = trim_space raw in
      if st_pid s = [] \<and> has_prefix line ''pid ='' then s\<lparr> st_pid := trim_space (trim_prefix line ''pid ='') \<rparr>
      else if st_last_exit s = [] \<and> has_prefix line ''last exit code =''
        then s\<lparr> st_last_exit := trim_space (trim_prefix line ''last exit code ='') \<rparr>
      else if st_state s = [] \<and> has_prefix line ''state ='' then s\<lparr> st_state := trim_space (trim_prefix line ''state ='') \<rparr>
      else s)"

definition empty_status :: "string \<Rightarrow> ld_status" where
  "empty_status label = \<lparr> st_label = label, st_loaded = False, st_pid = [], st_last_exit = [], st_state = [] \<rparr>"

definition parse_status :: "string \<Rightarrow> string \<Rightarrow> ld_status" where
  "parse_status label out = foldl status_line (empty_status label) (split_on NL out)"

definition agent_status :: "'l cmd_runner \<Rightarrow> ld_manager \<Rightarrow> string \<Rightarrow> 'l \<Rightarrow> 'l \<times> ld_status \<times> ld_err option" where
  "agent_status rn m label ls =
     (if label = [] then (ls, empty_status [], Some LdEmptyLabel)
      else (case rn [''launchctl'', ''print'', ld_target m label] ls of
              (ls', out, Some e) \<Rightarrow>
                (ls', empty_status label,
                 Some (if is_not_loaded out e then LdUnloaded else LdPrint (ld_target m label) e (trim_space out)))
            | (ls', out, None) \<Rightarrow> (ls', (parse_status label out)\<lparr> st_loaded := True \<rparr>, None)))"

definition plist_path :: "(string, path) result \<Rightarrow> path \<Rightarrow> string \<Rightarrow> path" where
  "plist_path home home_dir label =
     (let h = (if home_dir = [] then (case home of Inl _ \<Rightarrow> [] | Inr d \<Rightarrow> d) else home_dir)
      in join_path [h, ''Library'', ''LaunchAgents'', label @ ''.plist''])"

section \<open>What an installation does\<close>

definition ld_quiet :: "ld_manager \<Rightarrow> path \<Rightarrow> bool" where
  "ld_quiet m q \<longleftrightarrow> (case lm_logger m of None \<Rightarrow> True | Some l \<Rightarrow> lg_w l \<noteq> Some q)"

lemma ld_log_other: "ld_quiet m q \<Longrightarrow> map_of (ld_log flt m a r s f out tail fs) q = map_of fs q"
  by (auto simp: ld_log_def ld_quiet_def log_step_other split: option.splits)

lemma ld_log_data: "ld_quiet m q \<Longrightarrow> file_data (ld_log flt m a r s f out tail fs) q = file_data fs q"
  by (rule file_data_cong [OF ld_log_other])

lemma write_file_data: "os_write_file flt fs p b md = ok fs' \<or> os_write_file flt fs p b md = err (e, fs') \<Longrightarrow> q \<noteq> p \<Longrightarrow> file_data fs' q = file_data fs q"
  by (metis file_data_cong write_file_other)

text \<open>An installation ends with one event, in a file system where only the property list has changed.\<close>

lemma install_ends:
  assumes "install_plist msg flt rn clk m plist p (fs, ls) = ((fs', ls'), x)" "p \<noteq> []" "plist \<noteq> []"
  obtains f out tail where "fs' = ld_log flt m (''install:'' @ base_path p) (if x = None then ''ok'' else ''error'') (clk 0) (clk 1) out tail f"
    "\<And>q. q \<noteq> p \<Longrightarrow> file_data f q = file_data fs q" "x = None \<Longrightarrow> file_data f p = Some plist"
proof (cases "os_mkdir_all flt fs (dir_path p) mode_0755")
  case (Inl ef)
  obtain e f where ef: "ef = (e, f)" by (cases ef)
  then have f: "f = fs" using mkdir_all_err Inl by metis
  show ?thesis using assms Inl ef f by (intro that) (auto simp: install_plist_def Let_def)
next
  case (Inr fs1)
  note k = mkdir_keeps_files [OF Inr]
  show ?thesis
  proof (cases "os_write_file flt fs1 p plist mode_0644")
    case (Inl ef)
    obtain e f where ef: "ef = (e, f)" by (cases ef)
    have "q \<noteq> p \<Longrightarrow> file_data f q = file_data fs q" for q using write_file_data [of flt fs1 p plist mode_0644 f e q] Inl ef k by simp
    then show ?thesis using assms Inl Inr ef by (intro that [where f = f]) (auto simp: install_plist_def Let_def)
  next
    case fs2: (Inr fs2)
    have d: "file_data fs2 p = Some plist" by (rule write_file_ok [OF fs2])
    have o: "q \<noteq> p \<Longrightarrow> file_data fs2 q = file_data fs q" for q using write_file_data [of flt fs1 p plist mode_0644 fs2 undefined q] fs2 k by simp
    obtain ls1 out y where rn: "rn [''launchctl'', ''bootstrap'', format_uid (lm_uid m), p] ls = (ls1, out, y)" using prod_cases3 by blast
    show ?thesis using assms Inr fs2 rn d o by (cases y; intro that [where f = fs2]) (auto simp: install_plist_def Let_def)
  qed
qed

text \<open>The time and the names of an event of the manager fit the log.\<close>

definition ld_loggable :: "ld_manager \<Rightarrow> string \<Rightarrow> gtime \<Rightarrow> bool" where
  "ld_loggable m act t \<longleftrightarrow> length (lm_node m) + length act \<le> 5000 \<and> time_ok t \<and> \<not> is_zero_time t"

lemma ld_event_loggable:
  assumes "ld_loggable m act fin" "result_valid res"
  shows "loggable l fin (ld_event m act res start fin out tail)" "accepted l fin (ld_event m act res start fin out tail)"
proof -
  have t: "le_ts (log_fill l fin (ld_event m act res start fin out tail)) = fin"
    using assms by (simp add: ld_loggable_def log_fill_def ld_event_def Let_def)
  have "in_int64 (le_duration_ms (ld_event m act res start fin out tail))"
    using quot_int64 [OF clamp64_range [of "t_ns fin - t_ns start"]]
    by (simp add: ld_event_def Let_def time_sub_def in_int64_def min_int64_def max_int64_def)
  with t show "loggable l fin (ld_event m act res start fin out tail)"
    using assms by (simp add: loggable_def ld_loggable_def short_names_def max_names_def time_ok_iff) (simp add: ld_event_def Let_def)
  show "accepted l fin (ld_event m act res start fin out tail)"
    using t assms by (simp add: accepted_def ld_loggable_def time_ok_iff) (simp add: ld_event_def Let_def)
qed

lemma ld_log_holds:
  assumes "log_holds fs lp es" "lm_logger m = Some l" "lg_w l = Some lp" "flt (FWrite lp) = None"
    and "ld_loggable m act fin" "result_valid res"
  shows "log_holds (ld_log flt m act res start fin out tail fs) lp (es @ [log_fill l fin (ld_event m act res start fin out tail)])"
  using log_step_holds [where flt = flt, OF assms(1,3,4) ld_event_loggable(1) [where start = start and out = out and tail = tail, OF assms(5,6)]] ld_event_loggable(2) [OF assms(5,6)] assms(2)
  by (simp add: ld_log_def)

lemma log_holds_cong: "file_data fs' p = file_data fs p \<Longrightarrow> log_holds fs' p es = log_holds fs p es"
  by (simp add: log_holds_def)

lemma result_words: "result_valid ''ok''" "result_valid ''error''" "result_valid ''warn''"
  by (simp_all add: result_valid_def log_results_def)

text \<open>C25. Installing an agent (a path and a body that are not empty) by a manager with a logger leaves exactly one event in its log,
  whatever call other than the write to that log fails and whatever launchctl answers, and its result is \<open>ok\<close> exactly when the
  installation succeeded; then the property list holds the rendered bytes.  No other file changes.\<close>

theorem install_audited:
  assumes "install_plist msg flt rn clk m plist p (fs, ls) = ((fs', ls'), x)" "p \<noteq> []" "plist \<noteq> []"
    and "lm_logger m = Some l" "lg_w l = Some lp" "lp \<noteq> p" "log_holds fs lp es" "flt (FWrite lp) = None"
    and "ld_loggable m (''install:'' @ base_path p) (clk 1)"
  shows "(\<exists>e. log_holds fs' lp (es @ [e]) \<and> le_action e = ''install:'' @ base_path p \<and> le_result e = (if x = None then ''ok'' else ''error''))
    \<and> (x = None \<longrightarrow> file_data fs' p = Some plist) \<and> (\<forall>q. q \<noteq> p \<and> q \<noteq> lp \<longrightarrow> file_data fs' q = file_data fs q)"
proof -
  let ?res = "if x = None then ''ok'' else ''error''"
  obtain f out tail where f: "fs' = ld_log flt m (''install:'' @ base_path p) ?res (clk 0) (clk 1) out tail f"
    "\<And>q. q \<noteq> p \<Longrightarrow> file_data f q = file_data fs q" "x = None \<Longrightarrow> file_data f p = Some plist"
    using install_ends [OF assms(1-3)] by blast
  have h: "log_holds f lp es" using log_holds_cong [OF f(2) [OF assms(6)]] assms(7) by simp
  have "result_valid ?res" by (simp add: result_words)
  note e = ld_log_holds [where flt = flt and start = "clk 0" and out = out and tail = tail, OF h assms(4,5,8,9) this]
  have "ld_quiet m q \<longleftrightarrow> q \<noteq> lp" for q using assms(4,5) by (auto simp: ld_quiet_def)
  then show ?thesis
    using e f(2,3) assms(6) ld_log_data unfolding f(1) by (auto simp: ld_event_def Let_def intro!: exI)
qed

lemma uninstall_ends:
  assumes "uninstall_plist msg flt rn clk m label p (fs, ls) = ((fs', ls'), x)" "ld_quiet m p"
  shows "x = None \<Longrightarrow> label \<noteq> [] \<and> (p \<noteq> [] \<longrightarrow> map_of fs' p = None)" "ld_quiet m q \<Longrightarrow> q \<noteq> p \<Longrightarrow> map_of fs' q = map_of fs q"
    "map_of fs p = None \<Longrightarrow> flt (FRemove p) = None \<Longrightarrow> label \<noteq> [] \<Longrightarrow> x = None \<and> map_of fs' p = None"
proof -
  obtain ls1 out y where rn: "rn [''launchctl'', ''bootout'', ld_target m label] ls = (ls1, out, y)" using prod_cases3 by blast
  show "x = None \<Longrightarrow> label \<noteq> [] \<and> (p \<noteq> [] \<longrightarrow> map_of fs' p = None)"
    using assms rn
    by (auto simp: uninstall_plist_def Let_def ld_log_other os_remove_effect(1) os_remove_absent split: if_splits sum.splits ioerr.splits option.splits)
  show "ld_quiet m q \<Longrightarrow> q \<noteq> p \<Longrightarrow> map_of fs' q = map_of fs q"
    using assms rn
    by (auto simp: uninstall_plist_def Let_def ld_log_other os_remove_effect(2) split: if_splits sum.splits ioerr.splits option.splits)
  show "map_of fs p = None \<Longrightarrow> flt (FRemove p) = None \<Longrightarrow> label \<noteq> [] \<Longrightarrow> x = None \<and> map_of fs' p = None"
    using assms rn by (auto simp: uninstall_plist_def Let_def ld_log_other os_remove_def split: if_splits option.splits)
qed

text \<open>An uninstallation that reports no error has removed the property list, and running it again does
  not fail, whatever launchctl says of the label that is gone.\<close>

theorem uninstall_idempotent:
  assumes "uninstall_plist msg flt rn clk m label p (fs, ls) = ((fs', ls'), None)" "ld_quiet m p" "p \<noteq> []" "flt' (FRemove p) = None"
  shows "map_of fs' p = None \<and> snd (uninstall_plist msg flt' rn' clk' m label p (fs', ls'')) = None"
proof -
  note u = uninstall_ends(1) [OF assms(1,2) refl]
  obtain w x where "uninstall_plist msg flt' rn' clk' m label p (fs', ls'') = (w, x)" by (metis surj_pair)
  then show ?thesis using uninstall_ends(3) [of msg flt' rn' clk' m label p fs' ls'' "fst w" "snd w" x] u assms by simp
qed

section \<open>The report of launchctl\<close>

definition line_value :: "string \<Rightarrow> string \<Rightarrow> string" where
  "line_value key raw = (let line = trim_space raw in if has_prefix line key then trim_space (drop (length key) line) else [])"

definition first_value :: "string \<Rightarrow> string list \<Rightarrow> string" where
  "first_value key ls = (case filter (\<lambda>v. v \<noteq> []) (map (line_value key) ls) of [] \<Rightarrow> [] | v # _ \<Rightarrow> v)"

lemma status_line_eq:
  "status_line s raw =
     s\<lparr> st_pid := (if st_pid s = [] then line_value ''pid ='' raw else st_pid s),
        st_last_exit := (if st_last_exit s = [] then line_value ''last exit code ='' raw else st_last_exit s),
        st_state := (if st_state s = [] then line_value ''state ='' raw else st_state s) \<rparr>"
proof -
  have "\<not> (has_prefix l ''pid ='' \<and> has_prefix l ''last exit code ='')" "\<not> (has_prefix l ''pid ='' \<and> has_prefix l ''state ='')"
    "\<not> (has_prefix l ''last exit code ='' \<and> has_prefix l ''state ='')" for l
    by (cases l; simp add: has_prefix_def)+
  then show ?thesis by (cases s) (auto simp: status_line_def line_value_def Let_def trim_prefix_def)
qed

lemma first_value_Cons: "first_value key (l # ls) = (if line_value key l = [] then first_value key ls else line_value key l)"
  by (simp add: first_value_def)

lemma status_fold:
  "foldl status_line s ls =
     s\<lparr> st_pid := (if st_pid s = [] then first_value ''pid ='' ls else st_pid s),
        st_last_exit := (if st_last_exit s = [] then first_value ''last exit code ='' ls else st_last_exit s),
        st_state := (if st_state s = [] then first_value ''state ='' ls else st_state s) \<rparr>"
  by (induction ls arbitrary: s) (simp_all add: status_line_eq first_value_Cons, simp add: first_value_def)

text \<open>The status is the first non-empty value of each key, in whatever order and indentation
  launchctl prints them.\<close>

theorem status_first_values:
  "parse_status label out =
     (let ls = split_on NL out in
      \<lparr> st_label = label, st_loaded = False, st_pid = first_value ''pid ='' ls,
        st_last_exit = first_value ''last exit code ='' ls, st_state = first_value ''state ='' ls \<rparr>)"
  by (simp add: parse_status_def status_fold empty_status_def Let_def)

text \<open>Values go into the property list as they are: a password command with an ampersand makes it
  ill-formed XML.\<close>

theorem plist_not_escaped:
  "execute_template other ''<string>{{.ResticPasswordCommand}}</string>''
     \<lparr> lv_label = [], lv_uid = 0, lv_home_dir = [], lv_repo_dir = [], lv_script_path = [], lv_user_name = [], lv_node_label = [],
       lv_restic_repository = [], lv_restic_password_command = ''unlock && pass x'', lv_alert_url = [] \<rparr>
   = ok ''<string>unlock && pass x</string>''"
  by code_simp

section \<open>A small run\<close>

definition demo_ld_log :: path where "demo_ld_log = ''/l/a.jsonl''"
definition demo_ld_plist :: path where "demo_ld_plist = ''/p/x.plist''"

definition demo_ld_manager :: ld_manager where
  "demo_ld_manager = new_manager 501 (Some (log_new demo_ld_log True))"

definition demo_ld_fs :: fs where
  "demo_ld_fs = [(''/'', Dir mode_0755), (''/l'', Dir mode_0755), (demo_ld_log, File [] mode_0644)]"

text \<open>A launchctl that loads a label once and refuses it then.\<close>

definition demo_launchctl :: "bool cmd_runner" where
  "demo_launchctl args loaded =
     (if args ! 1 = ''bootstrap'' then (if loaded then (True, ''service already loaded'', Some \<lparr> ce_exit = Some 37, ce_text = ''exit status 37'' \<rparr>) else (True, [], None))
      else (if loaded then (False, [], None) else (False, ''no such process'', Some \<lparr> ce_exit = Some 3, ce_text = ''exit status 3'' \<rparr>)))"

definition demo_ld_install :: "bool \<Rightarrow> (fs \<times> bool) \<times> ld_err option" where
  "demo_ld_install loaded =
     install_plist (\<lambda>_. []) no_faults demo_launchctl (\<lambda>i. time_utc (int i + 5)) demo_ld_manager ''<plist/>'' demo_ld_plist (demo_ld_fs, loaded)"

theorem install_audited_witness:
  "(\<exists>e. log_holds (fst (fst (demo_ld_install False))) demo_ld_log ([] @ [e]) \<and> le_action e = ''install:x.plist'' \<and> le_result e = ''ok'')
     \<and> file_data (fst (fst (demo_ld_install False))) demo_ld_plist = Some ''<plist/>'' \<and> snd (demo_ld_install True) \<noteq> None"
proof -
  have r: "install_plist (\<lambda>_. []) no_faults demo_launchctl (\<lambda>i. time_utc (int i + 5)) demo_ld_manager ''<plist/>'' demo_ld_plist (demo_ld_fs, False)
      = ((fst (fst (demo_ld_install False)), snd (fst (demo_ld_install False))), snd (demo_ld_install False))"
    by (simp add: demo_ld_install_def)
  have t: "time_json_ok (time_utc 6) \<and> \<not> is_zero_time (time_utc 6) \<and> base_path demo_ld_plist = ''x.plist''" by code_simp
  have "ld_loggable demo_ld_manager (''install:'' @ base_path demo_ld_plist) (time_utc 6)"
    using t by (simp add: ld_loggable_def time_ok_iff demo_ld_manager_def new_manager_def) (simp add: time_utc_def)
  moreover have "log_holds demo_ld_fs demo_ld_log []" by (simp add: log_holds_def log_text_def file_data_def demo_ld_fs_def demo_ld_log_def)
  moreover have pn: "demo_ld_plist \<noteq> []" by (simp add: demo_ld_plist_def)
  moreover have "case os_mkdir_all no_faults demo_ld_fs (dir_path demo_ld_plist) mode_0755 of
      Inr f \<Rightarrow> (case os_write_file no_faults f demo_ld_plist ''<plist/>'' mode_0644 of Inr _ \<Rightarrow> True | Inl _ \<Rightarrow> False) | Inl _ \<Rightarrow> False"
    by code_simp
  then obtain f f2 where "os_mkdir_all no_faults demo_ld_fs (dir_path demo_ld_plist) mode_0755 = ok f"
    "os_write_file no_faults f demo_ld_plist ''<plist/>'' mode_0644 = ok f2"
    by (auto split: sum.splits)
  then have "snd (demo_ld_install False) = None \<and> snd (demo_ld_install True) \<noteq> None"
    using pn by (simp add: demo_ld_install_def install_plist_def Let_def demo_launchctl_def)
  ultimately show ?thesis
    using install_audited [OF r, of "log_new demo_ld_log True" demo_ld_log "[]"] t
    by (simp add: demo_ld_manager_def new_manager_def log_new_def demo_ld_log_def demo_ld_plist_def)
qed

definition demo_ld_uninstall :: "fs \<Rightarrow> bool \<Rightarrow> (fs \<times> bool) \<times> ld_err option" where
  "demo_ld_uninstall f loaded =
     uninstall_plist (\<lambda>_. []) no_faults demo_launchctl (\<lambda>_. time_utc 9) (new_manager 501 None) ''x'' demo_ld_plist (f, loaded)"

definition demo_ld_installed :: fs where
  "demo_ld_installed = [(''/'', Dir mode_0755), (''/p'', Dir mode_0755), (demo_ld_plist, File ''<plist/>'' mode_0644)]"

theorem uninstall_idempotent_witness:
  "map_of (fst (fst (demo_ld_uninstall demo_ld_installed True))) demo_ld_plist = None
     \<and> snd (demo_ld_uninstall (fst (fst (demo_ld_uninstall demo_ld_installed True))) False) = None"
proof -
  let ?r = "demo_ld_uninstall demo_ld_installed True"
  have n: "?r = ((fst (fst ?r), snd (fst ?r)), None)" by code_simp
  have q: "ld_quiet (new_manager 501 None) demo_ld_plist" "demo_ld_plist \<noteq> []" by code_simp+
  from uninstall_idempotent [OF n [unfolded demo_ld_uninstall_def] q, of no_faults] show ?thesis
    by (simp add: demo_ld_uninstall_def)
qed

end
