(* ===== verification/Launch_Agents.thy ===== *)
theory Launch_Agents
  imports Launchd
begin

text \<open>
  The commands over the launchd manager: install, uninstall and status of the agents
  (\<open>watchdog.go\<close>, \<open>heartbeats_bridge.go\<close>, \<open>logrotate.go\<close>, \<open>backup.go\<close>, \<open>backup_worker.go\<close>,
  \<open>snapshot_publish_launchd.go\<close>) and \<open>setup-agent\<close> (\<open>setup_agent.go\<close>).  What the process knows of its
  surroundings is \<open>svc_env\<close>; the lines the commands print are left out, but for the status.
\<close>

section \<open>The agents of fleetctl\<close>

record svc_env =
  sv_home :: "(string, path) result"
  sv_exe :: "(string, path) result"
  sv_wd :: "(string, path) result"
  sv_uid :: int
  sv_user_uid :: "int option"
  sv_src :: "path \<Rightarrow> (ioerr, bytes) result"
  sv_other :: "string \<Rightarrow> ld_vars \<Rightarrow> (string, bytes) result"
  sv_msg :: "ioerr \<Rightarrow> string"

datatype svc_err = SvHome string | SvExe string | SvAbs string | SvRender tmpl_err | SvManager ld_err | SvNotLoaded | SvNoRestic

definition no_vars :: ld_vars where
  "no_vars = \<lparr> lv_label = [], lv_uid = 0, lv_home_dir = [], lv_repo_dir = [], lv_script_path = [], lv_user_name = [],
     lv_node_label = [], lv_restic_repository = [], lv_restic_password_command = [], lv_alert_url = [] \<rparr>"

definition agent_plist_path :: "svc_env \<Rightarrow> string \<Rightarrow> (svc_err, path) result" where
  "agent_plist_path e label =
     (case sv_home e of Inl m \<Rightarrow> err (SvHome m) | Inr h \<Rightarrow> ok (join_path [h, ''Library'', ''LaunchAgents'', label @ ''.plist'']))"

definition svc_install ::
  "svc_env \<Rightarrow> faults \<Rightarrow> 'l cmd_runner \<Rightarrow> (nat \<Rightarrow> gtime) \<Rightarrow> string \<Rightarrow> string \<Rightarrow> ld_vars \<Rightarrow> fs \<times> 'l \<Rightarrow> (fs \<times> 'l) \<times> svc_err option" where
  "svc_install e flt rn clk label tmpl extra w =
     (case sv_home e of Inl m \<Rightarrow> (w, Some (SvHome m)) | Inr home \<Rightarrow>
     (case sv_exe e of Inl m \<Rightarrow> (w, Some (SvExe m)) | Inr exe \<Rightarrow>
     (case abs_path (sv_wd e) exe of Inl m \<Rightarrow> (w, Some (SvAbs m)) | Inr exe_abs \<Rightarrow>
     (case agent_plist_path e label of Inl x \<Rightarrow> (w, Some x) | Inr p \<Rightarrow>
     (case render_template (sv_src e) (sv_other e) tmpl (extra\<lparr> lv_label := label, lv_home_dir := home, lv_script_path := exe_abs \<rparr>) of
        Inl x \<Rightarrow> (w, Some (SvRender x))
      | Inr body \<Rightarrow>
          (case install_plist (sv_msg e) flt rn clk (new_manager (sv_uid e) None) body p w of
             (w', x) \<Rightarrow> (w', map_option SvManager x)))))))"

definition svc_uninstall ::
  "svc_env \<Rightarrow> faults \<Rightarrow> 'l cmd_runner \<Rightarrow> (nat \<Rightarrow> gtime) \<Rightarrow> string \<Rightarrow> fs \<times> 'l \<Rightarrow> (fs \<times> 'l) \<times> svc_err option" where
  "svc_uninstall e flt rn clk label w =
     (case agent_plist_path e label of
        Inl x \<Rightarrow> (w, Some x)
      | Inr p \<Rightarrow> (case uninstall_plist (sv_msg e) flt rn clk (new_manager (sv_uid e) None) label p w of
            (w', x) \<Rightarrow> (w', map_option SvManager x)))"

definition svc_status :: "svc_env \<Rightarrow> 'l cmd_runner \<Rightarrow> string \<Rightarrow> string \<Rightarrow> 'l \<Rightarrow> 'l \<times> string \<times> svc_err option" where
  "svc_status e rn name label ls =
     (case agent_status rn (new_manager (sv_uid e) None) label ls of
        (ls', s, Some LdUnloaded) \<Rightarrow> (ls', name @ '': not loaded (label='' @ label @ '')'' @ [NL], Some SvNotLoaded)
      | (ls', s, Some x) \<Rightarrow> (ls', [], Some (SvManager x))
      | (ls', s, None) \<Rightarrow>
          (ls', name @ '': label='' @ st_label s @ '' loaded='' @ bool_str (st_loaded s) @ '' pid='' @ st_pid s
                 @ '' last_exit='' @ st_last_exit s @ '' state='' @ st_state s @ [NL], None))"

definition watchdog_label :: string where "watchdog_label = ''com.owera.watchdog''"
definition bridge_label :: string where "bridge_label = ''com.owera.heartbeats-bridge''"
definition logrotate_label :: string where "logrotate_label = ''com.owera.logrotate''"
definition backup_label :: string where "backup_label = ''com.owera.backup''"
definition backup_worker_label :: string where "backup_worker_label = ''com.owera.backup-worker''"
definition snapshot_label :: string where "snapshot_label = ''com.owera.snapshot-publish''"

definition watchdog_install :: "svc_env \<Rightarrow> faults \<Rightarrow> 'l cmd_runner \<Rightarrow> (nat \<Rightarrow> gtime) \<Rightarrow> fs \<times> 'l \<Rightarrow> (fs \<times> 'l) \<times> svc_err option" where
  "watchdog_install e flt rn clk = svc_install e flt rn clk watchdog_label ''owera-watchdog'' no_vars"
definition watchdog_uninstall :: "svc_env \<Rightarrow> faults \<Rightarrow> 'l cmd_runner \<Rightarrow> (nat \<Rightarrow> gtime) \<Rightarrow> fs \<times> 'l \<Rightarrow> (fs \<times> 'l) \<times> svc_err option" where
  "watchdog_uninstall e flt rn clk = svc_uninstall e flt rn clk watchdog_label"
definition watchdog_status :: "svc_env \<Rightarrow> 'l cmd_runner \<Rightarrow> 'l \<Rightarrow> 'l \<times> string \<times> svc_err option" where
  "watchdog_status e rn = svc_status e rn ''watchdog'' watchdog_label"

text \<open>The bridge takes the user's id from the account when it is a number.\<close>

definition bridge_install :: "svc_env \<Rightarrow> faults \<Rightarrow> 'l cmd_runner \<Rightarrow> (nat \<Rightarrow> gtime) \<Rightarrow> fs \<times> 'l \<Rightarrow> (fs \<times> 'l) \<times> svc_err option" where
  "bridge_install e flt rn clk =
     svc_install e flt rn clk bridge_label ''heartbeats-bridge''
       (no_vars\<lparr> lv_uid := (case sv_user_uid e of Some u \<Rightarrow> u | None \<Rightarrow> sv_uid e) \<rparr>)"
definition bridge_uninstall :: "svc_env \<Rightarrow> faults \<Rightarrow> 'l cmd_runner \<Rightarrow> (nat \<Rightarrow> gtime) \<Rightarrow> fs \<times> 'l \<Rightarrow> (fs \<times> 'l) \<times> svc_err option" where
  "bridge_uninstall e flt rn clk = svc_uninstall e flt rn clk bridge_label"
definition bridge_status :: "svc_env \<Rightarrow> 'l cmd_runner \<Rightarrow> 'l \<Rightarrow> 'l \<times> string \<times> svc_err option" where
  "bridge_status e rn = svc_status e rn ''heartbeats-bridge'' bridge_label"

definition logrotate_install :: "svc_env \<Rightarrow> faults \<Rightarrow> 'l cmd_runner \<Rightarrow> (nat \<Rightarrow> gtime) \<Rightarrow> fs \<times> 'l \<Rightarrow> (fs \<times> 'l) \<times> svc_err option" where
  "logrotate_install e flt rn clk = svc_install e flt rn clk logrotate_label ''owera-logrotate'' no_vars"
definition logrotate_uninstall :: "svc_env \<Rightarrow> faults \<Rightarrow> 'l cmd_runner \<Rightarrow> (nat \<Rightarrow> gtime) \<Rightarrow> fs \<times> 'l \<Rightarrow> (fs \<times> 'l) \<times> svc_err option" where
  "logrotate_uninstall e flt rn clk = svc_uninstall e flt rn clk logrotate_label"
definition logrotate_status :: "svc_env \<Rightarrow> 'l cmd_runner \<Rightarrow> 'l \<Rightarrow> 'l \<times> string \<times> svc_err option" where
  "logrotate_status e rn = svc_status e rn ''logrotate'' logrotate_label"

definition backup_install ::
  "svc_env \<Rightarrow> (string \<Rightarrow> string) \<Rightarrow> faults \<Rightarrow> 'l cmd_runner \<Rightarrow> (nat \<Rightarrow> gtime) \<Rightarrow> fs \<times> 'l \<Rightarrow> (fs \<times> 'l) \<times> svc_err option" where
  "backup_install e getenv flt rn clk w =
     (let repo = getenv ''RESTIC_REPOSITORY''; pw = getenv ''RESTIC_PASSWORD_COMMAND'' in
      if repo = [] \<or> pw = [] then (w, Some SvNoRestic)
      else svc_install e flt rn clk backup_label ''owera-backup'' (no_vars\<lparr> lv_restic_repository := repo, lv_restic_password_command := pw \<rparr>) w)"
definition backup_uninstall :: "svc_env \<Rightarrow> faults \<Rightarrow> 'l cmd_runner \<Rightarrow> (nat \<Rightarrow> gtime) \<Rightarrow> fs \<times> 'l \<Rightarrow> (fs \<times> 'l) \<times> svc_err option" where
  "backup_uninstall e flt rn clk = svc_uninstall e flt rn clk backup_label"
definition backup_status :: "svc_env \<Rightarrow> 'l cmd_runner \<Rightarrow> 'l \<Rightarrow> 'l \<times> string \<times> svc_err option" where
  "backup_status e rn = svc_status e rn ''backup'' backup_label"

definition backup_worker_install :: "svc_env \<Rightarrow> faults \<Rightarrow> 'l cmd_runner \<Rightarrow> (nat \<Rightarrow> gtime) \<Rightarrow> fs \<times> 'l \<Rightarrow> (fs \<times> 'l) \<times> svc_err option" where
  "backup_worker_install e flt rn clk = svc_install e flt rn clk backup_worker_label ''owera-backup-worker'' no_vars"
definition backup_worker_uninstall :: "svc_env \<Rightarrow> faults \<Rightarrow> 'l cmd_runner \<Rightarrow> (nat \<Rightarrow> gtime) \<Rightarrow> fs \<times> 'l \<Rightarrow> (fs \<times> 'l) \<times> svc_err option" where
  "backup_worker_uninstall e flt rn clk = svc_uninstall e flt rn clk backup_worker_label"
definition backup_worker_status :: "svc_env \<Rightarrow> 'l cmd_runner \<Rightarrow> 'l \<Rightarrow> 'l \<times> string \<times> svc_err option" where
  "backup_worker_status e rn = svc_status e rn ''backup-worker'' backup_worker_label"

definition snapshot_install :: "svc_env \<Rightarrow> faults \<Rightarrow> 'l cmd_runner \<Rightarrow> (nat \<Rightarrow> gtime) \<Rightarrow> fs \<times> 'l \<Rightarrow> (fs \<times> 'l) \<times> svc_err option" where
  "snapshot_install e flt rn clk = svc_install e flt rn clk snapshot_label ''snapshot-publish'' (no_vars\<lparr> lv_uid := sv_uid e \<rparr>)"
definition snapshot_uninstall :: "svc_env \<Rightarrow> faults \<Rightarrow> 'l cmd_runner \<Rightarrow> (nat \<Rightarrow> gtime) \<Rightarrow> fs \<times> 'l \<Rightarrow> (fs \<times> 'l) \<times> svc_err option" where
  "snapshot_uninstall e flt rn clk = svc_uninstall e flt rn clk snapshot_label"
definition snapshot_status :: "svc_env \<Rightarrow> 'l cmd_runner \<Rightarrow> 'l \<Rightarrow> 'l \<times> string \<times> svc_err option" where
  "snapshot_status e rn = svc_status e rn ''snapshot-publish'' snapshot_label"

section \<open>setup-agent\<close>

record svc_spec =
  sp_label :: string
  sp_tmpl :: string
  sp_script :: string

record sa_flags =
  sf_install :: bool
  sf_uninstall :: bool
  sf_hermes_dir :: path
  sf_repo_dir :: path
  sf_alert_url :: string
  sf_restic_repo :: string
  sf_restic_pass_cmd :: string
  sf_user :: string
  sf_node_label :: string
  sf_fleetctl_path :: path
  sf_json :: bool
  sf_quiet :: bool

datatype sa_err = SaUnknown string "string list" | SaBoth | SaHome string | SaLog log_err | SaRepoDir string
  | SaRender string tmpl_err | SaManager string ld_err

definition known_svcs :: "(string \<times> svc_spec) list" where
  "known_svcs =
     [(''heartbeat'', \<lparr> sp_label = ''com.hermes.heartbeat'', sp_tmpl = ''heartbeat'', sp_script = [] \<rparr>),
      (''backup'', \<lparr> sp_label = ''com.hermes.backup'', sp_tmpl = ''backup'', sp_script = ''backup-hermes-state.sh'' \<rparr>),
      (''backup-worker'', \<lparr> sp_label = ''com.hermes.backup-worker'', sp_tmpl = ''backup-worker'', sp_script = ''backup-worker-state.sh'' \<rparr>),
      (''watchdog'', \<lparr> sp_label = ''com.hermes.watchdog'', sp_tmpl = ''watchdog'', sp_script = ''heartbeat-watchdog.sh'' \<rparr>),
      (''logrotate'', \<lparr> sp_label = ''com.hermes.logrotate'', sp_tmpl = ''logrotate'', sp_script = ''rotate-hermes-logs.sh'' \<rparr>),
      (''logaggregate'', \<lparr> sp_label = ''com.hermes.logaggregate'', sp_tmpl = ''logaggregate'', sp_script = [] \<rparr>)]"

definition sorted_svc_names :: "string list" where
  "sorted_svc_names = sort (map fst known_svcs)"

text \<open>\<open>hostname\<close> is the answer of \<open>os.Hostname\<close>.\<close>

definition build_sa_vars ::
  "svc_env \<Rightarrow> (string, string) result \<Rightarrow> sa_flags \<Rightarrow> path \<Rightarrow> string \<Rightarrow> svc_spec \<Rightarrow> (sa_err, ld_vars) result" where
  "build_sa_vars e hostname f home name sp =
     (if sp_script sp \<noteq> [] \<and> sf_repo_dir f = [] then err (SaRepoDir name)
      else (let v0 = no_vars\<lparr> lv_label := sp_label sp, lv_home_dir := home \<rparr>;
                v1 = (if sp_script sp \<noteq> [] then v0\<lparr> lv_repo_dir := sf_repo_dir f, lv_script_path := join_path [sf_repo_dir f, ''scripts'', sp_script sp] \<rparr> else v0)
            in ok (if sp_tmpl sp = ''heartbeat'' then
                     v1\<lparr> lv_user_name := sf_user f,
                         lv_node_label := (if sf_node_label f \<noteq> [] then sf_node_label f
                                           else (case hostname of Inl _ \<Rightarrow> ''unknown'' | Inr h \<Rightarrow> hd (split_on CHR ''.'' h))) \<rparr>
                   else if sp_tmpl sp = ''backup'' then
                     v1\<lparr> lv_restic_repository := sf_restic_repo f, lv_restic_password_command := sf_restic_pass_cmd f \<rparr>
                   else if sp_tmpl sp = ''watchdog'' then v1\<lparr> lv_alert_url := sf_alert_url f \<rparr>
                   else if sp_tmpl sp = ''logaggregate'' then
                     v1\<lparr> lv_script_path := (if sf_fleetctl_path f \<noteq> [] then sf_fleetctl_path f
                                            else (case sv_exe e of Inr x \<Rightarrow> if x \<noteq> [] then x else ''fleetctl'' | Inl _ \<Rightarrow> ''fleetctl'')) \<rparr>
                   else v1)))"

text \<open>\<open>saLog\<close>: one event for the operation, besides those of the manager.  \<open>dur\<close> is its length in
  milliseconds, \<open>emsg\<close> the text of an error.\<close>

definition sa_event :: "(string, string) result \<Rightarrow> (ld_err \<Rightarrow> string) \<Rightarrow> string \<Rightarrow> ld_err option \<Rightarrow> int \<Rightarrow> log_event" where
  "sa_event hostname emsg action x dur =
     \<lparr> le_ts = zero_time, le_node = (case hostname of Inl _ \<Rightarrow> [] | Inr h \<Rightarrow> h), le_phase = ''setup-agent'', le_action = action,
       le_result = (if x = None then ''ok'' else ''error''), le_duration_ms = dur,
       le_stderr_tail = (case x of None \<Rightarrow> [] | Some y \<Rightarrow> emsg y) \<rparr>"

record sa_clock =
  sc_manager :: "nat \<Rightarrow> gtime"
  sc_start :: gtime
  sc_end :: gtime
  sc_log :: gtime

definition sa_millis :: "sa_clock \<Rightarrow> int" where
  "sa_millis ck = quot_trunc (time_sub (sc_end ck) (sc_start ck)) 1000000"

definition sa_do_install ::
  "svc_env \<Rightarrow> (string, string) result \<Rightarrow> (ld_err \<Rightarrow> string) \<Rightarrow> faults \<Rightarrow> 'l cmd_runner \<Rightarrow> sa_clock \<Rightarrow> sa_flags \<Rightarrow> logger \<Rightarrow> string \<Rightarrow> svc_spec
     \<Rightarrow> fs \<times> 'l \<Rightarrow> (fs \<times> 'l) \<times> sa_err option" where
  "sa_do_install e hostname emsg flt rn ck f l name sp w =
     (case sv_home e of Inl m \<Rightarrow> (w, Some (SaHome m)) | Inr home \<Rightarrow>
     (case build_sa_vars e hostname f home name sp of Inl x \<Rightarrow> (w, Some x) | Inr v \<Rightarrow>
     (case render_template (sv_src e) (sv_other e) (sp_tmpl sp) v of Inl x \<Rightarrow> (w, Some (SaRender (sp_tmpl sp) x)) | Inr plist \<Rightarrow>
        (case install_plist (sv_msg e) flt rn (sc_manager ck) (new_manager (sv_uid e) (Some l)) plist (plist_path (sv_home e) home (sp_label sp)) w of
           ((fs', ls'), x) \<Rightarrow>
             ((log_step flt l fs' (sc_log ck, sa_event hostname emsg (''install:'' @ name) x (sa_millis ck)), ls'),
              map_option (SaManager (sp_label sp)) x)))))"

definition sa_do_uninstall ::
  "svc_env \<Rightarrow> (string, string) result \<Rightarrow> (ld_err \<Rightarrow> string) \<Rightarrow> faults \<Rightarrow> 'l cmd_runner \<Rightarrow> sa_clock \<Rightarrow> logger \<Rightarrow> string \<Rightarrow> svc_spec
     \<Rightarrow> fs \<times> 'l \<Rightarrow> (fs \<times> 'l) \<times> sa_err option" where
  "sa_do_uninstall e hostname emsg flt rn ck l name sp w =
     (case sv_home e of
        Inl m \<Rightarrow> (w, Some (SaHome m))
      | Inr home \<Rightarrow>
          (case uninstall_plist (sv_msg e) flt rn (sc_manager ck) (new_manager (sv_uid e) (Some l)) (sp_label sp) (plist_path (sv_home e) home (sp_label sp)) w of
             ((fs', ls'), x) \<Rightarrow>
               ((log_step flt l fs' (sc_log ck, sa_event hostname emsg (''uninstall:'' @ name) x (sa_millis ck)), ls'),
                map_option (SaManager (sp_label sp)) x)))"

definition pad_right :: "nat \<Rightarrow> string \<Rightarrow> string" where
  "pad_right n s = s @ replicate (n - length s) CHR '' ''"

definition sa_status_text :: "(bytes \<Rightarrow> bool) \<Rightarrow> sa_flags \<Rightarrow> string \<Rightarrow> svc_spec \<Rightarrow> ld_status \<Rightarrow> string" where
  "sa_status_text prt f name sp s =
     (let state = (if st_loaded s then (if st_state s = [] then ''loaded'' else st_state s) else ''not-loaded'') in
      if sf_quiet f then []
      else if sf_json f then
        ''{'' @ [DQ] @ ''service'' @ [DQ] @ '':'' @ go_quote prt name @ '','' @ [DQ] @ ''label'' @ [DQ] @ '':'' @ go_quote prt (sp_label sp)
          @ '','' @ [DQ] @ ''loaded'' @ [DQ] @ '':'' @ bool_str (st_loaded s) @ '','' @ [DQ] @ ''pid'' @ [DQ] @ '':'' @ go_quote prt (st_pid s)
          @ '','' @ [DQ] @ ''state'' @ [DQ] @ '':'' @ go_quote prt state @ ''}'' @ [NL]
      else pad_right 20 name @ '' '' @ pad_right 34 (sp_label sp) @ '' '' @ state @ [NL])"

definition sa_do_status ::
  "(bytes \<Rightarrow> bool) \<Rightarrow> 'l cmd_runner \<Rightarrow> ld_manager \<Rightarrow> sa_flags \<Rightarrow> string \<Rightarrow> svc_spec \<Rightarrow> 'l \<Rightarrow> 'l \<times> string \<times> sa_err option" where
  "sa_do_status prt rn m f name sp ls =
     (case agent_status rn m (sp_label sp) ls of (ls', s, x) \<Rightarrow>
       (case x of
          Some y \<Rightarrow> if y \<noteq> LdUnloaded then (ls', [], Some (SaManager (sp_label sp) y))
                    else (ls', sa_status_text prt f name sp s, None)
        | None \<Rightarrow> (ls', sa_status_text prt f name sp s, None)))"

definition setup_agent_log_path :: path where "setup_agent_log_path = ''~/.hermes/logs/setup-agent.jsonl''"

definition run_setup_agent ::
  "svc_env \<Rightarrow> (string, string) result \<Rightarrow> (bytes \<Rightarrow> bool) \<Rightarrow> (ld_err \<Rightarrow> string) \<Rightarrow> faults \<Rightarrow> 'l cmd_runner \<Rightarrow> sa_clock \<Rightarrow> sa_flags \<Rightarrow> string
     \<Rightarrow> fs \<times> 'l \<Rightarrow> (fs \<times> 'l) \<times> string \<times> sa_err option" where
  "run_setup_agent e hostname prt emsg flt rn ck f name w =
     (case map_of known_svcs name of
        None \<Rightarrow> (w, [], Some (SaUnknown name sorted_svc_names))
      | Some sp \<Rightarrow>
          if sf_install f \<and> sf_uninstall f then (w, [], Some SaBoth)
          else (case expand_home_path (sv_home e)
                       (if sf_hermes_dir f = [] then setup_agent_log_path else join_path [sf_hermes_dir f, ''logs'', ''setup-agent.jsonl'']) of
                  Inl m \<Rightarrow> (w, [], Some (SaHome m))
                | Inr lp \<Rightarrow>
                    if sf_install f \<or> sf_uninstall f then
                      (case log_open flt (fst w) lp of
                         Inl (x, fs') \<Rightarrow> ((fs', snd w), [], Some (SaLog x))
                       | Inr (l, fs1) \<Rightarrow>
                           (case (if sf_install f then sa_do_install e hostname emsg flt rn ck f l name sp (fs1, snd w)
                                  else sa_do_uninstall e hostname emsg flt rn ck l name sp (fs1, snd w)) of
                              (w', x) \<Rightarrow> (w', [], x)))
                    else (case sa_do_status prt rn (new_manager (sv_uid e) None) f name sp (snd w) of
                            (ls', out, x) \<Rightarrow> ((fst w, ls'), out, x))))"

section \<open>What the commands change\<close>

lemma install_no_logger:
  assumes "install_plist msg flt rn clk (new_manager uid None) plist p (fs, ls) = ((fs', ls'), x)"
  shows "q \<noteq> p \<Longrightarrow> file_data fs' q = file_data fs q" "x = None \<Longrightarrow> file_data fs' p = Some plist"
proof -
  have "(q \<noteq> p \<longrightarrow> file_data fs' q = file_data fs q) \<and> (x = None \<longrightarrow> file_data fs' p = Some plist)"
  proof (cases "p = [] \<or> plist = []")
    case True
    then have "fs' = fs \<and> x \<noteq> None" using assms by (cases "p = []") (simp_all add: install_plist_def, auto)
    then show ?thesis by auto
  next
    case False
    have n: "ld_quiet (new_manager uid None) y" for y by (simp add: ld_quiet_def new_manager_def)
    show ?thesis using install_ends [OF assms] False ld_log_data [OF n] by (metis (no_types, lifting))
  qed
  then show "q \<noteq> p \<Longrightarrow> file_data fs' q = file_data fs q" "x = None \<Longrightarrow> file_data fs' p = Some plist" by auto
qed

text \<open>Installing an agent writes its property list, the rendered template, and no other file.\<close>

theorem svc_install_exact:
  assumes "svc_install e flt rn clk label tmpl extra (fs, ls) = ((fs', ls'), x)" "agent_plist_path e label = ok p"
  shows "(\<forall>q. q \<noteq> p \<longrightarrow> file_data fs' q = file_data fs q)
    \<and> (x = None \<longrightarrow> (\<exists>v body. lv_label v = label \<and> render_template (sv_src e) (sv_other e) tmpl v = ok body \<and> file_data fs' p = Some body))"
proof (cases "\<exists>home exe a body. sv_home e = ok home \<and> sv_exe e = ok exe \<and> abs_path (sv_wd e) exe = ok a
      \<and> render_template (sv_src e) (sv_other e) tmpl (extra\<lparr> lv_label := label, lv_home_dir := home, lv_script_path := a \<rparr>) = ok body")
  case False
  then have "fs' = fs \<and> x \<noteq> None" using assms by (auto simp: svc_install_def split: sum.splits)
  then show ?thesis by auto
next
  case True
  then obtain home exe a body where t: "sv_home e = ok home" "sv_exe e = ok exe" "abs_path (sv_wd e) exe = ok a"
    "render_template (sv_src e) (sv_other e) tmpl (extra\<lparr> lv_label := label, lv_home_dir := home, lv_script_path := a \<rparr>) = ok body"
    by blast
  obtain y where y: "install_plist (sv_msg e) flt rn clk (new_manager (sv_uid e) None) body p (fs, ls) = ((fs', ls'), y)" "x = map_option SvManager y"
    using assms t by (auto simp: svc_install_def split: prod.splits)
  show ?thesis
    using install_no_logger [OF y(1)] y(2) t(4)
    by (auto intro!: exI [where x = "extra\<lparr> lv_label := label, lv_home_dir := home, lv_script_path := a \<rparr>"])
qed

text \<open>Asking for the status changes no file.\<close>

theorem setup_agent_status_pure:
  assumes "\<not> sf_install f" "\<not> sf_uninstall f"
  shows "fst (fst (run_setup_agent e hostname prt emsg flt rn ck f name w)) = fst w"
  using assms by (auto simp: run_setup_agent_def split: option.splits sum.splits prod.splits)

end
