(* ===== verification/Go_Glob.thy ===== *)
theory Go_Glob
  imports Go_FS Go_Quote
begin

text \<open>
  \<open>filepath.Match\<close> and \<open>filepath.Glob\<close> on Unix.  Patterns are matched chunk by chunk: each run of
  stars is followed by a text without stars, for which the leftmost position is taken.
\<close>

section \<open>Match\<close>

definition decode_first :: "string \<Rightarrow> nat \<times> nat" where
  "decode_first s =
     (if rune_width s = 0 then (0xFFFD, 1)
      else if rune_width s = 1 then (byte (hd s), 1)
      else (rune_value (take (rune_width s) s), rune_width s))"

text \<open>\<open>getEsc\<close>: a character of a class, possibly escaped; an invalid
  byte is an error, and the class must go on after it.\<close>

definition get_esc :: "string \<Rightarrow> (nat \<times> string) option" where
  "get_esc chunk =
     (if chunk = [] \<or> hd chunk = CHR ''-'' \<or> hd chunk = CHR '']'' then None
      else (let c = (if hd chunk = CHR 0x5C then tl chunk else chunk) in
            if c = [] \<or> rune_width c = 0 then None
            else (case decode_first c of (r, n) \<Rightarrow> if drop n c = [] then None else Some (r, drop n c))))"

lemma decode_first_pos: "s \<noteq> [] \<Longrightarrow> decode_first s = (r, n) \<Longrightarrow> 0 < n"
  by (auto simp: decode_first_def split: if_splits)

lemma get_esc_shorter: "get_esc c = Some (r, c') \<Longrightarrow> length c' < length c \<and> c' \<noteq> []"
proof -
  assume a: "get_esc c = Some (r, c')"
  define d where "d = (if hd c = CHR 0x5C then tl c else c)"
  have "c \<noteq> []" "d \<noteq> []" using a by (auto simp: get_esc_def d_def Let_def split: if_splits)
  moreover obtain n where "decode_first d = (r, n)" "c' = drop n d" "c' \<noteq> []"
    using a by (auto simp: get_esc_def d_def [symmetric] Let_def split: if_splits prod.splits)
  moreover have "length d \<le> length c" by (simp add: d_def)
  ultimately show ?thesis using decode_first_pos [of d r n] by (cases d) auto
qed

text \<open>The ranges of a class for the rune \<open>r\<close>: what follows the closing bracket, and whether a range
  matched.\<close>

function class_ranges :: "nat \<Rightarrow> string \<Rightarrow> bool \<Rightarrow> bool \<Rightarrow> (string \<times> bool) option" where
  "class_ranges r chunk some_range m =
     (if chunk \<noteq> [] \<and> hd chunk = CHR '']'' \<and> some_range then Some (tl chunk, m)
      else (case get_esc chunk of
              None \<Rightarrow> None
            | Some (lo, c1) \<Rightarrow>
                if hd c1 = CHR ''-'' then
                  (case get_esc (tl c1) of
                     None \<Rightarrow> None
                   | Some (hi, c2) \<Rightarrow> class_ranges r c2 True (m \<or> lo \<le> r \<and> r \<le> hi))
                else class_ranges r c1 True (m \<or> lo = r)))"
  by pat_completeness auto
termination
proof (relation "measure (\<lambda>(r, chunk, b, m). length chunk)", goal_cases)
  case 1
  then show ?case by simp
next
  case (2 r chunk b m x lo c1 y hi c2)
  then show ?case using get_esc_shorter [of chunk lo c1] get_esc_shorter [of "tl c1" hi c2] by auto
next
  case (3 r chunk b m x lo c1)
  then show ?case using get_esc_shorter [of chunk lo c1] by simp
qed

declare class_ranges.simps [simp del]

lemma class_ranges_shorter: "class_ranges r c b m = Some (c', m') \<Longrightarrow> length c' < length c"
proof (induction r c b m arbitrary: c' m' rule: class_ranges.induct)
  case (1 r chunk b m)
  show ?case
  proof (cases "chunk \<noteq> [] \<and> hd chunk = CHR '']'' \<and> b")
    case True
    then show ?thesis using 1(3) by (subst (asm) class_ranges.simps) (cases chunk, auto)
  next
    case False
    then obtain lo c1 where g: "get_esc chunk = Some (lo, c1)"
      using 1(3) by (subst (asm) class_ranges.simps) (auto split: option.splits)
    show ?thesis
    proof (cases "hd c1 = CHR ''-''")
      case True
      then obtain hi c2 where g2: "get_esc (tl c1) = Some (hi, c2)"
        using 1(3) False g by (subst (asm) class_ranges.simps) (auto split: option.splits if_splits)
      then have "class_ranges r c2 True (m \<or> lo \<le> r \<and> r \<le> hi) = Some (c', m')"
        using 1(3) False g True by (subst (asm) class_ranges.simps) simp
      from 1(1) [OF False g refl True g2 refl this] show ?thesis
        using get_esc_shorter [OF g] get_esc_shorter [OF g2] by auto
    next
      case n: False
      then have "class_ranges r c1 True (m \<or> lo = r) = Some (c', m')"
        using 1(3) False g by (subst (asm) class_ranges.simps) simp
      from 1(2) [OF False g refl n this] show ?thesis using get_esc_shorter [OF g] by simp
    qed
  qed
qed

datatype chunk_result = ChBad | ChNo | ChRest string

text \<open>\<open>matchChunk\<close>.  Once it has failed the chunk is only checked for its syntax.\<close>

function match_chunk :: "bool \<Rightarrow> string \<Rightarrow> string \<Rightarrow> chunk_result" where
  "match_chunk failed [] s = (if failed then ChNo else ChRest s)"
| "match_chunk failed (c # ch) s =
     (let f = (failed \<or> s = []) in
      if c = CHR ''['' then
        (let (r, n) = (if f then (0, 0) else decode_first s);
             negated = (ch \<noteq> [] \<and> hd ch = CHR ''^'')
         in case class_ranges r (if negated then tl ch else ch) False False of
              None \<Rightarrow> ChBad
            | Some (ch', m) \<Rightarrow> match_chunk (f \<or> m = negated) ch' (drop n s))
      else if c = CHR ''?'' then
        match_chunk (f \<or> hd s = SLASH) ch (if f then s else drop (snd (decode_first s)) s)
      else if c = CHR 0x5C then
        (case ch of [] \<Rightarrow> ChBad | d # ch' \<Rightarrow> match_chunk (f \<or> d \<noteq> hd s) ch' (if f then s else tl s))
      else match_chunk (f \<or> c \<noteq> hd s) ch (if f then s else tl s))"
  by pat_completeness auto
termination
proof (relation "measure (\<lambda>(f, ch, s). length ch)", goal_cases)
  case 1
  then show ?case by simp
next
  case (2 failed c ch s f x r n negated y ch' m)
  then show ?case using class_ranges_shorter [of r "if negated then tl ch else ch" False False ch' m]
    by (auto split: if_splits)
qed auto

declare match_chunk.simps(2) [simp del]

text \<open>\<open>scanChunk\<close>: the length of the text up to the next star outside a class.\<close>

fun chunk_len :: "bool \<Rightarrow> string \<Rightarrow> nat" where
  "chunk_len inrange [] = 0"
| "chunk_len inrange (c # s) =
     (if c = CHR 0x5C then (case s of [] \<Rightarrow> 1 | d # t \<Rightarrow> 2 + chunk_len inrange t)
      else if c = CHR ''['' then Suc (chunk_len True s)
      else if c = CHR '']'' then Suc (chunk_len False s)
      else if c = CHR ''*'' \<and> \<not> inrange then 0
      else Suc (chunk_len inrange s))"

definition scan_chunk :: "string \<Rightarrow> bool \<times> string \<times> string" where
  "scan_chunk pat =
     (let p = dropWhile (\<lambda>c. c = CHR ''*'') pat; n = chunk_len False p in (pat \<noteq> [] \<and> hd pat = CHR ''*'', take n p, drop n p))"

text \<open>The positions a star may skip to: the chunk is tried after each byte that is not a separator.\<close>

fun star_skip :: "string \<Rightarrow> bool \<Rightarrow> string \<Rightarrow> chunk_result" where
  "star_skip chunk final [] = ChNo"
| "star_skip chunk final (b # s) =
     (if b = SLASH then ChNo
      else (case match_chunk False chunk s of
              ChBad \<Rightarrow> ChBad
            | ChRest t \<Rightarrow> if final \<and> t \<noteq> [] then star_skip chunk final s else ChRest t
            | ChNo \<Rightarrow> star_skip chunk final s))"

lemma chunk_len_pos: "p \<noteq> [] \<Longrightarrow> hd p \<noteq> CHR ''*'' \<Longrightarrow> 0 < chunk_len False p"
  by (cases p) (auto split: list.splits)

lemma scan_chunk_shorter: "scan_chunk pat = (star, ch, rest) \<Longrightarrow> pat \<noteq> [] \<Longrightarrow> length rest < length pat"
proof -
  assume a: "scan_chunk pat = (star, ch, rest)" "pat \<noteq> []"
  define p where "p = dropWhile (\<lambda>c. c = CHR ''*'') pat"
  have rest: "rest = drop (chunk_len False p) p" using a(1) by (auto simp: scan_chunk_def p_def Let_def)
  have le: "length p \<le> length pat" by (simp add: p_def length_dropWhile_le)
  show ?thesis
  proof (cases "p = []")
    case True
    then show ?thesis using rest a(2) by simp
  next
    case False
    then have "hd p \<noteq> CHR ''*''" using hd_dropWhile [of "\<lambda>c. c = CHR ''*''" pat] by (simp add: p_def)
    with chunk_len_pos [OF False] False show ?thesis using rest le by (cases p) auto
  qed
qed

text \<open>The rest of a pattern that has failed to match is still checked.\<close>

function pattern_bad :: "string \<Rightarrow> bool" where
  "pattern_bad pat =
     (if pat = [] then False
      else (case scan_chunk pat of (_, ch, rest) \<Rightarrow> match_chunk False ch [] = ChBad \<or> pattern_bad rest))"
  by pat_completeness auto
termination by (relation "measure length") (simp, metis in_measure scan_chunk_shorter)

text \<open>\<open>None\<close> is \<open>ErrBadPattern\<close>.\<close>

function path_match :: "string \<Rightarrow> string \<Rightarrow> bool option" where
  "path_match pat name =
     (if pat = [] then Some (name = [])
      else (case scan_chunk pat of (star, ch, rest) \<Rightarrow>
        if star \<and> ch = [] then Some (SLASH \<notin> set name)
        else (let first = match_chunk False ch name;
                  use = (case first of ChRest t \<Rightarrow> t = [] \<or> rest \<noteq> [] | _ \<Rightarrow> False);
                  found = (if use then first else if first = ChBad then ChBad
                           else if star then star_skip ch (rest = []) name else ChNo)
              in case found of
                   ChRest t \<Rightarrow> path_match rest t
                 | ChBad \<Rightarrow> None
                 | ChNo \<Rightarrow> if pattern_bad rest then None else Some False)))"
  by pat_completeness auto
termination by (relation "measure (\<lambda>(pat, name). length pat)") (auto dest: scan_chunk_shorter [OF sym])

declare pattern_bad.simps [simp del] path_match.simps [simp del]

section \<open>Glob\<close>

definition has_meta :: "string \<Rightarrow> bool" where
  "has_meta p \<longleftrightarrow> contains_any p [CHR ''*'', CHR ''?'', CHR ''['', CHR 0x5C]"

text \<open>The matches in one directory; errors of the file system are ignored.\<close>

fun glob_names :: "path \<Rightarrow> string \<Rightarrow> string list \<Rightarrow> path list option" where
  "glob_names dir pat [] = Some []"
| "glob_names dir pat (n # ns) =
     (case path_match pat n of
        None \<Rightarrow> None
      | Some m \<Rightarrow> map_option (\<lambda>r. if m then join2 dir n # r else r) (glob_names dir pat ns))"

definition glob_dir :: "faults \<Rightarrow> fs \<Rightarrow> path \<Rightarrow> string \<Rightarrow> path list option" where
  "glob_dir flt fs dir pat =
     (case os_stat flt fs dir of
        Inr (Dir _) \<Rightarrow>
          (if flt (FOpen dir) \<noteq> None then Some []
           else (case os_read_dir flt fs dir of Inl _ \<Rightarrow> Some [] | Inr es \<Rightarrow> glob_names dir pat (map fst es)))
      | _ \<Rightarrow> Some [])"

definition glob_split :: "string \<Rightarrow> path \<times> string" where
  "glob_split p =
     (case last_index_byte p SLASH of
        None \<Rightarrow> (''.'', p)
      | Some i \<Rightarrow> (if i = 0 then [SLASH] else take i p, drop (Suc i) p))"

lemma last_index_bound: "last_index_byte s c = Some i \<Longrightarrow> i < length s"
  by (induction s arbitrary: i) (auto split: option.splits if_splits)

function path_glob :: "faults \<Rightarrow> fs \<Rightarrow> nat \<Rightarrow> string \<Rightarrow> path list option" where
  "path_glob flt fs depth pat =
     (if depth = 10000 then None
      else if path_match pat [] = None then None
      else if \<not> has_meta pat then (if os_stat flt fs pat = err NotExist \<or> flt (FStat pat) \<noteq> None then Some [] else Some [pat])
      else (case glob_split pat of (dir, fname) \<Rightarrow>
        if \<not> has_meta dir then glob_dir flt fs dir fname
        else (case path_glob flt fs (Suc depth) dir of
                None \<Rightarrow> None
              | Some ds \<Rightarrow>
                  foldl (\<lambda>acc d. case acc of None \<Rightarrow> None | Some ms \<Rightarrow> map_option ((@) ms) (glob_dir flt fs d fname)) (Some []) ds)))"
  by pat_completeness auto
termination
proof (relation "measure (\<lambda>(flt, fs, depth, pat). length pat)", goal_cases)
  case (2 flt fs depth pat dir fname)
  then have "length dir < length pat"
    by (auto simp: glob_split_def has_meta_def contains_any_def split: option.splits if_splits dest!: last_index_bound)
  then show ?case by simp
qed simp

declare path_glob.simps [simp del]

section \<open>Patterns with one star\<close>

abbreviation plain_text :: "string \<Rightarrow> bool" where "plain_text p \<equiv> \<not> has_meta p"

lemma plain_text_Cons: "plain_text (c # p) \<longleftrightarrow> c \<noteq> CHR ''*'' \<and> c \<noteq> CHR ''?'' \<and> c \<noteq> CHR ''['' \<and> c \<noteq> CHR 0x5C \<and> plain_text p"
  by (auto simp: has_meta_def contains_any_def)

lemma plain_text_append: "plain_text (p @ q) \<longleftrightarrow> plain_text p \<and> plain_text q"
  by (auto simp: has_meta_def contains_any_def)

lemma match_plain_failed: "plain_text p \<Longrightarrow> match_chunk True p s = ChNo"
  by (induction p arbitrary: s) (auto simp: match_chunk.simps(2) plain_text_Cons Let_def)

lemma match_plain: "plain_text p \<Longrightarrow> match_chunk False p s = (if has_prefix s p then ChRest (drop (length p) s) else ChNo)"
proof (induction p arbitrary: s)
  case (Cons c p)
  note f = match_plain_failed
  show ?case
  proof (cases s)
    case Nil
    then show ?thesis using Cons.prems f by (auto simp: match_chunk.simps(2) plain_text_Cons Let_def has_prefix_def)
  next
    case (Cons a t)
    then show ?thesis using Cons.IH Cons.prems f by (cases "c = a") (auto simp: match_chunk.simps(2) plain_text_Cons Let_def has_prefix_def)
  qed
qed (simp add: has_prefix_def)

lemma chunk_len_plain: "plain_text p \<Longrightarrow> chunk_len False (p @ CHR ''*'' # q) = length p"
  by (induction p) (auto simp: plain_text_Cons)

lemma chunk_len_all: "plain_text p \<Longrightarrow> chunk_len False p = length p"
  by (induction p) (auto simp: plain_text_Cons)

lemma scan_plain: "plain_text p \<Longrightarrow> p \<noteq> [] \<Longrightarrow> scan_chunk (p @ CHR ''*'' # q) = (False, p, CHR ''*'' # q)"
  by (cases p) (auto simp: scan_chunk_def Let_def plain_text_Cons chunk_len_plain [of p q, simplified] chunk_len_plain)

lemma scan_star: "plain_text p \<Longrightarrow> p \<noteq> [] \<Longrightarrow> scan_chunk (CHR ''*'' # p) = (True, p, [])"
  by (cases p) (auto simp: scan_chunk_def Let_def plain_text_Cons chunk_len_all)

lemma star_skip_suffix:
  "plain_text p \<Longrightarrow> p \<noteq> [] \<Longrightarrow> SLASH \<notin> set s \<Longrightarrow>
     star_skip p True s = (if s \<noteq> [] \<and> has_suffix (tl s) p then ChRest [] else ChNo)"
proof (induction s)
  case (Cons b s)
  have suf: "has_suffix s p \<longleftrightarrow> s = p \<or> s \<noteq> [] \<and> has_suffix (tl s) p"
    using Cons.prems(2) by (cases s) (auto simp: has_suffix_def Suc_diff_le not_less_eq_eq le_Suc_eq)
  have pre: "has_prefix s p \<and> drop (length p) s = [] \<longleftrightarrow> s = p"
    by (auto simp: has_prefix_def)
  show ?case using Cons suf pre by (auto simp: match_plain)
qed simp

lemma path_match_nil: "path_match [] s = Some (s = [])"
  by (simp add: path_match.simps)

lemma pattern_bad_nil: "\<not> pattern_bad []"
  by (simp add: pattern_bad.simps)

lemma path_match_star:
  assumes "plain_text p" "p \<noteq> []" "SLASH \<notin> set s"
  shows "path_match (CHR ''*'' # p) s = Some (has_suffix s p)"
proof -
  have suf: "has_suffix s p \<longleftrightarrow> s = p \<or> s \<noteq> [] \<and> has_suffix (tl s) p"
    using assms(2) by (cases s) (auto simp: has_suffix_def Suc_diff_le not_less_eq_eq le_Suc_eq)
  have pre: "has_prefix s p \<and> drop (length p) s = [] \<longleftrightarrow> s = p" by (auto simp: has_prefix_def)
  show ?thesis
    using assms suf pre
    by (subst path_match.simps) (auto simp: scan_star match_plain star_skip_suffix path_match_nil pattern_bad_nil Let_def)
qed

text \<open>A literal, a star, a literal: the names that begin and end so.\<close>

lemma path_match_one_star:
  assumes "plain_text p" "p \<noteq> []" "plain_text q" "q \<noteq> []" "SLASH \<notin> set s"
  shows "path_match (p @ CHR ''*'' # q) s = Some (\<exists>m. s = p @ m @ q)"
proof (cases "has_prefix s p")
  case True
  then obtain t where t: "s = p @ t" by (elim has_prefixE)
  then have "SLASH \<notin> set t" using assms(5) by simp
  with t assms True show ?thesis
    by (subst path_match.simps) (auto simp: scan_plain match_plain path_match_star Let_def elim!: has_suffixE)
next
  case False
  have "\<not> pattern_bad (CHR ''*'' # q)"
    using assms(3,4) by (subst pattern_bad.simps) (auto simp: scan_star match_plain pattern_bad_nil)
  with False assms show ?thesis
    by (subst path_match.simps) (auto simp: scan_plain match_plain Let_def)
qed

end
