(* ===== verification/Logrotate.thy ===== *)
theory Logrotate
  imports Fleet_Log Go_Glob Go_Tree
begin

declare json_print.simps(3) [simp del]

text \<open>
  The log rotator, \<open>fleetctl logrotate\<close> (\<open>cmd/fleetctl/commands/logrotate.go\<close>).  The gzip writer is
  the argument \<open>gz\<close>: what copying a content through it writes, and what closing it adds.
  \<open>late\<close> is what other processes append to a log through their open descriptors after its content
  was copied.  The last theorems say what is kept and what is not.
\<close>

section \<open>Data\<close>

record rot_summary =
  rs_scanned :: int
  rs_rotated :: int
  rs_skipped :: int
  rs_pruned :: int
  rs_errors :: int

datatype rot_err = RtOpenSrc ioerr | RtCreate ioerr | RtCopy ioerr | RtGzClose ioerr | RtTmpClose ioerr | RtRename ioerr | RtTruncate ioerr

datatype prune_err = PrPattern | PrRemove ioerr

record rot_env =
  re_flt :: faults
  re_gz :: "bytes \<Rightarrow> bytes \<times> bytes"
  re_pid :: int
  re_now :: "string \<Rightarrow> gtime"
  re_late :: "string \<Rightarrow> bytes"
  re_log :: "log_event \<Rightarrow> gtime"
  re_io_msg :: "ioerr \<Rightarrow> string"
  re_rot_msg :: "rot_err \<Rightarrow> string"
  re_prune_msg :: "prune_err \<Rightarrow> string"

section \<open>Settings\<close>

definition positive_or :: "int \<Rightarrow> string \<Rightarrow> int \<Rightarrow> int" where
  "positive_or flag v dflt =
     (if 0 < flag then flag
      else if v \<noteq> [] then (case parse_int v of Some n \<Rightarrow> if 0 < n then n else dflt | None \<Rightarrow> dflt)
      else dflt)"

definition resolve_threshold_bytes :: "int \<Rightarrow> (string \<Rightarrow> string) \<Rightarrow> int" where
  "resolve_threshold_bytes flag getenv = positive_or flag (getenv ''HERMES_LOG_ROTATE_THRESHOLD'') 1048576"

definition resolve_keep :: "int \<Rightarrow> (string \<Rightarrow> string) \<Rightarrow> int" where
  "resolve_keep flag getenv = positive_or flag (getenv ''HERMES_LOG_ROTATE_KEEP'') 5"

section \<open>Rotating one log\<close>

text \<open>\<open>now.Format("20060102T150405Z")\<close>.\<close>

definition rot_stamp :: "gtime \<Rightarrow> string" where
  "rot_stamp t =
     (case civil_from_days (local_secs t div 86400) of (y, m, d) \<Rightarrow>
        let sod = local_secs t mod 86400 in
        year_str y @ pad 2 (nat m) @ pad 2 (nat d) @ ''T''
          @ pad 2 (nat (sod div 3600)) @ pad 2 (nat (sod div 60 mod 60)) @ pad 2 (nat (sod mod 60)) @ ''Z'')"

definition rot_final :: "path \<Rightarrow> gtime \<Rightarrow> path" where
  "rot_final p now = p @ ''.'' @ rot_stamp now @ ''.gz''"

definition rot_tmp :: "path \<Rightarrow> int \<Rightarrow> path" where
  "rot_tmp p pid = p @ ''.rotating.'' @ itoa pid"

definition append_late :: "fs \<Rightarrow> path \<Rightarrow> bytes \<Rightarrow> fs" where
  "append_late fs p b = (case map_of fs p of Some (File old m) \<Rightarrow> AList.update p (File (old @ b) m) fs | _ \<Rightarrow> fs)"

definition write_some :: "faults \<Rightarrow> fs \<Rightarrow> path \<Rightarrow> bytes \<Rightarrow> (ioerr \<times> fs, fs) result" where
  "write_some flt fs p b = (if b = [] then ok fs else os_write flt fs p b)"

definition os_open_read :: "faults \<Rightarrow> fs \<Rightarrow> path \<Rightarrow> (ioerr, unit) result" where
  "os_open_read flt fs p =
     (case flt (FOpen p) of Some (_, m) \<Rightarrow> err (OsErr m) | None \<Rightarrow> if map_of fs p = None then err NotExist else ok ())"

definition rotate_one ::
  "faults \<Rightarrow> (bytes \<Rightarrow> bytes \<times> bytes) \<Rightarrow> int \<Rightarrow> bytes \<Rightarrow> fs \<Rightarrow> path \<Rightarrow> gtime \<Rightarrow> fs \<times> (rot_err, path) result" where
  "rotate_one flt gz pid late fs p now =
     (let tmp = rot_tmp p pid; final = rot_final p now; fail = (\<lambda>f e. (remove_quiet flt f tmp, err e)) in
      case os_open_read flt fs p of Inl e \<Rightarrow> (fs, err (RtOpenSrc e)) | Inr _ \<Rightarrow>
      (case os_open_create flt True fs tmp mode_0644 of Inl e \<Rightarrow> (fs, err (RtCreate e)) | Inr fs1 \<Rightarrow>
      (case os_read_file flt fs1 p of Inl e \<Rightarrow> fail fs1 (RtCopy e) | Inr b \<Rightarrow>
      (case write_some flt fs1 tmp (fst (gz b)) of Inl (e, fs2) \<Rightarrow> fail fs2 (RtCopy e) | Inr fs2 \<Rightarrow>
      (case write_some flt fs2 tmp (snd (gz b)) of Inl (e, fs3) \<Rightarrow> fail fs3 (RtGzClose e) | Inr fs3 \<Rightarrow>
      (case os_close flt tmp of Inl e \<Rightarrow> fail fs3 (RtTmpClose e) | Inr _ \<Rightarrow>
      (case os_rename flt fs3 tmp final of Inl e \<Rightarrow> fail fs3 (RtRename e) | Inr fs4 \<Rightarrow>
         (let fs5 = append_late fs4 p late in
          case os_truncate flt fs5 p of Inl e \<Rightarrow> (fs5, err (RtTruncate e)) | Inr fs6 \<Rightarrow> (fs6, ok final)))))))))"

section \<open>Pruning\<close>

text \<open>The count, and the first error.\<close>

fun remove_each :: "faults \<Rightarrow> path list \<Rightarrow> int \<Rightarrow> ioerr option \<Rightarrow> fs \<Rightarrow> fs \<times> int \<times> ioerr option" where
  "remove_each flt [] k e fs = (fs, k, e)"
| "remove_each flt (p # ps) k e fs =
     (case os_remove flt fs p of
        Inl x \<Rightarrow> remove_each flt ps k (if e = None then Some x else e) fs
      | Inr fs' \<Rightarrow> remove_each flt ps (k + 1) e fs')"

definition prune_rotations :: "faults \<Rightarrow> fs \<Rightarrow> path \<Rightarrow> int \<Rightarrow> fs \<times> int \<times> prune_err option" where
  "prune_rotations flt fs base keep =
     (case path_glob flt fs 0 (base @ ''.*.gz'') of
        None \<Rightarrow> (fs, 0, Some PrPattern)
      | Some ms \<Rightarrow>
          if int (length ms) \<le> keep then (fs, 0, None)
          else (case remove_each flt (take (length ms - nat keep) (sort ms)) 0 None fs of
                  (fs', k, e) \<Rightarrow> (fs', k, map_option PrRemove e)))"

section \<open>All logs\<close>

definition rot_event :: "string \<Rightarrow> string \<Rightarrow> string \<Rightarrow> string \<Rightarrow> log_event" where
  "rot_event node action res tail =
     \<lparr> le_ts = zero_time, le_node = node, le_phase = ''logrotate'', le_action = action, le_result = res, le_duration_ms = 0, le_stderr_tail = tail \<rparr>"

definition rot_log :: "rot_env \<Rightarrow> logger \<Rightarrow> log_event \<Rightarrow> fs \<Rightarrow> fs" where
  "rot_log e l ev fs = log_step (re_flt e) l fs (re_log e ev, ev)"

definition rotate_log ::
  "rot_env \<Rightarrow> logger \<Rightarrow> path \<Rightarrow> int \<Rightarrow> int \<Rightarrow> bool \<Rightarrow> string \<Rightarrow> fs \<times> rot_summary \<Rightarrow> fs \<times> rot_summary" where
  "rotate_log e l dir threshold keep dry name w =
     (let (fs, s0) = w; s = s0\<lparr> rs_scanned := rs_scanned s0 + 1 \<rparr>; p = join2 dir name; lg = rot_log e l in
      case os_stat (re_flt e) fs p of
        Inl x \<Rightarrow> (lg (rot_event name ''stat'' ''error'' (re_io_msg e x)) fs, s\<lparr> rs_errors := rs_errors s + 1 \<rparr>)
      | Inr nd \<Rightarrow>
          (let size = (case nd of File b _ \<Rightarrow> int (length b) | Dir _ \<Rightarrow> 0) in
           if size < threshold then
             (lg (rot_event name ''skip'' ''ok'' (''size='' @ itoa size @ '' threshold='' @ itoa threshold)) fs, s\<lparr> rs_skipped := rs_skipped s + 1 \<rparr>)
           else if dry then
             (lg (rot_event name ''rotate'' ''ok'' (''dry-run size='' @ itoa size)) fs, s\<lparr> rs_rotated := rs_rotated s + 1 \<rparr>)
           else (case rotate_one (re_flt e) (re_gz e) (re_pid e) (re_late e name) fs p (to_utc (re_now e name)) of
                   (fs1, Inl x) \<Rightarrow>
                     (lg (rot_event name ''rotate'' ''error'' (re_rot_msg e x)) fs1, s\<lparr> rs_errors := rs_errors s + 1 \<rparr>)
                 | (fs1, Inr final) \<Rightarrow>
                     (let fs2 = lg (rot_event name ''rotate'' ''ok'' (''size='' @ itoa size @ '' -> '' @ base_path final)) fs1;
                          s1 = s\<lparr> rs_rotated := rs_rotated s + 1 \<rparr>
                      in case prune_rotations (re_flt e) fs2 p keep of
                           (fs3, k, None) \<Rightarrow> (fs3, s1\<lparr> rs_pruned := rs_pruned s1 + k \<rparr>)
                         | (fs3, k, Some x) \<Rightarrow>
                             (lg (rot_event name ''prune'' ''error'' (re_prune_msg e x)) fs3,
                              s1\<lparr> rs_pruned := rs_pruned s1 + k, rs_errors := rs_errors s1 + 1 \<rparr>)))))"

definition rot_wanted :: "path \<Rightarrow> string \<times> bool \<Rightarrow> bool" where
  "rot_wanted self ent \<longleftrightarrow> (case ent of (name, is_d) \<Rightarrow> \<not> is_d \<and> has_suffix name ''.jsonl'' \<and> name \<noteq> base_path self)"

definition zero_summary :: rot_summary where
  "zero_summary = \<lparr> rs_scanned = 0, rs_rotated = 0, rs_skipped = 0, rs_pruned = 0, rs_errors = 0 \<rparr>"

definition summary_text :: "rot_summary \<Rightarrow> int \<Rightarrow> int \<Rightarrow> bool \<Rightarrow> string" where
  "summary_text s threshold keep dry =
     ''scanned='' @ itoa (rs_scanned s) @ '' rotated='' @ itoa (rs_rotated s) @ '' skipped='' @ itoa (rs_skipped s)
       @ '' pruned='' @ itoa (rs_pruned s) @ '' errors='' @ itoa (rs_errors s) @ '' threshold='' @ itoa threshold
       @ '' keep='' @ itoa keep @ '' dry_run='' @ bool_str dry"

definition rotate_all ::
  "rot_env \<Rightarrow> logger \<Rightarrow> path \<Rightarrow> path \<Rightarrow> int \<Rightarrow> int \<Rightarrow> bool \<Rightarrow> fs \<Rightarrow> fs \<times> (ioerr, rot_summary) result" where
  "rotate_all e l dir self threshold keep dry fs =
     (case os_read_dir (re_flt e) fs dir of
        Inl x \<Rightarrow> (rot_log e l (rot_event ''gateway'' ''read-dir'' ''error'' (re_io_msg e x)) fs, err x)
      | Inr ents \<Rightarrow>
          (case fold (rotate_log e l dir threshold keep dry) (map fst (filter (rot_wanted self) ents)) (fs, zero_summary) of
             (fs', s) \<Rightarrow> (rot_log e l (rot_event ''gateway'' ''run-complete'' ''ok'' (summary_text s threshold keep dry)) fs', ok s)))"

section \<open>The command\<close>

datatype lr_err = LrThreshold int | LrKeep int | LrHome string | LrMkdir path ioerr | LrLog log_err | LrRead path ioerr

definition logrotate_logs_dir :: path where "logrotate_logs_dir = ''~/.hermes/logs''"
definition logrotate_log_path :: path where "logrotate_log_path = ''~/.hermes/logs/owera-logrotate.jsonl''"

definition run_logrotate ::
  "rot_env \<Rightarrow> (string, path) result \<Rightarrow> (string \<Rightarrow> string) \<Rightarrow> int \<Rightarrow> int \<Rightarrow> bool \<Rightarrow> bool \<Rightarrow> fs \<Rightarrow> fs \<times> string \<times> lr_err option" where
  "run_logrotate e home getenv threshold_flag keep_flag dry mute fs =
     (let threshold = resolve_threshold_bytes threshold_flag getenv; keep = resolve_keep keep_flag getenv in
      if threshold < 1 then (fs, [], Some (LrThreshold threshold))
      else if keep < 1 then (fs, [], Some (LrKeep keep))
      else (case expand_home_path home logrotate_logs_dir of Inl m \<Rightarrow> (fs, [], Some (LrHome m)) | Inr dir \<Rightarrow>
           (case os_mkdir_all (re_flt e) fs dir mode_0755 of Inl (x, fs') \<Rightarrow> (fs', [], Some (LrMkdir dir x)) | Inr fs1 \<Rightarrow>
           (case expand_home_path home logrotate_log_path of Inl m \<Rightarrow> (fs1, [], Some (LrHome m)) | Inr lp \<Rightarrow>
           (case log_open (re_flt e) fs1 lp of Inl (x, fs') \<Rightarrow> (fs', [], Some (LrLog x)) | Inr (l, fs2) \<Rightarrow>
              (case rotate_all e l dir lp threshold keep dry fs2 of
                 (fs3, Inl x) \<Rightarrow> (fs3, [], Some (LrRead dir x))
               | (fs3, Inr s) \<Rightarrow>
                   (fs3,
                    if mute then []
                    else ''fleetctl logrotate: scanned='' @ itoa (rs_scanned s) @ '' rotated='' @ itoa (rs_rotated s) @ '' skipped='' @ itoa (rs_skipped s)
                           @ '' pruned='' @ itoa (rs_pruned s) @ '' errors='' @ itoa (rs_errors s) @ '' dry_run='' @ bool_str dry
                           @ '' threshold='' @ itoa threshold @ '' keep='' @ itoa keep @ [NL],
                    None)))))))"

section \<open>Nothing is lost in a rotation\<close>

lemma digit_not_r: "is_digit c \<Longrightarrow> c \<noteq> CHR ''r''"
  by (auto simp: is_digit_def byte_def)

lemma year_str_head: "year_str y \<noteq> [] \<and> hd (year_str y) \<noteq> CHR ''r''"
proof -
  have "pad 4 n \<noteq> [] \<and> hd (pad 4 n) \<noteq> CHR ''r''" for n
  proof -
    have "pad 4 n \<noteq> []" by (metis pad_length list.size(3) zero_neq_numeral)
    then show ?thesis using pad_bytes digit_not_r by (metis hd_in_set)
  qed
  moreover have "nat_str n \<noteq> [] \<and> hd (nat_str n) \<noteq> CHR ''r''" for n using nat_str_hd digit_not_r by blast
  ultimately show ?thesis by (simp add: year_str_def Let_def)
qed

lemma stamp_head: "hd (rot_stamp t @ u) \<noteq> CHR ''r''" "rot_stamp t \<noteq> []"
proof -
  obtain y m d where c: "civil_from_days (local_secs t div 86400) = (y, m, d)" by (metis surj_pair)
  show "hd (rot_stamp t @ u) \<noteq> CHR ''r''" "rot_stamp t \<noteq> []"
    using year_str_head [of y] by (simp_all add: rot_stamp_def c Let_def)
qed

lemma rot_paths_distinct: "rot_tmp p pid \<noteq> p" "rot_final p now \<noteq> p" "rot_tmp p pid \<noteq> rot_final p now"
proof -
  show "rot_tmp p pid \<noteq> rot_final p now"
  proof
    assume "rot_tmp p pid = rot_final p now"
    then have "''rotating.'' @ itoa pid = rot_stamp now @ ''.gz''" by (simp add: rot_tmp_def rot_final_def)
    then have "hd (rot_stamp now @ ''.gz'') = CHR ''r''" by (metis append_Cons list.sel(1))
    then show False using stamp_head(1) by blast
  qed
qed (simp_all add: rot_tmp_def rot_final_def)

lemma write_some_effect:
  assumes "write_some flt fs p b = ok fs' \<or> write_some flt fs p b = err (e, fs')"
  shows "q \<noteq> p \<Longrightarrow> map_of fs' q = map_of fs q" "write_some flt fs p b = ok fs' \<Longrightarrow> file_data fs p = Some old \<Longrightarrow> file_data fs' p = Some (old @ b)"
  using assms os_write_other write_ok(1) by (auto simp: write_some_def split: if_splits)

text \<open>C11. In every outcome of a rotation the content of the log is still there: after success compressed
  in the archive, with the log empty; after a failed truncation both compressed and in the log; after
  any other error in the log, with the archive of that name untouched.  What was appended between the
  copy and the truncation survives only when the truncation fails.  No path but the log, the archive and
  the temporary file changes.\<close>

theorem rotation_keeps_content:
  assumes "rotate_one flt gz pid late fs p now = (fs', r)"
  shows "(case r of
            Inr f \<Rightarrow> f = rot_final p now \<and> (\<exists>b. file_data fs p = Some b \<and> file_data fs' f = Some (fst (gz b) @ snd (gz b)) \<and> file_data fs' p = Some [])
          | Inl (RtTruncate _) \<Rightarrow> (\<exists>b. file_data fs p = Some b \<and> file_data fs' (rot_final p now) = Some (fst (gz b) @ snd (gz b)) \<and> file_data fs' p = Some (b @ late))
          | Inl _ \<Rightarrow> map_of fs' p = map_of fs p \<and> map_of fs' (rot_final p now) = map_of fs (rot_final p now))
     \<and> (\<forall>q. q \<noteq> p \<and> q \<noteq> rot_tmp p pid \<and> q \<noteq> rot_final p now \<longrightarrow> map_of fs' q = map_of fs q)"
proof -
  let ?tmp = "rot_tmp p pid" and ?final = "rot_final p now"
  note d = rot_paths_distinct(1) [of p pid] rot_paths_distinct(2) [of p now] rot_paths_distinct(3) [of p pid now]
  define K where "K f \<longleftrightarrow> (\<forall>q. q \<noteq> ?tmp \<longrightarrow> map_of f q = map_of fs q)" for f
  have kq: "K (remove_quiet flt f ?tmp)" if "K f" for f using that by (simp add: K_def remove_quiet_other)
  show ?thesis
  proof (cases "\<exists>x. r = Inl x \<and> K fs' \<and> (\<forall>y. x \<noteq> RtTruncate y)")
    case True
    then show ?thesis using d by (auto simp: K_def split: rot_err.splits)
  next
    case False
    obtain fs1 where s1: "os_open_create flt True fs ?tmp mode_0644 = ok fs1" "os_open_read flt fs p = ok ()"
      using assms False by (auto simp: rotate_one_def Let_def K_def split: sum.splits)
    have k1: "K fs1" and t1: "file_data fs1 ?tmp = Some []" using open_create_ok [OF s1(1)] by (auto simp: K_def)
    obtain b where b: "os_read_file flt fs1 p = ok b"
      using assms False s1 kq [OF k1] by (auto simp: rotate_one_def Let_def split: sum.splits)
    have fb: "file_data fs p = Some b"
      using os_read_file_data [OF b] k1 d(1) file_data_cong by (metis K_def)
    obtain fs2 where s2: "write_some flt fs1 ?tmp (fst (gz b)) = ok fs2"
    proof (cases "write_some flt fs1 ?tmp (fst (gz b))")
      case (Inl ef)
      then have "K (snd ef)" using write_some_effect(1) [of flt fs1 ?tmp "fst (gz b)" "snd ef" "fst ef"] k1 by (simp add: K_def)
      then show ?thesis using assms False s1 b Inl kq by (auto simp: rotate_one_def Let_def split: prod.splits)
    qed auto
    have k2: "K fs2" and t2: "file_data fs2 ?tmp = Some (fst (gz b))"
      using write_some_effect [of flt fs1 ?tmp "fst (gz b)" fs2] s2 k1 t1 by (auto simp: K_def)
    obtain fs3 where s3: "write_some flt fs2 ?tmp (snd (gz b)) = ok fs3"
    proof (cases "write_some flt fs2 ?tmp (snd (gz b))")
      case (Inl ef)
      then have "K (snd ef)" using write_some_effect(1) [of flt fs2 ?tmp "snd (gz b)" "snd ef" "fst ef"] k2 by (simp add: K_def)
      then show ?thesis using assms False s1 b s2 Inl kq by (auto simp: rotate_one_def Let_def split: prod.splits)
    qed auto
    have k3: "K fs3" and t3: "file_data fs3 ?tmp = Some (fst (gz b) @ snd (gz b))"
      using write_some_effect [of flt fs2 ?tmp "snd (gz b)" fs3] s3 k2 t2 by (auto simp: K_def)
    obtain fs4 where s4: "os_close flt ?tmp = ok ()" "os_rename flt fs3 ?tmp ?final = ok fs4"
      using assms False s1 b s2 s3 kq [OF k3] by (auto simp: rotate_one_def Let_def split: sum.splits)
    then obtain n where n: "map_of fs3 ?tmp = Some n" "fs4 = AList.update ?final n (AList.delete ?tmp fs3)"
      by (auto simp: os_rename_def split: option.splits if_splits)
    have m4: "map_of fs4 q = (if q = ?final then map_of fs3 ?tmp else if q = ?tmp then None else map_of fs q)" for q
      using n k3 by (auto simp: K_def update_conv' delete_conv')
    have f4: "file_data fs4 ?final = Some (fst (gz b) @ snd (gz b))" "file_data fs4 p = Some b"
      using t3 fb m4 d by (auto simp: file_data_def)
    have a: "file_data (append_late fs4 p late) p = Some (b @ late)" "q \<noteq> p \<Longrightarrow> map_of (append_late fs4 p late) q = map_of fs4 q" for q
      using f4(2) by (auto simp: append_late_def file_data_def update_conv' split: option.splits fnode.splits)
    have a2: "file_data (append_late fs4 p late) ?final = Some (fst (gz b) @ snd (gz b))"
      using a(2) [of ?final] f4(1) d by (simp add: file_data_def)
    have t: "os_truncate flt (append_late fs4 p late) p = ok f5 \<Longrightarrow> file_data f5 p = Some [] \<and> (\<forall>q. q \<noteq> p \<longrightarrow> map_of f5 q = map_of (append_late fs4 p late) q)" for f5
      by (auto simp: os_truncate_def file_data_def update_conv' split: option.splits fnode.splits)
    show ?thesis
    proof (cases "os_truncate flt (append_late fs4 p late) p")
      case (Inl e)
      then have "r = Inl (RtTruncate e)" "fs' = append_late fs4 p late"
        using assms s1 b s2 s3 s4 by (auto simp: rotate_one_def Let_def)
      then show ?thesis using fb a a2 m4 d by auto
    next
      case (Inr f5)
      then have r: "r = Inr ?final" "fs' = f5" using assms s1 b s2 s3 s4 by (auto simp: rotate_one_def Let_def)
      have "file_data f5 ?final = Some (fst (gz b) @ snd (gz b))" using t [OF Inr] a2 d by (simp add: file_data_def)
      then show ?thesis using r t [OF Inr] fb a(2) m4 d by auto
    qed
  qed
qed

section \<open>Pruning keeps the newest archives\<close>

definition is_rotation :: "string \<Rightarrow> string \<Rightarrow> bool" where
  "is_rotation name n \<longleftrightarrow> has_prefix n (name @ ''.'') \<and> has_suffix (drop (Suc (length name)) n) ''.gz''"

definition rotations :: "fs \<Rightarrow> path \<Rightarrow> string \<Rightarrow> string list" where
  "rotations fs dir name = filter (is_rotation name) (dir_names fs dir)"

lemma is_rotation_iff: "is_rotation name n \<longleftrightarrow> (\<exists>m. n = (name @ ''.'') @ m @ ''.gz'')"
proof
  assume a: "is_rotation name n"
  then obtain t where "n = (name @ ''.'') @ t" by (auto simp: is_rotation_def elim: has_prefixE)
  with a show "\<exists>m. n = (name @ ''.'') @ m @ ''.gz''" by (auto simp: is_rotation_def elim!: has_suffixE)
next
  assume "\<exists>m. n = (name @ ''.'') @ m @ ''.gz''"
  then obtain m where n: "n = (name @ ''.'') @ m @ ''.gz''" by blast
  then have "has_prefix n (name @ ''.'')" by (simp only: has_prefix_append)
  then show "is_rotation name n" using n has_suffix_append [of m "''.gz''"] by (simp add: is_rotation_def)
qed

lemma rotation_plain: "plain_name name \<Longrightarrow> SLASH \<notin> set m \<Longrightarrow> plain_name ((name @ ''.'') @ m @ ''.gz'')"
  by (auto simp: plain_name_def)

lemma sorted_below: "sorted (map (\<lambda>n. (d :: string) @ SLASH # n) ns) = sorted ns"
proof -
  have "(d @ SLASH # a \<le> d @ SLASH # b) = (a \<le> b)" for a b by (induction d) simp_all
  then show ?thesis by (simp add: sorted_wrt_map)
qed

lemma glob_names_filter:
  assumes "list_all (\<lambda>n. path_match pat n = Some (P n)) ns"
  shows "glob_names dir pat ns = Some (map (join2 dir) (filter P ns))"
  using assms by (induction ns) (simp_all del: join_path.simps)

lemma glob_rotations:
  assumes "tidy_fs fs" "tidy_path dir" "is_dir fs dir" "plain_name name" "plain_text (dir @ SLASH # name)"
  shows "path_glob no_faults fs 0 ((dir @ SLASH # name) @ ''.*.gz'') = Some (map (\<lambda>n. dir @ SLASH # n) (rotations fs dir name))"
proof -
  let ?pat = "(dir @ SLASH # name) @ ''.*.gz''"
  have pd: "proper_dir dir" using assms(2) by (rule tidy_proper)
  have pl: "plain_text (dir @ SLASH # name @ ''.'')" "plain_text (name @ ''.'')" "plain_text ''.gz''" "plain_text dir"
    using assms(5) by (auto simp: plain_text_append plain_text_Cons) (simp_all add: has_meta_def contains_any_def)
  have "?pat = (dir @ SLASH # name @ ''.'') @ CHR ''*'' # ''.gz''" by simp
  then have "path_match ?pat [] \<noteq> None" using path_match_one_star [OF pl(1) _ pl(3), of "[]"] by simp
  moreover have "has_meta ?pat" by (simp add: has_meta_def contains_any_def)
  moreover have sp: "glob_split ?pat = (dir, (name @ ''.'') @ CHR ''*'' # ''.gz'')"
  proof -
    have "last_index_byte (dir @ SLASH # (name @ ''.*.gz'')) SLASH = Some (length dir)"
      by (rule last_index_byte_append) (use assms(4) in \<open>auto simp: plain_name_def\<close>)
    moreover have "dir \<noteq> []" using pd by (auto simp: proper_dir_def clean_path_def)
    ultimately show ?thesis by (simp add: glob_split_def)
  qed
  ultimately have g: "path_glob no_faults fs 0 ?pat = glob_dir no_faults fs dir ((name @ ''.'') @ CHR ''*'' # ''.gz'')"
    using pl(4) by (subst path_glob.simps) auto
  have "list_all (\<lambda>n. path_match ((name @ ''.'') @ CHR ''*'' # ''.gz'') n = Some (is_rotation name n)) (dir_names fs dir)"
    unfolding list_all_iff
  proof
    fix n assume "n \<in> set (dir_names fs dir)"
    then have "SLASH \<notin> set n" using dir_names_iff [OF assms(1,2)] by (auto simp: plain_name_def)
    then show "path_match ((name @ ''.'') @ CHR ''*'' # ''.gz'') n = Some (is_rotation name n)"
      using path_match_one_star [OF pl(2) _ pl(3)] by (simp add: is_rotation_iff)
  qed
  note m = glob_names_filter [OF this, of dir]
  have "map (join2 dir) (rotations fs dir name) = map (\<lambda>n. dir @ SLASH # n) (rotations fs dir name)"
  proof (rule map_cong [OF refl])
    fix n assume "n \<in> set (rotations fs dir name)"
    then show "join2 dir n = dir @ SLASH # n" using dir_names_iff [OF assms(1,2)] join2_child [OF pd] by (simp add: rotations_def)
  qed
  then show ?thesis
    using g m assms(3)
    by (auto simp: glob_dir_def os_stat_def os_read_dir_def is_dir_def dir_names_def rotations_def simp del: join_path.simps split: option.splits fnode.splits)
qed

lemma remove_each_files:
  assumes "distinct ps" "list_all (is_file fs) ps" "no_file_parent fs"
  shows "remove_each no_faults ps k e fs = (foldl (\<lambda>f p. AList.delete p f) fs ps, k + int (length ps), e)"
  using assms
proof (induction ps arbitrary: k fs)
  case (Cons p ps)
  have r: "os_remove no_faults fs p = ok (AList.delete p fs)" "no_file_parent (AList.delete p fs)"
    using remove_file [OF Cons.prems(3)] Cons.prems(2) by simp_all
  have "list_all (is_file (AList.delete p fs)) ps"
    using Cons.prems(1,2) by (auto simp: list_all_iff is_file_def delete_conv')
  from Cons.IH [OF _ this r(2)] show ?case using Cons.prems(1) r(1) by simp
qed simp

lemma delete_all_map: "map_of (foldl (\<lambda>f p. AList.delete p f) fs ps) q = (if q \<in> set ps then None else map_of fs q)"
  by (induction ps arbitrary: fs) (auto simp: delete_conv')

lemma delete_all_names:
  assumes "tidy_fs fs" "tidy_path d" "list_all plain_name ns"
  shows "dir_names (foldl (\<lambda>f p. AList.delete p f) fs (map (\<lambda>n. d @ SLASH # n) ns)) d = filter (\<lambda>m. m \<notin> set ns) (dir_names fs d)"
  using assms(1,3)
proof (induction ns arbitrary: fs)
  case (Cons n ns)
  then show ?case using Cons.IH [OF tidy_delete] dir_names_delete [OF Cons.prems(1) assms(2)] by (simp add: conj_commute)
qed simp

lemma prune_newest:
  assumes "tidy_fs fs" "tidy_path dir" "is_dir fs dir" "no_file_parent fs" "plain_name name" "plain_text (dir @ SLASH # name)"
    and "list_all (\<lambda>n. is_file fs (dir @ SLASH # n)) (rotations fs dir name)" "0 \<le> keep"
    and "prune_rotations no_faults fs (dir @ SLASH # name) keep = (fs', k, e)"
  defines "R \<equiv> rotations fs dir name"
  defines "n \<equiv> length R - nat keep"
  shows "rotations fs' dir name = drop n R \<and> k = int n \<and> e = None
    \<and> (\<forall>q. (\<forall>x\<in>set (take n R). q \<noteq> dir @ SLASH # x) \<longrightarrow> map_of fs' q = map_of fs q)"
proof -
  let ?p = "\<lambda>x. dir @ SLASH # x"
  have dn: "distinct R" "sorted R" unfolding R_def rotations_def using dir_names_sorted [of fs dir] by (simp_all add: sorted_wrt_filter)
  have so: "sort (map ?p R) = map ?p R" using dn(2) by (simp add: sorted_below sorted_sort_id)
  note g = glob_rotations [OF assms(1,2,3,5,6), folded R_def]
  have ps: "take n (map ?p R) = map ?p (take n R)" by (simp add: take_map)
  have dist: "distinct (map ?p (take n R))" using dn(1) by (simp add: distinct_map inj_on_def)
  have files: "list_all (is_file fs) (map ?p (take n R))"
    using assms(7) unfolding R_def [symmetric] by (auto simp: list_all_iff dest: in_set_takeD)
  have plain: "list_all plain_name (take n R)"
    using dir_names_iff [OF assms(1,2)] by (auto simp: list_all_iff R_def rotations_def dest: in_set_takeD)
  have r: "fs' = foldl (\<lambda>f p. AList.delete p f) fs (map ?p (take n R)) \<and> k = int n \<and> e = None"
  proof (cases "int (length R) \<le> keep")
    case True
    then have "n = 0" by (simp add: n_def)
    then show ?thesis using assms(9) g True by (simp add: prune_rotations_def)
  next
    case False
    then have "length (take n R) = n" "length R - nat keep = n" by (simp_all add: n_def)
    then show ?thesis
      using assms(9) g False so ps remove_each_files [OF dist files assms(4), of 0 None] by (simp add: prune_rotations_def)
  qed
  have "rotations fs' dir name = filter (\<lambda>m. m \<notin> set (take n R)) R"
    using r delete_all_names [OF assms(1,2) plain] by (simp add: rotations_def R_def conj_commute)
  also have "\<dots> = drop n R"
  proof -
    have "filter (\<lambda>m. m \<notin> set (take n R)) (take n R @ drop n R) = drop n R"
      using dn(1) by (simp only: filter_append) (auto simp: filter_empty_conv filter_id_conv dest: set_take_disj_set_drop_if_distinct [of R n n])
    then show ?thesis by simp
  qed
  finally show ?thesis using r by (auto simp: delete_all_map)
qed

text \<open>C26. Pruning is exact: without faults, for plain names and archives that are plain files, of the archives of a log it keeps the \<open>keep\<close> last
  in name order, which is the order of their time stamps, removes and counts the others, and touches nothing else.\<close>

theorem prune_keeps_newest:
  assumes "tidy_fs fs" "tidy_path dir" "is_dir fs dir" "no_file_parent fs" "plain_name name" "plain_text (dir @ SLASH # name)"
    and "list_all (\<lambda>n. is_file fs (dir @ SLASH # n)) (rotations fs dir name)" "0 \<le> keep"
    and "prune_rotations no_faults fs (dir @ SLASH # name) keep = (fs', k, e)"
  shows "(let R = rotations fs dir name; n = length R - nat keep in
     rotations fs' dir name = drop n R \<and> k = int n \<and> e = None
     \<and> (\<forall>q. (\<forall>x\<in>set (take n R). q \<noteq> dir @ SLASH # x) \<longrightarrow> map_of fs' q = map_of fs q))"
  using prune_newest [OF assms] by (simp add: Let_def)

section \<open>Runs\<close>

lemma rot_log_other: "lg_w l \<noteq> Some q \<Longrightarrow> map_of (rot_log e l ev fs) q = map_of fs q"
  by (simp add: rot_log_def log_step_other)

text \<open>A dry run changes nothing but the log of the rotator.\<close>

theorem dry_run_pure:
  assumes "lg_w l \<noteq> Some q"
  shows "map_of (fst (rotate_all e l dir self threshold keep True fs)) q = map_of fs q"
proof -
  have one: "map_of (fst (rotate_log e l dir threshold keep True n w)) q = map_of (fst w) q" for n w
    using assms by (auto simp: rotate_log_def Let_def rot_log_other split: prod.splits sum.splits simp del: join_path.simps)
  have "map_of (fst (fold (rotate_log e l dir threshold keep True) ns w)) q = map_of (fst w) q" for ns w
    by (induction ns arbitrary: w) (simp_all add: one)
  then show ?thesis using assms by (auto simp: rotate_all_def rot_log_other split: prod.splits sum.splits) (metis fst_conv)
qed

text \<open>Every log that was looked at is counted as rotated, skipped or failed.\<close>

theorem summary_adds_up:
  assumes "rotate_all e l dir self threshold keep dry fs = (fs', ok s)"
  shows "rs_scanned s \<le> rs_rotated s + rs_skipped s + rs_errors s"
proof -
  define bal where "bal x = rs_rotated x + rs_skipped x + rs_errors x - rs_scanned x" for x :: rot_summary
  have one: "bal (snd w) \<le> bal (snd (rotate_log e l dir threshold keep dry n w))" for n w
    by (auto simp: bal_def rotate_log_def Let_def split: prod.splits sum.splits option.splits simp del: join_path.simps)
  have "bal (snd w) \<le> bal (snd (fold (rotate_log e l dir threshold keep dry) ns w))" for ns w
  proof (induction ns arbitrary: w)
    case (Cons n ns)
    show ?case using order_trans [OF one Cons.IH] by simp
  qed simp
  from this [of "(fs, zero_summary)"] show ?thesis
    using assms by (auto simp: rotate_all_def bal_def zero_summary_def split: prod.splits sum.splits) (metis snd_conv diff_ge_0_iff_ge)
qed

definition demo_gz :: "bytes \<Rightarrow> bytes \<times> bytes" where "demo_gz b = (''z'' @ b, ''.'')"

definition demo_rot_fs :: fs where
  "demo_rot_fs = [(''/l'', Dir mode_0755), (''/l/a.jsonl'', File ''xy'' mode_0644), (''/l/a.jsonl.1.gz'', File ''1'' mode_0644),
     (''/l/a.jsonl.2.gz'', File ''2'' mode_0644), (''/l/a.jsonl.b.jsonl.1.gz'', File ''b'' mode_0644), (''/l/c[.jsonl.1.gz'', File ''c'' mode_0644)]"

definition demo_rotated :: "fs \<times> (rot_err, path) result" where
  "demo_rotated = rotate_one no_faults demo_gz 7 ''late'' demo_rot_fs ''/l/a.jsonl'' (time_utc 0)"

theorem rotation_keeps_content_witness:
  "file_data (fst demo_rotated) ''/l/a.jsonl.19700101T000000Z.gz'' = Some ''zxy.'' \<and> file_data (fst demo_rotated) ''/l/a.jsonl'' = Some []"
proof -
  have r: "snd demo_rotated = ok ''/l/a.jsonl.19700101T000000Z.gz''" by code_simp
  have f: "file_data demo_rot_fs ''/l/a.jsonl'' = Some ''xy''" by code_simp
  have "rotate_one no_faults demo_gz 7 ''late'' demo_rot_fs ''/l/a.jsonl'' (time_utc 0) = (fst demo_rotated, snd demo_rotated)"
    by (simp add: demo_rotated_def)
  from rotation_keeps_content [OF this, THEN conjunct1] have
    "''/l/a.jsonl.19700101T000000Z.gz'' = rot_final ''/l/a.jsonl'' (time_utc 0) \<and>
     (\<exists>b. file_data demo_rot_fs ''/l/a.jsonl'' = Some b \<and> file_data (fst demo_rotated) ''/l/a.jsonl.19700101T000000Z.gz'' = Some (fst (demo_gz b) @ snd (demo_gz b))
        \<and> file_data (fst demo_rotated) ''/l/a.jsonl'' = Some [])"
    unfolding r sum.case .
  then show ?thesis unfolding f by (auto simp: demo_gz_def)
qed

text \<open>A second rotation in the same second replaces the first archive.\<close>

theorem same_second_overwrites:
  "let fs1 = append_late (fst demo_rotated) ''/l/a.jsonl'' ''new'';
       r2 = rotate_one no_faults demo_gz 7 [] fs1 ''/l/a.jsonl'' (time_utc 999999999) in
   snd r2 = snd demo_rotated \<and> file_data (fst r2) ''/l/a.jsonl.19700101T000000Z.gz'' = Some ''znew.''"
  by code_simp

lemma demo_rot_tidy: "tidy_fs demo_rot_fs" "tidy_path ''/l''"
  using tidy_paths [of "[''l'']" "''/l''"] tidy_paths [of "[''l'', ''a.jsonl'']" "''/l/a.jsonl''"]
    tidy_paths [of "[''l'', ''a.jsonl.1.gz'']" "''/l/a.jsonl.1.gz''"] tidy_paths [of "[''l'', ''a.jsonl.2.gz'']" "''/l/a.jsonl.2.gz''"]
    tidy_paths [of "[''l'', ''a.jsonl.b.jsonl.1.gz'']" "''/l/a.jsonl.b.jsonl.1.gz''"] tidy_paths [of "[''l'', ''c[.jsonl.1.gz'']" "''/l/c[.jsonl.1.gz''"]
  by (simp_all add: tidy_fs_def demo_rot_fs_def plain_segs_def plain_name_def)

lemma demo_rot_ok:
  "is_dir demo_rot_fs ''/l''" "no_file_parent demo_rot_fs" "plain_name ''a.jsonl''" "plain_text (''/l'' @ SLASH # ''a.jsonl'')"
  "list_all (\<lambda>n. is_file demo_rot_fs (''/l'' @ SLASH # n)) (rotations demo_rot_fs ''/l'' ''a.jsonl'')"
  "rotations demo_rot_fs ''/l'' ''a.jsonl'' = [''a.jsonl.1.gz'', ''a.jsonl.2.gz'', ''a.jsonl.b.jsonl.1.gz'']"
  by code_simp+

theorem prune_keeps_newest_witness:
  "rotations (fst (prune_rotations no_faults demo_rot_fs ''/l/a.jsonl'' 2)) ''/l'' ''a.jsonl'' = [''a.jsonl.2.gz'', ''a.jsonl.b.jsonl.1.gz'']"
proof -
  obtain fs' k e where p: "prune_rotations no_faults demo_rot_fs (''/l'' @ SLASH # ''a.jsonl'') 2 = (fs', k, e)" by (metis surj_pair)
  from prune_keeps_newest [OF demo_rot_tidy demo_rot_ok(1-5) _ p] show ?thesis using p demo_rot_ok(6) by (simp add: Let_def)
qed

text \<open>The archives of a log whose name extends the name of another count among those of the shorter
  name, so the newest archive of \<open>a.jsonl\<close> goes; a log with a bracket in its name is not pruned at all.\<close>

theorem sibling_archives_pruned:
  "rotations (fst (prune_rotations no_faults demo_rot_fs ''/l/a.jsonl'' 1)) ''/l'' ''a.jsonl'' = [''a.jsonl.b.jsonl.1.gz'']"
proof -
  obtain fs' k e where p: "prune_rotations no_faults demo_rot_fs (''/l'' @ SLASH # ''a.jsonl'') 1 = (fs', k, e)" by (metis surj_pair)
  from prune_newest [OF demo_rot_tidy demo_rot_ok(1-5) _ p] show ?thesis using p demo_rot_ok(6) by simp
qed

theorem bracket_not_pruned: "prune_rotations flt fs ''/l/c[.jsonl'' keep = (fs, 0, Some PrPattern)"
proof -
  have "path_match ''/l/c[.jsonl.*.gz'' [] = None" by code_simp
  then show ?thesis by (simp add: prune_rotations_def path_glob.simps)
qed

end
