(* ===== verification/Bootstrap.thy ===== *)
theory Bootstrap
  imports Fleet_Log Ssh_Target Go_Quote Go_Duration Skill_Sync
begin

text \<open>
  One phase of the worker bootstrap, \<open>internal/bootstrap/bootstrap.go\<close>, with the orchestrator
  that \<open>cmd/fleetctl/commands/bootstrap_worker.go\<close> wires to the SSH client.  The worker is an
  argument: it answers a remote command, with the stream given as its standard input, by the commands it
  ran before.  The list of these commands is part of the state, so the theorems can say what was run.
  A phase counts as passed exactly when its script exited with 0, the connection held, and no event on its
  standard error reports an error.
\<close>

declare json_print.simps(3) [simp del]

section \<open>Events on standard error\<close>

record phase_event =
  pe_ts :: string
  pe_node :: string
  pe_phase :: string
  pe_action :: string
  pe_result :: string
  pe_duration_ms :: int
  pe_stderr_tail :: string

definition phase_event_of_members :: "members \<Rightarrow> (json_err, phase_event) result" where
  "phase_event_of_members ms =
     (case get_field dec_string [] ms ''ts'' of Inl x \<Rightarrow> err x | Inr t \<Rightarrow>
     (case get_field dec_string [] ms ''node'' of Inl x \<Rightarrow> err x | Inr n \<Rightarrow>
     (case get_field dec_string [] ms ''phase'' of Inl x \<Rightarrow> err x | Inr p \<Rightarrow>
     (case get_field dec_string [] ms ''action'' of Inl x \<Rightarrow> err x | Inr a \<Rightarrow>
     (case get_field dec_string [] ms ''result'' of Inl x \<Rightarrow> err x | Inr r \<Rightarrow>
     (case get_field dec_int64 0 ms ''duration_ms'' of Inl x \<Rightarrow> err x | Inr d \<Rightarrow>
     (case get_field dec_string [] ms ''stderr_tail'' of Inl x \<Rightarrow> err x | Inr s \<Rightarrow>
        ok \<lparr> pe_ts = t, pe_node = n, pe_phase = p, pe_action = a, pe_result = r, pe_duration_ms = d,
             pe_stderr_tail = s \<rparr>)))))))"

text \<open>\<open>json.Decoder.Decode\<close> on a line that begins with a brace: the first value ends where the
  line so far is valid JSON, and what follows on the line is not read.\<close>

definition decode_first_value :: "(members \<Rightarrow> (json_err, 'a) result) \<Rightarrow> bytes \<Rightarrow> (json_err, 'a) result" where
  "decode_first_value dec line =
     (case find (\<lambda>i. json_valid (take i line)) [0..<Suc (length line)] of
        None \<Rightarrow> err JSyntax
      | Some i \<Rightarrow> unmarshal_with dec (take i line))"

text \<open>\<open>jtext line\<close> is the text of the JSON error for a line.\<close>

fun parse_event_lines :: "(string \<Rightarrow> string) \<Rightarrow> string list \<Rightarrow> phase_event list \<times> string list" where
  "parse_event_lines jtext [] = ([], [])"
| "parse_event_lines jtext (raw # ls) =
     (let line = trim_space raw; rest = parse_event_lines jtext ls in
      if line = [] then rest
      else if \<not> has_prefix line ''{'' then rest
      else (case decode_first_value phase_event_of_members line of
              Inl _ \<Rightarrow> (fst rest, (''parse error: '' @ jtext line @ '' (line: '' @ line @ '')'') # snd rest)
            | Inr ev \<Rightarrow> (ev # fst rest, snd rest)))"

definition parse_events :: "(string \<Rightarrow> string) \<Rightarrow> string \<Rightarrow> phase_event list \<times> string list" where
  "parse_events jtext stderr = parse_event_lines jtext (split_on NL stderr)"

section \<open>Results\<close>

record phase_result =
  pr_phase :: string
  pr_exit :: int
  pr_events :: "phase_event list"
  pr_parse_errs :: "string list"
  pr_duration :: int

definition no_result :: "string \<Rightarrow> phase_result" where
  "no_result p = \<lparr> pr_phase = p, pr_exit = 0, pr_events = [], pr_parse_errs = [], pr_duration = 0 \<rparr>"

definition phase_ok :: "phase_result \<Rightarrow> bool" where
  "phase_ok r =
     (if pr_exit r \<noteq> 0 then False else \<not> list_ex (\<lambda>e. pe_result e = ''error'') (pr_events r))"

definition phase_summary :: "phase_result \<Rightarrow> string" where
  "phase_summary r =
     (let status = (if \<not> phase_ok r then ''exit='' @ itoa (pr_exit r) else ''ok'') in
      pr_phase r @ '': '' @ status @ '' ('' @ nat_str (length (pr_events r)) @ '' events, ''
        @ itoa (quot_trunc (pr_duration r) 1000000) @ ''ms)'')"

definition event_report :: "phase_event \<Rightarrow> string" where
  "event_report e =
     (let tail = (if pe_stderr_tail e \<noteq> [] then ''  err='' @ pe_stderr_tail e else []) in
      ''  ['' @ pe_phase e @ ''] '' @ pe_action e @ '' '' @ [CHR 0xE2, CHR 0x86, CHR 0x92] @ '' '' @ pe_result e
        @ '' ('' @ itoa (pe_duration_ms e) @ ''ms)'' @ tail @ [NL])"

definition write_report :: "phase_result \<Rightarrow> string" where
  "write_report r =
     ''=== '' @ pr_phase r @ '' ==='' @ [NL]
     @ ''Exit: '' @ itoa (pr_exit r) @ ''  Duration: '' @ duration_string (duration_round (pr_duration r) 1000000) @ [NL]
     @ concat (map event_report (pr_events r))
     @ concat (map (\<lambda>p. ''  PARSE-ERR: '' @ p @ [NL]) (pr_parse_errs r))"

section \<open>The worker\<close>

text \<open>A remote command, and for an upload the stream that is its standard input.\<close>

type_synonym worker_op = "string \<times> (bytes \<times> string option) option"

type_synonym worker = "worker_op list \<Rightarrow> worker_op \<Rightarrow> ssh_result \<times> string option"

record bw_world =
  bw_fs :: fs
  bw_ops :: "worker_op list"
  bw_out :: string

definition ask_worker :: "worker \<Rightarrow> worker_op \<Rightarrow> bw_world \<Rightarrow> (ssh_result \<times> string option) \<times> bw_world" where
  "ask_worker wk x w = (wk (bw_ops w) x, w\<lparr> bw_ops := bw_ops w @ [x] \<rparr>)"

datatype up_err = UpOpen path ioerr | UpTransport path path string | UpExit path path int string

definition upload_cmd :: "path \<Rightarrow> string" where
  "upload_cmd r = ''cat > '' @ r @ '' && chmod +x '' @ r"

definition upload :: "faults \<Rightarrow> worker \<Rightarrow> path \<Rightarrow> path \<Rightarrow> bw_world \<Rightarrow> up_err option \<times> bw_world" where
  "upload flt wk lp rp w =
     (case open_stream flt (bw_fs w) lp of
        Inl e \<Rightarrow> (Some (UpOpen lp e), w)
      | Inr stm \<Rightarrow>
          (case ask_worker wk (upload_cmd rp, Some stm) w of
             ((res, e), w') \<Rightarrow>
               (case e of
                  Some m \<Rightarrow> (Some (UpTransport lp rp m), w')
                | None \<Rightarrow> if sr_exit_code res \<noteq> 0 then (Some (UpExit lp rp (sr_exit_code res) (sr_stderr res)), w')
                          else (None, w'))))"

section \<open>One phase\<close>

datatype rp_err = RpGetwd string | RpNoScriptDir | RpNotFound path | RpUpload string up_err

definition default_script_dir :: "faults \<Rightarrow> (string, path) result \<Rightarrow> fs \<Rightarrow> (rp_err, path) result" where
  "default_script_dir flt wd fs =
     (case wd of
        Inl m \<Rightarrow> err (RpGetwd m)
      | Inr d \<Rightarrow> (case os_stat flt fs (join2 d ''remote'') of Inr _ \<Rightarrow> ok (join2 d ''remote'') | Inl _ \<Rightarrow> err RpNoScriptDir))"

definition build_run_cmd :: "path \<Rightarrow> string list \<Rightarrow> string" where
  "build_run_cmd rp args = join_with '' '' ([''bash'', rp] @ args)"

text \<open>The end of \<open>RunPhase\<close>: the result from the answer of the run.\<close>

definition phase_answer :: "(string \<Rightarrow> string) \<Rightarrow> string \<Rightarrow> int \<Rightarrow> ssh_result \<times> string option \<Rightarrow> phase_result" where
  "phase_answer jtext script dur a =
     (let exit = sr_exit_code (fst a);
          res = \<lparr> pr_phase = script, pr_exit = exit, pr_events = [], pr_parse_errs = [], pr_duration = dur \<rparr>;
          res1 = (case snd a of
                    Some m \<Rightarrow> if exit = 0 then res\<lparr> pr_exit := -1, pr_parse_errs := [''transport error: '' @ m] \<rparr> else res
                  | None \<Rightarrow> res);
          evs = parse_events jtext (sr_stderr (fst a))
      in res1\<lparr> pr_events := fst evs, pr_parse_errs := snd evs \<rparr>)"

definition run_phase ::
  "faults \<Rightarrow> (string, path) result \<Rightarrow> (string \<Rightarrow> string) \<Rightarrow> worker \<Rightarrow> path \<Rightarrow> int \<Rightarrow> string \<Rightarrow> string list \<Rightarrow> bw_world
     \<Rightarrow> (phase_result \<times> rp_err option) \<times> bw_world" where
  "run_phase flt wd jtext wk sdir dur script args w =
     (case (if sdir = [] then default_script_dir flt wd (bw_fs w) else ok sdir) of
        Inl e \<Rightarrow> ((no_result script, Some e), w)
      | Inr d \<Rightarrow>
          (let lp = join2 d script in
           if os_stat flt (bw_fs w) lp = err NotExist then ((no_result script, Some (RpNotFound lp)), w)
           else (case upload flt wk lp (''/tmp/'' @ script) w of
                   (Some e, w') \<Rightarrow> ((no_result script, Some (RpUpload script e)), w')
                 | (None, w') \<Rightarrow>
                     (case ask_worker wk (build_run_cmd (''/tmp/'' @ script) args, None) w' of
                        (a, w'') \<Rightarrow> ((phase_answer jtext script dur a, None), w'')))))"

section \<open>When a phase passes\<close>

lemma phase_answer_exit:
  "pr_exit (phase_answer jtext s d (r, e)) = (if e \<noteq> None \<and> sr_exit_code r = 0 then -1 else sr_exit_code r)"
  "pr_events (phase_answer jtext s d (r, e)) = fst (parse_events jtext (sr_stderr r))"
  "pr_phase (phase_answer jtext s d (r, e)) = s" "pr_duration (phase_answer jtext s d (r, e)) = d"
  by (auto simp: phase_answer_def Let_def split: option.splits)

lemma phase_answer_duration: "pr_duration (phase_answer jtext s d a) = d"
  by (cases a) (simp add: phase_answer_exit)

theorem phase_passes:
  "phase_ok (phase_answer jtext s d (r, e)) \<longleftrightarrow>
     e = None \<and> sr_exit_code r = 0 \<and> list_all (\<lambda>v. pe_result v \<noteq> ''error'') (fst (parse_events jtext (sr_stderr r)))"
  by (auto simp: phase_ok_def phase_answer_exit list_ex_iff list_all_iff)

text \<open>The note about a lost connection is replaced by the parse errors, so the report never shows it.\<close>

theorem transport_note_lost:
  "pr_parse_errs (phase_answer jtext s d (r, Some m)) = snd (parse_events jtext (sr_stderr r))"
  by (simp add: phase_answer_def Let_def)

text \<open>What one phase does on the worker: at most the upload of its script and then the run, on the
  files as they are.\<close>

lemma upload_effect:
  assumes "upload flt wk lp rp w = (e, w')"
  shows "bw_fs w' = bw_fs w" "bw_out w' = bw_out w"
    "\<exists>new. bw_ops w' = bw_ops w @ new \<and> list_all (\<lambda>x. fst x = upload_cmd rp) new \<and> (e = None \<longrightarrow> new \<noteq> [])"
  using assms by (auto simp: upload_def ask_worker_def split: sum.splits option.splits prod.splits if_splits)

lemma run_phase_effect:
  assumes "run_phase flt wd jtext wk sdir dur script args w = ((res, e), w')"
  shows "bw_fs w' = bw_fs w \<and> bw_out w' = bw_out w \<and>
    (if e = None then \<exists>hist. bw_ops w' = hist @ [(build_run_cmd (''/tmp/'' @ script) args, None)]
           \<and> res = phase_answer jtext script dur (wk hist (build_run_cmd (''/tmp/'' @ script) args, None))
           \<and> (\<exists>new. hist = bw_ops w @ new \<and> list_all (\<lambda>x. fst x = upload_cmd (''/tmp/'' @ script)) new)
     else res = no_result script \<and> (\<exists>new. bw_ops w' = bw_ops w @ new \<and> list_all (\<lambda>x. fst x = upload_cmd (''/tmp/'' @ script)) new))"
proof (cases "if sdir = [] then default_script_dir flt wd (bw_fs w) else ok sdir")
  case (Inl x)
  then show ?thesis using assms by (auto simp: run_phase_def)
next
  case (Inr d)
  let ?lp = "join2 d script"
  show ?thesis
  proof (cases "os_stat flt (bw_fs w) ?lp = err NotExist")
    case True
    then show ?thesis using assms Inr by (auto simp: run_phase_def simp del: join_path.simps)
  next
    case False
    obtain ue w1 where u: "upload flt wk ?lp (''/tmp/'' @ script) w = (ue, w1)" by (metis surj_pair)
    note f = upload_effect [OF u]
    show ?thesis
      using assms Inr False u f
      by (cases ue) (auto simp: run_phase_def ask_worker_def simp del: join_path.simps)
  qed
qed

end
