(* ===== verification/Bootstrap_Worker.thy ===== *)
theory Bootstrap_Worker
  imports Bootstrap Hermes_Release
begin

text \<open>
  \<open>fleetctl bootstrap-worker\<close>, \<open>cmd/fleetctl/commands/bootstrap_worker.go\<close>: the arguments and
  uploads of each of the ten phases, the bundle of phase 4, and the loop that runs the phases in order,
  logs one event for each and stops at the first that failed.  The shell scripts of the phases run on the
  worker, which is an argument.  The theorems say that the log tells which phases ran and how, that a phase
  only runs after all phases before it passed, and that Hermes is only ever installed at the tag its pinned
  version resolved to.
\<close>

section \<open>Flags\<close>

record bw_flags =
  bf_node :: string
  bf_phase :: string
  bf_script_dir :: path
  bf_dry_run :: bool
  bf_quiet :: bool
  bf_pinned_version :: string
  bf_pinned_file :: path
  bf_config_src :: path
  bf_env_gpg :: path
  bf_secrets_wrapper :: path
  bf_dedicated_key :: path
  bf_plist_template :: path
  bf_gateway_prefix :: path
  bf_allow_exist_admin :: bool
  bf_skip_tirith :: bool
  bf_skip_heartbeat :: bool
  bf_heartbeat_wait :: int
  bf_hermes_uid :: int
  bf_node_label :: string

definition default_hermes_user :: string where "default_hermes_user = ''hermes''"
definition default_hermes_uid :: int where "default_hermes_uid = 502"

definition phase_list :: "string list" where
  "phase_list =
     [''phase00_brew_baseline.sh'', ''phase01_verify_prereqs.sh'', ''phase02_create_user.sh'', ''phase03_install_hermes.sh'',
      ''phase04_seed_config.sh'', ''phase05_distribute_secrets.sh'', ''phase06_setup_dedicated_key.sh'',
      ''phase07_install_tirith.sh'', ''phase08_launchd_heartbeat.sh'', ''phase09_verify.sh'']"

definition phases_to_run :: "bw_flags \<Rightarrow> string list" where
  "phases_to_run fl = (if bf_phase fl \<noteq> [] then [bf_phase fl] else phase_list)"

definition phases_need_install_tag :: "string list \<Rightarrow> bool" where
  "phases_need_install_tag ps = list_ex (\<lambda>p. p = ''phase03_install_hermes.sh'') ps"

section \<open>The world outside\<close>

text \<open>Calls on the \<open>tar.Writer\<close>: a header with name, mode and size, and data.\<close>

datatype tw_call = TwHeader string nat nat | TwData bytes

text \<open>\<open>be_draw\<close> gives the random parts of temp file names, \<open>be_hdr\<close> the error of a header that
  the tar format cannot hold, \<open>be_tgz\<close> the compressed archive of a list of calls, and \<open>be_late\<close> tells
  whether a failing write of it shows only when the writers are closed.\<close>

record bw_env =
  be_flt :: faults
  be_home :: "(string, path) result"
  be_wd :: "(string, path) result"
  be_tmp :: path
  be_draw :: "string list"
  be_dial :: "target \<Rightarrow> string option"
  be_worker :: worker
  be_listing :: "(list_err, release list) result"
  be_jtext :: "string \<Rightarrow> string"
  be_print :: "bytes \<Rightarrow> bool"
  be_hdr :: "string \<Rightarrow> string option"
  be_tgz :: "tw_call list \<Rightarrow> bytes"
  be_late :: bool
  be_elapsed :: "nat \<Rightarrow> int"
  be_clk :: "nat \<Rightarrow> gtime"

datatype prep_err =
    PpNoPin string | PpHome string string | PpNoConfig path | PpTemp ioerr | PpTar string | PpTarDepth | PpNoEnv path
  | PpNoPub path | PpNoTemplate path "path list" | PpReadTemplate path ioerr

datatype bw_err =
    BwNoNode | BwTarget target_err | BwHome string | BwLog log_err | BwDial target string | BwPinHome string | BwPinRead path ioerr
  | BwNoResolver | BwResolve string resolve_err | BwEmptyTag string | BwNoPhases | BwPrep string prep_err
  | BwPrepare string up_err | BwPhase string rp_err | BwFailed string int | BwSomeFailed

section \<open>The pinned version\<close>

fun first_line :: "string list \<Rightarrow> string" where
  "first_line [] = []"
| "first_line (l # ls) = (let t = trim_space l in if t \<noteq> [] then t else first_line ls)"

definition resolve_pinned_version :: "bw_env \<Rightarrow> bw_flags \<Rightarrow> fs \<Rightarrow> (bw_err, string) result" where
  "resolve_pinned_version env fl fs =
     (if bf_pinned_version fl \<noteq> [] then ok (trim_space (bf_pinned_version fl))
      else if bf_pinned_file fl = [] then ok []
      else (case expand_home_path (be_home env) (bf_pinned_file fl) of
              Inl m \<Rightarrow> err (BwPinHome m)
            | Inr p \<Rightarrow> (case os_read_file (be_flt env) fs p of
                  Inl NotExist \<Rightarrow> ok []
                | Inl e \<Rightarrow> err (BwPinRead p e)
                | Inr b \<Rightarrow> ok (first_line (split_on NL b)))))"

text \<open>\<open>bwInstallTagResolver\<close> with the resolver of \<open>hermesrelease.Default\<close>.\<close>

definition install_tag_resolver :: "bw_env \<Rightarrow> string \<Rightarrow> fs \<Rightarrow> (bw_err, string) result \<times> fs" where
  "install_tag_resolver env semver fs =
     (if semver = [] then (ok [], fs)
      else (case resolver_default (be_home env) (be_listing env) of
              None \<Rightarrow> (err BwNoResolver, fs)
            | Some r \<Rightarrow>
                (case resolve (be_flt env) fs r semver of
                   (Inl e, fs') \<Rightarrow> (err (BwResolve semver e), fs')
                 | (Inr tag, fs') \<Rightarrow> (ok tag, fs'))))"

section \<open>Temp files\<close>

text \<open>\<open>os.CreateTemp("", pre*suf)\<close>.\<close>

definition create_temp_in :: "bw_env \<Rightarrow> string \<Rightarrow> string \<Rightarrow> fs \<Rightarrow> (ioerr, path \<times> fs) result" where
  "create_temp_in env pre suf fs = create_temp (be_flt env) (map (\<lambda>r. r @ suf) (be_draw env)) fs (be_tmp env) pre"

text \<open>\<open>WriteString\<close> with its error dropped.\<close>

definition write_quiet :: "faults \<Rightarrow> fs \<Rightarrow> path \<Rightarrow> bytes \<Rightarrow> fs" where
  "write_quiet flt fs p b = (case os_write flt fs p b of Inl (_, fs') \<Rightarrow> fs' | Inr fs' \<Rightarrow> fs')"

definition chmod_quiet :: "faults \<Rightarrow> fs \<Rightarrow> path \<Rightarrow> nat \<Rightarrow> fs" where
  "chmod_quiet flt fs p m = (case os_chmod flt fs p m of Inl _ \<Rightarrow> fs | Inr fs' \<Rightarrow> fs')"

section \<open>The bundle of phase 4\<close>

text \<open>\<open>walkTar\<close>: the calls on the writer and the error that stopped the walk.  The stores of this
  model have no symbolic links; \<open>fuel\<close> bounds the depth.\<close>

datatype tar_fail = TarDepth | TarFail string

fun tar_seq :: "(tw_call list \<times> tar_fail option) list \<Rightarrow> tw_call list \<times> tar_fail option" where
  "tar_seq [] = ([], None)"
| "tar_seq ((cs, e) # rs) = (case e of Some x \<Rightarrow> (cs, Some x) | None \<Rightarrow> (case tar_seq rs of (ds, f) \<Rightarrow> (cs @ ds, f)))"

primrec walk_tar :: "(string \<Rightarrow> string option) \<Rightarrow> faults \<Rightarrow> fs \<Rightarrow> path \<Rightarrow> nat \<Rightarrow> path \<Rightarrow> fnode \<Rightarrow> tw_call list \<times> tar_fail option" where
  "walk_tar hdr flt fs root 0 p info = ([], Some TarDepth)"
| "walk_tar hdr flt fs root (Suc n) p info =
     (case rel_path root p of
        None \<Rightarrow> ([], Some (TarFail ''Rel''))
      | Some rel \<Rightarrow>
          (case info of
             Dir m \<Rightarrow>
               (case hdr (rel @ ''/'') of
                  Some e \<Rightarrow> ([], Some (TarFail e))
                | None \<Rightarrow>
                    (case os_read_dir flt fs p of
                       Inl _ \<Rightarrow> ([TwHeader (rel @ ''/'') m 0], Some (TarFail ''readdir''))
                     | Inr es \<Rightarrow>
                         tar_seq (([TwHeader (rel @ ''/'') m 0], None) #
                           map (\<lambda>(nm, _). case os_stat flt fs (join2 p nm) of
                                  Inl _ \<Rightarrow> ([], Some (TarFail ''info''))
                                | Inr i \<Rightarrow> walk_tar hdr flt fs root n (join2 p nm) i) es)))
           | File b m \<Rightarrow>
               (case hdr rel of
                  Some e \<Rightarrow> ([], Some (TarFail e))
                | None \<Rightarrow>
                    (case open_stream flt fs p of
                       Inl _ \<Rightarrow> ([TwHeader rel m (length b)], Some (TarFail ''open''))
                     | Inr (_, Some e) \<Rightarrow> ([TwHeader rel m (length b)], Some (TarFail e))
                     | Inr (c, None) \<Rightarrow> ([TwHeader rel m (length b), TwData c], None)))))"

text \<open>The names that exist, and the calls for them.\<close>

definition tar_members :: "(string \<Rightarrow> string option) \<Rightarrow> faults \<Rightarrow> fs \<Rightarrow> path \<Rightarrow> string list \<Rightarrow> (tw_call list \<times> tar_fail option) list" where
  "tar_members hdr flt fs root names =
     List.map_filter (\<lambda>nm. case os_stat flt fs (join2 root nm) of
        Inl _ \<Rightarrow> None | Inr i \<Rightarrow> Some (walk_tar hdr flt fs root (walk_fuel fs) (join2 root nm) i)) names"

definition tar_gzip_dir :: "bw_env \<Rightarrow> path \<Rightarrow> path \<Rightarrow> string list \<Rightarrow> fs \<Rightarrow> (prep_err \<times> fs, fs) result" where
  "tar_gzip_dir env root dest names fs =
     (case os_open_create (be_flt env) True fs dest 438 of
        Inl _ \<Rightarrow> err (PpTar ''create'', fs)
      | Inr fs1 \<Rightarrow>
          (let ms = tar_members (be_hdr env) (be_flt env) fs1 root names in
           case tar_seq ms of (cs, e) \<Rightarrow>
             (let put = os_write (be_flt env) fs1 dest (be_tgz env cs);
                  fs2 = (case put of Inl (_, f) \<Rightarrow> f | Inr f \<Rightarrow> f) in
              if (case put of Inl _ \<Rightarrow> \<not> be_late env | Inr _ \<Rightarrow> False) then err (PpTar ''write'', fs2)
              else (case e of
                      Some TarDepth \<Rightarrow> err (PpTarDepth, fs2)
                    | Some (TarFail m) \<Rightarrow> err (PpTar m, fs2)
                    | None \<Rightarrow> if ms = [] then err (PpTar ''none existed'', fs2) else ok fs2))))"

section \<open>What each phase needs\<close>

text \<open>The arguments of the script, the uploads before it and the temp files to remove after it.\<close>

record phase_prep =
  pp_args :: "string list"
  pp_uploads :: "(path \<times> path) list"
  pp_temps :: "path list"

definition only_args :: "string list \<Rightarrow> phase_prep" where
  "only_args a = \<lparr> pp_args = a, pp_uploads = [], pp_temps = [] \<rparr>"

definition opt_arg :: "bool \<Rightarrow> string \<Rightarrow> string list" where
  "opt_arg b a = (if b then [a] else [])"

definition config_bundle_or_default :: "bw_flags \<Rightarrow> path" where
  "config_bundle_or_default fl = (if bf_config_src fl \<noteq> [] then bf_config_src fl else bf_gateway_prefix fl)"

definition build_phase04 :: "bw_env \<Rightarrow> bw_flags \<Rightarrow> string list \<Rightarrow> fs \<Rightarrow> (prep_err, phase_prep) result \<times> fs" where
  "build_phase04 env fl common fs =
     (case expand_home_path (be_home env) (config_bundle_or_default fl) of
        Inl m \<Rightarrow> (err (PpHome ''config-src'' m), fs)
      | Inr src \<Rightarrow>
          (let cfg = join2 src ''config.yaml'' in
           case os_stat (be_flt env) fs cfg of
             Inl _ \<Rightarrow> (err (PpNoConfig cfg), fs)
           | Inr _ \<Rightarrow>
               (case create_temp_in env ''phase04-bundle-'' ''.tar.gz'' fs of
                  Inl e \<Rightarrow> (err (PpTemp e), fs)
                | Inr (tmp, fs1) \<Rightarrow>
                    (case tar_gzip_dir env src tmp [''config.yaml'', ''skills'', ''templates''] fs1 of
                       Inl (e, fs2) \<Rightarrow> (err e, remove_quiet (be_flt env) fs2 tmp)
                     | Inr fs2 \<Rightarrow>
                         (case expand_home_path (be_home env) (bf_gateway_prefix fl) of
                            Inl m \<Rightarrow> (err (PpHome ''gateway-prefix'' m), remove_quiet (be_flt env) fs2 tmp)
                          | Inr pre \<Rightarrow>
                              (ok \<lparr> pp_args = [''--config-bundle'', ''/tmp/hermes-config-bundle.tar.gz'', ''--gateway-hermes-prefix'', pre] @ common,
                                    pp_uploads = [(tmp, ''/tmp/hermes-config-bundle.tar.gz'')], pp_temps = [tmp] \<rparr>, fs2))))))"

definition run_with_secrets_template :: bytes where
  "run_with_secrets_template = concat (map (\<lambda>l. l @ [NL])
     [''#!/usr/bin/env bash'',
      ''# run-with-secrets.sh '' @ [CHR 0xE2, CHR 0x80, CHR 0x94] @ '' decrypts .env.gpg into the environment of the'',
      ''# subsequent command and execs it. Plaintext is never written to disk.'',
      ''set -euo pipefail'',
      ''ENV_FILE='' @ [DQ] @ ''${HERMES_ENV_GPG:-$HOME/.hermes/.env.gpg}'' @ [DQ],
      ''if [ ! -f '' @ [DQ] @ ''$ENV_FILE'' @ [DQ] @ '' ]; then'',
      ''  echo '' @ [DQ] @ ''run-with-secrets: $ENV_FILE not found'' @ [DQ] @ '' >&2'',
      ''  exit 1'',
      ''fi'',
      ''# shellcheck disable=SC2046'',
      ''exec env $(gpg -d --batch --quiet '' @ [DQ] @ ''$ENV_FILE'' @ [DQ] @ '' 2>/dev/null '' @ [BSL],
      ''            | grep -v '' @ [CHR 0x27] @ ''^[[:space:]]*#'' @ [CHR 0x27] @ '' '' @ [BSL],
      ''            | grep -v '' @ [CHR 0x27] @ ''^[[:space:]]*$'' @ [CHR 0x27] @ '') '' @ [DQ] @ ''$@'' @ [DQ]])"

definition build_phase05 :: "bw_env \<Rightarrow> bw_flags \<Rightarrow> string list \<Rightarrow> fs \<Rightarrow> (prep_err, phase_prep) result \<times> fs" where
  "build_phase05 env fl common fs =
     (case expand_home_path (be_home env) (bf_env_gpg fl) of
        Inl m \<Rightarrow> (err (PpHome ''env-gpg'' m), fs)
      | Inr src \<Rightarrow>
          (case os_stat (be_flt env) fs src of
             Inl _ \<Rightarrow> (err (PpNoEnv src), fs)
           | Inr _ \<Rightarrow>
               (let prep = (\<lambda>wrapper temps.
                      \<lparr> pp_args = [''--env-gpg'', ''/tmp/.env.gpg'', ''--wrapper'', ''/tmp/run-with-secrets.sh''] @ common,
                        pp_uploads = [(src, ''/tmp/.env.gpg''), (wrapper, ''/tmp/run-with-secrets.sh'')], pp_temps = temps \<rparr>) in
                if bf_secrets_wrapper fl \<noteq> [] then
                  (case expand_home_path (be_home env) (bf_secrets_wrapper fl) of
                     Inl m \<Rightarrow> (err (PpHome ''secrets-wrapper'' m), fs)
                   | Inr wr \<Rightarrow> (ok (prep wr []), fs))
                else
                  (case create_temp_in env ''run-with-secrets-'' ''.sh'' fs of
                     Inl e \<Rightarrow> (err (PpTemp e), fs)
                   | Inr (tmp, fs1) \<Rightarrow>
                       (ok (prep tmp [tmp]),
                        chmod_quiet (be_flt env) (write_quiet (be_flt env) fs1 tmp run_with_secrets_template) tmp mode_0755)))))"

definition build_phase06 :: "bw_env \<Rightarrow> bw_flags \<Rightarrow> string list \<Rightarrow> fs \<Rightarrow> (prep_err, phase_prep) result" where
  "build_phase06 env fl common fs =
     (case expand_home_path (be_home env) (bf_dedicated_key fl) of
        Inl m \<Rightarrow> err (PpHome ''dedicated-key'' m)
      | Inr key \<Rightarrow>
          (let pub = key @ ''.pub'' in
           case os_stat (be_flt env) fs pub of
             Inl _ \<Rightarrow> err (PpNoPub pub)
           | Inr _ \<Rightarrow> ok \<lparr> pp_args = [''--pubkey'', ''/tmp/dedicated.pub''] @ common,
                            pp_uploads = [(pub, ''/tmp/dedicated.pub'')], pp_temps = [] \<rparr>))"

definition resolve_plist_template :: "bw_env \<Rightarrow> bw_flags \<Rightarrow> fs \<Rightarrow> (prep_err, path) result" where
  "resolve_plist_template env fl fs =
     (let tpl = bf_plist_template fl; there = (\<lambda>c. case os_stat (be_flt env) fs c of Inl _ \<Rightarrow> False | Inr _ \<Rightarrow> True) in
      if is_rooted tpl then (if there tpl then ok tpl else err (PpNoTemplate tpl []))
      else (let cands = [tpl]
                  @ (if bf_script_dir fl \<noteq> [] then [join2 (dir_path (bf_script_dir fl)) tpl] else [])
                  @ (case default_script_dir (be_flt env) (be_wd env) fs of Inr sd \<Rightarrow> [join2 (dir_path sd) tpl] | Inl _ \<Rightarrow> [])
                  @ (case be_wd env of Inr wd \<Rightarrow> [join2 wd tpl] | Inl _ \<Rightarrow> [])
            in case find there cands of None \<Rightarrow> err (PpNoTemplate tpl cands) | Some c \<Rightarrow> ok c))"

text \<open>\<open>strings.ReplaceAll\<close>, for a text that is not empty; \<open>k\<close> bytes of an occurrence are still to be skipped.\<close>

fun replace_from :: "string \<Rightarrow> string \<Rightarrow> nat \<Rightarrow> string \<Rightarrow> string" where
  "replace_from x y k [] = []"
| "replace_from x y (Suc k) (c # cs) = replace_from x y k cs"
| "replace_from x y 0 (c # cs) =
     (if has_prefix (c # cs) x then y @ replace_from x y (length x - 1) cs else c # replace_from x y 0 cs)"

definition replace_all :: "string \<Rightarrow> string \<Rightarrow> string \<Rightarrow> string" where
  "replace_all s x y = replace_from x y 0 s"

definition plist_host :: "bw_flags \<Rightarrow> string \<Rightarrow> string" where
  "plist_host fl label =
     (if bf_node_label fl = [] then (case index_byte label CHR ''@'' of Some at \<Rightarrow> drop (Suc at) label | None \<Rightarrow> label)
      else bf_node_label fl)"

definition render_plist :: "bw_flags \<Rightarrow> string \<Rightarrow> bytes \<Rightarrow> bytes" where
  "render_plist fl label raw =
     replace_all (replace_all raw ''{{HERMES_HOME}}'' (''/Users/'' @ default_hermes_user)) ''{{NODE_LABEL}}'' (plist_host fl label)"

definition build_phase08 :: "bw_env \<Rightarrow> bw_flags \<Rightarrow> string list \<Rightarrow> string \<Rightarrow> fs \<Rightarrow> (prep_err, phase_prep) result \<times> fs" where
  "build_phase08 env fl common label fs =
     (if bf_skip_heartbeat fl then (ok (only_args (common @ [''--skip''])), fs)
      else (case resolve_plist_template env fl fs of
              Inl e \<Rightarrow> (err e, fs)
            | Inr tpl \<Rightarrow>
                (case os_read_file (be_flt env) fs tpl of
                   Inl e \<Rightarrow> (err (PpReadTemplate tpl e), fs)
                 | Inr raw \<Rightarrow>
                     (case create_temp_in env ''heartbeat-'' ''.plist'' fs of
                        Inl e \<Rightarrow> (err (PpTemp e), fs)
                      | Inr (tmp, fs1) \<Rightarrow>
                          (ok \<lparr> pp_args = common @ [''--plist'', ''/tmp/com.hermes.heartbeat.plist'', ''--wait-seconds'', itoa (bf_heartbeat_wait fl)],
                                pp_uploads = [(tmp, ''/tmp/com.hermes.heartbeat.plist'')], pp_temps = [tmp] \<rparr>,
                           write_quiet (be_flt env) fs1 tmp (render_plist fl label raw))))))"

definition common_args :: "bw_flags \<Rightarrow> string \<Rightarrow> string list" where
  "common_args fl label = [''--node'', label] @ opt_arg (bf_dry_run fl) ''--dry-run''"

definition build_phase_prep :: "bw_env \<Rightarrow> bw_flags \<Rightarrow> string \<Rightarrow> string \<Rightarrow> string \<Rightarrow> string \<Rightarrow> fs \<Rightarrow> (prep_err, phase_prep) result \<times> fs" where
  "build_phase_prep env fl phase label pinned tag fs =
     (let common = common_args fl label in
      if phase = ''phase00_brew_baseline.sh'' then (ok (only_args common), fs)
      else if phase = ''phase01_verify_prereqs.sh'' then (ok (only_args common), fs)
      else if phase = ''phase02_create_user.sh'' then
        (ok (only_args (common @ opt_arg (bf_allow_exist_admin fl) ''--allow-existing-admin-user''
               @ (if bf_hermes_uid fl \<noteq> default_hermes_uid then [''--uid'', itoa (bf_hermes_uid fl)] else []))), fs)
      else if phase = ''phase03_install_hermes.sh'' then
        (if pinned = [] then (err (PpNoPin phase), fs)
         else (ok (only_args ([''--pinned-version'', pinned] @ common @ (if tag \<noteq> [] then [''--install-tag'', tag] else []))), fs))
      else if phase = ''phase04_seed_config.sh'' then build_phase04 env fl common fs
      else if phase = ''phase05_distribute_secrets.sh'' then build_phase05 env fl common fs
      else if phase = ''phase06_setup_dedicated_key.sh'' then (build_phase06 env fl common fs, fs)
      else if phase = ''phase07_install_tirith.sh'' then (ok (only_args (common @ opt_arg (bf_skip_tirith fl) ''--skip'')), fs)
      else if phase = ''phase08_launchd_heartbeat.sh'' then build_phase08 env fl common label fs
      else if phase = ''phase09_verify.sh'' then
        (if pinned = [] then (err (PpNoPin phase), fs)
         else (ok (only_args ([''--pinned-version'', pinned] @ common @ opt_arg (bf_skip_tirith fl) ''--skip-tirith''
                 @ opt_arg (bf_skip_heartbeat fl) ''--skip-heartbeat'' @ opt_arg (bf_allow_exist_admin fl) ''--allow-existing-admin-user'')), fs))
      else (ok (only_args common), fs))"

section \<open>The loop\<close>

fun do_uploads :: "faults \<Rightarrow> worker \<Rightarrow> (path \<times> path) list \<Rightarrow> bw_world \<Rightarrow> up_err option \<times> bw_world" where
  "do_uploads flt wk [] w = (None, w)"
| "do_uploads flt wk ((lp, rp) # us) w =
     (case upload flt wk lp rp w of (Some e, w') \<Rightarrow> (Some e, w') | (None, w') \<Rightarrow> do_uploads flt wk us w')"

definition phase_status :: "phase_result \<Rightarrow> rp_err option \<Rightarrow> string" where
  "phase_status r e =
     (if e \<noteq> None then ''transport-error'' else if phase_ok r then ''ok'' else ''failed(exit='' @ itoa (pr_exit r) @ '')'')"

definition ioerr_text :: "path \<Rightarrow> ioerr \<Rightarrow> string" where
  "ioerr_text p e = ''open '' @ p @ '': '' @ (case e of NotExist \<Rightarrow> ''no such file or directory'' | OsErr m \<Rightarrow> m)"

definition up_err_text :: "(bytes \<Rightarrow> bool) \<Rightarrow> up_err \<Rightarrow> string" where
  "up_err_text prt e =
     (case e of
        UpOpen p x \<Rightarrow> ''upload '' @ p @ '': '' @ ioerr_text p x
      | UpTransport lp rp m \<Rightarrow> ''upload '' @ lp @ '' -> '' @ rp @ '': transport: '' @ m
      | UpExit lp rp x se \<Rightarrow> ''upload '' @ lp @ '' -> '' @ rp @ '': remote exit='' @ itoa x @ '' stderr='' @ go_quote prt se)"

definition rp_err_text :: "(bytes \<Rightarrow> bool) \<Rightarrow> rp_err \<Rightarrow> string" where
  "rp_err_text prt e =
     (case e of
        RpGetwd m \<Rightarrow> ''bootstrap: getwd: '' @ m
      | RpNoScriptDir \<Rightarrow> ''bootstrap: script dir not set and could not be auto-detected''
      | RpNotFound p \<Rightarrow> ''bootstrap: script not found: '' @ p
      | RpUpload s u \<Rightarrow> ''bootstrap: upload '' @ s @ '': '' @ up_err_text prt u)"

definition phase_log_event :: "(bytes \<Rightarrow> bool) \<Rightarrow> string \<Rightarrow> string \<Rightarrow> phase_result \<Rightarrow> rp_err option \<Rightarrow> log_event" where
  "phase_log_event prt label phase res e =
     \<lparr> le_ts = zero_time, le_node = label, le_phase = ''bootstrap'', le_action = ''phase:'' @ phase,
       le_result = (if e \<noteq> None \<or> \<not> phase_ok res then ''error'' else ''ok''),
       le_duration_ms = quot_trunc (pr_duration res) 1000000,
       le_stderr_tail = (case e of Some x \<Rightarrow> rp_err_text prt x
                                 | None \<Rightarrow> if phase_ok res then [] else ''exit='' @ itoa (pr_exit res)) \<rparr>"

definition phase_line :: "string \<Rightarrow> phase_result \<Rightarrow> rp_err option \<Rightarrow> string" where
  "phase_line phase res e =
     ''phase='' @ phase @ '' result='' @ phase_status res e @ '' duration='' @ duration_string (duration_round (pr_duration res) 1000000) @ [NL]"

text \<open>One round after its preparation: the uploads, the phase, the removal of the temp files, the output and the event.  The
  temp files stay when an upload fails.\<close>

definition bw_round ::
  "bw_env \<Rightarrow> bw_flags \<Rightarrow> logger \<Rightarrow> string \<Rightarrow> nat \<Rightarrow> string \<Rightarrow> phase_prep \<Rightarrow> bw_world \<Rightarrow> (up_err, phase_result \<times> rp_err option) result \<times> bw_world" where
  "bw_round env fl l label i p prep w =
     (case do_uploads (be_flt env) (be_worker env) (pp_uploads prep) w of
        (Some e, w1) \<Rightarrow> (err e, w1)
      | (None, w1) \<Rightarrow>
          (case run_phase (be_flt env) (be_wd env) (be_jtext env) (be_worker env) (bf_script_dir fl) (be_elapsed env i) p (pp_args prep) w1 of
             ((res, e), w2) \<Rightarrow>
               (let w3 = w2\<lparr> bw_fs := foldl (remove_quiet (be_flt env)) (bw_fs w2) (pp_temps prep) \<rparr>;
                    w4 = (if bf_quiet fl then w3 else w3\<lparr> bw_out := bw_out w3 @ phase_line p res e @ write_report res \<rparr>)
                in (ok (res, e), w4\<lparr> bw_fs := log_step (be_flt env) l (bw_fs w4) (be_clk env i, phase_log_event (be_print env) label p res e) \<rparr>))))"

fun run_phases ::
  "bw_env \<Rightarrow> bw_flags \<Rightarrow> logger \<Rightarrow> string \<Rightarrow> string \<Rightarrow> string \<Rightarrow> nat \<Rightarrow> string list \<Rightarrow> bool \<Rightarrow> bw_world \<Rightarrow> bw_err option \<times> bw_world" where
  "run_phases env fl l label pinned tag i [] good w =
     (if \<not> good then (Some BwSomeFailed, w)
      else (None, if bf_quiet fl then w
                  else w\<lparr> bw_out := bw_out w @ [NL] @ ''bootstrap-worker: all phases complete for '' @ label @ [NL] \<rparr>))"
| "run_phases env fl l label pinned tag i (p # ps) good w =
     (case build_phase_prep env fl p label pinned tag (bw_fs w) of
        (Inl e, fs1) \<Rightarrow> (Some (BwPrep p e), w\<lparr> bw_fs := fs1 \<rparr>)
      | (Inr prep, fs1) \<Rightarrow>
          (case bw_round env fl l label i p prep (w\<lparr> bw_fs := fs1 \<rparr>) of
             (Inl e, w1) \<Rightarrow> (Some (BwPrepare p e), w1)
           | (Inr (res, Some e), w1) \<Rightarrow> (Some (BwPhase p e), w1)
           | (Inr (res, None), w1) \<Rightarrow>
               if \<not> phase_ok res \<and> \<not> bf_dry_run fl then (Some (BwFailed p (pr_exit res)), w1)
               else run_phases env fl l label pinned tag (Suc i) ps (good \<and> phase_ok res) w1))"

definition bootstrap_log_path :: path where "bootstrap_log_path = ''~/.hermes/logs/bootstrap.jsonl''"

text \<open>The tag for the selected phases; none when no phase needs one.\<close>

definition install_tag :: "bw_env \<Rightarrow> bw_flags \<Rightarrow> string \<Rightarrow> fs \<Rightarrow> (bw_err, string) result \<times> fs" where
  "install_tag env fl pinned fs =
     (if pinned \<noteq> [] \<and> phases_need_install_tag (phases_to_run fl) then
        (case install_tag_resolver env pinned fs of
           (Inl e, fs') \<Rightarrow> (err e, fs')
         | (Inr tag, fs') \<Rightarrow> (if tag = [] then err (BwEmptyTag pinned) else ok tag, fs'))
      else (ok [], fs))"

definition node_label :: "target \<Rightarrow> string" where
  "node_label t = tg_user t @ ''@'' @ tg_host t"

definition run_bootstrap_worker :: "bw_env \<Rightarrow> bw_flags \<Rightarrow> fs \<Rightarrow> bw_err option \<times> bw_world" where
  "run_bootstrap_worker env fl fs =
     (let w0 = \<lparr> bw_fs = fs, bw_ops = [], bw_out = [] \<rparr> in
      if bf_node fl = [] then (Some BwNoNode, w0)
      else (case parse_target (bf_node fl) of Inl e \<Rightarrow> (Some (BwTarget e), w0) | Inr t \<Rightarrow>
           (case expand_home_path (be_home env) bootstrap_log_path of Inl m \<Rightarrow> (Some (BwHome m), w0) | Inr lp \<Rightarrow>
           (case log_open (be_flt env) fs lp of
              Inl (e, fs1) \<Rightarrow> (Some (BwLog e), w0\<lparr> bw_fs := fs1 \<rparr>)
            | Inr (l, fs1) \<Rightarrow>
                (case be_dial env t of
                   Some m \<Rightarrow> (Some (BwDial t m), w0\<lparr> bw_fs := fs1 \<rparr>)
                 | None \<Rightarrow>
                     (case resolve_pinned_version env fl fs1 of
                        Inl e \<Rightarrow> (Some e, w0\<lparr> bw_fs := fs1 \<rparr>)
                      | Inr pinned \<Rightarrow>
                          (case install_tag env fl pinned fs1 of
                             (Inl e, fs2) \<Rightarrow> (Some e, w0\<lparr> bw_fs := fs2 \<rparr>)
                           | (Inr tag, fs2) \<Rightarrow>
                               if phases_to_run fl = [] then (Some BwNoPhases, w0\<lparr> bw_fs := fs2 \<rparr>)
                               else run_phases env fl l (node_label t) pinned tag 0 (phases_to_run fl) True (w0\<lparr> bw_fs := fs2 \<rparr>))))))))"

end
