(* ===== verification/Bootstrap_Trail.thy ===== *)
theory Bootstrap_Trail
  imports Bootstrap_Worker
begin

text \<open>
  What a bootstrap leaves.  The abstract protocol of the command is an inductive relation between the
  phases to run, the rounds that took place and the commands the worker saw; \<open>run_bootstrap_worker\<close>
  refines it, its log has one event for each round, and phase 3 only ever runs with the tag the pinned
  version resolved to.
\<close>

section \<open>The protocol\<close>

text \<open>What a reader of a local file yields: its bytes, and the error that cut them.\<close>

type_synonym stream_read = "bytes \<times> string option"
type_synonym bw_ran = "string \<times> phase_result \<times> rp_err option"

text \<open>The worker has taken a command without an error.\<close>

definition answered :: "worker \<Rightarrow> worker_op list \<Rightarrow> worker_op \<Rightarrow> bool" where
  "answered wk hist x \<longleftrightarrow> snd (wk hist x) = None \<and> sr_exit_code (fst (wk hist x)) = 0"

text \<open>The files each phase needs on the worker beside its script, in the order of their uploads.\<close>

definition stage_paths :: "bool \<Rightarrow> string \<Rightarrow> path list" where
  "stage_paths skip_heartbeat p =
     (if p = ''phase04_seed_config.sh'' then [''/tmp/hermes-config-bundle.tar.gz'']
      else if p = ''phase05_distribute_secrets.sh'' then [''/tmp/.env.gpg'', ''/tmp/run-with-secrets.sh'']
      else if p = ''phase06_setup_dedicated_key.sh'' then [''/tmp/dedicated.pub'']
      else if p = ''phase08_launchd_heartbeat.sh'' \<and> \<not> skip_heartbeat then [''/tmp/com.hermes.heartbeat.plist'']
      else [])"

text \<open>The uploads of these files: all of them taken (\<open>staged\<close>), or an attempt that stopped at the first one
  that was not (\<open>staging\<close>).\<close>

fun staged :: "worker \<Rightarrow> worker_op list \<Rightarrow> path list \<Rightarrow> worker_op list \<Rightarrow> bool" where
  "staged wk hist [] new \<longleftrightarrow> new = []"
| "staged wk hist (d # ds) [] \<longleftrightarrow> False"
| "staged wk hist (d # ds) (x # xs) \<longleftrightarrow>
     fst x = upload_cmd d \<and> snd x \<noteq> None \<and> answered wk hist x \<and> staged wk (hist @ [x]) ds xs"

fun staging :: "worker \<Rightarrow> worker_op list \<Rightarrow> path list \<Rightarrow> worker_op list \<Rightarrow> bool" where
  "staging wk hist ds [] \<longleftrightarrow> True"
| "staging wk hist [] (x # xs) \<longleftrightarrow> False"
| "staging wk hist (d # ds) (x # xs) \<longleftrightarrow>
     fst x = upload_cmd d \<and> snd x \<noteq> None \<and> (xs = [] \<or> answered wk hist x \<and> staging wk (hist @ [x]) ds xs)"

definition round_passed :: "bw_ran \<Rightarrow> bool" where
  "round_passed r \<longleftrightarrow> snd (snd r) = None \<and> phase_ok (fst (snd r))"

lemma round_passed_simp [simp]: "round_passed (p, res, e) \<longleftrightarrow> e = None \<and> phase_ok res"
  by (simp add: round_passed_def)

abbreviation phase_op :: "string \<Rightarrow> string list \<Rightarrow> worker_op" where
  "phase_op p args \<equiv> (build_run_cmd (''/tmp/'' @ p) args, None)"

abbreviation script_op :: "string \<Rightarrow> stream_read \<Rightarrow> worker_op" where
  "script_op p stm \<equiv> (upload_cmd (''/tmp/'' @ p), Some stm)"

text \<open>The arguments of a script name the node, and carry the dry run.\<close>

definition args_for :: "string \<Rightarrow> bool \<Rightarrow> string list \<Rightarrow> bool" where
  "args_for label dry args \<longleftrightarrow> (\<exists>xs ys. args = xs @ [''--node'', label] @ (if dry then [''--dry-run''] else []) @ ys)"

text \<open>A phase stages its files, uploads its script, the content \<open>src\<close> has for it, and runs it, each only when the worker took
  what came before.  The command stops there when the preparation or an upload fails, or when the phase did not pass and
  this is no dry run.\<close>

inductive bootstrapped ::
  "worker \<Rightarrow> (string \<Rightarrow> string) \<Rightarrow> (string \<Rightarrow> (ioerr, stream_read) result) \<Rightarrow> string \<Rightarrow> bool \<Rightarrow> bool
     \<Rightarrow> worker_op list \<Rightarrow> string list \<Rightarrow> bw_ran list \<Rightarrow> worker_op list \<Rightarrow> bool"
  for wk :: worker and jtext :: "string \<Rightarrow> string" and src :: "string \<Rightarrow> (ioerr, stream_read) result" and label :: string
    and skip :: bool and dry :: bool where
  complete: "bootstrapped wk jtext src label skip dry ops [] [] ops"
| unprepared: "staging wk ops (stage_paths skip p) new
    \<Longrightarrow> bootstrapped wk jtext src label skip dry ops (p # ps) [] (ops @ new)"
| no_script: "staged wk ops (stage_paths skip p) new \<Longrightarrow> src p = err x
    \<Longrightarrow> bootstrapped wk jtext src label skip dry ops (p # ps) [(p, no_result p, Some e)] (ops @ new)"
| not_taken: "staged wk ops (stage_paths skip p) new \<Longrightarrow> src p = ok stm \<Longrightarrow> \<not> answered wk (ops @ new) (script_op p stm)
    \<Longrightarrow> bootstrapped wk jtext src label skip dry ops (p # ps) [(p, no_result p, Some e)] (ops @ new @ [script_op p stm])"
| failed: "staged wk ops (stage_paths skip p) new \<Longrightarrow> src p = ok stm \<Longrightarrow> answered wk (ops @ new) (script_op p stm)
    \<Longrightarrow> args_for label dry args \<Longrightarrow> res = phase_answer jtext p d (wk (ops @ new @ [script_op p stm]) (phase_op p args))
    \<Longrightarrow> \<not> phase_ok res \<Longrightarrow> \<not> dry
    \<Longrightarrow> bootstrapped wk jtext src label skip dry ops (p # ps) [(p, res, None)] (ops @ new @ [script_op p stm, phase_op p args])"
| passed: "staged wk ops (stage_paths skip p) new \<Longrightarrow> src p = ok stm \<Longrightarrow> answered wk (ops @ new) (script_op p stm)
    \<Longrightarrow> args_for label dry args \<Longrightarrow> res = phase_answer jtext p d (wk (ops @ new @ [script_op p stm]) (phase_op p args))
    \<Longrightarrow> phase_ok res \<or> dry
    \<Longrightarrow> bootstrapped wk jtext src label skip dry (ops @ new @ [script_op p stm, phase_op p args]) ps rs ops'
    \<Longrightarrow> bootstrapped wk jtext src label skip dry ops (p # ps) ((p, res, None) # rs) ops'"

inductive_cases bootstrapped_nil: "bootstrapped wk jtext src label skip dry ops [] rs ops'"

text \<open>The rounds are a prefix of the phases, and without dry run only the last one can have failed.\<close>

lemma bootstrapped_prefix:
  assumes "bootstrapped wk jtext src label skip dry ops ps rs ops'"
  shows "map fst rs = take (length rs) ps" "dry \<or> list_all round_passed (butlast rs)" "\<exists>new. ops' = ops @ new"
  using assms by induction auto

section \<open>Files\<close>

text \<open>Entries that are there stay as they are.\<close>

definition keeps_entries :: "fs \<Rightarrow> fs \<Rightarrow> bool" where
  "keeps_entries fs fs' \<longleftrightarrow> (\<forall>q. map_of fs q \<noteq> None \<longrightarrow> map_of fs' q = map_of fs q)"

lemma keeps_entries_refl [simp]: "keeps_entries fs fs" by (simp add: keeps_entries_def)

lemma keeps_entries_temp:
  assumes "map_of fs tmp = None" "\<And>q. q \<noteq> tmp \<Longrightarrow> map_of fs' q = map_of fs q"
  shows "keeps_entries fs fs'"
  unfolding keeps_entries_def using assms by metis

lemma quiet_other:
  "q \<noteq> p \<Longrightarrow> map_of (write_quiet flt fs p b) q = map_of fs q"
  "q \<noteq> p \<Longrightarrow> map_of (chmod_quiet flt fs p m) q = map_of fs q"
  using os_write_other [of q p flt fs b] chmod_ok [of flt fs p m]
  by (auto simp: write_quiet_def chmod_quiet_def split: sum.splits)

lemma temp_in_ok:
  assumes "create_temp_in env pre suf fs = ok (tmp, fs1)"
  shows "map_of fs tmp = None" "q \<noteq> tmp \<Longrightarrow> map_of fs1 q = map_of fs q"
  using create_temp_ok(2,4) [OF assms [unfolded create_temp_in_def]] by simp_all

lemma tar_gzip_other:
  assumes "tar_gzip_dir env root dest names fs = ok fs' \<or> tar_gzip_dir env root dest names fs = err (e, fs')" "q \<noteq> dest"
  shows "map_of fs' q = map_of fs q"
proof (cases "os_open_create (be_flt env) True fs dest 438")
  case (Inl x)
  then show ?thesis using assms(1) by (auto simp: tar_gzip_dir_def)
next
  case (Inr fs1)
  have 1: "map_of fs1 q = map_of fs q" by (rule open_create_ok(2) [OF Inr assms(2)])
  obtain cs x where "tar_seq (tar_members (be_hdr env) (be_flt env) fs1 root names) = (cs, x)" by (metis surj_pair)
  moreover have "map_of (case os_write (be_flt env) fs1 dest (be_tgz env cs) of Inl (_, f) \<Rightarrow> f | Inr f \<Rightarrow> f) q = map_of fs1 q" for cs
    using quiet_other(1) [OF assms(2)] by (simp add: write_quiet_def)
  ultimately show ?thesis using assms(1) Inr 1
    by (auto simp: tar_gzip_dir_def Let_def split: if_splits option.splits tar_fail.splits)
qed

lemma build_phase04_fs:
  assumes "build_phase04 env fl common fs = (r, fs')"
  shows "keeps_entries fs fs' \<and> (\<forall>prep. r = ok prep \<longrightarrow> list_all (\<lambda>t. map_of fs t = None) (pp_temps prep))"
proof -
  have "keeps_entries fs f" if t: "create_temp_in env pre suf fs = ok (tmp, fs1)"
      and g: "tar_gzip_dir env src tmp ns fs1 = ok f2 \<or> tar_gzip_dir env src tmp ns fs1 = err (x, f2)"
      and f: "f = f2 \<or> f = remove_quiet (be_flt env) f2 tmp" for pre suf tmp fs1 src ns f2 x f
    using f tar_gzip_other [OF g] temp_in_ok [OF t] remove_quiet_other [of _ tmp "be_flt env" f2] by (intro keeps_entries_temp [of fs tmp f]) auto
  note k = this
  show ?thesis
    using assms k temp_in_ok(1)
    by (auto simp: build_phase04_def Let_def simp del: join_path.simps split: sum.splits) blast+
qed

lemma build_phase05_fs:
  assumes "build_phase05 env fl common fs = (r, fs')"
  shows "keeps_entries fs fs' \<and> (\<forall>prep. r = ok prep \<longrightarrow> list_all (\<lambda>t. map_of fs t = None) (pp_temps prep))"
proof -
  have "keeps_entries fs (chmod_quiet flt (write_quiet flt fs1 tmp b) tmp m)" if t: "create_temp_in env pre suf fs = ok (tmp, fs1)" for flt b m pre suf tmp fs1
    using temp_in_ok [OF t] by (intro keeps_entries_temp [of fs tmp]) (auto simp: quiet_other)
  then show ?thesis
    using assms temp_in_ok(1) by (auto simp: build_phase05_def Let_def split: sum.splits if_splits)
qed

lemma build_phase08_fs:
  assumes "build_phase08 env fl common label fs = (r, fs')"
  shows "keeps_entries fs fs' \<and> (\<forall>prep. r = ok prep \<longrightarrow> list_all (\<lambda>t. map_of fs t = None) (pp_temps prep))"
proof -
  have "keeps_entries fs (write_quiet flt fs1 tmp b)" if t: "create_temp_in env pre suf fs = ok (tmp, fs1)" for flt b pre suf tmp fs1
    using temp_in_ok [OF t] by (intro keeps_entries_temp [of fs tmp]) (auto simp: quiet_other)
  then show ?thesis
    using assms temp_in_ok(1) by (auto simp: build_phase08_def only_args_def split: sum.splits if_splits)
qed

text \<open>A preparation leaves every entry alone, and the temp files it hands to the teardown are new.\<close>

lemma build_prep_fs:
  assumes "build_phase_prep env fl p label pinned tag fs = (r, fs')"
  shows "keeps_entries fs fs' \<and> (\<forall>prep. r = ok prep \<longrightarrow> list_all (\<lambda>t. map_of fs t = None) (pp_temps prep))"
proof -
  note parts = build_phase04_fs [of env fl "common_args fl label" fs r fs'] build_phase05_fs [of env fl "common_args fl label" fs r fs']
    build_phase08_fs [of env fl "common_args fl label" label fs r fs']
  have six: "build_phase06 env fl c fs = ok prep \<Longrightarrow> pp_temps prep = []" for c prep
    by (auto simp: build_phase06_def Let_def split: sum.splits)
  show ?thesis
    using assms parts six [of "common_args fl label"]
    by (auto simp: build_phase_prep_def only_args_def Let_def split: if_splits)
qed

lemma remove_temps_other:
  "q \<notin> set ts \<Longrightarrow> map_of (foldl (remove_quiet flt) fs ts) q = map_of fs q"
  by (induction ts arbitrary: fs) (auto simp: remove_quiet_other)

section \<open>One round\<close>

lemma staged_inputs: "staged wk hist ds new \<Longrightarrow> list_all (\<lambda>x. snd x \<noteq> None) new"
  by (induction wk hist ds new rule: staged.induct) auto

lemma staging_inputs: "staging wk hist ds new \<Longrightarrow> list_all (\<lambda>x. snd x \<noteq> None) new"
  by (induction wk hist ds new rule: staging.induct) auto

lemma upload_ops:
  assumes "upload flt wk lp rp w = (e, w')"
  shows "bw_fs w' = bw_fs w"
    "case open_stream flt (bw_fs w) lp of
       Inl x \<Rightarrow> e = Some (UpOpen lp x) \<and> bw_ops w' = bw_ops w
     | Inr stm \<Rightarrow> bw_ops w' = bw_ops w @ [(upload_cmd rp, Some stm)] \<and> (e = None \<longleftrightarrow> answered wk (bw_ops w) (upload_cmd rp, Some stm))"
  using assms by (auto simp: upload_def ask_worker_def answered_def split: sum.splits option.splits prod.splits if_splits)

lemma do_uploads_ops:
  "do_uploads flt wk us w = (e, w') \<Longrightarrow> bw_fs w' = bw_fs w \<and> (\<exists>new. bw_ops w' = bw_ops w @ new
     \<and> (if e = None then staged wk (bw_ops w) (map snd us) new else staging wk (bw_ops w) (map snd us) new))"
proof (induction flt wk us w rule: do_uploads.induct)
  case (2 flt wk lp rp us w)
  obtain e1 w1 where u: "upload flt wk lp rp w = (e1, w1)" by (metis surj_pair)
  note f = upload_ops [OF u]
  show ?case
  proof (cases e1)
    case None
    then obtain stm where s: "bw_ops w1 = bw_ops w @ [(upload_cmd rp, Some stm)]" "answered wk (bw_ops w) (upload_cmd rp, Some stm)"
      using f(2) by (auto split: sum.splits)
    have "do_uploads flt wk us w1 = (e, w')" using None 2(2) u by simp
    from 2(1) [OF u [symmetric] None this] obtain new where n: "bw_fs w' = bw_fs w1" "bw_ops w' = bw_ops w1 @ new"
      "if e = None then staged wk (bw_ops w1) (map snd us) new else staging wk (bw_ops w1) (map snd us) new" by blast
    then show ?thesis using s f(1) by (intro conjI exI [of _ "(upload_cmd rp, Some stm) # new"]) (auto split: if_splits)
  next
    case (Some x)
    then have e: "e = Some x" "w' = w1" using 2(2) u by auto
    show ?thesis
    proof (cases "open_stream flt (bw_fs w) lp")
      case (Inl y)
      then show ?thesis using f e by auto
    next
      case (Inr stm)
      then show ?thesis using f e by (intro conjI exI [of _ "[(upload_cmd rp, Some stm)]"]) auto
    qed
  qed
qed simp

text \<open>The content of the script of a phase.\<close>

definition script_src :: "faults \<Rightarrow> path \<Rightarrow> fs \<Rightarrow> string \<Rightarrow> (ioerr, stream_read) result" where
  "script_src flt sdir fs p = open_stream flt fs (join2 sdir p)"

lemma run_phase_ops:
  assumes "run_phase flt wd jtext wk sdir dur p args w = ((res, e), w')" "sdir \<noteq> []" "map_of (bw_fs w) (join2 sdir p) \<noteq> None"
  shows "bw_fs w' = bw_fs w"
    "case script_src flt sdir (bw_fs w) p of
       Inl x \<Rightarrow> e \<noteq> None \<and> res = no_result p \<and> bw_ops w' = bw_ops w
     | Inr stm \<Rightarrow>
         (if answered wk (bw_ops w) (script_op p stm) then e = None \<and> bw_ops w' = bw_ops w @ [script_op p stm, phase_op p args]
            \<and> res = phase_answer jtext p dur (wk (bw_ops w @ [script_op p stm]) (phase_op p args))
          else e \<noteq> None \<and> res = no_result p \<and> bw_ops w' = bw_ops w @ [script_op p stm])"
proof -
  let ?lp = "join2 sdir p"
  have st: "os_stat flt (bw_fs w) ?lp \<noteq> err NotExist" using assms(3) by (auto simp: os_stat_def simp del: join_path.simps split: option.splits)
  obtain e1 w1 where u: "upload flt wk ?lp (''/tmp/'' @ p) w = (e1, w1)" by (metis surj_pair)
  note f = upload_ops [OF u]
  show "bw_fs w' = bw_fs w"
    using assms(1,2) st u f(1) by (cases e1) (auto simp: run_phase_def ask_worker_def Let_def simp del: join_path.simps)
  show "case script_src flt sdir (bw_fs w) p of
       Inl x \<Rightarrow> e \<noteq> None \<and> res = no_result p \<and> bw_ops w' = bw_ops w
     | Inr stm \<Rightarrow>
         (if answered wk (bw_ops w) (script_op p stm) then e = None \<and> bw_ops w' = bw_ops w @ [script_op p stm, phase_op p args]
            \<and> res = phase_answer jtext p dur (wk (bw_ops w @ [script_op p stm]) (phase_op p args))
          else e \<noteq> None \<and> res = no_result p \<and> bw_ops w' = bw_ops w @ [script_op p stm])"
    using assms(1,2) st u f(2)
    by (cases "open_stream flt (bw_fs w) ?lp"; cases e1)
      (auto simp: run_phase_def ask_worker_def script_src_def Let_def simp del: join_path.simps)
qed

lemma script_src_cong:
  "map_of fs (join2 sdir p) = map_of fs' (join2 sdir p) \<Longrightarrow> script_src flt sdir fs p = script_src flt sdir fs' p"
  by (simp only: script_src_def open_stream_def)

text \<open>A round that gets past its preparation runs the phase, removes only its temp files and logs one event.\<close>

lemma bw_round_err:
  assumes "bw_round env fl l label i p prep w = (err e, w')"
  shows "bw_fs w' = bw_fs w"
    "\<exists>new. bw_ops w' = bw_ops w @ new \<and> staging (be_worker env) (bw_ops w) (map snd (pp_uploads prep)) new"
proof -
  obtain e1 w1 where u: "do_uploads (be_flt env) (be_worker env) (pp_uploads prep) w = (e1, w1)" by (metis surj_pair)
  have "e1 \<noteq> None" "w' = w1" using assms u by (auto simp: bw_round_def Let_def split: option.splits prod.splits)
  then show "bw_fs w' = bw_fs w"
    "\<exists>new. bw_ops w' = bw_ops w @ new \<and> staging (be_worker env) (bw_ops w) (map snd (pp_uploads prep)) new"
    using do_uploads_ops [OF u] by auto
qed

lemma bw_round_ok:
  assumes "bw_round env fl l label i p prep w = (ok (res, e), w')"
    and "bf_script_dir fl \<noteq> []" "map_of (bw_fs w) (join2 (bf_script_dir fl) p) \<noteq> None"
  defines "src \<equiv> script_src (be_flt env) (bf_script_dir fl) (bw_fs w)" and "wk \<equiv> be_worker env"
  shows "bw_fs w' = log_step (be_flt env) l (foldl (remove_quiet (be_flt env)) (bw_fs w) (pp_temps prep))
       (be_clk env i, phase_log_event (be_print env) label p res e)"
    "\<exists>new. staged wk (bw_ops w) (map snd (pp_uploads prep)) new \<and>
      (case src p of
         Inl x \<Rightarrow> e \<noteq> None \<and> res = no_result p \<and> bw_ops w' = bw_ops w @ new
       | Inr stm \<Rightarrow>
           (if answered wk (bw_ops w @ new) (script_op p stm) then e = None
              \<and> bw_ops w' = bw_ops w @ new @ [script_op p stm, phase_op p (pp_args prep)]
              \<and> res = phase_answer (be_jtext env) p (be_elapsed env i) (wk (bw_ops w @ new @ [script_op p stm]) (phase_op p (pp_args prep)))
            else e \<noteq> None \<and> res = no_result p \<and> bw_ops w' = bw_ops w @ new @ [script_op p stm]))"
proof -
  obtain e1 w1 where u: "do_uploads (be_flt env) wk (pp_uploads prep) w = (e1, w1)" by (metis surj_pair)
  have e1: "e1 = None" using assms(1) u by (auto simp: bw_round_def Let_def wk_def split: option.splits prod.splits)
  then obtain new where n: "bw_fs w1 = bw_fs w" "bw_ops w1 = bw_ops w @ new" "staged wk (bw_ops w) (map snd (pp_uploads prep)) new"
    using do_uploads_ops [OF u] by auto
  obtain res' e' w2 where ran: "run_phase (be_flt env) (be_wd env) (be_jtext env) wk (bf_script_dir fl) (be_elapsed env i) p (pp_args prep) w1
      = ((res', e'), w2)" by (metis surj_pair)
  have r: "res' = res" "e' = e" "bw_ops w' = bw_ops w2"
    "bw_fs w' = log_step (be_flt env) l (foldl (remove_quiet (be_flt env)) (bw_fs w2) (pp_temps prep)) (be_clk env i, phase_log_event (be_print env) label p res e)"
    using assms(1) u ran e1 by (auto simp: bw_round_def Let_def wk_def)
  have there: "map_of (bw_fs w1) (join2 (bf_script_dir fl) p) \<noteq> None" using assms(3) by (simp add: n(1) del: join_path.simps)
  note f = run_phase_ops [OF ran assms(2) there]
  show "bw_fs w' = log_step (be_flt env) l (foldl (remove_quiet (be_flt env)) (bw_fs w) (pp_temps prep))
       (be_clk env i, phase_log_event (be_print env) label p res e)"
    using r(4) f(1) n(1) by simp
  show "\<exists>new. staged wk (bw_ops w) (map snd (pp_uploads prep)) new \<and>
      (case src p of
         Inl x \<Rightarrow> e \<noteq> None \<and> res = no_result p \<and> bw_ops w' = bw_ops w @ new
       | Inr stm \<Rightarrow>
           (if answered wk (bw_ops w @ new) (script_op p stm) then e = None
              \<and> bw_ops w' = bw_ops w @ new @ [script_op p stm, phase_op p (pp_args prep)]
              \<and> res = phase_answer (be_jtext env) p (be_elapsed env i) (wk (bw_ops w @ new @ [script_op p stm]) (phase_op p (pp_args prep)))
            else e \<noteq> None \<and> res = no_result p \<and> bw_ops w' = bw_ops w @ new @ [script_op p stm]))"
    using f(2) r n(2,3) unfolding n(1) src_def by (intro exI [of _ new]) (auto split: sum.splits if_splits)
qed

text \<open>The only command without input that a round sends is its run.\<close>

lemma upload_inputs:
  assumes "upload flt wk lp rp w = (e, w')"
  shows "(c, None) \<in> set (bw_ops w') \<longleftrightarrow> (c, None) \<in> set (bw_ops w)"
  using upload_ops(2) [OF assms] by (auto split: sum.splits)

lemma bw_round_runs:
  assumes "bw_round env fl l label i p prep w = (r, w')" "(c, None) \<in> set (bw_ops w')"
  shows "(c, None) \<in> set (bw_ops w) \<or> c = build_run_cmd (''/tmp/'' @ p) (pp_args prep)"
proof -
  obtain e1 w1 where u: "do_uploads (be_flt env) (be_worker env) (pp_uploads prep) w = (e1, w1)" by (metis surj_pair)
  have one: "(c, None) \<in> set (bw_ops w1) \<Longrightarrow> (c, None) \<in> set (bw_ops w)"
    using do_uploads_ops [OF u] staged_inputs staging_inputs by (fastforce simp: list_all_iff split: if_splits)
  show ?thesis
  proof (cases e1)
    case (Some x)
    then show ?thesis using assms u one by (auto simp: bw_round_def)
  next
    case None
    obtain x w2 where ran: "run_phase (be_flt env) (be_wd env) (be_jtext env) (be_worker env) (bf_script_dir fl) (be_elapsed env i) p (pp_args prep) w1
        = (x, w2)" by (metis surj_pair)
    have "(c, None) \<in> set (bw_ops w2) \<Longrightarrow> (c, None) \<in> set (bw_ops w1) \<or> c = build_run_cmd (''/tmp/'' @ p) (pp_args prep)"
      using ran upload_inputs
      by (auto simp: run_phase_def ask_worker_def Let_def simp del: join_path.simps split: sum.splits option.splits prod.splits if_splits)
    moreover have "bw_ops w' = bw_ops w2" using assms(1) u ran None by (auto simp: bw_round_def Let_def split: prod.splits)
    ultimately show ?thesis using assms(2) one by auto
  qed
qed

section \<open>What a phase stages\<close>

lemma prep_stages:
  assumes "build_phase_prep env fl p label pinned tag fs = (ok prep, fs')"
  shows "map snd (pp_uploads prep) = stage_paths (bf_skip_heartbeat fl) p" "args_for label (bf_dry_run fl) (pp_args prep)"
proof -
  have a: "args_for label (bf_dry_run fl) (xs @ common_args fl label @ ys)" for xs ys
    unfolding args_for_def common_args_def opt_arg_def by auto
  have b: "args_for label (bf_dry_run fl) (common_args fl label @ ys)" "args_for label (bf_dry_run fl) (xs @ common_args fl label)"
    "args_for label (bf_dry_run fl) (x # y # common_args fl label @ ys)" "args_for label (bf_dry_run fl) (x # y # common_args fl label)"
    "args_for label (bf_dry_run fl) (x # y # z # v # common_args fl label)"
    "args_for label (bf_dry_run fl) (common_args fl label)" for x y z v xs ys
    using a [of "[]" ys] a [of xs "[]"] a [of "[x, y]" ys] a [of "[x, y]" "[]"] a [of "[x, y, z, v]" "[]"] a [of "[]" "[]"] by simp_all
  have 4: "map snd (pp_uploads prep) = [''/tmp/hermes-config-bundle.tar.gz''] \<and> args_for label (bf_dry_run fl) (pp_args prep)"
    if "build_phase04 env fl (common_args fl label) fs = (ok prep, fs')"
    using that b by (auto simp: build_phase04_def Let_def simp del: join_path.simps split: sum.splits)
  have 5: "map snd (pp_uploads prep) = [''/tmp/.env.gpg'', ''/tmp/run-with-secrets.sh''] \<and> args_for label (bf_dry_run fl) (pp_args prep)"
    if "build_phase05 env fl (common_args fl label) fs = (ok prep, fs')"
    using that b by (auto simp: build_phase05_def Let_def split: sum.splits if_splits)
  have 6: "map snd (pp_uploads prep) = [''/tmp/dedicated.pub''] \<and> args_for label (bf_dry_run fl) (pp_args prep)"
    if "build_phase06 env fl (common_args fl label) fs = ok prep"
    using that b by (auto simp: build_phase06_def Let_def split: sum.splits)
  have 8: "map snd (pp_uploads prep) = (if bf_skip_heartbeat fl then [] else [''/tmp/com.hermes.heartbeat.plist''])
      \<and> args_for label (bf_dry_run fl) (pp_args prep)"
    if "build_phase08 env fl (common_args fl label) label fs = (ok prep, fs')"
    using that b by (auto simp: build_phase08_def only_args_def split: sum.splits if_splits)
  show "map snd (pp_uploads prep) = stage_paths (bf_skip_heartbeat fl) p" "args_for label (bf_dry_run fl) (pp_args prep)"
    using assms 4 5 6 8 b by (auto simp: build_phase_prep_def only_args_def stage_paths_def Let_def split: if_splits)
qed

section \<open>The log\<close>

text \<open>What the log can hold: names that fit a line, durations of 64 bits and clocks in the years of RFC 3339.\<close>

definition round_fits :: "bw_env \<Rightarrow> string \<Rightarrow> nat \<Rightarrow> string \<Rightarrow> bool" where
  "round_fits env label i p \<longleftrightarrow> length label + length p \<le> 5900 \<and> in_int64 (be_elapsed env i) \<and> time_json_ok (to_utc (be_clk env i))"

fun bw_records :: "bw_env \<Rightarrow> string \<Rightarrow> nat \<Rightarrow> bw_ran list \<Rightarrow> (gtime \<times> log_event) list" where
  "bw_records env label i [] = []"
| "bw_records env label i ((p, res, e) # rs) = (be_clk env i, phase_log_event (be_print env) label p res e) # bw_records env label (Suc i) rs"

lemma phase_event_logs:
  assumes "round_fits env label i p" "lg_now l = (\<lambda>x. x)" "in_int64 (pr_duration res)"
  shows "loggable l (be_clk env i) (phase_log_event prt label p res e) \<and> accepted l (be_clk env i) (phase_log_event prt label p res e)"
proof -
  let ?e = "phase_log_event prt label p res e"
  have "le_ts (log_fill l (be_clk env i) ?e) = to_utc (be_clk env i)"
    using assms(2) by (simp add: log_fill_def phase_log_event_def is_zero_time_def Let_def)
  moreover have "short_names ?e" using assms(1) by (simp add: short_names_def phase_log_event_def max_names_def round_fits_def)
  moreover have "result_valid (le_result ?e)" by (simp add: result_valid_def log_results_def phase_log_event_def)
  moreover have "in_int64 (le_duration_ms ?e)" using assms(3) quot_int64 by (simp add: phase_log_event_def)
  ultimately show ?thesis using assms(1) by (simp add: loggable_def accepted_def round_fits_def to_utc_def)
qed

lemma round_log:
  assumes "log_holds fs lp old" "lg_w l = Some lp" "flt (FWrite lp) = None" "lg_now l = (\<lambda>x. x)"
    and "round_fits env label i p" "in_int64 (pr_duration res)"
  shows "log_holds (log_step flt l fs (be_clk env i, phase_log_event prt label p res e)) lp
    (old @ [log_fill l (be_clk env i) (phase_log_event prt label p res e)])"
  using log_step_holds [where flt = flt, OF assms(1,2,3)] phase_event_logs [OF assms(5,4,6)] by fastforce

lemma holds_cong: "map_of fs' lp = map_of fs lp \<Longrightarrow> log_holds fs lp es \<Longrightarrow> log_holds fs' lp es"
  unfolding log_holds_def using file_data_cong by metis

lemma holds_some: "log_holds fs lp es \<Longrightarrow> map_of fs lp \<noteq> None"
  by (auto simp: log_holds_def file_data_def split: option.splits)

text \<open>The loop refines the protocol and logs one event for each round.\<close>

lemma run_phases_refines:
  assumes "run_phases env fl l label pinned tag i ps good w = (x, w')"
    and "lg_w l = Some lp" "lg_now l = (\<lambda>x. x)" "be_flt env (FWrite lp) = None"
    and "log_holds (bw_fs w) lp old" "list_all (\<lambda>(j, p). round_fits env label j p) (enumerate i ps)"
    and "bf_script_dir fl \<noteq> []"
    and "\<And>p. p \<in> set ps \<Longrightarrow> join2 (bf_script_dir fl) p \<noteq> lp \<and> map_of fs0 (join2 (bf_script_dir fl) p) \<noteq> None
           \<and> map_of (bw_fs w) (join2 (bf_script_dir fl) p) = map_of fs0 (join2 (bf_script_dir fl) p)"
  shows "\<exists>rs. bootstrapped (be_worker env) (be_jtext env) (script_src (be_flt env) (bf_script_dir fl) fs0) label (bf_skip_heartbeat fl) (bf_dry_run fl)
        (bw_ops w) ps rs (bw_ops w')
    \<and> log_holds (bw_fs w') lp (old @ map (\<lambda>(now, ev). log_fill l now ev) (bw_records env label i rs))
    \<and> (x = None \<longleftrightarrow> good \<and> length rs = length ps \<and> list_all round_passed rs)"
  using assms
proof (induction ps arbitrary: i good w old)
  case Nil
  then show ?case by (intro exI [of _ "[]"]) (auto intro: complete split: if_splits)
next
  case (Cons p ps)
  let ?src = "script_src (be_flt env) (bf_script_dir fl) fs0" and ?skip = "bf_skip_heartbeat fl" and ?dry = "bf_dry_run fl"
  let ?B = "bootstrapped (be_worker env) (be_jtext env) ?src label ?skip ?dry"
  obtain pr fs1 where b: "build_phase_prep env fl p label pinned tag (bw_fs w) = (pr, fs1)" by (metis surj_pair)
  note k = build_prep_fs [OF b]
  have h1: "log_holds fs1 lp old" using k holds_some [OF Cons.prems(5)] holds_cong [OF _ Cons.prems(5)] by (auto simp: keeps_entries_def)
  have s1: "map_of fs1 (join2 (bf_script_dir fl) q) = map_of fs0 (join2 (bf_script_dir fl) q)" if "q \<in> set (p # ps)" for q
    using k Cons.prems(8) [OF that] by (auto simp: keeps_entries_def simp del: join_path.simps)
  show ?case
  proof (cases pr)
    case (Inl e)
    then have "x = Some (BwPrep p e)" "w' = w\<lparr> bw_fs := fs1 \<rparr>" using Cons.prems(1) b by auto
    then show ?thesis using h1 unprepared [of "be_worker env" "bw_ops w" ?skip p "[]"] by (intro exI [of _ "[]"]) simp
  next
    case (Inr prep)
    let ?w = "w\<lparr> bw_fs := fs1 \<rparr>"
    note stage = prep_stages [OF b [unfolded Inr]]
    obtain r w1 where rd: "bw_round env fl l label i p prep ?w = (r, w1)" by (metis surj_pair)
    show ?thesis
    proof (cases r)
      case (Inl e)
      obtain new where n: "bw_fs w1 = fs1" "bw_ops w1 = bw_ops w @ new" "staging (be_worker env) (bw_ops w) (stage_paths ?skip p) new"
        using bw_round_err [OF rd [unfolded Inl]] stage(1) by auto
      have "x = Some (BwPrepare p e)" "w' = w1" using Cons.prems(1) b \<open>pr = ok prep\<close> rd Inl by auto
      then show ?thesis using h1 n unprepared [OF n(3)] by (intro exI [of _ "[]"]) simp
    next
      case r: (Inr q)
      obtain res e where q: "q = (res, e)" by (cases q)
      let ?fs = "foldl (remove_quiet (be_flt env)) fs1 (pp_temps prep)" and ?ev = "log_fill l (be_clk env i) (phase_log_event (be_print env) label p res e)"
      have there: "map_of (bw_fs ?w) (join2 (bf_script_dir fl) p) \<noteq> None" using s1 [of p] Cons.prems(8) [of p] by (simp del: join_path.simps)
      note rok = bw_round_ok [OF rd [unfolded r q] Cons.prems(7) there]
      have src: "script_src (be_flt env) (bf_script_dir fl) (bw_fs ?w) p = ?src p"
        by (rule script_src_cong) (use s1 [of p] in \<open>simp del: join_path.simps\<close>)
      have ops: "bw_ops ?w = bw_ops w" by simp
      obtain new where n: "staged (be_worker env) (bw_ops w) (stage_paths ?skip p) new"
        "case ?src p of
           Inl x \<Rightarrow> e \<noteq> None \<and> res = no_result p \<and> bw_ops w1 = bw_ops w @ new
         | Inr stm \<Rightarrow>
             (if answered (be_worker env) (bw_ops w @ new) (script_op p stm) then e = None
                \<and> bw_ops w1 = bw_ops w @ new @ [script_op p stm, phase_op p (pp_args prep)]
                \<and> res = phase_answer (be_jtext env) p (be_elapsed env i) (be_worker env (bw_ops w @ new @ [script_op p stm]) (phase_op p (pp_args prep)))
              else e \<noteq> None \<and> res = no_result p \<and> bw_ops w1 = bw_ops w @ new @ [script_op p stm])"
        using rok(2) unfolding stage(1) src ops by blast
      have f1: "bw_fs w1 = log_step (be_flt env) l ?fs (be_clk env i, phase_log_event (be_print env) label p res e)" using rok(1) by simp
      have new_temps: "t \<notin> set (pp_temps prep)" if "map_of (bw_fs w) t \<noteq> None" for t
        using k Inr that by (auto simp: list_all_iff)
      have h2: "log_holds ?fs lp old" by (rule holds_cong [OF remove_temps_other h1], rule new_temps, rule holds_some [OF Cons.prems(5)])
      have fits: "round_fits env label i p" "list_all (\<lambda>(j, p). round_fits env label j p) (enumerate (Suc i) ps)" using Cons.prems(6) by simp_all
      have "in_int64 (pr_duration res)"
        using n(2) fits(1) by (auto simp: phase_answer_duration no_result_def round_fits_def in_int64_def min_int64_def max_int64_def split: if_splits sum.splits)
      then have h3: "log_holds (bw_fs w1) lp (old @ [?ev])"
        unfolding f1 by (rule round_log [where flt = "be_flt env", OF h2 Cons.prems(2,4,3) fits(1)])
      have s2: "join2 (bf_script_dir fl) q \<noteq> lp \<and> map_of fs0 (join2 (bf_script_dir fl) q) \<noteq> None
           \<and> map_of (bw_fs w1) (join2 (bf_script_dir fl) q) = map_of fs0 (join2 (bf_script_dir fl) q)" if "q \<in> set ps" for q
      proof -
        have q: "join2 (bf_script_dir fl) q \<noteq> lp" "map_of fs0 (join2 (bf_script_dir fl) q) \<noteq> None"
          "map_of (bw_fs w) (join2 (bf_script_dir fl) q) = map_of fs0 (join2 (bf_script_dir fl) q)"
          using Cons.prems(8) [of q] that by (simp_all del: join_path.simps)
        have "map_of (bw_fs w1) (join2 (bf_script_dir fl) q) = map_of ?fs (join2 (bf_script_dir fl) q)"
          unfolding f1 by (rule log_step_other) (use q(1) Cons.prems(2) in \<open>simp del: join_path.simps\<close>)
        also have "\<dots> = map_of fs1 (join2 (bf_script_dir fl) q)"
          by (rule remove_temps_other, rule new_temps) (use q(2,3) in \<open>simp del: join_path.simps\<close>)
        finally show ?thesis using q s1 [of q] that by (simp del: join_path.simps)
      qed
      show ?thesis
      proof (cases "?src p")
        case (Inl y)
        then have "?B (bw_ops w) (p # ps) [(p, no_result p, Some (the e))] (bw_ops w1)" "e \<noteq> None" "res = no_result p"
          using n no_script [where src = ?src, OF n(1) Inl] by auto
        moreover have "x \<noteq> None" "w' = w1" using \<open>e \<noteq> None\<close> Cons.prems(1) b Inr rd r q by auto
        ultimately show ?thesis using h3 by (intro exI [of _ "[(p, res, e)]"]) auto
      next
        case src: (Inr stm)
        show ?thesis
        proof (cases "answered (be_worker env) (bw_ops w @ new) (script_op p stm)")
          case False
          then have "?B (bw_ops w) (p # ps) [(p, no_result p, Some (the e))] (bw_ops w1)" "e \<noteq> None" "res = no_result p"
            using n src not_taken [where src = ?src, OF n(1) src False] by auto
          moreover have "x \<noteq> None" "w' = w1" using \<open>e \<noteq> None\<close> Cons.prems(1) b Inr rd r q by auto
          ultimately show ?thesis using h3 by (intro exI [of _ "[(p, res, e)]"]) auto
        next
          case True
          have a: "e = None" "bw_ops w1 = bw_ops w @ new @ [script_op p stm, phase_op p (pp_args prep)]"
            "res = phase_answer (be_jtext env) p (be_elapsed env i) (be_worker env (bw_ops w @ new @ [script_op p stm]) (phase_op p (pp_args prep)))"
            using n(2) src True by auto
          show ?thesis
          proof (cases "phase_ok res \<or> ?dry")
            case good: True
            then have "run_phases env fl l label pinned tag (Suc i) ps (good \<and> phase_ok res) w1 = (x, w')"
              using Cons.prems(1) b Inr rd r q a(1) by auto
            from Cons.IH [OF this Cons.prems(2-4) h3 fits(2) Cons.prems(7) s2] obtain rs where rs:
              "?B (bw_ops w1) ps rs (bw_ops w')"
              "log_holds (bw_fs w') lp ((old @ [?ev]) @ map (\<lambda>(now, ev). log_fill l now ev) (bw_records env label (Suc i) rs))"
              "x = None \<longleftrightarrow> (good \<and> phase_ok res) \<and> length rs = length ps \<and> list_all round_passed rs" by blast
            have "?B (bw_ops w) (p # ps) ((p, res, None) # rs) (bw_ops w')"
              by (rule passed [where src = ?src, OF n(1) src True stage(2) a(3) good]) (use rs(1) a(2) in simp)
            then show ?thesis using rs(2,3) a(1) by (intro exI [of _ "(p, res, None) # rs"]) auto
          next
            case bad: False
            then have "x \<noteq> None" "w' = w1" using Cons.prems(1) b Inr rd r q a(1) by auto
            moreover have "?B (bw_ops w) (p # ps) [(p, res, None)] (bw_ops w1)"
              unfolding a(2) using bad failed [where src = ?src, OF n(1) src True stage(2) a(3)] by simp
            ultimately show ?thesis using h3 a(1) bad by (intro exI [of _ "[(p, res, None)]"]) auto
          qed
        qed
      qed
    qed
  qed
qed

section \<open>The tag\<close>

lemma write_cache_other:
  assumes "q \<noteq> p"
  shows "file_data (write_cache flt fs p b) q = file_data fs q"
proof (cases "os_mkdir_all flt fs (dir_path p) mode_0755")
  case (Inl x)
  then show ?thesis using mkdir_all_err [of flt fs "dir_path p" mode_0755] by (cases x) (auto simp: write_cache_def)
next
  case (Inr fs1)
  have "map_of (case os_write_file flt fs1 p b mode_0644 of Inl (_, fs') \<Rightarrow> fs' | Inr fs' \<Rightarrow> fs') q = map_of fs1 q"
  proof (cases "os_write_file flt fs1 p b mode_0644")
    case (Inl x)
    then show ?thesis using write_file_other [of flt fs1 p b mode_0644 "snd x" "fst x" q] assms by (cases x) auto
  next
    case (Inr fs2)
    then show ?thesis using write_file_other [of flt fs1 p b mode_0644 fs2 undefined q] assms by auto
  qed
  then show ?thesis using Inr mkdir_keeps_files [OF Inr, of q] by (simp add: write_cache_def file_data_def)
qed

lemma resolve_other: "resolve flt fs r sv = (x, fs') \<Longrightarrow> q \<noteq> rs_cache_file r \<Longrightarrow> file_data fs' q = file_data fs q"
  by (auto simp: resolve_def Let_def write_cache_other split: if_splits option.splits sum.splits)

lemma last_render: "acc \<noteq> [] \<Longrightarrow> n \<noteq> [] \<Longrightarrow> last (render_path r (n # acc)) = last n"
  by (simp add: render_path_Cons)

text \<open>The cache of the resolver is not the log.\<close>

lemma cache_not_log:
  assumes "resolver_default home listing = Some r" "expand_home_path home bootstrap_log_path = ok lp"
  shows "lp \<noteq> rs_cache_file r"
proof -
  obtain h where h: "home = ok h" "h \<noteq> []" "rs_cache_file r = join2 h default_cache_file"
    using assms(1) by (auto simp: resolver_default_def split: sum.splits if_splits)
  let ?s = "clean_stack (h @ SLASH # default_cache_file)"
  have "?s = ''PINNED_VERSION_TAG'' # ''.hermes'' # foldl (seg_step (is_rooted h)) [] (split_on SLASH h)"
    using h(2) by (simp add: clean_stack_def split_on_append_gen default_cache_file_def seg_step_def is_rooted_append)
  then have "last (clean_path (h @ SLASH # default_cache_file)) = CHR ''G''"
    using last_render by (simp add: clean_path_def)
  moreover have "rs_cache_file r = clean_path (h @ SLASH # default_cache_file)" using h(2,3) by (simp add: default_cache_file_def)
  moreover have "last lp = CHR ''l''" using assms(2) h(1) by (auto simp: expand_home_path_def bootstrap_log_path_def has_prefix_def)
  ultimately show ?thesis by auto
qed

lemma install_tag_log:
  assumes "install_tag env fl pinned fs = (r, fs')" "expand_home_path (be_home env) bootstrap_log_path = ok lp"
  shows "file_data fs' lp = file_data fs lp"
  using assms cache_not_log resolve_other
  by (fastforce simp: install_tag_def install_tag_resolver_def split: if_splits option.splits sum.splits prod.splits)

text \<open>C5. The bootstrap refines its protocol, whatever the worker answers.  With the scripts of the selected phases in
  the given directory, the rounds that took place are a prefix of the phases; each stages the files of its phase, uploads
  the content of its script and runs it with the node and the dry run among the arguments, each step only after the worker
  took the one before; without dry run only the last round can have failed.  The log, if its writes succeed, gains exactly one event for each round, in order, with its
  outcome; and the command succeeds exactly when every phase ran and passed.\<close>

theorem bootstrap_refines:
  assumes "parse_target (bf_node fl) = ok t" "bf_node fl \<noteq> []" "expand_home_path (be_home env) bootstrap_log_path = ok lp"
    and "log_open (be_flt env) fs lp = ok (l, fs1)" "log_holds fs1 lp old" "be_flt env (FWrite lp) = None" "be_dial env t = None"
    and "resolve_pinned_version env fl fs1 = ok pinned" "install_tag env fl pinned fs1 = (ok tag, fs2)"
    and "list_all (\<lambda>(j, p). round_fits env (node_label t) j p) (enumerate 0 (phases_to_run fl))"
    and "bf_script_dir fl \<noteq> []"
    and "list_all (\<lambda>p. join2 (bf_script_dir fl) p \<noteq> lp \<and> map_of fs2 (join2 (bf_script_dir fl) p) \<noteq> None) (phases_to_run fl)"
    and "run_bootstrap_worker env fl fs = (e, w)"
  shows "\<exists>rs. bootstrapped (be_worker env) (be_jtext env) (script_src (be_flt env) (bf_script_dir fl) fs2) (node_label t)
        (bf_skip_heartbeat fl) (bf_dry_run fl) [] (phases_to_run fl) rs (bw_ops w)
    \<and> map fst rs = take (length rs) (phases_to_run fl) \<and> (bf_dry_run fl \<or> list_all round_passed (butlast rs))
    \<and> read_jsonl no_faults (bw_fs w) lp
        = ok (map coerce_event (old @ map (\<lambda>(now, ev). log_fill l now ev) (bw_records env (node_label t) 0 rs)), False)
    \<and> (e = None \<longleftrightarrow> length rs = length (phases_to_run fl) \<and> list_all round_passed rs)"
proof -
  have l: "l = log_new lp True" by (rule log_open_new [OF assms(4)])
  have "phases_to_run fl \<noteq> []" by (simp add: phases_to_run_def phase_list_def)
  then have "run_phases env fl l (node_label t) pinned tag 0 (phases_to_run fl) True \<lparr> bw_fs = fs2, bw_ops = [], bw_out = [] \<rparr> = (e, w)"
    using assms by (simp add: run_bootstrap_worker_def)
  note go = run_phases_refines [OF this, of lp old fs2]
  have "log_holds fs2 lp old" using assms(5) install_tag_log [OF assms(9,3)] by (simp add: log_holds_def)
  with go l assms(6,10-12) obtain rs where
    "bootstrapped (be_worker env) (be_jtext env) (script_src (be_flt env) (bf_script_dir fl) fs2) (node_label t)
        (bf_skip_heartbeat fl) (bf_dry_run fl) [] (phases_to_run fl) rs (bw_ops w)"
    "log_holds (bw_fs w) lp (old @ map (\<lambda>(now, ev). log_fill l now ev) (bw_records env (node_label t) 0 rs))"
    "e = None \<longleftrightarrow> length rs = length (phases_to_run fl) \<and> list_all round_passed rs"
    unfolding log_new_def logger.simps bw_world.simps list_all_iff by (auto simp del: join_path.simps)
  then show ?thesis using bootstrapped_prefix holds_read [where flt = no_faults] by (intro exI [of _ rs]) auto
qed

section \<open>Only the pinned version is installed\<close>

lemma run_cmd_text: "\<exists>x. build_run_cmd (''/tmp/'' @ p) args = ''bash /tmp/'' @ p @ x"
  by (cases args) (simp_all add: build_run_cmd_def)

lemma run_phases_runs:
  assumes "run_phases env fl l label pinned tag i ps good w = (x, w')" "(c, None) \<in> set (bw_ops w')"
  shows "(c, None) \<in> set (bw_ops w) \<or>
    (\<exists>p prep f f'. p \<in> set ps \<and> build_phase_prep env fl p label pinned tag f = (ok prep, f') \<and> c = build_run_cmd (''/tmp/'' @ p) (pp_args prep))"
  using assms
proof (induction ps arbitrary: i good w)
  case (Cons p ps)
  obtain pr fs1 where b: "build_phase_prep env fl p label pinned tag (bw_fs w) = (pr, fs1)" by (metis surj_pair)
  show ?case
  proof (cases pr)
    case (Inl e)
    then show ?thesis using Cons.prems b by auto
  next
    case (Inr prep)
    obtain r w1 where rd: "bw_round env fl l label i p prep (w\<lparr> bw_fs := fs1 \<rparr>) = (r, w1)" by (metis surj_pair)
    have one: "(c, None) \<in> set (bw_ops w1) \<Longrightarrow> (c, None) \<in> set (bw_ops w) \<or> c = build_run_cmd (''/tmp/'' @ p) (pp_args prep)"
      using bw_round_runs [OF rd] by simp
    then have here: "(c, None) \<in> set (bw_ops w1) \<Longrightarrow> ?thesis" using b Inr by auto
    show ?thesis
    proof (cases "w' = w1")
      case True
      then show ?thesis using here Cons.prems(2) by simp
    next
      case False
      then obtain g where "run_phases env fl l label pinned tag (Suc i) ps g w1 = (x, w')"
        using Cons.prems(1) b Inr rd by (auto split: sum.splits prod.splits option.splits if_splits)
      from Cons.IH [OF this Cons.prems(2)] here show ?thesis by auto
    qed
  qed
qed (auto split: if_splits)

text \<open>C12. Hermes is only installed at its pinned version.  When the selected phases are among the ten of the command, each
  run of the script of phase 3 has the version pinned in the flags or in the pin file, as the store is once the log was
  opened, and, as \<open>--install-tag\<close>, the tag the resolver gives for exactly that version on that store.\<close>

theorem installs_pinned_only:
  assumes "run_bootstrap_worker env fl fs = (e, w)" "list_all (\<lambda>p. p \<in> set phase_list) (phases_to_run fl)"
    and "(c, None) \<in> set (bw_ops w)" "has_prefix c ''bash /tmp/phase03_install_hermes.sh''"
  shows "\<exists>t lp l fs1 r fs2 pinned tag. parse_target (bf_node fl) = ok t \<and> expand_home_path (be_home env) bootstrap_log_path = ok lp
    \<and> log_open (be_flt env) fs lp = ok (l, fs1) \<and> resolve_pinned_version env fl fs1 = ok pinned
    \<and> resolver_default (be_home env) (be_listing env) = Some r \<and> resolve (be_flt env) fs1 r pinned = (ok tag, fs2) \<and> tag \<noteq> []
    \<and> c = build_run_cmd ''/tmp/phase03_install_hermes.sh''
            ([''--pinned-version'', pinned, ''--node'', node_label t] @ opt_arg (bf_dry_run fl) ''--dry-run'' @ [''--install-tag'', tag])"
proof -
  from assms(1,3) obtain t lp l fs1 pinned tag fs2 where m: "parse_target (bf_node fl) = ok t"
    "expand_home_path (be_home env) bootstrap_log_path = ok lp" "log_open (be_flt env) fs lp = ok (l, fs1)"
    "resolve_pinned_version env fl fs1 = ok pinned" "install_tag env fl pinned fs1 = (ok tag, fs2)"
    "run_phases env fl l (node_label t) pinned tag 0 (phases_to_run fl) True \<lparr> bw_fs = fs2, bw_ops = [], bw_out = [] \<rparr> = (e, w)"
    by (auto simp: run_bootstrap_worker_def Let_def split: if_splits sum.splits prod.splits option.splits)
  from run_phases_runs [OF m(6) assms(3)] obtain p prep f f' where p: "p \<in> set (phases_to_run fl)"
    "build_phase_prep env fl p (node_label t) pinned tag f = (ok prep, f')" "c = build_run_cmd (''/tmp/'' @ p) (pp_args prep)" by auto
  obtain x where "c = ''bash /tmp/'' @ p @ x" using run_cmd_text [of p "pp_args prep"] p(3) by auto
  moreover have "p \<in> set phase_list" using p(1) assms(2) by (simp add: list_all_iff)
  ultimately have p3: "p = ''phase03_install_hermes.sh''" using assms(4) by (auto simp: phase_list_def has_prefix_def)
  then have a: "pinned \<noteq> []" "pp_args prep = [''--pinned-version'', pinned] @ common_args fl (node_label t) @ (if tag \<noteq> [] then [''--install-tag'', tag] else [])"
    using p(2) by (auto simp: build_phase_prep_def only_args_def Let_def split: if_splits)
  moreover have "phases_need_install_tag (phases_to_run fl)" using p(1) p3 by (auto simp: phases_need_install_tag_def list_ex_iff)
  ultimately obtain r fs3 where "resolver_default (be_home env) (be_listing env) = Some r" "resolve (be_flt env) fs1 r pinned = (ok tag, fs3)" "tag \<noteq> []"
    using m(5) by (auto simp: install_tag_def install_tag_resolver_def split: if_splits sum.splits prod.splits option.splits)
  then show ?thesis using m(1-4) p(3) p3 a by (auto simp: common_args_def)
qed

text \<open>Another name for the same script is not recognised as phase 3: it runs with neither the pin nor the tag.\<close>

theorem phase_alias_unpinned:
  "build_phase_prep env fl ''./phase03_install_hermes.sh'' label pinned tag fs = (ok (only_args (common_args fl label)), fs)"
  by (simp add: build_phase_prep_def)

section \<open>The bundle\<close>

lemma tar_seq_err: "snd (tar_seq rs) = Some x \<Longrightarrow> \<exists>r \<in> set rs. snd r = Some x"
  by (induction rs rule: tar_seq.induct) (auto split: option.splits prod.splits)

text \<open>On a store that is a tree the depth bound of the walk is never met.\<close>

lemma walk_tar_enough:
  assumes "fs_tree fs"
  shows "proper_dir p \<Longrightarrow> map_of fs p = Some info \<Longrightarrow> walk_fuel fs \<le> n + length p \<Longrightarrow> snd (walk_tar hdr flt fs root n p info) \<noteq> Some TarDepth"
proof (induction n arbitrary: p info)
  case 0
  then show ?case using walk_fuel_key [of fs p] by simp
next
  case (Suc n)
  show ?case
  proof
    assume a: "snd (walk_tar hdr flt fs root (Suc n) p info) = Some TarDepth"
    then obtain m rel where d: "info = Dir m" "hdr (rel @ ''/'') = None" "os_read_dir flt fs p = ok (dir_entries fs p)"
      "snd (tar_seq (([TwHeader (rel @ ''/'') m 0], None) # map (\<lambda>(nm, _). case os_stat flt fs (join2 p nm) of
           Inl _ \<Rightarrow> ([], Some (TarFail ''info'')) | Inr i \<Rightarrow> walk_tar hdr flt fs root n (join2 p nm) i) (dir_entries fs p))) = Some TarDepth"
      by (auto simp: os_read_dir_def simp del: join_path.simps tar_seq.simps split: option.splits fnode.splits sum.splits)
    from tar_seq_err [OF d(4)] obtain nm b i where e: "(nm, b) \<in> set (dir_entries fs p)" "os_stat flt fs (join2 p nm) = ok i"
      "snd (walk_tar hdr flt fs root n (join2 p nm) i) = Some TarDepth"
      by (auto simp del: join_path.simps split: sum.splits)
    have "nm \<in> fst ` set (dir_entries fs p)" using image_eqI [OF _ e(1), of nm fst] by simp
    then have k: "plain_name nm" using dir_entries_tree [OF assms Suc.prems(1)] by blast
    have j: "join2 p nm = p @ SLASH # nm" by (rule join2_child [OF Suc.prems(1) k])
    then have "map_of fs (p @ SLASH # nm) = Some i" using e(2) by (auto simp: os_stat_def split: option.splits)
    then show False
      using Suc.IH [OF proper_dir_child [OF Suc.prems(1) k], of i] e(3) j Suc.prems(3) by simp
  qed
qed

theorem tar_walk_ends:
  assumes "fs_tree fs" "proper_dir root" "list_all plain_name names"
  shows "snd (tar_seq (tar_members hdr flt fs root names)) \<noteq> Some TarDepth"
proof
  assume "snd (tar_seq (tar_members hdr flt fs root names)) = Some TarDepth"
  from tar_seq_err [OF this] obtain nm i where n: "nm \<in> set names" "os_stat flt fs (join2 root nm) = ok i"
    "snd (walk_tar hdr flt fs root (walk_fuel fs) (join2 root nm) i) = Some TarDepth"
    by (auto simp: tar_members_def List.map_filter_def simp del: join_path.simps split: sum.splits) (metis obj_sumE)
  have k: "plain_name nm" using n(1) assms(3) by (auto simp: list_all_iff)
  have j: "join2 root nm = root @ SLASH # nm" by (rule join2_child [OF assms(2) k])
  then have "map_of fs (root @ SLASH # nm) = Some i" using n(2) by (auto simp: os_stat_def split: option.splits)
  then show False using walk_tar_enough [OF assms(1) proper_dir_child [OF assms(2) k], of i "walk_fuel fs" hdr flt root] n(3) j by simp
qed

text \<open>When the compressed stream fails only as it is closed, the bundle is cut and the call still succeeds.\<close>

theorem bundle_cut_unnoticed:
  assumes "tar_gzip_dir env root dest names fs = ok fs'" "be_flt env (FWrite dest) = Some (k, m)"
  shows "\<exists>cs. file_data fs' dest = Some (take k (be_tgz env cs))"
proof -
  from assms(1) obtain fs1 where c: "os_open_create (be_flt env) True fs dest 438 = ok fs1" by (auto simp: tar_gzip_dir_def split: sum.splits)
  then obtain md where d: "map_of fs1 dest = Some (File [] md)"
    by (auto simp: os_open_create_def update_conv split: option.splits fnode.splits if_splits)
  obtain cs e where t: "tar_seq (tar_members (be_hdr env) (be_flt env) fs1 root names) = (cs, e)" by (metis surj_pair)
  have wr: "os_write (be_flt env) fs1 dest (be_tgz env cs) = err (OsErr m, AList.update dest (File (take k (be_tgz env cs)) md) fs1)"
    using assms(2) d by (simp add: os_write_def)
  have "fs' = AList.update dest (File (take k (be_tgz env cs)) md) fs1"
    using assms(1) c t wr by (auto simp: tar_gzip_dir_def Let_def split: if_splits option.splits tar_fail.splits)
  then show ?thesis by (intro exI [of _ cs]) (simp add: file_data_def update_conv)
qed

text \<open>The temp files of a phase stay when an upload of its preparation fails.\<close>

theorem temps_left:
  assumes "bw_round env fl l label i p prep w = (err e, w')"
  shows "bw_fs w' = bw_fs w"
  by (rule bw_round_err(1) [OF assms])

text \<open>Arguments are not quoted for the shell of the worker.\<close>

theorem run_cmd_not_quoted:
  "parse_target ''a;reboot@h'' = ok \<lparr> tg_user = ''a;reboot'', tg_host = ''h'', tg_port = 22 \<rparr>"
  "build_run_cmd ''/tmp/phase00_brew_baseline.sh'' [''--node'', ''a;reboot@h''] = ''bash /tmp/phase00_brew_baseline.sh --node a;reboot@h''"
  by code_simp+

section \<open>Examples\<close>

definition demo_bw_log :: path where "demo_bw_log = ''/g/.hermes/logs/bootstrap.jsonl''"

definition demo_bw_fs :: fs where
  "demo_bw_fs = [(''/g'', Dir mode_0755), (''/g/.hermes'', Dir mode_0755), (''/g/.hermes/logs'', Dir mode_0755),
     (demo_bw_log, File [] mode_0644), (''/r'', Dir mode_0755), (''/r/phase03_install_hermes.sh'', File ''x'' mode_0755)]"

definition demo_bw_env :: "int \<Rightarrow> bw_env" where
  "demo_bw_env exit = \<lparr> be_flt = no_faults, be_home = ok ''/g'', be_wd = ok ''/w'', be_tmp = ''/t'', be_draw = [''1''], be_dial = (\<lambda>_. None),
     be_worker = (\<lambda>_ _. (\<lparr> sr_stdout = [], sr_stderr = [], sr_exit_code = exit, sr_duration_ms = 1 \<rparr>, None)),
     be_listing = ok [\<lparr> rel_tag = ''v2026.5.7'', rel_name = ''Hermes Agent v0.13.0 (2026.5.7)'' \<rparr>],
     be_jtext = (\<lambda>_. []), be_print = (\<lambda>_. True), be_hdr = (\<lambda>_. None), be_tgz = (\<lambda>_. []), be_late = False, be_elapsed = (\<lambda>_. 5), be_clk = (\<lambda>_. time_utc 5) \<rparr>"

definition demo_bw_flags :: bw_flags where
  "demo_bw_flags = \<lparr> bf_node = ''u@a'', bf_phase = ''phase03_install_hermes.sh'', bf_script_dir = ''/r'', bf_dry_run = False, bf_quiet = True,
     bf_pinned_version = ''v0.13.0'', bf_pinned_file = [], bf_config_src = [], bf_env_gpg = [], bf_secrets_wrapper = [], bf_dedicated_key = [],
     bf_plist_template = [], bf_gateway_prefix = [], bf_allow_exist_admin = False, bf_skip_tirith = False, bf_skip_heartbeat = False,
     bf_heartbeat_wait = 70, bf_hermes_uid = 502, bf_node_label = [] \<rparr>"

definition demo_bw_target :: target where "demo_bw_target = \<lparr> tg_user = ''u'', tg_host = ''a'', tg_port = 22 \<rparr>"

lemma demo_bw_setup:
  "parse_target (bf_node demo_bw_flags) = ok demo_bw_target" "bf_node demo_bw_flags \<noteq> []"
  "expand_home_path (be_home (demo_bw_env x)) bootstrap_log_path = ok demo_bw_log"
  "be_flt (demo_bw_env x) = no_faults" "be_dial (demo_bw_env x) t = None" "bf_dry_run demo_bw_flags = False"
  "resolve_pinned_version (demo_bw_env x) demo_bw_flags f = ok ''v0.13.0''"
  "phases_to_run demo_bw_flags = [''phase03_install_hermes.sh'']"
proof -
  show "be_flt (demo_bw_env x) = no_faults" "be_dial (demo_bw_env x) t = None" by (simp_all add: demo_bw_env_def)
  show "resolve_pinned_version (demo_bw_env x) demo_bw_flags f = ok ''v0.13.0''" unfolding resolve_pinned_version_def by code_simp
qed code_simp+

lemma demo_bw_open: "log_open (be_flt (demo_bw_env x)) demo_bw_fs demo_bw_log = ok (log_new demo_bw_log True, demo_bw_fs)"
proof -
  have "os_mkdir_all no_faults demo_bw_fs (dir_path demo_bw_log) mode_0755 = ok demo_bw_fs"
    "os_open_create no_faults False demo_bw_fs demo_bw_log mode_0644 = ok demo_bw_fs" "demo_bw_log \<noteq> []" by code_simp+
  then show ?thesis by (simp add: log_open_def demo_bw_setup)
qed

lemma demo_bw_tag:
  "install_tag (demo_bw_env x) demo_bw_flags ''v0.13.0'' demo_bw_fs = (ok ''v2026.5.7'', snd (install_tag (demo_bw_env x) demo_bw_flags ''v0.13.0'' demo_bw_fs))"
  by code_simp

theorem bootstrap_refines_witness:
  "fst (run_bootstrap_worker (demo_bw_env 1) demo_bw_flags demo_bw_fs) \<noteq> None
   \<and> (\<exists>args. bw_ops (snd (run_bootstrap_worker (demo_bw_env 1) demo_bw_flags demo_bw_fs))
        \<in> {[script_op ''phase03_install_hermes.sh'' (''x'', None)],
           [script_op ''phase03_install_hermes.sh'' (''x'', None), phase_op ''phase03_install_hermes.sh'' args], []})"
proof -
  let ?p = "''phase03_install_hermes.sh''"
  obtain e w where r: "run_bootstrap_worker (demo_bw_env 1) demo_bw_flags demo_bw_fs = (e, w)" by (metis surj_pair)
  have h: "log_holds demo_bw_fs demo_bw_log []" by (simp add: log_holds_def file_data_def demo_bw_fs_def log_text_def demo_bw_log_def)
  have "time_json_ok (to_utc (time_utc 5))" by code_simp
  then have fits: "list_all (\<lambda>(j, p). round_fits (demo_bw_env 1) (node_label demo_bw_target) j p) (enumerate 0 (phases_to_run demo_bw_flags))"
    by (simp add: demo_bw_setup round_fits_def demo_bw_env_def demo_bw_target_def node_label_def in_int64_def min_int64_def max_int64_def)
  define fs2 where "fs2 = snd (install_tag (demo_bw_env 1) demo_bw_flags ''v0.13.0'' demo_bw_fs)"
  have tag: "install_tag (demo_bw_env 1) demo_bw_flags ''v0.13.0'' demo_bw_fs = (ok ''v2026.5.7'', fs2)" unfolding fs2_def by (rule demo_bw_tag)
  have there: "map_of fs2 (join2 ''/r'' ?p) = Some (File ''x'' mode_0755)" "join2 ''/r'' ?p \<noteq> demo_bw_log" unfolding fs2_def by code_simp+
  have sd: "bf_script_dir demo_bw_flags = ''/r''" "bf_skip_heartbeat demo_bw_flags = False" by (simp_all add: demo_bw_flags_def)
  have scripts: "list_all (\<lambda>p. join2 (bf_script_dir demo_bw_flags) p \<noteq> demo_bw_log
      \<and> map_of fs2 (join2 (bf_script_dir demo_bw_flags) p) \<noteq> None) (phases_to_run demo_bw_flags)"
    using there by (simp add: demo_bw_setup sd del: join_path.simps)
  have src: "script_src no_faults ''/r'' fs2 ?p = ok (''x'', None)"
    using there by (simp add: script_src_def open_stream_def del: join_path.simps)
  have "be_flt (demo_bw_env 1) (FWrite demo_bw_log) = None" "bf_script_dir demo_bw_flags \<noteq> []" by (simp_all add: demo_bw_setup sd)
  from bootstrap_refines [OF demo_bw_setup(1-3) demo_bw_open h this(1) demo_bw_setup(5,7) tag fits this(2) scripts r] obtain rs where
    b: "bootstrapped (be_worker (demo_bw_env 1)) (be_jtext (demo_bw_env 1)) (script_src no_faults ''/r'' fs2) (node_label demo_bw_target) False False
        [] [?p] rs (bw_ops w)"
    and e: "e = None \<longleftrightarrow> length rs = 1 \<and> list_all round_passed rs"
    by (auto simp: demo_bw_setup sd)
  have no: "stage_paths False ?p = []" by (simp add: stage_paths_def)
  have n: "staged wk hist [] new \<Longrightarrow> new = []" "staging wk hist [] new \<Longrightarrow> new = []" for wk hist new by (cases new; simp)+
  have "\<not> (length rs = 1 \<and> list_all round_passed rs) \<and> (\<exists>args. bw_ops w \<in> {[script_op ?p (''x'', None)], [script_op ?p (''x'', None), phase_op ?p args], []})"
    using b by cases (auto simp: no src demo_bw_env_def answered_def phase_ok_def phase_answer_exit elim: bootstrapped_nil dest: n)
  then show ?thesis using r e by auto
qed

lemma demo_bw_runs:
  "\<exists>c. (c, None) \<in> set (bw_ops (snd (run_bootstrap_worker (demo_bw_env 0) demo_bw_flags demo_bw_fs))) \<and> has_prefix c ''bash /tmp/phase03_install_hermes.sh''"
proof -
  let ?l = "log_new demo_bw_log True" and ?p = "''phase03_install_hermes.sh''" and ?env = "demo_bw_env 0"
  define fs2 where "fs2 = snd (install_tag ?env demo_bw_flags ''v0.13.0'' demo_bw_fs)"
  define args where "args = [''--pinned-version'', ''v0.13.0'', ''--node'', ''u@a'', ''--install-tag'', ''v2026.5.7'']"
  have lab: "node_label demo_bw_target = ''u@a''" by code_simp
  have "fst (build_phase_prep ?env demo_bw_flags ?p ''u@a'' ''v0.13.0'' ''v2026.5.7'' fs2) = ok (only_args args)
      \<and> snd (build_phase_prep ?env demo_bw_flags ?p ''u@a'' ''v0.13.0'' ''v2026.5.7'' fs2) = fs2"
    unfolding args_def by (simp add: build_phase_prep_def common_args_def opt_arg_def demo_bw_flags_def)
  then have b: "build_phase_prep ?env demo_bw_flags ?p ''u@a'' ''v0.13.0'' ''v2026.5.7'' fs2 = (ok (only_args args), fs2)" by (metis prod.collapse)
  define w where "w = \<lparr> bw_fs = fs2, bw_ops = [], bw_out = [] \<rparr>"
  obtain r w1 where rd: "bw_round ?env demo_bw_flags ?l ''u@a'' 0 ?p (only_args args) (w\<lparr> bw_fs := fs2 \<rparr>) = (r, w1)" by (metis surj_pair)
  have st: "os_stat no_faults fs2 (join2 ''/r'' ?p) \<noteq> err NotExist" "open_stream no_faults fs2 (join2 ''/r'' ?p) = ok (''x'', None)"
    unfolding fs2_def by code_simp+
  have "bw_ops w1 = [(upload_cmd (''/tmp/'' @ ?p), Some (''x'', None)), phase_op ?p args] \<and> w1 \<noteq> w"
    using rd st
    by (auto simp: bw_round_def only_args_def run_phase_def upload_def ask_worker_def demo_bw_env_def demo_bw_flags_def w_def Let_def simp del: join_path.simps)
  moreover have "\<exists>x. run_phases ?env demo_bw_flags ?l ''u@a'' ''v0.13.0'' ''v2026.5.7'' 0 [?p] True w = (x, w1)"
    using b rd by (auto simp: w_def demo_bw_flags_def split: sum.splits prod.splits option.splits)
  then obtain x where x: "run_phases ?env demo_bw_flags ?l ''u@a'' ''v0.13.0'' ''v2026.5.7'' 0 [?p] True w = (x, w1)" by blast
  have tg: "install_tag ?env demo_bw_flags ''v0.13.0'' demo_bw_fs = (ok ''v2026.5.7'', fs2)" unfolding fs2_def by (rule demo_bw_tag)
  have "snd (run_bootstrap_worker ?env demo_bw_flags demo_bw_fs) = w1"
    using x by (simp add: run_bootstrap_worker_def demo_bw_setup(1-3,5-8) demo_bw_open tg lab w_def del: run_phases.simps)
  ultimately show ?thesis by (intro exI [of _ "build_run_cmd (''/tmp/'' @ ?p) args"]) (auto simp: build_run_cmd_def args_def has_prefix_def)
qed

theorem installs_pinned_only_witness:
  "\<exists>r fs2 tag. resolver_default (ok ''/g'') (be_listing (demo_bw_env 0)) = Some r \<and> resolve no_faults demo_bw_fs r ''v0.13.0'' = (ok tag, fs2)
     \<and> (build_run_cmd ''/tmp/phase03_install_hermes.sh'' [''--pinned-version'', ''v0.13.0'', ''--node'', ''u@a'', ''--install-tag'', tag], None)
         \<in> set (bw_ops (snd (run_bootstrap_worker (demo_bw_env 0) demo_bw_flags demo_bw_fs)))"
proof -
  obtain c where c: "(c, None) \<in> set (bw_ops (snd (run_bootstrap_worker (demo_bw_env 0) demo_bw_flags demo_bw_fs)))"
    "has_prefix c ''bash /tmp/phase03_install_hermes.sh''" using demo_bw_runs by blast
  have ph: "list_all (\<lambda>p. p \<in> set phase_list) (phases_to_run demo_bw_flags)" by (simp add: demo_bw_setup phase_list_def)
  have home: "be_home (demo_bw_env 0) = ok ''/g''" by (simp add: demo_bw_env_def)
  from installs_pinned_only [OF prod.collapse [symmetric] ph c] obtain t lp l fs1 r fs2 pinned tag where i:
    "parse_target (bf_node demo_bw_flags) = ok t" "expand_home_path (be_home (demo_bw_env 0)) bootstrap_log_path = ok lp"
    "log_open (be_flt (demo_bw_env 0)) demo_bw_fs lp = ok (l, fs1)" "resolve_pinned_version (demo_bw_env 0) demo_bw_flags fs1 = ok pinned"
    "resolver_default (be_home (demo_bw_env 0)) (be_listing (demo_bw_env 0)) = Some r"
    "resolve (be_flt (demo_bw_env 0)) fs1 r pinned = (ok tag, fs2)"
    "c = build_run_cmd ''/tmp/phase03_install_hermes.sh'' ([''--pinned-version'', pinned, ''--node'', node_label t]
            @ opt_arg (bf_dry_run demo_bw_flags) ''--dry-run'' @ [''--install-tag'', tag])" by blast
  have v: "lp = demo_bw_log" "t = demo_bw_target" "pinned = ''v0.13.0''" using i(1,2,4) demo_bw_setup by auto
  then have f: "fs1 = demo_bw_fs" using i(3) demo_bw_open [of 0] by simp
  have "node_label t = ''u@a''" "opt_arg (bf_dry_run demo_bw_flags) ''--dry-run'' = []"
    by (simp_all add: v node_label_def demo_bw_target_def opt_arg_def demo_bw_setup)
  then show ?thesis using i(5-7) c(1) unfolding f v home demo_bw_setup(4) by (intro exI [of _ r] exI [of _ fs2] exI [of _ tag]) simp
qed

end
