(* ===== verification/Backup.thy ===== *)
theory Backup
  imports Fleet_Log Nodes Go_Duration
begin

text \<open>
  The backups: \<open>fleetctl backup\<close> (\<open>cmd/fleetctl/commands/backup.go\<close>), which snapshots the state of the
  gateway with restic, and \<open>fleetctl backup-worker\<close> (\<open>backup_worker.go\<close>), which pulls the state of every
  worker with rsync.  The two programs are an argument: they answer an argument list by the programs that ran
  before, and leave a store.  The argument lists are part of the state.  The theorems say when the marker of the
  last backup moves, that nothing is pruned before a snapshot has landed, and what the pull of the workers logs
  and returns.
\<close>

declare json_print.simps(3) [simp del]

section \<open>Programs\<close>

text \<open>The argument list with the program first; the error of \<open>Run\<close>, the standard error and the store it leaves.\<close>

type_synonym program = "string list list \<Rightarrow> string list \<Rightarrow> fs \<Rightarrow> (string option \<times> bytes) \<times> fs"

record bk_world =
  bk_fs :: fs
  bk_ran :: "string list list"
  bk_events :: nat
  bk_out :: string

definition bk_run :: "program \<Rightarrow> string list \<Rightarrow> bk_world \<Rightarrow> (string option \<times> bytes) \<times> bk_world" where
  "bk_run prog argv w =
     (case prog (bk_ran w) argv (bk_fs w) of (a, fs') \<Rightarrow> (a, w\<lparr> bk_fs := fs', bk_ran := bk_ran w @ [argv] \<rparr>))"

text \<open>\<open>clk n\<close> is the clock at the event number \<open>n\<close> of the process.\<close>

definition bk_log :: "faults \<Rightarrow> logger \<Rightarrow> (nat \<Rightarrow> gtime) \<Rightarrow> log_event \<Rightarrow> bk_world \<Rightarrow> bk_world" where
  "bk_log flt l clk ev w = w\<lparr> bk_fs := log_step flt l (bk_fs w) (clk (bk_events w), ev), bk_events := Suc (bk_events w) \<rparr>"

definition tail_lines :: "string \<Rightarrow> nat \<Rightarrow> string" where
  "tail_lines s n = (if length s \<le> n then trim_space s else trim_space (drop (length s - n) s))"

definition short_hostname :: "(string, string) result \<Rightarrow> string" where
  "short_hostname h =
     (case h of Inl _ \<Rightarrow> ''unknown'' | Inr s \<Rightarrow> (case index_byte s CHR ''.'' of Some i \<Rightarrow> take i s | None \<Rightarrow> s))"

section \<open>The snapshot of the gateway\<close>

record bk_flags =
  kf_quiet :: bool
  kf_dry_run :: bool
  kf_tag :: string
  kf_keep_daily :: int
  kf_keep_weekly :: int
  kf_keep_monthly :: int

text \<open>\<open>ke_now ran\<close> is the clock once the programs of \<open>ran\<close> have run.\<close>

record bk_env =
  ke_flt :: faults
  ke_home :: "(string, path) result"
  ke_getenv :: "string \<Rightarrow> string"
  ke_look_path :: "string \<Rightarrow> string option"
  ke_host :: "(string, string) result"
  ke_prog :: program
  ke_clk :: "nat \<Rightarrow> gtime"
  ke_now :: "string list list \<Rightarrow> gtime"
  ke_text :: "path \<Rightarrow> ioerr \<Rightarrow> string"

datatype bk_err =
    BkNoRepo | BkNoPassword | BkNoRestic string | BkHome string | BkSource path ioerr | BkMkdir ioerr | BkLog log_err
  | BkInit string | BkSnapshot string

definition restic_excludes :: "string list" where
  "restic_excludes =
     [''sandboxes'', ''cache'', ''*.bak.*'', ''models_dev_cache*'', ''state.db-shm'', ''state.db-wal'', ''logs/backup.log'',
      ''logs/owera-backup.jsonl'', ''logs/owera-backup.launchd.out'', ''logs/owera-backup.launchd.err'']"

definition backup_src_dir :: path where "backup_src_dir = ''~/.hermes''"
definition backup_log_path :: path where "backup_log_path = ''~/.hermes/logs/owera-backup.jsonl''"

definition bk_event :: "string \<Rightarrow> string \<Rightarrow> string \<Rightarrow> log_event" where
  "bk_event action res tail =
     \<lparr> le_ts = zero_time, le_node = ''gateway'', le_phase = ''backup'', le_action = action, le_result = res, le_duration_ms = 0,
       le_stderr_tail = tail \<rparr>"

definition ensure_restic_repo :: "bk_env \<Rightarrow> logger \<Rightarrow> bk_world \<Rightarrow> bk_err option \<times> bk_world" where
  "ensure_restic_repo env l w =
     (case bk_run (ke_prog env) [''restic'', ''snapshots'', ''--no-lock'', ''--json''] w of
        ((None, _), w1) \<Rightarrow> (None, w1)
      | ((Some _, _), w1) \<Rightarrow>
          (let w2 = bk_log (ke_flt env) l (ke_clk env) (bk_event ''init'' ''ok'' ''probe failed; attempting restic init (idempotent)'') w1 in
           case bk_run (ke_prog env) [''restic'', ''init''] w2 of
             ((None, _), w3) \<Rightarrow> (None, w3)
           | ((Some m, se), w3) \<Rightarrow>
               (let tail = trim_space se in
                if contains tail ''already initialized'' \<or> contains tail ''config file already exists'' then (None, w3)
                else (Some (BkInit m), bk_log (ke_flt env) l (ke_clk env) (bk_event ''init'' ''error'' tail) w3))))"

definition snapshot_args :: "path \<Rightarrow> string list \<Rightarrow> bool \<Rightarrow> string list" where
  "snapshot_args src tags dry =
     [''restic'', ''backup''] @ tags @ map (\<lambda>x. ''--exclude='' @ x) restic_excludes @ (if dry then [''--dry-run''] else []) @ [src]"

definition run_restic_backup :: "bk_env \<Rightarrow> logger \<Rightarrow> path \<Rightarrow> string list \<Rightarrow> bool \<Rightarrow> bk_world \<Rightarrow> bk_err option \<times> bk_world" where
  "run_restic_backup env l src tags dry w =
     (case bk_run (ke_prog env) (snapshot_args src tags dry) w of
        ((Some m, se), w1) \<Rightarrow> (Some (BkSnapshot m), bk_log (ke_flt env) l (ke_clk env) (bk_event ''snapshot'' ''error'' (tail_lines se 4000)) w1)
      | ((None, _), w1) \<Rightarrow>
          (None, bk_log (ke_flt env) l (ke_clk env) (bk_event ''snapshot'' ''ok'' (''src='' @ src @ '' dry_run='' @ bool_str dry)) w1))"

definition forget_args :: "string list \<Rightarrow> bk_flags \<Rightarrow> string list" where
  "forget_args tags fl =
     [''restic'', ''forget'', ''--prune'', ''--keep-daily'', itoa (kf_keep_daily fl), ''--keep-weekly'', itoa (kf_keep_weekly fl),
      ''--keep-monthly'', itoa (kf_keep_monthly fl)] @ tags"

text \<open>The text of the error is what the caller logs.\<close>

definition run_restic_forget :: "bk_env \<Rightarrow> logger \<Rightarrow> string list \<Rightarrow> bk_flags \<Rightarrow> bk_world \<Rightarrow> string option \<times> bk_world" where
  "run_restic_forget env l tags fl w =
     (case bk_run (ke_prog env) (forget_args tags fl) w of
        ((Some m, se), w1) \<Rightarrow> (Some (''restic forget: '' @ m @ '' (stderr='' @ tail_lines se 1000 @ '')''), w1)
      | ((None, _), w1) \<Rightarrow>
          (None, bk_log (ke_flt env) l (ke_clk env)
             (bk_event ''forget-prune'' ''ok'' (''kept daily='' @ itoa (kf_keep_daily fl) @ '' weekly='' @ itoa (kf_keep_weekly fl)
                @ '' monthly='' @ itoa (kf_keep_monthly fl))) w1))"

definition last_backup_path :: "path \<Rightarrow> path" where
  "last_backup_path home = join2 home ''LAST_BACKUP''"

definition marker_text :: "gtime \<Rightarrow> bytes" where
  "marker_text at = format_rfc3339 (to_utc at) @ [NL]"

definition write_last_backup_marker :: "faults \<Rightarrow> path \<Rightarrow> gtime \<Rightarrow> fs \<Rightarrow> (ioerr \<times> fs, fs) result" where
  "write_last_backup_marker flt home at fs = os_write_file flt fs (last_backup_path home) (marker_text at) mode_0644"

definition run_summary :: "bk_flags \<Rightarrow> string \<Rightarrow> string \<Rightarrow> string" where
  "run_summary fl host dur = ''host='' @ host @ '' tag='' @ kf_tag fl @ '' dry_run='' @ bool_str (kf_dry_run fl) @ '' duration='' @ dur"

text \<open>After the snapshot: the retention and the marker.  Neither can fail the run.\<close>

definition after_snapshot :: "bk_env \<Rightarrow> bk_flags \<Rightarrow> logger \<Rightarrow> path \<Rightarrow> string list \<Rightarrow> gtime \<Rightarrow> bk_world \<Rightarrow> bk_world" where
  "after_snapshot env fl l src tags start w =
     (let lg = (\<lambda>a m. bk_log (ke_flt env) l (ke_clk env) (bk_event a ''warn'' m));
          w1 = (case run_restic_forget env l tags fl w of
                  (None, w') \<Rightarrow> w'
                | (Some m, w') \<Rightarrow> lg ''forget-prune'' m w')
      in case write_last_backup_marker (ke_flt env) src start (bk_fs w1) of
           Inl (e, fs') \<Rightarrow> lg ''write-marker'' (ke_text env (last_backup_path src) e) (w1\<lparr> bk_fs := fs' \<rparr>)
         | Inr fs' \<Rightarrow> w1\<lparr> bk_fs := fs' \<rparr>)"

definition finish_backup :: "bk_env \<Rightarrow> bk_flags \<Rightarrow> logger \<Rightarrow> string \<Rightarrow> gtime \<Rightarrow> bk_world \<Rightarrow> bk_world" where
  "finish_backup env fl l host start w =
     (let dur = duration_string (duration_round (time_sub (ke_now env (bk_ran w)) start) 1000000000);
          w1 = bk_log (ke_flt env) l (ke_clk env) (bk_event ''run-complete'' ''ok'' (run_summary fl host dur)) w
      in if kf_quiet fl then w1 else w1\<lparr> bk_out := bk_out w1 @ ''fleetctl backup: '' @ run_summary fl host dur @ [NL] \<rparr>)"

definition tag_args :: "bk_flags \<Rightarrow> string \<Rightarrow> string list" where
  "tag_args fl host = [''--tag'', kf_tag fl, ''--tag'', ''host='' @ host]"

definition backup_body :: "bk_env \<Rightarrow> bk_flags \<Rightarrow> logger \<Rightarrow> path \<Rightarrow> bk_world \<Rightarrow> bk_err option \<times> bk_world" where
  "backup_body env fl l src w =
     (let host = short_hostname (ke_host env); tags = tag_args fl host in
      case ensure_restic_repo env l w of
        (Some e, w1) \<Rightarrow> (Some e, w1)
      | (None, w1) \<Rightarrow>
          (let start = ke_now env (bk_ran w1) in
           case run_restic_backup env l src tags (kf_dry_run fl) w1 of
             (Some e, w2) \<Rightarrow> (Some e, w2)
           | (None, w2) \<Rightarrow>
               (None, finish_backup env fl l host start (if kf_dry_run fl then w2 else after_snapshot env fl l src tags start w2))))"

definition run_backup :: "bk_env \<Rightarrow> bk_flags \<Rightarrow> fs \<Rightarrow> bk_err option \<times> bk_world" where
  "run_backup env fl fs =
     (let w0 = \<lparr> bk_fs = fs, bk_ran = [], bk_events = 0, bk_out = [] \<rparr> in
      if ke_getenv env ''RESTIC_REPOSITORY'' = [] then (Some BkNoRepo, w0)
      else if ke_getenv env ''RESTIC_PASSWORD_COMMAND'' = [] then (Some BkNoPassword, w0)
      else (case ke_look_path env ''restic'' of
              Some m \<Rightarrow> (Some (BkNoRestic m), w0)
            | None \<Rightarrow>
           (case expand_home_path (ke_home env) backup_src_dir of Inl m \<Rightarrow> (Some (BkHome m), w0) | Inr src \<Rightarrow>
           (case os_stat (ke_flt env) fs src of Inl e \<Rightarrow> (Some (BkSource src e), w0) | Inr _ \<Rightarrow>
           (case expand_home_path (ke_home env) backup_log_path of Inl m \<Rightarrow> (Some (BkHome m), w0) | Inr lp \<Rightarrow>
           (case os_mkdir_all (ke_flt env) fs (dir_path lp) mode_0755 of
              Inl (e, fs1) \<Rightarrow> (Some (BkMkdir e), w0\<lparr> bk_fs := fs1 \<rparr>)
            | Inr fs1 \<Rightarrow>
                (case log_open (ke_flt env) fs1 lp of
                   Inl (e, fs2) \<Rightarrow> (Some (BkLog e), w0\<lparr> bk_fs := fs2 \<rparr>)
                 | Inr (l, fs2) \<Rightarrow> backup_body env fl l src (w0\<lparr> bk_fs := fs2 \<rparr>))))))))"

section \<open>The pull of the workers\<close>

record bw_pull_flags =
  pf_quiet :: bool
  pf_dry_run :: bool
  pf_ssh_timeout :: int
  pf_bw_limit :: int
  pf_filter :: "string list"

record pull_env =
  pv_flt :: faults
  pv_home :: "(string, path) result"
  pv_look_path :: "string \<Rightarrow> string option"
  pv_auth_sock :: string
  pv_prog :: program
  pv_clk :: "nat \<Rightarrow> gtime"
  pv_elapsed :: "nat \<Rightarrow> int"
  pv_now :: "nat \<Rightarrow> gtime"
  pv_text :: "path \<Rightarrow> ioerr \<Rightarrow> string"

datatype bwk_err = BwkNoRsync string | BwkHome string | BwkMkdir path ioerr | BwkLog log_err | BwkNodes nodes_error | BwkNone | BwkFailed nat nat

definition rsync_excludes :: "string list" where
  "rsync_excludes =
     [''sandboxes'', ''cache'', ''*.bak.*'', ''models_dev_cache*'', ''state.db-shm'', ''state.db-wal'', ''logs'', ''hermes-agent'', ''node'', ''bin'']"

definition resolve_backup_targets ::
  "(string, path) result \<Rightarrow> faults \<Rightarrow> fs \<Rightarrow> path \<Rightarrow> string list \<Rightarrow> (nodes_error, node list) result" where
  "resolve_backup_targets home flt fs p filt =
     (case load_nodes home flt fs 0 p of
        Inl e \<Rightarrow> err e
      | Inr reg \<Rightarrow>
          ok (if filt = [] then all_nodes reg
              else filter (\<lambda>n. node_string n \<in> set (map trim_space filt)) (all_nodes reg)))"

definition ssh_arg :: "pull_env \<Rightarrow> bw_pull_flags \<Rightarrow> string" where
  "ssh_arg env fl =
     ''ssh -o BatchMode=yes -o ConnectTimeout='' @ itoa (whole_seconds (pf_ssh_timeout fl)) @ '' -o ServerAliveInterval=30''
     @ (if pv_auth_sock env \<noteq> [] then '' -o IdentityAgent='' @ pv_auth_sock env else [])"

definition pull_dest :: "path \<Rightarrow> node \<Rightarrow> path" where
  "pull_dest root n = join2 root (n_host n)"

definition rsync_args :: "pull_env \<Rightarrow> bw_pull_flags \<Rightarrow> path \<Rightarrow> node \<Rightarrow> string list" where
  "rsync_args env fl root n =
     [''rsync'', ''-az'', ''--delete'', ''--partial'', ''--inplace'', ''-e'', ssh_arg env fl]
     @ map (\<lambda>x. ''--exclude='' @ x) rsync_excludes
     @ (if 0 < pf_bw_limit fl then [''--bwlimit='' @ itoa (pf_bw_limit fl)] else [])
     @ (if pf_dry_run fl then [''--dry-run'', ''-i''] else [])
     @ [node_string n @ '':/Users/hermes/.hermes/'', pull_dest root n @ ''/'']"

definition pull_one_worker :: "pull_env \<Rightarrow> bw_pull_flags \<Rightarrow> path \<Rightarrow> node \<Rightarrow> bk_world \<Rightarrow> string option \<times> bk_world" where
  "pull_one_worker env fl root n w =
     (case os_mkdir_all (pv_flt env) (bk_fs w) (pull_dest root n) mode_0755 of
        Inl (e, fs1) \<Rightarrow> (Some (''mkdir dest '' @ pull_dest root n @ '': '' @ pv_text env (pull_dest root n) e), w\<lparr> bk_fs := fs1 \<rparr>)
      | Inr fs1 \<Rightarrow>
          (case bk_run (pv_prog env) (rsync_args env fl root n) (w\<lparr> bk_fs := fs1 \<rparr>) of
             ((Some m, se), w1) \<Rightarrow> (Some (''rsync: '' @ m @ '' (stderr='' @ tail_lines se 4000 @ '')''), w1)
           | ((None, _), w1) \<Rightarrow> (None, w1)))"

definition pull_event_of :: "node \<Rightarrow> int \<Rightarrow> string option \<Rightarrow> log_event" where
  "pull_event_of n ms e =
     \<lparr> le_ts = zero_time, le_node = n_host n, le_phase = ''backup-worker'', le_action = ''rsync'',
       le_result = (case e of None \<Rightarrow> ''ok'' | Some _ \<Rightarrow> ''error''), le_duration_ms = ms,
       le_stderr_tail = (case e of None \<Rightarrow> [] | Some m \<Rightarrow> m) \<rparr>"

definition last_pull_path :: "path \<Rightarrow> node \<Rightarrow> path" where
  "last_pull_path root n = join_path [root, n_host n, ''.LAST_PULL'']"

text \<open>\<open>os.WriteFile\<close> with its error dropped.\<close>

definition write_file_quiet :: "faults \<Rightarrow> fs \<Rightarrow> path \<Rightarrow> bytes \<Rightarrow> nat \<Rightarrow> fs" where
  "write_file_quiet flt fs p b m = (case os_write_file flt fs p b m of Inl (_, fs') \<Rightarrow> fs' | Inr fs' \<Rightarrow> fs')"

text \<open>\<open>%-30s\<close> counts runes.\<close>

function rune_count :: "bytes \<Rightarrow> nat" where
  "rune_count s = (if s = [] then 0 else Suc (rune_count (drop (max 1 (rune_width s)) s)))"
  by pat_completeness auto
termination by (relation "measure length") auto

declare rune_count.simps [simp del]

definition pad_runes :: "nat \<Rightarrow> string \<Rightarrow> string" where
  "pad_runes n s = s @ replicate (n - rune_count s) SP"

definition pull_line :: "node \<Rightarrow> bool \<Rightarrow> int \<Rightarrow> string" where
  "pull_line n good dur = ''  '' @ pad_runes 30 (node_string n) @ (if good then ''  ok      '' else ''  FAILED  '') @ duration_string dur"

record pull_summary =
  su_total :: nat
  su_ok :: nat
  su_failed :: nat
  su_lines :: "string list"

definition pull_step :: "pull_env \<Rightarrow> bw_pull_flags \<Rightarrow> logger \<Rightarrow> path \<Rightarrow> nat \<Rightarrow> node \<Rightarrow> pull_summary \<times> bk_world \<Rightarrow> pull_summary \<times> bk_world" where
  "pull_step env fl l root i n x =
     (case x of (s, w) \<Rightarrow>
      case pull_one_worker env fl root n w of (e, w1) \<Rightarrow>
        (let dur = duration_round (pv_elapsed env i) 1000000; ms = quot_trunc dur 1000000 in
         case e of
           Some m \<Rightarrow>
             (s\<lparr> su_failed := Suc (su_failed s), su_lines := su_lines s @ [pull_line n False dur] \<rparr>,
              bk_log (pv_flt env) l (pv_clk env) (pull_event_of n ms e) w1)
         | None \<Rightarrow>
             (let w2 = (if pf_dry_run fl then w1
                        else w1\<lparr> bk_fs := write_file_quiet (pv_flt env) (bk_fs w1) (last_pull_path root n) (marker_text (pv_now env i)) mode_0644 \<rparr>)
              in (s\<lparr> su_ok := Suc (su_ok s), su_lines := su_lines s @ [pull_line n True dur] \<rparr>,
                  bk_log (pv_flt env) l (pv_clk env) (pull_event_of n ms e) w2))))"

fun pull_workers :: "pull_env \<Rightarrow> bw_pull_flags \<Rightarrow> logger \<Rightarrow> path \<Rightarrow> nat \<Rightarrow> node list \<Rightarrow> pull_summary \<times> bk_world \<Rightarrow> pull_summary \<times> bk_world" where
  "pull_workers env fl l root i [] x = x"
| "pull_workers env fl l root i (n # ns) x = pull_workers env fl l root (Suc i) ns (pull_step env fl l root i n x)"

definition counts_text :: "bw_pull_flags \<Rightarrow> pull_summary \<Rightarrow> string" where
  "counts_text fl s = ''total='' @ nat_str (su_total s) @ '' ok='' @ nat_str (su_ok s) @ '' failed='' @ nat_str (su_failed s)
     @ '' dry_run='' @ bool_str (pf_dry_run fl)"

definition pull_complete_event :: "bw_pull_flags \<Rightarrow> pull_summary \<Rightarrow> log_event" where
  "pull_complete_event fl s =
     \<lparr> le_ts = zero_time, le_node = ''gateway'', le_phase = ''backup-worker'', le_action = ''run-complete'', le_result = ''ok'',
       le_duration_ms = 0, le_stderr_tail = counts_text fl s \<rparr>"

definition finish_pull :: "pull_env \<Rightarrow> bw_pull_flags \<Rightarrow> logger \<Rightarrow> pull_summary \<times> bk_world \<Rightarrow> bwk_err option \<times> bk_world" where
  "finish_pull env fl l x =
     (case x of (s, w) \<Rightarrow>
        (let w1 = bk_log (pv_flt env) l (pv_clk env) (pull_complete_event fl s) w;
             w2 = (if pf_quiet fl then w1
                   else w1\<lparr> bk_out := bk_out w1 @ ''fleetctl backup-worker: '' @ counts_text fl s @ [NL] @ join_with [NL] (su_lines s) @ [NL] \<rparr>)
         in (if 0 < su_failed s then Some (BwkFailed (su_failed s) (su_total s)) else None, w2)))"

definition backup_nodes_path :: path where "backup_nodes_path = ''~/.hermes/nodes.txt''"
definition backup_dest_root :: path where "backup_dest_root = ''~/.hermes/worker-backups''"
definition backup_worker_log_path :: path where "backup_worker_log_path = ''~/.hermes/logs/owera-backup-worker.jsonl''"

definition run_backup_worker :: "pull_env \<Rightarrow> bw_pull_flags \<Rightarrow> fs \<Rightarrow> bwk_err option \<times> bk_world" where
  "run_backup_worker env fl fs =
     (let w0 = \<lparr> bk_fs = fs, bk_ran = [], bk_events = 0, bk_out = [] \<rparr> in
      case pv_look_path env ''rsync'' of
        Some m \<Rightarrow> (Some (BwkNoRsync m), w0)
      | None \<Rightarrow>
     (case expand_home_path (pv_home env) backup_nodes_path of Inl m \<Rightarrow> (Some (BwkHome m), w0) | Inr np \<Rightarrow>
     (case expand_home_path (pv_home env) backup_dest_root of Inl m \<Rightarrow> (Some (BwkHome m), w0) | Inr root \<Rightarrow>
     (case os_mkdir_all (pv_flt env) fs root mode_0755 of
        Inl (e, fs1) \<Rightarrow> (Some (BwkMkdir root e), w0\<lparr> bk_fs := fs1 \<rparr>)
      | Inr fs1 \<Rightarrow>
     (case expand_home_path (pv_home env) backup_worker_log_path of Inl m \<Rightarrow> (Some (BwkHome m), w0\<lparr> bk_fs := fs1 \<rparr>) | Inr lp \<Rightarrow>
     (case log_open (pv_flt env) fs1 lp of
        Inl (e, fs2) \<Rightarrow> (Some (BwkLog e), w0\<lparr> bk_fs := fs2 \<rparr>)
      | Inr (l, fs2) \<Rightarrow>
          (case resolve_backup_targets (pv_home env) (pv_flt env) fs2 np (pf_filter fl) of
             Inl e \<Rightarrow> (Some (BwkNodes e), w0\<lparr> bk_fs := fs2 \<rparr>)
           | Inr ts \<Rightarrow>
               if ts = [] then (Some BwkNone, w0\<lparr> bk_fs := fs2 \<rparr>)
               else finish_pull env fl l (pull_workers env fl l root 0 ts
                      (\<lparr> su_total = length ts, su_ok = 0, su_failed = 0, su_lines = [] \<rparr>, w0\<lparr> bk_fs := fs2 \<rparr>)))))))))"

section \<open>What a backup runs\<close>

lemma bk_run_ran: "bk_run prog argv w = (a, w') \<Longrightarrow> bk_ran w' = bk_ran w @ [argv] \<and> a = fst (prog (bk_ran w) argv (bk_fs w)) \<and> bk_fs w' = snd (prog (bk_ran w) argv (bk_fs w))"
  by (auto simp: bk_run_def split: prod.splits)

lemma bk_log_ran [simp]: "bk_ran (bk_log flt l clk ev w) = bk_ran w"
  by (simp add: bk_log_def)

abbreviation probe_args :: "string list" where "probe_args \<equiv> [''restic'', ''snapshots'', ''--no-lock'', ''--json'']"
abbreviation init_args :: "string list" where "init_args \<equiv> [''restic'', ''init'']"

lemma ensure_ran:
  assumes "ensure_restic_repo env l w = (e, w')"
  shows "bk_ran w' = bk_ran w @ [probe_args] \<or> bk_ran w' = bk_ran w @ [probe_args, init_args]"
proof -
  obtain m se w1 where p: "bk_run (ke_prog env) probe_args w = ((m, se), w1)" by (metis prod.collapse)
  have 1: "bk_ran w1 = bk_ran w @ [probe_args]" using bk_run_ran [OF p] by simp
  show ?thesis
  proof (cases m)
    case None
    then show ?thesis using assms p 1 by (simp add: ensure_restic_repo_def)
  next
    case (Some x)
    let ?w2 = "bk_log (ke_flt env) l (ke_clk env) (bk_event ''init'' ''ok'' ''probe failed; attempting restic init (idempotent)'') w1"
    obtain m2 se2 w3 where i: "bk_run (ke_prog env) init_args ?w2 = ((m2, se2), w3)" by (metis prod.collapse)
    have "bk_ran w3 = bk_ran w @ [probe_args, init_args]" using bk_run_ran [OF i] 1 by simp
    then show ?thesis using assms p Some i by (auto simp: ensure_restic_repo_def Let_def split: option.splits if_splits)
  qed
qed

lemma snapshot_ran:
  assumes "run_restic_backup env l src tags dry w = (e, w')"
  shows "bk_ran w' = bk_ran w @ [snapshot_args src tags dry]"
    "e = None \<longleftrightarrow> fst (fst (ke_prog env (bk_ran w) (snapshot_args src tags dry) (bk_fs w))) = None"
proof -
  obtain m se w1 where r: "bk_run (ke_prog env) (snapshot_args src tags dry) w = ((m, se), w1)" by (metis prod.collapse)
  note f = bk_run_ran [OF r]
  then have "m = fst (fst (ke_prog env (bk_ran w) (snapshot_args src tags dry) (bk_fs w)))" by (metis fst_conv)
  then show "bk_ran w' = bk_ran w @ [snapshot_args src tags dry]"
    "e = None \<longleftrightarrow> fst (fst (ke_prog env (bk_ran w) (snapshot_args src tags dry) (bk_fs w))) = None"
    using assms r f by (auto simp: run_restic_backup_def split: option.splits)
qed

lemma forget_ran:
  assumes "run_restic_forget env l tags fl w = (e, w')"
  shows "bk_ran w' = bk_ran w @ [forget_args tags fl]"
proof -
  obtain m se w1 where r: "bk_run (ke_prog env) (forget_args tags fl) w = ((m, se), w1)" by (metis prod.collapse)
  moreover have "bk_ran w1 = bk_ran w @ [forget_args tags fl]" using bk_run_ran [OF r] by blast
  ultimately show ?thesis using assms by (cases m) (auto simp: run_restic_forget_def)
qed

lemma after_ran: "bk_ran (after_snapshot env fl l src tags start w) = bk_ran w @ [forget_args tags fl]"
proof -
  obtain m w1 where "run_restic_forget env l tags fl w = (m, w1)" by (metis surj_pair)
  then show ?thesis using forget_ran by (auto simp: after_snapshot_def Let_def split: option.splits sum.splits prod.splits)
qed

lemma finish_ran [simp]: "bk_ran (finish_backup env fl l host start w) = bk_ran w"
  by (simp add: finish_backup_def Let_def)

lemma body_shape:
  defines "tags \<equiv> \<lambda>fl env. tag_args fl (short_hostname (ke_host env))"
  assumes "backup_body env fl l src w = (e, w')" "bk_ran w = []"
  obtains (repo) pre where "pre = [probe_args] \<or> pre = [probe_args, init_args]" "e \<noteq> None" "bk_ran w' = pre"
  | (snap) pre f where "pre = [probe_args] \<or> pre = [probe_args, init_args]" "e \<noteq> None" "bk_ran w' = pre @ [snapshot_args src (tags fl env) (kf_dry_run fl)]"
      "fst (fst (ke_prog env pre (snapshot_args src (tags fl env) (kf_dry_run fl)) f)) \<noteq> None"
  | (good) pre f where "pre = [probe_args] \<or> pre = [probe_args, init_args]" "e = None"
      "bk_ran w' = pre @ [snapshot_args src (tags fl env) (kf_dry_run fl)] @ (if kf_dry_run fl then [] else [forget_args (tags fl env) fl])"
      "fst (fst (ke_prog env pre (snapshot_args src (tags fl env) (kf_dry_run fl)) f)) = None"
proof -
  obtain e1 w1 where r: "ensure_restic_repo env l w = (e1, w1)" by (metis surj_pair)
  obtain e2 w2 where s: "run_restic_backup env l src (tags fl env) (kf_dry_run fl) w1 = (e2, w2)" by (metis surj_pair)
  note 1 = ensure_ran [OF r, unfolded assms(3) append_Nil] and 2 = snapshot_ran [OF s]
  show thesis
  proof (cases e1)
    case (Some x)
    then show thesis using repo [OF 1] assms(2) r by (auto simp: backup_body_def Let_def)
  next
    case n: None
    show thesis
    proof (cases e2)
      case (Some x)
      then have "e \<noteq> None" "w' = w2" using assms(2) r s n by (auto simp: backup_body_def tags_def Let_def)
      then show thesis using snap [OF 1, of "bk_fs w1"] 2 Some by simp
    next
      case None
      then have "e = None" "w' = finish_backup env fl l (short_hostname (ke_host env)) (ke_now env (bk_ran w1))
          (if kf_dry_run fl then w2 else after_snapshot env fl l src (tags fl env) (ke_now env (bk_ran w1)) w2)"
        using assms(2) r s n by (auto simp: backup_body_def tags_def Let_def)
      then show thesis using good [OF 1, of "bk_fs w1"] 2 None by (simp add: after_ran)
    qed
  qed
qed

text \<open>The programs a backup runs: the probe of the repository, its initialisation when the probe failed, the
  snapshot, and the pruning only after a snapshot that succeeded and never in a dry run; the command succeeds exactly
  when the snapshot did.\<close>

theorem backup_order:
  assumes "run_backup env fl fs = (e, w)"
  shows "bk_ran w = [] \<and> e \<noteq> None \<or>
    (\<exists>src tags pre f. (pre = [probe_args] \<or> pre = [probe_args, init_args]) \<and>
       (bk_ran w = pre \<and> e \<noteq> None
        \<or> bk_ran w = pre @ [snapshot_args src tags (kf_dry_run fl)] \<and> e \<noteq> None \<and> fst (fst (ke_prog env pre (snapshot_args src tags (kf_dry_run fl)) f)) \<noteq> None
        \<or> bk_ran w = pre @ [snapshot_args src tags (kf_dry_run fl)] @ (if kf_dry_run fl then [] else [forget_args tags fl])
            \<and> e = None \<and> fst (fst (ke_prog env pre (snapshot_args src tags (kf_dry_run fl)) f)) = None))"
proof -
  from assms consider "bk_ran w = []" "e \<noteq> None" | l src f where "backup_body env fl l src \<lparr> bk_fs = f, bk_ran = [], bk_events = 0, bk_out = [] \<rparr> = (e, w)"
    by (auto simp: run_backup_def Let_def split: if_splits option.splits sum.splits prod.splits)
  then show ?thesis
  proof cases
    case 2
    then show ?thesis by (rule body_shape) (simp, blast+)
  qed simp
qed

section \<open>The marker of the last backup\<close>

lemma last_clean_child:
  assumes "d \<noteq> []" "plain_name n"
  shows "last (clean_path (d @ SLASH # n)) = last n"
proof -
  have "clean_stack (d @ SLASH # n) = n # clean_stack d"
    using assms by (simp add: clean_stack_def split_on_append_gen is_rooted_append plain_name_def split_on_no_sep seg_step_def)
  then show ?thesis using assms(2)
    by (cases "clean_stack d = []") (auto simp: clean_path_def render_path_def join_with_snoc plain_name_def)
qed

text \<open>Programs that leave a file alone.\<close>

definition spares :: "program \<Rightarrow> path \<Rightarrow> bool" where
  "spares prog p \<longleftrightarrow> (\<forall>ran argv f. file_data (snd (prog ran argv f)) p = file_data f p)"

lemma bk_run_spares: "spares prog p \<Longrightarrow> bk_run prog argv w = (a, w') \<Longrightarrow> file_data (bk_fs w') p = file_data (bk_fs w) p"
  using bk_run_ran by (auto simp: spares_def)

lemma bk_log_other: "lg_w l \<noteq> Some p \<Longrightarrow> file_data (bk_fs (bk_log flt l clk ev w)) p = file_data (bk_fs w) p"
  using log_step_other [of l p flt "bk_fs w" "(clk (bk_events w), ev)"] by (simp add: bk_log_def file_data_def)

lemma ensure_other:
  assumes "ensure_restic_repo env l w = (e, w')" "spares (ke_prog env) p" "lg_w l \<noteq> Some p"
  shows "file_data (bk_fs w') p = file_data (bk_fs w) p"
  using assms bk_run_spares [OF assms(2)] bk_log_other [OF assms(3)]
  by (auto simp: ensure_restic_repo_def Let_def split: prod.splits option.splits if_splits)

lemma snapshot_other:
  assumes "run_restic_backup env l src tags dry w = (e, w')" "spares (ke_prog env) p" "lg_w l \<noteq> Some p"
  shows "file_data (bk_fs w') p = file_data (bk_fs w) p"
  using assms bk_run_spares [OF assms(2)] bk_log_other [OF assms(3)]
  by (auto simp: run_restic_backup_def split: prod.splits option.splits)

lemma forget_other:
  assumes "run_restic_forget env l tags fl w = (e, w')" "spares (ke_prog env) p" "lg_w l \<noteq> Some p"
  shows "file_data (bk_fs w') p = file_data (bk_fs w) p"
  using assms bk_run_spares [OF assms(2)] bk_log_other [OF assms(3)]
  by (auto simp: run_restic_forget_def split: prod.splits option.splits)

lemma finish_other: "lg_w l \<noteq> Some p \<Longrightarrow> file_data (bk_fs (finish_backup env fl l host start w)) p = file_data (bk_fs w) p"
  using bk_log_other by (simp add: finish_backup_def Let_def)

text \<open>What a write of a whole file leaves: the old file when it cannot be opened, else the new content, cut where the
  write failed.\<close>

abbreviation cut_write :: "faults \<Rightarrow> path \<Rightarrow> bytes \<Rightarrow> bytes" where
  "cut_write flt p b \<equiv> (case flt (FWrite p) of None \<Rightarrow> b | Some (k, _) \<Rightarrow> take k b)"

lemma write_file_exact:
  assumes "os_write_file flt fs p b m = ok fs' \<or> os_write_file flt fs p b m = err (e, fs')"
  shows "file_data fs' p = file_data fs p \<or> file_data fs' p = Some (cut_write flt p b)"
    "file_data fs p \<noteq> None \<Longrightarrow> flt (FOpen p) = None \<Longrightarrow> file_data fs' p = Some (cut_write flt p b)"
proof -
  have opened: "file_data fs' p = Some (cut_write flt p b)" if op: "os_open_create flt True fs p m = ok fs1" for fs1
  proof -
    obtain md where d: "map_of fs1 p = Some (File [] md)"
      using op by (auto simp: os_open_create_def update_conv split: option.splits fnode.splits if_splits)
    then show ?thesis
      using assms op by (auto simp: os_write_file_def os_write_def os_close_def file_data_def update_conv Let_def split: option.splits prod.splits)
  qed
  have shut: "fs' = fs" if "os_open_create flt True fs p m = err x" for x using assms that by (auto simp: os_write_file_def)
  show "file_data fs' p = file_data fs p \<or> file_data fs' p = Some (cut_write flt p b)"
    using opened shut by (cases "os_open_create flt True fs p m") auto
  assume "file_data fs p \<noteq> None" "flt (FOpen p) = None"
  then obtain fs1 where "os_open_create flt True fs p m = ok fs1"
    by (auto simp: file_data_def os_open_create_def split: option.splits fnode.splits)
  then show "file_data fs' p = Some (cut_write flt p b)" by (rule opened)
qed

lemma marker_written:
  fixes env fl l src tags start w
  defines "M \<equiv> last_backup_path src" and "w' \<equiv> after_snapshot env fl l src tags start w"
  assumes "spares (ke_prog env) M" "lg_w l \<noteq> Some M"
  shows "file_data (bk_fs w') M = file_data (bk_fs w) M \<or> file_data (bk_fs w') M = Some (cut_write (ke_flt env) M (marker_text start))"
    "file_data (bk_fs w) M \<noteq> None \<Longrightarrow> ke_flt env (FOpen M) = None
       \<Longrightarrow> file_data (bk_fs w') M = Some (cut_write (ke_flt env) M (marker_text start))"
proof -
  obtain m w1 where r: "run_restic_forget env l tags fl w = (m, w1)" by (metis surj_pair)
  define w2 where "w2 = (case m of None \<Rightarrow> w1 | Some x \<Rightarrow> bk_log (ke_flt env) l (ke_clk env) (bk_event ''forget-prune'' ''warn'' x) w1)"
  have 2: "file_data (bk_fs w2) M = file_data (bk_fs w) M"
    using forget_other [OF r assms(3,4)] bk_log_other [OF assms(4)] by (simp add: w2_def split: option.splits)
  obtain x f where f: "os_write_file (ke_flt env) (bk_fs w2) M (marker_text start) mode_0644 = ok f
      \<or> os_write_file (ke_flt env) (bk_fs w2) M (marker_text start) mode_0644 = err (x, f)" by (metis obj_sumE surj_pair)
  then have "file_data (bk_fs w') M = file_data f M"
    using r bk_log_other [OF assms(4)] by (auto simp: w'_def M_def after_snapshot_def write_last_backup_marker_def Let_def simp flip: w2_def)
  with write_file_exact [OF f] 2
  show "file_data (bk_fs w') M = file_data (bk_fs w) M \<or> file_data (bk_fs w') M = Some (cut_write (ke_flt env) M (marker_text start))"
    "file_data (bk_fs w) M \<noteq> None \<Longrightarrow> ke_flt env (FOpen M) = None
       \<Longrightarrow> file_data (bk_fs w') M = Some (cut_write (ke_flt env) M (marker_text start))" by simp_all
qed

text \<open>The marker a run leaves: restic accepted the snapshot, the retention ran after it, and the file holds, whole unless its
  write failed, the time read when the repository had been probed and the snapshot was about to start.\<close>

definition marked_by :: "bk_env \<Rightarrow> bk_flags \<Rightarrow> path \<Rightarrow> bk_world \<Rightarrow> bool" where
  "marked_by env fl src w \<longleftrightarrow>
     (\<exists>pre tags f. (pre = [probe_args] \<or> pre = [probe_args, init_args])
        \<and> bk_ran w = pre @ [snapshot_args src tags False, forget_args tags fl]
        \<and> fst (fst (ke_prog env pre (snapshot_args src tags False) f)) = None
        \<and> file_data (bk_fs w) (last_backup_path src) = Some (cut_write (ke_flt env) (last_backup_path src) (marker_text (ke_now env pre))))"

text \<open>C15. The marker is honest.  When the programs leave \<open>LAST_BACKUP\<close> alone, it changes only in a run that is no dry run,
  that succeeded and whose snapshot restic accepted, and then it holds the time read between the probe of the repository and
  the snapshot, whole unless a write to it failed; and every such run updates a marker that is there, unless it cannot be opened.\<close>

theorem backup_marker_honest:
  assumes "run_backup env fl fs = (e, w)" "ke_home env = ok h" "spares (ke_prog env) (last_backup_path (h @ ''/.hermes''))"
  shows "(file_data (bk_fs w) (last_backup_path (h @ ''/.hermes'')) \<noteq> file_data fs (last_backup_path (h @ ''/.hermes''))
      \<longrightarrow> e = None \<and> \<not> kf_dry_run fl \<and> marked_by env fl (h @ ''/.hermes'') w)
    \<and> (e = None \<and> \<not> kf_dry_run fl \<and> file_data fs (last_backup_path (h @ ''/.hermes'')) \<noteq> None
        \<and> ke_flt env (FOpen (last_backup_path (h @ ''/.hermes''))) = None
      \<longrightarrow> marked_by env fl (h @ ''/.hermes'') w)"
proof (cases "file_data (bk_fs w) (last_backup_path (h @ ''/.hermes'')) \<noteq> file_data fs (last_backup_path (h @ ''/.hermes'')) \<or> e = None")
  case True
  let ?src = "h @ ''/.hermes''" let ?m = "last_backup_path ?src" and ?lp = "h @ ''/.hermes/logs/owera-backup.jsonl''"
  have src: "expand_home_path (ke_home env) backup_src_dir = ok ?src" and lp: "expand_home_path (ke_home env) backup_log_path = ok ?lp"
    using assms(2) by (simp_all add: expand_home_path_def backup_src_dir_def backup_log_path_def has_prefix_def)
  have "last ?m = CHR ''P''" using last_clean_child [of ?src "''LAST_BACKUP''"] by (simp add: last_backup_path_def plain_name_def)
  then have "last ?lp \<noteq> last ?m" by simp
  then have ml: "?lp \<noteq> ?m" by metis
  have mk: "os_mkdir_all (ke_flt env) fs (dir_path ?lp) mode_0755 = ok f \<or> os_mkdir_all (ke_flt env) fs (dir_path ?lp) mode_0755 = err (x, f)
      \<Longrightarrow> file_data f ?m = file_data fs ?m" for f x using mkdir_keeps_files mkdir_all_err by blast
  note lo = log_open_other [OF ml [symmetric]]
  obtain l f1 f2 where o: "os_mkdir_all (ke_flt env) fs (dir_path ?lp) mode_0755 = ok f1" "log_open (ke_flt env) f1 ?lp = ok (l, f2)"
    "backup_body env fl l ?src \<lparr> bk_fs = f2, bk_ran = [], bk_events = 0, bk_out = [] \<rparr> = (e, w)"
    using assms(1) True mk lo
    by (auto simp: run_backup_def Let_def src lp split: if_splits option.splits sum.splits prod.splits)
  have w0: "file_data f2 ?m = file_data fs ?m" using mkdir_keeps_files [OF o(1)] lo(1) [OF o(2)] by simp
  have lw: "lg_w l \<noteq> Some ?m" using o(2) ml by (auto simp: log_open_def log_new_def split: if_splits sum.splits)
  note other = ensure_other [OF _ assms(3) lw] snapshot_other [OF _ assms(3) lw] forget_other [OF _ assms(3) lw] finish_other [OF lw]
  let ?tags = "tag_args fl (short_hostname (ke_host env))"
  obtain e1 w1 where r: "ensure_restic_repo env l \<lparr> bk_fs = f2, bk_ran = [], bk_events = 0, bk_out = [] \<rparr> = (e1, w1)" by (metis surj_pair)
  obtain e2 w2 where s: "run_restic_backup env l ?src ?tags (kf_dry_run fl) w1 = (e2, w2)" by (metis surj_pair)
  have m2: "file_data (bk_fs w2) ?m = file_data fs ?m" "file_data (bk_fs w1) ?m = file_data fs ?m" using other(1) [OF r] other(2) [OF s] w0 by simp_all
  have body: "e1 = None" "e2 = None" "e = None"
    "w = finish_backup env fl l (short_hostname (ke_host env)) (ke_now env (bk_ran w1))
       (if kf_dry_run fl then w2 else after_snapshot env fl l ?src ?tags (ke_now env (bk_ran w1)) w2)"
    using o(3) r s m2 True other(4) by (auto simp: backup_body_def Let_def split: option.splits if_splits)
  have pre: "bk_ran w1 = [probe_args] \<or> bk_ran w1 = [probe_args, init_args]" using ensure_ran [OF r] by simp
  show ?thesis
  proof (cases "kf_dry_run fl")
    case True
    then show ?thesis using body other(4) m2(1) by simp
  next
    case False
    let ?w3 = "after_snapshot env fl l ?src ?tags (ke_now env (bk_ran w1)) w2" and ?t = "cut_write (ke_flt env) ?m (marker_text (ke_now env (bk_ran w1)))"
    have fs: "file_data (bk_fs w) ?m = file_data (bk_fs ?w3) ?m" using body(4) False other(4) by simp
    note mw = marker_written [where fl = fl and tags = ?tags and start = "ke_now env (bk_ran w1)" and w = w2, OF assms(3) lw, unfolded m2(1)]
    have "bk_ran w = bk_ran w1 @ [snapshot_args ?src ?tags False, forget_args ?tags fl]"
      "fst (fst (ke_prog env (bk_ran w1) (snapshot_args ?src ?tags False) (bk_fs w1))) = None"
      using body False snapshot_ran [OF s] by (simp_all add: after_ran)
    then have "file_data (bk_fs w) ?m = Some ?t \<Longrightarrow> marked_by env fl ?src w" unfolding marked_by_def using pre by blast
    then show ?thesis using mw fs body(3) False by auto
  qed
qed auto

definition demo_bk_env :: bk_env where
  "demo_bk_env = \<lparr> ke_flt = no_faults, ke_home = ok ''/g'', ke_getenv = (\<lambda>_. ''x''), ke_look_path = (\<lambda>_. None), ke_host = ok ''gw.local'',
     ke_prog = (\<lambda>_ _ f. ((None, []), f)), ke_clk = (\<lambda>_. time_utc 5), ke_now = (\<lambda>ran. time_utc (int (length ran))), ke_text = (\<lambda>_ _. []) \<rparr>"

definition demo_bk_flags :: bk_flags where
  "demo_bk_flags = \<lparr> kf_quiet = True, kf_dry_run = False, kf_tag = ''hermes-state'', kf_keep_daily = 7, kf_keep_weekly = 4, kf_keep_monthly = 6 \<rparr>"

definition demo_bk_fs :: fs where
  "demo_bk_fs = [(''/g'', Dir mode_0755), (''/g/.hermes'', Dir mode_0755), (''/g/.hermes/logs'', Dir mode_0755),
     (''/g/.hermes/LAST_BACKUP'', File ''old'' mode_0644)]"

lemma demo_bk_body: "fst (backup_body demo_bk_env demo_bk_flags l src w) = None"
proof -
  have p: "ke_prog demo_bk_env = (\<lambda>_ _ f. ((None, []), f))" by (simp add: demo_bk_env_def)
  have "fst (ensure_restic_repo demo_bk_env l w) = None" for w by (simp add: ensure_restic_repo_def bk_run_def p)
  moreover have "fst (run_restic_backup demo_bk_env l src tags d w) = None" for tags d w by (simp add: run_restic_backup_def bk_run_def p)
  moreover obtain e1 w1 where e: "ensure_restic_repo demo_bk_env l w = (e1, w1)" by (metis surj_pair)
  moreover obtain e2 w2 where "run_restic_backup demo_bk_env l src (tag_args demo_bk_flags (short_hostname (ke_host demo_bk_env)))
      (kf_dry_run demo_bk_flags) w1 = (e2, w2)" by (metis surj_pair)
  ultimately have "e1 = None" "e2 = None" by (metis fst_conv)+
  then show ?thesis using e \<open>run_restic_backup _ _ _ _ _ _ = _\<close> by (simp add: backup_body_def Let_def)
qed

theorem backup_marker_honest_witness:
  "\<exists>n. 1 \<le> n \<and> n \<le> 2 \<and> file_data (bk_fs (snd (run_backup demo_bk_env demo_bk_flags demo_bk_fs))) ''/g/.hermes/LAST_BACKUP''
     = Some (marker_text (time_utc n))"
proof -
  let ?lp = "''/g/.hermes/logs/owera-backup.jsonl''" and ?M = "''/g/.hermes/LAST_BACKUP''"
  obtain e w where run: "run_backup demo_bk_env demo_bk_flags demo_bk_fs = (e, w)" by (metis surj_pair)
  define f2 where "f2 = AList.update ?lp (File [] mode_0644) demo_bk_fs"
  have c: "os_mkdir_all no_faults demo_bk_fs (dir_path ?lp) mode_0755 = ok demo_bk_fs" "os_open_create no_faults False demo_bk_fs ?lp mode_0644 = ok f2"
    "os_stat no_faults demo_bk_fs ''/g/.hermes'' = ok (Dir mode_0755)" unfolding f2_def by code_simp+
  have h: "expand_home_path (ok ''/g'') backup_src_dir = ok ''/g/.hermes''" "expand_home_path (ok ''/g'') backup_log_path = ok ?lp" by code_simp+
  have env: "ke_getenv demo_bk_env x = ''x''" "ke_look_path demo_bk_env x = None" "ke_home demo_bk_env = ok ''/g''" "ke_flt demo_bk_env = no_faults" for x
    by (simp_all add: demo_bk_env_def)
  have o: "log_open no_faults demo_bk_fs ?lp = ok (log_new ?lp True, f2)" by (simp add: log_open_def c)
  let ?w = "\<lparr> bk_fs = f2, bk_ran = [], bk_events = 0, bk_out = [] \<rparr>"
  have "run_backup demo_bk_env demo_bk_flags demo_bk_fs = backup_body demo_bk_env demo_bk_flags (log_new ?lp True) ''/g/.hermes'' ?w"
    using c(2) by (simp only: run_backup_def env h c(1,3) o Let_def sum.case option.case prod.case if_False bk_world.simps list.simps simp_thms)
  then have e: "e = None" using run demo_bk_body by (metis fst_conv)
  have mp: "last_backup_path (''/g'' @ ''/.hermes'') = ?M" "last_backup_path ''/g/.hermes'' = ?M" by code_simp+
  have sp: "spares (ke_prog demo_bk_env) (last_backup_path (''/g'' @ ''/.hermes''))" by (simp add: spares_def demo_bk_env_def)
  have "file_data demo_bk_fs ?M \<noteq> None" "\<not> kf_dry_run demo_bk_flags" by (simp_all add: file_data_def demo_bk_fs_def demo_bk_flags_def)
  then have "marked_by demo_bk_env demo_bk_flags (''/g'' @ ''/.hermes'') w"
    using backup_marker_honest [OF run env(3) sp, unfolded mp(1) env(4)] e by simp
  then obtain pre where "pre = [probe_args] \<or> pre = [probe_args, init_args]" "file_data (bk_fs w) ?M = Some (marker_text (ke_now demo_bk_env pre))"
    unfolding marked_by_def mp(1) env by auto
  then show ?thesis unfolding run snd_conv by (intro exI [of _ "int (length pre)"]) (auto simp: demo_bk_env_def)
qed

section \<open>The pull\<close>

lemma pull_step_counts:
  assumes "pull_step env fl l root i n (s, w) = (s', w')"
  shows "su_total s' = su_total s" "su_ok s' + su_failed s' = Suc (su_ok s + su_failed s)" "length (su_lines s') = Suc (length (su_lines s))"
  using assms by (auto simp: pull_step_def Let_def split: prod.splits option.splits)

lemma pull_counts:
  "pull_workers env fl l root i ns (s, w) = (s', w') \<Longrightarrow>
     su_total s' = su_total s \<and> su_ok s' + su_failed s' = su_ok s + su_failed s + length ns \<and> length (su_lines s') = length (su_lines s) + length ns"
proof (induction ns arbitrary: i s w)
  case (Cons n ns)
  obtain s1 w1 where st: "pull_step env fl l root i n (s, w) = (s1, w1)" by (metis surj_pair)
  then have "pull_workers env fl l root (Suc i) ns (s1, w1) = (s', w')" using Cons.prems by simp
  from Cons.IH [OF this] pull_step_counts [OF st] show ?case by simp
qed simp

text \<open>The counts add up, and the command fails exactly when a worker did; the event \<open>run-complete\<close> says ok in either case.\<close>

theorem pull_summary_exact:
  assumes "pull_workers env fl l root 0 ts (\<lparr> su_total = length ts, su_ok = 0, su_failed = 0, su_lines = [] \<rparr>, w) = (s, w1)"
  shows "su_ok s + su_failed s = su_total s" "fst (finish_pull env fl l (s, w1)) = None \<longleftrightarrow> su_ok s = su_total s"
    "le_result (pull_complete_event fl s) = ''ok''"
  using pull_counts [OF assms] by (auto simp: finish_pull_def pull_complete_event_def Let_def)

text \<open>Each worker with a plain host name has its own directory below the root; a name of \<open>nodes.txt\<close> need not be plain, and
  \<open>rsync --delete\<close> then works on another directory, here on the state of the gateway itself.\<close>

theorem pull_dest_plain:
  assumes "proper_dir root" "plain_name (n_host n)"
  shows "pull_dest root n = root @ SLASH # n_host n"
  using join2_child [OF assms] by (simp add: pull_dest_def del: join_path.simps)

theorem pull_dest_escapes:
  "parse_line 0 ''u@..'' = ok (Some \<lparr> n_user = ''u'', n_host = ''..'' \<rparr>)"
  "pull_dest ''/g/.hermes/worker-backups'' \<lparr> n_user = ''u'', n_host = ''..'' \<rparr> = ''/g/.hermes''"
  by code_simp+

text \<open>Two accounts on one host share a directory, so the second pull deletes what the first brought.\<close>

theorem pull_dest_shared: "n_host a = n_host b \<Longrightarrow> pull_dest root a = pull_dest root b"
  by (simp add: pull_dest_def)

end
