(* ===== verification/Spec2Isabelle.thy ===== *)
theory Spec2Isabelle
  imports Nodes Ledger_Runs Budget Pairing Markers Run_Registry Rpc_Server Cancel_Task Ledger_Tail Submit_Job Skus Orchestrator Health_Snapshot Health_Diff Skill_Sync Heartbeats_Bridge Hermes_Release Ssh_Client Delegate Log_Aggregate Secrets Launch_Agents Logrotate Bootstrap_Trail Backup
begin

text \<open>
  Verification of owera-fleet, the control plane of a small fleet of agent workers.  The program
  is the Go code under \<open>src/internal\<close> (the packages) and \<open>src/cmd/fleetctl\<close> (the command line).

  \<^bold>\<open>The program.\<close>  A gateway machine knows its workers from \<open>nodes.txt\<close>, reaches them over SSH, and
  keeps everything it does in files under the home directory of the operator: a signed ledger per
  task, an action log of JSON lines, pairings and budgets of external callers, markers of finished
  steps, heartbeats of the workers.  A JSON-RPC server accepts jobs, which a
  registry of SKU routers turns into runs; a run can be cancelled, its ledger tailed, and the health
  of the fleet asked for.  Configuration and skills travel as signed bundles.  Nearly every
  operation is a function of the file system, of the clock and of what a worker or a program
  answers, and it is modelled as such: the state goes in and comes out, errors are values of a sum,
  and what the operating system or a library answers is an argument.

  \<^bold>\<open>What the code takes from Go.\<close>
  \<^item> \<open>Go_Prelude\<close>: byte strings with the functions of \<open>strings\<close> and \<open>bytes\<close>, \<open>strconv.Itoa\<close> and
    \<open>Atoi\<close>, 64-bit integers that wrap, results as sums, sorting, the \<open>named_theorems\<close> collections.
  \<^item> \<open>Go_FS\<close>, \<open>Go_Paths\<close>: \<open>path/filepath\<close> on Unix, and files: a map from clean paths to files and
    directories; the fault table \<open>flt\<close> says which call on which path fails, so every error
    branch of the code is reachable and a theorem that says nothing of \<open>flt\<close> holds under all faults.
  \<^item> \<open>Go_Utf8\<close>, \<open>Go_Json\<close>, \<open>Go_Compact\<close>, \<open>Go_Decode\<close>, \<open>Go_Jsonl\<close>: UTF-8 with the replacement
    character, the byte-driven scanner of \<open>encoding/json\<close>, its encoder, the compaction of raw messages,
    decoding with case-folded keys, and files of JSON lines read through \<open>bufio.Scanner\<close> with its limit
    of 64 KiB.
  \<^item> \<open>Go_Time\<close>, \<open>Go_Duration\<close>: instants in nanoseconds with RFC 3339 text and civil dates; durations as
    64-bit counts that wrap, \<open>Time.Sub\<close> that saturates, their text.
  \<^item> \<open>Go_Base64\<close>, \<open>Go_Quote\<close>: \<open>base64.StdEncoding\<close> and \<open>strconv.Quote\<close>; which runes beyond ASCII are
    printable is an argument.

  \<^bold>\<open>Interfaces.\<close>
  \<^item> \<open>Task_Log\<close>, the locale \<open>task_log\<close>: an append-only log per task.  \<open>Ledger\<close> interprets it
    (\<open>ledger_log\<close>), its clients in \<open>Ledger_Client\<close>, \<open>Submit_Job\<close>, \<open>Skus\<close> and \<open>Orchestrator\<close> rest
    on what follows from it.
  \<^item> \<open>Go_Store\<close>, the locale \<open>flat_record\<close>: a struct of JSON scalars and its members, with the round trip
    through its file.  Interpreted for budgets, pairings, markers and log events.
  \<^item> \<open>KV_Store\<close>, the locale \<open>kv_store\<close>: one value per key.  \<open>Markers\<close> interprets it (\<open>marker_map\<close>).

  \<^bold>\<open>The components.\<close>
  \<^item> \<open>Nodes\<close>: \<open>internal/nodes\<close>, the parser of \<open>nodes.txt\<close>, which a printed registry goes through unchanged.
  \<^item> \<open>Ledger\<close>, \<open>Ledger_Audit\<close>, \<open>Ledger_Runs\<close>, \<open>Ledger_Client\<close>: \<open>internal/ledger\<close>.  \<open>Append\<close>, \<open>Read\<close>,
    \<open>ReadByTenant\<close> and the key functions with every error; the trail refines the sequence of
    appended entries, nothing unsigned is read, a tenant sees its own entries; an entry whose text is
    not UTF-8 is accepted and makes the log unreadable.
  \<^item> \<open>Budget\<close>: \<open>internal/budget\<close>.  Daily caps with 64-bit sums, the lock file, the save by rename; racing
    consumers never exceed a cap, a save that fails anywhere leaves the old state, a huge cost wraps.
  \<^item> \<open>Pairing\<close>: \<open>internal/pairing\<close>.  Tokens are accepted exactly until revoked, whatever comes later.
  \<^item> \<open>Markers\<close>: \<open>internal/markers\<close>, a refinement of a finite map.
  \<^item> \<open>Run_Registry\<close>, \<open>Cancel_Task\<close>, \<open>Submit_Job\<close>, \<open>Ledger_Tail\<close>, \<open>Health_Snapshot\<close>, \<open>Rpc_Server\<close>:
    \<open>internal/runregistry\<close> and \<open>internal/rpc\<close>.  A cancel function is called at most once, a job with a known
    idempotency key is not run again, the polls of a tail give each entry once, one computation
    of the snapshot at a time, and a call through the server gives back the result of its handler.
  \<^item> \<open>Skus\<close>, \<open>Orchestrator\<close>: \<open>internal/skus\<close> and \<open>internal/orchestrator\<close>.  Dispatch and billing; the
    trail of a swarm says its start, the entries and the outcome of each leaf in the order of their
    identifiers, and its end.
  \<^item> \<open>Health_Diff\<close>: \<open>internal/healthdiff\<close>.  Parser of the report, rules per field, severities, renderers.
  \<^item> \<open>Config_Sync\<close>, \<open>Config_Pack\<close>, \<open>Skill_Sync\<close>: \<open>internal/configsync\<close> and \<open>internal/skillsync\<close>.  What
    was packed and signed verifies; applying a bundle touches nothing outside its directory.
  \<^item> \<open>Fleet_Log\<close>, \<open>Alerting\<close>, \<open>Watchdog\<close>, \<open>Heartbeats_Bridge\<close>: \<open>internal/log\<close>, \<open>internal/alerting\<close> and the
    two loops over the heartbeats.  Events are read back; alerts of a silent worker keep their distance
    and end with one recovery notice.
  \<^item> \<open>Ssh_Target\<close>, \<open>Ssh_Net\<close>, \<open>Ssh_Client\<close>, \<open>Delegate\<close>, \<open>Log_Aggregate\<close>: \<open>internal/ssh\<close> and its clients.  The
    host key is pinned at first contact, filtered addresses are never dialled; every delegated command
    is logged; whatever a worker sends stays in its landing directory.
  \<^item> \<open>Hermes_Release\<close>: \<open>internal/hermesrelease\<close>, the resolver with its cache.
  \<^item> \<open>Secrets\<close>: \<open>internal/secrets\<close> and \<open>run-with-secrets\<close>, the secrets in front of a child's input.
  \<^item> \<open>Launchd\<close>, \<open>Launch_Agents\<close>: \<open>internal/launchd\<close>, \<open>setup-agent\<close> and the install, uninstall and status commands
    of every agent.  An installation leaves one event and one file, an uninstallation can be repeated.
  \<^item> \<open>Logrotate\<close>, over \<open>Go_Glob\<close> (\<open>filepath.Match\<close> and \<open>Glob\<close>) and \<open>Go_Tree\<close> (file systems of plain paths):
    \<open>fleetctl logrotate\<close>.  A rotation loses no content that was in the log when it began; pruning keeps
    the newest archives.
  \<^item> \<open>Bootstrap\<close> (\<open>internal/bootstrap\<close>), \<open>Bootstrap_Worker\<close> and \<open>Bootstrap_Trail\<close> (\<open>fleetctl bootstrap-worker\<close>): one phase
    with its upload, run and events; the arguments, uploads and temp files of the ten phases; the loop.  The
    command refines an inductive protocol of phases, and Hermes is installed only at its pinned tag.
  \<^item> \<open>Backup\<close>: \<open>fleetctl backup\<close> and \<open>backup-worker\<close>.  Nothing is pruned before a snapshot has landed, and the
    marker of the last backup moves only with a snapshot.

  Names follow the code: \<open>budget_consume\<close> of \<open>Budget\<close> is \<open>Store.Consume\<close>, \<open>pull_one\<close> of \<open>Log_Aggregate\<close> is
  \<open>Aggregator.pullOne\<close>; a struct is a record with a short prefix on its fields.  Each theory opens with what it
  holds and which parts of the code are its arguments.

  \<^bold>\<open>Arguments of the model.\<close>  ed25519 (a signature scheme: what was signed verifies), SHA-256, the writer and
  reader of tar and gzip, crypto/rand and the names of temporary files (lists of draws), clock readings,
  the answers of SSH sessions, of git, of gh and of other programs, the HTTP client, the resolver, the YAML
  parser, environment variables.  Where a theorem needs a law of one of them, the law is a hypothesis and a
  witness instantiates it with a concrete function.

  \<^bold>\<open>Bounds.\<close>  The walk over a directory tree has \<open>walk_fuel\<close>, one more than the longest path of the file system,
  and \<open>pack_walk_ends\<close> shows that this is enough; JSON nests to \<open>max_nesting\<close>, the
  limit of the library; loops that the code runs until a signal are modelled turn by turn, over
  arbitrary lists of turns; a log line with at most \<open>max_names\<close> bytes of names stays below the limit
  of the scanner, since tails are cut to 4096 bytes; retention is exact up to 106751 days, where the
  duration still fits 64 bits.  All other recursion is structural or has a measure.

  \<^bold>\<open>Concurrency.\<close>  What the code does under a lock is one step, except in \<open>Budget\<close>, where opening and taking the lock, loading, and
  deciding with the save are steps of their own.  Budgets, runs, the cache of snapshots
  and the watchdog are transition systems or sequences of steps, and the theorems hold for every
  interleaving; leaves of a swarm and pulls of an aggregation may finish in any order.

  \<^bold>\<open>Not modelled.\<close>  Flag parsing, help text and the printing of the command line; the shell scripts that
  \<open>bootstrap-worker\<close> sends to a worker; \<open>text/template\<close>; the front ends that only start
  an external program (brew, hermes); \<open>net/http\<close> around the RPC server; the end-to-end tests of
  the live deployment;
  the metrics exporter (floating-point values in its text), the drift audit (on a third-party YAML
  parser) and the JSON pluck (which prints floating-point numbers).
\<close>

end
